(* ===== verification/Prelude.thy ===== *)
theory Prelude
  imports Main "HOL-Library.Word"
begin

text \<open>
  Shared vocabulary of the development: bytes and machine words, big- and little-endian
  loads and stores, the bit string of a buffer, and the generic facts about lists and
  words that the components share. Buffers are lists of bytes; a bit string lists the
  bits of a buffer in network order (most significant bit of the first byte first).
\<close>

unbundle bit_operations_syntax

named_theorems bits_simps \<open>rewrite rules about bit strings of words and buffers\<close>

type_synonym byte = "8 word"
type_synonym u16 = "16 word"
type_synonym u32 = "32 word"
type_synonym u64 = "64 word"

section \<open>Loads, stores and byte order\<close>

text \<open>The bytes of a word in memory order on a big-endian and on a little-endian host.\<close>

definition load_be :: "byte list \<Rightarrow> 'a::len word" where
  "load_be bs = foldl (\<lambda>acc b. push_bit 8 acc OR ucast b) 0 bs"

definition store_be :: "nat \<Rightarrow> 'a::len word \<Rightarrow> byte list" where
  "store_be n w = map (\<lambda>i. ucast (drop_bit (8 * (n - 1 - i)) w)) [0..<n]"

definition load_le :: "byte list \<Rightarrow> 'a::len word" where
  "load_le bs = load_be (rev bs)"

definition store_le :: "nat \<Rightarrow> 'a::len word \<Rightarrow> byte list" where
  "store_le n w = rev (store_be n w)"

text \<open>
  \<open>details::byteswapBE\<close>: \<open>std::byteswap\<close> on a little-endian host. The development
  fixes the host to be little-endian, as every platform the repository builds for is.
\<close>

definition byteswapBE :: "'a::len word \<Rightarrow> 'a word" where
  "byteswapBE x = load_be (store_le (LENGTH('a) div 8) x)"

lemma div_8_Suc: "8 \<le> (i::nat) \<Longrightarrow> i div 8 = Suc ((i - 8) div 8)"
  using div_add_self2 [of 8 "i - 8"] by simp

lemma mod_8_diff: "8 \<le> (i::nat) \<Longrightarrow> (i - 8) mod 8 = i mod 8"
  using mod_add_self2 [of "i - 8" 8] by simp

lemma div_mod_8_add:
  "(r::nat) < 8 \<Longrightarrow> (8 * y + r) div 8 = y \<and> (8 * y + r) mod 8 = r"
  by simp

lemma le_round_up_8: "(n::nat) \<le> 8 * ((n + 7) div 8)"
proof -
  obtain m where m: "m = n + 7" by simp
  have "m mod 8 < 8" by simp
  then have "m \<le> 8 * (m div 8) + 7" using div_mult_mod_eq [of m 8] by linarith
  then show ?thesis by (simp add: m)
qed

lemma rev_div_mod_8:
  assumes "q < 8 * (n::nat)"
  shows "(8 * n - 1 - q) div 8 = n - 1 - q div 8" and "(8 * n - 1 - q) mod 8 = 7 - q mod 8"
proof -
  have "q div 8 < n" using assms by (simp add: less_mult_imp_div_less mult.commute)
  then have "8 * n - 1 - q = (7 - q mod 8) + 8 * (n - 1 - q div 8)"
    using div_mult_mod_eq [of q 8] mod_less_divisor [of 8 q] assms by linarith
  moreover have "(r + 8 * y) div 8 = y" "(r + 8 * y) mod 8 = r" if "r < 8" for r y :: nat
    using that by simp_all
  ultimately show "(8 * n - 1 - q) div 8 = n - 1 - q div 8"
    and "(8 * n - 1 - q) mod 8 = 7 - q mod 8"
    using le_less_trans [of "7 - q mod 8" 7 8] by (simp_all only: diff_le_self)
qed

lemma length_store_be [simp]: "length (store_be n w) = n"
  by (simp add: store_be_def)

lemma length_store_le [simp]: "length (store_le n w) = n"
  by (simp add: store_le_def)

lemma load_be_Nil [simp]: "load_be [] = 0"
  by (simp add: load_be_def)

lemma load_be_snoc: "load_be (bs @ [b]) = (push_bit 8 (load_be bs) OR ucast b)"
  by (simp add: load_be_def)

lemma nth_store_be: "i < n \<Longrightarrow> store_be n w ! i = ucast (drop_bit (8 * (n - 1 - i)) w)"
  by (simp add: store_be_def)

lemma bit_load_be:
  "bit (load_be bs :: 'a::len word) i \<longleftrightarrow>
     i < LENGTH('a) \<and> i < 8 * length bs \<and> bit (bs ! (length bs - 1 - i div 8)) (i mod 8)"
proof (induction bs arbitrary: i rule: rev_induct)
  case Nil
  then show ?case by simp
next
  case (snoc b bs)
  show ?case
  proof (cases "i < 8")
    case True
    then show ?thesis
      by (auto simp: load_be_snoc bit_or_iff bit_push_bit_iff bit_ucast_iff nth_append)
  next
    case False
    then obtain j where j: "i = j + 8" using le_Suc_ex [of 8 i] by (auto simp: add.commute)
    have "\<not> bit b (j + 8)"
      using bit_imp_le_length [of b "j + 8"] by auto
    moreover have "(j + 8) div 8 = Suc (j div 8)" by simp
    ultimately show ?thesis
      by (auto simp: j load_be_snoc bit_or_iff bit_push_bit_iff bit_ucast_iff snoc nth_append)
  qed
qed

lemma bit_load_le:
  "bit (load_le bs :: 'a::len word) i \<longleftrightarrow>
     i < LENGTH('a) \<and> i < 8 * length bs \<and> bit (bs ! (i div 8)) (i mod 8)"
proof (cases "i < 8 * length bs")
  case True
  then have "i div 8 < length bs" by (simp add: less_mult_imp_div_less mult.commute)
  then show ?thesis by (auto simp: load_le_def bit_load_be rev_nth)
qed (simp add: load_le_def bit_load_be)

lemma bit_nth_store_be:
  "i < n \<Longrightarrow> bit (store_be n w ! i) k \<longleftrightarrow> k < 8 \<and> bit w (8 * (n - 1 - i) + k)"
  by (auto simp: nth_store_be bit_ucast_iff bit_drop_bit_eq)

lemma load_be_store_be:
  assumes "LENGTH('a::len) \<le> 8 * n"
  shows "load_be (store_be n w) = (w :: 'a word)"
proof (rule bit_word_eqI)
  fix i
  assume i: "i < LENGTH('a)"
  with assms have "i div 8 < n" by (auto simp: less_mult_imp_div_less mult.commute)
  then have "n - 1 - (n - 1 - i div 8) = i div 8" by simp
  with i assms \<open>i div 8 < n\<close> show "bit (load_be (store_be n w) :: 'a word) i = bit w i"
    by (auto simp: bit_load_be bit_nth_store_be)
qed

lemma store_be_load_be:
  assumes "8 * length bs \<le> LENGTH('a::len)"
  shows "store_be (length bs) (load_be bs :: 'a word) = bs"
proof (rule nth_equalityI)
  show "length (store_be (length bs) (load_be bs :: 'a word)) = length bs" by simp
next
  fix i
  assume "i < length (store_be (length bs) (load_be bs :: 'a word))"
  then have i: "i < length bs" by simp
  show "store_be (length bs) (load_be bs :: 'a word) ! i = bs ! i"
  proof (rule bit_word_eqI)
    fix k
    assume "k < LENGTH(8)"
    then have k: "k < 8" by simp
    have "8 * (length bs - 1 - i) + k < 8 * length bs" using i k by linarith
    moreover have "length bs - 1 - (8 * (length bs - 1 - i) + k) div 8 = i" using i k by simp
    ultimately show "bit (store_be (length bs) (load_be bs :: 'a word) ! i) k = bit (bs ! i) k"
      using i k assms by (auto simp: bit_nth_store_be bit_load_be)
  qed
qed

lemma byteswapBE_load_le:
  assumes "LENGTH('a::len) = 8 * length bs"
  shows "byteswapBE (load_le bs :: 'a word) = load_be bs"
  using assms store_be_load_be [of "rev bs", where 'a = 'a]
  by (simp add: byteswapBE_def load_le_def store_le_def)

lemma store_le_byteswapBE:
  assumes "LENGTH('a::len) = 8 * n"
  shows "store_le n (byteswapBE w :: 'a word) = store_be n w"
proof -
  have "store_be n (load_be (store_le n w) :: 'a word) = store_le n w"
    using store_be_load_be [of "store_le n w", where 'a = 'a] assms by simp
  then show ?thesis using assms by (simp add: byteswapBE_def store_le_def)
qed

lemma byteswapBE_involutive:
  assumes "LENGTH('a::len) = 8 * n"
  shows "byteswapBE (byteswapBE w) = (w :: 'a word)"
proof -
  have "byteswapBE (byteswapBE w) = (load_be (store_le n (byteswapBE w)) :: 'a word)"
    using assms by (simp add: byteswapBE_def)
  then show ?thesis using assms by (simp add: store_le_byteswapBE load_be_store_be)
qed

section \<open>Bit strings of buffers and words\<close>

definition byte_bits :: "byte \<Rightarrow> bool list" where
  "byte_bits b = map (\<lambda>i. bit b (7 - i)) [0..<8]"

definition bits_of :: "byte list \<Rightarrow> bool list" where
  "bits_of d = concat (map byte_bits d)"

text \<open>The \<open>n\<close> low bits of a word, most significant first, and the word of a bit string.\<close>

definition to_bits :: "nat \<Rightarrow> 'a::len word \<Rightarrow> bool list" where
  "to_bits n v = map (\<lambda>i. bit v (n - 1 - i)) [0..<n]"

definition of_bits :: "bool list \<Rightarrow> 'a::len word" where
  "of_bits bs = horner_sum of_bool 2 (rev bs)"

lemma nth_byte_bits: "i < 8 \<Longrightarrow> byte_bits b ! i = bit b (7 - i)"
  unfolding byte_bits_def by (subst nth_map) (simp_all del: upt_conv_Cons upt_rec)

lemma length_byte_bits [simp]: "length (byte_bits b) = 8"
  by (simp add: byte_bits_def)

lemma length_bits_of [simp]: "length (bits_of d) = 8 * length d"
  by (induction d) (simp_all add: bits_of_def)

lemma length_to_bits [simp]: "length (to_bits n v) = n"
  by (simp add: to_bits_def)

lemma nth_to_bits: "i < n \<Longrightarrow> to_bits n v ! i = bit v (n - 1 - i)"
  by (simp add: to_bits_def)

lemma to_bits_0 [simp]: "to_bits 0 v = []"
  by (simp add: to_bits_def)

lemma bits_of_Nil [simp]: "bits_of [] = []"
  by (simp add: bits_of_def)

lemma bits_of_Cons: "bits_of (b # d) = byte_bits b @ bits_of d"
  by (simp add: bits_of_def)

lemma bits_of_append [simp]: "bits_of (d @ d') = bits_of d @ bits_of d'"
  by (simp add: bits_of_def)

lemma nth_bits_of:
  "p < 8 * length d \<Longrightarrow> bits_of d ! p = bit (d ! (p div 8)) (7 - p mod 8)"
proof (induction d arbitrary: p)
  case Nil
  then show ?case by simp
next
  case (Cons b d)
  show ?case
  proof (cases "p < 8")
    case True
    then show ?thesis by (simp add: bits_of_Cons nth_append byte_bits_def)
  next
    case False
    then have "p div 8 = Suc ((p - 8) div 8)" "(p - 8) mod 8 = p mod 8"
      using div_8_Suc mod_8_diff by simp_all
    with False Cons show ?thesis by (simp add: bits_of_Cons nth_append)
  qed
qed

lemma take_bits_of: "take (8 * n) (bits_of d) = bits_of (take n d)"
proof (induction d arbitrary: n)
  case (Cons b d)
  then show ?case by (cases n) (simp_all add: bits_of_Cons)
qed simp

lemma drop_bits_of: "drop (8 * n) (bits_of d) = bits_of (drop n d)"
proof (induction d arbitrary: n)
  case (Cons b d)
  then show ?case by (cases n) (simp_all add: bits_of_Cons)
qed simp

lemma byte_bits_inject: "byte_bits a = byte_bits b \<Longrightarrow> a = b"
proof (rule bit_word_eqI)
  fix i
  assume "byte_bits a = byte_bits b" and "i < LENGTH(8)"
  then have "byte_bits a ! (7 - i) = byte_bits b ! (7 - i)" and i: "i < 8" by simp_all
  moreover have "byte_bits c ! (7 - i) = bit c i" for c
    using i by (simp add: nth_byte_bits)
  ultimately show "bit a i = bit b i" by simp
qed

lemma bits_of_inject: "bits_of a = bits_of b \<Longrightarrow> a = b"
proof (induction a arbitrary: b)
  case Nil
  then have "8 * length b = 0" by (metis bits_of_Nil length_bits_of list.size(3))
  then show ?case by simp
next
  case (Cons x a)
  then have "8 * length b = 8 * length (x # a)" by (metis length_bits_of)
  then obtain y b' where b: "b = y # b'" by (cases b) auto
  from Cons.prems have "byte_bits x = byte_bits y \<and> bits_of a = bits_of b'"
    by (simp add: b bits_of_Cons)
  then show ?case using Cons.IH byte_bits_inject by (auto simp: b)
qed

lemma bit_of_bits:
  "bit (of_bits bs :: 'a::len word) i \<longleftrightarrow>
     i < LENGTH('a) \<and> i < length bs \<and> bs ! (length bs - 1 - i)"
  by (auto simp: of_bits_def bit_horner_sum_bit_word_iff rev_nth)

text \<open>A value fits in \<open>n\<close> bits when its bits from \<open>n\<close> on are zero.\<close>

definition fits :: "nat \<Rightarrow> 'a::len word \<Rightarrow> bool" where
  "fits n v \<longleftrightarrow> take_bit n v = v"

lemma fits_length [simp]: "LENGTH('a::len) \<le> n \<Longrightarrow> fits n (v :: 'a word)"
  by (simp add: fits_def take_bit_word_eq_self)

lemma fits_bit: "fits n v \<Longrightarrow> n \<le> i \<Longrightarrow> \<not> bit v i"
  by (metis fits_def bit_take_bit_iff not_less)

lemma of_bits_to_bits:
  assumes "fits n v"
  shows "of_bits (to_bits n v) = v"
proof (rule bit_word_eqI)
  fix i
  assume "i < LENGTH('a)"
  then show "bit (of_bits (to_bits n v) :: 'a word) i = bit v i"
    using fits_bit [OF assms, of i] by (cases "i < n") (auto simp: bit_of_bits nth_to_bits)
qed

lemma fitsI: "(\<And>i. n \<le> i \<Longrightarrow> i < LENGTH('a) \<Longrightarrow> \<not> bit v i) \<Longrightarrow> fits n (v :: 'a::len word)"
  unfolding fits_def by (rule bit_word_eqI) (auto simp: bit_take_bit_iff not_less [symmetric])

lemma fits_or: "fits n a \<Longrightarrow> fits n b \<Longrightarrow> fits n (a OR b)"
  by (simp add: fits_def)

lemma fits_0 [simp]: "fits n 0"
  by (simp add: fits_def)

lemma fits_push_bit: "fits m (v :: 'a::len word) \<Longrightarrow> m + k \<le> n \<Longrightarrow> fits n (push_bit k v)"
  by (rule fitsI) (simp add: bit_push_bit_iff fits_bit)

lemma fits_drop_bit: "LENGTH('a) \<le> n + k \<Longrightarrow> fits n (drop_bit k (v :: 'a::len word))"
  by (rule fitsI) (auto simp: bit_drop_bit_eq dest!: bit_imp_le_length)

lemma fits_of_nat: "v < 2 ^ n \<Longrightarrow> fits n (of_nat v :: 'a::len word)"
  unfolding fits_def by (metis take_bit_of_nat take_bit_nat_eq_self)

lemma fits_le_mask: "(v :: 'a::len word) \<le> mask n \<longleftrightarrow> fits n v"
proof
  assume "v \<le> mask n"
  then have "uint v \<le> uint (mask n :: 'a word)" by (simp add: word_le_def)
  moreover have "uint (mask n :: 'a word) = 2 ^ min LENGTH('a) n - 1"
    unfolding uint_mask_eq by (simp add: mask_eq_exp_minus_1)
  moreover have "(2 :: int) ^ min LENGTH('a) n \<le> 2 ^ n" by (rule power_increasing) simp_all
  ultimately have "uint v < 2 ^ n" by linarith
  then have "take_bit n (uint v) = uint v" by (simp add: take_bit_int_eq_self)
  then show "fits n v" unfolding fits_def by (simp add: word_uint_eq_iff unsigned_take_bit_eq)
next
  assume "fits n v"
  then have "v = v AND mask n" by (simp add: fits_def take_bit_eq_mask)
  then show "v \<le> mask n" by (metis word_and_le1)
qed

lemma mask_shift: "push_bit n 1 - 1 = (mask n :: 'a::len word)"
  by (simp add: mask_eq_decr_exp push_bit_eq_mult)

lemma fits_bitD: "fits n v \<Longrightarrow> bit v i \<Longrightarrow> i < n"
  using fits_bit [of n v i] by (cases "i < n") auto

lemma fits_ucast: "LENGTH('b::len) \<le> n \<Longrightarrow> fits n (ucast (v :: 'b word) :: 'a::len word)"
  by (rule fitsI) (auto simp: bit_ucast_iff dest!: bit_imp_le_length)

lemma ucast_ucast_fits: "fits n v \<Longrightarrow> n \<le> LENGTH('b::len) \<Longrightarrow> ucast (ucast (v :: 'a::len word) :: 'b word) = v"
  by (rule bit_word_eqI) (auto simp: bit_ucast_iff dest: fits_bitD)

lemma ucast_down_up: "LENGTH('a::len) \<le> LENGTH('b::len) \<Longrightarrow> ucast (ucast (v :: 'a word) :: 'b word) = v"
  by (rule bit_word_eqI) (auto simp: bit_ucast_iff dest: bit_imp_le_length)

lemma load_be_4:
  "load_be [a, b, c, d] = (push_bit 24 (ucast a) OR push_bit 16 (ucast b)
     OR push_bit 8 (ucast c) OR (ucast (d :: byte) :: 'a::len word))"
  by (simp add: load_be_def push_bit_or or.assoc)

lemma load_be_8:
  "load_be [a, b, c, d, e, f, g, h] = (push_bit 56 (ucast a) OR push_bit 48 (ucast b)
     OR push_bit 40 (ucast c) OR push_bit 32 (ucast d) OR push_bit 24 (ucast e) OR push_bit 16 (ucast f)
     OR push_bit 8 (ucast g) OR (ucast (h :: byte) :: 'a::len word))"
  by (simp add: load_be_def push_bit_or or.assoc)

lemma store_be_ucast: "8 * n \<le> LENGTH('a::len) \<Longrightarrow> 8 * n \<le> LENGTH('b::len) \<Longrightarrow>
    store_be n (ucast (w :: 'a word) :: 'b word) = store_be n w"
  unfolding store_be_def
  by (intro map_cong bit_word_eqI) (auto simp: bit_ucast_iff bit_drop_bit_eq)

lemma fits_mask: "fits n (v AND mask n)"
  by (simp add: fits_def take_bit_eq_mask and.assoc)

lemma fits_of_bits: "fits (length bs) (of_bits bs)"
  unfolding fits_def
  by (rule bit_word_eqI) (auto simp: bit_take_bit_iff bit_of_bits)

lemma to_bits_of_bits:
  "length bs \<le> LENGTH('a::len) \<Longrightarrow> to_bits (length bs) (of_bits bs :: 'a word) = bs"
  by (rule nth_equalityI) (auto simp: nth_to_bits bit_of_bits)

lemma to_bits_store_be: "to_bits (8 * n) v = bits_of (store_be n v)"
proof (rule nth_equalityI)
  fix i
  assume "i < length (to_bits (8 * n) v)"
  then have i: "i < 8 * n" by simp
  then have d: "i div 8 < n" by (simp add: less_mult_imp_div_less mult.commute)
  have "8 * (n - 1 - i div 8) + (7 - i mod 8) = 8 * n - 1 - i"
  proof -
    have "i mod 8 < 8" by simp
    then show ?thesis using i d div_mult_mod_eq [of i 8] by linarith
  qed
  moreover have "7 - i mod 8 < 8" by simp
  ultimately show "to_bits (8 * n) v ! i = bits_of (store_be n v) ! i"
    using i d by (simp add: nth_to_bits nth_bits_of bit_nth_store_be)
qed simp

lemma bits_of_surj: "length bs mod 8 = 0 \<Longrightarrow> \<exists>d. bits_of d = bs"
proof (induction "length bs div 8" arbitrary: bs)
  case 0
  then have "bs = []" by auto
  then show ?case by (auto intro: exI [of _ "[]"])
next
  case (Suc n)
  then have len: "8 \<le> length bs" by (cases "length bs < 8") auto
  have "n = length (drop 8 bs) div 8" "length (drop 8 bs) mod 8 = 0"
    using Suc(2,3) div_8_Suc [OF len] mod_8_diff [OF len] by simp_all
  from Suc(1) [OF this] obtain d where d: "bits_of d = drop 8 bs" by blast
  have "byte_bits (of_bits (take 8 bs)) = take 8 bs"
    using to_bits_of_bits [of "take 8 bs", where 'a = 8] len
    by (simp add: to_bits_def byte_bits_def)
  then have "bits_of (of_bits (take 8 bs) # d) = bs" using d by (simp add: bits_of_Cons)
  then show ?case by blast
qed

lemma to_bits_8: "to_bits 8 (b :: byte) = byte_bits b"
  by (simp add: to_bits_def byte_bits_def)

lemma to_bits_byte: "to_bits 8 (b :: byte) = bits_of [b]"
  by (simp add: to_bits_8 bits_of_Cons)

section \<open>Overwriting part of a buffer\<close>

definition overwrite :: "'a list \<Rightarrow> nat \<Rightarrow> 'a list \<Rightarrow> 'a list" where
  "overwrite d at bs = take at d @ bs @ drop (at + length bs) d"

lemma length_overwrite [simp]: "at + length bs \<le> length d \<Longrightarrow> length (overwrite d at bs) = length d"
  by (simp add: overwrite_def)

lemma nth_overwrite:
  "at + length bs \<le> length d \<Longrightarrow> i < length d \<Longrightarrow>
     overwrite d at bs ! i =
       (if i < at then d ! i else if i < at + length bs then bs ! (i - at) else d ! i)"
  by (auto simp: overwrite_def nth_append min_def)

lemma overwrite_Nil [simp]: "overwrite d at [] = d"
  by (simp add: overwrite_def)

lemma take_overwrite [simp]: "at \<le> length d \<Longrightarrow> take at (overwrite d at bs) = take at d"
  by (simp add: overwrite_def)

end
