(* ===== verification/Strings.thy ===== *)
theory Strings
  imports Prelude "HOL-Library.Char_ord" "HOL-Library.List_Lexorder"
begin

text \<open>
  Error codes (\<open>include/scion/error_codes.hpp\<close>) and the string functions of the C++
  standard library and of Boost that the parsers and formatters of the repository use:
  \<open>std::from_chars\<close> for unsigned integers, \<open>std::format\<close> of integers with
  the specifiers \<open>{}\<close>, \<open>{:x}\<close> and \<open>{:X}\<close>, \<open>string_view::find\<close> and \<open>rfind\<close>, and
  \<open>boost::algorithm::split_iterator\<close> with a one-character separator. The lemmas show that
  \<open>from_chars\<close> inverts \<open>format\<close> and that splitting inverts joining.
\<close>

section \<open>Error codes\<close>

datatype error_code =
    Ok | Cancelled | Pending | Timeout | ScmpReceived | StunReceived
  | LogicError | NotImplemented | InvalidArgument | SyntaxError | InvalidSocket
  | BufferTooSmall | PacketTooBig | RequiresZone | NoLocalHostAddr | NameNotFound
  | RemoteError | FileNotFound
  | InvalidPacket | ChecksumError | DstAddrMismatch | SrcAddrMismatch
  | errc_invalid_argument | errc_result_out_of_range
  | undefined_behavior

text \<open>
  The two \<open>errc\<close> constructors are the codes of \<open>std::errc\<close> the parsers pass on, and
  \<open>undefined_behavior\<close> stands for an execution the C++ standard leaves undefined.
\<close>

type_synonym 'a maybe = "error_code + 'a"

fun isError :: "'a maybe \<Rightarrow> bool" where
  "isError (Inl _) = True"
| "isError (Inr _) = False"

text \<open>\<open>if (isError(x)) return propagateError(x);\<close> followed by the use of \<open>get(x)\<close>.\<close>

fun maybe_bind :: "'a maybe \<Rightarrow> ('a \<Rightarrow> 'b maybe) \<Rightarrow> 'b maybe" where
  "maybe_bind (Inl e) f = Inl e"
| "maybe_bind (Inr a) f = f a"

lemma maybe_bind_Inr_iff: "maybe_bind m f = Inr b \<longleftrightarrow> (\<exists>a. m = Inr a \<and> f a = Inr b)"
  by (cases m) simp_all

section \<open>Digits\<close>

definition digit_value :: "char \<Rightarrow> nat" where
  "digit_value c =
     (let n = of_char c in
      if 48 \<le> n \<and> n \<le> 57 then n - 48
      else if 97 \<le> n \<and> n \<le> 122 then n - 87
      else if 65 \<le> n \<and> n \<le> 90 then n - 55
      else 256)"

definition is_digit :: "nat \<Rightarrow> char \<Rightarrow> bool" where
  "is_digit base c \<longleftrightarrow> digit_value c < base"

definition digit_char :: "bool \<Rightarrow> nat \<Rightarrow> char" where
  "digit_char upper d =
     char_of (if d < 10 then 48 + d else if upper then 55 + d else 87 + d)"

fun to_digits :: "nat \<Rightarrow> nat \<Rightarrow> nat list" where
  "to_digits base n =
     (if base < 2 \<or> n < base then [n] else to_digits base (n div base) @ [n mod base])"

declare to_digits.simps [simp del]

definition from_digits :: "nat \<Rightarrow> nat list \<Rightarrow> nat" where
  "from_digits base ds = foldl (\<lambda>acc d. base * acc + d) 0 ds"

text \<open>\<open>std::format\<close> with \<open>{}\<close>, \<open>{:x}\<close> and \<open>{:X}\<close>\<close>

definition format_uint :: "nat \<Rightarrow> bool \<Rightarrow> nat \<Rightarrow> string" where
  "format_uint base upper n = map (digit_char upper) (to_digits base n)"

definition format_dec :: "nat \<Rightarrow> string" where
  "format_dec n = format_uint 10 False n"

definition format_hex :: "nat \<Rightarrow> string" where
  "format_hex n = format_uint 16 False n"

text \<open>
  \<open>std::from_chars\<close>: the error, the value stored on success, and the unparsed rest. The
  pattern is the longest prefix of digits of the base; no sign is accepted for an unsigned
  type, and a value out of range stores nothing but consumes the pattern.
\<close>

definition from_chars :: "nat \<Rightarrow> nat \<Rightarrow> string \<Rightarrow> error_code \<times> nat \<times> string" where
  "from_chars base limit text =
     (let ds = takeWhile (is_digit base) text; rest = dropWhile (is_digit base) text in
      if ds = [] then (errc_invalid_argument, 0, text)
      else let v = from_digits base (map digit_value ds) in
           if v > limit then (errc_result_out_of_range, 0, rest) else (Ok, v, rest))"

definition find_char :: "char \<Rightarrow> string \<Rightarrow> nat option" where
  "find_char c s = (if c \<in> set s then Some (length (takeWhile (\<lambda>x. x \<noteq> c) s)) else None)"

definition rfind_char :: "char \<Rightarrow> string \<Rightarrow> nat option" where
  "rfind_char c s =
     (if c \<in> set s then Some (length s - 1 - length (takeWhile (\<lambda>x. x \<noteq> c) (rev s))) else None)"

fun split_on :: "char \<Rightarrow> string \<Rightarrow> string list" where
  "split_on c [] = [[]]"
| "split_on c (x # xs) =
     (if x = c then [] # split_on c xs
      else case split_on c xs of [] \<Rightarrow> [[x]] | g # gs \<Rightarrow> (x # g) # gs)"

fun join_with :: "char \<Rightarrow> string list \<Rightarrow> string" where
  "join_with c [] = []"
| "join_with c [g] = g"
| "join_with c (g # gs) = g @ c # join_with c gs"

section \<open>Digits and numbers\<close>

lemma char_of_inject: "(m::nat) < 256 \<Longrightarrow> n < 256 \<Longrightarrow> char_of m = (char_of n :: char) \<longleftrightarrow> m = n"
  by (metis of_char_of mod_less)

lemma of_char_of_small: "(n::nat) < 256 \<Longrightarrow> of_char (char_of n :: char) = n"
  by simp

lemma digit_value_digit_char [simp]:
  assumes "d < 36"
  shows "digit_value (digit_char upper d) = d"
proof -
  have "of_char (digit_char upper d) = (if d < 10 then 48 + d else if upper then 55 + d else 87 + d)"
    unfolding digit_char_def by (rule of_char_of_small) (use assms in auto)
  then show ?thesis using assms by (auto simp: digit_value_def Let_def)
qed

lemma is_digit_digit_char: "d < base \<Longrightarrow> base \<le> 36 \<Longrightarrow> is_digit base (digit_char upper d)"
  by (simp add: is_digit_def)

lemma to_digits_less: "2 \<le> base \<Longrightarrow> d \<in> set (to_digits base n) \<Longrightarrow> d < base"
proof (induction base n rule: to_digits.induct)
  case (1 base n)
  show ?case
  proof (cases "n < base")
    case True
    then show ?thesis using 1(3) by (simp add: to_digits.simps [of base n])
  next
    case False
    then show ?thesis
      using 1(1) [OF _ 1(2)] 1(2,3) by (auto simp: to_digits.simps [of base n])
  qed
qed

lemma to_digits_nonempty [simp]: "to_digits base n \<noteq> []"
  by (subst to_digits.simps) simp

lemma from_digits_to_digits: "2 \<le> base \<Longrightarrow> from_digits base (to_digits base n) = n"
proof (induction base n rule: to_digits.induct)
  case (1 base n)
  then show ?case
    by (subst to_digits.simps) (auto simp: from_digits_def)
qed

lemma length_to_digits: "2 \<le> base \<Longrightarrow> 0 < k \<Longrightarrow> n < base ^ k \<Longrightarrow> length (to_digits base n) \<le> k"
proof (induction k arbitrary: n)
  case (Suc k)
  show ?case
  proof (cases "n < base")
    case False
    then have "k \<noteq> 0" using Suc.prems by (cases k) auto
    moreover have "n div base < base ^ k"
      using Suc.prems by (simp add: less_mult_imp_div_less mult.commute)
    ultimately show ?thesis
      using Suc False by (subst to_digits.simps) auto
  qed (simp add: to_digits.simps [of base n])
qed simp

lemma format_uint_nonempty [simp]: "format_uint base upper n \<noteq> []"
  by (simp add: format_uint_def)

lemma format_dec_nonempty [simp]: "format_dec n \<noteq> []" "format_hex n \<noteq> []"
  by (simp_all add: format_dec_def format_hex_def)

lemma format_uint_digits:
  "2 \<le> base \<Longrightarrow> base \<le> 36 \<Longrightarrow> c \<in> set (format_uint base upper n) \<Longrightarrow> is_digit base c"
  by (auto simp: format_uint_def is_digit_digit_char to_digits_less)

lemma format_dec_digits: "c \<in> set (format_dec n) \<Longrightarrow> is_digit 10 c"
  by (simp add: format_dec_def format_uint_digits)

lemma format_hex_digits: "c \<in> set (format_hex n) \<Longrightarrow> is_digit 16 c"
  by (simp add: format_hex_def format_uint_digits)

lemma not_digit [simp]:
  assumes "base \<le> 256"
  shows "\<not> is_digit base CHR ''.''" "\<not> is_digit base CHR '':''" "\<not> is_digit base CHR ''-''"
    "\<not> is_digit base CHR '',''" "\<not> is_digit base CHR ''%''" "\<not> is_digit base CHR ''[''"
    "\<not> is_digit base CHR '']''"
  using assms by (simp_all add: is_digit_def digit_value_def)

lemma map_digit_value_format:
  "2 \<le> base \<Longrightarrow> base \<le> 36 \<Longrightarrow> map digit_value (format_uint base upper n) = to_digits base n"
  unfolding format_uint_def map_map comp_def
  by (rule map_idI) (use to_digits_less in fastforce)

text \<open>\<open>from_chars\<close> reads back what \<open>format\<close> wrote, up to the first character that is no digit.\<close>

lemma from_chars_format:
  assumes "2 \<le> base" "base \<le> 36" "rest = [] \<or> \<not> is_digit base (hd rest)"
  shows "from_chars base limit (format_uint base upper n @ rest) =
    (if n > limit then (errc_result_out_of_range, 0, rest) else (Ok, n, rest))"
proof -
  have digits: "\<forall>c \<in> set (format_uint base upper n). is_digit base c"
    using format_uint_digits [OF assms(1,2)] by blast
  have stop: "takeWhile (is_digit base) rest = []" "dropWhile (is_digit base) rest = rest"
    using assms(3) by (cases rest; simp)+
  have "takeWhile (is_digit base) (format_uint base upper n @ rest) = format_uint base upper n"
      "dropWhile (is_digit base) (format_uint base upper n @ rest) = rest"
    using digits stop by (simp_all add: takeWhile_append dropWhile_append)
  then show ?thesis
    by (simp add: from_chars_def map_digit_value_format [OF assms(1,2)]
        from_digits_to_digits [OF assms(1)])
qed

lemma from_chars_dec:
  "n \<le> limit \<Longrightarrow> from_chars 10 limit (format_dec n) = (Ok, n, [])"
  using from_chars_format [of 10 "[]" limit False n] by (simp add: format_dec_def)

lemma from_chars_hex:
  "n \<le> limit \<Longrightarrow> from_chars 16 limit (format_hex n) = (Ok, n, [])"
  using from_chars_format [of 16 "[]" limit False n] by (simp add: format_hex_def)

lemma from_chars_value_le: "from_chars base limit text = (Ok, v, rest) \<Longrightarrow> v \<le> limit"
  by (auto simp: from_chars_def Let_def split: if_splits)

lemma from_chars_rest:
  "from_chars base limit s = (ec, v, rest) \<Longrightarrow> \<exists>p. s = p @ rest"
  by (auto simp: from_chars_def Let_def split: if_splits
      intro: takeWhile_dropWhile_id [of "is_digit base" s, symmetric])

section \<open>Searching and splitting\<close>

lemma find_char_None: "find_char c s = None \<longleftrightarrow> c \<notin> set s"
  by (simp add: find_char_def)

lemma find_char_append: "c \<notin> set a \<Longrightarrow> find_char c (a @ c # b) = Some (length a)"
  by (auto simp: find_char_def takeWhile_append)

lemma rfind_char_None: "rfind_char c s = None \<longleftrightarrow> c \<notin> set s"
  by (simp add: rfind_char_def)

lemma rfind_char_append: "c \<notin> set b \<Longrightarrow> rfind_char c (a @ c # b) = Some (length a)"
  by (auto simp: rfind_char_def takeWhile_append)

lemma split_on_nonempty [simp]: "split_on c s \<noteq> []"
  by (cases s) (auto split: list.splits)

lemma split_on_no_sep: "c \<notin> set s \<Longrightarrow> split_on c s = [s]"
  by (induction s) auto

lemma split_on_append: "c \<notin> set a \<Longrightarrow> split_on c (a @ c # b) = a # split_on c b"
  by (induction a) auto

lemma split_on_join:
  "gs \<noteq> [] \<Longrightarrow> (\<And>g. g \<in> set gs \<Longrightarrow> c \<notin> set g) \<Longrightarrow> split_on c (join_with c gs) = gs"
  by (induction c gs rule: join_with.induct) (simp_all add: split_on_no_sep split_on_append)

lemma split_on_parts: "g \<in> set (split_on c s) \<Longrightarrow> c \<notin> set g"
proof (induction s arbitrary: g)
  case (Cons x s)
  then show ?case by (cases "split_on c s") (auto split: if_splits)
qed simp

lemma join_split_on: "join_with c (split_on c s) = s"
proof (induction s)
  case (Cons x s)
  then show ?case
    by (cases "split_on c s"; cases "tl (split_on c s)") auto
qed simp

end
