(* ===== verification/BitStream.thy ===== *)
theory BitStream
  imports Prelude
begin

text \<open>
  The bit streams of \<open>include/scion/bit_stream.hpp\<close>: \<open>ReadStream\<close> extracts and
  \<open>WriteStream\<close> inserts values at a bit position of a byte buffer. A stream is the buffer
  with the byte offset \<open>byteIter\<close> (the iterator's distance from the start) and the bit
  offset \<open>bitPos\<close> inside that byte. Every operation returns the error message or the
  value, and the stream afterwards. The \<open>serialize\<close> templates of the headers, which the
  code instantiates with both classes, become functions on \<open>stream\<close>.
\<close>

section \<open>Error reporting\<close>

text \<open>\<open>StreamError\<close> records the first message and up to twelve stack frames.\<close>

record stream_error =
  message :: "string option"
  backtraceSize :: nat
  backtrace_overflow :: bool
  backtrace :: "string list"

definition MAX_BACKTRACE :: nat where
  "MAX_BACKTRACE = 12"

definition StreamError_init :: stream_error where
  "StreamError_init =
     \<lparr>message = None, backtraceSize = 0, backtrace_overflow = False,
      backtrace = replicate MAX_BACKTRACE []\<rparr>"

definition StreamError_propagate :: "string \<Rightarrow> stream_error \<Rightarrow> bool \<times> stream_error" where
  "StreamError_propagate loc e =
     (if MAX_BACKTRACE \<le> backtraceSize e then (False, e\<lparr>backtrace_overflow := True\<rparr>)
      else (False, e\<lparr>backtrace := (backtrace e)[backtraceSize e := loc],
                     backtraceSize := backtraceSize e + 1\<rparr>))"

definition StreamError_error ::
    "string \<Rightarrow> string \<Rightarrow> stream_error \<Rightarrow> bool \<times> stream_error" where
  "StreamError_error msg loc e = StreamError_propagate loc (e\<lparr>message := Some msg\<rparr>)"

definition StreamError_ok :: "stream_error \<Rightarrow> bool" where
  "StreamError_ok e \<longleftrightarrow> message e = None"

definition StreamError_getBacktrace :: "stream_error \<Rightarrow> string list" where
  "StreamError_getBacktrace e = take (backtraceSize e) (backtrace e)"

section \<open>The two stream classes\<close>

record bit_buf =
  bufdata :: "byte list"
  byteIter :: nat
  bitPos :: nat

definition npos :: nat where
  "npos = 2 ^ 64 - 1"

definition stream_init :: "byte list \<Rightarrow> bit_buf" where
  "stream_init buffer = \<lparr>bufdata = buffer, byteIter = 0, bitPos = 0\<rparr>"

definition getPos :: "bit_buf \<Rightarrow> nat \<times> nat" where
  "getPos b = (byteIter b, bitPos b)"

text \<open>\<open>data.end() - byteIter\<close>\<close>

definition bytesLeft :: "bit_buf \<Rightarrow> nat" where
  "bytesLeft b = length (bufdata b) - byteIter b"

definition seek :: "nat \<Rightarrow> nat \<Rightarrow> bit_buf \<Rightarrow> bool \<times> bit_buf" where
  "seek byteOffset bitOffset b =
     (if byteOffset = npos then
        (if bitOffset \<noteq> 0 then (False, b)
         else (True, b\<lparr>byteIter := length (bufdata b), bitPos := 0\<rparr>))
      else if bitOffset > 8 then (False, b)
      else if byteOffset > length (bufdata b) then (False, b)
      else if byteOffset = length (bufdata b) \<and> bitOffset > 0 then (False, b)
      else (True, b\<lparr>byteIter := byteOffset, bitPos := bitOffset\<rparr>))"

text \<open>\<open>operator bool\<close>: there is data, or space, left.\<close>

definition stream_more :: "bit_buf \<Rightarrow> bool" where
  "stream_more b \<longleftrightarrow> byteIter b \<noteq> length (bufdata b)"

definition advance_bytes_pos :: "nat \<Rightarrow> bit_buf \<Rightarrow> bit_buf" where
  "advance_bytes_pos n b = b\<lparr>byteIter := byteIter b + n\<rparr>"

definition advance_bits_pos :: "nat \<Rightarrow> bit_buf \<Rightarrow> bit_buf" where
  "advance_bits_pos bits b =
     b\<lparr>byteIter := byteIter b + (bitPos b + bits) div 8, bitPos := (bitPos b + bits) mod 8\<rparr>"

text \<open>The next bytes of the buffer, and the buffer with its next bytes overwritten.\<close>

definition peek :: "nat \<Rightarrow> bit_buf \<Rightarrow> byte list" where
  "peek n b = take n (drop (byteIter b) (bufdata b))"

definition poke :: "byte list \<Rightarrow> bit_buf \<Rightarrow> bit_buf" where
  "poke bs b = b\<lparr>bufdata := overwrite (bufdata b) (byteIter b) bs\<rparr>"

subsection \<open>ReadStream\<close>

definition ReadStream_lookahead :: "nat \<Rightarrow> bit_buf \<Rightarrow> string + byte list" where
  "ReadStream_lookahead bytes b =
     (if bitPos b \<noteq> 0 then Inl ''alignment error''
      else if bytes = npos then Inr (drop (byteIter b) (bufdata b))
      else if bytesLeft b < bytes then Inl ''out of data to read''
      else Inr (peek bytes b))"

definition ReadStream_serializeBits ::
    "nat \<Rightarrow> bit_buf \<Rightarrow> (string + 'a::len word) \<times> bit_buf" where
  "ReadStream_serializeBits bits b =
     (if bits = 0 then (Inr 0, b)
      else if bits > min (64 - 7) LENGTH('a) then (Inl ''invalid argument'', b)
      else
        let nBytes = (bits + bitPos b + 7) div 8 in
        if bytesLeft b < nBytes then (Inl ''out of data to read'', b)
        else
          let word = byteswapBE (load_le (peek nBytes b @ replicate (8 - nBytes) 0) :: u64);
              word = push_bit (bitPos b) word;
              word = drop_bit (64 - bits) word
          in (Inr (ucast word), advance_bits_pos bits b))"

text \<open>The loop of \<open>advanceBits\<close> over 32-bit reads.\<close>

fun ReadStream_skip32 :: "nat \<Rightarrow> bit_buf \<Rightarrow> (string + unit) \<times> bit_buf" where
  "ReadStream_skip32 0 b = (Inr (), b)"
| "ReadStream_skip32 (Suc n) b =
     (case ReadStream_serializeBits 32 b :: (string + u32) \<times> bit_buf of
        (Inl e, b') \<Rightarrow> (Inl e, b')
      | (Inr v, b') \<Rightarrow> ReadStream_skip32 n b')"

definition ReadStream_advanceBits :: "nat \<Rightarrow> bit_buf \<Rightarrow> (string + unit) \<times> bit_buf" where
  "ReadStream_advanceBits bits b =
     (if bytesLeft b < (bits + bitPos b + 7) div 8 then (Inl ''out of data to read'', b)
      else case ReadStream_skip32 (bits div 32) b of
        (Inl e, b') \<Rightarrow> (Inl e, b')
      | (Inr _, b') \<Rightarrow>
          (case ReadStream_serializeBits (bits mod 32) b' :: (string + u32) \<times> bit_buf of
             (Inl e, b'') \<Rightarrow> (Inl e, b'')
           | (Inr _, b'') \<Rightarrow> (Inr (), b'')))"

text \<open>
  \<open>advanceBytes\<close> does not return after the unaligned advance: it goes on to advance by the
  same number of bytes again.
\<close>

definition ReadStream_advanceBytes :: "nat \<Rightarrow> bit_buf \<Rightarrow> (string + unit) \<times> bit_buf" where
  "ReadStream_advanceBytes bytes b =
     (let (r, b') = (if bitPos b \<noteq> 0 then ReadStream_advanceBits (8 * bytes) b else (Inr (), b))
      in case r of
           Inl e \<Rightarrow> (Inl e, b')
         | Inr _ \<Rightarrow>
             if bytesLeft b' < bytes then (Inl ''out of data to read'', b')
             else (Inr (), advance_bytes_pos bytes b'))"

definition ReadStream_serializeByte :: "bit_buf \<Rightarrow> (string + byte) \<times> bit_buf" where
  "ReadStream_serializeByte b =
     (if bitPos b \<noteq> 0 then
        (case ReadStream_serializeBits 8 b :: (string + u32) \<times> bit_buf of
           (Inl e, b') \<Rightarrow> (Inl e, b')
         | (Inr temp, b') \<Rightarrow> (Inr (ucast temp), b'))
      else if bytesLeft b < 1 then (Inl ''out of data to read'', b)
      else (Inr (ucast (load_le (peek 1 b @ [0, 0, 0]) :: u32)), advance_bytes_pos 1 b))"

definition ReadStream_serializeUint16 :: "bit_buf \<Rightarrow> (string + u16) \<times> bit_buf" where
  "ReadStream_serializeUint16 b =
     (if bitPos b \<noteq> 0 then
        (case ReadStream_serializeBits 16 b :: (string + u32) \<times> bit_buf of
           (Inl e, b') \<Rightarrow> (Inl e, b')
         | (Inr temp, b') \<Rightarrow> (Inr (byteswapBE (ucast temp)), b'))
      else if bytesLeft b < 2 then (Inl ''out of data to read'', b)
      else (Inr (byteswapBE (ucast (load_le (peek 2 b @ [0, 0]) :: u32))),
            advance_bytes_pos 2 b))"

definition ReadStream_serializeUint32 :: "bit_buf \<Rightarrow> (string + u32) \<times> bit_buf" where
  "ReadStream_serializeUint32 b =
     (if bitPos b \<noteq> 0 then
        (case ReadStream_serializeBits 32 b :: (string + u32) \<times> bit_buf of
           (Inl e, b') \<Rightarrow> (Inl e, b')
         | (Inr temp, b') \<Rightarrow> (Inr (byteswapBE temp), b'))
      else if bytesLeft b < 4 then (Inl ''out of data to read'', b)
      else (Inr (byteswapBE (load_le (peek 4 b))), advance_bytes_pos 4 b))"

definition ReadStream_serializeUint64 :: "bit_buf \<Rightarrow> (string + u64) \<times> bit_buf" where
  "ReadStream_serializeUint64 b =
     (if bitPos b \<noteq> 0 then (Inl ''not implemented'', b)
      else if bytesLeft b < 8 then (Inl ''out of data to read'', b)
      else (Inr (byteswapBE (load_le (peek 8 b))), advance_bytes_pos 8 b))"

definition ReadStream_serializeBytes :: "nat \<Rightarrow> bit_buf \<Rightarrow> (string + byte list) \<times> bit_buf" where
  "ReadStream_serializeBytes n b =
     (if bitPos b \<noteq> 0 then (Inl ''not implemented'', b)
      else if bytesLeft b < n then (Inl ''out of data to read'', b)
      else (Inr (peek n b), advance_bytes_pos n b))"

subsection \<open>WriteStream\<close>

definition WriteStream_lookback :: "nat \<Rightarrow> bit_buf \<Rightarrow> string + byte list" where
  "WriteStream_lookback bytes b =
     (if bitPos b \<noteq> 0 then Inl ''alignment error''
      else if bytes = npos then Inr (take (byteIter b) (bufdata b))
      else if byteIter b < bytes then Inl ''attempted to read out of bounds''
      else Inr (take bytes (drop (byteIter b - bytes) (bufdata b))))"

definition WriteStream_serializeBits ::
    "'a::len word \<Rightarrow> nat \<Rightarrow> bit_buf \<Rightarrow> (string + unit) \<times> bit_buf" where
  "WriteStream_serializeBits value bits b =
     (if bits = 0 then (Inr (), b)
      else if bits > min (64 - 7) LENGTH('a) then (Inl ''invalid argument'', b)
      else
        let nBytes = (bits + bitPos b + 7) div 8 in
        if bytesLeft b < nBytes then (Inl ''out of space'', b)
        else
          let word = push_bit (64 - bits) (ucast value :: u64);
              word = (if bitPos b \<noteq> 0
                      then drop_bit (bitPos b) word
                           OR push_bit 56 (ucast (bufdata b ! byteIter b))
                      else word);
              word = byteswapBE word
          in (Inr (), advance_bits_pos bits (poke (take nBytes (store_le 8 word)) b)))"

fun WriteStream_skip32 :: "nat \<Rightarrow> bit_buf \<Rightarrow> (string + unit) \<times> bit_buf" where
  "WriteStream_skip32 0 b = (Inr (), b)"
| "WriteStream_skip32 (Suc n) b =
     (case WriteStream_serializeBits (0 :: u32) 32 b of
        (Inl e, b') \<Rightarrow> (Inl e, b')
      | (Inr _, b') \<Rightarrow> WriteStream_skip32 n b')"

definition WriteStream_advanceBits :: "nat \<Rightarrow> bit_buf \<Rightarrow> (string + unit) \<times> bit_buf" where
  "WriteStream_advanceBits bits b =
     (if bytesLeft b < (bits + bitPos b + 7) div 8 then (Inl ''out of space'', b)
      else case WriteStream_skip32 (bits div 32) b of
        (Inl e, b') \<Rightarrow> (Inl e, b')
      | (Inr _, b') \<Rightarrow> WriteStream_serializeBits (0 :: u32) (bits mod 32) b')"

definition WriteStream_advanceBytes :: "nat \<Rightarrow> bit_buf \<Rightarrow> (string + unit) \<times> bit_buf" where
  "WriteStream_advanceBytes bytes b =
     (let (r, b') = (if bitPos b \<noteq> 0 then WriteStream_advanceBits (8 * bytes) b else (Inr (), b))
      in case r of
           Inl e \<Rightarrow> (Inl e, b')
         | Inr _ \<Rightarrow>
             if bytesLeft b' < bytes then (Inl ''out of space'', b')
             else (Inr (), advance_bytes_pos bytes (poke (replicate bytes 0) b')))"

text \<open>
  The aligned insertions copy the value's memory; in the unaligned branch the value, whose
  bytes have already been swapped, goes through \<open>serializeBits\<close>.
\<close>

definition WriteStream_serializeByte :: "byte \<Rightarrow> bit_buf \<Rightarrow> (string + unit) \<times> bit_buf" where
  "WriteStream_serializeByte value b =
     (if bitPos b \<noteq> 0 then WriteStream_serializeBits value 8 b
      else if bytesLeft b < 1 then (Inl ''out of space'', b)
      else (Inr (), advance_bytes_pos 1 (poke [value] b)))"

definition WriteStream_serializeUint16 :: "u16 \<Rightarrow> bit_buf \<Rightarrow> (string + unit) \<times> bit_buf" where
  "WriteStream_serializeUint16 value b =
     (let value = byteswapBE value in
      if bitPos b \<noteq> 0 then WriteStream_serializeBits value 16 b
      else if bytesLeft b < 2 then (Inl ''out of space'', b)
      else (Inr (), advance_bytes_pos 2 (poke (store_le 2 value) b)))"

definition WriteStream_serializeUint32 :: "u32 \<Rightarrow> bit_buf \<Rightarrow> (string + unit) \<times> bit_buf" where
  "WriteStream_serializeUint32 value b =
     (let value = byteswapBE value in
      if bitPos b \<noteq> 0 then WriteStream_serializeBits value 32 b
      else if bytesLeft b < 4 then (Inl ''out of space'', b)
      else (Inr (), advance_bytes_pos 4 (poke (store_le 4 value) b)))"

definition WriteStream_serializeUint64 :: "u64 \<Rightarrow> bit_buf \<Rightarrow> (string + unit) \<times> bit_buf" where
  "WriteStream_serializeUint64 value b =
     (let value = byteswapBE value in
      if bitPos b \<noteq> 0 then WriteStream_serializeBits value 32 b
      else if bytesLeft b < 8 then (Inl ''out of space'', b)
      else (Inr (), advance_bytes_pos 8 (poke (store_le 8 value) b)))"

definition WriteStream_serializeBytes :: "byte list \<Rightarrow> bit_buf \<Rightarrow> (string + unit) \<times> bit_buf" where
  "WriteStream_serializeBytes bytes b =
     (if bitPos b \<noteq> 0 then (Inl ''not implemented'', b)
      else if bytesLeft b < length bytes then (Inl ''out of space'', b)
      else (Inr (), advance_bytes_pos (length bytes) (poke bytes b)))"

definition WriteStream_updateChksum ::
    "u16 \<Rightarrow> nat \<Rightarrow> bit_buf \<Rightarrow> (string + unit) \<times> bit_buf" where
  "WriteStream_updateChksum chksum offset b =
     (if bitPos b \<noteq> 0 then (Inl ''alignment error'', b)
      else if byteIter b < offset + 2 then (Inl ''attempted to write out of bounds'', b)
      else
        let (r, b') = WriteStream_serializeUint16 chksum
                        (b\<lparr>byteIter := byteIter b - (offset + 2)\<rparr>)
        in (r, b'\<lparr>byteIter := byteIter b\<rparr>))"

section \<open>Serialization over either stream\<close>

text \<open>
  The argument \<open>Stream\<close> of the \<open>serialize\<close> templates. \<open>isReading\<close> is
  \<open>Stream::IsReading\<close>. A serialization step fails with the message passed to
  \<open>err.error\<close>, or yields a value: the value extracted when reading, the value given when
  writing. Returning \<open>err.propagate()\<close> on the first failing step is \<open>ser_bind\<close>.
\<close>

datatype stream = ReadStream bit_buf | WriteStream bit_buf

type_synonym 'a ser = "stream \<Rightarrow> (string + 'a) \<times> stream"

fun isReading :: "stream \<Rightarrow> bool" where
  "isReading (ReadStream _) = True"
| "isReading (WriteStream _) = False"

fun stream_buf :: "stream \<Rightarrow> bit_buf" where
  "stream_buf (ReadStream b) = b"
| "stream_buf (WriteStream b) = b"

definition ser_return :: "'a \<Rightarrow> 'a ser" where
  "ser_return a st = (Inr a, st)"

definition ser_error :: "string \<Rightarrow> 'a ser" where
  "ser_error msg st = (Inl msg, st)"

definition ser_bind :: "'a ser \<Rightarrow> ('a \<Rightarrow> 'b ser) \<Rightarrow> 'b ser" where
  "ser_bind m f st =
     (case m st of (Inl e, st') \<Rightarrow> (Inl e, st') | (Inr a, st') \<Rightarrow> f a st')"

text \<open>\<open>if constexpr (Stream::IsReading) { if (bad) return err.error(msg); }\<close>\<close>

definition read_check :: "bool \<Rightarrow> string \<Rightarrow> unit ser" where
  "read_check bad msg st = (if isReading st \<and> bad then (Inl msg, st) else (Inr (), st))"

text \<open>\<open>if constexpr (Stream::IsReading) { r } else { w }\<close>\<close>

definition if_reading :: "'a ser \<Rightarrow> 'a ser \<Rightarrow> 'a ser" where
  "if_reading r w st = (if isReading st then r st else w st)"

text \<open>
  \<open>lookahead\<close> exists in \<open>ReadStream\<close> only, \<open>lookback\<close> and \<open>updateChksum\<close> in \<open>WriteStream\<close>
  only; the templates call them in the branch of the class that has them.
\<close>

fun lookahead :: "nat \<Rightarrow> byte list ser" where
  "lookahead bytes (ReadStream b) = (ReadStream_lookahead bytes b, ReadStream b)"
| "lookahead bytes (WriteStream b) = (Inl [], WriteStream b)"

fun lookback :: "nat \<Rightarrow> byte list ser" where
  "lookback bytes (ReadStream b) = (Inl [], ReadStream b)"
| "lookback bytes (WriteStream b) = (WriteStream_lookback bytes b, WriteStream b)"

fun updateChksum :: "u16 \<Rightarrow> nat \<Rightarrow> unit ser" where
  "updateChksum chksum offset (ReadStream b) = (Inl [], ReadStream b)"
| "updateChksum chksum offset (WriteStream b) =
     apsnd WriteStream (WriteStream_updateChksum chksum offset b)"

definition on_stream ::
    "(bit_buf \<Rightarrow> (string + 'a) \<times> bit_buf) \<Rightarrow> 'a \<Rightarrow>
     (bit_buf \<Rightarrow> (string + unit) \<times> bit_buf) \<Rightarrow> 'a ser" where
  "on_stream rd v wr st =
     (case st of
        ReadStream b \<Rightarrow> apsnd ReadStream (rd b)
      | WriteStream b \<Rightarrow> (case wr b of (Inl e, b') \<Rightarrow> (Inl e, WriteStream b')
                                     | (Inr _, b') \<Rightarrow> (Inr v, WriteStream b')))"

definition serializeBits :: "'a::len word \<Rightarrow> nat \<Rightarrow> 'a word ser" where
  "serializeBits value bits =
     on_stream (ReadStream_serializeBits bits) value (WriteStream_serializeBits value bits)"

definition serializeByte :: "byte \<Rightarrow> byte ser" where
  "serializeByte value =
     on_stream ReadStream_serializeByte value (WriteStream_serializeByte value)"

definition serializeUint16 :: "u16 \<Rightarrow> u16 ser" where
  "serializeUint16 value =
     on_stream ReadStream_serializeUint16 value (WriteStream_serializeUint16 value)"

definition serializeUint32 :: "u32 \<Rightarrow> u32 ser" where
  "serializeUint32 value =
     on_stream ReadStream_serializeUint32 value (WriteStream_serializeUint32 value)"

definition serializeUint64 :: "u64 \<Rightarrow> u64 ser" where
  "serializeUint64 value =
     on_stream ReadStream_serializeUint64 value (WriteStream_serializeUint64 value)"

text \<open>\<open>serializeBytes(span)\<close>: reading fills the span, whose size is its current length.\<close>

definition serializeBytes :: "byte list \<Rightarrow> byte list ser" where
  "serializeBytes bytes =
     on_stream (ReadStream_serializeBytes (length bytes)) bytes (WriteStream_serializeBytes bytes)"

definition advanceBits :: "nat \<Rightarrow> unit ser" where
  "advanceBits bits =
     on_stream (ReadStream_advanceBits bits) () (WriteStream_advanceBits bits)"

definition advanceBytes :: "nat \<Rightarrow> unit ser" where
  "advanceBytes bytes =
     on_stream (ReadStream_advanceBytes bytes) () (WriteStream_advanceBytes bytes)"

definition verifyByte :: "byte \<Rightarrow> string \<Rightarrow> unit ser" where
  "verifyByte expected msg =
     ser_bind (serializeByte expected) (\<lambda>value. read_check (value \<noteq> expected) msg)"

definition verifyUint16 :: "u16 \<Rightarrow> string \<Rightarrow> unit ser" where
  "verifyUint16 expected msg =
     ser_bind (serializeUint16 expected) (\<lambda>value. read_check (value \<noteq> expected) msg)"

definition verifyUint32 :: "u32 \<Rightarrow> string \<Rightarrow> unit ser" where
  "verifyUint32 expected msg =
     ser_bind (serializeUint32 expected) (\<lambda>value. read_check (value \<noteq> expected) msg)"

end
