(* ===== verification/StreamSpec.thy ===== *)
theory StreamSpec
  imports BitStream
begin

text \<open>
  What the bit streams promise. The position of a stream counts bits from the start of
  the buffer. The invariant \<open>wf_stream\<close> says that the stream stays inside its buffer and,
  for writing, that the bits of the current byte that are not yet written are zero (which is
  what lets \<open>serializeBits\<close> merge them with OR). Against this invariant every operation is
  specified on bit strings: a reader returns the next bits, a writer appends its bits. The
  predicates \<open>writesB\<close> and \<open>readsB\<close> and their composition rules carry this to the
  headers; the locale \<open>codec\<close> is the contract of a header's \<open>serialize\<close> template.
\<close>

section \<open>Positions and the invariant\<close>

definition bit_pos :: "bit_buf \<Rightarrow> nat" where
  "bit_pos b = 8 * byteIter b + bitPos b"

definition wf_buf :: "bit_buf \<Rightarrow> bool" where
  "wf_buf b \<longleftrightarrow> byteIter b \<le> length (bufdata b) \<and> bitPos b < 8 \<and>
     (byteIter b = length (bufdata b) \<longrightarrow> bitPos b = 0)"

definition clean_tail :: "bit_buf \<Rightarrow> bool" where
  "clean_tail b \<longleftrightarrow> (bitPos b \<noteq> 0 \<longrightarrow>
     (\<forall>i < 8 - bitPos b. \<not> bit (bufdata b ! byteIter b) i))"

fun wf_stream :: "stream \<Rightarrow> bool" where
  "wf_stream (ReadStream b) \<longleftrightarrow> wf_buf b"
| "wf_stream (WriteStream b) \<longleftrightarrow> wf_buf b \<and> clean_tail b"

text \<open>Bits still to be read or written, and bits already read or written.\<close>

definition bits_ahead :: "bit_buf \<Rightarrow> bool list" where
  "bits_ahead b = drop (bit_pos b) (bits_of (bufdata b))"

definition bits_done :: "bit_buf \<Rightarrow> bool list" where
  "bits_done b = take (bit_pos b) (bits_of (bufdata b))"

definition bits_room :: "bit_buf \<Rightarrow> nat" where
  "bits_room b = 8 * length (bufdata b) - bit_pos b"

lemma length_bits_ahead [simp]: "length (bits_ahead b) = bits_room b"
  by (simp add: bits_ahead_def bits_room_def)

lemma wf_bit_pos: "wf_buf b \<Longrightarrow> bit_pos b \<le> 8 * length (bufdata b)"
  by (cases "byteIter b = length (bufdata b)") (auto simp: wf_buf_def bit_pos_def)

lemma length_bits_done: "wf_buf b \<Longrightarrow> length (bits_done b) = bit_pos b"
  using wf_bit_pos by (simp add: bits_done_def)

lemma wf_stream_init [simp]: "wf_buf (stream_init d)" "clean_tail (stream_init d)"
  by (simp_all add: stream_init_def wf_buf_def clean_tail_def)

lemma bit_pos_init [simp]: "bit_pos (stream_init d) = 0"
  by (simp add: stream_init_def bit_pos_def)

lemma bits_ahead_init [simp]: "bits_ahead (stream_init d) = bits_of d"
  by (simp add: bits_ahead_def stream_init_def bit_pos_def)

lemma bits_room_init [simp]: "bits_room (stream_init d) = 8 * length d"
  by (simp add: bits_room_def stream_init_def bit_pos_def)

lemma bits_done_init [simp]: "bits_done (stream_init d) = []" "bufdata (stream_init d) = d"
  by (simp_all add: bits_done_def stream_init_def bit_pos_def)

lemma bytesLeft_iff:
  assumes "wf_buf b"
  shows "bytesLeft b < (bits + bitPos b + 7) div 8 \<longleftrightarrow> bits_room b < bits"
  using assms by (auto simp: wf_buf_def bytesLeft_def bits_room_def bit_pos_def)

lemma bytesLeft_iff_aligned:
  assumes "wf_buf b" "bitPos b = 0"
  shows "bytesLeft b < n \<longleftrightarrow> bits_room b < 8 * n"
  using assms by (auto simp: wf_buf_def bytesLeft_def bits_room_def bit_pos_def)

lemma bit_pos_advance_bits [simp]: "bit_pos (advance_bits_pos n b) = bit_pos b + n"
  by (simp add: bit_pos_def advance_bits_pos_def)

lemma bit_pos_advance_bytes [simp]: "bit_pos (advance_bytes_pos n b) = bit_pos b + 8 * n"
  by (simp add: bit_pos_def advance_bytes_pos_def)

lemma bufdata_advance [simp]:
  "bufdata (advance_bits_pos n b) = bufdata b" "bufdata (advance_bytes_pos n b) = bufdata b"
  by (simp_all add: advance_bits_pos_def advance_bytes_pos_def)

lemma poke_fields [simp]:
  "byteIter (poke bs b) = byteIter b" "bitPos (poke bs b) = bitPos b"
  "bufdata (poke bs b) = overwrite (bufdata b) (byteIter b) bs" "bit_pos (poke bs b) = bit_pos b"
  by (simp_all add: poke_def bit_pos_def)

lemma wf_bufI:
  "bit_pos b \<le> 8 * length (bufdata b) \<Longrightarrow> bitPos b < 8 \<Longrightarrow> wf_buf b"
  by (auto simp: wf_buf_def bit_pos_def)

lemma wf_advance_bits:
  assumes "wf_buf b" "n \<le> bits_room b"
  shows "wf_buf (advance_bits_pos n b)"
proof (rule wf_bufI)
  show "bit_pos (advance_bits_pos n b) \<le> 8 * length (bufdata (advance_bits_pos n b))"
    using assms wf_bit_pos [of b] by (simp add: bits_room_def)
qed (simp add: advance_bits_pos_def)

lemma wf_advance_bytes:
  assumes "wf_buf b" "8 * n \<le> bits_room b"
  shows "wf_buf (advance_bytes_pos n b)"
proof (rule wf_bufI)
  show "bit_pos (advance_bytes_pos n b) \<le> 8 * length (bufdata (advance_bytes_pos n b))"
    using assms wf_bit_pos [of b] by (simp add: bits_room_def)
qed (use assms in \<open>simp add: advance_bytes_pos_def wf_buf_def\<close>)

section \<open>Reading\<close>

lemma bit_ahead_nth:
  "p < bits_room b \<Longrightarrow> bits_ahead b ! p =
     bit (bufdata b ! ((bit_pos b + p) div 8)) (7 - (bit_pos b + p) mod 8)"
  by (simp add: bits_ahead_def bits_room_def nth_bits_of)

lemma length_peek: "wf_buf b \<Longrightarrow> 8 * n \<le> 8 * bytesLeft b \<Longrightarrow> length (peek n b) = n"
  by (simp add: peek_def bytesLeft_def)

lemma nth_peek: "wf_buf b \<Longrightarrow> i < n \<Longrightarrow> n \<le> bytesLeft b \<Longrightarrow> peek n b ! i = bufdata b ! (byteIter b + i)"
  by (simp add: peek_def bytesLeft_def wf_buf_def)

text \<open>The extracted word holds exactly the next \<open>bits\<close> bits.\<close>

lemma read_word_bits:
  fixes b :: bit_buf
  defines "W \<equiv> (\<lambda>bits. drop_bit (64 - bits) (push_bit (bitPos b)
     (byteswapBE (load_le (peek ((bits + bitPos b + 7) div 8) b
        @ replicate (8 - (bits + bitPos b + 7) div 8) 0) :: u64))))"
  assumes wf: "wf_buf b" and bits: "0 < bits" "bits \<le> 57" and room: "bits \<le> bits_room b"
  shows "bit (W bits) i \<longleftrightarrow> i < bits \<and> bits_ahead b ! (bits - 1 - i)"
proof -
  let ?n = "(bits + bitPos b + 7) div 8"
  let ?mem = "peek ?n b @ replicate (8 - ?n) 0"
  have k: "bitPos b < 8" using wf by (simp add: wf_buf_def)
  have n: "?n \<le> 8" using bits k by linarith
  have left: "?n \<le> bytesLeft b" using bytesLeft_iff [OF wf, of bits] room by simp
  have len: "length ?mem = 8" using n left by (simp add: length_peek [OF wf])
  have W: "W bits = drop_bit (64 - bits) (push_bit (bitPos b) (load_be ?mem))"
    unfolding W_def using len by (subst byteswapBE_load_le) simp_all
  show ?thesis
  proof (cases "i < bits")
    case False
    then have "\<not> bit (W bits) i"
      using bit_imp_le_length [of "W bits" i] bits
      by (auto simp: W bit_drop_bit_eq bit_push_bit_iff not_less)
    with False show ?thesis by simp
  next
    case True
    let ?j = "64 - bits + i - bitPos b"
    let ?p = "bits - 1 - i"
    have jk: "bitPos b \<le> 64 - bits + i" "64 - bits + i < 64" using bits k True by linarith+
    have j64: "?j < 64" using True bits by linarith
    have idx: "7 - ?j div 8 = (bitPos b + ?p) div 8" "?j mod 8 = 7 - (bitPos b + ?p) mod 8"
    proof -
      have "?j = 63 - (bitPos b + ?p)" "bitPos b + ?p \<le> 63" using True bits k by linarith+
      then obtain q where q: "q = bitPos b + ?p" "?j = 8 * 8 - 1 - q" "q < 8 * 8" by auto
      have "7 - (8 * 8 - 1 - q) div 8 = q div 8"
        using rev_div_mod_8(1) [OF q(3)] q(3) by linarith
      with q rev_div_mod_8(2) [OF q(3)]
      show "7 - ?j div 8 = (bitPos b + ?p) div 8" "?j mod 8 = 7 - (bitPos b + ?p) mod 8"
        by simp_all
    qed
    have qn: "(bitPos b + ?p) div 8 < ?n" using True bits by linarith
    have "bit (W bits) i = bit (load_be ?mem :: u64) ?j"
      using jk by (simp add: W bit_drop_bit_eq bit_push_bit_iff)
    also have "\<dots> = bit (?mem ! ((bitPos b + ?p) div 8)) (7 - (bitPos b + ?p) mod 8)"
      using j64 len by (simp add: bit_load_be idx)
    also have "?mem ! ((bitPos b + ?p) div 8) = bufdata b ! (byteIter b + (bitPos b + ?p) div 8)"
      using qn left by (simp add: nth_append length_peek [OF wf] nth_peek [OF wf])
    also have "byteIter b + (bitPos b + ?p) div 8 = (bit_pos b + ?p) div 8"
      by (simp add: bit_pos_def add.assoc)
    also have "(bitPos b + ?p) mod 8 = (bit_pos b + ?p) mod 8"
      by (simp add: bit_pos_def add.assoc)
    also have "bit (bufdata b ! ((bit_pos b + ?p) div 8)) (7 - (bit_pos b + ?p) mod 8) = bits_ahead b ! ?p"
      using True room by (subst bit_ahead_nth) simp_all
    finally show ?thesis using True by simp
  qed
qed

lemma ReadStream_serializeBits_spec:
  assumes wf: "wf_buf b" and bits: "bits \<le> 57" "bits \<le> LENGTH('a::len)" and room: "bits \<le> bits_room b"
  shows "(ReadStream_serializeBits bits b :: (string + 'a word) \<times> bit_buf) =
     (Inr (of_bits (take bits (bits_ahead b))), advance_bits_pos bits b)"
proof (cases "bits = 0")
  case True
  then show ?thesis
    using wf by (simp add: ReadStream_serializeBits_def of_bits_def advance_bits_pos_def wf_buf_def)
next
  case False
  let ?W = "drop_bit (64 - bits) (push_bit (bitPos b)
     (byteswapBE (load_le (peek ((bits + bitPos b + 7) div 8) b
        @ replicate (8 - (bits + bitPos b + 7) div 8) 0) :: u64)))"
  have "(ucast ?W :: 'a word) = of_bits (take bits (bits_ahead b))"
    using False room bits
    by (intro bit_word_eqI)
      (auto simp: bit_ucast_iff read_word_bits [OF wf] bit_of_bits)
  then show ?thesis
    using False bits room bytesLeft_iff [OF wf, of bits]
    by (simp add: ReadStream_serializeBits_def Let_def)
qed

text \<open>Aligned extractions read whole bytes.\<close>

lemma bits_ahead_aligned: "bitPos b = 0 \<Longrightarrow> bits_ahead b = bits_of (drop (byteIter b) (bufdata b))"
  by (simp add: bits_ahead_def bit_pos_def drop_bits_of)

lemma bits_done_aligned: "bitPos b = 0 \<Longrightarrow> bits_done b = bits_of (take (byteIter b) (bufdata b))"
  by (simp add: bits_done_def bit_pos_def take_bits_of)

lemma take_bits_ahead_aligned: "bitPos b = 0 \<Longrightarrow> take (8 * n) (bits_ahead b) = bits_of (peek n b)"
  by (simp add: bits_ahead_aligned take_bits_of peek_def)

lemma of_bits_bits_of: "8 * length bs = LENGTH('a::len) \<Longrightarrow> of_bits (bits_of bs) = (load_be bs :: 'a word)"
  by (metis fits_length le_refl of_bits_to_bits store_be_load_be to_bits_store_be)

lemma load_le_pad_zeros:
  assumes "LENGTH('a::len) = 8 * length bs" "LENGTH('a) \<le> LENGTH('b::len)"
  shows "(ucast (load_le (bs @ replicate m 0) :: 'b word) :: 'a word) = load_le bs"
proof (rule bit_word_eqI)
  fix i
  assume i: "i < LENGTH('a)"
  then have "i div 8 < length bs" using assms by (simp add: less_mult_imp_div_less mult.commute)
  then show "bit (ucast (load_le (bs @ replicate m 0) :: 'b word) :: 'a word) i
      = bit (load_le bs :: 'a word) i"
    using i assms by (simp add: bit_load_le bit_ucast_iff nth_append)
qed

lemma aligned_peek_length:
  "wf_buf b \<Longrightarrow> bitPos b = 0 \<Longrightarrow> 8 * n \<le> bits_room b \<Longrightarrow> length (peek n b) = n"
  using bytesLeft_iff_aligned [of b n] by (simp add: length_peek)

lemma ReadStream_serializeByte_spec:
  assumes "wf_buf b" "bitPos b = 0" "8 \<le> bits_room b"
  shows "ReadStream_serializeByte b = (Inr (of_bits (take 8 (bits_ahead b))), advance_bytes_pos 1 b)"
proof -
  from assms have len: "length (peek 1 b) = 1" by (simp add: aligned_peek_length)
  then have "(ucast (load_le (peek 1 b @ replicate 3 0) :: u32) :: byte) = load_le (peek 1 b)"
    by (intro load_le_pad_zeros) simp_all
  moreover have "load_le (peek 1 b) = (load_be (peek 1 b) :: byte)"
    using len by (cases "peek 1 b") (simp_all add: load_le_def)
  ultimately show ?thesis
    using assms bytesLeft_iff_aligned [of b 1] take_bits_ahead_aligned [of b 1] len
    by (simp add: ReadStream_serializeByte_def of_bits_bits_of numeral_eq_Suc)
qed

lemma ReadStream_serializeUint16_spec:
  assumes "wf_buf b" "bitPos b = 0" "16 \<le> bits_room b"
  shows "ReadStream_serializeUint16 b = (Inr (of_bits (take 16 (bits_ahead b))), advance_bytes_pos 2 b)"
proof -
  from assms have len: "length (peek 2 b) = 2" by (simp add: aligned_peek_length)
  then have "(ucast (load_le (peek 2 b @ replicate 2 0) :: u32) :: u16) = load_le (peek 2 b)"
    by (intro load_le_pad_zeros) simp_all
  moreover have "byteswapBE (load_le (peek 2 b)) = (load_be (peek 2 b) :: u16)"
    using len by (simp add: byteswapBE_load_le)
  ultimately show ?thesis
    using assms bytesLeft_iff_aligned [of b 2] take_bits_ahead_aligned [of b 2] len
    by (simp add: ReadStream_serializeUint16_def of_bits_bits_of numeral_eq_Suc)
qed

lemma ReadStream_serializeUint32_spec:
  assumes "wf_buf b" "bitPos b = 0" "32 \<le> bits_room b"
  shows "ReadStream_serializeUint32 b = (Inr (of_bits (take 32 (bits_ahead b))), advance_bytes_pos 4 b)"
proof -
  from assms have len: "length (peek 4 b) = 4" by (simp add: aligned_peek_length)
  then have "byteswapBE (load_le (peek 4 b)) = (load_be (peek 4 b) :: u32)"
    by (simp add: byteswapBE_load_le)
  then show ?thesis
    using assms bytesLeft_iff_aligned [of b 4] take_bits_ahead_aligned [of b 4] len
    by (simp add: ReadStream_serializeUint32_def of_bits_bits_of)
qed

lemma ReadStream_serializeUint64_spec:
  assumes "wf_buf b" "bitPos b = 0" "64 \<le> bits_room b"
  shows "ReadStream_serializeUint64 b = (Inr (of_bits (take 64 (bits_ahead b))), advance_bytes_pos 8 b)"
proof -
  from assms have len: "length (peek 8 b) = 8" by (simp add: aligned_peek_length)
  then have "byteswapBE (load_le (peek 8 b)) = (load_be (peek 8 b) :: u64)"
    by (simp add: byteswapBE_load_le)
  then show ?thesis
    using assms bytesLeft_iff_aligned [of b 8] take_bits_ahead_aligned [of b 8] len
    by (simp add: ReadStream_serializeUint64_def of_bits_bits_of)
qed

section \<open>Writing\<close>

text \<open>Bit \<open>t\<close>, counted from the top, of the word that \<open>serializeBits\<close> stores.\<close>

lemma write_word_bit:
  fixes v :: "'a::len word" and cur :: byte
  assumes k: "k < 8" and n: "0 < n" "n \<le> 57" "n \<le> LENGTH('a)"
    and clean: "k \<noteq> 0 \<Longrightarrow> \<forall>i < 8 - k. \<not> bit cur i" and t: "t < 64"
  defines "W0 \<equiv> push_bit (64 - n) (ucast v :: u64)"
  shows "bit (if k \<noteq> 0 then drop_bit k W0 OR push_bit 56 (ucast cur :: u64) else W0) (63 - t) \<longleftrightarrow>
     (if t < k then bit cur (7 - t) else t < k + n \<and> bit v (n - 1 - (t - k)))"
proof -
  have W0: "bit W0 m \<longleftrightarrow> m < 64 \<and> 64 - n \<le> m \<and> bit v (m - (64 - n))" for m
    using bit_imp_le_length [of v "m - (64 - n)"]
    by (auto simp: W0_def bit_push_bit_iff bit_ucast_iff)
  have cur: "bit (push_bit 56 (ucast cur :: u64)) (63 - t) \<longleftrightarrow> t < 8 \<and> bit cur (7 - t)"
    using t bit_imp_le_length [of cur "7 - t"]
    by (auto simp: bit_push_bit_iff bit_ucast_iff)
  have drop: "bit (drop_bit k W0) (63 - t) \<longleftrightarrow> k \<le> t \<and> t < k + n \<and> bit v (n - 1 - (t - k))"
  proof (cases "k \<le> t")
    case True
    then have "k + (63 - t) = 63 - (t - k)" using t k by linarith
    moreover have "63 - (t - k) - (64 - n) = n - 1 - (t - k)" if "t < k + n"
      using that n t by linarith
    ultimately show ?thesis using True t n by (auto simp: bit_drop_bit_eq W0)
  next
    case False
    then show ?thesis using t by (auto simp: bit_drop_bit_eq W0)
  qed
  have high: "\<not> bit cur (7 - t)" if "k \<noteq> 0" "k \<le> t" "t < 8"
    using clean [OF that(1)] that by auto
  show ?thesis
  proof (cases "k = 0")
    case True
    have "bit W0 (63 - t) \<longleftrightarrow> t < n \<and> bit v (n - 1 - t)"
    proof (cases "t < n")
      case True
      then have "63 - t - (64 - n) = n - 1 - t" using n t by linarith
      with True show ?thesis using n t by (auto simp: W0)
    qed (use n t in \<open>auto simp: W0\<close>)
    with True show ?thesis by simp
  next
    case False
    then show ?thesis using high k by (auto simp: bit_or_iff drop cur)
  qed
qed

text \<open>
  A write appends bits: the bits written before stay, the new bits follow, and the bytes
  after the ones touched are unchanged.
\<close>

definition appended :: "bit_buf \<Rightarrow> bool list \<Rightarrow> bit_buf \<Rightarrow> bool" where
  "appended b bs b' \<longleftrightarrow> wf_buf b' \<and> clean_tail b' \<and>
     length (bufdata b') = length (bufdata b) \<and>
     bit_pos b' = bit_pos b + length bs \<and>
     bits_done b' = bits_done b @ bs \<and>
     drop ((bit_pos b' + 7) div 8) (bufdata b') = drop ((bit_pos b' + 7) div 8) (bufdata b)"

lemma appended_refl: "wf_buf b \<Longrightarrow> clean_tail b \<Longrightarrow> appended b [] b"
  by (simp add: appended_def)

lemma drop_eq_mono: "drop m xs = drop m ys \<Longrightarrow> m \<le> n \<Longrightarrow> drop n xs = drop n ys"
  by (metis drop_drop le_add_diff_inverse2)

lemma appended_trans:
  assumes "appended b xs b'" "appended b' ys b''"
  shows "appended b (xs @ ys) b''"
proof -
  have "(bit_pos b' + 7) div 8 \<le> (bit_pos b'' + 7) div 8"
    using assms(2) by (simp add: appended_def div_le_mono)
  then show ?thesis
    using assms drop_eq_mono by (fastforce simp: appended_def)
qed

lemma appended_wf: "appended b bs b' \<Longrightarrow> wf_buf b'" "appended b bs b' \<Longrightarrow> clean_tail b'"
  by (simp_all add: appended_def)

lemma appended_room: "appended b bs b' \<Longrightarrow> bits_room b' = bits_room b - length bs"
  by (simp add: appended_def bits_room_def)

lemma bitPos_bit_pos: "wf_buf b \<Longrightarrow> bitPos b = bit_pos b mod 8"
  by (simp add: bit_pos_def wf_buf_def)

text \<open>Overwriting the bytes of the buffer from the current one on, seen bit by bit.\<close>

lemma bits_poke:
  assumes wf: "wf_buf b" and fit: "length bs \<le> bytesLeft b" and p: "p < 8 * length (bufdata b)"
  shows "bits_of (bufdata (poke bs b)) ! p =
    (if p < 8 * byteIter b \<or> 8 * (byteIter b + length bs) \<le> p then bits_of (bufdata b) ! p
     else bit (bs ! ((p - 8 * byteIter b) div 8)) (7 - p mod 8))"
proof -
  have le: "byteIter b + length bs \<le> length (bufdata b)"
    using wf fit unfolding wf_buf_def bytesLeft_def by linarith
  have q: "p div 8 < length (bufdata b)" using p by (simp add: less_mult_imp_div_less mult.commute)
  have bits: "bits_of (bufdata (poke bs b)) ! p = bit (overwrite (bufdata b) (byteIter b) bs ! (p div 8)) (7 - p mod 8)"
    using p le by (subst nth_bits_of) simp_all
  have lo: "p div 8 < byteIter b \<longleftrightarrow> p < 8 * byteIter b"
    and hi: "p div 8 < byteIter b + length bs \<longleftrightarrow> p < 8 * (byteIter b + length bs)"
    by (auto simp: div_less_iff_less_mult mult.commute)
  have "(p - 8 * byteIter b) div 8 = p div 8 - byteIter b" if "\<not> p < 8 * byteIter b"
    using that by (simp add: div_mult_self4 [symmetric] not_less)
  then show ?thesis
    using nth_overwrite [OF le q] p unfolding bits by (auto simp: lo hi nth_bits_of not_less)
qed

lemma WriteStream_serializeBits_spec:
  fixes v :: "'a::len word"
  assumes wf: "wf_buf b" and clean: "clean_tail b"
    and bits: "bits \<le> 57" "bits \<le> LENGTH('a)" and room: "bits \<le> bits_room b"
  shows "\<exists>b'. WriteStream_serializeBits v bits b = (Inr (), b') \<and> appended b (to_bits bits v) b'"
proof (cases "bits = 0")
  case True
  then show ?thesis
    using appended_refl [OF wf clean] by (simp add: WriteStream_serializeBits_def)
next
  case False
  define k B n where kBn: "k = bitPos b" "B = byteIter b" "n = (bits + k + 7) div 8"
  define W0 :: u64 where "W0 = push_bit (64 - bits) (ucast v)"
  define W where
    "W = (if k \<noteq> 0 then drop_bit k W0 OR push_bit 56 (ucast (bufdata b ! B)) else W0)"
  define b1 where "b1 = poke (take n (store_be 8 W)) b"
  have k: "k < 8" using wf by (simp add: wf_buf_def kBn)
  have n8: "n \<le> 8" using bits k by (simp add: kBn)
  have nleft: "n \<le> bytesLeft b" using bytesLeft_iff [OF wf, of bits] room by (simp add: kBn)
  have sb: "store_le 8 (byteswapBE w) = store_be 8 w" for w :: u64
    by (rule store_le_byteswapBE) simp
  have res: "WriteStream_serializeBits v bits b = (Inr (), advance_bits_pos bits b1)"
    using False bits nleft sb
    by (auto simp: WriteStream_serializeBits_def Let_def kBn [symmetric] W0_def [symmetric]
        W_def b1_def)
  have Wbit: "bit W (63 - t) \<longleftrightarrow>
      (if t < k then bit (bufdata b ! B) (7 - t) else t < k + bits \<and> bit v (bits - 1 - (t - k)))"
    if "t < 64" for t
    unfolding W_def W0_def
    using write_word_bit [where k = k and n = bits and t = t and cur = "bufdata b ! B" and v = v] k False bits that clean
    by (simp add: clean_tail_def kBn)
  have byte: "bit (take n (store_be 8 W) ! q) (7 - r) = bit W (63 - (8 * q + r))"
    if "q < n" "r < 8" for q r
  proof -
    have "8 * (7 - q) + (7 - r) = 63 - (8 * q + r)" using that n8 by linarith
    moreover have "7 - r < 8" by simp
    ultimately show ?thesis using that n8 by (simp add: bit_nth_store_be)
  qed
  have pos: "bit_pos b = 8 * B + k" by (simp add: bit_pos_def kBn)
  have pos1: "bit_pos b1 = bit_pos b" "byteIter b1 = byteIter b" "bitPos b1 = bitPos b"
    by (simp_all add: b1_def)
  have len1: "length (bufdata b1) = length (bufdata b)"
  proof -
    have "byteIter b + n \<le> length (bufdata b)"
      using nleft wf unfolding bytesLeft_def wf_buf_def by linarith
    then show ?thesis using n8 by (simp add: b1_def)
  qed
  have bit1: "bits_of (bufdata b1) ! p =
      (if p < bit_pos b \<or> 8 * (B + n) \<le> p then bits_of (bufdata b) ! p
       else p < bit_pos b + bits \<and> bit v (bits - 1 - (p - bit_pos b)))"
    if p: "p < 8 * length (bufdata b)" for p
  proof (cases "p < 8 * B \<or> 8 * (B + n) \<le> p")
    case True
    then show ?thesis
      using bits_poke [OF wf _ p, of "take n (store_be 8 W)"] n8 nleft k
      by (auto simp: b1_def kBn(2) [symmetric] pos min_def)
  next
    case False
    define t where "t = p - 8 * B"
    have t: "p = 8 * B + t" "t < 8 * n" using False by (auto simp: t_def)
    have qr: "t div 8 < n" "t mod 8 < 8" using t by (simp_all add: less_mult_imp_div_less mult.commute)
    have "bits_of (bufdata b1) ! p = bit (take n (store_be 8 W) ! (t div 8)) (7 - t mod 8)"
      using bits_poke [OF wf _ p, of "take n (store_be 8 W)"] n8 nleft t
      by (simp add: b1_def kBn(2) [symmetric] min_def)
    also have "\<dots> = bit W (63 - t)"
      using byte [OF qr] by simp
    also have "\<dots> = (if t < k then bit (bufdata b ! B) (7 - t)
        else t < k + bits \<and> bit v (bits - 1 - (t - k)))"
      using t n8 by (intro Wbit) linarith
    finally show ?thesis
      using False t k p by (auto simp: pos nth_bits_of)
  qed
  let ?b' = "advance_bits_pos bits b1"
  have pos': "bit_pos ?b' = bit_pos b + bits" by (simp add: b1_def)
  have wf1: "wf_buf b1" using wf len1 by (simp add: wf_buf_def b1_def)
  have wf': "wf_buf ?b'"
    using wf_advance_bits [OF wf1, of bits] room len1 by (simp add: bits_room_def b1_def)
  have le: "bit_pos b + bits \<le> 8 * length (bufdata b)"
    using room wf_bit_pos [OF wf] by (simp add: bits_room_def)
  have cover: "bit_pos b + bits \<le> 8 * (B + n)"
    using le_round_up_8 [of "bits + k"] by (simp add: pos kBn(3) add.commute)
  have don: "bits_done ?b' = bits_done b @ to_bits bits v"
  proof (rule nth_equalityI)
    show "length (bits_done ?b') = length (bits_done b @ to_bits bits v)"
      using length_bits_done [OF wf'] length_bits_done [OF wf] by (simp add: pos1)
  next
    fix p
    assume "p < length (bits_done ?b')"
    then have p: "p < bit_pos b + bits" using length_bits_done [OF wf'] by (simp add: pos1)
    show "bits_done ?b' ! p = (bits_done b @ to_bits bits v) ! p"
      using p le cover bit1 [of p] length_bits_done [OF wf]
      by (auto simp: bits_done_def pos1 nth_append nth_to_bits len1)
  qed
  have frame: "drop ((bit_pos ?b' + 7) div 8) (bufdata ?b') = drop ((bit_pos ?b' + 7) div 8) (bufdata b)"
  proof -
    have "(bit_pos ?b' + 7) div 8 = B + n" unfolding pos' pos kBn(3) by simp
    moreover have "length (take n (store_be 8 W)) = n" using n8 by simp
    moreover have "length (take B (bufdata b)) = B" using wf by (simp add: wf_buf_def kBn)
    ultimately show ?thesis by (simp add: b1_def overwrite_def kBn(2) [symmetric])
  qed
  have clean': "clean_tail ?b'"
    unfolding clean_tail_def
  proof (intro impI allI)
    fix i
    assume k': "bitPos ?b' \<noteq> 0" and i: "i < 8 - bitPos ?b'"
    define p where "p = 8 * byteIter ?b' + (7 - i)"
    have lt: "byteIter ?b' < length (bufdata b)"
      using wf' k' len1 by (auto simp: wf_buf_def)
    have "bit_pos ?b' \<le> p" "p < 8 * (byteIter ?b' + 1)"
      using i by (simp_all add: p_def bit_pos_def)
    moreover have "byteIter ?b' + 1 \<le> B + n"
    proof -
      have "bit_pos ?b' = 8 * byteIter ?b' + bitPos ?b'" by (simp add: bit_pos_def)
      then show ?thesis using cover k' by (simp add: pos1)
    qed
    ultimately have "\<not> bits_of (bufdata b1) ! p"
      using bit1 [of p] lt p_def by (auto simp: pos1)
    moreover have plt: "p < 8 * length (bufdata b1)"
      using lt len1 by (simp add: p_def)
    moreover have "p div 8 = byteIter ?b'" "7 - p mod 8 = i"
      using i div_mod_8_add [of "7 - i" "byteIter ?b'"] unfolding p_def by simp_all
    ultimately show "\<not> bit (bufdata ?b' ! byteIter ?b') i"
      using nth_bits_of [OF plt] by simp
  qed
  have "appended b (to_bits bits v) ?b'"
    using wf' clean' don frame len1 pos' by (simp add: appended_def)
  with res show ?thesis by blast
qed

text \<open>Aligned insertions append whole bytes.\<close>

lemma appended_bytes:
  assumes wf: "wf_buf b" and aligned: "bitPos b = 0" and room: "8 * length bs \<le> bits_room b"
  shows "appended b (bits_of bs) (advance_bytes_pos (length bs) (poke bs b))"
proof -
  let ?b' = "advance_bytes_pos (length bs) (poke bs b)"
  have le: "byteIter b + length bs \<le> length (bufdata b)"
    using assms wf_bit_pos [OF wf] by (simp add: bits_room_def bit_pos_def)
  have "wf_buf ?b'"
    by (rule wf_bufI) (use le aligned in \<open>simp_all add: bit_pos_def advance_bytes_pos_def\<close>)
  moreover have "bitPos ?b' = 0" using aligned by (simp add: advance_bytes_pos_def)
  moreover have "bits_done ?b' = bits_done b @ bits_of bs"
    using le aligned calculation(2)
    by (simp add: bits_done_aligned) (simp add: advance_bytes_pos_def overwrite_def take_bits_of)
  moreover have "(bit_pos ?b' + 7) div 8 = byteIter b + length bs"
    using aligned by (simp add: bit_pos_def advance_bytes_pos_def)
  ultimately show ?thesis
    using le by (simp add: appended_def clean_tail_def overwrite_def)
qed

lemma WriteStream_serializeByte_spec:
  assumes "wf_buf b" "clean_tail b" "8 \<le> bits_room b"
  shows "\<exists>b'. WriteStream_serializeByte v b = (Inr (), b') \<and> appended b (to_bits 8 v) b'"
proof (cases "bitPos b = 0")
  case True
  then show ?thesis
    using assms bytesLeft_iff_aligned [of b 1] appended_bytes [of b "[v]"]
    by (simp add: WriteStream_serializeByte_def to_bits_byte)
next
  case False
  then show ?thesis
    using WriteStream_serializeBits_spec [of b 8 v] assms
    by (simp add: WriteStream_serializeByte_def)
qed

lemma WriteStream_serializeUint16_spec:
  assumes "wf_buf b" "bitPos b = 0" "16 \<le> bits_room b"
  shows "\<exists>b'. WriteStream_serializeUint16 v b = (Inr (), b') \<and> appended b (to_bits 16 v) b'"
  using assms bytesLeft_iff_aligned [of b 2] appended_bytes [of b "store_be 2 v"]
    store_le_byteswapBE [of 2 v] to_bits_store_be [of 2 v]
  by (simp add: WriteStream_serializeUint16_def)

lemma WriteStream_serializeUint32_spec:
  assumes "wf_buf b" "bitPos b = 0" "32 \<le> bits_room b"
  shows "\<exists>b'. WriteStream_serializeUint32 v b = (Inr (), b') \<and> appended b (to_bits 32 v) b'"
  using assms bytesLeft_iff_aligned [of b 4] appended_bytes [of b "store_be 4 v"]
    store_le_byteswapBE [of 4 v] to_bits_store_be [of 4 v]
  by (simp add: WriteStream_serializeUint32_def)

lemma WriteStream_serializeUint64_spec:
  assumes "wf_buf b" "bitPos b = 0" "64 \<le> bits_room b"
  shows "\<exists>b'. WriteStream_serializeUint64 v b = (Inr (), b') \<and> appended b (to_bits 64 v) b'"
  using assms bytesLeft_iff_aligned [of b 8] appended_bytes [of b "store_be 8 v"]
    store_le_byteswapBE [of 8 v] to_bits_store_be [of 8 v]
  by (simp add: WriteStream_serializeUint64_def)

lemma WriteStream_serializeBytes_spec:
  assumes "wf_buf b" "bitPos b = 0" "8 * length bs \<le> bits_room b"
  shows "\<exists>b'. WriteStream_serializeBytes bs b = (Inr (), b') \<and> appended b (bits_of bs) b'"
  using assms bytesLeft_iff_aligned [of b "length bs"] appended_bytes [of b bs]
  by (simp add: WriteStream_serializeBytes_def)

lemma bits_of_zeros: "bits_of (replicate n 0) = replicate (8 * n) False"
  by (rule nth_equalityI)
    (auto simp: nth_bits_of less_mult_imp_div_less mult.commute)

lemma to_bits_zero: "to_bits n 0 = replicate n False"
  by (simp add: to_bits_def map_replicate_const)

lemma WriteStream_advanceBytes_spec:
  assumes "wf_buf b" "bitPos b = 0" "8 * n \<le> bits_room b"
  shows "\<exists>b'. WriteStream_advanceBytes n b = (Inr (), b') \<and> appended b (replicate (8 * n) False) b'"
  using assms bytesLeft_iff_aligned [of b n] appended_bytes [of b "replicate n 0"]
  by (simp add: WriteStream_advanceBytes_def bits_of_zeros)

lemma WriteStream_skip32_spec:
  "wf_buf b \<Longrightarrow> clean_tail b \<Longrightarrow> 32 * n \<le> bits_room b \<Longrightarrow>
     \<exists>b'. WriteStream_skip32 n b = (Inr (), b') \<and> appended b (replicate (32 * n) False) b'"
proof (induction n arbitrary: b)
  case 0
  then show ?case by (simp add: appended_refl)
next
  case (Suc n)
  then obtain b1 where b1: "WriteStream_serializeBits (0 :: u32) 32 b = (Inr (), b1)"
      "appended b (replicate 32 False) b1"
    using WriteStream_serializeBits_spec [of b 32 "0 :: u32"] by (auto simp: to_bits_zero)
  moreover have "32 * n \<le> bits_room b1"
    using Suc.prems(3) appended_room [OF b1(2)] by simp
  ultimately obtain b2 where b2: "WriteStream_skip32 n b1 = (Inr (), b2)"
      "appended b1 (replicate (32 * n) False) b2"
    using Suc.IH [OF appended_wf [OF b1(2)]] by blast
  have "replicate 32 False @ replicate (32 * n) False = replicate (32 * Suc n) False"
    by (simp add: replicate_add)
  then show ?case
    using b1(1) b2(1) appended_trans [OF b1(2) b2(2)] by simp
qed

lemma WriteStream_advanceBits_spec:
  assumes wf: "wf_buf b" and clean: "clean_tail b" and room: "n \<le> bits_room b"
  shows "\<exists>b'. WriteStream_advanceBits n b = (Inr (), b') \<and> appended b (replicate n False) b'"
proof -
  have split: "32 * (n div 32) + n mod 32 = n" by simp
  obtain b1 where b1: "WriteStream_skip32 (n div 32) b = (Inr (), b1)"
      "appended b (replicate (32 * (n div 32)) False) b1"
    using WriteStream_skip32_spec [OF wf clean, of "n div 32"] room split by force
  have "n mod 32 \<le> bits_room b1"
    using appended_room [OF b1(2)] room split by (simp only: length_replicate)
  moreover have "n mod 32 \<le> 57" "n mod 32 \<le> LENGTH(32)"
    using mod_less_divisor [of 32 n] by simp_all
  ultimately obtain b2 where b2: "WriteStream_serializeBits (0 :: u32) (n mod 32) b1 = (Inr (), b2)"
      "appended b1 (replicate (n mod 32) False) b2"
    using WriteStream_serializeBits_spec [OF appended_wf [OF b1(2)], of "n mod 32" "0 :: u32"]
    by (auto simp: to_bits_zero)
  have "appended b (replicate n False) b2"
    using appended_trans [OF b1(2) b2(2)] split
    by (simp add: replicate_add [symmetric] del: replicate_add)
  then show ?thesis
    using b1(1) b2(1) bytesLeft_iff [OF wf, of n] room
    by (auto simp: WriteStream_advanceBits_def not_less)
qed

section \<open>Skipping when reading\<close>

text \<open>A read leaves the buffer alone and moves the position.\<close>

definition consumed :: "bit_buf \<Rightarrow> nat \<Rightarrow> bit_buf \<Rightarrow> bool" where
  "consumed b n b' \<longleftrightarrow> wf_buf b' \<and> bufdata b' = bufdata b \<and> bit_pos b' = bit_pos b + n"

lemma consumed_trans: "consumed b m b' \<Longrightarrow> consumed b' n b'' \<Longrightarrow> consumed b (m + n) b''"
  by (simp add: consumed_def)

lemma consumed_ahead: "consumed b n b' \<Longrightarrow> bits_ahead b' = drop n (bits_ahead b)"
  by (simp add: consumed_def bits_ahead_def add.commute)

lemma consumed_room: "consumed b n b' \<Longrightarrow> bits_room b' = bits_room b - n"
  by (simp add: consumed_def bits_room_def)

lemma consumed_bits: "wf_buf b \<Longrightarrow> n \<le> bits_room b \<Longrightarrow> consumed b n (advance_bits_pos n b)"
  by (simp add: consumed_def wf_advance_bits)

lemma consumed_bytes: "wf_buf b \<Longrightarrow> 8 * n \<le> bits_room b \<Longrightarrow> consumed b (8 * n) (advance_bytes_pos n b)"
  by (simp add: consumed_def wf_advance_bytes)

lemma ReadStream_skip32_spec:
  "wf_buf b \<Longrightarrow> 32 * n \<le> bits_room b \<Longrightarrow>
     \<exists>b'. ReadStream_skip32 n b = (Inr (), b') \<and> consumed b (32 * n) b'"
proof (induction n arbitrary: b)
  case 0
  then show ?case by (simp add: consumed_def)
next
  case (Suc n)
  have c: "consumed b 32 (advance_bits_pos 32 b)" using Suc.prems by (intro consumed_bits) simp_all
  moreover have "32 * n \<le> bits_room (advance_bits_pos 32 b)"
    using Suc.prems(2) consumed_room [OF c] by simp
  ultimately obtain b2 where b2: "ReadStream_skip32 n (advance_bits_pos 32 b) = (Inr (), b2)"
      "consumed (advance_bits_pos 32 b) (32 * n) b2"
    using Suc.IH [of "advance_bits_pos 32 b"] by (auto simp: consumed_def)
  then show ?case
    using consumed_trans [OF c b2(2)] Suc.prems
    by (simp add: ReadStream_serializeBits_spec)
qed

lemma ReadStream_advanceBits_spec:
  assumes wf: "wf_buf b" and room: "n \<le> bits_room b"
  shows "\<exists>b'. ReadStream_advanceBits n b = (Inr (), b') \<and> consumed b n b'"
proof -
  have split: "32 * (n div 32) + n mod 32 = n" by simp
  obtain b1 where b1: "ReadStream_skip32 (n div 32) b = (Inr (), b1)"
      "consumed b (32 * (n div 32)) b1"
    using ReadStream_skip32_spec [OF wf, of "n div 32"] room split by force
  have room1: "n mod 32 \<le> bits_room b1"
    using consumed_room [OF b1(2)] room split by linarith
  then have c: "consumed b1 (n mod 32) (advance_bits_pos (n mod 32) b1)"
    using b1(2) by (intro consumed_bits) (simp_all add: consumed_def)
  have "n mod 32 \<le> 32" by simp
  then have "(ReadStream_serializeBits (n mod 32) b1 :: (string + u32) \<times> bit_buf)
      = (Inr (of_bits (take (n mod 32) (bits_ahead b1))), advance_bits_pos (n mod 32) b1)"
    using b1(2) room1 by (intro ReadStream_serializeBits_spec) (auto simp: consumed_def)
  then show ?thesis
    using b1 consumed_trans [OF b1(2) c] bytesLeft_iff [OF wf, of n] room split
    by (auto simp: ReadStream_advanceBits_def not_less)
qed

lemma ReadStream_advanceBytes_spec:
  assumes "wf_buf b" "bitPos b = 0" "8 * n \<le> bits_room b"
  shows "ReadStream_advanceBytes n b = (Inr (), advance_bytes_pos n b)"
  using assms bytesLeft_iff_aligned [of b n] by (simp add: ReadStream_advanceBytes_def)

lemma ReadStream_serializeBytes_spec:
  assumes "wf_buf b" "bitPos b = 0" "8 * n \<le> bits_room b"
  shows "ReadStream_serializeBytes n b = (Inr (peek n b), advance_bytes_pos n b)"
  using assms bytesLeft_iff_aligned [of b n] by (simp add: ReadStream_serializeBytes_def)

end
