(* ===== verification/Codec.thy ===== *)
theory Codec
  imports StreamSpec
begin

text \<open>
  The contract of a \<open>serialize\<close> template. \<open>writesB k m bs a\<close>: from any write stream whose
  position is \<open>k\<close> modulo 8 and that has room, \<open>m\<close> succeeds, appends the bits \<open>bs\<close> and yields
  \<open>a\<close>. \<open>readsB k m bs a\<close>: from any read stream at such a position whose next bits are
  \<open>bs\<close>, \<open>m\<close> consumes them and yields \<open>a\<close>. \<open>getsB k m Q\<close>: whenever \<open>m\<close> succeeds on a read
  stream at such a position, with value \<open>a\<close>, it consumed some bits \<open>bs\<close> with \<open>Q a bs\<close>. The
  rules in \<open>writes_rules\<close>, \<open>reads_rules\<close> and \<open>gets_rules\<close> compose these step by step, as
  \<open>ser_bind\<close> composes the steps of the code; the locales \<open>codec\<close> and \<open>strict_codec\<close> draw
  the consequences for a whole header once.
\<close>

definition writesB :: "nat \<Rightarrow> 'a ser \<Rightarrow> bool list \<Rightarrow> 'a \<Rightarrow> bool" where
  "writesB k m bs a \<longleftrightarrow> (\<forall>b. wf_buf b \<longrightarrow> clean_tail b \<longrightarrow> bit_pos b mod 8 = k mod 8 \<longrightarrow>
     length bs \<le> bits_room b \<longrightarrow>
     (\<exists>b'. m (WriteStream b) = (Inr a, WriteStream b') \<and> appended b bs b'))"

definition readsB :: "nat \<Rightarrow> 'a ser \<Rightarrow> bool list \<Rightarrow> 'a \<Rightarrow> bool" where
  "readsB k m bs a \<longleftrightarrow> (\<forall>b rest. wf_buf b \<longrightarrow> bit_pos b mod 8 = k mod 8 \<longrightarrow>
     bits_ahead b = bs @ rest \<longrightarrow>
     (\<exists>b'. m (ReadStream b) = (Inr a, ReadStream b') \<and> consumed b (length bs) b'))"

definition getsB :: "nat \<Rightarrow> 'a ser \<Rightarrow> ('a \<Rightarrow> bool list \<Rightarrow> bool) \<Rightarrow> bool" where
  "getsB k m Q \<longleftrightarrow> (\<forall>b a st. wf_buf b \<longrightarrow> bit_pos b mod 8 = k mod 8 \<longrightarrow>
     m (ReadStream b) = (Inr a, st) \<longrightarrow>
     (\<exists>b' n. st = ReadStream b' \<and> consumed b n b' \<and> n \<le> bits_room b \<and> Q a (take n (bits_ahead b))))"

named_theorems writes_rules
named_theorems reads_rules
named_theorems gets_rules

lemma writesB_eq: "writesB k m bs' a' \<Longrightarrow> bs' = bs \<Longrightarrow> a' = a \<Longrightarrow> writesB k m bs a"
  by simp

lemma readsB_eq: "readsB k m bs' a' \<Longrightarrow> bs' = bs \<Longrightarrow> a' = a \<Longrightarrow> readsB k m bs a"
  by simp

section \<open>Composition\<close>

lemma writesB_return [writes_rules]: "writesB k (ser_return a) [] a"
  by (auto simp: writesB_def ser_return_def intro: appended_refl)

lemma readsB_return [reads_rules]: "readsB k (ser_return a) [] a"
  by (auto simp: readsB_def ser_return_def consumed_def)

lemma writesB_bind [writes_rules]:
  assumes m: "writesB k m bs a" and f: "writesB (k + length bs) (f a) bs' c"
  shows "writesB k (ser_bind m f) (bs @ bs') c"
  unfolding writesB_def
proof (intro allI impI)
  fix b
  assume b: "wf_buf b" "clean_tail b" "bit_pos b mod 8 = k mod 8" "length (bs @ bs') \<le> bits_room b"
  then obtain b1 where b1: "m (WriteStream b) = (Inr a, WriteStream b1)" "appended b bs b1"
    using m unfolding writesB_def by fastforce
  have "bit_pos b1 mod 8 = (k + length bs) mod 8"
    using b(3) b1(2) by (simp add: appended_def) (metis mod_add_left_eq)
  moreover have "length bs' \<le> bits_room b1" using appended_room [OF b1(2)] b(4) by simp
  ultimately obtain b2 where b2: "f a (WriteStream b1) = (Inr c, WriteStream b2)" "appended b1 bs' b2"
    using f appended_wf [OF b1(2)] unfolding writesB_def by blast
  show "\<exists>b'. ser_bind m f (WriteStream b) = (Inr c, WriteStream b') \<and> appended b (bs @ bs') b'"
    using b1(1) b2(1) appended_trans [OF b1(2) b2(2)] by (simp add: ser_bind_def)
qed

lemma readsB_bind [reads_rules]:
  assumes m: "readsB k m bs a" and f: "readsB (k + length bs) (f a) bs' c"
  shows "readsB k (ser_bind m f) (bs @ bs') c"
  unfolding readsB_def
proof (intro allI impI)
  fix b rest
  assume b: "wf_buf b" "bit_pos b mod 8 = k mod 8" "bits_ahead b = (bs @ bs') @ rest"
  then obtain b1 where b1: "m (ReadStream b) = (Inr a, ReadStream b1)" "consumed b (length bs) b1"
    using m unfolding readsB_def by (metis append.assoc)
  have "bit_pos b1 mod 8 = (k + length bs) mod 8"
    using b(2) b1(2) by (simp add: consumed_def) (metis mod_add_left_eq)
  moreover have "bits_ahead b1 = bs' @ rest" using consumed_ahead [OF b1(2)] b(3) by simp
  ultimately obtain b2 where b2: "f a (ReadStream b1) = (Inr c, ReadStream b2)"
      "consumed b1 (length bs') b2"
    using f b1(2) unfolding readsB_def consumed_def by blast
  show "\<exists>b'. ser_bind m f (ReadStream b) = (Inr c, ReadStream b') \<and> consumed b (length (bs @ bs')) b'"
    using b1(1) b2(1) consumed_trans [OF b1(2) b2(2)] by (simp add: ser_bind_def)
qed

lemma writesB_read_check [writes_rules]: "writesB k (read_check bad msg) [] ()"
  by (auto simp: writesB_def read_check_def intro: appended_refl)

lemma readsB_read_check [reads_rules]: "\<not> bad \<Longrightarrow> readsB k (read_check bad msg) [] ()"
  by (auto simp: readsB_def read_check_def consumed_def)

lemma writesB_if_reading [writes_rules]: "writesB k w bs a \<Longrightarrow> writesB k (if_reading r w) bs a"
  by (simp add: writesB_def if_reading_def)

lemma readsB_if_reading [reads_rules]: "readsB k r bs a \<Longrightarrow> readsB k (if_reading r w) bs a"
  by (simp add: readsB_def if_reading_def)

text \<open>Looking ahead yields the next bytes without consuming them.\<close>

lemma readsB_lookahead:
  assumes k: "k mod 8 = 0" and bs: "bs = bits_of ds @ bs'" and n: "n = length ds" "n \<noteq> npos"
    and f: "readsB k (f ds) bs c"
  shows "readsB k (ser_bind (lookahead n) f) bs c"
  unfolding readsB_def
proof (intro allI impI)
  fix b rest
  assume b: "wf_buf b" "bit_pos b mod 8 = k mod 8" "bits_ahead b = bs @ rest"
  then have al: "bitPos b = 0" using bitPos_bit_pos [OF b(1)] k by simp
  have "length (bits_ahead b) = 8 * n + length (bs' @ rest)" using b(3) bs n by simp
  then have room: "8 * n \<le> bits_room b" by simp
  have "bits_of (peek n b) = bits_of ds"
    using take_bits_ahead_aligned [OF al, of n] b(3) bs n by simp
  then have "lookahead n (ReadStream b) = (Inr ds, ReadStream b)"
    using al n(2) room bytesLeft_iff_aligned [OF b(1) al, of n] bits_of_inject
    by (auto simp: ReadStream_lookahead_def not_less)
  then show "\<exists>b'. ser_bind (lookahead n) f (ReadStream b) = (Inr c, ReadStream b') \<and> consumed b (length bs) b'"
    using f b unfolding readsB_def by (simp add: ser_bind_def)
qed

section \<open>The primitive operations\<close>

lemma writesB_serializeBits [writes_rules]:
  "n \<le> 57 \<Longrightarrow> n \<le> LENGTH('a::len) \<Longrightarrow> writesB k (serializeBits (v :: 'a word) n) (to_bits n v) v"
  unfolding writesB_def serializeBits_def on_stream_def
  by (auto dest!: WriteStream_serializeBits_spec [where v = v and bits = n])

lemma readsB_serializeBits [reads_rules]:
  assumes "n \<le> 57" "n \<le> LENGTH('a::len)" "fits n (v :: 'a word)"
  shows "readsB k (serializeBits v0 n) (to_bits n v) v"
  unfolding readsB_def serializeBits_def on_stream_def
proof (intro allI impI)
  fix b rest
  assume b: "wf_buf b" "bits_ahead b = to_bits n v @ rest"
  then have "length (bits_ahead b) = n + length rest" by simp
  then have room: "n \<le> bits_room b" by simp
  then have "ReadStream_serializeBits n b = (Inr v, advance_bits_pos n b)"
    using ReadStream_serializeBits_spec [OF b(1) assms(1,2) room] b(2) of_bits_to_bits [OF assms(3)]
    by simp
  then show "\<exists>b'. (case ReadStream b of ReadStream b \<Rightarrow> apsnd ReadStream (ReadStream_serializeBits n b)
     | WriteStream b \<Rightarrow> (case WriteStream_serializeBits v0 n b of (Inl e, b') \<Rightarrow> (Inl e, WriteStream b')
         | (Inr _, b') \<Rightarrow> (Inr v0, WriteStream b'))) = (Inr v, ReadStream b') \<and>
     consumed b (length (to_bits n v)) b'"
    using consumed_bits [OF b(1) room] by simp
qed

text \<open>An aligned extraction that reads \<open>n\<close> bytes as the word of the next bits.\<close>

lemma readsB_alignedI:
  assumes "\<And>b. wf_buf b \<Longrightarrow> bitPos b = 0 \<Longrightarrow> 8 * n \<le> bits_room b \<Longrightarrow>
     rd b = (Inr (f (take (8 * n) (bits_ahead b))), advance_bytes_pos n b)"
    and "k mod 8 = 0" and "length bs = 8 * n" and "f bs = v"
  shows "readsB k (on_stream rd v0 wr) bs v"
  unfolding readsB_def
proof (intro allI impI)
  fix b rest
  assume b: "wf_buf b" "bit_pos b mod 8 = k mod 8" "bits_ahead b = bs @ rest"
  then have "length (bits_ahead b) = 8 * n + length rest" using assms(3) by simp
  then have room: "8 * n \<le> bits_room b" by simp
  have "rd b = (Inr v, advance_bytes_pos n b)"
    using assms(1) [OF b(1) _ room] bitPos_bit_pos [OF b(1)] b(2,3) assms(2-4) by simp
  then show "\<exists>b'. on_stream rd v0 wr (ReadStream b) = (Inr v, ReadStream b') \<and> consumed b (length bs) b'"
    using consumed_bytes [OF b(1) room] assms(3) by (simp add: on_stream_def)
qed

lemma writesB_alignedI:
  assumes "\<And>b. wf_buf b \<Longrightarrow> clean_tail b \<Longrightarrow> bitPos b = 0 \<Longrightarrow> length bs \<le> bits_room b \<Longrightarrow>
     \<exists>b'. wr b = (Inr (), b') \<and> appended b bs b'"
    and "k mod 8 = 0"
  shows "writesB k (on_stream rd v wr) bs v"
  unfolding writesB_def
proof (intro allI impI)
  fix b
  assume b: "wf_buf b" "clean_tail b" "bit_pos b mod 8 = k mod 8" "length bs \<le> bits_room b"
  then obtain b' where "wr b = (Inr (), b')" "appended b bs b'"
    using assms bitPos_bit_pos [OF b(1)] by auto
  then show "\<exists>b'. on_stream rd v wr (WriteStream b) = (Inr v, WriteStream b') \<and> appended b bs b'"
    by (simp add: on_stream_def)
qed

lemma writesB_serializeByte [writes_rules]: "writesB k (serializeByte v) (to_bits 8 v) v"
  unfolding writesB_def serializeByte_def on_stream_def
  by (auto dest!: WriteStream_serializeByte_spec [where v = v])

lemma writesB_serializeUint16 [writes_rules]:
  "k mod 8 = 0 \<Longrightarrow> writesB k (serializeUint16 v) (to_bits 16 v) v"
  unfolding serializeUint16_def by (rule writesB_alignedI) (simp_all add: WriteStream_serializeUint16_spec)

lemma writesB_serializeUint32 [writes_rules]:
  "k mod 8 = 0 \<Longrightarrow> writesB k (serializeUint32 v) (to_bits 32 v) v"
  unfolding serializeUint32_def by (rule writesB_alignedI) (simp_all add: WriteStream_serializeUint32_spec)

lemma writesB_serializeUint64 [writes_rules]:
  "k mod 8 = 0 \<Longrightarrow> writesB k (serializeUint64 v) (to_bits 64 v) v"
  unfolding serializeUint64_def by (rule writesB_alignedI) (simp_all add: WriteStream_serializeUint64_spec)

lemma writesB_serializeBytes [writes_rules]:
  "k mod 8 = 0 \<Longrightarrow> writesB k (serializeBytes v) (bits_of v) v"
  unfolding serializeBytes_def by (rule writesB_alignedI) (simp_all add: WriteStream_serializeBytes_spec)

lemma writesB_advanceBytes [writes_rules]:
  "k mod 8 = 0 \<Longrightarrow> writesB k (advanceBytes n) (replicate (8 * n) False) ()"
  unfolding advanceBytes_def by (rule writesB_alignedI) (simp_all add: WriteStream_advanceBytes_spec)

lemma writesB_advanceBits [writes_rules]: "writesB k (advanceBits n) (replicate n False) ()"
  unfolding writesB_def advanceBits_def on_stream_def
  by (auto dest!: WriteStream_advanceBits_spec [where n = n])

lemma readsB_serializeByte_unaligned:
  assumes "wf_buf b" "bitPos b \<noteq> 0" "8 \<le> bits_room b"
  shows "ReadStream_serializeByte b = (Inr (of_bits (take 8 (bits_ahead b))), advance_bits_pos 8 b)"
proof -
  have "(ucast (of_bits (take 8 (bits_ahead b)) :: u32) :: byte) = of_bits (take 8 (bits_ahead b))"
    by (rule bit_word_eqI) (use assms in \<open>auto simp: bit_ucast_iff bit_of_bits\<close>)
  then show ?thesis
    using assms ReadStream_serializeBits_spec [OF assms(1), of 8, where 'a = 32]
    by (simp add: ReadStream_serializeByte_def)
qed

lemma readsB_serializeByte [reads_rules]: "readsB k (serializeByte v0) (to_bits 8 v) v"
  unfolding readsB_def serializeByte_def
proof (intro allI impI)
  fix b rest
  assume b: "wf_buf b" "bits_ahead b = to_bits 8 v @ rest"
  then have "length (bits_ahead b) = 8 + length rest" by simp
  then have room: "8 \<le> bits_room b" by simp
  have v: "of_bits (take 8 (bits_ahead b)) = v" using b(2) of_bits_to_bits [of 8 v] by simp
  show "\<exists>b'. on_stream ReadStream_serializeByte v0 (WriteStream_serializeByte v0) (ReadStream b) =
      (Inr v, ReadStream b') \<and> consumed b (length (to_bits 8 v)) b'"
  proof (cases "bitPos b = 0")
    case True
    then show ?thesis
      using ReadStream_serializeByte_spec [OF b(1) _ room] consumed_bytes [OF b(1), of 1] room v
      by (simp add: on_stream_def)
  next
    case False
    then show ?thesis
      using readsB_serializeByte_unaligned [OF b(1) _ room] consumed_bits [OF b(1) room] v
      by (simp add: on_stream_def)
  qed
qed

lemma readsB_serializeUint16 [reads_rules]:
  "k mod 8 = 0 \<Longrightarrow> readsB k (serializeUint16 v0) (to_bits 16 v) v"
  unfolding serializeUint16_def
  by (rule readsB_alignedI [where n = 2 and f = of_bits])
    (simp_all add: ReadStream_serializeUint16_spec of_bits_to_bits)

lemma readsB_serializeUint32 [reads_rules]:
  "k mod 8 = 0 \<Longrightarrow> readsB k (serializeUint32 v0) (to_bits 32 v) v"
  unfolding serializeUint32_def
  by (rule readsB_alignedI [where n = 4 and f = of_bits])
    (simp_all add: ReadStream_serializeUint32_spec of_bits_to_bits)

lemma readsB_serializeUint64 [reads_rules]:
  "k mod 8 = 0 \<Longrightarrow> readsB k (serializeUint64 v0) (to_bits 64 v) v"
  unfolding serializeUint64_def
  by (rule readsB_alignedI [where n = 8 and f = of_bits])
    (simp_all add: ReadStream_serializeUint64_spec of_bits_to_bits)

lemma readsB_advanceBytes:
  "k mod 8 = 0 \<Longrightarrow> length bs = 8 * n \<Longrightarrow> readsB k (advanceBytes n) bs ()"
  unfolding advanceBytes_def
  by (rule readsB_alignedI [where n = n and f = "\<lambda>_. ()"]) (simp_all add: ReadStream_advanceBytes_spec)

lemma readsB_advanceBytes_zeros [reads_rules]:
  "k mod 8 = 0 \<Longrightarrow> readsB k (advanceBytes n) (replicate (8 * n) False) ()"
  by (simp add: readsB_advanceBytes)

lemma readsB_advanceBits:
  assumes "length bs = n"
  shows "readsB k (advanceBits n) bs ()"
  unfolding readsB_def advanceBits_def on_stream_def
proof (intro allI impI)
  fix b rest
  assume b: "wf_buf b" "bits_ahead b = bs @ rest"
  then have "length (bits_ahead b) = n + length rest" using assms by simp
  then have "n \<le> bits_room b" by simp
  then show "\<exists>b'. (case ReadStream b of ReadStream b \<Rightarrow> apsnd ReadStream (ReadStream_advanceBits n b)
     | WriteStream b \<Rightarrow> (case WriteStream_advanceBits n b of (Inl e, b') \<Rightarrow> (Inl e, WriteStream b')
         | (Inr _, b') \<Rightarrow> (Inr (), WriteStream b'))) = (Inr (), ReadStream b') \<and>
     consumed b (length bs) b'"
    using ReadStream_advanceBits_spec [OF b(1)] assms by fastforce
qed

lemma readsB_advanceBits_zeros [reads_rules]: "readsB k (advanceBits n) (replicate n False) ()"
  by (simp add: readsB_advanceBits)

lemma peek_bits: "bitPos b = 0 \<Longrightarrow> bits_ahead b = bits_of v @ rest \<Longrightarrow> peek (length v) b = v"
  using take_bits_ahead_aligned [of b "length v"] by (auto intro: bits_of_inject)

lemma readsB_serializeBytes:
  assumes "k mod 8 = 0" "length v0 = length v"
  shows "readsB k (serializeBytes v0) (bits_of v) v"
  unfolding readsB_def serializeBytes_def
proof (intro allI impI)
  fix b rest
  assume b: "wf_buf b" "bit_pos b mod 8 = k mod 8" "bits_ahead b = bits_of v @ rest"
  then have al: "bitPos b = 0" using bitPos_bit_pos [OF b(1)] assms by simp
  from b have "length (bits_ahead b) = 8 * length v + length rest" by simp
  then have room: "8 * length v \<le> bits_room b" by simp
  show "\<exists>b'. on_stream (ReadStream_serializeBytes (length v0)) v0 (WriteStream_serializeBytes v0)
      (ReadStream b) = (Inr v, ReadStream b') \<and> consumed b (length (bits_of v)) b'"
    using ReadStream_serializeBytes_spec [OF b(1) al room] consumed_bytes [OF b(1) room]
      peek_bits [OF al b(3)] assms(2)
    by (simp add: on_stream_def)
qed

section \<open>What a successful read says about the input\<close>

lemma getsB_mono: "getsB k m Q \<Longrightarrow> (\<And>a bs. Q a bs \<Longrightarrow> Q' a bs) \<Longrightarrow> getsB k m Q'"
  unfolding getsB_def by blast

lemma getsB_return: "Q a [] \<Longrightarrow> getsB k (ser_return a) Q"
  by (auto simp: getsB_def ser_return_def consumed_def intro!: exI [of _ 0])

lemma getsB_error [gets_rules]: "getsB k (ser_error msg) Q"
  by (auto simp: getsB_def ser_error_def)

lemma getsB_bind:
  assumes m: "getsB k m Q"
    and f: "\<And>a bs. Q a bs \<Longrightarrow> getsB (k + length bs) (f a) (\<lambda>c bs'. R c (bs @ bs'))"
  shows "getsB k (ser_bind m f) R"
  unfolding getsB_def
proof (intro allI impI)
  fix b c st
  assume b: "wf_buf b" "bit_pos b mod 8 = k mod 8" and "ser_bind m f (ReadStream b) = (Inr c, st)"
  then obtain a st1 where a: "m (ReadStream b) = (Inr a, st1)" "f a st1 = (Inr c, st)"
    by (auto simp: ser_bind_def split: prod.splits sum.splits)
  from m b a(1) obtain b1 n where b1: "st1 = ReadStream b1" "consumed b n b1" "n \<le> bits_room b"
      "Q a (take n (bits_ahead b))"
    unfolding getsB_def by blast
  have "bit_pos b1 mod 8 = (k + length (take n (bits_ahead b))) mod 8"
    using b(2) b1(2,3) by (simp add: consumed_def) (metis mod_add_left_eq)
  then obtain b2 n' where b2: "st = ReadStream b2" "consumed b1 n' b2" "n' \<le> bits_room b1"
      "R c (take n (bits_ahead b) @ take n' (bits_ahead b1))"
    using f [OF b1(4)] a(2) b1(1,2) unfolding getsB_def consumed_def by blast
  then show "\<exists>b' n. st = ReadStream b' \<and> consumed b n b' \<and> n \<le> bits_room b \<and> R c (take n (bits_ahead b))"
    using consumed_trans [OF b1(2) b2(2)] consumed_room [OF b1(2)] consumed_ahead [OF b1(2)] b1(3)
    by (auto simp: take_add intro!: exI [of _ "n + n'"])
qed

lemma getsB_read_check [gets_rules]: "getsB k (read_check bad msg) (\<lambda>_ bs. bs = [] \<and> \<not> bad)"
  by (auto simp: getsB_def read_check_def consumed_def intro!: exI [of _ 0])

lemma getsB_if_reading [gets_rules]: "getsB k r Q \<Longrightarrow> getsB k (if_reading r w) Q"
  by (simp add: getsB_def if_reading_def)

text \<open>A successful look ahead saw the bytes that follow.\<close>

lemma getsB_lookahead_bind:
  assumes k: "k mod 8 = 0" and n: "n \<noteq> npos"
    and f: "\<And>ds. length ds = n \<Longrightarrow> getsB k (f ds) (\<lambda>a bs. (8 * n \<le> length bs \<and> take (8 * n) bs = bits_of ds) \<longrightarrow> Q a bs)"
    and long: "\<And>ds. getsB k (f ds) (\<lambda>a bs. 8 * n \<le> length bs)"
  shows "getsB k (ser_bind (lookahead n) f) Q"
  unfolding getsB_def
proof (intro allI impI)
  fix b a st
  assume b: "wf_buf b" "bit_pos b mod 8 = k mod 8" and s: "ser_bind (lookahead n) f (ReadStream b) = (Inr a, st)"
  have al: "bitPos b = 0" using bitPos_bit_pos [OF b(1)] b(2) k by simp
  have room: "8 * n \<le> bits_room b" and f': "f (peek n b) (ReadStream b) = (Inr a, st)"
    using s al n bytesLeft_iff_aligned [OF b(1) al, of n]
    by (auto simp: ser_bind_def ReadStream_lookahead_def not_less split: if_splits)
  have len: "length (peek n b) = n" using aligned_peek_length [OF b(1) al room] .
  obtain b' m where r: "st = ReadStream b'" "consumed b m b'" "m \<le> bits_room b"
      "(8 * n \<le> length (take m (bits_ahead b)) \<and> take (8 * n) (take m (bits_ahead b)) = bits_of (peek n b)) \<longrightarrow>
        Q a (take m (bits_ahead b))"
    using f [OF len] b f' unfolding getsB_def by blast
  obtain b'' m' where r': "st = ReadStream b''" "consumed b m' b''" "m' \<le> bits_room b"
      "8 * n \<le> length (take m' (bits_ahead b))"
    using long b f' unfolding getsB_def by blast
  have "m = m'" using r(1,2) r'(1,2) by (simp add: consumed_def)
  then have "Q a (take m (bits_ahead b))"
    using r(4) r'(3,4) take_bits_ahead_aligned [OF al, of n] by (auto simp: min_def split: if_splits)
  then show "\<exists>b' n. st = ReadStream b' \<and> consumed b n b' \<and> n \<le> bits_room b \<and> Q a (take n (bits_ahead b))"
    using r by blast
qed

lemma getsB_serializeBits [gets_rules]:
  "n \<le> 57 \<Longrightarrow> n \<le> LENGTH('a::len) \<Longrightarrow>
     getsB k (serializeBits (v0 :: 'a word) n) (\<lambda>v bs. bs = to_bits n v \<and> fits n v)"
  unfolding getsB_def
proof (intro allI impI)
  fix b a st
  assume n: "n \<le> 57" "n \<le> LENGTH('a)" and b: "wf_buf b"
    and s: "serializeBits v0 n (ReadStream b) = (Inr a, st)"
  have room: "n \<le> bits_room b"
  proof (rule ccontr)
    assume "\<not> n \<le> bits_room b"
    then show False
      using s n bytesLeft_iff [OF b, of n]
      by (auto simp: serializeBits_def on_stream_def ReadStream_serializeBits_def Let_def split: if_splits)
  qed
  then have "a = of_bits (take n (bits_ahead b))" "st = ReadStream (advance_bits_pos n b)"
    using s ReadStream_serializeBits_spec [OF b n] by (simp_all add: serializeBits_def on_stream_def)
  then show "\<exists>b' m. st = ReadStream b' \<and> consumed b m b' \<and> m \<le> bits_room b \<and>
      take m (bits_ahead b) = to_bits n a \<and> fits n a"
    using consumed_bits [OF b room] room n to_bits_of_bits [of "take n (bits_ahead b)", where 'a = 'a]
      fits_of_bits [of "take n (bits_ahead b)", where 'a = 'a]
    by (auto intro!: exI [of _ n])
qed

lemma to_bits_of_bits':
  "length bs = n \<Longrightarrow> n \<le> LENGTH('a::len) \<Longrightarrow> to_bits n (of_bits bs :: 'a word) = bs"
  using to_bits_of_bits by blast

lemma getsB_aligned:
  assumes spec: "\<And>b. wf_buf b \<Longrightarrow> bitPos b = 0 \<Longrightarrow> 8 * n \<le> bits_room b \<Longrightarrow>
     rd b = (Inr (f (take (8 * n) (bits_ahead b))), advance_bytes_pos n b)"
    and short: "\<And>b a b'. wf_buf b \<Longrightarrow> bitPos b = 0 \<Longrightarrow> rd b = (Inr a, b') \<Longrightarrow> n \<le> bytesLeft b"
    and "k mod 8 = 0" and Q: "\<And>bs. length bs = 8 * n \<Longrightarrow> Q (f bs) bs"
  shows "getsB k (on_stream rd v0 wr) Q"
  unfolding getsB_def
proof (intro allI impI)
  fix b a st
  assume b: "wf_buf b" "bit_pos b mod 8 = k mod 8" and s: "on_stream rd v0 wr (ReadStream b) = (Inr a, st)"
  then have al: "bitPos b = 0" using bitPos_bit_pos [OF b(1)] assms(3) by simp
  from s obtain b1 where "rd b = (Inr a, b1)"
    by (cases "rd b") (auto simp: on_stream_def)
  then have room: "8 * n \<le> bits_room b"
    using short [OF b(1) al] bytesLeft_iff_aligned [OF b(1) al, of n] by simp
  then show "\<exists>b' m. st = ReadStream b' \<and> consumed b m b' \<and> m \<le> bits_room b \<and> Q a (take m (bits_ahead b))"
    using s spec [OF b(1) al room] consumed_bytes [OF b(1) room] Q [of "take (8 * n) (bits_ahead b)"]
    by (auto simp: on_stream_def intro!: exI [of _ "8 * n"])
qed

lemma getsB_serializeUint16 [gets_rules]:
  "k mod 8 = 0 \<Longrightarrow> getsB k (serializeUint16 v0) (\<lambda>v bs. bs = to_bits 16 v)"
  unfolding serializeUint16_def
  by (rule getsB_aligned [where n = 2 and f = of_bits])
    (simp_all add: ReadStream_serializeUint16_spec to_bits_of_bits',
      simp add: ReadStream_serializeUint16_def split: if_splits)

lemma getsB_serializeUint32 [gets_rules]:
  "k mod 8 = 0 \<Longrightarrow> getsB k (serializeUint32 v0) (\<lambda>v bs. bs = to_bits 32 v)"
  unfolding serializeUint32_def
  by (rule getsB_aligned [where n = 4 and f = of_bits])
    (simp_all add: ReadStream_serializeUint32_spec to_bits_of_bits',
      simp add: ReadStream_serializeUint32_def split: if_splits)

lemma getsB_serializeUint64 [gets_rules]:
  "k mod 8 = 0 \<Longrightarrow> getsB k (serializeUint64 v0) (\<lambda>v bs. bs = to_bits 64 v)"
  unfolding serializeUint64_def
  by (rule getsB_aligned [where n = 8 and f = of_bits])
    (simp_all add: ReadStream_serializeUint64_spec to_bits_of_bits',
      simp add: ReadStream_serializeUint64_def split: if_splits)

lemma getsB_advanceBytes [gets_rules]:
  "k mod 8 = 0 \<Longrightarrow> getsB k (advanceBytes n) (\<lambda>_ bs. length bs = 8 * n)"
  unfolding advanceBytes_def
  by (rule getsB_aligned [where n = n and f = "\<lambda>_. ()"])
    (simp_all add: ReadStream_advanceBytes_spec,
      simp add: ReadStream_advanceBytes_def split: if_splits)

lemma getsB_serializeByte [gets_rules]: "getsB k (serializeByte v0) (\<lambda>v bs. bs = to_bits 8 v)"
  unfolding getsB_def
proof (intro allI impI)
  fix b a st
  assume b: "wf_buf b" and s: "serializeByte v0 (ReadStream b) = (Inr a, st)"
  have room: "8 \<le> bits_room b"
  proof (rule ccontr)
    assume "\<not> 8 \<le> bits_room b"
    then show False
      using s bytesLeft_iff [OF b, of 8] bytesLeft_iff_aligned [OF b, of 1]
      by (cases "bitPos b = 0")
        (auto simp: serializeByte_def on_stream_def ReadStream_serializeByte_def
          ReadStream_serializeBits_def Let_def)
  qed
  show "\<exists>b' n. st = ReadStream b' \<and> consumed b n b' \<and> n \<le> bits_room b \<and> take n (bits_ahead b) = to_bits 8 a"
  proof (cases "bitPos b = 0")
    case True
    then have "a = of_bits (take 8 (bits_ahead b))" "st = ReadStream (advance_bytes_pos 1 b)"
      using s ReadStream_serializeByte_spec [OF b _ room] by (simp_all add: serializeByte_def on_stream_def)
    then show ?thesis
      using consumed_bytes [OF b, of 1] room to_bits_of_bits [of "take 8 (bits_ahead b)", where 'a = 8]
      by (auto intro!: exI [of _ 8])
  next
    case False
    then have "a = of_bits (take 8 (bits_ahead b))" "st = ReadStream (advance_bits_pos 8 b)"
      using s readsB_serializeByte_unaligned [OF b _ room] by (simp_all add: serializeByte_def on_stream_def)
    then show ?thesis
      using consumed_bits [OF b room] room to_bits_of_bits [of "take 8 (bits_ahead b)", where 'a = 8]
      by (auto intro!: exI [of _ 8])
  qed
qed

lemma getsB_advanceBits [gets_rules]: "getsB k (advanceBits n) (\<lambda>_ bs. length bs = n)"
  unfolding getsB_def
proof (intro allI impI)
  fix b a st
  assume b: "wf_buf b" and s: "advanceBits n (ReadStream b) = (Inr a, st)"
  have room: "n \<le> bits_room b"
    using s bytesLeft_iff [OF b, of n]
    by (auto simp: advanceBits_def on_stream_def ReadStream_advanceBits_def not_less split: if_splits)
  then show "\<exists>b' m. st = ReadStream b' \<and> consumed b m b' \<and> m \<le> bits_room b \<and> length (take m (bits_ahead b)) = n"
    using ReadStream_advanceBits_spec [OF b room] s
    by (auto simp: advanceBits_def on_stream_def intro!: exI [of _ n])
qed

lemma getsB_serializeBytes [gets_rules]:
  "k mod 8 = 0 \<Longrightarrow> getsB k (serializeBytes v0) (\<lambda>v bs. bs = bits_of v \<and> length v = length v0)"
  unfolding getsB_def
proof (intro allI impI)
  fix b a st
  assume k: "k mod 8 = 0" and b: "wf_buf b" "bit_pos b mod 8 = k mod 8"
    and s: "serializeBytes v0 (ReadStream b) = (Inr a, st)"
  then have al: "bitPos b = 0" using bitPos_bit_pos [OF b(1)] by simp
  let ?n = "length v0"
  have room: "8 * ?n \<le> bits_room b"
    using s al bytesLeft_iff_aligned [OF b(1) al, of ?n]
    by (auto simp: serializeBytes_def on_stream_def ReadStream_serializeBytes_def not_less split: if_splits)
  then have "a = peek ?n b" "st = ReadStream (advance_bytes_pos ?n b)"
    using s ReadStream_serializeBytes_spec [OF b(1) al room]
    by (simp_all add: serializeBytes_def on_stream_def)
  then show "\<exists>b' m. st = ReadStream b' \<and> consumed b m b' \<and> m \<le> bits_room b \<and>
      take m (bits_ahead b) = bits_of a \<and> length a = ?n"
    using consumed_bytes [OF b(1) room] room take_bits_ahead_aligned [OF al, of ?n]
      aligned_peek_length [OF b(1) al room]
    by (auto intro!: exI [of _ "8 * ?n"])
qed

text \<open>
  The same rules in the form that follows given bits from the left: a step that only checks
  consumes nothing, and a last step takes what is left.
\<close>

lemma writesB_map:
  "writesB k m bs a \<Longrightarrow> g a = c \<Longrightarrow> writesB k (ser_bind m (\<lambda>x. ser_return (g x))) bs c"
  using writesB_bind [OF _ writesB_return] by fastforce

lemma readsB_map:
  "readsB k m bs a \<Longrightarrow> g a = c \<Longrightarrow> readsB k (ser_bind m (\<lambda>x. ser_return (g x))) bs c"
  using readsB_bind [OF _ readsB_return] by fastforce

lemma writesB_check_bind: "writesB k (f ()) bs a \<Longrightarrow> writesB k (ser_bind (read_check bad msg) f) bs a"
  using writesB_bind [OF writesB_read_check] by fastforce

lemma readsB_check_bind:
  "\<not> bad \<Longrightarrow> readsB k (f ()) bs a \<Longrightarrow> readsB k (ser_bind (read_check bad msg) f) bs a"
  using readsB_bind [OF readsB_read_check] by fastforce

lemma writesB_return_eq: "a = c \<Longrightarrow> writesB k (ser_return a) [] c"
  using writesB_return by simp

lemma readsB_return_eq: "a = c \<Longrightarrow> readsB k (ser_return a) [] c"
  using readsB_return by simp

lemma writesB_bind_return: "writesB k (f a) bs c \<Longrightarrow> writesB k (ser_bind (ser_return a) f) bs c"
  using writesB_bind [OF writesB_return] by fastforce

lemma readsB_bind_return: "readsB k (f a) bs c \<Longrightarrow> readsB k (ser_bind (ser_return a) f) bs c"
  using readsB_bind [OF readsB_return] by fastforce

lemma writesB_bind_last:
  "writesB k m bs a \<Longrightarrow> writesB (k + length bs) (f a) [] c \<Longrightarrow> writesB k (ser_bind m f) bs c"
  using writesB_bind by fastforce

lemma readsB_bind_last:
  "readsB k m bs a \<Longrightarrow> readsB (k + length bs) (f a) [] c \<Longrightarrow> readsB k (ser_bind m f) bs c"
  using readsB_bind by fastforce

lemma writesB_if:
  "(c \<Longrightarrow> writesB k m bs a) \<Longrightarrow> (\<not> c \<Longrightarrow> writesB k m' bs' a) \<Longrightarrow>
   writesB k (if c then m else m') (if c then bs else bs') a"
  by simp

lemma readsB_if:
  "(c \<Longrightarrow> readsB k m bs a) \<Longrightarrow> (\<not> c \<Longrightarrow> readsB k m' bs' a) \<Longrightarrow>
   readsB k (if c then m else m') (if c then bs else bs') a"
  by simp

lemma getsB_if:
  "(c \<Longrightarrow> getsB k m Q) \<Longrightarrow> (\<not> c \<Longrightarrow> getsB k m' Q) \<Longrightarrow> getsB k (if c then m else m') Q"
  by simp

lemmas writes_steps = writesB_check_bind writesB_bind_return writesB_map writesB_return_eq writes_rules writesB_bind_last
lemmas reads_steps = readsB_check_bind readsB_bind_return readsB_map readsB_return_eq reads_rules readsB_bind_last

text \<open>Reading, one step at a time: what each step yields and the bits it took.\<close>

lemma getsB_step_bits:
  assumes "n \<le> 57" "n \<le> LENGTH('a::len)"
    and "\<And>v. fits n v \<Longrightarrow> getsB (k + n) (f v) (\<lambda>c bs. R c (to_bits n v @ bs))"
  shows "getsB k (ser_bind (serializeBits (v0 :: 'a word) n) f) R"
  by (rule getsB_bind [OF getsB_serializeBits]) (use assms in auto)

lemma getsB_step_byte:
  assumes "\<And>v. getsB (k + 8) (f v) (\<lambda>c bs. R c (to_bits 8 v @ bs))"
  shows "getsB k (ser_bind (serializeByte v0) f) R"
  by (rule getsB_bind [OF getsB_serializeByte]) (use assms in auto)

lemma getsB_step_u16:
  assumes "k mod 8 = 0" "\<And>v. getsB (k + 16) (f v) (\<lambda>c bs. R c (to_bits 16 v @ bs))"
  shows "getsB k (ser_bind (serializeUint16 v0) f) R"
  by (rule getsB_bind [OF getsB_serializeUint16]) (use assms in auto)

lemma getsB_step_u32:
  assumes "k mod 8 = 0" "\<And>v. getsB (k + 32) (f v) (\<lambda>c bs. R c (to_bits 32 v @ bs))"
  shows "getsB k (ser_bind (serializeUint32 v0) f) R"
  by (rule getsB_bind [OF getsB_serializeUint32]) (use assms in auto)

lemma getsB_step_u64:
  assumes "k mod 8 = 0" "\<And>v. getsB (k + 64) (f v) (\<lambda>c bs. R c (to_bits 64 v @ bs))"
  shows "getsB k (ser_bind (serializeUint64 v0) f) R"
  by (rule getsB_bind [OF getsB_serializeUint64]) (use assms in auto)

lemma getsB_step_bytes:
  assumes "k mod 8 = 0"
    and "\<And>v. length v = length v0 \<Longrightarrow> getsB (k + 8 * length v0) (f v) (\<lambda>c bs. R c (bits_of v @ bs))"
  shows "getsB k (ser_bind (serializeBytes v0) f) R"
  by (rule getsB_bind [OF getsB_serializeBytes]) (use assms in auto)

lemma getsB_step_advance:
  assumes "k mod 8 = 0"
    and "\<And>skip. length skip = 8 * n \<Longrightarrow> getsB (k + 8 * n) (f ()) (\<lambda>c bs. R c (skip @ bs))"
  shows "getsB k (ser_bind (advanceBytes n) f) R"
  by (rule getsB_bind [OF getsB_advanceBytes]) (use assms in auto)

lemma getsB_step_advance_bits:
  assumes "\<And>skip. length skip = n \<Longrightarrow> getsB (k + n) (f ()) (\<lambda>c bs. R c (skip @ bs))"
  shows "getsB k (ser_bind (advanceBits n) f) R"
  by (rule getsB_bind [OF getsB_advanceBits]) (use assms in auto)

lemma getsB_step_check:
  assumes "\<not> bad \<Longrightarrow> getsB k (f ()) R"
  shows "getsB k (ser_bind (read_check bad msg) f) R"
  by (rule getsB_bind [OF getsB_read_check]) (use assms in auto)

lemmas gets_steps = getsB_step_bits getsB_step_byte getsB_step_u16 getsB_step_u32 getsB_step_u64
  getsB_step_bytes getsB_step_advance getsB_step_advance_bits getsB_step_check getsB_if_reading getsB_return

text \<open>A loop of reads that each take some whole bytes has less and less to read.\<close>

lemma getsB_progress:
  assumes "getsB 0 m Q" "\<And>a bs. Q a bs \<Longrightarrow> 0 < length bs \<and> length bs mod 8 = 0"
    "wf_buf b" "bit_pos b mod 8 = 0" "m (ReadStream b) = (Inr a, st)"
  shows "\<exists>b'. st = ReadStream b' \<and> wf_buf b' \<and> bit_pos b' mod 8 = 0 \<and> bits_room b' < bits_room b"
proof -
  obtain b' n where b': "st = ReadStream b'" "consumed b n b'" "n \<le> bits_room b" "Q a (take n (bits_ahead b))"
    using assms(1,3,4,5) unfolding getsB_def by (metis mod_0)
  then have n: "0 < n" "n mod 8 = 0" using assms(2) [OF b'(4)] by auto
  then have "bits_room b' < bits_room b" using b'(2,3) consumed_room [OF b'(2)] by simp
  then show ?thesis using b' n assms(4) by (auto simp: consumed_def)
qed

section \<open>The contract of a header\<close>

text \<open>
  \<open>ser h\<close> is the header's \<open>serialize\<close>, \<open>enc h\<close> its bits on the wire, \<open>valid\<close> the headers
  the code can write and read back, \<open>blank\<close> the objects it can be read into.
\<close>

lemma ser_bind_assoc: "ser_bind (ser_bind m f) g = ser_bind m (\<lambda>x. ser_bind (f x) g)"
  by (auto simp: ser_bind_def fun_eq_iff split: prod.splits sum.splits)

lemma ser_bind_return: "ser_bind (ser_return a) f = f a"
  by (simp add: ser_bind_def ser_return_def fun_eq_iff)

lemma readsB_bind_if_reading: "readsB k (ser_bind r f) bs a \<Longrightarrow> readsB k (ser_bind (if_reading r w) f) bs a"
  by (simp add: readsB_def ser_bind_def if_reading_def)

lemma aligned_pos:
  assumes "wf_buf b" "bit_pos b mod 8 = 0"
  shows "bitPos b = 0" "8 * byteIter b = bit_pos b" "getPos b = (bit_pos b div 8, 0)"
proof -
  show "bitPos b = 0" unfolding bitPos_bit_pos [OF assms(1)] by (rule assms(2))
  then show "8 * byteIter b = bit_pos b" "getPos b = (bit_pos b div 8, 0)"
    by (simp_all add: bit_pos_def getPos_def)
qed

text \<open>A buffer after writing to it, and reading from its front.\<close>

lemma writesB_buffer:
  assumes "writesB 0 m bs a" "length bs mod 8 = 0" "length bs \<le> 8 * length buf"
  shows "\<exists>b. m (WriteStream (stream_init buf)) = (Inr a, WriteStream b) \<and>
    getPos b = (length bs div 8, 0) \<and> length (bufdata b) = length buf \<and>
    bits_of (take (length bs div 8) (bufdata b)) = bs \<and>
    drop (length bs div 8) (bufdata b) = drop (length bs div 8) buf"
proof -
  obtain b where b: "m (WriteStream (stream_init buf)) = (Inr a, WriteStream b)" "appended (stream_init buf) bs b"
    using assms(1) [unfolded writesB_def, THEN spec, of "stream_init buf"] assms(3) by auto
  then have len: "bit_pos b = length bs" and wf: "wf_buf b"
    by (simp_all add: appended_def)
  note pos = aligned_pos [OF wf, unfolded len, OF assms(2)]
  have "(bit_pos b + 7) div 8 = byteIter b" by (simp add: bit_pos_def pos(1))
  moreover have "bits_done b = bs"
    using b(2) by (simp add: appended_def)
  moreover have "byteIter b = length bs div 8" using pos(2) by simp
  ultimately show ?thesis
    using b pos(3) bits_done_aligned [OF pos(1)] by (auto simp: appended_def)
qed

text \<open>Whatever is read first from what was written first.\<close>

lemma readsB_bytes:
  assumes "readsB 0 m bs a" "bits_of d = bs @ rest"
  shows "\<exists>b. m (ReadStream (stream_init d)) = (Inr a, ReadStream b) \<and> consumed (stream_init d) (length bs) b \<and>
    bits_ahead b = rest"
proof -
  obtain b where b: "m (ReadStream (stream_init d)) = (Inr a, ReadStream b)" "consumed (stream_init d) (length bs) b"
    using assms(1) [unfolded readsB_def, THEN spec, of "stream_init d"] assms(2) by auto
  then show ?thesis using consumed_ahead [OF b(2)] assms(2) by auto
qed

locale codec =
  fixes ser :: "'a \<Rightarrow> 'a ser"
    and enc :: "'a \<Rightarrow> bool list"
    and valid :: "'a \<Rightarrow> bool"
    and blank :: "'a \<Rightarrow> bool"
  assumes writes: "valid v \<Longrightarrow> writesB 0 (ser v) (enc v) v"
    and reads: "valid v \<Longrightarrow> blank v0 \<Longrightarrow> readsB 0 (ser v0) (enc v) v"
    and whole_bytes: "valid v \<Longrightarrow> length (enc v) mod 8 = 0"
begin

lemma writes_aligned: "valid v \<Longrightarrow> k mod 8 = 0 \<Longrightarrow> writesB k (ser v) (enc v) v"
  using writes [of v] by (simp add: writesB_def)

lemma reads_aligned: "valid v \<Longrightarrow> blank v0 \<Longrightarrow> k mod 8 = 0 \<Longrightarrow> readsB k (ser v0) (enc v) v"
  using reads [of v v0] by (simp add: readsB_def)

lemma write_buffer:
  assumes "valid v" "length (enc v) \<le> 8 * length buf"
  shows "\<exists>b. ser v (WriteStream (stream_init buf)) = (Inr v, WriteStream b) \<and>
    getPos b = (length (enc v) div 8, 0) \<and> length (bufdata b) = length buf \<and>
    bits_of (take (length (enc v) div 8) (bufdata b)) = enc v \<and>
    drop (length (enc v) div 8) (bufdata b) = drop (length (enc v) div 8) buf"
  using writesB_buffer [OF writes [OF assms(1)] whole_bytes [OF assms(1)] assms(2)] .

lemma read_bytes:
  assumes "valid v" "blank v0" "bits_of d = enc v @ rest"
  shows "\<exists>b. ser v0 (ReadStream (stream_init d)) = (Inr v, ReadStream b) \<and>
    getPos b = (length (enc v) div 8, 0) \<and> bits_ahead b = rest"
proof -
  obtain b where b: "ser v0 (ReadStream (stream_init d)) = (Inr v, ReadStream b)"
      "consumed (stream_init d) (length (enc v)) b"
    using reads [OF assms(1,2), unfolded readsB_def, THEN spec, of "stream_init d"] assms(3) by auto
  then have wf: "wf_buf b" and len: "bit_pos b = length (enc v)" by (simp_all add: consumed_def)
  then show ?thesis
    using b consumed_ahead [OF b(2)] assms(3)
      aligned_pos(3) [OF wf, unfolded len, OF whole_bytes [OF assms(1)]] by auto
qed

text \<open>What is written is read back, from the buffer it was written to.\<close>

lemma roundtrip:
  assumes "valid v" "blank v0" "length (enc v) \<le> 8 * length buf"
  shows "\<exists>b b'. ser v (WriteStream (stream_init buf)) = (Inr v, WriteStream b) \<and>
    ser v0 (ReadStream (stream_init (bufdata b))) = (Inr v, ReadStream b') \<and>
    getPos b' = getPos b \<and> getPos b = (length (enc v) div 8, 0)"
proof -
  let ?n = "length (enc v) div 8"
  obtain b where b: "ser v (WriteStream (stream_init buf)) = (Inr v, WriteStream b)"
      "getPos b = (?n, 0)" "bits_of (take ?n (bufdata b)) = enc v"
    using write_buffer [OF assms(1,3)] by blast
  have "bits_of (bufdata b) = enc v @ bits_of (drop ?n (bufdata b))"
    by (metis append_take_drop_id b(3) bits_of_append)
  with read_bytes [OF assms(1,2)] b show ?thesis by fastforce
qed

text \<open>Encodings are prefix free.\<close>

lemma prefix_free:
  assumes "valid v" "valid w" "blank v0" "enc v @ r = enc w @ s" "length (enc v @ r) mod 8 = 0"
  shows "v = w \<and> r = s"
proof -
  obtain d' where d': "bits_of d' = enc v @ r"
    using bits_of_surj [OF assms(5)] by blast
  obtain b where "ser v0 (ReadStream (stream_init d')) = (Inr v, ReadStream b)" "bits_ahead b = r"
    using read_bytes [OF assms(1,3) d'] by blast
  moreover obtain b' where "ser v0 (ReadStream (stream_init d')) = (Inr w, ReadStream b')" "bits_ahead b' = s"
    using read_bytes [OF assms(2,3)] d' assms(4) by metis
  ultimately show ?thesis by simp
qed

end

text \<open>
  A format whose reader checks what it reads: every header it accepts is valid and took as
  many bits as it would be written with. Reserved bits may be ignored.
\<close>

locale checked_codec = codec +
  assumes checks: "blank v0 \<Longrightarrow> getsB 0 (ser v0) (\<lambda>v bs. valid v \<and> length bs = length (enc v))"
begin

lemma read_valid:
  assumes "blank v0" "ser v0 (ReadStream (stream_init d)) = (Inr v, st)"
  shows "valid v \<and> length (enc v) \<le> 8 * length d \<and>
    (\<exists>b. st = ReadStream b \<and> getPos b = (length (enc v) div 8, 0))"
proof -
  obtain b n where r: "st = ReadStream b" "consumed (stream_init d) n b" "n \<le> bits_room (stream_init d)"
      "valid v" "length (take n (bits_ahead (stream_init d))) = length (enc v)"
    using checks [OF assms(1), unfolded getsB_def, THEN spec, of "stream_init d"] assms(2) by auto
  then have n: "n = length (enc v)" by simp
  then have wf: "wf_buf b" and len: "bit_pos b = length (enc v)" using r(2) by (simp_all add: consumed_def)
  show ?thesis
    using r n aligned_pos(3) [OF wf, unfolded len, OF whole_bytes [OF r(4)]] by auto
qed

text \<open>A buffer shorter than the header is rejected.\<close>

lemma short_read:
  assumes "blank v0" "\<And>v. valid v \<Longrightarrow> 8 * length d < length (enc v)"
  shows "\<exists>e st. ser v0 (ReadStream (stream_init d)) = (Inl e, st)"
proof (cases "ser v0 (ReadStream (stream_init d))")
  case (Pair r st)
  then show ?thesis using read_valid [OF assms(1), of d] assms(2) by (cases r) fastforce+
qed

end

text \<open>A format without ignored bits: reading succeeds exactly on the encodings.\<close>

locale strict_codec = codec +
  assumes gets: "blank v0 \<Longrightarrow> getsB 0 (ser v0) (\<lambda>v bs. valid v \<and> bs = enc v)"
begin

lemma read_iff:
  assumes "blank v0"
  shows "(\<exists>b. ser v0 (ReadStream (stream_init d)) = (Inr v, b)) \<longleftrightarrow>
    valid v \<and> (\<exists>rest. bits_of d = enc v @ rest)"
proof
  assume "\<exists>b. ser v0 (ReadStream (stream_init d)) = (Inr v, b)"
  then obtain b where "ser v0 (ReadStream (stream_init d)) = (Inr v, b)" by blast
  then obtain n where "valid v" "take n (bits_of d) = enc v"
    using gets [OF assms, unfolded getsB_def, THEN spec, of "stream_init d"] by auto
  then show "valid v \<and> (\<exists>rest. bits_of d = enc v @ rest)"
    by (metis append_take_drop_id)
next
  assume "valid v \<and> (\<exists>rest. bits_of d = enc v @ rest)"
  then show "\<exists>b. ser v0 (ReadStream (stream_init d)) = (Inr v, b)"
    using read_bytes [OF _ assms] by blast
qed

text \<open>Reading a header and writing it again gives back the bytes that were read.\<close>

lemma reserialize:
  assumes "blank v0" "ser v0 (ReadStream (stream_init d)) = (Inr v, st)" "length d \<le> length buf"
  shows "\<exists>b. ser v (WriteStream (stream_init buf)) = (Inr v, WriteStream b) \<and>
    take (byteIter b) (bufdata b) = take (byteIter b) d"
proof -
  obtain rest where v: "valid v" "bits_of d = enc v @ rest"
    using read_iff [OF assms(1)] assms(2) by blast
  let ?n = "length (enc v) div 8"
  have n: "8 * ?n = length (enc v)" using whole_bytes [OF v(1)] by auto
  have "length (enc v) \<le> length (bits_of d)" by (simp only: v(2)) simp
  then have "length (enc v) \<le> 8 * length buf" using assms(3) by simp
  then obtain b where b: "ser v (WriteStream (stream_init buf)) = (Inr v, WriteStream b)"
      "getPos b = (?n, 0)" "bits_of (take ?n (bufdata b)) = enc v"
    using write_buffer [OF v(1)] by blast
  have "bits_of (take ?n d) = enc v"
    using take_bits_of [of ?n d] v(2) by (simp add: n)
  then have "take ?n (bufdata b) = take ?n d" using b(3) bits_of_inject by metis
  then show ?thesis using b(1,2) by (auto simp: getPos_def)
qed

end

sublocale strict_codec \<subseteq> checked_codec
proof
  show "getsB 0 (ser v0) (\<lambda>v bs. valid v \<and> length bs = length (enc v))" if "blank v0" for v0
    using gets [OF that] by (rule getsB_mono) simp
qed

end
