(* ===== verification/IPAddress.thy ===== *)
theory IPAddress
  imports IsdAsn
begin

text \<open>
  Generic IP addresses and endpoints (\<open>include/scion/addr/generic_ip.hpp\<close>,
  \<open>src/addr/generic_ip.cpp\<close>) and the classification of SCION-mapped IPv6 addresses
  (\<open>include/scion/addr/mapping.hpp\<close>) that formatting depends on. The reference counted
  \<open>AddrInfo\<close> is represented by its two members, the address type and the zone.
\<close>

section \<open>The class\<close>

datatype AddrType = IPv4 | IPv6

record IPAddress =
  m_hi :: u64
  m_lo :: u64
  addr_type :: AddrType
  zone :: string

definition UnspecifiedIPv4 :: IPAddress where
  "UnspecifiedIPv4 = \<lparr>m_hi = 0, m_lo = 0, addr_type = IPv4, zone = []\<rparr>"

definition UnspecifiedIPv6 :: IPAddress where
  "UnspecifiedIPv6 = \<lparr>m_hi = 0, m_lo = 0, addr_type = IPv6, zone = []\<rparr>"

definition MakeIPv4 :: "u32 \<Rightarrow> IPAddress" where
  "MakeIPv4 ipv4 = \<lparr>m_hi = 0, m_lo = ucast ipv4, addr_type = IPv4, zone = []\<rparr>"

definition MakeIPv4_bytes :: "byte list \<Rightarrow> IPAddress" where
  "MakeIPv4_bytes ipv4 =
     \<lparr>m_hi = 0,
      m_lo = push_bit 24 (ucast (ipv4 ! 0)) OR push_bit 16 (ucast (ipv4 ! 1))
        OR push_bit 8 (ucast (ipv4 ! 2)) OR ucast (ipv4 ! 3),
      addr_type = IPv4, zone = []\<rparr>"

definition MakeIPv6 :: "u64 \<Rightarrow> u64 \<Rightarrow> string \<Rightarrow> IPAddress" where
  "MakeIPv6 hi lo z = \<lparr>m_hi = hi, m_lo = lo, addr_type = IPv6, zone = z\<rparr>"

definition bytes_u64 :: "byte list \<Rightarrow> nat \<Rightarrow> u64" where
  "bytes_u64 b i =
     push_bit 56 (ucast (b ! i)) OR push_bit 48 (ucast (b ! (i + 1)))
     OR push_bit 40 (ucast (b ! (i + 2))) OR push_bit 32 (ucast (b ! (i + 3)))
     OR push_bit 24 (ucast (b ! (i + 4))) OR push_bit 16 (ucast (b ! (i + 5)))
     OR push_bit 8 (ucast (b ! (i + 6))) OR ucast (b ! (i + 7))"

definition MakeIPv6_bytes :: "byte list \<Rightarrow> string \<Rightarrow> IPAddress" where
  "MakeIPv6_bytes ipv6 z =
     \<lparr>m_hi = bytes_u64 ipv6 0, m_lo = bytes_u64 ipv6 8, addr_type = IPv6, zone = z\<rparr>"

definition is4 :: "IPAddress \<Rightarrow> bool" where
  "is4 a \<longleftrightarrow> addr_type a = IPv4"

definition is6 :: "IPAddress \<Rightarrow> bool" where
  "is6 a \<longleftrightarrow> addr_type a = IPv6"

definition is4in6 :: "IPAddress \<Rightarrow> bool" where
  "is4in6 a \<longleftrightarrow> is6 a \<and> m_hi a = 0 \<and> drop_bit 32 (m_lo a) = 0xffff"

definition isScion :: "IPAddress \<Rightarrow> bool" where
  "isScion a \<longleftrightarrow> is6 a \<and> (drop_bit 56 (m_hi a) AND 0xff) = 0xfc"

definition IPAddress_isUnspecified :: "IPAddress \<Rightarrow> bool" where
  "IPAddress_isUnspecified a \<longleftrightarrow> m_hi a = 0 \<and> (m_lo a = 0 \<or> m_lo a = push_bit 32 0xffff)"

definition IPAddress_checksum :: "IPAddress \<Rightarrow> u32" where
  "IPAddress_checksum a =
     foldl (\<lambda>sum i. sum + ucast (drop_bit (16 * i) (m_lo a) AND 0xffff)
                        + ucast (drop_bit (16 * i) (m_hi a) AND 0xffff)) 0 [0..<4]"

definition unmap4in6 :: "IPAddress \<Rightarrow> IPAddress" where
  "unmap4in6 a =
     (if is4in6 a
      then \<lparr>m_hi = m_hi a, m_lo = m_lo a AND 0xffffffff, addr_type = IPv4, zone = []\<rparr> else a)"

definition map4in6 :: "IPAddress \<Rightarrow> IPAddress" where
  "map4in6 a =
     (if is4 a
      then \<lparr>m_hi = 0, m_lo = push_bit 32 0xffff OR (m_lo a AND 0xffffffff), addr_type = IPv6, zone = []\<rparr>
      else a)"

definition getIPv4 :: "IPAddress \<Rightarrow> u32" where
  "getIPv4 a = ucast (m_lo a)"

definition getIPv6 :: "IPAddress \<Rightarrow> u64 \<times> u64" where
  "getIPv6 a = (m_hi a, m_lo a)"

definition toBytes4 :: "IPAddress \<Rightarrow> byte list" where
  "toBytes4 a = map (\<lambda>i. ucast (drop_bit (8 * (3 - i)) (m_lo a) AND 0xff)) [0..<4]"

definition toBytes16 :: "IPAddress \<Rightarrow> byte list" where
  "toBytes16 a = map (\<lambda>i. ucast (drop_bit (8 * (7 - i)) (m_hi a) AND 0xff)) [0..<8]
     @ map (\<lambda>i. ucast (drop_bit (8 * (7 - i)) (m_lo a) AND 0xff)) [0..<8]"

definition IPAddress_size :: "IPAddress \<Rightarrow> nat" where
  "IPAddress_size a = (if is4 a then 4 else 16)"

text \<open>\<open>AddressTraits<IPAddress>::toBytes\<close> and \<open>fromBytes\<close>\<close>

definition IPAddress_fromBytes :: "byte list \<Rightarrow> IPAddress maybe" where
  "IPAddress_fromBytes bytes =
     (if length bytes = 4 then Inr (MakeIPv4_bytes bytes)
      else if length bytes = 16 then Inr (MakeIPv6_bytes bytes [])
      else Inl InvalidArgument)"

definition IPAddress_toBytes :: "IPAddress \<Rightarrow> byte list \<Rightarrow> error_code \<times> byte list" where
  "IPAddress_toBytes a bytes =
     (if is4 a then
        (if length bytes < 4 then (BufferTooSmall, bytes)
         else (Ok, overwrite bytes 0 (toBytes4 a)))
      else
        (if length bytes < 16 then (BufferTooSmall, bytes)
         else (Ok, overwrite bytes 0 (toBytes16 a))))"

section \<open>Comparison\<close>

datatype strong_ordering = less | equal | greater

definition compare_values :: "'a::linorder \<Rightarrow> 'a \<Rightarrow> strong_ordering" where
  "compare_values x y = (if x < y then less else if x = y then equal else greater)"

instantiation AddrType :: linorder
begin

definition less_eq_AddrType :: "AddrType \<Rightarrow> AddrType \<Rightarrow> bool" where
  "less_eq_AddrType a b \<longleftrightarrow> a = IPv4 \<or> b = IPv6"

definition less_AddrType :: "AddrType \<Rightarrow> AddrType \<Rightarrow> bool" where
  "less_AddrType a b \<longleftrightarrow> a = IPv4 \<and> b = IPv6"

instance
proof
  fix x y z :: AddrType
  show "x < y \<longleftrightarrow> x \<le> y \<and> \<not> y \<le> x" "x \<le> x" "x \<le> y \<or> y \<le> x"
    by (cases x; cases y; simp add: less_eq_AddrType_def less_AddrType_def)+
  show "x \<le> y \<Longrightarrow> y \<le> z \<Longrightarrow> x \<le> z"
    by (cases x; cases y; cases z; simp add: less_eq_AddrType_def)
  show "x \<le> y \<Longrightarrow> y \<le> x \<Longrightarrow> x = y"
    by (cases x; cases y; simp add: less_eq_AddrType_def)
qed

end

text \<open>\<open>operator<=>\<close>\<close>

definition IPAddress_compare :: "IPAddress \<Rightarrow> IPAddress \<Rightarrow> strong_ordering" where
  "IPAddress_compare a other =
     (if addr_type a \<noteq> addr_type other then compare_values (addr_type a) (addr_type other)
      else if is4 a then compare_values (m_lo a AND 0xffffffff) (m_lo other AND 0xffffffff)
      else if zone a \<noteq> zone other then compare_values (zone a) (zone other)
      else
        let order = compare_values (m_hi a) (m_hi other)
        in if order = equal then compare_values (m_lo a) (m_lo other) else order)"

definition IPAddress_eq :: "IPAddress \<Rightarrow> IPAddress \<Rightarrow> bool" where
  "IPAddress_eq a other \<longleftrightarrow> IPAddress_compare a other = equal"

text \<open>A shift by 64 is undefined in C++ and does not occur; \<open>~0ull << shift\<close> is \<open>push_bit\<close>.\<close>

definition samePrefix :: "IPAddress \<Rightarrow> IPAddress \<Rightarrow> nat \<Rightarrow> bool" where
  "samePrefix a b prefixLen =
     (if is4 a then
        (if \<not> is4 b \<or> prefixLen > 32 then False
         else let mask = push_bit (32 - prefixLen) (- 1) in (m_lo a AND mask) = (m_lo b AND mask))
      else if \<not> is6 b \<or> prefixLen > 128 then False
      else
        let shift = 64 - min prefixLen 64;
            hiMask = (if shift > 63 then 0 else push_bit shift (- 1)) in
        if (m_hi a AND hiMask) \<noteq> (m_hi b AND hiMask) then False
        else if prefixLen \<le> 64 then True
        else
          let shift = 64 - (prefixLen - 64);
              loMask = (if shift > 63 then 0 else push_bit shift (- 1))
          in (m_lo a AND loMask) = (m_lo b AND loMask))"

section \<open>Serialization\<close>

definition IPAddress_serialize :: "bool \<Rightarrow> IPAddress \<Rightarrow> IPAddress ser" where
  "IPAddress_serialize v4 a =
     if_reading
       (if v4 then
          ser_bind (serializeUint32 0) (\<lambda>ip. ser_return (UnspecifiedIPv4\<lparr>m_lo := ucast ip\<rparr>))
        else
          ser_bind (serializeUint64 0) (\<lambda>hi.
          ser_bind (serializeUint64 0) (\<lambda>lo.
          ser_return (UnspecifiedIPv6\<lparr>m_hi := hi, m_lo := lo\<rparr>))))
       (if v4 \<noteq> is4 a then ser_error ''address type does not match expectation''
        else if v4 then ser_bind (serializeUint32 (ucast (m_lo a))) (\<lambda>_. ser_return a)
        else
          ser_bind (serializeUint64 (m_hi a)) (\<lambda>_.
          ser_bind (serializeUint64 (m_lo a)) (\<lambda>_. ser_return a)))"

section \<open>SCION-mapped IPv6 addresses\<close>

definition SCION_IP_PREFIX :: u64 where
  "SCION_IP_PREFIX = push_bit 56 0xfc"

datatype ScionIPv6Class =
    INVALID | BGP_IPV4 | BGP_IPV6 | BGP_WILDCARD | WILDCARD_ASN
  | PUBLIC_SCION_IPV4 | PUBLIC_SCION_IPV6 | PUBLIC_SCION_WILDCARD | RESERVED

definition classifyScionMappedIP :: "IPAddress \<Rightarrow> ScionIPv6Class" where
  "classifyScionMappedIP ip =
     (let (prefix, iid) = getIPv6 ip in
      if (prefix AND push_bit 56 0xff) \<noteq> SCION_IP_PREFIX then INVALID
      else
        let flags = drop_bit 40 prefix AND 0xf in
        if (flags AND 0x8) = 0 then
          let asn = drop_bit 24 prefix AND 0xfffff in
          if asn = 0 then WILDCARD_ASN
          else if (prefix AND NOT (push_bit 24 (- 1))) = 0 \<and> iid = 0 then BGP_WILDCARD
          else if (prefix AND NOT (push_bit 24 (- 1))) = 0 \<and> drop_bit 32 iid = 0xffff then BGP_IPV4
          else BGP_IPV6
        else if flags = 0xe then
          if (prefix AND NOT (push_bit 8 (- 1))) = 0 \<and> iid = 0 then PUBLIC_SCION_WILDCARD
          else if (prefix AND NOT (push_bit 8 (- 1))) = 0 \<and> drop_bit 32 iid = 0xffff
          then PUBLIC_SCION_IPV4
          else PUBLIC_SCION_IPV6
        else RESERVED)"

definition isScion4 :: "IPAddress \<Rightarrow> bool" where
  "isScion4 a \<longleftrightarrow> classifyScionMappedIP a \<in> {BGP_IPV4, PUBLIC_SCION_IPV4}"

definition isScion6 :: "IPAddress \<Rightarrow> bool" where
  "isScion6 a \<longleftrightarrow> classifyScionMappedIP a \<in> {BGP_IPV6, PUBLIC_SCION_IPV6}"

section \<open>Parsing\<close>

fun parseIPv4_groups :: "nat \<Rightarrow> u32 \<Rightarrow> string list \<Rightarrow> (nat \<times> u32) maybe" where
  "parseIPv4_groups i addr [] = Inr (i, addr)"
| "parseIPv4_groups i addr (g # gs) =
     (if i > 3 \<or> g = [] then Inl SyntaxError
      else case from_chars 10 (2 ^ 8 - 1) g of (ec, v, rest) \<Rightarrow>
        if rest \<noteq> [] then Inl SyntaxError
        else if ec = errc_invalid_argument \<or> ec = errc_result_out_of_range then Inl SyntaxError
        else parseIPv4_groups (i + 1) (addr OR push_bit (8 * (3 - i)) (of_nat v)) gs)"

definition parseIPv4 :: "string \<Rightarrow> u32 maybe" where
  "parseIPv4 s =
     maybe_bind (parseIPv4_groups 0 0 (split_on CHR ''.'' s)) (\<lambda>(i, addr).
       if i < 4 then Inl SyntaxError else Inr addr)"

text \<open>
  The loop of \<open>IPAddress::Parse\<close> over the colon separated groups of \<open>s\<close>. It returns early
  with an IPv4 address (\<open>Inl\<close>) or ends with the number of groups, the index of the last
  collapsed group (or -1) and the fields as they lie in memory (\<open>Inr\<close>). An embedded IPv4
  address in the last of eight groups writes behind the end of the array.
\<close>

fun IPAddress_parseGroups ::
    "string \<Rightarrow> string \<Rightarrow> nat \<Rightarrow> int \<Rightarrow> u16 list \<Rightarrow> string list \<Rightarrow>
     (IPAddress + nat \<times> int \<times> u16 list) maybe" where
  "IPAddress_parseGroups s z i collapsedGroup addr [] = Inr (Inr (i, collapsedGroup, addr))"
| "IPAddress_parseGroups s z i collapsedGroup addr (g # gs) =
     (if i > 7 then Inl SyntaxError
      else if g = [] then
        (if collapsedGroup \<ge> 0 \<and> \<not> (collapsedGroup = 0 \<and> (i = 1 \<or> i = 2))
            \<and> \<not> (collapsedGroup = 1 \<and> i = 2)
         then Inl SyntaxError
         else IPAddress_parseGroups s z (i + 1) (int i) (addr[i := 0]) gs)
      else if length g > 4 then
        (if i = 0 then
           (if z \<noteq> [] then Inl SyntaxError
            else maybe_bind (parseIPv4 s) (\<lambda>ipv4. Inr (Inl (MakeIPv4 ipv4))))
         else case parseIPv4 g of
             Inl _ \<Rightarrow> Inl SyntaxError
           | Inr ipv4 \<Rightarrow>
               if i + 1 > 7 then Inl undefined_behavior
               else
                 let addr = addr[i := byteswapBE (ucast (drop_bit 16 ipv4 AND 0xffff))];
                     addr = addr[i + 1 := byteswapBE (ucast (ipv4 AND 0xffff))]
                 in if gs \<noteq> [] then Inl SyntaxError
                    else Inr (Inr (i + 2, collapsedGroup, addr)))
      else case from_chars 16 (2 ^ 16 - 1) g of (ec, v, rest) \<Rightarrow>
        if rest \<noteq> [] then Inl SyntaxError
        else if ec = errc_invalid_argument \<or> ec = errc_result_out_of_range then Inl SyntaxError
        else IPAddress_parseGroups s z (i + 1) collapsedGroup (addr[i := byteswapBE (of_nat v)]) gs)"

text \<open>The two loops that insert the remaining zero fields.\<close>

definition IPAddress_expandZeros :: "nat \<Rightarrow> nat \<Rightarrow> u16 list \<Rightarrow> u16 list" where
  "IPAddress_expandZeros i collapsedGroup addr =
     (let expandZeros = 8 - i;
          collapsedEnd = collapsedGroup + expandZeros;
          addr = foldl (\<lambda>a j. a[j := a ! (j - expandZeros)]) addr (rev [collapsedEnd + 1..<8])
      in foldl (\<lambda>a j. a[j := 0]) addr [collapsedGroup + 1..<collapsedGroup + expandZeros + 1])"

definition IPAddress_Parse :: "string \<Rightarrow> bool \<Rightarrow> IPAddress maybe" where
  "IPAddress_Parse s noZone =
     (if s = [] then Inl SyntaxError
      else
        let parse = (\<lambda>s z.
          maybe_bind (IPAddress_parseGroups s z 0 (- 1) (replicate 8 0) (split_on CHR '':'' s)) (\<lambda>r.
            case r of
              Inl ipv4 \<Rightarrow> Inr ipv4
            | Inr (i, collapsedGroup, addr) \<Rightarrow>
                if i < 8 \<and> collapsedGroup < 0 then Inl SyntaxError
                else
                  let addr = (if i < 8 then IPAddress_expandZeros i (nat collapsedGroup) addr else addr)
                  in Inr (MakeIPv6_bytes (concat (map (store_le 2) addr)) z)))
        in case find_char CHR ''%'' s of
             None \<Rightarrow> parse s []
           | Some zoneSep \<Rightarrow>
               if noZone then Inl RequiresZone
               else if drop (zoneSep + 1) s = [] then Inl SyntaxError
               else parse (take zoneSep s) (drop (zoneSep + 1) s))"

section \<open>Formatting\<close>

definition formatIPv4 :: "u64 \<Rightarrow> string" where
  "formatIPv4 lo =
     format_dec (unat (drop_bit 24 lo AND 0xff)) @ ''.'' @
     format_dec (unat (drop_bit 16 lo AND 0xff)) @ ''.'' @
     format_dec (unat (drop_bit 8 lo AND 0xff)) @ ''.'' @
     format_dec (unat (lo AND 0xff))"

text \<open>
  \<open>findLongestZeroGroup\<close>: the loop's arguments are the index, \<open>longestBegin\<close>,
  \<open>longestEnd\<close>, \<open>longestGroup\<close> and \<open>groupBegin\<close>.
\<close>

function findZeros :: "byte list \<Rightarrow> nat \<Rightarrow> nat \<Rightarrow> nat \<Rightarrow> nat \<Rightarrow> nat \<Rightarrow> int \<Rightarrow> nat \<times> nat \<times> nat \<times> int" where
  "findZeros addr len i lb le lg gb =
     (if i < len then
        (if addr ! i = 0 \<and> addr ! (i + 1) = 0 then
           findZeros addr len (i + 2) lb le lg (if gb < 0 then int i else gb)
         else if gb \<ge> 0 then
           (if i - nat gb > lg then findZeros addr len (i + 2) (nat gb) i (i - nat gb) (- 1)
            else findZeros addr len (i + 2) lb le lg (- 1))
         else findZeros addr len (i + 2) lb le lg gb)
      else (lb, le, lg, gb))"
  by pat_completeness auto
termination by (relation "measure (\<lambda>(addr, len, i, _). len - i)") auto

declare findZeros.simps [simp del]

definition findLongestZeroGroup :: "byte list \<Rightarrow> nat \<Rightarrow> nat \<times> nat" where
  "findLongestZeroGroup addr len =
     (case findZeros addr len 0 0 0 2 (- 1) of (longestBegin, longestEnd, longestGroup, groupBegin) \<Rightarrow>
        if groupBegin \<ge> 0 \<and> len - nat groupBegin > longestGroup then (nat groupBegin, len)
        else (longestBegin, longestEnd))"

definition format_field :: "bool \<Rightarrow> byte list \<Rightarrow> nat \<Rightarrow> string" where
  "format_field upperCase addr i =
     format_uint 16 upperCase (unat (push_bit 8 (ucast (addr ! i)) OR ucast (addr ! (i + 1)) :: u32))"

text \<open>The two loops that write the fields \<open>i, i + 2, ...\<close> below \<open>len\<close>.\<close>

definition format_fields :: "bool \<Rightarrow> byte list \<Rightarrow> nat \<Rightarrow> nat \<Rightarrow> string" where
  "format_fields upperCase addr from len =
     concat (map (\<lambda>k. let i = from + 2 * k in
                      (if i \<noteq> 0 then '':'' else []) @ format_field upperCase addr i)
       [0..<(len - from + 1) div 2])"

definition IPAddress_formatTo :: "IPAddress \<Rightarrow> bool \<Rightarrow> bool \<Rightarrow> string" where
  "IPAddress_formatTo a longForm upperCase =
     (if is4 a then formatIPv4 (m_lo a)
      else
        let addr = toBytes16 a;
            len = (if is4in6 a \<or> isScion4 a then 12 else 16);
            (first, last) = (if \<not> longForm then findLongestZeroGroup addr len else (0, 0))
        in format_fields upperCase addr 0 first
           @ (if last > first then '':'' else [])
           @ format_fields upperCase addr last len
           @ (if last = len then '':'' else [])
           @ (if len = 12 then '':'' @ formatIPv4 (m_lo a) else [])
           @ (if zone a \<noteq> [] then ''%'' @ zone a else []))"

text \<open>The format of \<open>std::format("{}", addr)\<close>.\<close>

definition IPAddress_format :: "IPAddress \<Rightarrow> string" where
  "IPAddress_format a = IPAddress_formatTo a False False"

end
