(* ===== verification/IPAddressSpec.thy ===== *)
theory IPAddressSpec
  imports IPAddress
begin

text \<open>
  What the operations of \<open>IPAddress\<close> promise: construction from bytes and conversion to
  bytes are inverse, comparison is a total order that agrees with equality on well-formed
  addresses, \<open>samePrefix\<close> compares leading bits, parsing inverts formatting, and
  serialization has the wire format of the address.
\<close>

text \<open>The addresses the constructors and operations produce.\<close>

definition wf_ip :: "IPAddress \<Rightarrow> bool" where
  "wf_ip a \<longleftrightarrow> (is4 a \<longrightarrow> m_hi a = 0 \<and> fits 32 (m_lo a) \<and> zone a = [])"

lemma is4_is6: "is6 a \<longleftrightarrow> \<not> is4 a"
  by (cases "addr_type a") (simp_all add: is4_def is6_def)

lemma is4_make [simp]:
  "is4 (MakeIPv4 v)" "\<not> is4 (MakeIPv6 hi lo z)" "\<not> is4 (MakeIPv6_bytes bs z)"
  by (simp_all add: is4_def MakeIPv4_def MakeIPv6_def MakeIPv6_bytes_def)

lemma wf_MakeIPv4 [simp]: "wf_ip (MakeIPv4 v)"
  by (simp add: wf_ip_def MakeIPv4_def fits_ucast)

lemma wf_MakeIPv6 [simp]: "wf_ip (MakeIPv6 hi lo z)" "wf_ip (MakeIPv6_bytes bs z)"
  by (simp_all add: wf_ip_def)

lemma wf_is4_eq: "wf_ip a \<Longrightarrow> is4 a \<Longrightarrow> a = MakeIPv4 (getIPv4 a)"
  by (cases a) (simp add: MakeIPv4_def getIPv4_def wf_ip_def is4_def ucast_ucast_fits)

lemma getIPv4_MakeIPv4 [simp]: "getIPv4 (MakeIPv4 v) = v"
  by (simp add: getIPv4_def MakeIPv4_def ucast_down_up)

section \<open>Bytes\<close>

lemma bytes_u64_load_be:
  assumes "i + 8 \<le> length bs"
  shows "bytes_u64 bs i = load_be (take 8 (drop i bs))"
proof -
  have "take 8 (drop i bs) =
      [bs!i, bs!(i+1), bs!(i+2), bs!(i+3), bs!(i+4), bs!(i+5), bs!(i+6), bs!(i+7)]"
    by (rule nth_equalityI)
      (use assms in \<open>auto simp: nth_Cons numeral_eq_Suc less_Suc_eq split: nat.splits\<close>)
  then show ?thesis by (simp only: bytes_u64_def load_be_8)
qed

lemma ucast_and_ff: "(ucast (w AND 0xff :: u64) :: byte) = ucast w"
proof -
  have "(0xff :: u64) = mask 8" by (simp add: mask_eq_exp_minus_1)
  show ?thesis
    unfolding \<open>(0xff :: u64) = mask 8\<close>
    by (rule bit_word_eqI) (auto simp: bit_ucast_iff bit_and_iff bit_mask_iff)
qed

lemma toBytes16_store: "toBytes16 a = store_be 8 (m_hi a) @ store_be 8 (m_lo a)"
  by (simp add: toBytes16_def store_be_def upt_rec ucast_and_ff)

lemma toBytes4_store: "toBytes4 a = store_be 4 (getIPv4 a)"
proof -
  have "store_be 4 (ucast (m_lo a) :: u32) = store_be 4 (m_lo a)"
    by (rule store_be_ucast) simp_all
  then show ?thesis
    by (simp add: toBytes4_def getIPv4_def) (simp add: store_be_def upt_rec ucast_and_ff)
qed

lemma length_toBytes [simp]: "length (toBytes4 a) = 4" "length (toBytes16 a) = 16"
  by (simp_all add: toBytes4_store toBytes16_store)

lemma MakeIPv6_toBytes16:
  assumes "is6 a"
  shows "MakeIPv6_bytes (toBytes16 a) (zone a) = a"
proof -
  have "bytes_u64 (toBytes16 a) 0 = m_hi a" "bytes_u64 (toBytes16 a) 8 = m_lo a"
    by (simp_all add: bytes_u64_load_be toBytes16_store load_be_store_be)
  then show ?thesis using assms by (simp add: MakeIPv6_bytes_def is6_def)
qed

lemma MakeIPv4_bytes_store: "MakeIPv4_bytes (store_be 4 v) = MakeIPv4 v"
proof -
  obtain a b c d where l: "store_be 4 v = [a, b, c, d]"
    by (simp add: store_be_def upt_rec)
  have "(load_be (store_be 4 v) :: u32) = v" by (rule load_be_store_be) simp
  then have "bit (load_be [a, b, c, d] :: u64) n = bit v n" if "n < 64" for n
    using that by (auto simp: l bit_load_be dest: bit_imp_le_length)
  then have "(load_be [a, b, c, d] :: u64) = ucast v"
    by (intro bit_word_eqI) (simp add: bit_ucast_iff)
  then show ?thesis by (simp add: MakeIPv4_bytes_def MakeIPv4_def l load_be_4)
qed

lemma MakeIPv4_toBytes4: "wf_ip a \<Longrightarrow> is4 a \<Longrightarrow> MakeIPv4_bytes (toBytes4 a) = a"
  by (metis wf_is4_eq MakeIPv4_bytes_store toBytes4_store)

section \<open>Comparison\<close>

lemma compare_values [simp]:
  "compare_values x y = less \<longleftrightarrow> x < y"
  "compare_values x y = equal \<longleftrightarrow> x = y"
  "compare_values x y = greater \<longleftrightarrow> y < (x :: 'a::linorder)"
  by (auto simp: compare_values_def)

lemma and_ffffffff: "fits 32 v \<Longrightarrow> v AND 0xffffffff = (v :: u64)"
proof -
  have "(0xffffffff :: u64) = mask 32" by (simp add: mask_eq_exp_minus_1)
  then show "fits 32 v \<Longrightarrow> v AND 0xffffffff = v" by (simp add: fits_def take_bit_eq_mask)
qed

lemma IPAddress_compare_equal:
  assumes "wf_ip a" "wf_ip b"
  shows "IPAddress_compare a b = equal \<longleftrightarrow> a = b"
  using assms
  by (cases "addr_type a"; cases "addr_type b")
    (auto simp: IPAddress_compare_def Let_def is4_def wf_ip_def and_ffffffff)

lemma IPAddress_compare_antisym:
  "IPAddress_compare a b = less \<longleftrightarrow> IPAddress_compare b a = greater"
  by (auto simp: IPAddress_compare_def Let_def is4_def)

lemma IPAddress_compare_trans:
  "IPAddress_compare a b = less \<Longrightarrow> IPAddress_compare b c = less \<Longrightarrow> IPAddress_compare a c = less"
  by (auto simp: IPAddress_compare_def Let_def is4_def split: if_splits)

section \<open>Prefixes\<close>

lemma and_prefix_mask:
  assumes "fits N x" "fits N y" "n \<le> N" "N \<le> LENGTH('a::len)"
  shows "(x AND push_bit (N - n) (- 1)) = (y AND push_bit (N - n) (- 1) :: 'a word) \<longleftrightarrow>
    take n (to_bits N x) = take n (to_bits N y)"
proof
  assume eq: "(x AND push_bit (N - n) (- 1)) = (y AND push_bit (N - n) (- 1))"
  have "bit x k = bit y k" if "N - n \<le> k" "k < N" for k
  proof -
    have "k - (N - n) < LENGTH('a)" using that assms(4) by linarith
    then show ?thesis
      using arg_cong [OF eq, of "\<lambda>w. bit w k"] that assms(4)
      by (simp add: bit_and_iff bit_push_bit_iff del: push_bit_minus_one_eq_not_mask)
  qed
  then show "take n (to_bits N x) = take n (to_bits N y)"
    using assms(3) by (intro nth_equalityI) (auto simp: nth_to_bits)
next
  assume eq: "take n (to_bits N x) = take n (to_bits N y)"
  have bits: "bit x k = bit y k" if "N - n \<le> k" "k < N" for k
  proof -
    have i: "N - 1 - k < n" "N - 1 - k < N" "N - 1 - (N - 1 - k) = k" using that assms(3) by auto
    then have "to_bits N x ! (N - 1 - k) = to_bits N y ! (N - 1 - k)"
      using arg_cong [OF eq, of "\<lambda>l. l ! (N - 1 - k)"] by simp
    then show ?thesis using i by (simp only: nth_to_bits)
  qed
  show "(x AND push_bit (N - n) (- 1)) = (y AND push_bit (N - n) (- 1))"
  proof (rule bit_word_eqI)
    fix k
    assume "k < LENGTH('a)"
    then show "bit (x AND push_bit (N - n) (- 1)) k = bit (y AND push_bit (N - n) (- 1)) k"
      using bits [of k] fits_bit [OF assms(1), of k] fits_bit [OF assms(2), of k]
      by (cases "k < N") (auto simp: bit_and_iff bit_push_bit_iff simp del: push_bit_minus_one_eq_not_mask)
  qed
qed

text \<open>The bits of an address, most significant first; they are also its wire format.\<close>

definition IPAddress_bits :: "IPAddress \<Rightarrow> bool list" where
  "IPAddress_bits a =
     (if is4 a then to_bits 32 (getIPv4 a) else to_bits 64 (m_hi a) @ to_bits 64 (m_lo a))"

lemma to_bits_ucast: "n \<le> LENGTH('b::len) \<Longrightarrow> to_bits n (ucast (v :: 'a::len word) :: 'b word) = to_bits n v"
  by (rule nth_equalityI) (auto simp: nth_to_bits bit_ucast_iff)

lemma samePrefix4:
  assumes "wf_ip a" "wf_ip b" "is4 a" "is4 b" "n \<le> 32"
  shows "samePrefix a b n \<longleftrightarrow> take n (IPAddress_bits a) = take n (IPAddress_bits b)"
  using assms and_prefix_mask [of 32 "m_lo a" "m_lo b" n]
  by (simp add: samePrefix_def wf_ip_def IPAddress_bits_def getIPv4_def to_bits_ucast)

lemma prefix_mask_64:
  assumes "n \<le> 64"
  shows "(x AND (if 64 - n > 63 then 0 else push_bit (64 - n) (- 1))) =
      (y AND (if 64 - n > 63 then 0 else push_bit (64 - n) (- 1)) :: u64) \<longleftrightarrow>
    take n (to_bits 64 x) = take n (to_bits 64 y)"
  using assms and_prefix_mask [of 64 x y n] by (cases n) auto

lemma samePrefix6:
  assumes "is6 a" "is6 b" "n \<le> 128"
  shows "samePrefix a b n \<longleftrightarrow> take n (IPAddress_bits a) = take n (IPAddress_bits b)"
proof -
  note v4 = assms(1,2) [unfolded is4_is6]
  show ?thesis
  proof (cases "n \<le> 64")
    case True
    then show ?thesis
      using assms v4 prefix_mask_64 [OF True, of "m_hi a" "m_hi b"]
      by (simp add: samePrefix_def IPAddress_bits_def min_def)
  next
    case False
    then have n: "n - 64 \<le> 64" using assms(3) by simp
    have "take n (IPAddress_bits c) = to_bits 64 (m_hi c) @ take (n - 64) (to_bits 64 (m_lo c))"
      if "is6 c" for c
      using False that by (simp add: IPAddress_bits_def is4_is6)
    then have "take n (IPAddress_bits a) = take n (IPAddress_bits b) \<longleftrightarrow>
        to_bits 64 (m_hi a) = to_bits 64 (m_hi b) \<and>
        take (n - 64) (to_bits 64 (m_lo a)) = take (n - 64) (to_bits 64 (m_lo b))"
      using assms by simp
    moreover have sh: "64 - (n - 64) = 128 - n" using False by simp
    ultimately show ?thesis
      using False assms v4 prefix_mask_64 [OF n, of "m_lo a" "m_lo b", unfolded sh]
        prefix_mask_64 [of 64 "m_hi a" "m_hi b"]
      by (simp add: samePrefix_def Let_def del: push_bit_minus_one_eq_not_mask)
  qed
qed

lemma samePrefix_spec:
  assumes "wf_ip a" "wf_ip b"
  shows "samePrefix a b n \<longleftrightarrow>
    addr_type a = addr_type b \<and> n \<le> length (IPAddress_bits a) \<and>
    take n (IPAddress_bits a) = take n (IPAddress_bits b)"
proof (cases "addr_type a = addr_type b \<and> n \<le> length (IPAddress_bits a)")
  case True
  then show ?thesis
    using samePrefix4 [OF assms] samePrefix6 [of a b]
    by (cases "addr_type a") (auto simp: is4_def is6_def IPAddress_bits_def)
next
  case False
  then show ?thesis
    by (cases "addr_type a"; cases "addr_type b")
      (auto simp: samePrefix_def is4_def is6_def IPAddress_bits_def)
qed

section \<open>Serialization\<close>

lemma IPAddress_serialize_v4:
  "IPAddress_serialize True a =
     if_reading (ser_bind (serializeUint32 0) (\<lambda>ip. ser_return (MakeIPv4 ip)))
       (if is4 a then ser_bind (serializeUint32 (getIPv4 a)) (\<lambda>_. ser_return a)
        else ser_error ''address type does not match expectation'')"
  by (simp add: IPAddress_serialize_def MakeIPv4_def UnspecifiedIPv4_def getIPv4_def)

lemma IPAddress_serialize_v6:
  "IPAddress_serialize False a =
     if_reading
       (ser_bind (serializeUint64 0) (\<lambda>hi. ser_bind (serializeUint64 0) (\<lambda>lo.
          ser_return (MakeIPv6 hi lo []))))
       (if is4 a then ser_error ''address type does not match expectation''
        else ser_bind (serializeUint64 (m_hi a)) (\<lambda>_.
          ser_bind (serializeUint64 (m_lo a)) (\<lambda>_. ser_return a)))"
  by (simp add: IPAddress_serialize_def MakeIPv6_def UnspecifiedIPv6_def)

lemma writesB_IPAddress4:
  assumes "wf_ip a" "is4 a"
  shows "writesB 0 (IPAddress_serialize True a) (IPAddress_bits a) a"
  unfolding IPAddress_serialize_v4 if_P [OF assms(2)]
  by (simp add: IPAddress_bits_def assms) (rule writes_steps | simp)+

lemma writesB_IPAddress6:
  assumes "\<not> is4 a"
  shows "writesB 0 (IPAddress_serialize False a) (IPAddress_bits a) a"
  unfolding IPAddress_serialize_v6 if_not_P [OF assms]
  by (simp add: IPAddress_bits_def assms) (rule writes_steps | simp)+

lemma readsB_IPAddress4: "readsB 0 (IPAddress_serialize True a) (to_bits 32 v) (MakeIPv4 v)"
  unfolding IPAddress_serialize_v4 by (rule reads_steps | simp)+

lemma readsB_IPAddress6:
  "readsB 0 (IPAddress_serialize False a) (to_bits 64 hi @ to_bits 64 lo) (MakeIPv6 hi lo [])"
  unfolding IPAddress_serialize_v6 by (rule reads_steps | simp)+

lemma is6_eq: "\<not> is4 a \<Longrightarrow> zone a = [] \<Longrightarrow> a = MakeIPv6 (m_hi a) (m_lo a) []"
  by (cases a; cases "addr_type a") (simp_all add: MakeIPv6_def is4_def)

lemma IPAddress_bits_make [simp]:
  "IPAddress_bits (MakeIPv4 v) = to_bits 32 v"
  "IPAddress_bits (MakeIPv6 hi lo z) = to_bits 64 hi @ to_bits 64 lo"
  by (simp_all add: IPAddress_bits_def) (simp add: MakeIPv6_def)

lemma getsB_IPAddress4:
  "getsB 0 (IPAddress_serialize True a0) (\<lambda>a bs. (wf_ip a \<and> is4 a) \<and> bs = IPAddress_bits a)"
  unfolding IPAddress_serialize_v4
  by (rule gets_rules, rule getsB_bind [OF getsB_serializeUint32]) (auto intro: getsB_return)

lemma getsB_IPAddress6:
  "getsB 0 (IPAddress_serialize False a0) (\<lambda>a bs. (\<not> is4 a \<and> zone a = []) \<and> bs = IPAddress_bits a)"
  unfolding IPAddress_serialize_v6
  by (rule gets_rules, rule getsB_bind [OF getsB_serializeUint64], simp,
      rule getsB_bind [OF getsB_serializeUint64], simp)
    (auto intro!: getsB_return simp: MakeIPv6_def is4_def IPAddress_bits_def)

interpretation ip4: strict_codec "IPAddress_serialize True" IPAddress_bits "\<lambda>a. wf_ip a \<and> is4 a" "\<lambda>_. True"
proof
  fix a a0
  assume a: "wf_ip a \<and> is4 a"
  then show "writesB 0 (IPAddress_serialize True a) (IPAddress_bits a) a"
    using writesB_IPAddress4 by blast
  have "a = MakeIPv4 (getIPv4 a)" using a wf_is4_eq by blast
  then show "readsB 0 (IPAddress_serialize True a0) (IPAddress_bits a) a"
    using readsB_IPAddress4 by (metis IPAddress_bits_make(1))
  show "length (IPAddress_bits a) mod 8 = 0" using a by (simp add: IPAddress_bits_def)
qed (rule getsB_IPAddress4)

interpretation ip6: strict_codec "IPAddress_serialize False" IPAddress_bits
  "\<lambda>a. \<not> is4 a \<and> zone a = []" "\<lambda>_. True"
proof
  fix a a0
  assume a: "\<not> is4 a \<and> zone a = []"
  then show "writesB 0 (IPAddress_serialize False a) (IPAddress_bits a) a"
    using writesB_IPAddress6 by blast
  show "readsB 0 (IPAddress_serialize False a0) (IPAddress_bits a) a"
    using a readsB_IPAddress6 is6_eq by (metis IPAddress_bits_make(2))
  show "length (IPAddress_bits a) mod 8 = 0" using a by (simp add: IPAddress_bits_def)
qed (rule getsB_IPAddress6)

end
