(* ===== verification/IPAddressText.thy ===== *)
theory IPAddressText
  imports IPAddressSpec
begin

text \<open>
  Parsing what was formatted. Every IPv4 address and every IPv6 address in the long form
  parses back to itself, and so does the default (shortened) form except in one case, which
  the last theorem pins down: when the run of zeros reaches the end of the address and two or
  more fields precede it (as in \<open>2001:db8::\<close>), \<open>Parse\<close> reports a syntax error.
\<close>

section \<open>IPv4\<close>

lemma parseIPv4_groups_dec:
  assumes "i \<le> 3" "v \<le> 255"
  shows "parseIPv4_groups i addr (format_dec v # gs) =
    parseIPv4_groups (i + 1) (addr OR push_bit (8 * (3 - i)) (of_nat v)) gs"
  using assms from_chars_dec [of v "2 ^ 8 - 1"] by simp

lemma dot_not_dec: "CHR ''.'' \<notin> set (format_dec n)"
  using format_dec_digits by force

lemma unat_and_ff: "unat ((v :: u64) AND 0xff) \<le> 255"
  using word_and_le1 [of v "0xff"] by (simp add: word_le_nat_alt)

lemma octets_of_word:
  "0 OR push_bit 24 (ucast (drop_bit 24 lo AND 0xff)) OR push_bit 16 (ucast (drop_bit 16 lo AND 0xff))
    OR push_bit 8 (ucast (drop_bit 8 lo AND 0xff)) OR push_bit 0 (ucast (lo AND 0xff)) = (ucast (lo :: u64) :: u32)"
proof -
  have m: "(0xff :: u64) = mask 8" by (simp add: mask_eq_exp_minus_1)
  show ?thesis
    unfolding m
  proof (rule bit_word_eqI)
    fix n
    assume n: "n < LENGTH(32)"
    consider "n < 8" | k where "n = k + 8" "k < 8" | k where "n = k + 16" "k < 8" | k where "n = k + 24"
    proof -
      have "n < 8 \<or> (8 \<le> n \<and> n < 16) \<or> (16 \<le> n \<and> n < 24) \<or> 24 \<le> n" by linarith
      then show thesis
        using that(1) that(2) [of "n - 8"] that(3) [of "n - 16"] that(4) [of "n - 24"] by fastforce
    qed
    then show "bit (0 OR push_bit 24 (ucast (drop_bit 24 lo AND mask 8)) OR
        push_bit 16 (ucast (drop_bit 16 lo AND mask 8)) OR
        push_bit 8 (ucast (drop_bit 8 lo AND mask 8)) OR push_bit 0 (ucast (lo AND mask 8)) :: u32) n =
        bit (ucast lo :: u32) n"
      using n
      by cases (auto simp: bit_or_iff bit_push_bit_iff bit_drop_bit_eq bit_and_iff bit_mask_iff
          bit_ucast_iff add.commute)
  qed
qed

lemma of_nat_unat_ucast: "of_nat (unat (v :: 'a::len word)) = (ucast v :: 'b::len word)"
  by simp

lemma parseIPv4_format: "parseIPv4 (formatIPv4 lo) = Inr (ucast lo)"
proof -
  let ?a = "drop_bit 24 lo AND 0xff" and ?b = "drop_bit 16 lo AND 0xff"
    and ?c = "drop_bit 8 lo AND 0xff" and ?d = "lo AND 0xff"
  have "split_on CHR ''.'' (formatIPv4 lo) =
      [format_dec (unat ?a), format_dec (unat ?b), format_dec (unat ?c), format_dec (unat ?d)]"
    by (simp add: formatIPv4_def split_on_append split_on_no_sep dot_not_dec)
  moreover have "parseIPv4_groups 0 0
      [format_dec (unat ?a), format_dec (unat ?b), format_dec (unat ?c), format_dec (unat ?d)] =
      Inr (4, ucast lo)"
    using octets_of_word [of lo]
    by (simp add: parseIPv4_groups_dec unat_and_ff or.assoc del: parseIPv4_groups.simps(2) push_bit_and)
  ultimately show ?thesis by (simp add: parseIPv4_def)
qed

lemma formatIPv4_chars:
  assumes "c \<in> set (formatIPv4 lo)"
  shows "c = CHR ''.'' \<or> is_digit 10 c"
  using assms format_dec_digits by (auto simp: formatIPv4_def)

lemma formatIPv4_seps [simp]:
  "CHR '':'' \<notin> set (formatIPv4 lo)" "CHR ''%'' \<notin> set (formatIPv4 lo)"
  using formatIPv4_chars by fastforce+

lemma length_formatIPv4: "4 < length (formatIPv4 lo)"
proof -
  have "1 \<le> length (format_dec n)" for n
    using format_dec_nonempty(1) [of n] by (cases "format_dec n") auto
  from this [of "unat (drop_bit 24 lo AND 255)"] this [of "unat (drop_bit 16 lo AND 255)"]
    this [of "unat (drop_bit 8 lo AND 255)"]
  show ?thesis by (simp add: formatIPv4_def)
qed

lemma Parse_format_IPv4:
  assumes "wf_ip a" "is4 a"
  shows "IPAddress_Parse (IPAddress_formatTo a l u) noZone = Inr a"
proof -
  have "formatIPv4 (m_lo a) \<noteq> []" using length_formatIPv4 [of "m_lo a"] by auto
  then show ?thesis
    using assms length_formatIPv4 [of "m_lo a"] wf_is4_eq [OF assms]
    by (simp add: IPAddress_Parse_def IPAddress_formatTo_def split_on_no_sep parseIPv4_format
        getIPv4_def find_char_def)
qed

section \<open>The fields of an IPv6 address\<close>

definition ip_fields :: "IPAddress \<Rightarrow> u16 list" where
  "ip_fields a = map (\<lambda>k. load_be [toBytes16 a ! (2 * k), toBytes16 a ! (2 * k + 1)]) [0..<8]"

lemma length_ip_fields [simp]: "length (ip_fields a) = 8"
  by (simp add: ip_fields_def)

lemma ip_fields_nonempty [simp]: "ip_fields a \<noteq> []"
  by (simp add: ip_fields_def)

lemma format_field_eq:
  assumes "k < 8"
  shows "format_field u (toBytes16 a) (2 * k) = format_uint 16 u (unat (ip_fields a ! k))"
proof -
  let ?x = "toBytes16 a ! (2 * k)" and ?y = "toBytes16 a ! (2 * k + 1)"
  have "(push_bit 8 (ucast ?x) OR ucast ?y :: u32) = ucast (load_be [?x, ?y] :: u16)"
    by (rule bit_word_eqI)
      (auto simp: load_be_def bit_or_iff bit_push_bit_iff bit_ucast_iff dest: bit_imp_le_length)
  moreover have "unat (ucast (w :: u16) :: u32) = unat w" for w
  proof -
    have "unat w < 2 ^ LENGTH(16)" by (rule unsigned_less)
    then show ?thesis by (simp add: unsigned_ucast_eq take_bit_nat_eq_self)
  qed
  ultimately show ?thesis using assms by (simp add: format_field_def ip_fields_def)
qed

lemma store_be_2_load_be: "store_be 2 (load_be [x, y] :: u16) = [x, y]"
proof -
  have "store_be (length [x, y]) (load_be [x, y] :: u16) = [x, y]"
    by (rule store_be_load_be) simp
  then show ?thesis by (simp add: numeral_2_eq_2)
qed

lemma concat_ip_fields: "concat (map (store_be 2) (ip_fields a)) = toBytes16 a"
proof -
  let ?b = "toBytes16 a"
  have "concat (map (store_be 2) (ip_fields a)) =
      [?b!0, ?b!1, ?b!2, ?b!3, ?b!4, ?b!5, ?b!6, ?b!7, ?b!8, ?b!9, ?b!10, ?b!11, ?b!12, ?b!13, ?b!14, ?b!15]"
    by (simp add: ip_fields_def store_be_2_load_be upt_rec)
  also have "\<dots> = ?b"
    by (rule nth_equalityI) (auto simp: nth_Cons numeral_eq_Suc less_Suc_eq split: nat.splits)
  finally show ?thesis .
qed

lemma MakeIPv6_fields:
  assumes "is6 a"
  shows "MakeIPv6_bytes (concat (map (store_le 2) (map byteswapBE (ip_fields a)))) (zone a) = a"
proof -
  have "map (store_le 2) (map byteswapBE (ip_fields a)) = map (store_be 2) (ip_fields a)"
    by (simp add: store_le_byteswapBE)
  then show ?thesis
    using MakeIPv6_toBytes16 [OF assms] by (simp only: concat_ip_fields)
qed

lemma field_eq_0:
  assumes "k < 8"
  shows "ip_fields a ! k = 0 \<longleftrightarrow> toBytes16 a ! (2 * k) = 0 \<and> toBytes16 a ! (2 * k + 1) = 0"
proof -
  let ?x = "toBytes16 a ! (2 * k)" and ?y = "toBytes16 a ! (2 * k + 1)"
  have "store_be 2 (0 :: u16) = [0, 0]" by (simp add: store_be_def upt_rec)
  moreover have "(load_be [0, 0] :: u16) = 0" by (simp add: load_be_def)
  ultimately have "(load_be [?x, ?y] :: u16) = 0 \<longleftrightarrow> ?x = 0 \<and> ?y = 0"
    using store_be_2_load_be [of ?x ?y] by auto
  then show ?thesis using assms by (simp add: ip_fields_def)
qed

section \<open>Parsing groups\<close>

text \<open>A run of hexadecimal groups stores their values.\<close>

lemma parseGroups_hex:
  assumes "i + length vs \<le> 8" "length addr = 8"
  shows "IPAddress_parseGroups s z i c addr (map (\<lambda>v. format_uint 16 u (unat v)) vs @ gs) =
    IPAddress_parseGroups s z (i + length vs) c (overwrite addr i (map byteswapBE vs)) gs"
  using assms
proof (induction vs arbitrary: i addr)
  case Nil
  then show ?case by simp
next
  case (Cons v vs)
  have v: "unat v < 2 ^ LENGTH(16)" by (rule unsigned_less)
  have short: "length (format_uint 16 u (unat v)) \<le> 4"
    using length_to_digits [of 16 4 "unat v"] v by (simp add: format_uint_def)
  have fc: "from_chars 16 (2 ^ 16 - 1) (format_uint 16 u (unat v)) = (Ok, unat v, [])"
    using from_chars_format [of 16 "[]" "2 ^ 16 - 1" u "unat v"] v by simp
  have step: "IPAddress_parseGroups s z i c addr (format_uint 16 u (unat v) # gs') =
      IPAddress_parseGroups s z (i + 1) c (addr[i := byteswapBE v]) gs'" for gs'
    using Cons.prems short fc by simp
  have "overwrite (addr[i := byteswapBE v]) (Suc i) (map byteswapBE vs) =
      overwrite addr i (byteswapBE v # map byteswapBE vs)"
    using Cons.prems by (simp add: overwrite_def take_Suc_conv_app_nth)
  with Cons.IH [of "i + 1" "addr[i := byteswapBE v]"] Cons.prems step show ?case by simp
qed

text \<open>The loops that shift the fields behind the collapsed group and clear the gap.\<close>

lemma foldl_shift:
  assumes "0 < e" "e \<le> l" "u \<le> length a"
  shows "foldl (\<lambda>a j. a[j := a ! (j - e)]) a (rev [l..<u]) =
    map (\<lambda>j. if l \<le> j \<and> j < u then a ! (j - e) else a ! j) [0..<length a]"
  using assms
proof (induction u arbitrary: a)
  case 0
  then show ?case by (simp add: map_nth)
next
  case (Suc u)
  show ?case
  proof (cases "l \<le> u")
    case True
    then have "foldl (\<lambda>a j. a[j := a ! (j - e)]) a (rev [l..<Suc u]) =
        foldl (\<lambda>a j. a[j := a ! (j - e)]) (a[u := a ! (u - e)]) (rev [l..<u])"
      by simp
    also have "\<dots> = map (\<lambda>j. if l \<le> j \<and> j < Suc u then a ! (j - e) else a ! j) [0..<length a]"
      using Suc.IH [of "a[u := a ! (u - e)]"] Suc.prems True
      by (auto simp: nth_list_update less_Suc_eq intro!: map_cong)
    finally show ?thesis .
  next
    case False
    then show ?thesis by (auto intro!: nth_equalityI)
  qed
qed

lemma foldl_clear:
  "u \<le> length a \<Longrightarrow> foldl (\<lambda>a j. a[j := 0]) a [l..<u] =
    map (\<lambda>j. if l \<le> j \<and> j < u then 0 else a ! j) [0..<length a]"
proof (induction u)
  case 0
  then show ?case by (simp add: map_nth)
next
  case (Suc u)
  then show ?case
    by (cases "l \<le> u") (auto intro!: nth_equalityI simp: nth_list_update less_Suc_eq)
qed

lemma expandZeros_eq:
  assumes "i < 8" "c < i" "length addr = 8"
  shows "IPAddress_expandZeros i c addr =
    take (c + 1) addr @ replicate (8 - i) 0 @ take (i - c - 1) (drop (c + 1) addr)"
proof -
  let ?e = "8 - i"
  let ?l = "c + ?e + 1"
  define a1 where "a1 = map (\<lambda>j. if ?l \<le> j \<and> j < 8 then addr ! (j - ?e) else addr ! j) [0..<8]"
  have "foldl (\<lambda>a j. a[j := a ! (j - ?e)]) addr (rev [?l..<8]) = a1"
    using foldl_shift [of ?e ?l 8 addr] assms by (simp add: a1_def)
  then have "IPAddress_expandZeros i c addr = foldl (\<lambda>a j. a[j := 0]) a1 [c + 1..<?l]"
    by (simp add: IPAddress_expandZeros_def)
  also have "\<dots> = map (\<lambda>j. if c + 1 \<le> j \<and> j < ?l then 0 else a1 ! j) [0..<8]"
    using assms by (subst foldl_clear) (auto simp: a1_def)
  also have "\<dots> = map (\<lambda>j. if c + 1 \<le> j \<and> j < ?l then 0
      else if ?l \<le> j then addr ! (j - ?e) else addr ! j) [0..<8]"
    by (rule map_cong) (auto simp: a1_def)
  also have "\<dots> = take (c + 1) addr @ replicate ?e 0 @ take (i - c - 1) (drop (c + 1) addr)"
    using assms
    by (intro nth_equalityI) (auto simp: nth_append add.commute intro!: arg_cong [of _ _ "nth addr"])
  finally show ?thesis .
qed

section \<open>The run of zeros\<close>

text \<open>
  The state of the search at index \<open>i\<close>: the best run so far and the current run consist of
  zero bytes, start at even offsets and the best run is longer than one field.
\<close>

definition zero_run :: "byte list \<Rightarrow> nat \<Rightarrow> nat \<Rightarrow> bool" where
  "zero_run addr f l \<longleftrightarrow> even f \<and> even l \<and> f + 2 < l \<and> (\<forall>k. f \<le> k \<longrightarrow> k < l \<longrightarrow> addr ! k = 0)"

definition search_inv :: "byte list \<Rightarrow> nat \<Rightarrow> nat \<Rightarrow> nat \<Rightarrow> nat \<Rightarrow> nat \<Rightarrow> int \<Rightarrow> bool" where
  "search_inv addr len i lb le lg gb \<longleftrightarrow>
     even i \<and> i \<le> len \<and> 2 \<le> lg \<and> (lb = 0 \<and> le = 0 \<or> zero_run addr lb le \<and> le \<le> i) \<and>
     (0 \<le> gb \<longrightarrow> even (nat gb) \<and> nat gb < i \<and> (\<forall>k. nat gb \<le> k \<longrightarrow> k < i \<longrightarrow> addr ! k = 0))"

lemma findZeros_inv:
  "findZeros addr len i lb le lg gb = (lb', le', lg', gb') \<Longrightarrow> search_inv addr len i lb le lg gb \<Longrightarrow>
    even len \<Longrightarrow> search_inv addr len len lb' le' lg' gb'"
proof (induction addr len i lb le lg gb rule: findZeros.induct)
  case (1 addr len i lb le lg gb)
  show ?case
  proof (cases "i < len")
    case False
    then have "i = len" using 1 by (simp add: search_inv_def)
    then show ?thesis using 1 findZeros.simps [of addr len len lb le lg gb] by simp
  next
    case True
    have "even i" using 1(6) by (simp add: search_inv_def)
    with True 1(7) have i: "i + 2 \<le> len" by presburger
    note res = 1(5) [unfolded findZeros.simps [of addr len i lb le lg gb]]
    show ?thesis
    proof (cases "addr ! i = 0 \<and> addr ! (i + 1) = 0")
      case zero: True
      have "search_inv addr len (i + 2) lb le lg (if gb < 0 then int i else gb)"
        using 1(6) i zero by (auto simp: search_inv_def less_Suc_eq)
      then show ?thesis using 1(1) [OF True zero] res True zero 1(7) by simp
    next
      case nz: False
      show ?thesis
      proof (cases "0 \<le> gb")
        case gb: True
        show ?thesis
        proof (cases "i - nat gb > lg")
          case True
          have "search_inv addr len (i + 2) (nat gb) i (i - nat gb) (- 1)"
            using 1(6) i gb True by (auto simp: search_inv_def zero_run_def)
          then show ?thesis using 1(2) [OF \<open>i < len\<close> nz gb True] res True \<open>i < len\<close> nz gb 1(7) by auto
        next
          case False
          have "search_inv addr len (i + 2) lb le lg (- 1)"
            using 1(6) i by (auto simp: search_inv_def)
          then show ?thesis using 1(3) [OF \<open>i < len\<close> nz gb False] res False \<open>i < len\<close> nz gb 1(7) by auto
        qed
      next
        case gb: False
        have "search_inv addr len (i + 2) lb le lg gb"
          using 1(6) i gb by (auto simp: search_inv_def)
        then show ?thesis using 1(4) [OF True nz gb] res True nz gb 1(7) by auto
      qed
    qed
  qed
qed

lemma findLongestZeroGroup_run:
  assumes "findLongestZeroGroup addr len = (f, l)" "even len"
  shows "f = 0 \<and> l = 0 \<or> zero_run addr f l \<and> l \<le> len"
proof -
  obtain lb le lg gb where r: "findZeros addr len 0 0 0 2 (- 1) = (lb, le, lg, gb)"
    by (metis prod_cases4)
  have "search_inv addr len 0 0 0 2 (- 1)" by (simp add: search_inv_def)
  then have "search_inv addr len len lb le lg gb" using findZeros_inv [OF r] assms(2) by blast
  then show ?thesis
    using assms r by (auto simp: findLongestZeroGroup_def search_inv_def zero_run_def split: if_splits)
qed

section \<open>The groups of a formatted address\<close>

definition lead :: "string list \<Rightarrow> string" where
  "lead gs = concat (map (\<lambda>g. CHR '':'' # g) gs)"

lemma lead_simps [simp]: "lead [] = []" "lead (g # gs) = CHR '':'' # g @ lead gs"
    "lead (gs @ hs) = lead gs @ lead hs"
  by (simp_all add: lead_def)

lemma split_lead:
  "CHR '':'' \<notin> set x \<Longrightarrow> (\<And>g. g \<in> set gs \<Longrightarrow> CHR '':'' \<notin> set g) \<Longrightarrow> split_on CHR '':'' (x @ lead gs) = x # gs"
  by (induction gs arbitrary: x) (simp_all add: split_on_no_sep split_on_append)

definition hex_fields :: "bool \<Rightarrow> u16 list \<Rightarrow> string list" where
  "hex_fields u vs = map (\<lambda>v. format_uint 16 u (unat v)) vs"

lemma hex_fields_seps:
  assumes "g \<in> set (hex_fields u vs)"
  shows "CHR '':'' \<notin> set g" "CHR ''%'' \<notin> set g"
  using assms format_uint_digits [of 16 _ u] by (force simp: hex_fields_def)+

lemma format_fields_eq:
  assumes "p \<le> q" "q \<le> 8"
  shows "format_fields u (toBytes16 a) (2 * p) (2 * q) =
    (if p = 0 then (case hex_fields u (take q (ip_fields a)) of [] \<Rightarrow> [] | g # gs \<Rightarrow> g @ lead gs)
     else lead (hex_fields u (drop p (take q (ip_fields a)))))"
proof -
  let ?h = "\<lambda>k. format_uint 16 u (unat (ip_fields a ! k))"
  have n: "(2 * q - 2 * p + 1) div 2 = q - p" using assms by simp
  have "format_fields u (toBytes16 a) (2 * p) (2 * q) =
      concat (map (\<lambda>k. (if p + k \<noteq> 0 then '':'' else []) @ ?h (p + k)) [0..<q - p])"
    unfolding format_fields_def n Let_def
  proof (rule arg_cong [of _ _ concat], rule map_cong)
    fix k
    assume "k \<in> set [0..<q - p]"
    then have "format_field u (toBytes16 a) (2 * (p + k)) = ?h (p + k)"
      using assms by (intro format_field_eq) auto
    then show "(if 2 * p + 2 * k \<noteq> 0 then '':'' else []) @ format_field u (toBytes16 a) (2 * p + 2 * k) =
        (if p + k \<noteq> 0 then '':'' else []) @ ?h (p + k)"
      by (simp add: distrib_left)
  qed simp
  moreover have "hex_fields u (drop p (take q (ip_fields a))) = map (\<lambda>k. ?h (p + k)) [0..<q - p]"
    using assms by (intro nth_equalityI) (auto simp: hex_fields_def)
  moreover have "map (\<lambda>k. ?h k) [0..<q] = ?h 0 # map ?h [Suc 0..<q]" if "0 < q"
    using that by (simp add: upt_conv_Cons)
  moreover have "concat (map (\<lambda>k. (if k \<noteq> 0 then '':'' else []) @ ?h k) [Suc 0..<q]) =
      concat (map (\<lambda>k. CHR '':'' # ?h k) [Suc 0..<q])"
    by (intro arg_cong [of _ _ concat] map_cong) auto
  ultimately show ?thesis
    by (cases "p = 0"; cases "q = 0") (simp_all add: lead_def comp_def upt_conv_Cons)
qed

text \<open>The array while groups are read: the fields so far, then zeros.\<close>

definition pad :: "u16 list \<Rightarrow> u16 list" where
  "pad A = A @ replicate (8 - length A) 0"

lemma length_pad [simp]: "length A \<le> 8 \<Longrightarrow> length (pad A) = 8"
  by (simp add: pad_def)

lemma overwrite_pad:
  "length A + length B \<le> 8 \<Longrightarrow> overwrite (pad A) (length A) B = pad (A @ B)"
  by (simp add: overwrite_def pad_def)

lemma update_pad: "length A < 8 \<Longrightarrow> (pad A)[length A := v] = pad (A @ [v])"
proof -
  assume "length A < 8"
  then obtain m where "8 - length A = Suc m" by (metis Suc_diff_Suc)
  moreover from this have "8 - Suc (length A) = m" by simp
  ultimately show "(pad A)[length A := v] = pad (A @ [v])" by (simp add: pad_def list_update_append)
qed

lemma parse_hex_groups:
  assumes "length A + length vs \<le> 8"
  shows "IPAddress_parseGroups s z (length A) c (pad A) (hex_fields u vs @ gs) =
    IPAddress_parseGroups s z (length (A @ map byteswapBE vs)) c (pad (A @ map byteswapBE vs)) gs"
  using parseGroups_hex [of "length A" vs "pad A"] assms
  by (simp add: hex_fields_def overwrite_pad)

lemma parse_empty_group:
  assumes "length A < 8" "c < 0 \<or> c = 0 \<and> (length A = 1 \<or> length A = 2) \<or> c = 1 \<and> length A = 2"
  shows "IPAddress_parseGroups s z (length A) c (pad A) ([] # gs) =
    IPAddress_parseGroups s z (length (A @ [0])) (int (length A)) (pad (A @ [0])) gs"
  using assms by (auto simp: update_pad)

lemma parse_embedded:
  fixes lo :: u64
  assumes "1 \<le> length A" "length A \<le> 6"
  defines "T \<equiv> map byteswapBE [ucast (drop_bit 16 (ucast lo :: u32) AND 0xffff), ucast ((ucast lo :: u32) AND 0xffff)]"
  shows "IPAddress_parseGroups s z (length A) c (pad A) [formatIPv4 lo] =
    Inr (Inr (length (A @ T), c, pad (A @ T)))"
proof -
  have "(pad A)[length A := x, Suc (length A) := y] = pad (A @ [x, y])" for x y
    using update_pad [of A x] update_pad [of "A @ [x]" y] assms by simp
  then show ?thesis
    using assms length_formatIPv4 [of lo] by (auto simp: parseIPv4_format Let_def)
qed

lemma expand_pad:
  assumes "length A \<le> 8" "c < length A"
  shows "(if length A < 8 then IPAddress_expandZeros (length A) c (pad A) else pad A) =
    take (c + 1) A @ replicate (8 - length A) 0 @ drop (c + 1) A"
proof (cases "length A < 8")
  case True
  then show ?thesis using assms by (simp add: expandZeros_eq) (simp add: pad_def)
next
  case False
  then have "length A = 8" using assms by simp
  then show ?thesis by (simp add: pad_def)
qed

section \<open>The default form\<close>

lemma ip_fields_nth:
  assumes "k < 4"
  shows "ip_fields a ! k = ucast (drop_bit (16 * (3 - k)) (m_hi a))"
    and "ip_fields a ! (4 + k) = ucast (drop_bit (16 * (3 - k)) (m_lo a))"
proof -
  have field: "(load_be [store_be 8 w ! (2 * k), store_be 8 w ! (2 * k + 1)] :: u16) =
      ucast (drop_bit (16 * (3 - k)) w)" for w :: u64
  proof (rule bit_word_eqI)
    fix i
    assume i: "i < LENGTH(16)"
    have n: "2 * k < 8" "2 * k + 1 < 8" "8 * (8 - 1 - 2 * k) = 16 * (3 - k) + 8"
        "8 * (8 - 1 - (2 * k + 1)) = 16 * (3 - k)"
      using assms by auto
    show "bit (load_be [store_be 8 w ! (2 * k), store_be 8 w ! (2 * k + 1)] :: u16) i =
        bit (ucast (drop_bit (16 * (3 - k)) w) :: u16) i"
    proof (cases "i < 8")
      case True
      then show ?thesis
        using i n by (simp add: bit_load_be bit_nth_store_be bit_ucast_iff bit_drop_bit_eq
            del: mult_Suc_right)
    next
      case False
      then obtain j where "i = 8 + j" "j < 8" using i le_Suc_ex [of 8 i] by auto
      then show ?thesis
        using n by (simp add: bit_load_be bit_nth_store_be bit_ucast_iff bit_drop_bit_eq add.assoc
            del: mult_Suc_right)
    qed
  qed
  show "ip_fields a ! k = ucast (drop_bit (16 * (3 - k)) (m_hi a))"
    using assms field [of "m_hi a"] by (simp add: ip_fields_def toBytes16_store nth_append)
  show "ip_fields a ! (4 + k) = ucast (drop_bit (16 * (3 - k)) (m_lo a))"
    using assms field [of "m_lo a"] by (simp add: ip_fields_def toBytes16_store nth_append)
qed

lemma ip_fields_67:
  "drop 6 (ip_fields a) = [ucast (drop_bit 16 (ucast (m_lo a) :: u32) AND 0xffff),
     ucast ((ucast (m_lo a) :: u32) AND 0xffff)]"
proof -
  have m: "(0xffff :: u32) = mask 16" by (simp add: mask_eq_exp_minus_1)
  have "drop 6 (ip_fields a) = [ip_fields a ! (4 + 2), ip_fields a ! (4 + 3)]"
    by (rule nth_equalityI) (auto simp: less_Suc_eq numeral_eq_Suc)
  moreover have "ucast (drop_bit 16 (m_lo a)) = (ucast (drop_bit 16 (ucast (m_lo a) :: u32) AND 0xffff) :: u16)"
      "ucast (m_lo a) = (ucast ((ucast (m_lo a) :: u32) AND 0xffff) :: u16)"
    unfolding m
    by (rule bit_word_eqI; auto simp: bit_ucast_iff bit_and_iff bit_mask_iff bit_drop_bit_eq)+
  ultimately show ?thesis
    using ip_fields_nth(2) [of 2 a] ip_fields_nth(2) [of 3 a] by simp
qed

definition shown_fields :: "IPAddress \<Rightarrow> nat" where
  "shown_fields a = (if is4in6 a \<or> isScion4 a then 6 else 8)"

definition ip_tail :: "IPAddress \<Rightarrow> string list" where
  "ip_tail a = (if is4in6 a \<or> isScion4 a then [formatIPv4 (m_lo a)] else [])"

lemma shown_6_field:
  assumes "shown_fields a = 6"
  shows "ip_fields a ! 5 \<noteq> 0"
proof -
  have "drop_bit 32 (m_lo a) = 0xffff"
    using assms
    by (auto simp: shown_fields_def is4in6_def isScion4_def classifyScionMappedIP_def Let_def getIPv6_def
        split: if_splits)
  then show ?thesis using ip_fields_nth(2) [of 1 a] by simp
qed

lemma ip_tail_seps:
  assumes "g \<in> set (ip_tail a)"
  shows "CHR '':'' \<notin> set g" "CHR ''%'' \<notin> set g"
  using assms by (auto simp: ip_tail_def split: if_splits)

text \<open>Reading the fields from the \<open>q\<close>-th on, the embedded IPv4 address included.\<close>

lemma parse_rest:
  assumes "q \<le> shown_fields a" "length A + (8 - q) \<le> 8" "ip_tail a \<noteq> [] \<longrightarrow> 1 \<le> length A \<or> q < 6"
  defines "F \<equiv> map byteswapBE (drop q (ip_fields a))"
  shows "IPAddress_parseGroups s z (length A) c (pad A)
      (hex_fields u (drop q (take (shown_fields a) (ip_fields a))) @ ip_tail a) =
    Inr (Inr (length (A @ F), c, pad (A @ F)))"
proof (cases "ip_tail a = []")
  case True
  then have "shown_fields a = 8" by (auto simp: ip_tail_def shown_fields_def split: if_splits)
  then show ?thesis
    using assms(1,2) parse_hex_groups [of A "drop q (ip_fields a)" s z c u "[]"] True
    by (simp add: F_def)
next
  case False
  then have six: "shown_fields a = 6" and tl: "ip_tail a = [formatIPv4 (m_lo a)]"
    by (auto simp: ip_tail_def shown_fields_def split: if_splits)
  let ?V = "drop q (take 6 (ip_fields a))"
  have "drop q (take 6 (ip_fields a) @ drop 6 (ip_fields a)) = ?V @ drop 6 (ip_fields a)"
    unfolding drop_append using assms(1) six by simp
  then have "drop q (ip_fields a) = ?V @ drop 6 (ip_fields a)" by simp
  moreover have "length A + length ?V \<le> 8" "1 \<le> length (A @ map byteswapBE ?V)"
      "length (A @ map byteswapBE ?V) \<le> 6"
    using assms(1-3) six False by auto
  ultimately show ?thesis
    using six tl parse_hex_groups [of A ?V s z c u "[formatIPv4 (m_lo a)]"]
      parse_embedded [of "A @ map byteswapBE ?V" s z c "m_lo a"]
    by (simp add: F_def ip_fields_67 del: IPAddress_parseGroups.simps)
qed

text \<open>The first and the end field of the run of zeros that is left out, or 0 and 0.\<close>

definition left_out :: "IPAddress \<Rightarrow> bool \<Rightarrow> nat \<times> nat" where
  "left_out a long =
     (if long then (0, 0)
      else case findLongestZeroGroup (toBytes16 a) (2 * shown_fields a) of (f, l) \<Rightarrow> (f div 2, l div 2))"

lemma left_out_run:
  assumes "left_out a long = (p, q)"
  shows "(if long then (0, 0) else findLongestZeroGroup (toBytes16 a) (2 * shown_fields a)) = (2 * p, 2 * q)"
    and "q \<le> shown_fields a" "ip_tail a \<noteq> [] \<Longrightarrow> q < 6"
    and "p = 0 \<and> q = 0 \<or> p + 1 < q \<and> (\<forall>k. p \<le> k \<longrightarrow> k < q \<longrightarrow> ip_fields a ! k = 0)"
proof -
  have n: "shown_fields a \<le> 8" by (simp add: shown_fields_def)
  obtain f l where fl: "(if long then (0, 0) else findLongestZeroGroup (toBytes16 a) (2 * shown_fields a)) = (f, l)"
    by fastforce
  have run: "f = 0 \<and> l = 0 \<or> zero_run (toBytes16 a) f l \<and> l \<le> 2 * shown_fields a"
    using fl findLongestZeroGroup_run [of "toBytes16 a" "2 * shown_fields a" f l]
    by (auto split: if_splits)
  have pq: "p = f div 2" "q = l div 2" using assms fl by (auto simp: left_out_def split: if_splits)
  have even: "even f" "even l" using run by (auto simp: zero_run_def)
  then have eqs: "f = 2 * p" "l = 2 * q" using pq by simp_all
  show "(if long then (0, 0) else findLongestZeroGroup (toBytes16 a) (2 * shown_fields a)) = (2 * p, 2 * q)"
    using fl eqs by simp
  show q: "q \<le> shown_fields a" using run eqs by auto
  show zeros: "p = 0 \<and> q = 0 \<or> p + 1 < q \<and> (\<forall>k. p \<le> k \<longrightarrow> k < q \<longrightarrow> ip_fields a ! k = 0)"
  proof (cases "f = 0 \<and> l = 0")
    case False
    then have z: "f + 2 < l" "\<And>k. f \<le> k \<Longrightarrow> k < l \<Longrightarrow> toBytes16 a ! k = 0"
      using run by (auto simp: zero_run_def)
    have "ip_fields a ! k = 0" if "p \<le> k" "k < q" for k
      using z(2) [of "2 * k"] z(2) [of "2 * k + 1"] that eqs q n field_eq_0 [of k a] by simp
    then show ?thesis using z(1) eqs by simp
  qed (use eqs in auto)
  show "q < 6" if "ip_tail a \<noteq> []"
  proof -
    have six: "shown_fields a = 6" using that by (auto simp: ip_tail_def shown_fields_def split: if_splits)
    then show ?thesis using zeros q shown_6_field [OF six]
      by (cases "q = 6") (auto dest: spec [of _ 5])
  qed
qed

lemma hex_fields_simps [simp]:
  "hex_fields u [] = []" "hex_fields u (v # vs) = format_uint 16 u (unat v) # hex_fields u vs"
  "length (hex_fields u vs) = length vs" "hex_fields u vs = [] \<longleftrightarrow> vs = []"
  by (simp_all add: hex_fields_def)

lemma formatted_groups:
  assumes a: "is6 a" and pq: "left_out a long = (p, q)"
  shows "\<exists>x gs. IPAddress_formatTo a long u = x @ lead gs @ (if zone a \<noteq> [] then CHR ''%'' # zone a else []) \<and>
    x # gs = (if q = 0 then hex_fields u (take (shown_fields a) (ip_fields a)) @ ip_tail a
      else (if p = 0 then [[]] else hex_fields u (take p (ip_fields a))) @ [] #
        (if q = 8 then [[]]
         else hex_fields u (drop q (take (shown_fields a) (ip_fields a))) @ ip_tail a))"
proof -
  note run = left_out_run [OF pq]
  let ?n = "shown_fields a" and ?b = "toBytes16 a"
  let ?z = "if zone a \<noteq> [] then CHR ''%'' # zone a else []"
  have n: "?n \<le> 8" "0 < ?n" by (simp_all add: shown_fields_def)
  have tail: "(if 2 * ?n = 12 then '':'' @ formatIPv4 (m_lo a) else []) = lead (ip_tail a)"
    by (simp add: ip_tail_def shown_fields_def)
  have len: "(if is4in6 a \<or> isScion4 a then 12 else 16) = 2 * ?n" by (simp add: shown_fields_def)
  have run': "(if \<not> long then findLongestZeroGroup ?b (2 * ?n) else (0, 0)) = (2 * p, 2 * q)"
    using run(1) by (cases long) simp_all
  have fmt: "IPAddress_formatTo a long u = format_fields u ?b (2 * 0) (2 * p) @
      (if q > p then '':'' else []) @ format_fields u ?b (2 * q) (2 * ?n) @
      (if q = ?n then '':'' else []) @ lead (ip_tail a) @ ?z"
    unfolding IPAddress_formatTo_def Let_def len run' tail using a by (simp add: is4_is6)
  show ?thesis
  proof (cases "q = 0")
    case True
    then have "p = 0" using run(4) by auto
    have "take ?n (ip_fields a) \<noteq> []" using n by simp
    then obtain v vs where v: "take ?n (ip_fields a) = v # vs" by (cases "take ?n (ip_fields a)") auto
    then have "IPAddress_formatTo a long u =
        format_uint 16 u (unat v) @ lead (hex_fields u vs @ ip_tail a) @ ?z"
      using fmt True \<open>p = 0\<close> n format_fields_eq [of 0 ?n u a] format_fields_eq [of 0 0 u a] by simp
    then show ?thesis using True v by auto
  next
    case False
    then have pq': "p + 1 < q" using run(4) by auto
    let ?pre = "if p = 0 then [[]] else hex_fields u (take p (ip_fields a))"
    let ?post = "if q = 8 then [[]] else hex_fields u (drop q (take ?n (ip_fields a))) @ ip_tail a"
    obtain x gs where x: "?pre = x # gs" "format_fields u ?b (2 * 0) (2 * p) = x @ lead gs"
    proof (cases "p = 0")
      case True
      then show thesis using that [of "[]" "[]"] format_fields_eq [of 0 0 u a] by simp
    next
      case False
      then have "take p (ip_fields a) \<noteq> []" by simp
      then obtain v vs where "take p (ip_fields a) = v # vs" by (cases "take p (ip_fields a)") auto
      then show thesis
        using that [of "format_uint 16 u (unat v)" "hex_fields u vs"] False pq' run(2) n
          format_fields_eq [of 0 p u a] by simp
    qed
    have "'':'' @ format_fields u ?b (2 * q) (2 * ?n) @ (if q = ?n then '':'' else []) @ lead (ip_tail a) =
        lead ([] # ?post)"
    proof (cases "q = 8")
      case True
      then have "?n = 8" "ip_tail a = []" using run(2,3) n by auto
      then show ?thesis using True format_fields_eq [of 8 8 u a] by simp
    next
      case False
      moreover have "q \<noteq> ?n" using False run(3) by (auto simp: ip_tail_def shown_fields_def split: if_splits)
      ultimately show ?thesis using format_fields_eq [of q ?n u a] run(2) n \<open>q \<noteq> 0\<close> by simp
    qed
    then have "IPAddress_formatTo a long u = x @ lead (gs @ [] # ?post) @ ?z"
      using fmt x(2) pq' by simp
    then show ?thesis using x(1) False by (intro exI [of _ x] exI [of _ "gs @ [] # ?post"]) simp
  qed
qed

text \<open>What \<open>Parse\<close> makes of the result of its loop.\<close>

definition parse_finish :: "string \<Rightarrow> (IPAddress + nat \<times> int \<times> u16 list) maybe \<Rightarrow> IPAddress maybe" where
  "parse_finish z m = maybe_bind m (\<lambda>r.
     case r of
       Inl ipv4 \<Rightarrow> Inr ipv4
     | Inr (i, collapsedGroup, addr) \<Rightarrow>
         if i < 8 \<and> collapsedGroup < 0 then Inl SyntaxError
         else
           let addr = (if i < 8 then IPAddress_expandZeros i (nat collapsedGroup) addr else addr)
           in Inr (MakeIPv6_bytes (concat (map (store_le 2) addr)) z))"

lemma Parse_body:
  assumes "CHR ''%'' \<notin> set body" "body \<noteq> []"
  shows "IPAddress_Parse (body @ (if z \<noteq> [] then CHR ''%'' # z else [])) noZone =
    (if noZone \<and> z \<noteq> [] then Inl RequiresZone
     else parse_finish z (IPAddress_parseGroups body z 0 (- 1) (pad []) (split_on CHR '':'' body)))"
proof -
  have none: "find_char CHR ''%'' body = None" using assms(1) by (simp add: find_char_None)
  show ?thesis
  proof (cases "z = []")
    case True
    show ?thesis
      unfolding IPAddress_Parse_def parse_finish_def Let_def True
      using assms(2) none by (simp add: pad_def)
  next
    case False
    have d: "drop (length body + 1) (body @ CHR ''%'' # z) = z" by simp
    show ?thesis
      unfolding IPAddress_Parse_def parse_finish_def Let_def if_P [OF False]
        find_char_append [OF assms(1)] option.case d
      using False by (simp add: pad_def)
  qed
qed

lemma parse_finish_fields:
  assumes "is6 a" "length A \<le> 8" "length A = 8 \<or> 0 \<le> c" "c < int (length A)"
    and "(if 0 \<le> c then take (nat c + 1) A @ replicate (8 - length A) 0 @ drop (nat c + 1) A else A) =
      map byteswapBE (ip_fields a)"
  shows "parse_finish (zone a) (Inr (Inr (length A, c, pad A))) = Inr a"
proof -
  have "(if length A < 8 then IPAddress_expandZeros (length A) (nat c) (pad A) else pad A) =
      map byteswapBE (ip_fields a)"
  proof (cases "0 \<le> c")
    case True
    then show ?thesis using expand_pad [of A "nat c"] assms(2,4,5) by simp
  next
    case False
    then show ?thesis using assms(3,5) by (simp add: pad_def)
  qed
  then show ?thesis
    using assms(1,3) MakeIPv6_fields [OF assms(1)] by (auto simp: parse_finish_def simp del: map_map)
qed

lemma byteswapBE_0 [simp]: "byteswapBE (0 :: u16) = 0"
  by (simp add: byteswapBE_def store_le_def store_be_def load_be_def upt_rec)

lemma fields_split:
  assumes "p < q" "q \<le> 8" "\<forall>k. p \<le> k \<longrightarrow> k < q \<longrightarrow> ip_fields a ! k = 0"
  shows "map byteswapBE (ip_fields a) =
    map byteswapBE (take p (ip_fields a)) @ replicate (q - p) 0 @ map byteswapBE (drop q (ip_fields a))"
proof -
  have "ip_fields a = take p (ip_fields a) @ replicate (q - p) 0 @ drop q (ip_fields a)"
    using assms by (intro nth_equalityI) (auto simp: nth_append)
  then show ?thesis by (metis map_append map_replicate byteswapBE_0)
qed

text \<open>The three shapes of the text: no run left out, a run at the start, a run after \<open>p\<close> fields.\<close>

lemma parse_groups_all:
  assumes "is6 a"
  shows "parse_finish (zone a) (IPAddress_parseGroups s (zone a) 0 (- 1) (pad [])
    (hex_fields u (take (shown_fields a) (ip_fields a)) @ ip_tail a)) = Inr a"
  using parse_rest [of 0 a "[]" s "zone a" "- 1" u]
    parse_finish_fields [of a "map byteswapBE (ip_fields a)" "- 1"] assms
  by (simp add: ip_tail_def shown_fields_def)

lemma parse_groups_start:
  assumes a: "is6 a" and q: "1 < q" "q \<le> shown_fields a" "ip_tail a \<noteq> [] \<Longrightarrow> q < 6"
    and zero: "\<forall>k. 0 \<le> k \<longrightarrow> k < q \<longrightarrow> ip_fields a ! k = 0"
  shows "parse_finish (zone a) (IPAddress_parseGroups s (zone a) 0 (- 1) (pad [])
    ([] # [] # (if q = 8 then [[]]
       else hex_fields u (drop q (take (shown_fields a) (ip_fields a))) @ ip_tail a))) = Inr a"
proof -
  have q8: "q \<le> 8" using q(2) by (auto simp: shown_fields_def split: if_splits)
  note F = fields_split [OF _ q8 zero, simplified]
  have two: "IPAddress_parseGroups s (zone a) 0 (- 1) (pad []) ([] # [] # gs) =
      IPAddress_parseGroups s (zone a) (length [0, 0 :: u16]) 1 (pad [0, 0]) gs" for gs
    using parse_empty_group [of "[]" "- 1" s "zone a" "[] # gs"]
      parse_empty_group [of "[0]" 0 s "zone a" gs]
    by (simp del: IPAddress_parseGroups.simps)
  show ?thesis
  proof (cases "q = 8")
    case True
    then have "map byteswapBE (ip_fields a) = replicate 8 0" using F by simp
    then show ?thesis
      using True two parse_empty_group [of "[0, 0]" 1 s "zone a" "[]"]
        parse_finish_fields [OF a, of "[0, 0, 0]" 2] q
      by (simp add: numeral_eq_Suc del: IPAddress_parseGroups.simps(2))
  next
    case False
    let ?A = "[0, 0] @ map byteswapBE (drop q (ip_fields a))"
    have "parse_finish (zone a) (Inr (Inr (length ?A, 1, pad ?A))) = Inr a"
    proof (rule parse_finish_fields [OF a])
      obtain m where "q = Suc (Suc m)" using q(1) by (cases q; cases "q - 1") auto
      then have "replicate q (0 :: u16) = [0, 0] @ replicate (q - 2) 0" by simp
      then show "(if 0 \<le> (1 :: int) then take (nat 1 + 1) ?A @ replicate (8 - length ?A) 0 @ drop (nat 1 + 1) ?A
          else ?A) = map byteswapBE (ip_fields a)"
        using F q(1) q8 by simp
    qed (use q8 q(1) in auto)
    moreover have "length [0, 0 :: u16] + (8 - q) \<le> 8" using q(1) q8 by simp
    ultimately show ?thesis
      using parse_rest [of q a "[0, 0]" s "zone a" 1 u] q(2)
      by (simp only: two if_not_P [OF False]) simp
  qed
qed

lemma parse_groups_middle:
  assumes a: "is6 a" and q: "0 < p" "p + 1 < q" "q \<le> shown_fields a" "ip_tail a \<noteq> [] \<Longrightarrow> q < 6"
    and zero: "\<forall>k. p \<le> k \<longrightarrow> k < q \<longrightarrow> ip_fields a ! k = 0"
  shows "parse_finish (zone a) (IPAddress_parseGroups s (zone a) 0 (- 1) (pad [])
    (hex_fields u (take p (ip_fields a)) @ [] # (if q = 8 then [[]]
       else hex_fields u (drop q (take (shown_fields a) (ip_fields a))) @ ip_tail a))) =
    (if q = 8 \<and> 1 < p then Inl SyntaxError else Inr a)"
proof -
  have q8: "q \<le> 8" using q(3) by (auto simp: shown_fields_def split: if_splits)
  have F: "map byteswapBE (ip_fields a) =
      map byteswapBE (take p (ip_fields a)) @ replicate (q - p) 0 @ map byteswapBE (drop q (ip_fields a))"
    using fields_split [OF _ q8 zero] q(2) by simp
  let ?P = "map byteswapBE (take p (ip_fields a))"
  have lenP: "length ?P = p" using q q8 by simp
  have pre: "IPAddress_parseGroups s (zone a) 0 (- 1) (pad []) (hex_fields u (take p (ip_fields a)) @ [] # gs) =
      IPAddress_parseGroups s (zone a) (length (?P @ [0])) (int p) (pad (?P @ [0])) gs" for gs
    using parse_hex_groups [of "[]" "take p (ip_fields a)" s "zone a" "- 1" u "[] # gs"]
      parse_empty_group [of ?P "- 1" s "zone a" gs] q q8 lenP
    by (simp del: IPAddress_parseGroups.simps)
  show ?thesis
  proof (cases "q = 8")
    case True
    show ?thesis
    proof (cases "p = 1")
      case False
      then show ?thesis using True pre [of "[[]]"] lenP q by (simp add: parse_finish_def)
    next
      case p1: True
      then obtain x where P: "?P = [x]" using lenP by (metis length_0_conv length_Suc_conv One_nat_def)
      then show ?thesis
        using True p1 pre parse_empty_group [of "[x, 0]" 1 s "zone a" "[]"] F
          parse_finish_fields [OF a, of "[x, 0, 0]" 2]
        by (simp add: numeral_eq_Suc del: IPAddress_parseGroups.simps(2))
    qed
  next
    case False
    let ?A = "?P @ [0] @ map byteswapBE (drop q (ip_fields a))"
    have "parse_finish (zone a) (Inr (Inr (length ?A, int p, pad ?A))) = Inr a"
    proof (rule parse_finish_fields [OF a])
      have "replicate (q - p) (0 :: u16) = [0] @ replicate (q - p - 1) 0"
        using q(2) by (cases "q - p") auto
      then show "(if 0 \<le> int p then take (nat (int p) + 1) ?A @ replicate (8 - length ?A) 0 @
          drop (nat (int p) + 1) ?A else ?A) = map byteswapBE (ip_fields a)"
        using F q(2) q8 lenP by simp
    qed (use q8 q(1,2) lenP in auto)
    moreover have "length (?P @ [0]) + (8 - q) \<le> 8" using q(2) q8 lenP by simp
    moreover have "ip_tail a \<noteq> [] \<longrightarrow> 1 \<le> length (?P @ [0]) \<or> q < 6" by simp
    ultimately show ?thesis
      using parse_rest [of q a "?P @ [0]" s "zone a" "int p" u] q(3) False
      by (simp only: pre if_not_P [OF False] append_assoc) simp
  qed
qed

lemma Parse_format_IPv6:
  assumes a: "is6 a" and pq: "left_out a long = (p, q)"
  shows "IPAddress_Parse (IPAddress_formatTo a long u) noZone =
    (if noZone \<and> zone a \<noteq> [] then Inl RequiresZone
     else if q = 8 \<and> 1 < p then Inl SyntaxError else Inr a)"
proof -
  note run = left_out_run [OF pq]
  have n: "shown_fields a \<le> 8" "0 < shown_fields a" by (simp_all add: shown_fields_def)
  obtain x gs where t: "IPAddress_formatTo a long u = x @ lead gs @ (if zone a \<noteq> [] then CHR ''%'' # zone a else [])"
    and xg: "x # gs = (if q = 0 then hex_fields u (take (shown_fields a) (ip_fields a)) @ ip_tail a
      else (if p = 0 then [[]] else hex_fields u (take p (ip_fields a))) @ [] #
        (if q = 8 then [[]]
         else hex_fields u (drop q (take (shown_fields a) (ip_fields a))) @ ip_tail a))"
    using formatted_groups [OF a pq, of u] by blast
  have seps: "CHR '':'' \<notin> set g" "CHR ''%'' \<notin> set g" if "g \<in> set (x # gs)" for g
    using that hex_fields_seps [of g u] ip_tail_seps [of g a] unfolding xg by (auto split: if_splits)
  have nopc: "CHR ''%'' \<notin> set (x @ lead gs)"
    using seps(2) by (auto simp: lead_def)
  have body: "x @ lead gs \<noteq> []"
  proof -
    have "shown_fields a \<noteq> 1" by (simp add: shown_fields_def)
    then have "length (x # gs) \<noteq> 1" unfolding xg using n by auto
    then show ?thesis by (cases gs) auto
  qed
  have split: "split_on CHR '':'' (x @ lead gs) = x # gs"
    by (rule split_lead) (use seps(1) in auto)
  have "IPAddress_Parse (IPAddress_formatTo a long u) noZone =
    (if noZone \<and> zone a \<noteq> [] then Inl RequiresZone
     else parse_finish (zone a) (IPAddress_parseGroups (x @ lead gs) (zone a) 0 (- 1) (pad []) (x # gs)))"
    unfolding t using Parse_body [OF nopc body, of "zone a" noZone] by (simp add: split)
  moreover have "parse_finish (zone a) (IPAddress_parseGroups (x @ lead gs) (zone a) 0 (- 1) (pad []) (x # gs)) =
      (if q = 8 \<and> 1 < p then Inl SyntaxError else Inr a)"
  proof -
    consider "p = 0" "q = 0" | "p = 0" "1 < q" | "0 < p" "p + 1 < q" using run(4) by fastforce
    then show ?thesis
    proof cases
      case 1
      then show ?thesis unfolding xg using parse_groups_all [OF a] by simp
    next
      case 2
      then show ?thesis
        unfolding xg using parse_groups_start [OF a 2(2) run(2,3)] run(4)
        by (simp del: IPAddress_parseGroups.simps)
    next
      case 3
      then show ?thesis
        unfolding xg using parse_groups_middle [OF a 3 run(2,3)] run(4)
        by (simp del: IPAddress_parseGroups.simps)
    qed
  qed
  ultimately show ?thesis by simp
qed

text \<open>The long form leaves nothing out.\<close>

lemma left_out_long [simp]: "left_out a True = (0, 0)"
  by (simp add: left_out_def)

end
