(* ===== verification/Address.thy ===== *)
theory Address
  imports IPAddressText
begin

text \<open>
  SCION addresses (\<open>include/scion/addr/address.hpp\<close>) and endpoints
  (\<open>include/scion/addr/endpoint.hpp\<close>, \<open>src/addr/endpoint.cpp\<close>) with generic IP host
  addresses, generic IP endpoints (\<open>IPEndpoint\<close> of \<open>generic_ip.hpp\<close>), and the static mapping
  between SCION addresses and SCION-mapped IPv6 (\<open>include/scion/addr/mapping.hpp\<close>).
\<close>

section \<open>Addresses\<close>

datatype HostAddrType = HostAddrIPv4 | HostAddrIPv6

fun HostAddrType_code :: "HostAddrType \<Rightarrow> byte" where
  "HostAddrType_code HostAddrIPv4 = 0"
| "HostAddrType_code HostAddrIPv6 = 3"

definition AddressTraits_type :: "IPAddress \<Rightarrow> HostAddrType" where
  "AddressTraits_type a = (if is4 a then HostAddrIPv4 else HostAddrIPv6)"

record ScIPAddress =
  a_ia :: IsdAsn
  a_host :: IPAddress

definition Address_make :: "IsdAsn \<Rightarrow> IPAddress \<Rightarrow> ScIPAddress" where
  "Address_make ia host = \<lparr>a_ia = ia, a_host = host\<rparr>"

definition Address_compare :: "ScIPAddress \<Rightarrow> ScIPAddress \<Rightarrow> strong_ordering" where
  "Address_compare a b =
     (let order = compare_values (a_ia a) (a_ia b) in
      if order \<noteq> equal then order else IPAddress_compare (a_host a) (a_host b))"

definition Address_isFullySpecified :: "ScIPAddress \<Rightarrow> bool" where
  "Address_isFullySpecified a \<longleftrightarrow>
     \<not> IsdAsn_isUnspecified (a_ia a) \<and> \<not> IPAddress_isUnspecified (a_host a)"

definition Address_matches :: "ScIPAddress \<Rightarrow> ScIPAddress \<Rightarrow> bool" where
  "Address_matches a other \<longleftrightarrow>
     (if \<not> IsdAsn_matches (a_ia a) (a_ia other) then False
      else IPAddress_isUnspecified (a_host a) \<or> IPAddress_eq (a_host a) (a_host other))"

definition Address_Parse :: "string \<Rightarrow> ScIPAddress maybe" where
  "Address_Parse s =
     (case find_char CHR '','' s of
        None \<Rightarrow> Inl SyntaxError
      | Some comma \<Rightarrow>
          maybe_bind (IsdAsn_Parse (take comma s)) (\<lambda>ia.
          maybe_bind (IPAddress_Parse (drop (comma + 1) s) False) (\<lambda>host.
          Inr (Address_make ia host))))"

definition Address_checksum :: "ScIPAddress \<Rightarrow> u32" where
  "Address_checksum a = IsdAsn_checksum (a_ia a) + IPAddress_checksum (a_host a)"

definition Address_size :: "ScIPAddress \<Rightarrow> nat" where
  "Address_size a = IsdAsn_size + IPAddress_size (a_host a)"

definition Address_format :: "ScIPAddress \<Rightarrow> string" where
  "Address_format a = IsdAsn_format (a_ia a) @ '','' @ IPAddress_format (a_host a)"

section \<open>Endpoints\<close>

record IPEndpoint =
  m_host :: IPAddress
  m_port :: u16

definition IPEndpoint_isFullySpecified :: "IPEndpoint \<Rightarrow> bool" where
  "IPEndpoint_isFullySpecified ep \<longleftrightarrow> \<not> IPAddress_isUnspecified (m_host ep) \<and> m_port ep \<noteq> 0"

definition IPEndpoint_eq :: "IPEndpoint \<Rightarrow> IPEndpoint \<Rightarrow> bool" where
  "IPEndpoint_eq a b \<longleftrightarrow> IPAddress_eq (m_host a) (m_host b) \<and> m_port a = m_port b"

definition IPEndpoint_compare :: "IPEndpoint \<Rightarrow> IPEndpoint \<Rightarrow> strong_ordering" where
  "IPEndpoint_compare a b =
     (let order = IPAddress_compare (m_host a) (m_host b) in
      if order = equal then compare_values (m_port a) (m_port b) else order)"

definition substr :: "string \<Rightarrow> nat \<Rightarrow> nat \<Rightarrow> string" where
  "substr s pos n = take n (drop pos s)"

definition splitHostPort :: "string \<Rightarrow> (string \<times> u16) maybe" where
  "splitHostPort s =
     (let finish = (\<lambda>addr port.
        if port = [] then Inr (addr, 0)
        else case from_chars 10 (2 ^ 16 - 1) port of (ec, v, rest) \<Rightarrow>
          if rest \<noteq> [] then Inl SyntaxError
          else if ec = errc_invalid_argument \<or> ec = errc_result_out_of_range then Inl SyntaxError
          else Inr (addr, of_nat v))
      in
      if s \<noteq> [] \<and> hd s = CHR ''['' then
        (case rfind_char CHR '']'' s of
           None \<Rightarrow> Inl SyntaxError
         | Some sep \<Rightarrow>
             let addr = substr s 1 (sep - 1) in
             if sep + 1 < length s then
               (if s ! (sep + 1) \<noteq> CHR '':'' then Inl SyntaxError
                else let port = drop (sep + 2) s in
                     if port = [] then Inl SyntaxError else finish addr port)
             else finish addr [])
      else
        (case rfind_char CHR '':'' s of
           None \<Rightarrow> finish s []
         | Some sep \<Rightarrow>
             let addr = take sep s in
             case find_char CHR '','' addr of
               Some comma \<Rightarrow>
                 if CHR '':'' \<in> set (drop comma addr) then finish s []
                 else let port = drop (sep + 1) s in
                      if port = [] then Inl SyntaxError else finish addr port
             | None \<Rightarrow>
                 if CHR '':'' \<in> set addr then finish s []
                 else let port = drop (sep + 1) s in
                      if port = [] then Inl SyntaxError else finish addr port))"

definition IPEndpoint_Parse :: "string \<Rightarrow> bool \<Rightarrow> IPEndpoint maybe" where
  "IPEndpoint_Parse s noZone =
     maybe_bind (splitHostPort s) (\<lambda>(host, port).
     maybe_bind (IPAddress_Parse host noZone) (\<lambda>ip. Inr \<lparr>m_host = ip, m_port = port\<rparr>))"

definition IPEndpoint_format :: "IPEndpoint \<Rightarrow> string" where
  "IPEndpoint_format ep =
     (if is4 (m_host ep)
      then IPAddress_format (m_host ep) @ '':'' @ format_dec (unat (m_port ep))
      else ''['' @ IPAddress_format (m_host ep) @ '']:'' @ format_dec (unat (m_port ep)))"

record ScIPEndpoint =
  e_ia :: IsdAsn
  e_ep :: IPEndpoint

definition Endpoint_make :: "ScIPAddress \<Rightarrow> u16 \<Rightarrow> ScIPEndpoint" where
  "Endpoint_make a port = \<lparr>e_ia = a_ia a, e_ep = \<lparr>m_host = a_host a, m_port = port\<rparr>\<rparr>"

definition Endpoint_address :: "ScIPEndpoint \<Rightarrow> ScIPAddress" where
  "Endpoint_address ep = Address_make (e_ia ep) (m_host (e_ep ep))"

definition Endpoint_isFullySpecified :: "ScIPEndpoint \<Rightarrow> bool" where
  "Endpoint_isFullySpecified ep \<longleftrightarrow>
     \<not> IsdAsn_isUnspecified (e_ia ep) \<and> \<not> IPAddress_isUnspecified (m_host (e_ep ep))
     \<and> m_port (e_ep ep) \<noteq> 0"

definition Endpoint_Parse :: "string \<Rightarrow> ScIPEndpoint maybe" where
  "Endpoint_Parse s =
     maybe_bind (splitHostPort s) (\<lambda>(addr, port).
     maybe_bind (Address_Parse addr) (\<lambda>sc. Inr (Endpoint_make sc port)))"

definition Endpoint_format :: "ScIPEndpoint \<Rightarrow> string" where
  "Endpoint_format ep =
     (let host = m_host (e_ep ep); port = format_dec (unat (m_port (e_ep ep))) in
      if AddressTraits_type host = HostAddrIPv4
      then IsdAsn_format (e_ia ep) @ '','' @ IPAddress_format host @ '':'' @ port
      else ''['' @ IsdAsn_format (e_ia ep) @ '','' @ IPAddress_format host @ '']:'' @ port)"

section \<open>SCION-mapped IPv6\<close>

text \<open>The second component is what \<open>*localPrefix\<close> is set to.\<close>

definition unmapIsdAsn :: "IPAddress \<Rightarrow> (IsdAsn \<times> u32) option" where
  "unmapIsdAsn ip =
     (let (hi, lo) = getIPv6 ip;
          isd = drop_bit 44 hi AND 0xfff;
          flags = drop_bit 40 hi AND 0xf
      in if (flags AND 0x8) = 0 then
           Some (IsdAsn_make isd (drop_bit 24 hi AND 0xfffff), ucast (hi AND NOT (push_bit 24 (- 1))))
         else if flags = 0xe then
           Some (IsdAsn_make isd (push_bit 32 2 OR (drop_bit 8 hi AND 0xffffffff)),
                 ucast (hi AND NOT (push_bit 8 (- 1))))
         else None)"

definition mapToIPv6 :: "ScIPAddress \<Rightarrow> IPAddress maybe" where
  "mapToIPv6 addr =
     (let host = a_host addr;
          map4 = (\<lambda>host.
            let isd = IsdAsn_isd (a_ia addr); asn = IsdAsn_asn (a_ia addr) in
            if \<not> (isd < push_bit 12 1) then Inl InvalidArgument
            else if asn < push_bit 19 1 then
              Inr (MakeIPv6 (SCION_IP_PREFIX OR push_bit 44 isd OR push_bit 24 asn)
                     (push_bit 32 0xffff OR ucast (getIPv4 host)) [])
            else if 0x200000000 \<le> asn \<and> asn \<le> 0x2ffffffff then
              Inr (MakeIPv6 (SCION_IP_PREFIX OR push_bit 44 isd OR push_bit 40 0xe
                              OR push_bit 8 (asn AND 0xffffffff))
                     (push_bit 32 0xffff OR ucast (getIPv4 host)) [])
            else Inl InvalidArgument)
      in
      if is6 host then
        (if is4in6 host then map4 (unmap4in6 host)
         else if \<not> isScion host then Inl InvalidArgument
         else case unmapIsdAsn host of
                None \<Rightarrow> Inl InvalidArgument
              | Some (isdAsn, _) \<Rightarrow>
                  if isdAsn \<noteq> a_ia addr then Inl InvalidArgument else Inr host)
      else map4 host)"

definition unmapFromIPv6 :: "IPAddress \<Rightarrow> ScIPAddress maybe" where
  "unmapFromIPv6 ip =
     (let (prefix, iid) = getIPv6 ip in
      if (prefix AND push_bit 56 0xff) \<noteq> SCION_IP_PREFIX then Inl InvalidArgument
      else case unmapIsdAsn ip of
             None \<Rightarrow> Inl NotImplemented
           | Some (isdAsn, localPrefix) \<Rightarrow>
               if localPrefix = 0 \<and> iid \<noteq> 0 \<and> drop_bit 32 iid = 0xffff
               then Inr (Address_make isdAsn (MakeIPv4 (ucast iid)))
               else Inr (Address_make isdAsn ip))"

section \<open>The mapping is reversible\<close>

lemma mapping_masks:
  "(0xfff :: u64) = mask 12" "(0xf :: u64) = mask 4"
  "(0xfffff :: u64) = mask 20" "(0xffffffff :: u64) = mask 32" "(0xffff :: u64) = mask 16"
  "SCION_IP_PREFIX = push_bit 58 (mask 6)" "(0xff :: u64) = mask 8"
  by (simp_all add: mask_eq_exp_minus_1 SCION_IP_PREFIX_def)

definition scion_flags :: u64 where
  "scion_flags = 0xe"

lemma bit_scion_flags: "bit scion_flags n \<longleftrightarrow> 1 \<le> n \<and> n < 4"
proof -
  have e: "scion_flags = push_bit 1 (mask 3)" by (simp add: scion_flags_def mask_eq_exp_minus_1)
  show ?thesis unfolding e bit_push_bit_iff bit_mask_iff by auto
qed

lemmas mapping_bits = bit_or_iff bit_and_iff bit_push_bit_iff bit_drop_bit_eq bit_mask_iff bit_1_iff bit_scion_flags

lemma flags_bit: "(x AND 0xf) AND 0x8 = (0 :: u64) \<longleftrightarrow> \<not> bit x 3"
proof -
  have "(x AND 0xf) AND 0x8 = x AND 2 ^ 3" by (simp add: and.assoc)
  then show ?thesis by (simp only: and_exp_eq_0_iff_not_bit)
qed

definition bgp_prefix :: "u64 \<Rightarrow> u64 \<Rightarrow> u64" where
  "bgp_prefix isd asn = (SCION_IP_PREFIX OR push_bit 44 isd OR push_bit 24 asn)"

definition scion_prefix :: "u64 \<Rightarrow> u64 \<Rightarrow> u64" where
  "scion_prefix isd asn =
     (SCION_IP_PREFIX OR push_bit 44 isd OR push_bit 40 scion_flags OR push_bit 8 (asn AND 0xffffffff))"

lemma bgp_prefix_parts:
  assumes "fits 12 isd" "fits 19 asn"
  shows "\<not> bit (drop_bit 40 (bgp_prefix isd asn)) 3"
    and "drop_bit 44 (bgp_prefix isd asn) AND 0xfff = isd"
    and "drop_bit 24 (bgp_prefix isd asn) AND 0xfffff = asn"
    and "bgp_prefix isd asn AND mask 24 = 0"
    and "bgp_prefix isd asn AND push_bit 56 0xff = SCION_IP_PREFIX"
proof -
  show "\<not> bit (drop_bit 40 (bgp_prefix isd asn)) 3"
    unfolding mapping_masks bgp_prefix_def
    by (auto simp: mapping_bits dest: assms [THEN fits_bitD])
  show "drop_bit 44 (bgp_prefix isd asn) AND 0xfff = isd"
    unfolding mapping_masks bgp_prefix_def
    by (rule bit_word_eqI) (auto simp: mapping_bits dest: assms [THEN fits_bitD])
  show "drop_bit 24 (bgp_prefix isd asn) AND 0xfffff = asn"
    unfolding mapping_masks bgp_prefix_def
    by (rule bit_word_eqI) (auto simp: mapping_bits dest: assms [THEN fits_bitD])
  show "bgp_prefix isd asn AND mask 24 = 0"
    unfolding mapping_masks bgp_prefix_def
    by (rule bit_word_eqI) (auto simp: mapping_bits dest: assms [THEN fits_bitD])
  show "bgp_prefix isd asn AND push_bit 56 0xff = SCION_IP_PREFIX"
    unfolding mapping_masks bgp_prefix_def
    by (rule bit_word_eqI) (auto simp: mapping_bits dest: assms [THEN fits_bitD])
qed

lemma scion_prefix_parts:
  assumes "fits 12 isd"
  shows "bit (drop_bit 40 (scion_prefix isd asn)) 3"
    and "drop_bit 40 (scion_prefix isd asn) AND 0xf = scion_flags"
    and "drop_bit 44 (scion_prefix isd asn) AND 0xfff = isd"
    and "drop_bit 8 (scion_prefix isd asn) AND 0xffffffff = asn AND 0xffffffff"
    and "scion_prefix isd asn AND mask 8 = 0"
    and "scion_prefix isd asn AND push_bit 56 0xff = SCION_IP_PREFIX"
proof -
  show "bit (drop_bit 40 (scion_prefix isd asn)) 3"
    unfolding mapping_masks scion_prefix_def
    by (auto simp: mapping_bits dest: assms [THEN fits_bitD])
  show "drop_bit 40 (scion_prefix isd asn) AND 0xf = scion_flags"
    unfolding mapping_masks scion_prefix_def
    by (rule bit_word_eqI) (auto simp: mapping_bits dest: assms [THEN fits_bitD])
  show "drop_bit 44 (scion_prefix isd asn) AND 0xfff = isd"
    unfolding mapping_masks scion_prefix_def
    by (rule bit_word_eqI) (auto simp: mapping_bits dest: assms [THEN fits_bitD])
  show "drop_bit 8 (scion_prefix isd asn) AND 0xffffffff = asn AND 0xffffffff"
    unfolding mapping_masks scion_prefix_def
    by (rule bit_word_eqI) (auto simp: mapping_bits dest: assms [THEN fits_bitD])
  show "scion_prefix isd asn AND mask 8 = 0"
    unfolding mapping_masks scion_prefix_def
    by (rule bit_word_eqI) (auto simp: mapping_bits dest: assms [THEN fits_bitD])
  show "scion_prefix isd asn AND push_bit 56 0xff = SCION_IP_PREFIX"
    unfolding mapping_masks scion_prefix_def
    by (rule bit_word_eqI) (auto simp: mapping_bits dest: assms [THEN fits_bitD])
qed

lemma public_scion_asn:
  "0x200000000 \<le> asn \<and> asn \<le> 0x2ffffffff \<longleftrightarrow> drop_bit 32 asn = (2 :: u64)"
proof -
  have "drop_bit 32 asn = 2 \<longleftrightarrow> unat (drop_bit 32 asn) = 2"
    by (simp add: word_unat_eq_iff)
  also have "\<dots> \<longleftrightarrow> unat asn div 2 ^ 32 = 2" by (simp add: unat_drop_bit_eq drop_bit_nat_def)
  also have "\<dots> \<longleftrightarrow> 0x200000000 \<le> unat asn \<and> unat asn \<le> 0x2ffffffff" by auto
  finally show ?thesis by (simp add: word_le_nat_alt)
qed

lemma public_scion_asn_eq: "drop_bit 32 asn = 2 \<Longrightarrow> push_bit 32 2 OR (asn AND 0xffffffff) = (asn :: u64)"
proof -
  assume "drop_bit 32 asn = 2"
  then have "push_bit 32 2 OR (asn AND 0xffffffff) = push_bit 32 (drop_bit 32 asn) OR (asn AND mask 32)"
    by (simp add: mapping_masks)
  also have "\<dots> = asn"
    by (rule bit_word_eqI) (auto simp: mapping_bits)
  finally show ?thesis .
qed

lemma fits_unat: "fits n v \<longleftrightarrow> unat v < 2 ^ n"
  unfolding fits_def by (simp add: word_unat_eq_iff unsigned_take_bit_eq take_bit_nat_eq_self_iff)

lemma public_not_bgp: "drop_bit 32 asn = (2 :: u64) \<Longrightarrow> \<not> fits 19 asn"
  using public_scion_asn [of asn] by (simp add: fits_unat word_le_nat_alt)

lemma mapping_ranges:
  "(v :: u64) < push_bit 12 1 \<longleftrightarrow> fits 12 v" "(v :: u64) < push_bit 19 1 \<longleftrightarrow> fits 19 v"
  by (simp_all add: fits_unat word_less_nat_alt)

lemma unmapIsdAsn_bgp:
  assumes "fits 12 isd" "fits 19 asn"
  shows "unmapIsdAsn (MakeIPv6 (bgp_prefix isd asn) lo z) = Some (IsdAsn_make isd asn, 0)"
  using bgp_prefix_parts [OF assms]
  by (simp add: unmapIsdAsn_def getIPv6_def MakeIPv6_def flags_bit Let_def)

lemma unmapIsdAsn_scion:
  assumes "fits 12 isd" "drop_bit 32 asn = 2"
  shows "unmapIsdAsn (MakeIPv6 (scion_prefix isd asn) lo z) = Some (IsdAsn_make isd asn, 0)"
  using scion_prefix_parts [OF assms(1), of asn] public_scion_asn_eq [OF assms(2)]
  by (simp add: unmapIsdAsn_def getIPv6_def MakeIPv6_def flags_bit Let_def scion_flags_def)

text \<open>The interface identifier that carries an IPv4 address.\<close>

lemma iid_parts:
  fixes v :: u32
  shows "drop_bit 32 (push_bit 32 0xffff OR ucast v :: u64) = 0xffff"
    and "ucast (push_bit 32 0xffff OR ucast v :: u64) = v"
    and "(push_bit 32 0xffff OR ucast v :: u64) \<noteq> 0"
proof -
  have m: "(0xffff :: u64) = mask 16" by (simp add: mask_eq_exp_minus_1)
  show d: "drop_bit 32 (push_bit 32 0xffff OR ucast v :: u64) = 0xffff"
    unfolding m by (rule bit_word_eqI) (auto simp: mapping_bits bit_ucast_iff dest: bit_imp_le_length)
  show "(push_bit 32 0xffff OR ucast v :: u64) \<noteq> 0"
  proof
    assume "(push_bit 32 0xffff OR ucast v :: u64) = 0"
    with d have "drop_bit 32 (0 :: u64) = 0xffff" by (simp only:)
    then show False by simp
  qed
  show "ucast (push_bit 32 0xffff OR ucast v :: u64) = v"
    unfolding m by (rule bit_word_eqI) (auto simp: mapping_bits bit_ucast_iff dest: bit_imp_le_length)
qed

definition mappable :: "IsdAsn \<Rightarrow> bool" where
  "mappable ia \<longleftrightarrow> fits 12 (IsdAsn_isd ia) \<and> (fits 19 (IsdAsn_asn ia) \<or> drop_bit 32 (IsdAsn_asn ia) = 2)"

definition mapped_prefix :: "IsdAsn \<Rightarrow> u64" where
  "mapped_prefix ia =
     (if fits 19 (IsdAsn_asn ia) then bgp_prefix (IsdAsn_isd ia) (IsdAsn_asn ia)
      else scion_prefix (IsdAsn_isd ia) (IsdAsn_asn ia))"

lemma mapToIPv6_v4:
  assumes "is4 (a_host a)"
  shows "mapToIPv6 a =
    (if mappable (a_ia a)
     then Inr (MakeIPv6 (mapped_prefix (a_ia a)) (push_bit 32 0xffff OR ucast (getIPv4 (a_host a))) [])
     else Inl InvalidArgument)"
  using assms
  by (simp add: mapToIPv6_def Let_def is4_is6 mappable_def mapped_prefix_def bgp_prefix_def
      scion_prefix_def scion_flags_def mapping_ranges [simplified] public_scion_asn flip: public_scion_asn)

lemma unmap_mapped:
  assumes "mappable ia"
  shows "unmapFromIPv6 (MakeIPv6 (mapped_prefix ia) (push_bit 32 0xffff OR ucast v) z) =
    Inr (Address_make ia (MakeIPv4 v))"
proof -
  have isd: "fits 12 (IsdAsn_isd ia)" using assms by (simp add: mappable_def)
  have "unmapIsdAsn (MakeIPv6 (mapped_prefix ia) lo z) = Some (ia, 0)" for lo
    using assms unmapIsdAsn_bgp [OF isd] unmapIsdAsn_scion [OF isd]
    by (auto simp: mappable_def mapped_prefix_def)
  moreover have "mapped_prefix ia AND push_bit 56 0xff = SCION_IP_PREFIX"
    using bgp_prefix_parts(5) [OF isd] scion_prefix_parts(6) [OF isd]
    by (simp add: mapped_prefix_def)
  ultimately show ?thesis
    using iid_parts [of v]
    by (simp add: unmapFromIPv6_def getIPv6_def) (simp add: MakeIPv6_def)
qed

lemma prefix_bits:
  assumes "hi AND push_bit 56 0xff = SCION_IP_PREFIX" "56 \<le> n" "n < 64"
  shows "bit hi n \<longleftrightarrow> 58 \<le> n"
  using arg_cong [OF assms(1), of "\<lambda>w. bit w n"] assms(2,3)
  unfolding mapping_masks by (auto simp: mapping_bits)

lemma masked_bits: "hi AND mask k = 0 \<Longrightarrow> n < k \<Longrightarrow> n < 64 \<Longrightarrow> \<not> bit (hi :: u64) n"
  using bit_and_iff [of hi "mask k" n] by (simp add: bit_mask_iff)

lemma bgp_prefix_of:
  assumes "hi AND push_bit 56 0xff = SCION_IP_PREFIX" "\<not> bit (drop_bit 40 hi) 3" "hi AND mask 24 = 0"
  shows "bgp_prefix (drop_bit 44 hi AND 0xfff) (drop_bit 24 hi AND 0xfffff) = hi"
  unfolding bgp_prefix_def mapping_masks
proof (rule bit_word_eqI)
  fix n
  assume n: "n < LENGTH(64)"
  have "bit hi 43 = False" using assms(2) by (simp add: bit_drop_bit_eq)
  moreover have "\<not> bit hi n" if "n < 24" using masked_bits [OF assms(3)] that n by simp
  moreover have "bit hi n \<longleftrightarrow> 58 \<le> n" if "56 \<le> n" using prefix_bits [OF assms(1)] that n by simp
  moreover have "n < 24 \<or> 24 \<le> n \<and> n < 43 \<or> n = 43 \<or> 44 \<le> n \<and> n < 56 \<or> 56 \<le> n" by linarith
  ultimately show "bit (push_bit 58 (mask 6) OR push_bit 44 (drop_bit 44 hi AND mask 12) OR
      push_bit 24 (drop_bit 24 hi AND mask 20)) n = bit hi n"
    using n by (auto simp: mapping_bits)
qed

lemma low_high_32:
  fixes t x :: u64
  shows "(push_bit 32 t OR (x AND 0xffffffff)) AND 0xffffffff = x AND 0xffffffff"
    and "drop_bit 32 (push_bit 32 t OR (x AND 0xffffffff)) = take_bit 32 t"
  unfolding mapping_masks by (rule bit_word_eqI; auto simp: mapping_bits bit_take_bit_iff)+

lemma scion_prefix_of:
  assumes "hi AND push_bit 56 0xff = SCION_IP_PREFIX" "drop_bit 40 hi AND 0xf = scion_flags" "hi AND mask 8 = 0"
  shows "scion_prefix (drop_bit 44 hi AND 0xfff) (push_bit 32 2 OR (drop_bit 8 hi AND 0xffffffff)) = hi"
proof -
  show ?thesis
    unfolding scion_prefix_def low_high_32(1)
    unfolding mapping_masks
  proof (rule bit_word_eqI)
    fix n
    assume n: "n < LENGTH(64)"
    consider "n < 8" | "8 \<le> n" "n < 40" | "40 \<le> n" "n < 44" | "44 \<le> n" "n < 56" | "56 \<le> n" by linarith
    then show "bit (push_bit 58 (mask 6) OR push_bit 44 (drop_bit 44 hi AND mask 12) OR
        push_bit 40 scion_flags OR push_bit 8 (drop_bit 8 hi AND mask 32)) n = bit hi n"
    proof cases
      case 1
      then show ?thesis using masked_bits [OF assms(3)] n by (simp add: mapping_bits)
    next
      case 2
      define k where "k = n - 8"
      have k: "n = 8 + k" "k < 32" using 2 by (simp_all add: k_def)
      show ?thesis unfolding k(1) using k(2) by (simp add: mapping_bits)
    next
      case 3
      define k where "k = n - 40"
      have k: "n = 40 + k" "k < 4" using 3 by (simp_all add: k_def)
      have "bit hi n \<longleftrightarrow> 1 \<le> k"
        using arg_cong [OF assms(2), of "\<lambda>w. bit w k"] k
        unfolding mapping_masks by (simp add: mapping_bits)
      then show ?thesis using k by (simp add: mapping_bits)
    next
      case 4
      define k where "k = n - 44"
      have k: "n = 44 + k" "k < 12" using 4 by (simp_all add: k_def)
      show ?thesis unfolding k(1) using k(2) by (simp add: mapping_bits)
    next
      case 5
      then show ?thesis using prefix_bits [OF assms(1) 5] n by (auto simp: mapping_bits)
    qed
  qed
qed

lemma ucast_low_0: "ucast (hi AND mask k :: u64) = (0 :: u32) \<longleftrightarrow> hi AND mask k = 0" if "k \<le> 32"
proof
  assume "ucast (hi AND mask k) = (0 :: u32)"
  then have "\<not> bit (ucast (hi AND mask k) :: u32) n" for n by simp
  then have "\<not> (bit hi n \<and> n < k)" for n
    using that bit_imp_le_length [of hi n]
    by (cases "n < 32") (auto simp: bit_ucast_iff bit_and_iff bit_mask_iff)
  then show "hi AND mask k = 0"
    by (intro bit_word_eqI) (auto simp: bit_and_iff bit_mask_iff)
qed simp

lemma iid_eq:
  assumes "drop_bit 32 iid = (0xffff :: u64)"
  shows "push_bit 32 0xffff OR ucast (ucast iid :: u32) = iid"
  unfolding assms [symmetric]
  by (rule bit_word_eqI) (auto simp: mapping_bits bit_ucast_iff)

lemma unmapIsdAsn_v4:
  assumes "hi AND push_bit 56 0xff = SCION_IP_PREFIX" "unmapIsdAsn (MakeIPv6 hi lo z) = Some (ia, 0)"
  shows "mappable ia" "mapped_prefix ia = hi"
proof -
  let ?isd = "drop_bit 44 hi AND 0xfff"
  have isd: "fits 12 ?isd" unfolding mapping_masks by (rule fits_mask)
  then have isd16: "fits 16 ?isd" by (intro fitsI) (auto dest: fits_bitD)
  have "mappable ia \<and> mapped_prefix ia = hi"
  proof (cases "bit (drop_bit 40 hi) 3")
    case False
    let ?asn = "drop_bit 24 hi AND 0xfffff"
    have ia: "ia = IsdAsn_make ?isd ?asn" and m: "hi AND mask 24 = 0"
      using assms(2) False by (auto simp: unmapIsdAsn_def getIPv6_def MakeIPv6_def flags_bit ucast_low_0 Let_def)
    have asn: "fits 19 ?asn"
      unfolding mapping_masks
      using False by (intro fitsI) (auto simp: mapping_bits less_Suc_eq numeral_eq_Suc dest: le_neq_implies_less)
    then have "fits 48 ?asn" by (intro fitsI) (auto dest: fits_bitD)
    then show ?thesis
      using asn isd isd16 bgp_prefix_of [OF assms(1) False m]
      by (simp add: ia mappable_def mapped_prefix_def IsdAsn_isd_make IsdAsn_asn_make)
  next
    case True
    let ?asn = "push_bit 32 2 OR (drop_bit 8 hi AND 0xffffffff)"
    have ia: "ia = IsdAsn_make ?isd ?asn" and m: "hi AND mask 8 = 0" and f: "drop_bit 40 hi AND 0xf = scion_flags"
      using assms(2) True
      by (auto simp: unmapIsdAsn_def getIPv6_def MakeIPv6_def flags_bit ucast_low_0 scion_flags_def Let_def
          split: if_splits)
    have d: "drop_bit 32 ?asn = 2" unfolding low_high_32(2) by simp
    have "\<not> fits 19 ?asn" by (rule public_not_bgp [OF d])
    moreover have "fits 48 ?asn"
    proof (rule fits_or)
      show "fits 48 (push_bit 32 (2 :: u64))" by (simp add: fits_def)
      show "fits 48 (drop_bit 8 hi AND 0xffffffff)"
        unfolding mapping_masks by (rule fitsI) (simp add: mapping_bits)
    qed
    ultimately show ?thesis
      using d isd isd16 scion_prefix_of [OF assms(1) f m]
      by (simp add: ia mappable_def mapped_prefix_def IsdAsn_isd_make IsdAsn_asn_make)
  qed
  then show "mappable ia" "mapped_prefix ia = hi" by simp_all
qed

text \<open>The two directions.\<close>

lemma map_unmap_v4:
  assumes "wf_ip (a_host a)" "is4 (a_host a)" "mapToIPv6 a = Inr ip"
  shows "unmapFromIPv6 ip = Inr a"
proof -
  have "mappable (a_ia a)"
      "ip = MakeIPv6 (mapped_prefix (a_ia a)) (push_bit 32 0xffff OR ucast (getIPv4 (a_host a))) []"
    using assms(3) mapToIPv6_v4 [OF assms(2)] by (auto split: if_splits)
  then show ?thesis
    using unmap_mapped wf_is4_eq [OF assms(1,2)] by (simp add: Address_make_def)
qed

lemma unmap_map:
  assumes "is6 ip" "zone ip = []" "unmapFromIPv6 ip = Inr a"
  shows "mapToIPv6 a = Inr ip"
proof -
  have ip: "ip = MakeIPv6 (m_hi ip) (m_lo ip) []"
    using assms is6_eq [of ip] by (simp add: is4_is6)
  have pre: "m_hi ip AND push_bit 56 0xff = SCION_IP_PREFIX"
    using assms(3) by (auto simp: unmapFromIPv6_def getIPv6_def split: if_splits)
  obtain ia lp where u: "unmapIsdAsn ip = Some (ia, lp)"
      and r: "(if lp = 0 \<and> m_lo ip \<noteq> 0 \<and> drop_bit 32 (m_lo ip) = 0xffff
        then a = Address_make ia (MakeIPv4 (ucast (m_lo ip))) else a = Address_make ia ip)"
    using assms(3) pre
    by (auto simp: unmapFromIPv6_def getIPv6_def split: option.splits if_splits)
  show ?thesis
  proof (cases "lp = 0 \<and> m_lo ip \<noteq> 0 \<and> drop_bit 32 (m_lo ip) = 0xffff")
    case True
    then have "unmapIsdAsn (MakeIPv6 (m_hi ip) (m_lo ip) []) = Some (ia, 0)" using u ip by simp
    then have "mappable ia" "mapped_prefix ia = m_hi ip" using unmapIsdAsn_v4 [OF pre] by blast+
    moreover have "push_bit 32 0xffff OR ucast (ucast (m_lo ip) :: u32) = m_lo ip"
      using True iid_eq by blast
    ultimately show ?thesis
      using True r ip mapToIPv6_v4 [of a] by (simp add: Address_make_def)
  next
    case False
    then have a: "a = Address_make ia ip" using r by (simp split: if_splits)
    have "bit (m_hi ip) 60" using prefix_bits [OF pre, of 60] by simp
    then have "\<not> is4in6 ip" by (auto simp: is4in6_def)
    moreover have "drop_bit 56 (m_hi ip) AND 0xff = drop_bit 56 SCION_IP_PREFIX"
      unfolding pre [symmetric] mapping_masks by (rule bit_word_eqI) (auto simp: mapping_bits)
    then have "isScion ip" using assms(1) by (simp add: isScion_def SCION_IP_PREFIX_def)
    ultimately show ?thesis
      using assms(1) u by (simp add: a mapToIPv6_def Address_make_def)
  qed
qed

section \<open>Parsing what was formatted\<close>

text \<open>The host addresses whose default form \<open>Parse\<close> accepts.\<close>

definition reparses :: "IPAddress \<Rightarrow> bool" where
  "reparses a \<longleftrightarrow> is4 a \<or> (case left_out a False of (p, q) \<Rightarrow> \<not> (q = 8 \<and> 1 < p))"

lemma IPAddress_Parse_format:
  assumes "wf_ip a"
  shows "IPAddress_Parse (IPAddress_format a) False = (if reparses a then Inr a else Inl SyntaxError)"
proof (cases "is4 a")
  case True
  then show ?thesis using Parse_format_IPv4 [OF assms] by (simp add: IPAddress_format_def reparses_def)
next
  case False
  obtain p q where "left_out a False = (p, q)" by fastforce
  then show ?thesis
    using False Parse_format_IPv6 [of a False p q False False]
    by (simp add: IPAddress_format_def reparses_def is4_is6)
qed

lemma IsdAsn_format_chars:
  "c \<in> set (IsdAsn_format ia) \<Longrightarrow> is_digit 16 c \<or> c = CHR ''-'' \<or> c = CHR '':''"
proof -
  have "is_digit 10 d \<Longrightarrow> is_digit 16 d" for d by (simp add: is_digit_def)
  then show "c \<in> set (IsdAsn_format ia) \<Longrightarrow> is_digit 16 c \<or> c = CHR ''-'' \<or> c = CHR '':''"
    using format_dec_digits format_hex_digits
    by (auto simp: IsdAsn_format_def Isd_format_def Asn_format_def split: if_splits)
qed

lemma comma_not_in_ia: "CHR '','' \<notin> set (IsdAsn_format ia)" "CHR ''['' \<notin> set (IsdAsn_format ia)"
  using IsdAsn_format_chars by force+

lemma IsdAsn_Parse_format: "IsdAsn_Parse (IsdAsn_format ia) = Inr ia"
proof -
  have f: "find_char CHR ''-'' (IsdAsn_format ia) = Some (length (Isd_format (IsdAsn_isd ia)))"
    using find_char_append [OF minus_not_isd] by (simp add: IsdAsn_format_def)
  have "push_bit Asn_BITS (IsdAsn_isd ia) OR IsdAsn_asn ia = ia"
    using IsdAsn_make_parts by (simp add: IsdAsn_make_def)
  moreover have "IsdAsn_isd ia \<le> Isd_MAX_VALUE" "IsdAsn_asn ia \<le> Asn_MAX_VALUE"
    by (simp_all add: Isd_MAX_VALUE_mask Asn_MAX_VALUE_mask fits_le_mask)
  ultimately show ?thesis
    by (simp add: IsdAsn_Parse_def f)
      (simp add: IsdAsn_format_def Isd_Parse_format Asn_Parse_format)
qed

lemma Address_Parse_format:
  assumes "wf_ip (a_host a)"
  shows "Address_Parse (Address_format a) = (if reparses (a_host a) then Inr a else Inl SyntaxError)"
  using find_char_append [OF comma_not_in_ia(1)] IPAddress_Parse_format [OF assms]
  by (simp add: Address_Parse_def Address_format_def IsdAsn_Parse_format Address_make_def)

lemma format_dec_no_sep:
  "CHR '':'' \<notin> set (format_dec n)" "CHR '']'' \<notin> set (format_dec n)"
  using format_dec_digits by force+

lemma from_chars_port:
  "from_chars 10 (2 ^ 16 - 1) (format_dec (unat (p :: u16))) = (Ok, unat p, [])"
proof -
  have "unat p < 2 ^ LENGTH(16)" by (rule unsigned_less)
  then show ?thesis by (intro from_chars_dec) simp
qed

lemma splitHostPort_bracket:
  "splitHostPort (CHR ''['' # addr @ CHR '']'' # CHR '':'' # format_dec (unat p)) = Inr (addr, p)"
proof -
  have "CHR '']'' \<notin> set (CHR '':'' # format_dec (unat p))" by (simp add: format_dec_no_sep)
  from rfind_char_append [OF this, of "CHR ''['' # addr"]
  show ?thesis
    using from_chars_port [of p] by (simp add: splitHostPort_def substr_def nth_append)
qed

lemma splitHostPort_plain:
  assumes "addr \<noteq> []" "hd addr \<noteq> CHR ''[''"
    and "case find_char CHR '','' addr of None \<Rightarrow> CHR '':'' \<notin> set addr
      | Some c \<Rightarrow> CHR '':'' \<notin> set (drop c addr)"
  shows "splitHostPort (addr @ CHR '':'' # format_dec (unat p)) = Inr (addr, p)"
  using assms rfind_char_append [OF format_dec_no_sep(1) [of "unat p"], of addr] from_chars_port [of p]
  by (cases "find_char CHR '','' addr") (simp_all add: splitHostPort_def)

lemma formatIPv4_hd: "formatIPv4 lo \<noteq> []" "CHR '','' \<notin> set (formatIPv4 lo)" "CHR ''['' \<notin> set (formatIPv4 lo)"
  using length_formatIPv4 [of lo] formatIPv4_chars [of _ lo] by fastforce+

lemma IPAddress_format_v4: "is4 a \<Longrightarrow> IPAddress_format a = formatIPv4 (m_lo a)"
  by (simp add: IPAddress_format_def IPAddress_formatTo_def)

lemma IPEndpoint_Parse_format_lemma:
  assumes "wf_ip (m_host ep)"
  shows "IPEndpoint_Parse (IPEndpoint_format ep) False =
    (if reparses (m_host ep) then Inr ep else Inl SyntaxError)"
proof (cases "is4 (m_host ep)")
  case True
  then have "splitHostPort (IPEndpoint_format ep) = Inr (IPAddress_format (m_host ep), m_port ep)"
    using splitHostPort_plain [of "formatIPv4 (m_lo (m_host ep))" "m_port ep"]
      formatIPv4_hd [of "m_lo (m_host ep)"]
      list.set_sel(1) [OF formatIPv4_hd(1) [of "m_lo (m_host ep)"]]
    by (fastforce simp: IPEndpoint_format_def IPAddress_format_v4 find_char_def)
  then show ?thesis using IPAddress_Parse_format [OF assms] by (simp add: IPEndpoint_Parse_def)
next
  case False
  then have "splitHostPort (IPEndpoint_format ep) = Inr (IPAddress_format (m_host ep), m_port ep)"
    using splitHostPort_bracket by (simp add: IPEndpoint_format_def)
  then show ?thesis using IPAddress_Parse_format [OF assms] by (simp add: IPEndpoint_Parse_def)
qed

lemma Endpoint_split:
  "splitHostPort (Endpoint_format ep) = Inr (Address_format (Endpoint_address ep), m_port (e_ep ep))"
proof (cases "is4 (m_host (e_ep ep))")
  case True
  let ?addr = "IsdAsn_format (e_ia ep) @ CHR '','' # formatIPv4 (m_lo (m_host (e_ep ep)))"
  have ne: "IsdAsn_format (e_ia ep) \<noteq> []" by (simp add: IsdAsn_format_def)
  then have "hd ?addr \<noteq> CHR ''[''"
    using comma_not_in_ia(2) [of "e_ia ep"] list.set_sel(1) [OF ne] by (metis hd_append2)
  then have "splitHostPort (?addr @ CHR '':'' # format_dec (unat (m_port (e_ep ep)))) = Inr (?addr, m_port (e_ep ep))"
    by (intro splitHostPort_plain) (simp_all add: find_char_append comma_not_in_ia)
  then show ?thesis
    using True by (simp add: Endpoint_format_def Address_format_def Endpoint_address_def Address_make_def
        AddressTraits_type_def IPAddress_format_v4 Let_def)
next
  case False
  then show ?thesis
    using splitHostPort_bracket [of "Address_format (Endpoint_address ep)"]
    by (simp add: Endpoint_format_def Address_format_def Endpoint_address_def Address_make_def
        AddressTraits_type_def Let_def)
qed

lemma Endpoint_Parse_format_lemma:
  assumes "wf_ip (m_host (e_ep ep))"
  shows "Endpoint_Parse (Endpoint_format ep) =
    (if reparses (m_host (e_ep ep)) then Inr ep else Inl SyntaxError)"
  using Address_Parse_format [of "Endpoint_address ep"] assms
  by (simp add: Endpoint_Parse_def Endpoint_split Endpoint_make_def) (simp add: Endpoint_address_def Address_make_def)

end
