(* ===== verification/AddressProperties.thy ===== *)
theory AddressProperties
  imports Address IPAddressSpec
begin

text \<open>
  The properties of the address components: ISD-ASNs, IP addresses, SCION addresses and
  endpoints as text (\<open>Parse\<close> against \<open>std::format\<close>), the order and prefix tests on IP
  addresses, and the static mapping of SCION addresses to IPv6 in both directions. Each
  rests on the lemmas of the theory that models the component.
\<close>

section \<open>Text\<close>

text \<open>C17: Every 64-bit ISD-ASN, formatted by \<open>std::formatter<scion::IsdAsn>\<close>, is parsed back by
  \<open>IsdAsn::Parse\<close> to the same value.\<close>

theorem isd_asn_text_roundtrip: "IsdAsn_Parse (IsdAsn_format ia) = Inr ia"
  by (rule IsdAsn_Parse_format)

text \<open>Whatever text \<open>Isd::Parse\<close> and \<open>Asn::Parse\<close> accept, the number they return fits the 16
  bits of an ISD and the 48 bits of an ASN, so that the constructors' assertions hold.\<close>

theorem parsed_isd_asn_in_range:
  "(case Isd_Parse s of Inl _ \<Rightarrow> True | Inr isd \<Rightarrow> isd \<le> Isd_MAX_VALUE) \<and>
   (case Asn_Parse s of Inl _ \<Rightarrow> True | Inr asn \<Rightarrow> asn \<le> Asn_MAX_VALUE)"
  using Isd_Parse_le [of s] Asn_Parse_le [of s] by (auto split: sum.splits)

text \<open>C18: For an IPv4 or IPv6 address, with or without a zone, \<open>IPAddress::Parse\<close> of its default
  text form gives the address back, except when two or more fields precede a run of zero fields
  that reaches the end: that text, such as \<open>1:2::\<close>, is rejected with a syntax error.\<close>

theorem ip_text_roundtrip:
  assumes "wf_ip a"
  shows "IPAddress_Parse (IPAddress_format a) False = (if reparses a then Inr a else Inl SyntaxError)"
  by (rule IPAddress_Parse_format [OF assms])

lemma ip_text_roundtrip_witness:
  "IPAddress_Parse (IPAddress_format (MakeIPv6 0x20010db800000000 1 ''eth0'')) False =
     (if reparses (MakeIPv6 0x20010db800000000 1 ''eth0'')
      then Inr (MakeIPv6 0x20010db800000000 1 ''eth0'') else Inl SyntaxError)"
  by (rule ip_text_roundtrip) (simp add: wf_ip_def MakeIPv6_def is4_def)

text \<open>A SCION endpoint formatted as \<open>[isd-asn,host]:port\<close> is parsed back by
  \<open>Endpoint::Parse\<close>, for every host whose own text form is accepted.\<close>

theorem endpoint_text_roundtrip:
  assumes "wf_ip (m_host (e_ep ep))"
  shows "Endpoint_Parse (Endpoint_format ep) =
    (if reparses (m_host (e_ep ep)) then Inr ep else Inl SyntaxError)"
  by (rule Endpoint_Parse_format_lemma [OF assms])

lemma endpoint_text_roundtrip_witness:
  "Endpoint_Parse (Endpoint_format (Endpoint_make (Address_make 0x1ff0000000110 (MakeIPv4 0x7f000001)) 443)) =
    Inr (Endpoint_make (Address_make 0x1ff0000000110 (MakeIPv4 0x7f000001)) 443)"
  using endpoint_text_roundtrip [of "Endpoint_make (Address_make 0x1ff0000000110 (MakeIPv4 0x7f000001)) 443"]
  by (simp add: wf_ip_def MakeIPv4_def is4_def reparses_def Endpoint_make_def Address_make_def fits_def
      bit_simps)

text \<open>The text forms that the parser does not take back: a run of zero fields at the end after two
  fields, although the formatter writes it.\<close>

lemma Parse_rejects_text: "IPAddress_Parse ''1:2::'' False = Inl SyntaxError"
  by (simp add: IPAddress_Parse_def find_char_def from_chars_def is_digit_def digit_value_def Let_def
      from_digits_def)

text \<open>Two groups are taken as an ASN although the format has three, decimal ASNs are taken beyond the
  32-bit BGP range, and a group may have more than four digits.\<close>

lemma Asn_Parse_lenient:
  "Asn_Parse ''1:2'' = Inr 0x100020000 \<and> Asn_Parse ''4294967296'' = Inr 0x100000000 \<and>
   Asn_Parse ''00001:0:2'' = Inr 0x100000002"
  by (simp add: Asn_Parse_def from_chars_def is_digit_def digit_value_def Let_def from_digits_def
      Asn_MAX_VALUE_def Asn_BITS_def)

section \<open>Order and prefixes\<close>

text \<open>\<open>operator<=>\<close> on IP addresses is a strict total order whose equality is identity of
  the addresses: it is \<open>equal\<close> only for the same address, swapping the arguments swaps \<open>less\<close>
  and \<open>greater\<close>, and \<open>less\<close> is transitive.\<close>

theorem ip_compare_order:
  assumes "wf_ip a" "wf_ip b"
  shows "(IPAddress_compare a b = equal \<longleftrightarrow> a = b) \<and>
    (IPAddress_compare a b = less \<longleftrightarrow> IPAddress_compare b a = greater) \<and>
    (IPAddress_compare a b = less \<longrightarrow> IPAddress_compare b c = less \<longrightarrow> IPAddress_compare a c = less)"
  using IPAddress_compare_equal [OF assms] IPAddress_compare_antisym [of a b]
    IPAddress_compare_trans [of a b c] by blast

lemma ip_compare_order_witness:
  "IPAddress_compare (MakeIPv4 1) (MakeIPv6 0 0 []) = less \<and>
   IPAddress_compare (MakeIPv6 0 0 []) (MakeIPv4 1) = greater"
  using ip_compare_order [of "MakeIPv4 1" "MakeIPv6 0 0 []" "MakeIPv4 1"]
  by (simp add: wf_ip_def MakeIPv4_def MakeIPv6_def is4_def fits_def bit_simps IPAddress_compare_def
      compare_values_def less_AddrType_def)

text \<open>\<open>samePrefix(a, b, n)\<close> holds exactly when the addresses have the same type, \<open>n\<close> is at most
  the length of such an address and their first \<open>n\<close> bits agree.\<close>

theorem same_prefix_iff:
  assumes "wf_ip a" "wf_ip b"
  shows "samePrefix a b n \<longleftrightarrow> addr_type a = addr_type b \<and> n \<le> length (IPAddress_bits a) \<and>
    take n (IPAddress_bits a) = take n (IPAddress_bits b)"
  by (rule samePrefix_spec [OF assms])

lemma same_prefix_iff_witness:
  "samePrefix (MakeIPv4 0x0a000001) (MakeIPv4 0x0aff0001) 8 \<and>
   take 8 (IPAddress_bits (MakeIPv4 0x0a000001)) = take 8 (IPAddress_bits (MakeIPv4 0x0aff0001))"
proof -
  have "samePrefix (MakeIPv4 0x0a000001) (MakeIPv4 0x0aff0001) 8" by code_simp
  then show ?thesis
    using same_prefix_iff [of "MakeIPv4 0x0a000001" "MakeIPv4 0x0aff0001" 8]
    by (simp add: wf_ip_def MakeIPv4_def is4_def fits_def bit_simps)
qed

section \<open>SCION-mapped IPv6\<close>

lemma isScion_prefix:
  assumes "is6 ip" "(m_hi ip AND push_bit 56 0xff) = SCION_IP_PREFIX"
  shows "isScion ip"
proof -
  have "drop_bit 56 (m_hi ip) AND 0xff = drop_bit 56 (m_hi ip AND push_bit 56 0xff)"
    by (rule bit_word_eqI) (auto simp: bit_simps)
  also have "\<dots> = 0xfc" using assms(2) by (simp add: SCION_IP_PREFIX_def)
  finally show ?thesis using assms(1) by (simp add: isScion_def)
qed

lemma unmapFromIPv6_isScion: "is6 ip \<Longrightarrow> unmapFromIPv6 ip = Inr a \<Longrightarrow> isScion ip"
  by (rule isScion_prefix) (auto simp: unmapFromIPv6_def getIPv6_def split: if_splits)

text \<open>C19: Mapping a SCION address with an IPv4 host to IPv6 is possible exactly when the ISD is below
  \<open>2^12\<close> and the ASN below \<open>2^19\<close> or in \<open>2:0:0\<close> to \<open>2:ffff:ffff\<close>, it gives a SCION-mapped
  IPv6 address of an IPv4 host, and \<open>unmapFromIPv6\<close> inverts it.\<close>

theorem map_then_unmap:
  assumes "wf_ip (a_host a)" "is4 (a_host a)"
  shows "case mapToIPv6 a of
      Inl e \<Rightarrow> e = InvalidArgument \<and> \<not> mappable (a_ia a)
    | Inr ip \<Rightarrow> mappable (a_ia a) \<and> isScion ip \<and> unmapFromIPv6 ip = Inr a"
proof (cases "mappable (a_ia a)")
  case True
  then obtain ip where ip: "mapToIPv6 a = Inr ip"
      "ip = MakeIPv6 (mapped_prefix (a_ia a)) (push_bit 32 0xffff OR ucast (getIPv4 (a_host a))) []"
    using mapToIPv6_v4 [OF assms(2)] by simp
  moreover have "unmapFromIPv6 ip = Inr a" using map_unmap_v4 [OF assms ip(1)] .
  moreover have "isScion ip"
    using unmapFromIPv6_isScion [of ip a] calculation(2,3) by (simp add: MakeIPv6_def is6_def)
  ultimately show ?thesis using True by simp
qed (simp add: mapToIPv6_v4 [OF assms(2)])

lemma map_then_unmap_witness:
  "\<exists>ip. mapToIPv6 (Address_make 0x1000000020000 (MakeIPv4 0x0a000001)) = Inr ip \<and>
     unmapFromIPv6 ip = Inr (Address_make 0x1000000020000 (MakeIPv4 0x0a000001))"
proof -
  let ?a = "Address_make 0x1000000020000 (MakeIPv4 0x0a000001)"
  have "mapToIPv6 ?a \<noteq> Inl InvalidArgument" by code_simp
  moreover have "wf_ip (a_host ?a)" "is4 (a_host ?a)"
    by (simp_all add: wf_ip_def MakeIPv4_def is4_def fits_def bit_simps Address_make_def)
  ultimately show ?thesis
    using map_then_unmap [of ?a] by (auto split: sum.splits)
qed

text \<open>If \<open>unmapFromIPv6\<close> decodes an IPv6 address without a zone, mapping the decoded SCION
  address gives the same IPv6 address again.\<close>

theorem unmap_then_map:
  assumes "is6 ip" "zone ip = []" "unmapFromIPv6 ip = Inr a"
  shows "mapToIPv6 a = Inr ip"
  by (rule unmap_map [OF assms])

lemma unmap_then_map_witness:
  "\<exists>a. unmapFromIPv6 (MakeIPv6 0xfc10020000000000 5 []) = Inr a \<and>
     mapToIPv6 a = Inr (MakeIPv6 0xfc10020000000000 5 [])"
proof -
  let ?ip = "MakeIPv6 0xfc10020000000000 5 []"
  have "(case unmapFromIPv6 ?ip of Inl _ \<Rightarrow> False | Inr _ \<Rightarrow> True)" by code_simp
  then obtain a where "unmapFromIPv6 ?ip = Inr a" by (auto split: sum.splits)
  moreover have "is6 ?ip" "zone ?ip = []" by (simp_all add: MakeIPv6_def is6_def)
  ultimately show ?thesis using unmap_then_map [of ?ip a] by blast
qed

end
