(* ===== verification/Checksum.thy ===== *)
theory Checksum
  imports Address
begin

text \<open>
  The internet checksum helpers of \<open>include/scion/hdr/details.hpp\<close> and
  \<open>src/hdr/details.cpp\<close>: the scalar and the AVX2 one's complement sum, and the incremental
  update. The lemmas show that the AVX2 routine computes the scalar result at every
  alignment, and that the result is the one's complement sum as long as adding the carry
  once suffices; a second carry is lost.
\<close>

section \<open>The functions\<close>

text \<open>The 16-bit words of a buffer as the host loads them; a last odd byte is left out.\<close>

fun words16 :: "byte list \<Rightarrow> u16 list" where
  "words16 (a # b # bs) = load_le [a, b] # words16 bs"
| "words16 bs = []"

definition add_words :: "u32 \<Rightarrow> u16 list \<Rightarrow> u32" where
  "add_words s ws = foldl (\<lambda>sum word. sum + ucast (byteswapBE word)) s ws"

text \<open>\<open>(sum >> 16) + (sum & 0xffffu)\<close>\<close>

definition add_carry :: "u32 \<Rightarrow> u32" where
  "add_carry s = drop_bit 16 s + (s AND 0xffff)"

definition onesComplementChecksumScalar :: "byte list \<Rightarrow> u32 \<Rightarrow> u16" where
  "onesComplementChecksumScalar buffer inital =
     (let sizeWords = length buffer div 2;
          sum = add_words inital (words16 buffer);
          sum = (if length buffer > 2 * sizeWords then sum + push_bit 8 (ucast (last buffer)) else sum)
      in ucast (add_carry sum))"

text \<open>
  \<open>_mm_shuffle_epi8\<close> with the mask that swaps adjacent bytes, and the eight lanes
  \<open>_mm256_cvtepu16_epi32\<close> makes of the result.
\<close>

fun swap_adjacent :: "byte list \<Rightarrow> byte list" where
  "swap_adjacent (a # b # bs) = b # a # swap_adjacent bs"
| "swap_adjacent bs = bs"

definition lanes :: "byte list \<Rightarrow> u32 list" where
  "lanes block = map ucast (words16 (swap_adjacent block))"

text \<open>\<open>ptr\<close> is the address of the buffer; \<open>-ptr & 15\<close> is the distance to the next 16-byte boundary.\<close>

definition onesComplementChecksumAVX :: "nat \<Rightarrow> byte list \<Rightarrow> u32 \<Rightarrow> u16" where
  "onesComplementChecksumAVX ptr buffer inital =
     (if ptr mod 2 \<noteq> 0 then onesComplementChecksumScalar buffer inital
      else
        let size = length buffer;
            align = min ((16 - ptr mod 16) mod 16) size;
            sum = add_words inital (words16 (take (2 * (align div 2)) buffer));
            nblocks = (size - align) div 16;
            acc = foldl (\<lambda>acc k. map2 (+) acc (lanes (take 16 (drop (align + 16 * k) buffer))))
                    (replicate 8 0) [0..<nblocks];
            sum = foldl (+) sum acc;
            remainder = (size - align) mod 16;
            sum = add_words sum (words16 (take (2 * (remainder div 2)) (drop (align + 16 * nblocks) buffer)));
            sum = (if size mod 2 = 1 then sum + push_bit 8 (ucast (last buffer)) else sum)
        in ucast (add_carry sum))"

definition internetChecksum :: "byte list \<Rightarrow> u32 \<Rightarrow> u16" where
  "internetChecksum buffer inital = NOT (onesComplementChecksumScalar buffer inital)"

definition updateInternetChecksum :: "u16 \<Rightarrow> u32 \<Rightarrow> u32 \<Rightarrow> u16" where
  "updateInternetChecksum chksum add sub =
     (let sum = ucast (NOT chksum) :: u32;
          sum = sum + add - sub;
          sum = add_carry sum;
          sum = (if sum = 0 then 0xffff else sum)
      in ucast (NOT sum))"

definition checksumUint64 :: "u64 \<Rightarrow> u32" where
  "checksumUint64 x =
     ucast ((drop_bit 48 x AND 0xffff) + (drop_bit 32 x AND 0xffff))
     + ucast ((drop_bit 16 x AND 0xffff) + (x AND 0xffff))"

section \<open>The vectorised routine\<close>

lemma add_words_append: "add_words s (xs @ ys) = add_words (add_words s xs) ys"
  by (simp add: add_words_def)

lemma add_words_sum: "add_words s ws = s + sum_list (map (\<lambda>w. ucast (byteswapBE w)) ws)"
  by (induction ws arbitrary: s) (simp_all add: add_words_def add.assoc)

lemma words16_append: "even (length xs) \<Longrightarrow> words16 (xs @ ys) = words16 xs @ words16 ys"
  by (induction xs rule: words16.induct) auto

lemma words16_take_even: "words16 (take (2 * (length bs div 2)) bs) = words16 bs"
  by (induction bs rule: words16.induct) auto

lemma length_words16: "length (words16 bs) = length bs div 2"
  by (induction bs rule: words16.induct) auto

lemma lanes_byteswap: "lanes block = map (\<lambda>w. ucast (byteswapBE w)) (words16 block)"
proof -
  have swap: "(load_le [b, a] :: u16) = byteswapBE (load_le [a, b])" for a b :: byte
    using byteswapBE_load_le [of "[a, b]", where 'a = 16] unfolding load_le_def by simp
  show ?thesis
    unfolding lanes_def
  proof (induction block rule: words16.induct)
    case (1 a b bs)
    then show ?case using swap [of b a] by simp
  qed simp_all
qed

lemma sum_list_map2: "length xs = length ys \<Longrightarrow> sum_list (map2 (+) xs ys) = sum_list xs + sum_list (ys :: u32 list)"
  by (induction xs ys rule: list_induct2) (simp_all add: algebra_simps)

lemma foldl_plus: "foldl (+) s xs = s + sum_list (xs :: u32 list)"
  by (induction xs arbitrary: s) (simp_all add: add.assoc)

text \<open>The accumulator holds the sum of the words of the blocks so far.\<close>

lemma block_sum:
  assumes "16 * n \<le> length bs"
  defines "acc \<equiv> foldl (\<lambda>acc k. map2 (+) acc (lanes (take 16 (drop (16 * k) bs)))) (replicate 8 (0 :: u32)) [0..<n]"
  shows "length acc = 8 \<and> s + sum_list acc = add_words s (words16 (take (16 * n) bs))"
  using assms(1) unfolding acc_def
proof (induction n)
  case 0
  then show ?case by (simp add: add_words_def sum_list_replicate)
next
  case (Suc n)
  let ?acc = "foldl (\<lambda>acc k. map2 (+) acc (lanes (take 16 (drop (16 * k) bs)))) (replicate 8 (0 :: u32)) [0..<n]"
  let ?b = "take 16 (drop (16 * n) bs)"
  have IH: "length ?acc = 8" "s + sum_list ?acc = add_words s (words16 (take (16 * n) bs))"
    using Suc by auto
  have len: "length (lanes ?b) = 8" using Suc.prems by (simp add: lanes_byteswap length_words16)
  have "take (16 * Suc n) bs = take (16 * n) bs @ ?b"
    by (simp add: take_add [symmetric] add.commute)
  then have "words16 (take (16 * Suc n) bs) = words16 (take (16 * n) bs) @ words16 ?b"
    using Suc.prems by (simp add: words16_append)
  moreover have "s + sum_list (map2 (+) ?acc (lanes ?b)) = (s + sum_list ?acc) + sum_list (lanes ?b)"
    using IH(1) len by (simp add: sum_list_map2 add.assoc)
  ultimately show ?case
    using IH len by (simp add: add_words_append) (simp add: add_words_sum lanes_byteswap)
qed

lemma AVX_eq_scalar:
  "onesComplementChecksumAVX ptr buffer inital = onesComplementChecksumScalar buffer inital"
proof (cases "ptr mod 2 = 0")
  case False
  then show ?thesis by (simp add: onesComplementChecksumAVX_def)
next
  case True
  define size where "size = length buffer"
  define align where "align = min ((16 - ptr mod 16) mod 16) size"
  define nblocks where "nblocks = (size - align) div 16"
  define rest where "rest = drop align buffer"
  let ?head = "take (2 * (align div 2)) buffer"
  let ?tail = "take (2 * ((size - align) mod 16 div 2)) (drop (align + 16 * nblocks) buffer)"
  have even: "even align \<or> rest = []"
  proof (cases "align = size")
    case False
    then have "align = (16 - ptr mod 16) mod 16" by (simp add: align_def min_def split: if_splits)
    moreover have "even (ptr mod 16)" using True by (intro dvd_mod) (auto simp: even_iff_mod_2_eq_zero)
    ultimately show ?thesis by (auto intro!: dvd_mod)
  qed (simp add: rest_def size_def)
  have align_le: "align \<le> length buffer" by (simp add: align_def size_def)
  have nb: "16 * nblocks \<le> length rest" "length rest = size - align"
    by (simp_all add: nblocks_def rest_def size_def)
  have "length (drop (16 * nblocks) rest) = (size - align) mod 16"
    using nb by (simp add: nblocks_def minus_mult_div_eq_mod)
  then have tl: "words16 ?tail = words16 (drop (16 * nblocks) rest)"
    using words16_take_even [of "drop (16 * nblocks) rest"] by (simp add: rest_def add.commute)
  have "words16 buffer = words16 ?head @ words16 (take (16 * nblocks) rest) @ words16 (drop (16 * nblocks) rest)"
  proof (cases "even align")
    case e: True
    then have "buffer = ?head @ take (16 * nblocks) rest @ drop (16 * nblocks) rest"
      by (simp only: append_take_drop_id dvd_mult_div_cancel) (simp add: rest_def)
    moreover have "even (length ?head)" "even (length (take (16 * nblocks) rest))"
      using e nb align_le by (simp_all add: min_def)
    ultimately show ?thesis by (metis words16_append)
  next
    case False
    then have "rest = []" using even by simp
    moreover from this have "align = length buffer" by (simp add: rest_def align_def size_def)
    ultimately show ?thesis using words16_take_even [of buffer] by simp
  qed
  then have "add_words inital (words16 buffer) =
      add_words (add_words (add_words inital (words16 ?head)) (words16 (take (16 * nblocks) rest))) (words16 ?tail)"
    by (simp add: add_words_append tl)
  also have "add_words (add_words inital (words16 ?head)) (words16 (take (16 * nblocks) rest)) =
      foldl (+) (add_words inital (words16 ?head))
        (foldl (\<lambda>acc k. map2 (+) acc (lanes (take 16 (drop (align + 16 * k) buffer)))) (replicate 8 0) [0..<nblocks])"
    using block_sum [OF nb(1), of "add_words inital (words16 ?head)"]
    by (simp add: foldl_plus rest_def add.commute)
  moreover have "size mod 2 = 1 \<longleftrightarrow> length buffer > 2 * (length buffer div 2)"
    unfolding size_def by presburger
  ultimately show ?thesis
    using True unfolding onesComplementChecksumAVX_def onesComplementChecksumScalar_def Let_def
    by (simp add: size_def [symmetric] align_def [symmetric] nblocks_def [symmetric])
qed

section \<open>The one's complement sum\<close>

text \<open>The sum of the big-endian 16-bit words of a buffer, a last odd byte padded with zeros.\<close>

fun sum16 :: "byte list \<Rightarrow> nat" where
  "sum16 (a # b # bs) = 256 * unat a + unat b + sum16 bs"
| "sum16 [a] = 256 * unat a"
| "sum16 [] = 0"

lemma unat_byte: "unat (b :: byte) < 256"
proof -
  have "unat b < 2 ^ LENGTH(8)" by (rule unsigned_less)
  then show ?thesis by simp
qed

lemma be_word_of_nat:
  assumes "16 \<le> LENGTH('a::len)"
  shows "(push_bit 8 (ucast a) OR ucast (b :: byte) :: 'a word) = of_nat (256 * unat (a :: byte) + unat b)"
proof -
  have "(push_bit 8 (ucast a) OR ucast b :: 'a word) = push_bit 8 (ucast a) + ucast b"
    by (rule disjunctive_add [symmetric])
      (auto simp: bit_push_bit_iff bit_ucast_iff dest!: bit_imp_le_length)
  also have "(ucast c :: 'a word) = of_nat (unat c)" for c :: byte by simp
  then have "(push_bit 8 (ucast a) + ucast b :: 'a word) = push_bit 8 (of_nat (unat a)) + of_nat (unat b)"
    by (simp only:)
  finally show ?thesis by (simp only: push_bit_eq_mult of_nat_add of_nat_mult) (simp add: mult.commute)
qed

lemma byteswap_load_le: "byteswapBE (load_le [a, b] :: u16) = of_nat (256 * unat a + unat b)"
proof -
  have "byteswapBE (load_le [a, b] :: u16) = load_be [a, b]"
    by (rule byteswapBE_load_le) simp
  then show ?thesis using be_word_of_nat [of a b, where 'a = 16] by (simp add: load_be_def)
qed

lemma ucast_be_word: "(ucast (of_nat (256 * unat (a :: byte) + unat (b :: byte)) :: u16) :: u32) = of_nat (256 * unat a + unat b)"
proof -
  have "256 * unat a + unat b < 2 ^ 16" using unat_byte [of a] unat_byte [of b] by simp
  then have "take_bit 16 (256 * unat a + unat b) = 256 * unat a + unat b" by (rule take_bit_nat_eq_self)
  then show ?thesis
    by (intro word_unat_eq_iff [THEN iffD2]) (simp add: unsigned_ucast_eq unsigned_of_nat take_bit_take_bit del: of_nat_add of_nat_mult)
qed

lemma scalar_sum:
  "(if length buffer > 2 * (length buffer div 2)
    then add_words i (words16 buffer) + push_bit 8 (ucast (last buffer)) else add_words i (words16 buffer)) =
   i + of_nat (sum16 buffer)"
proof (induction buffer arbitrary: i rule: sum16.induct)
  case (1 a b bs)
  have "add_words i (words16 (a # b # bs)) = add_words (i + of_nat (256 * unat a + unat b)) (words16 bs)"
    using ucast_be_word [of a b] by (simp add: add_words_def byteswap_load_le del: of_nat_add of_nat_mult)
  moreover have "last (a # b # bs) = last bs" if "length bs > 2 * (length bs div 2)"
    using that by (cases bs) auto
  ultimately show ?case using 1 [of "i + of_nat (256 * unat a + unat b)"] by (auto simp: add.assoc split: if_splits)
next
  case (2 a)
  have "(push_bit 8 (ucast a) :: u32) = of_nat (256 * unat a)"
    using be_word_of_nat [of a 0, where 'a = 32] by simp
  then show ?case by (simp add: add_words_def)
qed (simp add: add_words_def)

lemma onesComplementChecksum_eq:
  "onesComplementChecksumScalar buffer i = ucast (add_carry (i + of_nat (sum16 buffer)))"
  using scalar_sum [of buffer i] unfolding onesComplementChecksumScalar_def Let_def by simp

lemma unat_add_carry: "unat (add_carry s) = unat s div 2 ^ 16 + unat s mod 2 ^ 16"
proof -
  have m: "(0xffff :: u32) = mask 16" by (simp add: mask_eq_exp_minus_1)
  have s: "unat s < 2 ^ LENGTH(32)" by (rule unsigned_less)
  have "unat (drop_bit 16 s) = unat s div 2 ^ 16" by (simp add: unat_drop_bit_eq drop_bit_nat_def)
  moreover have "unat (s AND 0xffff) = unat s mod 2 ^ 16"
    unfolding m by (simp add: take_bit_eq_mask [symmetric] unsigned_take_bit_eq take_bit_nat_def)
  moreover have "unat s div 2 ^ 16 + unat s mod 2 ^ 16 < 2 ^ 32" using s by simp
  ultimately show ?thesis
    by (simp add: add_carry_def unat_word_ariths)
qed

text \<open>One carry is added back; the result is the sum modulo \<open>2 ^ 16 - 1\<close> when that is enough.\<close>

lemma onesComplementChecksum_unat:
  assumes "unat i + sum16 buffer < 2 ^ 32"
  defines "S \<equiv> unat i + sum16 buffer"
  shows "unat (onesComplementChecksumScalar buffer i) = (S div 2 ^ 16 + S mod 2 ^ 16) mod 2 ^ 16"
proof -
  have "unat (i + of_nat (sum16 buffer)) = S"
    using assms by (simp add: unat_word_ariths unsigned_of_nat take_bit_nat_eq_self)
  then show ?thesis
    by (simp add: onesComplementChecksum_eq unsigned_ucast_eq unat_add_carry take_bit_nat_def)
qed

lemma carry_mod: "(S div 2 ^ 16 + S mod 2 ^ 16) mod (2 ^ 16 - 1) = S mod (2 ^ 16 - 1 :: nat)"
proof -
  have "S = S div 2 ^ 16 * (2 ^ 16 - 1) + (S div 2 ^ 16 + S mod 2 ^ 16)"
    using div_mult_mod_eq [of S "2 ^ 16"] by simp
  then show ?thesis by (metis mod_mult_self3)
qed

end
