(* ===== verification/MurmurHash3.thy ===== *)
theory MurmurHash3
  imports Prelude
begin

text \<open>
  The hash functions of \<open>src/murmur_hash3.cpp\<close>, which the flow labels of the header classes
  and the hashes of addresses use. The key is a byte list, its length is \<open>len\<close>; blocks are
  loaded from memory in host (little-endian) order. The fall-through \<open>switch\<close> statements
  become a sequence of conditional steps. The lemmas show that the tail is the little-endian
  load of the remaining bytes, that the final mixing is injective, and that the 32-bit hash
  is injective on keys of one block, as the flow label keys are.
\<close>

definition rotl32 :: "u32 \<Rightarrow> nat \<Rightarrow> u32" where
  "rotl32 x r = (push_bit r x OR drop_bit (32 - r) x)"

definition rotl64 :: "u64 \<Rightarrow> nat \<Rightarrow> u64" where
  "rotl64 x r = (push_bit r x OR drop_bit (64 - r) x)"

definition getblock32 :: "byte list \<Rightarrow> nat \<Rightarrow> u32" where
  "getblock32 p i = load_le (take 4 (drop (4 * i) p))"

definition getblock64 :: "byte list \<Rightarrow> nat \<Rightarrow> u64" where
  "getblock64 p i = load_le (take 8 (drop (8 * i) p))"

definition fmix32 :: "u32 \<Rightarrow> u32" where
  "fmix32 h =
     (let h = h XOR drop_bit 16 h;
          h = h * 0x85ebca6b;
          h = h XOR drop_bit 13 h;
          h = h * 0xc2b2ae35;
          h = h XOR drop_bit 16 h
      in h)"

definition fmix64 :: "u64 \<Rightarrow> u64" where
  "fmix64 k =
     (let k = k XOR drop_bit 33 k;
          k = k * 0xff51afd7ed558ccd;
          k = k XOR drop_bit 33 k;
          k = k * 0xc4ceb9fe1a85ec53;
          k = k XOR drop_bit 33 k
      in k)"

section \<open>MurmurHash3_x86_32\<close>

text \<open>\<open>k1 *= c1; k1 = ROTL32(k1, 15); k1 *= c2\<close>\<close>

definition mix32 :: "u32 \<Rightarrow> u32 \<Rightarrow> nat \<Rightarrow> u32 \<Rightarrow> u32" where
  "mix32 c1 c2 r k1 = rotl32 (k1 * c1) r * c2"

definition x86_32_block :: "u32 \<Rightarrow> u32 \<Rightarrow> u32" where
  "x86_32_block h1 k1 =
     (let h1 = h1 XOR mix32 0xcc9e2d51 0x1b873593 15 k1;
          h1 = rotl32 h1 13
      in h1 * 5 + 0xe6546b64)"

text \<open>\<open>case n: k ^= tail[i] << s;\<close> for a tail of \<open>len & m\<close> bytes\<close>

definition tail_xor :: "byte list \<Rightarrow> nat \<Rightarrow> nat \<Rightarrow> 'a::len word \<Rightarrow> 'a word" where
  "tail_xor tail i s k = (if i < length tail then k XOR push_bit s (ucast (tail ! i)) else k)"

definition MurmurHash3_x86_32 :: "byte list \<Rightarrow> u32 \<Rightarrow> u32" where
  "MurmurHash3_x86_32 key seed =
     (let nblocks = length key div 4;
          h1 = foldl (\<lambda>h1 i. x86_32_block h1 (getblock32 key i)) seed [0..<nblocks];
          tail = drop (nblocks * 4) key;
          k1 = tail_xor tail 0 0 (tail_xor tail 1 8 (tail_xor tail 2 16 0));
          h1 = (if length tail \<ge> 1 then h1 XOR mix32 0xcc9e2d51 0x1b873593 15 k1 else h1);
          h1 = h1 XOR of_nat (length key)
      in fmix32 h1)"

section \<open>MurmurHash3_x86_128\<close>

type_synonym state32 = "u32 \<times> u32 \<times> u32 \<times> u32"

definition x86_128_block :: "byte list \<Rightarrow> state32 \<Rightarrow> nat \<Rightarrow> state32" where
  "x86_128_block key st i =
     (case st of (h1, h2, h3, h4) \<Rightarrow>
        let k1 = getblock32 key (i * 4 + 0); k2 = getblock32 key (i * 4 + 1);
            k3 = getblock32 key (i * 4 + 2); k4 = getblock32 key (i * 4 + 3);
            h1 = h1 XOR mix32 0x239b961b 0xab0e9789 15 k1;
            h1 = rotl32 h1 19; h1 = h1 + h2; h1 = h1 * 5 + 0x561ccd1b;
            h2 = h2 XOR mix32 0xab0e9789 0x38b34ae5 16 k2;
            h2 = rotl32 h2 17; h2 = h2 + h3; h2 = h2 * 5 + 0x0bcaa747;
            h3 = h3 XOR mix32 0x38b34ae5 0xa1e38b93 17 k3;
            h3 = rotl32 h3 15; h3 = h3 + h4; h3 = h3 * 5 + 0x96cd1c35;
            h4 = h4 XOR mix32 0xa1e38b93 0x239b961b 18 k4;
            h4 = rotl32 h4 13; h4 = h4 + h1; h4 = h4 * 5 + 0x32ac3b17
        in (h1, h2, h3, h4))"

definition x86_128_tail :: "byte list \<Rightarrow> state32 \<Rightarrow> state32" where
  "x86_128_tail tail st =
     (case st of (h1, h2, h3, h4) \<Rightarrow>
        let k4 = tail_xor tail 12 0 (tail_xor tail 13 8 (tail_xor tail 14 16 0));
            h4 = (if length tail \<ge> 13 then h4 XOR mix32 0xa1e38b93 0x239b961b 18 k4 else h4);
            k3 = tail_xor tail 8 0 (tail_xor tail 9 8 (tail_xor tail 10 16 (tail_xor tail 11 24 0)));
            h3 = (if length tail \<ge> 9 then h3 XOR mix32 0x38b34ae5 0xa1e38b93 17 k3 else h3);
            k2 = tail_xor tail 4 0 (tail_xor tail 5 8 (tail_xor tail 6 16 (tail_xor tail 7 24 0)));
            h2 = (if length tail \<ge> 5 then h2 XOR mix32 0xab0e9789 0x38b34ae5 16 k2 else h2);
            k1 = tail_xor tail 0 0 (tail_xor tail 1 8 (tail_xor tail 2 16 (tail_xor tail 3 24 0)));
            h1 = (if length tail \<ge> 1 then h1 XOR mix32 0x239b961b 0xab0e9789 15 k1 else h1)
        in (h1, h2, h3, h4))"

text \<open>\<open>h1 += h2; h1 += h3; h1 += h4; h2 += h1; h3 += h1; h4 += h1;\<close>\<close>

definition x86_128_sum :: "state32 \<Rightarrow> state32" where
  "x86_128_sum st =
     (case st of (h1, h2, h3, h4) \<Rightarrow>
        let h1 = h1 + h2; h1 = h1 + h3; h1 = h1 + h4 in (h1, h2 + h1, h3 + h1, h4 + h1))"

definition MurmurHash3_x86_128 :: "byte list \<Rightarrow> u32 \<Rightarrow> state32" where
  "MurmurHash3_x86_128 key seed =
     (let nblocks = length key div 16;
          st = foldl (x86_128_block key) (seed, seed, seed, seed) [0..<nblocks];
          (h1, h2, h3, h4) = x86_128_tail (drop (nblocks * 16) key) st;
          len = of_nat (length key);
          (h1, h2, h3, h4) = x86_128_sum (h1 XOR len, h2 XOR len, h3 XOR len, h4 XOR len)
      in x86_128_sum (fmix32 h1, fmix32 h2, fmix32 h3, fmix32 h4))"

section \<open>MurmurHash3_x64_128\<close>

definition mix64 :: "u64 \<Rightarrow> u64 \<Rightarrow> nat \<Rightarrow> u64 \<Rightarrow> u64" where
  "mix64 c1 c2 r k1 = rotl64 (k1 * c1) r * c2"

definition x64_128_block :: "byte list \<Rightarrow> u64 \<times> u64 \<Rightarrow> nat \<Rightarrow> u64 \<times> u64" where
  "x64_128_block key st i =
     (case st of (h1, h2) \<Rightarrow>
        let k1 = getblock64 key (i * 2 + 0); k2 = getblock64 key (i * 2 + 1);
            h1 = h1 XOR mix64 0x87c37b91114253d5 0x4cf5ad432745937f 31 k1;
            h1 = rotl64 h1 27; h1 = h1 + h2; h1 = h1 * 5 + 0x52dce729;
            h2 = h2 XOR mix64 0x4cf5ad432745937f 0x87c37b91114253d5 33 k2;
            h2 = rotl64 h2 31; h2 = h2 + h1; h2 = h2 * 5 + 0x38495ab5
        in (h1, h2))"

definition x64_128_tail :: "byte list \<Rightarrow> u64 \<times> u64 \<Rightarrow> u64 \<times> u64" where
  "x64_128_tail tail st =
     (case st of (h1, h2) \<Rightarrow>
        let k2 = tail_xor tail 8 0 (tail_xor tail 9 8 (tail_xor tail 10 16 (tail_xor tail 11 24
                   (tail_xor tail 12 32 (tail_xor tail 13 40 (tail_xor tail 14 48 0))))));
            h2 = (if length tail \<ge> 9
                  then h2 XOR mix64 0x4cf5ad432745937f 0x87c37b91114253d5 33 k2 else h2);
            k1 = tail_xor tail 0 0 (tail_xor tail 1 8 (tail_xor tail 2 16 (tail_xor tail 3 24
                   (tail_xor tail 4 32 (tail_xor tail 5 40 (tail_xor tail 6 48 (tail_xor tail 7 56 0)))))));
            h1 = (if length tail \<ge> 1
                  then h1 XOR mix64 0x87c37b91114253d5 0x4cf5ad432745937f 31 k1 else h1)
        in (h1, h2))"

definition MurmurHash3_x64_128 :: "byte list \<Rightarrow> u32 \<Rightarrow> u64 \<times> u64" where
  "MurmurHash3_x64_128 key seed =
     (let nblocks = length key div 16;
          st = foldl (x64_128_block key) (ucast seed, ucast seed) [0..<nblocks];
          (h1, h2) = x64_128_tail (drop (nblocks * 16) key) st;
          h1 = h1 XOR of_nat (length key);
          h2 = h2 XOR of_nat (length key);
          h1 = h1 + h2; h2 = h2 + h1;
          h1 = fmix64 h1; h2 = fmix64 h2;
          h1 = h1 + h2; h2 = h2 + h1
      in (h1, h2))"

section \<open>Injectivity\<close>

text \<open>A xor with the own high half can be undone.\<close>

lemma xorshift_inj:
  fixes x y :: "'a::len word"
  assumes "0 < s" "x XOR drop_bit s x = y XOR drop_bit s y"
  shows "x = y"
proof -
  have eq: "bit x n \<noteq> bit x (n + s) \<longleftrightarrow> bit y n \<noteq> bit y (n + s)" if "n < LENGTH('a)" for n
    using arg_cong [OF assms(2), of "\<lambda>w. bit w n"] that
    by (auto simp: bit_xor_iff bit_drop_bit_eq add.commute)
  have "bit x n = bit y n" for n
  proof (induction "LENGTH('a) - n" arbitrary: n rule: less_induct)
    case less
    show ?case
    proof (cases "n < LENGTH('a)")
      case True
      then have "bit x (n + s) = bit y (n + s)" using less assms(1) by simp
      then show ?thesis using eq [OF True] by blast
    next
      case False
      then show ?thesis using bit_imp_le_length [of x n] bit_imp_le_length [of y n] by auto
    qed
  qed
  then show ?thesis by (simp add: bit_eq_iff)
qed

text \<open>Multiplication by an odd constant can be undone: the inverse is given.\<close>

lemma mult_inj:
  fixes x y c :: "'a::len word"
  assumes "c * d = 1" "x * c = y * c"
  shows "x = y"
  by (metis assms mult.assoc mult.right_neutral)

lemma fmix32_inj: "fmix32 x = fmix32 y \<Longrightarrow> x = y"
proof -
  have inv: "(0x85ebca6b :: u32) * 0xa5cb9243 = 1" "(0xc2b2ae35 :: u32) * 0x7ed1b41d = 1" by simp_all
  assume "fmix32 x = fmix32 y"
  then show "x = y"
    unfolding fmix32_def Let_def
    by (auto dest!: xorshift_inj [rotated] mult_inj [OF inv(1)] mult_inj [OF inv(2)])
qed

lemma fmix64_inj: "fmix64 x = fmix64 y \<Longrightarrow> x = y"
proof -
  have inv: "(0xff51afd7ed558ccd :: u64) * 0x4f74430c22a54005 = 1"
      "(0xc4ceb9fe1a85ec53 :: u64) * 0x9cb4b2f8129337db = 1" by simp_all
  assume "fmix64 x = fmix64 y"
  then show "x = y"
    unfolding fmix64_def Let_def
    by (auto dest!: xorshift_inj [rotated] mult_inj [OF inv(1)] mult_inj [OF inv(2)])
qed

section \<open>One block keys\<close>

lemma rotl32_inj: "0 < r \<Longrightarrow> r < 32 \<Longrightarrow> rotl32 x r = rotl32 y r \<Longrightarrow> x = y"
proof -
  assume r: "0 < r" "r < 32" and eq: "rotl32 x r = rotl32 y r"
  have b: "bit x n = bit y n" if "n < 32" for n
  proof (cases "n + r < 32")
    case True
    have "bit (rotl32 z r) (n + r) = bit z n" for z
      using True r bit_imp_le_length [of z "32 - r + (n + r)"]
      by (auto simp: rotl32_def bit_or_iff bit_push_bit_iff bit_drop_bit_eq)
    then show ?thesis using eq by metis
  next
    case False
    then have "bit (rotl32 z r) (n + r - 32) = bit z n" for z
      using r that by (auto simp: rotl32_def bit_or_iff bit_push_bit_iff bit_drop_bit_eq)
    then show ?thesis using eq by metis
  qed
  show "x = y" by (rule bit_word_eqI) (simp add: b)
qed

lemma mix32_inj:
  assumes "mix32 0xcc9e2d51 0x1b873593 15 x = mix32 0xcc9e2d51 0x1b873593 15 y"
  shows "x = y"
proof -
  have "rotl32 (x * 0xcc9e2d51) 15 = rotl32 (y * 0xcc9e2d51) 15"
    by (rule mult_inj [of _ "0x56ed309b"]) (use assms in \<open>simp_all add: mix32_def\<close>)
  then have "x * 0xcc9e2d51 = y * 0xcc9e2d51" by (rule rotl32_inj [rotated 2]) simp_all
  then show ?thesis by (rule mult_inj [of _ "0xdee13bb1", rotated]) simp
qed

lemma xor_inj: "a XOR x = a XOR y \<Longrightarrow> x = (y :: 'a::len word)"
  by (metis bit.xor_left_self)

lemma x86_32_block_inj: "x86_32_block h x = x86_32_block h y \<Longrightarrow> x = y"
proof -
  assume "x86_32_block h x = x86_32_block h y"
  then have "rotl32 (h XOR mix32 0xcc9e2d51 0x1b873593 15 x) 13 * 5 =
      rotl32 (h XOR mix32 0xcc9e2d51 0x1b873593 15 y) 13 * 5"
    by (simp add: x86_32_block_def Let_def)
  then have "rotl32 (h XOR mix32 0xcc9e2d51 0x1b873593 15 x) 13 =
      rotl32 (h XOR mix32 0xcc9e2d51 0x1b873593 15 y) 13"
    by (rule mult_inj [of 5 "0xcccccccd", rotated]) simp
  then have "h XOR mix32 0xcc9e2d51 0x1b873593 15 x = h XOR mix32 0xcc9e2d51 0x1b873593 15 y"
    by (rule rotl32_inj [rotated 2]) simp_all
  then show "x = y" using xor_inj mix32_inj by blast
qed

lemma getblock32_store: "getblock32 (store_le 4 w) 0 = w"
  by (simp add: getblock32_def load_le_def store_le_def load_be_store_be)

lemma MurmurHash3_word: "MurmurHash3_x86_32 (store_le 4 w) seed = fmix32 (x86_32_block seed w XOR 4)"
  by (simp add: MurmurHash3_x86_32_def getblock32_store tail_xor_def)

lemma MurmurHash3_word_inj:
  fixes v w :: u32
  shows "MurmurHash3_x86_32 (store_le 4 v) seed = MurmurHash3_x86_32 (store_le 4 w) seed \<longleftrightarrow> v = w"
proof
  assume "MurmurHash3_x86_32 (store_le 4 v) seed = MurmurHash3_x86_32 (store_le 4 w) seed"
  then have "x86_32_block seed v XOR 4 = x86_32_block seed w XOR 4"
    using fmix32_inj by (simp add: MurmurHash3_word)
  then have "x86_32_block seed v = x86_32_block seed w"
    by (metis xor_inj xor.commute)
  then show "v = w" by (rule x86_32_block_inj)
qed simp

section \<open>The tail\<close>

text \<open>The fall-through switch over \<open>len & 3\<close> loads the tail in little-endian order.\<close>

lemma byte_bit_high: "8 \<le> n \<Longrightarrow> \<not> bit (b :: byte) n"
  using bit_imp_le_length [of b n] by auto

lemma tail_xor_3:
  assumes "length tail < 4"
  shows "tail_xor tail 0 0 (tail_xor tail 1 8 (tail_xor tail 2 16 (0 :: u32))) = load_le tail"
proof -
  consider "tail = []" | a where "tail = [a]" | a b where "tail = [a, b]" | a b c where "tail = [a, b, c]"
    using assms by (cases tail; cases "tl tail"; cases "tl (tl tail)"; cases "tl (tl (tl tail))") auto
  then show ?thesis
    by cases
      (auto intro!: bit_word_eqI simp: tail_xor_def load_le_def load_be_def bit_xor_iff bit_or_iff
        bit_push_bit_iff bit_ucast_iff byte_bit_high)
qed

end
