(* ===== verification/HdrScion.thy ===== *)
theory HdrScion
  imports Checksum MurmurHash3
begin

text \<open>
  The SCION common and address header, the path meta header, info and hop fields and the
  extension headers and options of \<open>include/scion/hdr/scion.hpp\<close>, and the UDP and Ethernet
  headers of \<open>include/scion/hdr/udp.hpp\<close> and \<open>ethernet.hpp\<close>. Each class is a record, its
  \<open>serialize\<close> template a function over either stream; enumerations over bytes are bytes.
  Each header is an instance of one of the codec contracts.
\<close>

section \<open>Constants and flags\<close>

definition ScionProto_TCP :: byte where "ScionProto_TCP = 6"
definition ScionProto_UDP :: byte where "ScionProto_UDP = 17"
definition ScionProto_HBHOpt :: byte where "ScionProto_HBHOpt = 200"
definition ScionProto_E2EOpt :: byte where "ScionProto_E2EOpt = 201"
definition ScionProto_SCMP :: byte where "ScionProto_SCMP = 202"
definition ScionProto_BFD :: byte where "ScionProto_BFD = 203"

definition PathType_Empty :: byte where "PathType_Empty = 0"
definition PathType_SCION :: byte where "PathType_SCION = 1"

definition OptType_Pad1 :: byte where "OptType_Pad1 = 0"
definition OptType_SPAO :: byte where "OptType_SPAO = 2"
definition OptType_IdInt :: byte where "OptType_IdInt = 253"
definition OptType_IdIntEntry :: byte where "OptType_IdIntEntry = 254"

text \<open>\<open>FlagSet::operator[]\<close> and the assignment through \<open>FlagProxy\<close>\<close>

definition flag_get :: "'a::len word \<Rightarrow> 'a word \<Rightarrow> bool" where
  "flag_get flags flag \<longleftrightarrow> (flags AND flag) \<noteq> 0"

definition flag_set :: "'a::len word \<Rightarrow> 'a word \<Rightarrow> bool \<Rightarrow> 'a word" where
  "flag_set flags flag value = (if value then flags OR flag else flags AND NOT flag)"

section \<open>The SCION header\<close>

record SCION =
  sc_qos :: byte
  sc_hlen :: byte
  sc_nh :: byte
  sc_ptype :: byte
  sc_plen :: u16
  sc_fl :: u32
  sc_dst :: ScIPAddress
  sc_src :: ScIPAddress

definition SCION_checksum :: "SCION \<Rightarrow> u16 \<Rightarrow> byte \<Rightarrow> u32" where
  "SCION_checksum h len nh =
     Address_checksum (sc_dst h) + Address_checksum (sc_src h) + ucast len + ucast nh"

definition SCION_size :: "SCION \<Rightarrow> nat" where
  "SCION_size h = 12 + Address_size (sc_dst h) + Address_size (sc_src h)"

text \<open>\<open>4 * hlen - size()\<close> is computed in \<open>size_t\<close>.\<close>

definition SCION_pathSize :: "SCION \<Rightarrow> u64" where
  "SCION_pathSize h = of_nat (4 * unat (sc_hlen h)) - of_nat (SCION_size h)"

definition SCION_serialize :: "SCION \<Rightarrow> SCION ser" where
  "SCION_serialize h =
     ser_bind (serializeBits (0 :: byte) 4) (\<lambda>ver.
     ser_bind (read_check (ver \<noteq> 0) ''unknown SCION version'') (\<lambda>_.
     ser_bind (serializeByte (sc_qos h)) (\<lambda>qos.
     ser_bind (serializeBits (sc_fl h) 20) (\<lambda>fl.
     ser_bind (serializeByte (sc_nh h)) (\<lambda>nh.
     ser_bind (serializeByte (sc_hlen h)) (\<lambda>hlen.
     ser_bind (read_check (hlen < 9) ''invalid SCION header'') (\<lambda>_.
     ser_bind (serializeUint16 (sc_plen h)) (\<lambda>plen.
     ser_bind (serializeByte (sc_ptype h)) (\<lambda>ptype.
     ser_bind (serializeBits (HostAddrType_code (AddressTraits_type (a_host (sc_dst h)))) 4) (\<lambda>dstType.
     ser_bind (serializeBits (HostAddrType_code (AddressTraits_type (a_host (sc_src h)))) 4) (\<lambda>srcType.
     ser_bind (read_check (dstType \<noteq> HostAddrType_code HostAddrIPv4 \<and> dstType \<noteq> HostAddrType_code HostAddrIPv6)
       ''unsupported host address type'') (\<lambda>_.
     ser_bind (read_check (srcType \<noteq> HostAddrType_code HostAddrIPv4 \<and> srcType \<noteq> HostAddrType_code HostAddrIPv6)
       ''unsupported host address type'') (\<lambda>_.
     ser_bind (advanceBytes 2) (\<lambda>_.
     ser_bind (IsdAsn_serialize (a_ia (sc_dst h))) (\<lambda>dst_ia.
     ser_bind (IsdAsn_serialize (a_ia (sc_src h))) (\<lambda>src_ia.
     ser_bind (IPAddress_serialize (dstType = HostAddrType_code HostAddrIPv4) (a_host (sc_dst h))) (\<lambda>dst_host.
     ser_bind (IPAddress_serialize (srcType = HostAddrType_code HostAddrIPv4) (a_host (sc_src h))) (\<lambda>src_host.
     ser_return
       \<lparr>sc_qos = qos, sc_hlen = hlen, sc_nh = nh, sc_ptype = ptype, sc_plen = plen, sc_fl = fl,
        sc_dst = \<lparr>a_ia = dst_ia, a_host = dst_host\<rparr>,
        sc_src = \<lparr>a_ia = src_ia, a_host = src_host\<rparr>\<rparr>))))))))))))))))))"

definition SCION_bits :: "SCION \<Rightarrow> bool list" where
  "SCION_bits h =
     to_bits 4 (0 :: byte) @ to_bits 8 (sc_qos h) @ to_bits 20 (sc_fl h) @ to_bits 8 (sc_nh h)
     @ to_bits 8 (sc_hlen h) @ to_bits 16 (sc_plen h) @ to_bits 8 (sc_ptype h)
     @ to_bits 4 (HostAddrType_code (AddressTraits_type (a_host (sc_dst h))))
     @ to_bits 4 (HostAddrType_code (AddressTraits_type (a_host (sc_src h))))
     @ replicate (8 * 2) False @ to_bits 64 (a_ia (sc_dst h)) @ to_bits 64 (a_ia (sc_src h))
     @ IPAddress_bits (a_host (sc_dst h)) @ IPAddress_bits (a_host (sc_src h))"

definition valid_SCION :: "SCION \<Rightarrow> bool" where
  "valid_SCION h \<longleftrightarrow> fits 20 (sc_fl h) \<and> 9 \<le> sc_hlen h
     \<and> wf_ip (a_host (sc_dst h)) \<and> zone (a_host (sc_dst h)) = []
     \<and> wf_ip (a_host (sc_src h)) \<and> zone (a_host (sc_src h)) = []"

section \<open>Path meta header, info and hop fields\<close>

record PathMeta =
  pm_currInf :: byte
  pm_currHf :: byte
  pm_segLen :: "byte list"

definition PathMeta_segmentCount :: "PathMeta \<Rightarrow> nat" where
  "PathMeta_segmentCount m =
     of_bool (pm_segLen m ! 0 > 0) + of_bool (pm_segLen m ! 1 > 0) + of_bool (pm_segLen m ! 2 > 0)"

definition PathMeta_hopFieldCount :: "PathMeta \<Rightarrow> nat" where
  "PathMeta_hopFieldCount m =
     unat (pm_segLen m ! 0) + unat (pm_segLen m ! 1) + unat (pm_segLen m ! 2)"

definition PathMeta_segmentBegin :: "PathMeta \<Rightarrow> nat \<Rightarrow> nat" where
  "PathMeta_segmentBegin m segment =
     (if segment = 0 then 0
      else if segment = 1 then unat (pm_segLen m ! 0)
      else if segment = 2 then unat (pm_segLen m ! 0) + unat (pm_segLen m ! 1)
      else unat (pm_segLen m ! 0) + unat (pm_segLen m ! 1) + unat (pm_segLen m ! 2))"

definition PathMeta_serialize :: "PathMeta \<Rightarrow> PathMeta ser" where
  "PathMeta_serialize m =
     ser_bind (serializeBits (pm_currInf m) 2) (\<lambda>currInf.
     ser_bind (serializeBits (pm_currHf m) 6) (\<lambda>currHf.
     ser_bind (advanceBits 6) (\<lambda>_.
     ser_bind (serializeBits (pm_segLen m ! 0) 6) (\<lambda>s0.
     ser_bind (serializeBits (pm_segLen m ! 1) 6) (\<lambda>s1.
     ser_bind (serializeBits (pm_segLen m ! 2) 6) (\<lambda>s2.
     let m' = \<lparr>pm_currInf = currInf, pm_currHf = currHf, pm_segLen = [s0, s1, s2]\<rparr> in
     ser_bind (read_check ((s2 > 0 \<and> s1 = 0) \<or> (s1 > 0 \<and> s0 = 0)) ''invalid path meta header'') (\<lambda>_.
     ser_bind (read_check (unat currInf \<ge> PathMeta_segmentCount m') ''invalid path meta header'') (\<lambda>_.
     ser_bind (read_check (unat currHf \<ge> PathMeta_hopFieldCount m') ''invalid path meta header'') (\<lambda>_.
     ser_return m')))))))))"

definition PathMeta_bits :: "PathMeta \<Rightarrow> bool list" where
  "PathMeta_bits m =
     to_bits 2 (pm_currInf m) @ to_bits 6 (pm_currHf m) @ replicate 6 False
     @ to_bits 6 (pm_segLen m ! 0) @ to_bits 6 (pm_segLen m ! 1) @ to_bits 6 (pm_segLen m ! 2)"

definition valid_PathMeta :: "PathMeta \<Rightarrow> bool" where
  "valid_PathMeta m \<longleftrightarrow>
     fits 2 (pm_currInf m) \<and> fits 6 (pm_currHf m) \<and> length (pm_segLen m) = 3
     \<and> (\<forall>s \<in> set (pm_segLen m). fits 6 s)
     \<and> (pm_segLen m ! 2 > 0 \<longrightarrow> pm_segLen m ! 1 > 0) \<and> (pm_segLen m ! 1 > 0 \<longrightarrow> pm_segLen m ! 0 > 0)
     \<and> unat (pm_currInf m) < PathMeta_segmentCount m
     \<and> unat (pm_currHf m) < PathMeta_hopFieldCount m"

record InfoField =
  if_flags :: byte
  if_segid :: u16
  if_timestamp :: u32

definition InfoField_ConsDir :: byte where "InfoField_ConsDir = 1"
definition InfoField_Peering :: byte where "InfoField_Peering = 2"

definition InfoField_serialize :: "InfoField \<Rightarrow> InfoField ser" where
  "InfoField_serialize f =
     ser_bind (serializeByte (if_flags f)) (\<lambda>flags.
     ser_bind (advanceBytes 1) (\<lambda>_.
     ser_bind (serializeUint16 (if_segid f)) (\<lambda>segid.
     ser_bind (serializeUint32 (if_timestamp f)) (\<lambda>timestamp.
     ser_return \<lparr>if_flags = flags, if_segid = segid, if_timestamp = timestamp\<rparr>))))"

definition InfoField_bits :: "InfoField \<Rightarrow> bool list" where
  "InfoField_bits f =
     to_bits 8 (if_flags f) @ replicate (8 * 1) False @ to_bits 16 (if_segid f) @ to_bits 32 (if_timestamp f)"

record HopField =
  hf_flags :: byte
  hf_expTime :: byte
  hf_consIngress :: u16
  hf_consEgress :: u16
  hf_mac :: "byte list"

text \<open>\<open>((1 + expTime) * 24 * 60 * 60) / 256\<close> in \<open>int\<close>, which does not overflow.\<close>

definition HopField_relativeExpiry :: "HopField \<Rightarrow> nat" where
  "HopField_relativeExpiry f = ((1 + unat (hf_expTime f)) * 24 * 60 * 60) div 256"

definition HopField_serialize :: "HopField \<Rightarrow> HopField ser" where
  "HopField_serialize f =
     ser_bind (serializeByte (hf_flags f)) (\<lambda>flags.
     ser_bind (serializeByte (hf_expTime f)) (\<lambda>expTime.
     ser_bind (serializeUint16 (hf_consIngress f)) (\<lambda>consIngress.
     ser_bind (serializeUint16 (hf_consEgress f)) (\<lambda>consEgress.
     ser_bind (serializeBytes (hf_mac f)) (\<lambda>mac.
     ser_return \<lparr>hf_flags = flags, hf_expTime = expTime, hf_consIngress = consIngress,
                 hf_consEgress = consEgress, hf_mac = mac\<rparr>)))))"

definition HopField_bits :: "HopField \<Rightarrow> bool list" where
  "HopField_bits f =
     to_bits 8 (hf_flags f) @ to_bits 8 (hf_expTime f) @ to_bits 16 (hf_consIngress f)
     @ to_bits 16 (hf_consEgress f) @ bits_of (hf_mac f)"

definition valid_HopField :: "HopField \<Rightarrow> bool" where
  "valid_HopField f \<longleftrightarrow> length (hf_mac f) = 6"

section \<open>Extension headers and options\<close>

text \<open>\<open>HopByHopOpts\<close> and \<open>EndToEndOpts\<close> have the same members and operations.\<close>

record ExtOpts =
  eo_nh :: byte
  eo_extLen :: byte

definition ExtOpts_optionSize :: "ExtOpts \<Rightarrow> nat" where
  "ExtOpts_optionSize h = 4 * unat (eo_extLen h) + 2"

definition HopByHopOpts_serialize :: "ExtOpts \<Rightarrow> ExtOpts ser" where
  "HopByHopOpts_serialize h =
     ser_bind (serializeByte (eo_nh h)) (\<lambda>nh.
     ser_bind (serializeByte (eo_extLen h)) (\<lambda>extLen.
     ser_return \<lparr>eo_nh = nh, eo_extLen = extLen\<rparr>))"

definition EndToEndOpts_serialize :: "ExtOpts \<Rightarrow> ExtOpts ser" where
  "EndToEndOpts_serialize h =
     ser_bind (serializeByte (eo_nh h)) (\<lambda>nh.
     ser_bind (serializeByte (eo_extLen h)) (\<lambda>extLen.
     ser_return \<lparr>eo_nh = nh, eo_extLen = extLen\<rparr>))"

definition ExtOpts_bits :: "ExtOpts \<Rightarrow> bool list" where
  "ExtOpts_bits h = to_bits 8 (eo_nh h) @ to_bits 8 (eo_extLen h)"

record SciOpt =
  so_type :: byte
  so_dataLen :: byte

definition SciOpt_size :: "SciOpt \<Rightarrow> nat" where
  "SciOpt_size opt = (if so_type opt = OptType_Pad1 then 1 else 2 + unat (so_dataLen opt))"

definition SciOpt_serialize :: "SciOpt \<Rightarrow> SciOpt ser" where
  "SciOpt_serialize opt =
     ser_bind (serializeByte (so_type opt)) (\<lambda>type.
     if type \<noteq> OptType_Pad1 then
       ser_bind (serializeByte (so_dataLen opt)) (\<lambda>dataLen.
       ser_bind (advanceBytes (unat dataLen)) (\<lambda>_.
       ser_return \<lparr>so_type = type, so_dataLen = dataLen\<rparr>))
     else ser_return \<lparr>so_type = type, so_dataLen = so_dataLen opt\<rparr>)"

record AuthenticatorOpt =
  ao_dataLen :: byte
  ao_algorithm :: byte
  ao_spi :: u32
  ao_timestamp :: u64
  ao_authenticator :: "byte list"

definition AuthenticatorOpt_minDataLen :: nat where "AuthenticatorOpt_minDataLen = 12"

definition AuthenticatorOpt_getAuthSize :: "byte \<Rightarrow> nat" where
  "AuthenticatorOpt_getAuthSize dataLen = unat dataLen - AuthenticatorOpt_minDataLen"

definition AuthenticatorOpt_setAuthSize :: "nat \<Rightarrow> AuthenticatorOpt \<Rightarrow> AuthenticatorOpt" where
  "AuthenticatorOpt_setAuthSize n opt = opt\<lparr>ao_dataLen := of_nat (AuthenticatorOpt_minDataLen + n)\<rparr>"

text \<open>The valid range of the authenticator, for the given \<open>dataLen\<close>.\<close>

definition AuthenticatorOpt_getAuth :: "AuthenticatorOpt \<Rightarrow> byte \<Rightarrow> byte list" where
  "AuthenticatorOpt_getAuth opt dataLen =
     take (min (AuthenticatorOpt_getAuthSize dataLen) (length (ao_authenticator opt))) (ao_authenticator opt)"

definition AuthenticatorOpt_size :: "AuthenticatorOpt \<Rightarrow> nat" where
  "AuthenticatorOpt_size opt = 2 + unat (ao_dataLen opt)"

definition AuthenticatorOpt_serialize :: "AuthenticatorOpt \<Rightarrow> AuthenticatorOpt ser" where
  "AuthenticatorOpt_serialize opt =
     ser_bind (serializeByte OptType_SPAO) (\<lambda>type.
     ser_bind (read_check (type \<noteq> OptType_SPAO) ''incorrect option type'') (\<lambda>_.
     ser_bind (serializeByte (ao_dataLen opt)) (\<lambda>dataLen.
     ser_bind (read_check (unat dataLen < AuthenticatorOpt_minDataLen) ''invalid option'') (\<lambda>_.
     ser_bind (read_check (AuthenticatorOpt_getAuthSize dataLen > length (ao_authenticator opt))
       ''authenticator too large'') (\<lambda>_.
     ser_bind (serializeUint32 (ao_spi opt)) (\<lambda>spi.
     ser_bind (serializeByte (ao_algorithm opt)) (\<lambda>algorithm.
     ser_bind (advanceBytes 1) (\<lambda>_.
     ser_bind (serializeBits (ao_timestamp opt) 48) (\<lambda>timestamp.
     ser_bind (serializeBytes (AuthenticatorOpt_getAuth opt dataLen)) (\<lambda>auth.
     ser_return \<lparr>ao_dataLen = dataLen, ao_algorithm = algorithm, ao_spi = spi, ao_timestamp = timestamp,
                 ao_authenticator = overwrite (ao_authenticator opt) 0 auth\<rparr>))))))))))"

section \<open>UDP and Ethernet\<close>

record UDP =
  udp_sport :: u16
  udp_dport :: u16
  udp_len :: u16
  udp_chksum :: u16

definition UDP_checksum :: "UDP \<Rightarrow> u32" where
  "UDP_checksum h = ucast (udp_sport h) + ucast (udp_dport h) + ucast (udp_len h) + ucast (udp_chksum h)"

definition UDP_size :: nat where "UDP_size = 8"

definition UDP_setPayload :: "byte list \<Rightarrow> UDP \<Rightarrow> UDP" where
  "UDP_setPayload payload h = h\<lparr>udp_len := of_nat (UDP_size + length payload)\<rparr>"

definition UDP_flowLabel :: "UDP \<Rightarrow> u32" where
  "UDP_flowLabel h =
     (let key = push_bit 16 (ucast ScionProto_UDP) OR push_bit 8 (ucast (udp_sport h)) OR ucast (udp_dport h) :: u32
      in MurmurHash3_x86_32 (store_le 4 key) 0)"

definition UDP_serialize :: "UDP \<Rightarrow> UDP ser" where
  "UDP_serialize h =
     ser_bind (serializeUint16 (udp_sport h)) (\<lambda>sport.
     ser_bind (serializeUint16 (udp_dport h)) (\<lambda>dport.
     ser_bind (serializeUint16 (udp_len h)) (\<lambda>len.
     ser_bind (serializeUint16 (udp_chksum h)) (\<lambda>chksum.
     ser_return \<lparr>udp_sport = sport, udp_dport = dport, udp_len = len, udp_chksum = chksum\<rparr>))))"

definition UDP_bits :: "UDP \<Rightarrow> bool list" where
  "UDP_bits h =
     to_bits 16 (udp_sport h) @ to_bits 16 (udp_dport h) @ to_bits 16 (udp_len h) @ to_bits 16 (udp_chksum h)"

record Ethernet =
  eth_dst :: "byte list"
  eth_src :: "byte list"
  eth_type :: u16

definition Ethernet_serialize :: "Ethernet \<Rightarrow> Ethernet ser" where
  "Ethernet_serialize h =
     ser_bind (serializeBytes (eth_dst h)) (\<lambda>dst.
     ser_bind (serializeBytes (eth_src h)) (\<lambda>src.
     ser_bind (serializeUint16 (eth_type h)) (\<lambda>type.
     ser_return \<lparr>eth_dst = dst, eth_src = src, eth_type = type\<rparr>)))"

definition Ethernet_bits :: "Ethernet \<Rightarrow> bool list" where
  "Ethernet_bits h = bits_of (eth_dst h) @ bits_of (eth_src h) @ to_bits 16 (eth_type h)"

definition valid_Ethernet :: "Ethernet \<Rightarrow> bool" where
  "valid_Ethernet h \<longleftrightarrow> length (eth_dst h) = 6 \<and> length (eth_src h) = 6"

end
