(* ===== verification/HdrScionSpec.thy ===== *)
theory HdrScionSpec
  imports HdrScion
begin

text \<open>
  The wire formats of the headers of \<open>HdrScion\<close>: each \<open>serialize\<close> satisfies a codec
  contract, so that writing and reading are inverse, encodings are prefix free, readers
  accept only valid headers and, where no bits are reserved, exactly the encodings.
\<close>

lemma fits_host_type [simp]: "fits 4 (HostAddrType_code t)"
  by (cases t) (simp_all add: fits_def)

lemma fits_const [simp]: "fits 4 (0 :: byte)"
  by simp

lemma IsdAsn_steps:
  "k mod 8 = 0 \<Longrightarrow> writesB k (IsdAsn_serialize ia) (to_bits 64 ia) ia"
  "k mod 8 = 0 \<Longrightarrow> readsB k (IsdAsn_serialize ia0) (to_bits 64 ia) ia"
  by (simp_all add: IsdAsn_serialize_def writes_rules reads_rules)

lemma writesB_host:
  assumes "v4 = is4 a" "wf_ip a" "zone a = []" "k mod 8 = 0"
  shows "writesB k (IPAddress_serialize v4 a) (IPAddress_bits a) a"
  using ip4.writes_aligned [of a k] ip6.writes_aligned [of a k] assms by (cases v4) auto

lemma readsB_host:
  assumes "v4 = is4 a" "wf_ip a" "zone a = []" "k mod 8 = 0"
  shows "readsB k (IPAddress_serialize v4 a0) (IPAddress_bits a) a"
  using ip4.reads_aligned [of a k a0] ip6.reads_aligned [of a k a0] assms by (cases v4) auto

lemma host_type_code [simp]:
  "HostAddrType_code (AddressTraits_type a) = HostAddrType_code HostAddrIPv4 \<longleftrightarrow> is4 a"
  "HostAddrType_code (AddressTraits_type a) = HostAddrType_code HostAddrIPv6 \<longleftrightarrow> \<not> is4 a"
  by (simp_all add: AddressTraits_type_def)

declare HostAddrType_code.simps [simp del]

lemma length_IPAddress_bits: "length (IPAddress_bits a) = (if is4 a then 32 else 128)"
  by (simp add: IPAddress_bits_def)

lemma SCION_bits_length: "length (SCION_bits h) = 8 * SCION_size h"
  by (simp add: SCION_bits_def SCION_size_def Address_size_def IsdAsn_size_def IPAddress_size_def
      length_IPAddress_bits)

lemma SCION_writes: "valid_SCION h \<Longrightarrow> writesB 0 (SCION_serialize h) (SCION_bits h) h"
  unfolding SCION_serialize_def SCION_bits_def valid_SCION_def
  by (cases "is4 (a_host (sc_dst h))";
      (rule writes_steps IsdAsn_steps writesB_host SCION.equality ScIPAddress.equality | simp add: length_IPAddress_bits)+)

lemma SCION_reads: "valid_SCION h \<Longrightarrow> readsB 0 (SCION_serialize h0) (SCION_bits h) h"
  unfolding SCION_serialize_def SCION_bits_def valid_SCION_def
  by (cases "is4 (a_host (sc_dst h))";
      (rule reads_steps IsdAsn_steps readsB_host SCION.equality ScIPAddress.equality | simp add: length_IPAddress_bits not_less)+)

lemma getsB_at: "getsB 0 m Q \<Longrightarrow> k mod 8 = 0 \<Longrightarrow> getsB k m Q"
  by (simp add: getsB_def)

lemma getsB_step_host:
  assumes "k mod 8 = 0"
    and "\<And>a. wf_ip a \<Longrightarrow> zone a = [] \<Longrightarrow> is4 a = v4 \<Longrightarrow>
      getsB (k + length (IPAddress_bits a)) (f a) (\<lambda>c bs. R c (IPAddress_bits a @ bs))"
  shows "getsB k (ser_bind (IPAddress_serialize v4 a0) f) R"
proof (cases v4)
  case True
  then have T: "v4 = True" by simp
  show ?thesis
    unfolding T
    by (rule getsB_bind [OF getsB_at [OF getsB_IPAddress4 assms(1)]])
      (use assms(2) True in \<open>auto simp: wf_ip_def\<close>)
next
  case False
  then have F: "v4 = False" by simp
  show ?thesis
    unfolding F
    by (rule getsB_bind [OF getsB_at [OF getsB_IPAddress6 assms(1)]])
      (use assms(2) False in \<open>auto simp: wf_ip_def\<close>)
qed

lemma getsB_step_ia:
  assumes "k mod 8 = 0" "\<And>v. getsB (k + 64) (f v) (\<lambda>c bs. R c (to_bits 64 v @ bs))"
  shows "getsB k (ser_bind (IsdAsn_serialize ia0) f) R"
  unfolding IsdAsn_serialize_def using assms by (rule getsB_step_u64)

lemma host_type_is4: "HostAddrType_code HostAddrIPv4 \<noteq> HostAddrType_code HostAddrIPv6"
  by (simp add: HostAddrType_code.simps)

lemma SCION_checks:
  "getsB 0 (SCION_serialize h0) (\<lambda>v bs. valid_SCION v \<and> length bs = length (SCION_bits v))"
  unfolding SCION_serialize_def
  by (intro gets_steps getsB_step_ia getsB_step_host)
    (auto simp: valid_SCION_def SCION_bits_def length_IPAddress_bits not_less)

interpretation scion: checked_codec SCION_serialize SCION_bits valid_SCION "\<lambda>_. True"
proof
  show "length (SCION_bits h) mod 8 = 0" for h by (simp add: SCION_bits_length)
qed (blast intro: SCION_writes SCION_reads SCION_checks)+

section \<open>Path meta header, info and hop fields\<close>

lemma list_3: "length l = 3 \<Longrightarrow> [l ! 0, l ! 1, l ! 2] = l"
  by (intro nth_equalityI) (auto simp: less_Suc_eq numeral_eq_Suc)

text \<open>The header as the reader puts it together.\<close>

lemma PathMeta_eta:
  "valid_PathMeta m \<Longrightarrow>
   \<lparr>pm_currInf = pm_currInf m, pm_currHf = pm_currHf m,
    pm_segLen = [pm_segLen m ! 0, pm_segLen m ! 1, pm_segLen m ! 2]\<rparr> = m"
  by (cases m) (simp add: valid_PathMeta_def list_3 [simplified])

lemma valid_PathMeta_fits:
  assumes "valid_PathMeta m"
  shows "fits 2 (pm_currInf m)" "fits 6 (pm_currHf m)" "fits 6 (pm_segLen m ! 0)"
    "fits 6 (pm_segLen m ! 1)" "fits 6 (pm_segLen m ! 2)"
    "\<not> (pm_segLen m ! 2 > 0 \<and> pm_segLen m ! 1 = 0 \<or> pm_segLen m ! 1 > 0 \<and> pm_segLen m ! 0 = 0)"
    "\<not> unat (pm_currInf m) \<ge> PathMeta_segmentCount m" "\<not> unat (pm_currHf m) \<ge> PathMeta_hopFieldCount m"
  using assms by (auto simp: valid_PathMeta_def)

lemma PathMeta_writes:
  assumes "valid_PathMeta m"
  shows "writesB 0 (PathMeta_serialize m) (PathMeta_bits m) m"
  unfolding PathMeta_serialize_def PathMeta_bits_def Let_def
  by (rule writes_steps PathMeta_eta [OF assms] | (simp; fail))+

lemma PathMeta_reads:
  assumes "valid_PathMeta m"
  shows "readsB 0 (PathMeta_serialize m0) (PathMeta_bits m) m"
proof -
  note v = valid_PathMeta_fits [OF assms]
  show ?thesis
    unfolding PathMeta_serialize_def PathMeta_bits_def Let_def
    by (rule reads_steps PathMeta_eta [OF assms] v(1-6) | (simp; fail)
        | (subst PathMeta_eta [OF assms], rule v))+
qed

lemma PathMeta_checks:
  "getsB 0 (PathMeta_serialize m0) (\<lambda>m bs. valid_PathMeta m \<and> length bs = length (PathMeta_bits m))"
  unfolding PathMeta_serialize_def Let_def
  by (intro gets_steps) (auto simp: valid_PathMeta_def PathMeta_bits_def not_le word_neq_0_conv)

interpretation path_meta: checked_codec PathMeta_serialize PathMeta_bits valid_PathMeta "\<lambda>_. True"
proof
  show "length (PathMeta_bits m) mod 8 = 0" for m by (simp add: PathMeta_bits_def)
qed (blast intro: PathMeta_writes PathMeta_reads PathMeta_checks)+

interpretation info_field: checked_codec InfoField_serialize InfoField_bits "\<lambda>_. True" "\<lambda>_. True"
proof
  fix f f0 :: InfoField
  show "writesB 0 (InfoField_serialize f) (InfoField_bits f) f"
    unfolding InfoField_serialize_def InfoField_bits_def
    by (rule writes_steps InfoField.equality | simp)+
  show "readsB 0 (InfoField_serialize f0) (InfoField_bits f) f"
    unfolding InfoField_serialize_def InfoField_bits_def
    by (rule reads_steps InfoField.equality | simp)+
  show "getsB 0 (InfoField_serialize f0) (\<lambda>f bs. True \<and> length bs = length (InfoField_bits f))"
    unfolding InfoField_serialize_def by (intro gets_steps) (auto simp: InfoField_bits_def)
qed (simp add: InfoField_bits_def)

interpretation hop_field: strict_codec HopField_serialize HopField_bits valid_HopField valid_HopField
proof
  fix f f0 :: HopField
  show "valid_HopField f \<Longrightarrow> writesB 0 (HopField_serialize f) (HopField_bits f) f"
    unfolding HopField_serialize_def HopField_bits_def
    by (rule writes_steps HopField.equality | simp)+
  show "valid_HopField f \<Longrightarrow> valid_HopField f0 \<Longrightarrow> readsB 0 (HopField_serialize f0) (HopField_bits f) f"
    unfolding HopField_serialize_def HopField_bits_def valid_HopField_def
    by (rule reads_steps readsB_serializeBytes HopField.equality | simp)+
  show "valid_HopField f0 \<Longrightarrow> getsB 0 (HopField_serialize f0) (\<lambda>f bs. valid_HopField f \<and> bs = HopField_bits f)"
    unfolding HopField_serialize_def by (intro gets_steps) (auto simp: HopField_bits_def valid_HopField_def)
  show "valid_HopField f \<Longrightarrow> length (HopField_bits f) mod 8 = 0"
    by (simp add: HopField_bits_def)
qed

section \<open>Extension headers and options\<close>

interpretation hbh_opts: strict_codec HopByHopOpts_serialize ExtOpts_bits "\<lambda>_. True" "\<lambda>_. True"
proof
  fix h h0 :: ExtOpts
  show "writesB 0 (HopByHopOpts_serialize h) (ExtOpts_bits h) h"
    unfolding HopByHopOpts_serialize_def ExtOpts_bits_def by (rule writes_steps ExtOpts.equality | simp)+
  show "readsB 0 (HopByHopOpts_serialize h0) (ExtOpts_bits h) h"
    unfolding HopByHopOpts_serialize_def ExtOpts_bits_def by (rule reads_steps ExtOpts.equality | simp)+
  show "getsB 0 (HopByHopOpts_serialize h0) (\<lambda>h bs. True \<and> bs = ExtOpts_bits h)"
    unfolding HopByHopOpts_serialize_def by (intro gets_steps) (auto simp: ExtOpts_bits_def)
qed (simp add: ExtOpts_bits_def)

interpretation e2e_opts: strict_codec EndToEndOpts_serialize ExtOpts_bits "\<lambda>_. True" "\<lambda>_. True"
proof
  fix h h0 :: ExtOpts
  show "writesB 0 (EndToEndOpts_serialize h) (ExtOpts_bits h) h"
    unfolding EndToEndOpts_serialize_def ExtOpts_bits_def by (rule writes_steps ExtOpts.equality | simp)+
  show "readsB 0 (EndToEndOpts_serialize h0) (ExtOpts_bits h) h"
    unfolding EndToEndOpts_serialize_def ExtOpts_bits_def by (rule reads_steps ExtOpts.equality | simp)+
  show "getsB 0 (EndToEndOpts_serialize h0) (\<lambda>h bs. True \<and> bs = ExtOpts_bits h)"
    unfolding EndToEndOpts_serialize_def by (intro gets_steps) (auto simp: ExtOpts_bits_def)
qed (simp add: ExtOpts_bits_def)

definition SciOpt_bits :: "SciOpt \<Rightarrow> bool list" where
  "SciOpt_bits opt =
     to_bits 8 (so_type opt) @
     (if so_type opt \<noteq> OptType_Pad1
      then to_bits 8 (so_dataLen opt) @ replicate (8 * unat (so_dataLen opt)) False else [])"

definition valid_SciOpt :: "SciOpt \<Rightarrow> bool" where
  "valid_SciOpt opt \<longleftrightarrow> (so_type opt = OptType_Pad1 \<longrightarrow> so_dataLen opt = 0)"

lemma SciOpt_bits_length: "length (SciOpt_bits opt) = 8 * SciOpt_size opt"
  by (simp add: SciOpt_bits_def SciOpt_size_def)

interpretation sci_opt: checked_codec SciOpt_serialize SciOpt_bits valid_SciOpt "\<lambda>opt. so_dataLen opt = 0"
proof
  fix opt opt0 :: SciOpt
  show "valid_SciOpt opt \<Longrightarrow> writesB 0 (SciOpt_serialize opt) (SciOpt_bits opt) opt"
    unfolding SciOpt_serialize_def SciOpt_bits_def valid_SciOpt_def
    by (rule writesB_bind writesB_serializeByte writesB_if writes_steps SciOpt.equality | (simp; fail))+
  show "valid_SciOpt opt \<Longrightarrow> so_dataLen opt0 = 0 \<Longrightarrow> readsB 0 (SciOpt_serialize opt0) (SciOpt_bits opt) opt"
    unfolding SciOpt_serialize_def SciOpt_bits_def valid_SciOpt_def
    by (rule readsB_bind readsB_serializeByte readsB_if reads_steps SciOpt.equality | (simp; fail))+
  show "getsB 0 (SciOpt_serialize opt0) (\<lambda>opt bs. valid_SciOpt opt \<and> length bs = length (SciOpt_bits opt))"
    if "so_dataLen opt0 = 0"
    unfolding SciOpt_serialize_def
    by (rule getsB_step_byte, rule getsB_if)
      (intro gets_steps; auto simp: valid_SciOpt_def SciOpt_bits_def that)+
qed (simp add: SciOpt_bits_length)

text \<open>The packet authenticator option; unused bytes of the authenticator are zero.\<close>

definition AuthenticatorOpt_bits :: "AuthenticatorOpt \<Rightarrow> bool list" where
  "AuthenticatorOpt_bits opt =
     to_bits 8 OptType_SPAO @ to_bits 8 (ao_dataLen opt) @ to_bits 32 (ao_spi opt)
     @ to_bits 8 (ao_algorithm opt) @ replicate (8 * 1) False @ to_bits 48 (ao_timestamp opt)
     @ bits_of (AuthenticatorOpt_getAuth opt (ao_dataLen opt))"

definition valid_AuthenticatorOpt :: "AuthenticatorOpt \<Rightarrow> bool" where
  "valid_AuthenticatorOpt opt \<longleftrightarrow>
     12 \<le> unat (ao_dataLen opt) \<and> unat (ao_dataLen opt) \<le> 48 \<and> fits 48 (ao_timestamp opt)
     \<and> length (ao_authenticator opt) = 36
     \<and> drop (unat (ao_dataLen opt) - 12) (ao_authenticator opt) = replicate (48 - unat (ao_dataLen opt)) 0"

lemma getAuth_length:
  assumes "length (ao_authenticator opt) = 36" "unat d \<le> 48"
  shows "length (AuthenticatorOpt_getAuth opt d) = unat d - 12"
  using assms by (simp add: AuthenticatorOpt_getAuth_def AuthenticatorOpt_getAuthSize_def
      AuthenticatorOpt_minDataLen_def)

lemma overwrite_auth:
  assumes v: "valid_AuthenticatorOpt opt"
  shows "overwrite (replicate 36 0) 0 (AuthenticatorOpt_getAuth opt (ao_dataLen opt)) = ao_authenticator opt"
    and "overwrite (ao_authenticator opt) 0 (AuthenticatorOpt_getAuth opt (ao_dataLen opt)) = ao_authenticator opt"
proof -
  define n where "n = unat (ao_dataLen opt) - 12"
  have l: "12 \<le> unat (ao_dataLen opt)" "unat (ao_dataLen opt) \<le> 48" and a: "length (ao_authenticator opt) = 36"
    and "drop n (ao_authenticator opt) = replicate (48 - unat (ao_dataLen opt)) 0"
    using v by (simp_all add: valid_AuthenticatorOpt_def n_def)
  moreover have n: "48 - unat (ao_dataLen opt) = 36 - n" "n \<le> 36" using l by (simp_all add: n_def)
  ultimately have d: "drop n (ao_authenticator opt) = replicate (36 - n) 0" by (simp only:)
  have g: "AuthenticatorOpt_getAuth opt (ao_dataLen opt) = take n (ao_authenticator opt)"
    using l a n by (simp add: AuthenticatorOpt_getAuth_def AuthenticatorOpt_getAuthSize_def
        AuthenticatorOpt_minDataLen_def n_def)
  show "overwrite (ao_authenticator opt) 0 (AuthenticatorOpt_getAuth opt (ao_dataLen opt)) = ao_authenticator opt"
    using a n by (simp add: g overwrite_def)
  show "overwrite (replicate 36 0) 0 (AuthenticatorOpt_getAuth opt (ao_dataLen opt)) = ao_authenticator opt"
    using a n d append_take_drop_id [of n "ao_authenticator opt"] by (simp add: g overwrite_def)
qed

lemma AuthenticatorOpt_rebuild:
  assumes "overwrite a 0 b = ao_authenticator opt"
  shows "\<lparr>ao_dataLen = ao_dataLen opt, ao_algorithm = ao_algorithm opt, ao_spi = ao_spi opt,
          ao_timestamp = ao_timestamp opt, ao_authenticator = overwrite a 0 b\<rparr> = opt"
  using assms by simp

interpretation auth_opt: checked_codec AuthenticatorOpt_serialize AuthenticatorOpt_bits
  valid_AuthenticatorOpt "\<lambda>opt. ao_authenticator opt = replicate 36 0"
proof
  fix opt opt0 :: AuthenticatorOpt
  show "writesB 0 (AuthenticatorOpt_serialize opt) (AuthenticatorOpt_bits opt) opt"
    if v: "valid_AuthenticatorOpt opt"
    unfolding AuthenticatorOpt_serialize_def AuthenticatorOpt_bits_def
    by (rule writes_steps AuthenticatorOpt_rebuild overwrite_auth(2) [OF v] | (simp; fail))+
  show "readsB 0 (AuthenticatorOpt_serialize opt0) (AuthenticatorOpt_bits opt) opt"
    if v: "valid_AuthenticatorOpt opt" and b: "ao_authenticator opt0 = replicate 36 0"
  proof -
    have u: "unat (ao_dataLen opt) \<le> 48" "12 \<le> unat (ao_dataLen opt)" "length (ao_authenticator opt) = 36"
      and f: "fits 48 (ao_timestamp opt)"
      using v by (simp_all add: valid_AuthenticatorOpt_def)
    have d: "\<not> unat (ao_dataLen opt) < AuthenticatorOpt_minDataLen"
        "\<not> AuthenticatorOpt_getAuthSize (ao_dataLen opt) > length (ao_authenticator opt0)"
      using u b by (simp_all add: AuthenticatorOpt_minDataLen_def AuthenticatorOpt_getAuthSize_def)
    have l: "length (AuthenticatorOpt_getAuth opt0 (ao_dataLen opt)) = length (AuthenticatorOpt_getAuth opt (ao_dataLen opt))"
      using u b by (simp add: getAuth_length)
    have o: "overwrite (ao_authenticator opt0) 0 (AuthenticatorOpt_getAuth opt (ao_dataLen opt)) = ao_authenticator opt"
      using overwrite_auth(1) [OF v] by (simp only: b)
    show ?thesis
      unfolding AuthenticatorOpt_serialize_def AuthenticatorOpt_bits_def
      by (rule reads_steps readsB_serializeBytes AuthenticatorOpt_rebuild d l o f | (simp; fail))+
  qed
  show "getsB 0 (AuthenticatorOpt_serialize opt0)
      (\<lambda>opt bs. valid_AuthenticatorOpt opt \<and> length bs = length (AuthenticatorOpt_bits opt))"
    if b: "ao_authenticator opt0 = replicate 36 0"
    unfolding AuthenticatorOpt_serialize_def
    by (intro gets_steps)
      (auto simp: valid_AuthenticatorOpt_def AuthenticatorOpt_bits_def b AuthenticatorOpt_minDataLen_def
        AuthenticatorOpt_getAuthSize_def getAuth_length overwrite_def AuthenticatorOpt_getAuth_def)
  show "valid_AuthenticatorOpt opt \<Longrightarrow> length (AuthenticatorOpt_bits opt) mod 8 = 0"
    by (simp add: AuthenticatorOpt_bits_def)
qed

section \<open>UDP and Ethernet\<close>

interpretation udp: strict_codec UDP_serialize UDP_bits "\<lambda>_. True" "\<lambda>_. True"
proof
  fix h h0 :: UDP
  show "writesB 0 (UDP_serialize h) (UDP_bits h) h"
    unfolding UDP_serialize_def UDP_bits_def by (rule writes_steps UDP.equality | simp)+
  show "readsB 0 (UDP_serialize h0) (UDP_bits h) h"
    unfolding UDP_serialize_def UDP_bits_def by (rule reads_steps UDP.equality | simp)+
  show "getsB 0 (UDP_serialize h0) (\<lambda>h bs. True \<and> bs = UDP_bits h)"
    unfolding UDP_serialize_def by (intro gets_steps) (auto simp: UDP_bits_def)
qed (simp add: UDP_bits_def)

interpretation ethernet: strict_codec Ethernet_serialize Ethernet_bits valid_Ethernet valid_Ethernet
proof
  fix h h0 :: Ethernet
  show "valid_Ethernet h \<Longrightarrow> writesB 0 (Ethernet_serialize h) (Ethernet_bits h) h"
    unfolding Ethernet_serialize_def Ethernet_bits_def valid_Ethernet_def
    by (rule writes_steps Ethernet.equality | simp)+
  show "valid_Ethernet h \<Longrightarrow> valid_Ethernet h0 \<Longrightarrow> readsB 0 (Ethernet_serialize h0) (Ethernet_bits h) h"
    unfolding Ethernet_serialize_def Ethernet_bits_def valid_Ethernet_def
    by (rule reads_steps readsB_serializeBytes Ethernet.equality | simp)+
  show "valid_Ethernet h0 \<Longrightarrow> getsB 0 (Ethernet_serialize h0) (\<lambda>h bs. valid_Ethernet h \<and> bs = Ethernet_bits h)"
    unfolding Ethernet_serialize_def valid_Ethernet_def by (intro gets_steps) (auto simp: Ethernet_bits_def)
  show "valid_Ethernet h \<Longrightarrow> length (Ethernet_bits h) mod 8 = 0"
    by (simp add: Ethernet_bits_def)
qed

end
