(* ===== verification/HeaderProperties.thy ===== *)
theory HeaderProperties
  imports HdrScionSpec Checksum MurmurHash3
begin

text \<open>
  The properties of the bit streams, of the checksum and hash helpers and of the SCION, path
  and extension headers. The header properties are instances of the contracts proved by the
  interpretations of \<open>codec\<close>, \<open>checked_codec\<close> and \<open>strict_codec\<close> in \<open>HdrScionSpec\<close>.
\<close>

section \<open>Bit streams\<close>

text \<open>On a read stream inside its buffer with at least \<open>n\<close> bits left, \<open>serializeBits\<close> of up to 57
  bits returns the next \<open>n\<close> bits, most significant first, at every bit position, and advances
  by \<open>n\<close> bits; with fewer bits left it fails.\<close>

theorem read_bits_functional:
  assumes "wf_buf b" "n \<le> 57" "n \<le> LENGTH('a::len)"
  shows "if n \<le> bits_room b
    then (ReadStream_serializeBits n b :: (string + 'a word) \<times> bit_buf) =
      (Inr (of_bits (take n (bits_ahead b))), advance_bits_pos n b)
    else \<exists>e. (ReadStream_serializeBits n b :: (string + 'a word) \<times> bit_buf) = (Inl e, b)"
proof (cases "n \<le> bits_room b")
  case False
  then show ?thesis
    using bytesLeft_iff [OF assms(1), of n]
    by (auto simp: ReadStream_serializeBits_def Let_def split: if_splits)
qed (simp add: ReadStream_serializeBits_spec [OF assms])

lemma read_bits_functional_witness:
  "(ReadStream_serializeBits 12 (stream_init [0xab, 0xcd]) :: (string + u16) \<times> bit_buf) =
     (Inr (of_bits (take 12 (bits_of [0xab, 0xcd]))), advance_bits_pos 12 (stream_init [0xab, 0xcd]))"
  using read_bits_functional [of "stream_init [0xab, 0xcd]" 12, where 'a = 16]
  by (simp add: bits_room_init)

text \<open>On a write stream inside its buffer whose current byte is clear beyond the position,
  \<open>serializeBits\<close> of up to 57 bits appends exactly the low \<open>n\<close> bits of the value, most significant
  first, and leaves what was written before and the bytes beyond the last one touched as they were.\<close>

theorem write_bits_functional:
  fixes v :: "'a::len word"
  assumes "wf_buf b" "clean_tail b" "n \<le> 57" "n \<le> LENGTH('a)" "n \<le> bits_room b"
  shows "\<exists>b'. WriteStream_serializeBits v n b = (Inr (), b') \<and> wf_buf b' \<and> clean_tail b' \<and>
    bit_pos b' = bit_pos b + n \<and> bits_done b' = bits_done b @ to_bits n v \<and>
    length (bufdata b') = length (bufdata b)"
  using WriteStream_serializeBits_spec [OF assms, of v] by (auto simp: appended_def)

lemma write_bits_functional_witness:
  "\<exists>b. WriteStream_serializeBits (0xabc :: u16) 12 (stream_init [0, 0]) = (Inr (), b) \<and>
     bits_done b = to_bits 12 (0xabc :: u16)"
  using write_bits_functional [of "stream_init [0, 0]" 12 "0xabc :: u16"]
  by (auto simp: bits_room_init bits_done_def)

section \<open>Checksums and hashes\<close>

text \<open>C20: The AVX2 one's complement sum equals the scalar one for every buffer, every initial value
  and every alignment of the buffer in memory.\<close>

theorem checksum_avx_equivalent:
  "onesComplementChecksumAVX ptr buffer inital = onesComplementChecksumScalar buffer inital"
  by (rule AVX_eq_scalar)

text \<open>As long as the 32-bit sum does not overflow, the checksum is the sum of the initial value
  and the big-endian 16-bit words (a last odd byte counts as a high byte) with the carries beyond
  16 bits added back once; a carry produced by that addition is lost.\<close>

theorem checksum_functional:
  assumes "unat i + sum16 buffer < 2 ^ 32"
  shows "unat (onesComplementChecksumScalar buffer i) =
    ((unat i + sum16 buffer) div 2 ^ 16 + (unat i + sum16 buffer) mod 2 ^ 16) mod 2 ^ 16"
  by (rule onesComplementChecksum_unat [OF assms])

lemma checksum_functional_witness:
  "unat (onesComplementChecksumScalar [0x45, 0, 0x12] 0x10000) = 0x4501 + 0x1200 - 0"
  using checksum_functional [of "0x10000" "[0x45, 0, 0x12]"] by simp

text \<open>The lost carry: the sum of the words \<open>0xffff\<close> and \<open>0x10000\<close> folds to \<open>0x10000\<close>, reported as 0.\<close>

lemma checksum_second_carry: "onesComplementChecksumScalar [0xff, 0xff] 0x10000 = 0"
  by code_simp

definition UDP_flowKey :: "u16 \<Rightarrow> u16 \<Rightarrow> u32" where
  "UDP_flowKey sport dport = (push_bit 16 (ucast ScionProto_UDP) OR push_bit 8 (ucast sport) OR ucast dport)"

lemma word_eq_bits: "v = w \<longleftrightarrow> list_all (\<lambda>n. bit v n = bit w n) [0..<LENGTH('a)]" for v w :: "'a::len word"
  by (auto simp: bit_eq_iff list_all_iff dest: bit_imp_le_length)

lemma upt_16: "[0..<16] = [0, 1, 2, 3, 4, 5, 6, 7, 8, 9, 10, 11, 12, 13, 14, 15]"
  by (simp add: upt_conv_Cons)

lemma upt_32: "[0..<32] = [0..<16] @ [16, 17, 18, 19, 20, 21, 22, 23, 24, 25, 26, 27, 28, 29, 30, 31]"
  by (simp add: upt_conv_Cons)

lemma u16_bit_high: "16 \<le> n \<Longrightarrow> \<not> bit (w :: u16) n"
  using bit_imp_le_length [of w n] by auto

lemma UDP_flowKey_eq:
  "UDP_flowKey s d = UDP_flowKey s' d' \<longleftrightarrow>
     (d AND 0xff) = (d' AND 0xff) \<and> ((s OR drop_bit 8 d) AND 0xff) = ((s' OR drop_bit 8 d') AND 0xff)
     \<and> (drop_bit 8 s OR 0x11) = (drop_bit 8 s' OR 0x11)"
  unfolding UDP_flowKey_def ScionProto_UDP_def word_eq_bits
  by (simp add: upt_32 upt_16 bit_simps u16_bit_high)

text \<open>Which UDP headers share a flow label: the key of the hash overlaps the ports, so that
  exactly the low byte of the destination port, the union of its high byte with the low byte of the
  source port, and the high byte of the source port up to the bits of the protocol number count.\<close>

theorem udp_flow_label_key:
  "UDP_flowLabel h = UDP_flowLabel h' \<longleftrightarrow>
     (udp_dport h AND 0xff) = (udp_dport h' AND 0xff)
     \<and> ((udp_sport h OR drop_bit 8 (udp_dport h)) AND 0xff) = ((udp_sport h' OR drop_bit 8 (udp_dport h')) AND 0xff)
     \<and> (drop_bit 8 (udp_sport h) OR 0x11) = (drop_bit 8 (udp_sport h') OR 0x11)"
  using UDP_flowKey_eq by (simp add: UDP_flowLabel_def UDP_flowKey_def MurmurHash3_word_inj Let_def)

section \<open>Headers\<close>

text \<open>Writing a valid SCION header into a buffer large enough and reading the buffer gives the
  header back, the reader stopping where the writer did.\<close>

theorem scion_header_roundtrip:
  assumes "valid_SCION h" "length (SCION_bits h) \<le> 8 * length buf"
  shows "\<exists>b b'. SCION_serialize h (WriteStream (stream_init buf)) = (Inr h, WriteStream b) \<and>
    SCION_serialize h0 (ReadStream (stream_init (bufdata b))) = (Inr h, ReadStream b') \<and>
    getPos b' = getPos b \<and> getPos b = (length (SCION_bits h) div 8, 0)"
  by (rule scion.roundtrip [OF assms(1) TrueI assms(2)])

definition example_SCION :: SCION where
  "example_SCION = \<lparr>sc_qos = 0, sc_hlen = 9, sc_nh = 17, sc_ptype = 0, sc_plen = 8, sc_fl = 1,
     sc_dst = Address_make 0x1000000000002 (MakeIPv4 0x7f000001),
     sc_src = Address_make 0x1000000000003 (MakeIPv4 0x7f000002)\<rparr>"

lemma example_SCION_valid: "valid_SCION example_SCION" "length (SCION_bits example_SCION) = 288"
  by (simp_all add: example_SCION_def valid_SCION_def Address_make_def MakeIPv4_def wf_ip_def is4_def
      fits_def bit_simps SCION_bits_length SCION_size_def Address_size_def IPAddress_size_def IsdAsn_size_def)

lemma scion_header_roundtrip_witness:
  "\<exists>b b'. SCION_serialize example_SCION (WriteStream (stream_init (replicate 36 0))) =
      (Inr example_SCION, WriteStream b) \<and>
    SCION_serialize example_SCION (ReadStream (stream_init (bufdata b))) = (Inr example_SCION, ReadStream b')"
  using scion_header_roundtrip [of example_SCION "replicate 36 0" example_SCION]
  by (auto simp: example_SCION_valid)

text \<open>C21: Every SCION header the reader accepts is valid (at least 9 header words, host addresses
  of a supported type, a 20-bit flow label), lies inside the buffer and took exactly its \<open>size()\<close>.\<close>

theorem scion_header_read_valid:
  assumes "SCION_serialize h0 (ReadStream (stream_init d)) = (Inr h, st)"
  shows "valid_SCION h \<and> SCION_size h \<le> length d \<and> (\<exists>b. st = ReadStream b \<and> getPos b = (SCION_size h, 0))"
  using scion.read_valid [OF TrueI assms] by (auto simp: SCION_bits_length)

lemma scion_header_read_valid_witness:
  "\<exists>d b. SCION_serialize example_SCION (ReadStream (stream_init d)) = (Inr example_SCION, ReadStream b) \<and>
     SCION_size example_SCION \<le> length d \<and> getPos b = (SCION_size example_SCION, 0)"
proof -
  obtain d where d: "bits_of d = SCION_bits example_SCION"
    using bits_of_surj [of "SCION_bits example_SCION"] example_SCION_valid(2) by auto
  obtain b where b: "SCION_serialize example_SCION (ReadStream (stream_init d)) = (Inr example_SCION, ReadStream b)"
    using scion.read_bytes [OF example_SCION_valid(1) TrueI, of d "[]"] d by auto
  then show ?thesis using scion_header_read_valid [OF b] by blast
qed

text \<open>The path meta header reader accepts only headers whose segments are used from the first
  on without gaps and whose current info and hop field indices lie inside the path; every such
  header is accepted in the bits it is written with.\<close>

theorem path_meta_read_iff:
  shows "(PathMeta_serialize m0 (ReadStream (stream_init d)) = (Inr m, st) \<longrightarrow>
      valid_PathMeta m \<and> 4 \<le> length d \<and> (\<exists>b. st = ReadStream b \<and> getPos b = (4, 0))) \<and>
    (valid_PathMeta m \<longrightarrow> bits_of d = PathMeta_bits m @ rest \<longrightarrow>
      (\<exists>b. PathMeta_serialize m0 (ReadStream (stream_init d)) = (Inr m, ReadStream b)))"
proof (intro conjI impI)
  assume "PathMeta_serialize m0 (ReadStream (stream_init d)) = (Inr m, st)"
  from path_meta.read_valid [OF TrueI this]
  show "valid_PathMeta m" "4 \<le> length d" "\<exists>b. st = ReadStream b \<and> getPos b = (4, 0)"
    by (auto simp: PathMeta_bits_def)
next
  assume "valid_PathMeta m" "bits_of d = PathMeta_bits m @ rest"
  then show "\<exists>b. PathMeta_serialize m0 (ReadStream (stream_init d)) = (Inr m, ReadStream b)"
    using path_meta.read_bytes [OF _ TrueI] by blast
qed

definition example_PathMeta :: PathMeta where
  "example_PathMeta = \<lparr>pm_currInf = 0, pm_currHf = 1, pm_segLen = [2, 0, 0]\<rparr>"

lemma path_meta_read_iff_witness:
  "\<exists>d b. PathMeta_serialize example_PathMeta (ReadStream (stream_init d)) = (Inr example_PathMeta, ReadStream b)"
proof -
  have v: "valid_PathMeta example_PathMeta"
    by (simp add: valid_PathMeta_def example_PathMeta_def PathMeta_segmentCount_def
        PathMeta_hopFieldCount_def fits_def bit_simps)
  obtain d where d: "bits_of d = PathMeta_bits example_PathMeta"
    using bits_of_surj [of "PathMeta_bits example_PathMeta"] by (auto simp: PathMeta_bits_def)
  then show ?thesis using path_meta_read_iff v by (metis append_Nil2)
qed

text \<open>Hop fields have no ignored bits: the reader accepts a buffer exactly when it starts with
  the encoding of a valid hop field, and returns that hop field.\<close>

theorem hop_field_read_iff:
  assumes "valid_HopField f0"
  shows "(\<exists>b. HopField_serialize f0 (ReadStream (stream_init d)) = (Inr f, b)) \<longleftrightarrow>
    valid_HopField f \<and> (\<exists>rest. bits_of d = HopField_bits f @ rest)"
  by (rule hop_field.read_iff [OF assms])

definition example_HopField :: HopField where
  "example_HopField = \<lparr>hf_flags = 0, hf_expTime = 63, hf_consIngress = 1, hf_consEgress = 2,
     hf_mac = [1, 2, 3, 4, 5, 6]\<rparr>"

lemma hop_field_read_iff_witness:
  "\<exists>d b. HopField_serialize example_HopField (ReadStream (stream_init d)) = (Inr example_HopField, b)"
proof -
  have v: "valid_HopField example_HopField" by (simp add: valid_HopField_def example_HopField_def)
  obtain d where "bits_of d = HopField_bits example_HopField"
    using bits_of_surj [of "HopField_bits example_HopField"]
    by (auto simp: HopField_bits_def example_HopField_def)
  then show ?thesis using hop_field_read_iff [OF v, of d example_HopField] v by auto
qed

text \<open>A packet authenticator option with 0 to 36 bytes of authenticator is read back as it was
  written, the unused bytes of the authenticator zero.\<close>

theorem authenticator_roundtrip:
  assumes "valid_AuthenticatorOpt opt" "ao_authenticator opt0 = replicate 36 0"
    "length (AuthenticatorOpt_bits opt) \<le> 8 * length buf"
  shows "\<exists>b b'. AuthenticatorOpt_serialize opt (WriteStream (stream_init buf)) = (Inr opt, WriteStream b) \<and>
    AuthenticatorOpt_serialize opt0 (ReadStream (stream_init (bufdata b))) = (Inr opt, ReadStream b') \<and>
    getPos b' = getPos b"
  using auth_opt.roundtrip [OF assms] by blast

definition example_AuthOpt :: AuthenticatorOpt where
  "example_AuthOpt = \<lparr>ao_dataLen = 16, ao_algorithm = 1, ao_spi = 5, ao_timestamp = 77,
     ao_authenticator = [1, 2, 3, 4] @ replicate 32 0\<rparr>"

lemma authenticator_roundtrip_witness:
  "\<exists>b b'. AuthenticatorOpt_serialize example_AuthOpt (WriteStream (stream_init (replicate 20 0))) =
      (Inr example_AuthOpt, WriteStream b) \<and>
    AuthenticatorOpt_serialize (example_AuthOpt\<lparr>ao_authenticator := replicate 36 0\<rparr>)
      (ReadStream (stream_init (bufdata b))) = (Inr example_AuthOpt, ReadStream b')"
proof -
  have "valid_AuthenticatorOpt example_AuthOpt"
    by (simp add: valid_AuthenticatorOpt_def example_AuthOpt_def fits_def bit_simps)
  moreover have "length (AuthenticatorOpt_bits example_AuthOpt) \<le> 8 * length (replicate 20 (0 :: byte))"
    by (simp add: AuthenticatorOpt_bits_def example_AuthOpt_def AuthenticatorOpt_getAuth_def
        AuthenticatorOpt_getAuthSize_def AuthenticatorOpt_minDataLen_def)
  ultimately show ?thesis
    using authenticator_roundtrip [of example_AuthOpt "example_AuthOpt\<lparr>ao_authenticator := replicate 36 0\<rparr>"]
    by fastforce
qed

end
