(* ===== verification/HdrIp.thy ===== *)
theory HdrIp
  imports HdrScionSpec
begin

text \<open>
  The headers of \<open>include/scion/hdr/ip.hpp\<close>: IPv4 without options, whose checksum is computed by
  looking back at the bytes written and checked by looking ahead at the bytes to read, IPv6,
  ICMP and ICMPv6. IPv6, ICMP and ICMPv6 are strict codecs. For IPv4 the one's complement sum
  adds the carry once only: the header is read back exactly when no second carry arises.
\<close>

section \<open>The classes\<close>

definition IPProto_ICMP :: byte where "IPProto_ICMP = 1"
definition IPProto_TCP :: byte where "IPProto_TCP = 6"
definition IPProto_UDP :: byte where "IPProto_UDP = 17"
definition IPProto_ICMPv6 :: byte where "IPProto_ICMPv6 = 58"

record IPv4H =
  ip4_flags :: byte
  ip4_tos :: byte
  ip4_ttl :: byte
  ip4_proto :: byte
  ip4_len :: u16
  ip4_id :: u16
  ip4_frag :: u16
  ip4_src :: IPAddress
  ip4_dst :: IPAddress

definition IPv4_checksum :: "IPv4H \<Rightarrow> u16 \<Rightarrow> u32" where
  "IPv4_checksum h len =
     (let sum = IPAddress_checksum (ip4_src h) + IPAddress_checksum (ip4_dst h);
          sum = sum + ucast (ip4_proto h)
      in sum + ucast len)"

definition IPv4_size :: nat where
  "IPv4_size = 4 * 5"

text \<open>The part of \<open>serialize\<close> that both directions share, line by line.\<close>

definition IPv4_fields :: "IPv4H \<Rightarrow> IPv4H ser" where
  "IPv4_fields h =
     ser_bind (serializeBits (4 :: byte) 4) (\<lambda>ver.
     ser_bind (read_check (ver \<noteq> 4) ''invalid IP version'') (\<lambda>_.
     ser_bind (serializeBits (5 :: byte) 4) (\<lambda>hdrLen.
     ser_bind (read_check (hdrLen < 5) ''invalid IP header'') (\<lambda>_.
     ser_bind (read_check (hdrLen > 5) ''IP options not supported'') (\<lambda>_.
     ser_bind (serializeByte (ip4_tos h)) (\<lambda>tos.
     ser_bind (serializeUint16 (ip4_len h)) (\<lambda>len.
     ser_bind (serializeUint16 (ip4_id h)) (\<lambda>id'.
     ser_bind (serializeBits (ip4_flags h) 3) (\<lambda>flags.
     ser_bind (read_check (flag_get flags (push_bit 2 1)) ''invalid IP header'') (\<lambda>_.
     ser_bind (serializeBits (ip4_frag h) 13) (\<lambda>frag.
     ser_bind (serializeByte (ip4_ttl h)) (\<lambda>ttl.
     ser_bind (serializeByte (ip4_proto h)) (\<lambda>proto.
     ser_bind (serializeUint16 0) (\<lambda>chksum.
     ser_bind (IPAddress_serialize True (ip4_src h)) (\<lambda>src.
     ser_bind (IPAddress_serialize True (ip4_dst h)) (\<lambda>dst.
     ser_return \<lparr>ip4_flags = flags, ip4_tos = tos, ip4_ttl = ttl, ip4_proto = proto, ip4_len = len,
                 ip4_id = id', ip4_frag = frag, ip4_src = src, ip4_dst = dst\<rparr>))))))))))))))))"

definition IPv4_serialize :: "IPv4H \<Rightarrow> IPv4H ser" where
  "IPv4_serialize h =
     ser_bind (if_reading
       (ser_bind (lookahead 20) (\<lambda>hdr.
          let c = onesComplementChecksumScalar hdr 0 in
          read_check (c \<noteq> 0xffff) ''incorrect IP checksum''))
       (ser_return ())) (\<lambda>_.
     ser_bind (IPv4_fields h) (\<lambda>h'.
     ser_bind (if_reading (ser_return ())
       (ser_bind (lookback 20) (\<lambda>hdr. updateChksum (internetChecksum hdr 0) 8))) (\<lambda>_.
     ser_return h')))"

record IPv6H =
  ip6_tc :: byte
  ip6_hlim :: byte
  ip6_nh :: byte
  ip6_plen :: u16
  ip6_fl :: u32
  ip6_src :: IPAddress
  ip6_dst :: IPAddress

definition IPv6_checksum :: "IPv6H \<Rightarrow> u16 \<Rightarrow> u32" where
  "IPv6_checksum h len =
     IPAddress_checksum (ip6_src h) + IPAddress_checksum (ip6_dst h) + ucast len + ucast (ip6_nh h)"

definition IPv6_size :: nat where
  "IPv6_size = 40"

definition IPv6_serialize :: "IPv6H \<Rightarrow> IPv6H ser" where
  "IPv6_serialize h =
     ser_bind (serializeBits (6 :: byte) 4) (\<lambda>ver.
     ser_bind (read_check (ver \<noteq> 6) ''invalid IP version'') (\<lambda>_.
     ser_bind (serializeByte (ip6_tc h)) (\<lambda>tc.
     ser_bind (serializeBits (ip6_fl h) 20) (\<lambda>fl.
     ser_bind (serializeUint16 (ip6_plen h)) (\<lambda>plen.
     ser_bind (serializeByte (ip6_nh h)) (\<lambda>nh.
     ser_bind (serializeByte (ip6_hlim h)) (\<lambda>hlim.
     ser_bind (IPAddress_serialize False (ip6_src h)) (\<lambda>src.
     ser_bind (IPAddress_serialize False (ip6_dst h)) (\<lambda>dst.
     ser_return \<lparr>ip6_tc = tc, ip6_hlim = hlim, ip6_nh = nh, ip6_plen = plen, ip6_fl = fl,
                 ip6_src = src, ip6_dst = dst\<rparr>)))))))))"

text \<open>\<open>ICMP\<close> and \<open>ICMPv6\<close> differ in their type constants only.\<close>

record ICMPH =
  icmp_type :: byte
  icmp_code :: byte
  icmp_chksum :: u16
  icmp_param1 :: u16
  icmp_param2 :: u16

definition ICMP_EchoReply :: byte where "ICMP_EchoReply = 0"
definition ICMP_DestUnreachable :: byte where "ICMP_DestUnreachable = 3"
definition ICMP_EchoRequest :: byte where "ICMP_EchoRequest = 8"
definition ICMP_TimeExceeded :: byte where "ICMP_TimeExceeded = 11"
definition ICMP_ParamProblem :: byte where "ICMP_ParamProblem = 12"

definition ICMPv6_DstUnreachable :: byte where "ICMPv6_DstUnreachable = 1"
definition ICMPv6_PacketTooBig :: byte where "ICMPv6_PacketTooBig = 2"
definition ICMPv6_TimeExceeded :: byte where "ICMPv6_TimeExceeded = 3"
definition ICMPv6_ParamProblem :: byte where "ICMPv6_ParamProblem = 4"
definition ICMPv6_EchoRequest :: byte where "ICMPv6_EchoRequest = 128"
definition ICMPv6_EchoReply :: byte where "ICMPv6_EchoReply = 129"

definition ICMP_checksum :: "ICMPH \<Rightarrow> u32" where
  "ICMP_checksum h =
     (let sum = push_bit 8 (ucast (icmp_type h)); sum = sum + ucast (icmp_code h)
      in sum + ucast (icmp_chksum h) + ucast (icmp_param1 h) + ucast (icmp_param2 h))"

definition ICMP_size :: nat where
  "ICMP_size = 8"

definition ICMP_flowLabel :: "ICMPH \<Rightarrow> u32" where
  "ICMP_flowLabel h = 0"

definition ICMP_serialize :: "ICMPH \<Rightarrow> ICMPH ser" where
  "ICMP_serialize h =
     ser_bind (serializeByte (icmp_type h)) (\<lambda>type.
     ser_bind (serializeByte (icmp_code h)) (\<lambda>code.
     ser_bind (serializeUint16 (icmp_chksum h)) (\<lambda>chksum.
     ser_bind (serializeUint16 (icmp_param1 h)) (\<lambda>param1.
     ser_bind (serializeUint16 (icmp_param2 h)) (\<lambda>param2.
     ser_return \<lparr>icmp_type = type, icmp_code = code, icmp_chksum = chksum, icmp_param1 = param1,
                 icmp_param2 = param2\<rparr>)))))"

section \<open>ICMP and IPv6\<close>

definition ICMP_bits :: "ICMPH \<Rightarrow> bool list" where
  "ICMP_bits h = to_bits 8 (icmp_type h) @ to_bits 8 (icmp_code h) @ to_bits 16 (icmp_chksum h)
     @ to_bits 16 (icmp_param1 h) @ to_bits 16 (icmp_param2 h)"

interpretation icmp: strict_codec ICMP_serialize ICMP_bits "\<lambda>_. True" "\<lambda>_. True"
proof
  fix h h0 :: ICMPH
  show "writesB 0 (ICMP_serialize h) (ICMP_bits h) h"
    unfolding ICMP_serialize_def ICMP_bits_def by (rule writes_steps ICMPH.equality | simp)+
  show "readsB 0 (ICMP_serialize h0) (ICMP_bits h) h"
    unfolding ICMP_serialize_def ICMP_bits_def by (rule reads_steps ICMPH.equality | simp)+
  show "getsB 0 (ICMP_serialize h0) (\<lambda>h bs. True \<and> bs = ICMP_bits h)"
    unfolding ICMP_serialize_def by (intro gets_steps) (auto simp: ICMP_bits_def)
qed (simp add: ICMP_bits_def)

definition IPv6_bits :: "IPv6H \<Rightarrow> bool list" where
  "IPv6_bits h = to_bits 4 (6 :: byte) @ to_bits 8 (ip6_tc h) @ to_bits 20 (ip6_fl h) @ to_bits 16 (ip6_plen h)
     @ to_bits 8 (ip6_nh h) @ to_bits 8 (ip6_hlim h) @ IPAddress_bits (ip6_src h) @ IPAddress_bits (ip6_dst h)"

definition valid_IPv6 :: "IPv6H \<Rightarrow> bool" where
  "valid_IPv6 h \<longleftrightarrow> fits 20 (ip6_fl h) \<and> is6 (ip6_src h) \<and> zone (ip6_src h) = []
     \<and> is6 (ip6_dst h) \<and> zone (ip6_dst h) = []"

lemma fits_version [simp]: "fits 4 (4 :: byte)" "fits 4 (5 :: byte)" "fits 4 (6 :: byte)"
  by (simp_all add: fits_def)

interpretation ipv6: strict_codec IPv6_serialize IPv6_bits valid_IPv6 "\<lambda>_. True"
proof
  fix h h0 :: IPv6H
  show "writesB 0 (IPv6_serialize h) (IPv6_bits h) h" if "valid_IPv6 h"
    using that unfolding IPv6_serialize_def IPv6_bits_def valid_IPv6_def
    by - (rule writes_steps ip6.writes_aligned IPv6H.equality | (simp add: length_IPAddress_bits is4_is6; fail))+
  show "readsB 0 (IPv6_serialize h0) (IPv6_bits h) h" if "valid_IPv6 h"
    using that unfolding IPv6_serialize_def IPv6_bits_def valid_IPv6_def
    by - (rule reads_steps ip6.reads_aligned IPv6H.equality | (simp add: length_IPAddress_bits is4_is6; fail))+
  show "getsB 0 (IPv6_serialize h0) (\<lambda>h bs. valid_IPv6 h \<and> bs = IPv6_bits h)"
    unfolding IPv6_serialize_def
    by (intro gets_steps getsB_step_host) (auto simp: valid_IPv6_def IPv6_bits_def length_IPAddress_bits is4_is6)
  show "valid_IPv6 h \<Longrightarrow> length (IPv6_bits h) mod 8 = 0"
    by (simp add: IPv6_bits_def length_IPAddress_bits)
qed

section \<open>A checksum filled in afterwards\<close>

text \<open>
  Writing \<open>m\<close>, looking back at the bytes written and overwriting the two bytes that end
  \<open>off\<close> bytes before the position with a function of them.
\<close>

lemma overwrite_middle:
  assumes "i + length x \<le> length ds"
  shows "overwrite (A @ ds @ R) (length A + i) x = A @ overwrite ds i x @ R"
  using assms by (simp add: overwrite_def)

lemma appended_patch:
  assumes a: "appended b (bits_of ds) b1" and al: "bitPos b = 0" "bitPos b1 = 0"
    and off: "off + 2 \<le> length ds"
  shows "\<exists>b2. WriteStream_updateChksum c off b1 = (Inr (), b2) \<and>
    appended b (bits_of (overwrite ds (length ds - (off + 2)) (store_be 2 c))) b2"
proof -
  define A where "A = take (byteIter b) (bufdata b)"
  define R where "R = drop (byteIter b1) (bufdata b1)"
  define i where "i = length ds - (off + 2)"
  have pos: "byteIter b1 = byteIter b + length ds" and len: "length (bufdata b1) = length (bufdata b)"
    and wf: "wf_buf b1" and don: "bits_done b1 = bits_done b @ bits_of ds"
    and rest: "R = drop (byteIter b1) (bufdata b)"
    using a al by (simp_all add: appended_def bit_pos_def R_def)
  have le: "byteIter b1 \<le> length (bufdata b1)" using wf by (simp add: wf_buf_def)
  have A: "length A = byteIter b" using le len pos by (simp add: A_def)
  have "bits_of (take (byteIter b1) (bufdata b1)) = bits_of (A @ ds)"
    using don al by (simp add: bits_done_aligned A_def)
  then have "take (byteIter b1) (bufdata b1) = A @ ds" by (rule bits_of_inject)
  then have buf: "bufdata b1 = A @ ds @ R" unfolding R_def by (metis append.assoc append_take_drop_id)
  have at: "byteIter b1 - (off + 2) = length A + i" using pos off A by (simp add: i_def)
  define b2 where "b2 = b1\<lparr>bufdata := A @ overwrite ds i (store_be 2 c) @ R\<rparr>"
  have ov: "overwrite (A @ ds @ R) (length A + i) (store_be 2 c) = A @ overwrite ds i (store_be 2 c) @ R"
    using off by (intro overwrite_middle) (simp add: i_def)
  have il: "length (overwrite ds i (store_be 2 c)) = length ds" using off by (simp add: i_def)
  have upd: "WriteStream_updateChksum c off b1 = (Inr (), b2)"
  proof -
    have "byteIter b1 \<ge> off + 2" using pos off by simp
    moreover have "length (bufdata b1) - (byteIter b1 - (off + 2)) \<ge> 2" using le calculation by simp
    ultimately show ?thesis
      using al(2) ov
      by (simp add: WriteStream_updateChksum_def WriteStream_serializeUint16_def Let_def bytesLeft_def
        store_le_byteswapBE b2_def advance_bytes_pos_def poke_def at [simplified] buf)
  qed
  have al2: "bitPos b2 = 0" and it2: "byteIter b2 = byteIter b1" using al by (simp_all add: b2_def)
  have "take (byteIter b2) (bufdata b2) = A @ overwrite ds i (store_be 2 c)"
    using A pos il by (simp add: b2_def)
  then have "bits_done b2 = bits_done b @ bits_of (overwrite ds i (store_be 2 c))"
    using al al2 by (simp add: bits_done_aligned A_def)
  moreover have "drop (byteIter b2) (bufdata b2) = drop (byteIter b2) (bufdata b)"
    using rest it2 pos il A by (simp add: b2_def)
  moreover have "length (bufdata b2) = length (bufdata b)"
    using il len buf by (simp add: b2_def)
  moreover have "bit_pos b2 = bit_pos b + 8 * length ds" "wf_buf b2" "clean_tail b2"
    using al al2 it2 pos wf calculation(3) len
    by (simp_all add: bit_pos_def wf_buf_def clean_tail_def)
  moreover have "(bit_pos b2 + 7) div 8 = byteIter b2" using al2 by (simp add: bit_pos_def)
  ultimately have "appended b (bits_of (overwrite ds i (store_be 2 c))) b2"
    using il by (simp add: appended_def)
  then show ?thesis using upd by (auto simp: i_def)
qed

lemma writesB_patch:
  assumes m: "writesB k m (bits_of ds) a" and k: "k mod 8 = 0"
    and n: "n = length ds" "n \<noteq> npos" and off: "off + 2 \<le> n"
  shows "writesB k
     (ser_bind m (\<lambda>a.
      ser_bind (if_reading r (ser_bind (lookback n) (\<lambda>hdr. updateChksum (f hdr) off))) (\<lambda>_. ser_return a)))
     (bits_of (overwrite ds (n - (off + 2)) (store_be 2 (f ds)))) a"
  unfolding writesB_def
proof (intro allI impI)
  fix b
  assume b: "wf_buf b" "clean_tail b" "bit_pos b mod 8 = k mod 8"
    and room: "length (bits_of (overwrite ds (n - (off + 2)) (store_be 2 (f ds)))) \<le> bits_room b"
  have len: "length (overwrite ds (n - (off + 2)) (store_be 2 (f ds))) = length ds" using n off by simp
  obtain b1 where b1: "m (WriteStream b) = (Inr a, WriteStream b1)" "appended b (bits_of ds) b1"
    using m b room len unfolding writesB_def by auto
  have al: "bitPos b = 0" using bitPos_bit_pos [OF b(1)] b(3) k by simp
  have wf1: "wf_buf b1" and p1: "bit_pos b1 mod 8 = 0"
    using b1(2) b(3) k by (auto simp: appended_def)
  have al1: "bitPos b1 = 0" using bitPos_bit_pos [OF wf1] p1 by simp
  have pos: "byteIter b1 = byteIter b + length ds" using b1(2) al al1 by (simp add: appended_def bit_pos_def)
  have "bits_of (take (byteIter b1) (bufdata b1)) = bits_of (take (byteIter b) (bufdata b) @ ds)"
    using b1(2) al al1 by (simp add: appended_def bits_done_aligned)
  then have "take (byteIter b1) (bufdata b1) = take (byteIter b) (bufdata b) @ ds" by (rule bits_of_inject)
  moreover have "byteIter b \<le> length (bufdata b)" using b(1) by (simp add: wf_buf_def)
  ultimately have "drop (byteIter b) (take (byteIter b1) (bufdata b1)) = ds" by simp
  then have "take n (drop (byteIter b1 - n) (bufdata b1)) = ds"
    using pos n(1) by (simp add: drop_take)
  then have lb: "lookback n (WriteStream b1) = (Inr ds, WriteStream b1)"
    using al1 pos n by (simp add: WriteStream_lookback_def)
  obtain b2 where b2: "WriteStream_updateChksum (f ds) off b1 = (Inr (), b2)"
      "appended b (bits_of (overwrite ds (length ds - (off + 2)) (store_be 2 (f ds)))) b2"
    using appended_patch [OF b1(2) al al1, of off "f ds"] off n(1) by blast
  show "\<exists>b'. ser_bind m (\<lambda>a. ser_bind (if_reading r (ser_bind (lookback n) (\<lambda>hdr. updateChksum (f hdr) off)))
      (\<lambda>_. ser_return a)) (WriteStream b) = (Inr a, WriteStream b') \<and>
      appended b (bits_of (overwrite ds (n - (off + 2)) (store_be 2 (f ds)))) b'"
    using b1(1) lb b2 n(1) by (simp add: ser_bind_def if_reading_def ser_return_def)
qed

section \<open>IPv4\<close>

text \<open>The bytes of the header with a given checksum.\<close>

definition IPv4_bytes :: "IPv4H \<Rightarrow> u16 \<Rightarrow> byte list" where
  "IPv4_bytes h c = [0x45, ip4_tos h] @ store_be 2 (ip4_len h) @ store_be 2 (ip4_id h)
     @ store_be 2 (push_bit 13 (ucast (ip4_flags h)) OR ip4_frag h) @ [ip4_ttl h, ip4_proto h]
     @ store_be 2 c @ toBytes4 (ip4_src h) @ toBytes4 (ip4_dst h)"

definition wf_IPv4 :: "IPv4H \<Rightarrow> bool" where
  "wf_IPv4 h \<longleftrightarrow> fits 2 (ip4_flags h) \<and> fits 13 (ip4_frag h) \<and> wf_ip (ip4_src h) \<and> is4 (ip4_src h)
     \<and> wf_ip (ip4_dst h) \<and> is4 (ip4_dst h)"

definition IPv4_chksum :: "IPv4H \<Rightarrow> u16" where
  "IPv4_chksum h = internetChecksum (IPv4_bytes h 0) 0"

lemma length_IPv4_bytes [simp]: "length (IPv4_bytes h c) = 20"
  by (simp add: IPv4_bytes_def length_toBytes)

lemma store_be_2: "store_be 2 c = [ucast (drop_bit 8 c), ucast c]"
  by (simp add: store_be_def upt_rec)

lemma IPv4_patch: "overwrite (IPv4_bytes h 0) 10 (store_be 2 c) = IPv4_bytes h c"
  by (simp add: IPv4_bytes_def overwrite_def)

lemma fits_mono: "fits m v \<Longrightarrow> m \<le> n \<Longrightarrow> fits n v"
  by (rule fitsI) (auto dest: fits_bitD)

lemma flags_frag_bits:
  assumes "fits 3 flags" "fits 13 frag"
  shows "to_bits 3 (flags :: byte) @ to_bits 13 (frag :: u16) = to_bits 16 (push_bit 13 (ucast flags) OR frag)"
  by (rule nth_equalityI)
    (use assms in \<open>auto simp: nth_append nth_to_bits bit_simps dest: fits_bitD\<close>)

lemma IPv4_bits:
  assumes "wf_IPv4 h"
  shows "to_bits 4 (4 :: byte) @ to_bits 4 (5 :: byte) @ to_bits 8 (ip4_tos h) @ to_bits 16 (ip4_len h)
     @ to_bits 16 (ip4_id h) @ to_bits 3 (ip4_flags h) @ to_bits 13 (ip4_frag h) @ to_bits 8 (ip4_ttl h)
     @ to_bits 8 (ip4_proto h) @ to_bits 16 c @ IPAddress_bits (ip4_src h) @ IPAddress_bits (ip4_dst h)
     = bits_of (IPv4_bytes h c)" (is "?lhs = _")
proof -
  have f: "fits 3 (ip4_flags h)" "fits 13 (ip4_frag h)" and a: "is4 (ip4_src h)" "is4 (ip4_dst h)"
    using assms by (auto simp: wf_IPv4_def intro: fits_mono)
  have v: "to_bits 4 (4 :: byte) @ to_bits 4 (5 :: byte) = bits_of [0x45]"
    by (simp add: to_bits_def bits_of_def byte_bits_def upt_rec)
  have "?lhs = (to_bits 4 (4 :: byte) @ to_bits 4 (5 :: byte)) @ to_bits 8 (ip4_tos h) @ to_bits 16 (ip4_len h)
     @ to_bits 16 (ip4_id h) @ (to_bits 3 (ip4_flags h) @ to_bits 13 (ip4_frag h)) @ to_bits 8 (ip4_ttl h)
     @ to_bits 8 (ip4_proto h) @ to_bits 16 c @ IPAddress_bits (ip4_src h) @ IPAddress_bits (ip4_dst h)"
    by (simp only: append_assoc)
  also have "\<dots> = bits_of (IPv4_bytes h c)"
    unfolding v flags_frag_bits [OF f]
    using a
    by (simp add: to_bits_store_be [where n = 2, simplified] to_bits_store_be [where n = 4, simplified] IPv4_bytes_def IPAddress_bits_def toBytes4_store to_bits_8 bits_of_Cons)
  finally show ?thesis .
qed

lemma sum16_append: "even (length xs) \<Longrightarrow> sum16 (xs @ ys) = sum16 xs + sum16 ys"
  by (induction xs rule: sum16.induct) auto

lemma sum16_store_be: "sum16 (store_be 2 (c :: u16)) = unat c"
proof -
  have "unat (ucast (drop_bit 8 c) :: byte) = unat c div 256"
    using unsigned_less [of c, where 'a = nat] by (simp add: unsigned_ucast_eq unat_drop_bit_eq drop_bit_nat_def take_bit_nat_def)
  moreover have "unat (ucast c :: byte) = unat c mod 256"
    by (simp add: unsigned_ucast_eq take_bit_nat_def)
  ultimately show ?thesis by (simp add: store_be_2)
qed

lemma sum16_IPv4: "sum16 (IPv4_bytes h c) = sum16 (IPv4_bytes h 0) + unat c"
  by (simp add: IPv4_bytes_def sum16_append sum16_store_be)

lemma IPv4_fields_writes:
  assumes "wf_IPv4 h"
  shows "writesB 0 (IPv4_fields h) (bits_of (IPv4_bytes h 0)) h"
  unfolding IPv4_fields_def IPv4_bits [OF assms, symmetric]
  using assms
  by - (rule writes_steps ip4.writes_aligned IPv4H.equality | (simp add: length_IPAddress_bits wf_IPv4_def; fail))+

lemma IPv4_writes:
  assumes "wf_IPv4 h"
  shows "writesB 0 (IPv4_serialize h) (bits_of (IPv4_bytes h (IPv4_chksum h))) h"
proof -
  have "writesB 0 (ser_bind (IPv4_fields h) (\<lambda>h'.
      ser_bind (if_reading (ser_return ()) (ser_bind (lookback 20) (\<lambda>hdr. updateChksum (internetChecksum hdr 0) 8)))
      (\<lambda>_. ser_return h')))
     (bits_of (overwrite (IPv4_bytes h 0) (20 - (8 + 2)) (store_be 2 (internetChecksum (IPv4_bytes h 0) 0)))) h"
    by (rule writesB_patch [OF IPv4_fields_writes [OF assms]]) (simp_all add: npos_def)
  moreover have "writesB 0 (if_reading r (ser_return ())) [] ()" for r
    by (intro writesB_if_reading writesB_return)
  ultimately have "writesB 0 (IPv4_serialize h)
     ([] @ bits_of (overwrite (IPv4_bytes h 0) (20 - (8 + 2)) (store_be 2 (internetChecksum (IPv4_bytes h 0) 0)))) h"
    unfolding IPv4_serialize_def by (intro writesB_bind) simp_all
  then show ?thesis by (simp add: IPv4_patch IPv4_chksum_def)
qed

lemma bit_int_4: "bit (4 :: int) n \<longleftrightarrow> n = 2"
  using bit_exp_iff [of 2 n, where 'a = int] by auto

lemma IPv4_flags_ok: "fits 2 flags \<Longrightarrow> \<not> flag_get (flags :: byte) 4"
proof -
  assume f: "fits 2 flags"
  have "(flags AND 4) = 0"
    by (rule bit_word_eqI) (auto simp: bit_simps bit_int_4 dest: fits_bitD [OF f])
  then show ?thesis by (simp add: flag_get_def)
qed

lemma IPv4_flags_fits: "fits 3 flags \<Longrightarrow> \<not> flag_get (flags :: byte) 4 \<Longrightarrow> fits 2 flags"
proof (rule fitsI, rule notI)
  fix i
  assume f: "fits 3 flags" "\<not> flag_get flags 4" and i: "2 \<le> i" "bit flags i"
  then have "i = 2" using fits_bitD [OF f(1) i(2)] by simp
  then have "bit (flags AND 4) 2" using i(2) by (simp add: bit_simps bit_int_4)
  then show False using f(2) by (auto simp: flag_get_def)
qed

lemma IPv4_fields_reads:
  assumes "wf_IPv4 h"
  shows "readsB 0 (IPv4_fields h0) (bits_of (IPv4_bytes h c)) h"
proof -
  have f: "fits 3 (ip4_flags h)" "fits 13 (ip4_frag h)" "\<not> flag_get (ip4_flags h) 4"
    using assms by (auto simp: wf_IPv4_def IPv4_flags_ok intro: fits_mono)
  show ?thesis
    unfolding IPv4_fields_def IPv4_bits [OF assms, symmetric]
    using assms f(3)
    by - (rule reads_steps ip4.reads_aligned IPv4H.equality f(1,2)
       | (simp add: length_IPAddress_bits wf_IPv4_def; fail))+
qed

lemma IPv4_fields_gets:
  "getsB 0 (IPv4_fields h0) (\<lambda>h bs. wf_IPv4 h \<and> (\<exists>c. bs = bits_of (IPv4_bytes h c)))"
proof -
  have "getsB 0 (IPv4_fields h0) (\<lambda>h bs. wf_IPv4 h \<and> (\<exists>c :: u16. bs = to_bits 4 (4 :: byte) @ to_bits 4 (5 :: byte)
     @ to_bits 8 (ip4_tos h) @ to_bits 16 (ip4_len h)
     @ to_bits 16 (ip4_id h) @ to_bits 3 (ip4_flags h) @ to_bits 13 (ip4_frag h) @ to_bits 8 (ip4_ttl h)
     @ to_bits 8 (ip4_proto h) @ to_bits 16 c @ IPAddress_bits (ip4_src h) @ IPAddress_bits (ip4_dst h)))"
    unfolding IPv4_fields_def
    by (intro gets_steps getsB_step_host)
      (auto simp: wf_IPv4_def IPv4_flags_fits length_IPAddress_bits not_less intro: order.antisym)
  then show ?thesis by (rule getsB_mono) (auto simp: IPv4_bits)
qed

text \<open>Reading never turns a read stream into a write stream.\<close>

definition keeps_reading :: "'a ser \<Rightarrow> bool" where
  "keeps_reading m \<longleftrightarrow> (\<forall>b. \<exists>r b'. m (ReadStream b) = (r, ReadStream b'))"

lemma keeps_on_stream: "keeps_reading (on_stream rd v wr)"
  by (auto simp: keeps_reading_def on_stream_def split_def apsnd_def map_prod_def)

lemma keeps_return: "keeps_reading (ser_return a)"
  by (simp add: keeps_reading_def ser_return_def)

lemma keeps_check: "keeps_reading (read_check bad msg)"
  by (simp add: keeps_reading_def read_check_def)

lemma keeps_bind:
  assumes m: "keeps_reading m" and f: "\<And>a. keeps_reading (f a)"
  shows "keeps_reading (ser_bind m f)"
  unfolding keeps_reading_def
proof
  fix b
  obtain r b' where "m (ReadStream b) = (r, ReadStream b')"
    using m unfolding keeps_reading_def by metis
  then show "\<exists>r b'. ser_bind m f (ReadStream b) = (r, ReadStream b')"
    using f unfolding keeps_reading_def by (cases r) (simp_all add: ser_bind_def)
qed

lemma keeps_if_reading: "keeps_reading r \<Longrightarrow> keeps_reading (if_reading r w)"
  by (simp add: keeps_reading_def if_reading_def)

lemma keeps_IPv4_fields: "keeps_reading (IPv4_fields h0)"
  unfolding IPv4_fields_def IPAddress_serialize_def serializeBits_def serializeByte_def serializeUint16_def
    serializeUint32_def if_True
  by (intro keeps_bind keeps_on_stream keeps_return keeps_check keeps_if_reading)

text \<open>What \<open>serialize\<close> does on a read stream.\<close>

lemma IPv4_read_step:
  "IPv4_serialize h0 (ReadStream b) =
   ser_bind (lookahead 20) (\<lambda>hdr.
     ser_bind (read_check (onesComplementChecksumScalar hdr 0 \<noteq> 0xffff) ''incorrect IP checksum'') (\<lambda>_.
     IPv4_fields h0)) (ReadStream b)"
proof -
  have "ser_bind (IPv4_fields h0) (\<lambda>h'. ser_bind (if_reading (ser_return ()) w) (\<lambda>_. ser_return h')) (ReadStream b)
      = IPv4_fields h0 (ReadStream b)" for w b
  proof -
    obtain r b' where "IPv4_fields h0 (ReadStream b) = (r, ReadStream b')"
      using keeps_IPv4_fields unfolding keeps_reading_def by metis
    then show ?thesis by (cases r) (simp_all add: ser_bind_def if_reading_def ser_return_def)
  qed
  note f = this
  show ?thesis
    unfolding IPv4_serialize_def
    by (cases "ReadStream_lookahead 20 b")
      (simp_all add: ser_bind_def [of "if_reading r w" for r w] ser_bind_def [of "lookahead n" for n]
        ser_bind_def [of "read_check c m" for c m] if_reading_def [of _ _ "ReadStream b"] read_check_def f Let_def)
qed

lemma IPv4_reads:
  assumes "wf_IPv4 h" "onesComplementChecksumScalar (IPv4_bytes h c) 0 = 0xffff"
  shows "readsB 0 (IPv4_serialize h0) (bits_of (IPv4_bytes h c)) h"
proof -
  have "readsB 0 (ser_bind (lookahead 20) (\<lambda>hdr.
     ser_bind (read_check (onesComplementChecksumScalar hdr 0 \<noteq> 0xffff) ''incorrect IP checksum'') (\<lambda>_.
     IPv4_fields h0))) (bits_of (IPv4_bytes h c)) h"
    by (rule readsB_lookahead [where ds = "IPv4_bytes h c" and bs' = "[]"])
      (simp_all add: npos_def assms readsB_check_bind IPv4_fields_reads)
  then show ?thesis by (simp add: readsB_def IPv4_read_step)
qed

lemma IPv4_gets:
  "getsB 0 (IPv4_serialize h0) (\<lambda>h bs. wf_IPv4 h \<and>
     (\<exists>c. bs = bits_of (IPv4_bytes h c) \<and> onesComplementChecksumScalar (IPv4_bytes h c) 0 = 0xffff))"
  (is "getsB 0 _ ?Q")
proof -
  have "getsB 0 (ser_bind (lookahead 20) (\<lambda>hdr.
     ser_bind (read_check (onesComplementChecksumScalar hdr 0 \<noteq> 0xffff) ''incorrect IP checksum'') (\<lambda>_.
     IPv4_fields h0))) ?Q"
  proof (rule getsB_lookahead_bind)
    fix ds :: "byte list"
    assume ds: "length ds = 20"
    show "getsB 0 (ser_bind (read_check (onesComplementChecksumScalar ds 0 \<noteq> 0xffff) ''incorrect IP checksum'')
        (\<lambda>_. IPv4_fields h0)) (\<lambda>a bs. 8 * 20 \<le> length bs \<and> take (8 * 20) bs = bits_of ds \<longrightarrow> ?Q a bs)"
      by (rule getsB_step_check, rule getsB_mono [OF IPv4_fields_gets]) (auto dest!: bits_of_inject)
  next
    show "getsB 0 (ser_bind (read_check (onesComplementChecksumScalar ds 0 \<noteq> 0xffff) ''incorrect IP checksum'')
        (\<lambda>_. IPv4_fields h0)) (\<lambda>a bs. 8 * 20 \<le> length bs)" for ds
      by (rule getsB_step_check, rule getsB_mono [OF IPv4_fields_gets]) auto
  qed (simp_all add: npos_def)
  then show ?thesis by (simp add: getsB_def IPv4_read_step)
qed

lemma IPv4_read_iff:
  "(\<exists>st. IPv4_serialize h0 (ReadStream (stream_init d)) = (Inr h, st)) \<longleftrightarrow>
     wf_IPv4 h \<and> (\<exists>c. take 20 d = IPv4_bytes h c \<and> onesComplementChecksumScalar (IPv4_bytes h c) 0 = 0xffff)"
proof
  assume "\<exists>st. IPv4_serialize h0 (ReadStream (stream_init d)) = (Inr h, st)"
  then obtain n c where h: "wf_IPv4 h" "take n (bits_of d) = bits_of (IPv4_bytes h c)"
      "onesComplementChecksumScalar (IPv4_bytes h c) 0 = 0xffff" "n \<le> 8 * length d"
    using IPv4_gets [of h0, unfolded getsB_def, THEN spec, of "stream_init d"] by auto
  from h(2) have "length (take n (bits_of d)) = 8 * 20" by simp
  then have "n = 8 * 20" using h(4) by simp
  then have "take 20 d = IPv4_bytes h c" using h(2) by (simp only: take_bits_of) (rule bits_of_inject)
  with h show "wf_IPv4 h \<and> (\<exists>c. take 20 d = IPv4_bytes h c \<and>
      onesComplementChecksumScalar (IPv4_bytes h c) 0 = 0xffff)" by blast
next
  assume "wf_IPv4 h \<and> (\<exists>c. take 20 d = IPv4_bytes h c \<and> onesComplementChecksumScalar (IPv4_bytes h c) 0 = 0xffff)"
  then obtain c where h: "wf_IPv4 h" "take 20 d = IPv4_bytes h c"
      "onesComplementChecksumScalar (IPv4_bytes h c) 0 = 0xffff" by blast
  have "bits_of d = bits_of (IPv4_bytes h c) @ bits_of (drop 20 d)"
    using h(2) by (metis append_take_drop_id bits_of_append)
  then show "\<exists>st. IPv4_serialize h0 (ReadStream (stream_init d)) = (Inr h, st)"
    using IPv4_reads [OF h(1,3), of h0, unfolded readsB_def, THEN spec, of "stream_init d"] by auto
qed

text \<open>The written checksum verifies exactly when the first fold of the sum does not carry.\<close>

lemma sum16_le: "sum16 bs \<le> 0xffff * ((length bs + 1) div 2)"
proof (induction bs rule: sum16.induct)
  case (1 a b bs)
  then show ?case using unat_byte [of a] unat_byte [of b] by simp
next
  case (2 a)
  then show ?case using unat_byte [of a] by simp
qed simp

lemma div_mod_16:
  assumes "r < 2 ^ 16"
  shows "(2 ^ 16 * q + r) div 2 ^ 16 = (q :: nat)" "(2 ^ 16 * q + r) mod 2 ^ 16 = r"
  using assms by simp_all

lemma fold_complement:
  fixes S :: nat
  assumes "S < 2 ^ 32"
  defines "T \<equiv> S div 2 ^ 16 + S mod 2 ^ 16"
  defines "S' \<equiv> S + (0xffff - T mod 2 ^ 16)"
  shows "(S' div 2 ^ 16 + S' mod 2 ^ 16) mod 2 ^ 16 = 0xffff \<longleftrightarrow> T < 2 ^ 16"
proof -
  define a b where ab: "a = S div 2 ^ 16" "b = S mod 2 ^ 16"
  have T: "T = a + b" by (simp add: T_def ab)
  have a: "a < 2 ^ 16" and b: "b < 2 ^ 16" and S: "S = 2 ^ 16 * a + b"
    using assms(1) by (simp_all add: ab)
  show ?thesis
  proof (cases "a + b < 2 ^ 16")
    case True
    then have "S' = 2 ^ 16 * a + (0xffff - a)" using a by (simp add: S'_def T S)
    then have "S' div 2 ^ 16 = a" "S' mod 2 ^ 16 = 0xffff - a" using div_mod_16 [of "0xffff - a" a] by simp_all
    then show ?thesis using True a by (simp add: T)
  next
    case False
    then have "(a + b) mod 2 ^ 16 = a + b - 2 ^ 16" using a b by (simp add: mod_if)
    then have "S' = 2 ^ 16 * (a + 1) + (0xffff - a)"
      using False a b by (simp add: S'_def T S)
    then have "S' div 2 ^ 16 = a + 1" "S' mod 2 ^ 16 = 0xffff - a"
      using div_mod_16 [of "0xffff - a" "a + 1"] by simp_all
    then show ?thesis using False a by (simp add: T)
  qed
qed

lemma unat_not16: "unat (NOT (w :: u16)) = 0xffff - unat w"
proof -
  have "NOT w = - 1 - w" by (simp add: not_eq_complement)
  moreover have "w \<le> - 1" by simp
  ultimately show ?thesis by (simp add: unat_sub unsigned_minus_1_eq_mask mask_eq_exp_minus_1)
qed

lemma IPv4_chksum_ok:
  "onesComplementChecksumScalar (IPv4_bytes h (IPv4_chksum h)) 0 = 0xffff \<longleftrightarrow>
     sum16 (IPv4_bytes h 0) div 2 ^ 16 + sum16 (IPv4_bytes h 0) mod 2 ^ 16 < 2 ^ 16"
proof -
  let ?S = "sum16 (IPv4_bytes h 0)"
  have S: "?S \<le> 0xffff * 10" using sum16_le [of "IPv4_bytes h 0"] by simp
  then have S32: "?S < 2 ^ 32" by simp
  have c: "unat (IPv4_chksum h) = 0xffff - (?S div 2 ^ 16 + ?S mod 2 ^ 16) mod 2 ^ 16"
    using onesComplementChecksum_unat [of 0 "IPv4_bytes h 0"] S
    by (simp add: IPv4_chksum_def internetChecksum_def unat_not16)
  have "unat (onesComplementChecksumScalar (IPv4_bytes h (IPv4_chksum h)) 0) =
     ((?S + unat (IPv4_chksum h)) div 2 ^ 16 + (?S + unat (IPv4_chksum h)) mod 2 ^ 16) mod 2 ^ 16"
    using onesComplementChecksum_unat [of 0 "IPv4_bytes h (IPv4_chksum h)"] S c
    by (simp add: sum16_IPv4 [of h "IPv4_chksum h"])
  then have "unat (onesComplementChecksumScalar (IPv4_bytes h (IPv4_chksum h)) 0) = 0xffff \<longleftrightarrow>
      ?S div 2 ^ 16 + ?S mod 2 ^ 16 < 2 ^ 16"
    using fold_complement [of ?S] S32 by (simp only: c)
  moreover have "w = 0xffff \<longleftrightarrow> unat w = 0xffff" for w :: u16
    by (simp add: word_unat_eq_iff)
  ultimately show ?thesis by simp
qed

text \<open>C22: A buffer is accepted as an IPv4 header exactly when its first 20 bytes are the header's
  encoding with some checksum field and their one's complement sum is \<open>0xffff\<close>; other versions,
  headers with options, reserved flags, wrong checksums and short buffers are rejected.\<close>

theorem ipv4_read_iff:
  "(\<exists>st. IPv4_serialize h0 (ReadStream (stream_init d)) = (Inr h, st)) \<longleftrightarrow>
     wf_IPv4 h \<and> (\<exists>c. take 20 d = IPv4_bytes h c \<and> onesComplementChecksumScalar (IPv4_bytes h c) 0 = 0xffff)"
  by (rule IPv4_read_iff)

text \<open>C23: Writing an IPv4 header with its computed checksum always succeeds in a large enough buffer
  and never writes past 20 bytes; the reader accepts the result exactly when folding the sum of the
  header words once leaves no carry. For the other headers the lost carry makes the checksum wrong.\<close>

theorem ipv4_roundtrip_iff:
  assumes "wf_IPv4 h" "20 \<le> length buf"
  shows "\<exists>b. IPv4_serialize h (WriteStream (stream_init buf)) = (Inr h, WriteStream b) \<and>
    bufdata b = IPv4_bytes h (IPv4_chksum h) @ drop 20 buf \<and>
    ((\<exists>st. IPv4_serialize h0 (ReadStream (stream_init (bufdata b))) = (Inr h, st)) \<longleftrightarrow>
     sum16 (IPv4_bytes h 0) div 2 ^ 16 + sum16 (IPv4_bytes h 0) mod 2 ^ 16 < 2 ^ 16)"
proof -
  let ?e = "IPv4_bytes h (IPv4_chksum h)"
  obtain b where b: "IPv4_serialize h (WriteStream (stream_init buf)) = (Inr h, WriteStream b)"
      "appended (stream_init buf) (bits_of ?e) b"
    using IPv4_writes [OF assms(1), unfolded writesB_def, THEN spec, of "stream_init buf"] assms(2) by auto
  have wf: "wf_buf b" and pos: "bit_pos b = 8 * 20" using b(2) by (simp_all add: appended_def)
  have al: "bitPos b = 0" "byteIter b = 20" using aligned_pos [OF wf] pos by simp_all
  have "take 20 (bufdata b) = ?e"
    using b(2) al by (auto simp: appended_def bits_done_aligned intro: bits_of_inject)
  moreover have "drop 20 (bufdata b) = drop 20 buf" using b(2) pos by (simp add: appended_def stream_init_def)
  ultimately have buf: "bufdata b = ?e @ drop 20 buf" by (metis append_take_drop_id)
  have "(\<exists>c. take 20 (bufdata b) = IPv4_bytes h c \<and> onesComplementChecksumScalar (IPv4_bytes h c) 0 = 0xffff)
      \<longleftrightarrow> onesComplementChecksumScalar ?e 0 = 0xffff"
    unfolding buf by simp metis
  then show ?thesis using b(1) buf IPv4_read_iff [of h0 "bufdata b" h] assms(1) IPv4_chksum_ok by auto
qed

text \<open>A UDP packet from 192.168.0.1 to a given address, and the destination for which its checksum
  is wrong: the words sum to \<open>0x2fffe\<close>.\<close>

definition example_IPv4 :: "u32 \<Rightarrow> IPv4H" where
  "example_IPv4 dst = \<lparr>ip4_flags = 2, ip4_tos = 0, ip4_ttl = 64, ip4_proto = 17, ip4_len = 28, ip4_id = 1,
     ip4_frag = 0, ip4_src = MakeIPv4 0xc0a80001, ip4_dst = MakeIPv4 dst\<rparr>"

lemma example_IPv4_wf: "wf_IPv4 (example_IPv4 dst)"
  by (simp add: wf_IPv4_def example_IPv4_def) (simp add: fits_def)

lemma IPv4_carry_lost:
  "sum16 (IPv4_bytes (example_IPv4 0xc0a8b97f) 0) = 0x2fffe"
  by (simp add: IPv4_bytes_def example_IPv4_def toBytes4_store MakeIPv4_def getIPv4_def store_be_def upt_rec)

lemma ipv4_roundtrip_iff_witness:
  "\<exists>b. IPv4_serialize (example_IPv4 0xc0a80002) (WriteStream (stream_init (replicate 20 0))) =
       (Inr (example_IPv4 0xc0a80002), WriteStream b) \<and>
     (\<exists>st. IPv4_serialize (example_IPv4 0) (ReadStream (stream_init (bufdata b))) =
       (Inr (example_IPv4 0xc0a80002), st))"
proof -
  have "sum16 (IPv4_bytes (example_IPv4 0xc0a80002) 0) = 0x24681"
    by (simp add: IPv4_bytes_def example_IPv4_def toBytes4_store MakeIPv4_def getIPv4_def store_be_def upt_rec)
  then show ?thesis
    using ipv4_roundtrip_iff [OF example_IPv4_wf, of "replicate 20 0" "0xc0a80002" "example_IPv4 0"] by auto
qed

end
