(* ===== verification/HdrScmp.thy ===== *)
theory HdrScmp
  imports HdrIp
begin

text \<open>
  The SCION control message protocol, \<open>include/scion/hdr/scmp.hpp\<close> and
  \<open>include/scion/as_interface.hpp\<close>: one group of operations per message class, the variant
  \<open>ScmpMessage\<close> and the header class \<open>SCMP\<close>, whose \<open>serialize\<close> selects the message by its type.
  The header is a codec for the messages the code can write; the reader in addition
  yields unknown error messages; \<open>checksum\<close> is the sum of the 16-bit words of the encoding.
\<close>

section \<open>Interface identifiers\<close>

type_synonym AsInterface = u64

definition AsInterface_checksum :: "AsInterface \<Rightarrow> u32" where
  "AsInterface_checksum ifid =
     ucast ((ifid AND 0xffff) + (drop_bit 16 ifid AND 0xffff)
       + (drop_bit 32 ifid AND 0xffff) + (drop_bit 48 ifid AND 0xffff))"

definition AsInterface_size :: nat where
  "AsInterface_size = 8"

definition AsInterface_serialize :: "AsInterface \<Rightarrow> AsInterface ser" where
  "AsInterface_serialize ifid = serializeUint64 ifid"

section \<open>Message classes\<close>

definition ScmpType_DstUnreach :: byte where "ScmpType_DstUnreach = 1"
definition ScmpType_PacketTooBig :: byte where "ScmpType_PacketTooBig = 2"
definition ScmpType_ParamProblem :: byte where "ScmpType_ParamProblem = 4"
definition ScmpType_ExtIfDown :: byte where "ScmpType_ExtIfDown = 5"
definition ScmpType_IntConnDown :: byte where "ScmpType_IntConnDown = 6"
definition ScmpType_EchoRequest :: byte where "ScmpType_EchoRequest = 128"
definition ScmpType_EchoReply :: byte where "ScmpType_EchoReply = 129"
definition ScmpType_TraceRequest :: byte where "ScmpType_TraceRequest = 130"
definition ScmpType_TraceReply :: byte where "ScmpType_TraceReply = 131"

lemmas ScmpType_defs = ScmpType_DstUnreach_def ScmpType_PacketTooBig_def ScmpType_ParamProblem_def
  ScmpType_ExtIfDown_def ScmpType_IntConnDown_def ScmpType_EchoRequest_def ScmpType_EchoReply_def
  ScmpType_TraceRequest_def ScmpType_TraceReply_def

text \<open>The variant; \<open>type\<close> and the codes that are constants of their class are not stored.\<close>

datatype ScmpMessage =
  ScmpUnknownError byte byte
| ScmpDstUnreach byte
| ScmpPacketTooBig u16
| ScmpParamProblem byte u16
| ScmpExtIfDown IsdAsn AsInterface
| ScmpIntConnDown IsdAsn AsInterface AsInterface
| ScmpEchoRequest u16 u16
| ScmpEchoReply u16 u16
| ScmpTraceRequest u16 u16
| ScmpTraceReply u16 u16 IsdAsn AsInterface

text \<open>\<open>((std::uint32_t)type << 8) + (std::uint8_t)code\<close>\<close>

definition type_code_sum :: "byte \<Rightarrow> byte \<Rightarrow> u32" where
  "type_code_sum type code = push_bit 8 (ucast type) + ucast code"

definition ScmpUnknownError_checksum :: "byte \<Rightarrow> byte \<Rightarrow> u32" where
  "ScmpUnknownError_checksum type code = type_code_sum type code"

definition ScmpDstUnreach_checksum :: "byte \<Rightarrow> u32" where
  "ScmpDstUnreach_checksum code = type_code_sum ScmpType_DstUnreach code"

definition ScmpDstUnreach_serialize :: "byte \<Rightarrow> ScmpMessage ser" where
  "ScmpDstUnreach_serialize code =
     ser_bind (advanceBytes 4) (\<lambda>_. ser_return (ScmpDstUnreach code))"

definition ScmpPacketTooBig_checksum :: "u16 \<Rightarrow> u32" where
  "ScmpPacketTooBig_checksum mtu = type_code_sum ScmpType_PacketTooBig 0 + ucast mtu"

definition ScmpPacketTooBig_serialize :: "u16 \<Rightarrow> ScmpMessage ser" where
  "ScmpPacketTooBig_serialize mtu =
     ser_bind (advanceBytes 2) (\<lambda>_.
     ser_bind (serializeUint16 mtu) (\<lambda>mtu. ser_return (ScmpPacketTooBig mtu)))"

definition ScmpParamProblem_checksum :: "byte \<Rightarrow> u16 \<Rightarrow> u32" where
  "ScmpParamProblem_checksum code pointer = type_code_sum ScmpType_ParamProblem code + ucast pointer"

definition ScmpParamProblem_serialize :: "byte \<Rightarrow> u16 \<Rightarrow> ScmpMessage ser" where
  "ScmpParamProblem_serialize code pointer =
     ser_bind (advanceBytes 2) (\<lambda>_.
     ser_bind (serializeUint16 pointer) (\<lambda>pointer. ser_return (ScmpParamProblem code pointer)))"

definition ScmpExtIfDown_checksum :: "IsdAsn \<Rightarrow> AsInterface \<Rightarrow> u32" where
  "ScmpExtIfDown_checksum sender iface =
     (let sum = type_code_sum ScmpType_ExtIfDown 0;
          sum = sum + IsdAsn_checksum sender
      in sum + AsInterface_checksum iface)"

definition ScmpExtIfDown_serialize :: "IsdAsn \<Rightarrow> AsInterface \<Rightarrow> ScmpMessage ser" where
  "ScmpExtIfDown_serialize sender iface =
     ser_bind (IsdAsn_serialize sender) (\<lambda>sender.
     ser_bind (AsInterface_serialize iface) (\<lambda>iface. ser_return (ScmpExtIfDown sender iface)))"

definition ScmpIntConnDown_checksum :: "IsdAsn \<Rightarrow> AsInterface \<Rightarrow> AsInterface \<Rightarrow> u32" where
  "ScmpIntConnDown_checksum sender ingress egress =
     (let sum = type_code_sum ScmpType_IntConnDown 0;
          sum = sum + IsdAsn_checksum sender
      in sum + (AsInterface_checksum ingress + AsInterface_checksum egress))"

definition ScmpIntConnDown_serialize :: "IsdAsn \<Rightarrow> AsInterface \<Rightarrow> AsInterface \<Rightarrow> ScmpMessage ser" where
  "ScmpIntConnDown_serialize sender ingress egress =
     ser_bind (IsdAsn_serialize sender) (\<lambda>sender.
     ser_bind (AsInterface_serialize ingress) (\<lambda>ingress.
     ser_bind (AsInterface_serialize egress) (\<lambda>egress.
     ser_return (ScmpIntConnDown sender ingress egress))))"

definition ScmpEchoRequest_checksum :: "u16 \<Rightarrow> u16 \<Rightarrow> u32" where
  "ScmpEchoRequest_checksum id' seq = type_code_sum ScmpType_EchoRequest 0 + (ucast id' + ucast seq)"

definition ScmpEchoRequest_serialize :: "u16 \<Rightarrow> u16 \<Rightarrow> ScmpMessage ser" where
  "ScmpEchoRequest_serialize id' seq =
     ser_bind (serializeUint16 id') (\<lambda>id'.
     ser_bind (serializeUint16 seq) (\<lambda>seq. ser_return (ScmpEchoRequest id' seq)))"

definition ScmpEchoReply_checksum :: "u16 \<Rightarrow> u16 \<Rightarrow> u32" where
  "ScmpEchoReply_checksum id' seq = type_code_sum ScmpType_EchoReply 0 + (ucast id' + ucast seq)"

definition ScmpEchoReply_serialize :: "u16 \<Rightarrow> u16 \<Rightarrow> ScmpMessage ser" where
  "ScmpEchoReply_serialize id' seq =
     ser_bind (serializeUint16 id') (\<lambda>id'.
     ser_bind (serializeUint16 seq) (\<lambda>seq. ser_return (ScmpEchoReply id' seq)))"

definition ScmpTraceRequest_checksum :: "u16 \<Rightarrow> u16 \<Rightarrow> u32" where
  "ScmpTraceRequest_checksum id' seq = type_code_sum ScmpType_TraceRequest 0 + (ucast id' + ucast seq)"

definition ScmpTraceRequest_serialize :: "u16 \<Rightarrow> u16 \<Rightarrow> ScmpMessage ser" where
  "ScmpTraceRequest_serialize id' seq =
     ser_bind (serializeUint16 id') (\<lambda>id'.
     ser_bind (serializeUint16 seq) (\<lambda>seq.
     ser_bind (advanceBytes 16) (\<lambda>_. ser_return (ScmpTraceRequest id' seq))))"

definition ScmpTraceReply_checksum :: "u16 \<Rightarrow> u16 \<Rightarrow> IsdAsn \<Rightarrow> AsInterface \<Rightarrow> u32" where
  "ScmpTraceReply_checksum id' seq sender iface =
     (let sum = type_code_sum ScmpType_TraceReply 0;
          sum = sum + (ucast id' + ucast seq)
      in sum + (IsdAsn_checksum sender + AsInterface_checksum iface))"

definition ScmpTraceReply_serialize :: "u16 \<Rightarrow> u16 \<Rightarrow> IsdAsn \<Rightarrow> AsInterface \<Rightarrow> ScmpMessage ser" where
  "ScmpTraceReply_serialize id' seq sender iface =
     ser_bind (serializeUint16 id') (\<lambda>id'.
     ser_bind (serializeUint16 seq) (\<lambda>seq.
     ser_bind (IsdAsn_serialize sender) (\<lambda>sender.
     ser_bind (AsInterface_serialize iface) (\<lambda>iface.
     ser_return (ScmpTraceReply id' seq sender iface)))))"

section \<open>The variant and the header\<close>

fun ScmpMessage_type :: "ScmpMessage \<Rightarrow> byte" where
  "ScmpMessage_type (ScmpUnknownError type code) = type"
| "ScmpMessage_type (ScmpDstUnreach _) = ScmpType_DstUnreach"
| "ScmpMessage_type (ScmpPacketTooBig _) = ScmpType_PacketTooBig"
| "ScmpMessage_type (ScmpParamProblem _ _) = ScmpType_ParamProblem"
| "ScmpMessage_type (ScmpExtIfDown _ _) = ScmpType_ExtIfDown"
| "ScmpMessage_type (ScmpIntConnDown _ _ _) = ScmpType_IntConnDown"
| "ScmpMessage_type (ScmpEchoRequest _ _) = ScmpType_EchoRequest"
| "ScmpMessage_type (ScmpEchoReply _ _) = ScmpType_EchoReply"
| "ScmpMessage_type (ScmpTraceRequest _ _) = ScmpType_TraceRequest"
| "ScmpMessage_type (ScmpTraceReply _ _ _ _) = ScmpType_TraceReply"

fun ScmpMessage_code :: "ScmpMessage \<Rightarrow> byte" where
  "ScmpMessage_code (ScmpUnknownError type code) = code"
| "ScmpMessage_code (ScmpDstUnreach code) = code"
| "ScmpMessage_code (ScmpParamProblem code _) = code"
| "ScmpMessage_code _ = 0"

fun ScmpMessage_checksum :: "ScmpMessage \<Rightarrow> u32" where
  "ScmpMessage_checksum (ScmpUnknownError type code) = ScmpUnknownError_checksum type code"
| "ScmpMessage_checksum (ScmpDstUnreach code) = ScmpDstUnreach_checksum code"
| "ScmpMessage_checksum (ScmpPacketTooBig mtu) = ScmpPacketTooBig_checksum mtu"
| "ScmpMessage_checksum (ScmpParamProblem code pointer) = ScmpParamProblem_checksum code pointer"
| "ScmpMessage_checksum (ScmpExtIfDown sender iface) = ScmpExtIfDown_checksum sender iface"
| "ScmpMessage_checksum (ScmpIntConnDown sender ingress egress) =
     ScmpIntConnDown_checksum sender ingress egress"
| "ScmpMessage_checksum (ScmpEchoRequest id' seq) = ScmpEchoRequest_checksum id' seq"
| "ScmpMessage_checksum (ScmpEchoReply id' seq) = ScmpEchoReply_checksum id' seq"
| "ScmpMessage_checksum (ScmpTraceRequest id' seq) = ScmpTraceRequest_checksum id' seq"
| "ScmpMessage_checksum (ScmpTraceReply id' seq sender iface) = ScmpTraceReply_checksum id' seq sender iface"

fun ScmpMessage_size :: "ScmpMessage \<Rightarrow> nat" where
  "ScmpMessage_size (ScmpUnknownError _ _) = 0"
| "ScmpMessage_size (ScmpExtIfDown _ _) = 16"
| "ScmpMessage_size (ScmpIntConnDown _ _ _) = 24"
| "ScmpMessage_size (ScmpTraceRequest _ _) = 20"
| "ScmpMessage_size (ScmpTraceReply _ _ _ _) = 20"
| "ScmpMessage_size _ = 4"

fun ScmpMessage_serialize :: "ScmpMessage \<Rightarrow> ScmpMessage ser" where
  "ScmpMessage_serialize (ScmpUnknownError type code) = ser_return (ScmpUnknownError type code)"
| "ScmpMessage_serialize (ScmpDstUnreach code) = ScmpDstUnreach_serialize code"
| "ScmpMessage_serialize (ScmpPacketTooBig mtu) = ScmpPacketTooBig_serialize mtu"
| "ScmpMessage_serialize (ScmpParamProblem code pointer) = ScmpParamProblem_serialize code pointer"
| "ScmpMessage_serialize (ScmpExtIfDown sender iface) = ScmpExtIfDown_serialize sender iface"
| "ScmpMessage_serialize (ScmpIntConnDown sender ingress egress) =
     ScmpIntConnDown_serialize sender ingress egress"
| "ScmpMessage_serialize (ScmpEchoRequest id' seq) = ScmpEchoRequest_serialize id' seq"
| "ScmpMessage_serialize (ScmpEchoReply id' seq) = ScmpEchoReply_serialize id' seq"
| "ScmpMessage_serialize (ScmpTraceRequest id' seq) = ScmpTraceRequest_serialize id' seq"
| "ScmpMessage_serialize (ScmpTraceReply id' seq sender iface) =
     ScmpTraceReply_serialize id' seq sender iface"

text \<open>\<open>std::variant::index\<close>\<close>

fun ScmpMessage_index :: "ScmpMessage \<Rightarrow> nat" where
  "ScmpMessage_index (ScmpUnknownError _ _) = 0"
| "ScmpMessage_index (ScmpDstUnreach _) = 1"
| "ScmpMessage_index (ScmpPacketTooBig _) = 2"
| "ScmpMessage_index (ScmpParamProblem _ _) = 3"
| "ScmpMessage_index (ScmpExtIfDown _ _) = 4"
| "ScmpMessage_index (ScmpIntConnDown _ _ _) = 5"
| "ScmpMessage_index (ScmpEchoRequest _ _) = 6"
| "ScmpMessage_index (ScmpEchoReply _ _) = 7"
| "ScmpMessage_index (ScmpTraceRequest _ _) = 8"
| "ScmpMessage_index (ScmpTraceReply _ _ _ _) = 9"

record SCMPH =
  scmp_chksum :: u16
  scmp_msg :: ScmpMessage

definition SCMP_checksum :: "SCMPH \<Rightarrow> u32" where
  "SCMP_checksum h = ucast (scmp_chksum h) + ScmpMessage_checksum (scmp_msg h)"

definition SCMP_size :: "SCMPH \<Rightarrow> nat" where
  "SCMP_size h = 4 + ScmpMessage_size (scmp_msg h)"

text \<open>The case labels of the switch in \<open>SCMP::serialize\<close> with the message a reader starts from.\<close>

definition scmp_case :: "byte \<Rightarrow> byte \<Rightarrow> ScmpMessage option" where
  "scmp_case type code =
     (if type = ScmpType_DstUnreach then Some (ScmpDstUnreach code)
      else if type = ScmpType_PacketTooBig then Some (ScmpPacketTooBig 0)
      else if type = ScmpType_ParamProblem then Some (ScmpParamProblem code 0)
      else if type = ScmpType_ExtIfDown then Some (ScmpExtIfDown 0 0)
      else if type = ScmpType_IntConnDown then Some (ScmpIntConnDown 0 0 0)
      else if type = ScmpType_EchoRequest then Some (ScmpEchoRequest 0 0)
      else if type = ScmpType_EchoReply then Some (ScmpEchoReply 0 0)
      else if type = ScmpType_TraceRequest then Some (ScmpTraceRequest 0 0)
      else if type = ScmpType_TraceReply then Some (ScmpTraceReply 0 0 0 0)
      else None)"

text \<open>
  \<open>if constexpr (IsReading) msg = T{...}; std::get<T>(msg).serialize(stream, err)\<close>: on the
  wrong alternative \<open>std::get\<close> throws \<open>std::bad_variant_access\<close>.
\<close>

definition scmp_alternative :: "ScmpMessage \<Rightarrow> ScmpMessage \<Rightarrow> ScmpMessage ser" where
  "scmp_alternative blank msg =
     if_reading (ScmpMessage_serialize blank)
       (if ScmpMessage_index msg = ScmpMessage_index blank then ScmpMessage_serialize msg
        else ser_error ''bad_variant_access'')"

text \<open>The switch.\<close>

definition scmp_body :: "byte \<Rightarrow> byte \<Rightarrow> ScmpMessage \<Rightarrow> ScmpMessage ser" where
  "scmp_body type code msg =
     (case scmp_case type code of
        Some blank \<Rightarrow> scmp_alternative blank msg
      | None \<Rightarrow>
          if_reading
            (if unat type < 128 then ser_return (ScmpUnknownError type code)
             else ser_error ''unknown informational SCMP message'')
            (ser_error ''programming error''))"

definition SCMP_serialize :: "SCMPH \<Rightarrow> SCMPH ser" where
  "SCMP_serialize h =
     ser_bind (serializeByte (ScmpMessage_type (scmp_msg h))) (\<lambda>type.
     ser_bind (serializeByte (ScmpMessage_code (scmp_msg h))) (\<lambda>code.
     ser_bind (serializeUint16 (scmp_chksum h)) (\<lambda>chksum.
     ser_bind (scmp_body type code (scmp_msg h)) (\<lambda>msg.
     ser_return \<lparr>scmp_chksum = chksum, scmp_msg = msg\<rparr>))))"

section \<open>The wire format\<close>

fun ScmpMessage_bits :: "ScmpMessage \<Rightarrow> bool list" where
  "ScmpMessage_bits (ScmpUnknownError _ _) = []"
| "ScmpMessage_bits (ScmpDstUnreach _) = replicate (8 * 4) False"
| "ScmpMessage_bits (ScmpPacketTooBig mtu) = replicate (8 * 2) False @ to_bits 16 mtu"
| "ScmpMessage_bits (ScmpParamProblem _ pointer) = replicate (8 * 2) False @ to_bits 16 pointer"
| "ScmpMessage_bits (ScmpExtIfDown sender iface) = to_bits 64 sender @ to_bits 64 iface"
| "ScmpMessage_bits (ScmpIntConnDown sender ingress egress) =
     to_bits 64 sender @ to_bits 64 ingress @ to_bits 64 egress"
| "ScmpMessage_bits (ScmpEchoRequest id' seq) = to_bits 16 id' @ to_bits 16 seq"
| "ScmpMessage_bits (ScmpEchoReply id' seq) = to_bits 16 id' @ to_bits 16 seq"
| "ScmpMessage_bits (ScmpTraceRequest id' seq) =
     to_bits 16 id' @ to_bits 16 seq @ replicate (8 * 16) False"
| "ScmpMessage_bits (ScmpTraceReply id' seq sender iface) =
     to_bits 16 id' @ to_bits 16 seq @ to_bits 64 sender @ to_bits 64 iface"

definition SCMP_bits :: "SCMPH \<Rightarrow> bool list" where
  "SCMP_bits h = to_bits 8 (ScmpMessage_type (scmp_msg h)) @ to_bits 8 (ScmpMessage_code (scmp_msg h))
     @ to_bits 16 (scmp_chksum h) @ ScmpMessage_bits (scmp_msg h)"

text \<open>The messages \<open>serialize\<close> can write: all but unknown errors.\<close>

definition writable_SCMP :: "SCMPH \<Rightarrow> bool" where
  "writable_SCMP h \<longleftrightarrow> ScmpMessage_index (scmp_msg h) \<noteq> 0"

lemmas ScmpMessage_serialize_defs = ScmpDstUnreach_serialize_def ScmpPacketTooBig_serialize_def
  ScmpParamProblem_serialize_def ScmpExtIfDown_serialize_def ScmpIntConnDown_serialize_def
  ScmpEchoRequest_serialize_def ScmpEchoReply_serialize_def ScmpTraceRequest_serialize_def
  ScmpTraceReply_serialize_def AsInterface_serialize_def IsdAsn_serialize_def

lemma length_ScmpMessage_bits: "length (ScmpMessage_bits m) = 8 * ScmpMessage_size m"
  by (cases m) simp_all

lemma length_SCMP_bits: "length (SCMP_bits h) = 8 * SCMP_size h"
  by (simp add: SCMP_bits_def SCMP_size_def length_ScmpMessage_bits)

lemma ScmpMessage_writes:
  "k mod 8 = 0 \<Longrightarrow> writesB k (ScmpMessage_serialize m) (ScmpMessage_bits m) m"
  by (cases m; simp only: ScmpMessage_serialize.simps ScmpMessage_bits.simps ScmpMessage_serialize_defs)
    ((rule writes_steps | (simp add: mod_add_left_eq [symmetric]; fail))+)

text \<open>The message the reader starts from.\<close>

fun ScmpMessage_blank :: "ScmpMessage \<Rightarrow> ScmpMessage" where
  "ScmpMessage_blank (ScmpUnknownError t c) = ScmpUnknownError t c"
| "ScmpMessage_blank (ScmpDstUnreach code) = ScmpDstUnreach code"
| "ScmpMessage_blank (ScmpPacketTooBig _) = ScmpPacketTooBig 0"
| "ScmpMessage_blank (ScmpParamProblem code _) = ScmpParamProblem code 0"
| "ScmpMessage_blank (ScmpExtIfDown _ _) = ScmpExtIfDown 0 0"
| "ScmpMessage_blank (ScmpIntConnDown _ _ _) = ScmpIntConnDown 0 0 0"
| "ScmpMessage_blank (ScmpEchoRequest _ _) = ScmpEchoRequest 0 0"
| "ScmpMessage_blank (ScmpEchoReply _ _) = ScmpEchoReply 0 0"
| "ScmpMessage_blank (ScmpTraceRequest _ _) = ScmpTraceRequest 0 0"
| "ScmpMessage_blank (ScmpTraceReply _ _ _ _) = ScmpTraceReply 0 0 0 0"

lemma scmp_case_blank:
  assumes "ScmpMessage_index m \<noteq> 0"
  shows "scmp_case (ScmpMessage_type m) (ScmpMessage_code m) = Some (ScmpMessage_blank m)"
    and "ScmpMessage_index (ScmpMessage_blank m) = ScmpMessage_index m"
  using assms by (cases m; simp add: scmp_case_def ScmpType_defs)+

lemma ScmpMessage_reads:
  "k mod 8 = 0 \<Longrightarrow> readsB k (ScmpMessage_serialize (ScmpMessage_blank m)) (ScmpMessage_bits m) m"
  by (cases m; simp only: ScmpMessage_serialize.simps ScmpMessage_bits.simps ScmpMessage_blank.simps
      ScmpMessage_serialize_defs)
    ((rule reads_steps | (simp add: mod_add_left_eq [symmetric]; fail))+)

lemma scmp_body_writes:
  assumes "ScmpMessage_index m \<noteq> 0" "k mod 8 = 0"
  shows "writesB k (scmp_body (ScmpMessage_type m) (ScmpMessage_code m) m) (ScmpMessage_bits m) m"
  using ScmpMessage_writes [OF assms(2)]
  by (simp add: scmp_body_def scmp_case_blank [OF assms(1)] scmp_alternative_def writesB_if_reading)

lemma scmp_body_reads:
  assumes "ScmpMessage_index m \<noteq> 0" "k mod 8 = 0"
  shows "readsB k (scmp_body (ScmpMessage_type m) (ScmpMessage_code m) m0) (ScmpMessage_bits m) m"
  using ScmpMessage_reads [OF assms(2)]
  by (simp add: scmp_body_def scmp_case_blank [OF assms(1)] scmp_alternative_def readsB_if_reading)

interpretation scmp: codec SCMP_serialize SCMP_bits writable_SCMP "\<lambda>_. True"
proof
  fix h h0 :: SCMPH
  assume "writable_SCMP h"
  then have w: "ScmpMessage_index (scmp_msg h) \<noteq> 0" by (simp add: writable_SCMP_def)
  show "writesB 0 (SCMP_serialize h) (SCMP_bits h) h"
    unfolding SCMP_serialize_def SCMP_bits_def
    by (rule writesB_bind writesB_serializeByte writesB_serializeUint16 writesB_bind_last scmp_body_writes
        writesB_return_eq | (simp add: w; fail))+
  show "readsB 0 (SCMP_serialize h0) (SCMP_bits h) h"
    unfolding SCMP_serialize_def SCMP_bits_def
    by (rule readsB_bind readsB_serializeByte readsB_serializeUint16 readsB_bind_last scmp_body_reads
        readsB_return_eq | (simp add: w; fail))+
  show "length (SCMP_bits h) mod 8 = 0" by (simp add: length_SCMP_bits)
qed

text \<open>Every message the reader yields took \<open>size()\<close> bytes, unknown errors their first four.\<close>

definition readable_ScmpMessage :: "ScmpMessage \<Rightarrow> bool" where
  "readable_ScmpMessage m \<longleftrightarrow> ScmpMessage_index m \<noteq> 0 \<or>
     (unat (ScmpMessage_type m) < 128 \<and> scmp_case (ScmpMessage_type m) (ScmpMessage_code m) = None)"

lemma ScmpMessage_gets:
  assumes "k mod 8 = 0" "ScmpMessage_index m0 \<noteq> 0"
  shows "getsB k (ScmpMessage_serialize m0)
    (\<lambda>m bs. ScmpMessage_index m = ScmpMessage_index m0 \<and> length bs = 8 * ScmpMessage_size m)"
  using assms
  by (cases m0; simp only: ScmpMessage_serialize.simps ScmpMessage_serialize_defs)
    ((intro gets_steps; auto simp: mod_add_left_eq [symmetric])+)

lemma scmp_case_index: "scmp_case type code = Some blank \<Longrightarrow> ScmpMessage_index blank \<noteq> 0"
  by (auto simp: scmp_case_def split: if_splits)

lemma scmp_body_gets:
  assumes "k mod 8 = 0"
  shows "getsB k (scmp_body type code m0)
    (\<lambda>m bs. readable_ScmpMessage m \<and> length bs = 8 * ScmpMessage_size m)"
proof (cases "scmp_case type code")
  case None
  then show ?thesis
    unfolding scmp_body_def
    by (auto intro!: getsB_if_reading getsB_return getsB_error simp: readable_ScmpMessage_def)
next
  case (Some blank)
  have "getsB k (ScmpMessage_serialize blank)
      (\<lambda>m bs. readable_ScmpMessage m \<and> length bs = 8 * ScmpMessage_size m)"
    by (rule getsB_mono [OF ScmpMessage_gets [OF assms scmp_case_index [OF Some]]])
      (simp add: readable_ScmpMessage_def scmp_case_index [OF Some])
  then show ?thesis
    by (simp add: scmp_body_def Some scmp_alternative_def getsB_if_reading)
qed

lemma SCMP_gets:
  "getsB 0 (SCMP_serialize h0) (\<lambda>h bs. readable_ScmpMessage (scmp_msg h) \<and> length bs = 8 * SCMP_size h)"
  unfolding SCMP_serialize_def
  by (rule getsB_step_byte, rule getsB_step_byte, rule getsB_step_u16, simp,
      rule getsB_bind, rule scmp_body_gets, simp)
    (auto intro!: getsB_return simp: SCMP_size_def)

section \<open>The checksum\<close>

fun ScmpMessage_bytes :: "ScmpMessage \<Rightarrow> byte list" where
  "ScmpMessage_bytes (ScmpUnknownError _ _) = []"
| "ScmpMessage_bytes (ScmpDstUnreach _) = replicate 4 0"
| "ScmpMessage_bytes (ScmpPacketTooBig mtu) = replicate 2 0 @ store_be 2 mtu"
| "ScmpMessage_bytes (ScmpParamProblem _ pointer) = replicate 2 0 @ store_be 2 pointer"
| "ScmpMessage_bytes (ScmpExtIfDown sender iface) = store_be 8 sender @ store_be 8 iface"
| "ScmpMessage_bytes (ScmpIntConnDown sender ingress egress) =
     store_be 8 sender @ store_be 8 ingress @ store_be 8 egress"
| "ScmpMessage_bytes (ScmpEchoRequest id' seq) = store_be 2 id' @ store_be 2 seq"
| "ScmpMessage_bytes (ScmpEchoReply id' seq) = store_be 2 id' @ store_be 2 seq"
| "ScmpMessage_bytes (ScmpTraceRequest id' seq) = store_be 2 id' @ store_be 2 seq @ replicate 16 0"
| "ScmpMessage_bytes (ScmpTraceReply id' seq sender iface) =
     store_be 2 id' @ store_be 2 seq @ store_be 8 sender @ store_be 8 iface"

definition SCMP_bytes :: "SCMPH \<Rightarrow> byte list" where
  "SCMP_bytes h = [ScmpMessage_type (scmp_msg h), ScmpMessage_code (scmp_msg h)] @ store_be 2 (scmp_chksum h)
     @ ScmpMessage_bytes (scmp_msg h)"

lemma bits_of_SCMP_bytes: "bits_of (SCMP_bytes h) = SCMP_bits h"
proof -
  have m: "bits_of (ScmpMessage_bytes m) = ScmpMessage_bits m" for m
    by (cases m) (simp_all add: to_bits_store_be [where n = 2, simplified]
        to_bits_store_be [where n = 8, simplified] bits_of_zeros)
  show ?thesis
    by (simp add: SCMP_bytes_def SCMP_bits_def m to_bits_store_be [where n = 2, simplified] to_bits_8 bits_of_Cons)
qed

lemma u32_of_nat: "(ucast w :: u32) = of_nat (unat w)"
  by simp

lemma unat_byte_at: "unat (ucast (drop_bit n w) :: byte) = unat w div 2 ^ n mod 256"
  by (simp add: unsigned_ucast_eq unat_drop_bit_eq drop_bit_nat_def take_bit_nat_def)

lemma two_bytes_at: "256 * (X div 2 ^ (n + 8) mod 256) + X div 2 ^ n mod 256 = X div 2 ^ n mod (65536 :: nat)"
proof -
  have "X div 2 ^ n mod (256 * 256) = 256 * (X div 2 ^ n div 256 mod 256) + X div 2 ^ n mod 256"
    by (rule mod_mult2_eq)
  moreover have "X div 2 ^ n div 256 = X div 2 ^ (n + 8)"
    by (simp add: power_add div_mult2_eq)
  ultimately show ?thesis by simp
qed

lemma sum16_store_be_8:
  "sum16 (store_be 8 w) = unat w div 2 ^ 48 mod 65536 + unat w div 2 ^ 32 mod 65536
     + unat w div 2 ^ 16 mod 65536 + unat w div 2 ^ 0 mod 65536"
proof -
  have "store_be 8 w = [ucast (drop_bit (48 + 8) w), ucast (drop_bit 48 w), ucast (drop_bit (32 + 8) w),
      ucast (drop_bit 32 w), ucast (drop_bit (16 + 8) w), ucast (drop_bit 16 w), ucast (drop_bit (0 + 8) w),
      ucast (drop_bit 0 w)]"
    by (simp add: store_be_def upt_rec)
  then show ?thesis
    by (simp only: sum16.simps unat_byte_at two_bytes_at)
qed

lemma unat_and_mask16: "unat (w AND 0xffff) = unat w mod 65536"
proof -
  have "w AND 0xffff = take_bit 16 w" by (simp add: take_bit_eq_mask mask_eq_exp_minus_1)
  then show ?thesis by (simp add: unsigned_take_bit_eq take_bit_nat_def)
qed

lemma AsInterface_checksum_nat: "AsInterface_checksum ifid = of_nat (sum16 (store_be 8 ifid))"
proof -
  have p: "(x AND 0xffff) = of_nat (unat x mod 65536)" for x :: u64
    using unat_and_mask16 [of x] by (metis of_nat_unat ucast_id)
  have "AsInterface_checksum ifid = ucast (of_nat (sum16 (store_be 8 ifid)) :: u64)"
    unfolding AsInterface_checksum_def p sum16_store_be_8
    by (simp add: unat_drop_bit_eq drop_bit_nat_def ac_simps)
  moreover have "(ucast (of_nat N :: u64) :: u32) = of_nat N" for N
    by (rule word_unat_eq_iff [THEN iffD2]) (simp add: unsigned_ucast_eq unsigned_of_nat)
  ultimately show ?thesis by simp
qed

lemma IsdAsn_checksum_nat:
  "IsdAsn_checksum ia = of_nat (unat ia div 2 ^ 32 + unat ia mod 2 ^ 32)"
proof -
  have "unat (ia AND 0xffffffff) = unat ia mod 2 ^ 32"
  proof -
    have "ia AND 0xffffffff = take_bit 32 ia" by (simp add: take_bit_eq_mask mask_eq_exp_minus_1)
    then show ?thesis by (simp add: unsigned_take_bit_eq take_bit_nat_def)
  qed
  moreover have "unat (drop_bit 32 ia) = unat ia div 2 ^ 32"
    by (simp add: unat_drop_bit_eq drop_bit_nat_def)
  ultimately show ?thesis
    by (simp only: IsdAsn_checksum_def u32_of_nat of_nat_add [symmetric] add.commute)
qed

lemma sum16_IsdAsn_mod:
  "(unat ia div 2 ^ 32 + unat ia mod 2 ^ 32) mod 0xffff = sum16 (store_be 8 (ia :: IsdAsn)) mod 0xffff"
proof -
  have f: "Y mod 0xffff = (Y div 65536 + Y mod 65536) mod 0xffff" for Y :: nat
    using carry_mod [of Y] by simp
  let ?H = "unat ia div 2 ^ 32" and ?L = "unat ia mod 2 ^ 32"
  have "unat ia < 2 ^ 64" using unsigned_less [of ia, where 'a = nat] by simp
  then have "?H div 65536 < 65536" by (simp add: div_less_iff_less_mult)
  then have "unat ia div 2 ^ 48 mod 65536 = ?H div 65536" by (simp add: div_mult2_eq [symmetric])
  moreover have "unat ia div 2 ^ 16 mod 65536 = ?L div 65536"
  proof -
    have "unat ia mod (65536 * 65536) = 65536 * (unat ia div 65536 mod 65536) + unat ia mod 65536"
      by (rule mod_mult2_eq)
    then show ?thesis by simp
  qed
  moreover have "unat ia mod 65536 = ?L mod 65536" by (simp add: mod_mod_cancel)
  ultimately have s: "sum16 (store_be 8 ia) = (?H div 65536 + ?H mod 65536) + (?L div 65536 + ?L mod 65536)"
    by (simp add: sum16_store_be_8)
  show ?thesis unfolding s by (rule mod_add_cong [OF f f])
qed

text \<open>The sums as natural numbers. Of the sender, the two halves are added.\<close>

definition ia_sum :: "IsdAsn \<Rightarrow> nat" where
  "ia_sum ia = unat ia div 2 ^ 32 + unat ia mod 2 ^ 32"

fun payload_sum :: "ScmpMessage \<Rightarrow> nat" where
  "payload_sum (ScmpUnknownError _ _) = 0"
| "payload_sum (ScmpDstUnreach _) = 0"
| "payload_sum (ScmpPacketTooBig mtu) = unat mtu"
| "payload_sum (ScmpParamProblem _ pointer) = unat pointer"
| "payload_sum (ScmpExtIfDown sender iface) = ia_sum sender + sum16 (store_be 8 iface)"
| "payload_sum (ScmpIntConnDown sender ingress egress) =
     ia_sum sender + sum16 (store_be 8 ingress) + sum16 (store_be 8 egress)"
| "payload_sum (ScmpEchoRequest id' seq) = unat id' + unat seq"
| "payload_sum (ScmpEchoReply id' seq) = unat id' + unat seq"
| "payload_sum (ScmpTraceRequest id' seq) = unat id' + unat seq"
| "payload_sum (ScmpTraceReply id' seq sender iface) =
     unat id' + unat seq + ia_sum sender + sum16 (store_be 8 iface)"

definition SCMP_sum :: "SCMPH \<Rightarrow> nat" where
  "SCMP_sum h = unat (scmp_chksum h) + (256 * unat (ScmpMessage_type (scmp_msg h))
     + unat (ScmpMessage_code (scmp_msg h))) + payload_sum (scmp_msg h)"

lemma type_code_sum_nat: "type_code_sum t c = of_nat (256 * unat t + unat c)"
  unfolding type_code_sum_def u32_of_nat by (simp add: push_bit_eq_mult)

lemma SCMP_checksum_nat: "SCMP_checksum h = of_nat (SCMP_sum h)"
proof -
  have "ScmpMessage_checksum m = of_nat (256 * unat (ScmpMessage_type m) + unat (ScmpMessage_code m) + payload_sum m)" for m
    by (cases m; simp only: ScmpMessage_checksum.simps ScmpUnknownError_checksum_def ScmpDstUnreach_checksum_def
        ScmpPacketTooBig_checksum_def ScmpParamProblem_checksum_def ScmpExtIfDown_checksum_def
        ScmpIntConnDown_checksum_def ScmpEchoRequest_checksum_def ScmpEchoReply_checksum_def
        ScmpTraceRequest_checksum_def ScmpTraceReply_checksum_def Let_def type_code_sum_nat u32_of_nat
        IsdAsn_checksum_nat AsInterface_checksum_nat ia_sum_def ScmpMessage_type.simps ScmpMessage_code.simps
        payload_sum.simps of_nat_add; simp)
  then show ?thesis by (simp only: SCMP_checksum_def SCMP_sum_def u32_of_nat of_nat_add add.assoc)
qed

lemma SCMP_sum_mod: "SCMP_sum h mod 0xffff = sum16 (SCMP_bytes h) mod 0xffff"
proof -
  have ia: "ia_sum ia mod 0xffff = sum16 (store_be 8 ia) mod 0xffff" for ia
    unfolding ia_sum_def by (rule sum16_IsdAsn_mod)
  have z: "sum16 (replicate 2 0) = 0" "sum16 (replicate 4 0) = 0" "sum16 (replicate 16 0) = 0"
    by (simp_all add: numeral_eq_Suc)
  have "payload_sum m mod 0xffff = sum16 (ScmpMessage_bytes m) mod 0xffff" for m
    by (cases m; simp only: payload_sum.simps ScmpMessage_bytes.simps sum16_append sum16_store_be z
        length_store_be even_numeral length_replicate sum16.simps add.assoc add_0 add_0_right)
      (intro mod_add_cong refl ia)+
  note m = this
  let ?n = "unat (scmp_chksum h) + (256 * unat (ScmpMessage_type (scmp_msg h)) + unat (ScmpMessage_code (scmp_msg h)))"
  have "sum16 (SCMP_bytes h) = ?n + sum16 (ScmpMessage_bytes (scmp_msg h))"
    by (simp add: SCMP_bytes_def sum16_append sum16_store_be)
  then show ?thesis
    unfolding SCMP_sum_def by (simp only:) (rule mod_add_cong [OF refl m])
qed

fun ScmpMessage_sender :: "ScmpMessage \<Rightarrow> IsdAsn option" where
  "ScmpMessage_sender (ScmpExtIfDown sender _) = Some sender"
| "ScmpMessage_sender (ScmpIntConnDown sender _ _) = Some sender"
| "ScmpMessage_sender (ScmpTraceReply _ _ sender _) = Some sender"
| "ScmpMessage_sender _ = None"

lemma sum16_store_be_8_le: "sum16 (store_be 8 w) \<le> 4 * 0xffff"
  using sum16_le [of "store_be 8 w"] by simp

lemma unat_u16_le: "unat (w :: u16) \<le> 0xffff"
  using unsigned_less [of w, where 'a = nat] by simp

lemma SCMP_sum_bound:
  assumes "\<And>ia. ScmpMessage_sender (scmp_msg h) = Some ia \<Longrightarrow> ia_sum ia < 2 ^ 32 - 2 ^ 20"
  shows "SCMP_sum h < 2 ^ 32"
proof -
  note b = sum16_store_be_8_le unat_u16_le
  have "payload_sum m < 2 ^ 32 - 2 ^ 19" if "\<And>ia. ScmpMessage_sender m = Some ia \<Longrightarrow> ia_sum ia < 2 ^ 32 - 2 ^ 20" for m
  proof (cases m)
    case (ScmpUnknownError a b')
    then show ?thesis using that  by simp
  next
    case (ScmpDstUnreach a)
    then show ?thesis using that  by simp
  next
    case (ScmpPacketTooBig a)
    then show ?thesis using that b(2) [of a] by simp
  next
    case (ScmpParamProblem a p)
    then show ?thesis using that b(2) [of p] by simp
  next
    case (ScmpExtIfDown s i)
    then show ?thesis using that b(1) [of i] by simp
  next
    case (ScmpIntConnDown s i e)
    then show ?thesis using that b(1) [of i] b(1) [of e] by simp
  next
    case (ScmpEchoRequest i q)
    then show ?thesis using that b(2) [of i] b(2) [of q] by simp
  next
    case (ScmpEchoReply i q)
    then show ?thesis using that b(2) [of i] b(2) [of q] by simp
  next
    case (ScmpTraceRequest i q)
    then show ?thesis using that b(2) [of i] b(2) [of q] by simp
  next
    case (ScmpTraceReply i q s f)
    then show ?thesis using that b(2) [of i] b(2) [of q] b(1) [of f] by simp
  qed
  then have "payload_sum (scmp_msg h) < 2 ^ 32 - 2 ^ 19" using assms by blast
  then show ?thesis
    using unat_byte [of "ScmpMessage_type (scmp_msg h)"] unat_byte [of "ScmpMessage_code (scmp_msg h)"]
      unat_u16_le [of "scmp_chksum h"] by (simp add: SCMP_sum_def)
qed

text \<open>The checksum contribution of an SCMP header is congruent, modulo \<open>0xffff\<close>, to the sum of
  the 16-bit words of the bytes the header is written as, so that it can stand for them in the
  internet checksum, provided the two 32-bit halves of a sender's ISD-ASN do not overflow.\<close>

theorem scmp_checksum_words:
  assumes "\<And>ia. ScmpMessage_sender (scmp_msg h) = Some ia \<Longrightarrow> ia_sum ia < 2 ^ 32 - 2 ^ 20"
    and "bits_of ds = SCMP_bits h"
  shows "unat (SCMP_checksum h) mod 0xffff = sum16 ds mod 0xffff"
proof -
  have "ds = SCMP_bytes h" using assms(2) bits_of_SCMP_bytes by (metis bits_of_inject)
  moreover have "unat (SCMP_checksum h) = SCMP_sum h"
    using SCMP_sum_bound [OF assms(1)] by (simp add: SCMP_checksum_nat unsigned_of_nat take_bit_nat_eq_self)
  ultimately show ?thesis by (simp only: SCMP_sum_mod)
qed

lemma scmp_checksum_words_witness:
  "unat (SCMP_checksum \<lparr>scmp_chksum = 0, scmp_msg = ScmpEchoRequest 1 2\<rparr>) mod 0xffff =
     sum16 (SCMP_bytes \<lparr>scmp_chksum = 0, scmp_msg = ScmpEchoRequest 1 2\<rparr>) mod 0xffff"
  by (rule scmp_checksum_words) (simp_all add: bits_of_SCMP_bytes)

text \<open>The sum of the halves does overflow for 32-bit BGP AS numbers: of the carry into bit 32, worth
  one, nothing is left.\<close>

lemma IsdAsn_checksum_overflow:
  "unat (IsdAsn_checksum (IsdAsn_make 1 0xffff0000)) = 0 \<and>
   sum16 (store_be 8 (IsdAsn_make 1 0xffff0000)) = 0x10000"
  by (simp add: IsdAsn_checksum_def IsdAsn_make_def Asn_BITS_def store_be_def upt_rec)

text \<open>C24: Every SCMP message but an unknown error is read back as it was written, the reader stopping
  where the writer did.\<close>

theorem scmp_roundtrip:
  assumes "ScmpMessage_index (scmp_msg h) \<noteq> 0" "SCMP_size h \<le> length buf"
  shows "\<exists>b b'. SCMP_serialize h (WriteStream (stream_init buf)) = (Inr h, WriteStream b) \<and>
    SCMP_serialize h0 (ReadStream (stream_init (bufdata b))) = (Inr h, ReadStream b') \<and>
    getPos b' = getPos b \<and> getPos b = (SCMP_size h, 0)"
proof -
  have "writable_SCMP h" "length (SCMP_bits h) \<le> 8 * length buf"
    using assms by (simp_all add: writable_SCMP_def length_SCMP_bits)
  from scmp.roundtrip [OF this(1) TrueI this(2), of h0] show ?thesis by (simp add: length_SCMP_bits)
qed

lemma scmp_roundtrip_witness:
  "\<exists>b b'. SCMP_serialize \<lparr>scmp_chksum = 7, scmp_msg = ScmpTraceReply 1 2 3 4\<rparr>
      (WriteStream (stream_init (replicate 24 0))) =
      (Inr \<lparr>scmp_chksum = 7, scmp_msg = ScmpTraceReply 1 2 3 4\<rparr>, WriteStream b) \<and>
    SCMP_serialize \<lparr>scmp_chksum = 0, scmp_msg = ScmpDstUnreach 0\<rparr> (ReadStream (stream_init (bufdata b))) =
      (Inr \<lparr>scmp_chksum = 7, scmp_msg = ScmpTraceReply 1 2 3 4\<rparr>, ReadStream b')"
  using scmp_roundtrip [of "\<lparr>scmp_chksum = 7, scmp_msg = ScmpTraceReply 1 2 3 4\<rparr>" "replicate 24 0"
      "\<lparr>scmp_chksum = 0, scmp_msg = ScmpDstUnreach 0\<rparr>"]
  by (auto simp: SCMP_size_def)

text \<open>Reading arbitrary bytes as an SCMP header yields one of the known messages or, for unknown
  types below 128, an unknown error; in each case \<open>size()\<close> bytes were consumed. Unknown informational
  messages are rejected.\<close>

theorem scmp_read_size:
  assumes "SCMP_serialize h0 (ReadStream (stream_init d)) = (Inr h, st)"
  shows "readable_ScmpMessage (scmp_msg h) \<and> SCMP_size h \<le> length d \<and>
    (\<exists>b. st = ReadStream b \<and> getPos b = (SCMP_size h, 0))"
proof -
  obtain b n where b: "st = ReadStream b" "consumed (stream_init d) n b" "n \<le> 8 * length d"
      "readable_ScmpMessage (scmp_msg h)" "length (take n (bits_of d)) = 8 * SCMP_size h"
    using SCMP_gets [of h0, unfolded getsB_def, THEN spec, of "stream_init d"] assms by auto
  then have n: "n = 8 * SCMP_size h" by simp
  then have "wf_buf b" "bit_pos b = 8 * SCMP_size h" using b(2) by (simp_all add: consumed_def)
  then show ?thesis using b n aligned_pos(3) [of b] by auto
qed

lemma scmp_read_size_witness:
  "\<exists>b. SCMP_serialize \<lparr>scmp_chksum = 0, scmp_msg = ScmpDstUnreach 0\<rparr>
      (ReadStream (stream_init [99, 1, 0, 0])) =
      (Inr \<lparr>scmp_chksum = 0, scmp_msg = ScmpUnknownError 99 1\<rparr>, ReadStream b) \<and> getPos b = (4, 0)"
proof -
  have "SCMP_serialize \<lparr>scmp_chksum = 0, scmp_msg = ScmpDstUnreach 0\<rparr>
      (ReadStream (stream_init [99, 1, 0, 0])) =
      (Inr \<lparr>scmp_chksum = 0, scmp_msg = ScmpUnknownError 99 1\<rparr>,
       ReadStream \<lparr>bufdata = [99, 1, 0, 0], byteIter = 4, bitPos = 0\<rparr>)"
    by code_simp
  from scmp_read_size [OF this] this show ?thesis by (auto simp: SCMP_size_def)
qed

end
