(* ===== verification/ScionPath.thy ===== *)
theory ScionPath
  imports HdrScmp
begin

text \<open>
  SCION paths: the reversal of an encoded path in place (\<open>src/path/path.cpp\<close>) and the decoded
  path of \<open>include/scion/path/decoded_scion.hpp\<close>, with its serialisation and reversal. The
  lemmas show the encoding of the decoded path to be a codec, both reversals to be involutions,
  and the reversal of the bytes to implement the reversal of the decoded path.
\<close>

section \<open>Reversal of the bytes\<close>

text \<open>\<open>memcpy\<close> through a temporary: blocks of \<open>n\<close> bytes at \<open>a\<close> and \<open>b\<close> change places.\<close>

definition swap_blocks :: "nat \<Rightarrow> byte list \<Rightarrow> nat \<Rightarrow> nat \<Rightarrow> byte list" where
  "swap_blocks n path a b =
     (let temp = take n (drop a path);
          path = overwrite path a (take n (drop b path))
      in overwrite path b temp)"

text \<open>\<open>for (size_t i = 0, j = numHop-1; i < j; ++i, --j)\<close>\<close>

function reverse_blocks :: "nat \<Rightarrow> nat \<Rightarrow> byte list \<Rightarrow> nat \<Rightarrow> nat \<Rightarrow> byte list" where
  "reverse_blocks n base path i j =
     (if i < j then reverse_blocks n base (swap_blocks n path (base + i * n) (base + j * n)) (i + 1) (j - 1)
      else path)"
  by pat_completeness auto

termination by (relation "measure (\<lambda>(n, base, path, i, j). j - i)") auto

declare reverse_blocks.simps [simp del]

definition reversePathInPlace :: "byte \<Rightarrow> byte list \<Rightarrow> error_code \<times> byte list" where
  "reversePathInPlace type path =
     (if type = PathType_Empty then (Ok, path)
      else if type \<noteq> PathType_SCION then (NotImplemented, path)
      else if length path < 4 then (InvalidArgument, path)
      else
        let pathMeta = byteswapBE (load_le (take 4 path)) :: u32;
            seg2 = pathMeta AND 0x3f;
            seg1 = drop_bit 6 pathMeta AND 0x3f;
            seg0 = drop_bit 12 pathMeta AND 0x3f;
            res = drop_bit 18 pathMeta AND 0x3f;
            currHop = drop_bit 24 pathMeta AND 0x3f;
            currInf = drop_bit 30 pathMeta AND 0x03;
            numInf = of_bool (seg0 > 0) + of_bool (seg1 > 0) + of_bool (seg2 > 0) :: u32;
            numHop = seg0 + seg1 + seg2
        in
        if numInf < 1 then (InvalidArgument, path)
        else if numHop < 2 \<or> numHop > 64 then (InvalidArgument, path)
        else if length path \<noteq> 4 + unat numInf * 8 + unat numHop * 12 then (InvalidArgument, path)
        else
          let path = (if numInf > 1 then swap_blocks 8 path 4 (4 + (unat numInf - 1) * 8) else path);
              path = foldl (\<lambda>path i. path[4 + i * 8 := path ! (4 + i * 8) XOR 1]) path [0..<unat numInf];
              path = reverse_blocks 12 (4 + unat numInf * 8) path 0 (unat numHop - 1);
              currInf = numInf - currInf - 1;
              currHop = numHop - currHop - 1;
              (seg0, seg1, seg2) = (if numInf = 2 then (seg1, seg0, seg2)
                                    else if numInf = 3 then (seg2, seg1, seg0)
                                    else (seg0, seg1, seg2));
              pathMeta = seg2 OR push_bit 6 seg1 OR push_bit 12 seg0 OR push_bit 18 res
                           OR push_bit 24 currHop OR push_bit 30 currInf;
              pathMeta = byteswapBE pathMeta
          in (Ok, overwrite path 0 (store_le 4 pathMeta)))"

section \<open>The decoded path\<close>

record DecodedScionPath =
  dp_source :: IsdAsn
  dp_destination :: IsdAsn
  dp_meta :: PathMeta
  dp_ifs :: "InfoField list"
  dp_hfs :: "HopField list"

definition InfoField_default :: InfoField where
  "InfoField_default = \<lparr>if_flags = 0, if_segid = 0, if_timestamp = 0\<rparr>"

definition HopField_default :: HopField where
  "HopField_default = \<lparr>hf_flags = 0, hf_expTime = 0, hf_consIngress = 0, hf_consEgress = 0,
     hf_mac = replicate 6 0\<rparr>"

text \<open>\<open>std::vector::resize\<close>\<close>

definition resize :: "nat \<Rightarrow> 'a \<Rightarrow> 'a list \<Rightarrow> 'a list" where
  "resize n d xs = take n xs @ replicate (n - length xs) d"

text \<open>Serialising the elements of a vector from front to back.\<close>

fun ser_list :: "('a \<Rightarrow> 'a ser) \<Rightarrow> 'a list \<Rightarrow> 'a list ser" where
  "ser_list f [] = ser_return []"
| "ser_list f (x # xs) = ser_bind (f x) (\<lambda>x. ser_bind (ser_list f xs) (\<lambda>xs. ser_return (x # xs)))"

definition DecodedScionPath_size :: "DecodedScionPath \<Rightarrow> nat" where
  "DecodedScionPath_size p = 4 + length (dp_ifs p) * 8 + length (dp_hfs p) * 12"

text \<open>Writing reads the vectors up to the lengths of the meta header, past their end if they are shorter.\<close>

definition DecodedScionPath_serialize :: "DecodedScionPath \<Rightarrow> DecodedScionPath ser" where
  "DecodedScionPath_serialize p =
     ser_bind (PathMeta_serialize (dp_meta p)) (\<lambda>meta.
     let segments = PathMeta_segmentCount meta; hops = PathMeta_hopFieldCount meta in
     ser_bind
       (if_reading (ser_list InfoField_serialize (resize segments InfoField_default (dp_ifs p)))
         (if length (dp_ifs p) < segments then ser_error ''undefined behavior''
          else ser_bind (ser_list InfoField_serialize (take segments (dp_ifs p))) (\<lambda>_. ser_return (dp_ifs p))))
       (\<lambda>ifs.
     ser_bind
       (if_reading (ser_list HopField_serialize (resize hops HopField_default (dp_hfs p)))
         (if length (dp_hfs p) < hops then ser_error ''undefined behavior''
          else ser_bind (ser_list HopField_serialize (take hops (dp_hfs p))) (\<lambda>_. ser_return (dp_hfs p))))
       (\<lambda>hfs.
     ser_return (p\<lparr>dp_meta := meta, dp_ifs := ifs, dp_hfs := hfs\<rparr>))))"

text \<open>\<open>std::swap(v[i], v[j])\<close>\<close>

definition swap_elems :: "'a list \<Rightarrow> nat \<Rightarrow> nat \<Rightarrow> 'a list" where
  "swap_elems xs i j = xs[i := xs ! j, j := xs ! i]"

function reverse_elems :: "'a list \<Rightarrow> nat \<Rightarrow> nat \<Rightarrow> 'a list" where
  "reverse_elems xs i j = (if i < j then reverse_elems (swap_elems xs i j) (i + 1) (j - 1) else xs)"
  by pat_completeness auto

termination by (relation "measure (\<lambda>(xs, i, j). j - i)") auto

declare reverse_elems.simps [simp del]

definition DecodedScionPath_reverseInPlace :: "DecodedScionPath \<Rightarrow> error_code \<times> DecodedScionPath" where
  "DecodedScionPath_reverseInPlace p =
     (if dp_hfs p = [] then (LogicError, p)
      else
        let numInf = length (dp_ifs p);
            ifs = (if numInf > 1 then swap_elems (dp_ifs p) 0 (numInf - 1) else dp_ifs p);
            ifs = map (\<lambda>info. info\<lparr>if_flags := if_flags info XOR InfoField_ConsDir\<rparr>) ifs;
            numHop = length (dp_hfs p);
            hfs = reverse_elems (dp_hfs p) 0 (numHop - 1);
            meta = dp_meta p;
            meta = meta\<lparr>pm_currInf := of_nat numInf - pm_currInf meta - 1\<rparr>;
            meta = meta\<lparr>pm_currHf := of_nat numHop - pm_currHf meta - 1\<rparr>;
            meta = (if numInf = 2 then meta\<lparr>pm_segLen := swap_elems (pm_segLen meta) 0 1\<rparr>
                    else if numInf = 3 then meta\<lparr>pm_segLen := swap_elems (pm_segLen meta) 0 2\<rparr>
                    else meta)
        in (Ok, \<lparr>dp_source = dp_destination p, dp_destination = dp_source p, dp_meta = meta,
                 dp_ifs = ifs, dp_hfs = hfs\<rparr>))"

section \<open>Codec\<close>

definition DecodedScionPath_bits :: "DecodedScionPath \<Rightarrow> bool list" where
  "DecodedScionPath_bits p = PathMeta_bits (dp_meta p) @ concat (map InfoField_bits (dp_ifs p))
     @ concat (map HopField_bits (dp_hfs p))"

definition valid_Decoded :: "DecodedScionPath \<Rightarrow> bool" where
  "valid_Decoded p \<longleftrightarrow> valid_PathMeta (dp_meta p) \<and> length (dp_ifs p) = PathMeta_segmentCount (dp_meta p)
     \<and> length (dp_hfs p) = PathMeta_hopFieldCount (dp_meta p) \<and> (\<forall>h \<in> set (dp_hfs p). valid_HopField h)"

lemma writesB_list:
  assumes "\<And>x k. x \<in> set xs \<Longrightarrow> k mod 8 = 0 \<Longrightarrow> writesB k (f x) (enc x) x"
    and "\<And>x. x \<in> set xs \<Longrightarrow> length (enc x) mod 8 = 0" and "k mod 8 = 0"
  shows "writesB k (ser_list f xs) (concat (map enc xs)) xs"
  using assms
proof (induction xs arbitrary: k)
  case Nil
  show ?case by (simp add: writesB_return)
next
  case (Cons x xs)
  have "(k + length (enc x)) mod 8 = 0" using Cons.prems by (simp add: mod_add_eq [symmetric])
  then have "writesB (k + length (enc x)) (ser_list f xs) (concat (map enc xs)) xs" using Cons by auto
  then have "writesB (k + length (enc x)) (ser_bind (ser_list f xs) (\<lambda>xs. ser_return (x # xs)))
      (concat (map enc xs) @ []) (x # xs)"
    by (rule writesB_bind) (rule writesB_return)
  then show ?case using Cons.prems by (auto intro!: writesB_bind)
qed

text \<open>Reading does not depend on the elements read into, within \<open>blank\<close>.\<close>

lemma readsB_list:
  assumes "\<And>x x0 k. x \<in> set xs \<Longrightarrow> x0 \<in> set xs0 \<Longrightarrow> k mod 8 = 0 \<Longrightarrow> readsB k (f x0) (enc x) x"
    and "\<And>x. x \<in> set xs \<Longrightarrow> length (enc x) mod 8 = 0" and "k mod 8 = 0" and "length xs0 = length xs"
  shows "readsB k (ser_list f xs0) (concat (map enc xs)) xs"
  using assms
proof (induction xs arbitrary: k xs0)
  case Nil
  then show ?case by (simp add: readsB_return)
next
  case (Cons x xs)
  then obtain x0 ys where xs0: "xs0 = x0 # ys" "length ys = length xs" by (cases xs0) auto
  have "(k + length (enc x)) mod 8 = 0" using Cons.prems by (simp add: mod_add_eq [symmetric])
  then have "readsB (k + length (enc x)) (ser_list f ys) (concat (map enc xs)) xs"
    using Cons xs0 by auto
  then have "readsB (k + length (enc x)) (ser_bind (ser_list f ys) (\<lambda>xs. ser_return (x # xs)))
      (concat (map enc xs) @ []) (x # xs)"
    by (rule readsB_bind) (rule readsB_return)
  then show ?case using Cons.prems xs0 by (auto intro!: readsB_bind)
qed

section \<open>Blocks\<close>

lemma three_blocks:
  assumes "i < j" "j < length xs"
  obtains A M Q where "xs = A @ [xs ! i] @ M @ [xs ! j] @ Q" "length A = i" "length M = j - Suc i"
proof
  let ?A = "take i xs" and ?M = "take (j - Suc i) (drop (Suc i) xs)" and ?Q = "drop (Suc j) xs"
  have "drop (Suc i) xs = ?M @ drop (j - Suc i) (drop (Suc i) xs)"
    by (rule append_take_drop_id [symmetric])
  also have "drop (j - Suc i) (drop (Suc i) xs) = drop j xs" using assms by simp
  also have "drop j xs = xs ! j # ?Q" using assms(2) by (rule Cons_nth_drop_Suc [symmetric])
  finally show "xs = ?A @ [xs ! i] @ ?M @ [xs ! j] @ ?Q"
    using id_take_nth_drop [of i xs] assms by simp
  show "length ?A = i" "length ?M = j - Suc i" using assms by simp_all
qed

lemma swap_elems_append:
  assumes "length A = i" "length M = j - Suc i" "i < j"
  shows "swap_elems (A @ [x] @ M @ [y] @ Q) i j = A @ [y] @ M @ [x] @ Q"
proof -
  have "j = length A + Suc (length M)" using assms by simp
  then show ?thesis
    using assms(1) by (auto simp: swap_elems_def nth_append list_update_append simp del: add_Suc_right)
qed

lemma swap_blocks_append:
  assumes "length x = n" "length y = n"
  shows "swap_blocks n (A @ x @ M @ y @ Q) (length A) (length A + n + length M) = A @ y @ M @ x @ Q"
proof -
  have "overwrite (A @ x @ M @ y @ Q) (length A) y = A @ y @ M @ y @ Q"
    using assms by (simp add: overwrite_def)
  moreover have "overwrite ((A @ y @ M) @ y @ Q) (length (A @ y @ M)) x = (A @ y @ M) @ x @ Q"
    using assms by (simp add: overwrite_def)
  ultimately show ?thesis using assms by (simp add: swap_blocks_def Let_def add.assoc)
qed

lemma length_blocks: "\<forall>b \<in> set bs. length b = n \<Longrightarrow> length (concat bs) = length bs * n"
  by (induction bs) auto

lemma swap_blocks_concat:
  assumes "\<forall>b \<in> set bs. length b = n" "i < j" "j < length bs"
  shows "swap_blocks n (P @ concat bs @ Q) (length P + i * n) (length P + j * n) =
    P @ concat (swap_elems bs i j) @ Q"
proof -
  obtain A M B where b: "bs = A @ [bs ! i] @ M @ [bs ! j] @ B" "length A = i" "length M = j - Suc i"
    using three_blocks [OF assms(2,3)] .
  define x y where "x = bs ! i" and "y = bs ! j"
  have bs: "bs = A @ [x] @ M @ [y] @ B" using b(1) by (simp add: x_def y_def)
  have l: "\<forall>b \<in> set A. length b = n" "\<forall>b \<in> set M. length b = n" "length x = n" "length y = n"
    using assms(1) bs by auto
  have "(i + 1 + (j - Suc i)) * n = i * n + n + (j - Suc i) * n" by (simp add: algebra_simps)
  then have "length P + j * n = length (P @ concat A) + n + length (concat M)"
    using assms(2) b(2,3) by (simp add: length_blocks [OF l(1)] length_blocks [OF l(2)])
  moreover have "length P + i * n = length (P @ concat A)"
    using b(2) by (simp add: length_blocks [OF l(1)])
  moreover have "P @ concat bs @ Q = (P @ concat A) @ x @ concat M @ y @ concat B @ Q"
    by (simp add: bs)
  ultimately have "swap_blocks n (P @ concat bs @ Q) (length P + i * n) (length P + j * n)
      = (P @ concat A) @ y @ concat M @ x @ concat B @ Q"
    by (simp only: swap_blocks_append [OF l(3,4)])
  then show ?thesis using swap_elems_append [OF b(2,3) assms(2), of x y B] by (simp add: bs)
qed

lemma length_swap_elems [simp]: "length (swap_elems xs i j) = length xs"
  by (simp add: swap_elems_def)

lemma set_swap_elems: "i < length xs \<Longrightarrow> j < length xs \<Longrightarrow> set (swap_elems xs i j) \<subseteq> set xs"
  by (auto simp: swap_elems_def dest!: subsetD [OF set_update_subset_insert])

lemma map_swap_elems:
  "i < length xs \<Longrightarrow> j < length xs \<Longrightarrow> map f (swap_elems xs i j) = swap_elems (map f xs) i j"
  by (simp add: swap_elems_def map_update)

lemma length_reverse_elems [simp]: "length (reverse_elems xs i j) = length xs"
  by (induction xs i j rule: reverse_elems.induct) (subst reverse_elems.simps, simp)

lemma nth_reverse_elems:
  "j < length xs \<Longrightarrow> k < length xs \<Longrightarrow>
   reverse_elems xs i j ! k = (if i \<le> k \<and> k \<le> j then xs ! (i + j - k) else xs ! k)"
proof (induction xs i j rule: reverse_elems.induct)
  case (1 xs i j)
  show ?case
  proof (cases "i < j")
    case True
    then have "reverse_elems (swap_elems xs i j) (i + 1) (j - 1) ! k =
        (if i + 1 \<le> k \<and> k \<le> j - 1 then swap_elems xs i j ! (i + 1 + (j - 1) - k) else swap_elems xs i j ! k)"
      using 1 by simp
    then show ?thesis
      using True "1.prems" by (subst reverse_elems.simps) (auto simp: swap_elems_def nth_list_update)
  next
    case False
    then show ?thesis by (subst reverse_elems.simps) (auto intro!: arg_cong [of _ _ "(!) xs"])
  qed
qed

lemma reverse_elems_rev: "reverse_elems xs 0 (length xs - 1) = rev xs"
proof (cases "xs = []")
  case True
  then show ?thesis by (subst reverse_elems.simps) simp
next
  case False
  then have "length xs - 1 < length xs" by simp
  then show ?thesis
    by (intro nth_equalityI) (auto simp: nth_reverse_elems rev_nth intro!: arg_cong [of _ _ "(!) xs"])
qed

lemma reverse_blocks_concat:
  assumes "\<forall>b \<in> set bs. length b = n" "j < length bs"
  shows "reverse_blocks n (length P) (P @ concat bs @ Q) i j = P @ concat (reverse_elems bs i j) @ Q"
  using assms
proof (induction bs i j rule: reverse_elems.induct)
  case (1 bs i j)
  show ?case
  proof (cases "i < j")
    case True
    have "\<forall>b \<in> set (swap_elems bs i j). length b = n"
      using set_swap_elems [of i bs j] True "1.prems" by auto
    then show ?thesis
      using True 1 by (subst reverse_blocks.simps, subst reverse_elems.simps)
        (simp add: swap_blocks_concat)
  qed (simp add: reverse_blocks.simps reverse_elems.simps)
qed

text \<open>The direction flag of the first byte of each block.\<close>

lemma flip_first:
  assumes "length b = 8"
  shows "(P @ b @ Q)[length P := (P @ b @ Q) ! length P XOR (1 :: byte)] = P @ b[0 := b ! 0 XOR 1] @ Q"
  using assms by (cases b) (simp_all add: list_update_append nth_append)

lemma flip_blocks:
  assumes "\<forall>b \<in> set bs. length b = 8" "n \<le> length bs" "length P = 4"
  shows "foldl (\<lambda>path i. path[4 + i * 8 := path ! (4 + i * 8) XOR (1 :: byte)]) (P @ concat bs @ Q) [0..<n] =
    P @ concat (map (\<lambda>b. b[0 := b ! 0 XOR 1]) (take n bs)) @ concat (drop n bs) @ Q"
  using assms(2)
proof (induction n)
  case (Suc n)
  let ?f = "\<lambda>b :: byte list. b[0 := b ! 0 XOR 1]"
  have "\<forall>b \<in> set (map ?f (take n bs)). length b = 8" using assms(1) by (auto dest!: in_set_takeD)
  from length_blocks [OF this] have l: "length (P @ concat (map ?f (take n bs))) = 4 + n * 8"
    using Suc.prems assms(3) by simp
  have b: "length (bs ! n) = 8" using assms(1) Suc.prems by simp
  have "drop n bs = bs ! n # drop (Suc n) bs" using Suc.prems Cons_nth_drop_Suc [of n bs] by simp
  then show ?case
    using Suc flip_first [OF b, of "P @ concat (map ?f (take n bs))" "concat (drop (Suc n) bs) @ Q", unfolded l]
    by (simp add: take_Suc_conv_app_nth)
qed simp

section \<open>The meta header as a word\<close>

definition meta_word :: "u32 \<Rightarrow> u32 \<Rightarrow> u32 \<Rightarrow> u32 \<Rightarrow> u32 \<Rightarrow> u32 \<Rightarrow> u32" where
  "meta_word ci ch res s0 s1 s2 = s2 OR push_bit 6 s1 OR push_bit 12 s0 OR push_bit 18 res
     OR push_bit 24 ch OR push_bit 30 ci"

lemma meta_word_fields:
  assumes "fits 2 ci" "fits 6 ch" "fits 6 res" "fits 6 s0" "fits 6 s1" "fits 6 s2"
  shows "meta_word ci ch res s0 s1 s2 AND 0x3f = s2"
    and "drop_bit 6 (meta_word ci ch res s0 s1 s2) AND 0x3f = s1"
    and "drop_bit 12 (meta_word ci ch res s0 s1 s2) AND 0x3f = s0"
    and "drop_bit 18 (meta_word ci ch res s0 s1 s2) AND 0x3f = res"
    and "drop_bit 24 (meta_word ci ch res s0 s1 s2) AND 0x3f = ch"
    and "drop_bit 30 (meta_word ci ch res s0 s1 s2) AND 0x03 = ci"
proof -
  have m: "(0x3f :: u32) = mask 6" "(0x03 :: u32) = mask 2" by (simp_all add: mask_eq_exp_minus_1)
  note f = assms [THEN fits_bitD]
  show "meta_word ci ch res s0 s1 s2 AND 0x3f = s2" "drop_bit 6 (meta_word ci ch res s0 s1 s2) AND 0x3f = s1"
    "drop_bit 12 (meta_word ci ch res s0 s1 s2) AND 0x3f = s0"
    "drop_bit 18 (meta_word ci ch res s0 s1 s2) AND 0x3f = res"
    "drop_bit 24 (meta_word ci ch res s0 s1 s2) AND 0x3f = ch"
    "drop_bit 30 (meta_word ci ch res s0 s1 s2) AND 0x03 = ci"
    unfolding m meta_word_def
    by (rule bit_word_eqI; (force simp: bit_or_iff bit_push_bit_iff bit_and_iff bit_mask_iff bit_drop_bit_eq
      dest: f))+
qed

lemma to_bits_or_push:
  assumes "fits k (a :: 'a::len word)" "n + k \<le> LENGTH('a)"
  shows "to_bits (n + k) (a OR push_bit k b) = to_bits n b @ to_bits k a"
proof (rule nth_equalityI)
  fix i
  assume "i < length (to_bits (n + k) (a OR push_bit k b))"
  then have i: "i < n + k" by simp
  show "to_bits (n + k) (a OR push_bit k b) ! i = (to_bits n b @ to_bits k a) ! i"
  proof (cases "i < n")
    case True
    then have "\<not> bit a (n + k - 1 - i)" using fits_bit [OF assms(1)] by simp
    moreover have "n + k - 1 - i - k = n - 1 - i" "k \<le> n + k - 1 - i" "n + k - 1 - i < LENGTH('a)"
      using True assms(2) by simp_all
    ultimately show ?thesis
      using True i by (simp add: nth_to_bits nth_append bit_or_iff bit_push_bit_iff)
  next
    case False
    then have "n + k - 1 - i = k - 1 - (i - n)" "\<not> k \<le> n + k - 1 - i" using i by simp_all
    then show ?thesis
      using False i by (simp add: nth_to_bits nth_append bit_or_iff bit_push_bit_iff)
  qed
qed simp

lemma meta_word_Horner:
  "meta_word ci ch res s0 s1 s2 = s2 OR push_bit 6 (s1 OR push_bit 6 (s0 OR push_bit 6 (res OR push_bit 6
     (ch OR push_bit 6 ci))))"
  by (simp add: meta_word_def push_bit_or or.assoc)

lemma fits_ucast_mono: "fits n (v :: 'a::len word) \<Longrightarrow> fits n (ucast v :: 'b::len word)"
  by (rule fitsI) (auto simp: bit_ucast_iff dest: fits_bitD)

lemma to_bits_meta_word:
  assumes "fits 6 ch" "fits 6 res" "fits 6 s0" "fits 6 s1" "fits 6 s2"
  shows "to_bits 32 (meta_word ci ch res s0 s1 s2) =
    to_bits 2 ci @ to_bits 6 ch @ to_bits 6 res @ to_bits 6 s0 @ to_bits 6 s1 @ to_bits 6 s2"
  using to_bits_or_push [OF assms(1), of 2 ci] to_bits_or_push [OF assms(2), of 8 "ch OR push_bit 6 ci"]
    to_bits_or_push [OF assms(3), of 14 "res OR push_bit 6 (ch OR push_bit 6 ci)"]
    to_bits_or_push [OF assms(4), of 20 "s0 OR push_bit 6 (res OR push_bit 6 (ch OR push_bit 6 ci))"]
    to_bits_or_push [OF assms(5), of 26 "s1 OR push_bit 6 (s0 OR push_bit 6 (res OR push_bit 6 (ch OR push_bit 6 ci)))"]
  unfolding meta_word_Horner by simp

text \<open>The word of a meta header as it is stored on the wire.\<close>

abbreviation meta_of :: "PathMeta \<Rightarrow> u32" where
  "meta_of m \<equiv> meta_word (ucast (pm_currInf m)) (ucast (pm_currHf m)) 0
     (ucast (pm_segLen m ! 0)) (ucast (pm_segLen m ! 1)) (ucast (pm_segLen m ! 2))"

lemma meta_of_bits:
  assumes "valid_PathMeta m"
  shows "bits_of (store_be 4 (meta_of m)) = PathMeta_bits m"
proof -
  have "to_bits 6 (0 :: u32) = replicate 6 False"
    by (simp add: to_bits_def map_replicate_trivial [symmetric] upt_rec)
  moreover have "fits 6 (ucast (pm_currHf m) :: u32)" "fits 6 (ucast (pm_segLen m ! 0) :: u32)"
    "fits 6 (ucast (pm_segLen m ! 1) :: u32)" "fits 6 (ucast (pm_segLen m ! 2) :: u32)"
    using valid_PathMeta_fits(2-5) [OF assms] by (auto intro: fits_ucast_mono)
  ultimately show ?thesis
    by (simp add: to_bits_store_be [of 4, simplified, symmetric] to_bits_meta_word to_bits_ucast PathMeta_bits_def)
qed

lemma rev_index:
  assumes "unat (c :: byte) < n" "n \<le> 255"
  shows "of_nat n - ucast c - 1 = (ucast (of_nat n - c - 1 :: byte) :: u32)"
    and "unat (of_nat n - c - 1 :: byte) = n - 1 - unat c"
proof -
  have small: "k < 256 \<Longrightarrow> unat (of_nat k :: byte) = k" for k
    by (simp add: unsigned_of_nat take_bit_nat_eq_self)
  have "(of_nat n :: byte) - c - 1 = of_nat n - of_nat (unat c) - of_nat 1" by simp
  also have "\<dots> = of_nat (n - unat c - 1)" using assms(1) by (simp only: of_nat_diff [symmetric])
  finally have b: "(of_nat n :: byte) - c - 1 = of_nat (n - 1 - unat c)" by (simp add: diff_commute)
  show u: "unat (of_nat n - c - 1 :: byte) = n - 1 - unat c"
    using small [of "n - 1 - unat c"] assms unfolding b by simp
  have "(of_nat n :: u32) - ucast c - 1 = of_nat n - of_nat (unat c) - of_nat 1" by (simp add: of_nat_unat ucast_id)
  also have "\<dots> = of_nat (n - unat c - 1)" using assms(1) by (simp only: of_nat_diff [symmetric])
  also have "\<dots> = of_nat (unat (of_nat n - c - 1 :: byte))" by (simp only: u diff_commute)
  finally show "of_nat n - ucast c - 1 = (ucast (of_nat n - c - 1 :: byte) :: u32)"
    by (simp add: of_nat_unat)
qed

section \<open>What the reversal of the bytes does\<close>

lemma blocks_of:
  assumes "length xs = k * n"
  shows "\<exists>bs. xs = concat bs \<and> length bs = k \<and> (\<forall>b \<in> set bs. length b = n)"
  using assms
proof (induction k arbitrary: xs)
  case (Suc k)
  then have "length (drop n xs) = k * n" by simp
  from Suc.IH [OF this] obtain bs where "drop n xs = concat bs" "length bs = k"
      "\<forall>b \<in> set bs. length b = n" by blast
  then have "xs = concat (take n xs # bs)" "length (take n xs # bs) = Suc k"
      "\<forall>b \<in> set (take n xs # bs). length b = n"
    using append_take_drop_id [of n xs] Suc.prems by auto
  then show ?case by blast
qed auto

lemma three_rev:
  assumes "xs \<noteq> []" "length xs \<le> 3"
  shows "(if 1 < length xs then swap_elems xs 0 (length xs - 1) else xs) = rev xs"
proof -
  consider a where "xs = [a]" | a b where "xs = [a, b]" | a b c where "xs = [a, b, c]"
    using assms by (auto simp: le_Suc_eq length_Suc_conv numeral_3_eq_3)
  then show ?thesis by cases (simp_all add: swap_elems_def)
qed

definition flip_dir :: "byte list \<Rightarrow> byte list" where
  "flip_dir b = b[0 := b ! 0 XOR 1]"

lemma length_flip_dir [simp]: "length (flip_dir b) = length b"
  by (simp add: flip_dir_def)

lemma flip_dir_flip_dir [simp]: "flip_dir (flip_dir b) = b"
  by (cases b) (simp_all add: flip_dir_def xor.assoc)

definition swap_segs :: "nat \<Rightarrow> 'a \<times> 'a \<times> 'a \<Rightarrow> 'a \<times> 'a \<times> 'a" where
  "swap_segs n = (\<lambda>(s0, s1, s2). if n = 2 then (s1, s0, s2) else if n = 3 then (s2, s1, s0) else (s0, s1, s2))"

definition seg_count :: "u32 \<times> u32 \<times> u32 \<Rightarrow> nat" where
  "seg_count = (\<lambda>(s0, s1, s2). of_bool (s0 > 0) + of_bool (s1 > 0) + of_bool (s2 > 0))"

definition hop_count :: "u32 \<times> u32 \<times> u32 \<Rightarrow> nat" where
  "hop_count = (\<lambda>(s0, s1, s2). unat s0 + unat s1 + unat s2)"

definition raw_path :: "u32 \<Rightarrow> u32 \<Rightarrow> u32 \<Rightarrow> u32 \<times> u32 \<times> u32 \<Rightarrow> byte list list \<Rightarrow> byte list list \<Rightarrow> byte list" where
  "raw_path ci ch res segs is hs =
     store_be 4 (case segs of (s0, s1, s2) \<Rightarrow> meta_word ci ch res s0 s1 s2) @ concat is @ concat hs"

definition raw_parts :: "u32 \<Rightarrow> u32 \<Rightarrow> u32 \<Rightarrow> u32 \<times> u32 \<times> u32 \<Rightarrow> byte list list \<Rightarrow> byte list list \<Rightarrow> bool" where
  "raw_parts ci ch res segs is hs \<longleftrightarrow>
     fits 2 ci \<and> fits 6 ch \<and> fits 6 res \<and> fits 6 (fst segs) \<and> fits 6 (fst (snd segs)) \<and> fits 6 (snd (snd segs))
     \<and> length is = seg_count segs \<and> length hs = hop_count segs
     \<and> (\<forall>b \<in> set is. length b = 8) \<and> (\<forall>b \<in> set hs. length b = 12)"

lemma seg_count_le: "seg_count segs \<le> 3"
  by (cases segs) (simp add: seg_count_def)

lemma unat_seg_count:
  "unat (of_bool (s0 > 0) + of_bool (s1 > 0) + of_bool (s2 > 0) :: u32) = seg_count (s0, s1, s2)"
  by (simp add: seg_count_def)

lemma fits_6_le: "fits 6 (w :: u32) \<Longrightarrow> unat w < 64"
  unfolding fits_le_mask [symmetric] by (simp add: mask_eq_exp_minus_1 word_le_nat_alt)

lemma unat_hop_count:
  assumes "fits 6 s0" "fits 6 s1" "fits 6 s2"
  shows "unat (s0 + s1 + s2 :: u32) = hop_count (s0, s1, s2)"
  using assms [THEN fits_6_le] by (simp add: hop_count_def unat_word_ariths)

lemma raw_length:
  "raw_parts ci ch res segs is hs \<Longrightarrow>
   length (raw_path ci ch res segs is hs) = 4 + seg_count segs * 8 + hop_count segs * 12"
  using length_blocks [of "is" 8] length_blocks [of hs 12]
  by (auto simp: raw_path_def raw_parts_def split: prod.splits)

lemma raw_reverse_step:
  assumes "length is = n" "n \<le> 3" "0 < n" "\<forall>b \<in> set is. length b = 8" "length P = 4"
  shows "foldl (\<lambda>path i. path[4 + i * 8 := path ! (4 + i * 8) XOR 1])
    (if 1 < n then swap_blocks 8 (P @ concat is @ Q) 4 (4 + (n - 1) * 8) else P @ concat is @ Q) [0..<n] =
    P @ concat (map flip_dir (rev is)) @ Q"
proof -
  have "is \<noteq> []" "length is \<le> 3" using assms by auto
  note rev = three_rev [OF this]
  have "swap_blocks 8 (P @ concat is @ Q) 4 (4 + (n - 1) * 8) = P @ concat (swap_elems is 0 (n - 1)) @ Q"
    if "1 < n" using swap_blocks_concat [of "is" 8 0 "n - 1" P Q] assms that by simp
  then have "(if 1 < n then swap_blocks 8 (P @ concat is @ Q) 4 (4 + (n - 1) * 8) else P @ concat is @ Q) =
      P @ concat (rev is) @ Q"
    using rev assms(1) by auto
  then show ?thesis
    using flip_blocks [of "rev is" n P Q] assms by (simp add: flip_dir_def [abs_def])
qed

lemma overwrite_front: "length P = length x \<Longrightarrow> overwrite (P @ Q) 0 x = x @ Q"
  by (simp add: overwrite_def)

lemma reverse_raw_path:
  assumes p: "raw_parts ci ch res segs is hs"
    and n: "0 < seg_count segs" and h: "2 \<le> hop_count segs" "hop_count segs \<le> 64"
  shows "reversePathInPlace PathType_SCION (raw_path ci ch res segs is hs) =
    (Ok, raw_path (of_nat (seg_count segs) - ci - 1) (of_nat (hop_count segs) - ch - 1) res
       (swap_segs (seg_count segs) segs) (map flip_dir (rev is)) (rev hs))"
proof -
  obtain s0 s1 s2 where segs: "segs = (s0, s1, s2)" by (cases segs)
  let ?w = "meta_word ci ch res s0 s1 s2"
  let ?path = "store_be 4 ?w @ concat is @ concat hs"
  have f: "fits 2 ci" "fits 6 ch" "fits 6 res" "fits 6 s0" "fits 6 s1" "fits 6 s2"
    and l: "length is = seg_count segs" "length hs = hop_count segs"
      "\<forall>b \<in> set is. length b = 8" "\<forall>b \<in> set hs. length b = 12"
    using p by (simp_all add: raw_parts_def segs)
  have path: "raw_path ci ch res segs is hs = ?path" by (simp add: raw_path_def segs)
  have "take 4 ?path = store_be 4 ?w" by simp
  then have w: "byteswapBE (load_le (take 4 ?path)) = ?w"
    using byteswapBE_load_le [of "store_be 4 ?w", where 'a = 32] load_be_store_be [of 4 ?w] by simp
  note fields = meta_word_fields [OF f]
  have inf: "of_bool (s0 > 0) + of_bool (s1 > 0) + of_bool (s2 > 0) = (of_nat (seg_count segs) :: u32)"
    by (simp add: seg_count_def segs)
  have hop: "s0 + s1 + s2 = (of_nat (hop_count segs) :: u32)"
    by (simp add: hop_count_def segs)
  have un: "unat (of_nat (seg_count segs) :: u32) = seg_count segs"
      "unat (of_nat (hop_count segs) :: u32) = hop_count segs"
    using seg_count_le [of segs] h(2) by (simp_all add: unsigned_of_nat take_bit_nat_eq_self)
  have guards: "\<not> (of_nat (seg_count segs) :: u32) < 1" "\<not> (of_nat (hop_count segs) :: u32) < 2"
      "\<not> 64 < (of_nat (hop_count segs) :: u32)"
    using n h by (simp_all add: word_less_nat_alt un)
  have len: "length ?path = 4 + seg_count segs * 8 + hop_count segs * 12"
    using raw_length [OF p] by (simp add: path)
  note step = raw_reverse_step [OF l(1) seg_count_le n l(3) length_store_be, of ?w "concat hs"]
  have "hop_count segs - 1 < length hs" using h(1) l(2) by simp
  note hops = reverse_blocks_concat [OF l(4) this,
      of "store_be 4 ?w @ concat (map flip_dir (rev is))" "[]" 0]
  have "length (concat (map flip_dir (rev is))) = seg_count segs * 8"
    using length_blocks [of "map flip_dir (rev is)" 8] l(1,3) by simp
  then have hops: "reverse_blocks 12 (4 + seg_count segs * 8)
      (store_be 4 ?w @ concat (map flip_dir (rev is)) @ concat hs) 0 (hop_count segs - 1) =
      store_be 4 ?w @ concat (map flip_dir (rev is)) @ concat (rev hs)"
    using hops reverse_elems_rev [of hs] l(2) by simp
  have final: "overwrite (store_be 4 ?w @ Q) 0 (store_le 4 (byteswapBE v)) = store_be 4 v @ Q" for v :: u32 and Q
    by (simp add: store_le_byteswapBE overwrite_front)
  have iff: "unat (of_nat (seg_count segs) :: u32) = k \<longleftrightarrow> seg_count segs = k" for k
    by (simp only: un)
  have eqs: "(of_nat (seg_count segs) :: u32) = 2 \<longleftrightarrow> seg_count segs = 2"
      "(of_nat (seg_count segs) :: u32) = 3 \<longleftrightarrow> seg_count segs = 3"
      "1 < (of_nat (seg_count segs) :: u32) \<longleftrightarrow> 1 < seg_count segs"
    using iff [of 2] iff [of 3] by (auto simp: word_unat_eq_iff un word_less_nat_alt)
  have types: "PathType_SCION = PathType_Empty \<longleftrightarrow> False" "length (store_be 4 ?w @ Q) < 4 \<longleftrightarrow> False" for Q
    by (simp_all add: PathType_SCION_def PathType_Empty_def)
  have lens: "4 + seg_count segs * 8 + hop_count segs * 12 < 4 \<longleftrightarrow> False" by simp
  have "raw_path ci' ch' res (swap_segs (seg_count segs) segs) X Y = store_be 4
     (case if seg_count segs = 2 then (s1, s0, s2) else if seg_count segs = 3 then (s2, s1, s0) else (s0, s1, s2)
      of (s0, s1, s2) \<Rightarrow> meta_word ci' ch' res s0 s1 s2) @ concat X @ concat Y" for ci' ch' X Y
    by (simp add: raw_path_def swap_segs_def segs)
  then show ?thesis
    unfolding path reversePathInPlace_def Let_def w fields inf hop un eqs len lens meta_word_def [symmetric]
    by (simp only: guards simp_thms if_False if_True types step hops)
      (simp add: final split: if_split)
qed

section \<open>Reversing twice\<close>

text \<open>The fields of the meta header in front of an encoded path.\<close>

definition raw_meta :: "byte list \<Rightarrow> u32 \<times> u32 \<times> u32 \<times> u32 \<times> u32 \<times> u32" where
  "raw_meta path =
     (let w = load_be (take 4 path) :: u32
      in (drop_bit 30 w AND 0x03, drop_bit 24 w AND 0x3f, drop_bit 18 w AND 0x3f,
          drop_bit 12 w AND 0x3f, drop_bit 6 w AND 0x3f, w AND 0x3f))"

lemma meta_word_eta:
  "meta_word (drop_bit 30 w AND 0x03) (drop_bit 24 w AND 0x3f) (drop_bit 18 w AND 0x3f)
     (drop_bit 12 w AND 0x3f) (drop_bit 6 w AND 0x3f) (w AND 0x3f) = w"
proof (rule bit_word_eqI)
  fix i
  assume i: "i < LENGTH(32)"
  have m: "(0x3f :: u32) = mask 6" "(0x03 :: u32) = mask 2" by (simp_all add: mask_eq_exp_minus_1)
  consider "i < 6" | "6 \<le> i" "i < 12" | "12 \<le> i" "i < 18" | "18 \<le> i" "i < 24" | "24 \<le> i" "i < 30" | "30 \<le> i"
    by linarith
  then show "bit (meta_word (drop_bit 30 w AND 0x03) (drop_bit 24 w AND 0x3f) (drop_bit 18 w AND 0x3f)
     (drop_bit 12 w AND 0x3f) (drop_bit 6 w AND 0x3f) (w AND 0x3f)) i = bit w i"
    by cases (use i in \<open>auto simp: m meta_word_def bit_or_iff bit_push_bit_iff bit_and_iff bit_mask_iff
        bit_drop_bit_eq\<close>)
qed

lemma fits_and_mask: "fits 6 (w AND 0x3f :: u32)" "fits 2 (w AND 0x03 :: u32)"
proof -
  have m: "(0x3f :: u32) = mask 6" "(0x03 :: u32) = mask 2" by (simp_all add: mask_eq_exp_minus_1)
  show "fits 6 (w AND 0x3f :: u32)" "fits 2 (w AND 0x03 :: u32)"
    unfolding m by (rule fitsI, simp add: bit_and_iff bit_mask_iff)+
qed

lemma fits_less: "unat (w :: u32) < 2 ^ k \<Longrightarrow> k < 32 \<Longrightarrow> fits k w"
  using fits_of_nat [of "unat w" k, where 'a = 32] by simp

lemma take_4_load: "4 \<le> length path \<Longrightarrow> store_be 4 (load_be (take 4 path) :: u32) = take 4 path"
  using store_be_load_be [of "take 4 path", where 'a = 32] by simp

text \<open>The paths the reversal accepts.\<close>

lemma reverse_accepts:
  assumes "reversePathInPlace PathType_SCION path = (Ok, path')"
    and "raw_meta path = (ci, ch, res, segs)"
  shows "\<exists>is hs. path = raw_path ci ch res segs is hs \<and> raw_parts ci ch res segs is hs \<and>
    0 < seg_count segs \<and> 2 \<le> hop_count segs \<and> hop_count segs \<le> 64"
proof -
  obtain s0 s1 s2 where segs: "segs = (s0, s1, s2)" by (cases segs)
  define w where "w = (load_be (take 4 path) :: u32)"
  have types: "PathType_SCION \<noteq> PathType_Empty" by (simp add: PathType_SCION_def PathType_Empty_def)
  have len4: "4 \<le> length path"
    using assms(1) by (simp add: reversePathInPlace_def types not_less split: if_splits)
  then have w: "byteswapBE (load_le (take 4 path)) = w"
    unfolding w_def by (intro byteswapBE_load_le) simp
  have fields: "w AND 0x3f = s2" "drop_bit 6 w AND 0x3f = s1" "drop_bit 12 w AND 0x3f = s0"
      "drop_bit 18 w AND 0x3f = res" "drop_bit 24 w AND 0x3f = ch" "drop_bit 30 w AND 0x03 = ci"
    using assms(2) by (simp_all add: raw_meta_def Let_def segs w_def)
  have f: "fits 2 ci" "fits 6 ch" "fits 6 res" "fits 6 s0" "fits 6 s1" "fits 6 s2"
    using fits_and_mask by (metis fields)+
  have hop: "unat (s0 + s1 + s2) = hop_count segs"
    unfolding segs by (rule unat_hop_count [OF f(4-6)])
  define N where "N = (of_bool (s0 > 0) + of_bool (s1 > 0) + of_bool (s2 > 0) :: u32)"
  have inf: "unat N = seg_count segs"
    unfolding segs N_def by (rule unat_seg_count)
  have guards: "\<not> N < 1" "\<not> (s0 + s1 + s2 < 2 \<or> s0 + s1 + s2 > 64)"
      "\<not> length path \<noteq> 4 + unat N * 8 + unat (s0 + s1 + s2) * 12"
    using assms(1) unfolding reversePathInPlace_def Let_def w fields N_def [symmetric]
    by (simp_all only: types not_False_eq_True if_False if_True split: if_splits) simp_all
  then have g: "0 < seg_count segs" "2 \<le> hop_count segs" "hop_count segs \<le> 64"
      "length path = 4 + seg_count segs * 8 + hop_count segs * 12"
    unfolding word_less_nat_alt hop inf by auto
  obtain "is" where "is": "take (seg_count segs * 8) (drop 4 path) = concat is" "length is = seg_count segs"
      "\<forall>b \<in> set is. length b = 8"
    using blocks_of [of "take (seg_count segs * 8) (drop 4 path)" "seg_count segs" 8] g(4) by auto
  obtain hs where hs: "drop (4 + seg_count segs * 8) path = concat hs" "length hs = hop_count segs"
      "\<forall>b \<in> set hs. length b = 12"
    using blocks_of [of "drop (4 + seg_count segs * 8) path" "hop_count segs" 12] g(4) by auto
  have "path = take 4 path @ take (seg_count segs * 8) (drop 4 path) @ drop (4 + seg_count segs * 8) path"
    by (metis append_take_drop_id drop_drop add.commute)
  also have "take 4 path = store_be 4 (meta_word ci ch res s0 s1 s2)"
    using take_4_load [OF len4] meta_word_eta [of w] by (simp add: w_def fields [unfolded w_def])
  finally have "path = raw_path ci ch res segs is hs" using "is" hs by (simp add: raw_path_def segs)
  moreover have "raw_parts ci ch res segs is hs"
    using f "is" hs by (simp add: raw_parts_def segs)
  ultimately show ?thesis using g by blast
qed

lemma swap_segs_counts:
  "seg_count (swap_segs n segs) = seg_count segs" "hop_count (swap_segs n segs) = hop_count segs"
  "swap_segs n (swap_segs n segs) = segs"
  by (cases segs; simp add: swap_segs_def seg_count_def hop_count_def)+

lemma unat_rev_index:
  assumes "unat (c :: u32) < n" "n < 2 ^ 32"
  shows "unat (of_nat n - c - 1) = n - 1 - unat c"
proof -
  have "of_nat n - c - 1 = (of_nat n - of_nat (unat c) - of_nat 1 :: u32)" by simp
  also have "\<dots> = of_nat (n - unat c - 1)" using assms(1) by (simp only: of_nat_diff [symmetric])
  finally have "of_nat n - c - 1 = (of_nat (n - 1 - unat c) :: u32)" by (simp add: diff_commute)
  moreover have "unat (of_nat k :: u32) = k" if "k < 2 ^ 32" for k
    using that by (simp add: unsigned_of_nat take_bit_nat_eq_self)
  ultimately show ?thesis using assms(2) by simp
qed

lemma raw_parts_reverse:
  assumes "raw_parts ci ch res segs is hs" "unat ci < seg_count segs" "unat ch < hop_count segs"
    "hop_count segs \<le> 64"
  shows "raw_parts (of_nat (seg_count segs) - ci - 1) (of_nat (hop_count segs) - ch - 1) res
    (swap_segs (seg_count segs) segs) (map flip_dir (rev is)) (rev hs)"
proof -
  have "seg_count segs < 2 ^ 32" "hop_count segs < 2 ^ 32" using seg_count_le [of segs] assms(4) by simp_all
  note i = unat_rev_index [OF assms(2) this(1)] unat_rev_index [OF assms(3) this(2)]
  have "fits 2 (of_nat (seg_count segs) - ci - 1)" "fits 6 (of_nat (hop_count segs) - ch - 1)"
    by (rule fits_less; use i assms(4) seg_count_le [of segs] in simp)+
  then show ?thesis
    using assms(1) by (auto simp: raw_parts_def swap_segs_counts) (auto simp: swap_segs_def split: prod.splits)
qed

lemma reverse_involutive:
  assumes "reversePathInPlace type path = (Ok, path')" "raw_meta path = (ci, ch, res, segs)"
    and "unat ci < seg_count segs" "unat ch < hop_count segs"
  shows "reversePathInPlace type path' = (Ok, path)"
proof (cases "type = PathType_SCION")
  case True
  note p = assms(1) [unfolded True]
  obtain "is" hs where d: "path = raw_path ci ch res segs is hs" "raw_parts ci ch res segs is hs"
      "0 < seg_count segs" "2 \<le> hop_count segs" "hop_count segs \<le> 64"
    using reverse_accepts [OF p assms(2)] by blast
  have q: "path' = raw_path (of_nat (seg_count segs) - ci - 1) (of_nat (hop_count segs) - ch - 1) res
       (swap_segs (seg_count segs) segs) (map flip_dir (rev is)) (rev hs)"
    using reverse_raw_path [OF d(2-5)] p d(1) by simp
  have "map flip_dir (map flip_dir is) = is" by (simp add: comp_def)
  then show ?thesis
    using reverse_raw_path [OF raw_parts_reverse [OF d(2) assms(3,4) d(5)]] d(1,3-5)
    by (simp add: True q swap_segs_counts rev_map)
next
  case False
  then have "type = PathType_Empty" "path' = path"
    using assms(1) by (auto simp: reversePathInPlace_def split: if_splits)
  then show ?thesis using assms(1) by simp
qed

end
