(* ===== verification/ScionPathSpec.thy ===== *)
theory ScionPathSpec
  imports ScionPath
begin

text \<open>
  What the reversal of a path means: the decoded path as a list of segments, each an info field
  with its hop fields. Reversing a decoded path reverses the segments and the hops of each; the
  reversal of the encoded bytes implements it.
\<close>

section \<open>The reversed decoded path\<close>

definition flip_info :: "InfoField \<Rightarrow> InfoField" where
  "flip_info info = info\<lparr>if_flags := if_flags info XOR InfoField_ConsDir\<rparr>"

definition swap_seg_lens :: "nat \<Rightarrow> 'a list \<Rightarrow> 'a list" where
  "swap_seg_lens n s = (if n = 2 then [s ! 1, s ! 0, s ! 2] else if n = 3 then [s ! 2, s ! 1, s ! 0] else s)"

definition decoded_reverse :: "DecodedScionPath \<Rightarrow> DecodedScionPath" where
  "decoded_reverse p =
     \<lparr>dp_source = dp_destination p, dp_destination = dp_source p,
      dp_meta = \<lparr>pm_currInf = of_nat (length (dp_ifs p)) - pm_currInf (dp_meta p) - 1,
                 pm_currHf = of_nat (length (dp_hfs p)) - pm_currHf (dp_meta p) - 1,
                 pm_segLen = swap_seg_lens (length (dp_ifs p)) (pm_segLen (dp_meta p))\<rparr>,
      dp_ifs = map flip_info (rev (dp_ifs p)), dp_hfs = rev (dp_hfs p)\<rparr>"

lemma flip_info_flip_info [simp]: "flip_info (flip_info i) = i"
  by (simp add: flip_info_def xor.assoc)

lemma segmentCount_le: "PathMeta_segmentCount m \<le> 3"
  by (simp add: PathMeta_segmentCount_def)

lemma list_3_cases: "length s = 3 \<Longrightarrow> \<exists>a b c. s = [a, b, c]"
  by (auto simp: numeral_3_eq_3 length_Suc_conv)

lemma valid_Decoded_facts:
  assumes "valid_Decoded p"
  shows "length (dp_ifs p) \<le> 3" "dp_ifs p \<noteq> []" "dp_hfs p \<noteq> []"
    "unat (pm_currInf (dp_meta p)) < length (dp_ifs p)" "unat (pm_currHf (dp_meta p)) < length (dp_hfs p)"
    "length (pm_segLen (dp_meta p)) = 3"
proof -
  show "length (dp_ifs p) \<le> 3" "length (pm_segLen (dp_meta p)) = 3"
    using assms segmentCount_le by (simp_all add: valid_Decoded_def valid_PathMeta_def)
  show i: "unat (pm_currInf (dp_meta p)) < length (dp_ifs p)"
    and h: "unat (pm_currHf (dp_meta p)) < length (dp_hfs p)"
    using assms by (simp_all add: valid_Decoded_def valid_PathMeta_def)
  show "dp_ifs p \<noteq> []" "dp_hfs p \<noteq> []" using i h by auto
qed

lemma DecodedScionPath_reverse:
  assumes "valid_Decoded p"
  shows "DecodedScionPath_reverseInPlace p = (Ok, decoded_reverse p)"
proof -
  note f = valid_Decoded_facts [OF assms]
  obtain a b c where s: "pm_segLen (dp_meta p) = [a, b, c]" using list_3_cases [OF f(6)] by blast
  note three_rev [OF f(2,1)]
  moreover note reverse_elems_rev [of "dp_hfs p"]
  moreover have "map (\<lambda>info. info\<lparr>if_flags := if_flags info XOR InfoField_ConsDir\<rparr>) xs = map flip_info xs" for xs
    by (simp add: flip_info_def)
  ultimately show ?thesis
    using f(3) unfolding DecodedScionPath_reverseInPlace_def Let_def
    by (simp add: decoded_reverse_def s swap_elems_def swap_seg_lens_def)
qed

text \<open>Only the first segments are used, so exchanging the lengths keeps the counts.\<close>

lemma swap_seg_lens_counts:
  assumes "valid_PathMeta m" "n = PathMeta_segmentCount m"
  shows "PathMeta_segmentCount (m\<lparr>pm_segLen := swap_seg_lens n (pm_segLen m)\<rparr>) = n"
    "PathMeta_hopFieldCount (m\<lparr>pm_segLen := swap_seg_lens n (pm_segLen m)\<rparr>) = PathMeta_hopFieldCount m"
    "swap_seg_lens n (swap_seg_lens n (pm_segLen m)) = pm_segLen m"
    "length (swap_seg_lens n (pm_segLen m)) = 3" "set (swap_seg_lens n (pm_segLen m)) \<subseteq> set (pm_segLen m)"
proof -
  obtain a b c where s: "pm_segLen m = [a, b, c]"
    using list_3_cases [of "pm_segLen m"] assms(1) by (auto simp: valid_PathMeta_def)
  show "PathMeta_segmentCount (m\<lparr>pm_segLen := swap_seg_lens n (pm_segLen m)\<rparr>) = n"
    "PathMeta_hopFieldCount (m\<lparr>pm_segLen := swap_seg_lens n (pm_segLen m)\<rparr>) = PathMeta_hopFieldCount m"
    "swap_seg_lens n (swap_seg_lens n (pm_segLen m)) = pm_segLen m"
    "length (swap_seg_lens n (pm_segLen m)) = 3" "set (swap_seg_lens n (pm_segLen m)) \<subseteq> set (pm_segLen m)"
    using assms by (auto simp: s swap_seg_lens_def PathMeta_segmentCount_def PathMeta_hopFieldCount_def)
qed

lemma fits_byte_less: "unat (w :: byte) < 2 ^ k \<Longrightarrow> fits k w"
  using fits_of_nat [of "unat w" k, where 'a = 8] by simp

lemma valid_decoded_reverse:
  assumes "valid_Decoded p" "length (dp_hfs p) \<le> 64"
  shows "valid_Decoded (decoded_reverse p)"
proof -
  note f = valid_Decoded_facts [OF assms(1)]
  let ?m = "dp_meta p" and ?n = "length (dp_ifs p)"
  have m: "valid_PathMeta ?m" "?n = PathMeta_segmentCount ?m" "length (dp_hfs p) = PathMeta_hopFieldCount ?m"
    and h: "\<forall>h \<in> set (dp_hfs p). valid_HopField h"
    using assms by (auto simp: valid_Decoded_def)
  obtain a b c where s: "pm_segLen ?m = [a, b, c]" using list_3_cases [OF f(6)] by blast
  let ?q = "dp_meta (decoded_reverse p)"
  have idx: "unat (pm_currInf ?q) = ?n - 1 - unat (pm_currInf ?m)"
      "unat (pm_currHf ?q) = length (dp_hfs p) - 1 - unat (pm_currHf ?m)"
    using rev_index(2) [OF f(4)] rev_index(2) [OF f(5)] f(1) assms(2) by (simp_all add: decoded_reverse_def)
  have sq: "pm_segLen ?q = swap_seg_lens ?n [a, b, c]" by (simp add: decoded_reverse_def s)
  have cs: "?n = of_bool (a > 0) + of_bool (b > 0) + of_bool (c > 0)"
      "length (dp_hfs p) = unat a + unat b + unat c"
      "c > 0 \<longrightarrow> b > 0" "b > 0 \<longrightarrow> a > 0" "fits 6 a" "fits 6 b" "fits 6 c"
    using m by (simp_all add: s PathMeta_segmentCount_def PathMeta_hopFieldCount_def valid_PathMeta_def)
  have "fits 2 (pm_currInf ?q)" "fits 6 (pm_currHf ?q)"
    by (rule fits_byte_less; use idx f(1,2) assms(2) in simp)+
  moreover have "unat (pm_currInf ?q) < ?n" "unat (pm_currHf ?q) < length (dp_hfs p)"
    using idx f(2,3) by (simp_all add: length_greater_0_conv [symmetric] del: length_greater_0_conv)
  moreover have "PathMeta_segmentCount ?q = ?n" "PathMeta_hopFieldCount ?q = length (dp_hfs p)"
    unfolding PathMeta_segmentCount_def PathMeta_hopFieldCount_def sq cs(1,2)
    using cs(3,4) by (auto simp: swap_seg_lens_def)
  moreover have "length (pm_segLen ?q) = 3" "\<forall>s \<in> set (pm_segLen ?q). fits 6 s"
    using cs(5-7) by (auto simp: sq swap_seg_lens_def)
  moreover have "pm_segLen ?q ! 2 > 0 \<longrightarrow> pm_segLen ?q ! 1 > 0" "pm_segLen ?q ! 1 > 0 \<longrightarrow> pm_segLen ?q ! 0 > 0"
    unfolding sq cs(1) using cs(3,4) by (auto simp: swap_seg_lens_def)
  ultimately show ?thesis
    using h by (simp add: valid_Decoded_def valid_PathMeta_def) (simp add: decoded_reverse_def)
qed

lemma decoded_reverse_twice:
  assumes "valid_Decoded p"
  shows "decoded_reverse (decoded_reverse p) = p"
proof -
  note f = valid_Decoded_facts [OF assms]
  obtain a b c where "pm_segLen (dp_meta p) = [a, b, c]" using list_3_cases [OF f(6)] by blast
  then have "dp_meta (decoded_reverse (decoded_reverse p)) = dp_meta p"
    by (cases "dp_meta p") (simp add: decoded_reverse_def swap_seg_lens_def)
  moreover have "map flip_info (map flip_info xs) = xs" for xs by (simp add: comp_def)
  ultimately show ?thesis
    by (cases p) (simp add: decoded_reverse_def rev_map)
qed

section \<open>The codec of decoded paths\<close>

lemma getsB_list:
  assumes "\<And>x k. x \<in> set xs0 \<Longrightarrow> k mod 8 = 0 \<Longrightarrow> getsB k (f x) (\<lambda>x bs. P x \<and> length bs = 8 * len)"
    and "k mod 8 = 0"
  shows "getsB k (ser_list f xs0)
    (\<lambda>xs bs. length xs = length xs0 \<and> (\<forall>x \<in> set xs. P x) \<and> length bs = 8 * len * length xs0)"
  using assms
proof (induction xs0 arbitrary: k)
  case Nil
  show ?case by (simp add: getsB_return)
next
  case (Cons x0 xs0)
  show ?case
  proof (simp only: ser_list.simps, rule getsB_bind)
    show "getsB k (f x0) (\<lambda>x bs. P x \<and> length bs = 8 * len)" using Cons.prems by simp
    fix x and bs :: "bool list"
    assume x: "P x \<and> length bs = 8 * len"
    then have "(k + length bs) mod 8 = 0" using Cons.prems(2) by simp
    with Cons have IH: "getsB (k + length bs) (ser_list f xs0) (\<lambda>xs bs. length xs = length xs0
      \<and> (\<forall>x \<in> set xs. P x) \<and> length bs = 8 * len * length xs0)" by simp
    show "getsB (k + length bs) (ser_bind (ser_list f xs0) (\<lambda>xs. ser_return (x # xs)))
       (\<lambda>c bs'. length c = length (x0 # xs0) \<and> (\<forall>x \<in> set c. P x)
         \<and> length (bs @ bs') = 8 * len * length (x0 # xs0))"
      by (rule getsB_bind [OF IH], rule getsB_return) (use x in simp)
  qed
qed

lemma InfoField_bits_length [simp]: "length (InfoField_bits f) = 64"
  by (simp add: InfoField_bits_def)

lemma HopField_bits_length: "valid_HopField h \<Longrightarrow> length (HopField_bits h) = 96"
  by (simp add: HopField_bits_def valid_HopField_def)

lemma PathMeta_bits_length [simp]: "length (PathMeta_bits m) = 32"
  by (simp add: PathMeta_bits_def)

lemma length_concat_InfoField_bits [simp]: "length (concat (map InfoField_bits xs)) = 64 * length xs"
  by (induction xs) auto

lemma length_concat_HopField_bits:
  "\<forall>h \<in> set hs. valid_HopField h \<Longrightarrow> length (concat (map HopField_bits hs)) = 96 * length hs"
  by (induction hs) (auto simp: HopField_bits_length)

lemma DecodedScionPath_bits_length:
  "valid_Decoded p \<Longrightarrow> length (DecodedScionPath_bits p) = 8 * DecodedScionPath_size p"
  by (simp add: DecodedScionPath_bits_def DecodedScionPath_size_def length_concat_HopField_bits valid_Decoded_def)

text \<open>Paths between two given ASes, and the objects such a path can be read into.\<close>

abbreviation valid_path_between :: "IsdAsn \<Rightarrow> IsdAsn \<Rightarrow> DecodedScionPath \<Rightarrow> bool" where
  "valid_path_between src dst p \<equiv> valid_Decoded p \<and> dp_source p = src \<and> dp_destination p = dst"

abbreviation blank_path_between :: "IsdAsn \<Rightarrow> IsdAsn \<Rightarrow> DecodedScionPath \<Rightarrow> bool" where
  "blank_path_between src dst p \<equiv>
     (\<forall>h \<in> set (dp_hfs p). valid_HopField h) \<and> dp_source p = src \<and> dp_destination p = dst"

lemma set_resize: "set (resize n d xs) \<subseteq> insert d (set xs)"
  by (auto simp: resize_def dest: in_set_takeD)

lemma length_resize [simp]: "length (resize n d xs) = n"
  by (simp add: resize_def)

lemma valid_HopField_default [simp]: "valid_HopField HopField_default"
  by (simp add: valid_HopField_def HopField_default_def)

lemma DecodedScionPath_writes:
  assumes "valid_Decoded p"
  shows "writesB 0 (DecodedScionPath_serialize p) (DecodedScionPath_bits p) p"
proof -
  have m: "writesB 0 (PathMeta_serialize (dp_meta p)) (PathMeta_bits (dp_meta p)) (dp_meta p)"
    and l: "length (dp_ifs p) = PathMeta_segmentCount (dp_meta p)"
      "length (dp_hfs p) = PathMeta_hopFieldCount (dp_meta p)"
    and h: "\<forall>h \<in> set (dp_hfs p). valid_HopField h"
    using assms path_meta.writes by (auto simp: valid_Decoded_def)
  have i: "writesB k (ser_list InfoField_serialize (dp_ifs p)) (concat (map InfoField_bits (dp_ifs p))) (dp_ifs p)"
    if "k mod 8 = 0" for k
    by (rule writesB_list) (use that info_field.writes_aligned in auto)
  have hf: "writesB k (ser_list HopField_serialize (dp_hfs p)) (concat (map HopField_bits (dp_hfs p))) (dp_hfs p)"
    if "k mod 8 = 0" for k
    by (rule writesB_list) (use that h hop_field.writes_aligned HopField_bits_length in auto)
  show ?thesis
    unfolding DecodedScionPath_serialize_def DecodedScionPath_bits_def Let_def
    by (intro writesB_bind [OF m] writesB_bind [OF writesB_if_reading] writesB_map [OF writesB_if_reading])
      (use l i hf in \<open>auto intro: writesB_map [OF i] writesB_map [OF hf]\<close>)
qed

lemma DecodedScionPath_checks:
  assumes "blank_path_between src dst p0"
  shows "getsB 0 (DecodedScionPath_serialize p0)
    (\<lambda>p bs. valid_path_between src dst p \<and> length bs = length (DecodedScionPath_bits p))"
  unfolding DecodedScionPath_serialize_def Let_def
proof (rule getsB_bind [OF PathMeta_checks])
  fix m and bs :: "bool list"
  assume m: "valid_PathMeta m \<and> length bs = length (PathMeta_bits m)"
  let ?n = "PathMeta_segmentCount m" and ?h = "PathMeta_hopFieldCount m"
  have hf: "\<forall>h \<in> set (resize ?h HopField_default (dp_hfs p0)). valid_HopField h"
    using assms set_resize [of ?h HopField_default "dp_hfs p0"] by auto
  have k: "(0 + length bs) mod 8 = 0" using m by simp
  have i: "getsB (0 + length bs) (ser_list InfoField_serialize (resize ?n InfoField_default (dp_ifs p0)))
      (\<lambda>xs bs. length xs = length (resize ?n InfoField_default (dp_ifs p0)) \<and> (\<forall>x \<in> set xs. True)
         \<and> length bs = 8 * 8 * length (resize ?n InfoField_default (dp_ifs p0)))"
    by (rule getsB_list [OF _ k]) (use getsB_at [OF info_field.checks] in auto)
  have h: "getsB k (ser_list HopField_serialize (resize ?h HopField_default (dp_hfs p0)))
      (\<lambda>xs bs. length xs = length (resize ?h HopField_default (dp_hfs p0)) \<and> (\<forall>x \<in> set xs. valid_HopField x)
         \<and> length bs = 8 * 12 * length (resize ?h HopField_default (dp_hfs p0)))" if "k mod 8 = 0" for k
  proof (rule getsB_list [OF _ that])
    fix x k
    assume "x \<in> set (resize ?h HopField_default (dp_hfs p0))" "k mod 8 = (0 :: nat)"
    then have "getsB k (HopField_serialize x) (\<lambda>v bs. valid_HopField v \<and> length bs = length (HopField_bits v))"
      using hf by (intro getsB_at [OF hop_field.checks]) auto
    then show "getsB k (HopField_serialize x) (\<lambda>x bs. valid_HopField x \<and> length bs = 8 * 12)"
      by (rule getsB_mono) (auto simp: HopField_bits_length)
  qed
  show "getsB (0 + length bs)
      (ser_bind (if_reading (ser_list InfoField_serialize (resize ?n InfoField_default (dp_ifs p0)))
         (if length (dp_ifs p0) < ?n then ser_error ''undefined behavior''
          else ser_bind (ser_list InfoField_serialize (take ?n (dp_ifs p0))) (\<lambda>_. ser_return (dp_ifs p0))))
       (\<lambda>ifs. ser_bind (if_reading (ser_list HopField_serialize (resize ?h HopField_default (dp_hfs p0)))
         (if length (dp_hfs p0) < ?h then ser_error ''undefined behavior''
          else ser_bind (ser_list HopField_serialize (take ?h (dp_hfs p0))) (\<lambda>_. ser_return (dp_hfs p0))))
       (\<lambda>hfs. ser_return (p0\<lparr>dp_meta := m, dp_ifs := ifs, dp_hfs := hfs\<rparr>))))
     (\<lambda>p bs'. valid_path_between src dst p \<and> length (bs @ bs') = length (DecodedScionPath_bits p))"
  proof (rule getsB_bind [OF getsB_if_reading [OF i]], rule getsB_bind [OF getsB_if_reading [OF h]])
  qed (use assms m in \<open>auto simp: valid_Decoded_def DecodedScionPath_bits_def length_concat_HopField_bits
      intro!: getsB_return\<close>)
qed

lemma DecodedScionPath_reads:
  assumes "valid_path_between src dst p" "blank_path_between src dst p0"
  shows "readsB 0 (DecodedScionPath_serialize p0) (DecodedScionPath_bits p) p"
proof -
  let ?n = "PathMeta_segmentCount (dp_meta p)" and ?h = "PathMeta_hopFieldCount (dp_meta p)"
  have m: "readsB 0 (PathMeta_serialize (dp_meta p0)) (PathMeta_bits (dp_meta p)) (dp_meta p)"
    and l: "length (dp_ifs p) = ?n" "length (dp_hfs p) = ?h"
    and h: "\<forall>h \<in> set (dp_hfs p). valid_HopField h"
    using assms path_meta.reads by (auto simp: valid_Decoded_def)
  have h0: "\<forall>h \<in> set (resize ?h HopField_default (dp_hfs p0)). valid_HopField h"
    using assms set_resize [of ?h HopField_default "dp_hfs p0"] by auto
  have i: "readsB k (ser_list InfoField_serialize (resize ?n InfoField_default (dp_ifs p0)))
      (concat (map InfoField_bits (dp_ifs p))) (dp_ifs p)" if "k mod 8 = 0" for k
    by (rule readsB_list) (use that l info_field.reads_aligned in auto)
  have hf: "readsB k (ser_list HopField_serialize (resize ?h HopField_default (dp_hfs p0)))
      (concat (map HopField_bits (dp_hfs p))) (dp_hfs p)" if "k mod 8 = 0" for k
    by (rule readsB_list) (use that l h h0 hop_field.reads_aligned HopField_bits_length in auto)
  show ?thesis
    unfolding DecodedScionPath_serialize_def DecodedScionPath_bits_def Let_def
    by (intro readsB_bind [OF m] readsB_bind [OF readsB_if_reading] readsB_map [OF readsB_if_reading])
      (use assms i hf in \<open>auto intro: DecodedScionPath.equality\<close>)
qed

interpretation decoded_path: checked_codec DecodedScionPath_serialize DecodedScionPath_bits
  "valid_path_between src dst" "blank_path_between src dst" for src dst
proof
  fix p p0
  show "writesB 0 (DecodedScionPath_serialize p) (DecodedScionPath_bits p) p" if "valid_path_between src dst p"
    using that DecodedScionPath_writes by simp
  show "readsB 0 (DecodedScionPath_serialize p0) (DecodedScionPath_bits p) p"
    if "valid_path_between src dst p" "blank_path_between src dst p0"
    using that by (rule DecodedScionPath_reads)
  show "length (DecodedScionPath_bits p) mod 8 = 0" if "valid_path_between src dst p"
    using that DecodedScionPath_bits_length by simp
  show "getsB 0 (DecodedScionPath_serialize p0) (\<lambda>v bs. valid_path_between src dst v \<and>
      length bs = length (DecodedScionPath_bits v))" if "blank_path_between src dst p0"
    using that by (rule DecodedScionPath_checks)
qed

section \<open>The bytes of a decoded path\<close>

lemma map_surj: "(\<And>x. x \<in> set xs \<Longrightarrow> \<exists>y. f y = g x) \<Longrightarrow> \<exists>ys. map f ys = map g xs"
proof (induction xs)
  case (Cons x xs)
  then obtain y where "f y = g x" by auto
  moreover obtain ys where "map f ys = map g xs" using Cons by auto
  ultimately have "map f (y # ys) = map g (x # xs)" by simp
  then show ?case by blast
qed simp

lemma bits_of_concat: "bits_of (concat bs) = concat (map bits_of bs)"
  by (induction bs) simp_all

lemma flip_dir_bits:
  assumes "bits_of b = InfoField_bits f"
  shows "bits_of (flip_dir b) = InfoField_bits (flip_info f)"
proof (cases b)
  case Nil
  then show ?thesis using arg_cong [OF assms, of length] by simp
next
  case (Cons x xs)
  then have "byte_bits x = byte_bits (if_flags f)" "bits_of xs = drop 8 (InfoField_bits f)"
    using assms by (simp_all add: bits_of_Cons InfoField_bits_def to_bits_8)
  then show ?thesis
    using byte_bits_inject
    by (auto simp: Cons flip_dir_def bits_of_Cons InfoField_bits_def to_bits_8 flip_info_def InfoField_ConsDir_def)
qed

abbreviation seg_words :: "PathMeta \<Rightarrow> u32 \<times> u32 \<times> u32" where
  "seg_words m \<equiv> (ucast (pm_segLen m ! 0), ucast (pm_segLen m ! 1), ucast (pm_segLen m ! 2))"

lemma unat_ucast_u32: "unat (ucast (s :: byte) :: u32) = unat s"
  using unsigned_less [of s, where 'a = nat] by (simp add: unsigned_ucast_eq take_bit_nat_eq_self)

lemma seg_words_counts:
  "seg_count (seg_words m) = PathMeta_segmentCount m" "hop_count (seg_words m) = PathMeta_hopFieldCount m"
  by (simp_all add: seg_count_def hop_count_def PathMeta_segmentCount_def PathMeta_hopFieldCount_def
      word_less_nat_alt unat_ucast_u32 del: word_neq_0_conv)

lemma decoded_bytes:
  assumes "valid_Decoded p"
  shows "bits_of path = DecodedScionPath_bits p \<longleftrightarrow>
    (\<exists>is hs. path = raw_path (ucast (pm_currInf (dp_meta p))) (ucast (pm_currHf (dp_meta p))) 0
        (seg_words (dp_meta p)) is hs \<and>
      map bits_of is = map InfoField_bits (dp_ifs p) \<and> map bits_of hs = map HopField_bits (dp_hfs p))"
    (is "?l \<longleftrightarrow> (\<exists>is hs. ?r is hs)")
proof -
  let ?m = "dp_meta p"
  have vm: "valid_PathMeta ?m" and vh: "\<forall>h \<in> set (dp_hfs p). valid_HopField h"
    using assms by (simp_all add: valid_Decoded_def)
  have dir: "bits_of path' = DecodedScionPath_bits p" if "\<exists>is hs. path' = raw_path (ucast (pm_currInf ?m))
      (ucast (pm_currHf ?m)) 0 (seg_words ?m) is hs \<and> map bits_of is = map InfoField_bits (dp_ifs p)
      \<and> map bits_of hs = map HopField_bits (dp_hfs p)" for path'
    using that by (auto simp: raw_path_def DecodedScionPath_bits_def meta_of_bits [OF vm] bits_of_concat
        simp del: One_nat_def)
  obtain "is" where "is": "map bits_of is = map InfoField_bits (dp_ifs p)"
    using map_surj [of "dp_ifs p" bits_of InfoField_bits] bits_of_surj by fastforce
  obtain hs where hs: "map bits_of hs = map HopField_bits (dp_hfs p)"
    using map_surj [of "dp_hfs p" bits_of HopField_bits] bits_of_surj vh by (fastforce simp: HopField_bits_length)
  show ?thesis using dir "is" hs bits_of_inject by metis
qed

lemma decoded_parts:
  assumes "valid_Decoded p" "map bits_of is = map InfoField_bits (dp_ifs p)"
    "map bits_of hs = map HopField_bits (dp_hfs p)"
  shows "raw_parts (ucast (pm_currInf (dp_meta p))) (ucast (pm_currHf (dp_meta p))) 0 (seg_words (dp_meta p)) is hs"
proof -
  have "valid_PathMeta (dp_meta p)" using assms(1) by (simp add: valid_Decoded_def)
  from valid_PathMeta_fits(1-5) [OF this]
  have "fits 2 (ucast (pm_currInf (dp_meta p)) :: u32)" "fits 6 (ucast (pm_currHf (dp_meta p)) :: u32)"
    "fits 6 (ucast (pm_segLen (dp_meta p) ! 0) :: u32)" "fits 6 (ucast (pm_segLen (dp_meta p) ! 1) :: u32)"
    "fits 6 (ucast (pm_segLen (dp_meta p) ! 2) :: u32)"
    by (auto intro: fits_ucast_mono)
  moreover have "length is = length (dp_ifs p)" "length hs = length (dp_hfs p)"
    using assms(2,3) [THEN arg_cong, of length] by simp_all
  moreover have "length b = 8" if "b \<in> set is" for b
  proof -
    have "bits_of b \<in> set (map InfoField_bits (dp_ifs p))" using that by (simp flip: assms(2))
    then have "length (bits_of b) = 64" by (fastforce simp del: length_bits_of)
    then show ?thesis by simp
  qed
  moreover have "length b = 12" if "b \<in> set hs" for b
  proof -
    have "bits_of b \<in> set (map HopField_bits (dp_hfs p))" using that by (simp flip: assms(3))
    then have "length (bits_of b) = 96" using assms(1)
      by (fastforce simp: HopField_bits_length valid_Decoded_def simp del: length_bits_of)
    then show ?thesis by simp
  qed
  ultimately show ?thesis
    using assms(1) by (simp add: raw_parts_def seg_words_counts valid_Decoded_def del: One_nat_def)
qed

lemma map_related:
  "map f xs = map g ys \<Longrightarrow> (\<And>x y. f x = g y \<Longrightarrow> f (h x) = g (k y)) \<Longrightarrow> map f (map h xs) = map g (map k ys)"
proof (induction xs arbitrary: ys)
  case (Cons x xs)
  then show ?case by (cases ys) auto
qed simp

lemma ucast_rev_index:
  "unat (c :: byte) < n \<Longrightarrow> n \<le> 255 \<Longrightarrow> ucast (of_nat n - c - 1 :: byte) = (of_nat n - ucast c - 1 :: u32)"
  by (simp only: rev_index(1))

lemma seg_words_swap:
  assumes "length (pm_segLen m) = 3"
  shows "seg_words (m\<lparr>pm_segLen := swap_seg_lens n (pm_segLen m)\<rparr>) = swap_segs n (seg_words m)"
proof -
  obtain a b c where "pm_segLen m = [a, b, c]" using list_3_cases [OF assms] by blast
  then show ?thesis by (simp add: swap_seg_lens_def swap_segs_def)
qed

lemma reverse_refines:
  assumes p: "valid_Decoded p" "2 \<le> length (dp_hfs p)" "length (dp_hfs p) \<le> 64"
    and path: "bits_of path = DecodedScionPath_bits p"
  shows "\<exists>path'. reversePathInPlace PathType_SCION path = (Ok, path') \<and>
    bits_of path' = DecodedScionPath_bits (decoded_reverse p)"
proof -
  let ?m = "dp_meta p"
  note f = valid_Decoded_facts [OF p(1)]
  obtain "is" hs where b: "path = raw_path (ucast (pm_currInf ?m)) (ucast (pm_currHf ?m)) 0 (seg_words ?m) is hs"
      "map bits_of is = map InfoField_bits (dp_ifs p)" "map bits_of hs = map HopField_bits (dp_hfs p)"
    using decoded_bytes [OF p(1)] path by blast
  have n: "seg_count (seg_words ?m) = length (dp_ifs p)" "hop_count (seg_words ?m) = length (dp_hfs p)"
    using p(1) by (simp_all add: seg_words_counts valid_Decoded_def del: One_nat_def)
  have "0 < length (dp_ifs p)" using f(2) by simp
  note step = reverse_raw_path [OF decoded_parts [OF p(1) b(2,3)], unfolded n, OF this p(2,3)]
  let ?q = "decoded_reverse p"
  have q: "dp_meta ?q = \<lparr>pm_currInf = of_nat (length (dp_ifs p)) - pm_currInf ?m - 1,
      pm_currHf = of_nat (length (dp_hfs p)) - pm_currHf ?m - 1,
      pm_segLen = swap_seg_lens (length (dp_ifs p)) (pm_segLen ?m)\<rparr>"
    by (simp add: decoded_reverse_def)
  have idx: "ucast (pm_currInf (dp_meta ?q)) = (of_nat (length (dp_ifs p)) - ucast (pm_currInf ?m) - 1 :: u32)"
      "ucast (pm_currHf (dp_meta ?q)) = (of_nat (length (dp_hfs p)) - ucast (pm_currHf ?m) - 1 :: u32)"
    unfolding q using f(1) p(3) by (simp_all only: PathMeta.simps ucast_rev_index [OF f(4)] ucast_rev_index [OF f(5)])
  have sg: "seg_words (dp_meta ?q) = swap_segs (length (dp_ifs p)) (seg_words ?m)"
    unfolding seg_words_swap [OF f(6), symmetric] by (simp add: q)
  have "map bits_of (map flip_dir (rev is)) = map InfoField_bits (dp_ifs ?q)"
  proof -
    have "map bits_of (map flip_dir is) = map InfoField_bits (map flip_info (dp_ifs p))"
      using map_related [OF b(2) flip_dir_bits] by simp
    then have "rev (map bits_of (map flip_dir is)) = rev (map InfoField_bits (map flip_info (dp_ifs p)))" by simp
    then show ?thesis by (simp only: rev_map decoded_reverse_def DecodedScionPath.simps)
  qed
  moreover have "map bits_of (rev hs) = map HopField_bits (dp_hfs ?q)"
    using b(3) by (simp add: decoded_reverse_def rev_map [symmetric])
  ultimately have "bits_of (raw_path (ucast (pm_currInf (dp_meta ?q))) (ucast (pm_currHf (dp_meta ?q))) 0
      (seg_words (dp_meta ?q)) (map flip_dir (rev is)) (rev hs)) = DecodedScionPath_bits ?q"
    using decoded_bytes [OF valid_decoded_reverse [OF p(1,3)]] by blast
  then show ?thesis using step unfolding b(1) idx sg by auto
qed

section \<open>Segments\<close>

definition path_segments :: "DecodedScionPath \<Rightarrow> (InfoField \<times> HopField list) list" where
  "path_segments p = map (\<lambda>i. (dp_ifs p ! i, take (unat (pm_segLen (dp_meta p) ! i))
     (drop (PathMeta_segmentBegin (dp_meta p) i) (dp_hfs p)))) [0..<length (dp_ifs p)]"

lemma path_segments_reverse:
  assumes "valid_Decoded p"
  shows "path_segments (decoded_reverse p) = map (\<lambda>(i, hs). (flip_info i, rev hs)) (rev (path_segments p))"
proof -
  note f = valid_Decoded_facts [OF assms]
  obtain a b c where s: "pm_segLen (dp_meta p) = [a, b, c]" using list_3_cases [OF f(6)] by blast
  have cs: "length (dp_ifs p) = of_bool (a > 0) + of_bool (b > 0) + of_bool (c > 0)"
      "length (dp_hfs p) = unat a + unat b + unat c" "c > 0 \<longrightarrow> b > 0" "b > 0 \<longrightarrow> a > 0"
    using assms by (simp_all add: valid_Decoded_def s PathMeta_segmentCount_def PathMeta_hopFieldCount_def
        valid_PathMeta_def)
  obtain A B C where h: "dp_hfs p = A @ B @ C" "unat a = length A" "unat b = length B" "unat c = length C"
  proof
    let ?A = "take (unat a) (dp_hfs p)" and ?B = "take (unat b) (drop (unat a) (dp_hfs p))"
      and ?C = "drop (unat b) (drop (unat a) (dp_hfs p))"
    show "dp_hfs p = ?A @ ?B @ ?C" by (simp only: append_take_drop_id)
    show "unat a = length ?A" "unat b = length ?B" "unat c = length ?C" using cs(2) by simp_all
  qed
  consider i where "dp_ifs p = [i]" | i j where "dp_ifs p = [i, j]" | i j k where "dp_ifs p = [i, j, k]"
    using f(1,2) by (auto simp: le_Suc_eq length_Suc_conv numeral_3_eq_3)
  then show ?thesis
  proof cases
    case 1
    then have "b = 0" "c = 0" using cs by (auto split: if_splits simp: of_bool_def word_gt_0 simp del: word_neq_0_conv)
    then have "B = []" "C = []" using h(3,4) by simp_all
    then show ?thesis using 1 s h
      by (simp add: path_segments_def decoded_reverse_def swap_seg_lens_def PathMeta_segmentBegin_def)
  next
    case 2
    then have "c = 0" using cs by (auto split: if_splits simp: of_bool_def word_gt_0 simp del: word_neq_0_conv)
    then have "C = []" using h(4) by simp
    then show ?thesis using 2 s h
      by (simp add: path_segments_def decoded_reverse_def swap_seg_lens_def PathMeta_segmentBegin_def upt_rec)
  next
    case 3
    then show ?thesis using s h
      by (simp add: path_segments_def decoded_reverse_def swap_seg_lens_def PathMeta_segmentBegin_def upt_rec)
  qed
qed

end
