(* ===== verification/RawPath.thy ===== *)
theory RawPath
  imports ScionPathSpec
begin

text \<open>
  Encoded SCION paths: the hop iterator that parses interface IDs out of the raw bytes
  (\<open>include/scion/path/raw_hop_range.hpp\<close>), path digests, the fixed-size \<open>RawPath\<close> and the hops of
  the decoded path. Shifts of a 64-bit mask by 64 or more are undefined in C++ and yield zero in
  the model; the properties are stated for paths of at most 64 hop fields, where the only such
  shift is the one past the last hop field, which does not influence the result. A walk over the
  hops is \<open>None\<close> if it does not end; that it always ends is a theorem.
\<close>

section \<open>The hop iterator\<close>

type_synonym hop_pair = "u16 \<times> u16"

record RawHopIter =
  it_rs :: bit_buf
  it_stop :: bool
  it_prevHop :: hop_pair
  it_curHop :: hop_pair
  it_index :: u32
  it_hopDir :: u64
  it_segChange :: u64

definition RawHopIter_deref :: "RawHopIter \<Rightarrow> hop_pair" where
  "RawHopIter_deref it = (snd (it_prevHop it), fst (it_curHop it))"

definition mask_bit :: "u64 \<Rightarrow> nat \<Rightarrow> bool" where
  "mask_bit m i \<longleftrightarrow> m AND push_bit i 1 \<noteq> 0"

fun RawHopIter_read :: "nat \<Rightarrow> HopField \<Rightarrow> RawHopIter \<Rightarrow> RawHopIter" where
  "RawHopIter_read 0 hf it = it"
| "RawHopIter_read (Suc n) hf it =
     (case HopField_serialize hf (ReadStream (it_rs it)) of
        (Inl _, rs) \<Rightarrow> it\<lparr>it_rs := stream_buf rs, it_stop := True\<rparr>
      | (Inr hf, rs) \<Rightarrow>
          RawHopIter_read n hf
            (it\<lparr>it_rs := stream_buf rs, it_prevHop := it_curHop it,
                it_curHop := (if mask_bit (it_hopDir it) (unat (it_index it))
                              then (hf_consIngress hf, hf_consEgress hf)
                              else (hf_consEgress hf, hf_consIngress hf)),
                it_index := it_index it + 1\<rparr>))"

definition RawHopIter_next :: "RawHopIter \<Rightarrow> RawHopIter" where
  "RawHopIter_next it =
     (let steps = if mask_bit (it_segChange it) (unat (it_index it)) then 2 else 1
      in RawHopIter_read steps HopField_default it)"

text \<open>\<open>(~(~0ull << len)) << sum\<close>\<close>

definition segment_mask :: "nat \<Rightarrow> nat \<Rightarrow> u64" where
  "segment_mask len sm = push_bit sm (NOT (push_bit len (NOT 0)))"

text \<open>The loop over the info fields; the position of the next one is its first argument.\<close>

fun RawHopIter_infos :: "nat list \<Rightarrow> PathMeta \<Rightarrow> InfoField \<Rightarrow> nat \<Rightarrow> RawHopIter \<Rightarrow> RawHopIter" where
  "RawHopIter_infos [] meta info sm it = it"
| "RawHopIter_infos (i # is) meta info sm it =
     (case InfoField_serialize info (ReadStream (it_rs it)) of
        (Inl _, rs) \<Rightarrow> it\<lparr>it_rs := stream_buf rs, it_stop := True\<rparr>
      | (Inr info, rs) \<Rightarrow>
          let len = unat (pm_segLen meta ! i);
              it = it\<lparr>it_rs := stream_buf rs\<rparr>;
              it = (if flag_get (if_flags info) InfoField_ConsDir
                    then it\<lparr>it_hopDir := it_hopDir it OR segment_mask len sm\<rparr> else it);
              it = (if \<not> flag_get (if_flags info) InfoField_Peering \<or> i = 0
                    then it\<lparr>it_segChange := it_segChange it OR push_bit sm 1\<rparr> else it)
          in RawHopIter_infos is meta info (sm + len) it)"

definition PathMeta_default :: PathMeta where
  "PathMeta_default = \<lparr>pm_currInf = 0, pm_currHf = 0, pm_segLen = [0, 0, 0]\<rparr>"

definition RawHopIter_make :: "byte list \<Rightarrow> RawHopIter" where
  "RawHopIter_make path =
     (let it = \<lparr>it_rs = stream_init path, it_stop = False, it_prevHop = (0, 0), it_curHop = (0, 0),
                it_index = 0, it_hopDir = 0, it_segChange = 0\<rparr>
      in case PathMeta_serialize PathMeta_default (ReadStream (it_rs it)) of
           (Inl _, rs) \<Rightarrow> it\<lparr>it_rs := stream_buf rs, it_stop := True\<rparr>
         | (Inr meta, rs) \<Rightarrow>
             let it = RawHopIter_infos [0..<PathMeta_segmentCount meta] meta InfoField_default 0
                        (it\<lparr>it_rs := stream_buf rs\<rparr>)
             in if it_stop it then it else RawHopIter_next it)"

definition RawHopRange_begin :: "byte \<Rightarrow> byte list \<Rightarrow> RawHopIter" where
  "RawHopRange_begin type encoded =
     (if type \<noteq> PathType_SCION then RawHopIter_make [] else RawHopIter_make encoded)"

text \<open>\<open>for (auto hop : hops())\<close>: the hops from an iterator to the sentinel.\<close>

partial_function (option) RawHopIter_collect :: "RawHopIter \<Rightarrow> hop_pair list option" where
  "RawHopIter_collect it =
     (if it_stop it then Some []
      else Option.bind (RawHopIter_collect (RawHopIter_next it))
             (\<lambda>hops. Some (RawHopIter_deref it # hops)))"

declare RawHopIter_collect.simps [code]

definition RawHopRange_hops :: "byte \<Rightarrow> byte list \<Rightarrow> hop_pair list option" where
  "RawHopRange_hops type encoded = RawHopIter_collect (RawHopRange_begin type encoded)"

section \<open>Hops of the decoded path\<close>

definition DecodedScionPath_hopDir :: "DecodedScionPath \<Rightarrow> u64" where
  "DecodedScionPath_hopDir p =
     fst (foldl (\<lambda>(hopDir, sm) (i, info).
        let len = unat (pm_segLen (dp_meta p) ! i)
        in (if flag_get (if_flags info) InfoField_ConsDir then hopDir OR segment_mask len sm else hopDir,
            sm + len)) (0, 0) (enumerate 0 (dp_ifs p)))"

definition DecodedScionPath_segChange :: "DecodedScionPath \<Rightarrow> u64" where
  "DecodedScionPath_segChange p =
     (if dp_ifs p \<noteq> [] \<and> \<not> flag_get (if_flags (dp_ifs p ! 0)) InfoField_Peering
      then push_bit (unat (pm_segLen (dp_meta p) ! 0) - 1) 1
        OR push_bit (unat (pm_segLen (dp_meta p) ! 0) + unat (pm_segLen (dp_meta p) ! 1) - 1) 1
      else 0)"

definition DecodedScionPath_hops :: "DecodedScionPath \<Rightarrow> hop_pair list" where
  "DecodedScionPath_hops p =
     (let hopDir = DecodedScionPath_hopDir p;
          segChange = DecodedScionPath_segChange p;
          takeIfId = (\<lambda>(index, hf). if mask_bit hopDir index then (hf_consIngress hf, hf_consEgress hf)
                                    else (hf_consEgress hf, hf_consIngress hf));
          combine = (\<lambda>a b. (snd a, fst b));
          ifids = map takeIfId (enumerate 0 (dp_hfs p))
      in map snd (filter (\<lambda>q. \<not> mask_bit segChange (fst q)) (enumerate 0 (map2 combine ifids (drop 1 ifids)))))"

section \<open>Digests\<close>

type_synonym PathDigest = "u64 \<times> u64"

definition PathDigest_hash :: "PathDigest \<Rightarrow> u64" where
  "PathDigest_hash pd = fst pd XOR snd pd"

definition PathDigest_format :: "PathDigest \<Rightarrow> string" where
  "PathDigest_format pd =
     (let field = (\<lambda>w :: u64. let s = format_hex (unat w) in replicate (16 - length s) (CHR ''0'') @ s)
      in field (fst pd) @ '':'' @ field (snd pd))"

text \<open>The seed is drawn once per process.\<close>

definition computeDigest :: "u32 \<Rightarrow> IsdAsn \<Rightarrow> hop_pair list \<Rightarrow> PathDigest" where
  "computeDigest seed src path =
     (let haddr = MurmurHash3_x64_128 (store_le 8 src) seed;
          hpath = MurmurHash3_x64_128 (concat (map (\<lambda>hop. store_le 2 (fst hop) @ store_le 2 (snd hop)) path)) seed
      in (fst haddr XOR fst hpath, snd haddr XOR snd hpath))"

section \<open>RawPath\<close>

text \<open>\<open>std::chrono\<close> time points count nanoseconds in a 64-bit signed integer.\<close>

type_synonym Expiry = int

definition Expiry_max :: Expiry where "Expiry_max = 2 ^ 63 - 1"
definition Expiry_seconds :: "u32 \<Rightarrow> Expiry" where "Expiry_seconds s = uint s * 10 ^ 9"

record RawPath =
  rp_source :: IsdAsn
  rp_destination :: IsdAsn
  rp_type :: byte
  rp_size :: nat
  rp_digest :: "PathDigest option"
  rp_path :: "byte list"

definition RawPath_MAX_SIZE :: nat where "RawPath_MAX_SIZE = 984"

definition RawPath_default :: RawPath where
  "RawPath_default = \<lparr>rp_source = 0, rp_destination = 0, rp_type = PathType_Empty, rp_size = 0,
     rp_digest = None, rp_path = replicate RawPath_MAX_SIZE 0\<rparr>"

text \<open>Throws \<open>std::logic_error\<close> before anything is changed.\<close>

definition RawPath_assign :: "RawPath \<Rightarrow> IsdAsn \<Rightarrow> IsdAsn \<Rightarrow> byte \<Rightarrow> byte list \<Rightarrow> RawPath maybe" where
  "RawPath_assign rp source destination type data =
     (if length data > RawPath_MAX_SIZE then Inl LogicError
      else Inr (rp\<lparr>rp_source := source, rp_destination := destination, rp_type := type,
                   rp_size := length data, rp_digest := None, rp_path := overwrite (rp_path rp) 0 data\<rparr>))"

definition RawPath_make :: "IsdAsn \<Rightarrow> IsdAsn \<Rightarrow> byte \<Rightarrow> byte list \<Rightarrow> RawPath maybe" where
  "RawPath_make = RawPath_assign RawPath_default"

definition RawPath_encoded :: "RawPath \<Rightarrow> byte list" where
  "RawPath_encoded rp = take (rp_size rp) (rp_path rp)"

definition RawPath_empty :: "RawPath \<Rightarrow> bool" where
  "RawPath_empty rp \<longleftrightarrow> rp_type rp = PathType_Empty"

definition RawPath_eq :: "RawPath \<Rightarrow> RawPath \<Rightarrow> bool" where
  "RawPath_eq rp other \<longleftrightarrow>
     rp_source rp = rp_source other \<and> rp_destination rp = rp_destination other
     \<and> rp_type rp = rp_type other \<and> RawPath_encoded rp = RawPath_encoded other"

text \<open>An error of the serialisation is not returned; the size is where the stream stopped.\<close>

definition RawPath_encode :: "RawPath \<Rightarrow> DecodedScionPath \<Rightarrow> bool \<times> RawPath" where
  "RawPath_encode rp path =
     (let rp = rp\<lparr>rp_source := dp_source path, rp_destination := dp_destination path,
                  rp_type := PathType_SCION, rp_digest := None\<rparr>;
          (_, st) = DecodedScionPath_serialize path (WriteStream (stream_init (rp_path rp)));
          ws = stream_buf st
      in (True, rp\<lparr>rp_path := bufdata ws, rp_size := fst (getPos ws)\<rparr>))"

definition RawPath_hops :: "RawPath \<Rightarrow> hop_pair list option" where
  "RawPath_hops rp = RawHopRange_hops (rp_type rp) (RawPath_encoded rp)"

definition RawPath_reverseInPlace :: "RawPath \<Rightarrow> error_code \<times> RawPath" where
  "RawPath_reverseInPlace rp =
     (let (err, path) = reversePathInPlace (rp_type rp) (RawPath_encoded rp);
          rp = rp\<lparr>rp_path := overwrite (rp_path rp) 0 path\<rparr>
      in if err \<noteq> Ok then (err, rp)
         else (Ok, rp\<lparr>rp_source := rp_destination rp, rp_destination := rp_source rp, rp_digest := None\<rparr>))"

fun expiry_infos :: "nat \<Rightarrow> bit_buf \<Rightarrow> InfoField list option \<times> bit_buf" where
  "expiry_infos 0 rs = (Some [], rs)"
| "expiry_infos (Suc n) rs =
     (case InfoField_serialize InfoField_default (ReadStream rs) of
        (Inl _, st) \<Rightarrow> (None, stream_buf st)
      | (Inr info, st) \<Rightarrow>
          (case expiry_infos n (stream_buf st) of
             (None, rs) \<Rightarrow> (None, rs)
           | (Some infos, rs) \<Rightarrow> (Some (info # infos), rs)))"

fun expiry_hops :: "PathMeta \<Rightarrow> InfoField list \<Rightarrow> nat list \<Rightarrow> HopField \<Rightarrow> bit_buf \<Rightarrow> Expiry \<Rightarrow> Expiry" where
  "expiry_hops meta ifs [] hop rs expiry = expiry"
| "expiry_hops meta ifs (i # is) hop rs expiry =
     (case HopField_serialize hop (ReadStream rs) of
        (Inl _, st) \<Rightarrow> expiry
      | (Inr hop, st) \<Rightarrow>
          let s0 = unat (pm_segLen meta ! 0); s1 = unat (pm_segLen meta ! 1);
              info = (if i < s0 then ifs ! 0 else if i < s0 + s1 then ifs ! 1 else ifs ! 2);
              expiry = min expiry
                (Expiry_seconds (if_timestamp info + of_nat (HopField_relativeExpiry hop)))
          in expiry_hops meta ifs is hop (stream_buf st) expiry)"

definition RawPath_expiry :: "RawPath \<Rightarrow> Expiry" where
  "RawPath_expiry rp =
     (if rp_type rp \<noteq> PathType_SCION then Expiry_max
      else case PathMeta_serialize PathMeta_default (ReadStream (stream_init (rp_path rp))) of
        (Inl _, _) \<Rightarrow> Expiry_max
      | (Inr meta, st) \<Rightarrow>
          (case expiry_infos (PathMeta_segmentCount meta) (stream_buf st) of
             (None, _) \<Rightarrow> Expiry_max
           | (Some ifs, rs) \<Rightarrow>
               expiry_hops meta ifs [0..<PathMeta_hopFieldCount meta] HopField_default rs Expiry_max))"

text \<open>At most 64 hops enter the digest, which is remembered until the path changes.\<close>

definition RawPath_digest :: "u32 \<Rightarrow> RawPath \<Rightarrow> (PathDigest \<times> RawPath) option" where
  "RawPath_digest seed rp =
     (case rp_digest rp of
        Some d \<Rightarrow> Some (d, rp)
      | None \<Rightarrow>
          (case RawPath_hops rp of
             None \<Rightarrow> None
           | Some hops \<Rightarrow>
               let d = computeDigest seed (rp_source rp) (take 64 hops)
               in Some (d, rp\<lparr>rp_digest := Some d\<rparr>)))"

end
