(* ===== verification/RawPathSpec.thy ===== *)
theory RawPathSpec
  imports RawPath
begin

text \<open>
  The hops of a path. Every walk of the hop iterator ends, whatever the bytes. On the encoding of a
  path it yields the same hops as the decoded path, and both are described segment by segment:
  adjacent hop fields of a segment, in the direction of travel, give one hop; where segments are
  joined by a peering link, the hop fields around the junction give one too.
\<close>

section \<open>Every walk ends\<close>

lemma hop_field_gets:
  assumes "wf_buf b" "bit_pos b mod 8 = 0" "valid_HopField h0" "HopField_serialize h0 (ReadStream b) = (Inr h, st)"
  shows "\<exists>b'. st = ReadStream b' \<and> consumed b 96 b' \<and> 96 \<le> bits_room b \<and> valid_HopField h"
proof -
  obtain b' n where n: "st = ReadStream b'" "consumed b n b'" "n \<le> bits_room b" "valid_HopField h"
      "take n (bits_ahead b) = HopField_bits h"
    using hop_field.gets [OF assms(3), unfolded getsB_def, THEN spec, of b] assms by auto
  have "length (take n (bits_ahead b)) = 96" by (simp only: n(5) HopField_bits_length [OF n(4)])
  then have "n = 96" using n(3) by simp
  then show ?thesis using n by auto
qed

text \<open>An iterator whose stream is at a byte boundary inside its buffer.\<close>

definition wf_iter :: "RawHopIter \<Rightarrow> bool" where
  "wf_iter it \<longleftrightarrow> wf_buf (it_rs it) \<and> bit_pos (it_rs it) mod 8 = 0"

lemma consumed_aligned: "consumed b n b' \<Longrightarrow> bit_pos b mod 8 = 0 \<Longrightarrow> n mod 8 = 0 \<Longrightarrow> bit_pos b' mod 8 = 0"
  by (auto simp: consumed_def)

lemma RawHopIter_read_progress:
  assumes "wf_iter it" "valid_HopField hf" "n > 0"
  shows "it_stop (RawHopIter_read n hf it) \<or>
    (wf_iter (RawHopIter_read n hf it) \<and> bits_room (it_rs (RawHopIter_read n hf it)) < bits_room (it_rs it))"
  using assms
proof (induction n arbitrary: hf it)
  case (Suc n)
  show ?case
  proof (cases "HopField_serialize hf (ReadStream (it_rs it))")
    case (Pair r st)
    show ?thesis
    proof (cases r)
      case (Inl e)
      then show ?thesis by (simp add: Pair)
    next
      case (Inr h)
      from hop_field_gets [OF _ _ Suc.prems(2) Pair [unfolded Inr]]
      obtain b' where b': "st = ReadStream b'" "consumed (it_rs it) 96 b'" "96 \<le> bits_room (it_rs it)" "valid_HopField h"
        using Suc.prems(1) by (auto simp: wf_iter_def)
      define it' where "it' = it\<lparr>it_rs := b', it_prevHop := it_curHop it,
                it_curHop := (if mask_bit (it_hopDir it) (unat (it_index it))
                              then (hf_consIngress h, hf_consEgress h)
                              else (hf_consEgress h, hf_consIngress h)),
                it_index := it_index it + 1\<rparr>"
      have step: "RawHopIter_read (Suc n) hf it = RawHopIter_read n h it'"
        by (simp add: Pair Inr b'(1) it'_def)
      have "wf_iter it'" "bits_room (it_rs it') < bits_room (it_rs it)"
        using b' Suc.prems(1) consumed_aligned [OF b'(2)] consumed_room [OF b'(2)]
        by (auto simp: it'_def wf_iter_def consumed_def)
      then show ?thesis
        using Suc.IH [of it' h] b'(4) step by (cases "n = 0") auto
    qed
  qed
qed simp

lemma RawHopIter_next_progress:
  "wf_iter it \<Longrightarrow> it_stop (RawHopIter_next it) \<or>
    (wf_iter (RawHopIter_next it) \<and> bits_room (it_rs (RawHopIter_next it)) < bits_room (it_rs it))"
  unfolding RawHopIter_next_def Let_def by (rule RawHopIter_read_progress) simp_all

lemma RawHopIter_collect_ends:
  assumes "it_stop it \<or> wf_iter it"
  shows "\<exists>hops. RawHopIter_collect it = Some hops"
  using assms
proof (induction "bits_room (it_rs it)" arbitrary: it rule: less_induct)
  case less
  show ?case
  proof (cases "it_stop it")
    case True
    then show ?thesis by (simp add: RawHopIter_collect.simps)
  next
    case False
    let ?next = "RawHopIter_next it"
    have p: "it_stop ?next \<or> (wf_iter ?next \<and> bits_room (it_rs ?next) < bits_room (it_rs it))"
      using less.prems False RawHopIter_next_progress [of it] by simp
    have "\<exists>hops. RawHopIter_collect ?next = Some hops"
    proof (cases "it_stop ?next")
      case True
      then show ?thesis by (simp add: RawHopIter_collect.simps)
    next
      case False
      then show ?thesis using p less.hyps by blast
    qed
    then show ?thesis using False by (auto simp: RawHopIter_collect.simps [of it])
  qed
qed

lemma RawHopIter_infos_wf:
  "wf_iter it \<Longrightarrow> it_stop (RawHopIter_infos is meta info sm it) \<or> wf_iter (RawHopIter_infos is meta info sm it)"
proof (induction "is" arbitrary: info sm it)
  case (Cons i "is")
  show ?case
  proof (cases "InfoField_serialize info (ReadStream (it_rs it))")
    case (Pair r st)
    show ?thesis
    proof (cases r)
      case (Inl e)
      then show ?thesis by (simp add: Pair)
    next
      case (Inr f)
      obtain b' n where b': "st = ReadStream b'" "consumed (it_rs it) n b'" "n \<le> bits_room (it_rs it)"
          "length (take n (bits_ahead (it_rs it))) = 64"
        using info_field.checks [of info, unfolded getsB_def, simplified, THEN spec, of "it_rs it"]
          Pair Inr Cons.prems by (auto simp: wf_iter_def)
      then have "wf_buf b' \<and> bit_pos b' mod 8 = 0"
        using Cons.prems consumed_aligned [OF b'(2)] by (auto simp: wf_iter_def consumed_def)
      then show ?thesis
        using b'(1) by (simp add: Pair Inr Let_def) (intro conjI impI Cons.IH; simp add: wf_iter_def)
    qed
  qed
qed simp

lemma RawHopIter_make_wf: "it_stop (RawHopIter_make path) \<or> wf_iter (RawHopIter_make path)"
proof -
  define it where "it = \<lparr>it_rs = stream_init path, it_stop = False, it_prevHop = (0, 0), it_curHop = (0, 0),
                it_index = 0, it_hopDir = 0, it_segChange = 0\<rparr>"
  show ?thesis
  proof (cases "PathMeta_serialize PathMeta_default (ReadStream (stream_init path))")
    case (Pair r st)
    show ?thesis
    proof (cases r)
      case (Inl e)
      then show ?thesis by (simp add: RawHopIter_make_def Pair)
    next
      case (Inr m)
      obtain b' n where b': "st = ReadStream b'" "consumed (stream_init path) n b'"
          "n \<le> bits_room (stream_init path)" "length (take n (bits_ahead (stream_init path))) = 32"
        using path_meta.checks [of PathMeta_default, unfolded getsB_def, simplified, THEN spec, of "stream_init path"]
          Pair Inr by auto
      then have "wf_iter (it\<lparr>it_rs := b'\<rparr>)"
        using consumed_aligned [OF b'(2)] by (auto simp: wf_iter_def consumed_def)
      from RawHopIter_infos_wf [OF this]
      have i: "it_stop i \<or> wf_iter i"
        if "i = RawHopIter_infos [0..<PathMeta_segmentCount m] m InfoField_default 0 (it\<lparr>it_rs := b'\<rparr>)" for i
        using that by simp
      have "it_stop (RawHopIter_next i) \<or> wf_iter (RawHopIter_next i)" if "wf_iter i" for i
        using RawHopIter_next_progress [OF that] by blast
      then show ?thesis
        using i by (auto simp: RawHopIter_make_def Pair Inr b'(1) Let_def it_def)
    qed
  qed
qed

lemma hops_end: "\<exists>hops. RawHopRange_hops type encoded = Some hops"
  unfolding RawHopRange_hops_def RawHopRange_begin_def
  using RawHopIter_collect_ends RawHopIter_make_wf by simp

section \<open>Adjacent hop fields\<close>

definition adj :: "hop_pair list \<Rightarrow> hop_pair list" where
  "adj D = map2 (\<lambda>a b. (snd a, fst b)) D (drop 1 D)"

lemma adj_simps [simp]:
  "adj [] = []" "adj [a] = []" "adj (a # b # D) = (snd a, fst b) # adj (b # D)"
  by (simp_all add: adj_def)

lemma adj_append:
  "A \<noteq> [] \<Longrightarrow> adj (A @ b # B) = adj A @ (snd (last A), fst b) # adj (b # B)"
proof (induction A)
  case (Cons a A)
  then show ?case by (cases A) auto
qed simp

lemma length_adj [simp]: "length (adj D) = length D - 1"
  by (simp add: adj_def)

lemma adj_rev: "adj (rev (map prod.swap D)) = rev (map prod.swap (adj D))"
proof (induction D rule: induct_list012)
  case (3 a b D)
  have "adj (rev (map prod.swap (b # D)) @ [prod.swap a]) =
      adj (rev (map prod.swap (b # D))) @ [(snd (last (rev (map prod.swap (b # D)))), fst (prod.swap a))]"
    by (subst adj_append) simp_all
  then show ?case using 3 by simp
qed simp_all

section \<open>What the iterator yields\<close>

text \<open>
  The walk over the hop fields in the direction of travel, \<open>c\<close> being the one read before and \<open>S\<close>
  the positions where two fields are read.
\<close>

function raw_emit :: "(nat \<Rightarrow> bool) \<Rightarrow> nat \<Rightarrow> hop_pair \<Rightarrow> hop_pair list \<Rightarrow> hop_pair list" where
  "raw_emit S j c L =
     (if S j then (case L of a # b # L' \<Rightarrow> (snd a, fst b) # raw_emit S (j + 2) b L' | _ \<Rightarrow> [])
      else (case L of a # L' \<Rightarrow> (snd c, fst a) # raw_emit S (j + 1) a L' | [] \<Rightarrow> []))"
  by pat_completeness auto

termination by (relation "measure (\<lambda>(S, j, c, L). length L)") auto

declare raw_emit.simps [simp del]

lemma raw_emit_run:
  "\<forall>k. j \<le> k \<and> k < j + length A \<longrightarrow> \<not> S k \<Longrightarrow>
   raw_emit S j c (A @ B) = adj (c # A) @ raw_emit S (j + length A) (last (c # A)) B"
proof (induction A arbitrary: j c)
  case (Cons a A)
  have "\<forall>k. j + 1 \<le> k \<and> k < j + 1 + length A \<longrightarrow> \<not> S k" using Cons.prems by auto
  from Cons.IH [OF this, of a] have
    "raw_emit S (j + 1) a (A @ B) = adj (a # A) @ raw_emit S (j + 1 + length A) (last (a # A)) B" .
  moreover have "\<not> S j" using Cons.prems by auto
  ultimately show ?case by (simp add: raw_emit.simps [of S j])
qed simp

lemma raw_emit_segment:
  assumes "S j" "2 \<le> length A" "\<forall>k. j + 2 \<le> k \<and> k < j + length A \<longrightarrow> \<not> S k"
  shows "raw_emit S j c (A @ B) = adj A @ raw_emit S (j + length A) (last A) B"
proof -
  obtain a b A' where A: "A = a # b # A'" using assms(2) by (cases A; cases "tl A") auto
  have "raw_emit S j c (A @ B) = (snd a, fst b) # raw_emit S (j + 2) b (A' @ B)"
    using assms(1) by (simp add: raw_emit.simps [of S j] A)
  also have "raw_emit S (j + 2) b (A' @ B) = adj (b # A') @ raw_emit S (j + 2 + length A') (last (b # A')) B"
    by (rule raw_emit_run) (use assms(3) A in auto)
  finally show ?thesis by (simp add: A)
qed

lemma raw_emit_Nil [simp]: "raw_emit S j c [] = []"
  by (simp add: raw_emit.simps)

lemma raw_emit_last:
  assumes "S j" "\<And>k. j < k \<Longrightarrow> k < j + length A \<Longrightarrow> \<not> S k"
  shows "raw_emit S j c A = adj A"
proof (cases "2 \<le> length A")
  case True
  have "raw_emit S j c (A @ []) = adj A @ raw_emit S (j + length A) (last A) []"
    by (rule raw_emit_segment) (use True assms in auto)
  then show ?thesis by simp
next
  case False
  then consider "A = []" | a where "A = [a]" by (cases A; cases "tl A") auto
  then show ?thesis using assms(1) by cases (simp_all add: raw_emit.simps [of S j])
qed

text \<open>At the start of a segment with one hop field the second hop field read belongs to the next segment.\<close>

lemma raw_emit_short:
  assumes "S j" "B \<noteq> []" "\<And>k. j + 1 < k \<Longrightarrow> k < j + 1 + length B \<Longrightarrow> \<not> S k"
  shows "raw_emit S j c (a # B @ C) = (snd a, fst (hd B)) # adj B @ raw_emit S (j + 1 + length B) (last B) C"
proof -
  obtain b B' where B: "B = b # B'" using assms(2) by (cases B) auto
  have "raw_emit S j c (a # B @ C) = (snd a, fst b) # raw_emit S (j + 2) b (B' @ C)"
    using assms(1) by (simp add: raw_emit.simps [of S j] B)
  also have "raw_emit S (j + 2) b (B' @ C) = adj (b # B') @ raw_emit S (j + 2 + length B') (last (b # B')) C"
    by (rule raw_emit_run) (use assms(3) B in auto)
  finally show ?thesis by (simp add: B)
qed

text \<open>Reading does not depend on what the objects held before.\<close>

definition reads_as :: "'a ser \<Rightarrow> 'a ser \<Rightarrow> bool" where
  "reads_as m m' \<longleftrightarrow> (\<forall>b. m (ReadStream b) = m' (ReadStream b) \<and> (\<exists>b'. snd (m (ReadStream b)) = ReadStream b'))"

lemma reads_as_bind:
  assumes "reads_as m m'" "\<And>a. reads_as (f a) (f' a)"
  shows "reads_as (ser_bind m f) (ser_bind m' f')"
  unfolding reads_as_def
proof
  fix b
  obtain r b' where m: "m (ReadStream b) = (r, ReadStream b')" "m' (ReadStream b) = (r, ReadStream b')"
    using assms(1) [unfolded reads_as_def, THEN spec, of b] by (metis prod.collapse)
  show "ser_bind m f (ReadStream b) = ser_bind m' f' (ReadStream b) \<and>
      (\<exists>b'. snd (ser_bind m f (ReadStream b)) = ReadStream b')"
    using assms(2) [unfolded reads_as_def, THEN spec, of _ b'] by (cases r) (simp_all add: ser_bind_def m, metis)
qed

lemma reads_as_on_stream: "reads_as (on_stream rd v wr) (on_stream rd v' wr')"
  by (simp add: reads_as_def on_stream_def)

lemma reads_as_refl:
  "reads_as (ser_return a) (ser_return a)" "reads_as (read_check bad msg) (read_check bad msg)"
  "reads_as (advanceBits n) (advanceBits n)" "reads_as (advanceBytes n) (advanceBytes n)"
  by (simp_all add: reads_as_def ser_return_def read_check_def advanceBits_def advanceBytes_def on_stream_def)

lemma reads_as_bytes: "length v = length v' \<Longrightarrow> reads_as (serializeBytes v) (serializeBytes v')"
  by (simp add: serializeBytes_def reads_as_on_stream)

lemma HopField_read_any:
  "valid_HopField h0 \<Longrightarrow> valid_HopField h1 \<Longrightarrow>
   HopField_serialize h0 (ReadStream b) = HopField_serialize h1 (ReadStream b)"
proof -
  assume "valid_HopField h0" "valid_HopField h1"
  then have "reads_as (HopField_serialize h0) (HopField_serialize h1)"
    unfolding HopField_serialize_def serializeByte_def serializeUint16_def
    by (intro reads_as_bind reads_as_refl reads_as_bytes reads_as_on_stream) (simp add: valid_HopField_def)
  then show ?thesis by (simp add: reads_as_def)
qed

lemma InfoField_read_any: "InfoField_serialize i0 (ReadStream b) = InfoField_serialize i1 (ReadStream b)"
proof -
  have "reads_as (InfoField_serialize i0) (InfoField_serialize i1)"
    unfolding InfoField_serialize_def serializeByte_def serializeUint16_def serializeUint32_def
    by (intro reads_as_bind reads_as_refl reads_as_on_stream)
  then show ?thesis by (simp add: reads_as_def)
qed

lemma PathMeta_read_any: "PathMeta_serialize m0 (ReadStream b) = PathMeta_serialize m1 (ReadStream b)"
proof -
  have "reads_as (PathMeta_serialize m0) (PathMeta_serialize m1)"
    unfolding PathMeta_serialize_def serializeBits_def Let_def
    by (intro reads_as_bind reads_as_refl reads_as_on_stream)
  then show ?thesis by (simp add: reads_as_def)
qed

text \<open>The hop fields \<open>hs\<close> are read one after the other, and then no more.\<close>

definition no_hop :: "bit_buf \<Rightarrow> bool" where
  "no_hop b \<longleftrightarrow> (\<forall>h0. valid_HopField h0 \<longrightarrow> (\<exists>e st. HopField_serialize h0 (ReadStream b) = (Inl e, st)))"

fun hop_chain :: "bit_buf \<Rightarrow> HopField list \<Rightarrow> bit_buf \<Rightarrow> bool" where
  "hop_chain b [] b' \<longleftrightarrow> b = b'"
| "hop_chain b (h # hs) b' \<longleftrightarrow> valid_HopField h \<and>
     (\<exists>b1. (\<forall>h0. valid_HopField h0 \<longrightarrow> HopField_serialize h0 (ReadStream b) = (Inr h, ReadStream b1)) \<and>
       hop_chain b1 hs b')"

definition travel :: "u64 \<Rightarrow> nat \<Rightarrow> HopField \<Rightarrow> hop_pair" where
  "travel hopDir i hf =
     (if mask_bit hopDir i then (hf_consIngress hf, hf_consEgress hf) else (hf_consEgress hf, hf_consIngress hf))"

fun travels :: "u64 \<Rightarrow> nat \<Rightarrow> HopField list \<Rightarrow> hop_pair list" where
  "travels hopDir i [] = []"
| "travels hopDir i (h # hs) = travel hopDir i h # travels hopDir (i + 1) hs"

lemma RawHopIter_read_stop:
  "no_hop (it_rs it) \<Longrightarrow> valid_HopField hf \<Longrightarrow> it_stop (RawHopIter_read (Suc n) hf it)"
  by (auto simp: no_hop_def)

lemma RawHopIter_read_step:
  assumes "\<forall>h0. valid_HopField h0 \<longrightarrow> HopField_serialize h0 (ReadStream (it_rs it)) = (Inr h, ReadStream b1)"
    and "valid_HopField hf"
  shows "RawHopIter_read (Suc n) hf it = RawHopIter_read n h
    (it\<lparr>it_rs := b1, it_prevHop := it_curHop it,
        it_curHop := travel (it_hopDir it) (unat (it_index it)) h, it_index := it_index it + 1\<rparr>)"
  using assms by (simp add: travel_def)

lemma unat_index_step: "unat (i :: u32) + n < 2 ^ 32 \<Longrightarrow> 0 < n \<Longrightarrow> unat (i + 1) = unat i + 1"
  by (subst unat_add_lem [THEN iffD1]) simp_all

lemma collect_stop: "it_stop it \<Longrightarrow> RawHopIter_collect it = Some []"
  by (simp add: RawHopIter_collect.simps)

lemma RawHopIter_collect_emit:
  assumes "hop_chain (it_rs it) hs b'" "no_hop b'" "\<not> it_stop it" "unat (it_index it) + length hs < 2 ^ 32"
  shows "RawHopIter_collect (RawHopIter_next it) = Some (raw_emit (mask_bit (it_segChange it))
    (unat (it_index it)) (it_curHop it) (travels (it_hopDir it) (unat (it_index it)) hs))"
  using assms
proof (induction "length hs" arbitrary: it hs rule: less_induct)
  case less
  let ?S = "mask_bit (it_segChange it)" and ?j = "unat (it_index it)"
  show ?case
  proof (cases hs)
    case Nil
    then have n: "no_hop (it_rs it)" using less.prems by simp
    then have "it_stop (RawHopIter_next it)"
      unfolding RawHopIter_next_def Let_def numeral_2_eq_2 One_nat_def
      by (auto simp del: RawHopIter_read.simps intro: RawHopIter_read_stop)
    then show ?thesis by (simp add: Nil collect_stop)
  next
    case (Cons h hs1)
    obtain b1 where h: "valid_HopField h" "hop_chain b1 hs1 b'"
        "\<forall>h0. valid_HopField h0 \<longrightarrow> HopField_serialize h0 (ReadStream (it_rs it)) = (Inr h, ReadStream b1)"
      using less.prems(1) Cons by auto
    define it1 where "it1 = it\<lparr>it_rs := b1, it_prevHop := it_curHop it,
        it_curHop := travel (it_hopDir it) (unat (it_index it)) h, it_index := it_index it + 1\<rparr>"
    have idx: "unat (it_index it1) = ?j + 1"
      using less.prems(4) Cons by (simp add: it1_def unat_index_step [of _ "length hs"])
    have it1: "it_rs it1 = b1" "it_hopDir it1 = it_hopDir it" "it_segChange it1 = it_segChange it"
        "\<not> it_stop it1" "it_prevHop it1 = it_curHop it" "it_curHop it1 = travel (it_hopDir it) ?j h"
      using less.prems(3) by (simp_all add: it1_def)
    have step: "RawHopIter_read (Suc n) HopField_default it = RawHopIter_read n h it1" for n
      using RawHopIter_read_step [OF h(3)] by (simp add: it1_def del: RawHopIter_read.simps)
    show ?thesis
    proof (cases "?S ?j")
      case False
      have nx: "RawHopIter_next it = it1"
        using False step [of 0] by (simp add: RawHopIter_next_def Let_def del: RawHopIter_read.simps(2))
      have "RawHopIter_collect (RawHopIter_next it1) = Some (raw_emit ?S (?j + 1) (it_curHop it1)
          (travels (it_hopDir it) (?j + 1) hs1))"
        using less.hyps [of hs1 it1] less.prems h(2) it1 idx Cons by simp
      then show ?thesis
        using False it1 by (simp add: nx RawHopIter_collect.simps [of it1] RawHopIter_deref_def Cons
            raw_emit.simps [of ?S ?j])
    next
      case True
      have nx: "RawHopIter_next it = RawHopIter_read 1 h it1"
        using True step [of 1] by (simp add: RawHopIter_next_def Let_def numeral_2_eq_2 del: RawHopIter_read.simps(2))
      show ?thesis
      proof (cases hs1)
        case Nil
        then have "it_stop (RawHopIter_read (Suc 0) h it1)"
          using h(1,2) it1 less.prems(2) by (intro RawHopIter_read_stop) simp_all
        then show ?thesis
          using True Nil by (simp add: nx collect_stop Cons raw_emit.simps [of ?S ?j] del: RawHopIter_read.simps(2))
      next
        case (Cons g hs2)
        obtain b2 where g: "valid_HopField g" "hop_chain b2 hs2 b'"
            "\<forall>h0. valid_HopField h0 \<longrightarrow> HopField_serialize h0 (ReadStream (it_rs it1)) = (Inr g, ReadStream b2)"
          using h(2) Cons it1(1) by auto
        define it2 where "it2 = it1\<lparr>it_rs := b2, it_prevHop := it_curHop it1,
            it_curHop := travel (it_hopDir it1) (unat (it_index it1)) g, it_index := it_index it1 + 1\<rparr>"
        have nx2: "RawHopIter_next it = it2"
          using RawHopIter_read_step [OF g(3) h(1), of 0] by (simp add: nx it2_def del: RawHopIter_read.simps(2))
        have l: "length hs = length hs2 + 2" using \<open>hs = h # hs1\<close> Cons by simp
        then have idx2: "unat (it_index it2) = ?j + 2"
          using less.prems(4) idx unat_index_step [of "it_index it1" "length hs2 + 1"] by (simp add: it2_def)
        have it2: "it_rs it2 = b2" "it_hopDir it2 = it_hopDir it" "it_segChange it2 = it_segChange it"
            "\<not> it_stop it2" "it_prevHop it2 = travel (it_hopDir it) ?j h"
            "it_curHop it2 = travel (it_hopDir it) (?j + 1) g"
          using it1 idx by (simp_all add: it2_def)
        have "RawHopIter_collect (RawHopIter_next it2) = Some (raw_emit ?S (?j + 2) (it_curHop it2)
            (travels (it_hopDir it) (?j + 2) hs2))"
          using less.hyps [of hs2 it2] less.prems(2,4) g(2) it2 idx2 l by simp
        then show ?thesis
          using True it2 \<open>hs = h # hs1\<close> Cons
          by (simp add: nx2 RawHopIter_collect.simps [of it2] RawHopIter_deref_def raw_emit.simps [of ?S ?j])
      qed
    qed
  qed
qed

section \<open>Segments\<close>

lemma mask_bit_bit: "mask_bit m i \<longleftrightarrow> bit m i"
  by (simp add: mask_bit_def push_bit_of_1 and_exp_eq_0_iff_not_bit)

lemma bit_segment_mask: "bit (segment_mask len sm) k \<longleftrightarrow> k < 64 \<and> sm \<le> k \<and> k < sm + len"
  by (auto simp: segment_mask_def bit_push_bit_iff bit_not_iff bit_mask_iff)

text \<open>A valid path is one, two or three runs of hop fields.\<close>

lemma valid_Decoded_segments:
  assumes "valid_Decoded p"
  obtains
    (one) i A where "dp_ifs p = [i]" "dp_hfs p = A" "A \<noteq> []"
      "map unat (pm_segLen (dp_meta p)) = [length A, 0, 0]" "path_segments p = [(i, A)]"
  | (two) i j A B where "dp_ifs p = [i, j]" "dp_hfs p = A @ B" "A \<noteq> []" "B \<noteq> []"
      "map unat (pm_segLen (dp_meta p)) = [length A, length B, 0]" "path_segments p = [(i, A), (j, B)]"
  | (three) i j k A B C where "dp_ifs p = [i, j, k]" "dp_hfs p = A @ B @ C" "A \<noteq> []" "B \<noteq> []" "C \<noteq> []"
      "map unat (pm_segLen (dp_meta p)) = [length A, length B, length C]"
      "path_segments p = [(i, A), (j, B), (k, C)]"
proof -
  note f = valid_Decoded_facts [OF assms]
  obtain a b c where s: "pm_segLen (dp_meta p) = [a, b, c]" using list_3_cases [OF f(6)] by blast
  have cs: "length (dp_ifs p) = of_bool (a > 0) + of_bool (b > 0) + of_bool (c > 0)"
      "length (dp_hfs p) = unat a + unat b + unat c" "c > 0 \<longrightarrow> b > 0" "b > 0 \<longrightarrow> a > 0"
    using assms by (simp_all add: valid_Decoded_def s PathMeta_segmentCount_def PathMeta_hopFieldCount_def
        valid_PathMeta_def)
  obtain A B C where h: "dp_hfs p = A @ B @ C" "unat a = length A" "unat b = length B" "unat c = length C"
  proof
    let ?A = "take (unat a) (dp_hfs p)" and ?B = "take (unat b) (drop (unat a) (dp_hfs p))"
      and ?C = "drop (unat b) (drop (unat a) (dp_hfs p))"
    show "dp_hfs p = ?A @ ?B @ ?C" by (simp only: append_take_drop_id)
    show "unat a = length ?A" "unat b = length ?B" "unat c = length ?C" using cs(2) by simp_all
  qed
  have pos: "a > 0 \<longleftrightarrow> A \<noteq> []" "b > 0 \<longleftrightarrow> B \<noteq> []" "c > 0 \<longleftrightarrow> C \<noteq> []"
    using h by (simp_all add: word_less_nat_alt)
  consider i where "dp_ifs p = [i]" | i j where "dp_ifs p = [i, j]" | i j k where "dp_ifs p = [i, j, k]"
    using f(1,2) by (auto simp: le_Suc_eq length_Suc_conv numeral_3_eq_3)
  then show thesis
  proof cases
    case 1
    then have "A \<noteq> []" "B = []" "C = []" using cs(1,3,4) pos by (auto split: if_splits simp: of_bool_def)
    then show ?thesis using one [of i A] 1 s h
      by (simp add: path_segments_def PathMeta_segmentBegin_def)
  next
    case 2
    then have "A \<noteq> []" "B \<noteq> []" "C = []" using cs(1,3,4) pos by (auto split: if_splits simp: of_bool_def)
    then show ?thesis using two [of _ _ A B] 2 s h
      by (simp add: path_segments_def PathMeta_segmentBegin_def upt_rec)
  next
    case 3
    then have "A \<noteq> []" "B \<noteq> []" "C \<noteq> []" using cs(1,3,4) pos by (auto split: if_splits simp: of_bool_def)
    then show ?thesis using three [of _ _ _ A B C] 3 s h
      by (simp add: path_segments_def PathMeta_segmentBegin_def upt_rec)
  qed
qed

text \<open>The hop fields of a segment in the direction of travel.\<close>

definition seg_dir :: "InfoField \<Rightarrow> HopField \<Rightarrow> hop_pair" where
  "seg_dir info hf = (if flag_get (if_flags info) InfoField_ConsDir
     then (hf_consIngress hf, hf_consEgress hf) else (hf_consEgress hf, hf_consIngress hf))"

definition seg_dirs :: "InfoField \<times> HopField list \<Rightarrow> hop_pair list" where
  "seg_dirs seg = map (seg_dir (fst seg)) (snd seg)"

definition peering :: "DecodedScionPath \<Rightarrow> bool" where
  "peering p \<longleftrightarrow> flag_get (if_flags (dp_ifs p ! 0)) InfoField_Peering"

definition path_hops :: "DecodedScionPath \<Rightarrow> hop_pair list" where
  "path_hops p = (let segs = map seg_dirs (path_segments p)
     in if peering p then adj (concat segs) else concat (map adj segs))"

lemma travels_append: "travels d i (A @ B) = travels d i A @ travels d (i + length A) B"
  by (induction A arbitrary: i) simp_all

lemma travels_segment:
  "(\<And>k. i \<le> k \<Longrightarrow> k < i + length A \<Longrightarrow> bit d k = flag_get (if_flags info) InfoField_ConsDir) \<Longrightarrow>
   travels d i A = seg_dirs (info, A)"
proof (induction A arbitrary: i)
  case (Cons h A)
  have "travels d (i + 1) A = seg_dirs (info, A)" by (rule Cons.IH) (use Cons.prems in auto)
  then show ?case using Cons.prems [of i] by (simp add: travel_def seg_dir_def seg_dirs_def mask_bit_bit)
qed (simp add: seg_dirs_def)

lemma length_seg_dirs [simp]: "length (seg_dirs (i, A)) = length A"
  by (simp add: seg_dirs_def)

lemma seg_dirs_Nil_iff [simp]: "seg_dirs (i, A) = [] \<longleftrightarrow> A = []"
  by (simp add: seg_dirs_def)

lemma DecodedScionPath_hopDir_bits:
  assumes "valid_Decoded p" "length (dp_hfs p) \<le> 64"
  shows "travels (DecodedScionPath_hopDir p) 0 (dp_hfs p) = concat (map seg_dirs (path_segments p))"
  using assms(1)
proof (cases p rule: valid_Decoded_segments)
  case (one i A)
  then obtain a b c where s: "pm_segLen (dp_meta p) = [a, b, c]" "unat a = length A" by auto
  then have "travels (DecodedScionPath_hopDir p) 0 A = seg_dirs (i, A)"
    using one assms(2)
    by (intro travels_segment) (auto simp: DecodedScionPath_hopDir_def bit_segment_mask bit_or_iff Let_def)
  then show ?thesis using one by simp
next
  case (two i j A B)
  then obtain a b c where s: "pm_segLen (dp_meta p) = [a, b, c]" "unat a = length A" "unat b = length B" by auto
  let ?d = "DecodedScionPath_hopDir p"
  have "travels ?d 0 A = seg_dirs (i, A)" "travels ?d (0 + length A) B = seg_dirs (j, B)"
    using s two assms(2) by (auto intro!: travels_segment
       simp: DecodedScionPath_hopDir_def bit_segment_mask bit_or_iff Let_def)
  then show ?thesis using two by (simp add: travels_append)
next
  case (three i j k A B C)
  then obtain a b c where s: "pm_segLen (dp_meta p) = [a, b, c]" "unat a = length A" "unat b = length B"
      "unat c = length C" by auto
  let ?d = "DecodedScionPath_hopDir p"
  have "travels ?d 0 A = seg_dirs (i, A)" "travels ?d (0 + length A) B = seg_dirs (j, B)"
      "travels ?d (0 + length A + length B) C = seg_dirs (k, C)"
    using s three assms(2) by (auto intro!: travels_segment
       simp: DecodedScionPath_hopDir_def bit_segment_mask bit_or_iff Let_def)
  then show ?thesis using three by (simp add: travels_append)
qed

section \<open>The hops of the decoded path\<close>

text \<open>Dropping the elements at the positions in \<open>S\<close>.\<close>

definition keep :: "(nat \<Rightarrow> bool) \<Rightarrow> nat \<Rightarrow> 'a list \<Rightarrow> 'a list" where
  "keep S i xs = map snd (filter (\<lambda>q. \<not> S (fst q)) (enumerate i xs))"

lemma keep_Nil [simp]: "keep S i [] = []"
  by (simp add: keep_def)

lemma keep_append: "keep S i (xs @ ys) = keep S i xs @ keep S (i + length xs) ys"
  by (simp add: keep_def enumerate_append_eq)

lemma keep_Cons: "keep S i (x # xs) = (if S i then keep S (i + 1) xs else x # keep S (i + 1) xs)"
  by (simp add: keep_def)

lemma keep_all: "(\<And>k. i \<le> k \<Longrightarrow> k < i + length xs \<Longrightarrow> \<not> S k) \<Longrightarrow> keep S i xs = xs"
proof (induction xs arbitrary: i)
  case (Cons x xs)
  have "keep S (i + 1) xs = xs" by (rule Cons.IH) (use Cons.prems in auto)
  then show ?case using Cons.prems [of i] by (simp add: keep_Cons)
qed simp

lemma map_enumerate_travels:
  "map (\<lambda>(index, hf). if mask_bit d index then (hf_consIngress hf, hf_consEgress hf)
     else (hf_consEgress hf, hf_consIngress hf)) (enumerate i hs) = travels d i hs"
  by (induction hs arbitrary: i) (simp_all add: travel_def)

lemma DecodedScionPath_hops_keep:
  "DecodedScionPath_hops p = keep (bit (DecodedScionPath_segChange p)) 0
     (adj (travels (DecodedScionPath_hopDir p) 0 (dp_hfs p)))"
  unfolding DecodedScionPath_hops_def Let_def map_enumerate_travels
  by (simp add: keep_def adj_def mask_bit_bit)

lemma adj_append': "A \<noteq> [] \<Longrightarrow> B \<noteq> [] \<Longrightarrow> adj (A @ B) = adj A @ [(snd (last A), fst (hd B))] @ adj B"
  by (cases B) (simp_all add: adj_append)

lemma decoded_hops:
  assumes "valid_Decoded p" "length (dp_hfs p) \<le> 64"
  shows "DecodedScionPath_hops p = path_hops p"
proof (cases "peering p")
  case True
  then have "DecodedScionPath_segChange p = 0"
    by (auto simp: DecodedScionPath_segChange_def peering_def)
  then show ?thesis
    using True by (simp add: DecodedScionPath_hops_keep DecodedScionPath_hopDir_bits [OF assms] path_hops_def
        Let_def keep_all)
next
  case False
  let ?S = "bit (DecodedScionPath_segChange p)"
  have S: "DecodedScionPath_segChange p = push_bit (unat (pm_segLen (dp_meta p) ! 0) - 1) 1
        OR push_bit (unat (pm_segLen (dp_meta p) ! 0) + unat (pm_segLen (dp_meta p) ! 1) - 1) 1"
    using False valid_Decoded_facts(2) [OF assms(1)] by (simp add: DecodedScionPath_segChange_def peering_def)
  have bits: "?S k \<longleftrightarrow> k = unat (pm_segLen (dp_meta p) ! 0) - 1
        \<or> k = unat (pm_segLen (dp_meta p) ! 0) + unat (pm_segLen (dp_meta p) ! 1) - 1" if "k < 64" for k
    using that unfolding S by (auto simp: bit_or_iff bit_exp_iff)
  show ?thesis
    using assms(1)
  proof (cases p rule: valid_Decoded_segments)
    case (one i A)
    then obtain a b c where s: "pm_segLen (dp_meta p) = [a, b, c]" "unat a = length A" "unat b = 0" by auto
    have "keep ?S 0 (adj (seg_dirs (i, A))) = adj (seg_dirs (i, A))"
      by (rule keep_all) (use one s assms(2) bits in auto)
    then show ?thesis
      unfolding DecodedScionPath_hops_keep DecodedScionPath_hopDir_bits [OF assms]
      using one False by (simp add: path_hops_def)
  next
    case (two i j A B)
    then obtain a b c where s: "pm_segLen (dp_meta p) = [a, b, c]" "unat a = length A" "unat b = length B" by auto
    let ?A = "seg_dirs (i, A)" and ?B = "seg_dirs (j, B)"
    have l: "1 \<le> length A" "1 \<le> length B" "length A + length B \<le> 64"
      using two assms(2) by (simp_all add: Suc_le_eq)
    have "keep ?S 0 (adj ?A) = adj ?A" "keep ?S (length A) (adj ?B) = adj ?B"
      by (rule keep_all; use s l bits in auto)+
    moreover have "?S (length A - 1)" using bits [of "length A - 1"] s l by simp
    ultimately have "keep ?S 0 (adj (?A @ ?B)) = adj ?A @ adj ?B"
      using two l by (simp add: adj_append' keep_append keep_Cons)
    then show ?thesis
      unfolding DecodedScionPath_hops_keep DecodedScionPath_hopDir_bits [OF assms]
      using two False by (simp add: path_hops_def)
  next
    case (three i j k A B C)
    then obtain a b c where s: "pm_segLen (dp_meta p) = [a, b, c]" "unat a = length A" "unat b = length B" by auto
    let ?A = "seg_dirs (i, A)" and ?B = "seg_dirs (j, B)" and ?C = "seg_dirs (k, C)"
    have l: "1 \<le> length A" "1 \<le> length B" "1 \<le> length C" "length A + length B + length C \<le> 64"
      using three assms(2) by (simp_all add: Suc_le_eq)
    have "keep ?S 0 (adj ?A) = adj ?A" "keep ?S (length A) (adj ?B) = adj ?B"
        "keep ?S (length A + length B) (adj ?C) = adj ?C"
      by (rule keep_all; use s l bits in auto)+
    moreover have "?S (length A - 1)" "?S (length A + length B - 1)"
      using bits [of "length A - 1"] bits [of "length A + length B - 1"] s l by simp_all
    ultimately have "keep ?S 0 (adj (?A @ ?B @ ?C)) = adj ?A @ adj ?B @ adj ?C"
      using three l by (simp add: adj_append' keep_append keep_Cons)
    then show ?thesis
      unfolding DecodedScionPath_hops_keep DecodedScionPath_hopDir_bits [OF assms]
      using three False by (simp add: path_hops_def)
  qed
qed

section \<open>The hops of the reversed path\<close>

text \<open>All info fields agree on the peering flag, as they do on the paths SCION builds.\<close>

definition uniform_peering :: "DecodedScionPath \<Rightarrow> bool" where
  "uniform_peering p \<longleftrightarrow> (\<forall>i \<in> set (dp_ifs p). flag_get (if_flags i) InfoField_Peering = peering p)"

lemma flag_get_xor: "flag_get (f XOR InfoField_ConsDir) InfoField_Peering = flag_get f InfoField_Peering"
  "flag_get (f XOR InfoField_ConsDir) InfoField_ConsDir \<longleftrightarrow> \<not> flag_get f InfoField_ConsDir"
proof -
  have p: "flag_get g InfoField_Peering \<longleftrightarrow> bit g 1" for g
    using and_exp_eq_0_iff_not_bit [of g 1] by (simp add: flag_get_def InfoField_Peering_def)
  have d: "flag_get g InfoField_ConsDir \<longleftrightarrow> bit g 0" for g
    using and_exp_eq_0_iff_not_bit [of g 0] by (simp add: flag_get_def InfoField_ConsDir_def)
  have "bit (InfoField_ConsDir) 0" "\<not> bit InfoField_ConsDir 1"
    by (simp_all add: InfoField_ConsDir_def)
  then show "flag_get (f XOR InfoField_ConsDir) InfoField_Peering = flag_get f InfoField_Peering"
    "flag_get (f XOR InfoField_ConsDir) InfoField_ConsDir \<longleftrightarrow> \<not> flag_get f InfoField_ConsDir"
    unfolding p d by (simp_all add: bit_xor_iff del: bit_0)
qed

lemma seg_dirs_flip: "seg_dirs (flip_info i, rev hs) = rev (map prod.swap (seg_dirs (i, hs)))"
  by (simp add: seg_dirs_def rev_map seg_dir_def flip_info_def flag_get_xor)

lemma concat_rev_swap: "concat (rev (map (\<lambda>xs. rev (map prod.swap xs)) xss)) = rev (map prod.swap (concat xss))"
  by (induction xss) simp_all

lemma path_hops_reverse:
  assumes "valid_Decoded p" "uniform_peering p"
  shows "path_hops (decoded_reverse p) = rev (map prod.swap (path_hops p))"
proof -
  have ne: "dp_ifs p \<noteq> []" using valid_Decoded_facts(2) [OF assms(1)] .
  have "peering (decoded_reverse p) = flag_get (if_flags (last (dp_ifs p))) InfoField_Peering"
    using ne by (simp add: peering_def decoded_reverse_def flip_info_def flag_get_xor nth_map rev_nth last_conv_nth)
  also have "\<dots> = peering p" using assms(2) ne by (simp add: uniform_peering_def)
  finally have peer: "peering (decoded_reverse p) = peering p" .
  have "map seg_dirs (path_segments (decoded_reverse p)) =
      rev (map (\<lambda>xs. rev (map prod.swap xs)) (map seg_dirs (path_segments p)))"
    unfolding path_segments_reverse [OF assms(1)] by (simp add: rev_map seg_dirs_flip split_def)
  note segs = this
  show ?thesis
  proof (cases "peering p")
    case True
    then show ?thesis by (simp add: path_hops_def peer segs concat_rev_swap adj_rev Let_def del: map_map)
  next
    case False
    have "map adj (rev (map (\<lambda>xs. rev (map prod.swap xs)) xss)) =
        rev (map (\<lambda>xs. rev (map prod.swap xs)) (map adj xss))" for xss
      by (simp add: rev_map adj_rev [unfolded rev_map])
    then show ?thesis
      using False by (simp add: path_hops_def peer segs concat_rev_swap Let_def del: map_map)
  qed
qed

section \<open>The hops of the encoded path\<close>

lemma ser_bind_InrE:
  assumes "ser_bind m f st = (Inr c, st')"
  obtains a st1 where "m st = (Inr a, st1)" "f a st1 = (Inr c, st')"
  using assms by (auto simp: ser_bind_def split: prod.splits sum.splits)

lemma ser_return_Inr: "ser_return a st = (Inr c, st') \<longleftrightarrow> c = a \<and> st' = st"
  by (auto simp: ser_return_def)

lemma ser_list_Cons:
  assumes "ser_list f (x0 # xs0) st = (Inr xs, st')"
  obtains x st1 ys where "f x0 st = (Inr x, st1)" "ser_list f xs0 st1 = (Inr ys, st')" "xs = x # ys"
proof -
  obtain x st1 where x: "f x0 st = (Inr x, st1)"
      "ser_bind (ser_list f xs0) (\<lambda>xs. ser_return (x # xs)) st1 = (Inr xs, st')"
    using assms [unfolded ser_list.simps] by (rule ser_bind_InrE)
  obtain ys st2 where "ser_list f xs0 st1 = (Inr ys, st2)" "ser_return (x # ys) st2 = (Inr xs, st')"
    using x(2) by (rule ser_bind_InrE)
  then show thesis using that x(1) by (simp add: ser_return_Inr)
qed

fun info_chain :: "bit_buf \<Rightarrow> InfoField list \<Rightarrow> bit_buf \<Rightarrow> bool" where
  "info_chain b [] b' \<longleftrightarrow> b = b'"
| "info_chain b (i # is) b' \<longleftrightarrow>
     (\<exists>b1. (\<forall>i0. InfoField_serialize i0 (ReadStream b) = (Inr i, ReadStream b1)) \<and> info_chain b1 is b')"

lemma info_field_gets:
  assumes "wf_buf b" "bit_pos b mod 8 = 0" "InfoField_serialize i0 (ReadStream b) = (Inr i, st)"
  shows "\<exists>b'. st = ReadStream b' \<and> wf_buf b' \<and> bit_pos b' mod 8 = 0"
proof -
  obtain b' n where b': "st = ReadStream b'" "consumed b n b'" "n \<le> bits_room b"
      "length (take n (bits_ahead b)) = 64"
    using info_field.checks [of i0, unfolded getsB_def, simplified, THEN spec, of b] assms by auto
  then show ?thesis using assms(2) consumed_aligned [OF b'(2)] by (auto simp: consumed_def)
qed

lemma info_chain_of_list:
  assumes "ser_list InfoField_serialize is0 (ReadStream b) = (Inr is, st)" "wf_buf b" "bit_pos b mod 8 = 0"
  shows "\<exists>b'. st = ReadStream b' \<and> info_chain b is b' \<and> wf_buf b' \<and> bit_pos b' mod 8 = 0"
  using assms
proof (induction is0 arbitrary: b "is")
  case Nil
  then show ?case by (auto simp: ser_return_def)
next
  case (Cons i0 is0)
  obtain i st1 is1 where r: "InfoField_serialize i0 (ReadStream b) = (Inr i, st1)"
      "ser_list InfoField_serialize is0 st1 = (Inr is1, st)" "is = i # is1"
    using Cons.prems(1) by (rule ser_list_Cons)
  obtain b1 where b1: "st1 = ReadStream b1" "wf_buf b1" "bit_pos b1 mod 8 = 0"
    using info_field_gets [OF Cons.prems(2,3) r(1)] by metis
  have "\<forall>i1. InfoField_serialize i1 (ReadStream b) = (Inr i, ReadStream b1)"
    using r(1) b1(1) by (metis InfoField_read_any)
  then show ?case using Cons.IH [OF r(2) [unfolded b1(1)] b1(2,3)] r(3) by auto
qed

lemma hop_chain_of_list:
  assumes "ser_list HopField_serialize hs0 (ReadStream b) = (Inr hs, st)" "wf_buf b" "bit_pos b mod 8 = 0"
    and "\<forall>h \<in> set hs0. valid_HopField h"
  shows "\<exists>b'. st = ReadStream b' \<and> hop_chain b hs b' \<and> wf_buf b' \<and> bit_pos b' mod 8 = 0"
  using assms
proof (induction hs0 arbitrary: b hs)
  case Nil
  then show ?case by (auto simp: ser_return_def)
next
  case (Cons h0 hs0)
  obtain h st1 hs1 where r: "HopField_serialize h0 (ReadStream b) = (Inr h, st1)"
      "ser_list HopField_serialize hs0 st1 = (Inr hs1, st)" "hs = h # hs1"
    using Cons.prems(1) by (rule ser_list_Cons)
  have v: "valid_HopField h0" using Cons.prems(4) by simp
  obtain b1 where b1: "st1 = ReadStream b1" "consumed b 96 b1" "valid_HopField h"
    using hop_field_gets [OF Cons.prems(2,3) v r(1)] by metis
  then have wf: "wf_buf b1" "bit_pos b1 mod 8 = 0"
    using Cons.prems(3) consumed_aligned [OF b1(2)] by (auto simp: consumed_def)
  have "\<forall>h1. valid_HopField h1 \<longrightarrow> HopField_serialize h1 (ReadStream b) = (Inr h, ReadStream b1)"
    using r(1) b1(1) v by (metis HopField_read_any)
  moreover have "\<forall>h \<in> set hs0. valid_HopField h" using Cons.prems(4) by simp
  ultimately show ?case using Cons.IH [OF r(2) [unfolded b1(1)] wf] r(3) b1(3) by auto
qed

text \<open>The masks the loop over the info fields builds.\<close>

fun raw_masks :: "PathMeta \<Rightarrow> nat \<Rightarrow> nat \<Rightarrow> InfoField list \<Rightarrow> u64 \<times> u64 \<Rightarrow> u64 \<times> u64" where
  "raw_masks meta i sm [] d = d"
| "raw_masks meta i sm (info # is) d =
     (let len = unat (pm_segLen meta ! i)
      in raw_masks meta (i + 1) (sm + len) is
           (if flag_get (if_flags info) InfoField_ConsDir then fst d OR segment_mask len sm else fst d,
            if \<not> flag_get (if_flags info) InfoField_Peering \<or> i = 0 then snd d OR push_bit sm 1 else snd d))"

lemma RawHopIter_infos_chain:
  "info_chain (it_rs it) infos b' \<Longrightarrow>
   RawHopIter_infos [i..<i + length infos] meta info0 sm it =
     it\<lparr>it_rs := b', it_hopDir := fst (raw_masks meta i sm infos (it_hopDir it, it_segChange it)),
        it_segChange := snd (raw_masks meta i sm infos (it_hopDir it, it_segChange it))\<rparr>"
proof (induction infos arbitrary: i info0 sm it)
  case Nil
  then show ?case by simp
next
  case (Cons info infos)
  then obtain b1 where b1: "\<forall>i0. InfoField_serialize i0 (ReadStream (it_rs it)) = (Inr info, ReadStream b1)"
      "info_chain b1 infos b'" by auto
  have up: "[i..<i + length (info # infos)] = i # [i + 1..<(i + 1) + length infos]"
    by (subst upt_conv_Cons) simp_all
  show ?case
    unfolding up using b1 Cons.IH [of _ "i + 1" info]
    by (simp add: Let_def del: upt_Suc)
qed

lemma seg_change_bit: "bit (0 OR push_bit sm 1 :: u64) k \<longleftrightarrow> k = sm \<and> k < 64"
  by (auto simp: bit_exp_iff)

text \<open>What reading a path into a decoded path says about the reads.\<close>

lemma decoded_reads:
  assumes "DecodedScionPath_serialize p0 (ReadStream b) = (Inr p, st)" "\<forall>h \<in> set (dp_hfs p0). valid_HopField h"
    and "wf_buf b" "bit_pos b mod 8 = 0"
  shows "\<exists>b1 b2 b3. PathMeta_serialize PathMeta_default (ReadStream b) = (Inr (dp_meta p), ReadStream b1) \<and>
    info_chain b1 (dp_ifs p) b2 \<and> hop_chain b2 (dp_hfs p) b3 \<and> st = ReadStream b3 \<and> wf_buf b3 \<and> bit_pos b3 mod 8 = 0"
proof -
  let ?rd = "\<lambda>m. ser_list InfoField_serialize (resize (PathMeta_segmentCount m) InfoField_default (dp_ifs p0))"
  let ?rh = "\<lambda>m. ser_list HopField_serialize (resize (PathMeta_hopFieldCount m) HopField_default (dp_hfs p0))"
  note read = assms(1) [unfolded DecodedScionPath_serialize_def Let_def]
  obtain m st1 where r: "PathMeta_serialize (dp_meta p0) (ReadStream b) = (Inr m, st1)"
      and k1: "ser_bind (if_reading (?rd m)
         (if length (dp_ifs p0) < PathMeta_segmentCount m then ser_error ''undefined behavior''
          else ser_bind (ser_list InfoField_serialize (take (PathMeta_segmentCount m) (dp_ifs p0)))
                 (\<lambda>_. ser_return (dp_ifs p0))))
       (\<lambda>ifs. ser_bind (if_reading (?rh m)
         (if length (dp_hfs p0) < PathMeta_hopFieldCount m then ser_error ''undefined behavior''
          else ser_bind (ser_list HopField_serialize (take (PathMeta_hopFieldCount m) (dp_hfs p0)))
                 (\<lambda>_. ser_return (dp_hfs p0))))
       (\<lambda>hfs. ser_return (p0\<lparr>dp_meta := m, dp_ifs := ifs, dp_hfs := hfs\<rparr>))) st1 = (Inr p, st)"
    using read by (rule ser_bind_InrE)
  obtain b1 n where b1: "st1 = ReadStream b1" "consumed b n b1" "length (take n (bits_ahead b)) = 32" "n \<le> bits_room b"
    using path_meta.checks [of "dp_meta p0", unfolded getsB_def, simplified, THEN spec, of b] r assms(3,4) by auto
  then have wf1: "wf_buf b1" "bit_pos b1 mod 8 = 0"
    using assms(4) consumed_aligned [OF b1(2)] by (auto simp: consumed_def)
  obtain ifs st2 where i: "if_reading (?rd m)
         (if length (dp_ifs p0) < PathMeta_segmentCount m then ser_error ''undefined behavior''
          else ser_bind (ser_list InfoField_serialize (take (PathMeta_segmentCount m) (dp_ifs p0)))
                 (\<lambda>_. ser_return (dp_ifs p0))) st1 = (Inr ifs, st2)"
      and k2: "ser_bind (if_reading (?rh m)
         (if length (dp_hfs p0) < PathMeta_hopFieldCount m then ser_error ''undefined behavior''
          else ser_bind (ser_list HopField_serialize (take (PathMeta_hopFieldCount m) (dp_hfs p0)))
                 (\<lambda>_. ser_return (dp_hfs p0))))
       (\<lambda>hfs. ser_return (p0\<lparr>dp_meta := m, dp_ifs := ifs, dp_hfs := hfs\<rparr>)) st2 = (Inr p, st)"
    using k1 by (rule ser_bind_InrE)
  obtain hfs st3 where h: "if_reading (?rh m)
         (if length (dp_hfs p0) < PathMeta_hopFieldCount m then ser_error ''undefined behavior''
          else ser_bind (ser_list HopField_serialize (take (PathMeta_hopFieldCount m) (dp_hfs p0)))
                 (\<lambda>_. ser_return (dp_hfs p0))) st2 = (Inr hfs, st3)"
      and k3: "ser_return (p0\<lparr>dp_meta := m, dp_ifs := ifs, dp_hfs := hfs\<rparr>) st3 = (Inr p, st)"
    using k2 by (rule ser_bind_InrE)
  have p: "p = p0\<lparr>dp_meta := m, dp_ifs := ifs, dp_hfs := hfs\<rparr>" "st = st3"
    using k3 by (simp_all add: ser_return_Inr)
  have r2: "ser_list InfoField_serialize (resize (PathMeta_segmentCount m) InfoField_default (dp_ifs p0))
      (ReadStream b1) = (Inr ifs, st2)"
    using i by (simp add: if_reading_def b1(1))
  obtain b2 where b2: "st2 = ReadStream b2" "info_chain b1 ifs b2" "wf_buf b2" "bit_pos b2 mod 8 = 0"
    using info_chain_of_list [OF r2 wf1] by metis
  have r3: "ser_list HopField_serialize (resize (PathMeta_hopFieldCount m) HopField_default (dp_hfs p0))
      (ReadStream b2) = (Inr hfs, st)"
    using h by (simp add: if_reading_def b2(1) p(2))
  have "\<forall>h \<in> set (resize (PathMeta_hopFieldCount m) HopField_default (dp_hfs p0)). valid_HopField h"
    using assms(2) set_resize [of "PathMeta_hopFieldCount m" HopField_default "dp_hfs p0"] by auto
  then obtain b3 where b3: "st = ReadStream b3" "hop_chain b2 hfs b3" "wf_buf b3" "bit_pos b3 mod 8 = 0"
    using hop_chain_of_list [OF r3 b2(3,4)] by metis
  have "PathMeta_serialize PathMeta_default (ReadStream b) = (Inr m, ReadStream b1)"
    using r b1(1) by (metis PathMeta_read_any)
  then show ?thesis using b2 b3 p(1) by auto
qed

lemma raw_masks_hopDir:
  assumes "valid_Decoded p"
  shows "fst (raw_masks (dp_meta p) 0 0 (dp_ifs p) (0, 0)) = DecodedScionPath_hopDir p"
  using assms
  by (cases p rule: valid_Decoded_segments) (auto simp: DecodedScionPath_hopDir_def Let_def)

text \<open>Two hop fields are read at the start of each segment, with peering at the start of the path only.\<close>

lemma raw_masks_segChange:
  assumes "valid_Decoded p" "uniform_peering p" "k < 64"
  shows "bit (snd (raw_masks (dp_meta p) 0 0 (dp_ifs p) (0, 0))) k \<longleftrightarrow>
    k = 0 \<or> (\<not> peering p \<and> k \<in> set (map (PathMeta_segmentBegin (dp_meta p)) [1..<length (dp_ifs p)]))"
  using assms(1)
proof (cases p rule: valid_Decoded_segments)
  case (one i A)
  then show ?thesis by (simp add: Let_def bit_1_iff)
next
  case (two i j A B)
  then obtain a b c where s: "pm_segLen (dp_meta p) = [a, b, c]" "unat a = length A" by auto
  have "flag_get (if_flags j) InfoField_Peering = peering p" "flag_get (if_flags i) InfoField_Peering = peering p"
    using assms(2) two by (simp_all add: uniform_peering_def)
  moreover have "k \<in> set (map (PathMeta_segmentBegin (dp_meta p)) [1..<length (dp_ifs p)]) \<longleftrightarrow> k = length A"
    using s two by (auto simp: PathMeta_segmentBegin_def upt_rec)
  ultimately show ?thesis
    using two s assms(3) by (cases "peering p") (auto simp: Let_def bit_or_iff bit_exp_iff bit_1_iff)
next
  case (three i j l A B C)
  then obtain a b c where s: "pm_segLen (dp_meta p) = [a, b, c]" "unat a = length A" "unat b = length B" by auto
  have "flag_get (if_flags j) InfoField_Peering = peering p" "flag_get (if_flags i) InfoField_Peering = peering p"
    "flag_get (if_flags l) InfoField_Peering = peering p"
    using assms(2) three by (simp_all add: uniform_peering_def)
  moreover have "k \<in> set (map (PathMeta_segmentBegin (dp_meta p)) [1..<length (dp_ifs p)]) \<longleftrightarrow>
      k = length A \<or> k = length A + length B"
    using s three by (auto simp: PathMeta_segmentBegin_def upt_rec)
  ultimately show ?thesis
    using three s assms(3) by (cases "peering p") (auto simp: Let_def bit_or_iff bit_exp_iff bit_1_iff)
qed

text \<open>
  The walk over the bytes gives the hops of the path exactly if every segment that another one follows, without peering, has
  at least two hop fields.
\<close>

definition segments_joined :: "DecodedScionPath \<Rightarrow> bool" where
  "segments_joined p \<longleftrightarrow> peering p \<or> (\<forall>seg \<in> set (butlast (path_segments p)). 2 \<le> length (snd seg))"

lemma raw_emit_path:
  assumes v: "valid_Decoded p" "uniform_peering p" "length (dp_hfs p) \<le> 64"
    and S: "\<And>k. k < 64 \<Longrightarrow> S k \<longleftrightarrow> k = 0 \<or> (\<not> peering p \<and>
      k \<in> set (map (PathMeta_segmentBegin (dp_meta p)) [1..<length (dp_ifs p)]))"
  shows "raw_emit S 0 c (concat (map seg_dirs (path_segments p))) = path_hops p \<longleftrightarrow> segments_joined p"
proof (cases "peering p")
  case True
  let ?D = "concat (map seg_dirs (path_segments p))"
  have l: "length ?D = length (dp_hfs p)"
    using v(1) by (cases p rule: valid_Decoded_segments) simp_all
  have S: "S k \<longleftrightarrow> k = 0" if "k < 64" for k using that S True by simp
  have "raw_emit S 0 c ?D = adj ?D" by (rule raw_emit_last) (use l v(3) S in auto)
  then show ?thesis using True by (simp add: path_hops_def segments_joined_def)
next
  case False
  show ?thesis using v(1)
  proof (cases p rule: valid_Decoded_segments)
    case (one i A)
    have S: "S k \<longleftrightarrow> k = 0" if "k < 64" for k using that S one by simp
    have "raw_emit S 0 c (seg_dirs (i, A)) = adj (seg_dirs (i, A))"
      by (rule raw_emit_last) (use one v(3) S in auto)
    then show ?thesis using one False by (simp add: path_hops_def segments_joined_def)
  next
    case (two i j A B)
    then obtain a b c' where s: "pm_segLen (dp_meta p) = [a, b, c']" "unat a = length A" by auto
    let ?A = "seg_dirs (i, A)" and ?B = "seg_dirs (j, B)"
    have l: "length A + length B \<le> 64" "A \<noteq> []" "B \<noteq> []" using two v(3) by simp_all
    then have "length A < 64" by (cases B) auto
    note l = l this
    have S: "S k \<longleftrightarrow> k = 0 \<or> k = length A" if "k < 64" for k
      using S [OF that] two s False by (auto simp: PathMeta_segmentBegin_def upt_rec)
    have hops: "path_hops p = adj ?A @ adj ?B" using two False by (simp add: path_hops_def)
    have "raw_emit S 0 c (?A @ ?B) = adj ?A @ adj ?B \<longleftrightarrow> 2 \<le> length A"
    proof (cases "2 \<le> length A")
      case True
      have "raw_emit S 0 c (?A @ ?B) = adj ?A @ raw_emit S (0 + length ?A) (last ?A) ?B"
        by (rule raw_emit_segment) (use l True S in auto)
      also have "raw_emit S (0 + length ?A) (last ?A) ?B = adj ?B"
        by (rule raw_emit_last) (use l S in auto)
      finally show ?thesis using True by simp
    next
      case F: False
      then obtain h where A: "A = [h]" using l(2) by (cases A) (auto simp: Suc_le_eq)
      obtain x where x: "?A = [x]" by (simp add: A seg_dirs_def)
      have "raw_emit S 0 c (x # ?B @ []) = (snd x, fst (hd ?B)) # adj ?B @ raw_emit S (0 + 1 + length ?B) (last ?B) []"
        by (rule raw_emit_short) (use l S A in auto)
      then have "raw_emit S 0 c (?A @ ?B) = (snd x, fst (hd ?B)) # adj ?B" by (simp add: x)
      then show ?thesis using F by (simp add: x)
    qed
    then show ?thesis using two False by (simp add: hops segments_joined_def)
  next
    case (three i j k A B C)
    then obtain a b c' where s: "pm_segLen (dp_meta p) = [a, b, c']" "unat a = length A" "unat b = length B" by auto
    let ?A = "seg_dirs (i, A)" and ?B = "seg_dirs (j, B)" and ?C = "seg_dirs (k, C)"
    have l: "length A + length B + length C \<le> 64" "A \<noteq> []" "B \<noteq> []" "C \<noteq> []" using three v(3) by simp_all
    then have "length A + length B < 64" by (cases C) auto
    then have "length A < 64" by simp
    note l = l \<open>length A + length B < 64\<close> this
    have S: "S k \<longleftrightarrow> k = 0 \<or> k = length A \<or> k = length A + length B" if "k < 64" for k
      using S [OF that] three s False by (auto simp: PathMeta_segmentBegin_def upt_rec)
    have hops: "path_hops p = adj ?A @ adj ?B @ adj ?C" using three False by (simp add: path_hops_def)
    have C: "raw_emit S (length A + length B) c ?C = adj ?C" for c
      by (rule raw_emit_last) (use l S in auto)
    have BC: "raw_emit S (length A) c (?B @ ?C) = adj ?B @ adj ?C \<longleftrightarrow> 2 \<le> length B" for c
    proof (cases "2 \<le> length B")
      case True
      have "raw_emit S (length A) c (?B @ ?C) = adj ?B @ raw_emit S (length A + length ?B) (last ?B) ?C"
        by (rule raw_emit_segment) (use l True S in auto)
      then show ?thesis using True C by simp
    next
      case F: False
      then obtain h where B: "B = [h]" using l(3) by (cases B) (auto simp: Suc_le_eq)
      obtain x where x: "?B = [x]" by (simp add: B seg_dirs_def)
      have "raw_emit S (length A) c (x # ?C @ []) =
          (snd x, fst (hd ?C)) # adj ?C @ raw_emit S (length A + 1 + length ?C) (last ?C) []"
        by (rule raw_emit_short) (use l S B in auto)
      then have "raw_emit S (length A) c (?B @ ?C) = (snd x, fst (hd ?C)) # adj ?C" by (simp add: x)
      then show ?thesis using F by (simp add: x)
    qed
    have "raw_emit S 0 c (?A @ ?B @ ?C) = adj ?A @ adj ?B @ adj ?C \<longleftrightarrow> 2 \<le> length A \<and> 2 \<le> length B"
    proof (cases "2 \<le> length A")
      case True
      have "raw_emit S 0 c (?A @ ?B @ ?C) = adj ?A @ raw_emit S (0 + length ?A) (last ?A) (?B @ ?C)"
        by (rule raw_emit_segment) (use l True S in auto)
      then show ?thesis using True BC [of "last ?A"] by simp
    next
      case F: False
      then obtain h where A: "A = [h]" using l(2) by (cases A) (auto simp: Suc_le_eq)
      obtain x where x: "?A = [x]" by (simp add: A seg_dirs_def)
      have "raw_emit S 0 c (x # ?B @ ?C) = (snd x, fst (hd ?B)) # adj ?B @ raw_emit S (0 + 1 + length ?B) (last ?B) ?C"
        by (rule raw_emit_short) (use l S A in auto)
      then have "raw_emit S 0 c (?A @ ?B @ ?C) = (snd x, fst (hd ?B)) # adj ?B @ adj ?C"
        unfolding x using C [of "last ?B"] A by simp
      then have "length (raw_emit S 0 c (?A @ ?B @ ?C)) \<noteq> length (adj ?A @ adj ?B @ adj ?C)" by (simp add: x)
      then show ?thesis using F by auto
    qed
    then show ?thesis using three False by (simp add: hops segments_joined_def)
  qed
qed

text \<open>Reading the path from its bytes, to the last byte.\<close>

definition decodes :: "DecodedScionPath \<Rightarrow> byte list \<Rightarrow> DecodedScionPath \<Rightarrow> bool" where
  "decodes p0 path p \<longleftrightarrow> (\<forall>h \<in> set (dp_hfs p0). valid_HopField h) \<and>
     (\<exists>b. DecodedScionPath_serialize p0 (ReadStream (stream_init path)) = (Inr p, ReadStream b)
        \<and> byteIter b = length path)"

lemma decodes_valid: "decodes p0 path p \<Longrightarrow> valid_Decoded p \<and> length path = DecodedScionPath_size p"
proof -
  assume "decodes p0 path p"
  then obtain b where b: "\<forall>h \<in> set (dp_hfs p0). valid_HopField h" "byteIter b = length path"
      "DecodedScionPath_serialize p0 (ReadStream (stream_init path)) = (Inr p, ReadStream b)"
    by (auto simp: decodes_def)
  have "blank_path_between (dp_source p0) (dp_destination p0) p0" using b(1) by simp
  from decoded_path.read_valid [OF this b(3)]
  have "valid_Decoded p" "getPos b = (length (DecodedScionPath_bits p) div 8, 0)" by auto
  then show ?thesis using b(2) by (auto simp: DecodedScionPath_bits_length getPos_def)
qed

lemma no_hop_end:
  assumes "wf_buf b" "bit_pos b mod 8 = 0" "bits_room b < 96"
  shows "no_hop b"
  unfolding no_hop_def
proof (intro allI impI)
  fix h0
  assume v: "valid_HopField h0"
  show "\<exists>e st. HopField_serialize h0 (ReadStream b) = (Inl e, st)"
  proof (cases "HopField_serialize h0 (ReadStream b)")
    case (Pair r st)
    then show ?thesis
      using hop_field_gets [OF assms(1,2) v, of _ st] assms(3) by (cases r) auto
  qed
qed

lemma raw_hops_iff:
  assumes "decodes p0 path p" "uniform_peering p" "length (dp_hfs p) \<le> 64"
  shows "(RawHopRange_hops PathType_SCION path = Some (path_hops p)) \<longleftrightarrow> segments_joined p"
proof -
  have v: "valid_Decoded p" using decodes_valid [OF assms(1)] by simp
  obtain b where b: "\<forall>h \<in> set (dp_hfs p0). valid_HopField h" "byteIter b = length path"
      "DecodedScionPath_serialize p0 (ReadStream (stream_init path)) = (Inr p, ReadStream b)"
    using assms(1) by (auto simp: decodes_def)
  obtain b1 b2 where r: "PathMeta_serialize PathMeta_default (ReadStream (stream_init path)) = (Inr (dp_meta p), ReadStream b1)"
      "info_chain b1 (dp_ifs p) b2" "hop_chain b2 (dp_hfs p) b" "wf_buf b" "bit_pos b mod 8 = 0"
    using decoded_reads [OF b(3,1)] by (auto simp del: hop_chain.simps info_chain.simps)
  have g: "getsB 0 (DecodedScionPath_serialize p0) (\<lambda>v bs. True)"
    using DecodedScionPath_checks [of p0 "dp_source p0" "dp_destination p0"] b(1) by (auto intro: getsB_mono)
  have "bufdata (stream_init path) = path" by (simp add: stream_init_def)
  then have data: "bufdata b = path"
    using g [unfolded getsB_def, THEN spec [of _ "stream_init path"], THEN spec [of _ p], THEN spec [of _ "ReadStream b"]]
      b(3) by (auto simp: consumed_def)
  have "bits_room b = 0" using b(2) r(4,5) data by (simp add: bits_room_def bit_pos_def)
  then have last: "no_hop b" using no_hop_end [OF r(4,5)] by simp
  define it where "it = \<lparr>it_rs = b1, it_stop = False, it_prevHop = (0, 0), it_curHop = (0, 0),
                it_index = 0, it_hopDir = 0, it_segChange = 0\<rparr>"
  define S where "S = snd (raw_masks (dp_meta p) 0 0 (dp_ifs p) (0, 0))"
  define it' where "it' = it\<lparr>it_rs := b2, it_hopDir := DecodedScionPath_hopDir p, it_segChange := S\<rparr>"
  have n: "PathMeta_segmentCount (dp_meta p) = length (dp_ifs p)"
    using v by (simp add: valid_Decoded_def)
  have "RawHopIter_infos [0..<0 + length (dp_ifs p)] (dp_meta p) InfoField_default 0 it = it'"
    by (subst RawHopIter_infos_chain [of it "dp_ifs p" b2])
      (use r(2) raw_masks_hopDir [OF v] in \<open>simp_all add: it_def it'_def S_def\<close>)
  then have make: "RawHopRange_begin PathType_SCION path = RawHopIter_next it'"
    using r(1) by (simp add: RawHopRange_begin_def RawHopIter_make_def Let_def n it_def it'_def)
  have "RawHopIter_collect (RawHopIter_next it') = Some (raw_emit (mask_bit (it_segChange it'))
    (unat (it_index it')) (it_curHop it') (travels (it_hopDir it') (unat (it_index it')) (dp_hfs p)))"
    by (rule RawHopIter_collect_emit [OF _ last]) (use r(3) assms(3) in \<open>simp_all add: it'_def it_def\<close>)
  also have "\<dots> = Some (raw_emit (bit S) 0 (0, 0) (concat (map seg_dirs (path_segments p))))"
    using DecodedScionPath_hopDir_bits [OF v assms(3)] by (simp add: it'_def it_def mask_bit_bit [abs_def])
  finally have "RawHopRange_hops PathType_SCION path =
      Some (raw_emit (bit S) 0 (0, 0) (concat (map seg_dirs (path_segments p))))"
    by (simp add: RawHopRange_hops_def make)
  moreover have "raw_emit (bit S) 0 (0, 0) (concat (map seg_dirs (path_segments p))) = path_hops p \<longleftrightarrow> segments_joined p"
    by (rule raw_emit_path [OF v assms(2,3)]) (simp_all add: S_def raw_masks_segChange [OF v assms(2)])
  ultimately show ?thesis by simp
qed

lemma raw_hops:
  assumes "decodes p0 path p" "uniform_peering p" "segments_joined p" "length (dp_hfs p) \<le> 64"
  shows "RawHopRange_hops PathType_SCION path = Some (path_hops p)"
  using raw_hops_iff [OF assms(1,2,4)] assms(3) by simp

section \<open>Expiry\<close>

definition hop_expiry :: "InfoField \<Rightarrow> HopField \<Rightarrow> Expiry" where
  "hop_expiry info h = Expiry_seconds (if_timestamp info + of_nat (HopField_relativeExpiry h))"

lemma expiry_infos_chain:
  "info_chain b infos b' \<Longrightarrow> expiry_infos (length infos) b = (Some infos, b')"
proof (induction infos arbitrary: b)
  case (Cons i infos)
  then obtain b1 where "\<forall>i0. InfoField_serialize i0 (ReadStream b) = (Inr i, ReadStream b1)"
      "info_chain b1 infos b'" by auto
  then show ?case using Cons.IH [of b1] by simp
qed simp

fun hop_expiries :: "(nat \<Rightarrow> InfoField) \<Rightarrow> nat \<Rightarrow> HopField list \<Rightarrow> Expiry list" where
  "hop_expiries info i [] = []"
| "hop_expiries info i (h # hs) = hop_expiry (info i) h # hop_expiries info (i + 1) hs"

definition info_at :: "PathMeta \<Rightarrow> InfoField list \<Rightarrow> nat \<Rightarrow> InfoField" where
  "info_at meta ifs i = (let s0 = unat (pm_segLen meta ! 0); s1 = unat (pm_segLen meta ! 1)
     in if i < s0 then ifs ! 0 else if i < s0 + s1 then ifs ! 1 else ifs ! 2)"

lemma expiry_hops_chain:
  "hop_chain b hs b' \<Longrightarrow> valid_HopField h0 \<Longrightarrow>
   expiry_hops meta ifs [i..<i + length hs] h0 b e = foldl min e (hop_expiries (info_at meta ifs) i hs)"
proof (induction hs arbitrary: b h0 i e)
  case (Cons h hs)
  then obtain b1 where r: "valid_HopField h" "hop_chain b1 hs b'"
      "\<forall>h0. valid_HopField h0 \<longrightarrow> HopField_serialize h0 (ReadStream b) = (Inr h, ReadStream b1)" by auto
  have up: "[i..<i + length (h # hs)] = i # [i + 1..<(i + 1) + length hs]"
    by (subst upt_conv_Cons) simp_all
  show ?case
    unfolding up using r Cons.prems(2) Cons.IH [OF r(2,1), of "i + 1"]
    by (simp add: Let_def hop_expiry_def info_at_def del: upt_Suc)
qed simp

lemma hop_expiries_append:
  "hop_expiries info i (A @ B) = hop_expiries info i A @ hop_expiries info (i + length A) B"
  by (induction A arbitrary: i) simp_all

lemma hop_expiries_segment:
  "(\<And>k. i \<le> k \<Longrightarrow> k < i + length A \<Longrightarrow> info k = f) \<Longrightarrow> hop_expiries info i A = map (hop_expiry f) A"
proof (induction A arbitrary: i)
  case (Cons h A)
  have "hop_expiries info (i + 1) A = map (hop_expiry f) A" by (rule Cons.IH) (use Cons.prems in auto)
  then show ?case using Cons.prems [of i] by simp
qed simp

lemma hop_expiries_path:
  assumes "valid_Decoded p"
  shows "hop_expiries (info_at (dp_meta p) (dp_ifs p)) 0 (dp_hfs p) =
    concat (map (\<lambda>(info, hs). map (hop_expiry info) hs) (path_segments p))"
  using assms
proof (cases p rule: valid_Decoded_segments)
  case (one i A)
  then obtain a b c where "pm_segLen (dp_meta p) = [a, b, c]" "unat a = length A" by auto
  then show ?thesis using one by (simp add: hop_expiries_segment [where f = i] info_at_def)
next
  case (two i j A B)
  then obtain a b c where s: "pm_segLen (dp_meta p) = [a, b, c]" "unat a = length A" "unat b = length B" by auto
  let ?I = "info_at (dp_meta p) (dp_ifs p)"
  have "hop_expiries ?I 0 A = map (hop_expiry i) A" "hop_expiries ?I (length A) B = map (hop_expiry j) B"
    by (rule hop_expiries_segment; use s two in \<open>simp add: info_at_def\<close>)+
  then show ?thesis using two by (simp add: hop_expiries_append)
next
  case (three i j k A B C)
  then obtain a b c where s: "pm_segLen (dp_meta p) = [a, b, c]" "unat a = length A" "unat b = length B" by auto
  let ?I = "info_at (dp_meta p) (dp_ifs p)"
  have "hop_expiries ?I 0 A = map (hop_expiry i) A" "hop_expiries ?I (length A) B = map (hop_expiry j) B"
    "hop_expiries ?I (length A + length B) C = map (hop_expiry k) C"
    by (rule hop_expiries_segment; use s three in \<open>simp add: info_at_def\<close>)+
  then show ?thesis using three by (simp add: hop_expiries_append)
qed

lemma foldl_min_Min: "foldl min (e :: 'a::linorder) xs = Min (insert e (set xs))"
proof (induction xs arbitrary: e)
  case (Cons x xs)
  then show ?case by (cases "xs = []") (simp_all add: min.assoc)
qed simp

lemma expiry_of_path:
  assumes "rp_type rp = PathType_SCION" "\<forall>h \<in> set (dp_hfs p0). valid_HopField h"
    and "DecodedScionPath_serialize p0 (ReadStream (stream_init (rp_path rp))) = (Inr p, st)"
  shows "RawPath_expiry rp = Min (insert Expiry_max
    (\<Union>(info, hs) \<in> set (path_segments p). hop_expiry info ` set hs))"
proof -
  have "blank_path_between (dp_source p0) (dp_destination p0) p0" using assms(2) by simp
  then have v: "valid_Decoded p" using decoded_path.read_valid [OF _ assms(3)] by blast
  obtain b1 b2 b3 where r: "PathMeta_serialize PathMeta_default (ReadStream (stream_init (rp_path rp))) =
      (Inr (dp_meta p), ReadStream b1)" "info_chain b1 (dp_ifs p) b2" "hop_chain b2 (dp_hfs p) b3"
    using decoded_reads [OF assms(3,2)] by (auto simp del: hop_chain.simps info_chain.simps)
  have n: "PathMeta_segmentCount (dp_meta p) = length (dp_ifs p)"
      "PathMeta_hopFieldCount (dp_meta p) = length (dp_hfs p)"
    using v by (simp_all add: valid_Decoded_def)
  have "RawPath_expiry rp = foldl min Expiry_max (hop_expiries (info_at (dp_meta p) (dp_ifs p)) 0 (dp_hfs p))"
    using assms(1) r(1) expiry_infos_chain [OF r(2)] expiry_hops_chain [OF r(3), of HopField_default _ _ 0]
    by (simp add: RawPath_expiry_def n)
  then show ?thesis
    unfolding hop_expiries_path [OF v] foldl_min_Min by (simp add: split_def)
qed

section \<open>The encoded path as an object\<close>

lemma RawPath_encode_valid:
  assumes "valid_Decoded p" "DecodedScionPath_size p \<le> RawPath_MAX_SIZE" "length (rp_path rp) = RawPath_MAX_SIZE"
  shows "\<exists>rp'. RawPath_encode rp p = (True, rp') \<and> bits_of (RawPath_encoded rp') = DecodedScionPath_bits p \<and>
    length (rp_path rp') = RawPath_MAX_SIZE \<and> rp_size rp' = DecodedScionPath_size p \<and>
    rp_type rp' = PathType_SCION \<and> rp_digest rp' = None \<and> rp_source rp' = dp_source p \<and>
    rp_destination rp' = dp_destination p"
proof -
  have len: "length (DecodedScionPath_bits p) = 8 * DecodedScionPath_size p"
    by (rule DecodedScionPath_bits_length [OF assms(1)])
  have v: "valid_path_between (dp_source p) (dp_destination p) p" using assms(1) by simp
  have "length (DecodedScionPath_bits p) \<le> 8 * length (rp_path rp)"
    using len assms(2,3) by simp
  from decoded_path.write_buffer [OF v this]
  obtain b where b: "DecodedScionPath_serialize p (WriteStream (stream_init (rp_path rp))) = (Inr p, WriteStream b)"
      "getPos b = (DecodedScionPath_size p, 0)" "length (bufdata b) = length (rp_path rp)"
      "bits_of (take (DecodedScionPath_size p) (bufdata b)) = DecodedScionPath_bits p"
    by (auto simp: len)
  then show ?thesis
    using assms(2,3) by (simp add: RawPath_encode_def Let_def RawPath_encoded_def)
qed

lemma decodes_encoded:
  assumes "valid_Decoded p" "bits_of path = DecodedScionPath_bits p"
  shows "decodes p path p"
proof -
  have v: "valid_path_between (dp_source p) (dp_destination p) p" "blank_path_between (dp_source p) (dp_destination p) p"
    using assms(1) by (simp_all add: valid_Decoded_def)
  have "bits_of path = DecodedScionPath_bits p @ []" using assms(2) by simp
  from decoded_path.read_bytes [OF v this]
  obtain b where b: "DecodedScionPath_serialize p (ReadStream (stream_init path)) = (Inr p, ReadStream b)"
      "getPos b = (length (DecodedScionPath_bits p) div 8, 0)" by blast
  have "length (DecodedScionPath_bits p) = 8 * length path"
    using arg_cong [OF assms(2), of length] by simp
  then have "byteIter b = length path" using b(2) by (simp add: getPos_def)
  then show ?thesis using b(1) v(2) by (auto simp: decodes_def)
qed

text \<open>The remembered digest is the digest of the current hops.\<close>

definition RawPath_inv :: "u32 \<Rightarrow> RawPath \<Rightarrow> bool" where
  "RawPath_inv seed rp \<longleftrightarrow> length (rp_path rp) = RawPath_MAX_SIZE \<and> rp_size rp \<le> RawPath_MAX_SIZE \<and>
     (\<forall>d hops. rp_digest rp = Some d \<longrightarrow> RawPath_hops rp = Some hops \<longrightarrow>
        d = computeDigest seed (rp_source rp) (take 64 hops))"

lemma RawPath_inv_default: "RawPath_inv seed RawPath_default"
  by (simp add: RawPath_inv_def RawPath_default_def)

lemma RawPath_inv_assign:
  "RawPath_inv seed rp \<Longrightarrow> RawPath_assign rp src dst type data = Inr rp' \<Longrightarrow> RawPath_inv seed rp'"
  by (auto simp: RawPath_inv_def RawPath_assign_def split: if_splits)

lemma RawPath_inv_encode:
  "RawPath_inv seed rp \<Longrightarrow> valid_Decoded p \<Longrightarrow> DecodedScionPath_size p \<le> RawPath_MAX_SIZE \<Longrightarrow>
   RawPath_inv seed (snd (RawPath_encode rp p))"
  using RawPath_encode_valid [of p rp] by (auto simp: RawPath_inv_def)

lemma RawPath_inv_digest:
  assumes "RawPath_inv seed rp"
  shows "\<exists>d rp'. RawPath_digest seed rp = Some (d, rp') \<and> RawPath_inv seed rp' \<and>
    (\<exists>hops. RawPath_hops rp = Some hops \<and> d = computeDigest seed (rp_source rp) (take 64 hops))"
proof -
  obtain hops where h: "RawPath_hops rp = Some hops" using hops_end by (auto simp: RawPath_hops_def)
  show ?thesis
  proof (cases "rp_digest rp")
    case None
    have "RawPath_hops (rp\<lparr>rp_digest := d\<rparr>) = Some hops" for d
      using h by (simp add: RawPath_hops_def RawPath_encoded_def)
    then show ?thesis using None h assms by (auto simp: RawPath_digest_def RawPath_inv_def Let_def)
  next
    case (Some d)
    then show ?thesis using h assms by (auto simp: RawPath_digest_def RawPath_inv_def)
  qed
qed

lemma length_swap_blocks:
  "a + n \<le> length path \<Longrightarrow> b + n \<le> length path \<Longrightarrow> length (swap_blocks n path a b) = length path"
  by (simp add: swap_blocks_def Let_def)

lemma guarded_pair:
  "(if c1 then (Ok, p) else if c2 then (e2, p) else if c3 then (e3, p) else if c4 then (e4, p)
    else if c5 then (e5, p) else if c6 then (e6, p) else r) = (err, p') \<Longrightarrow> fst r = Ok \<Longrightarrow> err \<noteq> Ok \<Longrightarrow> p' = p"
  by (auto split: if_splits)

lemma reverse_raw_length:
  assumes "reversePathInPlace type path = (err, path')"
  shows "length path' = length path" and "err \<noteq> Ok \<Longrightarrow> path' = path"
proof -
  show e: "path' = path" if "err \<noteq> Ok"
    by (rule guarded_pair [OF assms [unfolded reversePathInPlace_def Let_def] _ that])
      (simp only: split_def fst_conv)
  show "length path' = length path"
  proof (cases "err = Ok \<and> type \<noteq> PathType_Empty")
    case True
    then have t: "type = PathType_SCION" using assms by (auto simp: reversePathInPlace_def split: if_splits)
    obtain ci ch res segs where m: "raw_meta path = (ci, ch, res, segs)" by (cases "raw_meta path") auto
    have r: "reversePathInPlace PathType_SCION path = (Ok, path')" using assms True t by simp
    obtain "is" hs where d: "path = raw_path ci ch res segs is hs" "raw_parts ci ch res segs is hs"
        "0 < seg_count segs" "2 \<le> hop_count segs" "hop_count segs \<le> 64"
      using reverse_accepts [OF r m] by blast
    have p: "path' = raw_path (of_nat (seg_count segs) - ci - 1) (of_nat (hop_count segs) - ch - 1) res
       (swap_segs (seg_count segs) segs) (map flip_dir (rev is)) (rev hs)"
      using reverse_raw_path [OF d(2-5)] r d(1) by simp
    have "length (concat (map flip_dir (rev is))) = length (concat is)"
      "length (concat (rev hs)) = length (concat hs)"
      using d(2) length_blocks [of "is" 8] length_blocks [of "map flip_dir (rev is)" 8]
        length_blocks [of hs 12] length_blocks [of "rev hs" 12] by (auto simp: raw_parts_def)
    then show ?thesis by (simp add: p d(1) raw_path_def split: prod.splits)
  next
    case False
    then show ?thesis using e assms by (cases "err = Ok") (auto simp: reversePathInPlace_def)
  qed
qed

lemma RawPath_reverse_error:
  assumes "RawPath_reverseInPlace rp = (err, rp')" "err \<noteq> Ok" "rp_size rp \<le> length (rp_path rp)"
  shows "rp' = rp"
proof -
  obtain e path where r: "reversePathInPlace (rp_type rp) (RawPath_encoded rp) = (e, path)" by fastforce
  then have "e \<noteq> Ok" using assms by (auto simp: RawPath_reverseInPlace_def Let_def split: if_splits)
  then have "path = RawPath_encoded rp" using reverse_raw_length(2) [OF r] by simp
  then show ?thesis
    using assms r by (auto simp: RawPath_reverseInPlace_def RawPath_encoded_def overwrite_def Let_def split: if_splits)
qed

lemma RawPath_inv_reverse:
  assumes "RawPath_inv seed rp"
  shows "RawPath_inv seed (snd (RawPath_reverseInPlace rp))"
proof (cases "RawPath_reverseInPlace rp")
  case (Pair err rp')
  show ?thesis
  proof (cases "err = Ok")
    case True
    obtain e path where r: "reversePathInPlace (rp_type rp) (RawPath_encoded rp) = (e, path)" by fastforce
    have "length path = rp_size rp"
      using reverse_raw_length(1) [OF r] assms by (simp add: RawPath_encoded_def RawPath_inv_def)
    then show ?thesis
      using Pair True r assms by (auto simp: RawPath_reverseInPlace_def RawPath_inv_def Let_def split: if_splits)
  next
    case False
    then have "rp' = rp" using RawPath_reverse_error [OF Pair] assms by (simp add: RawPath_inv_def)
    then show ?thesis using Pair assms by simp
  qed
qed

end
