(* ===== verification/PathProperties.thy ===== *)
theory PathProperties
  imports RawPathSpec
begin

text \<open>
  Properties of SCION paths: reversal on bytes and on decoded paths, the hops of encoded and decoded
  paths, expiry, and the cached digest. The witnesses use a path of two segments with two hop fields each.
\<close>

definition example_hop :: "u16 \<Rightarrow> u16 \<Rightarrow> HopField" where
  "example_hop i e = \<lparr>hf_flags = 0, hf_expTime = 63, hf_consIngress = i, hf_consEgress = e, hf_mac = [1, 2, 3, 4, 5, 6]\<rparr>"

definition example_path :: DecodedScionPath where
  "example_path = \<lparr>dp_source = 1, dp_destination = 2,
     dp_meta = \<lparr>pm_currInf = 0, pm_currHf = 1, pm_segLen = [2, 2, 0]\<rparr>,
     dp_ifs = [\<lparr>if_flags = 0, if_segid = 7, if_timestamp = 1000\<rparr>, \<lparr>if_flags = 1, if_segid = 8, if_timestamp = 2000\<rparr>],
     dp_hfs = [example_hop 1 0, example_hop 0 2, example_hop 0 3, example_hop 4 0]\<rparr>"

lemma fits_6_2: "fits 6 (2 :: byte)" "fits 6 (1 :: byte)"
  using fits_of_nat [of 2 6, where 'a = 8] fits_of_nat [of 1 6, where 'a = 8] by simp_all

lemma example_path_valid: "valid_Decoded example_path"
  by (simp add: valid_Decoded_def example_path_def valid_PathMeta_def PathMeta_segmentCount_def
      PathMeta_hopFieldCount_def valid_HopField_def example_hop_def fits_6_2)

lemma example_path_size: "length (dp_hfs example_path) = 4" "DecodedScionPath_size example_path = 68"
  by (simp_all add: example_path_def DecodedScionPath_size_def)

lemma example_path_bytes: "\<exists>path. bits_of path = DecodedScionPath_bits example_path"
  using bits_of_surj [of "DecodedScionPath_bits example_path"] DecodedScionPath_bits_length [OF example_path_valid]
  by simp

lemma example_path_segments:
  "path_segments example_path =
     [(dp_ifs example_path ! 0, [example_hop 1 0, example_hop 0 2]),
      (dp_ifs example_path ! 1, [example_hop 0 3, example_hop 4 0])]"
  by (simp add: path_segments_def example_path_def PathMeta_segmentBegin_def upt_rec)

lemma example_path_uniform: "uniform_peering example_path" "segments_joined example_path" "\<not> peering example_path"
  by (simp_all add: uniform_peering_def peering_def segments_joined_def example_path_segments)
    (simp_all add: example_path_def flag_get_def InfoField_Peering_def)

section \<open>Reversal\<close>

text \<open>C27: Reversing a decoded path reverses the order of its segments and of the hop fields in each, turns the
  direction flag of every segment, exchanges source and destination and mirrors the position of the
  current hop field and of the current segment; doing it twice restores the path.\<close>

theorem decoded_reverse_functional:
  assumes "valid_Decoded p" "length (dp_hfs p) \<le> 64"
  shows "\<exists>q. DecodedScionPath_reverseInPlace p = (Ok, q) \<and> valid_Decoded q \<and>
    path_segments q = map (\<lambda>(i, hs). (flip_info i, rev hs)) (rev (path_segments p)) \<and>
    dp_source q = dp_destination p \<and> dp_destination q = dp_source p \<and>
    unat (pm_currHf (dp_meta q)) + unat (pm_currHf (dp_meta p)) + 1 = length (dp_hfs p) \<and>
    unat (pm_currInf (dp_meta q)) + unat (pm_currInf (dp_meta p)) + 1 = length (dp_ifs p) \<and>
    DecodedScionPath_reverseInPlace q = (Ok, p)"
proof (intro exI conjI)
  let ?q = "decoded_reverse p"
  note f = valid_Decoded_facts [OF assms(1)]
  show "DecodedScionPath_reverseInPlace p = (Ok, ?q)" by (rule DecodedScionPath_reverse [OF assms(1)])
  show v: "valid_Decoded ?q" by (rule valid_decoded_reverse [OF assms])
  show "path_segments ?q = map (\<lambda>(i, hs). (flip_info i, rev hs)) (rev (path_segments p))"
    by (rule path_segments_reverse [OF assms(1)])
  show "unat (pm_currHf (dp_meta ?q)) + unat (pm_currHf (dp_meta p)) + 1 = length (dp_hfs p)"
    "unat (pm_currInf (dp_meta ?q)) + unat (pm_currInf (dp_meta p)) + 1 = length (dp_ifs p)"
    using rev_index(2) [OF f(4)] rev_index(2) [OF f(5)] f(1,4,5) assms(2) by (simp_all add: decoded_reverse_def)
  show "DecodedScionPath_reverseInPlace ?q = (Ok, p)"
    using DecodedScionPath_reverse [OF v] decoded_reverse_twice [OF assms(1)] by simp
qed (simp_all add: decoded_reverse_def)

lemma decoded_reverse_functional_witness:
  "\<exists>q. DecodedScionPath_reverseInPlace example_path = (Ok, q) \<and> dp_source q = 2 \<and>
    DecodedScionPath_reverseInPlace q = (Ok, example_path)"
  using decoded_reverse_functional [OF example_path_valid] example_path_size(1)
  by (auto simp: example_path_def)

text \<open>C28: Reversing the bytes of an encoded path in place gives the encoding of the reversed decoded path.\<close>

theorem reverse_bytes_refines:
  assumes "valid_Decoded p" "2 \<le> length (dp_hfs p)" "length (dp_hfs p) \<le> 64"
    and "bits_of path = DecodedScionPath_bits p"
  shows "\<exists>path' q. reversePathInPlace PathType_SCION path = (Ok, path') \<and>
    DecodedScionPath_reverseInPlace p = (Ok, q) \<and> bits_of path' = DecodedScionPath_bits q"
  using reverse_refines [OF assms] DecodedScionPath_reverse [OF assms(1)] by auto

lemma reverse_bytes_refines_witness:
  "\<exists>path path' q. bits_of path = DecodedScionPath_bits example_path \<and>
    reversePathInPlace PathType_SCION path = (Ok, path') \<and>
    DecodedScionPath_reverseInPlace example_path = (Ok, q) \<and> bits_of path' = DecodedScionPath_bits q"
proof -
  obtain path where "bits_of path = DecodedScionPath_bits example_path" using example_path_bytes by blast
  then show ?thesis using reverse_bytes_refines [OF example_path_valid, of path] example_path_size(1) by auto
qed

text \<open>A reversal of path bytes that succeeds is undone by a second one, whatever the reserved bits and
  the contents of the fields, when the current segment and hop field are in range.\<close>

theorem reverse_bytes_involutive:
  assumes "reversePathInPlace type path = (Ok, path')" "raw_meta path = (ci, ch, res, segs)"
    and "unat ci < seg_count segs" "unat ch < hop_count segs"
  shows "reversePathInPlace type path' = (Ok, path)"
  by (rule reverse_involutive [OF assms])

text \<open>A path of one segment: the meta header, an info field and two hop fields.\<close>

definition example_bytes :: "byte list" where
  "example_bytes = [0, 0, 0x20, 0] @ [1, 0, 0, 0, 0, 0, 0, 0] @ [0, 63, 0, 0, 0, 1, 1, 2, 3, 4, 5, 6]
     @ [0, 63, 0, 2, 0, 0, 1, 2, 3, 4, 5, 6]"

lemma reverse_bytes_involutive_witness:
  "\<exists>path'. reversePathInPlace PathType_SCION example_bytes = (Ok, path') \<and>
    reversePathInPlace PathType_SCION path' = (Ok, example_bytes)"
proof -
  have m: "raw_meta example_bytes = (0, 0, 0, 2, 0, 0)"
    by (simp add: raw_meta_def example_bytes_def load_be_def)
  have "fst (reversePathInPlace PathType_SCION example_bytes) = Ok"
    by (simp add: reversePathInPlace_def example_bytes_def PathType_SCION_def PathType_Empty_def
        load_le_def load_be_def byteswapBE_def store_le_def store_be_def upt_rec Let_def)
  then obtain path' where "reversePathInPlace PathType_SCION example_bytes = (Ok, path')"
    by (cases "reversePathInPlace PathType_SCION example_bytes") auto
  then show ?thesis
    using reverse_bytes_involutive [OF _ m] by (auto simp: seg_count_def hop_count_def)
qed

section \<open>Hops\<close>

text \<open>C29: The walk over the hops of a raw path ends for every type and every bytes.\<close>

theorem raw_hops_terminate: "\<exists>hops. RawHopRange_hops type encoded = Some hops"
  by (rule hops_end)

text \<open>C30: Take the bytes of a path of up to 64 hop fields, as many as the masks of the code have bits, whose info fields agree
  on the peering flag. The hops of the decoded path are the pairs of neighbouring hop fields within its segments, or within the
  whole path with peering; those of the reversed path are the same backwards. The hop iterator over the
  bytes gives the same hops exactly if with peering, or if every segment but the last has at least two hop fields; after a
  segment of one hop field the decoder accepts, the iterator yields a hop across the segments.\<close>

theorem raw_hops_equal_decoded:
  assumes "decodes p0 path p" "uniform_peering p" "length (dp_hfs p) \<le> 64"
  shows "DecodedScionPath_hops p = path_hops p \<and>
    DecodedScionPath_hops (snd (DecodedScionPath_reverseInPlace p)) = rev (map prod.swap (DecodedScionPath_hops p)) \<and>
    (RawHopRange_hops PathType_SCION path = Some (DecodedScionPath_hops p) \<longleftrightarrow>
      peering p \<or> (\<forall>seg \<in> set (butlast (path_segments p)). 2 \<le> length (snd seg)))"
proof -
  have v: "valid_Decoded p" using decodes_valid [OF assms(1)] by simp
  have l: "length (dp_hfs (decoded_reverse p)) \<le> 64" using assms(3) by (simp add: decoded_reverse_def)
  show ?thesis
    using raw_hops_iff [OF assms] decoded_hops [OF v assms(3)] path_hops_reverse [OF v assms(2)]
      decoded_hops [OF valid_decoded_reverse [OF v assms(3)] l] DecodedScionPath_reverse [OF v]
    by (simp add: segments_joined_def)
qed

lemma raw_hops_equal_decoded_witness:
  "\<exists>path. decodes example_path path example_path \<and>
    RawHopRange_hops PathType_SCION path = Some [(1, 2), (3, 4)]"
proof -
  obtain path where "bits_of path = DecodedScionPath_bits example_path" using example_path_bytes by blast
  then have d: "decodes example_path path example_path" by (rule decodes_encoded [OF example_path_valid])
  have "path_hops example_path = [(1, 2), (3, 4)]"
    by (simp add: path_hops_def example_path_segments seg_dirs_def seg_dir_def peering_def)
      (simp add: example_path_def example_hop_def flag_get_def InfoField_ConsDir_def InfoField_Peering_def)
  then show ?thesis
    using raw_hops_equal_decoded [OF d] example_path_uniform example_path_size d by (auto simp: example_path_segments)
qed

text \<open>A path of two segments with one hop field each: the decoded path has no hops, the iterator yields one.\<close>

definition short_path :: DecodedScionPath where
  "short_path = example_path\<lparr>dp_meta := \<lparr>pm_currInf = 0, pm_currHf = 0, pm_segLen = [1, 1, 0]\<rparr>,
     dp_hfs := [example_hop 0 2, example_hop 3 0]\<rparr>"

lemma short_path_hops_differ:
  "\<exists>path. decodes short_path path short_path \<and> DecodedScionPath_hops short_path = [] \<and>
    RawHopRange_hops PathType_SCION path \<noteq> Some []"
proof -
  have v: "valid_Decoded short_path"
    by (simp add: valid_Decoded_def short_path_def example_path_def valid_PathMeta_def PathMeta_segmentCount_def
        PathMeta_hopFieldCount_def valid_HopField_def example_hop_def fits_6_2)
  have segs: "path_segments short_path =
     [(dp_ifs example_path ! 0, [example_hop 0 2]), (dp_ifs example_path ! 1, [example_hop 3 0])]"
    by (simp add: path_segments_def short_path_def example_path_def PathMeta_segmentBegin_def upt_rec)
  have p: "uniform_peering short_path" "\<not> peering short_path" "length (dp_hfs short_path) \<le> 64"
    by (simp_all add: uniform_peering_def peering_def short_path_def example_path_def flag_get_def InfoField_Peering_def)
  have none: "path_hops short_path = []" using p(2) by (simp add: path_hops_def segs seg_dirs_def)
  obtain path where "bits_of path = DecodedScionPath_bits short_path"
    using bits_of_surj [of "DecodedScionPath_bits short_path"] DecodedScionPath_bits_length [OF v] by auto
  then have d: "decodes short_path path short_path" by (rule decodes_encoded [OF v])
  have "\<not> segments_joined short_path" using p(2) by (simp add: segments_joined_def segs)
  then show ?thesis using d raw_hops_iff [OF d p(1,3)] none decoded_hops [OF v p(3)] by auto
qed

section \<open>Raw paths\<close>

text \<open>Encoding a valid path that fits stores its encoding, endpoints and size, and the raw path has the
  hops of the encoded one.\<close>

theorem raw_path_encode:
  assumes "valid_Decoded p" "DecodedScionPath_size p \<le> RawPath_MAX_SIZE" "length (rp_path rp) = RawPath_MAX_SIZE"
    and "uniform_peering p" "segments_joined p" "length (dp_hfs p) \<le> 64"
  shows "\<exists>rp'. RawPath_encode rp p = (True, rp') \<and> bits_of (RawPath_encoded rp') = DecodedScionPath_bits p \<and>
    rp_size rp' = DecodedScionPath_size p \<and> rp_source rp' = dp_source p \<and> rp_destination rp' = dp_destination p \<and>
    decodes p (RawPath_encoded rp') p \<and> RawPath_hops rp' = Some (DecodedScionPath_hops p)"
proof -
  obtain rp' where r: "RawPath_encode rp p = (True, rp')" "bits_of (RawPath_encoded rp') = DecodedScionPath_bits p"
      "rp_size rp' = DecodedScionPath_size p" "rp_type rp' = PathType_SCION" "rp_source rp' = dp_source p"
      "rp_destination rp' = dp_destination p"
    using RawPath_encode_valid [OF assms(1-3)] by blast
  have d: "decodes p (RawPath_encoded rp') p" by (rule decodes_encoded [OF assms(1) r(2)])
  show ?thesis
    using r d raw_hops [OF d assms(4-6)] decoded_hops [OF assms(1,6)] by (auto simp: RawPath_hops_def)
qed

lemma raw_path_encode_witness:
  "\<exists>rp'. RawPath_encode RawPath_default example_path = (True, rp') \<and> rp_size rp' = 68"
  using raw_path_encode [OF example_path_valid, of RawPath_default] example_path_size example_path_uniform
  by (auto simp: RawPath_default_def RawPath_MAX_SIZE_def)

text \<open>A raw path expires with the first of its hop fields: at the least sum (modulo 2^32) of the
  timestamp of a segment and the relative expiry of one of its hop fields.\<close>

theorem raw_path_expiry:
  assumes "rp_type rp = PathType_SCION" "\<forall>h \<in> set (dp_hfs p0). valid_HopField h"
    and "DecodedScionPath_serialize p0 (ReadStream (stream_init (rp_path rp))) = (Inr p, st)"
  shows "RawPath_expiry rp = Min (insert Expiry_max
    (\<Union>(info, hs) \<in> set (path_segments p). hop_expiry info ` set hs))"
  by (rule expiry_of_path [OF assms])

lemma raw_path_expiry_witness:
  "\<exists>rp. rp_type rp = PathType_SCION \<and> RawPath_expiry rp = 22600 * 10 ^ 9"
proof -
  obtain path where p: "bits_of path = DecodedScionPath_bits example_path" using example_path_bytes by blast
  let ?rp = "\<lparr>rp_source = 1, rp_destination = 2, rp_type = PathType_SCION, rp_size = 68, rp_digest = None,
    rp_path = path\<rparr>"
  have "decodes example_path path example_path" by (rule decodes_encoded [OF example_path_valid p])
  then obtain b where "DecodedScionPath_serialize example_path (ReadStream (stream_init (rp_path ?rp))) =
      (Inr example_path, ReadStream b)" by (auto simp: decodes_def)
  moreover have "\<forall>h \<in> set (dp_hfs example_path). valid_HopField h"
    using example_path_valid by (simp add: valid_Decoded_def)
  ultimately have "RawPath_expiry ?rp = Min (insert Expiry_max
    (\<Union>(info, hs) \<in> set (path_segments example_path). hop_expiry info ` set hs))"
    by (intro raw_path_expiry) simp_all
  also have "\<dots> = 22600 * 10 ^ 9"
    by (simp add: example_path_segments)
      (simp add: example_path_def example_hop_def hop_expiry_def HopField_relativeExpiry_def Expiry_seconds_def
        Expiry_max_def)
  finally show ?thesis by (intro exI [of _ ?rp]) simp
qed

text \<open>C31: The operations of a raw path keep the size within bounds and the remembered digest equal to the
  digest of the current hops; a digest is always computed, and a reversal that fails changes nothing.\<close>

theorem raw_path_invariant:
  assumes "RawPath_inv seed rp"
  shows "(RawPath_assign rp src dst type data = Inr rp' \<longrightarrow> RawPath_inv seed rp') \<and>
    (valid_Decoded p \<longrightarrow> DecodedScionPath_size p \<le> RawPath_MAX_SIZE \<longrightarrow>
       RawPath_inv seed (snd (RawPath_encode rp p))) \<and>
    RawPath_inv seed (snd (RawPath_reverseInPlace rp)) \<and>
    (\<exists>d rp'. RawPath_digest seed rp = Some (d, rp') \<and> RawPath_inv seed rp' \<and>
      (\<exists>hops. RawPath_hops rp = Some hops \<and> d = computeDigest seed (rp_source rp) (take 64 hops))) \<and>
    (\<forall>err rp'. RawPath_reverseInPlace rp = (err, rp') \<longrightarrow> err \<noteq> Ok \<longrightarrow> rp' = rp)"
proof (intro conjI impI allI)
  show "RawPath_inv seed rp'" if "RawPath_assign rp src dst type data = Inr rp'"
    using RawPath_inv_assign [OF assms that] .
  show "RawPath_inv seed (snd (RawPath_encode rp p))"
    if "valid_Decoded p" "DecodedScionPath_size p \<le> RawPath_MAX_SIZE"
    using RawPath_inv_encode [OF assms that] .
  show "RawPath_inv seed (snd (RawPath_reverseInPlace rp))" by (rule RawPath_inv_reverse [OF assms])
  show "\<exists>d rp'. RawPath_digest seed rp = Some (d, rp') \<and> RawPath_inv seed rp' \<and>
      (\<exists>hops. RawPath_hops rp = Some hops \<and> d = computeDigest seed (rp_source rp) (take 64 hops))"
    by (rule RawPath_inv_digest [OF assms])
  show "rp'' = rp" if "RawPath_reverseInPlace rp = (err, rp'')" "err \<noteq> Ok" for err rp''
    using RawPath_reverse_error [OF that] assms by (simp add: RawPath_inv_def)
qed

lemma raw_path_invariant_witness:
  "RawPath_inv 0 RawPath_default \<and> RawPath_inv 0 (snd (RawPath_reverseInPlace RawPath_default)) \<and>
   (\<exists>d rp'. RawPath_digest 0 RawPath_default = Some (d, rp') \<and> RawPath_inv 0 rp')"
  using raw_path_invariant [OF RawPath_inv_default [of 0]] RawPath_inv_default [of 0] by blast

end
