(* ===== verification/Path.thy ===== *)
theory Path
  imports RawPathSpec "HOL-Library.Signed_Division"
begin

text \<open>
  Paths with routing information and metadata: times from protobuf messages
  (\<open>include/scion/details/protobuf_time.hpp\<close>), the path attributes (\<open>src/path/path_meta.cpp\<close>) and the class
  \<open>Path\<close> (\<open>include/scion/path/path.hpp\<close>). The fields of protobuf messages, which generated code gives
  access to, are arguments. Floating-point coordinates are kept as their bit patterns.
\<close>

section \<open>Times\<close>

text \<open>\<open>std::nano::den\<close>\<close>

definition nano_den :: int where "nano_den = 1000000000"

definition timepointFromProtobuf :: "int \<Rightarrow> int \<Rightarrow> Expiry" where
  "timepointFromProtobuf seconds nanos =
     (if seconds < 0 \<or> nanos < 0 then 0
      else sint ((of_int seconds :: u64) * of_int nano_den + of_int nanos))"

definition durationFromProtobuf :: "int \<Rightarrow> int \<Rightarrow> int" where
  "durationFromProtobuf seconds nanos =
     (if seconds < 0 \<or> nanos < 0 then 0
      else sint ((of_int seconds :: u64) * of_int nano_den + of_int nanos))"

definition timepointSeconds :: "Expiry \<Rightarrow> u64" where
  "timepointSeconds t = of_int (t sdiv nano_den)"

definition timepointNanos :: "Expiry \<Rightarrow> u64" where
  "timepointNanos t = of_int (t smod nano_den)"

section \<open>Metadata\<close>

datatype LinkType = LinkUnspecified | LinkDirect | LinkMultiHop | LinkOpenNet | LinkInternal

record GeoCoordinates =
  geo_latitude :: u32
  geo_longitude :: u32
  geo_address :: string

datatype PathHop = PathHop (ph_isdAsn: IsdAsn) (ph_ingress: u64) (ph_egress: u64)

record HopMeta =
  hm_ingRouter :: GeoCoordinates
  hm_egrRouter :: GeoCoordinates
  hm_internalHops :: u32
  hm_notes :: string

record LinkMeta =
  lm_type :: LinkType
  lm_latency :: int
  lm_bandwidth :: u64

text \<open>The values of the protobuf enumeration are those of the message definition.\<close>

definition linkTypeFromProtobuf :: "int \<Rightarrow> LinkType" where
  "linkTypeFromProtobuf type =
     (if type = 1 then LinkDirect else if type = 2 then LinkMultiHop else if type = 3 then LinkOpenNet
      else LinkUnspecified)"

fun Interfaces_fill :: "bool \<Rightarrow> PathHop list \<Rightarrow> (IsdAsn \<times> u64) list \<Rightarrow> PathHop list" where
  "Interfaces_fill first [] ifaces = []"
| "Interfaces_fill first (hop # hops) ifaces =
     (let (hop, ifaces) =
            (if \<not> first then (case ifaces of (ia, ifid) # r \<Rightarrow> (PathHop ia ifid (ph_egress hop), r)
                             | [] \<Rightarrow> (hop, []))
             else (hop, ifaces));
          (hop, ifaces) =
            (case ifaces of (ia, ifid) # r \<Rightarrow> (PathHop ia (ph_ingress hop) ifid, r) | [] \<Rightarrow> (hop, []))
      in hop # Interfaces_fill False hops ifaces)"

definition Interfaces_initialize :: "PathHop list \<Rightarrow> (IsdAsn \<times> u64) list \<Rightarrow> PathHop list" where
  "Interfaces_initialize data interfaces =
     (if length interfaces > 0
      then Interfaces_fill True (resize (length interfaces div 2 + 1) (PathHop 0 0 0) data) interfaces
      else data)"

definition GeoCoordinates_default :: GeoCoordinates where
  "GeoCoordinates_default = \<lparr>geo_latitude = 0, geo_longitude = 0, geo_address = []\<rparr>"

definition HopMeta_default :: HopMeta where
  "HopMeta_default = \<lparr>hm_ingRouter = GeoCoordinates_default, hm_egrRouter = GeoCoordinates_default,
     hm_internalHops = 0, hm_notes = []\<rparr>"

fun HopMetadata_fill ::
    "bool \<Rightarrow> HopMeta list \<Rightarrow> GeoCoordinates list \<Rightarrow> u32 list \<Rightarrow> string list \<Rightarrow> HopMeta list" where
  "HopMetadata_fill first [] geo hops notes = []"
| "HopMetadata_fill first (m # ms) geo hops notes =
     (let (m, geo) = (if \<not> first then (case geo of g # r \<Rightarrow> (m\<lparr>hm_ingRouter := g\<rparr>, r) | [] \<Rightarrow> (m, []))
                      else (m, geo));
          (m, geo) = (case geo of g # r \<Rightarrow> (m\<lparr>hm_egrRouter := g\<rparr>, r) | [] \<Rightarrow> (m, []));
          (m, hops) = (if \<not> first then (case hops of n # r \<Rightarrow> (m\<lparr>hm_internalHops := n\<rparr>, r) | [] \<Rightarrow> (m, []))
                       else (m, hops));
          (m, notes) = (case notes of s # r \<Rightarrow> (m\<lparr>hm_notes := s\<rparr>, r) | [] \<Rightarrow> (m, []))
      in m # HopMetadata_fill False ms geo hops notes)"

definition HopMetadata_initialize ::
    "HopMeta list \<Rightarrow> nat \<Rightarrow> GeoCoordinates list \<Rightarrow> u32 list \<Rightarrow> string list \<Rightarrow> HopMeta list" where
  "HopMetadata_initialize data numIfaces geo internal_hops notes =
     (if numIfaces > 0
      then HopMetadata_fill True (resize (numIfaces div 2 + 1) HopMeta_default data) geo internal_hops notes
      else data)"

text \<open>
  The loop appends one link per latency. A link starts out uninitialised: \<open>junk\<close> stands for what the
  bandwidth holds when the message has fewer bandwidths than latencies.
\<close>

fun LinkMetadata_fill :: "u64 \<Rightarrow> nat \<Rightarrow> int list \<Rightarrow> (int \<times> int) list \<Rightarrow> u64 list \<Rightarrow> LinkMeta list" where
  "LinkMetadata_fill junk i type [] bw = []"
| "LinkMetadata_fill junk i type ((s, n) # lat) bw =
     (let (ty, type) = (if i mod 2 = 0 \<and> type \<noteq> [] then (linkTypeFromProtobuf (hd type), drop 1 type)
                        else (LinkInternal, type));
          (b, bw) = (case bw of b # r \<Rightarrow> (b, r) | [] \<Rightarrow> (junk, []))
      in \<lparr>lm_type = ty, lm_latency = durationFromProtobuf s n, lm_bandwidth = b\<rparr>
         # LinkMetadata_fill junk (i + 1) type lat bw)"

definition LinkMetadata_initialize ::
    "u64 \<Rightarrow> LinkMeta list \<Rightarrow> int list \<Rightarrow> (int \<times> int) list \<Rightarrow> u64 list \<Rightarrow> LinkMeta list" where
  "LinkMetadata_initialize junk data link_type latency bandwidth =
     (if length latency > 0 then data @ LinkMetadata_fill junk 0 link_type latency bandwidth else data)"

section \<open>Path\<close>

datatype Attribute =
    AttrInterfaces "PathHop list"
  | AttrHopMetadata "HopMeta list"
  | AttrLinkMetadata "LinkMeta list"
  | AttrUser nat

datatype AttributeType = TInterfaces | THopMetadata | TLinkMetadata | TUser

definition PATH_ATTRIBUTE_INTERFACES :: int where "PATH_ATTRIBUTE_INTERFACES = 0"
definition PATH_ATTRIBUTE_HOP_META :: int where "PATH_ATTRIBUTE_HOP_META = 1"
definition PATH_ATTRIBUTE_LINK_META :: int where "PATH_ATTRIBUTE_LINK_META = 2"

fun Attribute_type :: "Attribute \<Rightarrow> AttributeType" where
  "Attribute_type (AttrInterfaces _) = TInterfaces"
| "Attribute_type (AttrHopMetadata _) = THopMetadata"
| "Attribute_type (AttrLinkMetadata _) = TLinkMetadata"
| "Attribute_type (AttrUser _) = TUser"

fun Attribute_make :: "AttributeType \<Rightarrow> Attribute" where
  "Attribute_make TInterfaces = AttrInterfaces []"
| "Attribute_make THopMetadata = AttrHopMetadata []"
| "Attribute_make TLinkMetadata = AttrLinkMetadata []"
| "Attribute_make TUser = AttrUser 0"

record Path =
  pth_source :: IsdAsn
  pth_destination :: IsdAsn
  pth_type :: byte
  pth_expires_by :: Expiry
  pth_mtu :: u16
  pth_hopCount :: u32
  pth_nextHop :: IPEndpoint
  pth_path :: "byte list"
  pth_attrib :: "(int \<times> Attribute) list"
  pth_broken :: u64
  pth_digest :: PathDigest

definition Path_hops :: "Path \<Rightarrow> hop_pair list option" where
  "Path_hops p = RawHopRange_hops (pth_type p) (pth_path p)"

definition makePath ::
    "u32 \<Rightarrow> IsdAsn \<Rightarrow> IsdAsn \<Rightarrow> byte \<Rightarrow> Expiry \<Rightarrow> u16 \<Rightarrow> IPEndpoint \<Rightarrow> byte list \<Rightarrow> Path option" where
  "makePath seed source destination type expiry mtu nh dpPath =
     (let p = \<lparr>pth_source = source, pth_destination = destination, pth_type = type,
               pth_expires_by = expiry, pth_mtu = mtu, pth_hopCount = 0, pth_nextHop = nh,
               pth_path = dpPath, pth_attrib = [], pth_broken = 0, pth_digest = (0, 0)\<rparr>
      in Option.bind (Path_hops p) (\<lambda>hops.
           Some (p\<lparr>pth_hopCount := of_nat (length hops),
                   pth_digest := computeDigest seed source (take 64 hops)\<rparr>)))"

definition makePath_raw :: "u32 \<Rightarrow> RawPath \<Rightarrow> IPEndpoint \<Rightarrow> Path option" where
  "makePath_raw seed rp nh =
     makePath seed (rp_source rp) (rp_destination rp) (rp_type rp) (RawPath_expiry rp) 0 nh (RawPath_encoded rp)"

definition IPEndpoint_default :: IPEndpoint where
  "IPEndpoint_default = \<lparr>m_host = UnspecifiedIPv6, m_port = 0\<rparr>"

definition makeEmptyPath :: "u32 \<Rightarrow> IsdAsn \<Rightarrow> Path option" where
  "makeEmptyPath seed isdAsn =
     makePath seed isdAsn isdAsn PathType_Empty Expiry_max 0 IPEndpoint_default []"

definition Path_toRawPath :: "Path \<Rightarrow> RawPath maybe" where
  "Path_toRawPath p = RawPath_make (pth_source p) (pth_destination p) (pth_type p) (pth_path p)"

definition Path_eq :: "Path \<Rightarrow> Path \<Rightarrow> bool" where
  "Path_eq p other \<longleftrightarrow>
     pth_source p = pth_source other \<and> pth_destination p = pth_destination other
     \<and> pth_type p = pth_type other \<and> pth_expires_by p = pth_expires_by other
     \<and> IPEndpoint_eq (pth_nextHop p) (pth_nextHop other) \<and> pth_path p = pth_path other"

definition Path_eq_raw :: "Path \<Rightarrow> RawPath \<Rightarrow> bool" where
  "Path_eq_raw p raw \<longleftrightarrow>
     pth_source p = rp_source raw \<and> pth_destination p = rp_destination raw
     \<and> pth_type p = rp_type raw \<and> pth_path p = RawPath_encoded raw"

definition Path_empty :: "Path \<Rightarrow> bool" where
  "Path_empty p \<longleftrightarrow> pth_type p = PathType_Empty"

definition Path_setBroken :: "Path \<Rightarrow> u64 \<Rightarrow> Path" where
  "Path_setBroken p ts = p\<lparr>pth_broken := ts\<rparr>"

definition Path_nextHop :: "Path \<Rightarrow> IPEndpoint \<Rightarrow> IPEndpoint" where
  "Path_nextHop p dst = (if pth_type p = PathType_Empty then dst else pth_nextHop p)"

definition equalHops :: "Path \<Rightarrow> Path \<Rightarrow> bool" where
  "equalHops path1 path2 \<longleftrightarrow> Path_hops path1 = Path_hops path2"

text \<open>\<open>dynamic_cast\<close> yields a null pointer for an attribute of another type.\<close>

definition Path_getAttribute :: "Path \<Rightarrow> AttributeType \<Rightarrow> int \<Rightarrow> Attribute option" where
  "Path_getAttribute p ty key =
     (case map_of (pth_attrib p) key of
        None \<Rightarrow> None
      | Some a \<Rightarrow> if Attribute_type a = ty then Some a else None)"

definition Path_addAttribute :: "Path \<Rightarrow> AttributeType \<Rightarrow> int \<Rightarrow> Attribute \<times> Path" where
  "Path_addAttribute p ty key =
     (case Path_getAttribute p ty key of
        Some a \<Rightarrow> (a, p)
      | None \<Rightarrow> (Attribute_make ty, p\<lparr>pth_attrib := pth_attrib p @ [(key, Attribute_make ty)]\<rparr>))"

definition Path_removeAttribute :: "Path \<Rightarrow> int \<Rightarrow> Path" where
  "Path_removeAttribute p key = p\<lparr>pth_attrib := filter (\<lambda>a. fst a \<noteq> key) (pth_attrib p)\<rparr>"

definition Path_interfaces :: "Path \<Rightarrow> PathHop list option" where
  "Path_interfaces p =
     (case Path_getAttribute p TInterfaces PATH_ATTRIBUTE_INTERFACES of
        Some (AttrInterfaces hops) \<Rightarrow> Some hops
      | _ \<Rightarrow> None)"

definition Path_containsInterface :: "Path \<Rightarrow> IsdAsn \<Rightarrow> AsInterface \<Rightarrow> bool" where
  "Path_containsInterface p isdAsn iface =
     (case Path_interfaces p of
        None \<Rightarrow> False
      | Some hops \<Rightarrow> list_ex (\<lambda>hop. ph_isdAsn hop = isdAsn \<and> (ph_ingress hop = iface \<or> ph_egress hop = iface)) hops)"

definition Path_containsHop :: "Path \<Rightarrow> IsdAsn \<Rightarrow> AsInterface \<Rightarrow> AsInterface \<Rightarrow> bool" where
  "Path_containsHop p isdAsn igr egr =
     (case Path_interfaces p of
        None \<Rightarrow> False
      | Some hops \<Rightarrow> list_ex (\<lambda>hop. ph_isdAsn hop = isdAsn \<and> ph_ingress hop = igr \<and> ph_egress hop = egr) hops)"

text \<open>The order the flat set of hops is sorted by.\<close>

definition PathHop_less :: "PathHop \<Rightarrow> PathHop \<Rightarrow> bool" where
  "PathHop_less a b \<longleftrightarrow>
     (if ph_isdAsn a \<noteq> ph_isdAsn b then ph_isdAsn a < ph_isdAsn b
      else if ph_ingress a \<noteq> ph_ingress b then ph_ingress a < ph_ingress b
      else ph_egress a < ph_egress b)"

instantiation PathHop :: linorder
begin

definition less_PathHop :: "PathHop \<Rightarrow> PathHop \<Rightarrow> bool" where
  "less_PathHop a b \<longleftrightarrow> PathHop_less a b"

definition less_eq_PathHop :: "PathHop \<Rightarrow> PathHop \<Rightarrow> bool" where
  "less_eq_PathHop a b \<longleftrightarrow> a < b \<or> a = b"

instance
proof
  fix x y z :: PathHop
  show "(x < y) = (x \<le> y \<and> \<not> y \<le> x)" and "x \<le> x"
    by (auto simp: less_PathHop_def PathHop_less_def less_eq_PathHop_def split: if_splits)
  show "x \<le> z" if "x \<le> y" "y \<le> z"
    using that by (auto simp: less_PathHop_def PathHop_less_def less_eq_PathHop_def split: if_splits)
  show "x = y" if "x \<le> y" "y \<le> x"
    using that by (auto simp: less_PathHop_def PathHop_less_def less_eq_PathHop_def split: if_splits)
  show "x \<le> y \<or> y \<le> x"
    by (cases x; cases y) (auto simp: less_PathHop_def PathHop_less_def less_eq_PathHop_def)
qed

end

text \<open>
  \<open>boost::container::flat_set\<close>: a sorted sequence; an element is placed before the first that is not
  less, unless that one is equal, and is found there.
\<close>

fun flat_insert :: "'a::linorder \<Rightarrow> 'a list \<Rightarrow> 'a list" where
  "flat_insert x [] = [x]"
| "flat_insert x (y # ys) =
     (if y < x then y # flat_insert x ys else if x < y then x # y # ys else y # ys)"

fun flat_contains :: "'a::linorder \<Rightarrow> 'a list \<Rightarrow> bool" where
  "flat_contains x [] = False"
| "flat_contains x (y # ys) = (if y < x then flat_contains x ys else \<not> x < y)"

definition Path_overlap :: "Path \<Rightarrow> Path \<Rightarrow> (nat \<times> nat) maybe" where
  "Path_overlap p other =
     (case (Path_interfaces p, Path_interfaces other) of
        (Some hopsA, Some hopsB) \<Rightarrow>
          let myHops = foldl (\<lambda>s hop. flat_insert hop s) [] hopsA;
              overlap = foldl (\<lambda>n hop. if flat_contains hop myHops then n + 1 else n) 0 hopsB
          in Inr (overlap, length hopsB)
      | _ \<Rightarrow> Inl InvalidArgument)"

section \<open>Metadata\<close>

text \<open>The interface list of a message, for the hops of a path from first to last AS.\<close>

fun wire_interfaces :: "bool \<Rightarrow> PathHop list \<Rightarrow> (IsdAsn \<times> u64) list" where
  "wire_interfaces first [] = []"
| "wire_interfaces first [hop] = (if first then [] else [(ph_isdAsn hop, ph_ingress hop)])"
| "wire_interfaces first (hop # h # hops) =
     (if first then [] else [(ph_isdAsn hop, ph_ingress hop)]) @ (ph_isdAsn hop, ph_egress hop)
     # wire_interfaces False (h # hops)"

lemma Interfaces_fill_wire:
  "hops \<noteq> [] \<Longrightarrow> length data = length hops \<Longrightarrow> \<forall>d \<in> set data. d = PathHop 0 0 0 \<Longrightarrow>
   (first \<longrightarrow> ph_ingress (hd hops) = 0 \<and> 2 \<le> length hops) \<Longrightarrow> ph_egress (last hops) = 0 \<Longrightarrow>
   Interfaces_fill first data (wire_interfaces first hops) = hops"
proof (induction first hops arbitrary: data rule: wire_interfaces.induct)
  case (2 first hop)
  then obtain d where "data = [d]" by (auto simp: length_Suc_conv)
  then show ?case using 2 by (cases hop) auto
next
  case (3 first hop h hops)
  then obtain d ds where d: "data = d # ds" "length ds = length (h # hops)" by (auto simp: length_Suc_conv)
  have "Interfaces_fill False ds (wire_interfaces False (h # hops)) = h # hops"
    using 3 d by auto
  then show ?case using 3 d by (cases hop) auto
qed simp

lemma length_wire_interfaces:
  "hops \<noteq> [] \<Longrightarrow> length (wire_interfaces first hops) = 2 * length hops - (if first then 2 else 1)"
  by (induction first hops rule: wire_interfaces.induct) auto

lemma Interfaces_initialize_wire:
  assumes "2 \<le> length hops" "ph_ingress (hd hops) = 0" "ph_egress (last hops) = 0"
  shows "Interfaces_initialize [] (wire_interfaces True hops) = hops"
proof -
  have "hops \<noteq> []" using assms(1) by auto
  from length_wire_interfaces [OF this, of True]
  have l: "length (wire_interfaces True hops) = 2 * (length hops - 1)" using assms(1) by simp
  have "Interfaces_fill True (replicate (length hops) (PathHop 0 0 0)) (wire_interfaces True hops) = hops"
    by (rule Interfaces_fill_wire) (use assms in auto)
  moreover have "length (wire_interfaces True hops) div 2 + 1 = length hops" "length (wire_interfaces True hops) > 0"
    using l assms(1) by auto
  ultimately show ?thesis
    by (simp only: Interfaces_initialize_def resize_def if_True) simp
qed

section \<open>Attributes\<close>

lemma map_of_append_key: "map_of (xs @ ys) k = (case map_of xs k of None \<Rightarrow> map_of ys k | Some v \<Rightarrow> Some v)"
  by (auto simp: map_add_def split: option.splits)

lemma get_add:
  assumes "map_of (pth_attrib p) key = None \<or> Path_getAttribute p ty key \<noteq> None"
  shows "Path_getAttribute (snd (Path_addAttribute p ty key)) ty key = Some (fst (Path_addAttribute p ty key))"
    "key' \<noteq> key \<Longrightarrow> Path_getAttribute (snd (Path_addAttribute p ty key)) ty' key' = Path_getAttribute p ty' key'"
proof -
  have t: "Attribute_type (Attribute_make ty) = ty" by (cases ty) simp_all
  show "Path_getAttribute (snd (Path_addAttribute p ty key)) ty key = Some (fst (Path_addAttribute p ty key))"
    using assms t by (auto simp: Path_addAttribute_def Path_getAttribute_def map_of_append_key simp del: map_of_append split: option.splits)
  show "Path_getAttribute (snd (Path_addAttribute p ty key)) ty' key' = Path_getAttribute p ty' key'"
    if "key' \<noteq> key"
    using that by (auto simp: Path_addAttribute_def Path_getAttribute_def map_of_append_key simp del: map_of_append split: option.splits)
qed

lemma map_of_filter_key: "map_of (filter (\<lambda>a. fst a \<noteq> key) xs) k = (if k = key then None else map_of xs k)"
  by (induction xs) auto

lemma get_remove:
  "Path_getAttribute (Path_removeAttribute p key) ty k = (if k = key then None else Path_getAttribute p ty k)"
  by (simp add: Path_getAttribute_def Path_removeAttribute_def map_of_filter_key)

text \<open>An attribute added under a key that another type holds is never found again.\<close>

lemma add_other_type_lost:
  assumes "map_of (pth_attrib p) key = Some a" "Attribute_type a \<noteq> ty"
  shows "Path_getAttribute (snd (Path_addAttribute p ty key)) ty key = None"
  using assms by (simp add: Path_addAttribute_def Path_getAttribute_def map_of_append_key del: map_of_append)

section \<open>Overlap\<close>

lemma set_flat_insert: "set (flat_insert x xs) = insert x (set xs)"
  by (induction xs) auto

lemma sorted_flat_insert: "sorted_wrt (<) xs \<Longrightarrow> sorted_wrt (<) (flat_insert x xs)"
  by (induction xs) (auto simp: set_flat_insert)

lemma flat_contains_iff: "sorted_wrt (<) xs \<Longrightarrow> flat_contains x xs \<longleftrightarrow> x \<in> set xs"
  by (induction xs) auto

lemma flat_inserts:
  "sorted_wrt (<) s \<Longrightarrow> sorted_wrt (<) (foldl (\<lambda>s x. flat_insert x s) s xs) \<and>
   set (foldl (\<lambda>s x. flat_insert x s) s xs) = set s \<union> set xs"
proof (induction xs arbitrary: s)
  case (Cons x xs)
  then show ?case using Cons.IH [OF sorted_flat_insert [OF Cons.prems]] by (auto simp: set_flat_insert)
qed simp

lemma foldl_count: "foldl (\<lambda>n x. if P x then n + 1 else n) (m :: nat) xs = m + length (filter P xs)"
  by (induction xs arbitrary: m) auto

lemma overlap_functional:
  "Path_overlap p other =
     (case (Path_interfaces p, Path_interfaces other) of
        (Some hopsA, Some hopsB) \<Rightarrow> Inr (length (filter (\<lambda>h. h \<in> set hopsA) hopsB), length hopsB)
      | _ \<Rightarrow> Inl InvalidArgument)"
proof -
  have "flat_contains h (foldl (\<lambda>s hop. flat_insert hop s) [] xs) \<longleftrightarrow> h \<in> set xs" for h and xs :: "PathHop list"
    using flat_inserts [of "[]" xs] by (simp add: flat_contains_iff)
  then show ?thesis
    by (simp add: Path_overlap_def foldl_count Let_def split: option.splits)
qed

section \<open>Construction\<close>

lemma makePath_some:
  "\<exists>p hops. makePath seed src dst type expiry mtu nh path = Some p \<and> RawHopRange_hops type path = Some hops \<and>
    pth_hopCount p = of_nat (length hops) \<and> pth_digest p = computeDigest seed src (take 64 hops) \<and>
    Path_hops p = Some hops \<and> pth_source p = src \<and> pth_destination p = dst \<and> pth_type p = type \<and>
    pth_expires_by p = expiry \<and> pth_mtu p = mtu \<and> pth_nextHop p = nh \<and> pth_path p = path \<and> pth_attrib p = []"
  using hops_end [of type path] by (auto simp: makePath_def Path_hops_def Let_def)

lemma raw_of_path:
  assumes "length (pth_path p) \<le> RawPath_MAX_SIZE"
  shows "\<exists>rp. Path_toRawPath p = Inr rp \<and> RawPath_inv seed rp \<and> Path_eq_raw p rp \<and> RawPath_hops rp = Path_hops p"
  using assms RawPath_inv_assign [OF RawPath_inv_default]
  by (auto simp: Path_toRawPath_def RawPath_make_def RawPath_assign_def Path_eq_raw_def RawPath_encoded_def
      RawPath_hops_def Path_hops_def RawPath_default_def overwrite_def RawPath_inv_def)

section \<open>Properties\<close>

text \<open>A path made from a raw path exists and equals it: same endpoints, type and bytes, the same hops
  (their number is the hop count), the expiry of the raw path and the digest the raw path computes.\<close>

theorem path_from_raw:
  assumes "RawPath_inv seed rp"
  shows "\<exists>p hops d rp'. makePath_raw seed rp nh = Some p \<and> Path_eq_raw p rp \<and>
    Path_hops p = Some hops \<and> RawPath_hops rp = Some hops \<and> pth_hopCount p = of_nat (length hops) \<and>
    pth_expires_by p = RawPath_expiry rp \<and> RawPath_digest seed rp = Some (d, rp') \<and> pth_digest p = d"
proof -
  obtain p hops where p: "makePath_raw seed rp nh = Some p" "RawHopRange_hops (rp_type rp) (RawPath_encoded rp) = Some hops"
      "pth_hopCount p = of_nat (length hops)" "pth_digest p = computeDigest seed (rp_source rp) (take 64 hops)"
      "Path_hops p = Some hops" "Path_eq_raw p rp" "pth_expires_by p = RawPath_expiry rp"
    using makePath_some [of seed "rp_source rp" "rp_destination rp" "rp_type rp" "RawPath_expiry rp" 0 nh
        "RawPath_encoded rp"] by (auto simp: makePath_raw_def Path_eq_raw_def)
  obtain d rp' where "RawPath_digest seed rp = Some (d, rp')"
      "\<exists>hops. RawPath_hops rp = Some hops \<and> d = computeDigest seed (rp_source rp) (take 64 hops)"
    using RawPath_inv_digest [OF assms] by blast
  then show ?thesis using p by (auto simp: RawPath_hops_def)
qed

lemma path_from_raw_witness:
  "\<exists>p. makePath_raw 0 RawPath_default IPEndpoint_default = Some p \<and> Path_eq_raw p RawPath_default"
  using path_from_raw [OF RawPath_inv_default [of 0], of IPEndpoint_default] by blast

text \<open>The overlap with another path counts the hops of the other path that occur among the hops of this
  one, next to the number of hops of the other path; without interface metadata it is an error.\<close>

theorem path_overlap_functional:
  "Path_overlap p other =
     (case (Path_interfaces p, Path_interfaces other) of
        (Some hopsA, Some hopsB) \<Rightarrow> Inr (length (filter (\<lambda>h. h \<in> set hopsA) hopsB), length hopsB)
      | _ \<Rightarrow> Inl InvalidArgument)"
  by (rule overlap_functional)

text \<open>From the interface list of a message the interface metadata recovers the hops of the path.\<close>

theorem interfaces_recovered:
  assumes "2 \<le> length hops" "ph_ingress (hd hops) = 0" "ph_egress (last hops) = 0"
  shows "Interfaces_initialize [] (wire_interfaces True hops) = hops"
  by (rule Interfaces_initialize_wire [OF assms])

lemma interfaces_recovered_witness:
  "Interfaces_initialize [] [(1, 5), (2, 6), (2, 7), (3, 8)] = [PathHop 1 0 5, PathHop 2 6 7, PathHop 3 8 0]"
  using interfaces_recovered [of "[PathHop 1 0 5, PathHop 2 6 7, PathHop 3 8 0]"] by simp

lemma timepoint_roundtrip:
  assumes "0 \<le> s" "0 \<le> n" "n < nano_den" "s * nano_den + n < 2 ^ 63"
  shows "timepointSeconds (timepointFromProtobuf s n) = of_int s \<and>
    timepointNanos (timepointFromProtobuf s n) = of_int n"
proof -
  let ?t = "s * nano_den + n"
  have "(of_int s :: u64) * of_int nano_den + of_int n = of_int ?t" by simp
  moreover have "sint (of_int ?t :: u64) = ?t"
    unfolding signed_of_int by (subst signed_take_bit_int_eq_self) (use assms in \<open>simp_all add: nano_den_def\<close>)
  ultimately have t: "timepointFromProtobuf s n = ?t" using assms by (simp add: timepointFromProtobuf_def)
  have "?t div nano_den = s" "?t mod nano_den = n"
    using assms(2,3) by (simp_all add: nano_den_def)
  moreover have "x sdiv nano_den = x div nano_den" "x smod nano_den = x mod nano_den" if "0 \<le> x" for x
    using that by (cases "x = 0"; simp add: signed_divide_int_def signed_modulo_int_def sgn_if nano_den_def)+
  moreover have "0 \<le> ?t" using assms by (simp add: nano_den_def)
  ultimately show ?thesis unfolding t by (simp add: timepointSeconds_def timepointNanos_def)
qed

end
