(* ===== verification/PathMtu.thy ===== *)
theory PathMtu
  imports Path
begin

text \<open>
  Path MTU discovery (\<open>include/scion/scmp/path_mtu.hpp\<close>) and the chain of SCMP handlers
  (\<open>include/scion/scmp/handler.hpp\<close>). The store is an LRU list together with an index from
  destinations to list nodes; nodes are identified by numbers, as the code's iterators identify
  them. The invariant ties the index to the list; under it every operation acts on the abstract list
  of records without the index. The lock makes each operation atomic, and the model gives
  each as one function. Timestamps are numbers.
\<close>

section \<open>Destinations\<close>

record Destination =
  d_address :: ScIPAddress
  d_path :: PathDigest

definition Destination_eq :: "Destination \<Rightarrow> Destination \<Rightarrow> bool" where
  "Destination_eq d other \<longleftrightarrow> a_ia (d_address d) = a_ia (d_address other)
     \<and> IPAddress_eq (a_host (d_address d)) (a_host (d_address other)) \<and> d_path d = d_path other"

text \<open>The class of a destination under its equality: hash maps do not distinguish its members.\<close>

type_synonym DestKey = "IsdAsn \<times> (AddrType \<times> u64 \<times> u64 \<times> string) \<times> PathDigest"

definition IPAddress_key :: "IPAddress \<Rightarrow> AddrType \<times> u64 \<times> u64 \<times> string" where
  "IPAddress_key a =
     (if is4 a then (IPv4, 0, m_lo a AND 0xffffffff, []) else (IPv6, m_hi a, m_lo a, zone a))"

definition Destination_key :: "Destination \<Rightarrow> DestKey" where
  "Destination_key d = (a_ia (d_address d), IPAddress_key (a_host (d_address d)), d_path d)"

lemma IPAddress_eq_key: "IPAddress_eq a b \<longleftrightarrow> IPAddress_key a = IPAddress_key b"
  by (cases "addr_type a"; cases "addr_type b")
    (auto simp: IPAddress_eq_def IPAddress_compare_def IPAddress_key_def is4_def Let_def compare_values_def
      less_AddrType_def split: if_splits)

lemma Destination_eq_key: "Destination_eq d e \<longleftrightarrow> Destination_key d = Destination_key e"
  by (auto simp: Destination_eq_def Destination_key_def IPAddress_eq_key)

section \<open>The store\<close>

record MtuNode =
  nd_id :: nat
  nd_dest :: DestKey
  nd_lastAccess :: nat
  nd_mtu :: u16

record PathMtuDiscoverer =
  mt_maximumMtu :: u16
  mt_capacity :: nat
  mt_mtu :: "MtuNode list"
  mt_index :: "DestKey \<Rightarrow> nat option"
  mt_fresh :: nat

definition PathMtuDiscoverer_make :: "u16 \<Rightarrow> nat \<Rightarrow> PathMtuDiscoverer" where
  "PathMtuDiscoverer_make firstHopMtu capacity =
     \<lparr>mt_maximumMtu = firstHopMtu, mt_capacity = max 1 capacity, mt_mtu = [], mt_index = (\<lambda>_. None), mt_fresh = 0\<rparr>"

definition mtu_setFirstHopMtu :: "PathMtuDiscoverer \<Rightarrow> u16 \<Rightarrow> PathMtuDiscoverer" where
  "mtu_setFirstHopMtu s firstHopMtu = s\<lparr>mt_maximumMtu := firstHopMtu\<rparr>"

definition mtu_size :: "PathMtuDiscoverer \<Rightarrow> nat" where
  "mtu_size s = length (mt_mtu s)"

text \<open>The node an iterator points to; there is none for a dangling iterator.\<close>

definition mtu_node :: "PathMtuDiscoverer \<Rightarrow> nat \<Rightarrow> MtuNode" where
  "mtu_node s i = hd (filter (\<lambda>n. nd_id n = i) (mt_mtu s))"

definition mtu_remove :: "nat \<Rightarrow> MtuNode list \<Rightarrow> MtuNode list" where
  "mtu_remove i ns = filter (\<lambda>n. nd_id n \<noteq> i) ns"

definition mtu_update :: "nat \<Rightarrow> (MtuNode \<Rightarrow> MtuNode) \<Rightarrow> MtuNode list \<Rightarrow> MtuNode list" where
  "mtu_update i f ns = map (\<lambda>n. if nd_id n = i then f n else n) ns"

definition mtu_setCapacity :: "PathMtuDiscoverer \<Rightarrow> nat \<Rightarrow> nat \<times> PathMtuDiscoverer" where
  "mtu_setCapacity s capacity =
     (let s = s\<lparr>mt_capacity := max 1 capacity\<rparr>
      in if mt_capacity s < length (mt_mtu s)
         then let remove = length (mt_mtu s) - mt_capacity s;
                  index = foldl (\<lambda>index n. index(nd_dest n := None)) (mt_index s) (take remove (mt_mtu s))
              in (remove, s\<lparr>mt_index := index, mt_mtu := drop remove (mt_mtu s)\<rparr>)
         else (0, s))"

definition mtu_get :: "PathMtuDiscoverer \<Rightarrow> DestKey \<Rightarrow> nat \<Rightarrow> u16 option \<times> PathMtuDiscoverer" where
  "mtu_get s dest t =
     (case mt_index s dest of
        Some i \<Rightarrow>
          let node = (mtu_node s i)\<lparr>nd_lastAccess := t\<rparr>
          in (Some (nd_mtu node), s\<lparr>mt_mtu := mtu_remove i (mt_mtu s) @ [node]\<rparr>)
      | None \<Rightarrow> (None, s))"

definition mtu_insert :: "PathMtuDiscoverer \<Rightarrow> DestKey \<Rightarrow> u16 \<Rightarrow> nat \<Rightarrow> PathMtuDiscoverer" where
  "mtu_insert s dest mtu t =
     (let s = (if length (mt_mtu s) \<ge> mt_capacity s
               then s\<lparr>mt_index := (mt_index s)(nd_dest (hd (mt_mtu s)) := None), mt_mtu := drop 1 (mt_mtu s)\<rparr>
               else s);
          i = mt_fresh s
      in s\<lparr>mt_mtu := mt_mtu s @ [\<lparr>nd_id = i, nd_dest = dest, nd_lastAccess = t, nd_mtu = mtu\<rparr>],
           mt_index := (mt_index s)(dest := Some i), mt_fresh := i + 1\<rparr>)"

definition mtu_erase :: "PathMtuDiscoverer \<Rightarrow> DestKey \<Rightarrow> nat \<times> PathMtuDiscoverer" where
  "mtu_erase s dest =
     (case mt_index s dest of
        Some i \<Rightarrow> (1, s\<lparr>mt_mtu := mtu_remove i (mt_mtu s), mt_index := (mt_index s)(dest := None)\<rparr>)
      | None \<Rightarrow> (0, s))"

definition mtu_updateMtu :: "PathMtuDiscoverer \<Rightarrow> DestKey \<Rightarrow> u16 \<Rightarrow> bool \<times> PathMtuDiscoverer" where
  "mtu_updateMtu s dest mtu =
     (case mt_index s dest of
        Some i \<Rightarrow>
          if nd_mtu (mtu_node s i) \<ge> mtu
          then (True, s\<lparr>mt_mtu := mtu_update i (\<lambda>n. n\<lparr>nd_mtu := mtu\<rparr>) (mt_mtu s)\<rparr>)
          else (False, s)
      | None \<Rightarrow> (False, s))"

text \<open>
  The MTU for a destination: \<open>pathMtu\<close> is the MTU of a \<open>Path\<close> object, and zero for other kinds of
  path, which carry none.
\<close>

definition mtu_getMtu :: "PathMtuDiscoverer \<Rightarrow> DestKey \<Rightarrow> u16 \<Rightarrow> nat \<Rightarrow> u16 \<times> PathMtuDiscoverer" where
  "mtu_getMtu s d pathMtu t =
     (case mtu_get s d t of
        (Some mtu, s) \<Rightarrow> (mtu, s)
      | (None, s) \<Rightarrow>
          let mtu = (if pathMtu = 0 then mt_maximumMtu s else pathMtu)
          in (mtu, mtu_insert s d mtu t))"

definition mtu_clear_before :: "PathMtuDiscoverer \<Rightarrow> nat \<Rightarrow> nat \<times> PathMtuDiscoverer" where
  "mtu_clear_before s cutoff =
     (let old = takeWhile (\<lambda>n. nd_lastAccess n < cutoff) (mt_mtu s)
      in (length old,
          s\<lparr>mt_index := foldl (\<lambda>index n. index(nd_dest n := None)) (mt_index s) old,
            mt_mtu := drop (length old) (mt_mtu s)\<rparr>))"

definition mtu_clear :: "PathMtuDiscoverer \<Rightarrow> PathMtuDiscoverer" where
  "mtu_clear s = s\<lparr>mt_mtu := [], mt_index := (\<lambda>_. None)\<rparr>"

definition SCION_blank :: SCION where
  "SCION_blank = \<lparr>sc_qos = 0, sc_hlen = 0, sc_nh = 0, sc_ptype = 0, sc_plen = 0, sc_fl = 0,
     sc_dst = \<lparr>a_ia = 0, a_host = UnspecifiedIPv6\<rparr>, sc_src = \<lparr>a_ia = 0, a_host = UnspecifiedIPv6\<rparr>\<rparr>"

text \<open>
  The destination of the packet quoted in an SCMP message. Constructing the raw path throws if
  the path is too long, which cannot happen: the header length leaves at most the maximum size.
\<close>

definition parseScmpPacketQuote :: "u32 \<Rightarrow> byte list \<Rightarrow> Destination option" where
  "parseScmpPacketQuote seed pktQuote =
     (case SCION_serialize SCION_blank (ReadStream (stream_init pktQuote)) of
        (Inl _, _) \<Rightarrow> None
      | (Inr sci, rs) \<Rightarrow>
          (case lookahead (unat (SCION_pathSize sci)) rs of
             (Inl _, _) \<Rightarrow> None
           | (Inr path, _) \<Rightarrow>
               (case RawPath_make (a_ia (sc_src sci)) (a_ia (sc_dst sci)) (sc_ptype sci) path of
                  Inl _ \<Rightarrow> None
                | Inr rp \<Rightarrow>
                    (case RawPath_digest seed rp of
                       None \<Rightarrow> None
                     | Some (d, _) \<Rightarrow> Some \<lparr>d_address = sc_dst sci, d_path = d\<rparr>))))"

definition ScmpParamProblem_InvalidSize :: byte where "ScmpParamProblem_InvalidSize = 19"

definition mtu_handleScmp ::
    "u32 \<Rightarrow> PathMtuDiscoverer \<Rightarrow> ScmpMessage \<Rightarrow> byte list \<Rightarrow> bool \<times> PathMtuDiscoverer" where
  "mtu_handleScmp seed s msg payload =
     (case msg of
        ScmpPacketTooBig mtu \<Rightarrow>
          (case parseScmpPacketQuote seed payload of
             Some dest \<Rightarrow> (True, snd (mtu_updateMtu s (Destination_key dest) mtu))
           | None \<Rightarrow> (True, s))
      | ScmpParamProblem code pointer \<Rightarrow>
          if code = ScmpParamProblem_InvalidSize
          then (case parseScmpPacketQuote seed payload of
                  Some dest \<Rightarrow> (True, snd (mtu_updateMtu s (Destination_key dest) 8000))
                | None \<Rightarrow> (True, s))
          else (True, s)
      | _ \<Rightarrow> (True, s))"

section \<open>Handlers\<close>

text \<open>
  \<open>ScmpHandler::handleScmp\<close> walks the linked handlers until one returns false. Each handler maps its
  state to a result and its new state.
\<close>

fun handleScmp :: "('m \<Rightarrow> 's \<Rightarrow> bool \<times> 's) list \<Rightarrow> 'm \<Rightarrow> 's list \<Rightarrow> 's list" where
  "handleScmp (h # hs) msg (s # ss) =
     (let (continue, s) = h msg s in if \<not> continue then s # ss else s # handleScmp hs msg ss)"
| "handleScmp _ msg ss = ss"

end
