(* ===== verification/PathMtuSpec.thy ===== *)
theory PathMtuSpec
  imports PathMtu
begin

text \<open>
  What the MTU store promises. The locale \<open>lru_store\<close> is the interface its users rely on, stated on
  the MTUs known for the destinations; the list with its index provides it. The steps of the discoverer
  form a transition system whose reachable states satisfy the invariant.
\<close>

section \<open>The interface\<close>

locale lru_store =
  fixes inv :: "'s \<Rightarrow> bool"
    and known :: "'s \<Rightarrow> 'd \<Rightarrow> 'm::linorder option"
    and get :: "'s \<Rightarrow> 'd \<Rightarrow> nat \<Rightarrow> 'm option \<times> 's"
    and ins :: "'s \<Rightarrow> 'd \<Rightarrow> 'm \<Rightarrow> nat \<Rightarrow> 's"
    and lower :: "'s \<Rightarrow> 'd \<Rightarrow> 'm \<Rightarrow> bool \<times> 's"
  assumes get_law: "inv s \<Longrightarrow> inv (snd (get s d t)) \<and> fst (get s d t) = known s d \<and> known (snd (get s d t)) = known s"
    and ins_law: "inv s \<Longrightarrow> known s d = None \<Longrightarrow> inv (ins s d m t) \<and> known (ins s d m t) d = Some m \<and>
      (\<forall>e. e \<noteq> d \<longrightarrow> known (ins s d m t) e = None \<or> known (ins s d m t) e = known s e)"
    and lower_law: "inv s \<Longrightarrow> inv (snd (lower s d m)) \<and>
      (fst (lower s d m) \<longleftrightarrow> (\<exists>k. known s d = Some k \<and> m \<le> k)) \<and>
      known (snd (lower s d m)) = (if fst (lower s d m) then (known s)(d := Some m) else known s)"
begin

text \<open>Looking up a destination and remembering a default for it.\<close>

lemma get_or_insert:
  assumes "inv s" "get s d t = (r, s1)"
  shows "(case r of Some m \<Rightarrow> inv s1 \<and> known s d = Some m \<and> known s1 = known s
     | None \<Rightarrow> known s d = None \<and> inv (ins s1 d m0 t) \<and> known (ins s1 d m0 t) d = Some m0 \<and>
         (\<forall>e. e \<noteq> d \<longrightarrow> known (ins s1 d m0 t) e = None \<or> known (ins s1 d m0 t) e = known s e))"
proof -
  have g: "inv s1" "r = known s d" "known s1 = known s" using get_law [OF assms(1), of d t] assms(2) by auto
  then show ?thesis using ins_law [OF g(1), of d m0 t] by (auto split: option.splits)
qed

text \<open>An update never raises what is known, and never touches another destination.\<close>

lemma lower_le:
  assumes "inv s" "known s e = Some k" "known (snd (lower s d m)) e = Some k'"
  shows "k' \<le> k"
  using lower_law [OF assms(1), of d m] assms(2,3) by (auto split: if_splits)

end

section \<open>The invariant of the list and its index\<close>

definition mtu_inv :: "PathMtuDiscoverer \<Rightarrow> bool" where
  "mtu_inv s \<longleftrightarrow> 1 \<le> mt_capacity s \<and> length (mt_mtu s) \<le> mt_capacity s \<and>
     distinct (map nd_id (mt_mtu s)) \<and> distinct (map nd_dest (mt_mtu s)) \<and>
     (\<forall>n \<in> set (mt_mtu s). nd_id n < mt_fresh s) \<and>
     (\<forall>d i. mt_index s d = Some i \<longleftrightarrow> (\<exists>n \<in> set (mt_mtu s). nd_dest n = d \<and> nd_id n = i))"

definition mtu_known :: "PathMtuDiscoverer \<Rightarrow> DestKey \<Rightarrow> u16 option" where
  "mtu_known s d = map_of (map (\<lambda>n. (nd_dest n, nd_mtu n)) (mt_mtu s)) d"

lemma mtu_invD:
  assumes "mtu_inv s"
  shows "1 \<le> mt_capacity s" "length (mt_mtu s) \<le> mt_capacity s" "distinct (map nd_id (mt_mtu s))"
    "distinct (map nd_dest (mt_mtu s))" "\<And>n. n \<in> set (mt_mtu s) \<Longrightarrow> nd_id n < mt_fresh s"
    "\<And>d i. mt_index s d = Some i \<longleftrightarrow> (\<exists>n \<in> set (mt_mtu s). nd_dest n = d \<and> nd_id n = i)"
  using assms by (auto simp: mtu_inv_def)

lemma map_of_map_filter:
  "map_of (map (\<lambda>n. (f n, g n)) (filter (\<lambda>n. f n \<noteq> d) ns)) e =
   (if e = d then None else map_of (map (\<lambda>n. (f n, g n)) ns) e)"
  by (induction ns) auto

lemma map_of_map_distinct:
  "distinct (map f ns) \<Longrightarrow> n \<in> set ns \<Longrightarrow> map_of (map (\<lambda>n. (f n, g n)) ns) (f n) = Some (g n)"
  by (rule map_of_is_SomeI) (auto simp: comp_def)

lemma map_of_map_snoc:
  "map_of (map (\<lambda>n. (f n, g n)) (ns @ [n])) e =
     (case map_of (map (\<lambda>n. (f n, g n)) ns) e of Some m \<Rightarrow> Some m | None \<Rightarrow> if e = f n then Some (g n) else None)"
  by (induction ns) auto

text \<open>An indexed destination: its node, and what its identifier selects.\<close>

lemma mtu_index_node:
  assumes "mtu_inv s" "mt_index s d = Some i"
  obtains n where "n \<in> set (mt_mtu s)" "nd_dest n = d" "nd_id n = i" "mtu_node s i = n"
    "\<forall>m \<in> set (mt_mtu s). nd_id m = i \<longleftrightarrow> nd_dest m = d"
    "mtu_remove i (mt_mtu s) = filter (\<lambda>m. nd_dest m \<noteq> d) (mt_mtu s)" "mtu_known s d = Some (nd_mtu n)"
proof -
  note inv = mtu_invD [OF assms(1)]
  obtain n where n: "n \<in> set (mt_mtu s)" "nd_dest n = d" "nd_id n = i" using inv(6) assms(2) by blast
  have iff: "nd_id m = i \<longleftrightarrow> nd_dest m = d" if "m \<in> set (mt_mtu s)" for m
    using inv(3,4) n that by (metis distinct_map inj_onD)
  have "\<exists>xs ys. mt_mtu s = xs @ n # ys" using split_list [OF n(1)] .
  then obtain xs ys where s: "mt_mtu s = xs @ n # ys" by blast
  have "i \<notin> nd_id ` set xs" using inv(3) n(3) by (auto simp: s)
  then have "filter (\<lambda>m. nd_id m = i) xs = []" by (auto simp: filter_empty_conv)
  then have "mtu_node s i = n" using n(3) by (simp add: mtu_node_def s)
  moreover have "mtu_remove i (mt_mtu s) = filter (\<lambda>m. nd_dest m \<noteq> d) (mt_mtu s)"
    using iff by (auto simp: mtu_remove_def intro: filter_cong)
  moreover have "mtu_known s d = Some (nd_mtu n)"
    using map_of_map_distinct [OF inv(4) n(1), of nd_mtu] n(2) by (simp add: mtu_known_def)
  ultimately show thesis using that n iff by blast
qed

lemma mtu_index_None: "mtu_inv s \<Longrightarrow> mt_index s d = None \<longleftrightarrow> mtu_known s d = None"
proof -
  assume inv: "mtu_inv s"
  have "mtu_known s d = None \<longleftrightarrow> d \<notin> nd_dest ` set (mt_mtu s)"
    by (simp add: mtu_known_def map_of_eq_None_iff image_image)
  moreover have "mt_index s d = None \<longleftrightarrow> \<not> (\<exists>i. mt_index s d = Some i)" by auto
  ultimately show ?thesis using mtu_invD(6) [OF inv] by auto
qed

section \<open>The operations\<close>

lemma mtu_get_law:
  assumes "mtu_inv s"
  shows "mtu_inv (snd (mtu_get s d t)) \<and> fst (mtu_get s d t) = mtu_known s d \<and>
    mtu_known (snd (mtu_get s d t)) = mtu_known s"
proof (cases "mt_index s d")
  case None
  then show ?thesis using assms mtu_index_None [OF assms, of d] by (auto simp: mtu_get_def)
next
  case (Some i)
  note inv = mtu_invD [OF assms]
  obtain n where n: "n \<in> set (mt_mtu s)" "nd_dest n = d" "nd_id n = i" "mtu_node s i = n"
      "\<forall>m \<in> set (mt_mtu s). nd_id m = i \<longleftrightarrow> nd_dest m = d"
      "mtu_remove i (mt_mtu s) = filter (\<lambda>m. nd_dest m \<noteq> d) (mt_mtu s)" "mtu_known s d = Some (nd_mtu n)"
    using assms Some by (rule mtu_index_node)
  define s' where "s' = snd (mtu_get s d t)"
  have l: "mt_mtu s' = filter (\<lambda>m. nd_dest m \<noteq> d) (mt_mtu s) @ [n\<lparr>nd_lastAccess := t\<rparr>]"
      "mt_index s' = mt_index s" "mt_capacity s' = mt_capacity s" "mt_fresh s' = mt_fresh s"
    using Some n(4,6) by (simp_all add: s'_def mtu_get_def)
  have "length (filter (\<lambda>m. nd_dest m \<noteq> d) (mt_mtu s)) < length (mt_mtu s)"
    using n(1,2) by (intro length_filter_less) auto
  moreover have "i \<notin> nd_id ` set (filter (\<lambda>m. nd_dest m \<noteq> d) (mt_mtu s))" using n(5) by auto
  then have "distinct (map nd_id (mt_mtu s'))" "distinct (map nd_dest (mt_mtu s'))"
    using inv(3,4) n(2,3) by (simp_all add: l distinct_map_filter) auto
  moreover have "(\<exists>m \<in> set (mt_mtu s'). nd_dest m = e \<and> nd_id m = j) \<longleftrightarrow>
      (\<exists>m \<in> set (mt_mtu s). nd_dest m = e \<and> nd_id m = j)" for e j
  proof (cases "e = d")
    case True
    have "(\<exists>m \<in> set (mt_mtu s). nd_dest m = d \<and> nd_id m = j) \<longleftrightarrow> j = i" using n(1,2,3,5) by metis
    then show ?thesis using True n(2,3) by (auto simp: l)
  next
    case False
    then show ?thesis using n(2) by (auto simp: l)
  qed
  ultimately have "mtu_inv s'" using inv n(1) by (auto simp: mtu_inv_def l)
  moreover have "mtu_known s' e = mtu_known s e" for e
    using n(2,7) by (cases "e = d") (simp_all add: mtu_known_def l map_of_map_snoc map_of_map_filter
      del: map_append split: option.splits)
  ultimately show ?thesis using Some n(4,7) by (auto simp: s'_def mtu_get_def)
qed

lemma mtu_insert_law:
  assumes "mtu_inv s" "mtu_known s d = None"
  shows "mtu_inv (mtu_insert s d m t) \<and> mtu_known (mtu_insert s d m t) d = Some m \<and>
    (\<forall>e. e \<noteq> d \<longrightarrow> mtu_known (mtu_insert s d m t) e = None \<or> mtu_known (mtu_insert s d m t) e = mtu_known s e)"
proof -
  note inv = mtu_invD [OF assms(1)]
  have fresh: "d \<notin> nd_dest ` set (mt_mtu s)"
    using assms(2) by (simp add: mtu_known_def map_of_eq_None_iff image_image)
  define ns where "ns = (if mt_capacity s \<le> length (mt_mtu s) then drop 1 (mt_mtu s) else mt_mtu s)"
  define ix where "ix = (if mt_capacity s \<le> length (mt_mtu s)
     then (mt_index s)(nd_dest (hd (mt_mtu s)) := None) else mt_index s)"
  define n where "n = \<lparr>nd_id = mt_fresh s, nd_dest = d, nd_lastAccess = t, nd_mtu = m\<rparr>"
  define s' where "s' = mtu_insert s d m t"
  have l: "mt_mtu s' = ns @ [n]" "mt_index s' = ix(d := Some (mt_fresh s))" "mt_fresh s' = mt_fresh s + 1"
      "mt_capacity s' = mt_capacity s"
    by (simp_all add: s'_def mtu_insert_def Let_def ns_def ix_def n_def)
  have len: "length ns < mt_capacity s"
    using inv(1,2) by (auto simp: ns_def)
  have sub: "set ns \<subseteq> set (mt_mtu s)" using set_drop_subset [of 1 "mt_mtu s"] by (auto simp: ns_def)
  have dist: "distinct (map nd_id ns)" "distinct (map nd_dest ns)"
    using inv(3,4) by (simp_all add: ns_def drop_map [symmetric])
  have ix: "ix e = Some i \<longleftrightarrow> (\<exists>x \<in> set ns. nd_dest x = e \<and> nd_id x = i)" for e i
  proof (cases "mt_capacity s \<le> length (mt_mtu s)")
    case True
    then obtain h ts where h: "mt_mtu s = h # ts" using inv(1) by (cases "mt_mtu s") auto
    then show ?thesis using True inv(6) inv(4) by (auto simp: ix_def ns_def image_iff)
  next
    case False
    then show ?thesis using inv(6) by (simp add: ix_def ns_def)
  qed
  have new: "mt_fresh s \<notin> nd_id ` set ns" "d \<notin> nd_dest ` set ns"
    using inv(5) sub fresh by (fastforce, auto)
  have "(ix(d := Some (mt_fresh s))) e = Some i \<longleftrightarrow> (\<exists>x \<in> set (ns @ [n]). nd_dest x = e \<and> nd_id x = i)" for e i
    using ix [of e i] new(2) by (cases "e = d") (auto simp: n_def)
  moreover have "distinct (map nd_id (ns @ [n]))" "distinct (map nd_dest (ns @ [n]))"
    using dist new by (simp_all add: n_def)
  moreover have "\<forall>x \<in> set (ns @ [n]). nd_id x < mt_fresh s + 1"
    using inv(5) sub by (fastforce simp: n_def)
  ultimately have "mtu_inv s'"
    unfolding mtu_inv_def l using inv(1) len by simp
  moreover have "mtu_known s' d = Some m"
  proof -
    have "map_of (map (\<lambda>n. (nd_dest n, nd_mtu n)) ns) d = None"
      using new(2) by (simp add: map_of_eq_None_iff image_image)
    then show ?thesis by (simp add: mtu_known_def l n_def map_of_map_snoc del: map_append)
  qed
  moreover have "mtu_known s' e = None \<or> mtu_known s' e = mtu_known s e" if "e \<noteq> d" for e
  proof (cases "mt_capacity s \<le> length (mt_mtu s)")
    case True
    then obtain h ts where h: "mt_mtu s = h # ts" using inv(1) by (cases "mt_mtu s") auto
    have "map_of (map (\<lambda>n. (nd_dest n, nd_mtu n)) ts) (nd_dest h) = None"
      using inv(4) h by (simp add: map_of_eq_None_iff image_image)
    then show ?thesis
      using True h that by (cases "e = nd_dest h") (simp_all add: mtu_known_def l n_def ns_def map_of_map_snoc del: map_append
        split: option.splits)
  next
    case False
    then show ?thesis using that by (simp add: mtu_known_def l n_def ns_def map_of_map_snoc del: map_append split: option.splits)
  qed
  ultimately show ?thesis by (simp add: s'_def)
qed

lemma map_of_mtu_update:
  "(\<And>n. n \<in> set ns \<Longrightarrow> nd_id n = i \<longleftrightarrow> nd_dest n = d) \<Longrightarrow>
   map_of (map (\<lambda>n. (nd_dest n, nd_mtu n)) (mtu_update i (\<lambda>n. n\<lparr>nd_mtu := m\<rparr>) ns)) e =
     (if e = d \<and> map_of (map (\<lambda>n. (nd_dest n, nd_mtu n)) ns) d \<noteq> None then Some m
      else map_of (map (\<lambda>n. (nd_dest n, nd_mtu n)) ns) e)"
  by (induction ns) (auto simp: mtu_update_def)

lemma mtu_update_fields:
  "map nd_id (mtu_update i (\<lambda>n. n\<lparr>nd_mtu := m\<rparr>) ns) = map nd_id ns"
  "map nd_dest (mtu_update i (\<lambda>n. n\<lparr>nd_mtu := m\<rparr>) ns) = map nd_dest ns"
  "length (mtu_update i f ns) = length ns"
  by (simp_all add: mtu_update_def)

lemma mtu_updateMtu_law:
  assumes "mtu_inv s"
  shows "mtu_inv (snd (mtu_updateMtu s d m)) \<and>
    (fst (mtu_updateMtu s d m) \<longleftrightarrow> (\<exists>k. mtu_known s d = Some k \<and> m \<le> k)) \<and>
    mtu_known (snd (mtu_updateMtu s d m)) =
      (if fst (mtu_updateMtu s d m) then (mtu_known s)(d := Some m) else mtu_known s)"
proof (cases "mt_index s d")
  case None
  then show ?thesis using assms mtu_index_None [OF assms, of d] by (auto simp: mtu_updateMtu_def)
next
  case (Some i)
  note inv = mtu_invD [OF assms]
  obtain n where n: "n \<in> set (mt_mtu s)" "nd_dest n = d" "nd_id n = i" "mtu_node s i = n"
      "\<forall>m \<in> set (mt_mtu s). nd_id m = i \<longleftrightarrow> nd_dest m = d" "mtu_known s d = Some (nd_mtu n)"
    using mtu_index_node [OF assms Some] by metis
  show ?thesis
  proof (cases "m \<le> nd_mtu n")
    case True
    define s' where "s' = s\<lparr>mt_mtu := mtu_update i (\<lambda>n. n\<lparr>nd_mtu := m\<rparr>) (mt_mtu s)\<rparr>"
    have u: "mtu_updateMtu s d m = (True, s')" using Some n(4) True by (simp add: mtu_updateMtu_def s'_def)
    have ex: "(\<exists>x \<in> set (mtu_update i (\<lambda>n. n\<lparr>nd_mtu := m\<rparr>) ns). nd_dest x = e \<and> nd_id x = j) \<longleftrightarrow>
        (\<exists>x \<in> set ns. nd_dest x = e \<and> nd_id x = j)" for ns e j
      by (induction ns) (auto simp: mtu_update_def)
    have "\<forall>x \<in> set (mtu_update i (\<lambda>n. n\<lparr>nd_mtu := m\<rparr>) (mt_mtu s)). nd_id x < mt_fresh s"
      using inv(5) by (auto simp: mtu_update_def)
    then have "mtu_inv s'" using inv by (simp add: mtu_inv_def s'_def mtu_update_fields ex)
    moreover have "mtu_known s' = (mtu_known s)(d := Some m)"
      using map_of_mtu_update [OF bspec [OF n(5)]] n(6) by (auto simp: mtu_known_def s'_def)
    ultimately show ?thesis using u n(6) True by simp
  next
    case False
    then show ?thesis using Some n(4,6) assms by (simp add: mtu_updateMtu_def)
  qed
qed

interpretation pmtu: lru_store mtu_inv mtu_known mtu_get mtu_insert mtu_updateMtu
  by unfold_locales (fact mtu_get_law mtu_insert_law mtu_updateMtu_law)+

section \<open>Forgetting\<close>

lemma foldl_forget:
  "foldl (\<lambda>ix n. ix(nd_dest n := None)) ix ns = (\<lambda>d. if d \<in> nd_dest ` set ns then None else ix d)"
  by (induction ns arbitrary: ix) auto

lemma map_of_map_drop:
  "distinct (map f ns) \<Longrightarrow> map_of (map (\<lambda>n. (f n, g n)) (drop k ns)) e =
     (if e \<in> f ` set (take k ns) then None else map_of (map (\<lambda>n. (f n, g n)) ns) e)"
proof (induction ns arbitrary: k)
  case (Cons n ns)
  have "f n \<notin> f ` set ns" using Cons.prems by simp
  then have "map_of (map (\<lambda>n. (f n, g n)) ns) (f n) = None"
    by (simp add: map_of_eq_None_iff image_image)
  then show ?case using Cons by (cases k) auto
qed simp

lemma forget_prefix:
  assumes "mtu_inv s" "1 \<le> c" "length (mt_mtu s) - k \<le> c"
    and "s' = s\<lparr>mt_capacity := c, mt_index := foldl (\<lambda>ix n. ix(nd_dest n := None)) (mt_index s) (take k (mt_mtu s)),
      mt_mtu := drop k (mt_mtu s)\<rparr>"
  shows "mtu_inv s'" and "mtu_known s' e = None \<or> mtu_known s' e = mtu_known s e"
proof -
  note inv = mtu_invD [OF assms(1)]
  let ?A = "take k (mt_mtu s)" and ?B = "drop k (mt_mtu s)"
  have app: "mt_mtu s = ?A @ ?B" by simp
  have disj: "nd_dest ` set ?A \<inter> nd_dest ` set ?B = {}"
    using inv(4) by (subst (asm) app) (simp only: map_append distinct_append set_map)
  have set: "set (mt_mtu s) = set ?A \<union> set ?B" by (subst app) (rule set_append)
  have "mt_index s' d = Some i \<longleftrightarrow> (\<exists>n \<in> set ?B. nd_dest n = d \<and> nd_id n = i)" for d i
  proof (cases "d \<in> nd_dest ` set ?A")
    case True
    then show ?thesis using disj by (auto simp: assms(4) foldl_forget)
  next
    case False
    then show ?thesis using inv(6) set by (auto simp: assms(4) foldl_forget)
  qed
  moreover have "distinct (map nd_id ?B)" "distinct (map nd_dest ?B)"
    using inv(3,4) by (simp_all add: drop_map [symmetric])
  ultimately show "mtu_inv s'"
    using assms(2,3) inv(5) set by (simp add: mtu_inv_def assms(4))
  show "mtu_known s' e = None \<or> mtu_known s' e = mtu_known s e"
    using map_of_map_drop [OF inv(4), of nd_mtu k e] by (simp add: mtu_known_def assms(4))
qed

lemma mtu_setCapacity_law:
  assumes "mtu_inv s"
  shows "mtu_inv (snd (mtu_setCapacity s c)) \<and>
    (mtu_known (snd (mtu_setCapacity s c)) e = None \<or> mtu_known (snd (mtu_setCapacity s c)) e = mtu_known s e)"
proof (cases "max 1 c < length (mt_mtu s)")
  case True
  define k where "k = length (mt_mtu s) - max 1 c"
  have s': "snd (mtu_setCapacity s c) = s\<lparr>mt_capacity := max 1 c, mt_index := foldl (\<lambda>ix n. ix(nd_dest n := None))
      (mt_index s) (take k (mt_mtu s)), mt_mtu := drop k (mt_mtu s)\<rparr>"
    using True by (simp add: mtu_setCapacity_def Let_def k_def)
  have "1 \<le> max 1 c" "length (mt_mtu s) - k \<le> max 1 c" by (simp_all add: k_def)
  note p = forget_prefix [OF assms this s']
  show ?thesis using p(1) p(2) [of e] by (rule conjI)
next
  case False
  then have l: "length (mt_mtu s) \<le> max 1 c" by (rule leI)
  have "snd (mtu_setCapacity s c) = s\<lparr>mt_capacity := max 1 c\<rparr>"
    using False by (auto simp: mtu_setCapacity_def Let_def)
  then show ?thesis
    using assms l by (simp add: mtu_inv_def mtu_known_def del: One_nat_def)
qed

lemma mtu_clear_before_law:
  assumes "mtu_inv s"
  shows "mtu_inv (snd (mtu_clear_before s t)) \<and>
    (mtu_known (snd (mtu_clear_before s t)) e = None \<or> mtu_known (snd (mtu_clear_before s t)) e = mtu_known s e)"
proof -
  define k where "k = length (takeWhile (\<lambda>n. nd_lastAccess n < t) (mt_mtu s))"
  have tk: "takeWhile (\<lambda>n. nd_lastAccess n < t) (mt_mtu s) = take k (mt_mtu s)"
    unfolding k_def by (rule takeWhile_eq_take)
  have s': "snd (mtu_clear_before s t) = s\<lparr>mt_capacity := mt_capacity s, mt_index := foldl (\<lambda>ix n. ix(nd_dest n := None))
        (mt_index s) (take k (mt_mtu s)), mt_mtu := drop k (mt_mtu s)\<rparr>"
    unfolding tk [symmetric] by (simp add: mtu_clear_before_def Let_def k_def)
  have "1 \<le> mt_capacity s" "length (mt_mtu s) - k \<le> mt_capacity s" using mtu_invD(1,2) [OF assms] by auto
  note p = forget_prefix [OF assms this s']
  show ?thesis using p(1) p(2) [of e] by (rule conjI)
qed

lemma mtu_erase_law:
  assumes "mtu_inv s"
  shows "mtu_inv (snd (mtu_erase s d))" "mtu_known (snd (mtu_erase s d)) = (mtu_known s)(d := None)"
proof -
  note inv = mtu_invD [OF assms]
  have "mtu_inv (snd (mtu_erase s d)) \<and> mtu_known (snd (mtu_erase s d)) = (mtu_known s)(d := None)"
  proof (cases "mt_index s d")
    case None
    then show ?thesis using assms mtu_index_None [OF assms, of d] by (auto simp: mtu_erase_def fun_upd_idem)
  next
    case (Some i)
    obtain n where n: "n \<in> set (mt_mtu s)" "nd_dest n = d" "nd_id n = i" "mtu_node s i = n"
        "\<forall>m \<in> set (mt_mtu s). nd_id m = i \<longleftrightarrow> nd_dest m = d"
        "mtu_remove i (mt_mtu s) = filter (\<lambda>m. nd_dest m \<noteq> d) (mt_mtu s)" "mtu_known s d = Some (nd_mtu n)"
      using assms Some by (rule mtu_index_node)
    have l: "length (filter (\<lambda>m. nd_dest m \<noteq> d) (mt_mtu s)) \<le> mt_capacity s"
      using le_trans [OF length_filter_le inv(2)] .
    have ix: "((mt_index s)(d := None)) e = Some j \<longleftrightarrow>
        (\<exists>m \<in> set (filter (\<lambda>m. nd_dest m \<noteq> d) (mt_mtu s)). nd_dest m = e \<and> nd_id m = j)" for e j
      using inv(6) [of e j] by (cases "e = d") auto
    have "mtu_inv (snd (mtu_erase s d))"
      using inv(1,3,4,5) l ix Some by (simp add: mtu_inv_def mtu_erase_def n(6) distinct_map_filter)
    moreover have "mtu_known (snd (mtu_erase s d)) = (mtu_known s)(d := None)"
      using Some by (auto simp: mtu_erase_def n(6) mtu_known_def map_of_map_filter)
    ultimately show ?thesis ..
  qed
  then show "mtu_inv (snd (mtu_erase s d))" "mtu_known (snd (mtu_erase s d)) = (mtu_known s)(d := None)" by auto
qed

lemma mtu_clear_law: "mtu_inv s \<Longrightarrow> mtu_inv (mtu_clear s)" "mtu_known (mtu_clear s) = (\<lambda>_. None)"
  by (auto simp: mtu_inv_def mtu_clear_def mtu_known_def)

lemma mtu_make_law: "mtu_inv (PathMtuDiscoverer_make m c)"
  by (auto simp: mtu_inv_def PathMtuDiscoverer_make_def)

lemma mtu_setFirstHopMtu_law:
  "mtu_inv s \<Longrightarrow> mtu_inv (mtu_setFirstHopMtu s m)" "mtu_known (mtu_setFirstHopMtu s m) = mtu_known s"
  by (auto simp: mtu_inv_def mtu_setFirstHopMtu_def mtu_known_def)

text \<open>Looking up an MTU: what is known already, or the default, which is then known.\<close>

lemma mtu_getMtu_law:
  assumes "mtu_inv s" "mtu_getMtu s d p t = (m, s')"
  shows "mtu_inv s' \<and> mtu_known s' d = Some m \<and>
    m = (case mtu_known s d of Some k \<Rightarrow> k | None \<Rightarrow> if p = 0 then mt_maximumMtu s else p) \<and>
    (\<forall>e. e \<noteq> d \<longrightarrow> mtu_known s' e = None \<or> mtu_known s' e = mtu_known s e) \<and>
    (mtu_known s d \<noteq> None \<longrightarrow> mtu_known s' = mtu_known s)"
proof -
  obtain r s1 where g: "mtu_get s d t = (r, s1)" by fastforce
  define w where "w = (if p = 0 then mt_maximumMtu s else p)"
  have "mt_maximumMtu s1 = mt_maximumMtu s"
    using g by (auto simp: mtu_get_def Let_def split: option.splits)
  then have "(m, s') = (case r of Some k \<Rightarrow> (k, s1) | None \<Rightarrow> (w, mtu_insert s1 d w t))"
    using assms(2) by (auto simp: mtu_getMtu_def g Let_def w_def split: option.splits)
  then show ?thesis
    using pmtu.get_or_insert [OF assms(1) g, of w]
    by (cases r) (simp_all add: w_def [symmetric] del: split_paired_All)
qed

lemma mtu_handleScmp_law:
  assumes "mtu_inv s" "mtu_handleScmp seed s msg payload = (r, s')"
  shows "mtu_inv s' \<and> r \<and> (\<forall>e k k'. mtu_known s e = Some k \<longrightarrow> mtu_known s' e = Some k' \<longrightarrow> k' \<le> k) \<and>
    (\<forall>e. mtu_known s e = None \<longleftrightarrow> mtu_known s' e = None)"
proof -
  have "r \<and> (s' = s \<or> (\<exists>d m. s' = snd (mtu_updateMtu s d m)))"
    using assms(2) by (auto simp: mtu_handleScmp_def simp del: split_paired_Ex split_paired_All
        split: ScmpMessage.splits option.splits if_splits)
  moreover have "(mtu_known s e = None) = (mtu_known (snd (mtu_updateMtu s d m)) e = None)" for d m e
    using mtu_updateMtu_law [OF assms(1), of d m] by (auto split: if_splits)
  ultimately show ?thesis
    using assms(1) pmtu.lower_le [OF assms(1)] mtu_updateMtu_law [OF assms(1)]
    by (auto simp del: split_paired_Ex split_paired_All)
qed

section \<open>Steps\<close>

inductive mtu_step :: "u32 \<Rightarrow> PathMtuDiscoverer \<Rightarrow> PathMtuDiscoverer \<Rightarrow> bool" for seed where
  step_getMtu: "mtu_getMtu s d p t = (m, s') \<Longrightarrow> mtu_step seed s s'"
| step_updateMtu: "mtu_updateMtu s d m = (r, s') \<Longrightarrow> mtu_step seed s s'"
| step_forgetMtu: "mtu_erase s d = (n, s') \<Longrightarrow> mtu_step seed s s'"
| step_setCapacity: "mtu_setCapacity s c = (n, s') \<Longrightarrow> mtu_step seed s s'"
| step_setFirstHopMtu: "mtu_setFirstHopMtu s m = s' \<Longrightarrow> mtu_step seed s s'"
| step_clear_before: "mtu_clear_before s t = (n, s') \<Longrightarrow> mtu_step seed s s'"
| step_clear: "mtu_clear s = s' \<Longrightarrow> mtu_step seed s s'"
| step_handleScmp: "mtu_handleScmp seed s msg payload = (r, s') \<Longrightarrow> mtu_step seed s s'"

inductive_cases mtu_stepE: "mtu_step seed s s'"

lemma mtu_step_law:
  assumes "mtu_step seed s s'" "mtu_inv s"
  shows "mtu_inv s' \<and> (\<forall>e k k'. mtu_known s e = Some k \<longrightarrow> mtu_known s' e = Some k' \<longrightarrow> k' \<le> k)"
  using assms(1)
proof (rule mtu_stepE)
  fix d p t m assume "mtu_getMtu s d p t = (m, s')"
  from mtu_getMtu_law [OF assms(2) this] show ?thesis
    by (metis option.distinct(1) option.inject order_refl)
next
  fix d m r assume "mtu_updateMtu s d m = (r, s')"
  then show ?thesis
    using mtu_updateMtu_law [OF assms(2), of d m] pmtu.lower_le [OF assms(2), of _ _ d m] by auto
next
  fix d n assume "mtu_erase s d = (n, s')"
  then show ?thesis using mtu_erase_law [OF assms(2), of d] by (auto split: if_splits)
next
  fix c n assume "mtu_setCapacity s c = (n, s')"
  then show ?thesis using mtu_setCapacity_law [OF assms(2), of c] by (metis option.distinct(1) option.inject order_refl snd_conv)
next
  fix m assume "mtu_setFirstHopMtu s m = s'"
  then show ?thesis using mtu_setFirstHopMtu_law [of s m] assms(2) by auto
next
  fix t n assume "mtu_clear_before s t = (n, s')"
  then show ?thesis using mtu_clear_before_law [OF assms(2), of t] by (metis option.distinct(1) option.inject order_refl snd_conv)
next
  assume "mtu_clear s = s'"
  then show ?thesis using mtu_clear_law [of s] assms(2) by auto
next
  fix msg payload r assume "mtu_handleScmp seed s msg payload = (r, s')"
  then show ?thesis using mtu_handleScmp_law [OF assms(2)] by blast
qed

section \<open>Properties\<close>

text \<open>C32: From construction on, whatever operations follow, the store has at most its capacity of records, its
  index and its list agree, and no operation raises the MTU known for a destination.\<close>

theorem path_mtu_invariant:
  assumes "(mtu_step seed)\<^sup>*\<^sup>* (PathMtuDiscoverer_make firstHopMtu capacity) s"
  shows "mtu_inv s \<and> mtu_size s \<le> mt_capacity s \<and>
    (\<forall>s' e k k'. mtu_step seed s s' \<longrightarrow> mtu_known s e = Some k \<longrightarrow> mtu_known s' e = Some k' \<longrightarrow> k' \<le> k)"
proof -
  have "mtu_inv s" using assms
    by (induction rule: rtranclp_induct) (auto simp: mtu_make_law dest: mtu_step_law)
  then show ?thesis using mtu_step_law [of seed s] mtu_invD(2) [of s] by (auto simp: mtu_size_def)
qed

lemma path_mtu_invariant_witness:
  "\<exists>s. (mtu_step 0)\<^sup>*\<^sup>* (PathMtuDiscoverer_make 1400 1) s \<and> mtu_inv s \<and> mtu_size s = 1 \<and> mt_capacity s = 1"
proof -
  let ?d = "(1, (IPv4, 0, 0, []), 0, 0) :: DestKey"
  let ?s = "snd (mtu_getMtu (PathMtuDiscoverer_make 1400 1) ?d 0 5)"
  have "mtu_step 0 (PathMtuDiscoverer_make 1400 1) ?s" by (rule step_getMtu) (rule prod.collapse [symmetric])
  then have r: "(mtu_step 0)\<^sup>*\<^sup>* (PathMtuDiscoverer_make 1400 1) ?s" by (rule r_into_rtranclp)
  have "mtu_size ?s = 1" "mt_capacity ?s = 1"
    by (simp_all add: mtu_getMtu_def mtu_get_def mtu_insert_def PathMtuDiscoverer_make_def mtu_size_def Let_def)
  then show ?thesis using r path_mtu_invariant [OF r] by blast
qed

text \<open>C33: A lookup returns the known MTU, or else the MTU of the path, or else the one of the first hop, which
  is known from then on; an update succeeds exactly if it does not raise a known MTU.\<close>

theorem path_mtu_functional:
  assumes "mtu_inv s"
  shows "(\<exists>m s'. mtu_getMtu s d p t = (m, s') \<and> mtu_known s' d = Some m \<and>
      m = (case mtu_known s d of Some k \<Rightarrow> k | None \<Rightarrow> if p = 0 then mt_maximumMtu s else p)) \<and>
    (fst (mtu_updateMtu s d m) \<longleftrightarrow> (\<exists>k. mtu_known s d = Some k \<and> m \<le> k)) \<and>
    (fst (mtu_updateMtu s d m) \<longrightarrow> mtu_known (snd (mtu_updateMtu s d m)) = (mtu_known s)(d := Some m)) \<and>
    (\<not> fst (mtu_updateMtu s d m) \<longrightarrow> mtu_known (snd (mtu_updateMtu s d m)) = mtu_known s)"
proof -
  obtain r s' where g: "mtu_getMtu s d p t = (r, s')" by fastforce
  show ?thesis
    using mtu_getMtu_law [OF assms g] g mtu_updateMtu_law [OF assms, of d m] by auto
qed

lemma path_mtu_functional_witness:
  "\<exists>s'. mtu_getMtu (PathMtuDiscoverer_make 1400 2) (1, (IPv4, 0, 0, []), 0, 0) 1300 0 = (1300, s') \<and>
    mtu_known s' (1, (IPv4, 0, 0, []), 0, 0) = Some 1300"
  using path_mtu_functional [OF mtu_make_law [of 1400 2], of "(1, (IPv4, 0, 0, []), 0, 0)" 1300 0]
  by (auto simp: mtu_known_def PathMtuDiscoverer_make_def)

end
