(* ===== verification/PathCache.thy ===== *)
theory PathCache
  imports Path "HOL-Library.AList"
begin

text \<open>
  The path cache (\<open>include/scion/path/cache.hpp\<close>) and the path selection of its users in
  \<open>src/scion_c/scion.cpp\<close> and \<open>scitra/src/scitra-tun/scitra_tun.cpp\<close>. Paths are shared objects that SCMP messages
  mark as broken, so the cache holds pointers into a heap of paths. The hash map is an association list. Every
  clock reading is an argument, and the path provider, a callback, is a function on the state of the cache.
  Times and durations are unbounded integers of nanoseconds.
\<close>

section \<open>State\<close>

type_synonym PathPtr = nat

type_synonym duration = int

datatype Route = Route (rt_src: IsdAsn) (rt_dst: IsdAsn)

record PathSet =
  ps_nextRefresh :: Expiry
  ps_refreshPending :: bool
  ps_paths :: "PathPtr list"

record PathCacheOptions =
  opt_minAcceptedLifetime :: duration
  opt_refreshAtRemaining :: duration
  opt_refreshInterval :: duration

text \<open>The members of the class, and the heap its pointers point into.\<close>

record PathCache =
  pc_opts :: PathCacheOptions
  pc_cache :: "(Route \<times> PathSet) list"
  pc_heap :: "Path list"

text \<open>\<open>std::error_code queryPaths(PathCache&, IsdAsn src, IsdAsn dst)\<close>\<close>

type_synonym PathProvider = "PathCache \<Rightarrow> IsdAsn \<Rightarrow> IsdAsn \<Rightarrow> error_code \<times> PathCache"

definition minutes :: "int \<Rightarrow> duration" where "minutes m = m * 60 * 10 ^ 9"

definition PathCacheOptions_default :: PathCacheOptions where
  "PathCacheOptions_default = \<lparr>opt_minAcceptedLifetime = minutes 5, opt_refreshAtRemaining = minutes 10,
     opt_refreshInterval = minutes 30\<rparr>"

definition PathCache_make :: "PathCacheOptions \<Rightarrow> Path list \<Rightarrow> PathCache" where
  "PathCache_make opts heap = \<lparr>pc_opts = opts, pc_cache = [], pc_heap = heap\<rparr>"

text \<open>A default initialised time point is the epoch.\<close>

definition PathSet_default :: PathSet where
  "PathSet_default = \<lparr>ps_nextRefresh = 0, ps_refreshPending = False, ps_paths = []\<rparr>"

definition cached :: "PathCache \<Rightarrow> Route \<Rightarrow> PathSet option" where
  "cached s r = map_of (pc_cache s) r"

definition path_at :: "PathCache \<Rightarrow> PathPtr \<Rightarrow> Path" where
  "path_at s p = pc_heap s ! p"

definition expiry_at :: "PathCache \<Rightarrow> PathPtr \<Rightarrow> Expiry" where
  "expiry_at s p = pth_expires_by (path_at s p)"

text \<open>Constructing a path object.\<close>

definition alloc_paths :: "PathCache \<Rightarrow> Path list \<Rightarrow> PathPtr list \<times> PathCache" where
  "alloc_paths s ps =
     ([length (pc_heap s) ..< length (pc_heap s) + length ps], s\<lparr>pc_heap := pc_heap s @ ps\<rparr>)"

section \<open>Storing paths\<close>

definition updateNextRefresh :: "PathCache \<Rightarrow> Expiry \<Rightarrow> PathSet \<Rightarrow> PathSet" where
  "updateNextRefresh s now ps =
     (let nextExpiry = foldl (\<lambda>e p. min (expiry_at s p) e) Expiry_max (ps_paths ps)
      in ps\<lparr>ps_nextRefresh := min (nextExpiry - opt_refreshAtRemaining (pc_opts s))
                (now + opt_refreshInterval (pc_opts s)),
             ps_refreshPending := False\<rparr>)"

definition cache_store :: "PathCache \<Rightarrow> Expiry \<Rightarrow> IsdAsn \<Rightarrow> IsdAsn \<Rightarrow> PathPtr list \<Rightarrow> PathCache" where
  "cache_store s now src dst paths =
     (let r = Route src dst;
          ps = (case cached s r of None \<Rightarrow> PathSet_default | Some ps \<Rightarrow> ps);
          ps = ps\<lparr>ps_paths := filter (\<lambda>p. expiry_at s p > now + opt_minAcceptedLifetime (pc_opts s)) paths\<rparr>
      in s\<lparr>pc_cache := AList.update r (updateNextRefresh s now ps) (pc_cache s)\<rparr>)"

definition cache_clear :: "PathCache \<Rightarrow> PathCache" where
  "cache_clear s = s\<lparr>pc_cache := []\<rparr>"

definition cache_clear_route :: "PathCache \<Rightarrow> IsdAsn \<Rightarrow> IsdAsn \<Rightarrow> PathCache" where
  "cache_clear_route s src dst = s\<lparr>pc_cache := AList.delete (Route src dst) (pc_cache s)\<rparr>"

section \<open>Looking up paths\<close>

definition returnValidPaths :: "PathCache \<Rightarrow> Expiry \<Rightarrow> PathSet \<Rightarrow> PathPtr list" where
  "returnValidPaths s now ps = filter (\<lambda>p. expiry_at s p > now) (ps_paths ps)"

definition set_pending :: "PathCache \<Rightarrow> Route \<Rightarrow> PathSet \<Rightarrow> bool \<Rightarrow> PathCache" where
  "set_pending s r ps b = s\<lparr>pc_cache := AList.update r (ps\<lparr>ps_refreshPending := b\<rparr>) (pc_cache s)\<rparr>"

text \<open>
  The first part of \<open>update\<close>, which the thread-safe cache runs under its lock: whether the paths are to be
  refreshed.
\<close>

definition update_flags :: "PathCache \<Rightarrow> Expiry \<Rightarrow> Route \<Rightarrow> bool \<Rightarrow> bool \<times> PathCache" where
  "update_flags s now r refresh =
     (case cached s r of
        Some ps \<Rightarrow>
          let refresh = (if \<not> refresh then \<not> ps_refreshPending ps \<and> ps_nextRefresh ps < now else refresh)
          in (refresh, set_pending s r ps refresh)
      | None \<Rightarrow> (True, set_pending s r PathSet_default True))"

text \<open>The second part: asking the provider, or storing the empty path within an AS.\<close>

definition update_query ::
    "u32 \<Rightarrow> PathProvider \<Rightarrow> PathCache \<Rightarrow> Expiry \<Rightarrow> Route \<Rightarrow> bool \<Rightarrow> error_code \<times> PathCache" where
  "update_query seed queryPaths s now r refresh =
     (if refresh
      then if rt_src r \<noteq> rt_dst r then queryPaths s (rt_src r) (rt_dst r)
           else (case makeEmptyPath seed (rt_src r) of
                   None \<Rightarrow> (undefined_behavior, s)
                 | Some p \<Rightarrow>
                     let (ptrs, s) = alloc_paths s [p] in (Ok, cache_store s now (rt_src r) (rt_dst r) ptrs))
      else (Ok, s))"

definition cache_update ::
    "u32 \<Rightarrow> PathProvider \<Rightarrow> PathCache \<Rightarrow> Expiry \<Rightarrow> Route \<Rightarrow> bool \<Rightarrow> error_code \<times> PathCache" where
  "cache_update seed queryPaths s now r refresh =
     (let (refresh, s) = update_flags s now r refresh in update_query seed queryPaths s now r refresh)"

text \<open>\<open>t0\<close> is the time of the update and \<open>t1\<close> the time the valid paths are chosen.\<close>

definition cache_lookup ::
    "u32 \<Rightarrow> PathProvider \<Rightarrow> PathCache \<Rightarrow> Expiry \<Rightarrow> Expiry \<Rightarrow> IsdAsn \<Rightarrow> IsdAsn \<Rightarrow> bool
      \<Rightarrow> PathPtr list maybe \<times> PathCache" where
  "cache_lookup seed queryPaths s t0 t1 src dst refresh =
     (let r = Route src dst; (ec, s) = cache_update seed queryPaths s t0 r refresh
      in case cached s r of
           Some ps \<Rightarrow>
             if ps_paths ps \<noteq> [] then (Inr (returnValidPaths s t1 ps), s)
             else if ec = Pending then (Inl Pending, s) else (Inr [], s)
         | None \<Rightarrow> if ec = Pending then (Inl Pending, s) else (Inr [], s))"

text \<open>The overload with a receiver: the paths the receiver is called with, if it is called.\<close>

definition cache_lookup_receive ::
    "u32 \<Rightarrow> PathProvider \<Rightarrow> PathCache \<Rightarrow> Expiry \<Rightarrow> Expiry \<Rightarrow> IsdAsn \<Rightarrow> IsdAsn
      \<Rightarrow> error_code \<times> PathPtr list option \<times> PathCache" where
  "cache_lookup_receive seed queryPaths s t0 t1 src dst =
     (let r = Route src dst; (ec, s) = cache_update seed queryPaths s t0 r False
      in case cached s r of
           Some ps \<Rightarrow>
             if ps_paths ps \<noteq> [] then (Ok, Some (filter (\<lambda>p. expiry_at s p > t1) (ps_paths ps)), s)
             else if ec = Pending then (Pending, None, s) else (Ok, None, s)
         | None \<Rightarrow> if ec = Pending then (Pending, None, s) else (Ok, None, s))"

definition cache_prefetch ::
    "u32 \<Rightarrow> PathProvider \<Rightarrow> PathCache \<Rightarrow> Expiry \<Rightarrow> IsdAsn \<Rightarrow> IsdAsn \<Rightarrow> error_code \<times> PathCache" where
  "cache_prefetch seed queryPaths s t0 src dst = cache_update seed queryPaths s t0 (Route src dst) False"

definition cache_lookupCached :: "PathCache \<Rightarrow> Expiry \<Rightarrow> IsdAsn \<Rightarrow> IsdAsn \<Rightarrow> PathPtr list" where
  "cache_lookupCached s now src dst =
     (case cached s (Route src dst) of Some ps \<Rightarrow> returnValidPaths s now ps | None \<Rightarrow> [])"

section \<open>SCMP messages\<close>

definition cached_paths :: "PathCache \<Rightarrow> PathPtr list" where
  "cached_paths s = concat (map (ps_paths \<circ> snd) (pc_cache s))"

text \<open>\<open>ts p\<close> is the reading of the steady clock at which path \<open>p\<close> is marked, the last one if it is cached twice.\<close>

definition mark_broken :: "(Path \<Rightarrow> bool) \<Rightarrow> (PathPtr \<Rightarrow> u64) \<Rightarrow> PathPtr list \<Rightarrow> Path list \<Rightarrow> Path list" where
  "mark_broken hit ts ptrs heap =
     foldl (\<lambda>h p. if hit (h ! p) then h[p := Path_setBroken (h ! p) (ts p)] else h) heap ptrs"

definition cache_handleScmp :: "PathCache \<Rightarrow> (PathPtr \<Rightarrow> u64) \<Rightarrow> ScmpMessage \<Rightarrow> bool \<times> PathCache" where
  "cache_handleScmp s ts msg =
     (case msg of
        ScmpExtIfDown sender iface \<Rightarrow>
          (True, s\<lparr>pc_heap := mark_broken (\<lambda>p. Path_containsInterface p sender iface) ts
             (cached_paths s) (pc_heap s)\<rparr>)
      | ScmpIntConnDown sender ingress egress \<Rightarrow>
          (True, s\<lparr>pc_heap := mark_broken (\<lambda>p. Path_containsHop p sender ingress egress) ts
             (cached_paths s) (pc_heap s)\<rparr>)
      | _ \<Rightarrow> (True, s))"

section \<open>Users of the cache\<close>

text \<open>
  The provider of the C interface: the daemon's reply \<open>rpcPaths\<close>, a list of new paths, is stored
  at once, at the time \<open>now\<close>.
\<close>

definition queryPaths_sync ::
    "(IsdAsn \<Rightarrow> IsdAsn \<Rightarrow> Path list) \<Rightarrow> Expiry \<Rightarrow> PathProvider" where
  "queryPaths_sync rpcPaths now s src dst =
     (let (paths, s) = alloc_paths s (rpcPaths src dst) in (Ok, cache_store s now src dst paths))"

text \<open>The provider of the translator starts a query; its completion stores the paths later.\<close>

definition beginPathQuery :: PathProvider where
  "beginPathQuery s src dst = (Pending, s)"

definition finishPathQuery ::
    "(IsdAsn \<Rightarrow> IsdAsn \<Rightarrow> Path list) \<Rightarrow> PathCache \<Rightarrow> Expiry \<Rightarrow> IsdAsn \<Rightarrow> IsdAsn \<Rightarrow> PathCache" where
  "finishPathQuery rpcPaths s now src dst =
     (let (paths, s) = alloc_paths s (rpcPaths src dst) in cache_store s now src dst paths)"

text \<open>\<open>scion_query_paths\<close> copies at most \<open>paths_len\<close> paths and reports how many there are.\<close>

definition scion_query_paths ::
    "u32 \<Rightarrow> (IsdAsn \<Rightarrow> IsdAsn \<Rightarrow> Path list) \<Rightarrow> PathCache \<Rightarrow> Expiry \<Rightarrow> Expiry \<Rightarrow> IsdAsn \<Rightarrow> IsdAsn \<Rightarrow> nat
      \<Rightarrow> error_code \<times> PathPtr list \<times> nat \<times> PathCache" where
  "scion_query_paths seed rpcPaths s t0 t1 localAS dst paths_len =
     (case cache_lookup seed (queryPaths_sync rpcPaths t0) s t0 t1 localAS dst False of
        (Inl e, s) \<Rightarrow> (e, [], paths_len, s)
      | (Inr res, s) \<Rightarrow>
          let paths = take paths_len res
          in (if length paths < length res then BufferTooSmall else Ok, paths, length res, s))"

definition refreshPath :: "u32 \<Rightarrow> PathCache \<Rightarrow> Expiry \<Rightarrow> Expiry \<Rightarrow> PathPtr \<Rightarrow> PathPtr \<times> PathCache" where
  "refreshPath seed s t0 t1 path =
     (case cache_lookup seed beginPathQuery s t0 t1
         (pth_source (path_at s path)) (pth_destination (path_at s path)) False of
        (Inr paths, s) \<Rightarrow>
          (case find (\<lambda>c. Path_eq (path_at s c) (path_at s path)) paths of
             Some candidate \<Rightarrow> (candidate, s)
           | None \<Rightarrow> (path, s))
      | (Inl _, s) \<Rightarrow> (path, s))"

end
