(* ===== verification/PathCacheSpec.thy ===== *)
theory PathCacheSpec
  imports PathCache
begin

text \<open>
  What the path cache guarantees. The contract a path provider has to keep is a locale, interpreted on the
  providers of the C interface and of the translator; under it every operation keeps the invariant: all
  cached pointers are valid, and no cached path expires earlier than \<open>refreshAtRemaining\<close> after the time its
  set is due for a refresh.
\<close>

section \<open>The invariant\<close>

definition set_ok :: "PathCache \<Rightarrow> PathSet \<Rightarrow> bool" where
  "set_ok s ps \<longleftrightarrow> (\<forall>p \<in> set (ps_paths ps). p < length (pc_heap s) \<and>
     ps_nextRefresh ps + opt_refreshAtRemaining (pc_opts s) \<le> expiry_at s p)"

definition pc_inv :: "PathCache \<Rightarrow> bool" where
  "pc_inv s \<longleftrightarrow> distinct (map fst (pc_cache s)) \<and> (\<forall>r ps. cached s r = Some ps \<longrightarrow> set_ok s ps)"

text \<open>Paths are never freed while the cache holds them, and no operation changes their expiry.\<close>

definition heap_ext :: "PathCache \<Rightarrow> PathCache \<Rightarrow> bool" where
  "heap_ext s s' \<longleftrightarrow> pc_opts s' = pc_opts s \<and> length (pc_heap s) \<le> length (pc_heap s') \<and>
     (\<forall>p < length (pc_heap s). expiry_at s' p = expiry_at s p)"

lemma heap_ext_refl [simp]: "heap_ext s s"
  by (simp add: heap_ext_def)

lemma heap_ext_trans: "heap_ext s s' \<Longrightarrow> heap_ext s' s'' \<Longrightarrow> heap_ext s s''"
  by (auto simp: heap_ext_def)

lemma set_ok_ext: "set_ok s ps \<Longrightarrow> heap_ext s s' \<Longrightarrow> set_ok s' ps"
  by (auto simp: set_ok_def heap_ext_def)

lemma pc_inv_ext:
  assumes "pc_inv s" "heap_ext s s'" "pc_cache s' = pc_cache s"
  shows "pc_inv s'"
  using assms set_ok_ext [OF _ assms(2)] by (auto simp: pc_inv_def cached_def)

lemma set_ok_default [simp]: "set_ok s PathSet_default"
  by (simp add: set_ok_def PathSet_default_def)

lemma set_ok_pending [simp]: "set_ok s (ps\<lparr>ps_refreshPending := b\<rparr>) = set_ok s ps"
  by (simp add: set_ok_def)

text \<open>Replacing the set of one route.\<close>

definition put :: "PathCache \<Rightarrow> Route \<Rightarrow> PathSet \<Rightarrow> PathCache" where
  "put s r ps = s\<lparr>pc_cache := AList.update r ps (pc_cache s)\<rparr>"

lemma put_simps [simp]:
  "cached (put s r ps) r' = (if r' = r then Some ps else cached s r')"
  "pc_heap (put s r ps) = pc_heap s" "pc_opts (put s r ps) = pc_opts s"
  "expiry_at (put s r ps) = expiry_at s" "path_at (put s r ps) = path_at s" "set_ok (put s r ps) = set_ok s"
  "heap_ext s (put s r ps)"
  by (simp_all add: put_def cached_def update_conv' expiry_at_def path_at_def set_ok_def heap_ext_def fun_eq_iff)

lemma pc_inv_put: "pc_inv s \<Longrightarrow> set_ok s ps \<Longrightarrow> pc_inv (put s r ps)"
  unfolding pc_inv_def by (simp add: put_def distinct_update) (simp add: put_def [symmetric] set_ok_def)

lemma pc_inv_cached: "pc_inv s \<Longrightarrow> cached s r = Some ps \<Longrightarrow> set_ok s ps"
  by (simp add: pc_inv_def)

lemma set_pending_put: "set_pending s r ps b = put s r (ps\<lparr>ps_refreshPending := b\<rparr>)"
  by (simp add: set_pending_def put_def)

lemma update_flags_law:
  assumes "pc_inv s" "update_flags s now r refresh = (b, s')"
  shows "pc_inv s' \<and> heap_ext s s'"
  using assms by (auto simp: update_flags_def set_pending_put Let_def split: option.splits
      intro!: pc_inv_put dest: pc_inv_cached)

text \<open>The set after a store.\<close>

definition stored :: "PathCache \<Rightarrow> Expiry \<Rightarrow> PathPtr list \<Rightarrow> PathSet \<Rightarrow> PathSet" where
  "stored s now ptrs ps = updateNextRefresh s now
     (ps\<lparr>ps_paths := filter (\<lambda>p. expiry_at s p > now + opt_minAcceptedLifetime (pc_opts s)) ptrs\<rparr>)"

definition cached_or_default :: "PathCache \<Rightarrow> Route \<Rightarrow> PathSet" where
  "cached_or_default s r = (case cached s r of None \<Rightarrow> PathSet_default | Some ps \<Rightarrow> ps)"

lemma cache_store_put:
  "cache_store s now src dst ptrs =
     put s (Route src dst) (stored s now ptrs (cached_or_default s (Route src dst)))"
  by (simp add: cache_store_def put_def stored_def Let_def cached_or_default_def)

lemma foldl_min: "foldl (\<lambda>e p. min (f p) e) (m :: int) ps = Min (insert m (f ` set ps))"
proof (induction ps arbitrary: m)
  case (Cons p ps)
  then show ?case by (simp add: insert_commute [of m]) (cases "ps = []", simp_all add: min.assoc min.commute min.left_commute)
qed simp

lemma stored_simps [simp]:
  "ps_paths (stored s now ptrs ps) = filter (\<lambda>p. expiry_at s p > now + opt_minAcceptedLifetime (pc_opts s)) ptrs"
  "ps_refreshPending (stored s now ptrs ps) = False"
  "ps_nextRefresh (stored s now ptrs ps) =
     min (Min (insert Expiry_max (expiry_at s ` set (ps_paths (stored s now ptrs ps)))) - opt_refreshAtRemaining (pc_opts s))
       (now + opt_refreshInterval (pc_opts s))"
  by (simp_all add: stored_def updateNextRefresh_def Let_def foldl_min)

lemma set_ok_stored:
  assumes "\<forall>p \<in> set ptrs. p < length (pc_heap s)"
  shows "set_ok s (stored s now ptrs ps)"
proof -
  have "ps_nextRefresh (stored s now ptrs ps) + opt_refreshAtRemaining (pc_opts s) \<le> expiry_at s p"
    if "p \<in> set (ps_paths (stored s now ptrs ps))" for p
  proof -
    have "Min (insert Expiry_max (expiry_at s ` set (ps_paths (stored s now ptrs ps)))) \<le> expiry_at s p"
      using that by (intro Min_le) auto
    then show ?thesis unfolding stored_simps(3) by linarith
  qed
  then show ?thesis using assms by (auto simp: set_ok_def simp del: stored_simps(3))
qed

lemma store_inv:
  assumes "pc_inv s" "\<forall>p \<in> set ptrs. p < length (pc_heap s)"
  shows "pc_inv (cache_store s now src dst ptrs)" "heap_ext s (cache_store s now src dst ptrs)"
  using assms by (simp_all add: cache_store_put pc_inv_put set_ok_stored del: stored_simps)

lemma alloc_law:
  assumes "alloc_paths s ps = (ptrs, s')"
  shows "pc_cache s' = pc_cache s" "heap_ext s s'" "\<forall>p \<in> set ptrs. p < length (pc_heap s')"
    "map (path_at s') ptrs = ps" "cached s' = cached s"
proof -
  show "map (path_at s') ptrs = ps"
    using assms by (auto simp: alloc_paths_def path_at_def intro!: nth_equalityI)
qed (use assms in \<open>auto simp: alloc_paths_def heap_ext_def expiry_at_def path_at_def cached_def nth_append\<close>)

lemma alloc_inv: "pc_inv s \<Longrightarrow> alloc_paths s ps = (ptrs, s') \<Longrightarrow> pc_inv s'"
  using alloc_law by (blast intro: pc_inv_ext)

lemma clear_inv:
  "pc_inv (cache_clear s)" "pc_inv s \<Longrightarrow> pc_inv (cache_clear_route s src dst)"
  by (auto simp: pc_inv_def cache_clear_def cache_clear_route_def cached_def distinct_delete delete_conv'
      set_ok_def expiry_at_def path_at_def restrict_map_def split: if_splits)

section \<open>Marking paths\<close>

lemma mark_broken_nth:
  assumes "\<And>p t. hit (Path_setBroken p t) = hit p"
  shows "length (mark_broken hit ts ptrs heap) = length heap \<and>
    (\<forall>p < length heap. mark_broken hit ts ptrs heap ! p =
       (if p \<in> set ptrs \<and> hit (heap ! p) then Path_setBroken (heap ! p) (ts p) else heap ! p))"
  unfolding mark_broken_def
proof (induction ptrs arbitrary: heap)
  case (Cons q ptrs)
  show ?case using assms
    by (cases "q < length heap") (auto simp: Cons.IH nth_list_update Path_setBroken_def)
qed simp

lemma contains_setBroken [simp]:
  "Path_containsInterface (Path_setBroken p t) = Path_containsInterface p"
  "Path_containsHop (Path_setBroken p t) = Path_containsHop p"
  "pth_expires_by (Path_setBroken p t) = pth_expires_by p"
  by (simp_all add: Path_setBroken_def Path_containsInterface_def Path_containsHop_def Path_interfaces_def
      Path_getAttribute_def fun_eq_iff)

text \<open>Which paths a message is about.\<close>

definition hit_by :: "ScmpMessage \<Rightarrow> Path \<Rightarrow> bool" where
  "hit_by msg p = (case msg of
      ScmpExtIfDown sender iface \<Rightarrow> Path_containsInterface p sender iface
    | ScmpIntConnDown sender ingress egress \<Rightarrow> Path_containsHop p sender ingress egress
    | _ \<Rightarrow> False)"

lemma hit_by_setBroken [simp]: "hit_by msg (Path_setBroken p t) = hit_by msg p"
  by (simp add: hit_by_def split: ScmpMessage.split)

lemma handleScmp_mark:
  "\<exists>heap. cache_handleScmp s ts msg = (True, s\<lparr>pc_heap := heap\<rparr>) \<and> length heap = length (pc_heap s) \<and>
    (\<forall>p < length heap. heap ! p =
      (if p \<in> set (cached_paths s) \<and> hit_by msg (pc_heap s ! p) then Path_setBroken (pc_heap s ! p) (ts p)
       else pc_heap s ! p))"
proof -
  have "\<exists>heap. cache_handleScmp s ts msg = (True, s\<lparr>pc_heap := heap\<rparr>) \<and> heap = mark_broken (hit_by msg) ts (cached_paths s) (pc_heap s)"
  proof (cases "\<exists>a b c. msg = ScmpExtIfDown a b \<or> msg = ScmpIntConnDown a b c")
    case True
    then show ?thesis by (auto simp: cache_handleScmp_def hit_by_def [abs_def])
  next
    case False
    have no: "mark_broken (\<lambda>_. False) ts ptrs h = h" for ptrs h
      unfolding mark_broken_def by (induction ptrs) auto
    from False have "hit_by msg = (\<lambda>_. False)" "cache_handleScmp s ts msg = (True, s)"
      by (auto simp: hit_by_def cache_handleScmp_def fun_eq_iff split: ScmpMessage.split)
    then show ?thesis using no by simp
  qed
  then show ?thesis using mark_broken_nth [of "hit_by msg" ts "cached_paths s" "pc_heap s"] by auto
qed

lemma handleScmp_inv:
  assumes "pc_inv s" "cache_handleScmp s ts msg = (b, s')"
  shows "pc_inv s'"
proof -
  obtain heap where h: "s' = s\<lparr>pc_heap := heap\<rparr>" "length heap = length (pc_heap s)"
      "\<forall>p < length heap. heap ! p = (if p \<in> set (cached_paths s) \<and> hit_by msg (pc_heap s ! p)
        then Path_setBroken (pc_heap s ! p) (ts p) else pc_heap s ! p)"
    using handleScmp_mark [of s ts msg] assms(2) by auto
  then have "heap_ext s s'" "pc_cache s' = pc_cache s"
    by (auto simp: heap_ext_def expiry_at_def path_at_def)
  then show ?thesis using assms(1) by (rule pc_inv_ext [rotated])
qed


text \<open>New paths from the daemon, or the empty path, put into the cache.\<close>

lemma alloc_store_law:
  assumes "pc_inv s" "alloc_paths s ps = (ptrs, s1)"
  shows "pc_inv (cache_store s1 now src dst ptrs)" "heap_ext s (cache_store s1 now src dst ptrs)"
  using store_inv [OF alloc_inv [OF assms]] alloc_law [OF assms(2)] by (blast intro: heap_ext_trans)+

section \<open>Providers\<close>

text \<open>A provider may change the cache only through operations that keep the invariant, and frees no path.\<close>

locale path_provider =
  fixes query :: PathProvider
  assumes query_law: "pc_inv s \<Longrightarrow> query s src dst = (e, s') \<Longrightarrow> pc_inv s' \<and> heap_ext s s'"
begin

lemma update_query_law:
  assumes "pc_inv s" "update_query seed query s now r b = (e, s')"
  shows "pc_inv s' \<and> heap_ext s s'"
proof (cases "b \<and> rt_src r = rt_dst r")
  case True
  show ?thesis
  proof (cases "makeEmptyPath seed (rt_src r)")
    case (Some p)
    obtain ptrs s2 where a: "alloc_paths s [p] = (ptrs, s2)" by fastforce
    then have "s' = cache_store s2 now (rt_src r) (rt_dst r) ptrs"
      using assms(2) True Some by (simp add: update_query_def)
    then show ?thesis using alloc_store_law [OF assms(1) a] by simp
  qed (use assms True in \<open>simp add: update_query_def\<close>)
qed (use assms query_law [OF assms(1)] in \<open>auto simp: update_query_def split: if_splits\<close>)

lemma update_law:
  assumes "pc_inv s" "cache_update seed query s now r refresh = (e, s')"
  shows "pc_inv s' \<and> heap_ext s s'"
proof -
  obtain b s1 where f: "update_flags s now r refresh = (b, s1)" by fastforce
  then have s1: "pc_inv s1" "heap_ext s s1"
    using update_flags_law [OF assms(1)] by blast+
  have "update_query seed query s1 now r b = (e, s')" using assms(2) f by (simp add: cache_update_def)
  from update_query_law [OF s1(1) this] show ?thesis using s1(2) heap_ext_trans by blast
qed

text \<open>What a lookup returns was cached, and is valid at the time it is chosen.\<close>

lemma lookup_law:
  assumes "pc_inv s" "cache_lookup seed query s t0 t1 src dst refresh = (res, s')"
  shows "pc_inv s' \<and> heap_ext s s' \<and> (\<forall>ptrs. res = Inr ptrs \<longrightarrow> ptrs = cache_lookupCached s' t1 src dst) \<and>
    (\<forall>e. res = Inl e \<longrightarrow> e = Pending \<and> cache_lookupCached s' t1 src dst = [])"
proof -
  obtain e s1 where u: "cache_update seed query s t0 (Route src dst) refresh = (e, s1)" by fastforce
  have "s' = s1" using assms(2) u by (auto simp: cache_lookup_def split: option.splits if_splits)
  then show ?thesis
    using update_law [OF assms(1) u] assms(2) u
    by (auto simp: cache_lookup_def cache_lookupCached_def returnValidPaths_def split: option.splits if_splits)
qed

lemma prefetch_law:
  "pc_inv s \<Longrightarrow> cache_prefetch seed query s t0 src dst = (e, s') \<Longrightarrow> pc_inv s' \<and> heap_ext s s'"
  unfolding cache_prefetch_def by (rule update_law)

end

interpretation daemon_sync: path_provider "queryPaths_sync rpcPaths now" for rpcPaths now
proof unfold_locales
  fix s src dst e s' assume inv: "pc_inv s" and q: "queryPaths_sync rpcPaths now s src dst = (e, s')"
  obtain ptrs s1 where a: "alloc_paths s (rpcPaths src dst) = (ptrs, s1)" by fastforce
  then show "pc_inv s' \<and> heap_ext s s'"
    using alloc_store_law [OF inv a] q by (auto simp: queryPaths_sync_def)
qed

interpretation daemon_async: path_provider beginPathQuery
  by unfold_locales (auto simp: beginPathQuery_def)


section \<open>Steps\<close>

text \<open>
  The operations of the cache, in any order. The two parts of an update are steps of their own, since other
  threads may run between them in the thread-safe cache.
\<close>

inductive cache_step :: "u32 \<Rightarrow> PathCache \<Rightarrow> PathCache \<Rightarrow> bool" for seed where
  step_lookup: "path_provider query \<Longrightarrow> cache_lookup seed query s t0 t1 src dst refresh = (res, s')
    \<Longrightarrow> cache_step seed s s'"
| step_prefetch: "path_provider query \<Longrightarrow> cache_prefetch seed query s t0 src dst = (e, s')
    \<Longrightarrow> cache_step seed s s'"
| step_flags: "update_flags s t0 r refresh = (b, s') \<Longrightarrow> cache_step seed s s'"
| step_query: "path_provider query \<Longrightarrow> update_query seed query s t0 r b = (e, s') \<Longrightarrow> cache_step seed s s'"
| step_alloc: "alloc_paths s ps = (ptrs, s') \<Longrightarrow> cache_step seed s s'"
| step_store: "\<forall>p \<in> set ptrs. p < length (pc_heap s) \<Longrightarrow> cache_store s now src dst ptrs = s'
    \<Longrightarrow> cache_step seed s s'"
| step_clear: "cache_clear s = s' \<Longrightarrow> cache_step seed s s'"
| step_clear_route: "cache_clear_route s src dst = s' \<Longrightarrow> cache_step seed s s'"
| step_scmp: "cache_handleScmp s ts msg = (b, s') \<Longrightarrow> cache_step seed s s'"

lemma cache_step_inv: "cache_step seed s s' \<Longrightarrow> pc_inv s \<Longrightarrow> pc_inv s'"
proof (induction rule: cache_step.induct)
  case (step_lookup query s t0 t1 src dst refresh res s')
  then show ?case using path_provider.lookup_law by blast
next
  case (step_prefetch query s t0 src dst e s')
  then show ?case using path_provider.prefetch_law by blast
next
  case (step_query query s t0 r b e s')
  then show ?case using path_provider.update_query_law by blast
next
  case (step_flags s t0 r refresh b s')
  show ?case using update_flags_law [OF step_flags(2,1)] ..
next
  case (step_alloc s ps ptrs s')
  show ?case by (rule alloc_inv [OF step_alloc(2,1)])
next
  case (step_store ptrs s now src dst s')
  show ?case using store_inv(1) [OF step_store(3,1), of now src dst] step_store(2) by simp
next
  case (step_clear s s')
  then show ?case using clear_inv(1) [of s] by simp
next
  case (step_clear_route s src dst s')
  then show ?case using clear_inv(2) [of s src dst] by simp
next
  case (step_scmp s ts msg b s')
  show ?case by (rule handleScmp_inv [OF step_scmp(2,1)])
qed

text \<open>Shared cache: another thread's first part takes the pending flag away, and a third asks the provider again.\<close>

lemma pending_flag_lost:
  assumes "cached s r = Some ps" "ps_refreshPending ps" "ps_nextRefresh ps < t"
  shows "\<exists>s'. update_flags s t r False = (False, s') \<and> fst (update_flags s' t r False)"
  using assms by (simp add: update_flags_def set_pending_put)

text \<open>Refreshing a path yields a path that expires at the same time.\<close>

lemma refreshPath_same:
  assumes "refreshPath seed s t0 t1 path = (p, s')"
  shows "p = path \<or> expiry_at s' p = expiry_at s' path \<and> pth_path (path_at s' p) = pth_path (path_at s' path)"
  using assms by (auto simp: refreshPath_def expiry_at_def Path_eq_def find_Some_iff split: prod.splits sum.splits option.splits)

section \<open>Properties\<close>

lemma update_same: "map_of al k = Some v \<Longrightarrow> AList.update k v al = al"
  by (induction al) (auto split: if_splits)

text \<open>While no refresh is due, a lookup asks no provider and changes nothing.\<close>

lemma lookup_fresh:
  assumes "cached s (Route src dst) = Some ps" "\<not> ps_refreshPending ps" "t0 \<le> ps_nextRefresh ps" "ps_paths ps \<noteq> []"
  shows "cache_lookup seed query s t0 t1 src dst False = (Inr (cache_lookupCached s t1 src dst), s)"
proof -
  have "ps\<lparr>ps_refreshPending := False\<rparr> = ps" using assms(2) by (cases ps) simp
  then have "set_pending s (Route src dst) ps False = s"
    using assms(1) by (simp add: set_pending_def update_same cached_def)
  then show ?thesis
    using assms by (simp add: cache_lookup_def cache_update_def update_flags_def update_query_def cache_lookupCached_def)
qed

lemma filter_map_at: "map (path_at s) (filter (\<lambda>p. Q (expiry_at s p)) ptrs) =
    filter (\<lambda>p. Q (pth_expires_by p)) (map (path_at s) ptrs)"
  by (simp add: filter_map comp_def expiry_at_def)

text \<open>After paths have arrived, lookups return those that live long enough.\<close>

lemma finish_law:
  assumes "finishPathQuery rpcPaths s t src dst = s'"
  shows "\<exists>ps. cached s' (Route src dst) = Some ps \<and> \<not> ps_refreshPending ps \<and> pc_opts s' = pc_opts s \<and>
    map (path_at s') (ps_paths ps) =
      filter (\<lambda>p. t + opt_minAcceptedLifetime (pc_opts s) < pth_expires_by p) (rpcPaths src dst) \<and>
    ps_nextRefresh ps = min (Min (insert Expiry_max (expiry_at s' ` set (ps_paths ps))) - opt_refreshAtRemaining (pc_opts s))
      (t + opt_refreshInterval (pc_opts s))"
proof -
  obtain ptrs s1 where a: "alloc_paths s (rpcPaths src dst) = (ptrs, s1)" by fastforce
  have o: "pc_opts s1 = pc_opts s" using alloc_law(2) [OF a] by (simp add: heap_ext_def)
  have m: "map (path_at s1) ptrs = rpcPaths src dst" by (rule alloc_law(4) [OF a])
  have "s' = cache_store s1 t src dst ptrs" using assms a by (simp add: finishPathQuery_def)
  then show ?thesis
    by (simp add: cache_store_put filter_map_at [of s1 "\<lambda>e. t + opt_minAcceptedLifetime (pc_opts s) < e"] m o)
qed

end
