(* ===== verification/PathCacheProperties.thy ===== *)
theory PathCacheProperties
  imports PathCacheSpec
begin

text \<open>
  The properties of the path cache: its invariant, what the C interface returns, how the flag of a pending
  query is lost, and which paths SCMP messages mark as broken.
\<close>

text \<open>C34: In every state reached from an empty cache by its operations, in any order and with any provider that keeps
  its contract, the cached pointers are valid, lookups return only paths that are not expired, and as long as a
  route is not due for a refresh its paths are valid for at least \<open>refreshAtRemaining\<close>.\<close>

theorem path_cache_invariant:
  assumes "(cache_step seed)\<^sup>*\<^sup>* (PathCache_make opts heap) s"
  shows "pc_inv s \<and>
    (\<forall>src dst now. \<forall>p \<in> set (cache_lookupCached s now src dst). p < length (pc_heap s) \<and> now < expiry_at s p) \<and>
    (\<forall>r ps now. cached s r = Some ps \<longrightarrow> now \<le> ps_nextRefresh ps \<longrightarrow>
      (\<forall>p \<in> set (ps_paths ps). now + opt_refreshAtRemaining (pc_opts s) \<le> expiry_at s p))"
proof -
  have "pc_inv (PathCache_make opts heap)" by (simp add: pc_inv_def PathCache_make_def cached_def)
  with assms have "pc_inv s"
    by (induction rule: rtranclp_induct) (auto dest: cache_step_inv)
  then have ok: "\<And>r ps p. cached s r = Some ps \<Longrightarrow> p \<in> set (ps_paths ps) \<Longrightarrow>
      p < length (pc_heap s) \<and> ps_nextRefresh ps + opt_refreshAtRemaining (pc_opts s) \<le> expiry_at s p"
    by (auto simp: set_ok_def dest: pc_inv_cached)
  moreover have "now + opt_refreshAtRemaining (pc_opts s) \<le> expiry_at s p"
    if "cached s r = Some ps" "p \<in> set (ps_paths ps)" "now \<le> ps_nextRefresh ps" for r ps p now
    using ok [OF that(1,2)] that(3) by linarith
  moreover have "p < length (pc_heap s) \<and> now < expiry_at s p" if "p \<in> set (cache_lookupCached s now src dst)" for p src dst now
    using that ok by (cases "cached s (Route src dst)") (auto simp: cache_lookupCached_def returnValidPaths_def)
  ultimately show ?thesis using \<open>pc_inv s\<close> by blast
qed

text \<open>A path for the examples: an empty path that expires after an hour.\<close>

definition hour_path :: Path where
  "hour_path = \<lparr>pth_source = 1, pth_destination = 2, pth_type = 0, pth_expires_by = minutes 60, pth_mtu = 1400,
     pth_hopCount = 0, pth_nextHop = IPEndpoint_default, pth_path = [],
     pth_attrib = [(0, AttrInterfaces [PathHop 1 0 5, PathHop 2 6 0])], pth_broken = 0, pth_digest = (0, 0)\<rparr>"

definition hour_cache :: PathCache where
  "hour_cache = finishPathQuery (\<lambda>_ _. [hour_path]) (PathCache_make PathCacheOptions_default []) 0 1 2"

lemma hour_cache: "cached hour_cache (Route 1 2) = Some \<lparr>ps_nextRefresh = minutes 30, ps_refreshPending = False, ps_paths = [0]\<rparr>"
    "pc_heap hour_cache = [hour_path]" "pc_opts hour_cache = PathCacheOptions_default"
    "pc_cache hour_cache = [(Route 1 2, \<lparr>ps_nextRefresh = minutes 30, ps_refreshPending = False, ps_paths = [0]\<rparr>)]"
  by (simp_all add: hour_cache_def finishPathQuery_def alloc_paths_def cache_store_def cached_def PathCache_make_def
      expiry_at_def path_at_def hour_path_def updateNextRefresh_def PathCacheOptions_default_def minutes_def
      Expiry_max_def PathSet_default_def Let_def)

lemma hour_cache_reached: "(cache_step 0)\<^sup>*\<^sup>* (PathCache_make PathCacheOptions_default []) hour_cache"
proof -
  let ?s = "PathCache_make PathCacheOptions_default []"
  obtain ptrs s1 where a: "alloc_paths ?s [hour_path] = (ptrs, s1)" by fastforce
  have "cache_step 0 ?s s1" using a by (rule step_alloc)
  moreover have "cache_step 0 s1 hour_cache"
    using alloc_law(3) [OF a] by (rule step_store) (simp add: hour_cache_def finishPathQuery_def a)
  ultimately show ?thesis by (meson converse_rtranclp_into_rtranclp r_into_rtranclp)
qed

lemma path_cache_invariant_witness:
  "pc_inv hour_cache \<and> cache_lookupCached hour_cache 0 1 2 = [0] \<and> 0 < expiry_at hour_cache 0"
  using path_cache_invariant [OF hour_cache_reached]
  by (auto simp: cache_lookupCached_def returnValidPaths_def hour_cache expiry_at_def path_at_def hour_path_def minutes_def)

text \<open>C35: Querying paths for a route that is not cached or is due for a refresh asks the daemon, and returns its paths
  that live longer than the minimum and have not expired, in their order; then no lookup asks again until the
  refresh is due.\<close>

theorem path_cache_lookup:
  assumes "src \<noteq> dst"
    "\<forall>ps. cached s (Route src dst) = Some ps \<longrightarrow> \<not> ps_refreshPending ps \<and> ps_nextRefresh ps < t0"
  shows "\<exists>ptrs s' ps. cache_lookup seed (queryPaths_sync rpcPaths t0) s t0 t1 src dst False = (Inr ptrs, s') \<and>
    map (path_at s') ptrs =
      filter (\<lambda>p. t0 + opt_minAcceptedLifetime (pc_opts s) < pth_expires_by p \<and> t1 < pth_expires_by p) (rpcPaths src dst) \<and>
    cached s' (Route src dst) = Some ps \<and>
    (ps_paths ps \<noteq> [] \<longrightarrow> (\<forall>query t t'. t \<le> ps_nextRefresh ps \<longrightarrow>
       cache_lookup seed query s' t t' src dst False = (Inr (cache_lookupCached s' t' src dst), s')))"
proof -
  obtain s1 where f: "update_flags s t0 (Route src dst) False = (True, s1)" "pc_opts s1 = pc_opts s"
    using assms(2) by (cases "cached s (Route src dst)") (auto simp: update_flags_def set_pending_put)
  define s' where "s' = finishPathQuery rpcPaths s1 t0 src dst"
  then have u: "cache_update seed (queryPaths_sync rpcPaths t0) s t0 (Route src dst) False = (Ok, s')"
    using f assms(1)
    by (simp add: cache_update_def update_query_def queryPaths_sync_def finishPathQuery_def split: prod.splits)
  obtain ps where ps: "cached s' (Route src dst) = Some ps" "\<not> ps_refreshPending ps"
      "map (path_at s') (ps_paths ps) =
        filter (\<lambda>p. t0 + opt_minAcceptedLifetime (pc_opts s) < pth_expires_by p) (rpcPaths src dst)"
    using finish_law [OF s'_def [symmetric]] f(2) by metis
  have "cache_lookup seed (queryPaths_sync rpcPaths t0) s t0 t1 src dst False = (Inr (returnValidPaths s' t1 ps), s')"
    using u ps(1) by (auto simp: cache_lookup_def returnValidPaths_def)
  moreover have "map (path_at s') (returnValidPaths s' t1 ps) =
      filter (\<lambda>p. t0 + opt_minAcceptedLifetime (pc_opts s) < pth_expires_by p \<and> t1 < pth_expires_by p) (rpcPaths src dst)"
    unfolding returnValidPaths_def filter_map_at [of s' "\<lambda>e. t1 < e"] ps(3) by (simp add: conj_commute)
  ultimately show ?thesis using ps lookup_fresh [OF ps(1,2)] by metis
qed

lemma path_cache_lookup_witness:
  "\<exists>ptrs s'. cache_lookup 0 (queryPaths_sync (\<lambda>_ _. [hour_path]) 0) (PathCache_make PathCacheOptions_default []) 0 0 1 2 False
     = (Inr ptrs, s') \<and> map (path_at s') ptrs = [hour_path]"
  using path_cache_lookup [of 1 2 "PathCache_make PathCacheOptions_default []" 0 0 "\<lambda>_ _. [hour_path]" 0]
  by (auto simp: PathCache_make_def cached_def PathCacheOptions_default_def hour_path_def minutes_def)

text \<open>C40: A message about a failed interface marks exactly the cached paths that contain the interface, and a message
  about a failed connection those that contain the hop, with the time of marking, also where other owners
  hold them; nothing else changes, and other messages change nothing.\<close>

theorem path_cache_broken:
  "\<exists>s'. cache_handleScmp s ts msg = (True, s') \<and> pc_cache s' = pc_cache s \<and> pc_opts s' = pc_opts s \<and>
    length (pc_heap s') = length (pc_heap s) \<and>
    (\<forall>p < length (pc_heap s). path_at s' p = (path_at s p)\<lparr>pth_broken :=
       (if (\<exists>r ps. (r, ps) \<in> set (pc_cache s) \<and> p \<in> set (ps_paths ps)) \<and>
           ((\<exists>sender iface. msg = ScmpExtIfDown sender iface \<and> Path_containsInterface (path_at s p) sender iface) \<or>
            (\<exists>sender ingress egress. msg = ScmpIntConnDown sender ingress egress \<and>
               Path_containsHop (path_at s p) sender ingress egress))
        then ts p else pth_broken (path_at s p))\<rparr>)"
proof -
  obtain heap where h: "cache_handleScmp s ts msg = (True, s\<lparr>pc_heap := heap\<rparr>)" "length heap = length (pc_heap s)"
      "\<forall>p < length heap. heap ! p = (if p \<in> set (cached_paths s) \<and> hit_by msg (pc_heap s ! p)
        then Path_setBroken (pc_heap s ! p) (ts p) else pc_heap s ! p)"
    using handleScmp_mark [of s ts msg] by blast
  have c: "p \<in> set (cached_paths s) \<longleftrightarrow> (\<exists>r ps. (r, ps) \<in> set (pc_cache s) \<and> p \<in> set (ps_paths ps))" for p
    by (simp add: cached_paths_def Bex_def)
  have m: "hit_by msg q \<longleftrightarrow> (\<exists>sender iface. msg = ScmpExtIfDown sender iface \<and> Path_containsInterface q sender iface) \<or>
            (\<exists>sender ingress egress. msg = ScmpIntConnDown sender ingress egress \<and> Path_containsHop q sender ingress egress)" for q
    by (cases msg) (auto simp: hit_by_def)
  show ?thesis unfolding c [symmetric] m [symmetric] using h by (auto simp: path_at_def Path_setBroken_def)
qed

lemma path_cache_broken_witness:
  "\<exists>s'. cache_handleScmp hour_cache (\<lambda>_. 7) (ScmpExtIfDown 2 6) = (True, s') \<and> pth_broken (path_at s' 0) = 7"
  using path_cache_broken [of hour_cache "\<lambda>_. 7" "ScmpExtIfDown 2 6"]
  by (auto simp: hour_cache path_at_def Path_containsInterface_def Path_interfaces_def Path_getAttribute_def
      hour_path_def PATH_ATTRIBUTE_INTERFACES_def)

end
