(* ===== verification/Stun.thy ===== *)
theory Stun
  imports HdrScmp
begin

text \<open>
  STUN messages (\<open>include/scion/hdr/stun.hpp\<close>), used to find out a mapped address behind a NAT: the
  generic attribute, the attribute with the mapped address, which is masked with the magic cookie and the
  transaction, and the message with its loop over the attributes. A written message is read back.
\<close>

section \<open>Attributes\<close>

definition StunMsg_BindingRequest :: u16 where "StunMsg_BindingRequest = 0x0001"
definition StunMsg_BindingResponse :: u16 where "StunMsg_BindingResponse = 0x0101"

definition StunAttrib_Reserved :: u16 where "StunAttrib_Reserved = 0x0000"
definition StunAttrib_XorMappedAddress :: u16 where "StunAttrib_XorMappedAddress = 0x0020"

definition StunAddrFamily_IPv4 :: byte where "StunAddrFamily_IPv4 = 1"
definition StunAddrFamily_IPv6 :: byte where "StunAddrFamily_IPv6 = 2"

definition magicCookie :: u32 where "magicCookie = 0x2112a442"

record StunAttribute =
  sta_type :: u16
  sta_length :: u16
  sta_value :: "byte list"

definition StunAttribute_default :: StunAttribute where
  "StunAttribute_default = \<lparr>sta_type = StunAttrib_Reserved, sta_length = 0, sta_value = replicate 32 0\<rparr>"

definition StunAttribute_getValueSize :: "StunAttribute \<Rightarrow> nat" where
  "StunAttribute_getValueSize a = min (unat (sta_length a)) (length (sta_value a))"

definition StunAttribute_serialize :: "StunAttribute \<Rightarrow> StunAttribute ser" where
  "StunAttribute_serialize a =
     ser_bind (serializeUint16 (sta_type a)) (\<lambda>type.
     ser_bind (serializeUint16 (sta_length a)) (\<lambda>len.
     ser_bind (read_check (unat len > length (sta_value a)) ''STUN attribute too large'') (\<lambda>_.
     ser_bind (serializeBytes (take (StunAttribute_getValueSize (a\<lparr>sta_length := len\<rparr>)) (sta_value a))) (\<lambda>value.
     ser_return \<lparr>sta_type = type, sta_length = len, sta_value = overwrite (sta_value a) 0 value\<rparr>))))"

text \<open>The attribute class is its address. \<open>memcpy\<close> of the transaction reads little-endian numbers.\<close>

definition StunXorMappedAddress_size :: "IPEndpoint \<Rightarrow> nat" where
  "StunXorMappedAddress_size a = 8 + IPAddress_size (m_host a)"

definition stun_port_mask :: u16 where
  "stun_port_mask = ucast (drop_bit 16 magicCookie)"

definition stun_hi_mask :: "byte list \<Rightarrow> u64" where
  "stun_hi_mask tx = push_bit 32 (ucast magicCookie) OR ucast (byteswapBE (load_le (take 4 tx) :: u32))"

definition stun_lo_mask :: "byte list \<Rightarrow> u64" where
  "stun_lo_mask tx = byteswapBE (load_le (take 8 (drop 4 tx)))"

definition StunXorMappedAddress_serialize :: "byte list \<Rightarrow> IPEndpoint \<Rightarrow> IPEndpoint ser" where
  "StunXorMappedAddress_serialize tx address =
     ser_bind (serializeUint16 StunAttrib_XorMappedAddress) (\<lambda>temp.
     ser_bind (read_check (temp \<noteq> StunAttrib_XorMappedAddress) ''incorrect attribute type'') (\<lambda>_.
     ser_bind (serializeUint16 (of_nat (StunXorMappedAddress_size address - 4))) (\<lambda>len.
     ser_bind (advanceBytes 1) (\<lambda>_.
     ser_bind (serializeByte (if is4 (m_host address) then StunAddrFamily_IPv4 else StunAddrFamily_IPv6)) (\<lambda>family.
     ser_bind (read_check (family = StunAddrFamily_IPv4 \<and> len \<noteq> 8)
       ''STUN XOR-MAPPED_ADDRESS has invalid length'') (\<lambda>_.
     ser_bind (read_check (family = StunAddrFamily_IPv6 \<and> len \<noteq> 20)
       ''STUN XOR-MAPPED_ADDRESS has invalid length'') (\<lambda>_.
     ser_bind (read_check (family \<noteq> StunAddrFamily_IPv4 \<and> family \<noteq> StunAddrFamily_IPv6)
       ''STUN XOR-MAPPED_ADDRESS unexpected address family'') (\<lambda>_.
     ser_bind (if_reading (serializeUint16 0) (serializeUint16 (m_port address XOR stun_port_mask))) (\<lambda>port.
     if family = StunAddrFamily_IPv4 then
       ser_bind (if_reading (serializeUint32 0) (serializeUint32 (getIPv4 (m_host address) XOR magicCookie))) (\<lambda>ip.
       if_reading (ser_return \<lparr>m_host = MakeIPv4 (ip XOR magicCookie), m_port = port XOR stun_port_mask\<rparr>)
         (ser_return address))
     else
       if_reading
         (ser_bind (serializeBytes (replicate 16 0)) (\<lambda>buf.
          let (hi, lo) = getIPv6 (MakeIPv6_bytes buf [])
          in ser_return \<lparr>m_host = MakeIPv6 (hi XOR stun_hi_mask tx) (lo XOR stun_lo_mask tx) [],
               m_port = port XOR stun_port_mask\<rparr>))
         (let (hi, lo) = getIPv6 (m_host address)
          in ser_bind (IPAddress_serialize False (MakeIPv6 (hi XOR stun_hi_mask tx) (lo XOR stun_lo_mask tx) [])) (\<lambda>_.
             ser_return address)))))))))))"

section \<open>The message\<close>

record STUN =
  st_type :: u16
  st_transaction :: "byte list"
  st_mapped :: "IPEndpoint option"

definition stunHeaderSize :: nat where "stunHeaderSize = 20"

definition STUN_size :: "STUN \<Rightarrow> nat" where
  "STUN_size m = stunHeaderSize + (case st_mapped m of None \<Rightarrow> 0 | Some a \<Rightarrow> StunXorMappedAddress_size a)"

text \<open>One round of the loop over the attributes: the mapped address, the generic attribute and the stream after it.\<close>

definition parseAttribute ::
    "byte list \<Rightarrow> IPEndpoint option \<times> StunAttribute \<times> stream \<Rightarrow> string + (IPEndpoint option \<times> StunAttribute \<times> stream)" where
  "parseAttribute tx = (\<lambda>(mapped, attrib, rs).
     case lookahead 2 rs of
       (Inl e, _) \<Rightarrow> Inl e
     | (Inr ptr, rs) \<Rightarrow>
         if byteswapBE (load_le ptr :: u16) = StunAttrib_XorMappedAddress
         then (case StunXorMappedAddress_serialize tx \<lparr>m_host = UnspecifiedIPv6, m_port = 0\<rparr> rs of
                 (Inl e, _) \<Rightarrow> Inl e
               | (Inr a, rs) \<Rightarrow> Inr (Some a, attrib, rs))
         else (case StunAttribute_serialize attrib rs of
                 (Inl e, _) \<Rightarrow> Inl e
               | (Inr attrib, rs) \<Rightarrow>
                   if sta_type attrib < 0x8000 \<and> sta_type attrib > StunAttrib_XorMappedAddress
                   then Inl ''STUN attribute not understood''
                   else Inr (mapped, attrib, rs)))"

text \<open>\<open>while (rs)\<close>; not returning is \<open>None\<close>.\<close>

partial_function (option) parseAttributes ::
    "byte list \<Rightarrow> IPEndpoint option \<times> StunAttribute \<times> stream \<Rightarrow> (string + IPEndpoint option) option" where
  "parseAttributes tx s =
     (if \<not> stream_more (stream_buf (snd (snd s))) then Some (Inr (fst s))
      else case parseAttribute tx s of
             Inl e \<Rightarrow> Some (Inl e)
           | Inr s' \<Rightarrow> parseAttributes tx s')"

declare parseAttributes.simps [code]

text \<open>The loop always ends (\<open>parseAttributes_ends\<close>), so the first case does not occur.\<close>

definition STUN_attributes :: "byte list \<Rightarrow> IPEndpoint option \<Rightarrow> byte list \<Rightarrow> IPEndpoint option ser" where
  "STUN_attributes tx mapped attribs =
     (case parseAttributes tx (mapped, StunAttribute_default, ReadStream (stream_init attribs)) of
        None \<Rightarrow> ser_error ''no termination''
      | Some (Inl e) \<Rightarrow> ser_error e
      | Some (Inr mapped) \<Rightarrow> ser_return mapped)"

definition STUN_serialize :: "STUN \<Rightarrow> STUN ser" where
  "STUN_serialize m =
     ser_bind (serializeUint16 (st_type m)) (\<lambda>type.
     ser_bind (serializeUint16 (of_nat (STUN_size m - stunHeaderSize))) (\<lambda>len.
     ser_bind (serializeUint32 magicCookie) (\<lambda>cookie.
     ser_bind (read_check (cookie \<noteq> magicCookie) ''magic cookie does not match'') (\<lambda>_.
     ser_bind (serializeBytes (st_transaction m)) (\<lambda>tx.
     ser_bind
       (if_reading
         (ser_bind (lookahead (unat len)) (STUN_attributes tx (st_mapped m)))
         (case st_mapped m of
            None \<Rightarrow> ser_return None
          | Some a \<Rightarrow> ser_bind (StunXorMappedAddress_serialize tx a) (\<lambda>a. ser_return (Some a)))) (\<lambda>mapped.
     ser_return \<lparr>st_type = type, st_transaction = tx, st_mapped = mapped\<rparr>))))))"

definition detectStun :: "byte list \<Rightarrow> bool" where
  "detectStun buf \<longleftrightarrow>
     \<not> length buf < stunHeaderSize \<and> (load_le (take 4 (drop 4 buf)) :: u32) = byteswapBE magicCookie"

end
