(* ===== verification/StunSpec.thy ===== *)
theory StunSpec
  imports Stun
begin

text \<open>The wire format of STUN messages: what is written is read back, and the loop over the attributes ends.\<close>

definition stun_mask_host :: "byte list \<Rightarrow> IPAddress \<Rightarrow> IPAddress" where
  "stun_mask_host tx h =
     (if is4 h then MakeIPv4 (getIPv4 h XOR magicCookie)
      else MakeIPv6 (m_hi h XOR stun_hi_mask tx) (m_lo h XOR stun_lo_mask tx) [])"

definition StunXorMappedAddress_bits :: "byte list \<Rightarrow> IPEndpoint \<Rightarrow> bool list" where
  "StunXorMappedAddress_bits tx a =
     to_bits 16 StunAttrib_XorMappedAddress @ to_bits 16 (if is4 (m_host a) then 8 else 20 :: u16)
     @ replicate (8 * 1) False
     @ to_bits 8 (if is4 (m_host a) then StunAddrFamily_IPv4 else StunAddrFamily_IPv6)
     @ to_bits 16 (m_port a XOR stun_port_mask) @ IPAddress_bits (stun_mask_host tx (m_host a))"

definition valid_stun_address :: "IPEndpoint \<Rightarrow> bool" where
  "valid_stun_address a \<longleftrightarrow> wf_ip (m_host a) \<and> zone (m_host a) = []"

lemma xor_twice: "(x XOR m) XOR m = (x :: 'a::len word)"
  by (simp add: xor.assoc)

lemma stun_family [simp]: "StunAddrFamily_IPv4 \<noteq> StunAddrFamily_IPv6" "StunAddrFamily_IPv6 \<noteq> StunAddrFamily_IPv4"
  by (simp_all add: StunAddrFamily_IPv4_def StunAddrFamily_IPv6_def)

lemma stun_address_length: "length (StunXorMappedAddress_bits tx a) = 8 * StunXorMappedAddress_size a"
  by (simp add: StunXorMappedAddress_bits_def StunXorMappedAddress_size_def IPAddress_size_def stun_mask_host_def)

lemma zone_MakeIPv6 [simp]: "zone (MakeIPv6 hi lo z) = z" "m_hi (MakeIPv6 hi lo z) = hi" "m_lo (MakeIPv6 hi lo z) = lo"
    "zone (MakeIPv4 v) = []"
  by (simp_all add: MakeIPv6_def MakeIPv4_def)

lemma stun_length: "(of_nat (StunXorMappedAddress_size a - 4) :: u16) = (if is4 (m_host a) then 8 else 20)"
  by (simp add: StunXorMappedAddress_size_def IPAddress_size_def)

lemma stun_address_writes: "writesB 0 (StunXorMappedAddress_serialize tx a) (StunXorMappedAddress_bits tx a) a"
proof (cases "is4 (m_host a)")
  case True
  show ?thesis
    unfolding StunXorMappedAddress_serialize_def StunXorMappedAddress_bits_def stun_mask_host_def stun_length
      if_P [OF True] IPAddress_bits_make
    by (rule writes_steps | (simp; fail) | simp only: if_True refl)+
next
  case False
  have w: "k mod 8 = 0 \<Longrightarrow> writesB k (IPAddress_serialize False (MakeIPv6 hi lo [])) (to_bits 64 hi @ to_bits 64 lo) (MakeIPv6 hi lo [])" for k hi lo
    using ip6.writes_aligned [of "MakeIPv6 hi lo []" k] zone_MakeIPv6 by simp
  show ?thesis
    unfolding StunXorMappedAddress_serialize_def StunXorMappedAddress_bits_def stun_mask_host_def stun_length
      if_not_P [OF False] IPAddress_bits_make getIPv6_def prod.case Let_def
    by (rule writes_steps w | (simp; fail) | simp only: if_False stun_family)+
qed

lemma stun_address_reads:
  assumes "valid_stun_address a"
  shows "readsB 0 (StunXorMappedAddress_serialize tx a0) (StunXorMappedAddress_bits tx a) a"
proof (cases "is4 (m_host a)")
  case True
  then have h: "MakeIPv4 (getIPv4 (m_host a)) = m_host a"
    using assms wf_is4_eq by (simp add: valid_stun_address_def)
  show ?thesis
    unfolding StunXorMappedAddress_serialize_def StunXorMappedAddress_bits_def stun_mask_host_def
      if_P [OF True] IPAddress_bits_make
    by (rule reads_steps IPEndpoint.equality | (simp add: xor_twice h; fail) | simp only: if_True refl)+
next
  case False
  let ?hi = "m_hi (m_host a) XOR stun_hi_mask tx" and ?lo = "m_lo (m_host a) XOR stun_lo_mask tx"
  let ?bs = "store_be 8 ?hi @ store_be 8 ?lo"
  have h: "MakeIPv6 (m_hi (m_host a)) (m_lo (m_host a)) [] = m_host a"
    using assms False is6_eq by (simp add: valid_stun_address_def)
  have b: "to_bits 64 ?hi @ to_bits 64 ?lo = bits_of ?bs"
    using to_bits_store_be [of 8 ?hi] to_bits_store_be [of 8 ?lo] by simp
  have m: "MakeIPv6_bytes ?bs [] = MakeIPv6 ?hi ?lo []"
    using MakeIPv6_toBytes16 [of "MakeIPv6 ?hi ?lo []"] toBytes16_store [of "MakeIPv6 ?hi ?lo []"]
    by (simp add: MakeIPv6_def is6_def)
  have rb: "k mod 8 = 0 \<Longrightarrow> readsB k (serializeBytes (replicate 16 0)) (bits_of ?bs) ?bs" for k
    by (rule readsB_serializeBytes) simp_all
  show ?thesis
    unfolding StunXorMappedAddress_serialize_def StunXorMappedAddress_bits_def stun_mask_host_def
      if_not_P [OF False] IPAddress_bits_make b
    by (rule rb reads_steps IPEndpoint.equality | (simp add: m getIPv6_def xor_twice h; fail) | simp only: if_False stun_family m getIPv6_def zone_MakeIPv6 Let_def prod.case)+
qed


lemma stun_address_checks:
  "getsB 0 (StunXorMappedAddress_serialize tx a0)
     (\<lambda>a bs. valid_stun_address a \<and> length bs = length (StunXorMappedAddress_bits tx a))"
  unfolding StunXorMappedAddress_serialize_def
  by (intro gets_steps getsB_if getsB_bind [OF getsB_if_reading [OF getsB_serializeUint16]]
      getsB_bind [OF getsB_if_reading [OF getsB_serializeUint32]])
    (auto simp: valid_stun_address_def StunXorMappedAddress_bits_def stun_mask_host_def getIPv6_def intro!: gets_steps)

interpretation stun_address: checked_codec "StunXorMappedAddress_serialize tx" "StunXorMappedAddress_bits tx"
  valid_stun_address "\<lambda>_. True" for tx
proof
  show "length (StunXorMappedAddress_bits tx a) mod 8 = 0" for a by (simp add: stun_address_length)
qed (blast intro: stun_address_writes stun_address_reads stun_address_checks)+

lemma StunAttribute_gets:
  "getsB 0 (StunAttribute_serialize a0) (\<lambda>a bs. 32 \<le> length bs \<and> length bs mod 8 = 0 \<and>
     length (sta_value a) = length (sta_value a0) \<and> unat (sta_length a) \<le> length (sta_value a0))"
  unfolding StunAttribute_serialize_def
  by (intro gets_steps) (auto simp: not_less)


text \<open>Every round of the loop leaves less to read.\<close>

definition stun_at :: "IPEndpoint option \<times> StunAttribute \<times> stream \<Rightarrow> bit_buf \<Rightarrow> bool" where
  "stun_at s b \<longleftrightarrow> snd (snd s) = ReadStream b \<and> wf_buf b \<and> bit_pos b mod 8 = 0"

lemma parseAttribute_progress:
  assumes "stun_at s b" "parseAttribute tx s = Inr s'"
  shows "\<exists>b'. stun_at s' b' \<and> bits_room b' < bits_room b"
proof -
  obtain mapped attrib where s: "s = (mapped, attrib, ReadStream b)" "wf_buf b" "bit_pos b mod 8 = 0"
    using assms(1) by (cases s) (auto simp: stun_at_def)
  let ?addr = "StunXorMappedAddress_serialize tx \<lparr>m_host = UnspecifiedIPv6, m_port = 0\<rparr> (ReadStream b)"
  let ?attr = "StunAttribute_serialize attrib (ReadStream b)"
  consider a st where "?addr = (Inr a, st)" "s' = (Some a, attrib, st)"
    | a st where "?attr = (Inr a, st)" "s' = (mapped, a, st)"
    using assms(2) unfolding s parseAttribute_def
    by (auto split: prod.splits sum.splits if_splits)
  then show ?thesis
  proof cases
    case 1
    then show ?thesis
      using getsB_progress [OF stun_address_checks _ s(2,3) 1(1)]
      by (auto simp: stun_at_def stun_address_length StunXorMappedAddress_size_def)
  next
    case 2
    then show ?thesis
      using getsB_progress [OF StunAttribute_gets _ s(2,3) 2(1)] by (force simp: stun_at_def)
  qed
qed

lemma parseAttributes_ends:
  assumes "stun_at s b"
  shows "\<exists>r. parseAttributes tx s = Some r"
  using assms
proof (induction "bits_room b" arbitrary: s b rule: less_induct)
  case less
  show ?case
  proof (cases "parseAttribute tx s")
    case (Inl e)
    then show ?thesis by (subst parseAttributes.simps) simp
  next
    case (Inr s')
    then obtain b' where "stun_at s' b'" "bits_room b' < bits_room b"
      using parseAttribute_progress [OF less.prems] by blast
    then obtain r where "parseAttributes tx s' = Some r" using less.hyps by blast
    then show ?thesis using Inr by (subst parseAttributes.simps) simp
  qed
qed

section \<open>The message\<close>

definition valid_STUN :: "STUN \<Rightarrow> bool" where
  "valid_STUN m \<longleftrightarrow> length (st_transaction m) = 12 \<and> (\<forall>a. st_mapped m = Some a \<longrightarrow> valid_stun_address a)"

definition STUN_attr_bits :: "STUN \<Rightarrow> bool list" where
  "STUN_attr_bits m = (case st_mapped m of None \<Rightarrow> [] | Some a \<Rightarrow> StunXorMappedAddress_bits (st_transaction m) a)"

definition STUN_head_bits :: "STUN \<Rightarrow> bool list" where
  "STUN_head_bits m = to_bits 16 (st_type m) @ to_bits 16 (of_nat (STUN_size m - stunHeaderSize) :: u16)
     @ to_bits 32 magicCookie @ bits_of (st_transaction m)"

definition STUN_bits :: "STUN \<Rightarrow> bool list" where
  "STUN_bits m = STUN_head_bits m @ STUN_attr_bits m"

lemma STUN_bits_length: "valid_STUN m \<Longrightarrow> length (STUN_bits m) = 8 * STUN_size m"
  by (simp add: STUN_bits_def STUN_head_bits_def STUN_attr_bits_def STUN_size_def stunHeaderSize_def valid_STUN_def
      stun_address_length split: option.splits)

lemma STUN_writes:
  assumes "valid_STUN m"
  shows "writesB 0 (STUN_serialize m) (STUN_bits m) m"
proof (cases "st_mapped m")
  case None
  show ?thesis
    unfolding STUN_serialize_def STUN_bits_def STUN_head_bits_def STUN_attr_bits_def None option.case append_assoc
    by (rule writes_steps STUN.equality | (simp add: None; fail))+
next
  case (Some a)
  show ?thesis
    unfolding STUN_serialize_def STUN_bits_def STUN_head_bits_def STUN_attr_bits_def Some option.case append_assoc
    by (rule writes_steps STUN.equality stun_address.writes_aligned | (use assms in \<open>simp add: Some valid_STUN_def\<close>; fail))+
qed

text \<open>The attributes of a written message.\<close>

lemma parse_written:
  assumes "valid_STUN m" "bits_of attribs = STUN_attr_bits m"
  shows "parseAttributes (st_transaction m) (None, a0, ReadStream (stream_init attribs)) = Some (Inr (st_mapped m))"
proof (cases "st_mapped m")
  case None
  then have "attribs = []" using assms(2) bits_of_inject [of attribs "[]"] by (simp add: STUN_attr_bits_def)
  then show ?thesis using None by (subst parseAttributes.simps) (simp add: stream_more_def stream_init_def)
next
  case (Some a)
  let ?tx = "st_transaction m"
  have v: "valid_stun_address a" using assms(1) Some by (simp add: valid_STUN_def)
  have bits: "bits_of attribs = StunXorMappedAddress_bits ?tx a" using assms(2) Some by (simp add: STUN_attr_bits_def)
  let ?b0 = "stream_init attribs" and ?n = "length (StunXorMappedAddress_bits ?tx a)"
  obtain b where b: "StunXorMappedAddress_serialize ?tx \<lparr>m_host = UnspecifiedIPv6, m_port = 0\<rparr> (ReadStream ?b0)
      = (Inr a, ReadStream b)" "consumed ?b0 ?n b"
    using stun_address_reads [OF v, of ?tx "\<lparr>m_host = UnspecifiedIPv6, m_port = 0\<rparr>", unfolded readsB_def, THEN spec, of ?b0] bits
    by auto
  have len: "8 * length attribs = ?n" using arg_cong [OF bits, of length] by simp
  have n16: "16 \<le> ?n" by (simp add: stun_address_length StunXorMappedAddress_size_def)
  have "\<not> stream_more b"
  proof -
    have wf: "wf_buf b" and p: "bit_pos b = ?n" and d: "bufdata b = attribs"
      using b(2) by (simp_all add: consumed_def stream_init_def bit_pos_def)
    have "8 * byteIter b = bit_pos b" using wf p stun_address_length by (intro aligned_pos(2)) simp_all
    then show ?thesis using p d len by (simp add: stream_more_def)
  qed
  then have stop: "parseAttributes ?tx (Some a, a0, ReadStream b) = Some (Inr (Some a))"
    by (subst parseAttributes.simps) simp
  have more: "stream_more ?b0" using len n16 by (auto simp: stream_more_def stream_init_def)
  have "bits_of (take 2 attribs) = to_bits 16 StunAttrib_XorMappedAddress"
    using take_bits_of [of 2 attribs] bits by (simp add: StunXorMappedAddress_bits_def)
  also have "\<dots> = bits_of (store_be 2 StunAttrib_XorMappedAddress)"
    using to_bits_store_be [of 2 StunAttrib_XorMappedAddress] by simp
  finally have t2: "take 2 attribs = store_be 2 StunAttrib_XorMappedAddress" by (simp only: bits_of_inject)
  have "byteswapBE (load_le (store_be 2 StunAttrib_XorMappedAddress) :: u16) = StunAttrib_XorMappedAddress"
    by (simp add: byteswapBE_load_le load_be_store_be)
  moreover have "lookahead 2 (ReadStream ?b0) = (Inr (take 2 attribs), ReadStream ?b0)"
    using len n16 by (simp add: ReadStream_lookahead_def stream_init_def bytesLeft_def peek_def npos_def)
  ultimately have "parseAttribute ?tx (None, a0, ReadStream ?b0) = Inr (Some a, a0, ReadStream b)"
    by (simp add: parseAttribute_def t2 b(1))
  then show ?thesis using more stop Some by (subst parseAttributes.simps) simp
qed

text \<open>Reading a message leaves its attributes in the stream, so the rule is about skipping them as well.\<close>

lemma STUN_reads:
  assumes "valid_STUN m" "length (st_transaction m0) = 12" "st_mapped m0 = None"
  shows "readsB 0 (ser_bind (STUN_serialize m0) (\<lambda>v. ser_bind (advanceBytes (STUN_size m - stunHeaderSize)) (\<lambda>_. ser_return v)))
    (STUN_bits m) m"
proof -
  have l8: "length (STUN_attr_bits m) mod 8 = 0"
    by (simp add: STUN_attr_bits_def stun_address_length split: option.split)
  obtain attribs where at: "bits_of attribs = STUN_attr_bits m" using bits_of_surj [OF l8] by (elim exE)
  have len: "length attribs = STUN_size m - stunHeaderSize"
    using arg_cong [OF at, of length]
    by (simp add: STUN_attr_bits_def STUN_size_def stun_address_length split: option.splits)
  have "length attribs \<le> 24"
    by (simp add: len STUN_size_def StunXorMappedAddress_size_def IPAddress_size_def split: option.split)
  then have u: "unat (of_nat (STUN_size m - stunHeaderSize) :: u16) = length attribs"
    by (simp add: len [symmetric] unsigned_of_nat take_bit_nat_eq_self)
  have p: "STUN_attributes (st_transaction m) None attribs = ser_return (st_mapped m)"
    by (simp add: STUN_attributes_def parse_written [OF assms(1) at])
  have tx: "length (st_transaction m) = length (st_transaction m0)"
    using assms by (simp add: valid_STUN_def)
  have body: "readsB k (ser_bind (ser_bind (lookahead (length attribs)) (STUN_attributes (st_transaction m) None))
      (\<lambda>mapped. ser_bind (advanceBytes (STUN_size m - stunHeaderSize))
        (\<lambda>_. ser_return \<lparr>st_type = st_type m, st_transaction = st_transaction m, st_mapped = mapped\<rparr>))) (bits_of attribs) m"
    if "k mod 8 = 0" for k
    unfolding ser_bind_assoc
  proof (rule readsB_lookahead [where ds = attribs and bs' = "[]"])
    have "length attribs \<noteq> npos" using \<open>length attribs \<le> 24\<close> by (simp add: npos_def)
    then show "length attribs \<noteq> npos" .
    show "readsB k (ser_bind (STUN_attributes (st_transaction m) None attribs)
      (\<lambda>mapped. ser_bind (advanceBytes (STUN_size m - stunHeaderSize))
        (\<lambda>_. ser_return \<lparr>st_type = st_type m, st_transaction = st_transaction m, st_mapped = mapped\<rparr>))) (bits_of attribs) m"
      unfolding p ser_bind_return
      by (rule readsB_bind_last [OF readsB_advanceBytes]) (use that len in \<open>auto intro: readsB_return_eq\<close>)
  qed (use that in simp_all)
  show ?thesis
    unfolding STUN_serialize_def STUN_bits_def STUN_head_bits_def ser_bind_assoc append_assoc at [symmetric]
      ser_bind_return assms(3)
    by ((rule readsB_bind_if_reading, subst u, rule body, (simp; fail))
        | rule tx [symmetric] readsB_serializeBytes reads_steps | (simp; fail))+
qed

lemma stun_write_read:
  assumes "valid_STUN m" "STUN_size m \<le> length buf" "length (st_transaction m0) = 12" "st_mapped m0 = None"
  shows "\<exists>b rs. STUN_serialize m (WriteStream (stream_init buf)) = (Inr m, WriteStream b) \<and>
    getPos b = (STUN_size m, 0) \<and> length (bufdata b) = length buf \<and>
    bits_of (take (STUN_size m) (bufdata b)) = STUN_bits m \<and>
    STUN_serialize m0 (ReadStream (stream_init (bufdata b))) = (Inr m, rs)"
proof -
  note len = STUN_bits_length [OF assms(1)]
  obtain b where b: "STUN_serialize m (WriteStream (stream_init buf)) = (Inr m, WriteStream b)"
      "getPos b = (STUN_size m, 0)" "length (bufdata b) = length buf"
      "bits_of (take (STUN_size m) (bufdata b)) = STUN_bits m"
    using writesB_buffer [OF STUN_writes [OF assms(1)], of buf] assms(2) len by auto
  have "bits_of (bufdata b) = STUN_bits m @ bits_of (drop (STUN_size m) (bufdata b))"
    by (metis append_take_drop_id b(4) bits_of_append)
  from readsB_bytes [OF STUN_reads [OF assms(1,3,4)] this] b show ?thesis
    by (auto simp: ser_bind_def ser_return_def split: prod.splits sum.splits)
qed

text \<open>A STUN message, with or without a mapped address, that is written to a buffer is read back from it by any
  message object without a mapped address.\<close>

theorem stun_roundtrip:
  assumes "valid_STUN m" "STUN_size m \<le> length buf" "length (st_transaction m0) = 12" "st_mapped m0 = None"
  shows "\<exists>b rs. STUN_serialize m (WriteStream (stream_init buf)) = (Inr m, WriteStream b) \<and>
    getPos b = (STUN_size m, 0) \<and> STUN_serialize m0 (ReadStream (stream_init (bufdata b))) = (Inr m, rs)"
  using stun_write_read [OF assms] by blast

lemma stun_roundtrip_witness:
  "\<exists>b rs. STUN_serialize \<lparr>st_type = StunMsg_BindingResponse, st_transaction = replicate 12 7,
       st_mapped = Some \<lparr>m_host = MakeIPv4 0x0a000001, m_port = 4000\<rparr>\<rparr> (WriteStream (stream_init (replicate 40 0)))
      = (Inr \<lparr>st_type = StunMsg_BindingResponse, st_transaction = replicate 12 7,
       st_mapped = Some \<lparr>m_host = MakeIPv4 0x0a000001, m_port = 4000\<rparr>\<rparr>, WriteStream b) \<and>
    STUN_serialize \<lparr>st_type = 1, st_transaction = replicate 12 0, st_mapped = None\<rparr> (ReadStream (stream_init (bufdata b)))
      = (Inr \<lparr>st_type = StunMsg_BindingResponse, st_transaction = replicate 12 7,
       st_mapped = Some \<lparr>m_host = MakeIPv4 0x0a000001, m_port = 4000\<rparr>\<rparr>, rs)"
proof -
  let ?m = "\<lparr>st_type = StunMsg_BindingResponse, st_transaction = replicate 12 7,
       st_mapped = Some \<lparr>m_host = MakeIPv4 0x0a000001, m_port = 4000\<rparr>\<rparr>"
  have "valid_STUN ?m" "STUN_size ?m \<le> length (replicate 40 (0 :: byte))"
    by (simp_all add: valid_STUN_def valid_stun_address_def STUN_size_def stunHeaderSize_def StunXorMappedAddress_size_def
        IPAddress_size_def)
  from stun_roundtrip [OF this, of "\<lparr>st_type = 1, st_transaction = replicate 12 0, st_mapped = None\<rparr>"]
  show ?thesis by (metis STUN.select_convs(2,3) length_replicate)
qed

end
