(* ===== verification/Extension.thy ===== *)
theory Extension
  imports HdrScmp
begin

text \<open>
  Extension headers as the packet builder sees them (\<open>include/scion/extensions/extension.hpp\<close>). The virtual
  functions of an extension class are the fields of a record of operations on its objects; the objects of
  all classes in use form one type. The writer adds up sizes and padding, the parser walks over the
  options and hands each to the first extension of its type.
\<close>

datatype Category = HopByHop | EndToEnd

text \<open>An object with its validity flag, and the virtual functions.\<close>

record 'e Extension =
  ext_validFlag :: bool
  ext_object :: 'e

record 'e ExtensionClass =
  cls_category :: "'e \<Rightarrow> Category"
  cls_type :: "'e \<Rightarrow> byte"
  cls_size :: "'e \<Rightarrow> nat \<Rightarrow> nat"
  cls_parse :: "'e Extension \<Rightarrow> 'e Extension ser"
  cls_write :: "'e Extension \<Rightarrow> nat \<Rightarrow> unit ser"

definition Extension_setInvalid :: "'e Extension \<Rightarrow> 'e Extension" where
  "Extension_setInvalid e = e\<lparr>ext_validFlag := False\<rparr>"

text \<open>\<open>-(n + offset) & (align - 1)\<close> in \<open>size_t\<close>, for a power of two \<open>align\<close>.\<close>

definition Extension_padding :: "nat \<Rightarrow> nat \<Rightarrow> nat \<Rightarrow> nat" where
  "Extension_padding n align offset = unat (- (of_nat (n + offset) :: u64) AND (of_nat align - 1))"

definition insertPadding :: "nat \<Rightarrow> unit ser" where
  "insertPadding n =
     (if n = 0 then ser_return ()
      else ser_bind (SciOpt_serialize
        (if n = 1 then \<lparr>so_type = OptType_Pad1, so_dataLen = 1\<rparr>
         else \<lparr>so_type = 1, so_dataLen = of_nat (n - 2)\<rparr>)) (\<lambda>_. ser_return ()))"

definition isHbH :: "'e ExtensionClass \<Rightarrow> 'e Extension \<Rightarrow> bool" where
  "isHbH cls e \<longleftrightarrow> ext_validFlag e \<and> cls_category cls (ext_object e) = HopByHop"

definition isE2E :: "'e ExtensionClass \<Rightarrow> 'e Extension \<Rightarrow> bool" where
  "isE2E cls e \<longleftrightarrow> ext_validFlag e \<and> cls_category cls (ext_object e) = EndToEnd"

text \<open>\<open>HopByHopOpts::minSize\<close> and \<open>EndToEndOpts::minSize\<close>\<close>

definition ExtOpts_minSize :: nat where "ExtOpts_minSize = 2"

definition computeExtSize :: "'e ExtensionClass \<Rightarrow> 'e Extension list \<Rightarrow> nat \<times> nat" where
  "computeExtSize cls exts =
     (let add = (\<lambda>n e. n + cls_size cls (ext_object e) n);
          hbh = (if list_ex (isHbH cls) exts
                 then foldl add (0 + ExtOpts_minSize) (filter (isHbH cls) exts) else 0);
          e2e = (if list_ex (isE2E cls) exts
                 then foldl add (0 + ExtOpts_minSize) (filter (isE2E cls) exts) else 0)
      in (hbh, e2e))"

section \<open>Parsing\<close>

text \<open>The first extension of the given type parses the option: the inner loop with its \<open>break\<close>.\<close>

fun parse_first ::
    "'e ExtensionClass \<Rightarrow> byte \<Rightarrow> 'e Extension list \<Rightarrow> stream \<Rightarrow> ((string + 'e Extension list) \<times> stream) option" where
  "parse_first cls optType [] rs = None"
| "parse_first cls optType (e # exts) rs =
     (if optType = cls_type cls (ext_object e)
      then Some (case cls_parse cls e rs of
                   (Inl err, rs) \<Rightarrow> (Inl err, rs)
                 | (Inr e, rs) \<Rightarrow> (Inr (e # exts), rs))
      else map_option (apfst (map_sum id (\<lambda>es. e # es))) (parse_first cls optType exts rs))"

text \<open>
  One round of the loop over the options. The error of skipping an option that no extension knows is
  propagated but not returned.
\<close>

definition parse_option ::
    "'e ExtensionClass \<Rightarrow> 'e Extension list \<times> stream \<Rightarrow> string + ('e Extension list \<times> stream)" where
  "parse_option cls = (\<lambda>(exts, rs).
     case lookahead 1 rs of
       (Inl e, _) \<Rightarrow> Inl e
     | (Inr nextType, rs) \<Rightarrow>
         (case parse_first cls (nextType ! 0) exts rs of
            Some (Inl e, _) \<Rightarrow> Inl e
          | Some (Inr exts, rs) \<Rightarrow> Inr (exts, rs)
          | None \<Rightarrow> Inr (exts, snd (SciOpt_serialize \<lparr>so_type = OptType_Pad1, so_dataLen = 0\<rparr> rs))))"

partial_function (option) parse_options ::
    "'e ExtensionClass \<Rightarrow> 'e Extension list \<times> stream \<Rightarrow> (string + 'e Extension list) option" where
  "parse_options cls s =
     (if \<not> stream_more (stream_buf (snd s)) then Some (Inr (fst s))
      else case parse_option cls s of
             Inl e \<Rightarrow> Some (Inl e)
           | Inr s' \<Rightarrow> parse_options cls s')"

declare parse_options.simps [code]

definition parseExtensions ::
    "'e ExtensionClass \<Rightarrow> stream \<Rightarrow> 'e Extension list \<Rightarrow> (string + 'e Extension list) option" where
  "parseExtensions cls rs exts = parse_options cls (map Extension_setInvalid exts, rs)"

end
