(* ===== verification/HeaderCache.thy ===== *)
theory HeaderCache
  imports RawPathSpec Extension
begin

text \<open>
  Building packet headers (\<open>include/scion/socket/header_cache.hpp\<close>), with the hash functions of addresses the
  flow label is made from. The transport headers the sockets send are UDP and SCMP, one type here; the
  template's overload resolution is a case distinction on it. The path a packet is sent on is a \<open>RawPath\<close>.
\<close>

section \<open>Hashes\<close>

text \<open>\<open>std::hash\<close> of the address classes, for a 64-bit \<open>size_t\<close>.\<close>

definition murmur_fold :: "u32 \<Rightarrow> byte list \<Rightarrow> u64" where
  "murmur_fold seed key = (let (h0, h1) = MurmurHash3_x64_128 key seed in h0 XOR h1)"

definition Isd_hash :: "u32 \<Rightarrow> Isd \<Rightarrow> u64" where "Isd_hash seed isd = murmur_fold seed (store_le 8 isd)"

definition Asn_hash :: "u32 \<Rightarrow> Asn \<Rightarrow> u64" where "Asn_hash seed asn = murmur_fold seed (store_le 8 asn)"

definition IsdAsn_hash :: "IsdAsn \<Rightarrow> u64" where "IsdAsn_hash isdAsn = isdAsn"

definition IPAddress_hash :: "u32 \<Rightarrow> IPAddress \<Rightarrow> u64" where
  "IPAddress_hash seed ip =
     (if is4 ip then murmur_fold seed (store_le 8 (m_lo ip))
      else murmur_fold seed (store_le 8 (m_hi ip) @ store_le 8 (m_lo ip)))"

definition IPEndpoint_hash :: "u32 \<Rightarrow> IPEndpoint \<Rightarrow> u64" where
  "IPEndpoint_hash seed ep =
     (if is4 (m_host ep)
      then murmur_fold seed (store_le 8 (m_lo (m_host ep)) @ store_le 8 (ucast (m_port ep) :: u64))
      else murmur_fold seed (store_le 8 (m_hi (m_host ep)) @ store_le 8 (m_lo (m_host ep))
             @ store_le 8 (ucast (m_port ep) :: u64)))"

definition Address_hash :: "u32 \<Rightarrow> ScIPAddress \<Rightarrow> u64" where
  "Address_hash seed a = 0 XOR IsdAsn_hash (a_ia a) XOR IPAddress_hash seed (a_host a)"

definition Endpoint_hash :: "u32 \<Rightarrow> ScIPEndpoint \<Rightarrow> u64" where
  "Endpoint_hash seed ep = 0 XOR IsdAsn_hash (e_ia ep) XOR IPEndpoint_hash seed (e_ep ep)"

section \<open>Transport headers\<close>

datatype L4 = L4_UDP UDP | L4_SCMP SCMPH

fun L4_PROTO :: "L4 \<Rightarrow> byte" where
  "L4_PROTO (L4_UDP _) = ScionProto_UDP"
| "L4_PROTO (L4_SCMP _) = ScionProto_SCMP"

fun L4_size :: "L4 \<Rightarrow> nat" where
  "L4_size (L4_UDP _) = UDP_size"
| "L4_size (L4_SCMP h) = SCMP_size h"

fun L4_checksum :: "L4 \<Rightarrow> u32" where
  "L4_checksum (L4_UDP h) = UDP_checksum h"
| "L4_checksum (L4_SCMP h) = SCMP_checksum h"

fun L4_flowLabel :: "L4 \<Rightarrow> u32" where
  "L4_flowLabel (L4_UDP h) = UDP_flowLabel h"
| "L4_flowLabel (L4_SCMP _) = 0"

fun L4_setPayload :: "byte list \<Rightarrow> L4 \<Rightarrow> L4" where
  "L4_setPayload payload (L4_UDP h) = L4_UDP (UDP_setPayload payload h)"
| "L4_setPayload payload (L4_SCMP h) = L4_SCMP h"

fun L4_setPorts :: "u16 \<Rightarrow> u16 \<Rightarrow> L4 \<Rightarrow> L4" where
  "L4_setPorts sport dport (L4_UDP h) = L4_UDP (h\<lparr>udp_sport := sport, udp_dport := dport\<rparr>)"
| "L4_setPorts sport dport (L4_SCMP h) = L4_SCMP h"

fun L4_setChksum :: "u16 \<Rightarrow> L4 \<Rightarrow> L4" where
  "L4_setChksum c (L4_UDP h) = L4_UDP (h\<lparr>udp_chksum := c\<rparr>)"
| "L4_setChksum c (L4_SCMP h) = L4_SCMP (h\<lparr>scmp_chksum := c\<rparr>)"

fun L4_serialize :: "L4 \<Rightarrow> L4 ser" where
  "L4_serialize (L4_UDP h) = ser_bind (UDP_serialize h) (\<lambda>h. ser_return (L4_UDP h))"
| "L4_serialize (L4_SCMP h) = ser_bind (SCMP_serialize h) (\<lambda>h. ser_return (L4_SCMP h))"

section \<open>The header cache\<close>

definition measureHeader ::
    "'e ExtensionClass \<Rightarrow> ScIPEndpoint \<Rightarrow> ScIPEndpoint \<Rightarrow> RawPath \<Rightarrow> 'e Extension list \<Rightarrow> L4 \<Rightarrow> nat" where
  "measureHeader cls to from path extensions l4 =
     (let (hbhExtSize, e2eExtSize) = computeExtSize cls extensions
      in 12 + Address_size (Endpoint_address to) + Address_size (Endpoint_address from) + rp_size path
         + hbhExtSize + e2eExtSize + L4_size l4)"

record HeaderCache =
  hc_scionHdrChksum :: u32
  hc_payloadSize :: u16
  hc_nhOffset :: u16
  hc_l4Offset :: u16
  hc_buffer :: "byte list"

definition HeaderCache_init :: HeaderCache where
  "HeaderCache_init = \<lparr>hc_scionHdrChksum = 0, hc_payloadSize = 0, hc_nhOffset = 0, hc_l4Offset = 0, hc_buffer = []\<rparr>"

definition computeFlowLabel :: "u32 \<Rightarrow> SCION \<Rightarrow> L4 \<Rightarrow> u32" where
  "computeFlowLabel seed scHdr l4 =
     ucast (Address_hash seed (sc_dst scHdr) XOR Address_hash seed (sc_src scHdr)) XOR L4_flowLabel l4"

text \<open>The checksum over pseudo header, transport header and payload, and the part of it from the SCION header.\<close>

definition hc_checksum :: "SCION \<Rightarrow> L4 \<Rightarrow> byte list \<Rightarrow> u32 \<times> u16" where
  "hc_checksum scHdr l4 payload =
     (let chksum = SCION_checksum scHdr (of_nat (L4_size l4 + length payload)) (L4_PROTO l4)
      in (chksum, internetChecksum payload (chksum + L4_checksum l4)))"

text \<open>Steps that also update the offsets stored in the cache.\<close>

type_synonym 'a hser = "HeaderCache \<times> stream \<Rightarrow> (string + 'a) \<times> HeaderCache \<times> stream"

definition hser_bind :: "'a hser \<Rightarrow> ('a \<Rightarrow> 'b hser) \<Rightarrow> 'b hser" where
  "hser_bind m f s = (case m s of (Inl e, s) \<Rightarrow> (Inl e, s) | (Inr a, s) \<Rightarrow> f a s)"

definition hser_lift :: "'a ser \<Rightarrow> 'a hser" where
  "hser_lift m = (\<lambda>(hc, ws). case m ws of (r, ws) \<Rightarrow> (r, hc, ws))"

definition ws_pos :: "stream \<Rightarrow> nat" where
  "ws_pos ws = fst (getPos (stream_buf ws))"

definition set_nhOffset :: "unit hser" where
  "set_nhOffset = (\<lambda>(hc, ws). (Inr (), hc\<lparr>hc_nhOffset := of_nat (ws_pos ws)\<rparr>, ws))"

definition set_l4Offset :: "unit hser" where
  "set_l4Offset = (\<lambda>(hc, ws). (Inr (), hc\<lparr>hc_l4Offset := of_nat (ws_pos ws)\<rparr>, ws))"

fun write_exts :: "'e ExtensionClass \<Rightarrow> 'e Extension list \<Rightarrow> unit hser" where
  "write_exts cls [] s = (Inr (), s)"
| "write_exts cls (e # exts) s =
     hser_bind (hser_lift (\<lambda>ws. cls_write cls e (ws_pos ws) ws)) (\<lambda>_. write_exts cls exts) s"

definition writeHeaders ::
    "'e ExtensionClass \<Rightarrow> SCION \<Rightarrow> RawPath \<Rightarrow> 'e Extension list \<Rightarrow> L4 \<Rightarrow> unit hser" where
  "writeHeaders cls scHdr path extensions l4 =
     (let (hbhExtSize, e2eExtSize) = computeExtSize cls extensions in
     hser_bind (hser_lift (SCION_serialize scHdr)) (\<lambda>_.
     hser_bind (hser_lift (serializeBytes (RawPath_encoded path))) (\<lambda>_.
     hser_bind
       (if hbhExtSize > 0
        then hser_bind set_nhOffset (\<lambda>_.
             hser_lift (HopByHopOpts_serialize
               \<lparr>eo_nh = (if e2eExtSize > 0 then ScionProto_E2EOpt else L4_PROTO l4),
                eo_extLen = of_nat (hbhExtSize div 4) - 1\<rparr>))
        else hser_lift (ser_return \<lparr>eo_nh = 0, eo_extLen = 0\<rparr>)) (\<lambda>_.
     hser_bind (write_exts cls (filter (isHbH cls) extensions)) (\<lambda>_.
     hser_bind
       (if e2eExtSize > 0
        then hser_bind set_nhOffset (\<lambda>_.
             hser_lift (EndToEndOpts_serialize
               \<lparr>eo_nh = L4_PROTO l4, eo_extLen = of_nat (e2eExtSize div 4) - 1\<rparr>))
        else hser_lift (ser_return \<lparr>eo_nh = 0, eo_extLen = 0\<rparr>)) (\<lambda>_.
     hser_bind (write_exts cls (filter (isE2E cls) extensions)) (\<lambda>_.
     hser_bind set_l4Offset (\<lambda>_.
     hser_bind (hser_lift (L4_serialize l4)) (\<lambda>_.
     hser_lift (ser_return ()))))))))))"

definition build_header ::
    "'e ExtensionClass \<Rightarrow> u32 \<Rightarrow> byte \<Rightarrow> ScIPEndpoint \<Rightarrow> ScIPEndpoint \<Rightarrow> RawPath \<Rightarrow> 'e Extension list \<Rightarrow> L4 \<Rightarrow>
      byte list \<Rightarrow> SCION" where
  "build_header cls seed tc to from path extensions l4 payload =
     (let (hbhExtSize, e2eExtSize) = computeExtSize cls extensions;
          scHdr = \<lparr>sc_qos = tc, sc_hlen = 0,
                   sc_nh = (if e2eExtSize > 0 then ScionProto_E2EOpt
                            else if hbhExtSize > 0 then ScionProto_HBHOpt else L4_PROTO l4),
                   sc_ptype = rp_type path, sc_plen = 0, sc_fl = 0,
                   sc_dst = Endpoint_address to, sc_src = Endpoint_address from\<rparr>;
          scHdr = scHdr\<lparr>sc_hlen := of_nat ((SCION_size scHdr + rp_size path) div 4)\<rparr>;
          scHdr = scHdr\<lparr>sc_plen := of_nat (hbhExtSize + e2eExtSize + L4_size l4 + length payload)\<rparr>
      in scHdr\<lparr>sc_fl := computeFlowLabel seed scHdr l4\<rparr>)"

text \<open>The transport header is passed by reference; its new value is part of the result.\<close>

definition HeaderCache_build ::
    "'e ExtensionClass \<Rightarrow> u32 \<Rightarrow> HeaderCache \<Rightarrow> byte \<Rightarrow> ScIPEndpoint \<Rightarrow> ScIPEndpoint \<Rightarrow> RawPath \<Rightarrow>
      'e Extension list \<Rightarrow> L4 \<Rightarrow> byte list \<Rightarrow> error_code \<times> L4 \<times> HeaderCache" where
  "HeaderCache_build cls seed hc tc to from path extensions l4 payload =
     (let hc = hc\<lparr>hc_nhOffset := 4\<rparr>;
          l4 = L4_setPorts (m_port (e_ep from)) (m_port (e_ep to)) l4;
          l4 = L4_setPayload payload l4;
          (hbhExtSize, e2eExtSize) = computeExtSize cls extensions;
          scHdr = build_header cls seed tc to from path extensions l4 payload;
          (chksum, l4Chksum) = hc_checksum scHdr l4 payload;
          hc = hc\<lparr>hc_scionHdrChksum := chksum\<rparr>;
          l4 = L4_setChksum l4Chksum l4;
          hc = hc\<lparr>hc_buffer := resize
                 (4 * unat (sc_hlen scHdr) + hbhExtSize + e2eExtSize + L4_size l4) 0 (hc_buffer hc)\<rparr>
      in case writeHeaders cls scHdr path extensions l4 (hc, WriteStream (stream_init (hc_buffer hc))) of
           (Inl _, hc, ws) \<Rightarrow> (LogicError, l4, hc\<lparr>hc_buffer := bufdata (stream_buf ws)\<rparr>)
         | (Inr _, hc, ws) \<Rightarrow>
             (Ok, l4, hc\<lparr>hc_buffer := bufdata (stream_buf ws), hc_payloadSize := of_nat (length payload)\<rparr>))"

section \<open>Updating the payload\<close>

text \<open>The result of \<open>seek\<close> is ignored; it leaves the position unchanged if it fails.\<close>

definition ser_seek :: "nat \<Rightarrow> unit ser" where
  "ser_seek n st =
     (case st of ReadStream b \<Rightarrow> (Inr (), ReadStream (snd (seek n 0 b)))
      | WriteStream b \<Rightarrow> (Inr (), WriteStream (snd (seek n 0 b))))"

definition updateHeaders :: "HeaderCache \<Rightarrow> u16 \<Rightarrow> L4 \<Rightarrow> unit ser" where
  "updateHeaders hc plen l4 =
     ser_bind (ser_seek 6) (\<lambda>_.
     ser_bind (serializeUint16 plen) (\<lambda>_.
     ser_bind (ser_seek (unat (hc_nhOffset hc))) (\<lambda>_.
     ser_bind (serializeByte (L4_PROTO l4)) (\<lambda>_.
     ser_bind (ser_seek (unat (hc_l4Offset hc))) (\<lambda>_.
     ser_bind (L4_serialize l4) (\<lambda>_.
     ser_return ()))))))"

definition HeaderCache_updatePayload ::
    "HeaderCache \<Rightarrow> L4 \<Rightarrow> byte list \<Rightarrow> error_code \<times> L4 \<times> HeaderCache" where
  "HeaderCache_updatePayload hc l4 payload =
     (case ser_bind (ser_seek 4) (\<lambda>_. ser_bind (serializeByte 0) (\<lambda>nh.
           ser_bind (ser_seek 6) (\<lambda>_. ser_bind (serializeUint16 0) (\<lambda>oldLen. ser_return (nh, oldLen)))))
         (ReadStream (stream_init (hc_buffer hc))) of
        (Inl _, _) \<Rightarrow> (LogicError, l4, hc)
      | (Inr (nh, oldLen), _) \<Rightarrow>
          let newLen = oldLen - (of_nat (length (hc_buffer hc)) - hc_l4Offset hc) - hc_payloadSize hc;
              hc = hc\<lparr>hc_payloadSize := of_nat (length payload)\<rparr>;
              newLen = newLen + (of_nat (L4_size l4) + hc_payloadSize hc);
              l4 = L4_setPayload payload l4;
              hc = hc\<lparr>hc_scionHdrChksum := hc_scionHdrChksum hc + (ucast (L4_PROTO l4) - ucast nh)
                    + (ucast newLen - ucast oldLen)\<rparr>;
              l4 = L4_setChksum 0 l4;
              l4 = L4_setChksum (internetChecksum payload (hc_scionHdrChksum hc + L4_checksum l4)) l4;
              hc = hc\<lparr>hc_buffer := resize (unat (hc_l4Offset hc) + L4_size l4) 0 (hc_buffer hc)\<rparr>
          in case updateHeaders hc newLen l4 (WriteStream (stream_init (hc_buffer hc))) of
               (Inl _, ws) \<Rightarrow> (LogicError, l4, hc\<lparr>hc_buffer := bufdata (stream_buf ws)\<rparr>)
             | (Inr _, ws) \<Rightarrow> (Ok, l4, hc\<lparr>hc_buffer := bufdata (stream_buf ws)\<rparr>))"

end
