(* ===== verification/Packager.thy ===== *)
theory Packager
  imports HeaderCache StunSpec PathMtu
begin

text \<open>
  Parsing packets (\<open>include/scion/socket/parsed_packet.hpp\<close>) and the packet logic of the sockets
  (\<open>include/scion/socket/packager.hpp\<close>): choosing addresses, packing, verifying and unpacking packets, and STUN
  requests and replies. The expected transport protocol is UDP. Random numbers and the calls of the
  SCMP callback are explicit: the former are arguments, the latter part of the result.
\<close>

section \<open>Parsed packets\<close>

record ParsedPacket =
  pp_sci :: SCION
  pp_path :: "byte list"
  pp_hbhOpts :: "byte list"
  pp_e2eOpts :: "byte list"
  pp_l4 :: L4
  pp_payload :: "byte list"

definition UDP_default :: UDP where
  "UDP_default = \<lparr>udp_sport = 0, udp_dport = 0, udp_len = 0, udp_chksum = 0\<rparr>"

definition SCMP_default :: SCMPH where
  "SCMP_default = \<lparr>scmp_chksum = 0, scmp_msg = ScmpUnknownError 0 0\<rparr>"

text \<open>The options of an extension header if \<open>nh\<close> announces one, and the next header.\<close>

definition parse_opts :: "byte \<Rightarrow> (ExtOpts \<Rightarrow> ExtOpts ser) \<Rightarrow> byte \<Rightarrow> (byte list \<times> byte) ser" where
  "parse_opts proto ser nh =
     (if nh = proto
      then ser_bind (ser \<lparr>eo_nh = 0, eo_extLen = 0\<rparr>) (\<lambda>h.
           ser_bind (lookahead (ExtOpts_optionSize h)) (\<lambda>opts.
           ser_bind (advanceBytes (ExtOpts_optionSize h)) (\<lambda>_.
           ser_return (opts, eo_nh h))))
      else ser_return ([], nh))"

text \<open>The position is at the end of the buffer afterwards.\<close>

definition seek_end :: "unit ser" where
  "seek_end = ser_seek npos"

definition ParsedPacket_parse :: "ParsedPacket ser" where
  "ParsedPacket_parse =
     ser_bind (SCION_serialize SCION_blank) (\<lambda>sci.
     ser_bind (lookahead (unat (SCION_pathSize sci))) (\<lambda>path.
     ser_bind (advanceBytes (unat (SCION_pathSize sci))) (\<lambda>_.
     ser_bind (parse_opts ScionProto_HBHOpt HopByHopOpts_serialize (sc_nh sci)) (\<lambda>(hbhOpts, nh).
     ser_bind (parse_opts ScionProto_E2EOpt EndToEndOpts_serialize nh) (\<lambda>(e2eOpts, nh).
     ser_bind
       (if nh = ScionProto_SCMP then L4_serialize (L4_SCMP SCMP_default)
        else if nh = ScionProto_UDP then L4_serialize (L4_UDP UDP_default)
        else ser_error ''unexpected transport header'') (\<lambda>l4.
     ser_bind (lookahead npos) (\<lambda>payload.
     ser_bind seek_end (\<lambda>_.
     ser_return \<lparr>pp_sci = sci, pp_path = path, pp_hbhOpts = hbhOpts, pp_e2eOpts = e2eOpts,
                 pp_l4 = l4, pp_payload = payload\<rparr>))))))))"

definition ParsedPacket_checksum :: "ParsedPacket \<Rightarrow> u16" where
  "ParsedPacket_checksum pkt =
     (let nh = L4_PROTO (pp_l4 pkt);
          checksum = L4_checksum (pp_l4 pkt);
          hbhSize = (of_nat (length (pp_hbhOpts pkt)) :: u16);
          e2eSize = (of_nat (length (pp_e2eOpts pkt)) :: u16);
          len = sc_plen (pp_sci pkt) - hbhSize - e2eSize;
          len = len - (2 * of_bool (hbhSize > 0) + 2 * of_bool (e2eSize > 0));
          checksum = checksum + SCION_checksum (pp_sci pkt) len nh
      in onesComplementChecksumScalar (pp_payload pkt) checksum)"

section \<open>The packager\<close>

record ScionPackager =
  pk_trafficClass :: byte
  pk_local :: ScIPEndpoint
  pk_mapped :: ScIPEndpoint
  pk_remote :: ScIPEndpoint
  pk_expectStunResponse :: bool
  pk_expectedStunServer :: IPAddress
  pk_stunTx :: "byte list"

definition Endpoint_default :: ScIPEndpoint where
  "Endpoint_default = \<lparr>e_ia = 0, e_ep = \<lparr>m_host = UnspecifiedIPv6, m_port = 0\<rparr>\<rparr>"

definition ScionPackager_init :: ScionPackager where
  "ScionPackager_init = \<lparr>pk_trafficClass = 0, pk_local = Endpoint_default, pk_mapped = Endpoint_default,
     pk_remote = Endpoint_default, pk_expectStunResponse = False, pk_expectedStunServer = UnspecifiedIPv6,
     pk_stunTx = replicate 12 0\<rparr>"

definition setLocalEp :: "ScionPackager \<Rightarrow> ScIPEndpoint \<Rightarrow> error_code \<times> ScionPackager" where
  "setLocalEp pk ep =
     (if IPAddress_isUnspecified (m_host (e_ep ep)) then (InvalidArgument, pk)
      else if m_port (e_ep ep) = 0 then (InvalidArgument, pk)
      else (Ok, pk\<lparr>pk_local := ep, pk_mapped := ep\<rparr>))"

definition setMappedIpAndPort :: "ScionPackager \<Rightarrow> IPEndpoint \<Rightarrow> ScionPackager" where
  "setMappedIpAndPort pk mapped = pk\<lparr>pk_mapped := \<lparr>e_ia = e_ia (pk_local pk), e_ep = mapped\<rparr>\<rparr>"

definition setRemoteEp :: "ScionPackager \<Rightarrow> ScIPEndpoint \<Rightarrow> error_code \<times> ScionPackager" where
  "setRemoteEp pk ep = (Ok, pk\<lparr>pk_remote := ep\<rparr>)"

definition setTrafficClass :: "ScionPackager \<Rightarrow> byte \<Rightarrow> ScionPackager" where
  "setTrafficClass pk tc = pk\<lparr>pk_trafficClass := tc\<rparr>"

definition getSourceAddress :: "ScionPackager \<Rightarrow> RawPath \<Rightarrow> ScIPEndpoint maybe" where
  "getSourceAddress pk path =
     (if IsdAsn_isUnspecified (e_ia (pk_mapped pk))
      then Inr \<lparr>e_ia = rp_source path, e_ep = e_ep (pk_mapped pk)\<rparr>
      else if \<not> RawPath_empty path \<and> rp_source path \<noteq> e_ia (pk_mapped pk) then Inl InvalidArgument
      else Inr (pk_mapped pk))"

definition packager_measure ::
    "'e ExtensionClass \<Rightarrow> ScionPackager \<Rightarrow> ScIPEndpoint option \<Rightarrow> RawPath \<Rightarrow> 'e Extension list \<Rightarrow> L4 \<Rightarrow> nat maybe" where
  "packager_measure cls pk to path extensions l4 =
     (case getSourceAddress pk path of
        Inl ec \<Rightarrow> Inl ec
      | Inr from \<Rightarrow>
          let to = (case to of None \<Rightarrow> pk_remote pk | Some to \<Rightarrow> to)
          in if \<not> Address_isFullySpecified (Endpoint_address to) then Inl InvalidArgument
             else Inr (measureHeader cls to from path extensions l4))"

definition packager_pack ::
    "'e ExtensionClass \<Rightarrow> u32 \<Rightarrow> ScionPackager \<Rightarrow> HeaderCache \<Rightarrow> ScIPEndpoint option \<Rightarrow> RawPath \<Rightarrow>
      'e Extension list \<Rightarrow> L4 \<Rightarrow> byte list \<Rightarrow> error_code \<times> L4 \<times> HeaderCache" where
  "packager_pack cls seed pk headers to path extensions l4 payload =
     (if IPAddress_isUnspecified (m_host (e_ep (pk_local pk))) \<or> m_port (e_ep (pk_local pk)) = 0
      then (NoLocalHostAddr, l4, headers)
      else case getSourceAddress pk path of
             Inl ec \<Rightarrow> (ec, l4, headers)
           | Inr from \<Rightarrow>
               let to = (case to of None \<Rightarrow> pk_remote pk | Some to \<Rightarrow> to)
               in if \<not> Address_isFullySpecified (Endpoint_address to) then (InvalidArgument, l4, headers)
                  else HeaderCache_build cls seed headers (pk_trafficClass pk) to from path extensions l4 payload)"

subsection \<open>STUN\<close>

text \<open>\<open>rand0\<close> and \<open>rand1\<close> are the two random numbers. The buffer's contents are part of the result.\<close>

definition createStunRequest ::
    "ScionPackager \<Rightarrow> u64 \<Rightarrow> u64 \<Rightarrow> byte list \<Rightarrow> IPAddress \<Rightarrow> error_code \<times> byte list \<times> ScionPackager" where
  "createStunRequest pk rand0 rand1 buf stunServer =
     (let tx = store_le 8 rand0 @ take 4 (store_le 8 rand1)
      in case STUN_serialize \<lparr>st_type = StunMsg_BindingRequest, st_transaction = tx, st_mapped = None\<rparr>
             (WriteStream (stream_init buf)) of
           (Inl _, ws) \<Rightarrow> (BufferTooSmall, bufdata (stream_buf ws), pk)
         | (Inr _, ws) \<Rightarrow> (Ok, bufdata (stream_buf ws),
             pk\<lparr>pk_expectStunResponse := True, pk_expectedStunServer := stunServer, pk_stunTx := tx\<rparr>))"

definition updateMappedAddressFromStun :: "ScionPackager \<Rightarrow> stream \<Rightarrow> bool \<times> ScionPackager" where
  "updateMappedAddressFromStun pk rs =
     (case STUN_serialize \<lparr>st_type = StunMsg_BindingRequest, st_transaction = replicate 12 0, st_mapped = None\<rparr> rs of
        (Inl _, _) \<Rightarrow> (False, pk)
      | (Inr stun, _) \<Rightarrow>
          if st_type stun \<noteq> StunMsg_BindingResponse then (True, pk)
          else if st_transaction stun \<noteq> pk_stunTx pk then (True, pk)
          else let pk = pk\<lparr>pk_expectStunResponse := False\<rparr>
               in case st_mapped stun of
                    None \<Rightarrow> (True, pk)
                  | Some address \<Rightarrow> (True, setMappedIpAndPort pk address))"

definition parseStun :: "ScionPackager \<Rightarrow> stream \<Rightarrow> IPAddress \<Rightarrow> error_code \<times> ScionPackager" where
  "parseStun pk rs ulSource =
     (if pk_expectStunResponse pk
      then if \<not> IPAddress_eq ulSource (pk_expectedStunServer pk) then (SrcAddrMismatch, pk)
           else case updateMappedAddressFromStun pk rs of
                  (False, pk) \<Rightarrow> (InvalidPacket, pk)
                | (True, pk) \<Rightarrow> (StunReceived, pk)
      else (StunReceived, pk))"

definition unpackStun :: "ScionPackager \<Rightarrow> byte list \<Rightarrow> IPAddress \<Rightarrow> error_code \<times> ScionPackager" where
  "unpackStun pk buf ulSource =
     (if detectStun buf then parseStun pk (ReadStream (stream_init buf)) ulSource else (Pending, pk))"

subsection \<open>Unpacking\<close>

definition verifyReceived :: "ScionPackager \<Rightarrow> ParsedPacket \<Rightarrow> IPAddress \<Rightarrow> error_code" where
  "verifyReceived pk pkt ulSource =
     (if \<not> Address_matches (Endpoint_address (pk_mapped pk)) (sc_dst (pp_sci pkt)) then DstAddrMismatch
      else if (case pp_l4 pkt of L4_SCMP _ \<Rightarrow> False | L4_UDP _ \<Rightarrow> True)
           \<and> \<not> Address_matches (Endpoint_address (pk_remote pk)) (sc_src (pp_sci pkt)) then SrcAddrMismatch
      else if sc_ptype (pp_sci pkt) = PathType_Empty
           \<and> \<not> IPAddress_eq (unmap4in6 ulSource) (a_host (sc_src (pp_sci pkt))) then InvalidPacket
      else if ParsedPacket_checksum pkt \<noteq> 0xffff then ChecksumError
      else Ok)"

text \<open>The objects pointers refer to, absent for null pointers, and the arguments of the callback if it is called.\<close>

record 'e UnpackOut =
  uo_hbhExt :: "'e Extension list"
  uo_e2eExt :: "'e Extension list"
  uo_from :: "ScIPEndpoint option"
  uo_path :: "RawPath option"
  uo_scmp :: "(ScIPAddress \<times> RawPath \<times> ScmpMessage \<times> byte list) option"

text \<open>
  Both lists of extensions are parsed from the hop-by-hop options, as in the code. Parsing extensions
  that do not advance the stream may not end: \<open>None\<close>.
\<close>

definition unpack_exts ::
    "'e ExtensionClass \<Rightarrow> byte list \<Rightarrow> 'e Extension list \<Rightarrow> (string + 'e Extension list) option" where
  "unpack_exts cls opts exts =
     (if exts \<noteq> [] then parseExtensions cls (ReadStream (stream_init opts)) exts else Some (Inr exts))"

definition unpack_deliver ::
    "ParsedPacket \<Rightarrow> 'e UnpackOut \<Rightarrow> byte list maybe \<times> 'e UnpackOut" where
  "unpack_deliver pkt out =
     (let sport = (case pp_l4 pkt of L4_UDP udp \<Rightarrow> udp_sport udp | L4_SCMP _ \<Rightarrow> 0);
          out = out\<lparr>uo_from := map_option (\<lambda>_. Endpoint_make (sc_src (pp_sci pkt)) sport) (uo_from out)\<rparr>;
          assign = (\<lambda>rp. RawPath_assign rp (a_ia (sc_src (pp_sci pkt))) (a_ia (sc_dst (pp_sci pkt)))
                      (sc_ptype (pp_sci pkt)) (pp_path pkt))
      in case (case uo_path out of None \<Rightarrow> Inr None | Some rp \<Rightarrow> map_sum id Some (assign rp)) of
           Inl e \<Rightarrow> (Inl e, out)
         | Inr path \<Rightarrow>
             let out = out\<lparr>uo_path := path\<rparr>
             in case pp_l4 pkt of
                  L4_UDP _ \<Rightarrow> (Inr (pp_payload pkt), out)
                | L4_SCMP h \<Rightarrow>
                    (case (case path of Some rp \<Rightarrow> Inr rp | None \<Rightarrow> assign RawPath_default) of
                       Inl e \<Rightarrow> (Inl e, out)
                     | Inr rp \<Rightarrow>
                         (Inl ScmpReceived,
                          out\<lparr>uo_scmp := Some (sc_src (pp_sci pkt), rp, scmp_msg h, pp_payload pkt)\<rparr>)))"

definition packager_unpack ::
    "'e ExtensionClass \<Rightarrow> ScionPackager \<Rightarrow> byte list \<Rightarrow> IPAddress \<Rightarrow> 'e UnpackOut \<Rightarrow>
      (byte list maybe \<times> 'e UnpackOut \<times> ScionPackager) option" where
  "packager_unpack cls pk buf ulSource out =
     (if detectStun buf
      then case parseStun pk (ReadStream (stream_init buf)) ulSource of (ec, pk) \<Rightarrow> Some (Inl ec, out, pk)
      else case ParsedPacket_parse (ReadStream (stream_init buf)) of
             (Inl _, _) \<Rightarrow> Some (Inl InvalidPacket, out, pk)
           | (Inr pkt, _) \<Rightarrow>
               let ec = verifyReceived pk pkt ulSource
               in if ec \<noteq> Ok then Some (Inl ec, out, pk)
                  else (case unpack_exts cls (pp_hbhOpts pkt) (uo_hbhExt out) of
                          None \<Rightarrow> None
                        | Some (Inl _) \<Rightarrow> Some (Inl InvalidPacket, out, pk)
                        | Some (Inr hbhExt) \<Rightarrow>
                            (case unpack_exts cls (pp_hbhOpts pkt) (uo_e2eExt out) of
                               None \<Rightarrow> None
                             | Some (Inl _) \<Rightarrow> Some (Inl InvalidPacket, out\<lparr>uo_hbhExt := hbhExt\<rparr>, pk)
                             | Some (Inr e2eExt) \<Rightarrow>
                                 (case unpack_deliver pkt (out\<lparr>uo_hbhExt := hbhExt, uo_e2eExt := e2eExt\<rparr>) of
                                    (r, out) \<Rightarrow> Some (r, out, pk)))))"

end
