(* ===== verification/PacketSpec.thy ===== *)
theory PacketSpec
  imports Packager
begin

text \<open>
  Packets that one packager builds are what another unpacks: the layout of the header cache, what the parser
  makes of it, and when the checksum is accepted.
\<close>

section \<open>Reading in front of other data\<close>

text \<open>\<open>readsR k m bs rest a\<close>: reading with \<open>m\<close> yields \<open>a\<close> if the next bits are \<open>bs\<close> and then the buffer ends with \<open>rest\<close>.\<close>

definition readsR :: "nat \<Rightarrow> 'a ser \<Rightarrow> bool list \<Rightarrow> bool list \<Rightarrow> 'a \<Rightarrow> bool" where
  "readsR k m bs rest a \<longleftrightarrow> (\<forall>b. wf_buf b \<longrightarrow> bit_pos b mod 8 = k mod 8 \<longrightarrow> bits_ahead b = bs @ rest \<longrightarrow>
     (\<exists>st. m (ReadStream b) = (Inr a, st)))"

lemma readsR_bind:
  assumes "readsB k m bs a" "readsR (k + length bs) (f a) bs' rest c"
  shows "readsR k (ser_bind m f) (bs @ bs') rest c"
  unfolding readsR_def
proof (intro allI impI)
  fix b assume b: "wf_buf b" "bit_pos b mod 8 = k mod 8" "bits_ahead b = (bs @ bs') @ rest"
  then obtain b' where m: "m (ReadStream b) = (Inr a, ReadStream b')" "consumed b (length bs) b'"
    using assms(1) unfolding readsB_def by (metis append.assoc)
  have "wf_buf b'" "bit_pos b' mod 8 = (k + length bs) mod 8"
    using m(2) b(2) by (simp add: consumed_def, simp add: consumed_def) (metis mod_add_left_eq)
  moreover have "bits_ahead b' = bs' @ rest" using consumed_ahead [OF m(2)] b(3) by simp
  ultimately obtain st where "f a (ReadStream b') = (Inr c, st)"
    using assms(2) unfolding readsR_def by blast
  then show "\<exists>st. ser_bind m f (ReadStream b) = (Inr c, st)" using m(1) by (simp add: ser_bind_def)
qed

lemma readsR_step:
  "readsB k m [] a \<Longrightarrow> readsR k (f a) bs rest c \<Longrightarrow> readsR k (ser_bind m f) bs rest c"
  using readsR_bind [of k m "[]" a f bs rest c] by simp

lemma readsR_lookahead:
  assumes k: "k mod 8 = 0" and n: "n = length ds" "n \<noteq> npos"
    and f: "readsR k (f ds) (bits_of ds @ bs) rest c"
  shows "readsR k (ser_bind (lookahead n) f) (bits_of ds @ bs) rest c"
  unfolding readsR_def
proof (intro allI impI)
  fix b assume b: "wf_buf b" "bit_pos b mod 8 = k mod 8" "bits_ahead b = (bits_of ds @ bs) @ rest"
  then have al: "bitPos b = 0" using bitPos_bit_pos [OF b(1)] k by simp
  have "length (bits_ahead b) = 8 * n + length (bs @ rest)" using b(3) n by simp
  then have room: "8 * n \<le> bits_room b" by simp
  have "bits_of (peek n b) = bits_of ds"
    using take_bits_ahead_aligned [OF al, of n] b(3) n by simp
  then have "lookahead n (ReadStream b) = (Inr ds, ReadStream b)"
    using al n(2) room bytesLeft_iff_aligned [OF b(1) al, of n] bits_of_inject
    by (auto simp: ReadStream_lookahead_def not_less)
  then show "\<exists>st. ser_bind (lookahead n) f (ReadStream b) = (Inr c, st)"
    using f b unfolding readsR_def by (simp add: ser_bind_def)
qed

text \<open>The rest of the buffer.\<close>

lemma readsR_rest:
  assumes "k mod 8 = 0" "\<And>b. \<exists>st. f d (ReadStream b) = (Inr c, st)"
  shows "readsR k (ser_bind (lookahead npos) f) [] (bits_of d) c"
  unfolding readsR_def
proof (intro allI impI)
  fix b assume b: "wf_buf b" "bit_pos b mod 8 = k mod 8" "bits_ahead b = [] @ bits_of d"
  then have al: "bitPos b = 0" using bitPos_bit_pos [OF b(1)] assms(1) by simp
  have "bits_of (drop (byteIter b) (bufdata b)) = bits_of d"
    using bits_ahead_aligned [OF al] b(3) by simp
  then have "drop (byteIter b) (bufdata b) = d" by (simp only: bits_of_inject)
  then have "lookahead npos (ReadStream b) = (Inr d, ReadStream b)"
    using al by (simp add: ReadStream_lookahead_def)
  then show "\<exists>st. ser_bind (lookahead npos) f (ReadStream b) = (Inr c, st)"
    using assms(2) by (simp add: ser_bind_def)
qed

lemma readsR_run:
  "readsR 0 m bs (bits_of d) a \<Longrightarrow> bits_of buf = bs \<Longrightarrow> \<exists>st. m (ReadStream (stream_init (buf @ d))) = (Inr a, st)"
  by (simp add: readsR_def)

section \<open>Transport headers\<close>

fun L4_bits :: "L4 \<Rightarrow> bool list" where
  "L4_bits (L4_UDP h) = UDP_bits h"
| "L4_bits (L4_SCMP h) = SCMP_bits h"

fun L4_writable :: "L4 \<Rightarrow> bool" where
  "L4_writable (L4_UDP h) = True"
| "L4_writable (L4_SCMP h) = writable_SCMP h"

lemma L4_bits_length: "length (L4_bits l4) = 8 * L4_size l4"
  by (cases l4) (simp_all add: UDP_bits_def UDP_size_def length_SCMP_bits)

lemma L4_writes: "L4_writable l4 \<Longrightarrow> k mod 8 = 0 \<Longrightarrow> writesB k (L4_serialize l4) (L4_bits l4) l4"
  by (cases l4) (auto intro!: writesB_map udp.writes_aligned scmp.writes_aligned)

lemma L4_reads:
  "k mod 8 = 0 \<Longrightarrow> readsB k (L4_serialize (L4_UDP h0)) (L4_bits (L4_UDP h)) (L4_UDP h)"
  "k mod 8 = 0 \<Longrightarrow> writable_SCMP m \<Longrightarrow> readsB k (L4_serialize (L4_SCMP m0)) (L4_bits (L4_SCMP m)) (L4_SCMP m)"
  by (auto intro!: readsB_map udp.reads_aligned scmp.reads_aligned)

lemma L4_set_simps [simp]:
  "L4_PROTO (L4_setChksum c l4) = L4_PROTO l4" "L4_size (L4_setChksum c l4) = L4_size l4"
  "L4_PROTO (L4_setPayload p l4) = L4_PROTO l4" "L4_size (L4_setPayload p l4) = L4_size l4"
  "L4_PROTO (L4_setPorts s d l4) = L4_PROTO l4" "L4_size (L4_setPorts s d l4) = L4_size l4"
  "L4_writable (L4_setChksum c l4) = L4_writable l4" "L4_writable (L4_setPayload p l4) = L4_writable l4"
  "L4_writable (L4_setPorts s d l4) = L4_writable l4"
  "L4_flowLabel (L4_setChksum c l4) = L4_flowLabel l4" "L4_flowLabel (L4_setPayload p l4) = L4_flowLabel l4"
  "L4_setChksum c (L4_setChksum c' l4) = L4_setChksum c l4"
  "L4_setPayload p (L4_setPayload p' l4) = L4_setPayload p l4"
  "L4_setPayload p (L4_setChksum c l4) = L4_setChksum c (L4_setPayload p l4)"
  by (cases l4; simp add: SCMP_size_def writable_SCMP_def UDP_setPayload_def UDP_flowLabel_def)+

lemma L4_checksum_set: "L4_checksum (L4_setChksum c l4) = L4_checksum (L4_setChksum 0 l4) + ucast c"
  by (cases l4) (simp_all add: UDP_checksum_def SCMP_checksum_def)

section \<open>The SCION header\<close>

lemma to_bits_take_bit: "to_bits n (take_bit n v) = to_bits n v"
  by (rule nth_equalityI) (auto simp: nth_to_bits bit_take_bit_iff)

definition fl20 :: "SCION \<Rightarrow> SCION" where
  "fl20 h = h\<lparr>sc_fl := take_bit 20 (sc_fl h)\<rparr>"

definition wf_hosts :: "SCION \<Rightarrow> bool" where
  "wf_hosts h \<longleftrightarrow> wf_ip (a_host (sc_dst h)) \<and> zone (a_host (sc_dst h)) = []
     \<and> wf_ip (a_host (sc_src h)) \<and> zone (a_host (sc_src h)) = []"

lemma SCION_bits_fl20: "SCION_bits (fl20 h) = SCION_bits h"
  by (simp add: SCION_bits_def fl20_def to_bits_take_bit)

lemma SCION_writes_any: "wf_hosts h \<Longrightarrow> writesB 0 (SCION_serialize h) (SCION_bits h) h"
  unfolding SCION_serialize_def SCION_bits_def wf_hosts_def
  by (cases "is4 (a_host (sc_dst h))";
      (rule writes_steps IsdAsn_steps writesB_host SCION.equality ScIPAddress.equality | simp add: length_IPAddress_bits)+)

lemma SCION_size_4: "SCION_size h mod 4 = 0" "36 \<le> SCION_size h" "SCION_size h \<le> 60"
  by (auto simp: SCION_size_def Address_size_def IsdAsn_size_def IPAddress_size_def)

lemma fl20_simps [simp]:
  "sc_nh (fl20 h) = sc_nh h" "sc_hlen (fl20 h) = sc_hlen h" "sc_plen (fl20 h) = sc_plen h"
  "sc_ptype (fl20 h) = sc_ptype h" "sc_dst (fl20 h) = sc_dst h" "sc_src (fl20 h) = sc_src h"
  "SCION_size (fl20 h) = SCION_size h" "SCION_checksum (fl20 h) = SCION_checksum h"
  "SCION_pathSize (fl20 h) = SCION_pathSize h"
  by (simp_all add: fl20_def SCION_size_def SCION_checksum_def SCION_pathSize_def fun_eq_iff)

end
