(* ===== verification/PacketProperties.thy ===== *)
theory PacketProperties
  imports PacketSpec
begin

text \<open>
  The header cache and the packager: what a built header looks like, that the parser recovers what was packed,
  when the receiver accepts the checksum, and what a packet can change in the state of the receiver.
\<close>

section \<open>Writing headers without extensions\<close>

definition no_exts :: "'e Extension list \<Rightarrow> bool" where
  "no_exts exts \<longleftrightarrow> list_all (\<lambda>e. \<not> ext_validFlag e) exts"

lemma no_exts_simps:
  assumes "no_exts exts"
  shows "filter (isHbH cls) exts = []" "filter (isE2E cls) exts = []" "computeExtSize cls exts = (0, 0)"
  using assms by (induction exts) (auto simp: no_exts_def isHbH_def isE2E_def computeExtSize_def Let_def)

definition packet_bits :: "SCION \<Rightarrow> byte list \<Rightarrow> L4 \<Rightarrow> bool list" where
  "packet_bits h path l4 = SCION_bits h @ bits_of path @ L4_bits l4"

lemma packet_bits_length: "length (packet_bits h path l4) = 8 * (SCION_size h + length path + L4_size l4)"
  by (simp add: packet_bits_def SCION_bits_length L4_bits_length)

lemma writeHeaders_none:
  assumes ext: "no_exts exts" and h: "wf_hosts h" and l4: "L4_writable l4"
    and len: "length buf = SCION_size h + length (RawPath_encoded path) + L4_size l4"
  shows "\<exists>b. writeHeaders cls h path exts l4 (hc, WriteStream (stream_init buf)) =
      (Inr (), hc\<lparr>hc_l4Offset := of_nat (SCION_size h + length (RawPath_encoded path))\<rparr>, WriteStream b) \<and>
    bits_of (bufdata b) = packet_bits h (RawPath_encoded path) l4"
proof -
  let ?p = "RawPath_encoded path"
  let ?b0 = "stream_init buf"
  have b0: "wf_buf ?b0" "clean_tail ?b0" "bit_pos ?b0 = 0" "bits_room ?b0 = 8 * length buf" by simp_all
  obtain b1 where b1: "SCION_serialize h (WriteStream ?b0) = (Inr h, WriteStream b1)"
      "appended ?b0 (SCION_bits h) b1"
    using SCION_writes_any [OF h] b0 len unfolding writesB_def by (fastforce simp: SCION_bits_length)
  have p1: "bit_pos b1 = 8 * SCION_size h" "bits_room b1 = 8 * (length ?p + L4_size l4)"
    using b1(2) b0 len by (simp_all add: appended_def SCION_bits_length appended_room [OF b1(2)])
  have "writesB 0 (serializeBytes ?p) (bits_of ?p) ?p" by (rule writesB_serializeBytes) simp
  then obtain b2 where b2: "serializeBytes ?p (WriteStream b1) = (Inr ?p, WriteStream b2)"
      "appended b1 (bits_of ?p) b2"
    using p1 appended_wf [OF b1(2)] unfolding writesB_def by fastforce
  have p2: "bit_pos b2 = 8 * (SCION_size h + length ?p)" "bits_room b2 = 8 * L4_size l4"
    using b2(2) p1 by (simp_all add: appended_def appended_room [OF b2(2)])
  have pos: "ws_pos (WriteStream b2) = SCION_size h + length ?p"
    using aligned_pos [OF appended_wf(1) [OF b2(2)]] p2(1) by (simp add: ws_pos_def)
  obtain b3 where b3: "L4_serialize l4 (WriteStream b2) = (Inr l4, WriteStream b3)" "appended b2 (L4_bits l4) b3"
    using L4_writes [OF l4, of 0] p2 appended_wf [OF b2(2)] unfolding writesB_def
    by (fastforce simp: L4_bits_length)
  have all: "appended ?b0 (packet_bits h ?p l4) b3"
    unfolding packet_bits_def append_assoc [symmetric]
    by (intro appended_trans [OF appended_trans [OF b1(2) b2(2)] b3(2)])
  then have "bits_done b3 = packet_bits h ?p l4" "bit_pos b3 = 8 * length (bufdata b3)"
    using len by (simp_all add: appended_def packet_bits_length)
  then have "bits_of (bufdata b3) = packet_bits h ?p l4" by (simp add: bits_done_def)
  then show ?thesis
    using b1(1) b2(1) b3(1) pos
    by (simp add: writeHeaders_def no_exts_simps [OF ext] hser_bind_def hser_lift_def set_l4Offset_def ser_return_def)
qed

section \<open>Building a header\<close>

definition built_l4 :: "ScIPEndpoint \<Rightarrow> ScIPEndpoint \<Rightarrow> L4 \<Rightarrow> byte list \<Rightarrow> L4" where
  "built_l4 to from l4 payload =
     L4_setPayload payload (L4_setPorts (m_port (e_ep from)) (m_port (e_ep to)) l4)"

lemma built_l4_simps [simp]:
  "L4_PROTO (built_l4 to from l4 payload) = L4_PROTO l4" "L4_size (built_l4 to from l4 payload) = L4_size l4"
  "L4_writable (built_l4 to from l4 payload) = L4_writable l4"
  by (simp_all add: built_l4_def)

text \<open>What the parameters of a packet have to satisfy for its lengths to fit the header fields.\<close>

definition packet_fits :: "ScIPEndpoint \<Rightarrow> ScIPEndpoint \<Rightarrow> RawPath \<Rightarrow> L4 \<Rightarrow> byte list \<Rightarrow> bool" where
  "packet_fits to from path l4 payload \<longleftrightarrow>
     wf_ip (m_host (e_ep to)) \<and> zone (m_host (e_ep to)) = [] \<and>
     wf_ip (m_host (e_ep from)) \<and> zone (m_host (e_ep from)) = [] \<and>
     length (RawPath_encoded path) = rp_size path \<and> rp_size path mod 4 = 0 \<and>
     12 + Address_size (Endpoint_address to) + Address_size (Endpoint_address from) + rp_size path \<le> 1020 \<and>
     L4_writable l4 \<and> L4_size l4 + length payload < 2 ^ 16"

lemma build_header_none:
  assumes "no_exts exts"
  shows "build_header cls seed tc to from path exts l4 payload =
    \<lparr>sc_qos = tc,
     sc_hlen = of_nat ((12 + Address_size (Endpoint_address to) + Address_size (Endpoint_address from) + rp_size path) div 4),
     sc_nh = L4_PROTO l4, sc_ptype = rp_type path, sc_plen = of_nat (L4_size l4 + length payload),
     sc_fl = ucast (Address_hash seed (Endpoint_address to) XOR Address_hash seed (Endpoint_address from))
       XOR L4_flowLabel l4,
     sc_dst = Endpoint_address to, sc_src = Endpoint_address from\<rparr>"
  by (simp add: build_header_def no_exts_simps [OF assms] SCION_size_def computeFlowLabel_def)

lemma built_header:
  assumes "no_exts exts" "packet_fits to from path l4 payload"
    and h_def: "h = build_header cls seed tc to from path exts l4' payload"
  shows "4 * unat (sc_hlen h) = SCION_size h + length (RawPath_encoded path)" "wf_hosts h"
    "sc_dst h = Endpoint_address to" "sc_src h = Endpoint_address from" "sc_nh h = L4_PROTO l4'"
    "sc_plen h = of_nat (L4_size l4' + length payload)" "sc_ptype h = rp_type path" "9 \<le> sc_hlen h"
proof -
  note p = assms(2) [unfolded packet_fits_def]
  have s: "SCION_size h = 12 + Address_size (Endpoint_address to) + Address_size (Endpoint_address from)"
    by (simp add: h_def build_header_none [OF assms(1)] SCION_size_def)
  let ?n = "SCION_size h + rp_size path"
  have n: "4 dvd ?n" using SCION_size_4(1) [of h] p by (auto simp: mod_eq_0_iff_dvd)
  have "36 \<le> ?n" "?n \<le> 1020" using SCION_size_4(2) [of h] p s by auto
  then have "?n div 4 < 2 ^ 8" "9 \<le> ?n div 4" using div_le_mono [of ?n 1020 4] div_le_mono [of 36 ?n 4] by simp_all
  moreover have "sc_hlen h = of_nat (?n div 4)" unfolding s by (simp add: h_def build_header_none [OF assms(1)])
  ultimately have u: "unat (sc_hlen h) = ?n div 4" by (simp add: unsigned_of_nat take_bit_nat_eq_self)
  then show "4 * unat (sc_hlen h) = SCION_size h + length (RawPath_encoded path)" using dvd_mult_div_cancel [OF n] p by simp
  show "9 \<le> sc_hlen h" using u \<open>9 \<le> ?n div 4\<close> by (simp add: word_le_nat_alt)
  show "wf_hosts h" using p by (simp add: h_def build_header_none [OF assms(1)] wf_hosts_def Endpoint_address_def Address_make_def)
qed (simp_all add: h_def build_header_none [OF assms(1)])

definition built_packet ::
    "'e ExtensionClass \<Rightarrow> u32 \<Rightarrow> byte \<Rightarrow> ScIPEndpoint \<Rightarrow> ScIPEndpoint \<Rightarrow> RawPath \<Rightarrow> 'e Extension list \<Rightarrow> L4 \<Rightarrow>
      byte list \<Rightarrow> SCION \<times> u32 \<times> L4" where
  "built_packet cls seed tc to from path exts l4 payload =
     (let l4 = built_l4 to from l4 payload;
          h = build_header cls seed tc to from path exts l4 payload;
          (chksum, l4Chksum) = hc_checksum h l4 payload
      in (h, chksum, L4_setChksum l4Chksum l4))"

lemma build_none:
  assumes ext: "no_exts exts"
    and b: "built_packet cls seed tc to from path exts l4 payload = (h, chksum, l4')"
    and buf_def: "buf = resize (4 * unat (sc_hlen h) + L4_size l4) 0 (hc_buffer hc)"
  shows "HeaderCache_build cls seed hc tc to from path exts l4 payload =
    (case writeHeaders cls h path exts l4'
            (hc\<lparr>hc_nhOffset := 4, hc_scionHdrChksum := chksum, hc_buffer := buf\<rparr>, WriteStream (stream_init buf)) of
       (Inl _, hc, ws) \<Rightarrow> (LogicError, l4', hc\<lparr>hc_buffer := bufdata (stream_buf ws)\<rparr>)
     | (Inr _, hc, ws) \<Rightarrow>
         (Ok, l4', hc\<lparr>hc_buffer := bufdata (stream_buf ws), hc_payloadSize := of_nat (length payload)\<rparr>))"
proof -
  let ?l4 = "built_l4 to from l4 payload"
  obtain u where h: "build_header cls seed tc to from path exts ?l4 payload = h"
    and c: "hc_checksum h ?l4 payload = (chksum, u)" and l4': "L4_setChksum u ?l4 = l4'"
    using b by (auto simp: built_packet_def Let_def split: prod.splits)
  have s: "L4_size l4' = L4_size l4" by (simp add: l4' [symmetric])
  show ?thesis
    unfolding HeaderCache_build_def Let_def built_l4_def [symmetric] no_exts_simps [OF ext] prod.case h c l4'
    by (simp add: buf_def s)
qed

lemma build_ok:
  assumes ext: "no_exts exts" and fits: "packet_fits to from path l4 payload"
    and b: "built_packet cls seed tc to from path exts l4 payload = (h, chksum, l4')"
  shows "\<exists>buf. HeaderCache_build cls seed hc tc to from path exts l4 payload =
      (Ok, l4', \<lparr>hc_scionHdrChksum = chksum, hc_payloadSize = of_nat (length payload), hc_nhOffset = 4,
                hc_l4Offset = of_nat (SCION_size h + length (RawPath_encoded path)), hc_buffer = buf\<rparr>) \<and>
    bits_of buf = packet_bits h (RawPath_encoded path) l4'"
proof -
  have h: "h = build_header cls seed tc to from path exts (built_l4 to from l4 payload) payload"
    and l4': "\<exists>u. l4' = L4_setChksum u (built_l4 to from l4 payload)"
    using b by (auto simp: built_packet_def Let_def split: prod.splits)
  note hd = built_header [OF ext fits h]
  have w: "L4_writable l4'" "L4_size l4' = L4_size l4" using fits l4' by (auto simp: packet_fits_def)
  let ?buf = "resize (4 * unat (sc_hlen h) + L4_size l4) 0 (hc_buffer hc)"
  let ?hc = "hc\<lparr>hc_nhOffset := 4, hc_scionHdrChksum := chksum, hc_buffer := ?buf\<rparr>"
  obtain b where "writeHeaders cls h path exts l4' (?hc, WriteStream (stream_init ?buf)) =
      (Inr (), ?hc\<lparr>hc_l4Offset := of_nat (SCION_size h + length (RawPath_encoded path))\<rparr>, WriteStream b)"
    "bits_of (bufdata b) = packet_bits h (RawPath_encoded path) l4'"
    using writeHeaders_none [OF ext hd(2) w(1), of ?buf path cls ?hc] hd(1) w(2) by auto
  then show ?thesis by (cases hc) (simp add: build_none [OF ext b])
qed

section \<open>Parsing a built packet\<close>

lemma proto_distinct [simp]:
  "ScionProto_UDP \<noteq> ScionProto_HBHOpt" "ScionProto_UDP \<noteq> ScionProto_E2EOpt" "ScionProto_UDP \<noteq> ScionProto_SCMP"
  "ScionProto_SCMP \<noteq> ScionProto_HBHOpt" "ScionProto_SCMP \<noteq> ScionProto_E2EOpt"
  by (simp_all add: ScionProto_UDP_def ScionProto_HBHOpt_def ScionProto_E2EOpt_def ScionProto_SCMP_def)

lemma parse_opts_none: "nh \<noteq> proto \<Longrightarrow> parse_opts proto ser nh = ser_return ([], nh)"
  by (simp add: parse_opts_def)

definition parsed :: "SCION \<Rightarrow> byte list \<Rightarrow> L4 \<Rightarrow> byte list \<Rightarrow> ParsedPacket" where
  "parsed h path l4 payload =
     \<lparr>pp_sci = h, pp_path = path, pp_hbhOpts = [], pp_e2eOpts = [], pp_l4 = l4, pp_payload = payload\<rparr>"

lemma parse_l4_reads:
  assumes "k mod 8 = 0" "L4_writable l4" "nh = L4_PROTO l4"
  shows "readsB k (if nh = ScionProto_SCMP then L4_serialize (L4_SCMP SCMP_default)
        else if nh = ScionProto_UDP then L4_serialize (L4_UDP UDP_default)
        else ser_error ''unexpected transport header'') (L4_bits l4) l4"
  using assms L4_reads by (cases l4) auto

lemma parse_reads:
  assumes h: "valid_SCION h" "sc_nh h = L4_PROTO l4" and p: "SCION_pathSize h = of_nat (length path)" "length path < 2 ^ 16"
    and l4: "L4_writable l4"
  shows "readsR 0 ParsedPacket_parse (packet_bits h path l4) (bits_of payload) (parsed h path l4 payload)"
proof -
  have len: "unat (SCION_pathSize h) = length path" "length path \<noteq> npos"
    using p by (simp_all add: unsigned_of_nat take_bit_nat_eq_self npos_def)
  have nh: "L4_PROTO l4 \<noteq> ScionProto_HBHOpt" "L4_PROTO l4 \<noteq> ScionProto_E2EOpt" by (cases l4; simp)+
  have a: "(8 * SCION_size h) mod 8 = 0" "(8 * SCION_size h + 8 * length path) mod 8 = 0"
    "(8 * SCION_size h + 8 * length path + 8 * L4_size l4) mod 8 = 0" by simp_all
  have last: "readsR (8 * SCION_size h + 8 * length path) (ser_bind
     (if sc_nh h = ScionProto_SCMP then L4_serialize (L4_SCMP SCMP_default)
      else if sc_nh h = ScionProto_UDP then L4_serialize (L4_UDP UDP_default)
      else ser_error ''unexpected transport header'') (\<lambda>l4.
     ser_bind (lookahead npos) (\<lambda>payload.
     ser_bind seek_end (\<lambda>_. ser_return (parsed h path l4 payload))))) (L4_bits l4 @ []) (bits_of payload)
     (parsed h path l4 payload)"
    by (rule readsR_bind [OF parse_l4_reads readsR_rest])
      (simp_all add: l4 h(2) L4_bits_length seek_end_def ser_seek_def ser_bind_def ser_return_def)
  show ?thesis
    unfolding ParsedPacket_parse_def packet_bits_def
  proof (intro readsR_bind [OF SCION_reads [OF h(1)]], unfold SCION_bits_length add_0 len(1), rule readsR_lookahead,
      simp, simp, fact len(2), rule readsR_bind)
    show "readsB (8 * SCION_size h) (advanceBytes (length path)) (bits_of path) ()"
      by (rule readsB_advanceBytes) simp_all
  qed (simp only: h(2) parse_opts_none [OF nh(1)] parse_opts_none [OF nh(2)] ser_bind_return prod.case
      length_bits_of last [unfolded h(2) parsed_def append_Nil2] parsed_def)
qed

lemma load_le_low_byte: "(ucast (load_le (x # xs) :: u32) :: byte) = x"
proof -
  have "(load_le (x # xs) :: u32) = push_bit 8 (load_be (rev xs)) OR ucast x"
    by (simp add: load_le_def load_be_def)
  then show ?thesis by (auto intro!: bit_word_eqI simp: bit_simps)
qed

lemma packet_not_stun:
  assumes b: "bits_of buf = packet_bits h path l4" and nh: "sc_nh h \<noteq> 0x21"
  shows "\<not> detectStun (buf @ d)"
proof
  assume stun: "detectStun (buf @ d)"
  let ?xs = "take 4 (drop 4 buf)"
  have "8 * length buf = 8 * (SCION_size h + length path + L4_size l4)"
    using arg_cong [OF b, of length] by (simp add: packet_bits_length)
  then have len: "8 \<le> length buf" using SCION_size_4(2) [of h] by simp
  have "bits_of ?xs = take (8 * 4) (drop (8 * 4) (bits_of buf))" by (simp only: take_bits_of drop_bits_of)
  also have "\<dots> = bits_of (sc_nh h # sc_hlen h # store_be 2 (sc_plen h))"
    by (simp add: b packet_bits_def SCION_bits_def to_bits_8 to_bits_store_be [where n = 2, simplified] bits_of_Cons)
  finally have xs: "?xs = sc_nh h # sc_hlen h # store_be 2 (sc_plen h)" by (rule bits_of_inject)
  have "take 4 (drop 4 (buf @ d)) = ?xs" using len by simp
  moreover have "(load_le (take 4 (drop 4 (buf @ d))) :: u32) = byteswapBE magicCookie"
    using stun unfolding detectStun_def by blast
  ultimately have "(load_le ?xs :: u32) = byteswapBE magicCookie" by (simp only:)
  then have "sc_nh h = ucast (byteswapBE magicCookie)" using load_le_low_byte [of "sc_nh h"] xs by metis
  also have "\<dots> = 0x21" by code_simp
  finally show False using nh by simp
qed

lemma unat_ucast_16_32: "unat (ucast (w :: u16) :: u32) = unat w"
proof -
  have "unat w < 2 ^ LENGTH(16)" by (rule unsigned_less)
  then show ?thesis by (simp add: unsigned_ucast_eq take_bit_nat_eq_self)
qed

text \<open>A checksum computed over other fields and a payload is accepted when folding their sum leaves no carry.\<close>

definition single_carry :: "u32 \<Rightarrow> byte list \<Rightarrow> bool" where
  "single_carry i p \<longleftrightarrow> (let S = unat (i + of_nat (sum16 p)) in S div 2 ^ 16 + S mod 2 ^ 16 < 2 ^ 16)"

lemma carry_overflow:
  fixes S c :: nat
  assumes S: "S < 2 ^ 32" and c: "c = 0xffff - (S div 2 ^ 16 + S mod 2 ^ 16) mod 2 ^ 16" and o: "\<not> S + c < 2 ^ 32"
  shows "S + c = 2 ^ 32" "\<not> S div 2 ^ 16 + S mod 2 ^ 16 < 2 ^ 16"
proof -
  define a b where ab: "a = S div 2 ^ 16" "b = S mod 2 ^ 16"
  have lim: "a < 2 ^ 16" "b < 2 ^ 16" "S = 2 ^ 16 * a + b" using S by (simp_all add: ab)
  have c': "c = 0xffff - (a + b) mod 2 ^ 16" using c by (simp only: ab)
  then have "c \<le> 0xffff" by simp
  then have a: "a = 0xffff" using lim o by simp
  then have b: "b \<noteq> 0" using c' o lim by auto
  then have m: "(a + b) mod 2 ^ 16 = b - 1" using a lim by (simp add: mod_if)
  show "S + c = 2 ^ 32" unfolding c' m using a b lim by simp
  have "\<not> a + b < 2 ^ 16" using a b by simp
  then show "\<not> S div 2 ^ 16 + S mod 2 ^ 16 < 2 ^ 16" by (simp only: ab not_False_eq_True)
qed

lemma checksum_unat:
  "unat (onesComplementChecksumScalar p i) =
    (unat (i + of_nat (sum16 p)) div 2 ^ 16 + unat (i + of_nat (sum16 p)) mod 2 ^ 16) mod 2 ^ 16"
  by (simp add: onesComplementChecksum_eq unsigned_ucast_eq unat_add_carry take_bit_nat_def)

lemma internet_accept:
  "onesComplementChecksumScalar p (i + ucast (internetChecksum p i)) = 0xffff \<longleftrightarrow> single_carry i p"
proof -
  let ?w = "i + of_nat (sum16 p)" and ?c = "ucast (internetChecksum p i) :: u32"
  let ?S = "unat ?w"
  let ?T = "?S div 2 ^ 16 + ?S mod 2 ^ 16"
  have S: "?S < 2 ^ 32" using unsigned_less [of ?w] by simp
  have c: "unat ?c = 0xffff - ?T mod 2 ^ 16"
    unfolding unat_ucast_16_32 internetChecksum_def unat_not16 checksum_unat by (rule refl)
  have "unat (onesComplementChecksumScalar p (i + ?c)) =
      (unat (?w + ?c) div 2 ^ 16 + unat (?w + ?c) mod 2 ^ 16) mod 2 ^ 16"
    unfolding checksum_unat by (simp only: add.commute add.left_commute)
  moreover have "(unat (?w + ?c) div 2 ^ 16 + unat (?w + ?c) mod 2 ^ 16) mod 2 ^ 16 = 0xffff \<longleftrightarrow> ?T < 2 ^ 16"
  proof (cases "?S + unat ?c < 2 ^ 32")
    case True
    then have "unat (?w + ?c) = ?S + unat ?c" by (simp add: unat_word_ariths)
    then show ?thesis using fold_complement [OF S] by (simp only: c)
  next
    case False
    note o = carry_overflow [OF S c False]
    then have "unat (?w + ?c) = 0" by (simp add: unat_word_ariths)
    then show ?thesis using o(2) by simp
  qed
  ultimately show ?thesis by (simp add: single_carry_def Let_def word_unat_eq_iff)
qed

section \<open>Unpacking a built packet\<close>

lemma unpack_exts_none: "unpack_exts cls [] exts = Some (Inr (map Extension_setInvalid exts))"
  by (simp add: unpack_exts_def parseExtensions_def parse_options.simps stream_more_def stream_init_def)

definition packet_of :: "SCION \<Rightarrow> byte list \<Rightarrow> L4 \<Rightarrow> byte list \<Rightarrow> bool" where
  "packet_of h path l4 buf \<longleftrightarrow>
     wf_hosts h \<and> 9 \<le> sc_hlen h \<and> 4 * unat (sc_hlen h) = SCION_size h + length path \<and> sc_nh h = L4_PROTO l4 \<and>
     L4_writable l4 \<and> bits_of buf = packet_bits h path l4"

lemma parse_packet:
  assumes "packet_of h path l4 buf"
  shows "\<exists>st. ParsedPacket_parse (ReadStream (stream_init (buf @ payload))) = (Inr (parsed (fl20 h) path l4 payload), st)"
proof -
  note p = assms [unfolded packet_of_def]
  have v: "valid_SCION (fl20 h)"
    using p by (simp add: valid_SCION_def wf_hosts_def) (simp add: fl20_def fits_def)
  have s: "SCION_pathSize (fl20 h) = of_nat (length path)"
    using p by (simp add: SCION_pathSize_def)
  have "4 * unat (sc_hlen h) < 4 * 2 ^ LENGTH(8)" using unsigned_less [of "sc_hlen h"] by simp
  then have l: "length path < 2 ^ 16" using p by simp
  have b: "bits_of buf = packet_bits (fl20 h) path l4" using p by (simp add: packet_bits_def SCION_bits_fl20)
  show ?thesis
    by (rule readsR_run [OF parse_reads b]) (use v s l p in simp_all)
qed

lemma unpack_packet:
  assumes p: "packet_of h path l4 buf"
  shows "packager_unpack cls pk (buf @ payload) ulSource out =
    (let pkt = parsed (fl20 h) path l4 payload; ec = verifyReceived pk pkt ulSource
     in if ec \<noteq> Ok then Some (Inl ec, out, pk)
        else case unpack_deliver pkt (out\<lparr>uo_hbhExt := map Extension_setInvalid (uo_hbhExt out),
                                        uo_e2eExt := map Extension_setInvalid (uo_e2eExt out)\<rparr>) of
               (r, out) \<Rightarrow> Some (r, out, pk))"
proof -
  have "sc_nh h \<noteq> 0x21" using p by (cases l4) (auto simp: packet_of_def ScionProto_UDP_def ScionProto_SCMP_def)
  then have "\<not> detectStun (buf @ payload)" using p packet_not_stun by (auto simp: packet_of_def)
  moreover obtain st where "ParsedPacket_parse (ReadStream (stream_init (buf @ payload))) =
      (Inr (parsed (fl20 h) path l4 payload), st)"
    using parse_packet [OF p] by blast
  moreover have "pp_hbhOpts (parsed (fl20 h) path l4 payload) = []" by (simp add: parsed_def)
  ultimately show ?thesis by (simp add: packager_unpack_def unpack_exts_none Let_def)
qed

lemma built_packet_of:
  assumes ext: "no_exts exts" and fits: "packet_fits to from path l4 payload"
    and b: "built_packet cls seed tc to from path exts l4 payload = (h, chksum, l4')"
    and buf: "bits_of buf = packet_bits h (RawPath_encoded path) l4'"
  shows "packet_of h (RawPath_encoded path) l4' buf"
proof -
  have h: "h = build_header cls seed tc to from path exts (built_l4 to from l4 payload) payload"
    and l4': "\<exists>u. l4' = L4_setChksum u (built_l4 to from l4 payload)"
    using b by (auto simp: built_packet_def Let_def split: prod.splits)
  note hd = built_header [OF ext fits h]
  show ?thesis using hd l4' fits buf by (auto simp: packet_of_def packet_fits_def)
qed

lemma built_checksum:
  assumes ext: "no_exts exts" and z: "L4_setChksum 0 l4 = l4"
    and b: "built_packet cls seed tc to from path exts l4 payload = (h, chksum, l4')"
  shows "ParsedPacket_checksum (parsed (fl20 h) enc l4' payload) = 0xffff \<longleftrightarrow>
    single_carry (chksum + L4_checksum (L4_setChksum 0 l4')) payload"
proof -
  let ?l4 = "built_l4 to from l4 payload"
  have h: "h = build_header cls seed tc to from path exts ?l4 payload"
    and c: "chksum = SCION_checksum h (of_nat (L4_size l4 + length payload)) (L4_PROTO l4)"
    and l4': "l4' = L4_setChksum (internetChecksum payload (chksum + L4_checksum ?l4)) ?l4"
    using b by (auto simp: built_packet_def hc_checksum_def Let_def split: prod.splits)
  have z': "L4_setChksum 0 ?l4 = ?l4"
  proof (cases l4)
    case (L4_UDP u)
    then show ?thesis using z by (cases u) (simp add: built_l4_def UDP_setPayload_def)
  qed (use z in \<open>simp add: built_l4_def\<close>)
  have plen: "sc_plen h = of_nat (L4_size l4 + length payload)" by (simp add: h build_header_none [OF ext])
  have "ParsedPacket_checksum (parsed (fl20 h) enc l4' payload) =
      onesComplementChecksumScalar payload
        (chksum + L4_checksum ?l4 + ucast (internetChecksum payload (chksum + L4_checksum ?l4)))"
    using L4_checksum_set [of _ ?l4]
    by (simp add: ParsedPacket_checksum_def parsed_def plen c l4' z' ac_simps Let_def)
  then show ?thesis using internet_accept [of payload "chksum + L4_checksum ?l4"] by (simp add: l4' z')
qed

lemma verify_accepted:
  assumes "Address_matches (Endpoint_address (pk_mapped rk)) (sc_dst h)"
    and "\<And>u. l4 = L4_UDP u \<Longrightarrow> Address_matches (Endpoint_address (pk_remote rk)) (sc_src h)"
    and "sc_ptype h = PathType_Empty \<longrightarrow> IPAddress_eq (unmap4in6 ulSource) (a_host (sc_src h))"
  shows "verifyReceived rk (parsed h path l4 payload) ulSource =
    (if ParsedPacket_checksum (parsed h path l4 payload) \<noteq> 0xffff then ChecksumError else Ok)"
  using assms by (cases l4) (auto simp: verifyReceived_def parsed_def)

definition packet_path :: "RawPath \<Rightarrow> ScIPEndpoint \<Rightarrow> ScIPEndpoint \<Rightarrow> RawPath \<Rightarrow> RawPath" where
  "packet_path rp from to path = rp\<lparr>rp_source := e_ia from, rp_destination := e_ia to, rp_type := rp_type path,
     rp_size := rp_size path, rp_digest := None, rp_path := overwrite (rp_path rp) 0 (RawPath_encoded path)\<rparr>"

lemma assign_packet_path:
  "packet_fits to from path l4 payload \<Longrightarrow>
   RawPath_assign rp (e_ia from) (e_ia to) (rp_type path) (RawPath_encoded path) = Inr (packet_path rp from to path)"
  using SCION_size_4(2) [of "\<lparr>sc_qos = 0, sc_hlen = 0, sc_nh = 0, sc_ptype = 0, sc_plen = 0, sc_fl = 0,
     sc_dst = Endpoint_address to, sc_src = Endpoint_address from\<rparr>"]
  by (simp add: RawPath_assign_def packet_path_def packet_fits_def RawPath_MAX_SIZE_def SCION_size_def)

lemma unpack_received:
  assumes ext: "no_exts exts" and fits: "packet_fits to from path l4 payload" and z: "L4_setChksum 0 l4 = l4"
    and b: "built_packet cls seed tc to from path exts l4 payload = (h, chksum, l4')"
    and buf: "bits_of buf = packet_bits h (RawPath_encoded path) l4'"
    and dst: "Address_matches (Endpoint_address (pk_mapped rk)) (Endpoint_address to)"
    and src: "\<And>u. l4 = L4_UDP u \<Longrightarrow> Address_matches (Endpoint_address (pk_remote rk)) (Endpoint_address from)"
    and local: "RawPath_empty path \<longrightarrow> IPAddress_eq (unmap4in6 ulSource) (m_host (e_ep from))"
  shows "packager_unpack cls' rk (buf @ payload) ulSource out =
    (if single_carry (chksum + L4_checksum (L4_setChksum 0 l4')) payload
     then case unpack_deliver (parsed (fl20 h) (RawPath_encoded path) l4' payload)
            (out\<lparr>uo_hbhExt := map Extension_setInvalid (uo_hbhExt out),
                 uo_e2eExt := map Extension_setInvalid (uo_e2eExt out)\<rparr>) of
            (r, out) \<Rightarrow> Some (r, out, rk)
     else Some (Inl ChecksumError, out, rk))"
proof -
  have h: "h = build_header cls seed tc to from path exts (built_l4 to from l4 payload) payload"
    and l4': "\<exists>u. l4' = L4_setChksum u (built_l4 to from l4 payload)"
    using b by (auto simp: built_packet_def Let_def split: prod.splits)
  note hd = built_header [OF ext fits h]
  have "l4' = L4_UDP u' \<Longrightarrow> \<exists>u. l4 = L4_UDP u" for u'
    using l4' by (cases l4) (auto simp: built_l4_def)
  then have "verifyReceived rk (parsed (fl20 h) (RawPath_encoded path) l4' payload) ulSource =
      (if ParsedPacket_checksum (parsed (fl20 h) (RawPath_encoded path) l4' payload) \<noteq> 0xffff
       then ChecksumError else Ok)"
    using hd dst src local
    by (intro verify_accepted) (auto simp: RawPath_empty_def Endpoint_address_def Address_make_def)
  then show ?thesis
    unfolding unpack_packet [OF built_packet_of [OF ext fits b buf]] Let_def built_checksum [OF ext z b]
    by simp
qed

section \<open>From one packager to another\<close>

text \<open>What the sender's state and the arguments have to satisfy for a packet to be made.\<close>

definition can_send :: "ScionPackager \<Rightarrow> RawPath \<Rightarrow> ScIPEndpoint \<Rightarrow> ScIPEndpoint \<Rightarrow> bool" where
  "can_send pk path from to \<longleftrightarrow>
     \<not> IPAddress_isUnspecified (m_host (e_ep (pk_local pk))) \<and> m_port (e_ep (pk_local pk)) \<noteq> 0 \<and>
     getSourceAddress pk path = Inr from \<and> Address_isFullySpecified (Endpoint_address to)"

text \<open>The receiver's filters: its own address, the remote it is connected to unless the packet is SCMP,
  and the underlay source on empty paths.\<close>

definition accepts :: "ScionPackager \<Rightarrow> RawPath \<Rightarrow> ScIPEndpoint \<Rightarrow> ScIPEndpoint \<Rightarrow> L4 \<Rightarrow> IPAddress \<Rightarrow> bool" where
  "accepts rk path from to l4 ulSource \<longleftrightarrow>
     Address_matches (Endpoint_address (pk_mapped rk)) (Endpoint_address to) \<and>
     (case l4 of L4_UDP _ \<Rightarrow> Address_matches (Endpoint_address (pk_remote rk)) (Endpoint_address from) | L4_SCMP _ \<Rightarrow> True) \<and>
     (RawPath_empty path \<longrightarrow> IPAddress_eq (unmap4in6 ulSource) (m_host (e_ep from)))"

lemma pack_build:
  "can_send pk path from to \<Longrightarrow>
   packager_pack cls seed pk hc (Some to) path exts l4 payload =
     HeaderCache_build cls seed hc (pk_trafficClass pk) to from path exts l4 payload"
  by (simp add: can_send_def packager_pack_def)

lemma pack_unpack:
  assumes send: "can_send pk path from to" and ext: "no_exts exts" and fits: "packet_fits to from path l4 payload"
    and z: "L4_setChksum 0 l4 = l4" and rcv: "accepts rk path from to l4 ulSource"
  shows "\<exists>h l4' hc'.
    packager_pack cls seed pk hc (Some to) path exts l4 payload = (Ok, l4', hc') \<and>
    sc_dst h = Endpoint_address to \<and> sc_src h = Endpoint_address from \<and> sc_ptype h = rp_type path \<and>
    (\<exists>c. l4' = L4_setChksum c (built_l4 to from l4 payload)) \<and>
    packager_unpack cls' rk (hc_buffer hc' @ payload) ulSource out =
      (if single_carry (hc_scionHdrChksum hc' + L4_checksum (L4_setChksum 0 l4')) payload
       then case unpack_deliver (parsed h (RawPath_encoded path) l4' payload)
            (out\<lparr>uo_hbhExt := map Extension_setInvalid (uo_hbhExt out),
                 uo_e2eExt := map Extension_setInvalid (uo_e2eExt out)\<rparr>) of
            (r, out) \<Rightarrow> Some (r, out, rk)
       else Some (Inl ChecksumError, out, rk))"
proof -
  obtain h chksum l4' where b: "built_packet cls seed (pk_trafficClass pk) to from path exts l4 payload = (h, chksum, l4')"
    by (cases "built_packet cls seed (pk_trafficClass pk) to from path exts l4 payload") auto
  have h: "h = build_header cls seed (pk_trafficClass pk) to from path exts (built_l4 to from l4 payload) payload"
    and l4': "\<exists>u. l4' = L4_setChksum u (built_l4 to from l4 payload)"
    using b by (auto simp: built_packet_def Let_def split: prod.splits)
  note hd = built_header [OF ext fits h]
  obtain buf where buf: "HeaderCache_build cls seed hc (pk_trafficClass pk) to from path exts l4 payload =
      (Ok, l4', \<lparr>hc_scionHdrChksum = chksum, hc_payloadSize = of_nat (length payload), hc_nhOffset = 4,
                hc_l4Offset = of_nat (SCION_size h + length (RawPath_encoded path)), hc_buffer = buf\<rparr>)"
      "bits_of buf = packet_bits h (RawPath_encoded path) l4'"
    using build_ok [OF ext fits b, of hc] by auto
  have dst: "Address_matches (Endpoint_address (pk_mapped rk)) (Endpoint_address to)"
    and src: "\<And>u. l4 = L4_UDP u \<Longrightarrow> Address_matches (Endpoint_address (pk_remote rk)) (Endpoint_address from)"
    and local: "RawPath_empty path \<longrightarrow> IPAddress_eq (unmap4in6 ulSource) (m_host (e_ep from))"
    using rcv by (auto simp: accepts_def)
  let ?hc = "\<lparr>hc_scionHdrChksum = chksum, hc_payloadSize = of_nat (length payload), hc_nhOffset = 4,
      hc_l4Offset = of_nat (SCION_size h + length (RawPath_encoded path)), hc_buffer = buf\<rparr>"
  have "packager_pack cls seed pk hc (Some to) path exts l4 payload = (Ok, l4', ?hc)"
    using buf(1) by (simp only: pack_build [OF send])
  moreover note unpack_received [OF ext fits z b buf(2) dst src local, where cls' = cls' and out = out]
  ultimately show ?thesis
    using hd(3,4,7) l4' by (intro exI [of _ "fl20 h"] exI [of _ l4'] exI [of _ ?hc] conjI) simp_all
qed

lemma Endpoint_make_address: "Endpoint_make (Endpoint_address ep) (m_port (e_ep ep)) = ep"
  by (simp add: Endpoint_make_def Endpoint_address_def Address_make_def)

lemma Endpoint_address_ia [simp]: "a_ia (Endpoint_address ep) = e_ia ep"
  by (simp add: Endpoint_address_def Address_make_def)

lemma udp_delivered:
  assumes "can_send pk path from to" "no_exts exts" "packet_fits to from path (L4_UDP udp) payload"
    and "udp_chksum udp = 0" and "accepts rk path from to (L4_UDP udp) ulSource"
  shows "\<exists>l4' hc'.
    packager_pack cls seed pk hc (Some to) path exts (L4_UDP udp) payload = (Ok, l4', hc') \<and>
    packager_unpack cls' rk (hc_buffer hc' @ payload) ulSource out =
      Some (if single_carry (hc_scionHdrChksum hc' + L4_checksum (L4_setChksum 0 l4')) payload
            then (Inr payload,
                  out\<lparr>uo_hbhExt := map Extension_setInvalid (uo_hbhExt out),
                      uo_e2eExt := map Extension_setInvalid (uo_e2eExt out),
                      uo_from := map_option (\<lambda>_. from) (uo_from out),
                      uo_path := map_option (\<lambda>rp. packet_path rp from to path) (uo_path out)\<rparr>, rk)
            else (Inl ChecksumError, out, rk))"
proof -
  have z: "L4_setChksum 0 (L4_UDP udp) = L4_UDP udp" using assms(4) by (cases udp) simp
  obtain h l4' hc' c where p: "packager_pack cls seed pk hc (Some to) path exts (L4_UDP udp) payload = (Ok, l4', hc')"
      "sc_dst h = Endpoint_address to" "sc_src h = Endpoint_address from" "sc_ptype h = rp_type path"
      "l4' = L4_setChksum c (built_l4 to from (L4_UDP udp) payload)"
      "packager_unpack cls' rk (hc_buffer hc' @ payload) ulSource out =
      (if single_carry (hc_scionHdrChksum hc' + L4_checksum (L4_setChksum 0 l4')) payload
       then case unpack_deliver (parsed h (RawPath_encoded path) l4' payload)
            (out\<lparr>uo_hbhExt := map Extension_setInvalid (uo_hbhExt out),
                 uo_e2eExt := map Extension_setInvalid (uo_e2eExt out)\<rparr>) of
            (r, out) \<Rightarrow> Some (r, out, rk)
       else Some (Inl ChecksumError, out, rk))"
    using pack_unpack [OF assms(1-3) z assms(5), of cls seed hc cls' out] by blast
  have "\<exists>u. l4' = L4_UDP u \<and> udp_sport u = m_port (e_ep from)"
    by (simp add: p(5) built_l4_def UDP_setPayload_def)
  then show ?thesis
    using p assign_packet_path [OF assms(3)]
    by (auto simp: unpack_deliver_def parsed_def Endpoint_make_address Let_def split: option.splits)
qed

text \<open>C1: A UDP payload packed by one socket is delivered by another: packing succeeds whenever the sender has a
  local address, the destination is specified, the path starts in the sender's AS and the lengths fit;
  the receiver, if its addresses match, accepts the concatenation of header and payload exactly when the
  one's complement sum needs a single carry, and then returns the payload, the sender's endpoint and the
  path; otherwise it reports a checksum error and changes nothing.\<close>

theorem pack_unpack_udp:
  assumes "can_send pk path from to" "no_exts exts" "packet_fits to from path (L4_UDP udp) payload"
    and "udp_chksum udp = 0" and "accepts rk path from to (L4_UDP udp) ulSource"
  shows "\<exists>l4' hc'.
    packager_pack cls seed pk hc (Some to) path exts (L4_UDP udp) payload = (Ok, l4', hc') \<and>
    packager_unpack cls' rk (hc_buffer hc' @ payload) ulSource out =
      Some (if single_carry (hc_scionHdrChksum hc' + L4_checksum (L4_setChksum 0 l4')) payload
            then (Inr payload,
                  out\<lparr>uo_hbhExt := map Extension_setInvalid (uo_hbhExt out),
                      uo_e2eExt := map Extension_setInvalid (uo_e2eExt out),
                      uo_from := map_option (\<lambda>_. from) (uo_from out),
                      uo_path := map_option (\<lambda>rp. packet_path rp from to path) (uo_path out)\<rparr>, rk)
            else (Inl ChecksumError, out, rk))"
  by (rule udp_delivered [OF assms])

text \<open>C2: An SCMP message packed by one socket reaches the SCMP callback of another, whatever remote it is connected
  to, with the sender's address, the path, the message and the payload, if the checksum needs a single carry; \<open>unpack\<close>
  then reports that an SCMP packet was received and the source port is zero. Otherwise it reports a wrong checksum.\<close>

theorem pack_unpack_scmp:
  assumes "can_send pk path from to" "no_exts exts" "packet_fits to from path (L4_SCMP m) payload"
    and "scmp_chksum m = 0" and "accepts rk path from to (L4_SCMP m) ulSource"
  shows "\<exists>l4' hc'.
    packager_pack cls seed pk hc (Some to) path exts (L4_SCMP m) payload = (Ok, l4', hc') \<and>
    packager_unpack cls' rk (hc_buffer hc' @ payload) ulSource out =
      Some (if single_carry (hc_scionHdrChksum hc' + L4_checksum (L4_setChksum 0 l4')) payload
            then (Inl ScmpReceived,
                  out\<lparr>uo_hbhExt := map Extension_setInvalid (uo_hbhExt out),
                      uo_e2eExt := map Extension_setInvalid (uo_e2eExt out),
                      uo_from := map_option (\<lambda>_. Endpoint_make (Endpoint_address from) 0) (uo_from out),
                      uo_path := map_option (\<lambda>rp. packet_path rp from to path) (uo_path out),
                      uo_scmp := Some (Endpoint_address from,
                        packet_path (case uo_path out of None \<Rightarrow> RawPath_default | Some rp \<Rightarrow> rp) from to path,
                        scmp_msg m, payload)\<rparr>, rk)
            else (Inl ChecksumError, out, rk))"
proof -
  have z: "L4_setChksum 0 (L4_SCMP m) = L4_SCMP m" using assms(4) by (cases m) simp
  obtain h l4' hc' c where p: "packager_pack cls seed pk hc (Some to) path exts (L4_SCMP m) payload = (Ok, l4', hc')"
      "sc_dst h = Endpoint_address to" "sc_src h = Endpoint_address from" "sc_ptype h = rp_type path"
      "l4' = L4_setChksum c (built_l4 to from (L4_SCMP m) payload)"
      "packager_unpack cls' rk (hc_buffer hc' @ payload) ulSource out =
      (if single_carry (hc_scionHdrChksum hc' + L4_checksum (L4_setChksum 0 l4')) payload
       then case unpack_deliver (parsed h (RawPath_encoded path) l4' payload)
            (out\<lparr>uo_hbhExt := map Extension_setInvalid (uo_hbhExt out),
                 uo_e2eExt := map Extension_setInvalid (uo_e2eExt out)\<rparr>) of
            (r, out) \<Rightarrow> Some (r, out, rk)
       else Some (Inl ChecksumError, out, rk))"
    using pack_unpack [OF assms(1-3) z assms(5), of cls seed hc cls' out] by blast
  have "\<exists>u. l4' = L4_SCMP u \<and> scmp_msg u = scmp_msg m" by (simp add: p(5) built_l4_def)
  then show ?thesis
    using p assign_packet_path [OF assms(3)]
    by (auto simp: unpack_deliver_def parsed_def Let_def split: option.splits)
qed

lemma built_packet_parts:
  assumes ext: "no_exts exts" and b: "built_packet cls seed tc to from path exts l4 payload = (h, chksum, l4')"
  shows "chksum = SCION_checksum h (sc_plen h) (sc_nh h)"
    "l4' = L4_setChksum (internetChecksum payload (chksum + L4_checksum (built_l4 to from l4 payload)))
       (built_l4 to from l4 payload)"
    "h = build_header cls seed tc to from path exts (built_l4 to from l4 payload) payload"
  using b by (auto simp: built_packet_def hc_checksum_def Let_def build_header_none [OF ext] split: prod.splits)

section \<open>Examples\<close>

definition example_host :: "u32 \<Rightarrow> u16 \<Rightarrow> ScIPEndpoint" where
  "example_host ip port =
     \<lparr>e_ia = 0x1ff0000000110, e_ep = \<lparr>m_host = MakeIPv4 ip, m_port = port\<rparr>\<rparr>"

definition example_packager :: "u32 \<Rightarrow> u16 \<Rightarrow> ScionPackager" where
  "example_packager ip port = ScionPackager_init\<lparr>pk_local := example_host ip port, pk_mapped := example_host ip port\<rparr>"

definition example_UDP :: UDP where
  "example_UDP = \<lparr>udp_sport = 0, udp_dport = 0, udp_len = 0, udp_chksum = 0\<rparr>"

definition example_SCMP :: SCMPH where
  "example_SCMP = \<lparr>scmp_chksum = 0, scmp_msg = ScmpEchoRequest 1 2\<rparr>"

lemma example_can_send:
  "can_send (example_packager 0x0a000001 5000) RawPath_default (example_host 0x0a000001 5000) (example_host 0x0a000002 6000)"
  by (simp add: can_send_def example_packager_def example_host_def getSourceAddress_def ScionPackager_init_def
      IPAddress_isUnspecified_def MakeIPv4_def RawPath_empty_def RawPath_default_def
      Address_isFullySpecified_def Endpoint_address_def Address_make_def; code_simp)

lemma example_fits:
  "L4_writable l4 \<Longrightarrow> L4_size l4 \<le> 64 \<Longrightarrow>
   packet_fits (example_host 0x0a000002 6000) (example_host 0x0a000001 5000) RawPath_default l4 [1, 2, 3]"
  by (simp add: packet_fits_def example_host_def MakeIPv4_def wf_ip_def is4_def fits_def RawPath_encoded_def
      RawPath_default_def Endpoint_address_def Address_make_def Address_size_def IPAddress_size_def IsdAsn_size_def)

lemma example_accepts:
  "accepts (example_packager 0x0a000002 6000) RawPath_default (example_host 0x0a000001 5000)
     (example_host 0x0a000002 6000) l4 (MakeIPv4 0x0a000001)"
  by (cases l4) (simp only: accepts_def L4.case; code_simp)+

lemma example_no_exts: "no_exts []"
  by (simp add: no_exts_def)

lemma example_fits_udp:
  "packet_fits (example_host 0x0a000002 6000) (example_host 0x0a000001 5000) RawPath_default (L4_UDP example_UDP) [1, 2, 3]"
  by (rule example_fits) (simp_all add: UDP_size_def)

lemma example_zero_udp: "udp_chksum example_UDP = 0"
  by (simp add: example_UDP_def)

lemma example_fits_scmp:
  "packet_fits (example_host 0x0a000002 6000) (example_host 0x0a000001 5000) RawPath_default (L4_SCMP example_SCMP) [1, 2, 3]"
  by (rule example_fits) (simp_all add: example_SCMP_def writable_SCMP_def SCMP_size_def)

lemma example_zero_scmp: "scmp_chksum example_SCMP = 0"
  by (simp add: example_SCMP_def)

definition example_class :: "unit ExtensionClass" where
  "example_class = \<lparr>cls_category = (\<lambda>_. HopByHop), cls_type = (\<lambda>_. 253), cls_size = (\<lambda>_ _. 4),
     cls_parse = (\<lambda>e. ser_return e), cls_write = (\<lambda>_ _. ser_return ())\<rparr>"

definition example_out :: "ScIPEndpoint \<Rightarrow> unit UnpackOut" where
  "example_out ep = \<lparr>uo_hbhExt = [], uo_e2eExt = [], uo_from = Some ep, uo_path = None, uo_scmp = None\<rparr>"

lemma example_addr_checksum:
  "Address_checksum (Endpoint_address (example_host 0x0a000002 6000)) = 133650"
  "Address_checksum (Endpoint_address (example_host 0x0a000001 5000)) = 133649"
proof -
  have "IPAddress_checksum (MakeIPv4 0x0a000002) = 0xa02" "IPAddress_checksum (MakeIPv4 0x0a000001) = 0xa01"
    "IsdAsn_checksum 0x1ff0000000110 = 131088" by code_simp+
  then show "Address_checksum (Endpoint_address (example_host 0x0a000002 6000)) = 133650"
    "Address_checksum (Endpoint_address (example_host 0x0a000001 5000)) = 133649"
    by (simp_all add: Address_checksum_def Endpoint_address_def Address_make_def example_host_def)
qed

lemma example_sum:
  assumes "built_packet cls seed tc (example_host 0x0a000002 6000) (example_host 0x0a000001 5000)
      RawPath_default [] (L4_UDP example_UDP) [1, 2, 3] = (h, chksum, l4')"
  shows "single_carry (chksum + L4_checksum (L4_setChksum 0 l4')) [1, 2, 3]"
proof -
  have "chksum = 267327"
    using built_packet_parts(1,3) [OF example_no_exts assms]
    by (simp add: built_l4_def SCION_checksum_def build_header_none [OF example_no_exts] example_addr_checksum ScionProto_UDP_def UDP_size_def)
  moreover have "L4_checksum (L4_setChksum 0 l4') = 11011"
    using built_packet_parts(2) [OF example_no_exts assms]
    by (simp add: built_l4_def UDP_checksum_def UDP_setPayload_def example_host_def UDP_size_def)
  ultimately show ?thesis by (simp add: single_carry_def)
qed

text \<open>The checksum of the example needs a single carry.\<close>

lemma example_pack:
  assumes "packager_pack cls seed (example_packager 0x0a000001 5000) hc (Some (example_host 0x0a000002 6000))
    RawPath_default [] (L4_UDP example_UDP) [1, 2, 3] = (ec, l4', hc')"
  shows "single_carry (hc_scionHdrChksum hc' + L4_checksum (L4_setChksum 0 l4')) [1, 2, 3]"
proof -
  let ?tc = "pk_trafficClass (example_packager 0x0a000001 5000)"
  obtain h ck l4x where b: "built_packet cls seed ?tc (example_host 0x0a000002 6000) (example_host 0x0a000001 5000)
      RawPath_default [] (L4_UDP example_UDP) [1, 2, 3] = (h, ck, l4x)" by (metis prod_cases3)
  then have "l4' = l4x" "hc_scionHdrChksum hc' = ck"
    using build_ok [OF example_no_exts example_fits_udp b, of hc] assms
    by (auto simp: pack_build [OF example_can_send])
  then show ?thesis using example_sum [OF b] by simp
qed

lemma pack_unpack_udp_witness:
  "\<exists>l4' hc'.
    packager_pack example_class 7 (example_packager 0x0a000001 5000) HeaderCache_init (Some (example_host 0x0a000002 6000))
      RawPath_default [] (L4_UDP example_UDP) [1, 2, 3] = (Ok, l4', hc') \<and>
    packager_unpack example_class (example_packager 0x0a000002 6000) (hc_buffer hc' @ [1, 2, 3]) (MakeIPv4 0x0a000001)
      (example_out Endpoint_default) =
      Some (Inr [1, 2, 3], example_out (example_host 0x0a000001 5000), example_packager 0x0a000002 6000)"
proof -
  obtain l4' hc' where "packager_pack example_class 7 (example_packager 0x0a000001 5000) HeaderCache_init
      (Some (example_host 0x0a000002 6000)) RawPath_default [] (L4_UDP example_UDP) [1, 2, 3] = (Ok, l4', hc')"
    and "single_carry (hc_scionHdrChksum hc' + L4_checksum (L4_setChksum 0 l4')) [1, 2, 3] \<longrightarrow>
      packager_unpack example_class (example_packager 0x0a000002 6000) (hc_buffer hc' @ [1, 2, 3]) (MakeIPv4 0x0a000001)
        (example_out Endpoint_default) =
      Some (Inr [1, 2, 3], example_out (example_host 0x0a000001 5000), example_packager 0x0a000002 6000)"
    using pack_unpack_udp [OF example_can_send example_no_exts example_fits_udp example_zero_udp example_accepts,
        of example_class 7 HeaderCache_init example_class "example_out Endpoint_default"]
    by (auto simp: example_out_def)
  then show ?thesis using example_pack by blast
qed

lemma pack_unpack_scmp_witness:
  "\<exists>l4' hc'.
    packager_pack example_class 7 (example_packager 0x0a000001 5000) HeaderCache_init (Some (example_host 0x0a000002 6000))
      RawPath_default [] (L4_SCMP example_SCMP) [1, 2, 3] = (Ok, l4', hc') \<and>
    (single_carry (hc_scionHdrChksum hc' + L4_checksum (L4_setChksum 0 l4')) [1, 2, 3] \<longrightarrow>
     map_option fst (packager_unpack example_class (example_packager 0x0a000002 6000) (hc_buffer hc' @ [1, 2, 3])
       (MakeIPv4 0x0a000001) (example_out Endpoint_default)) = Some (Inl ScmpReceived))"
  using pack_unpack_scmp [OF example_can_send example_no_exts example_fits_scmp example_zero_scmp example_accepts,
      of example_class 7 HeaderCache_init example_class "example_out Endpoint_default"]
  by (auto simp: example_out_def)

end
