(* ===== verification/PacketExt.thy ===== *)
theory PacketExt
  imports PacketProperties
begin

text \<open>
  Building a header with extension headers (\<open>HeaderCache::build\<close>): what the extension objects have to promise, where
  the extension headers end up between path and transport header, and the state of the header cache afterwards.
  The parser of extension headers ends.
\<close>

section \<open>Steps that write whole bytes\<close>

text \<open>At byte position \<open>pos\<close> the step writes \<open>bs\<close> and changes the cache by \<open>u\<close>.\<close>

definition hwrites :: "nat \<Rightarrow> 'a hser \<Rightarrow> bool list \<Rightarrow> (HeaderCache \<Rightarrow> HeaderCache) \<Rightarrow> bool" where
  "hwrites pos m bs u \<longleftrightarrow> (\<forall>hc b. wf_buf b \<longrightarrow> clean_tail b \<longrightarrow> bit_pos b = 8 * pos \<longrightarrow> length bs \<le> bits_room b \<longrightarrow>
     (\<exists>a b'. m (hc, WriteStream b) = (Inr a, u hc, WriteStream b') \<and> appended b bs b'))"

lemma hwrites_bind:
  assumes m: "hwrites pos m bs u" and n: "length bs = 8 * n" and f: "\<And>a. hwrites (pos + n) (f a) bs' u'"
  shows "hwrites pos (hser_bind m f) (bs @ bs') (\<lambda>hc. u' (u hc))"
  unfolding hwrites_def
proof (intro allI impI)
  fix hc b
  assume b: "wf_buf b" "clean_tail b" "bit_pos b = 8 * pos" "length (bs @ bs') \<le> bits_room b"
  obtain a b1 where 1: "m (hc, WriteStream b) = (Inr a, u hc, WriteStream b1)" "appended b bs b1"
    using m b unfolding hwrites_def by fastforce
  have "bit_pos b1 = 8 * (pos + n)" "length bs' \<le> bits_room b1"
    using 1(2) b(3,4) n by (simp_all add: appended_def appended_room [OF 1(2)])
  then obtain c b2 where 2: "f a (u hc, WriteStream b1) = (Inr c, u' (u hc), WriteStream b2)" "appended b1 bs' b2"
    using f [of a] appended_wf [OF 1(2)] unfolding hwrites_def by blast
  then show "\<exists>a b'. hser_bind m f (hc, WriteStream b) = (Inr a, u' (u hc), WriteStream b') \<and> appended b (bs @ bs') b'"
    using 1 appended_trans [OF 1(2) 2(2)] by (auto simp: hser_bind_def)
qed

lemma hwrites_step:
  "hwrites pos m bs u \<Longrightarrow> length bs = 8 * n \<Longrightarrow> hwrites pos' m' bs' u' \<Longrightarrow> pos' = pos + n \<Longrightarrow>
   hwrites pos (hser_bind m (\<lambda>_. m')) (bs @ bs') (\<lambda>hc. u' (u hc))"
  using hwrites_bind [where f = "\<lambda>_. m'"] by blast

lemma hwrites_lift: "writesB 0 m bs a \<Longrightarrow> hwrites pos (hser_lift m) bs (\<lambda>hc. hc)"
  unfolding hwrites_def writesB_def hser_lift_def by fastforce

lemma hwrites_offsets:
  "hwrites pos set_nhOffset [] (\<lambda>hc. hc\<lparr>hc_nhOffset := of_nat pos\<rparr>)"
  "hwrites pos set_l4Offset [] (\<lambda>hc. hc\<lparr>hc_l4Offset := of_nat pos\<rparr>)"
  by (auto simp: hwrites_def set_nhOffset_def set_l4Offset_def ws_pos_def aligned_pos intro: appended_refl)

lemma hwrites_return: "hwrites pos (hser_lift (ser_return a)) [] (\<lambda>hc. hc)"
  by (rule hwrites_lift [OF writesB_return])

lemma hwrites_cong:
  "hwrites pos m bs u \<Longrightarrow> bs = bs' \<Longrightarrow> (\<And>hc. u hc = u' hc) \<Longrightarrow> hwrites pos m bs' u'"
  by (simp add: hwrites_def)

lemma hwrites_fill:
  assumes "hwrites 0 m bs u" "length bs = 8 * length buf"
  shows "\<exists>a b'. m (hc, WriteStream (stream_init buf)) = (Inr a, u hc, WriteStream b') \<and> bits_of (bufdata b') = bs"
proof -
  have "bit_pos (stream_init buf) = 8 * 0" "length bs \<le> bits_room (stream_init buf)" using assms(2) by simp_all
  then obtain a b' where b': "m (hc, WriteStream (stream_init buf)) = (Inr a, u hc, WriteStream b')"
      "appended (stream_init buf) bs b'"
    using assms(1) wf_stream_init unfolding hwrites_def by blast
  have "bits_of (bufdata b') = bs" using b'(2) assms(2) by (auto simp: appended_def bits_done_def)
  then show ?thesis using b'(1) by blast
qed

section \<open>Extension objects\<close>

text \<open>
  What the builder relies on: a valid extension object writes as many bytes as it announces, padding included, for a
  position that agrees with the announced one up to the alignment of extension headers; and all extension headers
  together are whole words of four bytes (asserted in \<open>computeExtSize\<close>) that the length fields can count.
\<close>

definition ext_writes :: "'e ExtensionClass \<Rightarrow> 'e Extension \<Rightarrow> bool" where
  "ext_writes cls e \<longleftrightarrow> (\<forall>pos n. pos mod 4 = n mod 4 \<longrightarrow>
     (\<exists>bs. length bs = cls_size cls (ext_object e) n \<and> writesB 0 (cls_write cls e pos) (bits_of bs) ()))"

definition exts_write :: "'e ExtensionClass \<Rightarrow> 'e Extension list \<Rightarrow> bool" where
  "exts_write cls exts \<longleftrightarrow> (\<forall>e \<in> set exts. ext_validFlag e \<longrightarrow> ext_writes cls e) \<and>
     (case computeExtSize cls exts of (hbh, e2e) \<Rightarrow> hbh mod 4 = 0 \<and> e2e mod 4 = 0 \<and> hbh \<le> 1024 \<and> e2e \<le> 1024)"

abbreviation add_size :: "'e ExtensionClass \<Rightarrow> nat \<Rightarrow> 'e Extension \<Rightarrow> nat" where
  "add_size cls n e \<equiv> n + cls_size cls (ext_object e) n"

lemma write_exts_ok:
  assumes "\<forall>e \<in> set L. ext_writes cls e" "pos mod 4 = n mod 4"
  shows "\<exists>bs. n + length bs = foldl (add_size cls) n L \<and> hwrites pos (write_exts cls L) (bits_of bs) (\<lambda>hc. hc)"
  using assms
proof (induction L arbitrary: pos n)
  case Nil
  show ?case by (rule exI [of _ "[]"]) (auto simp: hwrites_def intro: appended_refl)
next
  case (Cons e L)
  from Cons.prems obtain bs where bs: "length bs = cls_size cls (ext_object e) n"
      "writesB 0 (cls_write cls e pos) (bits_of bs) ()"
    unfolding ext_writes_def by (metis list.set_intros(1))
  have w: "hwrites pos (hser_lift (\<lambda>ws. cls_write cls e (ws_pos ws) ws)) (bits_of bs) (\<lambda>hc. hc)"
    using hwrites_lift [OF bs(2), where pos = pos]
    by (simp add: hwrites_def hser_lift_def ws_pos_def aligned_pos)
  have "(pos + length bs) mod 4 = (n + length bs) mod 4" using Cons.prems(2) by (metis mod_add_left_eq)
  then obtain cs where cs: "n + length bs + length cs = foldl (add_size cls) (n + length bs) L"
      "hwrites (pos + length bs) (write_exts cls L) (bits_of cs) (\<lambda>hc. hc)"
    using Cons.IH [where pos = "pos + length bs" and n = "n + length bs"] Cons.prems(1) bs(1) by auto
  have step: "write_exts cls (e # L) = hser_bind (hser_lift (\<lambda>ws. cls_write cls e (ws_pos ws) ws)) (\<lambda>_. write_exts cls L)"
    by (rule ext) simp
  have "hwrites pos (write_exts cls (e # L)) (bits_of bs @ bits_of cs) (\<lambda>hc. hc)"
    unfolding step by (rule hwrites_bind [OF w _ cs(2)]) simp
  then have "hwrites pos (write_exts cls (e # L)) (bits_of (bs @ cs)) (\<lambda>hc. hc)" by (simp only: bits_of_append)
  moreover have "n + length (bs @ cs) = foldl (add_size cls) n (e # L)" using bs(1) cs(1) by simp
  ultimately show ?case by blast
qed

lemma exts_size: "n \<le> foldl (add_size cls) n L"
  by (induction L arbitrary: n) (auto intro: le_trans [OF le_add1])

lemma opts_sum:
  assumes "n = (if list_ex p exts then foldl (add_size cls) (0 + ExtOpts_minSize) (filter p exts) else 0)"
  shows "0 < n \<longleftrightarrow> list_ex p exts" "0 < n \<Longrightarrow> n = foldl (add_size cls) 2 (filter p exts)" "n = 0 \<Longrightarrow> filter p exts = []"
proof -
  have m: "0 + ExtOpts_minSize = 2" by (simp add: ExtOpts_minSize_def)
  have le: "0 < foldl (add_size cls) 2 (filter p exts)"
    using exts_size [of 2 cls "filter p exts"] by (rule less_le_trans [rotated]) simp
  note n = assms [unfolded m]
  show s: "0 < n \<longleftrightarrow> list_ex p exts" using le by (simp only: n split: if_splits) simp
  then show "0 < n \<Longrightarrow> n = foldl (add_size cls) 2 (filter p exts)" using n by argo
  show "n = 0 \<Longrightarrow> filter p exts = []" using s by (simp add: list_ex_iff filter_empty_conv)
qed

lemma computeExtSize_split:
  assumes "computeExtSize cls exts = (hbh, e2e)"
  shows "0 < hbh \<longleftrightarrow> list_ex (isHbH cls) exts" "0 < e2e \<longleftrightarrow> list_ex (isE2E cls) exts"
    "0 < hbh \<Longrightarrow> hbh = foldl (add_size cls) 2 (filter (isHbH cls) exts)"
    "0 < e2e \<Longrightarrow> e2e = foldl (add_size cls) 2 (filter (isE2E cls) exts)"
    "hbh = 0 \<Longrightarrow> filter (isHbH cls) exts = []" "e2e = 0 \<Longrightarrow> filter (isE2E cls) exts = []"
proof -
  have h: "hbh = (if list_ex (isHbH cls) exts
      then foldl (add_size cls) (0 + ExtOpts_minSize) (filter (isHbH cls) exts) else 0)"
    and e: "e2e = (if list_ex (isE2E cls) exts
      then foldl (add_size cls) (0 + ExtOpts_minSize) (filter (isE2E cls) exts) else 0)"
    using assms by (simp_all only: computeExtSize_def Let_def prod.inject)
  show "0 < hbh \<longleftrightarrow> list_ex (isHbH cls) exts" "0 < hbh \<Longrightarrow> hbh = foldl (add_size cls) 2 (filter (isHbH cls) exts)"
    "hbh = 0 \<Longrightarrow> filter (isHbH cls) exts = []"
    by (rule opts_sum [OF h], assumption?)+
  show "0 < e2e \<longleftrightarrow> list_ex (isE2E cls) exts" "0 < e2e \<Longrightarrow> e2e = foldl (add_size cls) 2 (filter (isE2E cls) exts)"
    "e2e = 0 \<Longrightarrow> filter (isE2E cls) exts = []"
    by (rule opts_sum [OF e], assumption?)+
qed

lemma no_exts_sizes: "computeExtSize cls exts = (hbh, e2e) \<Longrightarrow> no_exts exts \<longleftrightarrow> hbh = 0 \<and> e2e = 0"
  using computeExtSize_split(1,2) [of cls exts hbh e2e]
  by (auto simp: no_exts_def list_ex_iff list_all_iff isHbH_def isE2E_def) (metis Category.exhaust)

text \<open>One of the two extension headers, with its options.\<close>

definition opts_head :: "nat \<Rightarrow> byte \<Rightarrow> byte list" where
  "opts_head n nh = (if 0 < n then [nh, of_nat (n div 4) - 1] else [])"

lemma opts_head_writes:
  assumes ser: "\<And>h. writesB 0 (ser h) (ExtOpts_bits h) h"
  shows "hwrites pos (if 0 < n then hser_bind set_nhOffset (\<lambda>_. hser_lift (ser \<lparr>eo_nh = nh, eo_extLen = of_nat (n div 4) - 1\<rparr>))
       else hser_lift (ser_return \<lparr>eo_nh = 0, eo_extLen = 0\<rparr>)) (bits_of (opts_head n nh))
     (\<lambda>hc. if 0 < n then hc\<lparr>hc_nhOffset := of_nat pos\<rparr> else hc)"
proof (cases "0 < n")
  case True
  let ?h = "\<lparr>eo_nh = nh, eo_extLen = of_nat (n div 4) - 1\<rparr>"
  have "ExtOpts_bits ?h = bits_of (opts_head n nh)"
    using True by (simp add: ExtOpts_bits_def opts_head_def bits_of_Cons to_bits_8)
  then have "hwrites pos (hser_lift (ser ?h)) (bits_of (opts_head n nh)) (\<lambda>hc. hc)"
    using hwrites_lift [OF ser, of pos ?h] by simp
  then have "hwrites pos (hser_bind set_nhOffset (\<lambda>_. hser_lift (ser ?h))) ([] @ bits_of (opts_head n nh))
      (\<lambda>hc. hc\<lparr>hc_nhOffset := of_nat pos\<rparr>)"
    by (intro hwrites_bind [OF hwrites_offsets(1), where n = 0]) simp_all
  then show ?thesis using True by simp
qed (simp add: hwrites_return opts_head_def)

lemma opts_writes:
  assumes w: "\<forall>e \<in> set L. ext_writes cls e" and pos: "pos mod 4 = 0"
    and n: "0 < n \<Longrightarrow> n = foldl (add_size cls) 2 L" "n = 0 \<Longrightarrow> L = []"
  shows "\<exists>bs. length (opts_head n nh @ bs) = n \<and>
    hwrites (pos + length (opts_head n nh)) (write_exts cls L) (bits_of bs) (\<lambda>hc. hc)"
proof (cases "0 < n")
  case True
  have "(pos + 2) mod 4 = 2 mod 4" using pos by (metis add.left_neutral mod_add_left_eq)
  from write_exts_ok [OF w this] True n(1) show ?thesis by (auto simp: opts_head_def)
next
  case False
  then show ?thesis using n(2) by (intro exI [of _ "[]"]) (auto simp: opts_head_def hwrites_def intro: appended_refl)
qed

section \<open>The headers\<close>

text \<open>
  Between the path and the transport header stand the bytes of the extension headers, the same for every packet with
  these extensions at this position; the byte at \<open>nhOff\<close> names the transport protocol.
\<close>

definition ext_region :: "'e ExtensionClass \<Rightarrow> 'e Extension list \<Rightarrow> nat \<Rightarrow> byte \<Rightarrow> byte list \<Rightarrow> nat \<Rightarrow> bool" where
  "ext_region cls exts P proto mid nhOff \<longleftrightarrow>
     (case computeExtSize cls exts of (hbh, e2e) \<Rightarrow> length mid = hbh + e2e) \<and>
     (if mid = [] then nhOff = 4 else P \<le> nhOff \<and> nhOff < P + length mid \<and> mid ! (nhOff - P) = proto) \<and>
     (\<forall>h path l4. wf_hosts h \<longrightarrow> L4_writable l4 \<longrightarrow> L4_PROTO l4 = proto \<longrightarrow>
        SCION_size h + length (RawPath_encoded path) = P \<longrightarrow>
        hwrites 0 (writeHeaders cls h path exts l4)
          (SCION_bits h @ bits_of (RawPath_encoded path) @ bits_of mid @ L4_bits l4)
          (\<lambda>hc. hc\<lparr>hc_nhOffset := (if mid = [] then hc_nhOffset hc else of_nat nhOff),
                   hc_l4Offset := of_nat (P + length mid)\<rparr>))"

lemma ext_region_exists:
  assumes ok: "exts_write cls exts" and P: "P mod 4 = 0"
  shows "\<exists>mid nhOff. ext_region cls exts P proto mid nhOff"
proof -
  obtain hbh e2e where sz: "computeExtSize cls exts = (hbh, e2e)" by fastforce
  let ?H = "filter (isHbH cls) exts" and ?E = "filter (isE2E cls) exts"
  have w: "\<forall>e \<in> set ?H. ext_writes cls e" "\<forall>e \<in> set ?E. ext_writes cls e" and m: "hbh mod 4 = 0"
    using ok sz by (auto simp: exts_write_def isHbH_def isE2E_def)
  let ?nh = "if 0 < e2e then ScionProto_E2EOpt else proto"
  let ?h = "opts_head hbh ?nh" and ?e = "opts_head e2e proto"
  have P2: "(P + hbh) mod 4 = 0" using P m by (metis add.left_neutral mod_add_left_eq)
  obtain hs where hs: "length (?h @ hs) = hbh" "hwrites (P + length ?h) (write_exts cls ?H) (bits_of hs) (\<lambda>hc. hc)"
    using opts_writes [OF w(1) P computeExtSize_split(3,5) [OF sz], of ?nh] by auto
  obtain es where es: "length (?e @ es) = e2e"
      "hwrites (P + hbh + length ?e) (write_exts cls ?E) (bits_of es) (\<lambda>hc. hc)"
    using opts_writes [OF w(2) P2 computeExtSize_split(4,6) [OF sz], of proto] by auto
  let ?mid = "(?h @ hs) @ (?e @ es)"
  let ?off = "if 0 < e2e then P + hbh else if 0 < hbh then P else 4"
  have len: "length ?mid = hbh + e2e" using hs(1) es(1) by simp
  have nth: "?mid ! (?off - P) = proto" if "?mid \<noteq> []"
  proof (cases "0 < e2e")
    case True
    then show ?thesis using hs(1) by (auto simp: nth_append opts_head_def)
  next
    case False
    then have "0 < hbh" using that len by (metis length_greater_0_conv add.right_neutral not_gr_zero)
    then show ?thesis using False hs(1) by (simp add: nth_append opts_head_def)
  qed
  have wr: "hwrites 0 (writeHeaders cls h path exts l4)
      (SCION_bits h @ bits_of (RawPath_encoded path) @ bits_of ?mid @ L4_bits l4)
      (\<lambda>hc. hc\<lparr>hc_nhOffset := (if ?mid = [] then hc_nhOffset hc else of_nat ?off),
               hc_l4Offset := of_nat (P + length ?mid)\<rparr>)"
    if h: "wf_hosts h" and l4: "L4_writable l4" "L4_PROTO l4 = proto"
      and off: "SCION_size h + length (RawPath_encoded path) = P" for h path l4
  proof -
    let ?p = "RawPath_encoded path"
    have path: "writesB 0 (serializeBytes ?p) (bits_of ?p) ?p" by (rule writesB_serializeBytes) simp
    let ?stop = "P + hbh + e2e"
    have ser: "writesB 0 (HopByHopOpts_serialize x) (ExtOpts_bits x) x" "writesB 0 (EndToEndOpts_serialize x) (ExtOpts_bits x) x"
      for x by (rule hbh_opts.writes e2e_opts.writes, rule TrueI)+
    have pos: "?stop = P + hbh + length ?e + length es" "P + hbh = P + length ?h + length hs"
        "P = SCION_size h + length ?p" "SCION_size h = 0 + SCION_size h" "?stop = ?stop + 0"
      using es(1) hs(1) off by simp_all
    note s9 = hwrites_step [OF hwrites_lift [OF L4_writes [OF l4(1), of 0], where pos = ?stop] L4_bits_length hwrites_return refl]
    note s8 = hwrites_step [OF hwrites_offsets(2) [of ?stop] _ s9 pos(5)]
    note s7 = hwrites_step [OF es(2) length_bits_of s8 pos(1)]
    note s6 = hwrites_step [OF opts_head_writes [where ser = EndToEndOpts_serialize and n = e2e and nh = proto and
        pos = "P + hbh", OF ser(2)] length_bits_of s7 refl]
    note s5 = hwrites_step [OF hs(2) length_bits_of s6 pos(2)]
    note s4 = hwrites_step [OF opts_head_writes [where ser = HopByHopOpts_serialize and n = hbh and nh = ?nh and pos = P,
        OF ser(1)] length_bits_of s5 refl]
    note s3 = hwrites_step [OF hwrites_lift [OF path] length_bits_of s4 pos(3)]
    note s2 = hwrites_step [OF hwrites_lift [OF SCION_writes_any [OF h]] SCION_bits_length s3 pos(4)]
    have empty: "?mid = [] \<longleftrightarrow> hbh = 0 \<and> e2e = 0" using len by (metis add_is_0 length_0_conv)
    show ?thesis
      unfolding writeHeaders_def sz prod.case Let_def l4(2)
    proof (rule hwrites_cong [OF s2])
      show "length [] = 8 * 0" by simp
    next
      show "SCION_bits h @ bits_of ?p @ bits_of ?h @ bits_of hs @ bits_of ?e @ bits_of es @ [] @ L4_bits l4 @ [] =
          SCION_bits h @ bits_of ?p @ bits_of ?mid @ L4_bits l4"
        by (simp only: bits_of_append append_assoc append_Nil append_Nil2)
    next
      show "(if 0 < e2e then (if 0 < hbh then hc\<lparr>hc_nhOffset := of_nat P\<rparr> else hc)\<lparr>hc_nhOffset := of_nat (P + hbh)\<rparr>
            else if 0 < hbh then hc\<lparr>hc_nhOffset := of_nat P\<rparr> else hc)\<lparr>hc_l4Offset := of_nat ?stop\<rparr> =
          hc\<lparr>hc_nhOffset := (if ?mid = [] then hc_nhOffset hc else of_nat ?off), hc_l4Offset := of_nat (P + length ?mid)\<rparr>" for hc
        unfolding empty len by (cases "0 < e2e"; cases "0 < hbh"; cases hc) (simp_all add: add.assoc)
    qed simp
  qed
  have off: "if ?mid = [] then ?off = 4 else P \<le> ?off \<and> ?off < P + length ?mid \<and> ?mid ! (?off - P) = proto"
  proof (cases "?mid = []")
    case True
    then have "hbh + e2e = 0" unfolding len [symmetric] by simp
    then show ?thesis using True by simp
  next
    case False
    then have "0 < hbh + e2e" unfolding len [symmetric] by blast
    then show ?thesis using False nth [OF False] len by auto
  qed
  have "ext_region cls exts P proto ?mid ?off"
    unfolding ext_region_def sz prod.case by (intro conjI len off allI impI wr)
  then show ?thesis by blast
qed

section \<open>The built header\<close>

definition scion_nh :: "nat \<Rightarrow> nat \<Rightarrow> byte \<Rightarrow> byte" where
  "scion_nh hbh e2e proto = (if 0 < e2e then ScionProto_E2EOpt else if 0 < hbh then ScionProto_HBHOpt else proto)"

lemma build_header_sizes:
  assumes "computeExtSize cls exts = (hbh, e2e)"
  shows "build_header cls seed tc to from path exts l4 payload =
    \<lparr>sc_qos = tc,
     sc_hlen = of_nat ((12 + Address_size (Endpoint_address to) + Address_size (Endpoint_address from) + rp_size path) div 4),
     sc_nh = scion_nh hbh e2e (L4_PROTO l4), sc_ptype = rp_type path,
     sc_plen = of_nat (hbh + e2e + L4_size l4 + length payload),
     sc_fl = ucast (Address_hash seed (Endpoint_address to) XOR Address_hash seed (Endpoint_address from))
       XOR L4_flowLabel l4,
     sc_dst = Endpoint_address to, sc_src = Endpoint_address from\<rparr>"
  by (simp add: build_header_def assms SCION_size_def computeFlowLabel_def scion_nh_def)

lemma built_header_sizes:
  assumes sz: "computeExtSize cls exts = (hbh, e2e)" and fits: "packet_fits to from path l4 payload"
    and h_def: "h = build_header cls seed tc to from path exts l4' payload"
  shows "4 * unat (sc_hlen h) = SCION_size h + length (RawPath_encoded path)" "wf_hosts h"
    "sc_nh h = scion_nh hbh e2e (L4_PROTO l4')" "sc_plen h = of_nat (hbh + e2e + L4_size l4' + length payload)"
    "(SCION_size h + length (RawPath_encoded path)) mod 4 = 0"
    "SCION_size h + length (RawPath_encoded path) \<le> 1020"
proof -
  note p = fits [unfolded packet_fits_def]
  have s: "SCION_size h = 12 + Address_size (Endpoint_address to) + Address_size (Endpoint_address from)"
    by (simp add: h_def build_header_sizes [OF sz] SCION_size_def)
  let ?n = "SCION_size h + rp_size path"
  have n: "4 dvd ?n" using SCION_size_4(1) [of h] p by (auto simp: mod_eq_0_iff_dvd)
  have le: "?n \<le> 1020" using p s by auto
  then have "?n div 4 < 2 ^ 8" using div_le_mono [of ?n 1020 4] by simp
  moreover have "sc_hlen h = of_nat (?n div 4)" unfolding s by (simp add: h_def build_header_sizes [OF sz])
  ultimately have "unat (sc_hlen h) = ?n div 4" by (simp add: unsigned_of_nat take_bit_nat_eq_self)
  then show "4 * unat (sc_hlen h) = SCION_size h + length (RawPath_encoded path)" using n p by simp
  show "wf_hosts h" using p by (simp add: h_def build_header_sizes [OF sz] wf_hosts_def Endpoint_address_def Address_make_def)
  show "(SCION_size h + length (RawPath_encoded path)) mod 4 = 0"
    "SCION_size h + length (RawPath_encoded path) \<le> 1020" using n p le by auto
qed (simp_all add: h_def build_header_sizes [OF sz])

lemma built_parts:
  assumes sz: "computeExtSize cls exts = (hbh, e2e)"
    and b: "built_packet cls seed tc to from path exts l4 payload = (h, chksum, l4')"
  shows "chksum = SCION_checksum h (of_nat (L4_size l4 + length payload)) (L4_PROTO l4)"
    "l4' = L4_setChksum (internetChecksum payload (chksum + L4_checksum (built_l4 to from l4 payload)))
       (built_l4 to from l4 payload)"
    "h = build_header cls seed tc to from path exts (built_l4 to from l4 payload) payload"
  using b by (auto simp: built_packet_def hc_checksum_def Let_def split: prod.splits)

lemma build_region:
  assumes sz: "computeExtSize cls exts = (hbh, e2e)" and fits: "packet_fits to from path l4 payload"
    and region: "ext_region cls exts (SCION_size h + length (RawPath_encoded path)) (L4_PROTO l4) mid nhOff"
    and b: "built_packet cls seed tc to from path exts l4 payload = (h, chksum, l4')"
  shows "\<exists>buf. HeaderCache_build cls seed hc tc to from path exts l4 payload =
      (Ok, l4', \<lparr>hc_scionHdrChksum = chksum, hc_payloadSize = of_nat (length payload), hc_nhOffset = of_nat nhOff,
                hc_l4Offset = of_nat (SCION_size h + length (RawPath_encoded path @ mid)), hc_buffer = buf\<rparr>) \<and>
    bits_of buf = packet_bits h (RawPath_encoded path @ mid) l4'"
proof -
  let ?l4 = "built_l4 to from l4 payload" and ?p = "RawPath_encoded path"
  note parts = built_parts [OF sz b]
  note hd = built_header_sizes [OF sz fits parts(3)]
  have w: "L4_writable l4'" "L4_size l4' = L4_size l4" "L4_PROTO l4' = L4_PROTO l4"
    using fits parts(2) by (auto simp: packet_fits_def)
  have mid: "length mid = hbh + e2e" using region sz by (simp add: ext_region_def)
  define buf where "buf = resize (4 * unat (sc_hlen h) + hbh + e2e + L4_size l4) 0 (hc_buffer hc)"
  let ?hc = "hc\<lparr>hc_nhOffset := 4, hc_scionHdrChksum := chksum, hc_buffer := buf\<rparr>"
  let ?bits = "SCION_bits h @ bits_of ?p @ bits_of mid @ L4_bits l4'"
  have "hwrites 0 (writeHeaders cls h path exts l4') ?bits
      (\<lambda>hc. hc\<lparr>hc_nhOffset := (if mid = [] then hc_nhOffset hc else of_nat nhOff),
               hc_l4Offset := of_nat (SCION_size h + length ?p + length mid)\<rparr>)"
    using region hd(2) w unfolding ext_region_def by blast
  moreover have "length ?bits = 8 * length buf"
    using hd(1) w(2) mid by (simp add: buf_def SCION_bits_length L4_bits_length)
  ultimately obtain a b' where b': "writeHeaders cls h path exts l4' (?hc, WriteStream (stream_init buf)) =
      (Inr a, ?hc\<lparr>hc_nhOffset := (if mid = [] then hc_nhOffset ?hc else of_nat nhOff),
        hc_l4Offset := of_nat (SCION_size h + length ?p + length mid)\<rparr>, WriteStream b')"
      "bits_of (bufdata b') = ?bits"
    by (rule hwrites_fill [of _ _ _ buf ?hc, THEN exE]) blast
  moreover have "HeaderCache_build cls seed hc tc to from path exts l4 payload =
    (case writeHeaders cls h path exts l4' (?hc, WriteStream (stream_init buf)) of
       (Inl _, hc, ws) \<Rightarrow> (LogicError, l4', hc\<lparr>hc_buffer := bufdata (stream_buf ws)\<rparr>)
     | (Inr _, hc, ws) \<Rightarrow>
         (Ok, l4', hc\<lparr>hc_buffer := bufdata (stream_buf ws), hc_payloadSize := of_nat (length payload)\<rparr>))"
  proof -
    obtain u where h: "build_header cls seed tc to from path exts ?l4 payload = h"
      and c: "hc_checksum h ?l4 payload = (chksum, u)" and l4': "L4_setChksum u ?l4 = l4'"
      using b by (auto simp: built_packet_def Let_def split: prod.splits)
    show ?thesis
      unfolding HeaderCache_build_def Let_def built_l4_def [symmetric] sz prod.case h c l4' buf_def w(2) by simp
  qed
  moreover have "mid = [] \<Longrightarrow> nhOff = 4" using region by (simp add: ext_region_def)
  ultimately show ?thesis
    using b'(2) by (cases hc) (simp add: b'(1) packet_bits_def add.assoc)
qed

section \<open>Parsing extensions ends\<close>

text \<open>
  The loop over the options goes on after an error of skipping an unknown option; even so every round
  consumes at least the type of an option. What the parser of an extension object has to promise is that it
  stays inside the buffer and consumes something when it succeeds.
\<close>

definition consumes :: "bit_buf \<Rightarrow> stream \<Rightarrow> bool" where
  "consumes b st \<longleftrightarrow> (\<exists>b'. st = ReadStream b' \<and> bitPos b' = 0 \<and> bufdata b' = bufdata b
     \<and> byteIter b < byteIter b' \<and> byteIter b' \<le> length (bufdata b))"

definition ext_parses :: "'e ExtensionClass \<Rightarrow> bool" where
  "ext_parses cls \<longleftrightarrow> (\<forall>e b e' st. bitPos b = 0 \<longrightarrow> byteIter b < length (bufdata b)
     \<longrightarrow> cls_parse cls e (ReadStream b) = (Inr e', st) \<longrightarrow> consumes b st)"

lemma consumes_advance:
  "bitPos b = 0 \<Longrightarrow> n \<le> bytesLeft b \<Longrightarrow> 0 < n \<Longrightarrow> consumes b (ReadStream (advance_bytes_pos n b))"
  by (auto simp: consumes_def advance_bytes_pos_def bytesLeft_def)

lemma consumes_trans: "consumes b (ReadStream b1) \<Longrightarrow> consumes b1 st \<Longrightarrow> consumes b st"
  by (auto simp: consumes_def)

lemma read_byte:
  assumes "bitPos b = 0" "byteIter b < length (bufdata b)"
  shows "\<exists>x. serializeByte v (ReadStream b) = (Inr x, ReadStream (advance_bytes_pos 1 b))"
  using assms by (auto simp: serializeByte_def on_stream_def ReadStream_serializeByte_def bytesLeft_def)

lemma read_byte_end:
  assumes "bitPos b = 0" "bytesLeft b = 0"
  shows "\<exists>e. serializeByte v (ReadStream b) = (Inl e, ReadStream b)"
  using assms by (auto simp: serializeByte_def on_stream_def ReadStream_serializeByte_def)

lemma skip_bytes:
  assumes "bitPos b = 0"
  shows "\<exists>r. advanceBytes n (ReadStream b) = (r, ReadStream (if bytesLeft b < n then b else advance_bytes_pos n b))"
  using assms by (auto simp: advanceBytes_def on_stream_def ReadStream_advanceBytes_def)

lemma SciOpt_consumes:
  assumes b: "bitPos b = 0" "byteIter b < length (bufdata b)"
  shows "consumes b (snd (SciOpt_serialize opt (ReadStream b)))"
proof -
  let ?b1 = "advance_bytes_pos 1 b"
  have c1: "consumes b (ReadStream ?b1)" using b by (intro consumes_advance) (auto simp: bytesLeft_def)
  have p1: "bitPos ?b1 = 0" using b by (simp add: advance_bytes_pos_def)
  obtain type where t: "serializeByte (so_type opt) (ReadStream b) = (Inr type, ReadStream ?b1)"
    using read_byte [OF b] by blast
  show ?thesis
  proof (cases "type = OptType_Pad1 \<or> bytesLeft ?b1 = 0")
    case True
    then show ?thesis
      using c1 read_byte_end [OF p1, of "so_dataLen opt"] t
      by (auto simp: SciOpt_serialize_def ser_bind_def ser_return_def)
  next
    case False
    let ?b2 = "advance_bytes_pos 1 ?b1"
    have l: "byteIter ?b1 < length (bufdata ?b1)" using False by (auto simp: bytesLeft_def)
    obtain n where n: "serializeByte (so_dataLen opt) (ReadStream ?b1) = (Inr n, ReadStream ?b2)"
      using read_byte [OF p1 l] by blast
    have c2: "consumes b (ReadStream ?b2)"
      by (rule consumes_trans [OF c1 consumes_advance]) (use p1 l in \<open>auto simp: bytesLeft_def\<close>)
    have p2: "bitPos ?b2 = 0" using p1 by (simp add: advance_bytes_pos_def)
    obtain r where r: "advanceBytes (unat n) (ReadStream ?b2)
        = (r, ReadStream (if bytesLeft ?b2 < unat n then ?b2 else advance_bytes_pos (unat n) ?b2))"
      using skip_bytes [OF p2] by blast
    have "consumes b (ReadStream (if bytesLeft ?b2 < unat n then ?b2 else advance_bytes_pos (unat n) ?b2))"
    proof (cases "bytesLeft ?b2 < unat n \<or> n = 0")
      case True
      then show ?thesis using c2 by (auto simp: advance_bytes_pos_def)
    next
      case False
      then have "0 < unat n" by (simp add: unat_gt_0)
      then show ?thesis
        using False consumes_trans [OF c2 consumes_advance [OF p2, of "unat n"]] by simp
    qed
    then show ?thesis
      using False t n r by (cases r) (auto simp: SciOpt_serialize_def ser_bind_def ser_return_def)
  qed
qed

lemma parse_first_consumes:
  assumes "ext_parses cls" "bitPos b = 0" "byteIter b < length (bufdata b)"
  shows "parse_first cls t exts (ReadStream b) = Some (Inr es, st) \<Longrightarrow> consumes b st"
proof (induction exts arbitrary: es)
  case (Cons e exts)
  show ?case
  proof (cases "t = cls_type cls (ext_object e)")
    case True
    then show ?thesis
      using Cons.prems assms by (auto simp: ext_parses_def split: prod.splits sum.splits)
  next
    case False
    then obtain r where r: "parse_first cls t exts (ReadStream b) = Some r" "apfst (map_sum id (\<lambda>es. e # es)) r = (Inr es, st)"
      using Cons.prems by auto
    then obtain es' where "r = (Inr es', st)" by (cases r; cases "fst r") auto
    then show ?thesis using Cons.IH r(1) by blast
  qed
qed simp

lemma parse_option_consumes:
  assumes "ext_parses cls" "bitPos b = 0" "byteIter b < length (bufdata b)"
    and "parse_option cls (exts, ReadStream b) = Inr (exts', st)"
  shows "consumes b st"
  using assms(4) parse_first_consumes [OF assms(1-3)] SciOpt_consumes [OF assms(2,3)]
  by (auto simp: parse_option_def split: prod.splits sum.splits option.splits)

lemma parse_options_ends:
  assumes "ext_parses cls" "bitPos b = 0" "byteIter b \<le> length (bufdata b)"
  shows "\<exists>r. parse_options cls (exts, ReadStream b) = Some r"
  using assms(2,3)
proof (induction "length (bufdata b) - byteIter b" arbitrary: exts b rule: less_induct)
  case less
  show ?case
  proof (cases "byteIter b = length (bufdata b)")
    case True
    then show ?thesis by (subst parse_options.simps) (simp add: stream_more_def)
  next
    case False
    then have b: "byteIter b < length (bufdata b)" using less.prems by simp
    show ?thesis
    proof (cases "parse_option cls (exts, ReadStream b)")
      case (Inl e)
      then show ?thesis by (subst parse_options.simps) simp
    next
      case (Inr s')
      obtain exts' st where s': "s' = (exts', st)" by fastforce
      obtain b' where b': "st = ReadStream b'" "bitPos b' = 0" "bufdata b' = bufdata b" "byteIter b < byteIter b'"
          "byteIter b' \<le> length (bufdata b)"
        using parse_option_consumes [OF assms(1) less.prems(1) b Inr [unfolded s']] by (auto simp: consumes_def)
      have "\<exists>r. parse_options cls (exts', ReadStream b') = Some r"
        by (rule less.hyps) (use b' b in auto)
      then show ?thesis using Inr s' b'(1) by (subst parse_options.simps) simp
    qed
  qed
qed

lemma parseExtensions_ends: "ext_parses cls \<Longrightarrow> \<exists>r. parseExtensions cls (ReadStream (stream_init opts)) exts = Some r"
  unfolding parseExtensions_def by (rule parse_options_ends) (simp_all add: stream_init_def)

end
