(* ===== verification/PacketUpdate.thy ===== *)
theory PacketUpdate
  imports PacketExt
begin

text \<open>
  Replacing the payload of a built header (\<open>HeaderCache::updatePayload\<close>), with and without extension headers, compared
  with building the header anew.
\<close>

section \<open>Replacing the payload\<close>

text \<open>Writing whole bytes at a position replaces them and leaves the others.\<close>

lemma write_at:
  assumes "writesB 0 m bs a" "length bs mod 8 = 0" "8 * n + length bs \<le> 8 * length (bufdata b)" "n < length (bufdata b)"
    and "n \<noteq> npos"
  shows "\<exists>b'. ser_bind (ser_seek n) (\<lambda>_. m) (WriteStream b) = (Inr a, WriteStream b') \<and>
    bits_of (bufdata b') = take (8 * n) (bits_of (bufdata b)) @ bs @ drop (8 * n + length bs) (bits_of (bufdata b))"
proof -
  let ?b = "snd (seek n 0 b)"
  have b: "wf_buf ?b" "clean_tail ?b" "bit_pos ?b = 8 * n" "bufdata ?b = bufdata b"
    using assms(4,5) by (auto simp: seek_def wf_buf_def clean_tail_def bit_pos_def)
  then obtain b' where b': "m (WriteStream ?b) = (Inr a, WriteStream b')" "appended ?b bs b'"
    using assms(1,3) unfolding writesB_def by (fastforce simp: bits_room_def)
  have pos: "bit_pos b' = 8 * n + length bs" using b' b by (simp add: appended_def)
  obtain k where k: "length bs = 8 * k" using assms(2) by (auto simp: mod_eq_0_iff_dvd elim: dvdE)
  have "(8 * n + length bs + 7) div 8 = (8 * n + length bs) div 8" by (simp add: k)
  then have "drop ((8 * n + length bs) div 8) (bufdata b') = drop ((8 * n + length bs) div 8) (bufdata b)"
    using b' b pos by (simp add: appended_def)
  then have "bits_of (drop ((8 * n + length bs) div 8) (bufdata b')) =
      bits_of (drop ((8 * n + length bs) div 8) (bufdata b))" by simp
  then have "drop (8 * ((8 * n + length bs) div 8)) (bits_of (bufdata b')) =
      drop (8 * ((8 * n + length bs) div 8)) (bits_of (bufdata b))"
    by (simp only: drop_bits_of)
  moreover have "8 * ((8 * n + length bs) div 8) = 8 * n + length bs" by (simp add: k)
  moreover have "take (8 * n + length bs) (bits_of (bufdata b')) = take (8 * n) (bits_of (bufdata b)) @ bs"
    using b' b pos by (simp add: appended_def bits_done_def)
  ultimately have "bits_of (bufdata b') =
      take (8 * n) (bits_of (bufdata b)) @ bs @ drop (8 * n + length bs) (bits_of (bufdata b))"
    by (metis append_take_drop_id append.assoc)
  then show ?thesis using b'(1) by (auto simp: ser_bind_def ser_seek_def)
qed

text \<open>A step at a position and the ones after it.\<close>

lemma run_at:
  "ser_bind (ser_seek n) (\<lambda>_. m) st = (Inr a, st') \<Longrightarrow>
   ser_bind (ser_seek n) (\<lambda>_. ser_bind m f) st = f a st'"
  by (auto simp: ser_bind_def split: prod.splits sum.splits)

definition SCION_front :: "SCION \<Rightarrow> bool list" where
  "SCION_front h = to_bits 4 (0 :: byte) @ to_bits 8 (sc_qos h) @ to_bits 20 (sc_fl h)"

definition SCION_back :: "SCION \<Rightarrow> bool list" where
  "SCION_back h = to_bits 8 (sc_ptype h)
     @ to_bits 4 (HostAddrType_code (AddressTraits_type (a_host (sc_dst h))))
     @ to_bits 4 (HostAddrType_code (AddressTraits_type (a_host (sc_src h))))
     @ replicate (8 * 2) False @ to_bits 64 (a_ia (sc_dst h)) @ to_bits 64 (a_ia (sc_src h))
     @ IPAddress_bits (a_host (sc_dst h)) @ IPAddress_bits (a_host (sc_src h))"

lemma SCION_bits_split:
  "SCION_bits h = SCION_front h @ to_bits 8 (sc_nh h) @ to_bits 8 (sc_hlen h) @ to_bits 16 (sc_plen h) @ SCION_back h"
  by (simp add: SCION_bits_def SCION_front_def SCION_back_def)

lemma SCION_front_length [simp]: "length (SCION_front h) = 32"
  by (simp add: SCION_front_def)

lemma SCION_back_length: "64 + length (SCION_back h) = 8 * SCION_size h"
  using SCION_bits_length [of h] by (simp add: SCION_bits_split)

text \<open>Writing a byte that is there already changes nothing.\<close>

lemma write_same:
  assumes "drop (8 * S) (bits_of d) = bits_of mid @ rest" "S \<le> n" "n < S + length mid" "S + length mid \<le> length d"
  shows "take (8 * n) (bits_of d) @ to_bits 8 (mid ! (n - S)) @ drop (8 * n + 8) (bits_of d) = bits_of d"
proof -
  have "bits_of (take (length mid) (drop S d)) = bits_of mid"
    unfolding take_bits_of [symmetric] drop_bits_of [symmetric] assms(1) by simp
  then have "take (length mid) (drop S d) = mid" by (rule bits_of_inject)
  then have "mid ! (n - S) = take (length mid) (drop S d) ! (n - S)" by simp
  also have "\<dots> = d ! n" using assms(2-4) by (subst nth_take) auto
  finally have nth: "mid ! (n - S) = d ! n" .
  have n: "n < length d" using assms(3,4) by simp
  have "take (8 * n) (bits_of d) @ to_bits 8 (d ! n) @ drop (8 * Suc n) (bits_of d) =
      bits_of (take n d @ [d ! n] @ drop (Suc n) d)"
    by (simp only: take_bits_of drop_bits_of to_bits_byte bits_of_append)
  also have "take n d @ [d ! n] @ drop (Suc n) d = d" using id_take_nth_drop [OF n] by simp
  finally show ?thesis by (simp add: nth add.commute)
qed

text \<open>Where the protocol number stands: in the SCION header, or in one of the extension headers.\<close>

definition nh_at :: "nat \<Rightarrow> nat \<Rightarrow> byte list \<Rightarrow> byte \<Rightarrow> bool" where
  "nh_at nhOff S mid proto \<longleftrightarrow> nhOff = 4 \<or> S \<le> nhOff \<and> nhOff < S + length mid \<and> mid ! (nhOff - S) = proto"

abbreviation updated_nh :: "nat \<Rightarrow> byte \<Rightarrow> byte \<Rightarrow> byte" where
  "updated_nh nhOff proto nh \<equiv> if nhOff = 4 then proto else nh"

lemma updateHeaders_ok:
  assumes buf: "bits_of (take off buf) = SCION_bits h @ bits_of mid" "off = SCION_size h + length mid"
      "length buf = off + L4_size l4" "0 < L4_size l4" "off < 2 ^ 16"
    and hc: "hc_nhOffset hc = of_nat nhOff" "hc_l4Offset hc = of_nat off" and l4: "L4_writable l4"
    and nh: "nh_at nhOff (SCION_size h) mid (L4_PROTO l4)"
  shows "\<exists>b. updateHeaders hc plen l4 (WriteStream (stream_init buf)) = (Inr (), WriteStream b) \<and>
    bits_of (bufdata b) =
      packet_bits (h\<lparr>sc_nh := updated_nh nhOff (L4_PROTO l4) (sc_nh h), sc_plen := plen\<rparr>) mid l4"
proof -
  let ?F = "SCION_front h" and ?R = "SCION_back h @ bits_of mid" and ?L = "bits_of (drop off buf)"
  let ?nh = "updated_nh nhOff (L4_PROTO l4) (sc_nh h)"
  have off: "36 \<le> off" using buf(2) SCION_size_4(2) [of h] by simp
  have L: "length ?L = 8 * L4_size l4" using buf(3) by simp
  have R: "64 + length ?R = 8 * off" using SCION_back_length [of h] buf(2) by simp
  have n4: "nhOff < off" using nh off buf(2) by (auto simp: nh_at_def)
  then have n: "6 \<noteq> npos" "nhOff \<noteq> npos" "off \<noteq> npos" using buf(5) by (simp_all add: npos_def)
  have "bits_of buf = bits_of (take off buf) @ ?L" by (metis append_take_drop_id bits_of_append)
  then have B0: "bits_of buf = ?F @ to_bits 8 (sc_nh h) @ to_bits 8 (sc_hlen h) @ to_bits 16 (sc_plen h) @ ?R @ ?L"
    by (simp add: buf(1) SCION_bits_split)
  have len: "length buf = length (bufdata b)" if "length (bits_of (bufdata b)) = length (bits_of buf)" for b
    using that by simp
  obtain b1 where b1: "ser_bind (ser_seek 6) (\<lambda>_. serializeUint16 plen) (WriteStream (stream_init buf)) =
        (Inr plen, WriteStream b1)"
      "bits_of (bufdata b1) = ?F @ to_bits 8 (sc_nh h) @ to_bits 8 (sc_hlen h) @ to_bits 16 plen @ ?R @ ?L"
    using write_at [OF writesB_serializeUint16 [of 0 plen], where n = 6 and b = "stream_init buf"] buf off n
    by (auto simp: B0)
  have l1: "length (bufdata b1) = off + L4_size l4" using len [of b1] b1(2) B0 buf(3) by simp
  obtain b2 where b2: "ser_bind (ser_seek nhOff) (\<lambda>_. serializeByte (L4_PROTO l4)) (WriteStream b1) =
        (Inr (L4_PROTO l4), WriteStream b2)"
      "bits_of (bufdata b2) = take (8 * nhOff) (bits_of (bufdata b1)) @ to_bits 8 (L4_PROTO l4) @
         drop (8 * nhOff + 8) (bits_of (bufdata b1))"
    using write_at [OF writesB_serializeByte [of 0 "L4_PROTO l4"], where n = nhOff and b = b1] l1 n4 n by auto
  have "bits_of (bufdata b2) = ?F @ to_bits 8 ?nh @ to_bits 8 (sc_hlen h) @ to_bits 16 plen @ ?R @ ?L"
  proof (cases "nhOff = 4")
    case True
    then show ?thesis by (simp add: b2(2) b1(2))
  next
    case False
    then have nh: "SCION_size h \<le> nhOff" "nhOff < SCION_size h + length mid" "mid ! (nhOff - SCION_size h) = L4_PROTO l4"
      using nh by (simp_all add: nh_at_def)
    have "drop (8 * SCION_size h) (bits_of (bufdata b1)) = bits_of mid @ ?L"
      using SCION_back_length [of h] by (simp add: b1(2))
    from write_same [OF this nh(1,2)] show ?thesis using False l1 buf(2) b1(2) by (simp add: b2(2) nh(3))
  qed
  note b2 = b2(1) this
  have l2: "length (bufdata b2) = off + L4_size l4" using len [of b2] b2(2) B0 buf(3) by simp
  obtain b3 where b3: "ser_bind (ser_seek off) (\<lambda>_. L4_serialize l4) (WriteStream b2) = (Inr l4, WriteStream b3)"
      "bits_of (bufdata b3) = take (8 * off) (bits_of (bufdata b2)) @ L4_bits l4 @
         drop (8 * off + length (L4_bits l4)) (bits_of (bufdata b2))"
    using write_at [OF L4_writes [OF l4], where n = off and b = b2] l2 buf(4) n by (auto simp: L4_bits_length)
  have "unat (hc_l4Offset hc) = off" "unat (hc_nhOffset hc) = nhOff"
    using buf(5) hc n4 by (simp_all add: unsigned_of_nat take_bit_nat_eq_self)
  then have "updateHeaders hc plen l4 (WriteStream (stream_init buf)) = (Inr (), WriteStream b3)"
    by (simp add: updateHeaders_def run_at [OF b1(1)] run_at [OF b2(1)] run_at [OF b3(1)] ser_return_def)
  moreover have "bits_of (bufdata b3) = packet_bits (h\<lparr>sc_nh := ?nh, sc_plen := plen\<rparr>) mid l4"
  proof -
    have "take (8 * off) (bits_of (bufdata b2)) =
        ?F @ to_bits 8 ?nh @ to_bits 8 (sc_hlen h) @ to_bits 16 plen @ ?R"
      using R by (simp add: b2(2))
    moreover have "drop (8 * off + length (L4_bits l4)) (bits_of (bufdata b2)) = []"
      using l2 by (simp add: L4_bits_length)
    ultimately show ?thesis
      by (simp add: b3(2) packet_bits_def SCION_bits_split SCION_front_def SCION_back_def)
  qed
  ultimately show ?thesis by blast
qed

lemma read_at:
  assumes "readsB 0 m bs a" "drop (8 * n) (bits_of (bufdata b)) = bs @ rest" "n < length (bufdata b)" "n \<noteq> npos"
  shows "\<exists>b'. ser_bind (ser_seek n) (\<lambda>_. m) (ReadStream b) = (Inr a, ReadStream b') \<and> bufdata b' = bufdata b"
proof -
  let ?b = "snd (seek n 0 b)"
  have b: "wf_buf ?b" "bit_pos ?b = 8 * n" "bufdata ?b = bufdata b"
    using assms(3,4) by (auto simp: seek_def wf_buf_def bit_pos_def)
  then obtain b' where "m (ReadStream ?b) = (Inr a, ReadStream b')" "consumed ?b (length bs) b'"
    using assms(1,2) unfolding readsB_def by (fastforce simp: bits_ahead_def)
  then show ?thesis using b(3) by (auto simp: ser_bind_def ser_seek_def consumed_def)
qed

lemma update_reads:
  assumes "bits_of buf = packet_bits h path l4"
  shows "\<exists>st. ser_bind (ser_seek 4) (\<lambda>_. ser_bind (serializeByte 0) (\<lambda>nh.
       ser_bind (ser_seek 6) (\<lambda>_. ser_bind (serializeUint16 0) (\<lambda>oldLen. ser_return (nh, oldLen)))))
     (ReadStream (stream_init buf)) = (Inr (sc_nh h, sc_plen h), st)"
proof -
  let ?b = "stream_init buf"
  have "8 * length buf = 8 * (SCION_size h + length path + L4_size l4)"
    using arg_cong [OF assms, of length] by (simp add: packet_bits_length)
  then have len: "36 \<le> length buf" using SCION_size_4(2) [of h] by simp
  have n: "4 \<noteq> npos" "6 \<noteq> npos" by (simp_all add: npos_def)
  obtain b1 where b1: "ser_bind (ser_seek 4) (\<lambda>_. serializeByte 0) (ReadStream ?b) = (Inr (sc_nh h), ReadStream b1)"
      "bufdata b1 = buf"
    using read_at [OF readsB_serializeByte [of 0 0 "sc_nh h"], where n = 4 and b = ?b] len n
    by (auto simp: assms packet_bits_def SCION_bits_split)
  obtain b2 where b2: "ser_bind (ser_seek 6) (\<lambda>_. serializeUint16 0) (ReadStream b1) = (Inr (sc_plen h), ReadStream b2)"
    using read_at [OF readsB_serializeUint16 [of 0 0 "sc_plen h"], where n = 6 and b = b1] len n
    by (auto simp: b1(2) assms packet_bits_def SCION_bits_split)
  show ?thesis by (simp add: run_at [OF b1(1)] run_at [OF b2] ser_return_def)
qed

lemma L4_setPorts_setChksum [simp]: "L4_setPorts s d (L4_setChksum c l4) = L4_setChksum c (L4_setPorts s d l4)"
  by (cases l4) simp_all

lemma L4_size_pos: "L4_writable l4 \<Longrightarrow> 0 < L4_size l4"
  by (cases l4) (simp_all add: UDP_size_def SCMP_size_def)

lemma L4_flowLabel_ports:
  "L4_PROTO l4 = L4_PROTO l4b \<Longrightarrow> L4_flowLabel (L4_setPorts s d l4) = L4_flowLabel (L4_setPorts s d l4b)"
  by (cases l4; cases l4b) (simp_all add: UDP_flowLabel_def proto_distinct(3) proto_distinct(3) [symmetric])

text \<open>The state of the cache after building.\<close>

definition built_cache :: "u32 \<Rightarrow> byte list \<Rightarrow> nat \<Rightarrow> nat \<Rightarrow> byte list \<Rightarrow> HeaderCache" where
  "built_cache chksum payload nhOff off buf =
     \<lparr>hc_scionHdrChksum = chksum, hc_payloadSize = of_nat (length payload), hc_nhOffset = of_nat nhOff,
      hc_l4Offset = of_nat off, hc_buffer = buf\<rparr>"

lemma resize_grow: "n \<le> length xs \<Longrightarrow> take n (resize (n + m) x xs) = take n xs"
  by (simp add: resize_def min_def)

text \<open>
  The difference of protocol numbers is taken between the new transport header and the next header of the SCION
  header, which names an extension header if there is one.
\<close>

lemma update_built:
  assumes buf: "bits_of buf = packet_bits h mid l4'" and off: "off = SCION_size h + length mid" "off < 2 ^ 16"
    and plen: "sc_plen h = of_nat (x + L4_size l4' + length payload)"
    and l4b: "L4_writable l4b" and nh: "nh_at nhOff (SCION_size h) mid (L4_PROTO l4b)"
    and len2_def: "len2 = (of_nat (x + L4_size l4b + length payload2) :: u16)"
    and ck2_def: "ck2 = chksum + (ucast (L4_PROTO l4b) - ucast (sc_nh h)) + (ucast len2 - ucast (sc_plen h))"
    and l40_def: "l40 = L4_setChksum 0 (L4_setPayload payload2 l4b)"
    and l42_def: "l42 = L4_setChksum (internetChecksum payload2 (ck2 + L4_checksum l40)) l40"
  shows "\<exists>buf2. HeaderCache_updatePayload (built_cache chksum payload nhOff off buf) l4b payload2 =
      (Ok, l42, built_cache ck2 payload2 nhOff off buf2) \<and>
    bits_of buf2 = packet_bits (h\<lparr>sc_nh := updated_nh nhOff (L4_PROTO l4b) (sc_nh h), sc_plen := len2\<rparr>) mid l42"
proof -
  let ?hc = "built_cache chksum payload nhOff off buf"
  obtain st where rd: "ser_bind (ser_seek 4) (\<lambda>_. ser_bind (serializeByte 0) (\<lambda>nh.
       ser_bind (ser_seek 6) (\<lambda>_. ser_bind (serializeUint16 0) (\<lambda>oldLen. ser_return (nh, oldLen)))))
     (ReadStream (stream_init (hc_buffer ?hc))) = (Inr (sc_nh h, sc_plen h), st)"
    using update_reads [OF buf] by (auto simp: built_cache_def)
  have "8 * length buf = 8 * (off + L4_size l4')"
    using arg_cong [OF buf, of length] by (simp add: packet_bits_length off(1))
  then have len: "length buf = off + L4_size l4'" by simp
  have o: "unat (hc_l4Offset ?hc) = off" "unat (of_nat off :: u16) = off"
    using off(2) by (simp_all add: built_cache_def unsigned_of_nat take_bit_nat_eq_self)
  have newLen: "sc_plen h - (of_nat (length buf) - of_nat off) - of_nat (length payload)
      + (of_nat (L4_size l4b) + of_nat (length payload2)) = len2"
    by (simp add: plen len len2_def)
  have s: "L4_size l42 = L4_size l4b" "L4_PROTO l42 = L4_PROTO l4b" "L4_writable l42"
    using l4b by (simp_all add: l42_def l40_def)
  let ?buf = "resize (off + L4_size l4b) 0 buf"
  have "bits_of (take off ?buf) = take (8 * off) (bits_of buf)"
    using len by (simp add: resize_grow take_bits_of)
  also have "\<dots> = SCION_bits h @ bits_of mid"
    by (simp add: buf packet_bits_def off(1) SCION_bits_length)
  finally have front: "bits_of (take off ?buf) = SCION_bits h @ bits_of mid" .
  let ?hc2 = "built_cache ck2 payload2 nhOff off ?buf"
  obtain b where w: "updateHeaders ?hc2 len2 l42 (WriteStream (stream_init ?buf)) = (Inr (), WriteStream b)"
    "bits_of (bufdata b) =
      packet_bits (h\<lparr>sc_nh := updated_nh nhOff (L4_PROTO l4b) (sc_nh h), sc_plen := len2\<rparr>) mid l42"
    using updateHeaders_ok [OF front off(1) _ _ off(2) _ _ s(3), of ?hc2 nhOff len2] L4_size_pos [OF l4b] s nh
    by (auto simp: built_cache_def)
  have "HeaderCache_updatePayload ?hc l4b payload2 =
      (Ok, l42, ?hc2\<lparr>hc_buffer := bufdata b\<rparr>)"
    unfolding HeaderCache_updatePayload_def rd prod.case sum.case Let_def
    by (simp only: built_cache_def HeaderCache.simps L4_set_simps(1-6) newLen ck2_def [symmetric] l40_def [symmetric]
        l42_def [symmetric] o(2) s(1) w(1) [unfolded built_cache_def] prod.case sum.case stream_buf.simps)
  then show ?thesis using w(2) by (auto simp: built_cache_def)
qed

section \<open>Updating is not building\<close>

lemma built_nh:
  assumes "bits_of buf = packet_bits h mid l4"
  shows "buf ! 4 = sc_nh h"
proof -
  have "bits_of (take 1 (drop 4 buf)) = take 8 (drop 32 (bits_of buf))"
    using take_bits_of [of 1 "drop 4 buf"] drop_bits_of [of 4 buf] by simp
  also have "\<dots> = bits_of [sc_nh h]"
    by (simp add: assms packet_bits_def SCION_bits_split to_bits_byte)
  finally have "take 1 (drop 4 buf) = [sc_nh h]" by (rule bits_of_inject)
  then show ?thesis by (metis hd_drop_conv_nth hd_conv_nth list.sel(1) nth_take list.distinct(1) take_eq_Nil drop_eq_Nil
      not_le zero_less_one nth_Cons_0)
qed

lemma ucast_length: "n < 2 ^ 16 \<Longrightarrow> ucast (of_nat n :: u16) = (of_nat n :: u32)"
  by (simp add: unsigned_of_nat take_bit_nat_eq_self)

lemma ucast_byte_inject: "(ucast a :: u32) = ucast b \<Longrightarrow> a = b" for a b :: byte
  by transfer simp

text \<open>The payload length of the SCION header fits its field, extension headers included.\<close>

definition plen_fits :: "'e ExtensionClass \<Rightarrow> 'e Extension list \<Rightarrow> L4 \<Rightarrow> byte list \<Rightarrow> bool" where
  "plen_fits cls exts l4 payload \<longleftrightarrow>
     (case computeExtSize cls exts of (hbh, e2e) \<Rightarrow> hbh + e2e + L4_size l4 + length payload < 2 ^ 16)"

text \<open>C3: Updating the payload of any built header, with a transport header of the same protocol for the same ports, gives
  what building the header anew gives, except that the running header checksum is off by the difference between the
  transport protocol and the next header in the SCION header, and the transport checksum with it. Hence, updating
  is the same as building exactly if there is no valid extension; with an extension, the next header names the extension
  header, and the packet goes out with a wrong transport checksum. The extension objects write what they announce.\<close>

theorem update_payload_is_build:
  assumes exts: "exts_write cls exts" "plen_fits cls exts l4 payload" "plen_fits cls exts l4b payload2"
    and fits: "packet_fits to from path l4 payload" "packet_fits to from path l4b payload2"
    and proto: "L4_PROTO l4b = L4_PROTO l4" and ports: "L4_setPorts (m_port (e_ep from)) (m_port (e_ep to)) l4b = l4b"
    and built: "HeaderCache_build cls seed hc tc to from path exts l4 payload = (Ok, l4', hc1)"
  shows "\<exists>l4c hcb buf. HeaderCache_build cls seed hc0 tc to from path exts (L4_setChksum 0 l4b) payload2 = (Ok, l4c, hcb) \<and>
    (let off = unat (hc_l4Offset hcb);
         ck = hc_scionHdrChksum hcb + (ucast (L4_PROTO l4) - ucast (hc_buffer hc1 ! 4));
         l4u = L4_setChksum (internetChecksum payload2 (ck + L4_checksum (L4_setChksum 0 l4c))) l4c
     in HeaderCache_updatePayload hc1 l4b payload2 =
          (Ok, l4u, hcb\<lparr>hc_scionHdrChksum := ck, hc_buffer := take off (hc_buffer hcb) @ buf\<rparr>) \<and>
        bits_of buf = L4_bits l4u) \<and>
    (HeaderCache_updatePayload hc1 l4b payload2 =
       HeaderCache_build cls seed hc0 tc to from path exts (L4_setChksum 0 l4b) payload2 \<longleftrightarrow> no_exts exts)"
proof -
  obtain hbh e2e where sz: "computeExtSize cls exts = (hbh, e2e)" by fastforce
  obtain h ck l4x where b: "built_packet cls seed tc to from path exts l4 payload = (h, ck, l4x)"
    by (cases "built_packet cls seed tc to from path exts l4 payload") auto
  obtain h2 ck2 l42 where b2: "built_packet cls seed tc to from path exts (L4_setChksum 0 l4b) payload2 = (h2, ck2, l42)"
    by (cases "built_packet cls seed tc to from path exts (L4_setChksum 0 l4b) payload2") auto
  have fits2: "packet_fits to from path (L4_setChksum 0 l4b) payload2" using fits(2) by (simp add: packet_fits_def)
  note parts = built_parts [OF sz b] and parts2 = built_parts [OF sz b2]
  note hd = built_header_sizes [OF sz fits(1) parts(3)] and hd2 = built_header_sizes [OF sz fits2 parts2(3)]
  let ?P = "SCION_size h + length (RawPath_encoded path)"
  obtain mid nhOff where region: "ext_region cls exts ?P (L4_PROTO l4) mid nhOff"
    using ext_region_exists [OF exts(1) hd(5)] by blast
  have mid: "length mid = hbh + e2e" "hbh + e2e \<le> 2048" using region exts sz by (auto simp: ext_region_def exts_write_def)
  let ?mid = "RawPath_encoded path @ mid"
  let ?off = "SCION_size h + length ?mid"
  have off: "?off < 2 ^ 16" using hd(6) mid by simp
  have nh: "nh_at nhOff (SCION_size h) ?mid (L4_PROTO l4)"
    using region by (auto simp: ext_region_def nh_at_def nth_append split: if_splits)
  obtain buf where buf: "l4x = l4'" "hc1 = built_cache ck payload nhOff ?off buf" "bits_of buf = packet_bits h ?mid l4'"
    using build_region [OF sz fits(1) region b, of hc] built by (auto simp: built_cache_def)
  have l40: "built_l4 to from (L4_setChksum 0 l4b) payload2 = L4_setChksum 0 (L4_setPayload payload2 l4b)"
    using ports by (simp add: built_l4_def)
  have fl: "L4_flowLabel (built_l4 to from l4 payload) = L4_flowLabel (L4_setChksum 0 (L4_setPayload payload2 l4b))"
    using L4_flowLabel_ports [OF proto [symmetric], of "m_port (e_ep from)" "m_port (e_ep to)"] ports
    by (simp add: built_l4_def)
  let ?len2 = "of_nat (hbh + e2e + L4_size l4b + length payload2) :: u16"
  have h2: "h2 = h\<lparr>sc_plen := ?len2\<rparr>"
    using proto fl by (simp add: parts(3) parts2(3) l40 build_header_sizes [OF sz])
  then have c2: "SCION_checksum h2 len p = SCION_checksum h len p" "SCION_size h2 = SCION_size h" for len p
    by (auto simp: SCION_checksum_def SCION_size_def)
  have s: "L4_size l4' = L4_size l4" using parts(2) buf(1) by simp
  have nh4: "hc_buffer hc1 ! 4 = sc_nh h" using built_nh [OF buf(3)] by (simp add: buf(2) built_cache_def)
  let ?d = "ucast (L4_PROTO l4) - ucast (sc_nh h) :: u32"
  have ck: "ck2 + ?d = ck + (ucast (L4_PROTO l4b) - ucast (sc_nh h)) + (ucast ?len2 - ucast (sc_plen h))"
  proof -
    have f: "hbh + e2e + L4_size l4 + length payload < 2 ^ 16" "hbh + e2e + L4_size l4b + length payload2 < 2 ^ 16"
      using exts(2,3) by (simp_all add: plen_fits_def sz)
    have p: "sc_plen h = of_nat (hbh + e2e + L4_size l4 + length payload)" using hd(4) by simp
    have u: "ucast (of_nat (L4_size l4 + length payload) :: u16) = (of_nat (L4_size l4 + length payload) :: u32)"
      "ucast (of_nat (L4_size l4b + length payload2) :: u16) = (of_nat (L4_size l4b + length payload2) :: u32)"
      "ucast ?len2 = (of_nat (hbh + e2e + L4_size l4b + length payload2) :: u32)"
      "ucast (sc_plen h) = (of_nat (hbh + e2e + L4_size l4 + length payload) :: u32)"
      unfolding p by (rule ucast_length, use f in simp)+
    have "ck2 = SCION_checksum h (of_nat (L4_size l4b + length payload2)) (L4_PROTO l4)"
      unfolding parts2(1) by (simp only: c2(1) L4_set_simps proto)
    then show ?thesis
      unfolding parts(1) proto by (simp only: SCION_checksum_def u) simp
  qed
  let ?l40 = "L4_setChksum 0 (L4_setPayload payload2 l4b)"
  let ?l4u = "L4_setChksum (internetChecksum payload2 (ck2 + ?d + L4_checksum ?l40)) ?l40"
  have nhOff: "nhOff = 4 \<Longrightarrow> sc_nh h = L4_PROTO l4"
    using region SCION_size_4(2) [of h] mid(1) hd(3) by (auto simp: ext_region_def scion_nh_def split: if_splits)
  then have hu: "h\<lparr>sc_nh := updated_nh nhOff (L4_PROTO l4b) (sc_nh h), sc_plen := ?len2\<rparr> = h2"
    by (simp add: h2 proto)
  have plen: "sc_plen h = of_nat (hbh + e2e + L4_size l4' + length payload)" using hd(4) s by simp
  have w: "L4_writable l4b" using fits(2) by (simp add: packet_fits_def)
  obtain buf2 where u: "HeaderCache_updatePayload hc1 l4b payload2 = (Ok, ?l4u, built_cache (ck2 + ?d) payload2 nhOff ?off buf2)"
      "bits_of buf2 = packet_bits h2 ?mid ?l4u"
    using update_built [OF buf(3) refl off plen w nh [folded proto] refl ck refl refl] hu
    unfolding buf(2) by metis
  obtain buf3 where c: "HeaderCache_build cls seed hc0 tc to from path exts (L4_setChksum 0 l4b) payload2 =
      (Ok, l42, built_cache ck2 payload2 nhOff ?off buf3)" "bits_of buf3 = packet_bits h2 ?mid l42"
    using build_region [OF sz fits2 _ b2, of mid nhOff hc0] region c2(2) proto by (auto simp: built_cache_def)
  have l0: "L4_setChksum 0 l42 = ?l40" "L4_setChksum u l42 = L4_setChksum u ?l40" "L4_setChksum 0 ?l40 = ?l40" for u
    by (simp_all add: parts2(2) l40)
  have front: "bits_of (take ?off buf') = SCION_bits h2 @ bits_of ?mid" "bits_of (drop ?off buf') = L4_bits x"
    if "bits_of buf' = packet_bits h2 ?mid x" for buf' x
    by (simp_all only: take_bits_of [symmetric] drop_bits_of [symmetric] that packet_bits_def)
      (simp_all add: SCION_bits_length c2(2))
  have "take ?off buf2 = take ?off buf3"
    by (rule bits_of_inject) (simp only: front(1) [OF u(2)] front(1) [OF c(2)])
  then have buf2: "buf2 = take ?off buf3 @ drop ?off buf2" by (metis append_take_drop_id)
  have len16: "LENGTH(16) = 16" by simp
  have o: "unat (hc_l4Offset (built_cache ck2 payload2 nhOff ?off buf3)) = ?off"
    unfolding built_cache_def HeaderCache.simps using off by (simp only: unsigned_of_nat take_bit_nat_eq_self len16 of_nat_id)
  let ?hcb = "built_cache ck2 payload2 nhOff ?off buf3"
  let ?u = "HeaderCache_updatePayload hc1 l4b payload2"
  have upd: "?u = (Ok, ?l4u, ?hcb\<lparr>hc_scionHdrChksum := ck2 + ?d, hc_buffer := take ?off buf3 @ drop ?off buf2\<rparr>)"
    unfolding u(1) using buf2 by (simp add: built_cache_def)
  have "?u = (Ok, l42, ?hcb) \<longleftrightarrow> no_exts exts"
  proof
    assume "?u = (Ok, l42, ?hcb)"
    then have "ck2 + ?d = ck2" unfolding upd by (simp add: built_cache_def)
    then have "(ucast (L4_PROTO l4) :: u32) = ucast (sc_nh h)" by simp
    then have "L4_PROTO l4 = sc_nh h" by (rule ucast_byte_inject)
    then have "L4_PROTO l4 = scion_nh hbh e2e (L4_PROTO l4)" using hd(3) by simp
    then show "no_exts exts"
      using no_exts_sizes [OF sz] by (cases l4) (auto simp: scion_nh_def split: if_splits)
  next
    assume "no_exts exts"
    then have "sc_nh h = L4_PROTO l4" using no_exts_sizes [OF sz] hd(3) by (simp add: scion_nh_def)
    then have d: "?d = 0" by simp
    then have "?l4u = l42" by (simp add: parts2(2) l40 parts2(1))
    moreover from this have "buf2 = buf3" using u(2) c(2) by (intro bits_of_inject) simp
    ultimately show "?u = (Ok, l42, ?hcb)" unfolding u(1) using d by simp
  qed
  moreover have "ck2 + ?d = hc_scionHdrChksum ?hcb + (ucast (L4_PROTO l4) - ucast (hc_buffer hc1 ! 4))"
    by (simp add: built_cache_def nh4)
  moreover have "hc_buffer ?hcb = buf3" by (simp add: built_cache_def)
  ultimately show ?thesis
    unfolding c(1) Let_def
    by (intro exI [of _ l42] exI [of _ ?hcb] exI [of _ "drop ?off buf2"] conjI refl)
      (simp_all only: o l0 upd front(2) [OF u(2)])
qed

section \<open>An example\<close>

text \<open>A hop-by-hop extension of one padding option, which fills the extension header up to four bytes.\<close>

definition pad_class :: "Category \<Rightarrow> unit ExtensionClass" where
  "pad_class c = \<lparr>cls_category = (\<lambda>_. c), cls_type = (\<lambda>_. 1), cls_size = (\<lambda>_ _. 2), cls_parse = ser_return,
     cls_write = (\<lambda>_ _. ser_bind (serializeBytes [1, 0]) (\<lambda>_. ser_return ()))\<rparr>"

definition pad_exts :: "unit Extension list" where
  "pad_exts = [\<lparr>ext_validFlag = True, ext_object = ()\<rparr>]"

lemma pad_exts_facts:
  "computeExtSize (pad_class HopByHop) pad_exts = (4, 0)" "exts_write (pad_class HopByHop) pad_exts" "\<not> no_exts pad_exts"
proof -
  show sz: "computeExtSize (pad_class HopByHop) pad_exts = (4, 0)"
    by (simp add: computeExtSize_def pad_exts_def pad_class_def isHbH_def isE2E_def ExtOpts_minSize_def)
  have "writesB 0 (cls_write (pad_class HopByHop) e pos) (bits_of [1, 0]) ()" for e pos
    by (simp add: pad_class_def) (rule writesB_bind_last [OF writesB_serializeBytes writesB_return], simp)
  then have "ext_writes (pad_class HopByHop) e" for e
    unfolding ext_writes_def by (intro allI impI exI [of _ "[1, 0]"]) (simp add: pad_class_def)
  then show "exts_write (pad_class HopByHop) pad_exts" by (simp add: exts_write_def sz)
  show "\<not> no_exts pad_exts" by (simp add: no_exts_def pad_exts_def)
qed

lemma update_payload_is_build_witness:
  "\<exists>l4' hc1. HeaderCache_build (pad_class HopByHop) 7 HeaderCache_init 0 (example_host 0x0a000002 6000)
      (example_host 0x0a000001 5000) RawPath_default pad_exts (L4_UDP example_UDP) [1, 2, 3] = (Ok, l4', hc1) \<and>
    fst (HeaderCache_updatePayload hc1 (L4_UDP \<lparr>udp_sport = 5000, udp_dport = 6000, udp_len = 9, udp_chksum = 77\<rparr>) [4]) = Ok \<and>
    HeaderCache_updatePayload hc1 (L4_UDP \<lparr>udp_sport = 5000, udp_dport = 6000, udp_len = 9, udp_chksum = 77\<rparr>) [4] \<noteq>
    HeaderCache_build (pad_class HopByHop) 7 HeaderCache_init 0 (example_host 0x0a000002 6000)
      (example_host 0x0a000001 5000) RawPath_default pad_exts
      (L4_UDP \<lparr>udp_sport = 5000, udp_dport = 6000, udp_len = 9, udp_chksum = 0\<rparr>) [4]"
proof -
  let ?u = "L4_UDP \<lparr>udp_sport = 5000, udp_dport = 6000, udp_len = 9, udp_chksum = 77\<rparr>"
  let ?to = "example_host 0x0a000002 6000" and ?from = "example_host 0x0a000001 5000"
  let ?cls = "pad_class HopByHop"
  obtain h ck l4' where b: "built_packet ?cls 7 0 ?to ?from RawPath_default pad_exts (L4_UDP example_UDP) [1, 2, 3] =
      (h, ck, l4')" by (metis prod_cases3)
  have fits: "packet_fits ?to ?from RawPath_default (L4_UDP example_UDP) [1, 2, 3]"
      "packet_fits ?to ?from RawPath_default ?u [4]"
    using example_fits_udp by (simp_all add: packet_fits_def)
  have plen: "plen_fits ?cls pad_exts (L4_UDP example_UDP) [1, 2, 3]" "plen_fits ?cls pad_exts ?u [4]"
    by (simp_all add: plen_fits_def pad_exts_facts UDP_size_def)
  note hd = built_header_sizes [OF pad_exts_facts(1) fits(1) built_parts(3) [OF pad_exts_facts(1) b]]
  obtain mid nhOff where "ext_region ?cls pad_exts (SCION_size h + length (RawPath_encoded RawPath_default))
      (L4_PROTO (L4_UDP example_UDP)) mid nhOff"
    using ext_region_exists [OF pad_exts_facts(2) hd(5)] by blast
  from build_region [OF pad_exts_facts(1) fits(1) this b] obtain hc1 where
    built: "HeaderCache_build ?cls 7 HeaderCache_init 0 ?to ?from RawPath_default pad_exts (L4_UDP example_UDP) [1, 2, 3] =
      (Ok, l4', hc1)" by blast
  have "L4_PROTO ?u = L4_PROTO (L4_UDP example_UDP)" "L4_setPorts (m_port (e_ep ?from)) (m_port (e_ep ?to)) ?u = ?u"
    by (simp_all add: example_host_def)
  from update_payload_is_build [OF pad_exts_facts(2) plen fits this built, of HeaderCache_init] show ?thesis
    using built pad_exts_facts(3) by (auto simp: Let_def)
qed

end
