(* ===== verification/PackagerSpec.thy ===== *)
theory PackagerSpec
  imports PacketUpdate
begin

text \<open>
  The state of a packager: which calls change it, the exchange of a STUN request and reply, and what a received
  packet that is not delivered leaves behind.
\<close>

section \<open>STUN\<close>

definition STUN_request :: "byte list \<Rightarrow> STUN" where
  "STUN_request tx = \<lparr>st_type = StunMsg_BindingRequest, st_transaction = tx, st_mapped = None\<rparr>"

text \<open>The message object a reader starts from.\<close>

abbreviation STUN_blank :: STUN where
  "STUN_blank \<equiv> STUN_request (replicate 12 0)"

lemma detect_written:
  assumes m: "valid_STUN m" and b: "bits_of (take (STUN_size m) d) = STUN_bits m" "STUN_size m \<le> length d"
  shows "detectStun d"
proof -
  have n: "20 \<le> STUN_size m" by (simp add: STUN_size_def stunHeaderSize_def)
  have "bits_of (take 4 (drop 4 d)) = take (8 * 4) (drop (8 * 4) (bits_of (take (STUN_size m) d)))"
    using n b(2) by (simp only: take_bits_of drop_bits_of) (simp add: take_drop)
  also have "\<dots> = bits_of (store_be 4 magicCookie)"
    by (simp add: b(1) STUN_bits_def STUN_head_bits_def to_bits_store_be [where n = 4, simplified])
  finally have "take 4 (drop 4 d) = store_be 4 magicCookie" by (rule bits_of_inject)
  moreover have "(load_le (store_be 4 magicCookie) :: u32) = byteswapBE magicCookie" by code_simp
  ultimately show ?thesis using n b(2) by (simp add: detectStun_def stunHeaderSize_def)
qed

lemma createStunRequest_ok:
  assumes "20 \<le> length buf" and tx: "tx = store_le 8 r0 @ take 4 (store_le 8 r1)"
  shows "\<exists>req rs. createStunRequest pk r0 r1 buf server =
      (Ok, req, pk\<lparr>pk_expectStunResponse := True, pk_expectedStunServer := server, pk_stunTx := tx\<rparr>) \<and>
    length req = length buf \<and> detectStun req \<and>
    STUN_serialize STUN_blank (ReadStream (stream_init req)) = (Inr (STUN_request tx), rs)"
proof -
  have v: "valid_STUN (STUN_request tx)" by (simp add: valid_STUN_def STUN_request_def tx store_le_def)
  have s: "STUN_size (STUN_request tx) \<le> length buf"
    using assms(1) by (simp add: STUN_size_def STUN_request_def stunHeaderSize_def)
  obtain b rs where b: "STUN_serialize (STUN_request tx) (WriteStream (stream_init buf)) = (Inr (STUN_request tx), WriteStream b)"
      "length (bufdata b) = length buf" "bits_of (take (STUN_size (STUN_request tx)) (bufdata b)) = STUN_bits (STUN_request tx)"
      "STUN_serialize STUN_blank (ReadStream (stream_init (bufdata b))) = (Inr (STUN_request tx), rs)"
    using stun_write_read [OF v s, of STUN_blank] by (auto simp: STUN_request_def)
  have "detectStun (bufdata b)" using detect_written [OF v b(3)] s b(2) by simp
  then show ?thesis
    using b by (intro exI [of _ "bufdata b"] exI [of _ rs])
      (simp add: createStunRequest_def Let_def tx [symmetric] STUN_request_def)
qed

text \<open>The reply to a request.\<close>

lemma stun_reply:
  assumes pk: "pk_expectStunResponse pk" "IPAddress_eq ul (pk_expectedStunServer pk)" "length (pk_stunTx pk) = 12"
    and a: "valid_stun_address a" and buf: "44 \<le> length buf"
  shows "\<exists>b. STUN_serialize \<lparr>st_type = StunMsg_BindingResponse, st_transaction = pk_stunTx pk, st_mapped = Some a\<rparr>
        (WriteStream (stream_init buf)) = (Inr \<lparr>st_type = StunMsg_BindingResponse, st_transaction = pk_stunTx pk,
           st_mapped = Some a\<rparr>, WriteStream b) \<and>
    packager_unpack cls pk (bufdata b) ul out = Some (Inl StunReceived, out,
      pk\<lparr>pk_expectStunResponse := False, pk_mapped := \<lparr>e_ia = e_ia (pk_local pk), e_ep = a\<rparr>\<rparr>)"
proof -
  let ?m = "\<lparr>st_type = StunMsg_BindingResponse, st_transaction = pk_stunTx pk, st_mapped = Some a\<rparr>"
  have v: "valid_STUN ?m" using pk(3) a by (simp add: valid_STUN_def)
  have s: "STUN_size ?m \<le> length buf"
    using buf by (simp add: STUN_size_def stunHeaderSize_def StunXorMappedAddress_size_def IPAddress_size_def)
  obtain b rs where b: "STUN_serialize ?m (WriteStream (stream_init buf)) = (Inr ?m, WriteStream b)"
      "length (bufdata b) = length buf" "bits_of (take (STUN_size ?m) (bufdata b)) = STUN_bits ?m"
      "STUN_serialize STUN_blank (ReadStream (stream_init (bufdata b))) = (Inr ?m, rs)"
    using stun_write_read [OF v s, of STUN_blank] by (auto simp: STUN_request_def)
  have "detectStun (bufdata b)" using detect_written [OF v b(3)] s b(2) by simp
  then show ?thesis
    using b pk(1,2)
    by (intro exI [of _ b]) (simp add: packager_unpack_def parseStun_def updateMappedAddressFromStun_def STUN_request_def
        setMappedIpAndPort_def Let_def)
qed

section \<open>What a packet can change\<close>

lemma parseStun_cases:
  assumes "parseStun pk rs ul = (ec, pk')" "pk' \<noteq> pk"
  shows "pk_expectStunResponse pk \<and> IPAddress_eq ul (pk_expectedStunServer pk) \<and> ec = StunReceived \<and>
    (\<exists>stun st. STUN_serialize STUN_blank rs = (Inr stun, st) \<and> st_type stun = StunMsg_BindingResponse \<and>
       st_transaction stun = pk_stunTx pk \<and>
       pk' = pk\<lparr>pk_expectStunResponse := False, pk_mapped :=
         (case st_mapped stun of None \<Rightarrow> pk_mapped pk | Some a \<Rightarrow> \<lparr>e_ia = e_ia (pk_local pk), e_ep = a\<rparr>)\<rparr>)"
  using assms
  by (auto simp: parseStun_def updateMappedAddressFromStun_def STUN_request_def setMappedIpAndPort_def Let_def
      split: if_splits prod.splits sum.splits option.splits)

section \<open>The states of a packager\<close>

inductive packager_step :: "'e ExtensionClass \<Rightarrow> ScionPackager \<Rightarrow> ScionPackager \<Rightarrow> bool" for cls where
  step_setLocalEp: "setLocalEp pk ep = (ec, pk') \<Longrightarrow> packager_step cls pk pk'"
| step_setMapped: "packager_step cls pk (setMappedIpAndPort pk ep)"
| step_setRemoteEp: "setRemoteEp pk ep = (ec, pk') \<Longrightarrow> packager_step cls pk pk'"
| step_setTrafficClass: "packager_step cls pk (setTrafficClass pk tc)"
| step_request: "createStunRequest pk r0 r1 buf server = (ec, req, pk') \<Longrightarrow> packager_step cls pk pk'"
| step_unpack: "packager_unpack cls pk buf ul out = Some (r, out', pk') \<Longrightarrow> packager_step cls pk pk'"
| step_unpackStun: "unpackStun pk buf ul = (ec, pk') \<Longrightarrow> packager_step cls pk pk'"

definition packager_inv :: "ScionPackager \<Rightarrow> bool" where
  "packager_inv pk \<longleftrightarrow> e_ia (pk_mapped pk) = e_ia (pk_local pk) \<and> length (pk_stunTx pk) = 12 \<and>
     (pk_local pk = Endpoint_default \<or>
      \<not> IPAddress_isUnspecified (m_host (e_ep (pk_local pk))) \<and> m_port (e_ep (pk_local pk)) \<noteq> 0)"

lemma packager_unpack_state:
  assumes "packager_unpack cls pk buf ul out = Some (r, out', pk')" "pk' \<noteq> pk"
  shows "detectStun buf \<and> out' = out \<and> (\<exists>ec. r = Inl ec \<and> parseStun pk (ReadStream (stream_init buf)) ul = (ec, pk'))"
  using assms by (auto simp: packager_unpack_def Let_def split: if_splits prod.splits sum.splits option.splits)

lemma packager_step_inv:
  assumes "packager_step cls pk pk'" "packager_inv pk"
  shows "packager_inv pk'"
  using assms
proof cases
  case (step_setLocalEp ep ec)
  then show ?thesis using assms(2) by (auto simp: setLocalEp_def packager_inv_def split: if_splits)
next
  case (step_request r0 r1 buf server ec req)
  then show ?thesis using assms(2)
    by (auto simp: createStunRequest_def packager_inv_def Let_def store_le_def split: sum.splits prod.splits)
next
  case (step_unpack buf ul out r out')
  then show ?thesis using assms(2) packager_unpack_state [OF step_unpack] parseStun_cases
    by (cases "pk' = pk") (fastforce simp: packager_inv_def split: option.splits)+
next
  case (step_unpackStun buf ul ec)
  then show ?thesis using assms(2) parseStun_cases [of pk _ ul ec pk']
    by (cases "pk' = pk") (fastforce simp: unpackStun_def packager_inv_def split: option.splits if_splits)+
qed (auto simp: packager_inv_def setMappedIpAndPort_def setRemoteEp_def setTrafficClass_def)

lemma packager_reach_inv: "(packager_step cls)\<^sup>*\<^sup>* ScionPackager_init pk \<Longrightarrow> packager_inv pk"
proof (induction rule: rtranclp_induct)
  case base
  show ?case by (simp add: packager_inv_def ScionPackager_init_def)
qed (rule packager_step_inv)

section \<open>Packets that are not delivered\<close>

lemma ser_bind_Inr:
  "ser_bind m f s = (Inr c, s'') \<longleftrightarrow> (\<exists>a s'. m s = (Inr a, s') \<and> f a s' = (Inr c, s''))"
  by (auto simp: ser_bind_def split: prod.splits sum.splits)

lemma pathSize_cases:
  assumes "valid_SCION h"
  shows "unat (SCION_pathSize h) \<le> 984 \<or> 2 ^ 63 \<le> unat (SCION_pathSize h) \<and> unat (SCION_pathSize h) \<noteq> npos"
proof -
  let ?a = "4 * unat (sc_hlen h)" and ?s = "SCION_size h"
  have "unat (sc_hlen h) < 2 ^ LENGTH(8)" by (rule unsigned_less)
  then have a: "?a \<le> 1020" by simp
  show ?thesis
  proof (cases "?s \<le> ?a")
    case True
    then have "SCION_pathSize h = of_nat (?a - ?s)" by (simp add: SCION_pathSize_def of_nat_diff)
    then have "unat (SCION_pathSize h) = ?a - ?s" using a by (simp add: unsigned_of_nat take_bit_nat_eq_self)
    then show ?thesis using a SCION_size_4(2) [of h] by (intro disjI1) linarith
  next
    case False
    let ?d = "?s - ?a"
    have d: "0 < ?d" "?d \<le> 60" using False SCION_size_4(3) [of h] by simp_all
    have "?d mod 4 = 0" using SCION_size_4(1) [of h] by (auto simp: mod_eq_0_iff_dvd intro: dvd_diff_nat)
    then have d1: "?d \<noteq> 1" by auto
    have "(of_nat (2 ^ 64 - ?d) :: u64) = of_nat (2 ^ 64) - of_nat ?d" using d by (intro of_nat_diff) simp
    also have "\<dots> = SCION_pathSize h" using False by (simp add: SCION_pathSize_def of_nat_diff)
    finally have "SCION_pathSize h = of_nat (2 ^ 64 - ?d)" by (rule sym)
    then have "unat (SCION_pathSize h) = 2 ^ 64 - ?d"
      using d by (simp add: unsigned_of_nat take_bit_nat_eq_self del: of_nat_diff)
    then obtain d where "unat (SCION_pathSize h) = 2 ^ 64 - d" "0 < d" "d \<le> 60" "d \<noteq> 1" using d d1 by blast
    then have e: "unat (SCION_pathSize h) + d = 18446744073709551616" "d \<le> 60" "d \<noteq> 1" by simp_all
    then have "unat (SCION_pathSize h) \<noteq> 18446744073709551615" by linarith
    then show ?thesis using e(1,2) by (simp add: npos_def)
  qed
qed

lemma parse_path_length:
  assumes p: "ParsedPacket_parse (ReadStream (stream_init buf)) = (Inr pkt, st)" and len: "length buf < 2 ^ 63"
  shows "length (pp_path pkt) \<le> 984"
proof -
  obtain sci s1 s2 where r: "SCION_serialize SCION_blank (ReadStream (stream_init buf)) = (Inr sci, s1)"
      "lookahead (unat (SCION_pathSize sci)) s1 = (Inr (pp_path pkt), s2)"
    using p unfolding ParsedPacket_parse_def ser_bind_Inr by (auto simp: ser_bind_Inr ser_return_def split: prod.splits)
  obtain b n where b: "s1 = ReadStream b" "consumed (stream_init buf) n b" "valid_SCION sci"
    using SCION_checks [of SCION_blank] r(1) unfolding getsB_def by (metis wf_stream_init bit_pos_init)
  have "bufdata b = buf" using b(2) by (simp add: consumed_def stream_init_def)
  then have "bytesLeft b < 2 ^ 63" using len by (simp add: bytesLeft_def)
  moreover have "\<not> (npos \<le> 984)" by (simp add: npos_def)
  ultimately have "unat (SCION_pathSize sci) \<le> 984" "pp_path pkt = peek (unat (SCION_pathSize sci)) b"
    using r(2) pathSize_cases [OF b(3)] by (auto simp: b(1) ReadStream_lookahead_def split: if_splits)
  then show ?thesis by (simp add: peek_def)
qed

lemma deliver_error:
  "unpack_deliver pkt out = (Inl e, out') \<Longrightarrow> length (pp_path pkt) \<le> 984 \<Longrightarrow> e = ScmpReceived"
  by (auto simp: unpack_deliver_def RawPath_assign_def RawPath_MAX_SIZE_def Let_def split: option.splits L4.splits)

text \<open>The errors of a packet that is not delivered.\<close>

definition rejections :: "error_code set" where
  "rejections = {InvalidPacket, DstAddrMismatch, SrcAddrMismatch, ChecksumError}"

lemma verify_errors: "verifyReceived pk pkt ul \<in> insert Ok rejections"
  by (simp add: verifyReceived_def rejections_def)

lemma parseStun_errors:
  "parseStun pk rs ul = (ec, pk') \<Longrightarrow> ec = StunReceived \<or> ec \<in> rejections \<and> pk' = pk"
  by (auto simp: parseStun_def updateMappedAddressFromStun_def rejections_def Let_def
      split: if_splits prod.splits sum.splits option.splits)

lemma unpack_rejected:
  assumes "packager_unpack cls pk buf ul out = Some (Inl e, out', pk')" "length buf < 2 ^ 63"
    and "e \<noteq> ScmpReceived" "e \<noteq> StunReceived"
  shows "e \<in> rejections \<and> pk' = pk \<and> uo_from out' = uo_from out \<and> uo_path out' = uo_path out \<and> uo_scmp out' = uo_scmp out"
proof (cases "detectStun buf")
  case True
  then show ?thesis using assms parseStun_errors by (fastforce simp: packager_unpack_def split: prod.splits)
next
  case False
  show ?thesis
  proof (cases "ParsedPacket_parse (ReadStream (stream_init buf))")
    case (Pair r st)
    show ?thesis
    proof (cases r)
      case (Inl x)
      then show ?thesis using assms False Pair by (auto simp: packager_unpack_def rejections_def)
    next
      case (Inr pkt)
      have len: "length (pp_path pkt) \<le> 984" using parse_path_length Pair Inr assms(2) by blast
      show ?thesis
        using assms(1,3,4) False Pair Inr verify_errors [of pk pkt ul] deliver_error [OF _ len]
        by (auto simp: packager_unpack_def rejections_def Let_def split: if_splits option.splits sum.splits prod.splits L4.splits)
    qed
  qed
qed

section \<open>The packager's properties\<close>

text \<open>C4: In every state that calls and received packets can lead to, the mapped address has the AS of the local
  address, and a local address has a host and a port; so a packet's source is in the local AS or, on a
  multi-homed socket, in the first AS of its path, and never in another AS than a non-empty path's.\<close>

theorem packager_invariant:
  assumes "(packager_step cls)\<^sup>*\<^sup>* ScionPackager_init pk"
  shows "packager_inv pk \<and> (\<forall>path from. getSourceAddress pk path = Inr from \<longrightarrow>
      e_ep from = e_ep (pk_mapped pk) \<and>
      e_ia from = (if IsdAsn_isUnspecified (e_ia (pk_local pk)) then rp_source path else e_ia (pk_local pk)) \<and>
      (RawPath_empty path \<or> e_ia from = rp_source path))"
  using packager_reach_inv [OF assms]
  by (auto simp: packager_inv_def getSourceAddress_def split: if_splits)

lemma packager_invariant_witness:
  "\<exists>pk. (packager_step example_class)\<^sup>*\<^sup>* ScionPackager_init pk \<and> packager_inv pk \<and>
    getSourceAddress pk RawPath_default = Inr (example_host 0x0a000001 5000)"
proof -
  let ?ep = "example_host 0x0a000001 5000"
  let ?pk = "ScionPackager_init\<lparr>pk_local := ?ep, pk_mapped := ?ep\<rparr>"
  have "setLocalEp ScionPackager_init ?ep = (Ok, ?pk)"
    by (simp add: setLocalEp_def example_host_def IPAddress_isUnspecified_def MakeIPv4_def)
  then have "(packager_step example_class)\<^sup>*\<^sup>* ScionPackager_init ?pk" by (intro r_into_rtranclp) (rule step_setLocalEp)
  from this packager_invariant [OF this] show ?thesis
    using example_can_send by (intro exI [of _ ?pk]) (auto simp: can_send_def example_packager_def)
qed

text \<open>C7: A binding request can be read by a server, and the server's reply with the request's transaction
  replaces the mapped host and port, once: the next STUN packet changes nothing.\<close>

theorem stun_exchange:
  assumes "20 \<le> length buf" "44 \<le> length rbuf" "valid_stun_address a" "IPAddress_eq ul server"
  shows "\<exists>req rs pk1 b pk2. createStunRequest pk r0 r1 buf server = (Ok, req, pk1) \<and>
    STUN_serialize STUN_blank (ReadStream (stream_init req)) = (Inr (STUN_request (pk_stunTx pk1)), rs) \<and>
    STUN_serialize \<lparr>st_type = StunMsg_BindingResponse, st_transaction = pk_stunTx pk1, st_mapped = Some a\<rparr>
      (WriteStream (stream_init rbuf)) = (Inr \<lparr>st_type = StunMsg_BindingResponse, st_transaction = pk_stunTx pk1,
        st_mapped = Some a\<rparr>, WriteStream b) \<and>
    packager_unpack cls pk1 (bufdata b) ul out = Some (Inl StunReceived, out, pk2) \<and>
    pk2 = pk1\<lparr>pk_expectStunResponse := False, pk_mapped := \<lparr>e_ia = e_ia (pk_local pk), e_ep = a\<rparr>\<rparr> \<and>
    (\<forall>d ul'. detectStun d \<longrightarrow> packager_unpack cls pk2 d ul' out = Some (Inl StunReceived, out, pk2))"
proof -
  define tx where tx: "tx = store_le 8 r0 @ take 4 (store_le 8 r1)"
  obtain req rs where req: "createStunRequest pk r0 r1 buf server =
        (Ok, req, pk\<lparr>pk_expectStunResponse := True, pk_expectedStunServer := server, pk_stunTx := tx\<rparr>)"
      "STUN_serialize STUN_blank (ReadStream (stream_init req)) = (Inr (STUN_request tx), rs)"
    using createStunRequest_ok [OF assms(1) tx] by blast
  let ?pk1 = "pk\<lparr>pk_expectStunResponse := True, pk_expectedStunServer := server, pk_stunTx := tx\<rparr>"
  let ?pk2 = "?pk1\<lparr>pk_expectStunResponse := False, pk_mapped := \<lparr>e_ia = e_ia (pk_local pk), e_ep = a\<rparr>\<rparr>"
  have "length tx = 12" by (simp add: tx)
  then obtain b where "STUN_serialize \<lparr>st_type = StunMsg_BindingResponse, st_transaction = tx, st_mapped = Some a\<rparr>
        (WriteStream (stream_init rbuf)) = (Inr \<lparr>st_type = StunMsg_BindingResponse, st_transaction = tx,
        st_mapped = Some a\<rparr>, WriteStream b)" "packager_unpack cls ?pk1 (bufdata b) ul out = Some (Inl StunReceived, out, ?pk2)"
    using stun_reply [of ?pk1 ul a rbuf cls out] assms by auto
  moreover have "detectStun d \<Longrightarrow> packager_unpack cls ?pk2 d ul' out = Some (Inl StunReceived, out, ?pk2)" for d ul'
    by (simp add: packager_unpack_def parseStun_def)
  ultimately show ?thesis using req by (intro exI conjI) auto
qed

lemma example_mapping: "valid_stun_address \<lparr>m_host = MakeIPv4 0x0a000001, m_port = 4000\<rparr>"
  by (simp add: valid_stun_address_def)

lemma stun_exchange_witness:
  "\<exists>pk1 (b :: bit_buf) pk2. packager_unpack example_class pk1 (bufdata b) (MakeIPv4 7) (example_out Endpoint_default) =
      Some (Inl StunReceived, example_out Endpoint_default, pk2) \<and> \<not> pk_expectStunResponse pk2 \<and>
    e_ep (pk_mapped pk2) = \<lparr>m_host = MakeIPv4 0x0a000001, m_port = 4000\<rparr>"
proof -
  have "20 \<le> length (replicate 20 (0 :: byte))" "44 \<le> length (replicate 44 (0 :: byte))"
    "IPAddress_eq (MakeIPv4 7) (MakeIPv4 7)" by (simp_all add: IPAddress_eq_key)
  from stun_exchange [OF this(1,2) example_mapping this(3), of ScionPackager_init 1 2 example_class "example_out Endpoint_default"]
  obtain pk1 pk2 and b :: bit_buf where "packager_unpack example_class pk1 (bufdata b) (MakeIPv4 7) (example_out Endpoint_default) =
      Some (Inl StunReceived, example_out Endpoint_default, pk2)" and pk2: "pk2 = pk1\<lparr>pk_expectStunResponse := False,
      pk_mapped := \<lparr>e_ia = e_ia (pk_local ScionPackager_init), e_ep = \<lparr>m_host = MakeIPv4 0x0a000001, m_port = 4000\<rparr>\<rparr>\<rparr>"
    by blast
  then show ?thesis by (intro exI [of _ pk1] exI [of _ b] exI [of _ pk2]) simp
qed

text \<open>C8: A received packet changes the packager's state only if it is the reply to a pending request: it comes from
  the server asked, and is a binding response with the transaction of the request. It then ends the wait
  and replaces at most the mapped host and port; nothing is delivered.\<close>

theorem state_changed_by_reply:
  assumes "packager_unpack cls pk buf ul out = Some (r, out', pk')" "pk' \<noteq> pk"
  shows "detectStun buf \<and> out' = out \<and> r = Inl StunReceived \<and> pk_expectStunResponse pk \<and>
    IPAddress_eq ul (pk_expectedStunServer pk) \<and>
    (\<exists>stun st. STUN_serialize STUN_blank (ReadStream (stream_init buf)) = (Inr stun, st) \<and>
       st_type stun = StunMsg_BindingResponse \<and> st_transaction stun = pk_stunTx pk \<and>
       pk' = pk\<lparr>pk_expectStunResponse := False, pk_mapped :=
         (case st_mapped stun of None \<Rightarrow> pk_mapped pk | Some a \<Rightarrow> \<lparr>e_ia = e_ia (pk_local pk), e_ep = a\<rparr>)\<rparr>)"
  using packager_unpack_state [OF assms] parseStun_cases [OF _ assms(2)] by blast

lemma state_changed_by_reply_witness:
  "\<exists>pk buf pk'. packager_unpack example_class pk buf (MakeIPv4 7) (example_out Endpoint_default) =
      Some (Inl StunReceived, example_out Endpoint_default, pk') \<and> pk' \<noteq> pk \<and> pk_expectStunResponse pk \<and> detectStun buf"
proof -
  let ?pk = "ScionPackager_init\<lparr>pk_expectStunResponse := True, pk_expectedStunServer := MakeIPv4 7\<rparr>"
  let ?a = "\<lparr>m_host = MakeIPv4 0x0a000001, m_port = 4000\<rparr>"
  have "pk_expectStunResponse ?pk" "IPAddress_eq (MakeIPv4 7) (pk_expectedStunServer ?pk)" "length (pk_stunTx ?pk) = 12"
      "44 \<le> length (replicate 44 (0 :: byte))" by (simp_all add: IPAddress_eq_key ScionPackager_init_def)
  from stun_reply [OF this(1-3) example_mapping this(4), of example_class "example_out Endpoint_default"] obtain b :: bit_buf
    where b: "packager_unpack example_class ?pk (bufdata b) (MakeIPv4 7) (example_out Endpoint_default) =
      Some (Inl StunReceived, example_out Endpoint_default,
        ?pk\<lparr>pk_expectStunResponse := False, pk_mapped := \<lparr>e_ia = e_ia (pk_local ?pk), e_ep = ?a\<rparr>\<rparr>)"
    by blast
  have n: "?pk\<lparr>pk_expectStunResponse := False, pk_mapped := \<lparr>e_ia = e_ia (pk_local ?pk), e_ep = ?a\<rparr>\<rparr> \<noteq> ?pk"
    by (simp add: ScionPackager_init_def)
  show ?thesis using b n state_changed_by_reply [OF b n] by blast
qed

text \<open>C5: A packet that is neither delivered nor a STUN or SCMP packet is rejected with one of four errors, and leaves
  the state, the reported sender, the path and the callback as they were; unpacking never throws. The extension objects
  may have changed, they are parsed in place.\<close>

theorem unpack_errors:
  assumes "packager_unpack cls pk buf ul out = Some (Inl e, out', pk')" "length buf < 2 ^ 63"
    and "e \<noteq> ScmpReceived" "e \<noteq> StunReceived"
  shows "e \<in> {InvalidPacket, DstAddrMismatch, SrcAddrMismatch, ChecksumError} \<and> pk' = pk \<and>
    uo_from out' = uo_from out \<and> uo_path out' = uo_path out \<and> uo_scmp out' = uo_scmp out"
  using unpack_rejected [OF assms] by (simp add: rejections_def)

lemma unpack_errors_witness:
  "packager_unpack example_class ScionPackager_init [] (MakeIPv4 7) (example_out Endpoint_default) =
    Some (Inl InvalidPacket, example_out Endpoint_default, ScionPackager_init) \<and>
   InvalidPacket \<in> {InvalidPacket, DstAddrMismatch, SrcAddrMismatch, ChecksumError}"
proof -
  obtain r st where r: "SCION_serialize SCION_blank (ReadStream (stream_init [])) = (r, st)" by (rule prod.exhaust)
  have "\<exists>e. r = Inl e"
  proof (cases r)
    case (Inr h)
    then obtain n where "n \<le> bits_room (stream_init [])" "length (take n (bits_ahead (stream_init []))) = length (SCION_bits h)"
      using SCION_checks [of SCION_blank] r unfolding getsB_def by (metis wf_stream_init(1) bit_pos_init)
    then show ?thesis using SCION_size_4(2) [of h] by (simp add: SCION_bits_length)
  qed simp
  then have u: "packager_unpack example_class ScionPackager_init [] (MakeIPv4 7) (example_out Endpoint_default) =
    Some (Inl InvalidPacket, example_out Endpoint_default, ScionPackager_init)"
    using r by (auto simp: packager_unpack_def detectStun_def stunHeaderSize_def ParsedPacket_parse_def ser_bind_def)
  from u unpack_errors [OF u] show ?thesis by simp
qed

text \<open>C6: A payload is only delivered from a UDP packet to the packager's address, from the remote it is connected to,
  with a correct checksum and, on an empty path, from the underlay address it claims; the sender reported
  is the packet's source.\<close>

theorem unpack_delivered:
  assumes "packager_unpack cls pk buf ul out = Some (Inr payload, out', pk')"
  shows "pk' = pk \<and> uo_scmp out' = uo_scmp out \<and> (\<exists>pkt st udp.
    ParsedPacket_parse (ReadStream (stream_init buf)) = (Inr pkt, st) \<and> pp_l4 pkt = L4_UDP udp \<and>
    payload = pp_payload pkt \<and> ParsedPacket_checksum pkt = 0xffff \<and>
    Address_matches (Endpoint_address (pk_mapped pk)) (sc_dst (pp_sci pkt)) \<and>
    Address_matches (Endpoint_address (pk_remote pk)) (sc_src (pp_sci pkt)) \<and>
    (sc_ptype (pp_sci pkt) = PathType_Empty \<longrightarrow> IPAddress_eq (unmap4in6 ul) (a_host (sc_src (pp_sci pkt)))) \<and>
    uo_from out' = map_option (\<lambda>_. Endpoint_make (sc_src (pp_sci pkt)) (udp_sport udp)) (uo_from out))"
  using assms
  by (auto simp: packager_unpack_def unpack_deliver_def verifyReceived_def parseStun_def Let_def
      split: if_splits option.splits sum.splits prod.splits L4.splits)

lemma unpack_delivered_witness:
  "\<exists>buf pkt st udp. ParsedPacket_parse (ReadStream (stream_init buf)) = (Inr pkt, st) \<and> pp_l4 pkt = L4_UDP udp \<and>
    pp_payload pkt = [1, 2, 3] \<and> ParsedPacket_checksum pkt = 0xffff"
proof -
  obtain l4' hc' where p: "packager_pack example_class 7 (example_packager 0x0a000001 5000) HeaderCache_init
      (Some (example_host 0x0a000002 6000)) RawPath_default [] (L4_UDP example_UDP) [1, 2, 3] = (Ok, l4', hc')"
    and "single_carry (hc_scionHdrChksum hc' + L4_checksum (L4_setChksum 0 l4')) [1, 2, 3] \<longrightarrow>
      packager_unpack example_class (example_packager 0x0a000002 6000) (hc_buffer hc' @ [1, 2, 3]) (MakeIPv4 0x0a000001)
        (example_out Endpoint_default) =
      Some (Inr [1, 2, 3], example_out (example_host 0x0a000001 5000), example_packager 0x0a000002 6000)"
    using udp_delivered [OF example_can_send example_no_exts example_fits_udp example_zero_udp example_accepts,
        of example_class 7 HeaderCache_init example_class "example_out Endpoint_default"]
    by (auto simp: example_out_def)
  then have "packager_unpack example_class (example_packager 0x0a000002 6000) (hc_buffer hc' @ [1, 2, 3]) (MakeIPv4 0x0a000001)
        (example_out Endpoint_default) =
      Some (Inr [1, 2, 3], example_out (example_host 0x0a000001 5000), example_packager 0x0a000002 6000)"
    using example_pack by blast
  from unpack_delivered [OF this] show ?thesis by metis
qed

end
