(* ===== verification/Tcp.thy ===== *)
theory Tcp
  imports HdrScmp
begin

text \<open>
  TCP headers with their options (\<open>include/scion/hdr/tcp.hpp\<close>): every option class, the header, the parser of options
  and the writer. Print methods are left out.
\<close>

section \<open>Options\<close>

definition TcpOpt_EndOfList :: byte where "TcpOpt_EndOfList = 0"
definition TcpOpt_NoOp :: byte where "TcpOpt_NoOp = 1"
definition TcpOpt_MSS :: byte where "TcpOpt_MSS = 2"
definition TcpOpt_WS :: byte where "TcpOpt_WS = 3"
definition TcpOpt_SAckPerm :: byte where "TcpOpt_SAckPerm = 4"
definition TcpOpt_SAck :: byte where "TcpOpt_SAck = 5"
definition TcpOpt_TS :: byte where "TcpOpt_TS = 8"
definition TcpOpt_MPTCP :: byte where "TcpOpt_MPTCP = 30"

definition TcpMp_MP_CAPABLE :: byte where "TcpMp_MP_CAPABLE = 0"
definition TcpMp_MP_JOIN :: byte where "TcpMp_MP_JOIN = 1"
definition TcpMp_DSS :: byte where "TcpMp_DSS = 2"
definition TcpMp_ADD_ADDR :: byte where "TcpMp_ADD_ADDR = 3"
definition TcpMp_REMOVE_ADDR :: byte where "TcpMp_REMOVE_ADDR = 4"
definition TcpMp_MP_PRIO :: byte where "TcpMp_MP_PRIO = 5"
definition TcpMp_MP_FAIL :: byte where "TcpMp_MP_FAIL = 6"
definition TcpMp_MP_FASTCLOSE :: byte where "TcpMp_MP_FASTCLOSE = 7"
definition TcpMp_MP_TCPRST :: byte where "TcpMp_MP_TCPRST = 8"

lemmas TcpOpt_defs = TcpOpt_EndOfList_def TcpOpt_NoOp_def TcpOpt_MSS_def TcpOpt_WS_def TcpOpt_SAckPerm_def
  TcpOpt_SAck_def TcpOpt_TS_def TcpOpt_MPTCP_def

lemmas TcpMp_defs = TcpMp_MP_CAPABLE_def TcpMp_MP_JOIN_def TcpMp_DSS_def TcpMp_ADD_ADDR_def TcpMp_REMOVE_ADDR_def
  TcpMp_MP_PRIO_def TcpMp_MP_FAIL_def TcpMp_MP_FASTCLOSE_def TcpMp_MP_TCPRST_def

text \<open>Two bytes as a word, and the sums of the words of longer numbers.\<close>

definition word_of_bytes :: "byte \<Rightarrow> nat \<Rightarrow> u32" where
  "word_of_bytes hi lo = push_bit 8 (ucast hi) OR of_nat lo"

definition halves :: "u32 \<Rightarrow> u32" where
  "halves x = drop_bit 16 x + (x AND 0xffff)"

definition verifySubtype :: "byte \<Rightarrow> unit ser" where
  "verifySubtype subtype =
     ser_bind (serializeBits subtype 4) (\<lambda>temp. read_check (temp \<noteq> subtype) ''incorrect MPTCP subtype'')"

record TcpUnknownOpt =
  unk_kind :: byte
  unk_length :: byte

definition TcpUnknownOpt_serialize :: "TcpUnknownOpt \<Rightarrow> TcpUnknownOpt ser" where
  "TcpUnknownOpt_serialize o1 =
     ser_bind (serializeByte (unk_kind o1)) (\<lambda>kind.
     ser_bind (serializeByte (unk_length o1)) (\<lambda>len.
     ser_bind (advanceBytes (max (unat len) 2 - 2)) (\<lambda>_.
     ser_return \<lparr>unk_kind = kind, unk_length = len\<rparr>)))"

subsection \<open>Maximum segment size, window scale, selective acknowledgements, timestamps\<close>

record TcpMssOpt = mss_mss :: u16

definition TcpMssOpt_length :: byte where "TcpMssOpt_length = 4"

definition TcpMssOpt_checksum :: "TcpMssOpt \<Rightarrow> u32" where
  "TcpMssOpt_checksum o1 = word_of_bytes TcpOpt_MSS (unat TcpMssOpt_length) + ucast (mss_mss o1)"

definition TcpMssOpt_serialize :: "TcpMssOpt \<Rightarrow> TcpMssOpt ser" where
  "TcpMssOpt_serialize o1 =
     ser_bind (verifyByte TcpOpt_MSS ''incorrect TCP option kind'') (\<lambda>_.
     ser_bind (verifyByte TcpMssOpt_length ''incorrect TCP MSS option length'') (\<lambda>_.
     ser_bind (serializeUint16 (mss_mss o1)) (\<lambda>mss.
     ser_return \<lparr>mss_mss = mss\<rparr>)))"

record TcpWsOpt = ws_wndShift :: byte

definition TcpWsOpt_length :: byte where "TcpWsOpt_length = 3"
definition TcpWsOpt_maxWndShift :: byte where "TcpWsOpt_maxWndShift = 14"

definition TcpWsOpt_checksum :: "TcpWsOpt \<Rightarrow> u32" where
  "TcpWsOpt_checksum o1 =
     word_of_bytes 1 (unat TcpOpt_WS) + word_of_bytes TcpWsOpt_length (unat (ws_wndShift o1))"

definition TcpWsOpt_serialize :: "TcpWsOpt \<Rightarrow> TcpWsOpt ser" where
  "TcpWsOpt_serialize o1 =
     ser_bind (verifyByte TcpOpt_WS ''incorrect TCP option kind'') (\<lambda>_.
     ser_bind (verifyByte TcpWsOpt_length ''incorrect TCP WS option length'') (\<lambda>_.
     ser_bind (serializeByte (ws_wndShift o1)) (\<lambda>wndShift.
     ser_bind (read_check (wndShift > TcpWsOpt_maxWndShift) ''TCP window shift too large'') (\<lambda>_.
     ser_return \<lparr>ws_wndShift = wndShift\<rparr>))))"

definition TcpSAckPermOpt_length :: byte where "TcpSAckPermOpt_length = 2"

definition TcpSAckPermOpt_checksum :: u32 where
  "TcpSAckPermOpt_checksum = word_of_bytes TcpOpt_SAckPerm (unat TcpSAckPermOpt_length)"

definition TcpSAckPermOpt_serialize :: "unit ser" where
  "TcpSAckPermOpt_serialize =
     ser_bind (verifyByte TcpOpt_SAckPerm ''incorrect TCP option kind'') (\<lambda>_.
     verifyByte TcpSAckPermOpt_length ''incorrect TCP SAckPerm option length'')"

record TcpSAckOpt =
  sack_blocks :: byte
  sack_left :: "u32 list"
  sack_right :: "u32 list"

definition TcpSAckOpt_maxBlocks :: nat where "TcpSAckOpt_maxBlocks = 3"

definition TcpSAckOpt_size :: "TcpSAckOpt \<Rightarrow> nat" where
  "TcpSAckOpt_size o1 = 8 * unat (sack_blocks o1) + 2"

definition TcpSAckOpt_checksum :: "TcpSAckOpt \<Rightarrow> u32" where
  "TcpSAckOpt_checksum o1 =
     foldl (\<lambda>sm i. sm + halves (sack_left o1 ! i) + halves (sack_right o1 ! i))
       (word_of_bytes TcpOpt_SAck (TcpSAckOpt_size o1)) [0..<min (unat (sack_blocks o1)) TcpSAckOpt_maxBlocks]
     + 0x0101"

text \<open>The edges of the blocks from \<open>i\<close> on.\<close>

fun sack_edges :: "nat list \<Rightarrow> u32 list \<times> u32 list \<Rightarrow> (u32 list \<times> u32 list) ser" where
  "sack_edges [] lr = ser_return lr"
| "sack_edges (i # is) lr =
     ser_bind (serializeUint32 (fst lr ! i)) (\<lambda>l.
     ser_bind (serializeUint32 (snd lr ! i)) (\<lambda>r.
     sack_edges is ((fst lr)[i := l], (snd lr)[i := r])))"

definition TcpSAckOpt_serialize :: "TcpSAckOpt \<Rightarrow> TcpSAckOpt ser" where
  "TcpSAckOpt_serialize o1 =
     ser_bind (verifyByte TcpOpt_SAck ''incorrect TCP option kind'') (\<lambda>_.
     ser_bind (serializeByte (of_nat (TcpSAckOpt_size o1))) (\<lambda>temp.
     ser_bind (read_check (temp \<noteq> 10 \<and> temp \<noteq> 18 \<and> temp \<noteq> 26) ''invalid TCP SAck option'') (\<lambda>_.
     ser_bind (if_reading (ser_return ((temp - 2) div 8)) (ser_return (sack_blocks o1))) (\<lambda>blocks.
     ser_bind (sack_edges [0..<min (unat blocks) TcpSAckOpt_maxBlocks] (sack_left o1, sack_right o1)) (\<lambda>(left, right).
     ser_return \<lparr>sack_blocks = blocks, sack_left = left, sack_right = right\<rparr>)))))"

record TcpTsOpt =
  ts_val :: u32
  ts_ecr :: u32

definition TcpTsOpt_length :: byte where "TcpTsOpt_length = 10"

definition TcpTsOpt_checksum :: "TcpTsOpt \<Rightarrow> u32" where
  "TcpTsOpt_checksum o1 = word_of_bytes TcpOpt_TS (unat TcpTsOpt_length) + halves (ts_val o1) + halves (ts_ecr o1)"

definition TcpTsOpt_serialize :: "TcpTsOpt \<Rightarrow> TcpTsOpt ser" where
  "TcpTsOpt_serialize o1 =
     ser_bind (verifyByte TcpOpt_TS ''incorrect TCP option kind'') (\<lambda>_.
     ser_bind (verifyByte TcpTsOpt_length ''incorrect TCP MSS option length'') (\<lambda>_.
     ser_bind (serializeUint32 (ts_val o1)) (\<lambda>v.
     ser_bind (serializeUint32 (ts_ecr o1)) (\<lambda>e.
     ser_return \<lparr>ts_val = v, ts_ecr = e\<rparr>))))"

subsection \<open>Multipath options\<close>

record MpCapableMask =
  mcm_senderKey :: bool
  mcm_receiverKey :: bool
  mcm_dataLevelLen :: bool
  mcm_chksum :: bool

record TcpMpCapableOpt =
  mc_fieldMask :: MpCapableMask
  mc_version :: byte
  mc_flags :: byte
  mc_senderKey :: u64
  mc_receiverKey :: u64
  mc_dataLevelLen :: u16
  mc_chksum :: u16

definition TcpMpCapableOpt_size :: "TcpMpCapableOpt \<Rightarrow> nat" where
  "TcpMpCapableOpt_size o1 =
     4 + (if mcm_senderKey (mc_fieldMask o1) then 8 else 0) + (if mcm_receiverKey (mc_fieldMask o1) then 8 else 0)
     + (if mcm_dataLevelLen (mc_fieldMask o1) then 2 else 0) + (if mcm_chksum (mc_fieldMask o1) then 2 else 0)"

definition mptcp_words :: "nat \<Rightarrow> u32" where
  "mptcp_words size1 = word_of_bytes TcpOpt_MPTCP size1"

definition subtype_word :: "byte \<Rightarrow> u32" where
  "subtype_word subtype = push_bit 12 (ucast subtype)"

definition TcpMpCapableOpt_checksum :: "TcpMpCapableOpt \<Rightarrow> u32" where
  "TcpMpCapableOpt_checksum o1 =
     mptcp_words (TcpMpCapableOpt_size o1)
     + (subtype_word TcpMp_MP_CAPABLE OR push_bit 8 (ucast (mc_version o1)) OR ucast (mc_flags o1))
     + (if mcm_senderKey (mc_fieldMask o1) then checksumUint64 (mc_senderKey o1) else 0)
     + (if mcm_receiverKey (mc_fieldMask o1) then checksumUint64 (mc_receiverKey o1) else 0)
     + (if mcm_dataLevelLen (mc_fieldMask o1) then ucast (mc_dataLevelLen o1) else 0)
     + (if mcm_chksum (mc_fieldMask o1) then ucast (mc_chksum o1) else 0)"

definition mp_capable_mask :: "byte \<Rightarrow> MpCapableMask option" where
  "mp_capable_mask len =
     (let mask = (\<lambda>a b c d. Some \<lparr>mcm_senderKey = a, mcm_receiverKey = b, mcm_dataLevelLen = c, mcm_chksum = d\<rparr>)
      in if len = 4 then mask False False False False
         else if len = 12 then mask True False False False
         else if len = 20 then mask True True False False
         else if len = 22 then mask True True True False
         else if len = 24 then mask True True True True
         else None)"

definition ser_if :: "bool \<Rightarrow> 'a ser \<Rightarrow> 'a \<Rightarrow> 'a ser" where
  "ser_if c m a = (if c then m else ser_return a)"

definition TcpMpCapableOpt_serialize :: "TcpMpCapableOpt \<Rightarrow> TcpMpCapableOpt ser" where
  "TcpMpCapableOpt_serialize o1 =
     ser_bind (verifyByte TcpOpt_MPTCP ''incorrect TCP option kind'') (\<lambda>_.
     ser_bind (serializeByte (of_nat (TcpMpCapableOpt_size o1))) (\<lambda>len.
     ser_bind
       (if_reading
         (case mp_capable_mask len of None \<Rightarrow> ser_error ''invalid MP_CAPABLE option length'' | Some m \<Rightarrow> ser_return m)
         (ser_return (mc_fieldMask o1))) (\<lambda>mask.
     ser_bind (verifySubtype TcpMp_MP_CAPABLE) (\<lambda>_.
     ser_bind (serializeBits (mc_version o1) 4) (\<lambda>version.
     ser_bind (serializeByte (mc_flags o1)) (\<lambda>flags.
     ser_bind (ser_if (mcm_senderKey mask) (serializeUint64 (mc_senderKey o1)) (mc_senderKey o1)) (\<lambda>senderKey.
     ser_bind (ser_if (mcm_receiverKey mask) (serializeUint64 (mc_receiverKey o1)) (mc_receiverKey o1)) (\<lambda>receiverKey.
     ser_bind (ser_if (mcm_dataLevelLen mask) (serializeUint16 (mc_dataLevelLen o1)) (mc_dataLevelLen o1)) (\<lambda>dataLevelLen.
     ser_bind (ser_if (mcm_chksum mask) (serializeUint16 (mc_chksum o1)) (mc_chksum o1)) (\<lambda>chksum.
     ser_return \<lparr>mc_fieldMask = mask, mc_version = version, mc_flags = flags, mc_senderKey = senderKey,
       mc_receiverKey = receiverKey, mc_dataLevelLen = dataLevelLen, mc_chksum = chksum\<rparr>))))))))))"

text \<open>The content of the join option: flags and address identifier, token or MAC, and random number.\<close>

datatype TcpMpJoinOpt =
    MpJoinSyn byte byte u32 u32
  | MpJoinSynAck byte byte u64 u32
  | MpJoinAck "byte list"

fun TcpMpJoinOpt_size :: "TcpMpJoinOpt \<Rightarrow> nat" where
  "TcpMpJoinOpt_size (MpJoinSyn _ _ _ _) = 12"
| "TcpMpJoinOpt_size (MpJoinSynAck _ _ _ _) = 16"
| "TcpMpJoinOpt_size (MpJoinAck _) = 24"

definition join_word :: "byte \<Rightarrow> byte \<Rightarrow> u32" where
  "join_word flags addressId = subtype_word TcpMp_MP_JOIN OR (push_bit 8 (ucast flags) OR ucast addressId)"

fun mp_join_content_checksum :: "TcpMpJoinOpt \<Rightarrow> u32" where
  "mp_join_content_checksum (MpJoinSyn flags addressId token rand) = join_word flags addressId + halves token + halves rand"
| "mp_join_content_checksum (MpJoinSynAck flags addressId mac rand) =
     join_word flags addressId + checksumUint64 mac + halves rand"
| "mp_join_content_checksum (MpJoinAck mac) = ucast (onesComplementChecksumScalar mac (subtype_word TcpMp_MP_JOIN))"

definition TcpMpJoinOpt_checksum :: "TcpMpJoinOpt \<Rightarrow> u32" where
  "TcpMpJoinOpt_checksum o1 = mptcp_words (TcpMpJoinOpt_size o1) + mp_join_content_checksum o1"

definition mp_join_content :: "byte \<Rightarrow> TcpMpJoinOpt option" where
  "mp_join_content len =
     (if len = 12 then Some (MpJoinSyn 0 0 0 0)
      else if len = 16 then Some (MpJoinSynAck 0 0 0 0)
      else if len = 24 then Some (MpJoinAck (replicate 20 0)) else None)"

fun mp_join_body :: "TcpMpJoinOpt \<Rightarrow> TcpMpJoinOpt ser" where
  "mp_join_body (MpJoinSyn flags addressId token rand) =
     ser_bind (serializeBits flags 4) (\<lambda>flags.
     ser_bind (serializeByte addressId) (\<lambda>addressId.
     ser_bind (serializeUint32 token) (\<lambda>token.
     ser_bind (serializeUint32 rand) (\<lambda>rand.
     ser_return (MpJoinSyn flags addressId token rand)))))"
| "mp_join_body (MpJoinSynAck flags addressId mac rand) =
     ser_bind (serializeBits flags 4) (\<lambda>flags.
     ser_bind (serializeByte addressId) (\<lambda>addressId.
     ser_bind (serializeUint64 mac) (\<lambda>mac.
     ser_bind (serializeUint32 rand) (\<lambda>rand.
     ser_return (MpJoinSynAck flags addressId mac rand)))))"
| "mp_join_body (MpJoinAck mac) =
     ser_bind (advanceBits 12) (\<lambda>_.
     ser_bind (serializeBytes mac) (\<lambda>mac.
     ser_return (MpJoinAck mac)))"

definition TcpMpJoinOpt_serialize :: "TcpMpJoinOpt \<Rightarrow> TcpMpJoinOpt ser" where
  "TcpMpJoinOpt_serialize o1 =
     ser_bind (verifyByte TcpOpt_MPTCP ''incorrect TCP option kind'') (\<lambda>_.
     ser_bind (serializeByte (of_nat (TcpMpJoinOpt_size o1))) (\<lambda>len.
     ser_bind
       (if_reading
         (case mp_join_content len of None \<Rightarrow> ser_error ''invalid MP_JOIN option length'' | Some c \<Rightarrow> ser_return c)
         (ser_return o1)) (\<lambda>content.
     ser_bind (verifySubtype TcpMp_MP_JOIN) (\<lambda>_.
     mp_join_body content))))"

text \<open>
  The union of a 32-bit and a 64-bit sequence number is the 64-bit number; assigning the 32-bit member
  replaces its low half on a little-endian host.
\<close>

definition set_low32 :: "u64 \<Rightarrow> u32 \<Rightarrow> u64" where
  "set_low32 x y = (x AND NOT 0xffffffff) OR ucast y"

record TcpMpDssOpt =
  dss_flags :: u16
  dss_dataAck :: u64
  dss_dsn :: u64
  dss_subflowSeq :: u32
  dss_dataLevelLen :: u16
  dss_chksum :: "u16 option"

definition Dss_ACK :: u16 where "Dss_ACK = 1"
definition Dss_ACK8 :: u16 where "Dss_ACK8 = 2"
definition Dss_DSN :: u16 where "Dss_DSN = 4"
definition Dss_DSN8 :: u16 where "Dss_DSN8 = 8"

definition TcpMpDssOpt_size :: "TcpMpDssOpt \<Rightarrow> nat" where
  "TcpMpDssOpt_size o1 =
     4 + (if flag_get (dss_flags o1) Dss_ACK then 4 + (if flag_get (dss_flags o1) Dss_ACK8 then 4 else 0) else 0)
     + (if flag_get (dss_flags o1) Dss_DSN then 10 + (if flag_get (dss_flags o1) Dss_DSN8 then 4 else 0) else 0)
     + (if dss_chksum o1 \<noteq> None then 2 else 0)"

definition seq_checksum :: "bool \<Rightarrow> u64 \<Rightarrow> u32" where
  "seq_checksum wide n = (if wide then checksumUint64 n else halves (ucast n))"

definition TcpMpDssOpt_checksum :: "TcpMpDssOpt \<Rightarrow> u32" where
  "TcpMpDssOpt_checksum o1 =
     mptcp_words (TcpMpDssOpt_size o1) + (subtype_word TcpMp_DSS OR ucast (dss_flags o1))
     + (if flag_get (dss_flags o1) Dss_ACK then seq_checksum (flag_get (dss_flags o1) Dss_ACK8) (dss_dataAck o1) else 0)
     + (if flag_get (dss_flags o1) Dss_DSN
        then seq_checksum (flag_get (dss_flags o1) Dss_DSN8) (dss_dsn o1) + halves (dss_subflowSeq o1)
             + ucast (dss_dataLevelLen o1) else 0)
     + (case dss_chksum o1 of None \<Rightarrow> 0 | Some c \<Rightarrow> ucast c)"

definition seq_serialize :: "bool \<Rightarrow> u64 \<Rightarrow> u64 ser" where
  "seq_serialize wide n =
     (if wide then serializeUint64 n else ser_bind (serializeUint32 (ucast n)) (\<lambda>y. ser_return (set_low32 n y)))"

definition TcpMpDssOpt_serialize :: "TcpMpDssOpt \<Rightarrow> TcpMpDssOpt ser" where
  "TcpMpDssOpt_serialize o1 =
     ser_bind (verifyByte TcpOpt_MPTCP ''incorrect TCP option kind'') (\<lambda>_.
     ser_bind (serializeByte (of_nat (TcpMpDssOpt_size o1))) (\<lambda>len.
     ser_bind (serializeBits (ucast TcpMp_DSS :: u16) 4) (\<lambda>temp.
     ser_bind (read_check (temp \<noteq> ucast TcpMp_DSS) ''incorrect MPTCP subtype'') (\<lambda>_.
     ser_bind (serializeBits (dss_flags o1) 12) (\<lambda>flags.
     ser_bind (ser_if (flag_get flags Dss_ACK) (seq_serialize (flag_get flags Dss_ACK8) (dss_dataAck o1)) (dss_dataAck o1))
       (\<lambda>dataAck.
     ser_bind (ser_if (flag_get flags Dss_DSN) (seq_serialize (flag_get flags Dss_DSN8) (dss_dsn o1)) (dss_dsn o1)) (\<lambda>dsn.
     ser_bind (ser_if (flag_get flags Dss_DSN) (serializeUint32 (dss_subflowSeq o1)) (dss_subflowSeq o1)) (\<lambda>subflowSeq.
     ser_bind (ser_if (flag_get flags Dss_DSN) (serializeUint16 (dss_dataLevelLen o1)) (dss_dataLevelLen o1)) (\<lambda>dataLevelLen.
     (let o2 = \<lparr>dss_flags = flags, dss_dataAck = dataAck, dss_dsn = dsn, dss_subflowSeq = subflowSeq,
                 dss_dataLevelLen = dataLevelLen, dss_chksum = dss_chksum o1\<rparr>
      in if_reading
        (let o3 = o2\<lparr>dss_chksum := None\<rparr>
         in if int (unat len) - int (TcpMpDssOpt_size o3) \<ge> 2
            then ser_bind (serializeUint16 0) (\<lambda>c. ser_return (o3\<lparr>dss_chksum := Some c\<rparr>))
            else ser_return o3)
        (case dss_chksum o1 of None \<Rightarrow> ser_return o2
         | Some c \<Rightarrow> ser_bind (serializeUint16 c) (\<lambda>c. ser_return (o2\<lparr>dss_chksum := Some c\<rparr>)))))))))))))"

record TcpMpAddAddrOpt =
  add_flags :: u16
  add_addressId :: byte
  add_address :: IPAddress
  add_port :: "u16 option"
  add_mac :: u64

definition AddAddr_Echo :: u16 where "AddAddr_Echo = 1"

definition TcpMpAddAddrOpt_size :: "TcpMpAddAddrOpt \<Rightarrow> nat" where
  "TcpMpAddAddrOpt_size o1 =
     4 + IPAddress_size (add_address o1) + (if add_port o1 \<noteq> None then 2 else 0)
     + (if \<not> flag_get (add_flags o1) AddAddr_Echo then 8 else 0)"

definition TcpMpAddAddrOpt_checksum :: "TcpMpAddAddrOpt \<Rightarrow> u32" where
  "TcpMpAddAddrOpt_checksum o1 =
     mptcp_words (TcpMpAddAddrOpt_size o1)
     + (subtype_word TcpMp_ADD_ADDR OR push_bit 8 (ucast (add_flags o1)) OR ucast (add_addressId o1))
     + IPAddress_checksum (add_address o1)
     + (case add_port o1 of None \<Rightarrow> 0 | Some p \<Rightarrow> ucast p)
     + (if \<not> flag_get (add_flags o1) AddAddr_Echo then checksumUint64 (add_mac o1) else 0)"

text \<open>The reader takes the port from in front of the address, the writer puts it behind.\<close>

definition TcpMpAddAddrOpt_serialize :: "TcpMpAddAddrOpt \<Rightarrow> TcpMpAddAddrOpt ser" where
  "TcpMpAddAddrOpt_serialize o1 =
     ser_bind (verifyByte TcpOpt_MPTCP ''incorrect TCP option kind'') (\<lambda>_.
     ser_bind (serializeByte (of_nat (TcpMpAddAddrOpt_size o1))) (\<lambda>len.
     ser_bind (verifySubtype TcpMp_ADD_ADDR) (\<lambda>_.
     ser_bind (serializeBits (add_flags o1) 4) (\<lambda>flags.
     ser_bind (serializeByte (add_addressId o1)) (\<lambda>addressId.
     ser_bind
       (if_reading
         (let n = int (unat len) - 4 - (if \<not> flag_get flags AddAddr_Echo then 8 else 0)
          in ser_bind
               (if n = 6 \<or> n = 18 then ser_bind (serializeUint16 0) (\<lambda>p. ser_return (Some p)) else ser_return None) (\<lambda>port.
             ser_bind (IPAddress_serialize (n = 4 \<or> n = 6) (add_address o1)) (\<lambda>address.
             ser_return (address, port))))
         (ser_bind (IPAddress_serialize (is4 (add_address o1)) (add_address o1)) (\<lambda>address.
          ser_bind
            (case add_port o1 of None \<Rightarrow> ser_return None
             | Some p \<Rightarrow> ser_bind (serializeUint16 p) (\<lambda>p. ser_return (Some p))) (\<lambda>port.
          ser_return (address, port))))) (\<lambda>(address, port).
     ser_bind (ser_if (\<not> flag_get flags AddAddr_Echo) (serializeUint64 (add_mac o1)) (add_mac o1)) (\<lambda>mac.
     ser_return \<lparr>add_flags = flags, add_addressId = addressId, add_address = address, add_port = port, add_mac = mac\<rparr>)))))))"

record TcpMpRemAddrOpt =
  rem_addressIds :: "byte list"
  rem_count :: u32

definition TcpMpRemAddrOpt_minLength :: nat where "TcpMpRemAddrOpt_minLength = 4"

definition rem_n :: "TcpMpRemAddrOpt \<Rightarrow> nat" where
  "rem_n o1 = max 1 (min (unat (rem_count o1)) (length (rem_addressIds o1)))"

definition TcpMpRemAddrOpt_getAddressIds :: "TcpMpRemAddrOpt \<Rightarrow> byte list" where
  "TcpMpRemAddrOpt_getAddressIds o1 = take (rem_n o1) (rem_addressIds o1)"

definition TcpMpRemAddrOpt_size :: "TcpMpRemAddrOpt \<Rightarrow> nat" where
  "TcpMpRemAddrOpt_size o1 = 3 + rem_n o1"

definition TcpMpRemAddrOpt_checksum :: "TcpMpRemAddrOpt \<Rightarrow> u32" where
  "TcpMpRemAddrOpt_checksum o1 =
     (let addr = TcpMpRemAddrOpt_getAddressIds o1 in
      if odd (length addr)
      then foldl (\<lambda>sm i. sm + push_bit (if i mod 2 = 1 then 8 else 0) (ucast (addr ! i)))
             (mptcp_words (TcpMpRemAddrOpt_size o1) + subtype_word TcpMp_REMOVE_ADDR) [0..<length addr]
      else foldl (\<lambda>sm i. sm + push_bit (if i mod 2 = 0 then 8 else 0) (ucast (addr ! i)))
             (word_of_bytes 1 (unat TcpOpt_MPTCP)
              + (push_bit 8 (of_nat (TcpMpRemAddrOpt_size o1)) OR push_bit 4 (ucast TcpMp_REMOVE_ADDR))) [0..<length addr])"

fun rem_ids :: "nat list \<Rightarrow> byte list \<Rightarrow> byte list ser" where
  "rem_ids [] ids = ser_return ids"
| "rem_ids (i # is) ids = ser_bind (serializeByte (ids ! i)) (\<lambda>b. rem_ids is (ids[i := b]))"

definition TcpMpRemAddrOpt_serialize :: "TcpMpRemAddrOpt \<Rightarrow> TcpMpRemAddrOpt ser" where
  "TcpMpRemAddrOpt_serialize o1 =
     ser_bind (verifyByte TcpOpt_MPTCP ''incorrect TCP option kind'') (\<lambda>_.
     ser_bind (serializeByte (of_nat (TcpMpRemAddrOpt_size o1))) (\<lambda>len.
     ser_bind (read_check (unat len < TcpMpRemAddrOpt_minLength) ''invalid REMOVE_ADDR option length'') (\<lambda>_.
     ser_bind (verifySubtype TcpMp_REMOVE_ADDR) (\<lambda>_.
     ser_bind (advanceBits 4) (\<lambda>_.
     ser_bind
       (if_reading
         (let n = unat len - TcpMpRemAddrOpt_minLength + 1
          in if n > length (rem_addressIds o1) then ser_error ''too many addresses in MPTCP REMOVE_ADDR option''
             else ser_return (n, of_nat n))
         (ser_return (rem_n o1, rem_count o1))) (\<lambda>(n, count).
     ser_bind (rem_ids [0..<n] (rem_addressIds o1)) (\<lambda>ids.
     ser_return \<lparr>rem_addressIds = ids, rem_count = count\<rparr>)))))))"

record TcpMpPrioOpt = prio_backup :: bool

definition TcpMpPrioOpt_length :: byte where "TcpMpPrioOpt_length = 3"

definition TcpMpPrioOpt_checksum :: "TcpMpPrioOpt \<Rightarrow> u32" where
  "TcpMpPrioOpt_checksum o1 =
     word_of_bytes 1 (unat TcpOpt_MPTCP)
     + (push_bit 8 (ucast TcpMpPrioOpt_length) OR push_bit 4 (ucast TcpMp_MP_PRIO) OR of_bool (prio_backup o1))"

definition TcpMpPrioOpt_serialize :: "TcpMpPrioOpt \<Rightarrow> TcpMpPrioOpt ser" where
  "TcpMpPrioOpt_serialize o1 =
     ser_bind (verifyByte TcpOpt_MPTCP ''incorrect TCP option kind'') (\<lambda>_.
     ser_bind (verifyByte TcpMpPrioOpt_length ''incorrect MP_PRIO option length'') (\<lambda>_.
     ser_bind (verifySubtype TcpMp_MP_PRIO) (\<lambda>_.
     ser_bind (serializeBits (of_bool (prio_backup o1) :: byte) 4) (\<lambda>temp.
     ser_return \<lparr>prio_backup = (temp AND 1 \<noteq> 0)\<rparr>))))"

text \<open>Twelve reserved bits and a 64-bit number: the fail and the fast close option.\<close>

definition TcpMpLong_length :: byte where "TcpMpLong_length = 12"

definition mp_long_checksum :: "byte \<Rightarrow> u64 \<Rightarrow> u32" where
  "mp_long_checksum subtype n = mptcp_words (unat TcpMpLong_length) + subtype_word subtype + checksumUint64 n"

definition mp_long_serialize :: "byte \<Rightarrow> string \<Rightarrow> u64 \<Rightarrow> u64 ser" where
  "mp_long_serialize subtype msg2 n =
     ser_bind (verifyByte TcpOpt_MPTCP ''incorrect TCP option kind'') (\<lambda>_.
     ser_bind (verifyByte TcpMpLong_length msg2) (\<lambda>_.
     ser_bind (verifySubtype subtype) (\<lambda>_.
     ser_bind (advanceBits 12) (\<lambda>_.
     serializeUint64 n))))"

record TcpMpFailOpt = fail_dsn :: u64

definition TcpMpFailOpt_checksum :: "TcpMpFailOpt \<Rightarrow> u32" where
  "TcpMpFailOpt_checksum o1 = mp_long_checksum TcpMp_MP_FAIL (fail_dsn o1)"

definition TcpMpFailOpt_serialize :: "TcpMpFailOpt \<Rightarrow> TcpMpFailOpt ser" where
  "TcpMpFailOpt_serialize o1 =
     ser_bind (mp_long_serialize TcpMp_MP_FAIL ''incorrect MP_TCPRST option length'' (fail_dsn o1)) (\<lambda>n.
     ser_return \<lparr>fail_dsn = n\<rparr>)"

record TcpMpCloseOpt = close_receiverKey :: u64

definition TcpMpCloseOpt_checksum :: "TcpMpCloseOpt \<Rightarrow> u32" where
  "TcpMpCloseOpt_checksum o1 = mp_long_checksum TcpMp_MP_FASTCLOSE (close_receiverKey o1)"

definition TcpMpCloseOpt_serialize :: "TcpMpCloseOpt \<Rightarrow> TcpMpCloseOpt ser" where
  "TcpMpCloseOpt_serialize o1 =
     ser_bind (mp_long_serialize TcpMp_MP_FASTCLOSE ''incorrect MP_FASTCLOSE option length'' (close_receiverKey o1)) (\<lambda>n.
     ser_return \<lparr>close_receiverKey = n\<rparr>)"

record TcpMpRstOpt =
  rst_flags :: byte
  rst_reason :: byte

definition TcpMpRstOpt_length :: byte where "TcpMpRstOpt_length = 4"

definition TcpMpRstOpt_checksum :: "TcpMpRstOpt \<Rightarrow> u32" where
  "TcpMpRstOpt_checksum o1 =
     mptcp_words (unat TcpMpRstOpt_length)
     + (subtype_word TcpMp_MP_TCPRST OR push_bit 8 (ucast (rst_flags o1)) OR ucast (rst_reason o1))"

definition TcpMpRstOpt_serialize :: "TcpMpRstOpt \<Rightarrow> TcpMpRstOpt ser" where
  "TcpMpRstOpt_serialize o1 =
     ser_bind (verifyByte TcpOpt_MPTCP ''incorrect TCP option kind'') (\<lambda>_.
     ser_bind (verifyByte TcpMpRstOpt_length ''incorrect MP_TCPRST option length'') (\<lambda>_.
     ser_bind (verifySubtype TcpMp_MP_TCPRST) (\<lambda>_.
     ser_bind (serializeBits (rst_flags o1) 4) (\<lambda>flags.
     ser_bind (serializeByte (rst_reason o1)) (\<lambda>reason.
     ser_return \<lparr>rst_flags = flags, rst_reason = reason\<rparr>)))))"

section \<open>The header\<close>

record TcpOptionMask =
  om_MSS :: bool
  om_WS :: bool
  om_SAckPerm :: bool
  om_SAck :: bool
  om_TS :: bool
  om_MpCapable :: bool
  om_MpJoin :: bool
  om_MpDss :: bool
  om_MpAddAddr :: bool
  om_MpRemAddr :: bool
  om_MpPrio :: bool
  om_MpFail :: bool
  om_MpClose :: bool
  om_MpRst :: bool

definition TcpOptionMask_none :: TcpOptionMask where
  "TcpOptionMask_none = \<lparr>om_MSS = False, om_WS = False, om_SAckPerm = False, om_SAck = False, om_TS = False,
     om_MpCapable = False, om_MpJoin = False, om_MpDss = False, om_MpAddAddr = False, om_MpRemAddr = False,
     om_MpPrio = False, om_MpFail = False, om_MpClose = False, om_MpRst = False\<rparr>"

record TcpOptions =
  op_mss :: TcpMssOpt
  op_ws :: TcpWsOpt
  op_sack :: TcpSAckOpt
  op_ts :: TcpTsOpt
  op_mpCap :: TcpMpCapableOpt
  op_mpJoin :: TcpMpJoinOpt
  op_mpDss :: TcpMpDssOpt
  op_mpAdd :: TcpMpAddAddrOpt
  op_mpRem :: TcpMpRemAddrOpt
  op_mpPrio :: TcpMpPrioOpt
  op_mpFail :: TcpMpFailOpt
  op_mpClose :: TcpMpCloseOpt
  op_mpRst :: TcpMpRstOpt

record TCP =
  tcp_flags :: byte
  tcp_sport :: u16
  tcp_dport :: u16
  tcp_window :: u16
  tcp_urgptr :: u16
  tcp_seq :: u32
  tcp_ack :: u32
  tcp_chksum :: u16
  tcp_optMask :: TcpOptionMask
  tcp_options :: TcpOptions

text \<open>The length of the standard options, and of all options, before the padding at the end.\<close>

definition tcp_std_length :: "TcpOptionMask \<Rightarrow> TcpOptions \<Rightarrow> nat" where
  "tcp_std_length m o1 =
     (let len = (if om_MSS m then unat TcpMssOpt_length else 0);
          len = (if om_SAckPerm m then len + unat TcpSAckPermOpt_length else len);
          len = (if om_SAck m then len + TcpSAckOpt_size (op_sack o1) + 2 else len);
          len = (if om_TS m then if len mod 4 = 2 then len + unat TcpTsOpt_length else len + unat TcpTsOpt_length + 2 else len)
      in if om_WS m then len + unat TcpWsOpt_length + 1 else len)"

definition measureOpts :: "TcpOptionMask \<Rightarrow> TcpOptions \<Rightarrow> nat" where
  "measureOpts m o1 =
     (let len = tcp_std_length m o1;
          len = (if om_MpCapable m then len + TcpMpCapableOpt_size (op_mpCap o1) else len);
          len = (if om_MpJoin m then len + TcpMpJoinOpt_size (op_mpJoin o1) else len);
          len = (if om_MpDss m then len + TcpMpDssOpt_size (op_mpDss o1) else len);
          len = (if om_MpAddAddr m then len + TcpMpAddAddrOpt_size (op_mpAdd o1) else len);
          len = (if om_MpRemAddr m then len + 2 * ((TcpMpRemAddrOpt_size (op_mpRem o1) + 1) div 2) else len);
          len = (if om_MpPrio m then len + unat TcpMpPrioOpt_length + 1 else len);
          len = (if om_MpFail m then len + unat TcpMpLong_length else len);
          len = (if om_MpClose m then len + unat TcpMpLong_length else len);
          len = (if om_MpRst m then len + unat TcpMpRstOpt_length else len)
      in 4 * ((len + 3) div 4))"

definition TCP_size :: "TCP \<Rightarrow> nat" where
  "TCP_size h = 20 + measureOpts (tcp_optMask h) (tcp_options h)"

definition checksumOpts :: "TcpOptionMask \<Rightarrow> TcpOptions \<Rightarrow> u32" where
  "checksumOpts m o1 =
     (let len = (if om_MSS m then unat TcpMssOpt_length else 0);
          len = (if om_SAckPerm m then len + unat TcpSAckPermOpt_length else len);
          len = (if om_SAck m then len + TcpSAckOpt_size (op_sack o1) + 2 else len)
      in (if om_MSS m then TcpMssOpt_checksum (op_mss o1) else 0)
         + (if om_SAckPerm m then TcpSAckPermOpt_checksum else 0)
         + (if om_SAck m then TcpSAckOpt_checksum (op_sack o1) else 0)
         + (if om_TS m then (if len mod 4 = 2 then 0 else 0x0101) + TcpTsOpt_checksum (op_ts o1) else 0)
         + (if om_WS m then TcpWsOpt_checksum (op_ws o1) else 0)
         + (if om_MpCapable m then TcpMpCapableOpt_checksum (op_mpCap o1) else 0)
         + (if om_MpJoin m then TcpMpJoinOpt_checksum (op_mpJoin o1) else 0)
         + (if om_MpDss m then TcpMpDssOpt_checksum (op_mpDss o1) else 0)
         + (if om_MpAddAddr m then TcpMpAddAddrOpt_checksum (op_mpAdd o1) else 0)
         + (if om_MpRemAddr m then TcpMpRemAddrOpt_checksum (op_mpRem o1) else 0)
         + (if om_MpPrio m then TcpMpPrioOpt_checksum (op_mpPrio o1) else 0)
         + (if om_MpFail m then TcpMpFailOpt_checksum (op_mpFail o1) else 0)
         + (if om_MpClose m then TcpMpCloseOpt_checksum (op_mpClose o1) else 0)
         + (if om_MpRst m then TcpMpRstOpt_checksum (op_mpRst o1) else 0))"

definition TCP_checksum :: "TCP \<Rightarrow> u32" where
  "TCP_checksum h =
     ucast (tcp_sport h) + ucast (tcp_dport h) + halves (tcp_seq h) + halves (tcp_ack h)
     + (push_bit 12 (of_nat (TCP_size h div 4)) OR ucast (tcp_flags h))
     + (ucast (tcp_window h) + ucast (tcp_chksum h) + ucast (tcp_urgptr h))
     + checksumOpts (tcp_optMask h) (tcp_options h)"

definition TCP_flowLabel :: "TCP \<Rightarrow> u32" where
  "TCP_flowLabel h =
     (let key = push_bit 16 (ucast ScionProto_TCP) OR ucast (tcp_sport h XOR tcp_dport h) :: u32
      in MurmurHash3_x86_32 (store_le 4 key) 0)"

section \<open>Writing the options\<close>

text \<open>A step whose result is not used, if the condition holds.\<close>

definition ser_when :: "bool \<Rightarrow> 'a ser \<Rightarrow> unit ser" where
  "ser_when c m = (if c then ser_bind m (\<lambda>_. ser_return ()) else ser_return ())"

definition emit_ts :: "nat \<Rightarrow> TcpTsOpt \<Rightarrow> TcpTsOpt ser" where
  "emit_ts len o1 =
     (if len mod 4 = 2 then TcpTsOpt_serialize o1
      else ser_bind (serializeUint16 0x0101) (\<lambda>_. TcpTsOpt_serialize o1))"

definition emitOpts :: "TcpOptionMask \<Rightarrow> TcpOptions \<Rightarrow> unit ser" where
  "emitOpts m o1 =
     (let len1 = (if om_MSS m then unat TcpMssOpt_length else 0);
          len2 = (if om_SAckPerm m then len1 + unat TcpSAckPermOpt_length else len1);
          len3 = (if om_SAck m then len2 + TcpSAckOpt_size (op_sack o1) + 2 else len2);
          len = tcp_std_length m o1
      in
      ser_bind (ser_when (om_MSS m) (TcpMssOpt_serialize (op_mss o1))) (\<lambda>_.
      ser_bind (ser_when (om_SAckPerm m) TcpSAckPermOpt_serialize) (\<lambda>_.
      ser_bind (ser_when (om_SAck m) (ser_bind (serializeUint16 0x0101) (\<lambda>_. TcpSAckOpt_serialize (op_sack o1)))) (\<lambda>_.
      ser_bind (ser_when (om_TS m) (emit_ts len3 (op_ts o1))) (\<lambda>_.
      ser_bind (ser_when (om_WS m) (ser_bind (serializeByte 1) (\<lambda>_. TcpWsOpt_serialize (op_ws o1)))) (\<lambda>_.
      ser_bind (ser_when (om_MpCapable m) (TcpMpCapableOpt_serialize (op_mpCap o1))) (\<lambda>_.
      ser_bind (ser_when (om_MpJoin m) (TcpMpJoinOpt_serialize (op_mpJoin o1))) (\<lambda>_.
      ser_bind (ser_when (om_MpDss m) (TcpMpDssOpt_serialize (op_mpDss o1))) (\<lambda>_.
      ser_bind (ser_when (om_MpAddAddr m) (TcpMpAddAddrOpt_serialize (op_mpAdd o1))) (\<lambda>_.
      ser_bind (ser_when (om_MpRemAddr m)
        (ser_bind (ser_when (odd (TcpMpRemAddrOpt_size (op_mpRem o1))) (serializeByte 1)) (\<lambda>_.
         TcpMpRemAddrOpt_serialize (op_mpRem o1)))) (\<lambda>_.
      ser_bind (ser_when (om_MpPrio m) (ser_bind (serializeByte 1) (\<lambda>_. TcpMpPrioOpt_serialize (op_mpPrio o1)))) (\<lambda>_.
      ser_bind (ser_when (om_MpFail m) (TcpMpFailOpt_serialize (op_mpFail o1))) (\<lambda>_.
      ser_bind (ser_when (om_MpClose m) (TcpMpCloseOpt_serialize (op_mpClose o1))) (\<lambda>_.
      ser_bind (ser_when (om_MpRst m) (TcpMpRstOpt_serialize (op_mpRst o1))) (\<lambda>_.
      ser_when (odd (len div 2)) (advanceBytes (4 - len mod 4)))))))))))))))))"

section \<open>Parsing the options\<close>

type_synonym opts = "TcpOptionMask \<times> TcpOptions"

text \<open>The multipath option of the given subtype.\<close>

definition parse_mptcp :: "byte \<Rightarrow> opts \<Rightarrow> opts ser" where
  "parse_mptcp subtype = (\<lambda>(m, o1).
     if subtype = TcpMp_MP_CAPABLE then
       ser_bind (TcpMpCapableOpt_serialize (op_mpCap o1)) (\<lambda>x. ser_return (m\<lparr>om_MpCapable := True\<rparr>, o1\<lparr>op_mpCap := x\<rparr>))
     else if subtype = TcpMp_MP_JOIN then
       ser_bind (TcpMpJoinOpt_serialize (op_mpJoin o1)) (\<lambda>x. ser_return (m\<lparr>om_MpJoin := True\<rparr>, o1\<lparr>op_mpJoin := x\<rparr>))
     else if subtype = TcpMp_DSS then
       ser_bind (TcpMpDssOpt_serialize (op_mpDss o1)) (\<lambda>x. ser_return (m\<lparr>om_MpDss := True\<rparr>, o1\<lparr>op_mpDss := x\<rparr>))
     else if subtype = TcpMp_ADD_ADDR then
       ser_bind (TcpMpAddAddrOpt_serialize (op_mpAdd o1)) (\<lambda>x. ser_return (m\<lparr>om_MpAddAddr := True\<rparr>, o1\<lparr>op_mpAdd := x\<rparr>))
     else if subtype = TcpMp_REMOVE_ADDR then
       ser_bind (TcpMpRemAddrOpt_serialize (op_mpRem o1)) (\<lambda>x. ser_return (m\<lparr>om_MpRemAddr := True\<rparr>, o1\<lparr>op_mpRem := x\<rparr>))
     else if subtype = TcpMp_MP_PRIO then
       ser_bind (TcpMpPrioOpt_serialize (op_mpPrio o1)) (\<lambda>x. ser_return (m\<lparr>om_MpPrio := True\<rparr>, o1\<lparr>op_mpPrio := x\<rparr>))
     else if subtype = TcpMp_MP_FAIL then
       ser_bind (TcpMpFailOpt_serialize (op_mpFail o1)) (\<lambda>x. ser_return (m\<lparr>om_MpFail := True\<rparr>, o1\<lparr>op_mpFail := x\<rparr>))
     else if subtype = TcpMp_MP_FASTCLOSE then
       ser_bind (TcpMpCloseOpt_serialize (op_mpClose o1)) (\<lambda>x. ser_return (m\<lparr>om_MpClose := True\<rparr>, o1\<lparr>op_mpClose := x\<rparr>))
     else if subtype = TcpMp_MP_TCPRST then
       ser_bind (TcpMpRstOpt_serialize (op_mpRst o1)) (\<lambda>x. ser_return (m\<lparr>om_MpRst := True\<rparr>, o1\<lparr>op_mpRst := x\<rparr>))
     else ser_error ''unknown MPTCP option subtype'')"

text \<open>One round of the loop; the flag is set when the list ends.\<close>

definition parse_opt :: "opts \<Rightarrow> (opts \<times> bool) ser" where
  "parse_opt = (\<lambda>(m, o1).
     ser_bind (lookahead 1) (\<lambda>nxt.
     let kind = nxt ! 0; continue1 = (\<lambda>step. ser_bind step (\<lambda>r. ser_return (r, False))) in
     if kind = TcpOpt_EndOfList then ser_bind (advanceBytes 1) (\<lambda>_. ser_return ((m, o1), True))
     else if kind = TcpOpt_NoOp then continue1 (ser_bind (advanceBytes 1) (\<lambda>_. ser_return (m, o1)))
     else if kind = TcpOpt_MSS then
       continue1 (ser_bind (TcpMssOpt_serialize (op_mss o1)) (\<lambda>x. ser_return (m\<lparr>om_MSS := True\<rparr>, o1\<lparr>op_mss := x\<rparr>)))
     else if kind = TcpOpt_WS then
       continue1 (ser_bind (TcpWsOpt_serialize (op_ws o1)) (\<lambda>x. ser_return (m\<lparr>om_WS := True\<rparr>, o1\<lparr>op_ws := x\<rparr>)))
     else if kind = TcpOpt_SAckPerm then
       continue1 (ser_bind TcpSAckPermOpt_serialize (\<lambda>_. ser_return (m\<lparr>om_SAckPerm := True\<rparr>, o1)))
     else if kind = TcpOpt_SAck then
       continue1 (ser_bind (TcpSAckOpt_serialize (op_sack o1)) (\<lambda>x. ser_return (m\<lparr>om_SAck := True\<rparr>, o1\<lparr>op_sack := x\<rparr>)))
     else if kind = TcpOpt_TS then
       continue1 (ser_bind (TcpTsOpt_serialize (op_ts o1)) (\<lambda>x. ser_return (m\<lparr>om_TS := True\<rparr>, o1\<lparr>op_ts := x\<rparr>)))
     else if kind = TcpOpt_MPTCP then
       ser_bind (lookahead 3) (\<lambda>nxt. continue1 (parse_mptcp (drop_bit 4 (last nxt)) (m, o1)))
     else continue1 (ser_bind (TcpUnknownOpt_serialize \<lparr>unk_kind = 255, unk_length = 2\<rparr>) (\<lambda>_. ser_return (m, o1)))))"

partial_function (option) parseOpts :: "opts \<times> stream \<Rightarrow> (string + opts) option" where
  "parseOpts s =
     (if \<not> stream_more (stream_buf (snd s)) then Some (Inr (fst s))
      else case parse_opt (fst s) (snd s) of
             (Inl e, rs) \<Rightarrow> Some (Inl e)
           | (Inr (r, stop), rs) \<Rightarrow> if stop then Some (Inr r) else parseOpts (r, rs))"

declare parseOpts.simps [code]

text \<open>The loop always ends (\<open>parseOpts_ends\<close>), so the first case does not occur.\<close>

definition TCP_parse_options :: "byte list \<Rightarrow> opts \<Rightarrow> opts ser" where
  "TCP_parse_options opts s =
     (case parseOpts (s, ReadStream (stream_init opts)) of
        None \<Rightarrow> ser_error ''no termination''
      | Some (Inl e) \<Rightarrow> ser_error e
      | Some (Inr s) \<Rightarrow> ser_return s)"

definition TCP_serialize :: "TCP \<Rightarrow> TCP ser" where
  "TCP_serialize h =
     ser_bind (serializeUint16 (tcp_sport h)) (\<lambda>sport.
     ser_bind (serializeUint16 (tcp_dport h)) (\<lambda>dport.
     ser_bind (serializeUint32 (tcp_seq h)) (\<lambda>seq.
     ser_bind (serializeUint32 (tcp_ack h)) (\<lambda>ack.
     ser_bind (serializeBits (of_nat (TCP_size h div 4) :: u32) 4) (\<lambda>dataOffset.
     ser_bind (read_check (dataOffset < 5) ''invalid TCP header'') (\<lambda>_.
     ser_bind (advanceBits 4) (\<lambda>_.
     ser_bind (serializeByte (tcp_flags h)) (\<lambda>flags.
     ser_bind (serializeUint16 (tcp_window h)) (\<lambda>window.
     ser_bind (serializeUint16 (tcp_chksum h)) (\<lambda>chksum.
     ser_bind (serializeUint16 (tcp_urgptr h)) (\<lambda>urgptr.
     ser_bind
       (if_reading
         (let s = (TcpOptionMask_none, tcp_options h); n = unat (4 * (dataOffset - 5)) in
          if dataOffset = 5 then ser_return s
          else ser_bind (lookahead n) (\<lambda>opts.
               ser_bind (TCP_parse_options opts s) (\<lambda>s.
               ser_bind (advanceBytes (length opts)) (\<lambda>_. ser_return s))))
         (ser_bind (emitOpts (tcp_optMask h) (tcp_options h)) (\<lambda>_. ser_return (tcp_optMask h, tcp_options h)))) (\<lambda>(m, o1).
     ser_return \<lparr>tcp_flags = flags, tcp_sport = sport, tcp_dport = dport, tcp_window = window, tcp_urgptr = urgptr,
       tcp_seq = seq, tcp_ack = ack, tcp_chksum = chksum, tcp_optMask = m, tcp_options = o1\<rparr>))))))))))))"

end
