(* ===== verification/TcpOptSpec.thy ===== *)
theory TcpOptSpec
  imports Tcp
begin

text \<open>The encoding of every TCP option and of option lists: what \<open>emitOpts\<close> writes, \<open>parseOpts\<close> reads back.\<close>

section \<open>Option codecs\<close>

definition opt_head :: "byte \<Rightarrow> nat \<Rightarrow> bool list" where
  "opt_head kind len = to_bits 8 kind @ to_bits 8 (of_nat len :: byte)"

definition mp_head :: "nat \<Rightarrow> byte \<Rightarrow> bool list" where
  "mp_head len subtype = opt_head TcpOpt_MPTCP len @ to_bits 4 subtype"

lemma length_opt_head [simp]: "length (opt_head kind len) = 16" "length (mp_head len subtype) = 20"
  by (simp_all add: opt_head_def mp_head_def)

definition TcpMssOpt_bits :: "TcpMssOpt \<Rightarrow> bool list" where
  "TcpMssOpt_bits o1 = opt_head TcpOpt_MSS 4 @ to_bits 16 (mss_mss o1)"

definition TcpWsOpt_bits :: "TcpWsOpt \<Rightarrow> bool list" where
  "TcpWsOpt_bits o1 = opt_head TcpOpt_WS 3 @ to_bits 8 (ws_wndShift o1)"

definition TcpSAckPermOpt_bits :: "bool list" where
  "TcpSAckPermOpt_bits = opt_head TcpOpt_SAckPerm 2"

definition sack_edges_bits :: "nat list \<Rightarrow> u32 list \<Rightarrow> u32 list \<Rightarrow> bool list" where
  "sack_edges_bits is l r = concat (map (\<lambda>i. to_bits 32 (l ! i) @ to_bits 32 (r ! i)) is)"

definition TcpSAckOpt_bits :: "TcpSAckOpt \<Rightarrow> bool list" where
  "TcpSAckOpt_bits o1 = opt_head TcpOpt_SAck (TcpSAckOpt_size o1)
     @ sack_edges_bits [0..<unat (sack_blocks o1)] (sack_left o1) (sack_right o1)"

definition TcpTsOpt_bits :: "TcpTsOpt \<Rightarrow> bool list" where
  "TcpTsOpt_bits o1 = opt_head TcpOpt_TS 10 @ to_bits 32 (ts_val o1) @ to_bits 32 (ts_ecr o1)"

definition TcpMpCapableOpt_bits :: "TcpMpCapableOpt \<Rightarrow> bool list" where
  "TcpMpCapableOpt_bits o1 = mp_head (TcpMpCapableOpt_size o1) TcpMp_MP_CAPABLE
     @ to_bits 4 (mc_version o1) @ to_bits 8 (mc_flags o1)
     @ (if mcm_senderKey (mc_fieldMask o1) then to_bits 64 (mc_senderKey o1) else [])
     @ (if mcm_receiverKey (mc_fieldMask o1) then to_bits 64 (mc_receiverKey o1) else [])
     @ (if mcm_dataLevelLen (mc_fieldMask o1) then to_bits 16 (mc_dataLevelLen o1) else [])
     @ (if mcm_chksum (mc_fieldMask o1) then to_bits 16 (mc_chksum o1) else [])"

fun mp_join_bits :: "TcpMpJoinOpt \<Rightarrow> bool list" where
  "mp_join_bits (MpJoinSyn flags addressId token rand) =
     to_bits 4 flags @ to_bits 8 addressId @ to_bits 32 token @ to_bits 32 rand"
| "mp_join_bits (MpJoinSynAck flags addressId mac rand) =
     to_bits 4 flags @ to_bits 8 addressId @ to_bits 64 mac @ to_bits 32 rand"
| "mp_join_bits (MpJoinAck mac) = replicate 12 False @ bits_of mac"

definition TcpMpJoinOpt_bits :: "TcpMpJoinOpt \<Rightarrow> bool list" where
  "TcpMpJoinOpt_bits o1 = mp_head (TcpMpJoinOpt_size o1) TcpMp_MP_JOIN @ mp_join_bits o1"

definition seq_bits :: "bool \<Rightarrow> u64 \<Rightarrow> bool list" where
  "seq_bits wide n = (if wide then to_bits 64 n else to_bits 32 (ucast n :: u32))"

definition TcpMpDssOpt_bits :: "TcpMpDssOpt \<Rightarrow> bool list" where
  "TcpMpDssOpt_bits o1 = mp_head (TcpMpDssOpt_size o1) TcpMp_DSS @ to_bits 12 (dss_flags o1)
     @ (if flag_get (dss_flags o1) Dss_ACK then seq_bits (flag_get (dss_flags o1) Dss_ACK8) (dss_dataAck o1) else [])
     @ (if flag_get (dss_flags o1) Dss_DSN then seq_bits (flag_get (dss_flags o1) Dss_DSN8) (dss_dsn o1) else [])
     @ (if flag_get (dss_flags o1) Dss_DSN then to_bits 32 (dss_subflowSeq o1) else [])
     @ (if flag_get (dss_flags o1) Dss_DSN then to_bits 16 (dss_dataLevelLen o1) else [])
     @ (case dss_chksum o1 of None \<Rightarrow> [] | Some c \<Rightarrow> to_bits 16 c)"

definition TcpMpAddAddrOpt_bits :: "TcpMpAddAddrOpt \<Rightarrow> bool list" where
  "TcpMpAddAddrOpt_bits o1 = mp_head (TcpMpAddAddrOpt_size o1) TcpMp_ADD_ADDR @ to_bits 4 (add_flags o1)
     @ to_bits 8 (add_addressId o1) @ IPAddress_bits (add_address o1)
     @ (case add_port o1 of None \<Rightarrow> [] | Some p \<Rightarrow> to_bits 16 p)
     @ (if \<not> flag_get (add_flags o1) AddAddr_Echo then to_bits 64 (add_mac o1) else [])"

definition TcpMpRemAddrOpt_bits :: "TcpMpRemAddrOpt \<Rightarrow> bool list" where
  "TcpMpRemAddrOpt_bits o1 = mp_head (TcpMpRemAddrOpt_size o1) TcpMp_REMOVE_ADDR @ replicate 4 False
     @ bits_of (TcpMpRemAddrOpt_getAddressIds o1)"

definition TcpMpPrioOpt_bits :: "TcpMpPrioOpt \<Rightarrow> bool list" where
  "TcpMpPrioOpt_bits o1 = mp_head 3 TcpMp_MP_PRIO @ to_bits 4 (of_bool (prio_backup o1) :: byte)"

definition mp_long_bits :: "byte \<Rightarrow> u64 \<Rightarrow> bool list" where
  "mp_long_bits subtype n = mp_head 12 subtype @ replicate 12 False @ to_bits 64 n"

definition TcpMpRstOpt_bits :: "TcpMpRstOpt \<Rightarrow> bool list" where
  "TcpMpRstOpt_bits o1 = mp_head 4 TcpMp_MP_TCPRST @ to_bits 4 (rst_flags o1) @ to_bits 8 (rst_reason o1)"

section \<open>Writing\<close>

lemmas tcp_opt_bits = TcpMssOpt_bits_def TcpWsOpt_bits_def TcpSAckPermOpt_bits_def TcpTsOpt_bits_def TcpMpRstOpt_bits_def
  mp_long_bits_def TcpMpPrioOpt_bits_def opt_head_def mp_head_def
lemmas tcp_opt_ser = TcpMssOpt_serialize_def TcpWsOpt_serialize_def TcpSAckPermOpt_serialize_def TcpTsOpt_serialize_def
  TcpMpRstOpt_serialize_def mp_long_serialize_def TcpMpPrioOpt_serialize_def
lemmas tcp_opt_len = TcpMssOpt_length_def TcpWsOpt_length_def TcpSAckPermOpt_length_def TcpTsOpt_length_def
  TcpMpRstOpt_length_def TcpMpLong_length_def TcpMpPrioOpt_length_def

lemma writesB_verifySubtype [writes_rules]: "writesB k (verifySubtype subtype) (to_bits 4 subtype) ()"
  unfolding verifySubtype_def by (rule writes_steps | (simp; fail))+

lemma readsB_verifySubtype [reads_rules]:
  "fits 4 subtype \<Longrightarrow> readsB k (verifySubtype subtype) (to_bits 4 subtype) ()"
  unfolding verifySubtype_def by (rule reads_steps | (simp; fail))+

lemma writesB_verifyByte [writes_rules]: "writesB k (verifyByte b1 msg) (to_bits 8 b1) ()"
  unfolding verifyByte_def by (rule writes_steps | (simp; fail))+

lemma readsB_verifyByte [reads_rules]: "readsB k (verifyByte b1 msg) (to_bits 8 b1) ()"
  unfolding verifyByte_def by (rule reads_steps | (simp; fail))+

lemmas tcp_writes = writesB_verifyByte writesB_verifySubtype writes_steps
lemmas tcp_reads = readsB_verifyByte readsB_verifySubtype reads_steps

lemma tcp_mss_writes: "writesB 0 (TcpMssOpt_serialize o1) (TcpMssOpt_bits o1) o1"
  unfolding tcp_opt_ser tcp_opt_bits tcp_opt_len append.assoc of_nat_numeral
  by (rule tcp_writes TcpMssOpt.equality | (simp; fail))+

lemma tcp_mss_reads: "readsB 0 (TcpMssOpt_serialize o0) (TcpMssOpt_bits o1) o1"
  unfolding tcp_opt_ser tcp_opt_bits tcp_opt_len append.assoc of_nat_numeral
  by (rule tcp_reads TcpMssOpt.equality | (simp; fail))+

lemma tcp_ws_writes: "writesB 0 (TcpWsOpt_serialize o1) (TcpWsOpt_bits o1) o1"
  unfolding tcp_opt_ser tcp_opt_bits tcp_opt_len append.assoc of_nat_numeral
  by (rule tcp_writes TcpWsOpt.equality | (simp; fail))+

lemma tcp_ws_reads: "ws_wndShift o1 \<le> 14 \<Longrightarrow> readsB 0 (TcpWsOpt_serialize o0) (TcpWsOpt_bits o1) o1"
  unfolding tcp_opt_ser tcp_opt_bits tcp_opt_len append.assoc of_nat_numeral
  by (rule tcp_reads TcpWsOpt.equality | (simp add: TcpWsOpt_maxWndShift_def not_less; fail))+

lemma tcp_sackperm_writes: "writesB 0 TcpSAckPermOpt_serialize TcpSAckPermOpt_bits ()"
  unfolding tcp_opt_ser tcp_opt_bits tcp_opt_len append.assoc of_nat_numeral
  by (rule tcp_writes | (simp; fail))+

lemma tcp_sackperm_reads: "readsB 0 TcpSAckPermOpt_serialize TcpSAckPermOpt_bits ()"
  unfolding tcp_opt_ser tcp_opt_bits tcp_opt_len append.assoc of_nat_numeral
  by (rule tcp_reads | (simp; fail))+

lemma tcp_ts_writes: "writesB 0 (TcpTsOpt_serialize o1) (TcpTsOpt_bits o1) o1"
  unfolding tcp_opt_ser tcp_opt_bits tcp_opt_len append.assoc of_nat_numeral
  by (rule tcp_writes TcpTsOpt.equality | (simp; fail))+

lemma tcp_ts_reads: "readsB 0 (TcpTsOpt_serialize o0) (TcpTsOpt_bits o1) o1"
  unfolding tcp_opt_ser tcp_opt_bits tcp_opt_len append.assoc of_nat_numeral
  by (rule tcp_reads TcpTsOpt.equality | (simp; fail))+

lemma tcp_rst_writes: "writesB 0 (TcpMpRstOpt_serialize o1) (TcpMpRstOpt_bits o1) o1"
  unfolding tcp_opt_ser tcp_opt_bits tcp_opt_len append.assoc of_nat_numeral
  by (rule tcp_writes TcpMpRstOpt.equality | (simp; fail))+

lemma fits_subtypes [simp]:
  "fits 4 TcpMp_MP_CAPABLE" "fits 4 TcpMp_MP_JOIN" "fits 4 TcpMp_DSS" "fits 4 TcpMp_ADD_ADDR" "fits 4 TcpMp_REMOVE_ADDR"
  "fits 4 TcpMp_MP_PRIO" "fits 4 TcpMp_MP_FAIL" "fits 4 TcpMp_MP_FASTCLOSE" "fits 4 TcpMp_MP_TCPRST"
  by (simp_all add: TcpMp_defs fits_def)

lemma tcp_rst_reads: "fits 4 (rst_flags o1) \<Longrightarrow> readsB 0 (TcpMpRstOpt_serialize o0) (TcpMpRstOpt_bits o1) o1"
  unfolding tcp_opt_ser tcp_opt_bits tcp_opt_len append.assoc of_nat_numeral
  by (rule tcp_reads TcpMpRstOpt.equality | (simp; fail))+

lemma mp_long_writes: "writesB 0 (mp_long_serialize st msg n) (mp_long_bits st n) n"
  unfolding tcp_opt_ser tcp_opt_bits tcp_opt_len append.assoc of_nat_numeral
  by (rule tcp_writes | (simp; fail))+

lemma mp_long_reads: "fits 4 st \<Longrightarrow> readsB 0 (mp_long_serialize st msg n0) (mp_long_bits st n) n"
  unfolding tcp_opt_ser tcp_opt_bits tcp_opt_len append.assoc of_nat_numeral
  by (rule tcp_reads | (simp; fail))+

lemma tcp_fail_writes: "writesB 0 (TcpMpFailOpt_serialize o1) (mp_long_bits TcpMp_MP_FAIL (fail_dsn o1)) o1"
  unfolding TcpMpFailOpt_serialize_def by (rule writesB_map mp_long_writes | simp)+

lemma tcp_fail_reads: "readsB 0 (TcpMpFailOpt_serialize o0) (mp_long_bits TcpMp_MP_FAIL (fail_dsn o1)) o1"
  unfolding TcpMpFailOpt_serialize_def by (rule readsB_map mp_long_reads | simp)+

lemma tcp_close_writes:
  "writesB 0 (TcpMpCloseOpt_serialize o1) (mp_long_bits TcpMp_MP_FASTCLOSE (close_receiverKey o1)) o1"
  unfolding TcpMpCloseOpt_serialize_def by (rule writesB_map mp_long_writes | simp)+

lemma tcp_close_reads:
  "readsB 0 (TcpMpCloseOpt_serialize o0) (mp_long_bits TcpMp_MP_FASTCLOSE (close_receiverKey o1)) o1"
  unfolding TcpMpCloseOpt_serialize_def by (rule readsB_map mp_long_reads | simp)+

lemma tcp_prio_writes: "writesB 0 (TcpMpPrioOpt_serialize o1) (TcpMpPrioOpt_bits o1) o1"
  unfolding tcp_opt_ser tcp_opt_bits tcp_opt_len append.assoc of_nat_numeral
  by (rule tcp_writes TcpMpPrioOpt.equality | (simp; fail))+

lemma tcp_prio_reads: "readsB 0 (TcpMpPrioOpt_serialize o0) (TcpMpPrioOpt_bits o1) o1"
  unfolding tcp_opt_ser tcp_opt_bits tcp_opt_len append.assoc of_nat_numeral
  by (rule tcp_reads TcpMpPrioOpt.equality | (simp; fail) | (simp add: fits_def; fail))+

subsection \<open>Options of variable length\<close>

lemma writesB_bind_if_reading: "writesB k (ser_bind w f) bs a \<Longrightarrow> writesB k (ser_bind (if_reading r w) f) bs a"
  by (simp add: writesB_def ser_bind_def if_reading_def)

lemma writesB_align: "writesB 0 m bs a \<Longrightarrow> k mod 8 = 0 \<Longrightarrow> writesB k m bs a"
  by (simp add: writesB_def)

lemma readsB_align: "readsB 0 m bs a \<Longrightarrow> k mod 8 = 0 \<Longrightarrow> readsB k m bs a"
  by (simp add: readsB_def)

lemma sack_edges_writes: "k mod 8 = 0 \<Longrightarrow> writesB k (sack_edges is (l, r)) (sack_edges_bits is l r) (l, r)"
proof (induction "is" arbitrary: k)
  case Nil
  then show ?case by (simp add: sack_edges_bits_def writesB_return)
next
  case (Cons i "is")
  have "(k + 32 + 32) mod 8 = 0" using Cons.prems by presburger
  from Cons.IH [OF this] have IH: "writesB (k + length (to_bits 32 (l ! i)) + length (to_bits 32 (r ! i))) (sack_edges is (l, r)) (sack_edges_bits is l r) (l, r)"
    by simp
  have b: "sack_edges_bits (i # is) l r = to_bits 32 (l ! i) @ to_bits 32 (r ! i) @ sack_edges_bits is l r"
    by (simp add: sack_edges_bits_def)
  have k: "(k + 32) mod 8 = 0" using Cons.prems by presburger
  show ?case
    unfolding b sack_edges.simps fst_conv snd_conv
    by (rule writesB_bind writesB_serializeUint32 | (simp add: k Cons.prems; fail)
        | (simp only: list_update_id, rule IH))+
qed

lemma sack_edges_reads:
  "k mod 8 = 0 \<Longrightarrow> length l0 = length l \<Longrightarrow> length r0 = length r \<Longrightarrow> length r = length l \<Longrightarrow> m \<le> n \<Longrightarrow> n \<le> length l \<Longrightarrow>
   (\<forall>i<length l. i < m \<or> n \<le> i \<longrightarrow> l0 ! i = l ! i \<and> r0 ! i = r ! i) \<Longrightarrow>
   readsB k (sack_edges [m..<n] (l0, r0)) (sack_edges_bits [m..<n] l r) (l, r)"
proof (induction "n - m" arbitrary: k m l0 r0)
  case 0
  then have "l0 = l" "r0 = r" by (auto intro!: nth_equalityI)
  with 0 show ?case by (simp add: sack_edges_bits_def readsB_return)
next
  case (Suc d)
  then have mn: "m < n" by simp
  have k: "(k + 32 + 32) mod 8 = 0" "(k + 32) mod 8 = 0" using Suc.prems(1) by presburger+
  have IH: "readsB (k + 32 + 32) (sack_edges [Suc m..<n] (l0[m := l ! m], r0[m := r ! m])) (sack_edges_bits [Suc m..<n] l r) (l, r)"
    by (rule Suc.hyps(1) [OF _ k(1)]) (use Suc mn in \<open>auto simp: nth_list_update\<close>)
  have b: "sack_edges_bits (m # [Suc m..<n]) l r = to_bits 32 (l ! m) @ to_bits 32 (r ! m) @ sack_edges_bits [Suc m..<n] l r"
    by (simp add: sack_edges_bits_def)
  show ?case
    unfolding upt_conv_Cons [OF mn] sack_edges.simps b fst_conv snd_conv
    by (rule readsB_bind readsB_serializeUint32 | (simp add: k Suc.prems(1); fail)
        | (simp only: length_to_bits, rule IH))+
qed

definition valid_sack :: "TcpSAckOpt \<Rightarrow> bool" where
  "valid_sack o1 \<longleftrightarrow> 1 \<le> unat (sack_blocks o1) \<and> unat (sack_blocks o1) \<le> 3
     \<and> length (sack_left o1) = 3 \<and> length (sack_right o1) = 3
     \<and> (\<forall>i<3. unat (sack_blocks o1) \<le> i \<longrightarrow> sack_left o1 ! i = 0 \<and> sack_right o1 ! i = 0)"

definition blank_sack :: "TcpSAckOpt \<Rightarrow> bool" where
  "blank_sack o1 \<longleftrightarrow> sack_left o1 = replicate 3 0 \<and> sack_right o1 = replicate 3 0"

lemma sack_blocks_cases:
  assumes "valid_sack o1"
  obtains "sack_blocks o1 = 1" | "sack_blocks o1 = 2" | "sack_blocks o1 = 3"
proof -
  have b: "sack_blocks o1 = of_nat (unat (sack_blocks o1))" by simp
  have "unat (sack_blocks o1) = 1 \<or> unat (sack_blocks o1) = 2 \<or> unat (sack_blocks o1) = 3"
    using assms by (auto simp: valid_sack_def)
  then show thesis using that b by (metis of_nat_1 of_nat_numeral)
qed

lemma tcp_sack_writes:
  assumes "valid_sack o1"
  shows "writesB 0 (TcpSAckOpt_serialize o1) (TcpSAckOpt_bits o1) o1"
proof -
  have n: "min (unat (sack_blocks o1)) TcpSAckOpt_maxBlocks = unat (sack_blocks o1)"
    using assms by (simp add: valid_sack_def TcpSAckOpt_maxBlocks_def)
  show ?thesis
    unfolding TcpSAckOpt_serialize_def TcpSAckOpt_bits_def opt_head_def append.assoc n
    by (rule writesB_bind_if_reading tcp_writes sack_edges_writes | simp only: n prod.case | (simp; fail))+
qed

lemma tcp_sack_reads:
  assumes v: "valid_sack o1" and b: "blank_sack o0"
  shows "readsB 0 (TcpSAckOpt_serialize o0) (TcpSAckOpt_bits o1) o1"
proof -
  let ?n = "unat (sack_blocks o1)"
  have n: "min ?n TcpSAckOpt_maxBlocks = ?n"
    using assms by (simp add: valid_sack_def TcpSAckOpt_maxBlocks_def)
  have temp: "(of_nat (TcpSAckOpt_size o1) - 2) div 8 = sack_blocks o1"
      "of_nat (TcpSAckOpt_size o1) = (10 :: byte) \<or> of_nat (TcpSAckOpt_size o1) = (18 :: byte) \<or> of_nat (TcpSAckOpt_size o1) = (26 :: byte)"
    using sack_blocks_cases [OF v] by (cases; simp add: TcpSAckOpt_size_def)+
  have e: "k mod 8 = 0 \<Longrightarrow> readsB k (sack_edges [0..<?n] (sack_left o0, sack_right o0)) (sack_edges_bits [0..<?n] (sack_left o1) (sack_right o1)) (sack_left o1, sack_right o1)" for k
    by (rule sack_edges_reads) (use v b in \<open>auto simp: valid_sack_def blank_sack_def nth_replicate\<close>)
  show ?thesis
    unfolding TcpSAckOpt_serialize_def TcpSAckOpt_bits_def opt_head_def append.assoc
    by (rule readsB_bind_if_reading tcp_reads e | simp only: temp(1) n prod.case | (use temp in \<open>simp; fail\<close>))+
qed

definition valid_mp_capable :: "TcpMpCapableOpt \<Rightarrow> bool" where
  "valid_mp_capable o1 \<longleftrightarrow>
     mp_capable_mask (of_nat (TcpMpCapableOpt_size o1)) = Some (mc_fieldMask o1) \<and> fits 4 (mc_version o1)
     \<and> (mcm_senderKey (mc_fieldMask o1) \<or> mc_senderKey o1 = 0)
     \<and> (mcm_receiverKey (mc_fieldMask o1) \<or> mc_receiverKey o1 = 0)
     \<and> (mcm_dataLevelLen (mc_fieldMask o1) \<or> mc_dataLevelLen o1 = 0)
     \<and> (mcm_chksum (mc_fieldMask o1) \<or> mc_chksum o1 = 0)"

definition blank_mp_capable :: "TcpMpCapableOpt \<Rightarrow> bool" where
  "blank_mp_capable o1 \<longleftrightarrow> mc_senderKey o1 = 0 \<and> mc_receiverKey o1 = 0 \<and> mc_dataLevelLen o1 = 0 \<and> mc_chksum o1 = 0"

lemma writesB_ser_if: "(c \<Longrightarrow> writesB k m bs a) \<Longrightarrow> writesB k (ser_if c m a) (if c then bs else []) a"
  by (simp add: ser_if_def writesB_return)

lemma readsB_ser_if:
  "(c \<Longrightarrow> readsB k m bs a) \<Longrightarrow> (\<not> c \<Longrightarrow> a0 = a) \<Longrightarrow> readsB k (ser_if c m a0) (if c then bs else []) a"
  by (auto simp: ser_if_def intro: readsB_return_eq)

lemma readsB_bind_option:
  "x = Some a \<Longrightarrow> readsB k (f a) bs c \<Longrightarrow>
     readsB k (ser_bind (case x of None \<Rightarrow> ser_error msg | Some a \<Rightarrow> ser_return a) f) bs c"
  by (simp add: readsB_bind_return)

lemmas mp_writes = writesB_bind_if_reading writesB_ser_if tcp_writes
lemmas mp_reads = readsB_bind_if_reading readsB_bind_option readsB_ser_if tcp_reads

lemma tcp_mp_capable_writes: "writesB 0 (TcpMpCapableOpt_serialize o1) (TcpMpCapableOpt_bits o1) o1"
  unfolding TcpMpCapableOpt_serialize_def TcpMpCapableOpt_bits_def mp_head_def opt_head_def append.assoc
  by (rule mp_writes TcpMpCapableOpt.equality | (simp; fail))+

lemma tcp_mp_capable_reads:
  assumes "valid_mp_capable o1" "blank_mp_capable o0"
  shows "readsB 0 (TcpMpCapableOpt_serialize o0) (TcpMpCapableOpt_bits o1) o1"
proof -
  have v: "mp_capable_mask (of_nat (TcpMpCapableOpt_size o1)) = Some (mc_fieldMask o1)" "fits 4 (mc_version o1)"
      "\<not> mcm_senderKey (mc_fieldMask o1) \<Longrightarrow> mc_senderKey o0 = mc_senderKey o1"
      "\<not> mcm_receiverKey (mc_fieldMask o1) \<Longrightarrow> mc_receiverKey o0 = mc_receiverKey o1"
      "\<not> mcm_dataLevelLen (mc_fieldMask o1) \<Longrightarrow> mc_dataLevelLen o0 = mc_dataLevelLen o1"
      "\<not> mcm_chksum (mc_fieldMask o1) \<Longrightarrow> mc_chksum o0 = mc_chksum o1"
    using assms by (auto simp: valid_mp_capable_def blank_mp_capable_def)
  show ?thesis
    unfolding TcpMpCapableOpt_serialize_def TcpMpCapableOpt_bits_def mp_head_def opt_head_def append.assoc
    by (rule mp_reads v(1) TcpMpCapableOpt.equality | (erule v; fail) | (simp add: v; fail))+
qed

fun valid_mp_join :: "TcpMpJoinOpt \<Rightarrow> bool" where
  "valid_mp_join (MpJoinSyn flags _ _ _) = fits 4 flags"
| "valid_mp_join (MpJoinSynAck flags _ _ _) = fits 4 flags"
| "valid_mp_join (MpJoinAck mac) = (length mac = 20)"

lemma tcp_mp_join_writes:
  assumes "valid_mp_join o1"
  shows "writesB 0 (TcpMpJoinOpt_serialize o1) (TcpMpJoinOpt_bits o1) o1"
  unfolding TcpMpJoinOpt_serialize_def TcpMpJoinOpt_bits_def mp_head_def opt_head_def append.assoc
  by (cases o1; simp only: mp_join_bits.simps mp_join_body.simps;
      (rule mp_writes | simp only: mp_join_body.simps | (simp; fail))+)

text \<open>The content that the reader makes from the length has the kind of what was written.\<close>

lemma mp_join_content_size: "valid_mp_join o1 \<Longrightarrow> \<exists>c. mp_join_content (of_nat (TcpMpJoinOpt_size o1)) = Some c
    \<and> readsB 20 (mp_join_body c) (mp_join_bits o1) o1"
  by (cases o1; clarsimp simp: mp_join_content_def mp_join_body.simps;
      (rule mp_reads readsB_serializeBytes | (simp; fail))+)

lemma tcp_mp_join_reads:
  assumes "valid_mp_join o1"
  shows "readsB 0 (TcpMpJoinOpt_serialize o0) (TcpMpJoinOpt_bits o1) o1"
proof -
  obtain c where c: "mp_join_content (of_nat (TcpMpJoinOpt_size o1)) = Some c"
      "readsB 20 (mp_join_body c) (mp_join_bits o1) o1"
    using mp_join_content_size [OF assms] by blast
  show ?thesis
    unfolding TcpMpJoinOpt_serialize_def TcpMpJoinOpt_bits_def mp_head_def opt_head_def append.assoc
    by (rule readsB_bind_if_reading readsB_bind_option c(1) readsB_bind readsB_verifyByte readsB_serializeByte readsB_verifySubtype
        | simp add: c(2); fail)+
qed

definition valid_dss :: "TcpMpDssOpt \<Rightarrow> bool" where
  "valid_dss o1 \<longleftrightarrow> fits 12 (dss_flags o1)
     \<and> (if flag_get (dss_flags o1) Dss_ACK then flag_get (dss_flags o1) Dss_ACK8 \<or> fits 32 (dss_dataAck o1)
        else dss_dataAck o1 = 0)
     \<and> (if flag_get (dss_flags o1) Dss_DSN then flag_get (dss_flags o1) Dss_DSN8 \<or> fits 32 (dss_dsn o1)
        else dss_dsn o1 = 0 \<and> dss_subflowSeq o1 = 0 \<and> dss_dataLevelLen o1 = 0)"

definition blank_dss :: "TcpMpDssOpt \<Rightarrow> bool" where
  "blank_dss o1 \<longleftrightarrow> dss_dataAck o1 = 0 \<and> dss_dsn o1 = 0 \<and> dss_subflowSeq o1 = 0 \<and> dss_dataLevelLen o1 = 0"

lemma set_low32_mask: "set_low32 n y = (n AND NOT (mask 32)) OR ucast y"
  by (simp add: set_low32_def mask_eq_exp_minus_1)

lemma set_low32_same: "set_low32 n (ucast n) = n"
proof (rule bit_word_eqI)
  fix i assume "i < LENGTH(64)"
  then show "bit (set_low32 n (ucast n)) i = bit n i"
    unfolding set_low32_mask bit_or_iff bit_and_iff bit_not_iff bit_mask_iff bit_ucast_iff by auto
qed

lemma set_low32_fits:
  assumes "fits 32 n"
  shows "set_low32 0 (ucast n) = n"
  unfolding set_low32_def
proof (rule bit_word_eqI)
  fix i assume "i < LENGTH(64)"
  then show "bit (0 AND NOT 0xffffffff OR ucast (ucast n :: u32) :: u64) i = bit n i"
    using fits_bit [OF assms, of i] by (cases "i < 32") (auto simp: bit_simps)
qed

lemma seq_writes: "k mod 8 = 0 \<Longrightarrow> writesB k (seq_serialize wide n) (seq_bits wide n) n"
  unfolding seq_serialize_def seq_bits_def
  by (cases wide) (auto intro!: writesB_serializeUint64 writesB_map writesB_serializeUint32 simp: set_low32_same)

lemma seq_reads: "k mod 8 = 0 \<Longrightarrow> wide \<or> fits 32 n \<Longrightarrow> readsB k (seq_serialize wide 0) (seq_bits wide n) n"
  unfolding seq_serialize_def seq_bits_def
  by (cases wide) (auto intro!: readsB_serializeUint64 readsB_map [where g = "set_low32 0"] readsB_serializeUint32 simp: set_low32_fits)

lemma to_bits_dss: "to_bits 4 (ucast TcpMp_DSS :: u16) = to_bits 4 TcpMp_DSS"
  by code_simp

lemma fits_dss: "fits 4 (ucast TcpMp_DSS :: u16)"
  by (simp add: fits_def TcpMp_DSS_def)

lemma tcp_dss_writes: "writesB 0 (TcpMpDssOpt_serialize o1) (TcpMpDssOpt_bits o1) o1"
proof (cases "dss_chksum o1")
  case None
  show ?thesis
    unfolding TcpMpDssOpt_serialize_def TcpMpDssOpt_bits_def mp_head_def opt_head_def append.assoc to_bits_dss [symmetric]
      None option.case Let_def
    by (rule mp_writes seq_writes TcpMpDssOpt.equality | (simp add: None seq_bits_def; fail))+
next
  case (Some c)
  show ?thesis
    unfolding TcpMpDssOpt_serialize_def TcpMpDssOpt_bits_def mp_head_def opt_head_def append.assoc to_bits_dss [symmetric]
      Some option.case Let_def
    by (rule mp_writes seq_writes TcpMpDssOpt.equality | (simp add: Some seq_bits_def; fail))+
qed

lemma dss_size_bound: "TcpMpDssOpt_size o1 \<le> 28"
  by (simp add: TcpMpDssOpt_size_def)

lemma dss_size_chksum:
  "int (unat (of_nat (TcpMpDssOpt_size o1) :: byte)) - int (TcpMpDssOpt_size (o1\<lparr>dss_chksum := None\<rparr>)) \<ge> 2
     \<longleftrightarrow> dss_chksum o1 \<noteq> None"
proof -
  have "TcpMpDssOpt_size o1 = TcpMpDssOpt_size (o1\<lparr>dss_chksum := None\<rparr>) + (if dss_chksum o1 \<noteq> None then 2 else 0)"
    by (simp add: TcpMpDssOpt_size_def)
  moreover have "unat (of_nat (TcpMpDssOpt_size o1) :: byte) = TcpMpDssOpt_size o1"
    using dss_size_bound [of o1] by (simp add: unsigned_of_nat take_bit_nat_eq_self)
  ultimately show ?thesis by simp
qed

lemma tcp_dss_reads:
  assumes v: "valid_dss o1" and b: "blank_dss o0"
  shows "readsB 0 (TcpMpDssOpt_serialize o0) (TcpMpDssOpt_bits o1) o1"
proof -
  let ?o = "\<lparr>dss_flags = dss_flags o1, dss_dataAck = dss_dataAck o1, dss_dsn = dss_dsn o1, dss_subflowSeq = dss_subflowSeq o1,
                 dss_dataLevelLen = dss_dataLevelLen o1, dss_chksum = dss_chksum o0\<rparr>"
  have o3: "?o\<lparr>dss_chksum := None\<rparr> = o1\<lparr>dss_chksum := None\<rparr>" by (rule TcpMpDssOpt.equality) simp_all
  have v': "fits 12 (dss_flags o1)" "dss_dataAck o0 = 0" "dss_dsn o0 = 0" "dss_subflowSeq o0 = 0" "dss_dataLevelLen o0 = 0"
      "flag_get (dss_flags o1) Dss_ACK \<Longrightarrow> flag_get (dss_flags o1) Dss_ACK8 \<or> fits 32 (dss_dataAck o1)"
      "flag_get (dss_flags o1) Dss_DSN \<Longrightarrow> flag_get (dss_flags o1) Dss_DSN8 \<or> fits 32 (dss_dsn o1)"
      "\<not> flag_get (dss_flags o1) Dss_ACK \<Longrightarrow> 0 = dss_dataAck o1"
      "\<not> flag_get (dss_flags o1) Dss_DSN \<Longrightarrow> 0 = dss_dsn o1"
      "\<not> flag_get (dss_flags o1) Dss_DSN \<Longrightarrow> 0 = dss_subflowSeq o1"
      "\<not> flag_get (dss_flags o1) Dss_DSN \<Longrightarrow> 0 = dss_dataLevelLen o1"
    using v b by (auto simp: valid_dss_def blank_dss_def split: if_splits)
  have last: "readsB k (if 2 \<le> int (unat (of_nat (TcpMpDssOpt_size o1) :: byte)) - int (TcpMpDssOpt_size (?o\<lparr>dss_chksum := None\<rparr>))
        then ser_bind (serializeUint16 0) (\<lambda>c. ser_return (?o\<lparr>dss_chksum := None\<rparr>\<lparr>dss_chksum := Some c\<rparr>))
        else ser_return (?o\<lparr>dss_chksum := None\<rparr>)) (case dss_chksum o1 of None \<Rightarrow> [] | Some c \<Rightarrow> to_bits 16 c) o1"
    if "k mod 8 = 0" for k
    unfolding o3 dss_size_chksum
    by (cases "dss_chksum o1") (auto intro!: readsB_return_eq readsB_map readsB_serializeUint16 that)
  show ?thesis
    unfolding TcpMpDssOpt_serialize_def TcpMpDssOpt_bits_def mp_head_def opt_head_def append.assoc to_bits_dss [symmetric]
      v' Let_def
    by (rule mp_reads seq_reads readsB_if_reading last | (erule v'; fail) | (simp add: v' fits_dss seq_bits_def; fail))+
qed

definition valid_add_addr :: "TcpMpAddAddrOpt \<Rightarrow> bool" where
  "valid_add_addr o1 \<longleftrightarrow> wf_ip (add_address o1) \<and> zone (add_address o1) = [] \<and> fits 4 (add_flags o1)
     \<and> (flag_get (add_flags o1) AddAddr_Echo \<longrightarrow> add_mac o1 = 0)"

text \<open>
  The writer puts the port behind the address and the reader takes it from in front of the address: an option with a
  port is read back with the first two bytes of the address as its port and the rest, moved up, as its address.
\<close>

definition add_addr_read :: "TcpMpAddAddrOpt \<Rightarrow> TcpMpAddAddrOpt" where
  "add_addr_read o1 =
     (let a = add_address o1
      in case add_port o1 of
           None \<Rightarrow> o1
         | Some p \<Rightarrow>
             if is4 a
             then o1\<lparr>add_port := Some (ucast (drop_bit 16 (getIPv4 a))),
                     add_address := MakeIPv4 (push_bit 16 (getIPv4 a) OR ucast p)\<rparr>
             else o1\<lparr>add_port := Some (ucast (drop_bit 48 (m_hi a))),
                     add_address := MakeIPv6 (push_bit 16 (m_hi a) OR drop_bit 48 (m_lo a)) (push_bit 16 (m_lo a) OR ucast p) []\<rparr>)"

lemma add_addr_read_none [simp]: "add_port o1 = None \<Longrightarrow> add_addr_read o1 = o1"
  by (simp add: add_addr_read_def)

lemma add_addr_read_simps [simp]:
  "add_flags (add_addr_read o1) = add_flags o1" "add_addressId (add_addr_read o1) = add_addressId o1"
  "add_mac (add_addr_read o1) = add_mac o1"
  "is4 (add_address (add_addr_read o1)) = is4 (add_address o1)" "add_port (add_addr_read o1) = None \<longleftrightarrow> add_port o1 = None"
  by (auto simp: add_addr_read_def Let_def split: option.split)

lemma take_bit_ucast_32: "take_bit 32 (ucast (x :: u32) :: u64) = ucast x"
  by transfer simp

lemma add_addr_read_wf:
  "wf_ip (add_address o1) \<Longrightarrow> wf_ip (add_address (add_addr_read o1))"
  "zone (add_address o1) = [] \<Longrightarrow> zone (add_address (add_addr_read o1)) = []"
  by (auto simp: add_addr_read_def Let_def wf_ip_def MakeIPv4_def MakeIPv6_def is4_def fits_def take_bit_ucast_32
      split: option.split)

lemma port_moved_4:
  "to_bits 32 (a :: u32) @ to_bits 16 (p :: u16) =
   to_bits 16 (ucast (drop_bit 16 a) :: u16) @ to_bits 32 (push_bit 16 a OR ucast p)"
proof (rule nth_equalityI)
  fix i
  assume "i < length (to_bits 32 a @ to_bits 16 p)"
  then have "i < 16 \<or> 16 \<le> i \<and> i < 32 \<or> 32 \<le> i \<and> i < 48" by auto
  then show "(to_bits 32 a @ to_bits 16 p) ! i =
      (to_bits 16 (ucast (drop_bit 16 a) :: u16) @ to_bits 32 (push_bit 16 a OR ucast p)) ! i"
    by (elim disjE conjE)
      (auto simp: nth_append nth_to_bits bit_simps not_less intro!: arg_cong [of _ _ "bit _"] dest: bit_imp_le_length)
qed simp

lemma port_moved_6:
  "to_bits 64 (a :: u64) @ to_bits 64 (b :: u64) @ to_bits 16 (p :: u16) =
   to_bits 16 (ucast (drop_bit 48 a) :: u16) @ to_bits 64 (push_bit 16 a OR drop_bit 48 b) @ to_bits 64 (push_bit 16 b OR ucast p)"
proof (rule nth_equalityI)
  fix i
  assume "i < length (to_bits 64 a @ to_bits 64 b @ to_bits 16 p)"
  then have "i < 16 \<or> 16 \<le> i \<and> i < 64 \<or> 64 \<le> i \<and> i < 80 \<or> 80 \<le> i \<and> i < 128 \<or> 128 \<le> i \<and> i < 144" by auto
  then show "(to_bits 64 a @ to_bits 64 b @ to_bits 16 p) ! i =
      (to_bits 16 (ucast (drop_bit 48 a) :: u16) @ to_bits 64 (push_bit 16 a OR drop_bit 48 b)
        @ to_bits 64 (push_bit 16 b OR ucast p)) ! i"
    by (elim disjE conjE)
      (auto simp: nth_append nth_to_bits bit_simps not_less intro!: arg_cong [of _ _ "bit _"] dest: bit_imp_le_length)
qed simp

lemma add_addr_moved:
  assumes "add_port o1 = Some p"
  shows "IPAddress_bits (add_address o1) @ to_bits 16 p =
    to_bits 16 (the (add_port (add_addr_read o1))) @ IPAddress_bits (add_address (add_addr_read o1))"
proof (cases "is4 (add_address o1)")
  case True
  have "getIPv4 (MakeIPv4 x) = x" for x unfolding getIPv4_def MakeIPv4_def by simp (transfer, simp)
  then show ?thesis
    using True assms port_moved_4 [of "getIPv4 (add_address o1)" p] by (simp add: add_addr_read_def IPAddress_bits_def Let_def)
next
  case False
  then show ?thesis
    using assms port_moved_6 [of "m_hi (add_address o1)" "m_lo (add_address o1)" p]
    by (simp add: add_addr_read_def IPAddress_bits_def MakeIPv6_def is4_def Let_def)
qed

lemma add_addr_n:
  "int (unat (of_nat (TcpMpAddAddrOpt_size o1) :: byte)) - 4 - (if \<not> flag_get (add_flags o1) AddAddr_Echo then 8 else 0)
     = (if is4 (add_address o1) then 4 else 16) + (if add_port o1 = None then 0 else 2)"
  by (simp add: TcpMpAddAddrOpt_size_def IPAddress_size_def)

lemma tcp_add_addr_writes:
  assumes "valid_add_addr o1"
  shows "writesB 0 (TcpMpAddAddrOpt_serialize o1) (TcpMpAddAddrOpt_bits o1) o1"
proof -
  have p: "wf_ip (add_address o1)" "zone (add_address o1) = []" using assms by (simp_all add: valid_add_addr_def)
  define bs where "bs = IPAddress_bits (add_address o1) @ (case add_port o1 of None \<Rightarrow> [] | Some p \<Rightarrow> to_bits 16 p)"
  have addr: "writesB k (ser_bind (IPAddress_serialize (is4 (add_address o1)) (add_address o1)) (\<lambda>address.
          ser_bind
            (case add_port o1 of None \<Rightarrow> ser_return None
             | Some p \<Rightarrow> ser_bind (serializeUint16 p) (\<lambda>p. ser_return (Some p))) (\<lambda>port.
          ser_return (address, port))))
      bs (add_address o1, add_port o1)" if "k mod 8 = 0" for k
  proof (cases "add_port o1")
    case None
    then show ?thesis
      using writesB_map [OF writesB_host [of True "add_address o1" k], of "\<lambda>a. (a, None)" "(add_address o1, None)"]
        writesB_map [OF writesB_host [of False "add_address o1" k], of "\<lambda>a. (a, None)" "(add_address o1, None)"] p that
      by (cases "is4 (add_address o1)") (simp_all add: ser_bind_return bs_def)
  next
    case (Some q)
    have k: "(k + length (IPAddress_bits (add_address o1))) mod 8 = 0"
      using that by (cases "is4 (add_address o1)") (simp_all add: length_IPAddress_bits mod_add_left_eq [symmetric])
    show ?thesis
      unfolding bs_def Some option.case ser_bind_assoc ser_bind_return
      by (rule writesB_bind [OF writesB_host [OF refl p that] writesB_map [OF writesB_serializeUint16 [OF k]]]) simp
  qed
  have l8: "length bs mod 8 = 0" by (auto simp: bs_def length_IPAddress_bits split: option.split)
  have bits: "TcpMpAddAddrOpt_bits o1 = mp_head (TcpMpAddAddrOpt_size o1) TcpMp_ADD_ADDR @ to_bits 4 (add_flags o1)
     @ to_bits 8 (add_addressId o1) @ bs @ (if \<not> flag_get (add_flags o1) AddAddr_Echo then to_bits 64 (add_mac o1) else [])"
    by (simp add: TcpMpAddAddrOpt_bits_def bs_def)
  show ?thesis
    unfolding TcpMpAddAddrOpt_serialize_def bits mp_head_def opt_head_def append.assoc
    by (rule writesB_bind_if_reading mp_writes addr TcpMpAddAddrOpt.equality | rule refl
        | simp only: prod.case | (simp add: mod_add_right_eq [symmetric] l8; fail))+
qed

lemma tcp_add_addr_reads:
  assumes "valid_add_addr o1" "add_mac o0 = 0"
  shows "readsB 0 (TcpMpAddAddrOpt_serialize o0) (TcpMpAddAddrOpt_bits o1) (add_addr_read o1)"
proof -
  let ?r = "add_addr_read o1"
  have p: "wf_ip (add_address ?r)" "zone (add_address ?r) = []" "fits 4 (add_flags o1)"
      "flag_get (add_flags o1) AddAddr_Echo \<Longrightarrow> add_mac o1 = 0"
    using assms by (simp_all add: valid_add_addr_def add_addr_read_wf)
  define bs where "bs = IPAddress_bits (add_address o1) @ (case add_port o1 of None \<Rightarrow> [] | Some p \<Rightarrow> to_bits 16 p)"
  have addr: "readsB k (let n = int (unat (of_nat (TcpMpAddAddrOpt_size o1) :: byte)) - 4
               - (if \<not> flag_get (add_flags o1) AddAddr_Echo then 8 else 0)
          in ser_bind (if n = 6 \<or> n = 18 then ser_bind (serializeUint16 0) (\<lambda>p. ser_return (Some p)) else ser_return None) (\<lambda>port.
             ser_bind (IPAddress_serialize (n = 4 \<or> n = 6) (add_address o0)) (\<lambda>address.
             ser_return (address, port)))) bs (add_address ?r, add_port ?r)" if k: "k mod 8 = 0" for k
  proof (cases "add_port o1")
    case None
    then show ?thesis
      unfolding Let_def add_addr_n bs_def
      using readsB_host [of True "add_address o1" k "add_address o0"] readsB_host [of False "add_address o1" k "add_address o0"]
        p that
      by (cases "is4 (add_address o1)") (simp_all add: ser_bind_return readsB_map)
  next
    case (Some q)
    obtain q' where q': "add_port ?r = Some q'" using Some add_addr_read_simps(5) [of o1] by (cases "add_port ?r") auto
    have k2: "(k + length (to_bits 16 q')) mod 8 = 0" unfolding length_to_bits using k by presburger
    have bs: "bs = to_bits 16 q' @ IPAddress_bits (add_address ?r)"
      using add_addr_moved [OF Some] q' by (simp add: bs_def Some)
    have rd: "readsB k (ser_bind (serializeUint16 0) (\<lambda>p. ser_bind (IPAddress_serialize v4 (add_address o0)) (\<lambda>address.
        ser_return (address, Some p)))) bs (add_address ?r, Some q')" if "v4 = is4 (add_address ?r)" for v4
      unfolding bs by (rule readsB_bind [OF readsB_serializeUint16 [OF k] readsB_map [OF readsB_host [OF that p(1,2) k2]]]) simp
    show ?thesis
      unfolding Let_def add_addr_n q'
      using rd [of True] rd [of False] Some
      by (cases "is4 (add_address o1)") (simp_all add: ser_bind_assoc ser_bind_return)
  qed
  have l8: "length bs mod 8 = 0" by (auto simp: bs_def length_IPAddress_bits split: option.split)
  have bits: "TcpMpAddAddrOpt_bits o1 = mp_head (TcpMpAddAddrOpt_size o1) TcpMp_ADD_ADDR @ to_bits 4 (add_flags o1)
     @ to_bits 8 (add_addressId o1) @ bs @ (if \<not> flag_get (add_flags o1) AddAddr_Echo then to_bits 64 (add_mac o1) else [])"
    by (simp add: TcpMpAddAddrOpt_bits_def bs_def)
  show ?thesis
    unfolding TcpMpAddAddrOpt_serialize_def bits mp_head_def opt_head_def append.assoc
    by (rule readsB_if_reading addr mp_reads [unfolded not_None_eq] | simp only: prod.case
        | (simp add: p assms(2) mod_add_right_eq [symmetric] l8; fail))+
qed

definition valid_rem_addr :: "TcpMpRemAddrOpt \<Rightarrow> bool" where
  "valid_rem_addr o1 \<longleftrightarrow> length (rem_addressIds o1) = 8 \<and> 1 \<le> unat (rem_count o1) \<and> unat (rem_count o1) \<le> 8
     \<and> (\<forall>i<8. unat (rem_count o1) \<le> i \<longrightarrow> rem_addressIds o1 ! i = 0)"

definition blank_rem_addr :: "TcpMpRemAddrOpt \<Rightarrow> bool" where
  "blank_rem_addr o1 \<longleftrightarrow> rem_addressIds o1 = replicate 8 0"

lemma rem_ids_writes: "(\<forall>i\<in>set is. i < length ids) \<Longrightarrow> writesB k (rem_ids is ids) (bits_of (map ((!) ids) is)) ids"
proof (induction "is" arbitrary: k)
  case Nil
  then show ?case by (simp add: writesB_return)
next
  case (Cons i "is")
  then show ?case
    using writesB_bind [OF writesB_serializeByte [of k "ids ! i"], of "\<lambda>b. rem_ids is (ids[i := b])" "bits_of (map ((!) ids) is)" ids]
    by (simp add: bits_of_Cons to_bits_8)
qed

lemma rem_ids_reads:
  "length ids0 = length ids \<Longrightarrow> m \<le> n \<Longrightarrow> n \<le> length ids \<Longrightarrow>
   (\<forall>i<length ids. i < m \<or> n \<le> i \<longrightarrow> ids0 ! i = ids ! i) \<Longrightarrow>
   readsB k (rem_ids [m..<n] ids0) (bits_of (map ((!) ids) [m..<n])) ids"
proof (induction "n - m" arbitrary: k m ids0)
  case 0
  then have "ids0 = ids" by (auto intro!: nth_equalityI)
  with 0 show ?case by (simp add: readsB_return)
next
  case (Suc d)
  then have mn: "m < n" by simp
  have IH: "readsB (k + 8) (rem_ids [Suc m..<n] (ids0[m := ids ! m])) (bits_of (map ((!) ids) [Suc m..<n])) ids"
    by (rule Suc.hyps(1)) (use Suc mn in \<open>auto simp: nth_list_update\<close>)
  have b: "bits_of (map ((!) ids) (m # [Suc m..<n])) = to_bits 8 (ids ! m) @ bits_of (map ((!) ids) [Suc m..<n])"
    by (simp add: bits_of_Cons to_bits_8)
  show ?case
    unfolding upt_conv_Cons [OF mn] rem_ids.simps b
    by (rule readsB_bind readsB_serializeByte | (simp only: length_to_bits, rule IH))+
qed

lemma rem_n_valid: "valid_rem_addr o1 \<Longrightarrow> rem_n o1 = unat (rem_count o1) \<and> rem_n o1 \<le> 8"
  by (auto simp: rem_n_def valid_rem_addr_def)

lemma rem_ids_take: "valid_rem_addr o1 \<Longrightarrow> TcpMpRemAddrOpt_getAddressIds o1 = map ((!) (rem_addressIds o1)) [0..<rem_n o1]"
  using rem_n_valid [of o1]
  by (auto simp: TcpMpRemAddrOpt_getAddressIds_def valid_rem_addr_def intro!: nth_equalityI)

lemma tcp_rem_addr_writes:
  assumes "valid_rem_addr o1"
  shows "writesB 0 (TcpMpRemAddrOpt_serialize o1) (TcpMpRemAddrOpt_bits o1) o1"
proof -
  have n: "\<forall>i\<in>set [0..<rem_n o1]. i < length (rem_addressIds o1)"
    using rem_n_valid [OF assms] assms by (auto simp: valid_rem_addr_def)
  show ?thesis
    unfolding TcpMpRemAddrOpt_serialize_def TcpMpRemAddrOpt_bits_def mp_head_def opt_head_def append.assoc rem_ids_take [OF assms]
    by (rule mp_writes rem_ids_writes [OF n] | simp only: prod.case | (simp; fail))+
qed

lemma tcp_rem_addr_reads:
  assumes v: "valid_rem_addr o1" and b: "blank_rem_addr o0"
  shows "readsB 0 (TcpMpRemAddrOpt_serialize o0) (TcpMpRemAddrOpt_bits o1) o1"
proof -
  have "r \<le> 8 \<Longrightarrow> unat (of_nat (3 + r) :: byte) = 3 + r" for r
    by (simp only: unsigned_of_nat) (simp add: take_bit_nat_eq_self)
  then have len: "unat (of_nat (TcpMpRemAddrOpt_size o1) :: byte) = 3 + rem_n o1"
    using rem_n_valid [OF v] unfolding TcpMpRemAddrOpt_size_def by blast
  have len: "unat (of_nat (TcpMpRemAddrOpt_size o1) :: byte) = 3 + rem_n o1" "1 \<le> rem_n o1" "rem_n o1 \<le> 8"
      "of_nat (rem_n o1) = rem_count o1" "length (rem_addressIds o0) = 8"
    using rem_n_valid [OF v] v b len by (auto simp: valid_rem_addr_def blank_rem_addr_def)
  have ids: "readsB k (rem_ids [0..<rem_n o1] (rem_addressIds o0)) (bits_of (map ((!) (rem_addressIds o1)) [0..<rem_n o1]))
      (rem_addressIds o1)" for k
    by (rule rem_ids_reads) (use v b rem_n_valid [OF v] in \<open>auto simp: valid_rem_addr_def blank_rem_addr_def nth_replicate\<close>)
  have n: "readsB k (f (rem_n o1, rem_count o1)) bs c \<Longrightarrow>
      readsB k (ser_bind (let n = unat (of_nat (TcpMpRemAddrOpt_size o1) :: byte) - TcpMpRemAddrOpt_minLength + 1
          in if n > length (rem_addressIds o0) then ser_error msg
             else ser_return (n, of_nat n :: u32)) f) bs c" for k f bs c msg
    using len by (simp add: TcpMpRemAddrOpt_minLength_def ser_bind_return)
  show ?thesis
    unfolding TcpMpRemAddrOpt_serialize_def TcpMpRemAddrOpt_bits_def mp_head_def opt_head_def append.assoc rem_ids_take [OF v]
    by (rule readsB_bind_if_reading n mp_reads ids | simp only: prod.case
        | (use len in \<open>simp add: TcpMpRemAddrOpt_minLength_def; fail\<close>))+
qed

section \<open>The option list\<close>

datatype tcp_item =
    I_NoOp | I_MSS | I_WS | I_SAckPerm | I_SAck | I_TS | I_MpCapable | I_MpJoin | I_MpDss | I_MpAddAddr | I_MpRemAddr
  | I_MpPrio | I_MpFail | I_MpClose | I_MpRst

fun item_bits :: "TcpOptions \<Rightarrow> tcp_item \<Rightarrow> bool list" where
  "item_bits o1 I_NoOp = to_bits 8 TcpOpt_NoOp"
| "item_bits o1 I_MSS = TcpMssOpt_bits (op_mss o1)"
| "item_bits o1 I_WS = TcpWsOpt_bits (op_ws o1)"
| "item_bits o1 I_SAckPerm = TcpSAckPermOpt_bits"
| "item_bits o1 I_SAck = TcpSAckOpt_bits (op_sack o1)"
| "item_bits o1 I_TS = TcpTsOpt_bits (op_ts o1)"
| "item_bits o1 I_MpCapable = TcpMpCapableOpt_bits (op_mpCap o1)"
| "item_bits o1 I_MpJoin = TcpMpJoinOpt_bits (op_mpJoin o1)"
| "item_bits o1 I_MpDss = TcpMpDssOpt_bits (op_mpDss o1)"
| "item_bits o1 I_MpAddAddr = TcpMpAddAddrOpt_bits (op_mpAdd o1)"
| "item_bits o1 I_MpRemAddr = TcpMpRemAddrOpt_bits (op_mpRem o1)"
| "item_bits o1 I_MpPrio = TcpMpPrioOpt_bits (op_mpPrio o1)"
| "item_bits o1 I_MpFail = mp_long_bits TcpMp_MP_FAIL (fail_dsn (op_mpFail o1))"
| "item_bits o1 I_MpClose = mp_long_bits TcpMp_MP_FASTCLOSE (close_receiverKey (op_mpClose o1))"
| "item_bits o1 I_MpRst = TcpMpRstOpt_bits (op_mpRst o1)"

text \<open>What reading the item does to the options read so far.\<close>

fun item_read :: "TcpOptions \<Rightarrow> tcp_item \<Rightarrow> opts \<Rightarrow> opts" where
  "item_read o1 I_NoOp (m, o2) = (m, o2)"
| "item_read o1 I_MSS (m, o2) = (m\<lparr>om_MSS := True\<rparr>, o2\<lparr>op_mss := op_mss o1\<rparr>)"
| "item_read o1 I_WS (m, o2) = (m\<lparr>om_WS := True\<rparr>, o2\<lparr>op_ws := op_ws o1\<rparr>)"
| "item_read o1 I_SAckPerm (m, o2) = (m\<lparr>om_SAckPerm := True\<rparr>, o2)"
| "item_read o1 I_SAck (m, o2) = (m\<lparr>om_SAck := True\<rparr>, o2\<lparr>op_sack := op_sack o1\<rparr>)"
| "item_read o1 I_TS (m, o2) = (m\<lparr>om_TS := True\<rparr>, o2\<lparr>op_ts := op_ts o1\<rparr>)"
| "item_read o1 I_MpCapable (m, o2) = (m\<lparr>om_MpCapable := True\<rparr>, o2\<lparr>op_mpCap := op_mpCap o1\<rparr>)"
| "item_read o1 I_MpJoin (m, o2) = (m\<lparr>om_MpJoin := True\<rparr>, o2\<lparr>op_mpJoin := op_mpJoin o1\<rparr>)"
| "item_read o1 I_MpDss (m, o2) = (m\<lparr>om_MpDss := True\<rparr>, o2\<lparr>op_mpDss := op_mpDss o1\<rparr>)"
| "item_read o1 I_MpAddAddr (m, o2) = (m\<lparr>om_MpAddAddr := True\<rparr>, o2\<lparr>op_mpAdd := add_addr_read (op_mpAdd o1)\<rparr>)"
| "item_read o1 I_MpRemAddr (m, o2) = (m\<lparr>om_MpRemAddr := True\<rparr>, o2\<lparr>op_mpRem := op_mpRem o1\<rparr>)"
| "item_read o1 I_MpPrio (m, o2) = (m\<lparr>om_MpPrio := True\<rparr>, o2\<lparr>op_mpPrio := op_mpPrio o1\<rparr>)"
| "item_read o1 I_MpFail (m, o2) = (m\<lparr>om_MpFail := True\<rparr>, o2\<lparr>op_mpFail := op_mpFail o1\<rparr>)"
| "item_read o1 I_MpClose (m, o2) = (m\<lparr>om_MpClose := True\<rparr>, o2\<lparr>op_mpClose := op_mpClose o1\<rparr>)"
| "item_read o1 I_MpRst (m, o2) = (m\<lparr>om_MpRst := True\<rparr>, o2\<lparr>op_mpRst := op_mpRst o1\<rparr>)"

fun valid_item :: "TcpOptions \<Rightarrow> tcp_item \<Rightarrow> bool" where
  "valid_item o1 I_WS \<longleftrightarrow> ws_wndShift (op_ws o1) \<le> 14"
| "valid_item o1 I_SAck \<longleftrightarrow> valid_sack (op_sack o1)"
| "valid_item o1 I_MpCapable \<longleftrightarrow> valid_mp_capable (op_mpCap o1)"
| "valid_item o1 I_MpJoin \<longleftrightarrow> valid_mp_join (op_mpJoin o1)"
| "valid_item o1 I_MpDss \<longleftrightarrow> valid_dss (op_mpDss o1)"
| "valid_item o1 I_MpAddAddr \<longleftrightarrow> valid_add_addr (op_mpAdd o1)"
| "valid_item o1 I_MpRemAddr \<longleftrightarrow> valid_rem_addr (op_mpRem o1)"
| "valid_item o1 I_MpRst \<longleftrightarrow> fits 4 (rst_flags (op_mpRst o1))"
| "valid_item o1 _ \<longleftrightarrow> True"

fun blank_item :: "TcpOptions \<Rightarrow> tcp_item \<Rightarrow> bool" where
  "blank_item o1 I_SAck \<longleftrightarrow> blank_sack (op_sack o1)"
| "blank_item o1 I_MpCapable \<longleftrightarrow> blank_mp_capable (op_mpCap o1)"
| "blank_item o1 I_MpDss \<longleftrightarrow> blank_dss (op_mpDss o1)"
| "blank_item o1 I_MpAddAddr \<longleftrightarrow> add_mac (op_mpAdd o1) = 0"
| "blank_item o1 I_MpRemAddr \<longleftrightarrow> blank_rem_addr (op_mpRem o1)"
| "blank_item o1 _ \<longleftrightarrow> True"

text \<open>The items that \<open>emitOpts\<close> writes, padding in front of options included.\<close>

definition tcp_items :: "TcpOptionMask \<Rightarrow> TcpOptions \<Rightarrow> tcp_item list" where
  "tcp_items m o1 =
     (let len1 = (if om_MSS m then unat TcpMssOpt_length else 0);
          len2 = (if om_SAckPerm m then len1 + unat TcpSAckPermOpt_length else len1);
          len3 = (if om_SAck m then len2 + TcpSAckOpt_size (op_sack o1) + 2 else len2)
      in (if om_MSS m then [I_MSS] else [])
       @ (if om_SAckPerm m then [I_SAckPerm] else [])
       @ (if om_SAck m then [I_NoOp, I_NoOp, I_SAck] else [])
       @ (if om_TS m then if len3 mod 4 = 2 then [I_TS] else [I_NoOp, I_NoOp, I_TS] else [])
       @ (if om_WS m then [I_NoOp, I_WS] else [])
       @ (if om_MpCapable m then [I_MpCapable] else [])
       @ (if om_MpJoin m then [I_MpJoin] else [])
       @ (if om_MpDss m then [I_MpDss] else [])
       @ (if om_MpAddAddr m then [I_MpAddAddr] else [])
       @ (if om_MpRemAddr m then (if odd (TcpMpRemAddrOpt_size (op_mpRem o1)) then [I_NoOp] else []) @ [I_MpRemAddr] else [])
       @ (if om_MpPrio m then [I_NoOp, I_MpPrio] else [])
       @ (if om_MpFail m then [I_MpFail] else [])
       @ (if om_MpClose m then [I_MpClose] else [])
       @ (if om_MpRst m then [I_MpRst] else []))"

definition tcp_padding :: "TcpOptionMask \<Rightarrow> TcpOptions \<Rightarrow> nat" where
  "tcp_padding m o1 = (let len = tcp_std_length m o1 in if odd (len div 2) then 4 - len mod 4 else 0)"

definition items_bits :: "TcpOptions \<Rightarrow> tcp_item list \<Rightarrow> bool list" where
  "items_bits o1 is = concat (map (item_bits o1) is)"

lemma items_bits_simps [simp]:
  "items_bits o1 [] = []" "items_bits o1 (i # is) = item_bits o1 i @ items_bits o1 is"
  "items_bits o1 (is @ js) = items_bits o1 is @ items_bits o1 js"
  by (simp_all add: items_bits_def)

subsection \<open>Writing the list\<close>

lemma noops: "to_bits 16 (0x0101 :: u16) = to_bits 8 TcpOpt_NoOp @ to_bits 8 TcpOpt_NoOp" "TcpOpt_NoOp = 1"
  by code_simp+

fun item_size :: "TcpOptions \<Rightarrow> tcp_item \<Rightarrow> nat" where
  "item_size o1 I_NoOp = 1"
| "item_size o1 I_MSS = 4"
| "item_size o1 I_WS = 3"
| "item_size o1 I_SAckPerm = 2"
| "item_size o1 I_SAck = TcpSAckOpt_size (op_sack o1)"
| "item_size o1 I_TS = 10"
| "item_size o1 I_MpCapable = TcpMpCapableOpt_size (op_mpCap o1)"
| "item_size o1 I_MpJoin = TcpMpJoinOpt_size (op_mpJoin o1)"
| "item_size o1 I_MpDss = TcpMpDssOpt_size (op_mpDss o1)"
| "item_size o1 I_MpAddAddr = TcpMpAddAddrOpt_size (op_mpAdd o1)"
| "item_size o1 I_MpRemAddr = TcpMpRemAddrOpt_size (op_mpRem o1)"
| "item_size o1 I_MpPrio = 3"
| "item_size o1 I_MpFail = 12"
| "item_size o1 I_MpClose = 12"
| "item_size o1 I_MpRst = 4"

lemma length_sack_edges [simp]: "length (sack_edges_bits is l r) = 64 * length is"
  by (induction "is") (simp_all add: sack_edges_bits_def)

lemma item_bytes: "valid_item o1 i \<Longrightarrow> length (item_bits o1 i) = 8 * item_size o1 i"
proof (cases i)
  case I_MpJoin
  then show "valid_item o1 i \<Longrightarrow> ?thesis"
    by (cases "op_mpJoin o1") (simp_all add: TcpMpJoinOpt_bits_def)
next
  case I_MpRemAddr
  then show "valid_item o1 i \<Longrightarrow> ?thesis"
    by (simp add: TcpMpRemAddrOpt_bits_def rem_ids_take TcpMpRemAddrOpt_size_def)
qed (simp_all add: tcp_opt_bits TcpSAckOpt_bits_def TcpSAckOpt_size_def TcpMpCapableOpt_bits_def TcpMpCapableOpt_size_def
      TcpMpDssOpt_bits_def TcpMpDssOpt_size_def seq_bits_def TcpMpAddAddrOpt_bits_def TcpMpAddAddrOpt_size_def
      length_IPAddress_bits IPAddress_size_def split: option.split)

text \<open>Writing whole bytes from a whole byte on.\<close>

definition writesA :: "'a ser \<Rightarrow> bool list \<Rightarrow> bool" where
  "writesA m bs \<longleftrightarrow> (\<exists>a. writesB 0 m bs a) \<and> length bs mod 8 = 0"

lemma writesA_bind: "writesA m bs \<Longrightarrow> writesA m' bs' \<Longrightarrow> writesA (ser_bind m (\<lambda>_. m')) (bs @ bs')"
proof -
  assume "writesA m bs" "writesA m' bs'"
  then obtain a c where w: "writesB 0 m bs a" "writesB 0 m' bs' c" "length bs mod 8 = 0" "length bs' mod 8 = 0"
    by (auto simp: writesA_def)
  have "writesB (0 + length bs) m' bs' c" using writesB_align [OF w(2)] w(3) by simp
  from writesB_bind [OF w(1) this] w(3,4) show "writesA (ser_bind m (\<lambda>_. m')) (bs @ bs')"
    unfolding writesA_def by auto
qed

lemma writesA_when:
  assumes "c \<Longrightarrow> writesA m bs"
  shows "writesA (ser_when c m) (if c then bs else [])"
proof (cases c)
  case True
  then obtain a where "writesB 0 m bs a" "length bs mod 8 = 0" using assms by (auto simp: writesA_def)
  then show ?thesis using True writesB_map [of 0 m bs a "\<lambda>_. ()" "()"] by (auto simp: writesA_def ser_when_def)
qed (auto simp: writesA_def ser_when_def intro: writesB_return)

lemma writesA_B: "writesB 0 m bs a \<Longrightarrow> length bs mod 8 = 0 \<Longrightarrow> writesA m bs"
  by (auto simp: writesA_def)

lemma writesA_unit: "writesA m bs \<Longrightarrow> writesB 0 m bs ()"
  by (auto simp: writesA_def)

lemma writesA_noop: "writesA (serializeByte 1) (to_bits 8 TcpOpt_NoOp)"
    "writesA (serializeUint16 0x0101) (to_bits 8 TcpOpt_NoOp @ to_bits 8 TcpOpt_NoOp)"
  using writesB_serializeByte [of 0 1] writesB_serializeUint16 [of 0 "0x0101"]
  by (auto simp: writesA_def noops(2) simp del: One_nat_def) (auto simp: noops(1) [unfolded noops(2)])

lemma item_bits_whole: "valid_item o1 i \<Longrightarrow> length (item_bits o1 i) mod 8 = 0"
  by (simp add: item_bytes)

lemmas tcp_item_writes = tcp_mss_writes tcp_ws_writes tcp_sackperm_writes tcp_sack_writes tcp_ts_writes tcp_mp_capable_writes
  tcp_mp_join_writes tcp_dss_writes tcp_add_addr_writes tcp_rem_addr_writes tcp_prio_writes tcp_fail_writes tcp_close_writes
  tcp_rst_writes

lemma items_writesA:
  "writesA (TcpMssOpt_serialize (op_mss o1)) (item_bits o1 I_MSS)"
  "valid_item o1 I_WS \<Longrightarrow> writesA (TcpWsOpt_serialize (op_ws o1)) (item_bits o1 I_WS)"
  "writesA TcpSAckPermOpt_serialize (item_bits o1 I_SAckPerm)"
  "valid_item o1 I_SAck \<Longrightarrow> writesA (TcpSAckOpt_serialize (op_sack o1)) (item_bits o1 I_SAck)"
  "writesA (TcpTsOpt_serialize (op_ts o1)) (item_bits o1 I_TS)"
  "valid_item o1 I_MpCapable \<Longrightarrow> writesA (TcpMpCapableOpt_serialize (op_mpCap o1)) (item_bits o1 I_MpCapable)"
  "valid_item o1 I_MpJoin \<Longrightarrow> writesA (TcpMpJoinOpt_serialize (op_mpJoin o1)) (item_bits o1 I_MpJoin)"
  "valid_item o1 I_MpDss \<Longrightarrow> writesA (TcpMpDssOpt_serialize (op_mpDss o1)) (item_bits o1 I_MpDss)"
  "valid_item o1 I_MpAddAddr \<Longrightarrow> writesA (TcpMpAddAddrOpt_serialize (op_mpAdd o1)) (item_bits o1 I_MpAddAddr)"
  "valid_item o1 I_MpRemAddr \<Longrightarrow> writesA (TcpMpRemAddrOpt_serialize (op_mpRem o1)) (item_bits o1 I_MpRemAddr)"
  "writesA (TcpMpPrioOpt_serialize (op_mpPrio o1)) (item_bits o1 I_MpPrio)"
  "writesA (TcpMpFailOpt_serialize (op_mpFail o1)) (item_bits o1 I_MpFail)"
  "writesA (TcpMpCloseOpt_serialize (op_mpClose o1)) (item_bits o1 I_MpClose)"
  "valid_item o1 I_MpRst \<Longrightarrow> writesA (TcpMpRstOpt_serialize (op_mpRst o1)) (item_bits o1 I_MpRst)"
  by - (rule writesA_B [OF _ item_bits_whole], subst item_bits.simps, rule tcp_item_writes, (simp; fail)+)+

lemma items_bits_if: "items_bits o1 (if c then is else js) = (if c then items_bits o1 is else items_bits o1 js)"
  by simp

lemma emit_ts_writes: "writesA (emit_ts len (op_ts o1)) (items_bits o1 (if len mod 4 = 2 then [I_TS] else [I_NoOp, I_NoOp, I_TS]))"
  using writesA_bind [OF writesA_noop(2) items_writesA(5)] items_writesA(5) by (simp add: emit_ts_def)

lemma advance_writesA: "writesA (advanceBytes n) (replicate (8 * n) False)"
  by (rule writesA_B [OF writesB_advanceBytes]) simp_all

lemma padding_bits: "replicate (8 * tcp_padding m o1) False =
    (if odd (tcp_std_length m o1 div 2) then replicate (8 * (4 - tcp_std_length m o1 mod 4)) False else [])"
  by (simp add: tcp_padding_def)

lemma writesA_noop_item: "writesA (serializeByte 1) (item_bits o1 I_NoOp)"
    "writesA m bs \<Longrightarrow> writesA (ser_bind (serializeUint16 0x0101) (\<lambda>_. m)) (item_bits o1 I_NoOp @ item_bits o1 I_NoOp @ bs)"
  using writesA_noop(1) writesA_bind [OF writesA_noop(2)] by simp_all

lemma emitOpts_writes:
  assumes "\<forall>i\<in>set (tcp_items m o1). valid_item o1 i"
  shows "writesA (emitOpts m o1) (items_bits o1 (tcp_items m o1) @ replicate (8 * tcp_padding m o1) False)"
proof -
  have v: "om_WS m \<Longrightarrow> valid_item o1 I_WS" "om_SAck m \<Longrightarrow> valid_item o1 I_SAck" "om_MpCapable m \<Longrightarrow> valid_item o1 I_MpCapable"
      "om_MpJoin m \<Longrightarrow> valid_item o1 I_MpJoin" "om_MpDss m \<Longrightarrow> valid_item o1 I_MpDss"
      "om_MpAddAddr m \<Longrightarrow> valid_item o1 I_MpAddAddr" "om_MpRemAddr m \<Longrightarrow> valid_item o1 I_MpRemAddr"
      "om_MpRst m \<Longrightarrow> valid_item o1 I_MpRst"
    using assms by (simp_all add: tcp_items_def Let_def)
  show ?thesis
    unfolding emitOpts_def tcp_items_def Let_def items_bits_simps items_bits_if append.assoc append_Nil2 padding_bits
    by (rule writesA_noop_item writesA_bind writesA_when items_writesA advance_writesA
          emit_ts_writes [unfolded items_bits_if items_bits_simps append_Nil2] | (erule v; fail))+
qed

subsection \<open>Reading one item\<close>

lemma mp_third_byte:
  assumes "fits 4 (st :: byte)" "4 \<le> length rest"
  obtains b where "to_bits 4 st @ rest = to_bits 8 b @ drop 4 rest" "drop_bit 4 b = st"
proof
  let ?bs = "to_bits 4 st @ take 4 rest" and ?b = "of_bits (to_bits 4 st @ take 4 rest) :: byte"
  have len: "length ?bs = 8" using assms by simp
  have "to_bits (length ?bs) ?b = ?bs" by (rule to_bits_of_bits) (use assms in simp)
  then show "to_bits 4 st @ rest = to_bits 8 ?b @ drop 4 rest"
    by (simp only: len append.assoc append_take_drop_id)
  show "drop_bit 4 ?b = st"
  proof (rule bit_word_eqI)
    fix i assume "i < LENGTH(8)"
    show "bit (drop_bit 4 ?b) i = bit st i"
    proof (cases "i < 4")
      case True
      then have "bit (drop_bit 4 ?b) i = ?bs ! (3 - i)"
        using assms len by (simp add: bit_drop_bit_eq bit_of_bits)
      also have "\<dots> = bit st i" using True less_Suc_eq_le [of "3 - i" 3] by (simp add: nth_append nth_to_bits)
      finally show ?thesis .
    next
      case False
      then have "\<not> bit st i" using fits_bit [OF assms(1)] by simp
      moreover have "\<not> bit (drop_bit 4 ?b) i"
        using False len by (simp add: bit_drop_bit_eq bit_of_bits)
      ultimately show ?thesis by simp
    qed
  qed
qed

lemma readsB_look_kind:
  assumes "readsB 0 (f [kind]) (to_bits 8 kind @ rest) c"
  shows "readsB 0 (ser_bind (lookahead 1) f) (to_bits 8 kind @ rest) c"
  using assms by (intro readsB_lookahead [where ds = "[kind]" and bs' = rest]) (simp_all add: bits_of_Cons to_bits_8 npos_def)

lemma readsB_alignE: "readsB 0 m bs a \<Longrightarrow> readsB 0 (ser_bind m (\<lambda>x. ser_return (f x))) bs (f a)"
  by (rule readsB_map) simp_all

lemma parse_opt_mp:
  assumes r: "readsB 0 (parse_mptcp st s) (mp_head len st @ rest) r" and st: "fits 4 st" "4 \<le> length rest"
  shows "readsB 0 (parse_opt s) (mp_head len st @ rest) (r, False)"
proof -
  obtain m o1 where s: "s = (m, o1)" by (cases s)
  obtain b where b: "to_bits 4 st @ rest = to_bits 8 b @ drop 4 rest" "drop_bit 4 b = st"
    using mp_third_byte [OF st] .
  have bs: "mp_head len st @ rest = to_bits 8 TcpOpt_MPTCP @ to_bits 8 (of_nat len :: byte) @ to_bits 4 st @ rest"
    by (simp add: mp_head_def opt_head_def)
  have "readsB 0 (ser_bind (lookahead 3)
      (\<lambda>nxt. ser_bind (parse_mptcp (drop_bit 4 (last nxt)) (m, o1)) (\<lambda>r. ser_return (r, False)))) (mp_head len st @ rest) (r, False)"
    by (rule readsB_lookahead [where ds = "[TcpOpt_MPTCP, of_nat len, b]" and bs' = "drop 4 rest"])
      (use r b in \<open>auto simp: bs bits_of_Cons to_bits_8 npos_def s intro: readsB_alignE\<close>)
  then show ?thesis
    unfolding bs s parse_opt_def prod.case
    by (intro readsB_look_kind) (simp add: TcpOpt_defs Let_def)
qed

lemmas tcp_item_reads = tcp_mss_reads tcp_ws_reads tcp_sackperm_reads tcp_sack_reads tcp_ts_reads tcp_mp_capable_reads
  tcp_mp_join_reads tcp_dss_reads tcp_add_addr_reads tcp_rem_addr_reads tcp_prio_reads tcp_fail_reads tcp_close_reads
  tcp_rst_reads

lemma readsB_noop: "readsB 0 (advanceBytes 1) (to_bits 8 b) ()"
  by (rule readsB_advanceBytes) simp_all

lemma parse_opt_kind:
  assumes "bs = to_bits 8 kind @ rest" "kind \<noteq> TcpOpt_EndOfList" "kind \<noteq> TcpOpt_MPTCP"
    and "readsB 0
      (if kind = TcpOpt_NoOp then ser_bind (advanceBytes 1) (\<lambda>_. ser_return (m, o1))
       else if kind = TcpOpt_MSS then
         ser_bind (TcpMssOpt_serialize (op_mss o1)) (\<lambda>x. ser_return (m\<lparr>om_MSS := True\<rparr>, o1\<lparr>op_mss := x\<rparr>))
       else if kind = TcpOpt_WS then
         ser_bind (TcpWsOpt_serialize (op_ws o1)) (\<lambda>x. ser_return (m\<lparr>om_WS := True\<rparr>, o1\<lparr>op_ws := x\<rparr>))
       else if kind = TcpOpt_SAckPerm then
         ser_bind TcpSAckPermOpt_serialize (\<lambda>_. ser_return (m\<lparr>om_SAckPerm := True\<rparr>, o1))
       else if kind = TcpOpt_SAck then
         ser_bind (TcpSAckOpt_serialize (op_sack o1)) (\<lambda>x. ser_return (m\<lparr>om_SAck := True\<rparr>, o1\<lparr>op_sack := x\<rparr>))
       else if kind = TcpOpt_TS then
         ser_bind (TcpTsOpt_serialize (op_ts o1)) (\<lambda>x. ser_return (m\<lparr>om_TS := True\<rparr>, o1\<lparr>op_ts := x\<rparr>))
       else ser_bind (TcpUnknownOpt_serialize \<lparr>unk_kind = 255, unk_length = 2\<rparr>) (\<lambda>_. ser_return (m, o1))) bs r"
  shows "readsB 0 (parse_opt (m, o1)) bs (r, False)"
  unfolding parse_opt_def prod.case assms(1)
  by (rule readsB_look_kind) (use assms(2,3) readsB_alignE [OF assms(4), of "\<lambda>r. (r, False)"] in \<open>auto simp: assms(1) Let_def\<close>)

lemma parse_opt_std:
  "readsB 0 (parse_opt (m, o2)) (item_bits o1 I_NoOp) (item_read o1 I_NoOp (m, o2), False)"
  "readsB 0 (parse_opt (m, o2)) (item_bits o1 I_MSS) (item_read o1 I_MSS (m, o2), False)"
  "valid_item o1 I_WS \<Longrightarrow> readsB 0 (parse_opt (m, o2)) (item_bits o1 I_WS) (item_read o1 I_WS (m, o2), False)"
  "readsB 0 (parse_opt (m, o2)) (item_bits o1 I_SAckPerm) (item_read o1 I_SAckPerm (m, o2), False)"
  "valid_item o1 I_SAck \<Longrightarrow> blank_item o2 I_SAck \<Longrightarrow>
     readsB 0 (parse_opt (m, o2)) (item_bits o1 I_SAck) (item_read o1 I_SAck (m, o2), False)"
  "readsB 0 (parse_opt (m, o2)) (item_bits o1 I_TS) (item_read o1 I_TS (m, o2), False)"
proof -
  note k = TcpOpt_EndOfList_def TcpOpt_MPTCP_def
  show "readsB 0 (parse_opt (m, o2)) (item_bits o1 I_NoOp) (item_read o1 I_NoOp (m, o2), False)"
    by (rule parse_opt_kind [where kind = TcpOpt_NoOp and rest = "[]"])
      (simp_all add: TcpOpt_defs readsB_map [OF readsB_noop [unfolded One_nat_def]])
  show "readsB 0 (parse_opt (m, o2)) (item_bits o1 I_MSS) (item_read o1 I_MSS (m, o2), False)"
    by (rule parse_opt_kind [where kind = TcpOpt_MSS])
      (simp add: tcp_opt_bits, simp_all add: TcpOpt_defs readsB_map [OF tcp_mss_reads])
  show "readsB 0 (parse_opt (m, o2)) (item_bits o1 I_WS) (item_read o1 I_WS (m, o2), False)" if "valid_item o1 I_WS"
    by (rule parse_opt_kind [where kind = TcpOpt_WS])
      (simp add: tcp_opt_bits, use that in \<open>simp_all add: TcpOpt_defs readsB_map [OF tcp_ws_reads]\<close>)
  show "readsB 0 (parse_opt (m, o2)) (item_bits o1 I_SAckPerm) (item_read o1 I_SAckPerm (m, o2), False)"
    by (rule parse_opt_kind [where kind = TcpOpt_SAckPerm])
      (simp add: tcp_opt_bits, simp_all add: TcpOpt_defs readsB_map [OF tcp_sackperm_reads])
  show "readsB 0 (parse_opt (m, o2)) (item_bits o1 I_SAck) (item_read o1 I_SAck (m, o2), False)"
    if "valid_item o1 I_SAck" "blank_item o2 I_SAck"
    by (rule parse_opt_kind [where kind = TcpOpt_SAck])
      (simp add: TcpSAckOpt_bits_def opt_head_def, use that in \<open>simp_all add: TcpOpt_defs readsB_map [OF tcp_sack_reads]\<close>)
  show "readsB 0 (parse_opt (m, o2)) (item_bits o1 I_TS) (item_read o1 I_TS (m, o2), False)"
    by (rule parse_opt_kind [where kind = TcpOpt_TS])
      (simp add: tcp_opt_bits, simp_all add: TcpOpt_defs readsB_map [OF tcp_ts_reads])
qed

lemma parse_opt_mp_item:
  assumes "item_bits o1 i = mp_head len st @ rest" "fits 4 st" "4 \<le> length rest"
    and "readsB 0 (parse_mptcp st (m, o2)) (item_bits o1 i) r"
  shows "readsB 0 (parse_opt (m, o2)) (item_bits o1 i) (r, False)"
  using parse_opt_mp [of st "(m, o2)" len rest r] assms by simp

lemma parse_mptcp_items:
  "valid_item o1 I_MpCapable \<Longrightarrow> blank_item o2 I_MpCapable \<Longrightarrow>
     readsB 0 (parse_opt (m, o2)) (item_bits o1 I_MpCapable) (item_read o1 I_MpCapable (m, o2), False)"
  "valid_item o1 I_MpJoin \<Longrightarrow>
     readsB 0 (parse_opt (m, o2)) (item_bits o1 I_MpJoin) (item_read o1 I_MpJoin (m, o2), False)"
  "valid_item o1 I_MpDss \<Longrightarrow> blank_item o2 I_MpDss \<Longrightarrow>
     readsB 0 (parse_opt (m, o2)) (item_bits o1 I_MpDss) (item_read o1 I_MpDss (m, o2), False)"
  "valid_item o1 I_MpAddAddr \<Longrightarrow> blank_item o2 I_MpAddAddr \<Longrightarrow>
     readsB 0 (parse_opt (m, o2)) (item_bits o1 I_MpAddAddr) (item_read o1 I_MpAddAddr (m, o2), False)"
  "valid_item o1 I_MpRemAddr \<Longrightarrow> blank_item o2 I_MpRemAddr \<Longrightarrow>
     readsB 0 (parse_opt (m, o2)) (item_bits o1 I_MpRemAddr) (item_read o1 I_MpRemAddr (m, o2), False)"
  "readsB 0 (parse_opt (m, o2)) (item_bits o1 I_MpPrio) (item_read o1 I_MpPrio (m, o2), False)"
  "readsB 0 (parse_opt (m, o2)) (item_bits o1 I_MpFail) (item_read o1 I_MpFail (m, o2), False)"
  "readsB 0 (parse_opt (m, o2)) (item_bits o1 I_MpClose) (item_read o1 I_MpClose (m, o2), False)"
  "valid_item o1 I_MpRst \<Longrightarrow> readsB 0 (parse_opt (m, o2)) (item_bits o1 I_MpRst) (item_read o1 I_MpRst (m, o2), False)"
proof -
  show "readsB 0 (parse_opt (m, o2)) (item_bits o1 I_MpCapable) (item_read o1 I_MpCapable (m, o2), False)"
    if "valid_item o1 I_MpCapable" "blank_item o2 I_MpCapable"
    by (rule parse_opt_mp_item [where st = TcpMp_MP_CAPABLE])
      (simp add: TcpMpCapableOpt_bits_def, simp, simp, use that in \<open>simp add: parse_mptcp_def readsB_map [OF tcp_mp_capable_reads]\<close>)
  show "readsB 0 (parse_opt (m, o2)) (item_bits o1 I_MpJoin) (item_read o1 I_MpJoin (m, o2), False)"
    if "valid_item o1 I_MpJoin"
    by (rule parse_opt_mp_item [where st = TcpMp_MP_JOIN])
      (simp add: TcpMpJoinOpt_bits_def, simp, cases "op_mpJoin o1", simp, simp, simp,
       use that in \<open>simp add: parse_mptcp_def TcpMp_defs readsB_map [OF tcp_mp_join_reads]\<close>)
  show "readsB 0 (parse_opt (m, o2)) (item_bits o1 I_MpDss) (item_read o1 I_MpDss (m, o2), False)"
    if "valid_item o1 I_MpDss" "blank_item o2 I_MpDss"
    by (rule parse_opt_mp_item [where st = TcpMp_DSS])
      (simp add: TcpMpDssOpt_bits_def, simp, simp, use that in \<open>simp add: parse_mptcp_def TcpMp_defs readsB_map [OF tcp_dss_reads]\<close>)
  show "readsB 0 (parse_opt (m, o2)) (item_bits o1 I_MpAddAddr) (item_read o1 I_MpAddAddr (m, o2), False)"
    if "valid_item o1 I_MpAddAddr" "blank_item o2 I_MpAddAddr"
    by (rule parse_opt_mp_item [where st = TcpMp_ADD_ADDR])
      (simp add: TcpMpAddAddrOpt_bits_def, simp, simp,
       use that in \<open>simp add: parse_mptcp_def TcpMp_defs readsB_map [OF tcp_add_addr_reads]\<close>)
  show "readsB 0 (parse_opt (m, o2)) (item_bits o1 I_MpRemAddr) (item_read o1 I_MpRemAddr (m, o2), False)"
    if "valid_item o1 I_MpRemAddr" "blank_item o2 I_MpRemAddr"
    by (rule parse_opt_mp_item [where st = TcpMp_REMOVE_ADDR])
      (simp add: TcpMpRemAddrOpt_bits_def, simp, simp,
       use that in \<open>simp add: parse_mptcp_def TcpMp_defs readsB_map [OF tcp_rem_addr_reads]\<close>)
  show "readsB 0 (parse_opt (m, o2)) (item_bits o1 I_MpPrio) (item_read o1 I_MpPrio (m, o2), False)"
    by (rule parse_opt_mp_item [where st = TcpMp_MP_PRIO])
      (simp add: TcpMpPrioOpt_bits_def, simp, simp, simp add: parse_mptcp_def TcpMp_defs readsB_map [OF tcp_prio_reads])
  show "readsB 0 (parse_opt (m, o2)) (item_bits o1 I_MpFail) (item_read o1 I_MpFail (m, o2), False)"
    by (rule parse_opt_mp_item [where st = TcpMp_MP_FAIL])
      (simp add: mp_long_bits_def, simp, simp,
       simp add: parse_mptcp_def TcpMp_defs readsB_map [OF tcp_fail_reads [unfolded TcpMp_defs]])
  show "readsB 0 (parse_opt (m, o2)) (item_bits o1 I_MpClose) (item_read o1 I_MpClose (m, o2), False)"
    by (rule parse_opt_mp_item [where st = TcpMp_MP_FASTCLOSE])
      (simp add: mp_long_bits_def, simp, simp,
       simp add: parse_mptcp_def TcpMp_defs readsB_map [OF tcp_close_reads [unfolded TcpMp_defs]])
  show "readsB 0 (parse_opt (m, o2)) (item_bits o1 I_MpRst) (item_read o1 I_MpRst (m, o2), False)"
    if "valid_item o1 I_MpRst"
    by (rule parse_opt_mp_item [where st = TcpMp_MP_TCPRST])
      (simp add: TcpMpRstOpt_bits_def, simp, simp, use that in \<open>simp add: parse_mptcp_def TcpMp_defs readsB_map [OF tcp_rst_reads]\<close>)
qed

lemma parse_item:
  assumes "valid_item o1 i" "blank_item (snd s) i"
  shows "readsB 0 (parse_opt s) (item_bits o1 i) (item_read o1 i s, False)"
  using assms parse_opt_std [where m = "fst s" and ?o2.0 = "snd s" and ?o1.0 = o1]
    parse_mptcp_items [where m = "fst s" and ?o2.0 = "snd s" and ?o1.0 = o1] by (cases s; cases i) simp_all

subsection \<open>Reading the list\<close>

lemma item_read_blank: "i \<noteq> j \<Longrightarrow> blank_item (snd (item_read o1 i s)) j = blank_item (snd s) j"
  by (cases s; cases i; cases j) simp_all

lemma blank_noop: "blank_item o2 I_NoOp"
  by simp

lemma parseOpts_end:
  assumes "wf_buf b" "bit_pos b mod 8 = 0" "bits_ahead b = replicate (8 * np) False"
  shows "parseOpts (s, ReadStream b) = Some (Inr s)"
proof (cases np)
  case 0
  then have "\<not> stream_more b"
    using assms aligned_pos(1) [OF assms(1,2)] by (auto simp: bits_room_def bit_pos_def stream_more_def wf_buf_def dest!: arg_cong [where f = length])
  then show ?thesis by (subst parseOpts.simps) simp
next
  case (Suc n)
  have z: "replicate (8 * np) False = to_bits 8 TcpOpt_EndOfList @ replicate (8 * n) False"
    by (simp add: Suc TcpOpt_EndOfList_def to_bits_zero replicate_add)
  have "readsB 0 (parse_opt s) (to_bits 8 TcpOpt_EndOfList @ []) (s, True)"
    unfolding parse_opt_def
    by (cases s; simp only: prod.case; rule readsB_look_kind;
        simp add: readsB_map [OF readsB_noop [unfolded One_nat_def]])
  then obtain b' where b': "parse_opt s (ReadStream b) = (Inr (s, True), ReadStream b')"
    using assms z unfolding readsB_def by fastforce
  have "stream_more b"
    using assms(3) Suc aligned_pos(1) [OF assms(1,2)] length_bits_ahead [of b] wf_bit_pos [OF assms(1)]
    by (auto simp: bits_room_def bit_pos_def stream_more_def)
  then show ?thesis using b' by (subst parseOpts.simps) simp
qed

lemma parseOpts_items:
  assumes "\<forall>i\<in>set is. valid_item o1 i \<and> blank_item (snd s) i" "distinct (filter (\<lambda>i. i \<noteq> I_NoOp) is)"
    "wf_buf b" "bit_pos b mod 8 = 0" "bits_ahead b = items_bits o1 is @ replicate (8 * np) False"
  shows "parseOpts (s, ReadStream b) = Some (Inr (fold (item_read o1) is s))"
  using assms
proof (induction "is" arbitrary: s b)
  case Nil
  then show ?case using parseOpts_end by simp
next
  case (Cons i "is")
  have v: "valid_item o1 i" "blank_item (snd s) i" using Cons.prems(1) by auto
  have "bits_ahead b = item_bits o1 i @ items_bits o1 is @ replicate (8 * np) False" using Cons.prems(5) by simp
  then obtain b' where b': "parse_opt s (ReadStream b) = (Inr (item_read o1 i s, False), ReadStream b')"
      "consumed b (length (item_bits o1 i)) b'"
    using parse_item [OF v] Cons.prems(3,4) unfolding readsB_def by fastforce
  have ahead: "bits_ahead b' = items_bits o1 is @ replicate (8 * np) False"
    using consumed_ahead [OF b'(2)] Cons.prems(5) by simp
  have pos: "wf_buf b'" "bit_pos b' mod 8 = 0"
    using b'(2) Cons.prems(4) item_bits_whole [OF v(1)] by (auto simp: consumed_def)
  have more: "stream_more b"
  proof -
    have "0 < length (item_bits o1 i)" by (cases i) (auto simp: tcp_opt_bits TcpSAckOpt_bits_def TcpMpCapableOpt_bits_def
      TcpMpJoinOpt_bits_def TcpMpDssOpt_bits_def TcpMpAddAddrOpt_bits_def TcpMpRemAddrOpt_bits_def)
    moreover have "length (item_bits o1 i) \<le> length (bits_ahead b)" unfolding Cons.prems(5) by simp
    ultimately have "0 < bits_room b" unfolding length_bits_ahead by linarith
    then show ?thesis
      using Cons.prems(3,4) aligned_pos(1) [OF Cons.prems(3,4)] by (auto simp: bits_room_def bit_pos_def stream_more_def wf_buf_def)
  qed
  have "blank_item (snd (item_read o1 i s)) j" if "j \<in> set is" for j
    using that Cons.prems(1,2) item_read_blank [of i j o1 s] by (cases "j = I_NoOp") (auto split: if_splits)
  then have "\<forall>j\<in>set is. valid_item o1 j \<and> blank_item (snd (item_read o1 i s)) j" using Cons.prems(1) by simp
  from Cons.IH [OF this _ pos ahead] Cons.prems(2)
  have "parseOpts (item_read o1 i s, ReadStream b') = Some (Inr (fold (item_read o1) is (item_read o1 i s)))"
    by (simp split: if_splits)
  then show ?case using b'(1) more by (subst parseOpts.simps) simp
qed

subsection \<open>The header\<close>

lemma fold_items:
  "om_MSS (fst (fold (item_read o1) is s)) \<longleftrightarrow> om_MSS (fst s) \<or> I_MSS \<in> set is"
  "om_WS (fst (fold (item_read o1) is s)) \<longleftrightarrow> om_WS (fst s) \<or> I_WS \<in> set is"
  "om_SAckPerm (fst (fold (item_read o1) is s)) \<longleftrightarrow> om_SAckPerm (fst s) \<or> I_SAckPerm \<in> set is"
  "om_SAck (fst (fold (item_read o1) is s)) \<longleftrightarrow> om_SAck (fst s) \<or> I_SAck \<in> set is"
  "om_TS (fst (fold (item_read o1) is s)) \<longleftrightarrow> om_TS (fst s) \<or> I_TS \<in> set is"
  "om_MpCapable (fst (fold (item_read o1) is s)) \<longleftrightarrow> om_MpCapable (fst s) \<or> I_MpCapable \<in> set is"
  "om_MpJoin (fst (fold (item_read o1) is s)) \<longleftrightarrow> om_MpJoin (fst s) \<or> I_MpJoin \<in> set is"
  "om_MpDss (fst (fold (item_read o1) is s)) \<longleftrightarrow> om_MpDss (fst s) \<or> I_MpDss \<in> set is"
  "om_MpAddAddr (fst (fold (item_read o1) is s)) \<longleftrightarrow> om_MpAddAddr (fst s) \<or> I_MpAddAddr \<in> set is"
  "om_MpRemAddr (fst (fold (item_read o1) is s)) \<longleftrightarrow> om_MpRemAddr (fst s) \<or> I_MpRemAddr \<in> set is"
  "om_MpPrio (fst (fold (item_read o1) is s)) \<longleftrightarrow> om_MpPrio (fst s) \<or> I_MpPrio \<in> set is"
  "om_MpFail (fst (fold (item_read o1) is s)) \<longleftrightarrow> om_MpFail (fst s) \<or> I_MpFail \<in> set is"
  "om_MpClose (fst (fold (item_read o1) is s)) \<longleftrightarrow> om_MpClose (fst s) \<or> I_MpClose \<in> set is"
  "om_MpRst (fst (fold (item_read o1) is s)) \<longleftrightarrow> om_MpRst (fst s) \<or> I_MpRst \<in> set is"
  by (induction "is" arbitrary: s; (simp; fail)?; rename_tac i "is" s; case_tac i; case_tac s; simp)+

lemma fold_item_options:
  "op_mss (snd (fold (item_read o1) is s)) = (if I_MSS \<in> set is then op_mss o1 else op_mss (snd s))"
  "op_ws (snd (fold (item_read o1) is s)) = (if I_WS \<in> set is then op_ws o1 else op_ws (snd s))"
  "op_sack (snd (fold (item_read o1) is s)) = (if I_SAck \<in> set is then op_sack o1 else op_sack (snd s))"
  "op_ts (snd (fold (item_read o1) is s)) = (if I_TS \<in> set is then op_ts o1 else op_ts (snd s))"
  "op_mpCap (snd (fold (item_read o1) is s)) = (if I_MpCapable \<in> set is then op_mpCap o1 else op_mpCap (snd s))"
  "op_mpJoin (snd (fold (item_read o1) is s)) = (if I_MpJoin \<in> set is then op_mpJoin o1 else op_mpJoin (snd s))"
  "op_mpDss (snd (fold (item_read o1) is s)) = (if I_MpDss \<in> set is then op_mpDss o1 else op_mpDss (snd s))"
  "op_mpAdd (snd (fold (item_read o1) is s)) = (if I_MpAddAddr \<in> set is then add_addr_read (op_mpAdd o1) else op_mpAdd (snd s))"
  "op_mpRem (snd (fold (item_read o1) is s)) = (if I_MpRemAddr \<in> set is then op_mpRem o1 else op_mpRem (snd s))"
  "op_mpPrio (snd (fold (item_read o1) is s)) = (if I_MpPrio \<in> set is then op_mpPrio o1 else op_mpPrio (snd s))"
  "op_mpFail (snd (fold (item_read o1) is s)) = (if I_MpFail \<in> set is then op_mpFail o1 else op_mpFail (snd s))"
  "op_mpClose (snd (fold (item_read o1) is s)) = (if I_MpClose \<in> set is then op_mpClose o1 else op_mpClose (snd s))"
  "op_mpRst (snd (fold (item_read o1) is s)) = (if I_MpRst \<in> set is then op_mpRst o1 else op_mpRst (snd s))"
  by (induction "is" arbitrary: s; (simp; fail)?; rename_tac i "is" s; case_tac i; case_tac s; simp)+

text \<open>What a reader that starts with the options \<open>o2\<close> ends up with: the options written, up to the port of an added address.\<close>

definition tcp_merge :: "TcpOptionMask \<Rightarrow> TcpOptions \<Rightarrow> TcpOptions \<Rightarrow> TcpOptions" where
  "tcp_merge m o1 o2 =
     \<lparr>op_mss = (if om_MSS m then op_mss o1 else op_mss o2), op_ws = (if om_WS m then op_ws o1 else op_ws o2),
      op_sack = (if om_SAck m then op_sack o1 else op_sack o2), op_ts = (if om_TS m then op_ts o1 else op_ts o2),
      op_mpCap = (if om_MpCapable m then op_mpCap o1 else op_mpCap o2),
      op_mpJoin = (if om_MpJoin m then op_mpJoin o1 else op_mpJoin o2),
      op_mpDss = (if om_MpDss m then op_mpDss o1 else op_mpDss o2),
      op_mpAdd = (if om_MpAddAddr m then add_addr_read (op_mpAdd o1) else op_mpAdd o2),
      op_mpRem = (if om_MpRemAddr m then op_mpRem o1 else op_mpRem o2),
      op_mpPrio = (if om_MpPrio m then op_mpPrio o1 else op_mpPrio o2),
      op_mpFail = (if om_MpFail m then op_mpFail o1 else op_mpFail o2),
      op_mpClose = (if om_MpClose m then op_mpClose o1 else op_mpClose o2),
      op_mpRst = (if om_MpRst m then op_mpRst o1 else op_mpRst o2)\<rparr>"

lemma tcp_items_members:
  "I_MSS \<in> set (tcp_items m o1) \<longleftrightarrow> om_MSS m" "I_WS \<in> set (tcp_items m o1) \<longleftrightarrow> om_WS m"
  "I_SAckPerm \<in> set (tcp_items m o1) \<longleftrightarrow> om_SAckPerm m" "I_SAck \<in> set (tcp_items m o1) \<longleftrightarrow> om_SAck m"
  "I_TS \<in> set (tcp_items m o1) \<longleftrightarrow> om_TS m" "I_MpCapable \<in> set (tcp_items m o1) \<longleftrightarrow> om_MpCapable m"
  "I_MpJoin \<in> set (tcp_items m o1) \<longleftrightarrow> om_MpJoin m" "I_MpDss \<in> set (tcp_items m o1) \<longleftrightarrow> om_MpDss m"
  "I_MpAddAddr \<in> set (tcp_items m o1) \<longleftrightarrow> om_MpAddAddr m" "I_MpRemAddr \<in> set (tcp_items m o1) \<longleftrightarrow> om_MpRemAddr m"
  "I_MpPrio \<in> set (tcp_items m o1) \<longleftrightarrow> om_MpPrio m" "I_MpFail \<in> set (tcp_items m o1) \<longleftrightarrow> om_MpFail m"
  "I_MpClose \<in> set (tcp_items m o1) \<longleftrightarrow> om_MpClose m" "I_MpRst \<in> set (tcp_items m o1) \<longleftrightarrow> om_MpRst m"
  by (simp_all add: tcp_items_def Let_def)

fun item_in :: "TcpOptionMask \<Rightarrow> tcp_item \<Rightarrow> bool" where
  "item_in m I_NoOp = False"
| "item_in m I_MSS = om_MSS m"
| "item_in m I_WS = om_WS m"
| "item_in m I_SAckPerm = om_SAckPerm m"
| "item_in m I_SAck = om_SAck m"
| "item_in m I_TS = om_TS m"
| "item_in m I_MpCapable = om_MpCapable m"
| "item_in m I_MpJoin = om_MpJoin m"
| "item_in m I_MpDss = om_MpDss m"
| "item_in m I_MpAddAddr = om_MpAddAddr m"
| "item_in m I_MpRemAddr = om_MpRemAddr m"
| "item_in m I_MpPrio = om_MpPrio m"
| "item_in m I_MpFail = om_MpFail m"
| "item_in m I_MpClose = om_MpClose m"
| "item_in m I_MpRst = om_MpRst m"

lemma filter_if: "filter P (if c then xs else ys) = (if c then filter P xs else filter P ys)"
  by simp

lemma filter_step: "filter P (x # xs) = (if P x then [x] else []) @ filter P xs"
  by simp

lemma tcp_items_distinct: "distinct (filter (\<lambda>i. i \<noteq> I_NoOp) (tcp_items m o1))"
proof -
  have "filter (\<lambda>i. i \<noteq> I_NoOp) (tcp_items m o1)
      = filter (item_in m) [I_MSS, I_SAckPerm, I_SAck, I_TS, I_WS, I_MpCapable, I_MpJoin, I_MpDss, I_MpAddAddr, I_MpRemAddr,
          I_MpPrio, I_MpFail, I_MpClose, I_MpRst]"
    unfolding tcp_items_def Let_def filter_append filter_if filter_step filter.simps(1) item_in.simps
    by (simp only: tcp_item.distinct simp_thms if_True if_False append_Nil append_Nil2 if_cancel)
  also have "distinct \<dots>" by (rule distinct_filter) simp
  finally show ?thesis .
qed

lemma fold_tcp_items: "fold (item_read o1) (tcp_items m o1) (TcpOptionMask_none, o2) = (m, tcp_merge m o1 o2)"
  by (rule prod_eqI; rule TcpOptionMask.equality TcpOptions.equality;
      simp add: fold_items fold_item_options tcp_items_members TcpOptionMask_none_def tcp_merge_def)

text \<open>The bytes that are written, and those that \<open>measureOpts\<close> counts.\<close>

definition tcp_emitted :: "TcpOptionMask \<Rightarrow> TcpOptions \<Rightarrow> nat" where
  "tcp_emitted m o1 = sum_list (map (item_size o1) (tcp_items m o1)) + tcp_padding m o1"

lemma length_items_bits: "\<forall>i\<in>set is. valid_item o1 i \<Longrightarrow> length (items_bits o1 is) = 8 * sum_list (map (item_size o1) is)"
  by (induction "is") (simp_all add: item_bytes)

definition no_mptcp :: "TcpOptionMask \<Rightarrow> bool" where
  "no_mptcp m \<longleftrightarrow> \<not> om_MpCapable m \<and> \<not> om_MpJoin m \<and> \<not> om_MpDss m \<and> \<not> om_MpAddAddr m \<and> \<not> om_MpRemAddr m
     \<and> \<not> om_MpPrio m \<and> \<not> om_MpFail m \<and> \<not> om_MpClose m \<and> \<not> om_MpRst m"

end
