(* ===== verification/TcpSpec.thy ===== *)
theory TcpSpec
  imports TcpOptSpec
begin

text \<open>TCP headers: what is written is read back; the parser of options ends on every input.\<close>

definition TCP_bits :: "TCP \<Rightarrow> bool list" where
  "TCP_bits h = to_bits 16 (tcp_sport h) @ to_bits 16 (tcp_dport h) @ to_bits 32 (tcp_seq h) @ to_bits 32 (tcp_ack h)
     @ to_bits 4 (of_nat (TCP_size h div 4) :: u32) @ replicate 4 False @ to_bits 8 (tcp_flags h)
     @ to_bits 16 (tcp_window h) @ to_bits 16 (tcp_chksum h) @ to_bits 16 (tcp_urgptr h)
     @ items_bits (tcp_options h) (tcp_items (tcp_optMask h) (tcp_options h))
     @ replicate (8 * tcp_padding (tcp_optMask h) (tcp_options h)) False"

text \<open>
  The options present are within the widths and ranges of their fields. A header is well sized if besides \<open>size\<close> counts
  exactly the bytes that are written, and the data offset can hold them. The first is not always so (\<open>tcp_size_exact\<close>).
\<close>

definition valid_options :: "TCP \<Rightarrow> bool" where
  "valid_options h \<longleftrightarrow> (\<forall>i\<in>set (tcp_items (tcp_optMask h) (tcp_options h)). valid_item (tcp_options h) i)"

definition valid_TCP :: "TCP \<Rightarrow> bool" where
  "valid_TCP h \<longleftrightarrow> valid_options h
     \<and> tcp_emitted (tcp_optMask h) (tcp_options h) = measureOpts (tcp_optMask h) (tcp_options h)
     \<and> measureOpts (tcp_optMask h) (tcp_options h) \<le> 40"

definition blank_options :: "TcpOptions \<Rightarrow> bool" where
  "blank_options o2 \<longleftrightarrow> blank_sack (op_sack o2) \<and> blank_mp_capable (op_mpCap o2) \<and> blank_dss (op_mpDss o2)
     \<and> add_mac (op_mpAdd o2) = 0 \<and> blank_rem_addr (op_mpRem o2)"

lemma blank_options_item: "blank_options o2 \<Longrightarrow> blank_item o2 i"
  by (cases i) (simp_all add: blank_options_def)

lemma measureOpts_4: "\<exists>n. measureOpts m o1 = 4 * n"
  unfolding measureOpts_def Let_def by blast

lemma TCP_size_4: "TCP_size h mod 4 = 0" "4 * (TCP_size h div 4) = TCP_size h" "20 \<le> TCP_size h"
  using measureOpts_4 [of "tcp_optMask h" "tcp_options h"] by (auto simp: TCP_size_def)

abbreviation TCP_written :: "TCP \<Rightarrow> nat" where
  "TCP_written h \<equiv> 20 + tcp_emitted (tcp_optMask h) (tcp_options h)"

lemma length_TCP_bits_any: "valid_options h \<Longrightarrow> length (TCP_bits h) = 8 * TCP_written h"
  by (simp add: TCP_bits_def valid_options_def length_items_bits tcp_emitted_def)

lemma length_TCP_bits: "valid_TCP h \<Longrightarrow> length (TCP_bits h) = 8 * TCP_size h"
  by (simp add: length_TCP_bits_any valid_TCP_def TCP_size_def)

definition options_bits :: "TCP \<Rightarrow> bool list" where
  "options_bits h = items_bits (tcp_options h) (tcp_items (tcp_optMask h) (tcp_options h))
     @ replicate (8 * tcp_padding (tcp_optMask h) (tcp_options h)) False"

lemma TCP_writes_any:
  assumes "valid_options h"
  shows "writesB 0 (TCP_serialize h) (TCP_bits h) h"
proof -
  have o: "writesB k (emitOpts (tcp_optMask h) (tcp_options h)) (options_bits h) ()" if "k mod 8 = 0" for k
    using emitOpts_writes [of "tcp_optMask h" "tcp_options h"] assms that
    by (intro writesB_align [OF writesA_unit]) (simp_all add: valid_options_def options_bits_def)
  show ?thesis
    unfolding TCP_serialize_def TCP_bits_def options_bits_def [symmetric]
    by (rule writesB_if_reading writes_steps o TCP.equality | simp only: prod.case | (simp; fail))+
qed

lemma TCP_writes: "valid_TCP h \<Longrightarrow> writesB 0 (TCP_serialize h) (TCP_bits h) h"
  by (rule TCP_writes_any) (simp add: valid_TCP_def)

lemma TCP_written_size: "valid_TCP h \<Longrightarrow> TCP_written h = TCP_size h" "valid_TCP h \<Longrightarrow> valid_options h"
  by (simp_all add: valid_TCP_def TCP_size_def)

lemma options_bits_length:
  assumes "valid_TCP h"
  shows "length (options_bits h) = 8 * (TCP_size h - 20)"
  using assms by (simp add: options_bits_def valid_TCP_def valid_options_def length_items_bits tcp_emitted_def TCP_size_def)

lemma TCP_parse_options_bytes:
  assumes "valid_TCP h" "blank_options o2" "bits_of ds = options_bits h"
  shows "TCP_parse_options ds (TcpOptionMask_none, o2)
     = ser_return (tcp_optMask h, tcp_merge (tcp_optMask h) (tcp_options h) o2)"
proof -
  have "parseOpts ((TcpOptionMask_none, o2), ReadStream (stream_init ds))
      = Some (Inr (fold (item_read (tcp_options h)) (tcp_items (tcp_optMask h) (tcp_options h)) (TcpOptionMask_none, o2)))"
    by (rule parseOpts_items [OF _ tcp_items_distinct])
      (use assms blank_options_item in \<open>auto simp: valid_TCP_def valid_options_def options_bits_def\<close>)
  then show ?thesis by (simp add: TCP_parse_options_def fold_tcp_items)
qed

lemma tcp_options_reads:
  assumes v: "valid_TCP h" and b: "blank_options o2" and k: "k mod 8 = 0"
    and n: "n = TCP_size h - 20" "m5 \<longleftrightarrow> TCP_size h = 20"
  shows "readsB k (if m5 then ser_return (TcpOptionMask_none, o2)
          else ser_bind (lookahead n) (\<lambda>opts.
               ser_bind (TCP_parse_options opts (TcpOptionMask_none, o2)) (\<lambda>s.
               ser_bind (advanceBytes (length opts)) (\<lambda>_. ser_return s))))
      (options_bits h) (tcp_optMask h, tcp_merge (tcp_optMask h) (tcp_options h) o2)"
proof -
  have "length (options_bits h) mod 8 = 0" unfolding options_bits_length [OF v] by simp
  then obtain ds where ds: "bits_of ds = options_bits h" by (rule bits_of_surj [THEN exE])
  have len: "length ds = TCP_size h - 20"
    using options_bits_length [OF v] length_bits_of [of ds] unfolding ds by simp
  note parse = TCP_parse_options_bytes [OF v b ds]
  show ?thesis
  proof (cases "TCP_size h = 20")
    case True
    have "ds = []" using len True by simp
    have e: "(TcpOptionMask_none, o2) = (tcp_optMask h, tcp_merge (tcp_optMask h) (tcp_options h) o2)"
      using parse [unfolded \<open>ds = []\<close>]
      by (simp add: TCP_parse_options_def parseOpts.simps stream_more_def stream_init_def ser_return_def fun_eq_iff) metis
    have "readsB k (ser_return (TcpOptionMask_none, o2)) [] (tcp_optMask h, tcp_merge (tcp_optMask h) (tcp_options h) o2)"
      unfolding e by (rule readsB_return)
    moreover have "options_bits h = []" using ds \<open>ds = []\<close> by simp
    ultimately show ?thesis using True n(2) by simp
  next
    case False
    have r: "readsB k (ser_bind (ser_return (tcp_optMask h, tcp_merge (tcp_optMask h) (tcp_options h) o2)) (\<lambda>s.
               ser_bind (advanceBytes (length ds)) (\<lambda>_. ser_return s))) (options_bits h)
         (tcp_optMask h, tcp_merge (tcp_optMask h) (tcp_options h) o2)"
      unfolding ser_bind_return by (rule readsB_map [OF readsB_advanceBytes [OF k]]) (simp_all add: ds [symmetric])
    have "readsB k (ser_bind (lookahead n) (\<lambda>opts.
               ser_bind (TCP_parse_options opts (TcpOptionMask_none, o2)) (\<lambda>s.
               ser_bind (advanceBytes (length opts)) (\<lambda>_. ser_return s)))) (options_bits h)
      (tcp_optMask h, tcp_merge (tcp_optMask h) (tcp_options h) o2)"
    proof (rule readsB_lookahead [OF k, where ds = ds and bs' = "[]"])
      show "n \<noteq> npos" using v n(1) by (simp add: valid_TCP_def TCP_size_def npos_def)
    qed (use r in \<open>simp_all add: ds len n(1) parse\<close>)
    then show ?thesis using False n(2) by simp
  qed
qed

lemma TCP_reads:
  assumes v: "valid_TCP h" and b: "blank_options (tcp_options h0)"
  shows "readsB 0 (TCP_serialize h0) (TCP_bits h)
     (h\<lparr>tcp_options := tcp_merge (tcp_optMask h) (tcp_options h) (tcp_options h0)\<rparr>)"
proof -
  define q where "q = TCP_size h div 4"
  have q: "TCP_size h = 4 * q" "5 \<le> q" "q \<le> 15"
    using TCP_size_4 [of h] v by (auto simp: q_def valid_TCP_def TCP_size_def)
  let ?d = "of_nat q :: u32"
  have d: "unat ?d = q" using q by (simp add: unsigned_of_nat take_bit_nat_eq_self)
  have "?d - 5 = of_nat (q - 5)" using q by (simp add: of_nat_diff)
  then have d4: "4 * (?d - 5) = of_nat (4 * (q - 5))" by simp
  have "unat (of_nat (4 * (q - 5)) :: u32) = 4 * (q - 5)"
    using q by (simp only: unsigned_of_nat) (simp add: take_bit_nat_eq_self)
  then have n: "unat (4 * (?d - 5)) = TCP_size h - 20" unfolding d4 using q by simp
  have fit: "fits 4 ?d" by (rule fits_of_nat) (use q in simp)
  have five: "\<not> ?d < 5" "?d = 5 \<longleftrightarrow> TCP_size h = 20"
    using q d by (simp_all add: word_less_nat_alt word_unat_eq_iff)
  show ?thesis
    unfolding TCP_serialize_def TCP_bits_def q_def [symmetric] Let_def options_bits_def [symmetric]
    by (rule readsB_if_reading reads_steps tcp_options_reads [OF v b _ n five(2)] TCP.equality fit five(1)
        | simp only: prod.case | (simp; fail))+
qed

section \<open>The size of the options\<close>

text \<open>
  The padding at the end counts the options of the base protocol only, \<open>size\<close> all options: they agree exactly if the
  multipath options add up to whole words.
\<close>

lemma sum_item_if: "sum_list (map f (if c then is else js)) = (if c then sum_list (map f is) else sum_list (map f js))"
  by simp

lemmas tcp_std_lengths = TcpMssOpt_length_def TcpSAckPermOpt_length_def TcpTsOpt_length_def TcpWsOpt_length_def

lemma std_items_size:
  assumes "no_mptcp m"
  shows "sum_list (map (item_size o1) (tcp_items m o1)) = tcp_std_length m o1"
proof -
  have mp: "\<not> om_MpCapable m" "\<not> om_MpJoin m" "\<not> om_MpDss m" "\<not> om_MpAddAddr m" "\<not> om_MpRemAddr m" "\<not> om_MpPrio m"
      "\<not> om_MpFail m" "\<not> om_MpClose m" "\<not> om_MpRst m"
    using assms by (simp_all add: no_mptcp_def)
  show ?thesis
    unfolding tcp_items_def tcp_std_length_def tcp_std_lengths
    by (cases "om_MSS m"; cases "om_SAckPerm m"; cases "om_SAck m"; cases "om_TS m"; cases "om_WS m";
        simp only: if_True if_False Let_def mp append_Nil2 append_Nil; simp)
qed

lemma std_measure: "no_mptcp m \<Longrightarrow> measureOpts m o1 = 4 * ((tcp_std_length m o1 + 3) div 4)"
  unfolding measureOpts_def no_mptcp_def Let_def by (simp only: simp_thms if_False)

lemma even_std_length: "even (tcp_std_length m o1)"
  unfolding tcp_std_length_def tcp_std_lengths TcpSAckOpt_size_def
  by (cases "om_MSS m"; cases "om_SAckPerm m"; cases "om_SAck m"; cases "om_TS m"; cases "om_WS m";
      simp only: if_True if_False Let_def; simp)

lemma round_up_4: "(2 * q :: nat) + (if odd (2 * q div 2) then 4 - 2 * q mod 4 else 0) = 4 * ((2 * q + 3) div 4)"
proof (cases "even q")
  case False
  then obtain b where q: "q = 2 * b + 1" by (rule oddE)
  have "2 * (2 * b + 1) mod 4 = (2 :: nat)" by presburger
  then show ?thesis unfolding q by simp
qed (auto elim!: evenE)

lemma std_emitted:
  assumes "no_mptcp m"
  shows "tcp_emitted m o1 = measureOpts m o1"
proof -
  obtain q where q: "tcp_std_length m o1 = 2 * q" using even_std_length by (rule evenE)
  show ?thesis
    unfolding tcp_emitted_def tcp_padding_def std_items_size [OF assms] std_measure [OF assms] Let_def q
    by (rule round_up_4)
qed

definition tcp_mp_length :: "TcpOptionMask \<Rightarrow> TcpOptions \<Rightarrow> nat" where
  "tcp_mp_length m o1 =
     (if om_MpCapable m then TcpMpCapableOpt_size (op_mpCap o1) else 0)
     + (if om_MpJoin m then TcpMpJoinOpt_size (op_mpJoin o1) else 0)
     + (if om_MpDss m then TcpMpDssOpt_size (op_mpDss o1) else 0)
     + (if om_MpAddAddr m then TcpMpAddAddrOpt_size (op_mpAdd o1) else 0)
     + (if om_MpRemAddr m then 2 * ((TcpMpRemAddrOpt_size (op_mpRem o1) + 1) div 2) else 0)
     + (if om_MpPrio m then 4 else 0) + (if om_MpFail m then 12 else 0)
     + (if om_MpClose m then 12 else 0) + (if om_MpRst m then 4 else 0)"

lemma measure_mp: "measureOpts m o1 = 4 * ((tcp_std_length m o1 + tcp_mp_length m o1 + 3) div 4)"
  unfolding measureOpts_def tcp_mp_length_def Let_def TcpMpPrioOpt_length_def TcpMpLong_length_def TcpMpRstOpt_length_def
  by (rule arg_cong [where f = "\<lambda>n. 4 * ((n + 3) div 4)"]) simp

definition std_mask :: "TcpOptionMask \<Rightarrow> TcpOptionMask" where
  "std_mask m = m\<lparr>om_MpCapable := False, om_MpJoin := False, om_MpDss := False, om_MpAddAddr := False,
     om_MpRemAddr := False, om_MpPrio := False, om_MpFail := False, om_MpClose := False, om_MpRst := False\<rparr>"

definition mp_items :: "TcpOptionMask \<Rightarrow> TcpOptions \<Rightarrow> tcp_item list" where
  "mp_items m o1 =
     (if om_MpCapable m then [I_MpCapable] else [])
     @ (if om_MpJoin m then [I_MpJoin] else [])
     @ (if om_MpDss m then [I_MpDss] else [])
     @ (if om_MpAddAddr m then [I_MpAddAddr] else [])
     @ (if om_MpRemAddr m then (if odd (TcpMpRemAddrOpt_size (op_mpRem o1)) then [I_NoOp] else []) @ [I_MpRemAddr] else [])
     @ (if om_MpPrio m then [I_NoOp, I_MpPrio] else [])
     @ (if om_MpFail m then [I_MpFail] else [])
     @ (if om_MpClose m then [I_MpClose] else [])
     @ (if om_MpRst m then [I_MpRst] else [])"

lemma std_mask_simps [simp]: "no_mptcp (std_mask m)" "tcp_std_length (std_mask m) o1 = tcp_std_length m o1"
  by (simp_all add: no_mptcp_def std_mask_def tcp_std_length_def)

lemma std_mask_flags:
  "om_MSS (std_mask m) = om_MSS m" "om_SAckPerm (std_mask m) = om_SAckPerm m" "om_SAck (std_mask m) = om_SAck m"
  "om_TS (std_mask m) = om_TS m" "om_WS (std_mask m) = om_WS m" "om_MpCapable (std_mask m) = False"
  "om_MpJoin (std_mask m) = False" "om_MpDss (std_mask m) = False" "om_MpAddAddr (std_mask m) = False"
  "om_MpRemAddr (std_mask m) = False" "om_MpPrio (std_mask m) = False" "om_MpFail (std_mask m) = False"
  "om_MpClose (std_mask m) = False" "om_MpRst (std_mask m) = False"
  by (simp_all add: std_mask_def)

lemma tcp_items_split: "tcp_items m o1 = tcp_items (std_mask m) o1 @ mp_items m o1"
  unfolding tcp_items_def mp_items_def Let_def std_mask_flags if_False append_assoc append_Nil2 append_Nil ..

lemma mp_items_size: "sum_list (map (item_size o1) (mp_items m o1)) = tcp_mp_length m o1"
proof -
  have rem: "sum_list (map (item_size o1) ((if odd (TcpMpRemAddrOpt_size (op_mpRem o1)) then [I_NoOp] else []) @ [I_MpRemAddr])) =
      2 * ((TcpMpRemAddrOpt_size (op_mpRem o1) + 1) div 2)"
    by (cases "odd (TcpMpRemAddrOpt_size (op_mpRem o1))") (auto elim!: evenE oddE)
  show ?thesis
    unfolding mp_items_def tcp_mp_length_def
    by (simp only: map_append sum_list_append sum_item_if rem [unfolded map_append sum_list_append sum_item_if])
      simp
qed

lemma tcp_emitted_split:
  "tcp_emitted m o1 = 4 * ((tcp_std_length m o1 + 3) div 4) + tcp_mp_length m o1"
proof -
  have "tcp_padding m o1 = tcp_padding (std_mask m) o1" by (simp add: tcp_padding_def)
  then have "tcp_emitted m o1 = tcp_emitted (std_mask m) o1 + tcp_mp_length m o1"
    unfolding tcp_emitted_def tcp_items_split [of m o1] by (simp add: mp_items_size)
  then show ?thesis by (simp add: std_emitted std_measure)
qed

lemma tcp_size_exact: "tcp_emitted m o1 = measureOpts m o1 \<longleftrightarrow> 4 dvd tcp_mp_length m o1"
  unfolding tcp_emitted_split measure_mp by presburger

section \<open>The parser of options ends\<close>

text \<open>Every round takes at least one byte from the options.\<close>

definition whole_bytes_read :: "bool list \<Rightarrow> bool" where
  "whole_bytes_read bs \<longleftrightarrow> 8 \<le> length bs \<and> length bs mod 8 = 0"

lemma getsB_look: "(\<And>ds. getsB k (f ds) Q) \<Longrightarrow> getsB k (ser_bind (lookahead n) f) Q"
  unfolding getsB_def
  by (auto simp: ser_bind_def ReadStream_lookahead_def split: if_splits)

lemma getsB_verifySubtype: 
  assumes "\<And>v. length v = 4 \<Longrightarrow> getsB (k + 4) (f ()) (\<lambda>c bs. R c (v @ bs))"
  shows "getsB k (ser_bind (verifySubtype st) f) R"
  unfolding verifySubtype_def ser_bind_assoc
  by (intro gets_steps) (use assms in auto)

lemma getsB_verifyByte: 
  assumes "\<And>v. length v = 8 \<Longrightarrow> getsB (k + 8) (f ()) (\<lambda>c bs. R c (v @ bs))"
  shows "getsB k (ser_bind (verifyByte b1 msg) f) R"
  unfolding verifyByte_def ser_bind_assoc
  by (intro gets_steps) (use assms in auto)

lemma getsB_option:
  assumes "\<And>a. x = Some a \<Longrightarrow> getsB k (f a) R"
  shows "getsB k (ser_bind (case x of None \<Rightarrow> ser_error msg | Some a \<Rightarrow> ser_return a) f) R"
  using assms by (cases x) (auto simp: ser_bind_def ser_error_def ser_return_def getsB_def)

lemma getsB_bind_if_reading: "getsB k (ser_bind r f) R \<Longrightarrow> getsB k (ser_bind (if_reading r w) f) R"
  by (simp add: getsB_def ser_bind_def if_reading_def)

lemma getsB_ser_if:
  assumes "c \<Longrightarrow> getsB k (ser_bind m f) R" "\<not> c \<Longrightarrow> getsB k (f a) R"
  shows "getsB k (ser_bind (ser_if c m a) f) R"
  using assms by (simp add: ser_if_def ser_bind_return)

lemmas tcp_gets = getsB_verifyByte getsB_verifySubtype getsB_bind_if_reading getsB_option getsB_ser_if gets_steps

lemma mss_gets: "getsB 0 (TcpMssOpt_serialize o0) (\<lambda>_. whole_bytes_read)"
  unfolding TcpMssOpt_serialize_def whole_bytes_read_def by (intro tcp_gets) auto

lemma ws_gets: "getsB 0 (TcpWsOpt_serialize o0) (\<lambda>_. whole_bytes_read)"
  unfolding TcpWsOpt_serialize_def whole_bytes_read_def by (intro tcp_gets) auto

lemma ts_gets: "getsB 0 (TcpTsOpt_serialize o0) (\<lambda>_. whole_bytes_read)"
  unfolding TcpTsOpt_serialize_def whole_bytes_read_def by (intro tcp_gets) auto

lemma rst_gets: "getsB 0 (TcpMpRstOpt_serialize o0) (\<lambda>_. whole_bytes_read)"
  unfolding TcpMpRstOpt_serialize_def whole_bytes_read_def by (intro tcp_gets) auto

lemma prio_gets: "getsB 0 (TcpMpPrioOpt_serialize o0) (\<lambda>_. whole_bytes_read)"
  unfolding TcpMpPrioOpt_serialize_def whole_bytes_read_def by (intro tcp_gets) auto

lemma capable_gets: "getsB 0 (TcpMpCapableOpt_serialize o0) (\<lambda>_. whole_bytes_read)"
  unfolding TcpMpCapableOpt_serialize_def whole_bytes_read_def by (intro tcp_gets) auto

lemma getsB_seq:
  assumes "k mod 8 = 0"
    and "\<And>v bs. length bs = (if wide then 64 else 32) \<Longrightarrow>
      getsB (k + (if wide then 64 else 32)) (f v) (\<lambda>c bs'. R c (bs @ bs'))"
  shows "getsB k (ser_bind (seq_serialize wide n) f) R"
proof (cases wide)
  case True
  then show ?thesis unfolding seq_serialize_def if_P [OF True] using assms by (intro gets_steps) auto
next
  case False
  then show ?thesis
    unfolding seq_serialize_def if_not_P [OF False] ser_bind_assoc ser_bind_return using assms by (intro gets_steps) auto
qed

lemma dss_gets: "getsB 0 (TcpMpDssOpt_serialize o0) (\<lambda>_. whole_bytes_read)"
  unfolding TcpMpDssOpt_serialize_def whole_bytes_read_def Let_def
  by (intro tcp_gets getsB_seq getsB_if) (auto split: if_splits)

lemma whole_20: "(n :: nat) mod 8 = 4 \<Longrightarrow> (20 + n) mod 8 = 0"
  by presburger

lemma join_gets: "getsB 0 (TcpMpJoinOpt_serialize o0) (\<lambda>_. whole_bytes_read)"
proof -
  have "getsB 20 (mp_join_body c) (\<lambda>_ bs. length bs mod 8 = 4)" for c
    by (cases c; simp only: mp_join_body.simps; intro gets_steps; simp)
  then have body: "getsB 20 (mp_join_body c) (\<lambda>_ bs. 8 \<le> length (pre @ bs) \<and> length (pre @ bs) mod 8 = 0)"
    if "length pre = 20" for pre c
    by (rule getsB_mono) (simp only: length_append that whole_20, simp)
  show ?thesis
    unfolding TcpMpJoinOpt_serialize_def whole_bytes_read_def
  proof (intro tcp_gets)
    fix v vb :: "bool list" and va c
    assume "length v = 8" "length vb = 4"
    then show "getsB (0 + 8 + 8 + 4) (mp_join_body c) (\<lambda>_ bs. 8 \<le> length (v @ to_bits 8 va @ vb @ bs)
        \<and> length (v @ to_bits 8 va @ vb @ bs) mod 8 = 0)"
      using body [of "v @ to_bits 8 va @ vb" c] by simp
  qed
qed

lemma long_gets: "getsB 0 (mp_long_serialize st msg n) (\<lambda>_. whole_bytes_read)"
  unfolding mp_long_serialize_def whole_bytes_read_def
  by (intro tcp_gets getsB_mono [OF getsB_serializeUint64]) auto

lemma sack_edges_gets: "k mod 8 = 0 \<Longrightarrow> getsB k (sack_edges is lr) (\<lambda>_ bs. length bs mod 8 = 0)"
proof (induction "is" arbitrary: k lr)
  case (Cons i "is")
  have k: "(k + 32) mod 8 = 0" "(k + 32 + 32) mod 8 = 0" using Cons.prems by presburger+
  show ?case
    unfolding sack_edges.simps
  proof (rule getsB_step_u32 [OF Cons.prems], rule getsB_step_u32 [OF k(1)])
    fix l r
    have "getsB (k + 32 + 32) (sack_edges is ((fst lr)[i := l], (snd lr)[i := r])) (\<lambda>_ bs. length bs mod 8 = 0)"
      by (rule Cons.IH [OF k(2)])
    then show "getsB (k + 32 + 32) (sack_edges is ((fst lr)[i := l], (snd lr)[i := r]))
        (\<lambda>c bs. length (to_bits 32 l @ to_bits 32 r @ bs) mod 8 = 0)"
      by (rule getsB_mono) (simp add: mod_add_right_eq [symmetric])
  qed
qed (simp add: getsB_return)

lemma getsB_if_error:
  "(\<not> c \<Longrightarrow> getsB k (f a) R) \<Longrightarrow> getsB k (ser_bind (if c then ser_error msg else ser_return a) f) R"
  by (auto simp: ser_bind_return) (simp add: ser_bind_def ser_error_def getsB_def)

lemma getsB_bind_if:
  "(c \<Longrightarrow> getsB k (ser_bind m f) R) \<Longrightarrow> (\<not> c \<Longrightarrow> getsB k (ser_bind m' f) R) \<Longrightarrow>
     getsB k (ser_bind (if c then m else m') f) R"
  by simp

lemma sack_gets: "getsB 0 (TcpSAckOpt_serialize o0) (\<lambda>_. whole_bytes_read)"
  unfolding TcpSAckOpt_serialize_def whole_bytes_read_def
  by (intro tcp_gets; simp only: ser_bind_return; rule getsB_bind [OF sack_edges_gets])
    (auto intro!: getsB_return)

lemma rem_ids_gets: "getsB k (rem_ids is ids) (\<lambda>_ bs. length bs mod 8 = 0)"
proof (induction "is" arbitrary: k ids)
  case (Cons i "is")
  show ?case
    unfolding rem_ids.simps
  proof (rule getsB_step_byte)
    fix b
    show "getsB (k + 8) (rem_ids is (ids[i := b])) (\<lambda>c bs. length (to_bits 8 b @ bs) mod 8 = 0)"
      using Cons.IH by (rule getsB_mono) (simp add: mod_add_right_eq [symmetric])
  qed
qed (simp add: getsB_return)

lemma rem_gets: "getsB 0 (TcpMpRemAddrOpt_serialize o0) (\<lambda>_. whole_bytes_read)"
  unfolding TcpMpRemAddrOpt_serialize_def whole_bytes_read_def Let_def
  by (intro tcp_gets getsB_if_error; simp only: prod.case; rule getsB_bind [OF rem_ids_gets])
    (auto intro!: getsB_return)

lemma add_gets: "getsB 0 (TcpMpAddAddrOpt_serialize o0) (\<lambda>_. whole_bytes_read)"
  unfolding TcpMpAddAddrOpt_serialize_def whole_bytes_read_def Let_def
  by (rule tcp_gets getsB_bind_if getsB_step_host | simp only: ser_bind_assoc ser_bind_return prod.case
      | (auto simp: length_IPAddress_bits; fail))+

lemma unknown_gets: "getsB 0 (TcpUnknownOpt_serialize o0) (\<lambda>_. whole_bytes_read)"
  unfolding TcpUnknownOpt_serialize_def whole_bytes_read_def
  by (intro tcp_gets) auto

lemma sackperm_gets: "getsB 0 TcpSAckPermOpt_serialize (\<lambda>_. whole_bytes_read)"
proof -
  have v: "getsB k (verifyByte b1 msg) (\<lambda>_ bs. length bs = 8)" for k b1 msg
    unfolding verifyByte_def by (rule getsB_bind [OF getsB_serializeByte]) (rule getsB_mono [OF getsB_read_check], simp)
  show ?thesis
    unfolding TcpSAckPermOpt_serialize_def whole_bytes_read_def
    by (rule getsB_bind [OF v], rule getsB_mono [OF v]) simp
qed

lemma getsB_map_whole: "getsB 0 m (\<lambda>_. whole_bytes_read) \<Longrightarrow> getsB 0 (ser_bind m (\<lambda>x. ser_return (f x))) (\<lambda>_. whole_bytes_read)"
  by (rule getsB_bind, assumption) (simp add: getsB_return)

lemma noop_gets: "getsB 0 (ser_bind (advanceBytes 1) (\<lambda>_. ser_return a)) (\<lambda>_. whole_bytes_read)"
  unfolding whole_bytes_read_def by (intro gets_steps) auto

lemma fail_gets: "getsB 0 (TcpMpFailOpt_serialize o0) (\<lambda>_. whole_bytes_read)"
  unfolding TcpMpFailOpt_serialize_def by (rule getsB_map_whole [OF long_gets])

lemma close_gets: "getsB 0 (TcpMpCloseOpt_serialize o0) (\<lambda>_. whole_bytes_read)"
  unfolding TcpMpCloseOpt_serialize_def by (rule getsB_map_whole [OF long_gets])

lemmas tcp_item_gets = mss_gets ws_gets sackperm_gets sack_gets ts_gets capable_gets join_gets dss_gets add_gets rem_gets
  prio_gets fail_gets close_gets rst_gets unknown_gets

lemma parse_mptcp_gets: "getsB 0 (parse_mptcp st s) (\<lambda>_. whole_bytes_read)"
  unfolding parse_mptcp_def
  by (cases s; simp only: prod.case; intro getsB_if getsB_map_whole tcp_item_gets getsB_error)

lemma parse_opt_gets: "getsB 0 (parse_opt s) (\<lambda>_. whole_bytes_read)"
  unfolding parse_opt_def Let_def
  by (cases s; simp only: prod.case; intro getsB_look getsB_if noop_gets getsB_map_whole parse_mptcp_gets tcp_item_gets)

lemma whole_progress: "whole_bytes_read bs \<Longrightarrow> 0 < length bs \<and> length bs mod 8 = 0"
  unfolding whole_bytes_read_def by linarith

lemma parseOpts_ends:
  "wf_buf b \<Longrightarrow> bit_pos b mod 8 = 0 \<Longrightarrow> \<exists>r. parseOpts (s, ReadStream b) = Some r"
proof (induction "bits_room b" arbitrary: s b rule: less_induct)
  case less
  show ?case
  proof (cases "parse_opt s (ReadStream b)")
    case (Pair r st)
    show ?thesis
    proof (cases "\<exists>s'. r = Inr (s', False)")
      case True
      then obtain s' where r: "parse_opt s (ReadStream b) = (Inr (s', False), st)" using Pair by blast
      have "\<exists>b'. st = ReadStream b' \<and> wf_buf b' \<and> bit_pos b' mod 8 = 0 \<and> bits_room b' < bits_room b"
        by (rule getsB_progress [OF parse_opt_gets _ less.prems r]) (rule whole_progress)
      then obtain b' where b': "st = ReadStream b'" "wf_buf b'" "bit_pos b' mod 8 = 0" "bits_room b' < bits_room b"
        by (elim exE conjE)
      obtain r' where "parseOpts (s', ReadStream b') = Some r'" using less.hyps [OF b'(4,2,3)] by blast
      then show ?thesis using r b'(1) by (subst parseOpts.simps) simp
    qed (use Pair in \<open>subst parseOpts.simps; simp split: sum.split prod.split bool.split\<close>)
  qed
qed

section \<open>Properties\<close>

lemma TCP_write_any:
  assumes "valid_options h" "TCP_written h \<le> length buf"
  shows "\<exists>b. TCP_serialize h (WriteStream (stream_init buf)) = (Inr h, WriteStream b) \<and>
    getPos b = (TCP_written h, 0) \<and> bits_of (take (TCP_written h) (bufdata b)) = TCP_bits h \<and>
    drop (TCP_written h) (bufdata b) = drop (TCP_written h) buf"
  using writesB_buffer [OF TCP_writes_any [OF assms(1)], of buf] length_TCP_bits_any [OF assms(1)] assms(2) by auto

lemma TCP_write_read:
  assumes "valid_TCP h" "blank_options (tcp_options h0)" "TCP_size h \<le> length buf"
  shows "\<exists>b st. TCP_serialize h (WriteStream (stream_init buf)) = (Inr h, WriteStream b) \<and>
    getPos b = (TCP_size h, 0) \<and> drop (TCP_size h) (bufdata b) = drop (TCP_size h) buf \<and>
    TCP_serialize h0 (ReadStream (stream_init (bufdata b)))
      = (Inr (h\<lparr>tcp_options := tcp_merge (tcp_optMask h) (tcp_options h) (tcp_options h0)\<rparr>), st)"
proof -
  note v = TCP_written_size [OF assms(1)]
  obtain b where b: "TCP_serialize h (WriteStream (stream_init buf)) = (Inr h, WriteStream b)"
      "getPos b = (TCP_size h, 0)" "bits_of (take (TCP_size h) (bufdata b)) = TCP_bits h"
      "drop (TCP_size h) (bufdata b) = drop (TCP_size h) buf"
    using TCP_write_any [OF v(2), of buf] assms(3) unfolding v(1) by blast
  have "bits_of (bufdata b) = TCP_bits h @ bits_of (drop (TCP_size h) (bufdata b))"
    by (metis append_take_drop_id b(3) bits_of_append)
  from readsB_bytes [OF TCP_reads [OF assms(1,2)] this] b show ?thesis by blast
qed

lemma TCP_write_full:
  assumes v: "valid_options h" and blank: "blank_options (tcp_options h0)" and len: "TCP_written h \<le> length buf"
  shows "\<exists>b. TCP_serialize h (WriteStream (stream_init buf)) = (Inr h, WriteStream b) \<and>
    getPos b = (TCP_written h, 0) \<and> drop (TCP_written h) (bufdata b) = drop (TCP_written h) buf \<and>
    (TCP_size h = TCP_written h \<and> TCP_size h \<le> 60 \<longrightarrow>
      (\<exists>st. TCP_serialize h0 (ReadStream (stream_init (bufdata b)))
        = (Inr (h\<lparr>tcp_options := tcp_merge (tcp_optMask h) (tcp_options h) (tcp_options h0)\<rparr>), st)))"
proof (cases "TCP_size h = TCP_written h \<and> TCP_size h \<le> 60")
  case True
  then have "valid_TCP h" "TCP_size h \<le> length buf" using v len by (auto simp: valid_TCP_def TCP_size_def)
  from TCP_write_read [OF this(1) blank this(2)] True show ?thesis by auto
next
  case False
  then show ?thesis using TCP_write_any [OF v len] by blast
qed

text \<open>C25: A TCP header with options within their fields is written with one fixed number of bytes, the options of the base
  protocol padded to whole words and the multipath options as they are. \<open>size\<close> gives this number exactly if the multipath
  options add up to whole words; otherwise \<open>size\<close> and the data offset are wrong. If \<open>size\<close> is right and the options
  fit the data offset, the header is read back, except that the port of an added address is read from in front of
  the address: the reader gets the first two bytes of the address for the port (\<open>add_addr_read\<close>, an option without port
  is read back as it is).\<close>

theorem tcp_roundtrip:
  assumes "valid_options h" "blank_options (tcp_options h0)" "TCP_written h \<le> length buf"
  shows "(\<exists>b. TCP_serialize h (WriteStream (stream_init buf)) = (Inr h, WriteStream b) \<and>
      getPos b = (TCP_written h, 0) \<and> drop (TCP_written h) (bufdata b) = drop (TCP_written h) buf \<and>
      (TCP_size h = TCP_written h \<and> TCP_size h \<le> 60 \<longrightarrow>
        (\<exists>st. TCP_serialize h0 (ReadStream (stream_init (bufdata b)))
          = (Inr (h\<lparr>tcp_options := tcp_merge (tcp_optMask h) (tcp_options h) (tcp_options h0)\<rparr>), st)))) \<and>
    (TCP_size h = TCP_written h \<longleftrightarrow> 4 dvd tcp_mp_length (tcp_optMask h) (tcp_options h))"
proof (rule conjI)
  show "TCP_size h = TCP_written h \<longleftrightarrow> 4 dvd tcp_mp_length (tcp_optMask h) (tcp_options h)"
    using tcp_size_exact [of "tcp_optMask h" "tcp_options h"] by (auto simp: TCP_size_def)
qed (rule TCP_write_full [OF assms])

definition tcp_no_options :: TcpOptions where
  "tcp_no_options =
     \<lparr>op_mss = \<lparr>mss_mss = 0\<rparr>, op_ws = \<lparr>ws_wndShift = 0\<rparr>,
      op_sack = \<lparr>sack_blocks = 0, sack_left = [0, 0, 0], sack_right = [0, 0, 0]\<rparr>,
      op_ts = \<lparr>ts_val = 0, ts_ecr = 0\<rparr>,
      op_mpCap = \<lparr>mc_fieldMask = \<lparr>mcm_senderKey = False, mcm_receiverKey = False, mcm_dataLevelLen = False, mcm_chksum = False\<rparr>,
        mc_version = 0, mc_flags = 0, mc_senderKey = 0, mc_receiverKey = 0, mc_dataLevelLen = 0, mc_chksum = 0\<rparr>,
      op_mpJoin = MpJoinSyn 0 0 0 0,
      op_mpDss = \<lparr>dss_flags = 0, dss_dataAck = 0, dss_dsn = 0, dss_subflowSeq = 0, dss_dataLevelLen = 0, dss_chksum = None\<rparr>,
      op_mpAdd = \<lparr>add_flags = 0, add_addressId = 0, add_address = UnspecifiedIPv4, add_port = None, add_mac = 0\<rparr>,
      op_mpRem = \<lparr>rem_addressIds = [0, 0, 0, 0, 0, 0, 0, 0], rem_count = 1\<rparr>,
      op_mpPrio = \<lparr>prio_backup = False\<rparr>, op_mpFail = \<lparr>fail_dsn = 0\<rparr>, op_mpClose = \<lparr>close_receiverKey = 0\<rparr>,
      op_mpRst = \<lparr>rst_flags = 0, rst_reason = 0\<rparr>\<rparr>"

text \<open>A segment that opens a connection, with all options of the base protocol and a multipath capability.\<close>

definition tcp_example :: TCP where
  "tcp_example = \<lparr>tcp_flags = 2, tcp_sport = 40000, tcp_dport = 443, tcp_window = 64240, tcp_urgptr = 0, tcp_seq = 7,
     tcp_ack = 0, tcp_chksum = 0x1234,
     tcp_optMask = TcpOptionMask_none\<lparr>om_MSS := True, om_SAckPerm := True, om_TS := True, om_WS := True, om_MpCapable := True\<rparr>,
     tcp_options = tcp_no_options
       \<lparr>op_mss := \<lparr>mss_mss = 1460\<rparr>, op_ws := \<lparr>ws_wndShift = 7\<rparr>, op_ts := \<lparr>ts_val = 5, ts_ecr = 6\<rparr>,
        op_mpCap := \<lparr>mc_fieldMask = \<lparr>mcm_senderKey = True, mcm_receiverKey = False, mcm_dataLevelLen = False, mcm_chksum = False\<rparr>,
          mc_version = 1, mc_flags = 1, mc_senderKey = 9, mc_receiverKey = 0, mc_dataLevelLen = 0, mc_chksum = 0\<rparr>\<rparr>\<rparr>"

lemma tcp_example_facts:
  "valid_options tcp_example" "blank_options tcp_no_options" "TCP_size tcp_example = 52" "TCP_written tcp_example = 52"
  by code_simp+

theorem tcp_roundtrip_witness:
  "\<exists>b st. TCP_serialize tcp_example (WriteStream (stream_init (replicate 60 0))) = (Inr tcp_example, WriteStream b) \<and>
    getPos b = (52, 0) \<and> drop 52 (bufdata b) = replicate 8 0 \<and>
    TCP_serialize (tcp_example\<lparr>tcp_options := tcp_no_options\<rparr>) (ReadStream (stream_init (bufdata b)))
      = (Inr tcp_example, st)"
proof -
  have m: "tcp_merge (tcp_optMask tcp_example) (tcp_options tcp_example) tcp_no_options = tcp_options tcp_example"
    by code_simp
  show ?thesis
    using tcp_roundtrip [of tcp_example "tcp_example\<lparr>tcp_options := tcp_no_options\<rparr>" "replicate 60 0"]
    by (simp add: tcp_example_facts m)
qed

text \<open>C26: The loop that parses TCP options returns, with the options or an error, for every content of the option field.\<close>

theorem tcp_options_end: "\<exists>r. parseOpts (s, ReadStream (stream_init opts)) = Some r"
  by (rule parseOpts_ends) simp_all

text \<open>With a multipath option of 22 bytes and a base protocol option of two, the padding is two bytes that \<open>size\<close> does not
  count.\<close>

lemma tcp_padding_mismatch:
  "tcp_emitted (TcpOptionMask_none\<lparr>om_SAckPerm := True, om_MpCapable := True\<rparr>)
     (tcp_no_options\<lparr>op_mpCap := (op_mpCap tcp_no_options)\<lparr>mc_fieldMask :=
        \<lparr>mcm_senderKey = True, mcm_receiverKey = True, mcm_dataLevelLen = True, mcm_chksum = False\<rparr>\<rparr>\<rparr>) = 26 \<and>
   measureOpts (TcpOptionMask_none\<lparr>om_SAckPerm := True, om_MpCapable := True\<rparr>)
     (tcp_no_options\<lparr>op_mpCap := (op_mpCap tcp_no_options)\<lparr>mc_fieldMask :=
        \<lparr>mcm_senderKey = True, mcm_receiverKey = True, mcm_dataLevelLen = True, mcm_chksum = False\<rparr>\<rparr>\<rparr>) = 24"
  by code_simp

text \<open>The address 10.0.0.1 with port 443 is read back as 0.1.1.187 with port 2560.\<close>

lemma tcp_add_addr_port_moved:
  assumes "o1 = \<lparr>add_flags = 1, add_addressId = 3, add_address = MakeIPv4 0x0a000001, add_port = Some 443, add_mac = 0\<rparr>"
    and "add_mac o0 = 0"
  shows "writesB 0 (TcpMpAddAddrOpt_serialize o1) (TcpMpAddAddrOpt_bits o1) o1 \<and>
    readsB 0 (TcpMpAddAddrOpt_serialize o0) (TcpMpAddAddrOpt_bits o1)
      (o1\<lparr>add_address := MakeIPv4 0x000101bb, add_port := Some 2560\<rparr>)"
proof -
  have "valid_add_addr o1" unfolding assms(1) by code_simp
  moreover have "add_addr_read o1 = o1\<lparr>add_address := MakeIPv4 0x000101bb, add_port := Some 2560\<rparr>"
    unfolding assms(1) by code_simp
  ultimately show ?thesis using tcp_add_addr_writes [of o1] tcp_add_addr_reads [of o1 o0] assms(2) by simp
qed

end
