(* ===== verification/PacketBuffer.thy ===== *)
theory PacketBuffer
  imports Packager Tcp
begin

text \<open>
  The packet buffer of the IP translator (\<open>scitra/include/scitra/packet.hpp\<close>, \<open>scitra/src/packet.cpp\<close>): a raw
  packet in a buffer with room in front of it, the headers parsed from it, and which of them are valid. The
  operations parse the headers, replace them and quote a packet. \<open>print\<close> is left out. If reading a header
  fails, the object of that header keeps its value here, while in the code its fields may have been overwritten; it
  is not marked as valid in either.
\<close>

section \<open>The buffer\<close>

datatype IPValidity = IPNone | IPv4Valid | IPv6Valid

datatype L4Type = L4None | L4ICMP | L4SCMP | L4TCP | L4UDP

text \<open>The numbers of the enumerators.\<close>

fun L4Type_code :: "L4Type \<Rightarrow> byte" where
  "L4Type_code L4None = 0"
| "L4Type_code L4ICMP = IPProto_ICMPv6"
| "L4Type_code L4SCMP = ScionProto_SCMP"
| "L4Type_code L4TCP = IPProto_TCP"
| "L4Type_code L4UDP = IPProto_UDP"

record PacketBuffer =
  pb_ipValid :: IPValidity
  pb_outerUDPValid :: bool
  pb_stunValid :: bool
  pb_scionValid :: bool
  pb_l4Valid :: L4Type
  pb_ipv4 :: IPv4H
  pb_ipv6 :: IPv6H
  pb_outerUDP :: UDP
  pb_stun :: STUN
  pb_sci :: SCION
  pb_path :: RawPath
  pb_icmp :: ICMPH
  pb_scmp :: SCMPH
  pb_tcp :: TCP
  pb_udp :: UDP
  pb_buffer :: "byte list"
  pb_offset :: nat
  pb_size :: nat
  pb_endOfHeader :: nat

text \<open>The size is that of the constructor's argument, which has been moved from.\<close>

definition PacketBuffer_make :: "PacketBuffer \<Rightarrow> byte list \<Rightarrow> PacketBuffer" where
  "PacketBuffer_make blank buffer =
     blank\<lparr>pb_ipValid := IPNone, pb_outerUDPValid := False, pb_stunValid := False, pb_scionValid := False,
       pb_l4Valid := L4None, pb_buffer := buffer, pb_offset := 0, pb_size := 0, pb_endOfHeader := 0\<rparr>"

text \<open>The caller writes the packet to the view that is returned; \<open>fill\<close> places its bytes there.\<close>

definition clearAndGetBuffer :: "PacketBuffer \<Rightarrow> nat \<Rightarrow> byte list \<times> PacketBuffer" where
  "clearAndGetBuffer p headroom =
     (let headroom = min headroom (length (pb_buffer p));
          p = p\<lparr>pb_ipValid := IPNone, pb_outerUDPValid := False, pb_stunValid := False, pb_scionValid := False,
                 pb_l4Valid := L4None, pb_offset := headroom, pb_size := length (pb_buffer p) - headroom,
                 pb_endOfHeader := 0\<rparr>
      in (take (pb_size p) (drop (pb_offset p) (pb_buffer p)), p))"

definition pb_fill :: "PacketBuffer \<Rightarrow> byte list \<Rightarrow> PacketBuffer" where
  "pb_fill p bytes = p\<lparr>pb_buffer := overwrite (pb_buffer p) (pb_offset p) (take (pb_size p) bytes)\<rparr>"

definition l4Size :: "PacketBuffer \<Rightarrow> nat" where
  "l4Size p = (case pb_l4Valid p of L4ICMP \<Rightarrow> ICMP_size | L4SCMP \<Rightarrow> SCMP_size (pb_scmp p) | L4TCP \<Rightarrow> TCP_size (pb_tcp p)
     | L4UDP \<Rightarrow> UDP_size | L4None \<Rightarrow> 0)"

definition l4SPort :: "PacketBuffer \<Rightarrow> u16 \<Rightarrow> u16" where
  "l4SPort p dflt = (case pb_l4Valid p of L4TCP \<Rightarrow> tcp_sport (pb_tcp p) | L4UDP \<Rightarrow> udp_sport (pb_udp p) | _ \<Rightarrow> dflt)"

definition l4DPort :: "PacketBuffer \<Rightarrow> u16 \<Rightarrow> u16" where
  "l4DPort p dflt = (case pb_l4Valid p of L4TCP \<Rightarrow> tcp_dport (pb_tcp p) | L4UDP \<Rightarrow> udp_dport (pb_udp p) | _ \<Rightarrow> dflt)"

definition l4FlowLabel :: "PacketBuffer \<Rightarrow> u32" where
  "l4FlowLabel p = (case pb_l4Valid p of L4ICMP \<Rightarrow> ICMP_flowLabel (pb_icmp p) | L4SCMP \<Rightarrow> 0 | L4TCP \<Rightarrow> TCP_flowLabel (pb_tcp p)
     | L4UDP \<Rightarrow> UDP_flowLabel (pb_udp p) | L4None \<Rightarrow> 0)"

definition l4UpdateChecksum :: "PacketBuffer \<Rightarrow> u32 \<Rightarrow> u32 \<Rightarrow> PacketBuffer" where
  "l4UpdateChecksum p add sub =
     (case pb_l4Valid p of
        L4TCP \<Rightarrow> p\<lparr>pb_tcp := (pb_tcp p)\<lparr>tcp_chksum := updateInternetChecksum (tcp_chksum (pb_tcp p)) add sub\<rparr>\<rparr>
      | L4UDP \<Rightarrow> p\<lparr>pb_udp := (pb_udp p)\<lparr>udp_chksum := updateInternetChecksum (udp_chksum (pb_udp p)) add sub\<rparr>\<rparr>
      | _ \<Rightarrow> p)"

definition measureHeaders :: "PacketBuffer \<Rightarrow> bool \<Rightarrow> nat" where
  "measureHeaders p noUnderlay =
     (if \<not> noUnderlay
      then (case pb_ipValid p of IPv4Valid \<Rightarrow> IPv4_size | IPv6Valid \<Rightarrow> IPv6_size | IPNone \<Rightarrow> 0)
           + (if pb_outerUDPValid p then UDP_size else 0) else 0)
     + (if pb_scionValid p then SCION_size (pb_sci p) + rp_size (pb_path p) else 0)
     + l4Size p"

definition pb_payload :: "PacketBuffer \<Rightarrow> byte list" where
  "pb_payload p = take (pb_size p - (pb_endOfHeader p - pb_offset p)) (drop (pb_endOfHeader p) (pb_buffer p))"

definition removePayload :: "PacketBuffer \<Rightarrow> PacketBuffer" where
  "removePayload p = p\<lparr>pb_size := pb_endOfHeader p - pb_offset p\<rparr>"

definition pb_setPayload :: "PacketBuffer \<Rightarrow> byte list \<Rightarrow> error_code \<times> PacketBuffer" where
  "pb_setPayload p payload =
     (let available = length (pb_buffer p) - pb_endOfHeader p in
      if length payload > available then (BufferTooSmall, p)
      else (Ok, p\<lparr>pb_buffer := overwrite (pb_buffer p) (pb_endOfHeader p) payload,
                  pb_size := (pb_endOfHeader p - pb_offset p) + length payload\<rparr>))"

definition quoteRawHeaders :: "PacketBuffer \<Rightarrow> nat \<Rightarrow> nat \<times> PacketBuffer" where
  "quoteRawHeaders p maxSize =
     (let p = p\<lparr>pb_size := min (pb_size p) maxSize, pb_endOfHeader := pb_offset p\<rparr> in (pb_size p, p))"

section \<open>Parsing\<close>

text \<open>Steps that read from the stream and change the headers of the buffer.\<close>

type_synonym 'a pop = "PacketBuffer \<times> stream \<Rightarrow> (string + 'a) \<times> PacketBuffer \<times> stream"

definition pop_bind :: "'a pop \<Rightarrow> ('a \<Rightarrow> 'b pop) \<Rightarrow> 'b pop" where
  "pop_bind m f s = (case m s of (Inl e, s') \<Rightarrow> (Inl e, s') | (Inr a, s') \<Rightarrow> f a s')"

definition pop_return :: "'a \<Rightarrow> 'a pop" where
  "pop_return a s = (Inr a, s)"

definition pop_ser :: "(PacketBuffer \<Rightarrow> 'a ser) \<Rightarrow> 'a pop" where
  "pop_ser m = (\<lambda>(p, st). case m p st of (r, st') \<Rightarrow> (r, p, st'))"

definition pop_set :: "(PacketBuffer \<Rightarrow> PacketBuffer) \<Rightarrow> unit pop" where
  "pop_set f = (\<lambda>(p, st). (Inr (), f p, st))"

definition pop_header :: "(PacketBuffer \<Rightarrow> 'a ser) \<Rightarrow> ('a \<Rightarrow> PacketBuffer \<Rightarrow> PacketBuffer) \<Rightarrow> unit pop" where
  "pop_header m upd = pop_bind (pop_ser m) (\<lambda>h. pop_set (upd h))"

definition skip_opts :: "byte \<Rightarrow> (ExtOpts \<Rightarrow> ExtOpts ser) \<Rightarrow> byte \<Rightarrow> byte ser" where
  "skip_opts which m proto =
     (if proto = which
      then ser_bind (m \<lparr>eo_nh = 0, eo_extLen = 0\<rparr>) (\<lambda>h.
           ser_bind (advanceBytes (ExtOpts_optionSize h)) (\<lambda>_. ser_return (eo_nh h)))
      else ser_return proto)"

text \<open>
  The path has at most 984 bytes or the header is too small for its addresses and \<open>lookahead\<close> fails, so that
  \<open>RawPath::assign\<close> does not throw.
\<close>

definition parseScion :: "byte pop" where
  "parseScion =
     pop_bind (pop_header (\<lambda>p. SCION_serialize (pb_sci p)) (\<lambda>h p. p\<lparr>pb_sci := h\<rparr>)) (\<lambda>_.
     pop_bind (pop_ser (\<lambda>p. lookahead (unat (SCION_pathSize (pb_sci p))))) (\<lambda>pdata.
     pop_bind (pop_header
       (\<lambda>p. case RawPath_assign (pb_path p) (a_ia (sc_src (pb_sci p))) (a_ia (sc_dst (pb_sci p))) (sc_ptype (pb_sci p)) pdata of
              Inl _ \<Rightarrow> ser_error ''path too long'' | Inr rp \<Rightarrow> ser_return rp) (\<lambda>rp p. p\<lparr>pb_path := rp\<rparr>)) (\<lambda>_.
     pop_bind (pop_ser (\<lambda>p. advanceBytes (unat (SCION_pathSize (pb_sci p))))) (\<lambda>_.
     pop_bind (pop_ser (\<lambda>p. skip_opts ScionProto_HBHOpt HopByHopOpts_serialize (sc_nh (pb_sci p)))) (\<lambda>proto.
     pop_bind (pop_ser (\<lambda>_. skip_opts ScionProto_E2EOpt EndToEndOpts_serialize proto)) (\<lambda>proto.
     pop_bind (pop_set (\<lambda>p. p\<lparr>pb_scionValid := True\<rparr>)) (\<lambda>_.
     pop_return proto)))))))"

definition parseL4 :: "byte \<Rightarrow> unit pop" where
  "parseL4 proto =
     (if proto = ScionProto_SCMP
      then pop_header (\<lambda>p. SCMP_serialize (pb_scmp p)) (\<lambda>h p. p\<lparr>pb_scmp := h, pb_l4Valid := L4SCMP\<rparr>)
      else if proto = IPProto_ICMPv6
      then pop_header (\<lambda>p. ICMP_serialize (pb_icmp p)) (\<lambda>h p. p\<lparr>pb_icmp := h, pb_l4Valid := L4ICMP\<rparr>)
      else if proto = ScionProto_TCP
      then pop_header (\<lambda>p. TCP_serialize (pb_tcp p)) (\<lambda>h p. p\<lparr>pb_tcp := h, pb_l4Valid := L4TCP\<rparr>)
      else if proto = ScionProto_UDP
      then pop_header (\<lambda>p. UDP_serialize (pb_udp p)) (\<lambda>h p. p\<lparr>pb_udp := h, pb_l4Valid := L4UDP\<rparr>)
      else pop_ser (\<lambda>_. ser_error ''protocol not supported''))"

text \<open>The IP header, with its source address and protocol.\<close>

definition parseIp :: "(IPAddress \<times> byte) pop" where
  "parseIp =
     pop_bind (pop_ser (\<lambda>_. serializeBits (0 :: byte) 4)) (\<lambda>ipVer.
     if ipVer = 4 then
       pop_bind (pop_ser (\<lambda>_. ser_seek 0)) (\<lambda>_.
       pop_bind (pop_header (\<lambda>p. IPv4_serialize (pb_ipv4 p)) (\<lambda>h p. p\<lparr>pb_ipv4 := h, pb_ipValid := IPv4Valid\<rparr>)) (\<lambda>_.
       (\<lambda>(p, st). (Inr (ip4_src (pb_ipv4 p), ip4_proto (pb_ipv4 p)), p, st))))
     else if ipVer = 6 then
       pop_bind (pop_ser (\<lambda>_. ser_seek 0)) (\<lambda>_.
       pop_bind (pop_header (\<lambda>p. IPv6_serialize (pb_ipv6 p)) (\<lambda>h p. p\<lparr>pb_ipv6 := h, pb_ipValid := IPv6Valid\<rparr>)) (\<lambda>_.
       (\<lambda>(p, st). (Inr (ip6_src (pb_ipv6 p), ip6_nh (pb_ipv6 p)), p, st))))
     else pop_ser (\<lambda>_. ser_error ''invalid IP version''))"

text \<open>Whether the bytes that follow, if there are enough, look like a STUN message.\<close>

definition stun_follows :: "bool pop" where
  "stun_follows = (\<lambda>(p, st). case lookahead stunHeaderSize st of
     (Inl _, st') \<Rightarrow> (Inr False, p, st') | (Inr header, st') \<Rightarrow> (Inr (detectStun header), p, st'))"

definition parse_transport ::
    "bool \<Rightarrow> (IPEndpoint \<Rightarrow> IPEndpoint \<Rightarrow> bool) option \<Rightarrow> IPAddress \<Rightarrow> byte \<Rightarrow> unit pop" where
  "parse_transport noUnderlay is_scion srcIP ipProto =
     (if noUnderlay then pop_bind parseScion parseL4
      else if ipProto = IPProto_UDP then
        pop_bind (pop_header (\<lambda>p. UDP_serialize (pb_outerUDP p)) (\<lambda>h p. p\<lparr>pb_outerUDP := h\<rparr>)) (\<lambda>_.
        (\<lambda>(p, st).
          if (case is_scion of None \<Rightarrow> False
              | Some f \<Rightarrow> f \<lparr>m_host = srcIP, m_port = udp_sport (pb_outerUDP p)\<rparr> \<lparr>m_host = srcIP, m_port = udp_dport (pb_outerUDP p)\<rparr>)
          then pop_bind parseScion parseL4 (p\<lparr>pb_outerUDPValid := True\<rparr>, st)
          else (Inr (), p\<lparr>pb_udp := pb_outerUDP p, pb_outerUDPValid := False, pb_l4Valid := L4UDP\<rparr>, st)))
      else parseL4 ipProto)"

definition PacketBuffer_parse :: "bool \<Rightarrow> (IPEndpoint \<Rightarrow> IPEndpoint \<Rightarrow> bool) option \<Rightarrow> unit pop" where
  "PacketBuffer_parse noUnderlay is_scion =
     pop_bind (if noUnderlay then pop_return (UnspecifiedIPv6, 0) else parseIp) (\<lambda>(srcIP, ipProto).
     pop_bind stun_follows (\<lambda>is_stun.
     if is_stun then pop_header (\<lambda>p. STUN_serialize (pb_stun p)) (\<lambda>h p. p\<lparr>pb_stun := h, pb_stunValid := True\<rparr>)
     else parse_transport noUnderlay is_scion srcIP ipProto))"

definition parsePacket ::
    "PacketBuffer \<Rightarrow> nat \<Rightarrow> bool \<Rightarrow> (IPEndpoint \<Rightarrow> IPEndpoint \<Rightarrow> bool) option \<Rightarrow> error_code \<times> PacketBuffer" where
  "parsePacket p size1 noUnderlay is_scion =
     (let p = p\<lparr>pb_endOfHeader := pb_offset p, pb_size := min size1 (pb_size p)\<rparr>;
          rs = ReadStream (stream_init (take (pb_size p) (drop (pb_offset p) (pb_buffer p))))
      in case PacketBuffer_parse noUnderlay is_scion (p, rs) of
           (Inl _, p, rs) \<Rightarrow> (InvalidPacket, p)
         | (Inr _, p, rs) \<Rightarrow> (Ok, p\<lparr>pb_endOfHeader := pb_offset p + byteIter (stream_buf rs)\<rparr>))"

section \<open>Writing\<close>

definition ser_pos :: "nat ser" where
  "ser_pos st = (Inr (fst (getPos (stream_buf st))), st)"

text \<open>A step whose failure is ignored.\<close>

definition ser_ignore :: "'a ser \<Rightarrow> unit ser" where
  "ser_ignore m st = (Inr (), snd (m st))"

definition ser_unit :: "'a ser \<Rightarrow> unit ser" where
  "ser_unit m = ser_bind m (\<lambda>_. ser_return ())"

definition emitL4 :: "PacketBuffer \<Rightarrow> unit ser" where
  "emitL4 p = (case pb_l4Valid p of L4ICMP \<Rightarrow> ser_unit (ICMP_serialize (pb_icmp p)) | L4SCMP \<Rightarrow> ser_unit (SCMP_serialize (pb_scmp p))
     | L4TCP \<Rightarrow> ser_unit (TCP_serialize (pb_tcp p)) | L4UDP \<Rightarrow> ser_unit (UDP_serialize (pb_udp p)) | L4None \<Rightarrow> ser_return ())"

definition outer_checksum :: "PacketBuffer \<Rightarrow> byte list \<Rightarrow> u16" where
  "outer_checksum p data =
     (let hdrChksum = UDP_checksum (pb_outerUDP p)
        + (case pb_ipValid p of IPv4Valid \<Rightarrow> IPv4_checksum (pb_ipv4 p) (udp_len (pb_outerUDP p))
           | IPv6Valid \<Rightarrow> IPv6_checksum (pb_ipv6 p) (udp_len (pb_outerUDP p)) | IPNone \<Rightarrow> 0)
      in internetChecksum data (ucast (onesComplementChecksumScalar (pb_payload p) hdrChksum)))"

definition emitUnderlay :: "PacketBuffer \<Rightarrow> nat ser" where
  "emitUnderlay p =
     ser_bind (case pb_ipValid p of IPv4Valid \<Rightarrow> ser_unit (IPv4_serialize (pb_ipv4 p))
       | IPv6Valid \<Rightarrow> ser_unit (IPv6_serialize (pb_ipv6 p)) | IPNone \<Rightarrow> ser_return ()) (\<lambda>_.
     if pb_outerUDPValid p
     then ser_bind ser_pos (\<lambda>pos. ser_bind (UDP_serialize (pb_outerUDP p)) (\<lambda>_. ser_return pos))
     else ser_return 0)"

definition PacketBuffer_emit :: "PacketBuffer \<Rightarrow> bool \<Rightarrow> unit ser" where
  "PacketBuffer_emit p noUnderlay =
     ser_bind (if \<not> noUnderlay then emitUnderlay p else ser_return 0) (\<lambda>outerUdpPos.
     ser_bind (if pb_stunValid p then ser_unit (STUN_serialize (pb_stun p)) else ser_return ()) (\<lambda>_.
     ser_bind
       (if pb_scionValid p
        then ser_bind (SCION_serialize (pb_sci p)) (\<lambda>_. ser_unit (serializeBytes (RawPath_encoded (pb_path p))))
        else ser_return ()) (\<lambda>_.
     ser_bind (emitL4 p) (\<lambda>_.
     if \<not> noUnderlay \<and> pb_outerUDPValid p
     then ser_bind ser_pos (\<lambda>pos.
          let offset = pos - outerUdpPos - 8 in
          ser_bind (lookback offset) (\<lambda>data. ser_ignore (updateChksum (outer_checksum p data) offset)))
     else ser_return ()))))"

definition emitPacket :: "PacketBuffer \<Rightarrow> bool \<Rightarrow> byte list maybe \<times> PacketBuffer" where
  "emitPacket p noUnderlay =
     (let headroom = pb_endOfHeader p;
          hdrSize = measureHeaders p noUnderlay;
          payloadSize = pb_size p - (pb_endOfHeader p - pb_offset p);
          pktBegin = headroom - hdrSize
      in if headroom < hdrSize then (Inl BufferTooSmall, p)
         else case PacketBuffer_emit p noUnderlay (WriteStream (stream_init (take hdrSize (drop pktBegin (pb_buffer p))))) of
                (r, ws) \<Rightarrow>
                  let p = p\<lparr>pb_buffer := overwrite (pb_buffer p) pktBegin (bufdata (stream_buf ws))\<rparr>
                  in case r of
                       Inl _ \<Rightarrow> (Inl LogicError, p)
                     | Inr _ \<Rightarrow> let p = p\<lparr>pb_offset := pktBegin, pb_size := hdrSize + payloadSize\<rparr>
                                in (Inr (take (pb_size p) (drop (pb_offset p) (pb_buffer p))), p))"

end
