(* ===== verification/StreamBounds.thy ===== *)
theory StreamBounds
  imports PacketBuffer StunSpec TcpSpec
begin

text \<open>
  No serialisation leaves its buffer: whatever the header and the bytes, with and without an error, a stream keeps its
  kind, its position stays inside the buffer, reading does not change the bytes and writing does not change their
  number. The rules for the operations of the streams give this for every header of the packet buffer.
\<close>

fun stays :: "stream \<Rightarrow> stream \<Rightarrow> bool" where
  "stays (ReadStream b) (ReadStream b') \<longleftrightarrow> bufdata b' = bufdata b \<and> byteIter b' \<le> length (bufdata b)"
| "stays (WriteStream b) (WriteStream b') \<longleftrightarrow> length (bufdata b') = length (bufdata b) \<and> byteIter b' \<le> length (bufdata b)"
| "stays _ _ \<longleftrightarrow> False"

definition inside :: "'a ser \<Rightarrow> bool" where
  "inside m \<longleftrightarrow> (\<forall>st. byteIter (stream_buf st) \<le> length (bufdata (stream_buf st)) \<longrightarrow> stays st (snd (m st)))"

named_theorems inside_rules

lemma stays_refl: "byteIter (stream_buf st) \<le> length (bufdata (stream_buf st)) \<Longrightarrow> stays st st"
  by (cases st) auto

lemma stays_trans: "stays st st' \<Longrightarrow> stays st' st'' \<Longrightarrow> stays st st''"
  by (cases st; cases st'; cases st'') auto

lemma stays_bound: "stays st st' \<Longrightarrow> byteIter (stream_buf st') \<le> length (bufdata (stream_buf st'))"
  by (cases st; cases st') auto

lemma inside_return [inside_rules]: "inside (ser_return a)" "inside (ser_error msg)" "inside (read_check bad msg)"
  by (simp_all add: inside_def ser_return_def ser_error_def read_check_def stays_refl)

lemma inside_bind [inside_rules]:
  assumes "inside m" "\<And>a. inside (f a)"
  shows "inside (ser_bind m f)"
  unfolding inside_def
proof (intro allI impI)
  fix st :: stream
  assume st: "byteIter (stream_buf st) \<le> length (bufdata (stream_buf st))"
  obtain r st' where m: "m st = (r, st')" by (cases "m st")
  have "stays st st'" using assms(1) st unfolding inside_def by (metis m snd_conv)
  then show "stays st (snd (ser_bind m f st))"
    using assms(2) stays_bound [of st st'] stays_trans [of st st']
    by (cases r) (auto simp: ser_bind_def m inside_def)
qed

lemma inside_if [inside_rules]: "inside m \<Longrightarrow> inside m' \<Longrightarrow> inside (if c then m else m')" "inside r \<Longrightarrow> inside w \<Longrightarrow> inside (if_reading r w)"
  by (simp_all add: inside_def if_reading_def)

lemma inside_cases [inside_rules]:
  "inside m \<Longrightarrow> (\<And>x. inside (f x)) \<Longrightarrow> inside (case q of None \<Rightarrow> m | Some x \<Rightarrow> f x)"
  "(\<And>x y. inside (g x y)) \<Longrightarrow> inside (case z of (x, y) \<Rightarrow> g x y)"
  by (auto split: option.split prod.split)

lemma inside_ignore [inside_rules]: "inside m \<Longrightarrow> inside (ser_ignore m)" "inside ser_pos"
  by (auto simp: inside_def ser_ignore_def ser_pos_def stays_refl)

lemma inside_unit [inside_rules]: "inside m \<Longrightarrow> inside (ser_unit m)"
  unfolding ser_unit_def by (intro inside_rules)

section \<open>The operations of the streams\<close>

definition inside_read :: "(bit_buf \<Rightarrow> (string + 'a) \<times> bit_buf) \<Rightarrow> bool" where
  "inside_read rd \<longleftrightarrow> (\<forall>b. byteIter b \<le> length (bufdata b) \<longrightarrow> stays (ReadStream b) (ReadStream (snd (rd b))))"

definition inside_write :: "(bit_buf \<Rightarrow> (string + 'a) \<times> bit_buf) \<Rightarrow> bool" where
  "inside_write wr \<longleftrightarrow> (\<forall>b. byteIter b \<le> length (bufdata b) \<longrightarrow> stays (WriteStream b) (WriteStream (snd (wr b))))"

lemma inside_on_stream: "inside_read rd \<Longrightarrow> inside_write wr \<Longrightarrow> inside (on_stream rd v wr)"
  unfolding inside_def
proof (intro allI impI)
  fix st :: stream
  assume a: "inside_read rd" "inside_write wr" and st: "byteIter (stream_buf st) \<le> length (bufdata (stream_buf st))"
  show "stays st (snd (on_stream rd v wr st))"
  proof (cases st)
    case (ReadStream b)
    then show ?thesis using a(1) st by (simp add: on_stream_def inside_read_def)
  next
    case (WriteStream b)
    then have "stays (WriteStream b) (WriteStream (snd (wr b)))" using a(2) st by (simp add: inside_write_def)
    then show ?thesis by (cases "wr b"; cases "fst (wr b)") (simp_all add: WriteStream on_stream_def)
  qed
qed

lemma read_bits_inside: "inside_read (ReadStream_serializeBits n)"
  unfolding inside_read_def ReadStream_serializeBits_def Let_def bytesLeft_def advance_bits_pos_def
  by (auto simp: less_eq_Suc_le)

lemma length_poke: "byteIter b + length bs \<le> length (bufdata b) \<Longrightarrow> length (bufdata (poke bs b)) = length (bufdata b)"
  by (simp add: poke_def)

lemma write_bits_inside: "inside_write (WriteStream_serializeBits v n)"
  unfolding inside_write_def
proof (intro allI impI)
  fix b :: bit_buf
  assume b: "byteIter b \<le> length (bufdata b)"
  show "stays (WriteStream b) (WriteStream (snd (WriteStream_serializeBits v n b)))"
  proof (cases "n = 0 \<or> n > min (64 - 7) LENGTH('a) \<or> bytesLeft b < (n + bitPos b + 7) div 8")
    case True
    then show ?thesis using b by (auto simp: WriteStream_serializeBits_def Let_def)
  next
    case False
    define bs where "bs = take ((n + bitPos b + 7) div 8) (store_le 8 (byteswapBE
      (if bitPos b \<noteq> 0 then drop_bit (bitPos b) (push_bit (64 - n) (ucast v :: u64))
         OR push_bit 56 (ucast (bufdata b ! byteIter b)) else push_bit (64 - n) (ucast v :: u64))))"
    have "length bs \<le> (n + bitPos b + 7) div 8" by (simp add: bs_def)
    moreover have "\<not> bytesLeft b < (n + bitPos b + 7) div 8" using False by blast
    then have left: "byteIter b + (n + bitPos b + 7) div 8 \<le> length (bufdata b)" using b unfolding bytesLeft_def by arith
    ultimately have "byteIter b + length bs \<le> length (bufdata b)" by linarith
    moreover have "byteIter b + (bitPos b + n) div 8 \<le> length (bufdata b)"
      using left div_le_mono [of "bitPos b + n" "n + bitPos b + 7" 8] by linarith
    moreover have "snd (WriteStream_serializeBits v n b) = advance_bits_pos n (poke bs b)"
      using False unfolding WriteStream_serializeBits_def Let_def bs_def by simp
    ultimately show ?thesis by (simp add: advance_bits_pos_def length_poke poke_def)
  qed
qed

lemma inside_bits [inside_rules]: "inside (serializeBits v n)"
  unfolding serializeBits_def by (rule inside_on_stream [OF read_bits_inside write_bits_inside])

lemma aligned_read_inside:
  assumes "inside_read f" "\<And>b. bitPos b = 0 \<Longrightarrow> byteIter b \<le> length (bufdata b) \<Longrightarrow> stays (ReadStream b) (ReadStream (snd (g b)))"
    "\<And>b. bitPos b \<noteq> 0 \<Longrightarrow> snd (g b) = snd (f b)"
  shows "inside_read g"
  using assms unfolding inside_read_def by metis

lemma aligned_write_inside:
  assumes "inside_write f" "\<And>b. bitPos b = 0 \<Longrightarrow> byteIter b \<le> length (bufdata b) \<Longrightarrow> stays (WriteStream b) (WriteStream (snd (g b)))"
    "\<And>b. bitPos b \<noteq> 0 \<Longrightarrow> snd (g b) = snd (f b)"
  shows "inside_write g"
  using assms unfolding inside_write_def by metis

lemmas inside_simps = bytesLeft_def advance_bytes_pos_def poke_def Let_def

lemma read_byte_inside: "inside_read ReadStream_serializeByte"
  by (rule aligned_read_inside [OF read_bits_inside [where ?'a = 32, of 8]])
    (auto simp: ReadStream_serializeByte_def inside_simps split: prod.splits sum.splits)

lemma write_byte_inside: "inside_write (WriteStream_serializeByte v)"
  by (rule aligned_write_inside [OF write_bits_inside [of v 8]]) (auto simp: WriteStream_serializeByte_def inside_simps)

lemma read_u16_inside: "inside_read ReadStream_serializeUint16"
  by (rule aligned_read_inside [OF read_bits_inside [where ?'a = 32, of 16]])
    (auto simp: ReadStream_serializeUint16_def inside_simps split: prod.splits sum.splits)

lemma write_u16_inside: "inside_write (WriteStream_serializeUint16 v)"
  by (rule aligned_write_inside [OF write_bits_inside [of "byteswapBE v" 16]])
    (auto simp: WriteStream_serializeUint16_def inside_simps)

lemma read_u32_inside: "inside_read ReadStream_serializeUint32"
  by (rule aligned_read_inside [OF read_bits_inside [where ?'a = 32, of 32]])
    (auto simp: ReadStream_serializeUint32_def inside_simps split: prod.splits sum.splits)

lemma write_u32_inside: "inside_write (WriteStream_serializeUint32 v)"
  by (rule aligned_write_inside [OF write_bits_inside [of "byteswapBE v" 32]])
    (auto simp: WriteStream_serializeUint32_def inside_simps)

lemma read_u64_inside: "inside_read ReadStream_serializeUint64"
  by (auto simp: inside_read_def ReadStream_serializeUint64_def inside_simps)

lemma write_u64_inside: "inside_write (WriteStream_serializeUint64 v)"
  by (rule aligned_write_inside [OF write_bits_inside [of "byteswapBE v" 32]])
    (auto simp: WriteStream_serializeUint64_def inside_simps)

lemma read_bytes_inside: "inside_read (ReadStream_serializeBytes n)"
  by (auto simp: inside_read_def ReadStream_serializeBytes_def inside_simps)

lemma write_bytes_inside: "inside_write (WriteStream_serializeBytes bs)"
  by (auto simp: inside_write_def WriteStream_serializeBytes_def inside_simps)

lemma read_skip_inside: "byteIter b \<le> length (bufdata b) \<Longrightarrow> stays (ReadStream b) (ReadStream (snd (ReadStream_skip32 n b)))"
proof (induction n arbitrary: b)
  case (Suc n)
  obtain r b' where b': "(ReadStream_serializeBits 32 b :: (string + u32) \<times> bit_buf) = (r, b')"
    by (cases "ReadStream_serializeBits 32 b :: (string + u32) \<times> bit_buf")
  have "stays (ReadStream b) (ReadStream b')"
    using read_bits_inside [where ?'a = 32, of 32] Suc.prems b' unfolding inside_read_def by (metis snd_conv)
  then show ?case using Suc.IH [of b'] b' by (cases r) auto
qed simp

lemma write_skip_inside: "byteIter b \<le> length (bufdata b) \<Longrightarrow> stays (WriteStream b) (WriteStream (snd (WriteStream_skip32 n b)))"
proof (induction n arbitrary: b)
  case (Suc n)
  obtain r b' where b': "WriteStream_serializeBits (0 :: u32) 32 b = (r, b')" by (cases "WriteStream_serializeBits (0 :: u32) 32 b")
  have "stays (WriteStream b) (WriteStream b')"
    using write_bits_inside [of "0 :: u32" 32] Suc.prems b' unfolding inside_write_def by (metis snd_conv)
  then show ?case using Suc.IH [of b'] b' by (cases r) auto
qed simp

lemma read_advance_bits_inside: "inside_read (ReadStream_advanceBits n)"
  unfolding inside_read_def
proof (intro allI impI)
  fix b :: bit_buf
  assume b: "byteIter b \<le> length (bufdata b)"
  obtain r b' where b': "ReadStream_skip32 (n div 32) b = (r, b')" by (cases "ReadStream_skip32 (n div 32) b")
  obtain r2 b2 where b2: "(ReadStream_serializeBits (n mod 32) b' :: (string + u32) \<times> bit_buf) = (r2, b2)"
    by (cases "ReadStream_serializeBits (n mod 32) b' :: (string + u32) \<times> bit_buf")
  have *: "stays (ReadStream b) (ReadStream b')" using read_skip_inside [OF b, of "n div 32"] b' by simp
  then have "stays (ReadStream b') (ReadStream b2)"
    using read_bits_inside [where ?'a = 32, of "n mod 32"] b2 stays_bound [OF *] unfolding inside_read_def
    by (metis snd_conv stream_buf.simps(1))
  then show "stays (ReadStream b) (ReadStream (snd (ReadStream_advanceBits n b)))"
    using * b by (cases r; cases r2) (auto simp: ReadStream_advanceBits_def b' b2)
qed

lemma write_advance_bits_inside: "inside_write (WriteStream_advanceBits n)"
  unfolding inside_write_def
proof (intro allI impI)
  fix b :: bit_buf
  assume b: "byteIter b \<le> length (bufdata b)"
  obtain r b' where b': "WriteStream_skip32 (n div 32) b = (r, b')" by (cases "WriteStream_skip32 (n div 32) b")
  have *: "stays (WriteStream b) (WriteStream b')" using write_skip_inside [OF b, of "n div 32"] b' by simp
  then have "stays (WriteStream b') (WriteStream (snd (WriteStream_serializeBits (0 :: u32) (n mod 32) b')))"
    using write_bits_inside [of "0 :: u32" "n mod 32"] stays_bound [OF *] unfolding inside_write_def
    by (metis stream_buf.simps(2))
  then show "stays (WriteStream b) (WriteStream (snd (WriteStream_advanceBits n b)))"
    using * b stays_trans [OF *] by (cases r) (auto simp: WriteStream_advanceBits_def b')
qed

lemma read_advance_inside: "inside_read (ReadStream_advanceBytes n)"
  unfolding inside_read_def
proof (intro allI impI)
  fix b :: bit_buf
  assume b: "byteIter b \<le> length (bufdata b)"
  obtain r b' where b': "(if bitPos b \<noteq> 0 then ReadStream_advanceBits (8 * n) b else (Inr (), b)) = (r, b')"
    by (cases "if bitPos b \<noteq> 0 then ReadStream_advanceBits (8 * n) b else (Inr (), b)")
  have "stays (ReadStream b) (ReadStream b')"
    using read_advance_bits_inside [of "8 * n"] b b' stays_refl [of "ReadStream b"] unfolding inside_read_def
    by (metis snd_conv stream_buf.simps(1))
  then show "stays (ReadStream b) (ReadStream (snd (ReadStream_advanceBytes n b)))"
    unfolding ReadStream_advanceBytes_def b' Let_def prod.case by (cases r) (auto simp: bytesLeft_def advance_bytes_pos_def poke_def)
qed

lemma write_advance_inside: "inside_write (WriteStream_advanceBytes n)"
  unfolding inside_write_def
proof (intro allI impI)
  fix b :: bit_buf
  assume b: "byteIter b \<le> length (bufdata b)"
  obtain r b' where b': "(if bitPos b \<noteq> 0 then WriteStream_advanceBits (8 * n) b else (Inr (), b)) = (r, b')"
    by (cases "if bitPos b \<noteq> 0 then WriteStream_advanceBits (8 * n) b else (Inr (), b)")
  have "stays (WriteStream b) (WriteStream b')"
    using write_advance_bits_inside [of "8 * n"] b b' stays_refl [of "WriteStream b"] unfolding inside_write_def
    by (metis snd_conv stream_buf.simps(2))
  then show "stays (WriteStream b) (WriteStream (snd (WriteStream_advanceBytes n b)))"
    unfolding WriteStream_advanceBytes_def b' Let_def prod.case by (cases r) (auto simp: bytesLeft_def advance_bytes_pos_def poke_def)
qed

lemma inside_ops [inside_rules]:
  "inside (serializeByte v1)" "inside (serializeUint16 v2)" "inside (serializeUint32 v3)" "inside (serializeUint64 v4)"
  "inside (serializeBytes v5)" "inside (advanceBits n)" "inside (advanceBytes n)"
  by (simp_all add: serializeByte_def serializeUint16_def serializeUint32_def serializeUint64_def serializeBytes_def
    advanceBits_def advanceBytes_def inside_on_stream read_byte_inside write_byte_inside read_u16_inside write_u16_inside
    read_u32_inside write_u32_inside read_u64_inside write_u64_inside read_bytes_inside write_bytes_inside
    read_advance_bits_inside write_advance_bits_inside read_advance_inside write_advance_inside)

lemma inside_look [inside_rules]: "inside (lookahead n)" "inside (lookback n)"
  by (auto simp: inside_def split: stream.splits) (metis lookahead.simps snd_conv stays_refl stream.exhaust lookback.simps)+

lemma inside_chksum [inside_rules]: "inside (updateChksum c n)"
  unfolding inside_def
proof (intro allI impI)
  fix st :: stream
  assume st: "byteIter (stream_buf st) \<le> length (bufdata (stream_buf st))"
  show "stays st (snd (updateChksum c n st))"
  proof (cases st)
    case (WriteStream b)
    obtain r b' where b': "WriteStream_serializeUint16 c (b\<lparr>byteIter := byteIter b - (n + 2)\<rparr>) = (r, b')"
      by (cases "WriteStream_serializeUint16 c (b\<lparr>byteIter := byteIter b - (n + 2)\<rparr>)")
    have "stays (WriteStream (b\<lparr>byteIter := byteIter b - (n + 2)\<rparr>)) (WriteStream b')"
      using write_u16_inside [of c] st WriteStream b' unfolding inside_write_def
      by (metis (no_types, lifting) bit_buf.select_convs(1,2) bit_buf.surjective bit_buf.update_convs(2) diff_le_self le_trans snd_conv stream_buf.simps(2))
    then show ?thesis using st by (auto simp: WriteStream WriteStream_updateChksum_def b' [simplified])
  qed (use st in simp)
qed

lemma inside_verify [inside_rules]: "inside (verifyByte v msg)" "inside (verifyUint16 w msg)" "inside (verifyUint32 x msg)"
  unfolding verifyByte_def verifyUint16_def verifyUint32_def by (intro inside_rules)+

section \<open>Headers\<close>

lemma inside_sum [inside_rules]: "(\<And>e. inside (f e)) \<Longrightarrow> (\<And>x. inside (g x)) \<Longrightarrow> inside (case q of Inl e \<Rightarrow> f e | Inr x \<Rightarrow> g x)"
  by (cases q) auto

lemma inside_address [inside_rules]: "inside (IPAddress_serialize v4 a)" "inside (IsdAsn_serialize ia)" "inside (AsInterface_serialize ia)"
  unfolding IPAddress_serialize_def IsdAsn_serialize_def AsInterface_serialize_def Let_def by (intro inside_rules)+

lemma inside_ip [inside_rules]: "inside (IPv4_fields h4)" "inside (IPv6_serialize h6)" "inside (ICMP_serialize hi)" "inside (UDP_serialize hu)"
  unfolding IPv4_fields_def IPv6_serialize_def ICMP_serialize_def UDP_serialize_def Let_def by (intro inside_rules)+

lemma inside_ipv4 [inside_rules]: "inside (IPv4_serialize h)"
  unfolding IPv4_serialize_def Let_def by (intro inside_rules)

lemma inside_scion [inside_rules]: "inside (SCION_serialize h)" "inside (HopByHopOpts_serialize x)" "inside (EndToEndOpts_serialize x)"
  unfolding SCION_serialize_def HopByHopOpts_serialize_def EndToEndOpts_serialize_def by (intro inside_rules)+

lemma inside_scmp_message [inside_rules]: "inside (ScmpMessage_serialize msg)"
  by (cases msg; simp only: ScmpMessage_serialize.simps ScmpMessage_serialize_defs; intro inside_rules)

lemma inside_scmp [inside_rules]: "inside (SCMP_serialize h)"
  unfolding SCMP_serialize_def scmp_body_def scmp_alternative_def by (intro inside_rules)

lemma inside_stun [inside_rules]: "inside (STUN_serialize m)"
  unfolding STUN_serialize_def STUN_attributes_def StunXorMappedAddress_serialize_def Let_def by (intro inside_rules)

lemma inside_opt_parts [inside_rules]:
  "inside (verifySubtype st)" "inside m \<Longrightarrow> inside (ser_if c m a)" "inside m \<Longrightarrow> inside (ser_when c m)" "inside (seq_serialize wide n)"
  unfolding verifySubtype_def ser_if_def ser_when_def seq_serialize_def by (intro inside_rules; assumption?)+

lemma inside_edges [inside_rules]: "inside (sack_edges is lr)"
  by (induction "is" lr rule: sack_edges.induct) (simp_all, (rule inside_rules | assumption)+)

lemma inside_ids [inside_rules]: "inside (rem_ids is ids)"
  by (induction "is" arbitrary: ids) (simp_all add: inside_rules)

lemma inside_std_opts [inside_rules]:
  "inside (TcpMssOpt_serialize o1)" "inside (TcpWsOpt_serialize o2)" "inside TcpSAckPermOpt_serialize"
  "inside (TcpSAckOpt_serialize o3)" "inside (TcpTsOpt_serialize o4)"
  unfolding tcp_opt_ser TcpSAckOpt_serialize_def Let_def by (intro inside_rules)+

lemma inside_join_body [inside_rules]: "inside (mp_join_body c)"
  by (cases c) (simp_all, (rule inside_rules | assumption)+)

lemma inside_mp_opts [inside_rules]:
  "inside (TcpMpCapableOpt_serialize o1)" "inside (TcpMpJoinOpt_serialize o2)" "inside (TcpMpDssOpt_serialize o3)"
  "inside (TcpMpAddAddrOpt_serialize o4)" "inside (TcpMpRemAddrOpt_serialize o5)" "inside (TcpMpPrioOpt_serialize o6)"
  "inside (TcpMpFailOpt_serialize o7)" "inside (TcpMpCloseOpt_serialize o8)" "inside (TcpMpRstOpt_serialize o9)"
  unfolding TcpMpCapableOpt_serialize_def TcpMpJoinOpt_serialize_def TcpMpDssOpt_serialize_def TcpMpAddAddrOpt_serialize_def
    TcpMpRemAddrOpt_serialize_def TcpMpPrioOpt_serialize_def TcpMpFailOpt_serialize_def TcpMpCloseOpt_serialize_def
    TcpMpRstOpt_serialize_def mp_long_serialize_def Let_def by (rule inside_rules | assumption)+

lemma inside_tcp [inside_rules]: "inside (TCP_serialize h)"
  unfolding TCP_serialize_def emitOpts_def emit_ts_def TCP_parse_options_def Let_def by (intro inside_rules)

end
