(* ===== verification/PacketBufferSpec.thy ===== *)
theory PacketBufferSpec
  imports StreamBounds
begin

text \<open>
  The packet buffer stays consistent: the packet lies inside the buffer and its headers inside the packet, which is
  what the assertions in \<open>packet.hpp\<close> say. Parsing changes headers only; writing the headers moves the start of the
  packet and leaves the payload alone.
\<close>

definition pb_wf :: "nat \<Rightarrow> PacketBuffer \<Rightarrow> bool" where
  "pb_wf n p \<longleftrightarrow> length (pb_buffer p) = n \<and> pb_offset p \<le> pb_endOfHeader p \<and>
     pb_endOfHeader p \<le> pb_offset p + pb_size p \<and> pb_offset p + pb_size p \<le> n"

text \<open>The raw packet, which editing the headers does not touch.\<close>

definition pb_raw :: "PacketBuffer \<Rightarrow> byte list \<times> nat \<times> nat \<times> nat" where
  "pb_raw p = (pb_buffer p, pb_offset p, pb_size p, pb_endOfHeader p)"

lemma pb_raw_wf: "pb_raw p = pb_raw q \<Longrightarrow> pb_wf n p \<longleftrightarrow> pb_wf n q"
  by (simp add: pb_raw_def pb_wf_def)

lemma pb_raw_payload: "pb_raw p = pb_raw q \<Longrightarrow> pb_payload p = pb_payload q"
  by (simp add: pb_raw_def pb_payload_def)

section \<open>Parsing\<close>

definition pop_inside :: "'a pop \<Rightarrow> bool" where
  "pop_inside m \<longleftrightarrow> (\<forall>p st. byteIter (stream_buf st) \<le> length (bufdata (stream_buf st)) \<longrightarrow>
     stays st (snd (snd (m (p, st)))) \<and> pb_raw (fst (snd (m (p, st)))) = pb_raw p)"

lemma pop_inside_bind:
  assumes "pop_inside m" "\<And>a. pop_inside (f a)"
  shows "pop_inside (pop_bind m f)"
  unfolding pop_inside_def
proof (intro allI impI)
  fix p and st :: stream
  assume st: "byteIter (stream_buf st) \<le> length (bufdata (stream_buf st))"
  obtain r q st' where m: "m (p, st) = (r, q, st')" by (cases "m (p, st)")
  have *: "stays st st'" "pb_raw q = pb_raw p"
    using assms(1) [unfolded pop_inside_def, rule_format, OF st, of p] m by auto
  then show "stays st (snd (snd (pop_bind m f (p, st)))) \<and> pb_raw (fst (snd (pop_bind m f (p, st)))) = pb_raw p"
    using assms(2) [unfolded pop_inside_def, rule_format, OF stays_bound [OF *(1)]] stays_trans [OF *(1)]
    by (cases r) (auto simp: pop_bind_def m)
qed

lemma pop_inside_return: "pop_inside (pop_return a)"
  by (simp add: pop_inside_def pop_return_def stays_refl)

lemma pop_inside_ser: "(\<And>p. inside (m p)) \<Longrightarrow> pop_inside (pop_ser m)"
  by (auto simp: pop_inside_def pop_ser_def inside_def split: prod.splits) (metis snd_conv)

lemma pop_inside_set: "(\<And>p. pb_raw (f p) = pb_raw p) \<Longrightarrow> pop_inside (pop_set f)"
  by (simp add: pop_inside_def pop_set_def stays_refl)

lemma pop_inside_header: "(\<And>p. inside (m p)) \<Longrightarrow> (\<And>h p. pb_raw (upd h p) = pb_raw p) \<Longrightarrow> pop_inside (pop_header m upd)"
  unfolding pop_header_def by (intro pop_inside_bind pop_inside_ser pop_inside_set)

lemma pop_inside_get: "pop_inside (\<lambda>(p, st). (Inr (f p), p, st))"
  by (simp add: pop_inside_def stays_refl)

lemma pop_inside_if: "pop_inside m \<Longrightarrow> pop_inside m' \<Longrightarrow> pop_inside (if c then m else m')"
  by simp

lemma pop_inside_state:
  assumes "pop_inside m" "\<And>p. pb_raw (f p) = pb_raw p" "\<And>p. pb_raw (g p) = pb_raw p"
  shows "pop_inside (\<lambda>(p, st). if c p then m (f p, st) else (Inr a, g p, st))"
  using assms by (auto simp: pop_inside_def stays_refl)

lemma pop_inside_stun: "pop_inside stun_follows"
  unfolding pop_inside_def stun_follows_def
proof (intro allI impI, clarify)
  fix p and st :: stream
  assume st: "byteIter (stream_buf st) \<le> length (bufdata (stream_buf st))"
  obtain r st' where l: "lookahead stunHeaderSize st = (r, st')" by (cases "lookahead stunHeaderSize st")
  then have "stays st st'" using inside_look(1) [of stunHeaderSize] st unfolding inside_def by (metis snd_conv)
  then show "stays st (snd (snd (case lookahead stunHeaderSize st of
       (Inl _, st') \<Rightarrow> (Inr False, p, st') | (Inr header, st') \<Rightarrow> (Inr (detectStun header), p, st')))) \<and>
     pb_raw (fst (snd (case lookahead stunHeaderSize st of
       (Inl _, st') \<Rightarrow> (Inr False, p, st') | (Inr header, st') \<Rightarrow> (Inr (detectStun header), p, st')))) = pb_raw p"
    using l by (cases r) auto
qed

lemmas pop_rules = pop_inside_bind pop_inside_return pop_inside_header pop_inside_ser pop_inside_set pop_inside_if pop_inside_stun

lemma inside_seek [inside_rules]: "inside (ser_seek n)"
  by (auto simp: inside_def ser_seek_def seek_def split: stream.split)

lemma inside_skip: "inside m \<Longrightarrow> inside (skip_opts which (\<lambda>_. m) proto)"
  unfolding skip_opts_def by (intro inside_rules)

lemma parseScion_inside: "pop_inside parseScion"
  unfolding parseScion_def skip_opts_def
  by (rule pop_rules inside_rules | (simp add: pb_raw_def; fail))+

lemma parseL4_inside: "pop_inside (parseL4 proto)"
  unfolding parseL4_def by (rule pop_rules inside_rules | (simp add: pb_raw_def; fail))+

lemma parseIp_inside: "pop_inside parseIp"
  unfolding parseIp_def by (rule pop_rules inside_rules pop_inside_get | (simp add: pb_raw_def; fail))+

lemma parse_transport_inside: "pop_inside (parse_transport nu is_scion src proto)"
  unfolding parse_transport_def
  by (rule parseScion_inside parseL4_inside pop_inside_state pop_rules inside_rules | (simp add: pb_raw_def; fail))+

lemma PacketBuffer_parse_inside: "pop_inside (PacketBuffer_parse nu is_scion)"
  unfolding PacketBuffer_parse_def prod.case_distrib
  by (rule parseIp_inside parse_transport_inside pop_rules inside_rules | (simp add: pb_raw_def split: prod.splits; fail)
    | simp only: split_beta)+

lemma parsePacket_wf:
  assumes "length (pb_buffer p) = n" "pb_offset p + pb_size p \<le> n"
  shows "pb_wf n (snd (parsePacket p size1 nu is_scion))"
proof -
  let ?p = "p\<lparr>pb_endOfHeader := pb_offset p, pb_size := min size1 (pb_size p)\<rparr>"
  let ?b = "stream_init (take (min size1 (pb_size p)) (drop (pb_offset p) (pb_buffer p)))"
  obtain r q rs where m: "PacketBuffer_parse nu is_scion (?p, ReadStream ?b) = (r, q, rs)"
    by (cases "PacketBuffer_parse nu is_scion (?p, ReadStream ?b)")
  have *: "stays (ReadStream ?b) rs" "pb_raw q = pb_raw ?p"
    using PacketBuffer_parse_inside [of nu is_scion, unfolded pop_inside_def, rule_format, of "ReadStream ?b" ?p] m
    by (auto simp: stream_init_def)
  then obtain b' where "rs = ReadStream b'" "byteIter b' \<le> min size1 (pb_size p)"
    by (cases rs) (auto simp: stream_init_def)
  then show ?thesis
    using * assms m by (cases r) (auto simp: parsePacket_def Let_def pb_raw_def pb_wf_def)
qed

section \<open>Writing\<close>

lemma emit_inside: "inside (PacketBuffer_emit p nu)"
proof -
  have l4: "inside (emitL4 p)" by (cases "pb_l4Valid p") (simp_all add: emitL4_def inside_rules)
  have u: "inside (emitUnderlay p)"
    unfolding emitUnderlay_def by (cases "pb_ipValid p"; simp; intro conjI impI; (rule inside_rules)+)
  show ?thesis unfolding PacketBuffer_emit_def Let_def by (rule l4 u inside_rules)+
qed

lemma emit_result:
  assumes "pb_wf n p" "emitPacket p nu = (r, q)"
  shows "pb_wf n q \<and> pb_endOfHeader q = pb_endOfHeader p \<and> pb_payload q = pb_payload p \<and>
    (r = Inl BufferTooSmall \<longleftrightarrow> pb_endOfHeader p < measureHeaders p nu) \<and>
    (\<forall>bytes. r = Inr bytes \<longrightarrow> bytes = take (pb_size q) (drop (pb_offset q) (pb_buffer q)) \<and>
       length bytes = measureHeaders p nu + length (pb_payload p) \<and> drop (measureHeaders p nu) bytes = pb_payload p)"
proof (cases "pb_endOfHeader p < measureHeaders p nu")
  case True
  then show ?thesis using assms by (auto simp: emitPacket_def)
next
  case False
  let ?h = "measureHeaders p nu" and ?e = "pb_endOfHeader p"
  let ?w = "take ?h (drop (?e - ?h) (pb_buffer p))"
  obtain res ws where ws: "PacketBuffer_emit p nu (WriteStream (stream_init ?w)) = (res, ws)"
    by (cases "PacketBuffer_emit p nu (WriteStream (stream_init ?w))")
  have "stays (WriteStream (stream_init ?w)) ws"
    using emit_inside [of p nu] ws unfolding inside_def by (metis bit_buf.select_convs(2) le0 snd_conv stream_buf.simps(2) stream_init_def)
  then obtain b where b: "ws = WriteStream b" "length (bufdata b) = length ?w"
    by (cases ws) (auto simp: stream_init_def)
  have len: "length (bufdata b) = ?h" using b(2) False assms(1) by (auto simp: pb_wf_def)
  let ?buf = "overwrite (pb_buffer p) (?e - ?h) (bufdata b)"
  have buf: "length ?buf = n" "drop ?e ?buf = drop ?e (pb_buffer p)"
    using len False assms(1) by (auto simp: overwrite_def pb_wf_def)
  have q: "q = (case res of Inl _ \<Rightarrow> p\<lparr>pb_buffer := ?buf\<rparr>
      | Inr _ \<Rightarrow> p\<lparr>pb_buffer := ?buf, pb_offset := ?e - ?h, pb_size := ?h + (pb_size p - (?e - pb_offset p))\<rparr>)"
    "r = (case res of Inl _ \<Rightarrow> Inl LogicError
      | Inr _ \<Rightarrow> Inr (take (?h + (pb_size p - (?e - pb_offset p))) (drop (?e - ?h) ?buf)))"
    using assms(2) False by (auto simp: emitPacket_def Let_def ws b(1) split: sum.splits)
  have wf: "pb_wf n q" using q buf(1) assms(1) False by (cases res) (auto simp: pb_wf_def)
  have pay: "pb_payload q = pb_payload p" using q(1) buf(2) False by (cases res) (auto simp: pb_payload_def)
  have "take (?h + k) (drop (?e - ?h) ?buf) = bufdata b @ take k (drop ?e (pb_buffer p))" for k
    using len False assms(1) by (auto simp: overwrite_def pb_wf_def take_Cons)
  then have "r = Inr bytes \<Longrightarrow> bytes = bufdata b @ pb_payload p \<and> bytes = take (pb_size q) (drop (pb_offset q) (pb_buffer q))" for bytes
    using q by (cases res) (auto simp: pb_payload_def)
  then show ?thesis using wf pay False q len by (cases res) auto
qed

end
