(* ===== verification/PacketEmit.thy ===== *)
theory PacketEmit
  imports PacketBufferSpec PacketSpec
begin

text \<open>
  What \<open>emitPacket\<close> writes: the bits of the headers that are valid, with the checksum of the outer UDP header filled in,
  followed by the payload; and \<open>parsePacket\<close> reads the headers back from these bytes.
\<close>

section \<open>The bits of the headers\<close>

definition ip_bits :: "PacketBuffer \<Rightarrow> bool list" where
  "ip_bits p = (case pb_ipValid p of IPNone \<Rightarrow> [] | IPv4Valid \<Rightarrow> bits_of (IPv4_bytes (pb_ipv4 p) (IPv4_chksum (pb_ipv4 p)))
     | IPv6Valid \<Rightarrow> IPv6_bits (pb_ipv6 p))"

definition l4_bits :: "PacketBuffer \<Rightarrow> bool list" where
  "l4_bits p = (case pb_l4Valid p of L4None \<Rightarrow> [] | L4ICMP \<Rightarrow> ICMP_bits (pb_icmp p) | L4SCMP \<Rightarrow> SCMP_bits (pb_scmp p)
     | L4TCP \<Rightarrow> TCP_bits (pb_tcp p) | L4UDP \<Rightarrow> UDP_bits (pb_udp p))"

definition inner_bits :: "PacketBuffer \<Rightarrow> bool list" where
  "inner_bits p = (if pb_scionValid p then SCION_bits (pb_sci p) @ bits_of (RawPath_encoded (pb_path p)) else []) @ l4_bits p"

definition emitted_udp :: "PacketBuffer \<Rightarrow> UDP" where
  "emitted_udp p = (pb_outerUDP p)\<lparr>udp_chksum := outer_checksum p (inv bits_of (inner_bits p))\<rparr>"

definition header_bits :: "PacketBuffer \<Rightarrow> bool \<Rightarrow> bool list" where
  "header_bits p nu =
     (if nu then [] else ip_bits p @ (if pb_outerUDPValid p then UDP_bits (emitted_udp p) else [])) @ inner_bits p"

text \<open>
  The headers can be written: their fields have the widths of the format, apart from the flow labels, of which the
  low 20 bits are written; and the size of a TCP header counts the bytes that are written for its options, at most 40.
  A TCP header with multipath options that do not add up to whole words is left out: the code announces a wrong size
  for it (\<open>tcp_size_exact\<close>).
\<close>

definition writable :: "PacketBuffer \<Rightarrow> bool" where
  "writable p \<longleftrightarrow> \<not> pb_stunValid p
     \<and> (pb_ipValid p = IPv4Valid \<longrightarrow> wf_IPv4 (pb_ipv4 p)) \<and> (pb_ipValid p = IPv6Valid \<longrightarrow> valid_IPv6 ((pb_ipv6 p)\<lparr>ip6_fl := 0\<rparr>))
     \<and> (pb_scionValid p \<longrightarrow> wf_hosts (pb_sci p) \<and> rp_size (pb_path p) \<le> length (rp_path (pb_path p))
       \<and> length (rp_path (pb_path p)) = RawPath_MAX_SIZE)
     \<and> (pb_l4Valid p = L4SCMP \<longrightarrow> writable_SCMP (pb_scmp p)) \<and> (pb_l4Valid p = L4TCP \<longrightarrow> valid_TCP (pb_tcp p))"

lemma length_headers [simp]:
  "length (UDP_bits u) = 64" "length (ICMP_bits i) = 64" "is6 (ip6_src h6) \<Longrightarrow> is6 (ip6_dst h6) \<Longrightarrow> length (IPv6_bits h6) = 320"
  "length (SCION_bits s) = 8 * SCION_size s"
  by (simp_all add: UDP_bits_def ICMP_bits_def IPv6_bits_def SCION_bits_def length_IPAddress_bits valid_IPv6_def is4_is6
    SCION_size_def Address_size_def IsdAsn_size_def IPAddress_size_def)

lemma length_inner: "writable p \<Longrightarrow> length (inner_bits p) = 8 * measureHeaders p True"
  by (cases "pb_l4Valid p") (auto simp: inner_bits_def l4_bits_def measureHeaders_def l4Size_def writable_def
    length_SCMP_bits length_TCP_bits RawPath_encoded_def ICMP_size_def UDP_size_def)

lemma length_ip_bits: "writable p \<Longrightarrow> length (ip_bits p) =
    8 * (case pb_ipValid p of IPv4Valid \<Rightarrow> IPv4_size | IPv6Valid \<Rightarrow> IPv6_size | IPNone \<Rightarrow> 0)"
  by (cases "pb_ipValid p") (simp_all add: ip_bits_def writable_def valid_IPv6_def IPv4_size_def IPv6_size_def)

lemma length_header_bits: "writable p \<Longrightarrow> length (header_bits p nu) = 8 * measureHeaders p nu"
  using length_inner [of p] length_ip_bits [of p]
  by (cases "pb_ipValid p") (auto simp: header_bits_def measureHeaders_def UDP_size_def)

section \<open>Writing\<close>

lemma writesB_unit: "writesB k m bs a \<Longrightarrow> writesB k (ser_unit m) bs ()"
  unfolding ser_unit_def by (rule writesB_map) simp_all

lemma IPv6_writes_any: "valid_IPv6 (h\<lparr>ip6_fl := 0\<rparr>) \<Longrightarrow> writesB 0 (IPv6_serialize h) (IPv6_bits h) h"
  unfolding IPv6_serialize_def IPv6_bits_def valid_IPv6_def
  by (rule writes_steps ip6.writes_aligned IPv6H.equality | (simp add: length_IPAddress_bits is4_is6; fail))+

lemma ip_writes:
  assumes "writable p"
  shows "writesB 0 (case pb_ipValid p of IPv4Valid \<Rightarrow> ser_unit (IPv4_serialize (pb_ipv4 p))
       | IPv6Valid \<Rightarrow> ser_unit (IPv6_serialize (pb_ipv6 p)) | IPNone \<Rightarrow> ser_return ()) (ip_bits p) ()"
  using assms
  by (cases "pb_ipValid p")
    (auto simp: ip_bits_def writable_def intro!: writesB_unit IPv4_writes IPv6_writes_any writesB_return)

lemma l4_writes:
  assumes "writable p" "k mod 8 = 0"
  shows "writesB k (emitL4 p) (l4_bits p) ()"
  using assms
  by (cases "pb_l4Valid p")
    (auto simp: l4_bits_def emitL4_def writable_def intro!: writesB_unit writesB_align [OF TCP_writes] icmp.writes_aligned
      scmp.writes_aligned udp.writes_aligned writesB_return)

text \<open>The part after the outer UDP header.\<close>

definition emit_inner :: "PacketBuffer \<Rightarrow> unit ser" where
  "emit_inner p = ser_bind
     (if pb_scionValid p
      then ser_bind (SCION_serialize (pb_sci p)) (\<lambda>_. ser_unit (serializeBytes (RawPath_encoded (pb_path p))))
      else ser_return ()) (\<lambda>_. emitL4 p)"

lemma inner_writes:
  assumes "writable p" "k mod 8 = 0"
  shows "writesB k (emit_inner p) (inner_bits p) ()"
proof -
  have k8: "(k + 8 * n) mod 8 = 0" for n using assms(2) by simp
  show ?thesis
  proof (cases "pb_scionValid p")
    case True
    then have s: "writesB k (SCION_serialize (pb_sci p)) (SCION_bits (pb_sci p)) (pb_sci p)"
      using assms by (intro writesB_align [OF SCION_writes_any]) (simp_all add: writable_def)
    have r: "writesB (k + length (SCION_bits (pb_sci p))) (ser_unit (serializeBytes (RawPath_encoded (pb_path p))))
        (bits_of (RawPath_encoded (pb_path p))) ()"
      by (rule writesB_unit, rule writesB_serializeBytes) (use k8 in simp)
    have t: "(k + length (SCION_bits (pb_sci p) @ bits_of (RawPath_encoded (pb_path p)))) mod 8 = 0"
      using k8 [of "SCION_size (pb_sci p) + length (RawPath_encoded (pb_path p))"] by (simp add: add_mult_distrib2)
    from writesB_bind [OF writesB_bind [OF s r] l4_writes [OF assms(1) t]] True show ?thesis
      by (simp add: emit_inner_def inner_bits_def)
  next
    case False
    then show ?thesis
      using l4_writes [OF assms] by (simp add: emit_inner_def inner_bits_def ser_bind_return)
  qed
qed

definition emit_finish :: "PacketBuffer \<Rightarrow> nat \<Rightarrow> unit ser" where
  "emit_finish p at = ser_bind ser_pos (\<lambda>pos.
     let offset = pos - at - 8 in
     ser_bind (lookback offset) (\<lambda>data. ser_ignore (updateChksum (outer_checksum p data) offset)))"

lemma PacketBuffer_emit_parts:
  "\<not> pb_stunValid p \<Longrightarrow> PacketBuffer_emit p nu =
     ser_bind (if nu then ser_return 0 else emitUnderlay p) (\<lambda>at. ser_bind (emit_inner p) (\<lambda>_.
     if \<not> nu \<and> pb_outerUDPValid p then emit_finish p at else ser_return ()))"
  by (simp add: PacketBuffer_emit_def emit_inner_def emit_finish_def ser_bind_assoc ser_bind_return cong: if_cong)

lemma emit_plain:
  assumes "writable p" "nu \<or> \<not> pb_outerUDPValid p"
  shows "writesB 0 (PacketBuffer_emit p nu) (header_bits p nu) ()"
proof -
  have st: "\<not> pb_stunValid p" using assms(1) by (simp add: writable_def)
  have i: "writesB k (ser_bind (emit_inner p) (\<lambda>_. ser_return ())) (inner_bits p) ()" if "k mod 8 = 0" for k
    by (rule writesB_map [OF inner_writes [OF assms(1) that]]) simp_all
  show ?thesis
  proof (cases nu)
    case True
    then show ?thesis using i [of 0] by (simp add: PacketBuffer_emit_parts [OF st] header_bits_def ser_bind_return)
  next
    case False
    have "writesB 0 (emitUnderlay p) (ip_bits p) 0"
      unfolding emitUnderlay_def using assms(2) False by (auto intro: writesB_map [OF ip_writes [OF assms(1)]])
    from writesB_bind [OF this i] False assms(2) show ?thesis
      by (simp add: PacketBuffer_emit_parts [OF st] header_bits_def length_ip_bits [OF assms(1)])
  qed
qed

lemma writesB_step:
  assumes "writesB k m bs a" "wf_buf b" "clean_tail b" "bit_pos b mod 8 = k mod 8" "length bs \<le> bits_room b"
  obtains b' where "m (WriteStream b) = (Inr a, WriteStream b')" "appended b bs b'"
  using assms unfolding writesB_def by blast

lemma UDP_bits_store: "UDP_bits u = bits_of (store_be 2 (udp_sport u) @ store_be 2 (udp_dport u) @ store_be 2 (udp_len u) @ store_be 2 (udp_chksum u))"
  by (simp add: UDP_bits_def to_bits_store_be [where n = 2, simplified])

lemma inner_size: "writable p \<Longrightarrow> measureHeaders p True < 2000"
proof -
  assume w: "writable p"
  have "l4Size p \<le> 60"
    using w by (cases "pb_l4Valid p"; cases "scmp_msg (pb_scmp p)")
      (simp_all add: l4Size_def writable_def valid_TCP_def TCP_size_def ICMP_size_def UDP_size_def SCMP_size_def)
  moreover have "pb_scionValid p \<Longrightarrow> SCION_size (pb_sci p) + rp_size (pb_path p) \<le> 1060"
    using w by (auto simp: writable_def RawPath_MAX_SIZE_def SCION_size_def Address_size_def IsdAsn_size_def IPAddress_size_def)
  ultimately show ?thesis by (auto simp: measureHeaders_def)
qed

lemma lookback_appended:
  assumes "appended b (bits_of (A @ D)) b'" "bitPos b = 0" "bitPos b' = 0" "length D \<noteq> npos"
  shows "WriteStream_lookback (length D) b' = Inr D" "byteIter b' = byteIter b + length A + length D"
proof -
  show it: "byteIter b' = byteIter b + length A + length D"
    using assms(1-3) by (simp add: appended_def bit_pos_def)
  have "bits_of (take (byteIter b') (bufdata b')) = bits_of (take (byteIter b) (bufdata b) @ A @ D)"
    using assms(1-3) by (simp add: appended_def bits_done_aligned)
  then have t: "take (byteIter b') (bufdata b') = take (byteIter b) (bufdata b) @ A @ D" by (rule bits_of_inject)
  have "byteIter b' \<le> length (bufdata b')" using assms(1) by (simp add: appended_def wf_buf_def)
  then have l: "length (take (byteIter b) (bufdata b)) = byteIter b" using assms(1) it by (simp add: appended_def)
  have "take (length D) (drop (byteIter b' - length D) (bufdata b')) = drop (byteIter b' - length D) (take (byteIter b') (bufdata b'))"
    using it by (simp add: take_drop ac_simps)
  also have "\<dots> = D" unfolding t using l it by simp
  finally show "WriteStream_lookback (length D) b' = Inr D"
    using assms(3,4) it by (simp add: WriteStream_lookback_def)
qed

lemma emit_finish_patches:
  assumes a: "appended b1 (bits_of (U @ D)) b2" "bitPos b1 = 0" "bitPos b2 = 0"
    and l: "length U = 8" "length D \<noteq> npos" and at: "at = byteIter b1"
  shows "\<exists>b3. emit_finish p at (WriteStream b2) = (Inr (), WriteStream b3) \<and>
    appended b1 (bits_of (take 6 U @ store_be 2 (outer_checksum p D) @ D)) b3"
proof -
  note lb = lookback_appended [OF a l(2)]
  have off: "byteIter b2 - at - 8 = length D" using lb(2) l(1) at by simp
  obtain b3 where b3: "WriteStream_updateChksum (outer_checksum p D) (length D) b2 = (Inr (), b3)"
    "appended b1 (bits_of (overwrite (U @ D) (length (U @ D) - (length D + 2)) (store_be 2 (outer_checksum p D)))) b3"
    using appended_patch [OF a, of "length D" "outer_checksum p D"] l(1) by auto
  have "overwrite (U @ D) (length (U @ D) - (length D + 2)) (store_be 2 (outer_checksum p D))
      = take 6 U @ store_be 2 (outer_checksum p D) @ D"
    using l(1) by (simp add: overwrite_def)
  moreover have "emit_finish p at (WriteStream b2) = (Inr (), WriteStream b3)"
    using lb(1) b3(1) off by (simp add: emit_finish_def ser_bind_def ser_pos_def getPos_def ser_ignore_def Let_def)
  ultimately show ?thesis using b3(2) by auto
qed

lemma emit_outer:
  assumes w: "writable p" and u: "pb_outerUDPValid p" and len: "length buf = measureHeaders p False"
  shows "\<exists>b. PacketBuffer_emit p False (WriteStream (stream_init buf)) = (Inr (), WriteStream b) \<and>
    bits_of (bufdata b) = header_bits p False"
proof -
  have st: "\<not> pb_stunValid p" using w by (simp add: writable_def)
  have total: "8 * length buf = length (ip_bits p) + 64 + length (inner_bits p)"
    using length_header_bits [OF w, of False] u by (simp add: header_bits_def len)
  have ip8: "length (ip_bits p) mod 8 = 0" by (simp add: length_ip_bits [OF w])
  obtain b1 where b1: "(case pb_ipValid p of IPv4Valid \<Rightarrow> ser_unit (IPv4_serialize (pb_ipv4 p))
       | IPv6Valid \<Rightarrow> ser_unit (IPv6_serialize (pb_ipv6 p)) | IPNone \<Rightarrow> ser_return ()) (WriteStream (stream_init buf))
      = (Inr (), WriteStream b1)" "appended (stream_init buf) (ip_bits p) b1"
    by (rule writesB_step [OF ip_writes [OF w], of "stream_init buf"]) (use total in simp_all)
  note wf1 = appended_wf [OF b1(2)]
  have pos1: "bit_pos b1 = length (ip_bits p)" using b1(2) by (simp add: appended_def)
  note al1 = aligned_pos [OF wf1(1), unfolded pos1, OF ip8]
  have "writesB 0 (ser_bind (UDP_serialize (pb_outerUDP p)) (\<lambda>_. emit_inner p)) (UDP_bits (pb_outerUDP p) @ inner_bits p) ()"
    by (rule writesB_bind, rule udp.writes_aligned, simp_all, rule inner_writes [OF w], simp)
  then obtain b2 where b2: "ser_bind (UDP_serialize (pb_outerUDP p)) (\<lambda>_. emit_inner p) (WriteStream b1) = (Inr (), WriteStream b2)"
    "appended b1 (UDP_bits (pb_outerUDP p) @ inner_bits p) b2"
    by (rule writesB_step [OF _ wf1]) (use total pos1 ip8 appended_room [OF b1(2)] in simp_all)
  obtain D where D: "bits_of D = inner_bits p" using length_inner [OF w] bits_of_surj [of "inner_bits p"] by auto
  then have invD: "inv bits_of (inner_bits p) = D"
    by (metis bits_of_inject f_inv_into_f rangeI)
  have lenD: "length D \<noteq> npos"
    using inner_size [OF w] length_inner [OF w] length_bits_of [of D] D by (simp add: npos_def)
  define U where "U = store_be 2 (udp_sport (pb_outerUDP p)) @ store_be 2 (udp_dport (pb_outerUDP p))
    @ store_be 2 (udp_len (pb_outerUDP p)) @ store_be 2 (udp_chksum (pb_outerUDP p))"
  have app: "appended b1 (bits_of (U @ D)) b2" using b2(2) by (simp add: U_def D UDP_bits_store)
  have pos2: "bit_pos b2 = 8 * length buf" using b2(2) pos1 total by (simp add: appended_def)
  have al2: "bitPos b2 = 0" by (rule aligned_pos(1)) (use appended_wf [OF b2(2)] pos2 in simp_all)
  obtain b3 where b3: "emit_finish p (byteIter b1) (WriteStream b2) = (Inr (), WriteStream b3)"
    "appended b1 (bits_of (take 6 U @ store_be 2 (outer_checksum p D) @ D)) b3"
    using emit_finish_patches [OF app al1(1) al2 _ lenD, of "byteIter b1" p] by (auto simp: U_def)
  have bits: "bits_of (take 6 U @ store_be 2 (outer_checksum p D) @ D) = UDP_bits (emitted_udp p) @ inner_bits p"
    by (simp add: U_def D invD emitted_udp_def UDP_bits_store)
  have e: "PacketBuffer_emit p False = ser_bind (emitUnderlay p) (\<lambda>at. ser_bind (emit_inner p) (\<lambda>_. emit_finish p at))"
    using u by (simp add: PacketBuffer_emit_parts [OF st])
  have eu: "emitUnderlay p (WriteStream (stream_init buf)) = ser_bind ser_pos (\<lambda>pos.
      ser_bind (UDP_serialize (pb_outerUDP p)) (\<lambda>_. ser_return pos)) (WriteStream b1)"
    using u b1(1) by (simp add: emitUnderlay_def ser_bind_def)
  have "PacketBuffer_emit p False (WriteStream (stream_init buf)) = (Inr (), WriteStream b3)"
    using b2(1) b3(1) unfolding e
    by (simp add: ser_bind_def [of "emitUnderlay p"] eu)
      (auto simp: ser_bind_def ser_pos_def getPos_def ser_return_def split: prod.splits sum.splits)
  moreover have "appended (stream_init buf) (ip_bits p @ UDP_bits (emitted_udp p) @ inner_bits p) b3"
    using appended_trans [OF b1(2) b3(2)] unfolding bits by simp
  then have "bits_of (bufdata b3) = header_bits p False"
    using total u by (auto simp: appended_def header_bits_def bits_done_def)
  ultimately show ?thesis by blast
qed

lemma emit_writes:
  assumes w: "writable p" and len: "length buf = measureHeaders p nu"
  shows "\<exists>b. PacketBuffer_emit p nu (WriteStream (stream_init buf)) = (Inr (), WriteStream b) \<and>
    bits_of (bufdata b) = header_bits p nu"
proof (cases "nu \<or> \<not> pb_outerUDPValid p")
  case True
  obtain b where "PacketBuffer_emit p nu (WriteStream (stream_init buf)) = (Inr (), WriteStream b)"
    "length (bufdata b) = length buf" "bits_of (take (length (header_bits p nu) div 8) (bufdata b)) = header_bits p nu"
    using writesB_buffer [OF emit_plain [OF w True], of buf] length_header_bits [OF w, of nu] len by auto
  then show ?thesis using length_header_bits [OF w, of nu] len by auto
next
  case False
  then show ?thesis using emit_outer [OF w, of buf] len by simp
qed

lemma emitPacket_bytes:
  assumes wf: "pb_wf n p" and w: "writable p" and room: "measureHeaders p nu \<le> pb_endOfHeader p"
  shows "\<exists>hdr q. emitPacket p nu = (Inr (hdr @ pb_payload p), q) \<and> bits_of hdr = header_bits p nu \<and>
    q = p\<lparr>pb_buffer := pb_buffer q, pb_offset := pb_offset q, pb_size := pb_size q\<rparr>"
proof -
  let ?h = "measureHeaders p nu" and ?e = "pb_endOfHeader p"
  let ?w = "take ?h (drop (?e - ?h) (pb_buffer p))"
  have "length ?w = ?h" using wf room unfolding pb_wf_def by (simp; linarith)
  then obtain b where b: "PacketBuffer_emit p nu (WriteStream (stream_init ?w)) = (Inr (), WriteStream b)"
    "bits_of (bufdata b) = header_bits p nu"
    using emit_writes [OF w] by blast
  have lb: "length (bufdata b) = ?h" using arg_cong [OF b(2), of length] length_header_bits [OF w] by simp
  have "take (?h + k) (drop (?e - ?h) (overwrite (pb_buffer p) (?e - ?h) (bufdata b))) = bufdata b @ take k (drop ?e (pb_buffer p))" for k
    using lb room wf by (auto simp: overwrite_def pb_wf_def)
  then show ?thesis
    using room b by (auto simp: emitPacket_def Let_def pb_payload_def)
qed

end
