(* ===== verification/PacketParse.thy ===== *)
theory PacketParse
  imports PacketEmit
begin

text \<open>
  \<open>parsePacket\<close> reads back what \<open>emitPacket\<close> wrote, in another packet buffer.
\<close>

section \<open>Reading headers into a packet buffer\<close>

definition pop_reads :: "'a pop \<Rightarrow> PacketBuffer \<Rightarrow> bool list \<Rightarrow> 'a \<Rightarrow> PacketBuffer \<Rightarrow> bool" where
  "pop_reads m p bs a p' \<longleftrightarrow> (\<forall>b rest. wf_buf b \<longrightarrow> bit_pos b mod 8 = 0 \<longrightarrow> bits_ahead b = bs @ rest \<longrightarrow>
     (\<exists>b'. m (p, ReadStream b) = (Inr a, p', ReadStream b') \<and> consumed b (length bs) b'))"

lemma pop_reads_bind:
  assumes m: "pop_reads m p bs a p'" and bs: "length bs mod 8 = 0" and f: "pop_reads (f a) p' bs' c p''"
  shows "pop_reads (pop_bind m f) p (bs @ bs') c p''"
  unfolding pop_reads_def
proof (intro allI impI)
  fix b :: bit_buf and rest
  assume b: "wf_buf b" "bit_pos b mod 8 = 0" "bits_ahead b = (bs @ bs') @ rest"
  then obtain b1 where b1: "m (p, ReadStream b) = (Inr a, p', ReadStream b1)" "consumed b (length bs) b1"
    using m unfolding pop_reads_def by fastforce
  have "wf_buf b1" "bit_pos b1 mod 8 = 0" "bits_ahead b1 = bs' @ rest"
    using b1(2) b bs consumed_ahead [OF b1(2)] by (auto simp: consumed_def mod_add_eq [symmetric])
  then obtain b2 where "f a (p', ReadStream b1) = (Inr c, p'', ReadStream b2)" "consumed b1 (length bs') b2"
    using f [unfolded pop_reads_def, rule_format, of b1 rest] by auto
  then show "\<exists>b'. pop_bind m f (p, ReadStream b) = (Inr c, p'', ReadStream b') \<and> consumed b (length (bs @ bs')) b'"
    using b1 consumed_trans by (auto simp: pop_bind_def)
qed

lemma pop_reads_ser: "readsB 0 (m p) bs a \<Longrightarrow> pop_reads (pop_ser m) p bs a p"
  unfolding pop_reads_def readsB_def pop_ser_def by fastforce

lemma pop_reads_set: "pop_reads (pop_set f) p [] () (f p)"
  by (auto simp: pop_reads_def pop_set_def consumed_def)

lemma pop_reads_return: "pop_reads (pop_return a) p [] a p"
  by (auto simp: pop_reads_def pop_return_def consumed_def)

lemma pop_reads_header:
  assumes "readsB 0 (m p) bs a" "length bs mod 8 = 0" "p' = upd a p"
  shows "pop_reads (pop_header m upd) p bs () p'"
  using pop_reads_bind [OF pop_reads_ser [where m = m and p = p, OF assms(1)] assms(2), of "\<lambda>h. pop_set (upd h)" "[]"]
    pop_reads_set [of "upd a" p] assms(3)
  by (simp add: pop_header_def)

lemma pop_reads_step:
  assumes "pop_reads m p bs a p'" "wf_buf b" "bit_pos b mod 8 = 0" "bits_ahead b = bs @ rest"
  shows "\<exists>b'. m (p, ReadStream b) = (Inr a, p', ReadStream b') \<and> consumed b (length bs) b'"
  using assms(1) [unfolded pop_reads_def, rule_format, OF assms(2-4)] .

lemma pop_reads_bytes:
  "pop_reads m p bs a p' \<Longrightarrow> bits_of d = bs @ rest \<Longrightarrow>
    \<exists>b. m (p, ReadStream (stream_init d)) = (Inr a, p', ReadStream b) \<and> consumed (stream_init d) (length bs) b"
  by (rule pop_reads_step) simp_all

text \<open>A step that only looks ahead.\<close>

lemma pop_reads_peek:
  assumes "\<And>b. wf_buf b \<Longrightarrow> bit_pos b mod 8 = 0 \<Longrightarrow> \<exists>rest. bits_ahead b = bs @ rest \<Longrightarrow> m (p, ReadStream b) = (Inr a, p, ReadStream b)"
    and "pop_reads (f a) p bs c p'"
  shows "pop_reads (pop_bind m f) p bs c p'"
  using assms unfolding pop_reads_def pop_bind_def by fastforce

lemma lookahead_bytes:
  assumes "wf_buf b" "bit_pos b mod 8 = 0" "bits_ahead b = bits_of d @ rest" "length d \<noteq> npos"
  shows "lookahead (length d) (ReadStream b) = (Inr d, ReadStream b)"
proof -
  have al: "bitPos b = 0" by (rule aligned_pos(1) [OF assms(1,2)])
  have "8 * length d \<le> bits_room b" using arg_cong [OF assms(3), of length] by simp
  then have "length d \<le> bytesLeft b" using bytesLeft_iff_aligned [OF assms(1) al, of "length d"] by simp
  then show ?thesis using al assms(4) peek_bits [OF al assms(3)] by (simp add: ReadStream_lookahead_def)
qed

section \<open>Transport headers\<close>

definition l4_read :: "PacketBuffer \<Rightarrow> PacketBuffer \<Rightarrow> PacketBuffer" where
  "l4_read p q = (case pb_l4Valid p of L4None \<Rightarrow> q
     | L4ICMP \<Rightarrow> q\<lparr>pb_icmp := pb_icmp p, pb_l4Valid := L4ICMP\<rparr>
     | L4SCMP \<Rightarrow> q\<lparr>pb_scmp := pb_scmp p, pb_l4Valid := L4SCMP\<rparr>
     | L4TCP \<Rightarrow> q\<lparr>pb_tcp := (pb_tcp p)\<lparr>tcp_options := tcp_merge (tcp_optMask (pb_tcp p)) (tcp_options (pb_tcp p)) (tcp_options (pb_tcp q))\<rparr>,
         pb_l4Valid := L4TCP\<rparr>
     | L4UDP \<Rightarrow> q\<lparr>pb_udp := pb_udp p, pb_l4Valid := L4UDP\<rparr>)"

lemmas proto_defs = ScionProto_TCP_def ScionProto_UDP_def ScionProto_HBHOpt_def ScionProto_E2EOpt_def ScionProto_SCMP_def
  IPProto_TCP_def IPProto_UDP_def IPProto_ICMPv6_def

lemma l4_bits_8: "writable p \<Longrightarrow> length (l4_bits p) mod 8 = 0"
  by (cases "pb_l4Valid p") (simp_all add: l4_bits_def writable_def length_SCMP_bits length_TCP_bits)

lemma parseL4_reads:
  assumes "writable p" "pb_l4Valid p \<noteq> L4None" "blank_options (tcp_options (pb_tcp q))"
  shows "pop_reads (parseL4 (L4Type_code (pb_l4Valid p))) q (l4_bits p) () (l4_read p q)"
proof (cases "pb_l4Valid p")
  case L4TCP
  then have "valid_TCP (pb_tcp p)" using assms(1) by (simp add: writable_def)
  with L4TCP show ?thesis
    by (simp add: parseL4_def l4_bits_def l4_read_def proto_defs)
      (rule pop_reads_header [OF TCP_reads], use assms(3) in \<open>simp_all add: length_TCP_bits\<close>)
qed (use assms in \<open>auto simp: parseL4_def l4_bits_def l4_read_def proto_defs length_SCMP_bits writable_def
    intro!: pop_reads_header icmp.reads_aligned scmp.reads_aligned udp.reads_aligned\<close>)

section \<open>The SCION header\<close>

definition scion_read :: "PacketBuffer \<Rightarrow> PacketBuffer \<Rightarrow> PacketBuffer" where
  "scion_read p q = q\<lparr>pb_sci := pb_sci p,
     pb_path := (pb_path q)\<lparr>rp_source := a_ia (sc_src (pb_sci p)), rp_destination := a_ia (sc_dst (pb_sci p)),
       rp_type := sc_ptype (pb_sci p), rp_size := rp_size (pb_path p), rp_digest := None,
       rp_path := overwrite (rp_path (pb_path q)) 0 (RawPath_encoded (pb_path p))\<rparr>,
     pb_scionValid := True\<rparr>"

definition scion_fits :: "PacketBuffer \<Rightarrow> bool" where
  "scion_fits p \<longleftrightarrow> valid_SCION (pb_sci p) \<and> 4 * unat (sc_hlen (pb_sci p)) = SCION_size (pb_sci p) + rp_size (pb_path p)"

lemma parseScion_reads:
  assumes w: "writable p" "pb_scionValid p" "scion_fits p"
    and nh: "sc_nh (pb_sci p) = L4Type_code (pb_l4Valid p)" "pb_l4Valid p \<noteq> L4None"
  shows "pop_reads parseScion q (SCION_bits (pb_sci p) @ bits_of (RawPath_encoded (pb_path p)))
    (L4Type_code (pb_l4Valid p)) (scion_read p q)"
proof -
  let ?d = "RawPath_encoded (pb_path p)"
  have v: "valid_SCION (pb_sci p)" and sz: "rp_size (pb_path p) \<le> RawPath_MAX_SIZE" "length ?d = rp_size (pb_path p)"
    using w by (auto simp: writable_def scion_fits_def RawPath_encoded_def)
  have "SCION_pathSize (pb_sci p) = of_nat (rp_size (pb_path p))"
    using w(3) by (simp add: SCION_pathSize_def scion_fits_def)
  then have ps: "unat (SCION_pathSize (pb_sci p)) = length ?d"
    using sz by (simp only: unsigned_of_nat) (simp add: take_bit_nat_eq_self RawPath_MAX_SIZE_def)
  have npos: "length ?d \<noteq> npos" using sz by (simp add: npos_def RawPath_MAX_SIZE_def)
  let ?q1 = "q\<lparr>pb_sci := pb_sci p\<rparr>"
  have h: "pop_reads (pop_header (\<lambda>p. SCION_serialize (pb_sci p)) (\<lambda>h p. p\<lparr>pb_sci := h\<rparr>)) q (SCION_bits (pb_sci p)) () ?q1"
    by (rule pop_reads_header [OF scion.reads_aligned [OF v]]) simp_all
  have la: "pop_ser (\<lambda>p. lookahead (unat (SCION_pathSize (pb_sci p)))) (?q1, ReadStream b) = (Inr ?d, ?q1, ReadStream b)"
    if "wf_buf b" "bit_pos b mod 8 = 0" "\<exists>rest. bits_ahead b = bits_of ?d @ rest" for b
    using that lookahead_bytes [OF _ _ _ npos] by (auto simp: pop_ser_def ps)
  let ?q2 = "(scion_read p q)\<lparr>pb_scionValid := pb_scionValid q\<rparr>"
  have as: "pop_reads (pop_header
       (\<lambda>p. case RawPath_assign (pb_path p) (a_ia (sc_src (pb_sci p))) (a_ia (sc_dst (pb_sci p))) (sc_ptype (pb_sci p)) ?d of
              Inl _ \<Rightarrow> ser_error ''path too long'' | Inr rp \<Rightarrow> ser_return rp) (\<lambda>rp p. p\<lparr>pb_path := rp\<rparr>)) ?q1 [] () ?q2"
    by (rule pop_reads_header) (use sz in \<open>auto simp: RawPath_assign_def scion_read_def intro: readsB_return\<close>)
  have adv: "pop_reads (pop_ser (\<lambda>p. advanceBytes (unat (SCION_pathSize (pb_sci p))))) ?q2 (bits_of ?d) () ?q2"
    by (rule pop_reads_ser, rule readsB_advanceBytes) (use ps in \<open>simp_all add: scion_read_def\<close>)
  have no_opt: "L4Type_code (pb_l4Valid p) \<noteq> ScionProto_HBHOpt" "L4Type_code (pb_l4Valid p) \<noteq> ScionProto_E2EOpt"
    using nh(2) by (cases "pb_l4Valid p"; simp add: proto_defs)+
  have hb: "pop_reads (pop_ser (\<lambda>p. skip_opts ScionProto_HBHOpt HopByHopOpts_serialize (sc_nh (pb_sci p)))) ?q2 []
      (L4Type_code (pb_l4Valid p)) ?q2"
    by (rule pop_reads_ser) (simp add: skip_opts_def scion_read_def nh(1) no_opt readsB_return)
  have ee: "pop_reads (pop_ser (\<lambda>_. skip_opts ScionProto_E2EOpt EndToEndOpts_serialize (L4Type_code (pb_l4Valid p)))) ?q2 []
      (L4Type_code (pb_l4Valid p)) ?q2"
    by (rule pop_reads_ser) (simp add: skip_opts_def no_opt readsB_return)
  have fin: "pop_reads (pop_bind (pop_set (\<lambda>p. p\<lparr>pb_scionValid := True\<rparr>)) (\<lambda>_. pop_return (L4Type_code (pb_l4Valid p)))) ?q2 []
      (L4Type_code (pb_l4Valid p)) (scion_read p q)"
    using pop_reads_bind [OF pop_reads_set [of "\<lambda>p. p\<lparr>pb_scionValid := True\<rparr>" ?q2]
        _ pop_reads_return [of "L4Type_code (pb_l4Valid p)"]] by (simp add: scion_read_def)
  have "pop_reads (pop_bind (pop_header
       (\<lambda>p. case RawPath_assign (pb_path p) (a_ia (sc_src (pb_sci p))) (a_ia (sc_dst (pb_sci p))) (sc_ptype (pb_sci p)) ?d of
              Inl _ \<Rightarrow> ser_error ''path too long'' | Inr rp \<Rightarrow> ser_return rp) (\<lambda>rp p. p\<lparr>pb_path := rp\<rparr>)) (\<lambda>_.
     pop_bind (pop_ser (\<lambda>p. advanceBytes (unat (SCION_pathSize (pb_sci p))))) (\<lambda>_.
     pop_bind (pop_ser (\<lambda>p. skip_opts ScionProto_HBHOpt HopByHopOpts_serialize (sc_nh (pb_sci p)))) (\<lambda>proto.
     pop_bind (pop_ser (\<lambda>_. skip_opts ScionProto_E2EOpt EndToEndOpts_serialize proto)) (\<lambda>proto.
     pop_bind (pop_set (\<lambda>p. p\<lparr>pb_scionValid := True\<rparr>)) (\<lambda>_. pop_return proto)))))) ?q1
     ([] @ bits_of ?d @ [] @ [] @ []) (L4Type_code (pb_l4Valid p)) (scion_read p q)"
    by (rule pop_reads_bind [OF as] pop_reads_bind [OF adv] pop_reads_bind [OF hb] pop_reads_bind [OF ee] fin | simp)+
  then have "pop_reads (pop_bind (pop_ser (\<lambda>p. lookahead (unat (SCION_pathSize (pb_sci p))))) (\<lambda>pdata. pop_bind (pop_header
       (\<lambda>p. case RawPath_assign (pb_path p) (a_ia (sc_src (pb_sci p))) (a_ia (sc_dst (pb_sci p))) (sc_ptype (pb_sci p)) pdata of
              Inl _ \<Rightarrow> ser_error ''path too long'' | Inr rp \<Rightarrow> ser_return rp) (\<lambda>rp p. p\<lparr>pb_path := rp\<rparr>)) (\<lambda>_.
     pop_bind (pop_ser (\<lambda>p. advanceBytes (unat (SCION_pathSize (pb_sci p))))) (\<lambda>_.
     pop_bind (pop_ser (\<lambda>p. skip_opts ScionProto_HBHOpt HopByHopOpts_serialize (sc_nh (pb_sci p)))) (\<lambda>proto.
     pop_bind (pop_ser (\<lambda>_. skip_opts ScionProto_E2EOpt EndToEndOpts_serialize proto)) (\<lambda>proto.
     pop_bind (pop_set (\<lambda>p. p\<lparr>pb_scionValid := True\<rparr>)) (\<lambda>_. pop_return proto))))))) ?q1
     (bits_of ?d) (L4Type_code (pb_l4Valid p)) (scion_read p q)"
    by (intro pop_reads_peek [OF la]) simp_all
  then show ?thesis
    unfolding parseScion_def by (intro pop_reads_bind [OF h]) simp_all
qed

section \<open>The packet\<close>

definition ip_src_proto :: "PacketBuffer \<Rightarrow> IPAddress \<times> byte" where
  "ip_src_proto p = (case pb_ipValid p of IPv4Valid \<Rightarrow> (ip4_src (pb_ipv4 p), ip4_proto (pb_ipv4 p))
     | IPv6Valid \<Rightarrow> (ip6_src (pb_ipv6 p), ip6_nh (pb_ipv6 p)) | IPNone \<Rightarrow> (UnspecifiedIPv6, 0))"

text \<open>What the callback says about a UDP packet.\<close>

definition takes_for_scion :: "(IPEndpoint \<Rightarrow> IPEndpoint \<Rightarrow> bool) option \<Rightarrow> PacketBuffer \<Rightarrow> UDP \<Rightarrow> bool" where
  "takes_for_scion is_scion p u = (case is_scion of None \<Rightarrow> False
     | Some f \<Rightarrow> f \<lparr>m_host = fst (ip_src_proto p), m_port = udp_sport u\<rparr> \<lparr>m_host = fst (ip_src_proto p), m_port = udp_dport u\<rparr>)"

text \<open>
  The protocol numbers and lengths in the headers describe the headers that follow. The IPv4 header is one that the
  reader accepts, see \<open>ipv4_roundtrip_iff\<close>.
\<close>

definition coherent :: "(IPEndpoint \<Rightarrow> IPEndpoint \<Rightarrow> bool) option \<Rightarrow> PacketBuffer \<Rightarrow> bool \<Rightarrow> bool" where
  "coherent is_scion p nu \<longleftrightarrow> pb_l4Valid p \<noteq> L4None
     \<and> (pb_scionValid p \<longrightarrow> scion_fits p \<and> sc_nh (pb_sci p) = L4Type_code (pb_l4Valid p))
     \<and> (if nu then pb_scionValid p
        else pb_ipValid p \<noteq> IPNone
          \<and> (pb_ipValid p = IPv4Valid \<longrightarrow> onesComplementChecksumScalar (IPv4_bytes (pb_ipv4 p) (IPv4_chksum (pb_ipv4 p))) 0 = 0xffff)
          \<and> (pb_ipValid p = IPv6Valid \<longrightarrow> fits 20 (ip6_fl (pb_ipv6 p)))
          \<and> pb_outerUDPValid p = pb_scionValid p
          \<and> snd (ip_src_proto p) = (if pb_scionValid p then IPProto_UDP else L4Type_code (pb_l4Valid p))
          \<and> (pb_scionValid p \<longrightarrow> takes_for_scion is_scion p (pb_outerUDP p))
          \<and> (\<not> pb_scionValid p \<longrightarrow> pb_l4Valid p = L4UDP \<longrightarrow> \<not> takes_for_scion is_scion p (pb_udp p)))"

definition ip_read :: "PacketBuffer \<Rightarrow> PacketBuffer \<Rightarrow> PacketBuffer" where
  "ip_read p q = (case pb_ipValid p of IPv4Valid \<Rightarrow> q\<lparr>pb_ipv4 := pb_ipv4 p, pb_ipValid := IPv4Valid\<rparr>
     | IPv6Valid \<Rightarrow> q\<lparr>pb_ipv6 := pb_ipv6 p, pb_ipValid := IPv6Valid\<rparr> | IPNone \<Rightarrow> q)"

definition transport_read :: "PacketBuffer \<Rightarrow> bool \<Rightarrow> PacketBuffer \<Rightarrow> PacketBuffer" where
  "transport_read p nu q =
     (if pb_scionValid p
      then l4_read p (scion_read p (if nu then q else q\<lparr>pb_outerUDP := emitted_udp p, pb_outerUDPValid := True\<rparr>))
      else if pb_l4Valid p = L4UDP
      then q\<lparr>pb_outerUDP := pb_udp p, pb_udp := pb_udp p, pb_outerUDPValid := False, pb_l4Valid := L4UDP\<rparr>
      else l4_read p q)"

lemma scion_l4_reads:
  assumes "writable p" "pb_scionValid p" "scion_fits p" "sc_nh (pb_sci p) = L4Type_code (pb_l4Valid p)"
    "pb_l4Valid p \<noteq> L4None" "blank_options (tcp_options (pb_tcp q))"
  shows "pop_reads (pop_bind parseScion parseL4) q (inner_bits p) () (l4_read p (scion_read p q))"
proof -
  have "blank_options (tcp_options (pb_tcp (scion_read p q)))" using assms(6) by (simp add: scion_read_def)
  from pop_reads_bind [where f = parseL4, OF parseScion_reads [OF assms(1-5)] _ parseL4_reads [OF assms(1,5) this]] assms(2)
  show ?thesis by (simp add: inner_bits_def)
qed

lemma pop_reads_state: "pop_reads m (f p) bs a p' \<Longrightarrow> c p \<Longrightarrow> pop_reads (\<lambda>(p, st). if c p then m (f p, st) else (Inr r, g p, st)) p bs a p'"
  "\<not> c p \<Longrightarrow> pop_reads (\<lambda>(p, st). if c p then m (f p, st) else (Inr r, g p, st)) p [] r (g p)"
  by (auto simp: pop_reads_def consumed_def)

text \<open>After the outer UDP header.\<close>

definition after_udp :: "(IPEndpoint \<Rightarrow> IPEndpoint \<Rightarrow> bool) option \<Rightarrow> IPAddress \<Rightarrow> unit pop" where
  "after_udp is_scion src = (\<lambda>(p, st).
     if (case is_scion of None \<Rightarrow> False
         | Some f \<Rightarrow> f \<lparr>m_host = src, m_port = udp_sport (pb_outerUDP p)\<rparr> \<lparr>m_host = src, m_port = udp_dport (pb_outerUDP p)\<rparr>)
     then pop_bind parseScion parseL4 (p\<lparr>pb_outerUDPValid := True\<rparr>, st)
     else (Inr (), p\<lparr>pb_udp := pb_outerUDP p, pb_outerUDPValid := False, pb_l4Valid := L4UDP\<rparr>, st))"

lemma after_udp_reads:
  "takes_for_scion is_scion p (pb_outerUDP q) \<Longrightarrow>
     pop_reads (pop_bind parseScion parseL4) (q\<lparr>pb_outerUDPValid := True\<rparr>) bs a p' \<Longrightarrow>
     pop_reads (after_udp is_scion (fst (ip_src_proto p))) q bs a p'"
  "\<not> takes_for_scion is_scion p (pb_outerUDP q) \<Longrightarrow>
     pop_reads (after_udp is_scion (fst (ip_src_proto p))) q [] ()
       (q\<lparr>pb_udp := pb_outerUDP q, pb_outerUDPValid := False, pb_l4Valid := L4UDP\<rparr>)"
  by (simp_all add: pop_reads_def after_udp_def takes_for_scion_def consumed_def)

lemma parse_transport_udp:
  "parse_transport False is_scion src IPProto_UDP =
     pop_bind (pop_header (\<lambda>p. UDP_serialize (pb_outerUDP p)) (\<lambda>h p. p\<lparr>pb_outerUDP := h\<rparr>)) (\<lambda>_. after_udp is_scion src)"
  by (simp add: parse_transport_def after_udp_def)

lemma outer_udp_reads: "pop_reads (pop_header (\<lambda>p. UDP_serialize (pb_outerUDP p)) (\<lambda>h p. p\<lparr>pb_outerUDP := h\<rparr>)) q (UDP_bits u) ()
    (q\<lparr>pb_outerUDP := u\<rparr>)"
  by (rule pop_reads_header [OF udp.reads_aligned]) simp_all

lemma parse_transport_reads:
  assumes w: "writable p" and c: "coherent is_scion p nu" and b: "blank_options (tcp_options (pb_tcp q))"
  shows "pop_reads (parse_transport nu is_scion (fst (ip_src_proto p)) (snd (ip_src_proto p))) q
    ((if \<not> nu \<and> pb_outerUDPValid p then UDP_bits (emitted_udp p) else []) @ inner_bits p) () (transport_read p nu q)"
proof (cases nu)
  case True
  then show ?thesis using scion_l4_reads [OF w _ _ _ _ b] c by (simp add: parse_transport_def transport_read_def coherent_def)
next
  case nu: False
  have l4: "pb_l4Valid p \<noteq> L4None" using c by (simp add: coherent_def)
  show ?thesis
  proof (cases "pb_scionValid p")
    case True
    let ?q1 = "q\<lparr>pb_outerUDP := emitted_udp p\<rparr>"
    have proto: "snd (ip_src_proto p) = IPProto_UDP" "pb_outerUDPValid p" using True c nu by (simp_all add: coherent_def)
    have "takes_for_scion is_scion p (pb_outerUDP ?q1)"
      using True c nu by (simp add: coherent_def takes_for_scion_def emitted_udp_def split: option.splits)
    then have "pop_reads (after_udp is_scion (fst (ip_src_proto p))) ?q1 (inner_bits p) ()
        (l4_read p (scion_read p (?q1\<lparr>pb_outerUDPValid := True\<rparr>)))"
      by (rule after_udp_reads(1)) (rule scion_l4_reads, use True w c b l4 in \<open>simp_all add: coherent_def\<close>)
    from pop_reads_bind [where f = "\<lambda>_. after_udp is_scion (fst (ip_src_proto p))", OF outer_udp_reads _ this] show ?thesis
      using True nu by (simp add: proto parse_transport_udp transport_read_def)
  next
    case False
    then have i: "inner_bits p = l4_bits p" "\<not> pb_outerUDPValid p" "snd (ip_src_proto p) = L4Type_code (pb_l4Valid p)"
      using c nu by (simp_all add: inner_bits_def coherent_def)
    show ?thesis
    proof (cases "pb_l4Valid p = L4UDP")
      case True
      have pr: "snd (ip_src_proto p) = IPProto_UDP" using True i(3) by simp
      have n: "\<not> takes_for_scion is_scion p (pb_outerUDP (q\<lparr>pb_outerUDP := pb_udp p\<rparr>))"
        using False True c nu by (simp add: coherent_def)
      from pop_reads_bind [where f = "\<lambda>_. after_udp is_scion (fst (ip_src_proto p))", OF outer_udp_reads _ after_udp_reads(2) [OF n]]
      show ?thesis
        using False True nu i(2) by (simp add: i(1) pr parse_transport_udp transport_read_def l4_bits_def)
    next
      case l: False
      have "L4Type_code (pb_l4Valid p) \<noteq> IPProto_UDP" using l l4 by (cases "pb_l4Valid p") (simp_all add: proto_defs)
      then show ?thesis
        using parseL4_reads [OF w l4 b] False nu l i by (simp add: parse_transport_def transport_read_def)
    qed
  qed
qed

section \<open>The IP header and the whole packet\<close>

lemma IPv4_bits_version: "wf_IPv4 h \<Longrightarrow> \<exists>bs. bits_of (IPv4_bytes h c) = to_bits 4 (4 :: byte) @ bs"
  unfolding IPv4_bits [symmetric] by blast

lemma ip_version_seek:
  assumes "bits_of d = to_bits 4 (v :: byte) @ rest" "fits 4 v"
  shows "pop_ser (\<lambda>_. serializeBits (0 :: byte) 4) (q, ReadStream (stream_init d)) = (Inr v, q, ReadStream (advance_bits_pos 4 (stream_init d)))"
    "pop_ser (\<lambda>_. ser_seek 0) (q, ReadStream (advance_bits_pos 4 (stream_init d))) = (Inr (), q, ReadStream (stream_init d))"
proof -
  obtain b where b: "serializeBits (0 :: byte) 4 (ReadStream (stream_init d)) = (Inr v, ReadStream b)" "consumed (stream_init d) 4 b"
    using readsB_bytes [OF readsB_serializeBits [of 4 v 0 0] assms(1)] assms(2) by auto
  have "b = advance_bits_pos 4 (stream_init d)"
    using b by (auto simp: serializeBits_def on_stream_def ReadStream_serializeBits_def Let_def split: if_splits)
  then show "pop_ser (\<lambda>_. serializeBits (0 :: byte) 4) (q, ReadStream (stream_init d)) = (Inr v, q, ReadStream (advance_bits_pos 4 (stream_init d)))"
    using b(1) by (simp add: pop_ser_def)
  show "pop_ser (\<lambda>_. ser_seek 0) (q, ReadStream (advance_bits_pos 4 (stream_init d))) = (Inr (), q, ReadStream (stream_init d))"
    by (auto simp: pop_ser_def ser_seek_def seek_def npos_def stream_init_def advance_bits_pos_def)
qed

lemma parseIp_reads:
  assumes w: "writable p" and c: "coherent is_scion p False" and d: "bits_of d = ip_bits p @ rest"
  shows "\<exists>b. parseIp (q, ReadStream (stream_init d)) = (Inr (ip_src_proto p), ip_read p q, ReadStream b) \<and>
    consumed (stream_init d) (length (ip_bits p)) b"
proof (cases "pb_ipValid p")
  case IPNone
  then show ?thesis using c by (simp add: coherent_def)
next
  case IPv4Valid
  then have v: "wf_IPv4 (pb_ipv4 p)" "onesComplementChecksumScalar (IPv4_bytes (pb_ipv4 p) (IPv4_chksum (pb_ipv4 p))) 0 = 0xffff"
    using w c by (simp_all add: writable_def coherent_def)
  have bits: "ip_bits p = bits_of (IPv4_bytes (pb_ipv4 p) (IPv4_chksum (pb_ipv4 p)))" by (simp add: ip_bits_def IPv4Valid)
  obtain bs where "bits_of d = to_bits 4 (4 :: byte) @ bs" using IPv4_bits_version [OF v(1)] d bits by (metis append.assoc)
  note seek = ip_version_seek [OF this]
  have r: "pop_reads (pop_header (\<lambda>p. IPv4_serialize (pb_ipv4 p)) (\<lambda>h p. p\<lparr>pb_ipv4 := h, pb_ipValid := IPv4Valid\<rparr>)) q (ip_bits p) ()
      (ip_read p q)"
    by (rule pop_reads_header [where m = "\<lambda>p. IPv4_serialize (pb_ipv4 p)" and p = q, OF IPv4_reads [OF v, of "pb_ipv4 q", folded bits]]) (simp_all add: bits ip_read_def IPv4Valid)
  obtain b where "pop_header (\<lambda>p. IPv4_serialize (pb_ipv4 p)) (\<lambda>h p. p\<lparr>pb_ipv4 := h, pb_ipValid := IPv4Valid\<rparr>)
      (q, ReadStream (stream_init d)) = (Inr (), ip_read p q, ReadStream b)" "consumed (stream_init d) (length (ip_bits p)) b"
    using pop_reads_bytes [OF r d] by (elim exE conjE)
  then show ?thesis
    using seek [of q] by (auto simp: parseIp_def pop_bind_def fits_def ip_read_def ip_src_proto_def IPv4Valid)
next
  case IPv6Valid
  then have v: "valid_IPv6 (pb_ipv6 p)" using w c by (simp add: writable_def coherent_def valid_IPv6_def)
  have bits: "ip_bits p = IPv6_bits (pb_ipv6 p)" by (simp add: ip_bits_def IPv6Valid)
  obtain bs where "bits_of d = to_bits 4 (6 :: byte) @ bs" using d by (simp add: bits IPv6_bits_def)
  note seek = ip_version_seek [OF this]
  have r: "pop_reads (pop_header (\<lambda>p. IPv6_serialize (pb_ipv6 p)) (\<lambda>h p. p\<lparr>pb_ipv6 := h, pb_ipValid := IPv6Valid\<rparr>)) q (ip_bits p) ()
      (ip_read p q)"
    by (rule pop_reads_header [where m = "\<lambda>p. IPv6_serialize (pb_ipv6 p)" and p = q, OF ipv6.reads_aligned [OF v TrueI, folded bits]]) (use v in \<open>simp_all add: bits valid_IPv6_def ip_read_def IPv6Valid\<close>)
  obtain b where "pop_header (\<lambda>p. IPv6_serialize (pb_ipv6 p)) (\<lambda>h p. p\<lparr>pb_ipv6 := h, pb_ipValid := IPv6Valid\<rparr>)
      (q, ReadStream (stream_init d)) = (Inr (), ip_read p q, ReadStream b)" "consumed (stream_init d) (length (ip_bits p)) b"
    using pop_reads_bytes [OF r d] by (elim exE conjE)
  then show ?thesis
    using seek [of q] by (auto simp: parseIp_def pop_bind_def fits_def ip_read_def ip_src_proto_def IPv6Valid)
qed

text \<open>The bytes after the IP header do not look like a STUN message: bytes 4 to 7 are not the magic cookie.\<close>

definition no_stun :: "PacketBuffer \<Rightarrow> bool \<Rightarrow> byte list \<Rightarrow> bool" where
  "no_stun p nu d \<longleftrightarrow> \<not> detectStun (take stunHeaderSize (drop (measureHeaders p nu - measureHeaders p True
     - (if \<not> nu \<and> pb_outerUDPValid p then UDP_size else 0)) d))"

lemma stun_follows_no:
  assumes "wf_buf b" "bit_pos b mod 8 = 0" "\<not> detectStun (take stunHeaderSize (drop (byteIter b) (bufdata b)))"
  shows "stun_follows (q, ReadStream b) = (Inr False, q, ReadStream b)"
  using aligned_pos(1) [OF assms(1,2)] assms(3)
  by (simp add: stun_follows_def ReadStream_lookahead_def stunHeaderSize_def npos_def peek_def)

definition packet_read :: "PacketBuffer \<Rightarrow> bool \<Rightarrow> PacketBuffer \<Rightarrow> PacketBuffer" where
  "packet_read p nu q = transport_read p nu (if nu then q else ip_read p q)"

lemma tcp_read [simp]: "pb_tcp (ip_read p q) = pb_tcp q"
  by (cases "pb_ipValid p") (simp_all add: ip_read_def)

lemma ip_stage_reads:
  assumes w: "writable p" and c: "coherent is_scion p nu" and d: "bits_of d = header_bits p nu @ rest"
  obtains b where "(if nu then pop_return (UnspecifiedIPv6, 0) else parseIp) (q, ReadStream (stream_init d))
      = (Inr (if nu then (UnspecifiedIPv6, 0) else ip_src_proto p), if nu then q else ip_read p q, ReadStream b)"
    "consumed (stream_init d) (length (if nu then [] else ip_bits p)) b" "wf_buf b" "bit_pos b mod 8 = 0" "bufdata b = d"
    "bits_ahead b = (if \<not> nu \<and> pb_outerUDPValid p then UDP_bits (emitted_udp p) else []) @ inner_bits p @ rest"
    "byteIter b = measureHeaders p nu - measureHeaders p True - (if \<not> nu \<and> pb_outerUDPValid p then UDP_size else 0)"
proof -
  let ?u = "(if \<not> nu \<and> pb_outerUDPValid p then UDP_bits (emitted_udp p) else []) @ inner_bits p"
  let ?i = "if nu then [] else ip_bits p"
  have hb: "header_bits p nu = ?i @ ?u" by (simp add: header_bits_def)
  obtain b1 where b1: "(if nu then pop_return (UnspecifiedIPv6, 0) else parseIp) (q, ReadStream (stream_init d))
      = (Inr (if nu then (UnspecifiedIPv6, 0) else ip_src_proto p), if nu then q else ip_read p q, ReadStream b1)"
    "consumed (stream_init d) (length ?i) b1"
  proof (cases nu)
    case True
    then show thesis using that [of "stream_init d"] by (simp add: pop_return_def consumed_def)
  next
    case False
    then have "coherent is_scion p False" "bits_of d = ip_bits p @ (?u @ rest)" using c d hb by simp_all
    from parseIp_reads [OF w this, of q] show thesis using that False by auto
  qed
  have i8: "length ?i mod 8 = 0" by (simp add: length_ip_bits [OF w])
  have b1': "wf_buf b1" "bit_pos b1 mod 8 = 0" "bits_ahead b1 = ?u @ rest" "bufdata b1 = d" "8 * byteIter b1 = length ?i"
    using b1(2) i8 consumed_ahead [OF b1(2)] d aligned_pos [of b1] by (auto simp: consumed_def hb)
  have "length ?i + length ?u = 8 * measureHeaders p nu" using length_header_bits [OF w, of nu] by (simp only: hb length_append)
  then have "byteIter b1 = measureHeaders p nu - measureHeaders p True - (if \<not> nu \<and> pb_outerUDPValid p then UDP_size else 0)"
    using b1'(5) length_inner [OF w] by (simp add: UDP_size_def split: if_splits)
  then show thesis using that [OF b1 b1'(1,2,4)] b1'(3) by simp
qed

lemma PacketBuffer_parse_reads:
  assumes w: "writable p" and c: "coherent is_scion p nu" and b: "blank_options (tcp_options (pb_tcp q))"
    and d: "bits_of d = header_bits p nu @ rest" and s: "no_stun p nu d"
  shows "\<exists>b. PacketBuffer_parse nu is_scion (q, ReadStream (stream_init d)) = (Inr (), packet_read p nu q, ReadStream b) \<and>
    consumed (stream_init d) (length (header_bits p nu)) b"
proof -
  let ?u = "(if \<not> nu \<and> pb_outerUDPValid p then UDP_bits (emitted_udp p) else []) @ inner_bits p"
  let ?q = "if nu then q else ip_read p q" and ?sp = "if nu then (UnspecifiedIPv6, 0) else ip_src_proto p"
  obtain b1 where b1: "(if nu then pop_return (UnspecifiedIPv6, 0) else parseIp) (q, ReadStream (stream_init d)) = (Inr ?sp, ?q, ReadStream b1)"
    "consumed (stream_init d) (length (if nu then [] else ip_bits p)) b1" "wf_buf b1" "bit_pos b1 mod 8 = 0" "bufdata b1 = d"
    "bits_ahead b1 = ?u @ rest"
    "byteIter b1 = measureHeaders p nu - measureHeaders p True - (if \<not> nu \<and> pb_outerUDPValid p then UDP_size else 0)"
    using ip_stage_reads [OF w c d, of q] by (metis append.assoc)
  have st: "stun_follows (?q, ReadStream b1) = (Inr False, ?q, ReadStream b1)"
    using s b1 by (intro stun_follows_no) (simp_all add: no_stun_def)
  have "blank_options (tcp_options (pb_tcp ?q))" using b by simp
  from pop_reads_step [OF parse_transport_reads [OF w c this] b1(3,4,6)] obtain b2 where
    b2: "parse_transport nu is_scion (fst (ip_src_proto p)) (snd (ip_src_proto p)) (?q, ReadStream b1)
      = (Inr (), transport_read p nu ?q, ReadStream b2)" "consumed b1 (length ?u) b2" by blast
  have "parse_transport nu is_scion (fst ?sp) (snd ?sp) (?q, ReadStream b1) = (Inr (), transport_read p nu ?q, ReadStream b2)"
    using b2(1) by (cases nu) (simp_all add: parse_transport_def)
  then show ?thesis
    using b1(1) st b2(2) consumed_trans [OF b1(2) b2(2)]
    by (cases ?sp; cases nu) (simp_all add: PacketBuffer_parse_def pop_bind_def packet_read_def header_bits_def split: if_splits)
qed

text \<open>Bytes that look like a STUN message are not parsed as a transport header, whatever the IP header says.\<close>

lemma parse_stun_first:
  assumes w: "writable p" and c: "coherent is_scion p nu" and d: "bits_of d = header_bits p nu @ rest" and s: "\<not> no_stun p nu d"
  shows "\<exists>r q' rs. PacketBuffer_parse nu is_scion (q, ReadStream (stream_init d)) = (r, q', rs) \<and>
    pb_l4Valid q' = pb_l4Valid q \<and> pb_scionValid q' = pb_scionValid q"
proof -
  let ?q = "if nu then q else ip_read p q" and ?sp = "if nu then (UnspecifiedIPv6, 0) else ip_src_proto p"
  obtain b1 where b1: "(if nu then pop_return (UnspecifiedIPv6, 0) else parseIp) (q, ReadStream (stream_init d)) = (Inr ?sp, ?q, ReadStream b1)"
    "wf_buf b1" "bit_pos b1 mod 8 = 0" "bufdata b1 = d"
    "byteIter b1 = measureHeaders p nu - measureHeaders p True - (if \<not> nu \<and> pb_outerUDPValid p then UDP_size else 0)"
    using ip_stage_reads [OF w c d, of q] by metis
  have det: "detectStun (take stunHeaderSize (drop (byteIter b1) (bufdata b1)))" using s b1(4,5) by (simp add: no_stun_def)
  then have "stunHeaderSize \<le> bytesLeft b1" by (simp add: detectStun_def bytesLeft_def min_def split: if_splits)
  then have st: "stun_follows (?q, ReadStream b1) = (Inr True, ?q, ReadStream b1)"
    using det aligned_pos(1) [OF b1(2,3)]
    by (simp add: stun_follows_def ReadStream_lookahead_def stunHeaderSize_def npos_def peek_def)
  have k: "pb_l4Valid ?q = pb_l4Valid q" "pb_scionValid ?q = pb_scionValid q"
    by (cases "pb_ipValid p"; simp add: ip_read_def)+
  obtain r st' where m: "STUN_serialize (pb_stun ?q) (ReadStream b1) = (r, st')" by (cases "STUN_serialize (pb_stun ?q) (ReadStream b1)")
  show ?thesis
    using b1(1) st m k
    by (cases r) (simp_all add: PacketBuffer_parse_def pop_bind_def pop_header_def pop_ser_def pop_set_def split_beta)
qed

end
