(* ===== verification/PacketBufferProperties.thy ===== *)
theory PacketBufferProperties
  imports PacketParse
begin

text \<open>
  The properties of the packet buffer: what is written and read back, and how the start of a packet can be taken for a
  STUN message.
\<close>

definition same_headers :: "PacketBuffer \<Rightarrow> bool \<Rightarrow> PacketBuffer \<Rightarrow> bool" where
  "same_headers p nu q \<longleftrightarrow> \<not> pb_stunValid q
     \<and> (\<not> nu \<longrightarrow> pb_ipValid q = pb_ipValid p \<and> (pb_ipValid p = IPv4Valid \<longrightarrow> pb_ipv4 q = pb_ipv4 p)
         \<and> (pb_ipValid p = IPv6Valid \<longrightarrow> pb_ipv6 q = pb_ipv6 p)
         \<and> pb_outerUDPValid q = pb_outerUDPValid p \<and> (pb_outerUDPValid p \<longrightarrow> pb_outerUDP q = emitted_udp p))
     \<and> pb_scionValid q = pb_scionValid p
     \<and> (pb_scionValid p \<longrightarrow> pb_sci q = pb_sci p \<and> RawPath_encoded (pb_path q) = RawPath_encoded (pb_path p)
         \<and> rp_size (pb_path q) = rp_size (pb_path p))
     \<and> pb_l4Valid q = pb_l4Valid p
     \<and> (pb_l4Valid p = L4ICMP \<longrightarrow> pb_icmp q = pb_icmp p) \<and> (pb_l4Valid p = L4SCMP \<longrightarrow> pb_scmp q = pb_scmp p)
     \<and> (pb_l4Valid p = L4UDP \<longrightarrow> pb_udp q = pb_udp p)
     \<and> (pb_l4Valid p = L4TCP \<longrightarrow> (\<exists>o0. pb_tcp q = (pb_tcp p)\<lparr>tcp_options := tcp_merge (tcp_optMask (pb_tcp p)) (tcp_options (pb_tcp p)) o0\<rparr>))"

definition receive :: "PacketBuffer \<Rightarrow> nat \<Rightarrow> byte list \<Rightarrow> bool \<Rightarrow> (IPEndpoint \<Rightarrow> IPEndpoint \<Rightarrow> bool) option
    \<Rightarrow> error_code \<times> PacketBuffer" where
  "receive q headroom bytes nu is_scion =
     parsePacket (pb_fill (snd (clearAndGetBuffer q headroom)) bytes) (length bytes) nu is_scion"

lemma encoded_read:
  assumes "writable p" "pb_scionValid p"
  shows "RawPath_encoded ((pb_path q)\<lparr>rp_source := a, rp_destination := b, rp_type := t, rp_size := rp_size (pb_path p), rp_digest := d,
    rp_path := overwrite (rp_path (pb_path q)) 0 (RawPath_encoded (pb_path p))\<rparr>) = RawPath_encoded (pb_path p)"
  using assms by (simp add: RawPath_encoded_def overwrite_def writable_def)

lemma l4_read_keeps [simp]:
  "pb_ipValid (l4_read p q) = pb_ipValid q" "pb_ipv4 (l4_read p q) = pb_ipv4 q" "pb_ipv6 (l4_read p q) = pb_ipv6 q"
  "pb_outerUDPValid (l4_read p q) = pb_outerUDPValid q" "pb_outerUDP (l4_read p q) = pb_outerUDP q"
  "pb_stunValid (l4_read p q) = pb_stunValid q" "pb_scionValid (l4_read p q) = pb_scionValid q"
  "pb_sci (l4_read p q) = pb_sci q" "pb_path (l4_read p q) = pb_path q"
  by (cases "pb_l4Valid p"; simp add: l4_read_def)+

lemma l4_read_l4:
  "pb_l4Valid p \<noteq> L4None \<Longrightarrow> pb_l4Valid (l4_read p q) = pb_l4Valid p"
  "pb_l4Valid p = L4ICMP \<Longrightarrow> pb_icmp (l4_read p q) = pb_icmp p"
  "pb_l4Valid p = L4SCMP \<Longrightarrow> pb_scmp (l4_read p q) = pb_scmp p"
  "pb_l4Valid p = L4UDP \<Longrightarrow> pb_udp (l4_read p q) = pb_udp p"
  "pb_l4Valid p = L4TCP \<Longrightarrow>
     pb_tcp (l4_read p q) = (pb_tcp p)\<lparr>tcp_options := tcp_merge (tcp_optMask (pb_tcp p)) (tcp_options (pb_tcp p)) (tcp_options (pb_tcp q))\<rparr>"
  by (cases "pb_l4Valid p"; simp add: l4_read_def)+

lemma ip_read_fields:
  "pb_outerUDPValid (ip_read p q) = pb_outerUDPValid q" "pb_stunValid (ip_read p q) = pb_stunValid q"
  "pb_scionValid (ip_read p q) = pb_scionValid q"
  "pb_ipValid p \<noteq> IPNone \<Longrightarrow> pb_ipValid (ip_read p q) = pb_ipValid p"
  "pb_ipValid p = IPv4Valid \<Longrightarrow> pb_ipv4 (ip_read p q) = pb_ipv4 p" "pb_ipValid p = IPv6Valid \<Longrightarrow> pb_ipv6 (ip_read p q) = pb_ipv6 p"
  by (cases "pb_ipValid p"; simp add: ip_read_def)+

lemma packet_read_same:
  assumes "writable p" "coherent is_scion p nu" "pb_ipValid q = IPNone" "\<not> pb_outerUDPValid q" "\<not> pb_stunValid q" "\<not> pb_scionValid q"
  shows "same_headers p nu (packet_read p nu q)"
proof -
  have l4: "pb_l4Valid p \<noteq> L4None" using assms(2) by (simp add: coherent_def)
  define qi where "qi = (if nu then q else ip_read p q)"
  have qi: "\<not> pb_outerUDPValid qi" "\<not> pb_stunValid qi" "\<not> pb_scionValid qi"
    "\<not> nu \<Longrightarrow> pb_ipValid qi = pb_ipValid p" "\<not> nu \<Longrightarrow> pb_ipValid p = IPv4Valid \<Longrightarrow> pb_ipv4 qi = pb_ipv4 p"
    "\<not> nu \<Longrightarrow> pb_ipValid p = IPv6Valid \<Longrightarrow> pb_ipv6 qi = pb_ipv6 p"
    using assms by (simp_all add: qi_def ip_read_fields coherent_def)
  show ?thesis
  proof (cases "pb_scionValid p")
    case True
    then have "\<not> nu \<Longrightarrow> pb_outerUDPValid p" using assms(2) by (simp add: coherent_def)
    then show ?thesis
      unfolding packet_read_def qi_def [symmetric] transport_read_def same_headers_def
      using True qi l4 encoded_read [OF assms(1) True]
      by (simp add: scion_read_def l4_read_l4) blast
  next
    case False
    then have "\<not> nu" "\<not> pb_outerUDPValid p" using assms(2) by (simp_all add: coherent_def split: if_splits)
    then show ?thesis
      unfolding packet_read_def qi_def [symmetric] transport_read_def same_headers_def
      using False qi l4 by (cases "pb_l4Valid p = L4UDP") (simp add: l4_read_l4, simp add: l4_read_l4, blast)
  qed
qed

lemma packet_read_raw: "pb_raw (packet_read p nu q) = pb_raw q"
proof -
  have "pb_raw (l4_read p x) = pb_raw x" for x by (cases "pb_l4Valid p") (simp_all add: pb_raw_def l4_read_def)
  moreover have "pb_raw (ip_read p x) = pb_raw x" for x by (cases "pb_ipValid p") (simp_all add: pb_raw_def ip_read_def)
  ultimately show ?thesis by (simp add: packet_read_def transport_read_def scion_read_def) (simp add: pb_raw_def)
qed

lemma receive_headers:
  assumes w: "writable p" and c: "coherent is_scion p nu" and b: "blank_options (tcp_options (pb_tcp q))"
    and bits: "bits_of hdr = header_bits p nu" and s: "no_stun p nu (hdr @ payload)"
    and room: "headroom + length (hdr @ payload) \<le> length (pb_buffer q)"
  shows "\<exists>q'. receive q headroom (hdr @ payload) nu is_scion = (Ok, q') \<and> same_headers p nu q' \<and> pb_payload q' = payload"
proof -
  let ?d = "hdr @ payload"
  define q0 where "q0 = pb_fill (snd (clearAndGetBuffer q headroom)) ?d"
  let ?q1 = "q0\<lparr>pb_endOfHeader := pb_offset q0, pb_size := min (length ?d) (pb_size q0)\<rparr>"
  have q0: "pb_offset q0 = headroom" "pb_size q0 = length (pb_buffer q) - headroom" "pb_tcp q0 = pb_tcp q"
    "pb_ipValid q0 = IPNone" "\<not> pb_outerUDPValid q0" "\<not> pb_stunValid q0" "\<not> pb_scionValid q0"
    "pb_buffer q0 = overwrite (pb_buffer q) headroom ?d"
    using room by (simp_all add: q0_def pb_fill_def clearAndGetBuffer_def Let_def)
  have data: "take (min (length ?d) (pb_size q0)) (drop (pb_offset q0) (pb_buffer q0)) = ?d"
    using room q0 by (simp add: overwrite_def)
  obtain b where b: "PacketBuffer_parse nu is_scion (?q1, ReadStream (stream_init ?d)) = (Inr (), packet_read p nu ?q1, ReadStream b)"
    "consumed (stream_init ?d) (length (header_bits p nu)) b"
    using PacketBuffer_parse_reads [OF w c _ _ s, of ?q1 "bits_of payload"] b q0 bits by auto
  have h8: "length (header_bits p nu) = 8 * length hdr" using arg_cong [OF bits, of length] by simp
  then have it: "byteIter b = length hdr" using b(2) aligned_pos [of b] by (auto simp: consumed_def)
  let ?q2 = "(packet_read p nu ?q1)\<lparr>pb_endOfHeader := pb_offset (packet_read p nu ?q1) + length hdr\<rparr>"
  have "receive q headroom ?d nu is_scion = (Ok, ?q2)"
    unfolding receive_def q0_def [symmetric] parsePacket_def Let_def using b(1) it data by simp
  moreover have "same_headers p nu (packet_read p nu ?q1)" by (rule packet_read_same [OF w c]) (use q0 in simp_all)
  then have "same_headers p nu ?q2" by (simp add: same_headers_def)
  moreover have "pb_payload ?q2 = payload"
    using packet_read_raw [of p nu ?q1] q0 room by (auto simp: pb_raw_def pb_payload_def overwrite_def)
  ultimately show ?thesis by blast
qed

text \<open>Flow labels have 20 bits on the wire.\<close>

definition trim :: "PacketBuffer \<Rightarrow> PacketBuffer" where
  "trim p = p\<lparr>pb_sci := fl20 (pb_sci p), pb_ipv6 := (pb_ipv6 p)\<lparr>ip6_fl := take_bit 20 (ip6_fl (pb_ipv6 p))\<rparr>\<rparr>"

lemma trim_simps [simp]:
  "pb_ipValid (trim p) = pb_ipValid p" "pb_ipv4 (trim p) = pb_ipv4 p" "pb_outerUDPValid (trim p) = pb_outerUDPValid p"
  "pb_outerUDP (trim p) = pb_outerUDP p" "pb_stunValid (trim p) = pb_stunValid p" "pb_scionValid (trim p) = pb_scionValid p"
  "pb_path (trim p) = pb_path p" "pb_l4Valid (trim p) = pb_l4Valid p" "pb_icmp (trim p) = pb_icmp p"
  "pb_scmp (trim p) = pb_scmp p" "pb_tcp (trim p) = pb_tcp p" "pb_udp (trim p) = pb_udp p"
  "pb_sci (trim p) = fl20 (pb_sci p)" "pb_ipv6 (trim p) = (pb_ipv6 p)\<lparr>ip6_fl := take_bit 20 (ip6_fl (pb_ipv6 p))\<rparr>"
  "l4Size (trim p) = l4Size p" "l4_bits (trim p) = l4_bits p" "pb_payload (trim p) = pb_payload p"
  by (simp_all add: trim_def l4Size_def l4_bits_def pb_payload_def cong: L4Type.case_cong)

lemma trim_header_bits: "header_bits (trim p) nu = header_bits p nu"
proof -
  have i: "inner_bits (trim p) = inner_bits p" by (simp add: inner_bits_def SCION_bits_fl20)
  have "emitted_udp (trim p) = emitted_udp p"
    unfolding emitted_udp_def i by (simp add: outer_checksum_def Let_def IPv6_checksum_def cong: IPValidity.case_cong)
  moreover have "ip_bits (trim p) = ip_bits p"
    by (cases "pb_ipValid p") (simp_all add: ip_bits_def IPv6_bits_def to_bits_take_bit)
  ultimately show ?thesis by (simp add: header_bits_def i)
qed

lemma trim_writable: "writable (trim p) = writable p"
  by (simp add: writable_def wf_hosts_def)

lemma trim_measure: "measureHeaders (trim p) nu = measureHeaders p nu"
  by (simp add: measureHeaders_def)

lemma emit_receive:
  assumes "pb_wf n p" "writable p" "coherent is_scion (trim p) nu" "measureHeaders p nu \<le> pb_endOfHeader p"
    "blank_options (tcp_options (pb_tcp q))" "headroom + measureHeaders p nu + length (pb_payload p) \<le> length (pb_buffer q)"
  shows "\<exists>bytes p'. emitPacket p nu = (Inr bytes, p') \<and> length bytes = measureHeaders p nu + length (pb_payload p) \<and>
    (no_stun p nu bytes \<longrightarrow>
      (\<exists>q'. receive q headroom bytes nu is_scion = (Ok, q') \<and> same_headers (trim p) nu q' \<and> pb_payload q' = pb_payload p))"
proof -
  obtain hdr p' where e: "emitPacket p nu = (Inr (hdr @ pb_payload p), p')" "bits_of hdr = header_bits (trim p) nu"
    using emitPacket_bytes [OF assms(1,2,4)] by (auto simp: trim_header_bits)
  have w: "writable (trim p)" using assms(2) by (simp add: trim_writable)
  have "length hdr = measureHeaders p nu"
    using arg_cong [OF e(2), of length] length_header_bits [OF w, of nu] by (simp add: trim_measure)
  moreover have "no_stun (trim p) nu d = no_stun p nu d" for d by (simp add: no_stun_def trim_measure)
  ultimately show ?thesis
    using e receive_headers [OF w assms(3,5) e(2), of "pb_payload p" headroom] assms(6) by auto
qed

section \<open>Properties\<close>


definition blank_packet :: "byte list \<Rightarrow> PacketBuffer" where
  "blank_packet buffer =
     \<lparr>pb_ipValid = IPNone, pb_outerUDPValid = False, pb_stunValid = False, pb_scionValid = False, pb_l4Valid = L4None,
      pb_ipv4 = \<lparr>ip4_flags = 0, ip4_tos = 0, ip4_ttl = 0, ip4_proto = 0, ip4_len = 0, ip4_id = 0, ip4_frag = 0,
        ip4_src = UnspecifiedIPv4, ip4_dst = UnspecifiedIPv4\<rparr>,
      pb_ipv6 = \<lparr>ip6_tc = 0, ip6_hlim = 0, ip6_nh = 0, ip6_plen = 0, ip6_fl = 0, ip6_src = UnspecifiedIPv6, ip6_dst = UnspecifiedIPv6\<rparr>,
      pb_outerUDP = \<lparr>udp_sport = 0, udp_dport = 0, udp_len = 0, udp_chksum = 0\<rparr>,
      pb_stun = \<lparr>st_type = 0, st_transaction = replicate 12 0, st_mapped = None\<rparr>,
      pb_sci = \<lparr>sc_qos = 0, sc_hlen = 0, sc_nh = 0, sc_ptype = 0, sc_plen = 0, sc_fl = 0,
        sc_dst = Address_make 0 UnspecifiedIPv6, sc_src = Address_make 0 UnspecifiedIPv6\<rparr>,
      pb_path = RawPath_default,
      pb_icmp = \<lparr>icmp_type = 0, icmp_code = 0, icmp_chksum = 0, icmp_param1 = 0, icmp_param2 = 0\<rparr>,
      pb_scmp = \<lparr>scmp_chksum = 0, scmp_msg = ScmpEchoRequest 0 0\<rparr>,
      pb_tcp = \<lparr>tcp_flags = 0, tcp_sport = 0, tcp_dport = 0, tcp_window = 0, tcp_urgptr = 0, tcp_seq = 0, tcp_ack = 0,
        tcp_chksum = 0, tcp_optMask = TcpOptionMask_none, tcp_options = tcp_no_options\<rparr>,
      pb_udp = \<lparr>udp_sport = 0, udp_dport = 0, udp_len = 0, udp_chksum = 0\<rparr>,
      pb_buffer = buffer, pb_offset = 0, pb_size = 0, pb_endOfHeader = 0\<rparr>"

text \<open>A UDP packet with three bytes of payload, and 48 bytes in front of it.\<close>

definition example_packet :: PacketBuffer where
  "example_packet = (blank_packet (replicate 48 0 @ [1, 2, 3]))
     \<lparr>pb_ipValid := IPv6Valid,
      pb_ipv6 := \<lparr>ip6_tc = 0, ip6_hlim = 64, ip6_nh = 17, ip6_plen = 11, ip6_fl = 5,
        ip6_src = MakeIPv6 0xfc00100000000000 1 [], ip6_dst = MakeIPv6 0xfc00200000000000 2 []\<rparr>,
      pb_l4Valid := L4UDP, pb_udp := \<lparr>udp_sport = 1000, udp_dport = 53, udp_len = 11, udp_chksum = 7\<rparr>,
      pb_offset := 48, pb_size := 3, pb_endOfHeader := 48\<rparr>"

lemma example_packet_facts:
  "pb_wf 51 example_packet" "writable example_packet" "coherent None (trim example_packet) False"
  "measureHeaders example_packet False = 48" "pb_endOfHeader example_packet = 48" "pb_payload example_packet = [1, 2, 3]"
  by code_simp+

lemma blank_packet_options [simp]: "blank_options (tcp_options (pb_tcp (blank_packet buffer)))" "pb_buffer (blank_packet buffer) = buffer"
  by (simp_all add: blank_packet_def tcp_example_facts)

definition the_maybe :: "'a maybe \<Rightarrow> 'a" where "the_maybe m = (case m of Inr a \<Rightarrow> a)"

lemma example_packet_bytes: "no_stun example_packet False (the_maybe (fst (emitPacket example_packet False)))"
  by code_simp


text \<open>
  A packet whose transport header has the magic cookie of STUN in bytes 4 to 7, which are the sequence number of TCP and the
  length and checksum of UDP, is taken for a STUN message: its transport header is not parsed.
\<close>

lemma receive_taken_for_stun:
  assumes w: "writable p" and c: "coherent is_scion p nu" and bits: "bits_of hdr = header_bits p nu"
    and s: "\<not> no_stun p nu (hdr @ payload)" and room: "headroom + length (hdr @ payload) \<le> length (pb_buffer q)"
  shows "pb_l4Valid (snd (receive q headroom (hdr @ payload) nu is_scion)) = L4None"
proof -
  let ?d = "hdr @ payload"
  define q0 where "q0 = pb_fill (snd (clearAndGetBuffer q headroom)) ?d"
  let ?q1 = "q0\<lparr>pb_endOfHeader := pb_offset q0, pb_size := min (length ?d) (pb_size q0)\<rparr>"
  have q0: "pb_offset q0 = headroom" "pb_size q0 = length (pb_buffer q) - headroom" "pb_l4Valid q0 = L4None"
    "pb_buffer q0 = overwrite (pb_buffer q) headroom ?d"
    using room by (simp_all add: q0_def pb_fill_def clearAndGetBuffer_def Let_def)
  have data: "take (min (length ?d) (pb_size q0)) (drop (pb_offset q0) (pb_buffer q0)) = ?d"
    using room q0 by (simp add: overwrite_def)
  obtain r q' rs where "PacketBuffer_parse nu is_scion (?q1, ReadStream (stream_init ?d)) = (r, q', rs)" "pb_l4Valid q' = L4None"
    using parse_stun_first [OF w c _ s, of "bits_of payload" ?q1] bits q0(3) by auto
  then show ?thesis
    unfolding receive_def q0_def [symmetric] parsePacket_def Let_def using data by (cases r) simp_all
qed

definition cookie_packet :: PacketBuffer where
  "cookie_packet = example_packet\<lparr>pb_udp := \<lparr>udp_sport = 1000, udp_dport = 53, udp_len = 0x2112, udp_chksum = 0xa442\<rparr>,
     pb_buffer := replicate 60 0, pb_size := 12\<rparr>"

lemma udp_taken_for_stun:
  "\<exists>bytes p'. emitPacket cookie_packet False = (Inr bytes, p') \<and>
     pb_l4Valid (snd (receive (blank_packet (replicate 100 0)) 20 bytes False None)) = L4None"
proof -
  have f: "pb_wf 60 cookie_packet" "writable cookie_packet" "coherent None cookie_packet False"
    "measureHeaders cookie_packet False = 48" "pb_endOfHeader cookie_packet = 48" "length (pb_payload cookie_packet) = 12"
    "\<not> no_stun cookie_packet False (the_maybe (fst (emitPacket cookie_packet False)))"
    by code_simp+
  obtain hdr p' where e: "emitPacket cookie_packet False = (Inr (hdr @ pb_payload cookie_packet), p')"
    "bits_of hdr = header_bits cookie_packet False"
    using emitPacket_bytes [OF f(1,2), of False] f(4,5) by auto
  have "length hdr = 48" using arg_cong [OF e(2), of length] length_header_bits [OF f(2), of False] f(4) by simp
  then have "pb_l4Valid (snd (receive (blank_packet (replicate 100 0)) 20 (hdr @ pb_payload cookie_packet) False None)) = L4None"
    using f(6,7) e(1) by (intro receive_taken_for_stun [OF f(2,3) e(2)]) (simp_all add: the_maybe_def)
  then show ?thesis using e(1) by blast
qed

end
