(* ===== verification/Translator.thy ===== *)
theory Translator
  imports PacketBuffer
begin

text \<open>
  The translation between IPv6 and SCION packets (\<open>scitra/include/scitra/translator.hpp\<close>,
  \<open>scitra/src/translator.cpp\<close>). The callbacks \<open>getPath\<close> and \<open>getMTU\<close> are arguments; the hash functions depend on the
  seed that the address classes use.
\<close>

definition IPV6_MIN_LINK_MTU :: nat where "IPV6_MIN_LINK_MTU = 1280"
definition TCP_HDR_SIZE :: nat where "TCP_HDR_SIZE = 20"
definition DISPATCHER_PORT :: u16 where "DISPATCHER_PORT = 30041"
definition REPLACE_ADDRESS :: nat where "REPLACE_ADDRESS = 128"

datatype Verdict = Abort | Drop | Pass | Return

definition computeScionFlowLabel :: "u32 \<Rightarrow> SCION \<Rightarrow> u32 \<Rightarrow> u32" where
  "computeScionFlowLabel seed sci fl =
     ucast (Address_hash seed (sc_dst sci) XOR Address_hash seed (sc_src sci)) XOR fl"

definition computeIPv6FlowLabel :: "u32 \<Rightarrow> IPv6H \<Rightarrow> u32 \<Rightarrow> u32" where
  "computeIPv6FlowLabel seed ip fl =
     ucast (IPAddress_hash seed (ip6_dst ip) XOR IPAddress_hash seed (ip6_src ip)) XOR fl"

text \<open>\<open>~0ull << shift\<close>, with no bits left for a shift by 64.\<close>

definition prefix_mask :: "nat \<Rightarrow> u64" where
  "prefix_mask shift = (if shift > 63 then 0 else push_bit shift (- 1))"

text \<open>Above 128 the unsigned difference wraps around and no bits are left for the mask.\<close>

definition translateIPv6Prefix :: "IPAddress \<Rightarrow> IPAddress \<Rightarrow> nat \<Rightarrow> IPAddress" where
  "translateIPv6Prefix addr prefix prefixLen =
     (if prefixLen = REPLACE_ADDRESS then prefix
      else let (addrHi, addrLo) = getIPv6 addr;
               (prefixHi, prefixLo) = getIPv6 prefix;
               maskHi = prefix_mask (64 - min prefixLen 64);
               maskLo = (if prefixLen > 64 \<and> prefixLen \<le> 128 then prefix_mask (64 - (prefixLen - 64)) else 0)
           in MakeIPv6 ((addrHi AND NOT maskHi) OR (prefixHi AND maskHi)) ((addrLo AND NOT maskLo) OR (prefixLo AND maskLo)) [])"

section \<open>ICMP and SCMP\<close>

text \<open>\<open>memcpy\<close> between a 16-bit number of the host and two bytes of the payload.\<close>

definition write_payload16 :: "PacketBuffer \<Rightarrow> nat \<Rightarrow> u16 \<Rightarrow> PacketBuffer" where
  "write_payload16 p i v = p\<lparr>pb_buffer := overwrite (pb_buffer p) (pb_endOfHeader p + i) (store_le 2 v)\<rparr>"

definition translateIcmpToScmp :: "PacketBuffer \<Rightarrow> Verdict \<times> PacketBuffer" where
  "translateIcmpToScmp p =
     (let t = icmp_type (pb_icmp p);
          as_scmp = (\<lambda>p msg. (Pass, p\<lparr>pb_scmp := (pb_scmp p)\<lparr>scmp_msg := msg\<rparr>, pb_l4Valid := L4SCMP\<rparr>))
      in
      if t = ICMPv6_DstUnreachable then as_scmp p (ScmpDstUnreach (icmp_code (pb_icmp p)))
      else if t = ICMPv6_PacketTooBig then
        (let underlaySize = IPv6_size + UDP_size in
         if icmp_param1 (pb_icmp p) \<noteq> 0 \<or> unat (icmp_param2 (pb_icmp p)) < underlaySize then (Drop, p)
         else as_scmp p (ScmpPacketTooBig (of_nat (unat (icmp_param2 (pb_icmp p)) - underlaySize))))
      else if t = ICMPv6_TimeExceeded then (Drop, p)
      else if t = ICMPv6_ParamProblem then (Drop, p)
      else if t = ICMPv6_EchoRequest then
        (let p = (if length (pb_payload p) \<ge> 18 then write_payload16 p 16 (icmp_param1 (pb_icmp p)) else p)
         in as_scmp p (ScmpEchoRequest DISPATCHER_PORT (icmp_param2 (pb_icmp p))))
      else if t = ICMPv6_EchoReply then as_scmp p (ScmpEchoReply (icmp_param1 (pb_icmp p)) (icmp_param2 (pb_icmp p)))
      else (Drop, p))"

text \<open>
  The switch is over the type of the message. An unknown error message that claims the type of an echo message,
  which no reader produces, would make \<open>std::get\<close> throw; it is aborted here.
\<close>

definition translateScmpToIcmp :: "PacketBuffer \<Rightarrow> Verdict \<times> PacketBuffer" where
  "translateScmpToIcmp p =
     (let echo = (\<lambda>type id1 seq. p\<lparr>pb_icmp := \<lparr>icmp_type = type, icmp_code = 0, icmp_chksum = 0, icmp_param1 = id1,
                    icmp_param2 = seq\<rparr>, pb_l4Valid := L4ICMP\<rparr>)
      in case scmp_msg (pb_scmp p) of
           ScmpDstUnreach _ \<Rightarrow> (Drop, p)
         | ScmpParamProblem _ _ \<Rightarrow> (Drop, p)
         | ScmpExtIfDown _ _ \<Rightarrow> (Drop, p)
         | ScmpIntConnDown _ _ _ \<Rightarrow> (Drop, p)
         | ScmpPacketTooBig _ \<Rightarrow> (Drop, p)
         | ScmpEchoRequest id1 seq \<Rightarrow> (Pass, echo ICMPv6_EchoRequest id1 seq)
         | ScmpEchoReply id1 seq \<Rightarrow>
             let p' = echo ICMPv6_EchoReply id1 seq; payload = pb_payload p' in
             (Pass, if length payload \<ge> 18
                    then p'\<lparr>pb_icmp := (pb_icmp p')\<lparr>icmp_param1 := load_le (take 2 (drop 16 payload))\<rparr>\<rparr> else p')
         | ScmpUnknownError type _ \<Rightarrow>
             (if type \<in> {ScmpType_DstUnreach, ScmpType_ParamProblem, ScmpType_ExtIfDown, ScmpType_IntConnDown,
                          ScmpType_PacketTooBig} then Drop else Abort, p)
         | _ \<Rightarrow> (Abort, p))"

text \<open>The difference of sizes is computed in \<open>size_t\<close>.\<close>

definition quote_room :: "PacketBuffer \<Rightarrow> nat" where
  "quote_room p = unat (of_nat IPV6_MIN_LINK_MTU - of_nat (measureHeaders p False) :: u64)"

definition make_icmp :: "PacketBuffer \<Rightarrow> byte \<Rightarrow> byte \<Rightarrow> u16 \<Rightarrow> PacketBuffer" where
  "make_icmp p type code param2 =
     (let p = p\<lparr>pb_ipv6 := (pb_ipv6 p)\<lparr>ip6_nh := IPProto_ICMPv6, ip6_src := MakeIPv6 (push_bit 56 0xfc) 1 [],
                                   ip6_dst := ip6_src (pb_ipv6 p)\<rparr>,
                pb_icmp := \<lparr>icmp_type = type, icmp_code = code, icmp_chksum = 0, icmp_param1 = 0, icmp_param2 = param2\<rparr>,
                pb_l4Valid := L4ICMP\<rparr>;
          (payloadLen, p) = quoteRawHeaders p (quote_room p);
          p = p\<lparr>pb_ipv6 := (pb_ipv6 p)\<lparr>ip6_plen := of_nat (ICMP_size + payloadLen)\<rparr>\<rparr>
      in p\<lparr>pb_icmp := (pb_icmp p)\<lparr>icmp_chksum := internetChecksum (pb_payload p)
             (IPv6_checksum (pb_ipv6 p) (of_nat (ICMP_size + payloadLen)) + ICMP_checksum (pb_icmp p))\<rparr>\<rparr>)"

definition makeIcmpDestUnreachable :: "PacketBuffer \<Rightarrow> byte \<Rightarrow> PacketBuffer" where
  "makeIcmpDestUnreachable p code = make_icmp p ICMPv6_DstUnreachable code 0"

definition makeIcmpPacketTooBig :: "PacketBuffer \<Rightarrow> u16 \<Rightarrow> PacketBuffer" where
  "makeIcmpPacketTooBig p mtu = make_icmp p ICMPv6_PacketTooBig 0 mtu"

section \<open>Egress\<close>

type_synonym getPath =
  "ScIPAddress \<Rightarrow> ScIPAddress \<Rightarrow> u16 \<Rightarrow> u16 \<Rightarrow> byte \<Rightarrow> byte \<Rightarrow> Path option maybe \<times> u16"

type_synonym egress = "Verdict \<times> u16 \<times> IPEndpoint"

text \<open>The size of the SCION packet, and the IPv6 MTU reported when it is too large, computed in \<open>size_t\<close>.\<close>

definition scion_packet_size :: "PacketBuffer \<Rightarrow> Path \<Rightarrow> nat" where
  "scion_packet_size p path = SCION_size (pb_sci p) + length (pth_path path) + l4Size p + length (pb_payload p)"

definition ip_mtu :: "PacketBuffer \<Rightarrow> Path \<Rightarrow> u16 \<Rightarrow> nat" where
  "ip_mtu p path mtu =
     unat (ucast mtu + of_nat IPv6_size - of_nat (SCION_size (pb_sci p)) - of_nat (length (pth_path path)) :: u64)"

text \<open>Limits the maximum segment size of a TCP header to what the MTU leaves; the old and the new value.\<close>

definition clampMSS :: "PacketBuffer \<Rightarrow> u16 \<Rightarrow> nat \<Rightarrow> (u32 \<times> u32 \<times> PacketBuffer) option" where
  "clampMSS p mtu hdr =
     (if pb_l4Valid p = L4TCP \<and> om_MSS (tcp_optMask (pb_tcp p)) then
        let scionMSS = uint mtu - int hdr - int TCP_HDR_SIZE in
        if scionMSS \<le> 0 then None
        else
          let mss = mss_mss (op_mss (tcp_options (pb_tcp p)));
              clampedMSS = min mss (of_int (min scionMSS 65535)) in
          Some (ucast mss, ucast clampedMSS,
            p\<lparr>pb_tcp := (pb_tcp p)\<lparr>tcp_options := (tcp_options (pb_tcp p))\<lparr>op_mss := \<lparr>mss_mss = clampedMSS\<rparr>\<rparr>\<rparr>\<rparr>)
      else Some (0, 0, p))"

definition scion_header :: "u32 \<Rightarrow> PacketBuffer \<Rightarrow> byte \<Rightarrow> Path \<Rightarrow> ScIPAddress \<Rightarrow> IPAddress \<Rightarrow> SCION" where
  "scion_header seed p nextHeader path dst srcHost =
     (let sci = (pb_sci p)\<lparr>sc_qos := ip6_tc (pb_ipv6 p), sc_nh := nextHeader, sc_ptype := pth_type path,
                  sc_dst := dst, sc_src := Address_make (pth_source path) srcHost\<rparr>;
          sci = sci\<lparr>sc_hlen := of_nat ((SCION_size sci + length (pth_path path)) div 4),
                    sc_plen := of_nat (l4Size p + length (pb_payload p))\<rparr>
      in sci\<lparr>sc_fl := computeScionFlowLabel seed sci (l4FlowLabel p)\<rparr>)"

definition egress_checksum :: "PacketBuffer \<Rightarrow> u32 \<Rightarrow> u32 \<Rightarrow> PacketBuffer" where
  "egress_checksum p mss clampedMSS =
     (if pb_l4Valid p = L4SCMP
      then p\<lparr>pb_scmp := (pb_scmp p)\<lparr>scmp_chksum := internetChecksum (pb_payload p)
             (SCION_checksum (pb_sci p) (of_nat (SCMP_size (pb_scmp p) + length (pb_payload p))) ScionProto_SCMP
              + SCMP_checksum (pb_scmp p))\<rparr>\<rparr>
      else l4UpdateChecksum p
             (SCION_checksum (pb_sci p) (of_nat (l4Size p)) (L4Type_code (pb_l4Valid p)) + clampedMSS)
             (IPv6_checksum (pb_ipv6 p) (of_nat (l4Size p)) + mss))"

definition underlay :: "u32 \<Rightarrow> PacketBuffer \<Rightarrow> IPEndpoint \<Rightarrow> IPAddress \<Rightarrow> PacketBuffer" where
  "underlay seed p nextHop srcHost =
     (let sport = (if l4SPort p 0 = 0 then DISPATCHER_PORT else l4SPort p 0);
          p = p\<lparr>pb_outerUDP := \<lparr>udp_sport = sport, udp_dport = m_port nextHop,
                  udp_len = of_nat (UDP_size + SCION_size (pb_sci p) + rp_size (pb_path p) + unat (sc_plen (pb_sci p))),
                  udp_chksum = 0\<rparr>, pb_outerUDPValid := True\<rparr>;
          p = (if is4 (m_host nextHop)
               then p\<lparr>pb_ipv4 := \<lparr>ip4_flags = 2, ip4_tos = ip6_tc (pb_ipv6 p), ip4_ttl = 64, ip4_proto = IPProto_UDP,
                       ip4_len = of_nat (IPv4_size + unat (udp_len (pb_outerUDP p))), ip4_id = 0, ip4_frag = 0,
                       ip4_src = srcHost, ip4_dst = m_host nextHop\<rparr>, pb_ipValid := IPv4Valid\<rparr>
               else let ip = (pb_ipv6 p)\<lparr>ip6_hlim := 64, ip6_nh := IPProto_UDP, ip6_plen := udp_len (pb_outerUDP p)\<rparr>;
                        ip = ip\<lparr>ip6_fl := computeIPv6FlowLabel seed ip (l4FlowLabel p)\<rparr>
                    in p\<lparr>pb_ipv6 := ip\<lparr>ip6_src := srcHost, ip6_dst := m_host nextHop\<rparr>, pb_ipValid := IPv6Valid\<rparr>)
      in p\<lparr>pb_scionValid := True\<rparr>)"

text \<open>The part behind the retrieval of the path. \<open>None\<close> is the exception of \<open>RawPath::assign\<close> for a path that is too long.\<close>

definition egress_on_path ::
    "u32 \<Rightarrow> PacketBuffer \<Rightarrow> byte \<Rightarrow> Path \<Rightarrow> u16 \<Rightarrow> ScIPAddress \<Rightarrow> IPAddress \<Rightarrow> egress option \<times> PacketBuffer" where
  "egress_on_path seed p nextHeader path mtu dst srcHost =
     (let nextHop = Path_nextHop path \<lparr>m_host = a_host dst, m_port = l4DPort p DISPATCHER_PORT\<rparr>;
          p = p\<lparr>pb_sci := scion_header seed p nextHeader path dst srcHost\<rparr>
      in case RawPath_assign (pb_path p) (pth_source path) (pth_destination path) (pth_type path) (pth_path path) of
           Inl _ \<Rightarrow> (None, p)
         | Inr rp \<Rightarrow>
             let p = p\<lparr>pb_path := rp\<rparr> in
             if scion_packet_size p path > unat mtu
             then if ip_mtu p path mtu \<ge> IPV6_MIN_LINK_MTU
                  then (Some (Return, 0, nextHop), makeIcmpPacketTooBig p (of_nat (min (ip_mtu p path mtu) 65535)))
                  else (Some (Drop, 0, nextHop), p)
             else case clampMSS p mtu (SCION_size (pb_sci p) + length (pth_path path)) of
                    None \<Rightarrow> (Some (Abort, 0, nextHop), p)
                  | Some (mss, clampedMSS, p) \<Rightarrow>
                      let p = underlay seed (egress_checksum p mss clampedMSS) nextHop srcHost
                      in (Some (Pass, udp_sport (pb_outerUDP p), nextHop), p))"

definition egress_l4 :: "PacketBuffer \<Rightarrow> Verdict \<times> PacketBuffer \<times> byte" where
  "egress_l4 p =
     (if pb_l4Valid p = L4ICMP
      then (case translateIcmpToScmp p of (verdict, p) \<Rightarrow> (verdict, p, ScionProto_SCMP))
      else (Pass, p, L4Type_code (pb_l4Valid p)))"

definition translateEgress ::
    "u32 \<Rightarrow> PacketBuffer \<Rightarrow> IPAddress \<Rightarrow> nat \<Rightarrow> getPath \<Rightarrow> egress option \<times> PacketBuffer" where
  "translateEgress seed p sourcePrefix prefixLen getPath =
     (let nextHop = IPEndpoint_default in
      if pb_ipValid p \<noteq> IPv6Valid then (Some (Abort, 0, nextHop), p)
      else
        let srcHost = translateIPv6Prefix (ip6_src (pb_ipv6 p)) sourcePrefix prefixLen;
            (verdict, p, nextHeader) = egress_l4 p
        in if verdict = Abort \<or> verdict = Drop then (Some (verdict, 0, nextHop), p)
           else case unmapFromIPv6 (ip6_dst (pb_ipv6 p)) of
             Inl _ \<Rightarrow> (Some (Return, 0, nextHop), makeIcmpDestUnreachable p 3)
           | Inr dst \<Rightarrow>
               (case getPath (Address_make 0 srcHost) dst (l4SPort p 0) (l4DPort p 0) nextHeader (drop_bit 2 (ip6_tc (pb_ipv6 p))) of
                  (Inl ec, mtu) \<Rightarrow>
                    if ec = Pending then (Some (Drop, 0, nextHop), p)
                    else (Some (Return, 0, nextHop), makeIcmpDestUnreachable p 0)
                | (Inr None, mtu) \<Rightarrow> (Some (Return, 0, nextHop), makeIcmpDestUnreachable p 0)
                | (Inr (Some path), mtu) \<Rightarrow> egress_on_path seed p nextHeader path mtu dst srcHost))"

section \<open>Ingress\<close>

definition ingress_checksum :: "PacketBuffer \<Rightarrow> u32 \<Rightarrow> u32 \<Rightarrow> PacketBuffer" where
  "ingress_checksum p mss clampedMSS =
     (if pb_l4Valid p = L4ICMP
      then p\<lparr>pb_icmp := (pb_icmp p)\<lparr>icmp_chksum := internetChecksum (pb_payload p)
             (IPv6_checksum (pb_ipv6 p) (of_nat (ICMP_size + length (pb_payload p))) + ICMP_checksum (pb_icmp p))\<rparr>\<rparr>
      else l4UpdateChecksum p
             (IPv6_checksum (pb_ipv6 p) (of_nat (l4Size p)) + clampedMSS)
             (SCION_checksum (pb_sci p) (of_nat (l4Size p)) (L4Type_code (pb_l4Valid p)) + mss))"

definition ingress_header :: "u32 \<Rightarrow> PacketBuffer \<Rightarrow> byte \<Rightarrow> PacketBuffer" where
  "ingress_header seed p nextHeader =
     (let ip = (pb_ipv6 p)\<lparr>ip6_tc := sc_qos (pb_sci p), ip6_hlim := 64, ip6_nh := nextHeader,
                  ip6_plen := of_nat (l4Size p + length (pb_payload p))\<rparr>
      in p\<lparr>pb_ipv6 := ip\<lparr>ip6_fl := computeIPv6FlowLabel seed ip (l4FlowLabel p)\<rparr>,
           pb_ipValid := IPv6Valid, pb_outerUDPValid := False, pb_scionValid := False\<rparr>)"

definition ingress_l4 :: "PacketBuffer \<Rightarrow> Verdict \<times> PacketBuffer \<times> byte" where
  "ingress_l4 p =
     (if pb_l4Valid p = L4SCMP
      then (case translateScmpToIcmp p of (verdict, p) \<Rightarrow> (verdict, p, IPProto_ICMPv6))
      else (Pass, p, sc_nh (pb_sci p)))"

text \<open>The part behind the translation of the addresses.\<close>

definition ingress_accepted :: "u32 \<Rightarrow> PacketBuffer \<Rightarrow> (SCION \<Rightarrow> RawPath \<Rightarrow> u16) \<Rightarrow> Verdict \<times> PacketBuffer" where
  "ingress_accepted seed p getMTU =
     (let (verdict, p, nextHeader) = ingress_l4 p
      in if verdict = Abort \<or> verdict = Drop then (verdict, p)
         else case clampMSS p (getMTU (pb_sci p) (pb_path p)) (SCION_size (pb_sci p) + rp_size (pb_path p)) of
                None \<Rightarrow> (Abort, p)
              | Some (mss, clampedMSS, p) \<Rightarrow> (Pass, ingress_checksum (ingress_header seed p nextHeader) mss clampedMSS))"

definition translateIngress ::
    "u32 \<Rightarrow> PacketBuffer \<Rightarrow> IPAddress \<Rightarrow> IPAddress \<Rightarrow> nat \<Rightarrow> (SCION \<Rightarrow> RawPath \<Rightarrow> u16) \<Rightarrow> Verdict \<times> PacketBuffer" where
  "translateIngress seed p acceptPrefix dstPrefix prefixLen getMTU =
     (if \<not> pb_scionValid p then (Abort, p)
      else case mapToIPv6 (sc_src (pb_sci p)) of
        Inl _ \<Rightarrow> (Drop, p)
      | Inr src \<Rightarrow>
          let p = p\<lparr>pb_ipv6 := (pb_ipv6 p)\<lparr>ip6_src := src\<rparr>\<rparr> in
          (case mapToIPv6 (sc_dst (pb_sci p)) of
             Inl _ \<Rightarrow> (Drop, p)
           | Inr dst \<Rightarrow>
               if \<not> samePrefix acceptPrefix dst prefixLen then (Drop, p)
               else ingress_accepted seed (p\<lparr>pb_ipv6 := (pb_ipv6 p)\<lparr>ip6_dst := translateIPv6Prefix dst dstPrefix prefixLen\<rparr>\<rparr>) getMTU))"

end
