(* ===== verification/TranslatorProperties.thy ===== *)
theory TranslatorProperties
  imports TranslatorSpec
begin

text \<open>
  What the translator does to packets: prefixes, the packets that pass in both directions, the ICMP errors it answers
  with, and the way of a packet from one host through two translators to another.
\<close>

unbundle bit_operations_syntax

section \<open>The packet buffer\<close>

text \<open>C14: In every state of a packet buffer of \<open>n\<close> bytes that its operations, both translations and any changes to the headers can
  reach, the packet lies inside the buffer and its headers inside the packet, as the assertions in the code require.\<close>

theorem packet_buffer_invariant:
  assumes "pb_reach n p"
  shows "length (pb_buffer p) = n \<and> pb_offset p \<le> pb_endOfHeader p \<and> pb_endOfHeader p \<le> pb_offset p + pb_size p \<and>
    pb_offset p + pb_size p \<le> n"
  using pb_reach_wf [OF assms] by (auto simp: pb_wf_def)

theorem packet_buffer_invariant_witness:
  "let p = snd (emitPacket (snd (parsePacket (pb_fill (snd (clearAndGetBuffer (PacketBuffer_make (blank_packet []) (replicate 20 7)) 8)) [1, 2]) 2 True None)) False)
   in pb_reach 20 p \<and> pb_offset p + pb_size p \<le> 20"
proof -
  let ?p = "snd (emitPacket (snd (parsePacket (pb_fill (snd (clearAndGetBuffer (PacketBuffer_make (blank_packet []) (replicate 20 7)) 8)) [1, 2]) 2 True None)) False)"
  have "pb_reach 20 ?p" by (intro pb_reach.emitted pb_reach.received pb_reach.made) simp
  then show ?thesis using packet_buffer_invariant [of 20 ?p] by (simp add: Let_def)
qed

section \<open>Prefixes\<close>

lemma bit_prefix_mask: "n \<le> 64 \<Longrightarrow> bit (prefix_mask (64 - n)) k \<longleftrightarrow> 64 - n \<le> k \<and> k < 64"
  by (cases n) (auto simp: prefix_mask_def bit_push_bit_iff simp del: push_bit_minus_one_eq_not_mask)

lemma prefix_select:
  assumes "n \<le> 64"
  shows "to_bits 64 ((x AND NOT (prefix_mask (64 - n))) OR (y AND prefix_mask (64 - n)) :: u64) =
    take n (to_bits 64 y) @ drop n (to_bits 64 x)"
  by (rule nth_equalityI)
    (use assms in \<open>auto simp: nth_to_bits nth_append bit_or_iff bit_and_iff bit_not_iff bit_prefix_mask\<close>)

lemma translate_prefix_bits:
  assumes "is6 addr" "is6 prefix" "n \<le> 128"
  shows "is6 (translateIPv6Prefix addr prefix n)"
    "IPAddress_bits (translateIPv6Prefix addr prefix n) = take n (IPAddress_bits prefix) @ drop n (IPAddress_bits addr)"
proof -
  note v = assms(1,2) [unfolded is4_is6]
  have m: "prefix_mask (64 - 64) = - 1" by (simp add: prefix_mask_def)
  show "is6 (translateIPv6Prefix addr prefix n)"
    using assms(2) by (simp add: translateIPv6Prefix_def Let_def getIPv6_def is4_is6)
  show "IPAddress_bits (translateIPv6Prefix addr prefix n) = take n (IPAddress_bits prefix) @ drop n (IPAddress_bits addr)"
  proof (cases "n = 128")
    case True
    then show ?thesis using v by (simp add: translateIPv6Prefix_def REPLACE_ADDRESS_def IPAddress_bits_def)
  next
    case False
    note d = translateIPv6Prefix_def REPLACE_ADDRESS_def Let_def getIPv6_def IPAddress_bits_def
    show ?thesis
    proof (cases "n \<le> 64")
      case True
      then show ?thesis
        using False v prefix_select [OF True, of "m_hi addr" "m_hi prefix"] by (simp add: d min_def)
    next
      case n: False
      then have k: "n - 64 \<le> 64" using assms(3) by simp
      show ?thesis
        using False v n assms(3) prefix_select [OF k, of "m_lo addr" "m_lo prefix"] prefix_select [of 64 "m_hi addr" "m_hi prefix"]
        by (simp add: d min_def m) 
    qed
  qed
qed
text \<open>C16: \<open>translateIPv6Prefix\<close> replaces exactly the first \<open>n\<close> bits of an IPv6 address by those of the prefix, for all \<open>n\<close> up to 128; the
  result has the prefix, and replacing it again by a prefix of the original address restores the bits of the address.\<close>

theorem prefix_translation:
  assumes "is6 addr" "is6 prefix" "n \<le> 128"
  shows "IPAddress_bits (translateIPv6Prefix addr prefix n) = take n (IPAddress_bits prefix) @ drop n (IPAddress_bits addr) \<and>
    samePrefix prefix (translateIPv6Prefix addr prefix n) n \<and>
    (\<forall>old. samePrefix old addr n \<and> is6 old \<longrightarrow>
      IPAddress_bits (translateIPv6Prefix (translateIPv6Prefix addr prefix n) old n) = IPAddress_bits addr)"
proof -
  note t = translate_prefix_bits [OF assms]
  have len: "length (IPAddress_bits prefix) = 128" using assms(2) by (simp add: IPAddress_bits_def is4_is6)
  have "samePrefix prefix (translateIPv6Prefix addr prefix n) n"
    using samePrefix6 [OF assms(2) t(1) assms(3)] t(2) len assms(3) by simp
  moreover have "IPAddress_bits (translateIPv6Prefix (translateIPv6Prefix addr prefix n) old n) = IPAddress_bits addr"
    if "samePrefix old addr n" "is6 old" for old
    using translate_prefix_bits(2) [OF t(1) that(2) assms(3)] samePrefix6 [OF that(2) assms(1,3)] that(1) t(2) len assms(3) by simp
  ultimately show ?thesis using t(2) by blast
qed

theorem prefix_translation_witness:
  "IPAddress_bits (translateIPv6Prefix (MakeIPv6 0xfc00110000000000 5 []) (MakeIPv6 0xfd00000000000000 0 []) 44) =
     IPAddress_bits (MakeIPv6 0xfd00000000000000 5 [])"
proof -
  have "drop 44 (IPAddress_bits (MakeIPv6 0xfc00110000000000 5 [])) = drop 44 (IPAddress_bits (MakeIPv6 0xfd00000000000000 5 []))"
    "take 44 (IPAddress_bits (MakeIPv6 0xfd00000000000000 0 [])) = take 44 (IPAddress_bits (MakeIPv6 0xfd00000000000000 5 []))"
    by code_simp+
  then show ?thesis
    using prefix_translation [of "MakeIPv6 0xfc00110000000000 5 []" "MakeIPv6 0xfd00000000000000 0 []" 44]
    by (simp add: is4_is6)
qed

section \<open>Changes to the transport header\<close>

definition set_mss :: "u16 \<Rightarrow> PacketBuffer \<Rightarrow> PacketBuffer" where
  "set_mss m p = p\<lparr>pb_tcp := (pb_tcp p)\<lparr>tcp_options := (tcp_options (pb_tcp p))\<lparr>op_mss := \<lparr>mss_mss = m\<rparr>\<rparr>\<rparr>\<rparr>"

definition set_l4_chksum :: "u16 \<Rightarrow> PacketBuffer \<Rightarrow> PacketBuffer" where
  "set_l4_chksum c p = (case pb_l4Valid p of
       L4ICMP \<Rightarrow> p\<lparr>pb_icmp := (pb_icmp p)\<lparr>icmp_chksum := c\<rparr>\<rparr> | L4SCMP \<Rightarrow> p\<lparr>pb_scmp := (pb_scmp p)\<lparr>scmp_chksum := c\<rparr>\<rparr>
     | L4TCP \<Rightarrow> p\<lparr>pb_tcp := (pb_tcp p)\<lparr>tcp_chksum := c\<rparr>\<rparr> | L4UDP \<Rightarrow> p\<lparr>pb_udp := (pb_udp p)\<lparr>udp_chksum := c\<rparr>\<rparr> | L4None \<Rightarrow> p)"

text \<open>Everything but the headers of the transport layer.\<close>

definition same_net :: "PacketBuffer \<Rightarrow> PacketBuffer \<Rightarrow> bool" where
  "same_net p q \<longleftrightarrow> pb_raw q = pb_raw p \<and> pb_ipValid q = pb_ipValid p \<and> pb_outerUDPValid q = pb_outerUDPValid p
     \<and> pb_stunValid q = pb_stunValid p \<and> pb_scionValid q = pb_scionValid p \<and> pb_l4Valid q = pb_l4Valid p
     \<and> pb_ipv4 q = pb_ipv4 p \<and> pb_ipv6 q = pb_ipv6 p \<and> pb_outerUDP q = pb_outerUDP p \<and> pb_sci q = pb_sci p
     \<and> pb_path q = pb_path p"

lemma clampMSS_None: "clampMSS p mtu hdr = None \<longleftrightarrow>
    pb_l4Valid p = L4TCP \<and> om_MSS (tcp_optMask (pb_tcp p)) \<and> unat mtu \<le> hdr + 20"
proof -
  have "uint mtu - int hdr - int 20 \<le> 0 \<longleftrightarrow> unat mtu \<le> hdr + 20"
    unfolding uint_nat by linarith
  then show ?thesis by (auto simp: clampMSS_def Let_def TCP_HDR_SIZE_def simp del: of_nat_numeral)
qed

lemma unat_min: "unat k = n \<Longrightarrow> unat (min a k) = min (unat (a :: u16)) n"
  by (auto simp: min_def word_le_nat_alt)

lemma clampMSS_Some:
  assumes "clampMSS p mtu hdr = Some (mss, clamped, q)"
  shows "if pb_l4Valid p = L4TCP \<and> om_MSS (tcp_optMask (pb_tcp p))
    then mss = ucast (mss_mss (op_mss (tcp_options (pb_tcp p)))) \<and>
      (\<exists>m. clamped = ucast m \<and> q = set_mss m p \<and> unat m = min (unat (mss_mss (op_mss (tcp_options (pb_tcp p))))) (unat mtu - hdr - 20) \<and>
        hdr + 20 < unat mtu)
    else mss = 0 \<and> clamped = 0 \<and> q = p"
proof (cases "pb_l4Valid p = L4TCP \<and> om_MSS (tcp_optMask (pb_tcp p))")
  case True
  let ?o = "mss_mss (op_mss (tcp_options (pb_tcp p)))" and ?s = "uint mtu - int hdr - 20"
  have pos: "\<not> ?s \<le> 0" using assms True by (auto simp: clampMSS_def Let_def TCP_HDR_SIZE_def split: if_splits)
  let ?m = "min ?o (of_int (min ?s 65535))"
  note un = uint_nat [of mtu]
  have lt: "uint mtu < 65536" using unsigned_less [of mtu, where 'a = int] by simp
  have s: "min ?s 65535 = ?s" "?s = int (unat mtu - hdr - 20)" using pos lt unfolding un by (linarith, linarith)
  have "unat (of_int (min ?s 65535) :: u16) = unat mtu - hdr - 20"
    unfolding s(1) unfolding s(2) by (simp only: of_int_of_nat_eq unsigned_of_nat of_nat_id) (rule take_bit_nat_eq_self, use unsigned_less [of mtu, where 'a = nat] in simp)
  then have "unat ?m = min (unat ?o) (unat mtu - hdr - 20)"
    by (rule unat_min)
  moreover have "mss = ucast ?o" "clamped = ucast ?m" "q = set_mss ?m p"
    using assms True pos by (auto simp: clampMSS_def Let_def TCP_HDR_SIZE_def set_mss_def)
  moreover have "hdr + 20 < unat mtu" using pos unfolding un by linarith
  ultimately show ?thesis using True by auto
qed (use assms in \<open>auto simp: clampMSS_def\<close>)

lemma checksum_sets: "\<exists>c. egress_checksum p mss clamped = set_l4_chksum c p"
proof (cases "pb_l4Valid p")
  case L4ICMP
  then show ?thesis by (auto simp: egress_checksum_def l4UpdateChecksum_def set_l4_chksum_def intro: exI [of _ "icmp_chksum (pb_icmp p)"])
qed (auto simp: egress_checksum_def l4UpdateChecksum_def set_l4_chksum_def)

lemma op_mss_update [simp]:
  "op_sack (o1\<lparr>op_mss := x\<rparr>) = op_sack o1" "op_mpCap (o1\<lparr>op_mss := x\<rparr>) = op_mpCap o1"
  "op_mpJoin (o1\<lparr>op_mss := x\<rparr>) = op_mpJoin o1" "op_mpDss (o1\<lparr>op_mss := x\<rparr>) = op_mpDss o1"
  "op_mpAdd (o1\<lparr>op_mss := x\<rparr>) = op_mpAdd o1" "op_mpRem (o1\<lparr>op_mss := x\<rparr>) = op_mpRem o1"
  by simp_all

lemma measureOpts_mss: "measureOpts m (o1\<lparr>op_mss := x\<rparr>) = measureOpts m o1"
  by (simp only: measureOpts_def tcp_std_length_def op_mss_update)

lemma TCP_size_mss: "TCP_size (h\<lparr>tcp_options := (tcp_options h)\<lparr>op_mss := x\<rparr>\<rparr>) = TCP_size h"
  by (simp add: TCP_size_def measureOpts_mss)

lemma set_mss_simps [simp]:
  "same_net p (set_mss m p)" "l4Size (set_mss m p) = l4Size p" "l4SPort (set_mss m p) d = l4SPort p d"
  "l4DPort (set_mss m p) d = l4DPort p d" "pb_payload (set_mss m p) = pb_payload p"
  "tcp_optMask (pb_tcp (set_mss m p)) = tcp_optMask (pb_tcp p)"
  by (simp_all add: set_mss_def same_net_def pb_raw_def l4Size_def l4SPort_def l4DPort_def pb_payload_def TCP_size_mss
    cong: L4Type.case_cong)

lemma set_l4_chksum_simps [simp]:
  "same_net p (set_l4_chksum c p)" "l4Size (set_l4_chksum c p) = l4Size p" "l4SPort (set_l4_chksum c p) d = l4SPort p d"
  "l4DPort (set_l4_chksum c p) d = l4DPort p d" "pb_payload (set_l4_chksum c p) = pb_payload p"
  "tcp_optMask (pb_tcp (set_l4_chksum c p)) = tcp_optMask (pb_tcp p)" "tcp_options (pb_tcp (set_l4_chksum c p)) = tcp_options (pb_tcp p)"
  by (cases "pb_l4Valid p"; simp add: set_l4_chksum_def same_net_def pb_raw_def l4Size_def l4SPort_def l4DPort_def
    pb_payload_def TCP_size_def SCMP_size_def)+
section \<open>Egress\<close>

lemma RawPath_assign_Inr: "RawPath_assign rp a b t d = Inr rp' \<Longrightarrow>
    RawPath_encoded rp' = d \<and> rp_size rp' = length d \<and> length d \<le> 984 \<and> rp_type rp' = t"
  by (auto simp: RawPath_assign_def RawPath_encoded_def overwrite_def RawPath_MAX_SIZE_def split: if_splits)

text \<open>The state of a packet that passes, before the underlay headers are set up.\<close>

definition egress_inner :: "u32 \<Rightarrow> PacketBuffer \<Rightarrow> byte \<Rightarrow> Path \<Rightarrow> ScIPAddress \<Rightarrow> IPAddress \<Rightarrow> RawPath \<Rightarrow> PacketBuffer" where
  "egress_inner seed p nh path dst src rp = p\<lparr>pb_sci := scion_header seed p nh path dst src, pb_path := rp\<rparr>"

lemma egress_on_path_pass:
  assumes "egress_on_path seed p nh path mtu dst src = (Some (Pass, sport, hop), q)"
  obtains rp m c p2 where
    "RawPath_assign (pb_path p) (pth_source path) (pth_destination path) (pth_type path) (pth_path path) = Inr rp"
    "scion_packet_size (egress_inner seed p nh path dst src rp) path \<le> unat mtu"
    "p2 = (if pb_l4Valid p = L4TCP \<and> om_MSS (tcp_optMask (pb_tcp p)) then set_mss m (egress_inner seed p nh path dst src rp)
           else egress_inner seed p nh path dst src rp)"
    "pb_l4Valid p = L4TCP \<and> om_MSS (tcp_optMask (pb_tcp p)) \<longrightarrow>
       SCION_size (pb_sci p2) + length (pth_path path) + 20 + unat m \<le> unat mtu"
    "q = underlay seed (set_l4_chksum c p2) hop src" "sport = udp_sport (pb_outerUDP q)"
    "hop = Path_nextHop path \<lparr>m_host = a_host dst, m_port = l4DPort p DISPATCHER_PORT\<rparr>"
proof -
  let ?hop = "Path_nextHop path \<lparr>m_host = a_host dst, m_port = l4DPort p DISPATCHER_PORT\<rparr>"
  obtain rp where rp: "RawPath_assign (pb_path p) (pth_source path) (pth_destination path) (pth_type path) (pth_path path) = Inr rp"
    using assms by (auto simp: egress_on_path_def Let_def split: sum.splits)
  define p1 where "p1 = egress_inner seed p nh path dst src rp"
  have p1: "p1 = p\<lparr>pb_sci := scion_header seed p nh path dst src, pb_path := rp\<rparr>" "pb_l4Valid p1 = pb_l4Valid p" "pb_tcp p1 = pb_tcp p"
    by (simp_all add: p1_def egress_inner_def)
  have e: "(if scion_packet_size p1 path > unat mtu
       then if ip_mtu p1 path mtu \<ge> IPV6_MIN_LINK_MTU
            then (Some (Return, 0, ?hop), makeIcmpPacketTooBig p1 (of_nat (min (ip_mtu p1 path mtu) 65535)))
            else (Some (Drop, 0, ?hop), p1)
       else case clampMSS p1 mtu (SCION_size (pb_sci p1) + length (pth_path path)) of
              None \<Rightarrow> (Some (Abort, 0, ?hop), p1)
            | Some (mss, clampedMSS, p) \<Rightarrow>
                let p = underlay seed (egress_checksum p mss clampedMSS) ?hop src
                in (Some (Pass, udp_sport (pb_outerUDP p), ?hop), p)) = (Some (Pass, sport, hop), q)"
    using assms unfolding egress_on_path_def Let_def p1(1) by (simp add: rp)
  then have sz: "scion_packet_size p1 path \<le> unat mtu" by (auto split: if_splits)
  obtain mss clamped p2 where c: "clampMSS p1 mtu (SCION_size (pb_sci p1) + length (pth_path path)) = Some (mss, clamped, p2)"
    "q = underlay seed (egress_checksum p2 mss clamped) ?hop src" "hop = ?hop" "sport = udp_sport (pb_outerUDP q)"
    using e sz by (auto simp: Let_def split: option.splits)
  obtain c' where c': "egress_checksum p2 mss clamped = set_l4_chksum c' p2" using checksum_sets by blast
  have sci: "pb_sci (set_mss m p1) = pb_sci p1" for m by (simp add: set_mss_def)
  obtain m where m: "p2 = (if pb_l4Valid p = L4TCP \<and> om_MSS (tcp_optMask (pb_tcp p)) then set_mss m p1 else p1)"
    "pb_l4Valid p = L4TCP \<and> om_MSS (tcp_optMask (pb_tcp p)) \<longrightarrow> SCION_size (pb_sci p2) + length (pth_path path) + 20 + unat m \<le> unat mtu"
    using clampMSS_Some [OF c(1)] p1(2,3) sci by (auto split: if_splits)
  show ?thesis
    by (rule that [OF rp sz [unfolded p1_def] m(1) [unfolded p1_def] m(2) _ c(4,3)]) (simp_all add: c(2,3) c')
qed

lemma egress_l4_facts:
  assumes "egress_l4 p = (v, q, nh)"
  shows "v = Pass \<or> v = Drop" "pb_ipv6 q = pb_ipv6 p" "pb_ipValid q = pb_ipValid p" "pb_path q = pb_path p"
    "pb_stunValid q = pb_stunValid p" "pb_udp q = pb_udp p" "pb_tcp q = pb_tcp p" "length (pb_payload q) = length (pb_payload p)"
    "pb_endOfHeader q = pb_endOfHeader p" "pb_l4Valid p \<noteq> L4ICMP \<Longrightarrow> q = p"
    "v = Pass \<Longrightarrow> nh = L4Type_code (pb_l4Valid q) \<and> pb_l4Valid q = (if pb_l4Valid p = L4ICMP then L4SCMP else pb_l4Valid p)"
proof -
  have len: "length (pb_payload (write_payload16 p i x)) = length (pb_payload p)" if "18 \<le> length (pb_payload p)" "i = 16" for i x
    proof -
    have "pb_endOfHeader p + 18 \<le> length (pb_buffer p)" using that(1) by (simp add: pb_payload_def; linarith)
    then show ?thesis using that(2) by (simp add: write_payload16_def pb_payload_def length_overwrite)
  qed
  note d = egress_l4_def translateIcmpToScmp_def Let_def write_payload16_def
  show "v = Pass \<or> v = Drop" "pb_ipv6 q = pb_ipv6 p" "pb_ipValid q = pb_ipValid p" "pb_path q = pb_path p"
    "pb_stunValid q = pb_stunValid p" "pb_udp q = pb_udp p" "pb_tcp q = pb_tcp p" 
    "pb_endOfHeader q = pb_endOfHeader p" "pb_l4Valid p \<noteq> L4ICMP \<Longrightarrow> q = p"
    "v = Pass \<Longrightarrow> nh = L4Type_code (pb_l4Valid q) \<and> pb_l4Valid q = (if pb_l4Valid p = L4ICMP then L4SCMP else pb_l4Valid p)"
    using assms by (auto simp: d split: if_splits)
  have pl: "pb_payload (x\<lparr>pb_scmp := a, pb_l4Valid := b\<rparr>) = pb_payload x" for x a b by (simp add: pb_payload_def)
  show "length (pb_payload q) = length (pb_payload p)"
    using assms len by (auto simp: egress_l4_def translateIcmpToScmp_def Let_def pl split: if_splits)
qed

lemma translateEgress_pass:
  assumes "translateEgress seed p prefix len getPath = (Some (Pass, sport, hop), q)"
  obtains p1 dst path mtu where "pb_ipValid p = IPv6Valid" "egress_l4 p = (Pass, p1, L4Type_code (pb_l4Valid p1))"
    "unmapFromIPv6 (ip6_dst (pb_ipv6 p)) = Inr dst"
    "getPath (Address_make 0 (translateIPv6Prefix (ip6_src (pb_ipv6 p)) prefix len)) dst (l4SPort p1 0) (l4DPort p1 0)
       (L4Type_code (pb_l4Valid p1)) (drop_bit 2 (ip6_tc (pb_ipv6 p))) = (Inr (Some path), mtu)"
    "egress_on_path seed p1 (L4Type_code (pb_l4Valid p1)) path mtu dst (translateIPv6Prefix (ip6_src (pb_ipv6 p)) prefix len)
       = (Some (Pass, sport, hop), q)"
proof -
  have ip: "pb_ipValid p = IPv6Valid" using assms by (auto simp: translateEgress_def Let_def split: if_splits)
  obtain v p1 nh where e: "egress_l4 p = (v, p1, nh)" by (metis prod_cases3)
  have v: "v = Pass"
    using assms egress_l4_facts(1) [OF e] by (auto simp: translateEgress_def Let_def e ip)
  note f = egress_l4_facts [OF e] and g = egress_l4_facts(11) [OF e v, THEN conjunct1]
  obtain dst where dst: "unmapFromIPv6 (ip6_dst (pb_ipv6 p)) = Inr dst"
    using assms by (auto simp: translateEgress_def Let_def e ip v f(2) split: sum.splits)
  obtain r mtu where r: "getPath (Address_make 0 (translateIPv6Prefix (ip6_src (pb_ipv6 p)) prefix len)) dst (l4SPort p1 0) (l4DPort p1 0)
       (L4Type_code (pb_l4Valid p1)) (drop_bit 2 (ip6_tc (pb_ipv6 p))) = (r, mtu)" by (metis surj_pair)
  note rules = translateEgress_def Let_def e ip v f(2) dst g r
  have "r \<noteq> Inl ec" "r \<noteq> Inr None" for ec
    using assms by (auto simp: rules split: if_splits)
  then obtain path where path: "r = Inr (Some path)" by (cases r) auto
  show ?thesis
    by (rule that [OF ip e [unfolded v g] dst r [unfolded path]])
      (use assms in \<open>simp add: rules path\<close>)
qed

lemma underlay_fields:
  "pb_scionValid (underlay seed p hop src)" "pb_outerUDPValid (underlay seed p hop src)"
  "pb_sci (underlay seed p hop src) = pb_sci p" "pb_path (underlay seed p hop src) = pb_path p"
  "pb_l4Valid (underlay seed p hop src) = pb_l4Valid p" "pb_icmp (underlay seed p hop src) = pb_icmp p"
  "pb_scmp (underlay seed p hop src) = pb_scmp p" "pb_tcp (underlay seed p hop src) = pb_tcp p"
  "pb_udp (underlay seed p hop src) = pb_udp p" "pb_stunValid (underlay seed p hop src) = pb_stunValid p"
  "pb_payload (underlay seed p hop src) = pb_payload p" "pb_endOfHeader (underlay seed p hop src) = pb_endOfHeader p"
  "udp_sport (pb_outerUDP (underlay seed p hop src)) = (if l4SPort p 0 = 0 then DISPATCHER_PORT else l4SPort p 0)"
  "udp_dport (pb_outerUDP (underlay seed p hop src)) = m_port hop"
  "udp_len (pb_outerUDP (underlay seed p hop src)) =
     of_nat (UDP_size + SCION_size (pb_sci p) + rp_size (pb_path p) + unat (sc_plen (pb_sci p)))"
  "is4 (m_host hop) \<Longrightarrow> pb_ipValid (underlay seed p hop src) = IPv4Valid \<and> ip4_src (pb_ipv4 (underlay seed p hop src)) = src
     \<and> ip4_dst (pb_ipv4 (underlay seed p hop src)) = m_host hop \<and> ip4_proto (pb_ipv4 (underlay seed p hop src)) = IPProto_UDP
     \<and> ip4_flags (pb_ipv4 (underlay seed p hop src)) = 2 \<and> ip4_frag (pb_ipv4 (underlay seed p hop src)) = 0
     \<and> ip4_len (pb_ipv4 (underlay seed p hop src)) = 20 + udp_len (pb_outerUDP (underlay seed p hop src))"
  "\<not> is4 (m_host hop) \<Longrightarrow> pb_ipValid (underlay seed p hop src) = IPv6Valid \<and> ip6_src (pb_ipv6 (underlay seed p hop src)) = src
     \<and> ip6_dst (pb_ipv6 (underlay seed p hop src)) = m_host hop \<and> ip6_nh (pb_ipv6 (underlay seed p hop src)) = IPProto_UDP
     \<and> ip6_plen (pb_ipv6 (underlay seed p hop src)) = udp_len (pb_outerUDP (underlay seed p hop src))"
  by (simp_all add: underlay_def Let_def pb_payload_def IPv4_size_def)

lemma underlay_sizes [simp]:
  "l4Size (underlay seed p hop src) = l4Size p" "l4SPort (underlay seed p hop src) d = l4SPort p d" "l4DPort (underlay seed p hop src) d = l4DPort p d"
  by (cases "pb_l4Valid p"; simp add: l4Size_def l4SPort_def l4DPort_def underlay_fields)+

lemma scion_header_fields [simp]:
  "sc_qos (scion_header seed p nh path dst src) = ip6_tc (pb_ipv6 p)" "sc_nh (scion_header seed p nh path dst src) = nh"
  "sc_ptype (scion_header seed p nh path dst src) = pth_type path" "sc_dst (scion_header seed p nh path dst src) = dst"
  "sc_src (scion_header seed p nh path dst src) = Address_make (pth_source path) src"
  "sc_hlen (scion_header seed p nh path dst src) = of_nat ((SCION_size (scion_header seed p nh path dst src) + length (pth_path path)) div 4)"
  "sc_plen (scion_header seed p nh path dst src) = of_nat (l4Size p + length (pb_payload p))"
  by (simp_all add: scion_header_def Let_def SCION_size_def)

lemma egress_inner_simps [simp]:
  "pb_sci (egress_inner seed p nh path dst src rp) = scion_header seed p nh path dst src" "pb_path (egress_inner seed p nh path dst src rp) = rp"
  "pb_l4Valid (egress_inner seed p nh path dst src rp) = pb_l4Valid p" "pb_ipv6 (egress_inner seed p nh path dst src rp) = pb_ipv6 p"
  "pb_tcp (egress_inner seed p nh path dst src rp) = pb_tcp p" "pb_udp (egress_inner seed p nh path dst src rp) = pb_udp p"
  "pb_scmp (egress_inner seed p nh path dst src rp) = pb_scmp p" "pb_stunValid (egress_inner seed p nh path dst src rp) = pb_stunValid p"
  "pb_payload (egress_inner seed p nh path dst src rp) = pb_payload p" "l4Size (egress_inner seed p nh path dst src rp) = l4Size p"
  "l4SPort (egress_inner seed p nh path dst src rp) d = l4SPort p d" "l4DPort (egress_inner seed p nh path dst src rp) d = l4DPort p d"
  "pb_endOfHeader (egress_inner seed p nh path dst src rp) = pb_endOfHeader p"
  by (simp_all add: egress_inner_def pb_payload_def l4Size_def l4SPort_def l4DPort_def cong: L4Type.case_cong)

text \<open>The packet that passes: the transport header with another checksum and MSS, the payload, and the new headers around them.\<close>

lemma same_netD:
  "same_net p q \<Longrightarrow> pb_sci q = pb_sci p" "same_net p q \<Longrightarrow> pb_path q = pb_path p" "same_net p q \<Longrightarrow> pb_l4Valid q = pb_l4Valid p"
  "same_net p q \<Longrightarrow> pb_stunValid q = pb_stunValid p" "same_net p q \<Longrightarrow> pb_ipv6 q = pb_ipv6 p"
  "same_net p q \<Longrightarrow> pb_endOfHeader q = pb_endOfHeader p"
  by (simp_all add: same_net_def pb_raw_def)

text \<open>\<open>l4_kept p q\<close>: the transport header is the same up to the checksum and a lower maximum segment size.\<close>

definition tcp_with :: "u16 \<Rightarrow> u16 \<Rightarrow> TCP \<Rightarrow> TCP" where
  "tcp_with c m h = h\<lparr>tcp_chksum := c, tcp_options := (tcp_options h)\<lparr>op_mss := \<lparr>mss_mss = m\<rparr>\<rparr>\<rparr>"

definition l4_kept :: "PacketBuffer \<Rightarrow> PacketBuffer \<Rightarrow> bool" where
  "l4_kept p q \<longleftrightarrow> pb_l4Valid q = pb_l4Valid p \<and> scmp_msg (pb_scmp q) = scmp_msg (pb_scmp p)
     \<and> (\<exists>c. pb_udp q = (pb_udp p)\<lparr>udp_chksum := c\<rparr>) \<and> (\<exists>c m. pb_tcp q = tcp_with c m (pb_tcp p))"

lemma tcp_with_twice [simp]: "tcp_with c m (tcp_with c' m' h) = tcp_with c m h"
  by (simp add: tcp_with_def)

lemma l4_kept_trans: "l4_kept p q \<Longrightarrow> l4_kept q r \<Longrightarrow> l4_kept p r"
  unfolding l4_kept_def by (elim conjE exE) auto

lemma tcp_with_self: "\<exists>c m. h = tcp_with c m h" "\<exists>c' m. h\<lparr>tcp_chksum := c\<rparr> = tcp_with c' m h"
  "\<exists>c m'. h\<lparr>tcp_options := (tcp_options h)\<lparr>op_mss := \<lparr>mss_mss = m\<rparr>\<rparr>\<rparr> = tcp_with c m' h"
proof -
  have "h = tcp_with (tcp_chksum h) (mss_mss (op_mss (tcp_options h))) h"
    "h\<lparr>tcp_chksum := c\<rparr> = tcp_with c (mss_mss (op_mss (tcp_options h))) h"
    "h\<lparr>tcp_options := (tcp_options h)\<lparr>op_mss := \<lparr>mss_mss = m\<rparr>\<rparr>\<rparr> = tcp_with (tcp_chksum h) m h"
    by (simp_all add: tcp_with_def)
  then show "\<exists>c m. h = tcp_with c m h" "\<exists>c' m. h\<lparr>tcp_chksum := c\<rparr> = tcp_with c' m h"
    "\<exists>c m'. h\<lparr>tcp_options := (tcp_options h)\<lparr>op_mss := \<lparr>mss_mss = m\<rparr>\<rparr>\<rparr> = tcp_with c m' h" by blast+
qed

lemma udp_chksum_self: "\<exists>c. h = h\<lparr>udp_chksum := c\<rparr>" for h :: UDP
  by (rule exI [of _ "udp_chksum h"]) simp

lemma l4_kept_steps:
  "l4_kept p (set_mss m p)" "l4_kept p (set_l4_chksum c p)"
  "l4_kept p (underlay seed p hop src)" "l4_kept p (egress_inner seed p nh path dst src rp)"
proof -
  show "l4_kept p (set_mss m p)"
    using tcp_with_self(3) udp_chksum_self by (simp add: l4_kept_def set_mss_def)
  show "l4_kept p (set_l4_chksum c p)"
    using tcp_with_self(1,2) udp_chksum_self by (cases "pb_l4Valid p") (simp_all add: l4_kept_def set_l4_chksum_def, blast)
  show "l4_kept p (underlay seed p hop src)" "l4_kept p (egress_inner seed p nh path dst src rp)"
    using tcp_with_self(1) udp_chksum_self by (simp_all add: l4_kept_def underlay_fields)
qed

lemma scion_packet_measure: "pb_scionValid q \<Longrightarrow> measureHeaders q True = SCION_size (pb_sci q) + rp_size (pb_path q) + l4Size q"
  by (simp add: measureHeaders_def)

lemma egress_on_path_result:
  assumes "egress_on_path seed p nh path mtu dst src = (Some (Pass, sport, hop), q)"
  shows "pb_scionValid q" "pb_outerUDPValid q" "pb_stunValid q = pb_stunValid p" "pb_sci q = scion_header seed p nh path dst src"
    "RawPath_assign (pb_path p) (pth_source path) (pth_destination path) (pth_type path) (pth_path path) = Inr (pb_path q)"
    "l4_kept p q" "l4Size q = l4Size p" "\<And>d. l4SPort q d = l4SPort p d" "\<And>d. l4DPort q d = l4DPort p d"
    "pb_payload q = pb_payload p" "pb_endOfHeader q = pb_endOfHeader p"
    "measureHeaders q True + length (pb_payload q) \<le> unat mtu"
    "unat (sc_plen (pb_sci q)) = l4Size q + length (pb_payload q)"
    "pb_l4Valid p = L4TCP \<Longrightarrow> om_MSS (tcp_optMask (pb_tcp p)) \<Longrightarrow>
       SCION_size (pb_sci q) + rp_size (pb_path q) + 20 + unat (mss_mss (op_mss (tcp_options (pb_tcp q)))) \<le> unat mtu"
    "hop = Path_nextHop path \<lparr>m_host = a_host dst, m_port = l4DPort p DISPATCHER_PORT\<rparr>"
    "\<exists>r. q = underlay seed r hop src \<and> pb_ipv6 r = pb_ipv6 p"
    "sport = udp_sport (pb_outerUDP q)" "sport \<noteq> 0" "udp_dport (pb_outerUDP q) = m_port hop"
    "udp_len (pb_outerUDP q) = of_nat (UDP_size + measureHeaders q True + length (pb_payload q))"
proof -
  obtain rp m c p2 where *:
    "RawPath_assign (pb_path p) (pth_source path) (pth_destination path) (pth_type path) (pth_path path) = Inr rp"
    "scion_packet_size (egress_inner seed p nh path dst src rp) path \<le> unat mtu"
    "p2 = (if pb_l4Valid p = L4TCP \<and> om_MSS (tcp_optMask (pb_tcp p)) then set_mss m (egress_inner seed p nh path dst src rp)
           else egress_inner seed p nh path dst src rp)"
    "pb_l4Valid p = L4TCP \<and> om_MSS (tcp_optMask (pb_tcp p)) \<longrightarrow>
       SCION_size (pb_sci p2) + length (pth_path path) + 20 + unat m \<le> unat mtu"
    "q = underlay seed (set_l4_chksum c p2) hop src" "sport = udp_sport (pb_outerUDP q)"
    "hop = Path_nextHop path \<lparr>m_host = a_host dst, m_port = l4DPort p DISPATCHER_PORT\<rparr>"
    by (rule egress_on_path_pass [OF assms]) (rule that; assumption)
  let ?p1 = "egress_inner seed p nh path dst src rp" and ?r = "set_l4_chksum c p2"
  note rp = RawPath_assign_Inr [OF *(1)]
  have n2: "same_net ?p1 p2" using *(3) by (simp add: same_net_def pb_raw_def set_mss_def)
  note n = n2 set_l4_chksum_simps(1) [of p2 c]
  note d = n [THEN same_netD(1)] n [THEN same_netD(2)] n [THEN same_netD(3)] n [THEN same_netD(4)] n [THEN same_netD(5)] n [THEN same_netD(6)]
  have s: "l4Size p2 = l4Size p" "l4SPort p2 d = l4SPort p d" "l4DPort p2 d = l4DPort p d" "pb_payload p2 = pb_payload p" for d
    using *(3) by simp_all
  show "pb_scionValid q" "pb_outerUDPValid q" "pb_stunValid q = pb_stunValid p" "pb_sci q = scion_header seed p nh path dst src"
    "RawPath_assign (pb_path p) (pth_source path) (pth_destination path) (pth_type path) (pth_path path) = Inr (pb_path q)"
    "l4Size q = l4Size p" "pb_payload q = pb_payload p" "pb_endOfHeader q = pb_endOfHeader p"
    "hop = Path_nextHop path \<lparr>m_host = a_host dst, m_port = l4DPort p DISPATCHER_PORT\<rparr>"
    "sport = udp_sport (pb_outerUDP q)" "sport \<noteq> 0" "udp_dport (pb_outerUDP q) = m_port hop"
    using *(1,6,7) s unfolding *(5) underlay_fields underlay_sizes by (simp_all add: d underlay_fields(1,2) DISPATCHER_PORT_def)
  show "l4SPort q d = l4SPort p d" "l4DPort q d = l4DPort p d" for d using *(5) s by simp_all
  have sz: "SCION_size (pb_sci q) + rp_size (pb_path q) + l4Size q + length (pb_payload q) \<le> unat mtu"
    using *(2) rp s by (simp add: scion_packet_size_def *(5) underlay_fields d)
  then show "measureHeaders q True + length (pb_payload q) \<le> unat mtu"
    using \<open>pb_scionValid q\<close> by (simp add: scion_packet_measure)
  have "unat mtu < 65536" using unsigned_less [of mtu, where 'a = nat] by simp
  then have "l4Size q + length (pb_payload q) < 2 ^ 16" using sz by simp
  moreover have "sc_plen (pb_sci q) = of_nat (l4Size q + length (pb_payload q))"
    using s by (simp add: *(5) underlay_fields d)
  ultimately show pl: "unat (sc_plen (pb_sci q)) = l4Size q + length (pb_payload q)"
    by (simp only: unsigned_of_nat of_nat_id) (simp add: take_bit_nat_eq_self)
  show "udp_len (pb_outerUDP q) = of_nat (UDP_size + measureHeaders q True + length (pb_payload q))"
  proof -
    have "udp_len (pb_outerUDP q) = of_nat (UDP_size + SCION_size (pb_sci q) + rp_size (pb_path q) + unat (sc_plen (pb_sci q)))"
      unfolding *(5) underlay_fields ..
    then show ?thesis unfolding pl scion_packet_measure [OF \<open>pb_scionValid q\<close>] by (simp add: algebra_simps)
  qed
  have "l4_kept p p2"
    using l4_kept_trans [OF l4_kept_steps(4) l4_kept_steps(1)] l4_kept_steps(4) by (simp add: *(3))
  then show "l4_kept p q"
    unfolding *(5) by (blast intro: l4_kept_trans l4_kept_steps)
  show "\<exists>r. q = underlay seed r hop src \<and> pb_ipv6 r = pb_ipv6 p" using *(5) d by auto
  assume mss: "pb_l4Valid p = L4TCP" "om_MSS (tcp_optMask (pb_tcp p))"
  then have "mss_mss (op_mss (tcp_options (pb_tcp q))) = m"
    using *(3,5) by (simp add: underlay_fields) (simp add: set_mss_def)
  then show "SCION_size (pb_sci q) + rp_size (pb_path q) + 20 + unat (mss_mss (op_mss (tcp_options (pb_tcp q)))) \<le> unat mtu"
    using *(4) mss rp by (simp add: *(5) underlay_fields d)
qed

lemma egress_passes:
  assumes "pb_ipValid p = IPv6Valid" "pb_l4Valid p = L4UDP" "unmapFromIPv6 (ip6_dst (pb_ipv6 p)) = Inr dst"
    and r: "getPath (Address_make 0 (translateIPv6Prefix (ip6_src (pb_ipv6 p)) prefix len)) dst (udp_sport (pb_udp p))
      (udp_dport (pb_udp p)) 17 (drop_bit 2 (ip6_tc (pb_ipv6 p))) = (Inr (Some path), mtu)"
    and sz: "length (pth_path path) \<le> 984" "68 + length (pth_path path) + length (pb_payload p) \<le> unat mtu"
  shows "\<exists>q. translateEgress seed p prefix len getPath = (Some (Pass,
      if udp_sport (pb_udp p) = 0 then DISPATCHER_PORT else udp_sport (pb_udp p),
      Path_nextHop path \<lparr>m_host = a_host dst, m_port = udp_dport (pb_udp p)\<rparr>), q)"
proof -
  let ?src = "translateIPv6Prefix (ip6_src (pb_ipv6 p)) prefix len" and ?hop = "Path_nextHop path \<lparr>m_host = a_host dst, m_port = udp_dport (pb_udp p)\<rparr>"
  obtain rp where rp: "RawPath_assign (pb_path p) (pth_source path) (pth_destination path) (pth_type path) (pth_path path) = Inr rp"
    using sz(1) by (simp add: RawPath_assign_def RawPath_MAX_SIZE_def)
  have l4: "egress_l4 p = (Pass, p, 17)" using assms(2) by (simp add: egress_l4_def IPProto_UDP_def)
  have ps: "l4SPort p d = udp_sport (pb_udp p)" "l4DPort p d = udp_dport (pb_udp p)" "l4Size p = 8" for d
    using assms(2) by (simp_all add: l4SPort_def l4DPort_def l4Size_def UDP_size_def)
  let ?p1 = "egress_inner seed p 17 path dst ?src rp"
  have "SCION_size (pb_sci ?p1) \<le> 60" by (rule SCION_size_4)
  then have fits: "\<not> unat mtu < scion_packet_size ?p1 path" using sz(2) ps(3) by (simp add: scion_packet_size_def)
  have "egress_on_path seed p 17 path mtu dst ?src = (Some (Pass,
      if udp_sport (pb_udp p) = 0 then DISPATCHER_PORT else udp_sport (pb_udp p), ?hop),
      underlay seed (egress_checksum ?p1 0 0) ?hop ?src)"
    using fits assms(2) unfolding egress_on_path_def Let_def
    by (simp add: rp ps egress_inner_def clampMSS_def underlay_fields)
     (simp add: egress_checksum_def l4UpdateChecksum_def l4SPort_def)
  then show ?thesis
    using assms(1,3) r by (simp add: translateEgress_def Let_def l4 ps)
qed

text \<open>C10: A packet that \<open>translateEgress\<close> passes was an IPv6 packet to a SCION-mapped address; it leaves as a SCION packet with the
  address that its destination is mapped from, the path that the callback returned for its addresses, ports, protocol and
  traffic class, and its own payload and transport header but for the checksum and the MSS. The SCION packet is at most as long
  as the MTU, its length fields are right, the MSS leaves room for the headers, and the underlay goes to the next hop of the
  path from a port that is not zero.\<close>

theorem egress_pass:
  assumes "translateEgress seed p prefix len getPath = (Some (Pass, sport, hop), q)"
  shows "\<exists>dst path mtu. unmapFromIPv6 (ip6_dst (pb_ipv6 p)) = Inr dst \<and> pb_ipValid p = IPv6Valid \<and>
    (let src = translateIPv6Prefix (ip6_src (pb_ipv6 p)) prefix len in
     getPath (Address_make 0 src) dst (l4SPort q 0) (l4DPort q 0) (L4Type_code (pb_l4Valid q)) (drop_bit 2 (ip6_tc (pb_ipv6 p)))
       = (Inr (Some path), mtu) \<and>
     sc_dst (pb_sci q) = dst \<and> sc_src (pb_sci q) = Address_make (pth_source path) src \<and> sc_qos (pb_sci q) = ip6_tc (pb_ipv6 p) \<and>
     sc_nh (pb_sci q) = L4Type_code (pb_l4Valid q) \<and> sc_ptype (pb_sci q) = pth_type path \<and>
     RawPath_encoded (pb_path q) = pth_path path \<and>
     hop = Path_nextHop path \<lparr>m_host = a_host dst, m_port = l4DPort q DISPATCHER_PORT\<rparr> \<and>
     (if is4 (m_host hop) then pb_ipValid q = IPv4Valid \<and> ip4_src (pb_ipv4 q) = src \<and> ip4_dst (pb_ipv4 q) = m_host hop
      else pb_ipValid q = IPv6Valid \<and> ip6_src (pb_ipv6 q) = src \<and> ip6_dst (pb_ipv6 q) = m_host hop)) \<and>
    pb_scionValid q \<and> pb_outerUDPValid q \<and> udp_sport (pb_outerUDP q) = sport \<and> sport \<noteq> 0 \<and> udp_dport (pb_outerUDP q) = m_port hop \<and>
    udp_len (pb_outerUDP q) = of_nat (UDP_size + measureHeaders q True + length (pb_payload q)) \<and>
    measureHeaders q True + length (pb_payload q) \<le> unat mtu \<and>
    unat (sc_plen (pb_sci q)) = l4Size q + length (pb_payload q) \<and>
    (pb_l4Valid q = L4TCP \<and> om_MSS (tcp_optMask (pb_tcp q)) \<longrightarrow>
       SCION_size (pb_sci q) + length (pth_path path) + TCP_HDR_SIZE + unat (mss_mss (op_mss (tcp_options (pb_tcp q)))) \<le> unat mtu) \<and>
    (if pb_l4Valid p = L4ICMP then pb_l4Valid q = L4SCMP \<and> length (pb_payload q) = length (pb_payload p)
     else l4_kept p q \<and> pb_payload q = pb_payload p)"
proof -
  let ?src = "translateIPv6Prefix (ip6_src (pb_ipv6 p)) prefix len"
  obtain p1 dst path mtu where *: "pb_ipValid p = IPv6Valid" "egress_l4 p = (Pass, p1, L4Type_code (pb_l4Valid p1))"
    "unmapFromIPv6 (ip6_dst (pb_ipv6 p)) = Inr dst"
    "getPath (Address_make 0 ?src) dst (l4SPort p1 0) (l4DPort p1 0)
       (L4Type_code (pb_l4Valid p1)) (drop_bit 2 (ip6_tc (pb_ipv6 p))) = (Inr (Some path), mtu)"
    "egress_on_path seed p1 (L4Type_code (pb_l4Valid p1)) path mtu dst ?src = (Some (Pass, sport, hop), q)"
    by (rule translateEgress_pass [OF assms]) (rule that; assumption)
  note f = egress_l4_facts [OF *(2)] and r = egress_on_path_result [OF *(5)]
  note a = RawPath_assign_Inr [OF r(5)]
  have l4: "pb_l4Valid q = pb_l4Valid p1" "pb_l4Valid p1 = (if pb_l4Valid p = L4ICMP then L4SCMP else pb_l4Valid p)"
    using r(6) f(11) by (simp_all add: l4_kept_def)
  have mask: "tcp_optMask (pb_tcp q) = tcp_optMask (pb_tcp p1)" using r(6) by (auto simp: l4_kept_def tcp_with_def)
  have mss: "pb_l4Valid q = L4TCP \<and> om_MSS (tcp_optMask (pb_tcp q)) \<longrightarrow>
       SCION_size (pb_sci q) + length (pth_path path) + TCP_HDR_SIZE + unat (mss_mss (op_mss (tcp_options (pb_tcp q)))) \<le> unat mtu"
    using r(14) a unfolding l4(1) mask TCP_HDR_SIZE_def by simp
  obtain x where x: "q = underlay seed x hop ?src" using r(16) by blast
  have ul: "if is4 (m_host hop) then pb_ipValid q = IPv4Valid \<and> ip4_src (pb_ipv4 q) = ?src \<and> ip4_dst (pb_ipv4 q) = m_host hop
      else pb_ipValid q = IPv6Valid \<and> ip6_src (pb_ipv6 q) = ?src \<and> ip6_dst (pb_ipv6 q) = m_host hop"
    using underlay_fields(16,17) [of hop seed x ?src] by (simp add: x)
  have k: "if pb_l4Valid p = L4ICMP then pb_l4Valid q = L4SCMP \<and> length (pb_payload q) = length (pb_payload p)
     else l4_kept p q \<and> pb_payload q = pb_payload p"
    using l4 f(8,10) r(6,10) by auto
  show ?thesis
    unfolding Let_def
    by (rule exI [of _ dst], rule exI [of _ path], rule exI [of _ mtu])
      (use *(1,3,4) r(1-4,8,9,12,13,15,17-20) a ul mss k l4(1) f(2) in simp)
qed

definition example_path :: Path where
  "example_path = \<lparr>pth_source = 0x1000000010000, pth_destination = 0x1000000020000, pth_type = 1,
     pth_expires_by = 0, pth_mtu = 1472, pth_hopCount = 2,
     pth_nextHop = \<lparr>m_host = MakeIPv4 0x0a000001, m_port = 30042\<rparr>, pth_path = replicate 36 0, pth_attrib = [],
     pth_broken = 0, pth_digest = (0, 0)\<rparr>"

definition example_udp :: PacketBuffer where
  "example_udp = (blank_packet (replicate 203 0))
     \<lparr>pb_ipValid := IPv6Valid,
      pb_ipv6 := \<lparr>ip6_tc = 0, ip6_hlim = 64, ip6_nh = 17, ip6_plen = 11, ip6_fl = 5,
        ip6_src = MakeIPv6 0xfd00000000000000 1 [], ip6_dst = MakeIPv6 0xfc00120000000000 0xffff0a000001 []\<rparr>,
      pb_l4Valid := L4UDP, pb_udp := \<lparr>udp_sport = 1000, udp_dport = 53, udp_len = 11, udp_chksum = 7\<rparr>,
      pb_offset := 152, pb_size := 51, pb_endOfHeader := 200\<rparr>"

lemma example_udp_facts:
  "pb_ipValid example_udp = IPv6Valid" "pb_l4Valid example_udp = L4UDP" "pb_udp example_udp = \<lparr>udp_sport = 1000, udp_dport = 53, udp_len = 11, udp_chksum = 7\<rparr>"
  "unmapFromIPv6 (ip6_dst (pb_ipv6 example_udp)) = Inr (Address_make 0x1000000020000 (MakeIPv4 0x0a000001))"
  "length (pth_path example_path) = 36" "length (pb_payload example_udp) = 3"
  "Path_nextHop example_path x = \<lparr>m_host = MakeIPv4 0x0a000001, m_port = 30042\<rparr>"
  by (code_simp, code_simp, code_simp, code_simp, code_simp, code_simp)
    (simp add: Path_nextHop_def example_path_def PathType_Empty_def)

definition example_getPath :: getPath where
  "example_getPath = (\<lambda>_ _ _ _ _ _. (Inr (Some example_path), 1400))"

lemma example_egress: "\<exists>q. translateEgress 7 example_udp (MakeIPv4 0x0a000009) REPLACE_ADDRESS example_getPath =
    (Some (Pass, 1000, \<lparr>m_host = MakeIPv4 0x0a000001, m_port = 30042\<rparr>), q)"
  using egress_passes [OF example_udp_facts(1,2,4), of example_getPath "MakeIPv4 0x0a000009" REPLACE_ADDRESS example_path 1400 7]
  by (simp add: example_udp_facts example_getPath_def)

theorem egress_pass_witness:
  "\<exists>q. translateEgress 7 example_udp (MakeIPv4 0x0a000009) REPLACE_ADDRESS example_getPath =
      (Some (Pass, 1000, \<lparr>m_host = MakeIPv4 0x0a000001, m_port = 30042\<rparr>), q) \<and>
     a_host (sc_dst (pb_sci q)) = MakeIPv4 0x0a000001 \<and> udp_dport (pb_outerUDP q) = 30042"
proof -
  obtain q where q: "translateEgress 7 example_udp (MakeIPv4 0x0a000009) REPLACE_ADDRESS example_getPath =
      (Some (Pass, 1000, \<lparr>m_host = MakeIPv4 0x0a000001, m_port = 30042\<rparr>), q)" using example_egress by blast
  then show ?thesis
    using egress_pass [OF q] by (auto simp: example_udp_facts Let_def Address_make_def)
qed

end
