(* ===== verification/TranslatorErrors.thy ===== *)
theory TranslatorErrors
  imports TranslatorProperties
begin

text \<open>
  The ICMP errors that answer a packet which cannot be translated, the identifiers of echo messages, and the incremental
  update of checksums.
\<close>

section \<open>ICMP errors\<close>

definition raw_packet :: "PacketBuffer \<Rightarrow> byte list" where
  "raw_packet p = take (pb_size p) (drop (pb_offset p) (pb_buffer p))"

lemma make_icmp_facts:
  assumes "pb_wf n p" "pb_ipValid p = IPv6Valid" "\<not> pb_outerUDPValid p" "\<not> pb_scionValid p"
  shows "pb_l4Valid (make_icmp p type code param2) = L4ICMP" "pb_ipValid (make_icmp p type code param2) = IPv6Valid"
    "ip6_dst (pb_ipv6 (make_icmp p type code param2)) = ip6_src (pb_ipv6 p)"
    "ip6_src (pb_ipv6 (make_icmp p type code param2)) = MakeIPv6 0xfc00000000000000 1 []"
    "ip6_nh (pb_ipv6 (make_icmp p type code param2)) = IPProto_ICMPv6"
    "icmp_type (pb_icmp (make_icmp p type code param2)) = type" "icmp_code (pb_icmp (make_icmp p type code param2)) = code"
    "icmp_param1 (pb_icmp (make_icmp p type code param2)) = 0" "icmp_param2 (pb_icmp (make_icmp p type code param2)) = param2"
    "pb_payload (make_icmp p type code param2) = take 1232 (raw_packet p)"
    "measureHeaders (make_icmp p type code param2) False = 48"
    "unat (ip6_plen (pb_ipv6 (make_icmp p type code param2))) = 8 + length (pb_payload (make_icmp p type code param2))"
proof -
  let ?p1 = "p\<lparr>pb_ipv6 := (pb_ipv6 p)\<lparr>ip6_nh := IPProto_ICMPv6, ip6_src := MakeIPv6 (push_bit 56 0xfc) 1 [],
                                   ip6_dst := ip6_src (pb_ipv6 p)\<rparr>,
                pb_icmp := \<lparr>icmp_type = type, icmp_code = code, icmp_chksum = 0, icmp_param1 = 0, icmp_param2 = param2\<rparr>,
                pb_l4Valid := L4ICMP\<rparr>"
  have m: "measureHeaders ?p1 False = 48"
    using assms by (simp add: measureHeaders_def l4Size_def IPv6_size_def ICMP_size_def)
  have room: "quote_room ?p1 = 1232" unfolding quote_room_def m by (simp add: IPV6_MIN_LINK_MTU_def)
  show "pb_l4Valid (make_icmp p type code param2) = L4ICMP" "pb_ipValid (make_icmp p type code param2) = IPv6Valid"
    "ip6_dst (pb_ipv6 (make_icmp p type code param2)) = ip6_src (pb_ipv6 p)"
    "ip6_src (pb_ipv6 (make_icmp p type code param2)) = MakeIPv6 0xfc00000000000000 1 []"
    "ip6_nh (pb_ipv6 (make_icmp p type code param2)) = IPProto_ICMPv6"
    "icmp_type (pb_icmp (make_icmp p type code param2)) = type" "icmp_code (pb_icmp (make_icmp p type code param2)) = code"
    "icmp_param1 (pb_icmp (make_icmp p type code param2)) = 0" "icmp_param2 (pb_icmp (make_icmp p type code param2)) = param2"
    using assms(2) by (simp_all add: make_icmp_def quoteRawHeaders_def Let_def)
  show pl: "pb_payload (make_icmp p type code param2) = take 1232 (raw_packet p)"
    using room by (simp add: make_icmp_def quoteRawHeaders_def Let_def pb_payload_def raw_packet_def min.commute)
  show "measureHeaders (make_icmp p type code param2) False = 48"
    using assms by (simp add: make_icmp_def quoteRawHeaders_def Let_def measureHeaders_def l4Size_def IPv6_size_def ICMP_size_def)
  have len: "length (pb_payload (make_icmp p type code param2)) = min (pb_size p) 1232"
    unfolding pl using assms(1) by (simp add: raw_packet_def pb_wf_def) linarith
  have "ip6_plen (pb_ipv6 (make_icmp p type code param2)) = of_nat (8 + min (pb_size p) 1232)"
    using room by (simp add: make_icmp_def quoteRawHeaders_def Let_def ICMP_size_def)
  then show "unat (ip6_plen (pb_ipv6 (make_icmp p type code param2))) = 8 + length (pb_payload (make_icmp p type code param2))"
    unfolding len by (simp only: unsigned_of_nat of_nat_id) (simp add: take_bit_nat_eq_self)
qed

text \<open>A packet that is returned.\<close>

definition icmp_error_for :: "PacketBuffer \<Rightarrow> PacketBuffer \<Rightarrow> PacketBuffer \<Rightarrow> bool" where
  "icmp_error_for p p1 q \<longleftrightarrow> pb_l4Valid q = L4ICMP \<and> pb_ipValid q = IPv6Valid \<and> ip6_dst (pb_ipv6 q) = ip6_src (pb_ipv6 p) \<and>
     ip6_nh (pb_ipv6 q) = IPProto_ICMPv6 \<and> pb_payload q = take 1232 (raw_packet p1) \<and>
     measureHeaders q False + length (pb_payload q) \<le> IPV6_MIN_LINK_MTU \<and>
     unat (ip6_plen (pb_ipv6 q)) = ICMP_size + length (pb_payload q)"

lemma make_icmp_error:
  assumes "pb_wf n p1" "pb_ipValid p1 = IPv6Valid" "\<not> pb_outerUDPValid p1" "\<not> pb_scionValid p1" "ip6_src (pb_ipv6 p1) = ip6_src (pb_ipv6 p)"
    "raw_packet p1 = raw_packet p2"
  shows "icmp_error_for p p2 (make_icmp p1 type code param2)"
  unfolding icmp_error_for_def using make_icmp_facts [OF assms(1-4), of type code param2] assms(5,6)
  by (simp add: ICMP_size_def IPV6_MIN_LINK_MTU_def)

lemma ip_mtu_exact:
  assumes "SCION_size (pb_sci p) + length (pth_path path) \<le> unat mtu + 40"
  shows "ip_mtu p path mtu = unat mtu + 40 - (SCION_size (pb_sci p) + length (pth_path path))"
proof -
  let ?s = "SCION_size (pb_sci p)" and ?l = "length (pth_path path)"
  have m: "unat mtu < 65536" using unsigned_less [of mtu, where 'a = nat] by simp
  have "(ucast mtu + of_nat IPv6_size - of_nat ?s - of_nat ?l :: u64) = of_nat (unat mtu + 40) - of_nat (?s + ?l)"
    by (simp add: IPv6_size_def)
  also have "\<dots> = of_nat (unat mtu + 40 - (?s + ?l))" using assms by (simp only: of_nat_diff)
  finally have e: "(ucast mtu + of_nat IPv6_size - of_nat ?s - of_nat ?l :: u64) = of_nat (unat mtu + 40 - (?s + ?l))" .
  show ?thesis
    unfolding ip_mtu_def e using m by (simp only: unsigned_of_nat of_nat_id) (simp add: take_bit_nat_eq_self)
qed

definition egress_hdr :: "ScIPAddress \<Rightarrow> Path \<Rightarrow> IPAddress \<Rightarrow> nat" where
  "egress_hdr dst path src = 12 + Address_size dst + Address_size (Address_make (pth_source path) src) + length (pth_path path)"

lemma egress_on_path_return:
  assumes "egress_on_path seed p nh path mtu dst src = (Some (Return, sport, hop), q)"
  shows "\<exists>rp. q = makeIcmpPacketTooBig (egress_inner seed p nh path dst src rp) (icmp_param2 (pb_icmp q)) \<and>
     unat mtu < egress_hdr dst path src + l4Size p + length (pb_payload p) \<and>
     (egress_hdr dst path src \<le> unat mtu + 40 \<longrightarrow>
       unat (icmp_param2 (pb_icmp q)) = min (unat mtu + 40 - egress_hdr dst path src) 65535 \<and> 1280 \<le> unat mtu + 40 - egress_hdr dst path src)"
proof -
  obtain rp where rp: "RawPath_assign (pb_path p) (pth_source path) (pth_destination path) (pth_type path) (pth_path path) = Inr rp"
    using assms by (auto simp: egress_on_path_def Let_def split: sum.splits)
  let ?p1 = "egress_inner seed p nh path dst src rp"
  have p1: "?p1 = p\<lparr>pb_sci := scion_header seed p nh path dst src, pb_path := rp\<rparr>" by (simp add: egress_inner_def)
  have h: "SCION_size (pb_sci ?p1) + length (pth_path path) = egress_hdr dst path src"
    by (simp add: egress_hdr_def SCION_size_def)
  have c: "unat mtu < scion_packet_size ?p1 path" "ip_mtu ?p1 path mtu \<ge> IPV6_MIN_LINK_MTU"
    "q = makeIcmpPacketTooBig ?p1 (of_nat (min (ip_mtu ?p1 path mtu) 65535))"
    using assms unfolding egress_on_path_def Let_def by (auto simp: rp p1 split: if_splits option.splits)
  have e: "icmp_param2 (pb_icmp q) = of_nat (min (ip_mtu ?p1 path mtu) 65535)"
    unfolding c(3) by (simp add: makeIcmpPacketTooBig_def make_icmp_def quoteRawHeaders_def Let_def)
  have u: "unat (of_nat (min k 65535) :: u16) = min k 65535" for k :: nat
    by (simp only: unsigned_of_nat of_nat_id) (simp add: take_bit_nat_eq_self)
  have lt: "unat mtu < egress_hdr dst path src + l4Size p + length (pb_payload p)"
    using c(1) h by (simp add: scion_packet_size_def)
  show ?thesis
  proof (intro exI conjI)
    show "q = makeIcmpPacketTooBig ?p1 (icmp_param2 (pb_icmp q))" unfolding e by (rule c(3))
    show "egress_hdr dst path src \<le> unat mtu + 40 \<longrightarrow>
       unat (icmp_param2 (pb_icmp q)) = min (unat mtu + 40 - egress_hdr dst path src) 65535 \<and> 1280 \<le> unat mtu + 40 - egress_hdr dst path src"
    proof
      assume "egress_hdr dst path src \<le> unat mtu + 40"
      then have i: "ip_mtu ?p1 path mtu = unat mtu + 40 - egress_hdr dst path src"
        using ip_mtu_exact [of ?p1 path mtu] unfolding h by blast
      show "unat (icmp_param2 (pb_icmp q)) = min (unat mtu + 40 - egress_hdr dst path src) 65535 \<and> 1280 \<le> unat mtu + 40 - egress_hdr dst path src"
        using c(2) unfolding e u i IPV6_MIN_LINK_MTU_def by blast
    qed
  qed (rule lt)
qed

lemma translateEgress_return:
  assumes "translateEgress seed p prefix len getPath = (Some (Return, sport, hop), q)"
  obtains p1 where "pb_ipValid p = IPv6Valid" "egress_l4 p = (Pass, p1, L4Type_code (pb_l4Valid p1))"
      "q = make_icmp p1 ICMPv6_DstUnreachable 3 0" "\<And>dst. unmapFromIPv6 (ip6_dst (pb_ipv6 p)) \<noteq> Inr dst"
  | p1 dst r mtu where "pb_ipValid p = IPv6Valid" "egress_l4 p = (Pass, p1, L4Type_code (pb_l4Valid p1))"
      "unmapFromIPv6 (ip6_dst (pb_ipv6 p)) = Inr dst"
      "getPath (Address_make 0 (translateIPv6Prefix (ip6_src (pb_ipv6 p)) prefix len)) dst (l4SPort p1 0) (l4DPort p1 0)
       (L4Type_code (pb_l4Valid p1)) (drop_bit 2 (ip6_tc (pb_ipv6 p))) = (r, mtu)"
      "case r of Inl ec \<Rightarrow> ec \<noteq> Pending \<and> q = make_icmp p1 ICMPv6_DstUnreachable 0 0
       | Inr None \<Rightarrow> q = make_icmp p1 ICMPv6_DstUnreachable 0 0
       | Inr (Some path) \<Rightarrow> egress_on_path seed p1 (L4Type_code (pb_l4Valid p1)) path mtu dst (translateIPv6Prefix (ip6_src (pb_ipv6 p)) prefix len)
           = (Some (Return, sport, hop), q)"
proof -
  have ip: "pb_ipValid p = IPv6Valid" using assms by (auto simp: translateEgress_def Let_def split: if_splits)
  obtain v p1 nh where e: "egress_l4 p = (v, p1, nh)" by (metis prod_cases3)
  have v: "v = Pass"
    using assms egress_l4_facts(1) [OF e] by (auto simp: translateEgress_def Let_def e ip)
  note f = egress_l4_facts [OF e] and g = egress_l4_facts(11) [OF e v, THEN conjunct1]
  show ?thesis
  proof (cases "unmapFromIPv6 (ip6_dst (pb_ipv6 p))")
    case (Inl ec)
    then have "q = make_icmp p1 ICMPv6_DstUnreachable 3 0"
      using assms by (simp add: translateEgress_def Let_def e ip v f(2) makeIcmpDestUnreachable_def)
    then show ?thesis using that(1) [OF ip e [unfolded v g]] Inl by simp
  next
    case (Inr dst)
    obtain r mtu where r: "getPath (Address_make 0 (translateIPv6Prefix (ip6_src (pb_ipv6 p)) prefix len)) dst (l4SPort p1 0) (l4DPort p1 0)
       (L4Type_code (pb_l4Valid p1)) (drop_bit 2 (ip6_tc (pb_ipv6 p))) = (r, mtu)" by (metis surj_pair)
    note rules = translateEgress_def Let_def e ip v f(2) Inr g r makeIcmpDestUnreachable_def
    show ?thesis
      by (rule that(2) [OF ip e [unfolded v g] Inr r])
        (use assms in \<open>auto simp: rules split: sum.splits option.splits if_splits\<close>)
  qed
qed

lemma raw_packet_inner: "raw_packet (egress_inner seed p nh path dst src rp) = raw_packet p"
  by (simp add: raw_packet_def egress_inner_def)

lemma egress_return_error:
  assumes wf: "pb_wf n p" and h: "\<not> pb_outerUDPValid p" "\<not> pb_scionValid p"
    and t: "translateEgress seed p prefix len getPath = (Some (Return, sport, hop), q)"
  defines "src \<equiv> translateIPv6Prefix (ip6_src (pb_ipv6 p)) prefix len"
  shows "\<exists>p1. egress_l4 p = (Pass, p1, L4Type_code (pb_l4Valid p1)) \<and> icmp_error_for p p1 q \<and>
    (icmp_type (pb_icmp q) = ICMPv6_DstUnreachable \<and>
       icmp_code (pb_icmp q) = (case unmapFromIPv6 (ip6_dst (pb_ipv6 p)) of Inl _ \<Rightarrow> 3 | Inr _ \<Rightarrow> 0)
     \<or> icmp_type (pb_icmp q) = ICMPv6_PacketTooBig \<and> (\<exists>dst path mtu. unmapFromIPv6 (ip6_dst (pb_ipv6 p)) = Inr dst \<and>
       getPath (Address_make 0 src) dst (l4SPort p1 0) (l4DPort p1 0) (L4Type_code (pb_l4Valid p1)) (drop_bit 2 (ip6_tc (pb_ipv6 p)))
         = (Inr (Some path), mtu) \<and>
       unat mtu < egress_hdr dst path src + l4Size p1 + length (pb_payload p1) \<and>
       (egress_hdr dst path src \<le> unat mtu + 40 \<longrightarrow>
         unat (icmp_param2 (pb_icmp q)) = min (unat mtu + 40 - egress_hdr dst path src) 65535 \<and> 1280 \<le> unat mtu + 40 - egress_hdr dst path src)))"
proof -
  have l4: "pb_wf n p1" "pb_ipValid p1 = pb_ipValid p" "\<not> pb_outerUDPValid p1" "\<not> pb_scionValid p1" "ip6_src (pb_ipv6 p1) = ip6_src (pb_ipv6 p)"
    if "egress_l4 p = (v, p1, nh)" for v p1 nh
    using egress_l4_wf [OF wf that] egress_l4_facts [OF that] that h
    by (auto simp: egress_l4_def translateIcmpToScmp_def Let_def write_payload16_def split: if_splits)
  show ?thesis
  proof (rule translateEgress_return [OF t])
    fix p1
    assume p1: "pb_ipValid p = IPv6Valid" "egress_l4 p = (Pass, p1, L4Type_code (pb_l4Valid p1))"
      and q: "q = make_icmp p1 ICMPv6_DstUnreachable 3 0" and d: "\<And>dst. unmapFromIPv6 (ip6_dst (pb_ipv6 p)) \<noteq> Inr dst"
    note w = l4 [OF p1(2)]
    note w' = w(1) w(2) [unfolded p1(1)] w(3,4)
    have "icmp_code (pb_icmp q) = (case unmapFromIPv6 (ip6_dst (pb_ipv6 p)) of Inl _ \<Rightarrow> 3 | Inr _ \<Rightarrow> 0)"
      using d make_icmp_facts(7) [OF w'] by (cases "unmapFromIPv6 (ip6_dst (pb_ipv6 p))") (auto simp: q)
    then show ?thesis
      using p1(2) make_icmp_error [OF w' w(5) refl] make_icmp_facts(6) [OF w'] by (auto simp: q)
  next
    fix p1 dst r mtu
    assume p1: "pb_ipValid p = IPv6Valid" "egress_l4 p = (Pass, p1, L4Type_code (pb_l4Valid p1))"
      and dst: "unmapFromIPv6 (ip6_dst (pb_ipv6 p)) = Inr dst"
      and r: "getPath (Address_make 0 (translateIPv6Prefix (ip6_src (pb_ipv6 p)) prefix len)) dst (l4SPort p1 0) (l4DPort p1 0)
         (L4Type_code (pb_l4Valid p1)) (drop_bit 2 (ip6_tc (pb_ipv6 p))) = (r, mtu)"
      and q: "case r of Inl ec \<Rightarrow> ec \<noteq> Pending \<and> q = make_icmp p1 ICMPv6_DstUnreachable 0 0
         | Inr None \<Rightarrow> q = make_icmp p1 ICMPv6_DstUnreachable 0 0
         | Inr (Some path) \<Rightarrow> egress_on_path seed p1 (L4Type_code (pb_l4Valid p1)) path mtu dst (translateIPv6Prefix (ip6_src (pb_ipv6 p)) prefix len)
             = (Some (Return, sport, hop), q)"
    note w = l4 [OF p1(2)]
    note w' = w(1) w(2) [unfolded p1(1)] w(3,4)
    show ?thesis
    proof (cases "\<exists>path. r = Inr (Some path)")
      case False
      then have q: "q = make_icmp p1 ICMPv6_DstUnreachable 0 0" using q by (auto split: sum.splits option.splits)
      show ?thesis
        using p1(2) make_icmp_error [OF w' w(5) refl] make_icmp_facts(6,7) [OF w'] dst by (auto simp: q)
    next
      case True
      then obtain path where path: "r = Inr (Some path)" by blast
      then have "egress_on_path seed p1 (L4Type_code (pb_l4Valid p1)) path mtu dst src = (Some (Return, sport, hop), q)"
        using q by (simp add: src_def)
      from egress_on_path_return [OF this] obtain rp where
        e: "q = makeIcmpPacketTooBig (egress_inner seed p1 (L4Type_code (pb_l4Valid p1)) path dst src rp) (icmp_param2 (pb_icmp q))"
        and m: "unat mtu < egress_hdr dst path src + l4Size p1 + length (pb_payload p1)"
          "egress_hdr dst path src \<le> unat mtu + 40 \<longrightarrow>
           unat (icmp_param2 (pb_icmp q)) = min (unat mtu + 40 - egress_hdr dst path src) 65535 \<and> 1280 \<le> unat mtu + 40 - egress_hdr dst path src"
        by blast
      let ?i = "egress_inner seed p1 (L4Type_code (pb_l4Valid p1)) path dst src rp"
      have wi: "pb_wf n ?i" "pb_ipValid ?i = IPv6Valid" "\<not> pb_outerUDPValid ?i" "\<not> pb_scionValid ?i" "ip6_src (pb_ipv6 ?i) = ip6_src (pb_ipv6 p)"
        using w w' by (simp_all add: egress_inner_def pb_wf_def)
      have "icmp_error_for p p1 q" "icmp_type (pb_icmp q) = ICMPv6_PacketTooBig"
        using make_icmp_error [OF wi(1-5) raw_packet_inner] make_icmp_facts(6) [OF wi(1-4)] e
        by (metis makeIcmpPacketTooBig_def)+
      then show ?thesis using p1(2) dst r [unfolded path] m unfolding src_def by blast
    qed
  qed
qed

text \<open>C12: A packet that \<open>translateEgress\<close> returns is an ICMP error to its sender, of at most 1280 bytes with a correct length field,
  that quotes the packet from its beginning: destination unreachable with code 3 if the destination is not a mapped SCION
  address, code 0 if there is no path, and packet too big if the SCION packet would be larger than the MTU of the path; then it
  reports the size up to which IPv6 packets fit, which is at least 1280, unless the headers alone exceed the MTU by more than
  40 bytes.\<close>

theorem egress_return:
  assumes "pb_wf n p" "\<not> pb_outerUDPValid p" "\<not> pb_scionValid p"
    "translateEgress seed p prefix len getPath = (Some (Return, sport, hop), q)"
  shows "\<exists>p1. egress_l4 p = (Pass, p1, L4Type_code (pb_l4Valid p1)) \<and> icmp_error_for p p1 q \<and>
    (icmp_type (pb_icmp q) = ICMPv6_DstUnreachable \<and>
       icmp_code (pb_icmp q) = (case unmapFromIPv6 (ip6_dst (pb_ipv6 p)) of Inl _ \<Rightarrow> 3 | Inr _ \<Rightarrow> 0)
     \<or> icmp_type (pb_icmp q) = ICMPv6_PacketTooBig \<and> (\<exists>dst path mtu. unmapFromIPv6 (ip6_dst (pb_ipv6 p)) = Inr dst \<and>
       (let src = translateIPv6Prefix (ip6_src (pb_ipv6 p)) prefix len; hdr = egress_hdr dst path src in
        getPath (Address_make 0 src) dst (l4SPort p1 0) (l4DPort p1 0) (L4Type_code (pb_l4Valid p1)) (drop_bit 2 (ip6_tc (pb_ipv6 p)))
          = (Inr (Some path), mtu) \<and>
        unat mtu < hdr + l4Size p1 + length (pb_payload p1) \<and>
        (hdr \<le> unat mtu + 40 \<longrightarrow>
          unat (icmp_param2 (pb_icmp q)) = min (unat mtu + 40 - hdr) 65535 \<and> 1280 \<le> unat mtu + 40 - hdr))))"
  unfolding Let_def by (rule egress_return_error [OF assms])

lemma example_udp_wf: "pb_wf 203 example_udp" "\<not> pb_outerUDPValid example_udp" "\<not> pb_scionValid example_udp"
  "length (raw_packet example_udp) = 51"
  by (simp_all add: example_udp_def blank_packet_def pb_wf_def raw_packet_def)

theorem egress_return_witness:
  "\<exists>q. translateEgress 7 example_udp (MakeIPv4 0x0a000009) REPLACE_ADDRESS (\<lambda>_ _ _ _ _ _. (Inr None, 0)) = (Some (Return, 0, IPEndpoint_default), q)
     \<and> icmp_code (pb_icmp q) = 0 \<and> ip6_dst (pb_ipv6 q) = ip6_src (pb_ipv6 example_udp) \<and> length (pb_payload q) = 51"
proof -
  have l4: "egress_l4 example_udp = (Pass, example_udp, 17)" by (simp add: egress_l4_def example_udp_facts IPProto_UDP_def)
  obtain q where q: "translateEgress 7 example_udp (MakeIPv4 0x0a000009) REPLACE_ADDRESS (\<lambda>_ _ _ _ _ _. (Inr None, 0)) = (Some (Return, 0, IPEndpoint_default), q)"
    by (auto simp: translateEgress_def Let_def example_udp_facts l4)
  from egress_return [OF example_udp_wf(1-3) q] have
    "icmp_error_for example_udp example_udp q" "icmp_code (pb_icmp q) = 0"
    by (auto simp: l4 example_udp_facts Let_def)
  then show ?thesis using q example_udp_wf(4) by (auto simp: icmp_error_for_def)
qed

section \<open>Echo messages\<close>

lemma take_drop_overwrite:
  assumes "e + i + length bs \<le> length b" "i + length bs \<le> k"
  shows "take k (drop e (overwrite b (e + i) bs)) = overwrite (take k (drop e b)) i bs"
proof -
  have "drop e (overwrite b (e + i) bs) = take i (drop e b) @ bs @ drop (e + i + length bs) b"
    using assms(1) by (simp add: overwrite_def drop_take)
  moreover have "length (take i (drop e b)) = i" using assms(1) by simp
  ultimately have "take k (drop e (overwrite b (e + i) bs)) =
      take i (drop e b) @ bs @ take (k - i - length bs) (drop (e + i + length bs) b)"
    using assms(2) by simp
  also have "\<dots> = overwrite (take k (drop e b)) i bs"
    using assms(2) by (simp add: overwrite_def drop_take add_ac min_def)
  finally show ?thesis .
qed

lemma write_payload16_payload:
  assumes "i + 2 \<le> length (pb_payload p)"
  shows "pb_payload (write_payload16 p i v) = overwrite (pb_payload p) i (store_le 2 v)"
proof -
  have "pb_endOfHeader p + i + 2 \<le> length (pb_buffer p)" "i + 2 \<le> pb_size p - (pb_endOfHeader p - pb_offset p)"
    using assms by (simp_all add: pb_payload_def) linarith+
  then show ?thesis by (simp add: write_payload16_def pb_payload_def take_drop_overwrite)
qed

lemma load_store_16: "load_le (store_le 2 v) = (v :: u16)"
  by (simp add: load_le_def store_le_def load_be_store_be)

lemmas ICMPv6_codes = ICMPv6_DstUnreachable_def ICMPv6_PacketTooBig_def ICMPv6_TimeExceeded_def ICMPv6_ParamProblem_def
  ICMPv6_EchoRequest_def ICMPv6_EchoReply_def

text \<open>An echo request with at least 18 bytes of payload leaves with the port of the dispatcher as its identifier and carries its
  own identifier in bytes 16 and 17 of the payload, the rest of which is unchanged; an echo reply with this payload that comes
  back is translated to an ICMP echo reply with the identifier and the sequence number of the request.\<close>

theorem echo_identifier:
  assumes "icmp_type (pb_icmp p) = ICMPv6_EchoRequest" "18 \<le> length (pb_payload p)"
  shows "\<exists>q. translateIcmpToScmp p = (Pass, q) \<and> pb_l4Valid q = L4SCMP \<and>
    scmp_msg (pb_scmp q) = ScmpEchoRequest DISPATCHER_PORT (icmp_param2 (pb_icmp p)) \<and>
    take 16 (pb_payload q) = take 16 (pb_payload p) \<and> drop 18 (pb_payload q) = drop 18 (pb_payload p) \<and>
    (\<forall>r id1 seq. scmp_msg (pb_scmp r) = ScmpEchoReply id1 seq \<and> pb_payload r = pb_payload q \<longrightarrow>
      (\<exists>r'. translateScmpToIcmp r = (Pass, r') \<and> pb_l4Valid r' = L4ICMP \<and> pb_payload r' = pb_payload q \<and>
        pb_icmp r' = \<lparr>icmp_type = ICMPv6_EchoReply, icmp_code = 0, icmp_chksum = 0, icmp_param1 = icmp_param1 (pb_icmp p), icmp_param2 = seq\<rparr>))"
proof -
  let ?q = "(write_payload16 p 16 (icmp_param1 (pb_icmp p)))\<lparr>pb_scmp := (pb_scmp (write_payload16 p 16 (icmp_param1 (pb_icmp p))))\<lparr>scmp_msg := ScmpEchoRequest DISPATCHER_PORT (icmp_param2 (pb_icmp (write_payload16 p 16 (icmp_param1 (pb_icmp p)))))\<rparr>, pb_l4Valid := L4SCMP\<rparr>"
  have t: "translateIcmpToScmp p = (Pass, ?q)"
    using assms by (simp add: translateIcmpToScmp_def Let_def ICMPv6_codes)
  have pl: "pb_payload ?q = overwrite (pb_payload p) 16 (store_le 2 (icmp_param1 (pb_icmp p)))"
    using write_payload16_payload [of 16 p "icmp_param1 (pb_icmp p)"] assms(2) by (simp add: pb_payload_def)
  have parts: "take 16 (pb_payload ?q) = take 16 (pb_payload p)" "drop 18 (pb_payload ?q) = drop 18 (pb_payload p)"
    "take 2 (drop 16 (pb_payload ?q)) = store_le 2 (icmp_param1 (pb_icmp p))" "length (pb_payload ?q) = length (pb_payload p)"
    using assms(2) unfolding pl by (simp_all add: overwrite_def)
  have k: "pb_payload (r\<lparr>pb_icmp := a, pb_l4Valid := b\<rparr>) = pb_payload r" "pb_payload (r\<lparr>pb_icmp := a\<rparr>) = pb_payload r" for r a b
    by (simp_all add: pb_payload_def)
  show ?thesis
  proof (intro exI conjI allI impI)
    show "translateIcmpToScmp p = (Pass, ?q)" by (rule t)
    show "take 16 (pb_payload ?q) = take 16 (pb_payload p)" "drop 18 (pb_payload ?q) = drop 18 (pb_payload p)" by (rule parts)+
    fix r id1 seq
    assume r: "scmp_msg (pb_scmp r) = ScmpEchoReply id1 seq \<and> pb_payload r = pb_payload ?q"
    have "load_le (take 2 (drop 16 (pb_payload r))) = icmp_param1 (pb_icmp p)"
      using r parts(3) by (simp add: load_store_16)
    then show "translateScmpToIcmp r = (Pass, r\<lparr>pb_icmp := \<lparr>icmp_type = ICMPv6_EchoReply, icmp_code = 0, icmp_chksum = 0,
        icmp_param1 = icmp_param1 (pb_icmp p), icmp_param2 = seq\<rparr>, pb_l4Valid := L4ICMP\<rparr>)"
      using r parts(4) assms(2) k by (simp add: translateScmpToIcmp_def Let_def)
  qed (auto simp: k write_payload16_def)
qed

theorem echo_identifier_witness:
  "\<exists>p q r'. icmp_param1 (pb_icmp p) = 4711 \<and> translateIcmpToScmp p = (Pass, q) \<and> length (pb_payload p) = 20 \<and>
     translateScmpToIcmp (q\<lparr>pb_scmp := (pb_scmp q)\<lparr>scmp_msg := ScmpEchoReply 30041 9\<rparr>\<rparr>) = (Pass, r') \<and> icmp_param1 (pb_icmp r') = 4711"
proof -
  define p where "p = (blank_packet (replicate 68 0))\<lparr>pb_size := 68, pb_endOfHeader := 48, pb_l4Valid := L4ICMP,
     pb_icmp := \<lparr>icmp_type = ICMPv6_EchoRequest, icmp_code = 0, icmp_chksum = 0, icmp_param1 = 4711, icmp_param2 = 9\<rparr>\<rparr>"
  have p: "icmp_type (pb_icmp p) = ICMPv6_EchoRequest" "length (pb_payload p) = 20" "icmp_param1 (pb_icmp p) = 4711"
    by (simp_all add: p_def pb_payload_def blank_packet_def)
  obtain q where q: "translateIcmpToScmp p = (Pass, q)"
    "\<And>r id1 seq. scmp_msg (pb_scmp r) = ScmpEchoReply id1 seq \<and> pb_payload r = pb_payload q \<Longrightarrow>
      \<exists>r'. translateScmpToIcmp r = (Pass, r') \<and> icmp_param1 (pb_icmp r') = 4711"
    using echo_identifier [OF p(1)] p(2,3) by fastforce
  have "\<exists>r'. translateScmpToIcmp (q\<lparr>pb_scmp := (pb_scmp q)\<lparr>scmp_msg := ScmpEchoReply 30041 9\<rparr>\<rparr>) = (Pass, r') \<and> icmp_param1 (pb_icmp r') = 4711"
    by (rule q(2) [of _ 30041 9]) (simp add: pb_payload_def)
  then show ?thesis using p q(1) by blast
qed

section \<open>Incremental checksums\<close>

lemma update_checksum_unat:
  fixes c :: u16 and add sub :: u32
  defines "S \<equiv> unat (ucast (NOT c) + add - sub :: u32)"
  defines "r \<equiv> S div 2 ^ 16 + S mod 2 ^ 16"
  shows "unat (NOT (updateInternetChecksum c add sub)) = (if r = 0 then 65535 else r mod 2 ^ 16)"
proof -
  let ?w = "add_carry (ucast (NOT c) + add - sub)"
  have r: "unat ?w = r" by (simp add: unat_add_carry S_def r_def)
  have n: "NOT (ucast (NOT w) :: u16) = ucast w" for w :: u32
    by (rule bit_word_eqI) (simp add: bit_simps)
  have u: "unat (ucast w :: u16) = unat w mod 2 ^ 16" for w :: u32
    by (simp add: unsigned_ucast_eq take_bit_nat_def)
  have "NOT (updateInternetChecksum c add sub) = ucast (if ?w = 0 then 0xffff else ?w)"
    by (simp only: updateInternetChecksum_def Let_def n)
  then have "unat (NOT (updateInternetChecksum c add sub)) = (if ?w = 0 then 65535 else unat ?w mod 2 ^ 16)"
    by (simp add: u)
  moreover have "?w = 0 \<longleftrightarrow> r = 0" using r unsigned_eq_0_iff by metis
  ultimately show ?thesis by (simp add: r)
qed

lemma sum_parts: "int S = 65535 * int (S div 2 ^ 16) + int (S div 2 ^ 16 + S mod 2 ^ 16)"
proof -
  have "int S = 2 ^ 16 * (int S div 2 ^ 16) + int S mod 2 ^ 16" by simp
  then show ?thesis by (simp add: zdiv_int zmod_int)
qed

lemma update_checksum_exact_lemma:
  fixes c :: u16 and add sub :: u32
  assumes fits: "unat (NOT c) + unat add < 2 ^ 32"
  defines "T \<equiv> int (unat (NOT c)) + int (unat add) - int (unat sub)"
  defines "S \<equiv> nat (T mod 2 ^ 32)"
  shows "int (unat (NOT (updateInternetChecksum c add sub))) mod 65535 = T mod 65535 \<longleftrightarrow>
    (T < 0 \<longleftrightarrow> 2 ^ 16 \<le> S div 2 ^ 16 + S mod 2 ^ 16)"
proof -
  let ?s = "ucast (NOT c) + add - sub :: u32"
  have "?s = word_of_int T"
    by (simp add: T_def of_nat_unat)
  then have "uint ?s = T mod 2 ^ 32" by (simp add: unsigned_of_int take_bit_int_def)
  then have S: "unat ?s = S" unfolding S_def by (simp add: unat_eq_nat_uint)
  define h l where "h = S div 2 ^ 16" and "l = S mod 2 ^ 16"
  define r where "r = h + l"
  have b: "- (2 ^ 32) < T" "T < 2 ^ 32"
  proof -
    have "unat sub < 2 ^ 32" using unsigned_less [of sub, where 'a = nat] by simp
    then have "int (unat sub) < int (2 ^ 32)" "int (unat (NOT c) + unat add) < int (2 ^ 32)"
      using fits by (simp_all only: of_nat_less_iff)
    then have "int (unat sub) < 2 ^ 32" "int (unat (NOT c)) + int (unat add) < 2 ^ 32"
      by (simp_all del: of_nat_unat)
    then show "- (2 ^ 32) < T" "T < 2 ^ 32" unfolding T_def by linarith+
  qed
  have Sb: "S < 2 ^ 32" unfolding S_def by (simp add: nat_less_iff)
  then have h: "h < 2 ^ 16" "l < 2 ^ 16" by (simp_all add: h_def l_def less_mult_imp_div_less)
  have Sr: "int S = 65535 * int h + int r" using sum_parts [of S] by (simp add: h_def l_def r_def)
  have ST: "int S = (if T < 0 then T + 2 ^ 32 else T)"
  proof (cases "T < 0")
    case True
    have "T mod 2 ^ 32 = (T + 2 ^ 32) mod 2 ^ 32" by simp
    also have "\<dots> = T + 2 ^ 32" using True b by (intro mod_pos_pos_trivial) simp_all
    finally show ?thesis using True b by (simp add: S_def)
  next
    case False
    then show ?thesis using b by (simp add: S_def)
  qed
  have V: "int (unat (NOT (updateInternetChecksum c add sub))) = (if r = 0 then 65535 else if r < 2 ^ 16 then int r else int r - 2 ^ 16)"
  proof -
    have "r mod 2 ^ 16 = (if r < 2 ^ 16 then r else r - 2 ^ 16)"
      using h by (simp add: r_def mod_if)
    then show ?thesis
      unfolding update_checksum_unat S h_def [symmetric] l_def [symmetric] r_def [symmetric] by (auto simp: of_nat_diff)
  qed
  have dv: "a mod 65535 = T mod 65535 \<longleftrightarrow> 65535 dvd a - T" for a :: int
    by (simp add: mod_eq_dvd_iff)
  have k: "65535 dvd 65535 * x + a \<longleftrightarrow> 65535 dvd a" for x a :: int
    by (metis dvd_add_right_iff dvd_triv_left)
  show ?thesis
  proof (cases "r = 0")
    case True
    then have "S = 0" using Sr by (simp add: r_def h_def l_def)
    then show ?thesis using ST b True unfolding dv V by (auto simp: r_def h_def l_def split: if_splits)
  next
    case r0: False
    have T: "T = 65535 * int h + int r - (if T < 0 then 2 ^ 32 else 0)" using ST Sr by (auto split: if_splits)
    have c1: "65535 dvd int r - T \<longleftrightarrow> 0 \<le> T"
    proof -
      have "int r - T = 65535 * (- int h) + (if T < 0 then 2 ^ 32 else 0)" using T by auto
      then show ?thesis unfolding k by (simp only: k split: if_split) auto
    qed
    have c2: "65535 dvd int r - 2 ^ 16 - T \<longleftrightarrow> T < 0"
    proof -
      have "int r - 2 ^ 16 - T = 65535 * (- int h) + ((if T < 0 then 2 ^ 32 else 0) - 2 ^ 16)" using T by auto
      then show ?thesis by (simp only: k split: if_split) auto
    qed
    show ?thesis
      unfolding dv V h_def [symmetric] l_def [symmetric] r_def [symmetric] using r0 c1 c2 by auto
  qed
qed

text \<open>C15: The one's complement of an updated checksum is congruent to that of the old one plus the added and minus the subtracted
  words modulo \<open>2^16 - 1\<close> exactly when either the difference is not negative and adding the carry gives no second carry, or it is
  negative and there is a second carry.\<close>

theorem update_checksum_exact:
  fixes c :: u16 and add sub :: u32
  assumes "unat (NOT c) + unat add < 2 ^ 32"
  shows "let T = int (unat (NOT c)) + int (unat add) - int (unat sub); S = nat (T mod 2 ^ 32) in
    int (unat (NOT (updateInternetChecksum c add sub))) mod 65535 = T mod 65535 \<longleftrightarrow>
    (T < 0 \<longleftrightarrow> 2 ^ 16 \<le> S div 2 ^ 16 + S mod 2 ^ 16)"
  unfolding Let_def by (rule update_checksum_exact_lemma [OF assms])

theorem update_checksum_exact_witness:
  "int (unat (NOT (updateInternetChecksum 0xff00 0x12345 0x345))) mod 65535 = (0xff + 0x12345 - 0x345) mod 65535"
  using update_checksum_exact [of "0xff00" "0x12345" "0x345"] by simp

text \<open>A subtraction below zero: the sum that should be \<open>-65536\<close>, which is \<open>65534\<close> modulo \<open>65535\<close>, is \<open>65535\<close>.\<close>

lemma update_checksum_wrong: "unat (NOT (updateInternetChecksum 0xffff 0 0x10000)) = 65535"
  by (simp add: update_checksum_unat)

end
