(* ===== verification/TranslatorWire.thy ===== *)
theory TranslatorWire
  imports TranslatorErrors
begin

text \<open>
  Packets that come in: which ones the translator accepts and what becomes of them. The two directions together: a packet that
  one translator passes, writes to the wire and another one parses and accepts.
\<close>

section \<open>Ingress\<close>

definition scmp_is_echo :: "ScmpMessage \<Rightarrow> bool" where
  "scmp_is_echo m \<longleftrightarrow> (\<exists>i s. m = ScmpEchoRequest i s \<or> m = ScmpEchoReply i s)"

lemma scmp_to_icmp_cases:
  assumes "translateScmpToIcmp p = (v, q)"
  shows "v = Pass \<longleftrightarrow> scmp_is_echo (scmp_msg (pb_scmp p))" "v \<noteq> Pass \<Longrightarrow> v = Drop \<or> v = Abort"
    "v = Pass \<Longrightarrow> \<exists>i. q = p\<lparr>pb_icmp := i, pb_l4Valid := L4ICMP\<rparr>"
proof -
  show "v = Pass \<longleftrightarrow> scmp_is_echo (scmp_msg (pb_scmp p))" "v \<noteq> Pass \<Longrightarrow> v = Drop \<or> v = Abort"
    using assms by (cases "scmp_msg (pb_scmp p)"; auto simp: translateScmpToIcmp_def Let_def scmp_is_echo_def split: if_splits)+
  have "v = Pass \<Longrightarrow> q = p\<lparr>pb_icmp := pb_icmp q, pb_l4Valid := L4ICMP\<rparr>"
    using assms by (cases "scmp_msg (pb_scmp p)") (auto simp: translateScmpToIcmp_def Let_def split: if_splits)
  then show "v = Pass \<Longrightarrow> \<exists>i. q = p\<lparr>pb_icmp := i, pb_l4Valid := L4ICMP\<rparr>" by blast
qed

lemma ingress_l4_cases:
  assumes "ingress_l4 p = (v, q, nh)"
  shows "v = Pass \<longleftrightarrow> (pb_l4Valid p = L4SCMP \<longrightarrow> scmp_is_echo (scmp_msg (pb_scmp p)))" "v \<noteq> Pass \<Longrightarrow> v = Drop \<or> v = Abort"
    "pb_l4Valid p \<noteq> L4SCMP \<Longrightarrow> q = p \<and> nh = sc_nh (pb_sci p)"
    "v = Pass \<Longrightarrow> pb_l4Valid p = L4SCMP \<Longrightarrow> nh = IPProto_ICMPv6 \<and> (\<exists>i. q = p\<lparr>pb_icmp := i, pb_l4Valid := L4ICMP\<rparr>)"
proof -
  obtain v1 q1 where t: "translateScmpToIcmp p = (v1, q1)" by (metis surj_pair)
  note c = scmp_to_icmp_cases [OF t]
  show "v = Pass \<longleftrightarrow> (pb_l4Valid p = L4SCMP \<longrightarrow> scmp_is_echo (scmp_msg (pb_scmp p)))" "v \<noteq> Pass \<Longrightarrow> v = Drop \<or> v = Abort"
    "pb_l4Valid p \<noteq> L4SCMP \<Longrightarrow> q = p \<and> nh = sc_nh (pb_sci p)"
    "v = Pass \<Longrightarrow> pb_l4Valid p = L4SCMP \<Longrightarrow> nh = IPProto_ICMPv6 \<and> (\<exists>i. q = p\<lparr>pb_icmp := i, pb_l4Valid := L4ICMP\<rparr>)"
    using assms c by (auto simp: ingress_l4_def t split: if_splits)
qed

lemma ingress_checksum_sets: "\<exists>c. ingress_checksum p mss clamped = set_l4_chksum c p"
proof (cases "pb_l4Valid p")
  case L4SCMP
  then show ?thesis by (auto simp: ingress_checksum_def l4UpdateChecksum_def set_l4_chksum_def intro: exI [of _ "scmp_chksum (pb_scmp p)"])
qed (auto simp: ingress_checksum_def l4UpdateChecksum_def set_l4_chksum_def)

lemma ingress_header_fields:
  "pb_ipValid (ingress_header seed p nh) = IPv6Valid" "\<not> pb_outerUDPValid (ingress_header seed p nh)" "\<not> pb_scionValid (ingress_header seed p nh)"
  "pb_l4Valid (ingress_header seed p nh) = pb_l4Valid p" "pb_tcp (ingress_header seed p nh) = pb_tcp p" "pb_udp (ingress_header seed p nh) = pb_udp p"
  "pb_scmp (ingress_header seed p nh) = pb_scmp p" "pb_icmp (ingress_header seed p nh) = pb_icmp p" "pb_payload (ingress_header seed p nh) = pb_payload p"
  "ip6_src (pb_ipv6 (ingress_header seed p nh)) = ip6_src (pb_ipv6 p)" "ip6_dst (pb_ipv6 (ingress_header seed p nh)) = ip6_dst (pb_ipv6 p)"
  "ip6_tc (pb_ipv6 (ingress_header seed p nh)) = sc_qos (pb_sci p)" "ip6_nh (pb_ipv6 (ingress_header seed p nh)) = nh"
  "ip6_hlim (pb_ipv6 (ingress_header seed p nh)) = 64"
  "ip6_plen (pb_ipv6 (ingress_header seed p nh)) = of_nat (l4Size p + length (pb_payload p))"
  "l4Size (ingress_header seed p nh) = l4Size p"
  by (simp_all add: ingress_header_def Let_def pb_payload_def l4Size_def cong: L4Type.case_cong)

lemma l4_kept_header: "l4_kept p (ingress_header seed p nh)"
  using tcp_with_self(1) udp_chksum_self by (simp add: l4_kept_def ingress_header_fields)

definition mss_fits :: "PacketBuffer \<Rightarrow> u16 \<Rightarrow> bool" where
  "mss_fits p mtu \<longleftrightarrow> (pb_l4Valid p = L4TCP \<and> om_MSS (tcp_optMask (pb_tcp p)) \<longrightarrow>
     SCION_size (pb_sci p) + rp_size (pb_path p) + TCP_HDR_SIZE < unat mtu)"

lemma ingress_accepted_result:
  assumes "ingress_accepted seed p getMTU = (v, q)"
  shows "v = Pass \<longleftrightarrow> (pb_l4Valid p = L4SCMP \<longrightarrow> scmp_is_echo (scmp_msg (pb_scmp p))) \<and> mss_fits p (getMTU (pb_sci p) (pb_path p))"
    "v \<noteq> Pass \<Longrightarrow> v = Drop \<or> v = Abort"
    "v = Pass \<Longrightarrow> pb_ipValid q = IPv6Valid \<and> \<not> pb_outerUDPValid q \<and> \<not> pb_scionValid q \<and> pb_payload q = pb_payload p \<and>
      ip6_src (pb_ipv6 q) = ip6_src (pb_ipv6 p) \<and> ip6_dst (pb_ipv6 q) = ip6_dst (pb_ipv6 p) \<and> ip6_tc (pb_ipv6 q) = sc_qos (pb_sci p) \<and>
      ip6_hlim (pb_ipv6 q) = 64 \<and> ip6_plen (pb_ipv6 q) = of_nat (l4Size q + length (pb_payload q)) \<and>
      (if pb_l4Valid p = L4SCMP then pb_l4Valid q = L4ICMP \<and> ip6_nh (pb_ipv6 q) = IPProto_ICMPv6
       else l4_kept p q \<and> ip6_nh (pb_ipv6 q) = sc_nh (pb_sci p))"
proof -
  obtain v1 p1 nh where l4: "ingress_l4 p = (v1, p1, nh)" by (metis prod_cases3)
  note c = ingress_l4_cases [OF l4]
  let ?hdr = "SCION_size (pb_sci p1) + rp_size (pb_path p1)" and ?mtu = "getMTU (pb_sci p1) (pb_path p1)"
  have e: "(v, q) = (if v1 = Pass then
      (case clampMSS p1 ?mtu ?hdr of None \<Rightarrow> (Abort, p1)
       | Some (mss, clamped, p2) \<Rightarrow> (Pass, ingress_checksum (ingress_header seed p2 nh) mss clamped)) else (v1, p1))"
    using assms c(2) by (auto simp: ingress_accepted_def Let_def l4)
  have same: "pb_sci p1 = pb_sci p" "pb_path p1 = pb_path p" "pb_ipv6 p1 = pb_ipv6 p" "pb_payload p1 = pb_payload p"
    "pb_tcp p1 = pb_tcp p" "pb_l4Valid p1 = (if pb_l4Valid p = L4SCMP then L4ICMP else pb_l4Valid p)" if "v1 = Pass"
    using c(3,4) that by (cases "pb_l4Valid p = L4SCMP"; auto simp: pb_payload_def)+
  have mss: "clampMSS p1 ?mtu ?hdr = None \<longleftrightarrow> \<not> mss_fits p (getMTU (pb_sci p) (pb_path p))" if "v1 = Pass"
    unfolding clampMSS_None same [OF that] by (auto simp: mss_fits_def TCP_HDR_SIZE_def)
  show "v = Pass \<longleftrightarrow> (pb_l4Valid p = L4SCMP \<longrightarrow> scmp_is_echo (scmp_msg (pb_scmp p))) \<and> mss_fits p (getMTU (pb_sci p) (pb_path p))"
    "v \<noteq> Pass \<Longrightarrow> v = Drop \<or> v = Abort"
    using e c(1,2) mss by (cases "v1 = Pass"; auto split: option.splits)+
  assume v: "v = Pass"
  then have v1: "v1 = Pass" using e by (auto split: if_splits)
  obtain mss clamped p2 where p2: "clampMSS p1 ?mtu ?hdr = Some (mss, clamped, p2)" "q = ingress_checksum (ingress_header seed p2 nh) mss clamped"
    using e v v1 by (auto split: option.splits)
  obtain m where m: "p2 = set_mss m p1 \<or> p2 = p1" using clampMSS_Some [OF p2(1)] by (auto split: if_splits)
  obtain cs where q: "q = set_l4_chksum cs (ingress_header seed p2 nh)" using ingress_checksum_sets p2(2) by blast
  have k: "l4_kept p1 q"
    unfolding q using m l4_kept_trans [OF l4_kept_trans [OF l4_kept_steps(1) l4_kept_header] l4_kept_steps(2)]
      l4_kept_trans [OF l4_kept_header l4_kept_steps(2)] by auto
  note s = set_l4_chksum_simps(1) [of "ingress_header seed p2 nh" cs, folded q]
  have d: "pb_sci p2 = pb_sci p1" "pb_ipv6 p2 = pb_ipv6 p1" "pb_payload p2 = pb_payload p1" "pb_l4Valid p2 = pb_l4Valid p1"
    using m by (auto simp: set_mss_def pb_payload_def)
  have ip: "pb_ipv6 q = pb_ipv6 (ingress_header seed p2 nh)" "pb_payload q = pb_payload p2" "l4Size q = l4Size p2"
    using s by (simp_all add: same_net_def q ingress_header_fields)
  have l: "pb_l4Valid q = pb_l4Valid p1" using k by (simp add: l4_kept_def)
  have k': "pb_l4Valid p \<noteq> L4SCMP \<longrightarrow> l4_kept p q" using k c(3) by auto
  show "pb_ipValid q = IPv6Valid \<and> \<not> pb_outerUDPValid q \<and> \<not> pb_scionValid q \<and> pb_payload q = pb_payload p \<and>
      ip6_src (pb_ipv6 q) = ip6_src (pb_ipv6 p) \<and> ip6_dst (pb_ipv6 q) = ip6_dst (pb_ipv6 p) \<and> ip6_tc (pb_ipv6 q) = sc_qos (pb_sci p) \<and>
      ip6_hlim (pb_ipv6 q) = 64 \<and> ip6_plen (pb_ipv6 q) = of_nat (l4Size q + length (pb_payload q)) \<and>
      (if pb_l4Valid p = L4SCMP then pb_l4Valid q = L4ICMP \<and> ip6_nh (pb_ipv6 q) = IPProto_ICMPv6
       else l4_kept p q \<and> ip6_nh (pb_ipv6 q) = sc_nh (pb_sci p))"
    using s d ip k l same [OF v1] c(3) c(4) [OF v1] k'
    by (simp add: same_net_def ingress_header_fields)
qed

text \<open>The packets that are accepted, and what becomes of them.\<close>

definition ingress_accepts :: "PacketBuffer \<Rightarrow> IPAddress \<Rightarrow> nat \<Rightarrow> (SCION \<Rightarrow> RawPath \<Rightarrow> u16) \<Rightarrow> bool" where
  "ingress_accepts p ap len getMTU \<longleftrightarrow> pb_scionValid p \<and>
     (\<exists>src dst. mapToIPv6 (sc_src (pb_sci p)) = Inr src \<and> mapToIPv6 (sc_dst (pb_sci p)) = Inr dst \<and> samePrefix ap dst len) \<and>
     (pb_l4Valid p = L4SCMP \<longrightarrow> scmp_is_echo (scmp_msg (pb_scmp p))) \<and> mss_fits p (getMTU (pb_sci p) (pb_path p))"

definition ingress_rewrites :: "PacketBuffer \<Rightarrow> IPAddress \<Rightarrow> nat \<Rightarrow> PacketBuffer \<Rightarrow> bool" where
  "ingress_rewrites p dp len q \<longleftrightarrow> pb_ipValid q = IPv6Valid \<and> \<not> pb_outerUDPValid q \<and> \<not> pb_scionValid q \<and>
     mapToIPv6 (sc_src (pb_sci p)) = Inr (ip6_src (pb_ipv6 q)) \<and>
     (\<exists>dst. mapToIPv6 (sc_dst (pb_sci p)) = Inr dst \<and> ip6_dst (pb_ipv6 q) = translateIPv6Prefix dst dp len) \<and>
     ip6_tc (pb_ipv6 q) = sc_qos (pb_sci p) \<and> ip6_hlim (pb_ipv6 q) = 64 \<and>
     ip6_plen (pb_ipv6 q) = of_nat (l4Size q + length (pb_payload q)) \<and> pb_payload q = pb_payload p \<and>
     (if pb_l4Valid p = L4SCMP then pb_l4Valid q = L4ICMP \<and> ip6_nh (pb_ipv6 q) = IPProto_ICMPv6
      else l4_kept p q \<and> ip6_nh (pb_ipv6 q) = sc_nh (pb_sci p))"

lemma ingress_result:
  assumes "translateIngress seed p ap dp len getMTU = (v, q)"
  shows "(v = Pass \<longleftrightarrow> ingress_accepts p ap len getMTU) \<and> v \<noteq> Return \<and> (v = Pass \<longrightarrow> ingress_rewrites p dp len q)"
proof -
  consider (bad) "v = Abort \<or> v = Drop" "\<not> (pb_scionValid p \<and> (\<exists>src dst. mapToIPv6 (sc_src (pb_sci p)) = Inr src \<and>
      mapToIPv6 (sc_dst (pb_sci p)) = Inr dst \<and> samePrefix ap dst len))"
    | (ok) src dst x where "pb_scionValid p" "mapToIPv6 (sc_src (pb_sci p)) = Inr src" "mapToIPv6 (sc_dst (pb_sci p)) = Inr dst"
      "samePrefix ap dst len" "x = p\<lparr>pb_ipv6 := (pb_ipv6 p)\<lparr>ip6_src := src, ip6_dst := translateIPv6Prefix dst dp len\<rparr>\<rparr>"
      "ingress_accepted seed x getMTU = (v, q)"
    using assms by (auto simp: translateIngress_def Let_def split: if_splits sum.splits)
  then show ?thesis
  proof cases
    case bad
    then show ?thesis by (auto simp: ingress_accepts_def)
  next
    case ok
    have x: "pb_sci x = pb_sci p" "pb_path x = pb_path p" "pb_l4Valid x = pb_l4Valid p" "pb_scmp x = pb_scmp p" "pb_payload x = pb_payload p"
      "mss_fits x m = mss_fits p m" "l4_kept x q = l4_kept p q" "ip6_src (pb_ipv6 x) = src"
      "ip6_dst (pb_ipv6 x) = translateIPv6Prefix dst dp len" for m
      by (simp_all add: ok(5) pb_payload_def mss_fits_def l4_kept_def)
    note r = ingress_accepted_result [OF ok(6), unfolded x]
    show ?thesis
      using r(1,2) r(3) ok(1-4) by (cases "v = Pass") (auto simp: ingress_accepts_def ingress_rewrites_def)
  qed
qed

text \<open>C11: \<open>translateIngress\<close> accepts exactly the SCION packets with mappable addresses whose destination has the accepted prefix, SCMP
  messages only if they are echo messages, and TCP packets with an MSS only if the MTU leaves room for data; it returns none. An
  accepted packet becomes an IPv6 packet from the mapped source to the mapped destination with its prefix replaced, with the
  traffic class, payload, length, protocol and transport header of the packet but for the checksum and the MSS.\<close>

theorem ingress_exact:
  assumes "translateIngress seed p ap dp len getMTU = (v, q)"
  shows "(v = Pass \<longleftrightarrow> ingress_accepts p ap len getMTU) \<and> v \<noteq> Return \<and> (v = Pass \<longrightarrow> ingress_rewrites p dp len q)"
  by (rule ingress_result [OF assms])

section \<open>From one host to another\<close>

lemma valid_TCP_with: "valid_TCP (tcp_with c m h) = valid_TCP h"
proof -
  have v: "valid_item (o1\<lparr>op_mss := x\<rparr>) i = valid_item o1 i" "item_size (o1\<lparr>op_mss := x\<rparr>) = item_size o1" for o1 x i
    by (cases i; simp) (rule ext, rename_tac i, case_tac i; simp)
  have i: "tcp_items k (o1\<lparr>op_mss := x\<rparr>) = tcp_items k o1" "tcp_padding k (o1\<lparr>op_mss := x\<rparr>) = tcp_padding k o1" for k o1 x
    by (simp_all only: tcp_items_def tcp_padding_def tcp_std_length_def op_mss_update)
  show ?thesis
    by (simp add: valid_TCP_def valid_options_def tcp_with_def v i measureOpts_mss tcp_emitted_def)
qed

lemma unmap_host:
  assumes "unmapFromIPv6 ip = Inr dst" "is6 ip" "zone ip = []"
  shows "wf_ip (a_host dst)" "zone (a_host dst) = []"
  using assms by (auto simp: unmapFromIPv6_def Let_def Address_make_def MakeIPv4_def wf_ip_def is6_def is4_def fits_ucast
    split: prod.splits option.splits if_splits)

lemma RawPath_assign_length: "RawPath_assign rp a b t d = Inr rp' \<Longrightarrow> length (rp_path rp) = RawPath_MAX_SIZE \<Longrightarrow>
    length (rp_path rp') = RawPath_MAX_SIZE"
  by (auto simp: RawPath_assign_def split: if_splits)

text \<open>Host addresses that the headers of the underlay can carry.\<close>

definition underlay_hosts :: "IPAddress \<Rightarrow> IPEndpoint \<Rightarrow> bool" where
  "underlay_hosts src hop \<longleftrightarrow> wf_ip src \<and> zone src = [] \<and> wf_ip (m_host hop) \<and> zone (m_host hop) = [] \<and> is4 src = is4 (m_host hop)"

lemma egress_writable:
  assumes pass: "egress_on_path seed p nh path mtu dst src = (Some (Pass, sport, hop), q)"
    and p: "\<not> pb_stunValid p" "length (rp_path (pb_path p)) = RawPath_MAX_SIZE" "pb_l4Valid p \<in> {L4UDP, L4TCP}"
      "pb_l4Valid p = L4TCP \<Longrightarrow> valid_TCP (pb_tcp p)"
    and hosts: "wf_ip (a_host dst)" "zone (a_host dst) = []" "underlay_hosts src hop"
  shows "writable q"
proof -
  note r = egress_on_path_result [OF pass]
  obtain x where x: "q = underlay seed x hop src" using r(16) by blast
  have rp: "rp_size (pb_path q) \<le> 984" "length (rp_path (pb_path q)) = RawPath_MAX_SIZE"
    using RawPath_assign_Inr [OF r(5)] RawPath_assign_length [OF r(5) p(2)] by auto
  have l4: "pb_l4Valid q = pb_l4Valid p" "\<exists>c m. pb_tcp q = tcp_with c m (pb_tcp p)" using r(6) by (simp_all add: l4_kept_def)
  have tcp: "pb_l4Valid q = L4TCP \<longrightarrow> valid_TCP (pb_tcp q)" using l4 p(4) valid_TCP_with by auto
  have sci: "wf_hosts (pb_sci q)" using hosts by (simp add: r(4) wf_hosts_def underlay_hosts_def Address_make_def)
  have ip4: "pb_ipValid q = IPv4Valid \<longrightarrow> wf_IPv4 (pb_ipv4 q)"
    using underlay_fields(16,17) [of hop seed x src] hosts(3)
    by (cases "is4 (m_host hop)") (auto simp: x wf_IPv4_def underlay_hosts_def fits_def)
  have ip6: "pb_ipValid q = IPv6Valid \<longrightarrow> valid_IPv6 ((pb_ipv6 q)\<lparr>ip6_fl := 0\<rparr>)"
    using underlay_fields(16,17) [of hop seed x src] hosts(3)
    by (cases "is4 (m_host hop)") (auto simp: x valid_IPv6_def underlay_hosts_def is4_is6 fits_def)
  show ?thesis
    unfolding writable_def using r(1,3) p(1,3) rp l4(1) tcp sci ip4 ip6 by (auto simp: RawPath_MAX_SIZE_def)
qed

lemma egress_coherent:
  assumes pass: "egress_on_path seed p nh path mtu dst src = (Some (Pass, sport, hop), q)"
    and p: "nh = L4Type_code (pb_l4Valid p)" "pb_l4Valid p \<noteq> L4None"
    and hosts: "wf_ip (a_host dst)" "zone (a_host dst) = []" "underlay_hosts src hop"
    and path: "length (pth_path path) mod 4 = 0" "length (pth_path path) \<le> 960"
    and ip: "pb_ipValid q = IPv4Valid \<longrightarrow> onesComplementChecksumScalar (IPv4_bytes (pb_ipv4 q) (IPv4_chksum (pb_ipv4 q))) 0 = 0xffff"
    and f: "f \<lparr>m_host = src, m_port = sport\<rparr> \<lparr>m_host = src, m_port = m_port hop\<rparr>"
  shows "coherent (Some f) (trim q) False"
proof -
  note r = egress_on_path_result [OF pass]
  obtain x where x: "q = underlay seed x hop src" using r(16) by blast
  have l4: "pb_l4Valid q = pb_l4Valid p" using r(6) by (simp add: l4_kept_def)
  let ?s = "SCION_size (pb_sci q)" and ?l = "length (pth_path path)"
  have s: "?s mod 4 = 0" "36 \<le> ?s" "?s \<le> 60" by (rule SCION_size_4)+
  have hl: "sc_hlen (pb_sci q) = of_nat ((?s + ?l) div 4)" by (simp add: r(4))
  have q4: "(?s + ?l) div 4 < 256" "4 * ((?s + ?l) div 4) = ?s + ?l" "9 \<le> (?s + ?l) div 4"
    using s path by (simp, presburger, simp)
  have "unat (sc_hlen (pb_sci q)) = (?s + ?l) div 4"
    unfolding hl using q4(1) by (simp only: unsigned_of_nat of_nat_id) (simp add: take_bit_nat_eq_self)
  then have h: "4 * unat (sc_hlen (pb_sci q)) = ?s + rp_size (pb_path q)" "9 \<le> sc_hlen (pb_sci q)"
    using q4 RawPath_assign_Inr [OF r(5)] by (simp_all add: word_le_nat_alt)
  have v: "valid_SCION (fl20 (pb_sci q))"
    using h(2) hosts by (simp add: r(4) valid_SCION_def underlay_hosts_def Address_make_def) (simp add: fl20_def fits_def)
  have u: "snd (ip_src_proto (trim q)) = IPProto_UDP" "fst (ip_src_proto (trim q)) = src" "pb_ipValid q \<noteq> IPNone"
    using underlay_fields(16,17) [of hop seed x src] by (cases "is4 (m_host hop)"; simp add: x ip_src_proto_def)+
  show ?thesis
    unfolding coherent_def scion_fits_def takes_for_scion_def
    using r(1,2,17,19) u p l4 h v ip f by (simp add: r(4) fits_def)
qed

text \<open>Bytes 4 to 7 of the outer UDP header are its length and checksum.\<close>

lemma no_stun_udp:
  assumes w: "writable q" "pb_outerUDPValid q" "bits_of hdr = header_bits q False" and len: "udp_len (pb_outerUDP q) \<noteq> 0x2112"
  shows "no_stun q False (hdr @ payload)"
proof -
  define k where "k = (case pb_ipValid q of IPv4Valid \<Rightarrow> IPv4_size | IPv6Valid \<Rightarrow> IPv6_size | IPNone \<Rightarrow> 0)"
  define pkt where "pkt = hdr @ payload"
  let ?u = "emitted_udp q"
  let ?ub = "store_be 2 (udp_sport ?u) @ store_be 2 (udp_dport ?u) @ store_be 2 (udp_len ?u) @ store_be 2 (udp_chksum ?u)"
  have m: "measureHeaders q False - measureHeaders q True - UDP_size = k"
    using w(2) by (cases "pb_ipValid q") (simp_all add: measureHeaders_def k_def)
  have "bits_of (drop k hdr) = drop (8 * k) (header_bits q False)" unfolding drop_bits_of [symmetric] w(3) ..
  also have "\<dots> = bits_of ?ub @ inner_bits q"
    using w(2) length_ip_bits [OF w(1)] UDP_bits_store [of ?u] by (simp add: header_bits_def k_def)
  finally have d: "bits_of (drop k hdr) = bits_of ?ub @ inner_bits q" .
  have "bits_of (take 8 (drop k hdr)) = take (8 * 8) (bits_of (drop k hdr))" by (simp only: take_bits_of)
  then have "bits_of (take 8 (drop k hdr)) = bits_of ?ub" unfolding d by simp
  then have ub: "take 8 (drop k hdr) = ?ub" by (rule bits_of_inject)
  have "length (take 8 (drop k hdr)) = 8" unfolding ub by simp
  then have "k + 8 \<le> length hdr" by simp
  then have ub: "take 8 (drop k pkt) = ?ub" using ub by (simp add: pkt_def)
  let ?d = "drop k pkt"
  have "take 4 (drop 4 (take stunHeaderSize x)) = drop 4 (take 8 x)" for x :: "byte list" by (simp add: stunHeaderSize_def drop_take)
  then have "take 4 (drop 4 (take stunHeaderSize ?d)) = drop 4 (take 8 ?d)" .
  also have "\<dots> = store_be 2 (udp_len (pb_outerUDP q)) @ store_be 2 (udp_chksum ?u)"
    unfolding ub by (simp add: emitted_udp_def)
  finally have four: "take 4 (drop 4 (take stunHeaderSize ?d)) = store_be 2 (udp_len (pb_outerUDP q)) @ store_be 2 (udp_chksum ?u)" .
  show ?thesis
  proof (rule ccontr)
    assume "\<not> no_stun q False (hdr @ payload)"
    then have "(load_le (take 4 (drop 4 (take stunHeaderSize ?d))) :: u32) = byteswapBE magicCookie"
      using m w(2) by (simp add: no_stun_def detectStun_def pkt_def [symmetric])
    then have "byteswapBE (load_le (store_be 2 (udp_len (pb_outerUDP q)) @ store_be 2 (udp_chksum ?u)) :: u32) = byteswapBE (byteswapBE magicCookie)"
      unfolding four by (rule arg_cong)
    moreover have "byteswapBE (byteswapBE magicCookie) = magicCookie" by code_simp
    ultimately have "(load_be (store_be 2 (udp_len (pb_outerUDP q)) @ store_be 2 (udp_chksum ?u)) :: u32) = magicCookie"
      by (simp add: byteswapBE_load_le)
    then have "store_be 2 (udp_len (pb_outerUDP q)) @ store_be 2 (udp_chksum ?u) = store_be 4 magicCookie"
      using store_be_load_be [of "store_be 2 (udp_len (pb_outerUDP q)) @ store_be 2 (udp_chksum ?u)", where 'a = 32] by simp
    moreover have "store_be 4 magicCookie = store_be 2 (0x2112 :: u16) @ store_be 2 (0xa442 :: u16)" by code_simp
    ultimately have "store_be 2 (udp_len (pb_outerUDP q)) = store_be 2 (0x2112 :: u16)" by simp
    then have "udp_len (pb_outerUDP q) = 0x2112"
      using load_be_store_be [of 2 "udp_len (pb_outerUDP q)"] load_be_store_be [of 2 "0x2112 :: u16"] by simp
    then show False using len by simp
  qed
qed

lemma emit_receive_udp:
  assumes "pb_wf n q" "writable q" "coherent is_scion (trim q) False" "measureHeaders q False \<le> pb_endOfHeader q"
    "blank_options (tcp_options (pb_tcp rb))" "headroom + measureHeaders q False + length (pb_payload q) \<le> length (pb_buffer rb)"
    and u: "pb_outerUDPValid q" "udp_len (pb_outerUDP q) \<noteq> 0x2112"
  shows "\<exists>bytes q' r. emitPacket q False = (Inr bytes, q') \<and> receive rb headroom bytes False is_scion = (Ok, r) \<and>
    same_headers (trim q) False r \<and> pb_payload r = pb_payload q"
proof -
  obtain hdr q' where e: "emitPacket q False = (Inr (hdr @ pb_payload q), q')" "bits_of hdr = header_bits q False"
    using emitPacket_bytes [OF assms(1,2,4)] by blast
  show ?thesis
    using emit_receive [OF assms(1-6)] e(1) no_stun_udp [OF assms(2) u(1) e(2) u(2), of "pb_payload q"] by auto
qed

text \<open>The transport header of UDP and TCP packets, except for the checksum and the options.\<close>

definition tcp_but :: "u16 \<Rightarrow> TcpOptions \<Rightarrow> TCP \<Rightarrow> TCP" where
  "tcp_but c o1 h = h\<lparr>tcp_chksum := c, tcp_options := o1\<rparr>"

definition same_transport :: "PacketBuffer \<Rightarrow> PacketBuffer \<Rightarrow> bool" where
  "same_transport p q \<longleftrightarrow> pb_l4Valid q = pb_l4Valid p \<and>
     (pb_l4Valid p = L4UDP \<longrightarrow> (\<exists>c. pb_udp q = (pb_udp p)\<lparr>udp_chksum := c\<rparr>)) \<and>
     (pb_l4Valid p = L4TCP \<longrightarrow> (\<exists>c o1. pb_tcp q = tcp_but c o1 (pb_tcp p)))"

lemma tcp_but_twice [simp]: "tcp_but c o1 (tcp_but c' o2 h) = tcp_but c o1 h"
  by (simp add: tcp_but_def)

lemma same_transport_kept: "l4_kept p q \<Longrightarrow> same_transport p q"
proof -
  have "\<exists>c' o1. tcp_with c m h = tcp_but c' o1 h" for c m h
    unfolding tcp_with_def tcp_but_def by blast
  then show "l4_kept p q \<Longrightarrow> same_transport p q"
    by (auto simp: l4_kept_def same_transport_def)
qed

lemma same_transport_trans: "same_transport p q \<Longrightarrow> same_transport q r \<Longrightarrow> same_transport p r"
  unfolding same_transport_def by (cases "pb_l4Valid p"; auto; blast)

lemma same_transport_read:
  assumes s: "same_headers (trim q) nu r"
  shows "same_transport q r"
proof (cases "pb_l4Valid q")
  case L4TCP
  then obtain x where "pb_tcp r = (pb_tcp q)\<lparr>tcp_options := x\<rparr>" "pb_l4Valid r = L4TCP" using s by (auto simp: same_headers_def)
  moreover have "(pb_tcp q)\<lparr>tcp_options := x\<rparr> = tcp_but (tcp_chksum (pb_tcp q)) x (pb_tcp q)" by (simp add: tcp_but_def)
  ultimately show ?thesis using L4TCP unfolding same_transport_def by auto
next
  case L4UDP
  then have "pb_udp r = pb_udp q" "pb_l4Valid r = L4UDP" using s by (simp_all add: same_headers_def)
  then show ?thesis using L4UDP udp_chksum_self [of "pb_udp q"] by (simp add: same_transport_def)
qed (use s in \<open>simp_all add: same_headers_def same_transport_def\<close>)

lemma delivery:
  assumes wf: "pb_wf n p" and p: "\<not> pb_stunValid p" "length (rp_path (pb_path p)) = RawPath_MAX_SIZE"
      "pb_l4Valid p = L4UDP \<or> pb_l4Valid p = L4TCP \<and> valid_TCP (pb_tcp p)"
    and dst: "is6 (ip6_dst (pb_ipv6 p))" "zone (ip6_dst (pb_ipv6 p)) = []"
    and pass: "translateEgress seed p prefix len getPath = (Some (Pass, sport, hop), q)"
  defines "src \<equiv> translateIPv6Prefix (ip6_src (pb_ipv6 p)) prefix len"
  assumes hosts: "underlay_hosts src hop"
    and path: "length (RawPath_encoded (pb_path q)) mod 4 = 0" "length (RawPath_encoded (pb_path q)) \<le> 960"
    and ip: "pb_ipValid q = IPv4Valid \<longrightarrow> onesComplementChecksumScalar (IPv4_bytes (pb_ipv4 q) (IPv4_chksum (pb_ipv4 q))) 0 = 0xffff"
    and f: "f \<lparr>m_host = src, m_port = sport\<rparr> \<lparr>m_host = src, m_port = m_port hop\<rparr>"
    and room: "measureHeaders q False \<le> pb_endOfHeader p" "udp_len (pb_outerUDP q) \<noteq> 0x2112"
    and rb: "blank_options (tcp_options (pb_tcp rb))" "headroom + measureHeaders q False + length (pb_payload p) \<le> length (pb_buffer rb)"
    and accept: "mapToIPv6 (sc_src (pb_sci q)) = Inr s" "samePrefix ap (ip6_dst (pb_ipv6 p)) len'"
      "\<forall>sci rp. SCION_size (pb_sci q) + rp_size (pb_path q) + TCP_HDR_SIZE < unat (getMTU sci rp)"
  shows "\<exists>bytes q' r out. emitPacket q False = (Inr bytes, q') \<and> receive rb headroom bytes False (Some f) = (Ok, r) \<and>
    translateIngress seed' r ap dp len' getMTU = (Pass, out) \<and> pb_payload out = pb_payload p \<and> same_transport p out \<and>
    ip6_src (pb_ipv6 out) = s \<and> ip6_dst (pb_ipv6 out) = translateIPv6Prefix (ip6_dst (pb_ipv6 p)) dp len' \<and>
    ip6_tc (pb_ipv6 out) = ip6_tc (pb_ipv6 p) \<and> ip6_nh (pb_ipv6 out) = L4Type_code (pb_l4Valid p)"
proof -
  obtain p1 d path mtu where *: "pb_ipValid p = IPv6Valid" "egress_l4 p = (Pass, p1, L4Type_code (pb_l4Valid p1))"
    "unmapFromIPv6 (ip6_dst (pb_ipv6 p)) = Inr d"
    "getPath (Address_make 0 src) d (l4SPort p1 0) (l4DPort p1 0)
       (L4Type_code (pb_l4Valid p1)) (drop_bit 2 (ip6_tc (pb_ipv6 p))) = (Inr (Some path), mtu)"
    "egress_on_path seed p1 (L4Type_code (pb_l4Valid p1)) path mtu d src = (Some (Pass, sport, hop), q)"
    by (rule translateEgress_pass [OF pass, folded src_def]) (rule that; assumption)
  have p1: "p1 = p" using egress_l4_facts(10) [OF *(2)] p(3) by auto
  note e = *(5) [unfolded p1]
  note r = egress_on_path_result [OF e] and h = unmap_host [OF *(3) dst]
  have enc: "RawPath_encoded (pb_path q) = pth_path path" using RawPath_assign_Inr [OF r(5)] by blast
  have l4: "pb_l4Valid q = pb_l4Valid p" using r(6) by (simp add: l4_kept_def)
  have w: "writable q" by (rule egress_writable [OF e p(1,2) _ _ h hosts]) (use p(3) in auto)
  have c: "coherent (Some f) (trim q) False"
    by (rule egress_coherent [where f = f, OF e refl _ h hosts path [unfolded enc] ip f]) (use p(3) in auto)
  have qwf: "pb_wf n q" using translateEgress_wf [OF wf, of seed prefix len getPath] pass by simp
  obtain bytes q' x where x: "emitPacket q False = (Inr bytes, q')" "receive rb headroom bytes False (Some f) = (Ok, x)"
    "same_headers (trim q) False x" "pb_payload x = pb_payload q"
    using emit_receive_udp [OF qwf w c _ rb(1) _ r(2) room(2), of headroom] room(1) rb(2) r(10,11) by auto
  have sc: "pb_scionValid x" "pb_sci x = fl20 (pb_sci q)" "rp_size (pb_path x) = rp_size (pb_path q)" "pb_l4Valid x = pb_l4Valid q"
    using x(3) r(1) by (simp_all add: same_headers_def)
  have map: "mapToIPv6 (sc_dst (pb_sci x)) = Inr (ip6_dst (pb_ipv6 p))" "mapToIPv6 (sc_src (pb_sci x)) = Inr s"
    using unmap_map [OF dst *(3)] accept(1) by (simp_all add: sc(2) r(4))
  have acc: "ingress_accepts x ap len' getMTU"
    unfolding ingress_accepts_def mss_fits_def using sc map accept(2,3) p(3) l4 by auto
  obtain v out where out: "translateIngress seed' x ap dp len' getMTU = (v, out)" by (metis surj_pair)
  have v: "v = Pass" "ingress_rewrites x dp len' out" using ingress_result [OF out] acc by auto
  have k: "l4_kept x out" using v(2) sc(4) l4 p(3) by (auto simp: ingress_rewrites_def)
  have "same_transport p out"
    by (rule same_transport_trans [OF same_transport_trans [OF same_transport_kept [OF r(6)] same_transport_read [OF x(3)]] same_transport_kept [OF k]])
  moreover have "ip6_nh (pb_ipv6 out) = L4Type_code (pb_l4Valid p)"
    using v(2) sc(2,4) l4 p(3) by (auto simp: ingress_rewrites_def r(4))
  moreover have "ip6_tc (pb_ipv6 out) = ip6_tc (pb_ipv6 p)"
    using v(2) sc(2) by (simp add: ingress_rewrites_def r(4) fl20_def)
  moreover have "pb_payload out = pb_payload p" "ip6_src (pb_ipv6 out) = s"
    "ip6_dst (pb_ipv6 out) = translateIPv6Prefix (ip6_dst (pb_ipv6 p)) dp len'"
    using v(2) x(4) r(10) map by (simp_all add: ingress_rewrites_def)
  ultimately show ?thesis using x(1,2) out v(1) by blast
qed

text \<open>C9: The way of a UDP or TCP packet from one IPv6 host to another. If \<open>translateEgress\<close> passes a packet with valid TCP options
  to a mapped address, the underlay addresses can be written, the path is a multiple of 4 and at most 960 bytes long, the IPv4
  header's checksum needs one carry, there is enough headroom and the outer UDP header is not 8466 bytes long (the first half of
  the STUN cookie), then \<open>emitPacket\<close> writes it, a receiver with enough room whose function recognises the underlay endpoints
  parses it, and, if the source is mappable, the destination has the accepted prefix and the MTU leaves room for a TCP segment,
  \<open>translateIngress\<close> makes a packet of it with the mapped source address, the original destination up to the replaced prefix, and
  the original traffic class, protocol, transport header (but for checksum and TCP options) and payload.\<close>

theorem translated_delivery:
  assumes "pb_wf n p" "\<not> pb_stunValid p" "length (rp_path (pb_path p)) = RawPath_MAX_SIZE"
      "pb_l4Valid p = L4UDP \<or> pb_l4Valid p = L4TCP \<and> valid_TCP (pb_tcp p)"
      "is6 (ip6_dst (pb_ipv6 p))" "zone (ip6_dst (pb_ipv6 p)) = []"
      "translateEgress seed p prefix len getPath = (Some (Pass, sport, hop), q)"
      "underlay_hosts (translateIPv6Prefix (ip6_src (pb_ipv6 p)) prefix len) hop"
      "length (RawPath_encoded (pb_path q)) mod 4 = 0" "length (RawPath_encoded (pb_path q)) \<le> 960"
      "pb_ipValid q = IPv4Valid \<longrightarrow> onesComplementChecksumScalar (IPv4_bytes (pb_ipv4 q) (IPv4_chksum (pb_ipv4 q))) 0 = 0xffff"
      "f \<lparr>m_host = translateIPv6Prefix (ip6_src (pb_ipv6 p)) prefix len, m_port = sport\<rparr>
         \<lparr>m_host = translateIPv6Prefix (ip6_src (pb_ipv6 p)) prefix len, m_port = m_port hop\<rparr>"
      "measureHeaders q False \<le> pb_endOfHeader p" "udp_len (pb_outerUDP q) \<noteq> 0x2112"
      "blank_options (tcp_options (pb_tcp rb))" "headroom + measureHeaders q False + length (pb_payload p) \<le> length (pb_buffer rb)"
      "mapToIPv6 (sc_src (pb_sci q)) = Inr s" "samePrefix ap (ip6_dst (pb_ipv6 p)) len'"
      "\<forall>sci rp. SCION_size (pb_sci q) + rp_size (pb_path q) + TCP_HDR_SIZE < unat (getMTU sci rp)"
  shows "\<exists>bytes q' r out. emitPacket q False = (Inr bytes, q') \<and> receive rb headroom bytes False (Some f) = (Ok, r) \<and>
    translateIngress seed' r ap dp len' getMTU = (Pass, out) \<and> pb_payload out = pb_payload p \<and> same_transport p out \<and>
    ip6_src (pb_ipv6 out) = s \<and> ip6_dst (pb_ipv6 out) = translateIPv6Prefix (ip6_dst (pb_ipv6 p)) dp len' \<and>
    ip6_tc (pb_ipv6 out) = ip6_tc (pb_ipv6 p) \<and> ip6_nh (pb_ipv6 out) = L4Type_code (pb_l4Valid p)"
  by (rule delivery [where f = f and getMTU = getMTU, OF assms])

lemma example_delivery_facts:
  assumes q: "translateEgress 7 example_udp (MakeIPv4 0x0a000009) REPLACE_ADDRESS example_getPath =
      (Some (Pass, 1000, \<lparr>m_host = MakeIPv4 0x0a000001, m_port = 30042\<rparr>), q)"
  shows "length (RawPath_encoded (pb_path q)) = 36" "SCION_size (pb_sci q) = 36" "rp_size (pb_path q) = 36" "measureHeaders q False = 108"
    "udp_len (pb_outerUDP q) = 91" "sc_src (pb_sci q) = Address_make 0x1000000010000 (MakeIPv4 0x0a000009)"
    "pb_ipv4 q = \<lparr>ip4_flags = 2, ip4_tos = 0, ip4_ttl = 64, ip4_proto = 17, ip4_len = 111, ip4_id = 0, ip4_frag = 0,
        ip4_src = MakeIPv4 0x0a000009, ip4_dst = MakeIPv4 0x0a000001\<rparr>"
    "pb_scionValid q" "pb_l4Valid q = L4UDP" "sc_dst (pb_sci q) = Address_make 0x1000000020000 (MakeIPv4 0x0a000001)"
    "length (pb_payload q) = 3"
proof -
  let ?hop = "\<lparr>m_host = MakeIPv4 0x0a000001, m_port = 30042\<rparr>"
  obtain p1 d path mtu where *: "pb_ipValid example_udp = IPv6Valid" "egress_l4 example_udp = (Pass, p1, L4Type_code (pb_l4Valid p1))"
    "unmapFromIPv6 (ip6_dst (pb_ipv6 example_udp)) = Inr d"
    "example_getPath (Address_make 0 (MakeIPv4 0x0a000009)) d (l4SPort p1 0) (l4DPort p1 0)
       (L4Type_code (pb_l4Valid p1)) (drop_bit 2 (ip6_tc (pb_ipv6 example_udp))) = (Inr (Some path), mtu)"
    "egress_on_path 7 p1 (L4Type_code (pb_l4Valid p1)) path mtu d (MakeIPv4 0x0a000009) = (Some (Pass, 1000, ?hop), q)"
    by (rule translateEgress_pass [OF q, unfolded translateIPv6Prefix_def, simplified]) (rule that; assumption)
  have p1: "p1 = example_udp" using egress_l4_facts(10) [OF *(2)] example_udp_facts(2) by simp
  have d: "d = Address_make 0x1000000020000 (MakeIPv4 0x0a000001)" "path = example_path"
    using *(3,4) by (simp_all add: example_udp_facts example_getPath_def)
  note r = egress_on_path_result [OF *(5) [unfolded p1 d]]
  have s: "IPAddress_size (MakeIPv4 v) = 4" for v by (simp add: IPAddress_size_def)
  show "pb_scionValid q" "length (pb_payload q) = 3" using r(1,10) by (simp_all add: example_udp_facts)
  show "pb_l4Valid q = L4UDP" using r(6) by (simp add: l4_kept_def example_udp_facts)
  show "sc_dst (pb_sci q) = Address_make 0x1000000020000 (MakeIPv4 0x0a000001)" by (simp add: r(4))
  show e: "length (RawPath_encoded (pb_path q)) = 36" "rp_size (pb_path q) = 36"
    using RawPath_assign_Inr [OF r(5)] by (simp_all add: example_udp_facts)
  show src: "sc_src (pb_sci q) = Address_make 0x1000000010000 (MakeIPv4 0x0a000009)"
    unfolding r(4) by (simp add: example_path_def)
  show sz: "SCION_size (pb_sci q) = 36"
    unfolding r(4) by (simp add: SCION_size_def Address_size_def Address_make_def s IsdAsn_size_def)
  have l4: "l4Size q = 8" unfolding r(7) by (simp add: l4Size_def example_udp_facts UDP_size_def)
  have mT: "measureHeaders q True = 80" unfolding scion_packet_measure [OF r(1)] by (simp add: e sz l4)
  show len: "udp_len (pb_outerUDP q) = 91" unfolding r(20) mT r(10) by (simp add: UDP_size_def example_udp_facts)
  obtain x where x: "q = underlay 7 x ?hop (MakeIPv4 0x0a000009)" "pb_ipv6 x = pb_ipv6 example_udp" using r(16) by blast
  have v4: "pb_ipValid q = IPv4Valid" using underlay_fields(16) [of ?hop 7 x "MakeIPv4 0x0a000009"] by (simp add: x(1))
  show "measureHeaders q False = 108" using mT r(1,2) v4 by (simp add: measureHeaders_def IPv4_size_def UDP_size_def)
  have "pb_ipv4 q = \<lparr>ip4_flags = 2, ip4_tos = ip6_tc (pb_ipv6 x), ip4_ttl = 64, ip4_proto = IPProto_UDP,
       ip4_len = 20 + udp_len (pb_outerUDP q), ip4_id = 0, ip4_frag = 0, ip4_src = MakeIPv4 0x0a000009, ip4_dst = MakeIPv4 0x0a000001\<rparr>"
    unfolding x(1) by (simp add: underlay_def Let_def IPv4_size_def)
  then show "pb_ipv4 q = \<lparr>ip4_flags = 2, ip4_tos = 0, ip4_ttl = 64, ip4_proto = 17, ip4_len = 111, ip4_id = 0, ip4_frag = 0,
        ip4_src = MakeIPv4 0x0a000009, ip4_dst = MakeIPv4 0x0a000001\<rparr>"
    unfolding len x(2) by (simp add: example_udp_def IPProto_UDP_def)
qed

theorem translated_delivery_witness:
  "\<exists>q bytes q' r out. translateEgress 7 example_udp (MakeIPv4 0x0a000009) REPLACE_ADDRESS example_getPath =
      (Some (Pass, 1000, \<lparr>m_host = MakeIPv4 0x0a000001, m_port = 30042\<rparr>), q) \<and> emitPacket q False = (Inr bytes, q') \<and>
    receive (blank_packet (replicate 200 0)) 40 bytes False (Some (\<lambda>_ _. True)) = (Ok, r) \<and>
    translateIngress 3 r (MakeIPv6 0xfc00120000000000 0 []) (MakeIPv6 0xfd00000000000000 0 []) 32 (\<lambda>_ _. 1400) = (Pass, out) \<and>
    length (pb_payload out) = 3 \<and> ip6_dst (pb_ipv6 out) = MakeIPv6 0xfd00000000000000 0xffff0a000001 []"
proof -
  let ?p = example_udp and ?hop = "\<lparr>m_host = MakeIPv4 0x0a000001, m_port = 30042\<rparr>"
  obtain q where q: "translateEgress 7 ?p (MakeIPv4 0x0a000009) REPLACE_ADDRESS example_getPath = (Some (Pass, 1000, ?hop), q)"
    using example_egress by blast
  note f = example_delivery_facts [OF q]
  have src: "translateIPv6Prefix (ip6_src (pb_ipv6 ?p)) (MakeIPv4 0x0a000009) REPLACE_ADDRESS = MakeIPv4 0x0a000009"
    by (simp add: translateIPv6Prefix_def)
  have p: "\<not> pb_stunValid ?p" "length (rp_path (pb_path ?p)) = RawPath_MAX_SIZE" "is6 (ip6_dst (pb_ipv6 ?p))" "zone (ip6_dst (pb_ipv6 ?p)) = []"
    "pb_endOfHeader ?p = 200"
    by code_simp+
  have hosts: "underlay_hosts (MakeIPv4 0x0a000009) ?hop" by (simp add: underlay_hosts_def MakeIPv4_def wf_ip_def is4_def fits_def bit_simps)
  have c: "onesComplementChecksumScalar (IPv4_bytes (pb_ipv4 q) (IPv4_chksum (pb_ipv4 q))) 0 = 0xffff"
    unfolding f(7) by code_simp
  have m: "\<exists>s. mapToIPv6 (Address_make 0x1000000010000 (MakeIPv4 0x0a000009)) = Inr s"
  proof -
    have "case mapToIPv6 (Address_make 0x1000000010000 (MakeIPv4 0x0a000009)) of Inl _ \<Rightarrow> False | Inr _ \<Rightarrow> True" by code_simp
    then show ?thesis by (auto split: sum.splits)
  qed
  then obtain s where s: "mapToIPv6 (sc_src (pb_sci q)) = Inr s" unfolding f(6) by blast
  have ap: "samePrefix (MakeIPv6 0xfc00120000000000 0 []) (ip6_dst (pb_ipv6 ?p)) 32" by code_simp
  have tp: "translateIPv6Prefix (ip6_dst (pb_ipv6 ?p)) (MakeIPv6 0xfd00000000000000 0 []) 32 = MakeIPv6 0xfd00000000000000 0xffff0a000001 []"
    by code_simp
  have "\<exists>bytes q' r out. emitPacket q False = (Inr bytes, q') \<and> receive (blank_packet (replicate 200 0)) 40 bytes False (Some (\<lambda>_ _. True)) = (Ok, r) \<and>
    translateIngress 3 r (MakeIPv6 0xfc00120000000000 0 []) (MakeIPv6 0xfd00000000000000 0 []) 32 (\<lambda>_ _. 1400) = (Pass, out) \<and>
    pb_payload out = pb_payload ?p \<and> same_transport ?p out \<and>
    ip6_src (pb_ipv6 out) = s \<and> ip6_dst (pb_ipv6 out) = translateIPv6Prefix (ip6_dst (pb_ipv6 ?p)) (MakeIPv6 0xfd00000000000000 0 []) 32 \<and>
    ip6_tc (pb_ipv6 out) = ip6_tc (pb_ipv6 ?p) \<and> ip6_nh (pb_ipv6 out) = L4Type_code (pb_l4Valid ?p)"
    by (rule translated_delivery [where getMTU = "\<lambda>_ _. 1400" and f = "\<lambda>_ _. True", OF example_udp_wf(1) p(1,2) _ p(3,4) q _ _ _ _ _ _ _ blank_packet_options(1) _ s ap])
      (simp_all add: example_udp_facts src hosts f(1-6) p(5) c TCP_HDR_SIZE_def)
  then show ?thesis using q tp example_udp_facts(6) by (metis (no_types, lifting))
qed

lemma mapped_example:
  "mapToIPv6 (Address_make 0x1000000010000 (MakeIPv4 0x0a000009)) = Inr (MakeIPv6 0xfc00110000000000 0xffff0a000009 [])"
  "mapToIPv6 (Address_make 0x1000000020000 (MakeIPv4 0x0a000001)) = Inr (MakeIPv6 0xfc00120000000000 0xffff0a000001 [])"
  by code_simp+

theorem ingress_exact_witness:
  "\<exists>q out. translateEgress 7 example_udp (MakeIPv4 0x0a000009) REPLACE_ADDRESS example_getPath =
      (Some (Pass, 1000, \<lparr>m_host = MakeIPv4 0x0a000001, m_port = 30042\<rparr>), q) \<and>
    translateIngress 3 q (MakeIPv6 0xfc00120000000000 0 []) (MakeIPv6 0xfd00000000000000 0 []) 32 (\<lambda>_ _. 1400) = (Pass, out) \<and>
    ip6_src (pb_ipv6 out) = MakeIPv6 0xfc00110000000000 0xffff0a000009 [] \<and> length (pb_payload out) = 3"
proof -
  obtain q where q: "translateEgress 7 example_udp (MakeIPv4 0x0a000009) REPLACE_ADDRESS example_getPath =
      (Some (Pass, 1000, \<lparr>m_host = MakeIPv4 0x0a000001, m_port = 30042\<rparr>), q)" using example_egress by blast
  note f = example_delivery_facts [OF q]
  obtain v out where out: "translateIngress 3 q (MakeIPv6 0xfc00120000000000 0 []) (MakeIPv6 0xfd00000000000000 0 []) 32 (\<lambda>_ _. 1400) = (v, out)"
    by (metis surj_pair)
  have "samePrefix (MakeIPv6 0xfc00120000000000 0 []) (MakeIPv6 0xfc00120000000000 0xffff0a000001 []) 32" by code_simp
  then have "ingress_accepts q (MakeIPv6 0xfc00120000000000 0 []) 32 (\<lambda>_ _. 1400)"
    by (simp add: ingress_accepts_def f mapped_example mss_fits_def)
  then have "v = Pass" "ingress_rewrites q (MakeIPv6 0xfd00000000000000 0 []) 32 out" using ingress_exact [OF out] by auto
  then show ?thesis using q out by (auto simp: ingress_rewrites_def f mapped_example)
qed

end
