(* ===== verification/RegexSpec.thy ===== *)
theory RegexSpec
  imports Regex
begin

text \<open>
  What a pattern means: the pairs of positions a match can begin and end at, with the iterations of a
  loop as the reflexive transitive closure. The backtracking search finds exactly these.
\<close>

primrec ends :: "regex \<Rightarrow> cursor \<Rightarrow> cursor \<Rightarrow> bool" where
  "ends REps = (\<lambda>c d. d = c)"
| "ends (RSet neg items) = (\<lambda>c d. \<exists>x xs. snd c = x # xs \<and> in_class neg items x \<and> d = (Some x, xs))"
| "ends (RSeq r s) = ends r OO ends s"
| "ends (RAlt r s) = (\<lambda>c d. ends r c d \<or> ends s c d)"
| "ends (RStar greedy r) = (ends r)\<^sup>*\<^sup>*"
| "ends RBol = (\<lambda>c d. d = c \<and> fst c = None)"
| "ends REol = (\<lambda>c d. d = c \<and> snd c = [])"
| "ends (RWord neg) = (\<lambda>c d. d = c \<and> at_word_bound c \<noteq> neg)"
| "ends (RLook neg r) = (\<lambda>c d. d = c \<and> (\<exists>e. ends r c e) \<noteq> neg)"

definition advances :: "(cursor \<Rightarrow> cursor \<Rightarrow> bool) \<Rightarrow> bool" where
  "advances R \<longleftrightarrow> (\<forall>c d. R c d \<longrightarrow> d = c \<or> length (snd d) < length (snd c))"

lemma advancesD: "advances R \<Longrightarrow> R c d \<Longrightarrow> d = c \<or> length (snd d) < length (snd c)"
  unfolding advances_def by blast

lemma advancesI: "(\<And>c d. R c d \<Longrightarrow> d = c \<or> length (snd d) < length (snd c)) \<Longrightarrow> advances R"
  unfolding advances_def by blast

lemma advances_rtranclp:
  assumes "advances R"
  shows "advances R\<^sup>*\<^sup>*"
proof -
  have "d = c \<or> length (snd d) < length (snd c)" if "R\<^sup>*\<^sup>* c d" for c d
    using that
  proof (induction rule: rtranclp_induct)
    case (step d e)
    then show ?case using advancesD [OF assms step(2)] by fastforce
  qed simp
  then show ?thesis by (rule advancesI)
qed

lemma advances_ends: "advances (ends r)"
proof (induction r)
  case (RSeq r s)
  show ?case
  proof (rule advancesI)
    fix c e
    assume "ends (RSeq r s) c e"
    then obtain d where "ends r c d" "ends s d e" by (auto simp: relcompp_apply)
    then show "e = c \<or> length (snd e) < length (snd c)"
      using advancesD [OF RSeq.IH(1)] advancesD [OF RSeq.IH(2)] by fastforce
  qed
next
  case (RStar g r)
  then show ?case by (simp add: advances_rtranclp)
qed (auto simp: advances_def)

text \<open>The iterations of a loop, as long as the fuel covers what is left to read.\<close>

lemma set_iterations_Suc:
  "set (iterations (Suc n) g f c) =
     insert c (\<Union>d \<in> {d \<in> set (f c). length (snd d) < length (snd c)}. set (iterations n g f d))"
  by (auto simp: Let_def split: if_splits)

lemma set_iterations_sound: "d \<in> set (iterations n g f c) \<Longrightarrow> (\<lambda>c d. d \<in> set (f c))\<^sup>*\<^sup>* c d"
proof (induction n arbitrary: c)
  case (Suc n)
  then show ?case
    by (auto simp del: iterations.simps simp: set_iterations_Suc
        dest: converse_rtranclp_into_rtranclp [where r = "\<lambda>c d. d \<in> set (f c)", rotated])
qed simp

lemma set_iterations:
  assumes R: "\<And>c d. d \<in> set (f c) \<longleftrightarrow> R c d" and adv: "advances R" and n: "length (snd c) \<le> n"
  shows "d \<in> set (iterations n g f c) \<longleftrightarrow> R\<^sup>*\<^sup>* c d"
proof
  show "R\<^sup>*\<^sup>* c d" if "d \<in> set (iterations n g f c)"
    using set_iterations_sound [OF that] by (simp add: R)
next
  assume "R\<^sup>*\<^sup>* c d"
  then show "d \<in> set (iterations n g f c)"
    using n
  proof (induction n arbitrary: c)
    case 0
    then have "d = c" using advancesD [OF advances_rtranclp [OF adv], of c d] by simp
    then show ?case by simp
  next
    case (Suc n)
    show ?case
      using Suc.prems(1)
    proof (cases rule: converse_rtranclpE)
      case base
      then show ?thesis by (simp del: iterations.simps add: set_iterations_Suc)
    next
      case (step e)
      show ?thesis
      proof (cases "e = c")
        case False
        then have l: "length (snd e) < length (snd c)" using advancesD [OF adv step(1)] by simp
        then have "d \<in> set (iterations n g f e)" using Suc.IH step(2) Suc.prems(2) by simp
        moreover have "e \<in> {d \<in> set (f c). length (snd d) < length (snd c)}" using l step(1) by (simp add: R)
        ultimately show ?thesis unfolding set_iterations_Suc by blast
      next
        case True
        text \<open>An empty iteration is dropped.\<close>
        have "d = c \<or> (\<exists>e. R c e \<and> length (snd e) < length (snd c) \<and> R\<^sup>*\<^sup>* e d)"
          using Suc.prems(1)
        proof (induction rule: converse_rtranclp_induct)
          case (step y z)
          then show ?case using advancesD [OF adv step(1)] by fastforce
        qed simp
        then show ?thesis
        proof
          assume "d = c"
          then show ?thesis by (simp del: iterations.simps add: set_iterations_Suc)
        next
          assume "\<exists>e. R c e \<and> length (snd e) < length (snd c) \<and> R\<^sup>*\<^sup>* e d"
          then obtain e where e: "R c e" "length (snd e) < length (snd c)" "R\<^sup>*\<^sup>* e d" by blast
          then have "d \<in> set (iterations n g f e)" using Suc.IH Suc.prems(2) by simp
          moreover have "e \<in> {d \<in> set (f c). length (snd d) < length (snd c)}" using e by (simp add: R)
          ultimately show ?thesis unfolding set_iterations_Suc by blast
        qed
      qed
    qed
  qed
qed

lemma matches_at_ends: "d \<in> set (matches_at r c) \<longleftrightarrow> ends r c d"
proof (induction r arbitrary: c d)
  case (RSet neg items)
  then show ?case by (auto split: list.splits)
next
  case (RSeq r s)
  then show ?case by (simp add: relcompp_apply Bex_def)
next
  case (RStar g r)
  then show ?case
    by (simp add: set_iterations [where R = "ends r"] advances_ends)
next
  case (RLook neg r)
  then have "matches_at r c \<noteq> [] \<longleftrightarrow> (\<exists>e. ends r c e)" 
    by (metis all_not_in_conv set_empty)
  then show ?case by auto
qed auto

lemma regex_match_ends: "regex_match r s \<longleftrightarrow> (\<exists>p. ends r (None, s) (p, []))"
  by (simp add: regex_match_def list_ex_iff Bex_def matches_at_ends)

end
