(* ===== verification/Policy.thy ===== *)
theory Policy
  imports Path HdrScion RegexSpec
begin

text \<open>
  Path policies (\<open>include/scion/path/policy.hpp\<close>, \<open>src/path/policy.cpp\<close>): traffic matchers, hop
  predicates, the regular expression of a hop sequence, policies that filter and sort paths, and sets
  of policies with their failover chains, loaded from a JSON document.

  A JSON document is a value of the kinds of \<open>boost::json\<close>; the parser of the text is an argument. An
  exception is the value \<open>None\<close>, its message is left out. \<open>external\<close> compiles the regular expressions
  that are outside of the modelled part of \<open>std::regex\<close>, and \<open>shuffle\<close> reorders paths at random: its
  first argument counts the sorts, its second the orderings of a policy.
\<close>

section \<open>JSON documents\<close>

datatype json =
    JNull
  | JBool bool
  | JInt int
  | JUint u64
  | JDouble u64
  | JString string
  | JArray "json list"
  | JObject "(string \<times> json) list"

fun as_string :: "json \<Rightarrow> string option" where
  "as_string (JString s) = Some s"
| "as_string _ = None"

fun as_int64 :: "json \<Rightarrow> int option" where
  "as_int64 (JInt i) = Some i"
| "as_int64 _ = None"

fun as_array :: "json \<Rightarrow> json list option" where
  "as_array (JArray vs) = Some vs"
| "as_array _ = None"

fun as_object :: "json \<Rightarrow> (string \<times> json) list option" where
  "as_object (JObject kvs) = Some kvs"
| "as_object _ = None"

section \<open>Strings\<close>

definition is_space :: "char \<Rightarrow> bool" where
  "is_space c = in_item (False, space_ranges) c"

definition ltrim :: "string \<Rightarrow> string" where
  "ltrim sv = dropWhile is_space sv"

definition rtrim :: "string \<Rightarrow> string" where
  "rtrim sv = rev (dropWhile is_space (rev sv))"

text \<open>The wrapper around \<open>std::from_chars\<close> that requires the whole text to be a number.\<close>

definition from_chars_all :: "nat \<Rightarrow> string \<Rightarrow> nat maybe" where
  "from_chars_all limit sv =
     (case from_chars 10 limit sv of (ec, v, rest) \<Rightarrow>
        if rest \<noteq> [] then Inl SyntaxError
        else if ec = errc_invalid_argument \<or> ec = errc_result_out_of_range then Inl ec
        else Inr v)"

section \<open>Traffic matchers\<close>

record TrafficMatcher =
  tm_src :: ScIPEndpoint
  tm_dst :: ScIPEndpoint
  tm_proto :: byte
  tm_trafficClass :: byte

definition ScIPEndpoint_default :: ScIPEndpoint where
  "ScIPEndpoint_default = \<lparr>e_ia = 0, e_ep = IPEndpoint_default\<rparr>"

definition TrafficMatcher_default :: TrafficMatcher where
  "TrafficMatcher_default =
     \<lparr>tm_src = ScIPEndpoint_default, tm_dst = ScIPEndpoint_default, tm_proto = 0, tm_trafficClass = 0\<rparr>"

definition matchEp :: "ScIPEndpoint \<Rightarrow> ScIPEndpoint \<Rightarrow> bool" where
  "matchEp matcher value =
     (let a = e_ia matcher; b = e_ia value in
      if \<not> Isd_isUnspecified (IsdAsn_isd a) then
        if IsdAsn_isd a \<noteq> IsdAsn_isd b then False
        else if \<not> Asn_isUnspecified (IsdAsn_asn a) then
          if IsdAsn_asn a \<noteq> IsdAsn_asn b then False
          else if \<not> IPAddress_isUnspecified (m_host (e_ep matcher)) then
            if \<not> IPAddress_eq (m_host (e_ep matcher)) (m_host (e_ep value)) then False
            else if m_port (e_ep matcher) \<noteq> 0 then m_port (e_ep matcher) = m_port (e_ep value)
            else True
          else True
        else True
      else True)"

definition TrafficMatcher_match ::
    "TrafficMatcher \<Rightarrow> ScIPEndpoint \<Rightarrow> ScIPEndpoint \<Rightarrow> byte \<Rightarrow> byte \<Rightarrow> bool" where
  "TrafficMatcher_match m src dst proto tc =
     (if \<not> matchEp (tm_src m) src then False
      else if \<not> matchEp (tm_dst m) dst then False
      else if tm_proto m \<noteq> 0 \<and> tm_proto m \<noteq> proto then False
      else if tm_trafficClass m \<noteq> 0 \<and> tm_trafficClass m \<noteq> tc then False
      else True)"

definition parseAddressMatcher :: "string \<Rightarrow> ScIPEndpoint option" where
  "parseAddressMatcher str =
     (if find_char CHR '','' str = None
      then case IsdAsn_Parse str of
             Inl _ \<Rightarrow> None
           | Inr isdAsn \<Rightarrow> Some \<lparr>e_ia = isdAsn, e_ep = IPEndpoint_default\<rparr>
      else case Endpoint_Parse str of Inl _ \<Rightarrow> None | Inr ep \<Rightarrow> Some ep)"

fun TrafficMatcher_parse :: "TrafficMatcher \<Rightarrow> (string \<times> json) list \<Rightarrow> TrafficMatcher option" where
  "TrafficMatcher_parse m [] = Some m"
| "TrafficMatcher_parse m ((name, value) # obj) =
     (if name = ''source'' then
        Option.bind (as_string value) (\<lambda>s. Option.bind (parseAddressMatcher s) (\<lambda>ep.
          TrafficMatcher_parse (m\<lparr>tm_src := ep\<rparr>) obj))
      else if name = ''destination'' then
        Option.bind (as_string value) (\<lambda>s. Option.bind (parseAddressMatcher s) (\<lambda>ep.
          TrafficMatcher_parse (m\<lparr>tm_dst := ep\<rparr>) obj))
      else if name = ''protocol'' then
        Option.bind (as_string value) (\<lambda>proto.
          if proto = ''tcp'' then TrafficMatcher_parse (m\<lparr>tm_proto := ScionProto_TCP\<rparr>) obj
          else if proto = ''udp'' then TrafficMatcher_parse (m\<lparr>tm_proto := ScionProto_UDP\<rparr>) obj
          else None)
      else if name = ''traffic_class'' then
        Option.bind (as_int64 value) (\<lambda>tc.
          if tc < 0 \<or> tc > 255 then None
          else TrafficMatcher_parse (m\<lparr>tm_trafficClass := of_int tc\<rparr>) obj)
      else if name = ''policy'' then TrafficMatcher_parse m obj
      else None)"

definition TrafficMatcher_json :: "(string \<times> json) list \<Rightarrow> TrafficMatcher option" where
  "TrafficMatcher_json obj = TrafficMatcher_parse TrafficMatcher_default obj"

section \<open>Hop predicates\<close>

record HopPredicate =
  hp_isdAsn :: IsdAsn
  hp_ingress :: u64
  hp_egress :: u64

definition HopPredicate_Parse :: "string \<Rightarrow> HopPredicate maybe" where
  "HopPredicate_Parse sv =
     (let hp = \<lparr>hp_isdAsn = 0, hp_ingress = 0, hp_egress = 0\<rparr> in
      if sv = [] then Inr hp
      else
        let hash = find_char CHR ''#'' sv;
            head = (case hash of None \<Rightarrow> sv | Some h \<Rightarrow> take h sv) in
        maybe_bind
          (if find_char CHR ''-'' sv = None
           then maybe_bind (from_chars_all (2 ^ 16 - 1) head) (\<lambda>isd.
                  Inr (hp\<lparr>hp_isdAsn := IsdAsn_make (of_nat isd) 0\<rparr>))
           else maybe_bind (IsdAsn_Parse head) (\<lambda>ia. Inr (hp\<lparr>hp_isdAsn := ia\<rparr>)))
          (\<lambda>hp. case hash of
             None \<Rightarrow> Inr hp
           | Some h \<Rightarrow>
               let ifs = drop (h + 1) sv; comma = find_char CHR '','' ifs in
               maybe_bind (from_chars_all (2 ^ 64 - 1) (case comma of None \<Rightarrow> ifs | Some c \<Rightarrow> take c ifs))
                 (\<lambda>ingress. let hp = hp\<lparr>hp_ingress := of_nat ingress\<rparr> in
                   case comma of
                     None \<Rightarrow> Inr hp
                   | Some c \<Rightarrow>
                       maybe_bind (from_chars_all (2 ^ 64 - 1) (drop (h + c + 2) sv)) (\<lambda>egress.
                         Inr (hp\<lparr>hp_egress := of_nat egress\<rparr>)))))"

definition HopPredicate_match :: "HopPredicate \<Rightarrow> IsdAsn \<Rightarrow> u64 \<Rightarrow> u64 \<Rightarrow> bool" where
  "HopPredicate_match hp isdAsn ingress egress =
     (if \<not> Isd_isUnspecified (IsdAsn_isd (hp_isdAsn hp))
         \<and> IsdAsn_isd (hp_isdAsn hp) \<noteq> IsdAsn_isd isdAsn then False
      else if \<not> Asn_isUnspecified (IsdAsn_asn (hp_isdAsn hp))
         \<and> IsdAsn_asn (hp_isdAsn hp) \<noteq> IsdAsn_asn isdAsn then False
      else if hp_ingress hp \<noteq> 0 then
        if hp_egress hp \<noteq> 0 then \<not> (ingress \<noteq> hp_ingress hp \<or> egress \<noteq> hp_egress hp)
        else \<not> (ingress \<noteq> hp_ingress hp \<and> egress \<noteq> hp_ingress hp)
      else True)"

abbreviation backslash :: char where "backslash \<equiv> CHR 0x5C"

definition HopPredicate_regex :: "HopPredicate \<Rightarrow> string" where
  "HopPredicate_regex hp =
     (let ia = hp_isdAsn hp;
          d = [backslash, CHR ''d'', CHR ''+''];
          s = [backslash, CHR ''s'', CHR ''?''] in
      if Isd_isUnspecified (IsdAsn_isd ia) then
        ''('' @ d @ ''-[0-9a-f:]+#'' @ d @ '','' @ d @ s @ '')''
      else if Asn_isUnspecified (IsdAsn_asn ia) then
        ''('' @ Isd_format (IsdAsn_isd ia) @ ''-[0-9a-f:]+#'' @ d @ '','' @ d @ s @ '')''
      else if hp_ingress hp = 0 then
        ''('' @ IsdAsn_format ia @ ''#'' @ d @ '','' @ d @ s @ '')''
      else let i = format_dec (unat (hp_ingress hp)) in
        if hp_egress hp = 0 then
          ''('' @ IsdAsn_format ia @ ''#('' @ i @ '','' @ d @ ''|'' @ d @ '','' @ i @ '')'' @ s @ '')''
        else
          ''('' @ IsdAsn_format ia @ ''#'' @ i @ '','' @ format_dec (unat (hp_egress hp)) @ s @ '')'')"

section \<open>Sequences of hops\<close>

definition hop_text :: "PathHop \<Rightarrow> string" where
  "hop_text hop = IsdAsn_format (ph_isdAsn hop) @ ''#'' @ format_dec (unat (ph_ingress hop)) @ '',''
     @ format_dec (unat (ph_egress hop))"

definition interfacesToSeqExpr :: "PathHop list \<Rightarrow> string" where
  "interfacesToSeqExpr ifaces = join_with CHR '' '' (map hop_text ifaces)"

text \<open>The pattern that finds hop predicates in a sequence.\<close>

definition hop_pattern_text :: string where
  "hop_pattern_text =
     (let d = [backslash, CHR ''d'', CHR ''+'']; g = ''[0-9a-f-A-F]{1,4}'' in
      ''(?:('' @ d @ ''-'' @ g @ '':'' @ g @ '':'' @ g @ '')|('' @ d @ ''-'' @ d @ ''))(#'' @ d
      @ ''(,'' @ d @ '')?)?|('' @ d @ '')'')"

definition hop_pattern :: regex where
  "hop_pattern = (case regex_compile hop_pattern_text of Inr r \<Rightarrow> r | Inl _ \<Rightarrow> REps)"

text \<open>The parts of the pattern.\<close>

definition re_char :: "char \<Rightarrow> regex" where "re_char c = RSet False (char_set c)"

definition re_digit :: regex where "re_digit = RSet False [(False, digit_ranges)]"

definition re_digits :: regex where "re_digits = RSeq re_digit (RStar True re_digit)"

definition re_hex :: regex where
  "re_hex = RSet False [(False, [(48, 57)]), (False, [(97, 102)]), (False, [(45, 45)]), (False, [(65, 70)])]"

definition re_group :: regex where "re_group = RSeq re_hex (up_to 3 True re_hex)"

definition re_opt :: "regex \<Rightarrow> regex" where "re_opt r = RAlt (RSeq r REps) REps"

definition re_seq :: "regex list \<Rightarrow> regex" where "re_seq rs = foldr RSeq rs REps"

definition re_hex_as :: regex where
  "re_hex_as = re_seq [re_digits, re_char CHR ''-'', re_group, re_char CHR '':'', re_group, re_char CHR '':'', re_group]"

definition re_dec_as :: regex where
  "re_dec_as = re_seq [re_digits, re_char CHR ''-'', re_digits]"

definition re_ifs :: regex where
  "re_ifs = re_opt (re_seq [re_char CHR ''#'', re_digits, re_opt (re_seq [re_char CHR '','', re_digits])])"

lemmas scanner_defs = scan_token_def scan_open_def escape_token_def escape_char_def escape_class_def
  quantifier_def bracket_def interval_def bracket_escape_def from_chars_def is_digit_def digit_value_def
  from_digits_def

lemmas pattern_defs = re_seq_def re_opt_def re_digits_def re_digit_def re_group_def re_hex_def re_char_def
  re_hex_as_def re_dec_as_def re_ifs_def

lemma hop_pattern:
  "hop_pattern =
     RAlt (re_seq [RAlt (re_seq [re_hex_as]) (re_seq [re_dec_as]), re_ifs]) (re_seq [re_seq [re_digits]])"
proof -
  have "regex_compile hop_pattern_text = Inr
     (RAlt (re_seq [RAlt (re_seq [re_hex_as]) (re_seq [re_dec_as]), re_ifs]) (re_seq [re_seq [re_digits]]))"
    by (simp add: regex_compile_def hop_pattern_text_def scanner_defs pattern_defs sequence_of_def
        close_level_def quantified_def char_int_def char_set_def Let_def digit_ranges_def)
  then show ?thesis by (simp add: hop_pattern_def)
qed

text \<open>A match of the pattern is not empty, so the search for predicates comes to an end.\<close>

primrec eats :: "regex \<Rightarrow> bool" where
  "eats REps = False"
| "eats (RSet neg items) = True"
| "eats (RSeq r s) = (eats r \<or> eats s)"
| "eats (RAlt r s) = (eats r \<and> eats s)"
| "eats (RStar greedy r) = False"
| "eats RBol = False"
| "eats REol = False"
| "eats (RWord neg) = False"
| "eats (RLook neg r) = False"

lemma eats_ends: "eats r \<Longrightarrow> ends r c d \<Longrightarrow> length (snd d) < length (snd c)"
proof (induction r arbitrary: c d)
  case (RSeq r s)
  then obtain e where e: "ends r c e" "ends s e d" by (auto simp: relcompp_apply)
  then show ?case
    using RSeq advancesD [OF advances_ends e(1)] advancesD [OF advances_ends e(2)] by fastforce
qed auto

lemma regex_search_from_length:
  assumes "eats r"
  shows "regex_search_from r pre (p, s) = Some (a, m, b) \<Longrightarrow> length b < length s"
proof (induction s arbitrary: pre p)
  case Nil
  then have "matches_at r (p, []) \<noteq> []" by (auto split: list.splits)
  then obtain d where "ends r (p, []) d" by (metis all_not_in_conv matches_at_ends set_empty)
  then show ?case using eats_ends [OF assms] by fastforce
next
  case (Cons x xs)
  show ?case
  proof (cases "matches_at r (p, x # xs)")
    case Nil
    then show ?thesis using Cons by (fastforce dest: Cons.IH)
  next
    case (Cons d ds)
    then have "ends r (p, x # xs) d" by (simp flip: matches_at_ends)
    then show ?thesis using eats_ends [OF assms] Cons Cons.prems by fastforce
  qed
qed

lemma eats_hop_pattern: "eats hop_pattern"
  by (simp add: hop_pattern pattern_defs)

lemma regex_search_shrinks: "regex_search hop_pattern sv = Some (a, m, b) \<Longrightarrow> length (ltrim b) < length sv"
  unfolding regex_search_def ltrim_def
  by (rule le_less_trans [OF length_dropWhile_le]) (rule regex_search_from_length [OF eats_hop_pattern])

text \<open>The text of the regular expression: predicates replaced by their expressions.\<close>

function translateHops :: "string \<Rightarrow> string maybe" where
  "translateHops sv =
     (case regex_search hop_pattern sv of
        None \<Rightarrow> Inr sv
      | Some (pre, m, suf) \<Rightarrow>
          maybe_bind (case HopPredicate_Parse m of Inl _ \<Rightarrow> Inl SyntaxError | Inr hp \<Rightarrow> Inr hp) (\<lambda>hp.
          maybe_bind (translateHops (ltrim suf)) (\<lambda>rest.
            Inr (rtrim pre @ HopPredicate_regex hp @ rest))))"
  by pat_completeness auto

termination
  by (relation "measure length") (auto intro: regex_search_shrinks)

declare translateHops.simps [simp del]

datatype std_regex = Compiled regex | External "string \<Rightarrow> bool"

fun std_regex_match :: "string \<Rightarrow> std_regex \<Rightarrow> bool" where
  "std_regex_match s (Compiled r) = regex_match r s"
| "std_regex_match s (External f) = f s"

text \<open>The constructor of \<open>std::regex\<close>; \<open>None\<close> is the exception \<open>std::regex_error\<close>.\<close>

definition std_regex_make :: "(string \<Rightarrow> (string \<Rightarrow> bool) option) \<Rightarrow> string \<Rightarrow> std_regex option" where
  "std_regex_make external s =
     (case regex_compile s of
        Inr r \<Rightarrow> Some (Compiled r)
      | Inl BadRegex \<Rightarrow> None
      | Inl OtherRegex \<Rightarrow> map_option External (external s))"

definition translateHopSeqExprToRegex ::
    "(string \<Rightarrow> (string \<Rightarrow> bool) option) \<Rightarrow> string \<Rightarrow> std_regex maybe" where
  "translateHopSeqExprToRegex external sq =
     maybe_bind (translateHops sq) (\<lambda>s.
       case std_regex_make external s of None \<Rightarrow> Inl SyntaxError | Some r \<Rightarrow> Inr r)"

section \<open>Requirements on paths\<close>

datatype PathRequirement = MinMetaMtu u16 | MaxMetaLat int | MinMetaBw u64

text \<open>Durations are 64-bit counts of nanoseconds.\<close>

definition Duration_of :: "int \<Rightarrow> int" where
  "Duration_of x = sint (of_int x :: u64)"

definition Duration_max :: int where "Duration_max = 2 ^ 63 - 1"

fun sum_latency :: "int \<Rightarrow> LinkMeta list \<Rightarrow> int" where
  "sum_latency lat [] = lat"
| "sum_latency lat (l # ls) =
     (if lm_latency l = 0 then Duration_max else sum_latency (Duration_of (lat + lm_latency l)) ls)"

definition getMetaLatency :: "Path \<Rightarrow> int" where
  "getMetaLatency path =
     (case Path_getAttribute path TLinkMetadata PATH_ATTRIBUTE_LINK_META of
        Some (AttrLinkMetadata links) \<Rightarrow> sum_latency 0 links
      | _ \<Rightarrow> Duration_max)"

fun min_bandwidth :: "u64 \<Rightarrow> LinkMeta list \<Rightarrow> u64" where
  "min_bandwidth bw [] = bw"
| "min_bandwidth bw (l # ls) =
     (if lm_bandwidth l = 0 then 0 else min_bandwidth (min bw (lm_bandwidth l)) ls)"

definition getMetaBw :: "Path \<Rightarrow> u64" where
  "getMetaBw path =
     (case Path_getAttribute path TLinkMetadata PATH_ATTRIBUTE_LINK_META of
        Some (AttrLinkMetadata links) \<Rightarrow> min_bandwidth (- 1) links
      | _ \<Rightarrow> 0)"

fun fullfills :: "PathRequirement \<Rightarrow> Path \<Rightarrow> bool" where
  "fullfills (MinMetaMtu minMtu) path \<longleftrightarrow> pth_mtu path \<ge> minMtu"
| "fullfills (MaxMetaLat maxLat) path \<longleftrightarrow> getMetaLatency path \<le> maxLat"
| "fullfills (MinMetaBw minBw) path \<longleftrightarrow> getMetaBw path \<ge> minBw"

section \<open>Policies\<close>

datatype PathOrder = Random | HopsAsc | HopsDesc | MetaLatAsc | MetaLatDesc | MetaBwAsc | MetaBwDesc

record Policy =
  m_acl :: "(bool \<times> HopPredicate) list option"
  m_sequence :: "std_regex option"
  m_reqs :: "PathRequirement list option"
  m_ordering :: "PathOrder list option"

definition Policy_default :: Policy where
  "Policy_default = \<lparr>m_acl = None, m_sequence = None, m_reqs = None, m_ordering = None\<rparr>"

subsection \<open>Reading a policy\<close>

fun parseAcl :: "json list \<Rightarrow> (bool \<times> HopPredicate) list option" where
  "parseAcl [] = Some []"
| "parseAcl (entry # acl) =
     Option.bind (as_string entry) (\<lambda>line.
       let allow = (if line = [] then None
                    else if hd line = CHR ''+'' then Some True
                    else if hd line = CHR ''-'' then Some False
                    else None)
       in Option.bind allow (\<lambda>a.
         case HopPredicate_Parse (ltrim (drop 1 line)) of
           Inl _ \<Rightarrow> None
         | Inr hp \<Rightarrow> map_option (\<lambda>rest. (a, hp) # rest) (parseAcl acl)))"

text \<open>
  \<open>std::min<std::uint64_t>\<close> compares the value as an unsigned number, and a duration in milliseconds
  is converted to nanoseconds.
\<close>

fun parseRequirements :: "(string \<times> json) list \<Rightarrow> PathRequirement list option" where
  "parseRequirements [] = Some []"
| "parseRequirements ((name, value) # reqs) =
     Option.bind
       (if name = ''min_mtu'' then
          map_option (\<lambda>v. MinMetaMtu (ucast (min (of_int v :: u64) 65535))) (as_int64 value)
        else if name = ''max_meta_lat'' then
          map_option (\<lambda>v. MaxMetaLat (Duration_of (v * 1000000))) (as_int64 value)
        else if name = ''min_meta_bw'' then
          map_option (\<lambda>v. MinMetaBw (of_int v)) (as_int64 value)
        else None)
       (\<lambda>req. map_option (\<lambda>rest. req # rest) (parseRequirements reqs))"

fun parseOrdering :: "json list \<Rightarrow> PathOrder list option" where
  "parseOrdering [] = Some []"
| "parseOrdering (value # order) =
     Option.bind (as_string value) (\<lambda>ordering.
     Option.bind
       (if ordering = ''random'' then Some Random
        else if ordering = ''hops_asc'' then Some HopsAsc
        else if ordering = ''hops_desc'' then Some HopsDesc
        else if ordering = ''meta_latency_asc'' then Some MetaLatAsc
        else if ordering = ''meta_latency_desc'' then Some MetaLatDesc
        else if ordering = ''meta_bandwidth_asc'' then Some MetaBwAsc
        else if ordering = ''meta_bandwidth_desc'' then Some MetaBwDesc
        else None)
       (\<lambda>o1. map_option (\<lambda>rest. o1 # rest) (parseOrdering order)))"

fun Policy_parse ::
    "(string \<Rightarrow> (string \<Rightarrow> bool) option) \<Rightarrow> Policy \<Rightarrow> (string \<times> json) list \<Rightarrow> Policy option" where
  "Policy_parse external pol [] = Some pol"
| "Policy_parse external pol ((name, value) # obj) =
     (if name = ''acl'' then
        Option.bind (as_array value) (\<lambda>vs. Option.bind (parseAcl vs) (\<lambda>acl.
          Policy_parse external (pol\<lparr>m_acl := Some acl\<rparr>) obj))
      else if name = ''sequence'' then
        Option.bind (as_string value) (\<lambda>s.
          case translateHopSeqExprToRegex external s of
            Inl _ \<Rightarrow> None
          | Inr r \<Rightarrow> Policy_parse external (pol\<lparr>m_sequence := Some r\<rparr>) obj)
      else if name = ''requirements'' then
        Option.bind (as_object value) (\<lambda>kvs. Option.bind (parseRequirements kvs) (\<lambda>reqs.
          Policy_parse external (pol\<lparr>m_reqs := Some reqs\<rparr>) obj))
      else if name = ''ordering'' then
        Option.bind (as_array value) (\<lambda>vs. Option.bind (parseOrdering vs) (\<lambda>ord.
          Policy_parse external (pol\<lparr>m_ordering := Some ord\<rparr>) obj))
      else if name = ''extends'' \<or> name = ''failover'' then Policy_parse external pol obj
      else None)"

definition inherit :: "'a option \<Rightarrow> 'a option \<Rightarrow> 'a option" where
  "inherit own base = (case own of None \<Rightarrow> base | Some x \<Rightarrow> Some x)"

definition Policy_make ::
    "(string \<Rightarrow> (string \<Rightarrow> bool) option) \<Rightarrow> (string \<times> json) list \<Rightarrow> Policy option \<Rightarrow> Policy option" where
  "Policy_make external obj base =
     map_option (\<lambda>pol.
       case base of
         None \<Rightarrow> pol
       | Some b \<Rightarrow>
           \<lparr>m_acl = inherit (m_acl pol) (m_acl b), m_sequence = inherit (m_sequence pol) (m_sequence b),
            m_reqs = inherit (m_reqs pol) (m_reqs b), m_ordering = inherit (m_ordering pol) (m_ordering b)\<rparr>)
       (Policy_parse external Policy_default obj)"

subsection \<open>Testing a path\<close>

text \<open>The first entry that matches decides; no entry means the hop is not allowed.\<close>

fun acl_allows :: "(bool \<times> HopPredicate) list \<Rightarrow> PathHop \<Rightarrow> bool" where
  "acl_allows [] hop = False"
| "acl_allows ((allow, hp) # acl) hop =
     (if HopPredicate_match hp (ph_isdAsn hop) (ph_ingress hop) (ph_egress hop) then allow
      else acl_allows acl hop)"

fun matchACL_loop :: "(bool \<times> HopPredicate) list \<Rightarrow> PathHop list \<Rightarrow> bool" where
  "matchACL_loop acl [] = True"
| "matchACL_loop acl (hop # hops) = (if acl_allows acl hop then matchACL_loop acl hops else False)"

definition matchACL :: "Policy \<Rightarrow> PathHop list \<Rightarrow> bool" where
  "matchACL pol ifaces = (case m_acl pol of None \<Rightarrow> True | Some acl \<Rightarrow> matchACL_loop acl ifaces)"

definition matchSequence :: "Policy \<Rightarrow> PathHop list \<Rightarrow> bool" where
  "matchSequence pol ifaces =
     (case m_sequence pol of None \<Rightarrow> True | Some r \<Rightarrow> std_regex_match (interfacesToSeqExpr ifaces) r)"

fun checkRequirements_loop :: "PathRequirement list \<Rightarrow> Path \<Rightarrow> bool" where
  "checkRequirements_loop [] path = True"
| "checkRequirements_loop (req # reqs) path =
     (if \<not> fullfills req path then False else checkRequirements_loop reqs path)"

definition checkRequirements :: "Policy \<Rightarrow> Path \<Rightarrow> bool" where
  "checkRequirements pol path =
     (case m_reqs pol of None \<Rightarrow> True | Some reqs \<Rightarrow> checkRequirements_loop reqs path)"

definition Policy_test :: "Policy \<Rightarrow> Path \<Rightarrow> bool" where
  "Policy_test pol path =
     (if Path_empty path then True
      else case Path_interfaces path of
        None \<Rightarrow> False
      | Some md \<Rightarrow>
          if \<not> checkRequirements pol path then False
          else if \<not> matchACL pol md then False
          else matchSequence pol md)"

subsection \<open>Filtering and sorting\<close>

fun sort_by :: "(Path list \<Rightarrow> Path list) \<Rightarrow> PathOrder \<Rightarrow> Path list \<Rightarrow> Path list" where
  "sort_by shuffle Random paths = shuffle paths"
| "sort_by shuffle HopsAsc paths = sort_key (\<lambda>p. unat (pth_hopCount p)) paths"
| "sort_by shuffle HopsDesc paths = sort_key (\<lambda>p. - int (unat (pth_hopCount p))) paths"
| "sort_by shuffle MetaLatAsc paths = sort_key getMetaLatency paths"
| "sort_by shuffle MetaLatDesc paths = sort_key (\<lambda>p. - getMetaLatency p) paths"
| "sort_by shuffle MetaBwAsc paths = sort_key (\<lambda>p. unat (getMetaBw p)) paths"
| "sort_by shuffle MetaBwDesc paths = sort_key (\<lambda>p. - int (unat (getMetaBw p))) paths"

fun sort_loop :: "(nat \<Rightarrow> Path list \<Rightarrow> Path list) \<Rightarrow> nat \<Rightarrow> PathOrder list \<Rightarrow> Path list \<Rightarrow> Path list" where
  "sort_loop shuffle i [] paths = paths"
| "sort_loop shuffle i (ord # ords) paths =
     sort_loop shuffle (i + 1) ords (sort_by (shuffle i) ord paths)"

definition Policy_sort :: "(nat \<Rightarrow> Path list \<Rightarrow> Path list) \<Rightarrow> Policy \<Rightarrow> Path list \<Rightarrow> Path list" where
  "Policy_sort shuffle pol paths =
     (case m_ordering pol of None \<Rightarrow> paths | Some ords \<Rightarrow> sort_loop shuffle 0 ords paths)"

text \<open>
  The array of pointers to paths. A pointer that was moved from is null, and the loop dereferences
  every pointer; \<open>None\<close> stands for the undefined access through a null pointer.
\<close>

type_synonym PathPtr = "Path option"

function compact :: "(Path \<Rightarrow> bool) \<Rightarrow> PathPtr list \<Rightarrow> nat \<Rightarrow> nat \<Rightarrow> (PathPtr list \<times> nat) option" where
  "compact allowed paths i out =
     (if i < length paths then
        case paths ! i of
          None \<Rightarrow> None
        | Some p \<Rightarrow>
            if allowed p then compact allowed ((paths[i := None])[out := Some p]) (i + 1) (out + 1)
            else compact allowed paths (i + 1) out
      else Some (paths, out))"
  by pat_completeness auto

termination
  by (relation "measure (\<lambda>(allowed, paths, i, out). length paths - i)") auto

declare compact.simps [simp del]

text \<open>The array after the call and the length of the view on it that is returned.\<close>

definition Policy_apply ::
    "(nat \<Rightarrow> Path list \<Rightarrow> Path list) \<Rightarrow> Policy \<Rightarrow> PathPtr list \<Rightarrow> (PathPtr list \<times> nat) option" where
  "Policy_apply shuffle pol paths =
     Option.bind (compact (Policy_test pol) paths 0 0) (\<lambda>(paths, out).
       Some (map Some (Policy_sort shuffle pol (map the (take out paths))) @ drop out paths, out))"

section \<open>Sets of policies\<close>

definition POLICY_INDEX_NONE :: u64 where "POLICY_INDEX_NONE = - 1"
definition POLICY_INDEX_DEFAULT :: u64 where "POLICY_INDEX_DEFAULT = - 2"

record PolicySet =
  m_matchers :: "(TrafficMatcher \<times> u64) list"
  m_policies :: "(Policy \<times> u64) list"
  m_defaultPolicy :: Policy

definition PolicySet_default :: PolicySet where
  "PolicySet_default = \<lparr>m_matchers = [], m_policies = [], m_defaultPolicy = Policy_default\<rparr>"

fun find_policy ::
    "PolicySet \<Rightarrow> (TrafficMatcher \<times> u64) list \<Rightarrow> ScIPEndpoint \<Rightarrow> ScIPEndpoint \<Rightarrow> byte \<Rightarrow> byte
     \<Rightarrow> Policy \<times> u64" where
  "find_policy ps [] src dst proto tc = (m_defaultPolicy ps, POLICY_INDEX_NONE)"
| "find_policy ps ((matcher, i) # ms) src dst proto tc =
     (if TrafficMatcher_match matcher src dst proto tc \<and> unat i < length (m_policies ps)
      then m_policies ps ! unat i
      else find_policy ps ms src dst proto tc)"

definition getPolicyIndex ::
    "PolicySet \<Rightarrow> ScIPEndpoint \<Rightarrow> ScIPEndpoint \<Rightarrow> byte \<Rightarrow> byte \<Rightarrow> Policy \<times> u64" where
  "getPolicyIndex ps src dst proto tc = find_policy ps (m_matchers ps) src dst proto tc"

definition getPolicy :: "PolicySet \<Rightarrow> ScIPEndpoint \<Rightarrow> ScIPEndpoint \<Rightarrow> byte \<Rightarrow> byte \<Rightarrow> Policy" where
  "getPolicy ps src dst proto tc = fst (getPolicyIndex ps src dst proto tc)"

text \<open>
  The loop over the failover policies from the result of the policy before; \<open>None\<close> also stands for a
  loop that does not end and for an index out of range.
\<close>

partial_function (option) failover ::
    "(nat \<Rightarrow> nat \<Rightarrow> Path list \<Rightarrow> Path list) \<Rightarrow> PolicySet \<Rightarrow> nat \<Rightarrow> PathPtr list \<times> nat \<Rightarrow> u64
     \<Rightarrow> (PathPtr list \<times> nat) option" where
  "failover shuffle ps k filtered nxt =
     (if snd filtered = 0 \<and> nxt \<noteq> POLICY_INDEX_NONE then
        if nxt = POLICY_INDEX_DEFAULT then Policy_apply (shuffle k) (m_defaultPolicy ps) (fst filtered)
        else if unat nxt < length (m_policies ps) then
          Option.bind (Policy_apply (shuffle k) (fst (m_policies ps ! unat nxt)) (fst filtered))
            (\<lambda>filtered'. failover shuffle ps (k + 1) filtered' (snd (m_policies ps ! unat nxt)))
        else None
      else Some filtered)"

definition PolicySet_apply ::
    "(nat \<Rightarrow> nat \<Rightarrow> Path list \<Rightarrow> Path list) \<Rightarrow> PolicySet \<Rightarrow> ScIPEndpoint \<Rightarrow> ScIPEndpoint \<Rightarrow> byte \<Rightarrow> byte
     \<Rightarrow> PathPtr list \<Rightarrow> (PathPtr list \<times> nat) option" where
  "PolicySet_apply shuffle ps src dst proto tc paths =
     (if paths = [] then Some (paths, 0)
      else case getPolicyIndex ps src dst proto tc of (policy, nxt) \<Rightarrow>
        Option.bind (Policy_apply (shuffle 0) policy paths) (\<lambda>filtered.
          failover shuffle ps 1 filtered nxt))"

subsection \<open>Loading\<close>

text \<open>
  The loop over the policies of the document: the set as it is when the loop ends or an exception
  leaves it, and the indices of the names, \<open>None\<close> after an exception.
\<close>

definition lookup_policy :: "(string \<times> u64) list \<Rightarrow> (string \<times> json) list \<Rightarrow> string \<Rightarrow> u64 option option" where
  "lookup_policy names obj key =
     (case map_of obj key of
        None \<Rightarrow> Some None
      | Some raw \<Rightarrow>
          Option.bind (as_string raw) (\<lambda>s.
            if s = ''default'' then Some (Some POLICY_INDEX_DEFAULT)
            else map_option Some (map_of names s)))"

definition base_policy :: "PolicySet \<Rightarrow> u64 option \<Rightarrow> Policy option" where
  "base_policy ps ref =
     map_option (\<lambda>i. if i = POLICY_INDEX_DEFAULT then m_defaultPolicy ps
                     else fst (m_policies ps ! unat i)) ref"

definition parse_policy ::
    "(string \<Rightarrow> (string \<Rightarrow> bool) option) \<Rightarrow> PolicySet \<Rightarrow> (string \<times> u64) list \<Rightarrow> string \<Rightarrow> json
     \<Rightarrow> (PolicySet \<times> (string \<times> u64) list) option" where
  "parse_policy external ps names name policy =
     Option.bind (as_object policy) (\<lambda>obj.
     Option.bind (lookup_policy names obj ''extends'') (\<lambda>base.
     Option.bind (lookup_policy names obj ''failover'') (\<lambda>fail.
       let nextPolicy = (case fail of None \<Rightarrow> POLICY_INDEX_NONE | Some i \<Rightarrow> i) in
       if name = ''default'' then
         if nextPolicy \<noteq> POLICY_INDEX_NONE then None
         else map_option (\<lambda>pol. (ps\<lparr>m_defaultPolicy := pol\<rparr>, names))
                (Policy_make external obj (base_policy ps base))
       else map_option (\<lambda>pol. (ps\<lparr>m_policies := m_policies ps @ [(pol, nextPolicy)]\<rparr>,
                                (name, of_nat (length (m_policies ps))) # names))
              (Policy_make external obj (base_policy ps base)))))"

fun parse_policies ::
    "(string \<Rightarrow> (string \<Rightarrow> bool) option) \<Rightarrow> PolicySet \<Rightarrow> (string \<times> u64) list \<Rightarrow> (string \<times> json) list
     \<Rightarrow> PolicySet \<times> (string \<times> u64) list option" where
  "parse_policies external ps names [] = (ps, Some names)"
| "parse_policies external ps names ((name, policy) # policies) =
     (case parse_policy external ps names name policy of
        None \<Rightarrow> (ps, None)
      | Some (ps', names') \<Rightarrow> parse_policies external ps' names' policies)"

text \<open>The initial index \<open>-1\<close> of a matcher is the value of \<open>POLICY_INDEX_NONE\<close>.\<close>

fun parse_matchers :: "PolicySet \<Rightarrow> (string \<times> u64) list \<Rightarrow> json list \<Rightarrow> PolicySet \<times> bool" where
  "parse_matchers ps names [] = (ps, True)"
| "parse_matchers ps names (m # ms) =
     (case Option.bind (as_object m) (\<lambda>obj.
             Option.bind (case map_of obj ''policy'' of
                            None \<Rightarrow> Some (- 1)
                          | Some p \<Rightarrow> Option.bind (as_string p) (\<lambda>s. map_of names s)) (\<lambda>policy.
               map_option (\<lambda>matcher. (matcher, policy)) (TrafficMatcher_json obj))) of
        None \<Rightarrow> (ps, False)
      | Some entry \<Rightarrow> parse_matchers (ps\<lparr>m_matchers := m_matchers ps @ [entry]\<rparr>) names ms)"

text \<open>The set after the call, and whether the call returned without an exception.\<close>

definition PolicySet_parse ::
    "(string \<Rightarrow> (string \<Rightarrow> bool) option) \<Rightarrow> PolicySet \<Rightarrow> json \<Rightarrow> PolicySet \<times> bool" where
  "PolicySet_parse external ps data =
     (case as_object data of
        None \<Rightarrow> (ps, False)
      | Some root \<Rightarrow>
          (case (case map_of root ''policies'' of
                   None \<Rightarrow> (ps, Some [])
                 | Some policies \<Rightarrow>
                     (case as_object policies of
                        None \<Rightarrow> (ps, None)
                      | Some kvs \<Rightarrow> parse_policies external ps [] kvs)) of
             (ps, None) \<Rightarrow> (ps, False)
           | (ps, Some names) \<Rightarrow>
               (case map_of root ''matchers'' of
                  None \<Rightarrow> (ps, True)
                | Some matchers \<Rightarrow>
                    (case as_array matchers of
                       None \<Rightarrow> (ps, False)
                     | Some ms \<Rightarrow> parse_matchers ps names ms))))"

text \<open>
  \<open>content\<close> is the text of the file, \<open>None\<close> when it cannot be opened, and \<open>json_parse\<close> the parser of
  \<open>boost::json\<close> with the options set here, \<open>None\<close> when it throws.
\<close>

definition loadJsonFile ::
    "(string \<Rightarrow> (string \<Rightarrow> bool) option) \<Rightarrow> (string \<Rightarrow> json option) \<Rightarrow> string option \<Rightarrow> PolicySet
     \<Rightarrow> error_code \<times> PolicySet" where
  "loadJsonFile external json_parse content ps =
     (let ps = ps\<lparr>m_matchers := [], m_policies := [], m_defaultPolicy := Policy_default\<rparr> in
      case content of
        None \<Rightarrow> (FileNotFound, ps)
      | Some s \<Rightarrow>
          (case json_parse s of
             None \<Rightarrow> (SyntaxError, ps)
           | Some data \<Rightarrow>
               (case PolicySet_parse external ps data of
                  (ps, ok) \<Rightarrow> (if ok then Ok else SyntaxError, ps))))"

end
