(* ===== verification/PolicyProperties.thy ===== *)
theory PolicyProperties
  imports Policy "HOL-Library.Multiset"
begin

text \<open>
  Properties of path policies: what a policy allows, that applying it filters the array of paths and
  sorts what is left by all orderings at once, that sets loaded from a file have no cyclic failover
  chains, so that applying them ends with the first policy that leaves a path, and how matchers select
  the policy.
\<close>

section \<open>Sorting\<close>

text \<open>What an ordering sorts by, as one number.\<close>

fun order_key :: "PathOrder \<Rightarrow> Path \<Rightarrow> int" where
  "order_key Random p = 0"
| "order_key HopsAsc p = int (unat (pth_hopCount p))"
| "order_key HopsDesc p = - int (unat (pth_hopCount p))"
| "order_key MetaLatAsc p = getMetaLatency p"
| "order_key MetaLatDesc p = - getMetaLatency p"
| "order_key MetaBwAsc p = int (unat (getMetaBw p))"
| "order_key MetaBwDesc p = - int (unat (getMetaBw p))"

lemma sort_key_cong_order:
  assumes "\<And>x y. x \<in> set xs \<Longrightarrow> y \<in> set xs \<Longrightarrow> f x \<le> f y \<longleftrightarrow> g x \<le> g y"
  shows "sort_key f xs = sort_key g xs"
  using assms
proof (induction xs)
  case (Cons x xs)
  have i: "insort_key f x ys = insort_key g x ys" if "set ys \<subseteq> set xs" for ys
    using that by (induction ys) (use Cons.prems in auto)
  have "sort_key f xs = sort_key g xs" using Cons by simp
  moreover have "insort_key f x (sort_key g xs) = insort_key g x (sort_key g xs)" by (rule i) simp
  ultimately show ?case by simp
qed simp

lemma sort_by_key: "ord \<noteq> Random \<Longrightarrow> sort_by shuffle ord paths = sort_key (order_key ord) paths"
  by (cases ord) (auto simp only: sort_by.simps intro!: sort_key_cong_order, simp_all del: of_nat_unat)

text \<open>Sorting by one key and then, stably, by another.\<close>

lemma sort_key_unique:
  assumes "mset ys = mset xs" and "sorted (map f ys)"
    and "\<And>k. filter (\<lambda>y. f y = k) ys = filter (\<lambda>x. f x = k) xs"
  shows "sort_key f xs = ys"
proof (rule properties_for_sort_key)
  show "filter (\<lambda>x. f k = f x) ys = filter (\<lambda>x. f k = f x) xs" for k
    using assms(3) [of "f k"] by (simp add: eq_commute)
qed (rule assms)+

lemma sort_key_sort_key:
  fixes f :: "'a \<Rightarrow> int" and g :: "'a \<Rightarrow> int list"
  shows "sort_key f (sort_key g xs) = sort_key (\<lambda>x. f x # g x) xs"
proof (rule sym, rule sort_key_unique)
  show "mset (sort_key f (sort_key g xs)) = mset xs" by simp
  let ?zs = "sort_key f (sort_key g xs)"
  show "filter (\<lambda>y. f y # g y = k) ?zs = filter (\<lambda>y. f y # g y = k) xs" for k
  proof (cases k)
    case (Cons a b)
    have split: "filter (\<lambda>y. f y # g y = k) zs = filter (\<lambda>y. g y = b) (filter (\<lambda>y. f y = a) zs)" for zs
      using Cons by (induction zs) auto
    have swap: "filter (\<lambda>y. g y = b) (filter (\<lambda>y. f y = a) zs) = filter (\<lambda>y. f y = a) (filter (\<lambda>y. g y = b) zs)" for zs
      by (simp add: conj_commute)
    show ?thesis
      by (simp only: split sort_key_stable) (simp only: swap sort_key_stable)
  qed simp
  show "sorted (map (\<lambda>x. f x # g x) ?zs)"
  proof -
    have "sorted_wrt (\<lambda>x y. f x # g x \<le> f y # g y) ?zs"
      unfolding sorted_wrt_iff_nth_less
    proof (intro allI impI)
      fix i j
      assume ij: "i < j" "j < length ?zs"
      have le: "f (?zs ! i) \<le> f (?zs ! j)"
        using sorted_nth_mono [of "map f ?zs" i j] ij by simp
      show "f (?zs ! i) # g (?zs ! i) \<le> f (?zs ! j) # g (?zs ! j)"
      proof (cases "f (?zs ! i) = f (?zs ! j)")
        case True
        let ?P = "\<lambda>y. f y = f (?zs ! i)"
        have s: "sorted (map g (filter ?P ?zs))"
          by (simp add: sort_key_stable sorted_filter)
        have "?zs = take j ?zs @ drop j ?zs" by simp
        have tj: "drop j ?zs = ?zs ! j # drop (Suc j) ?zs" using ij by (simp add: Cons_nth_drop_Suc)
        have "filter ?P ?zs = filter ?P (take j ?zs) @ filter ?P (drop j ?zs)"
          by (metis append_take_drop_id filter_append)
        moreover have "?zs ! i \<in> set (filter ?P (take j ?zs))"
          using ij by (auto simp: in_set_conv_nth intro!: exI [of _ i])
        moreover have "?zs ! j \<in> set (filter ?P (drop j ?zs))" using tj True by simp
        ultimately have "g (?zs ! i) \<le> g (?zs ! j)"
          using s by (auto simp: sorted_append)
        then show ?thesis using True by simp
      next
        case False
        then show ?thesis using le by simp
      qed
    qed
    then show ?thesis by (simp add: sorted_map)
  qed
qed

lemma sort_loop_key:
  assumes "Random \<notin> set ords"
  shows "sort_loop shuffle i ords (sort_key g paths) =
           sort_key (\<lambda>p. map (\<lambda>ord. order_key ord p) (rev ords) @ g p) paths"
  using assms
proof (induction ords arbitrary: i g)
  case (Cons ord ords)
  have "sort_by (shuffle i) ord (sort_key g paths) = sort_key (\<lambda>p. order_key ord p # g p) paths"
    using Cons.prems by (subst sort_by_key) (auto simp: sort_key_sort_key)
  then show ?case using Cons by simp
qed simp

lemma set_sort_loop:
  assumes "\<And>i xs. mset (shuffle i xs) = mset xs"
  shows "mset (sort_loop shuffle i ords paths) = mset paths"
proof (induction ords arbitrary: i paths)
  case (Cons ord ords)
  have "mset (sort_by (shuffle i) ord paths) = mset paths" by (cases ord) (simp_all add: assms)
  then show ?case using Cons by simp
qed simp

text \<open>C39: Sorting paths by the orderings of a policy one after the other, each with a stable sort, sorts
  them once by all orderings, the last one being the most significant; paths that agree in all of them
  keep their order. With random orderings the result still is a permutation of the paths.
\<close>

theorem policy_sort_key:
  assumes ords: "m_ordering pol = Some ords" and mset: "\<And>i xs. mset (shuffle i xs) = mset xs"
  shows "(Random \<notin> set ords \<longrightarrow>
            Policy_sort shuffle pol paths
              = sort_key (\<lambda>p. map (\<lambda>ord. order_key ord p) (rev ords)) paths)
         \<and> mset (Policy_sort shuffle pol paths) = mset paths"
proof -
  have "sort_loop shuffle 0 ords paths = sort_key (\<lambda>p. map (\<lambda>ord. order_key ord p) (rev ords)) paths"
    if "Random \<notin> set ords"
    using sort_loop_key [OF that, of shuffle 0 "\<lambda>_. []" paths] by (simp add: sort_key_const)
  then show ?thesis
    using set_sort_loop [of shuffle 0 ords paths, OF mset] ords by (simp add: Policy_sort_def)
qed

lemma mset_Policy_sort:
  assumes "\<And>i xs. mset (shuffle i xs) = mset xs"
  shows "mset (Policy_sort shuffle pol paths) = mset paths"
  using set_sort_loop [of shuffle, OF assms] by (simp add: Policy_sort_def split: option.split)

lemma length_Policy_sort:
  assumes "\<And>i xs. mset (shuffle i xs) = mset xs"
  shows "length (Policy_sort shuffle pol paths) = length paths"
  using mset_Policy_sort [of shuffle, OF assms] by (metis mset_eq_length)

section \<open>Testing a path\<close>

lemma acl_allows_first:
  "acl_allows acl hop \<longleftrightarrow>
     (\<exists>i < length acl. fst (acl ! i)
        \<and> HopPredicate_match (snd (acl ! i)) (ph_isdAsn hop) (ph_ingress hop) (ph_egress hop)
        \<and> (\<forall>j < i. \<not> HopPredicate_match (snd (acl ! j)) (ph_isdAsn hop) (ph_ingress hop) (ph_egress hop)))"
proof (induction acl)
  case (Cons e acl)
  show ?case by (cases e) (simp add: Cons.IH Ex_less_Suc2 All_less_Suc2)
qed simp

lemma matchACL_loop_all: "matchACL_loop acl hops \<longleftrightarrow> (\<forall>hop \<in> set hops. acl_allows acl hop)"
  by (induction hops) auto

lemma checkRequirements_loop_all: "checkRequirements_loop reqs path \<longleftrightarrow> (\<forall>req \<in> set reqs. fullfills req path)"
  by (induction reqs) auto

text \<open>A policy allows the empty path, and otherwise exactly the paths with interface metadata that meet
  every requirement, whose every hop is allowed by the first entry of the access control list that
  matches it, and whose hops match the sequence.
\<close>

theorem policy_test_iff:
  "Policy_test pol path \<longleftrightarrow>
     Path_empty path
     \<or> (\<exists>hops. Path_interfaces path = Some hops
          \<and> (case m_reqs pol of None \<Rightarrow> True | Some reqs \<Rightarrow> \<forall>req \<in> set reqs. fullfills req path)
          \<and> (case m_acl pol of None \<Rightarrow> True
             | Some acl \<Rightarrow> \<forall>hop \<in> set hops. \<exists>i < length acl.
                 fst (acl ! i)
                 \<and> HopPredicate_match (snd (acl ! i)) (ph_isdAsn hop) (ph_ingress hop) (ph_egress hop)
                 \<and> (\<forall>j < i. \<not> HopPredicate_match (snd (acl ! j))
                              (ph_isdAsn hop) (ph_ingress hop) (ph_egress hop)))
          \<and> matchSequence pol hops)"
  by (auto simp: Policy_test_def checkRequirements_def matchACL_def matchACL_loop_all acl_allows_first
        checkRequirements_loop_all split: option.split)

section \<open>Filtering the array of paths\<close>

lemma compact_spec:
  assumes "out \<le> i" "i \<le> length arr" "drop i arr = map Some rest"
  shows "\<exists>arr'. compact allowed arr i out = Some (arr', out + length (filter allowed rest))
           \<and> length arr' = length arr \<and> take out arr' = take out arr
           \<and> take (length (filter allowed rest)) (drop out arr') = map Some (filter allowed rest)
           \<and> (filter allowed rest = [] \<longrightarrow> arr' = arr)"
  using assms
proof (induction rest arbitrary: arr i out)
  case Nil
  then have "i = length arr" by simp
  then show ?case by (simp add: compact.simps)
next
  case (Cons p rest)
  have i: "i < length arr" using Cons.prems(2,3) by (cases "i = length arr") auto
  have at: "arr ! i = Some p" "drop (i + 1) arr = map Some rest"
    using Cons.prems(3) i by (simp_all add: Cons_nth_drop_Suc [symmetric])
  show ?case
  proof (cases "allowed p")
    case False
    then show ?thesis
      using Cons.IH [of "out" "i + 1" arr] Cons.prems i at by (subst compact.simps) simp
  next
    case True
    let ?arr = "(arr[i := None])[out := Some p]"
    have d: "drop (i + 1) ?arr = map Some rest" using Cons.prems(1) at i by (simp add: drop_update_cancel)
    obtain arr' where a: "compact allowed ?arr (i + 1) (out + 1) = Some (arr', out + 1 + length (filter allowed rest))"
        "length arr' = length arr" "take (out + 1) arr' = take (out + 1) ?arr"
        "take (length (filter allowed rest)) (drop (out + 1) arr') = map Some (filter allowed rest)"
      using Cons.IH [of "out + 1" "i + 1" ?arr] d Cons.prems(1) i by auto
    have out: "out < length arr'" "arr' ! out = Some p"
      using a(2) Cons.prems(1) i arg_cong [OF a(3), of "\<lambda>xs. xs ! out"] by auto
    have "take out arr' = take out arr"
      using arg_cong [OF a(3), of "take out"] Cons.prems(1) by (simp add: take_update_cancel min_def)
    moreover have "take (length (filter allowed (p # rest))) (drop out arr') = map Some (filter allowed (p # rest))"
      using out a(4) True by (simp add: Cons_nth_drop_Suc [symmetric])
    ultimately show ?thesis using a(1,2) True i at by (subst compact.simps) simp
  qed
qed

lemma Policy_apply_spec:
  assumes "\<And>i xs. mset (shuffle i xs) = mset xs"
  shows "\<exists>arr. Policy_apply shuffle pol (map Some paths) = Some (arr, length (filter (Policy_test pol) paths))
           \<and> length arr = length paths
           \<and> take (length (filter (Policy_test pol) paths)) arr
               = map Some (Policy_sort shuffle pol (filter (Policy_test pol) paths))
           \<and> (filter (Policy_test pol) paths = [] \<longrightarrow> arr = map Some paths)"
proof -
  let ?f = "filter (Policy_test pol) paths"
  obtain arr where a: "compact (Policy_test pol) (map Some paths) 0 0 = Some (arr, length ?f)"
      "length arr = length paths" "take (length ?f) arr = map Some ?f" "?f = [] \<longrightarrow> arr = map Some paths"
    using compact_spec [of 0 0 "map Some paths" paths "Policy_test pol"] by auto
  have "Policy_sort shuffle pol [] = []"
    using length_Policy_sort [of shuffle pol "[]", OF assms] by simp
  moreover have "length ?f \<le> length paths" by simp
  ultimately show ?thesis
    using a length_Policy_sort [of shuffle pol ?f, OF assms]
    by (auto simp: Policy_apply_def a(3) comp_def)
qed

section \<open>Sets of policies\<close>

definition valid_failover :: "(Policy \<times> u64) list \<Rightarrow> bool" where
  "valid_failover pols \<longleftrightarrow>
     (\<forall>k < length pols. snd (pols ! k) = POLICY_INDEX_NONE \<or> snd (pols ! k) = POLICY_INDEX_DEFAULT
        \<or> unat (snd (pols ! k)) < k)"

definition valid_matchers :: "PolicySet \<Rightarrow> bool" where
  "valid_matchers ps \<longleftrightarrow>
     (\<forall>m \<in> set (m_matchers ps). snd m = POLICY_INDEX_NONE \<or> unat (snd m) < length (m_policies ps))"

definition PolicySet_valid :: "PolicySet \<Rightarrow> bool" where
  "PolicySet_valid ps \<longleftrightarrow> valid_failover (m_policies ps) \<and> valid_matchers ps"

definition valid_names :: "(string \<times> u64) list \<Rightarrow> PolicySet \<Rightarrow> bool" where
  "valid_names names ps \<longleftrightarrow> (\<forall>n \<in> set names. unat (snd n) < length (m_policies ps))"

lemma lookup_policy_cases:
  assumes "lookup_policy names obj key = Some ref"
  shows "ref = None \<or> ref = Some POLICY_INDEX_DEFAULT \<or> (\<exists>s i. ref = Some i \<and> (s, i) \<in> set names)"
  using assms by (fastforce simp: lookup_policy_def dest: map_of_SomeD split: option.splits if_splits bind_splits)

lemma parse_policy_cases:
  assumes "parse_policy external ps names name policy = Some (ps', names')"
  obtains (default) pol where "ps' = ps\<lparr>m_defaultPolicy := pol\<rparr>" "names' = names"
  | (named) pol nxt where "ps' = ps\<lparr>m_policies := m_policies ps @ [(pol, nxt)]\<rparr>"
      "names' = (name, of_nat (length (m_policies ps))) # names"
      "nxt = POLICY_INDEX_NONE \<or> nxt = POLICY_INDEX_DEFAULT \<or> (\<exists>s. (s, nxt) \<in> set names)"
proof -
  obtain obj base fail where o: "as_object policy = Some obj"
      "lookup_policy names obj ''extends'' = Some base" "lookup_policy names obj ''failover'' = Some fail"
    using assms by (auto simp: parse_policy_def split: bind_splits)
  let ?nxt = "case fail of None \<Rightarrow> POLICY_INDEX_NONE | Some i \<Rightarrow> i"
  have n: "?nxt = POLICY_INDEX_NONE \<or> ?nxt = POLICY_INDEX_DEFAULT \<or> (\<exists>s. (s, ?nxt) \<in> set names)"
    using lookup_policy_cases [OF o(3)] by auto
  show thesis
  proof (cases "name = ''default''")
    case True
    then obtain pol where "ps' = ps\<lparr>m_defaultPolicy := pol\<rparr>" "names' = names"
      using assms o by (auto simp: parse_policy_def Let_def split: if_splits)
    then show thesis by (rule default)
  next
    case False
    then obtain pol where "ps' = ps\<lparr>m_policies := m_policies ps @ [(pol, ?nxt)]\<rparr>"
        "names' = (name, of_nat (length (m_policies ps))) # names"
      using assms o by (auto simp: parse_policy_def Let_def)
    then show thesis by (rule named) (rule n)
  qed
qed

lemma valid_failover_snoc:
  assumes "valid_failover pols"
    and "nxt = POLICY_INDEX_NONE \<or> nxt = POLICY_INDEX_DEFAULT \<or> unat nxt < length pols"
  shows "valid_failover (pols @ [(pol, nxt)])"
  using assms by (auto simp: valid_failover_def nth_append less_Suc_eq)

lemma parse_policies_length:
  "parse_policies external ps names policies = (ps', res) \<Longrightarrow> length (m_policies ps) \<le> length (m_policies ps')"
proof (induction policies arbitrary: ps names)
  case (Cons np policies)
  obtain name policy where np: "np = (name, policy)" by (cases np)
  show ?case
  proof (cases "parse_policy external ps names name policy")
    case (Some r)
    obtain ps1 names1 where r: "r = (ps1, names1)" by (cases r)
    have p: "length (m_policies ps1) \<le> length (m_policies ps')"
      using Cons.IH Cons.prems Some r np by simp
    show ?thesis
      using Some unfolding r by (cases rule: parse_policy_cases) (use p in simp_all)
  qed (use Cons.prems np in simp)
qed simp

lemma parse_policies_valid:
  assumes "parse_policies external ps names policies = (ps', res)"
    and "length (m_policies ps') < 2 ^ 64"
    and "valid_failover (m_policies ps)" "valid_names names ps" "m_matchers ps = []"
  shows "valid_failover (m_policies ps') \<and> m_matchers ps' = [] \<and> (\<forall>names'. res = Some names' \<longrightarrow> valid_names names' ps')
           \<and> length (m_policies ps) \<le> length (m_policies ps')"
  using assms
proof (induction policies arbitrary: ps names)
  case (Cons np policies)
  obtain name policy where np: "np = (name, policy)" by (cases np)
  show ?case
  proof (cases "parse_policy external ps names name policy")
    case None
    then show ?thesis using Cons.prems np by auto
  next
    case (Some r)
    obtain ps1 names1 where r: "r = (ps1, names1)" by (cases r)
    have p: "parse_policies external ps1 names1 policies = (ps', res)"
      using Cons.prems(1) Some r np by simp
    have le: "length (m_policies ps1) \<le> length (m_policies ps')"
      by (rule parse_policies_length [OF p])
    show ?thesis
      using Some unfolding r
    proof (cases rule: parse_policy_cases)
      case (default pol)
      then show ?thesis using Cons.IH [OF p] Cons.prems by (simp add: valid_names_def)
    next
      case (named pol nxt)
      have nxt: "nxt = POLICY_INDEX_NONE \<or> nxt = POLICY_INDEX_DEFAULT \<or> unat nxt < length (m_policies ps)"
        using named(3) Cons.prems(4) by (auto simp: valid_names_def)
      have len: "length (m_policies ps) < 2 ^ 64" using le named(1) Cons.prems(2) by simp
      have "unat (of_nat (length (m_policies ps)) :: u64) = length (m_policies ps)"
        using len by (simp only: unsigned_of_nat of_nat_id) (simp add: take_bit_nat_eq_self)
      then have "valid_names names1 ps1"
        using named Cons.prems(4) by (auto simp: valid_names_def intro: less_SucI)
      then show ?thesis
        using Cons.IH [OF p] Cons.prems(2,3,5) named(1) valid_failover_snoc [OF Cons.prems(3) nxt, of pol]
        by simp
    qed
  qed
qed auto

lemma parse_matchers_policies: "parse_matchers ps names ms = (ps', ok) \<Longrightarrow> m_policies ps' = m_policies ps"
proof (induction ms arbitrary: ps)
  case (Cons m ms)
  show ?case using Cons.prems by (auto split: option.splits dest!: Cons.IH)
qed simp

lemma parse_matchers_valid:
  assumes "parse_matchers ps names ms = (ps', ok)" "valid_names names ps" "valid_matchers ps"
  shows "valid_matchers ps' \<and> m_policies ps' = m_policies ps"
  using assms
proof (induction ms arbitrary: ps)
  case (Cons m ms)
  let ?entry = "Option.bind (as_object m) (\<lambda>obj.
     Option.bind (case map_of obj ''policy'' of
                    None \<Rightarrow> Some (- 1)
                  | Some p \<Rightarrow> Option.bind (as_string p) (\<lambda>s. map_of names s)) (\<lambda>policy.
       map_option (\<lambda>matcher. (matcher, policy)) (TrafficMatcher_json obj)))"
  show ?case
  proof (cases ?entry)
    case None
    then show ?thesis using Cons.prems by simp
  next
    case (Some e)
    have "snd e = POLICY_INDEX_NONE \<or> unat (snd e) < length (m_policies ps)"
      using Some Cons.prems(2)
      by (fastforce simp: POLICY_INDEX_NONE_def valid_names_def dest: map_of_SomeD
            split: bind_splits option.splits)
    then show ?thesis
      using Cons.IH [of "ps\<lparr>m_matchers := m_matchers ps @ [e]\<rparr>"] Cons.prems Some
      by (auto simp: valid_matchers_def valid_names_def)
  qed
qed auto

lemma PolicySet_parse_valid:
  assumes parse: "PolicySet_parse external ps data = (ps', ok)" and len: "length (m_policies ps') < 2 ^ 64"
    and ps: "m_matchers ps = []" "m_policies ps = []"
  shows "PolicySet_valid ps'"
proof -
  have empty: "PolicySet_valid ps" using ps by (simp add: PolicySet_valid_def valid_failover_def valid_matchers_def)
  obtain root where root: "as_object data = Some root \<or> ps' = ps"
    using parse by (cases "as_object data") (auto simp: PolicySet_parse_def)
  let ?pols = "case map_of root ''policies'' of
      None \<Rightarrow> (ps, Some [])
    | Some policies \<Rightarrow> (case as_object policies of None \<Rightarrow> (ps, None) | Some kvs \<Rightarrow> parse_policies external ps [] kvs)"
  obtain ps1 res where p: "?pols = (ps1, res)" by fastforce
  have step1: "valid_failover (m_policies ps1) \<and> m_matchers ps1 = [] \<and> (\<forall>names. res = Some names \<longrightarrow> valid_names names ps1)"
    if "length (m_policies ps1) < 2 ^ 64"
    using p ps that parse_policies_valid [of external ps "[]" _ ps1 res]
    by (auto simp: valid_failover_def valid_names_def split: option.splits)
  show ?thesis
  proof (cases "ps' = ps")
    case False
    then have root: "as_object data = Some root" using root by simp
    show ?thesis
    proof (cases res)
      case None
      then have "ps' = ps1" using parse root p by (simp add: PolicySet_parse_def)
      then show ?thesis using step1 len by (simp add: PolicySet_valid_def valid_matchers_def)
    next
      case (Some names)
      consider "ps' = ps1" | ms where "parse_matchers ps1 names ms = (ps', ok)"
        using parse root p Some by (auto simp: PolicySet_parse_def split: option.splits)
      then show ?thesis
      proof cases
        case 1
        then show ?thesis using step1 len by (simp add: PolicySet_valid_def valid_matchers_def)
      next
        case (2 ms)
        have e: "m_policies ps' = m_policies ps1" by (rule parse_matchers_policies [OF 2])
        then have s1: "valid_failover (m_policies ps1)" "m_matchers ps1 = []" "valid_names names ps1"
          using step1 len Some by simp_all
        then show ?thesis
          using parse_matchers_valid [OF 2 s1(3)] e
          by (simp add: PolicySet_valid_def) (simp add: valid_matchers_def)
      qed
    qed
  qed (use empty in simp)
qed

lemma loadJsonFile_valid:
  assumes "loadJsonFile external json_parse content ps = (e, ps')" "length (m_policies ps') < 2 ^ 64"
  shows "PolicySet_valid ps'"
proof -
  let ?ps = "ps\<lparr>m_matchers := [], m_policies := [], m_defaultPolicy := Policy_default\<rparr>"
  consider "ps' = ?ps" | data ok where "PolicySet_parse external ?ps data = (ps', ok)"
    using assms(1) by (auto simp: loadJsonFile_def Let_def split: option.splits prod.splits)
  then show ?thesis
  proof cases
    case 1
    then show ?thesis by (simp add: PolicySet_valid_def valid_failover_def valid_matchers_def)
  next
    case 2
    then show ?thesis using PolicySet_parse_valid [OF 2 assms(2)] by simp
  qed
qed

subsection \<open>Failover\<close>

text \<open>The policies that are tried after one with this index of a failover policy.\<close>

fun policy_chain :: "nat \<Rightarrow> PolicySet \<Rightarrow> u64 \<Rightarrow> Policy list" where
  "policy_chain 0 ps nxt = (if nxt = POLICY_INDEX_DEFAULT then [m_defaultPolicy ps] else [])"
| "policy_chain (Suc n) ps nxt =
     (if nxt = POLICY_INDEX_NONE then []
      else if nxt = POLICY_INDEX_DEFAULT then [m_defaultPolicy ps]
      else fst (m_policies ps ! unat nxt) # policy_chain n ps (snd (m_policies ps ! unat nxt)))"

text \<open>What the call returns when it tries the policies of a list one after the other.\<close>

definition leaves_paths :: "Path list \<Rightarrow> Policy \<Rightarrow> bool" where
  "leaves_paths paths pol \<longleftrightarrow> (\<exists>p \<in> set paths. Policy_test pol p)"

definition first_result ::
    "(nat \<Rightarrow> nat \<Rightarrow> Path list \<Rightarrow> Path list) \<Rightarrow> Policy list \<Rightarrow> Path list \<Rightarrow> PathPtr list \<times> nat \<Rightarrow> bool" where
  "first_result shuffle pols paths res \<longleftrightarrow>
     length (fst res) = length paths \<and>
     (case find (leaves_paths paths) pols of
        None \<Rightarrow> res = (map Some paths, 0)
      | Some pol \<Rightarrow> snd res = length (filter (Policy_test pol) paths)
          \<and> (\<exists>k. take (snd res) (fst res)
                   = map Some (Policy_sort (shuffle k) pol (filter (Policy_test pol) paths))))"

lemma Policy_apply_first:
  assumes "\<And>k i xs. mset (shuffle k i xs) = mset xs"
  shows "\<exists>arr n. Policy_apply (shuffle k) pol (map Some paths) = Some (arr, n)
           \<and> (n = 0 \<longleftrightarrow> \<not> leaves_paths paths pol)
           \<and> (n = 0 \<longrightarrow> arr = map Some paths)
           \<and> (n \<noteq> 0 \<longrightarrow> (\<forall>pols. first_result shuffle (pol # pols) paths (arr, n)))"
proof -
  let ?f = "filter (Policy_test pol) paths"
  obtain arr where a: "Policy_apply (shuffle k) pol (map Some paths) = Some (arr, length ?f)"
      "length arr = length paths" "take (length ?f) arr = map Some (Policy_sort (shuffle k) pol ?f)"
      "?f = [] \<longrightarrow> arr = map Some paths"
    using Policy_apply_spec [of "shuffle k" pol paths] assms by auto
  have l: "length ?f = 0 \<longleftrightarrow> \<not> leaves_paths paths pol"
    by (auto simp: leaves_paths_def filter_empty_conv)
  show ?thesis
    using a l by (intro exI [of _ arr] exI [of _ "length ?f"]) (auto simp: first_result_def)
qed

lemma first_result_skip:
  "\<not> leaves_paths paths pol \<Longrightarrow> first_result shuffle (pol # pols) paths res \<longleftrightarrow> first_result shuffle pols paths res"
  by (simp add: first_result_def)

lemma failover_stop: "snd res \<noteq> 0 \<or> nxt = POLICY_INDEX_NONE \<Longrightarrow> failover shuffle ps k res nxt = Some res"
  by (subst failover.simps) auto

lemma failover_default:
  assumes shuffle: "\<And>k i xs. mset (shuffle k i xs) = mset xs"
  shows "\<exists>res. failover shuffle ps k (map Some paths, 0) POLICY_INDEX_DEFAULT = Some res
           \<and> first_result shuffle [m_defaultPolicy ps] paths res"
proof -
  obtain arr n where a: "Policy_apply (shuffle k) (m_defaultPolicy ps) (map Some paths) = Some (arr, n)"
      "n = 0 \<longleftrightarrow> \<not> leaves_paths paths (m_defaultPolicy ps)" "n = 0 \<longrightarrow> arr = map Some paths"
      "n \<noteq> 0 \<longrightarrow> (\<forall>pols. first_result shuffle (m_defaultPolicy ps # pols) paths (arr, n))"
    using Policy_apply_first [of shuffle k "m_defaultPolicy ps" paths, OF shuffle] by blast
  have "failover shuffle ps k (map Some paths, 0) POLICY_INDEX_DEFAULT = Some (arr, n)"
    using a(1) by (subst failover.simps) (simp add: POLICY_INDEX_NONE_def POLICY_INDEX_DEFAULT_def)
  moreover have "first_result shuffle [m_defaultPolicy ps] paths (arr, n)"
    using a by (cases "n = 0") (auto simp: first_result_def)
  ultimately show ?thesis by blast
qed

lemma failover_first:
  assumes shuffle: "\<And>k i xs. mset (shuffle k i xs) = mset xs" and ps: "valid_failover (m_policies ps)"
  shows "nxt = POLICY_INDEX_NONE \<or> nxt = POLICY_INDEX_DEFAULT \<or> unat nxt < n \<Longrightarrow> n \<le> length (m_policies ps) \<Longrightarrow>
    \<exists>res. failover shuffle ps k (map Some paths, 0) nxt = Some res
      \<and> first_result shuffle (policy_chain n ps nxt) paths res"
proof (induction n arbitrary: nxt k)
  case 0
  then show ?case
    using failover_default [of shuffle, OF shuffle]
    by (auto simp: failover_stop first_result_def POLICY_INDEX_NONE_def POLICY_INDEX_DEFAULT_def)
next
  case (Suc n)
  consider "nxt = POLICY_INDEX_NONE" | "nxt = POLICY_INDEX_DEFAULT"
    | "nxt \<noteq> POLICY_INDEX_NONE" "nxt \<noteq> POLICY_INDEX_DEFAULT" "unat nxt < Suc n"
    using Suc.prems(1) by blast
  then show ?case
  proof cases
    case 1
    then show ?thesis by (simp add: failover_stop first_result_def)
  next
    case 2
    then show ?thesis
      using failover_default [of shuffle, OF shuffle]
      by (simp add: POLICY_INDEX_NONE_def POLICY_INDEX_DEFAULT_def)
  next
    case 3
    let ?pol = "fst (m_policies ps ! unat nxt)" and ?nxt = "snd (m_policies ps ! unat nxt)"
    have i: "unat nxt < length (m_policies ps)" using 3(3) Suc.prems(2) by simp
    have nx: "?nxt = POLICY_INDEX_NONE \<or> ?nxt = POLICY_INDEX_DEFAULT \<or> unat ?nxt < n"
      using ps i 3(3) by (fastforce simp: valid_failover_def)
    obtain arr m where a: "Policy_apply (shuffle k) ?pol (map Some paths) = Some (arr, m)"
        "m = 0 \<longleftrightarrow> \<not> leaves_paths paths ?pol" "m = 0 \<longrightarrow> arr = map Some paths"
        "m \<noteq> 0 \<longrightarrow> (\<forall>pols. first_result shuffle (?pol # pols) paths (arr, m))"
      using Policy_apply_first [of shuffle k ?pol paths, OF shuffle] by blast
    have step: "failover shuffle ps k (map Some paths, 0) nxt = failover shuffle ps (k + 1) (arr, m) ?nxt"
      using 3 i a(1) by (subst failover.simps) simp
    have chain: "policy_chain (Suc n) ps nxt = ?pol # policy_chain n ps ?nxt" using 3 by simp
    show ?thesis
    proof (cases "m = 0")
      case True
      obtain res where "failover shuffle ps (k + 1) (map Some paths, 0) ?nxt = Some res"
          "first_result shuffle (policy_chain n ps ?nxt) paths res"
        using Suc.IH [OF nx, of "k + 1"] Suc.prems(2) by auto
      then show ?thesis
        unfolding step chain using True a(2,3) by (simp add: first_result_skip)
    next
      case False
      then show ?thesis unfolding step chain using a(4) by (simp add: failover_stop)
    qed
  qed
qed

lemma find_policy_cases:
  assumes "\<forall>m \<in> set ms. snd m = POLICY_INDEX_NONE \<or> unat (snd m) < length (m_policies ps)"
  shows "(\<exists>i < length (m_policies ps). find_policy ps ms src dst proto tc = m_policies ps ! i)
           \<or> find_policy ps ms src dst proto tc = (m_defaultPolicy ps, POLICY_INDEX_NONE)"
  using assms by (induction ms) auto

lemma PolicySet_apply_first:
  assumes shuffle: "\<And>k i xs. mset (shuffle k i xs) = mset xs"
    and ps: "PolicySet_valid ps"
    and sel: "getPolicyIndex ps src dst proto tc = (pol, nxt)"
  shows "\<exists>res. PolicySet_apply shuffle ps src dst proto tc (map Some paths) = Some res
           \<and> first_result shuffle (pol # policy_chain (length (m_policies ps)) ps nxt) paths res"
proof (cases "paths = []")
  case True
  then have "find (leaves_paths paths) pols = None" for pols
    by (induction pols) (simp_all add: leaves_paths_def)
  then show ?thesis using True by (simp add: PolicySet_apply_def first_result_def leaves_paths_def)
next
  case False
  have nxt: "nxt = POLICY_INDEX_NONE \<or> nxt = POLICY_INDEX_DEFAULT \<or> unat nxt < length (m_policies ps)"
    using find_policy_cases [of "m_matchers ps" ps src dst proto tc] sel ps
    by (fastforce simp: getPolicyIndex_def PolicySet_valid_def valid_matchers_def valid_failover_def)
  obtain arr n where a: "Policy_apply (shuffle 0) pol (map Some paths) = Some (arr, n)"
      "n = 0 \<longleftrightarrow> \<not> leaves_paths paths pol" "n = 0 \<longrightarrow> arr = map Some paths"
      "n \<noteq> 0 \<longrightarrow> (\<forall>pols. first_result shuffle (pol # pols) paths (arr, n))"
    using Policy_apply_first [of shuffle 0 pol paths, OF shuffle] by blast
  have step: "PolicySet_apply shuffle ps src dst proto tc (map Some paths) = failover shuffle ps 1 (arr, n) nxt"
    using False sel a(1) by (simp add: PolicySet_apply_def)
  show ?thesis
  proof (cases "n = 0")
    case True
    obtain res where "failover shuffle ps 1 (map Some paths, 0) nxt = Some res"
        "first_result shuffle (policy_chain (length (m_policies ps)) ps nxt) paths res"
      using failover_first [of shuffle ps nxt _ 1 paths, OF shuffle _ nxt] ps
      by (auto simp: PolicySet_valid_def)
    then show ?thesis unfolding step using True a(2,3) by (simp add: first_result_skip)
  next
    case False
    then show ?thesis unfolding step using a(4) by (simp add: failover_stop)
  qed
qed

section \<open>Properties of policy sets\<close>

text \<open>A document with two policies, the second of which allows no hop and fails over to the first.\<close>

definition example_policies :: json where
  "example_policies = JObject
     [(''matchers'', JArray [JObject [(''protocol'', JString ''udp''), (''policy'', JString ''p2'')],
                            JObject [(''traffic_class'', JInt 1)]]),
      (''policies'', JObject
         [(''p1'', JObject [(''acl'', JArray [JString ''+'']), (''ordering'', JArray [JString ''hops_asc''])]),
          (''p2'', JObject [(''extends'', JString ''p1''), (''acl'', JArray []), (''failover'', JString ''p1'')])])]"

definition example_set :: PolicySet where
  "example_set = snd (loadJsonFile (\<lambda>_. None) (\<lambda>_. Some example_policies) (Some []) PolicySet_default)"

definition any_hop :: HopPredicate where
  "any_hop = \<lparr>hp_isdAsn = 0, hp_ingress = 0, hp_egress = 0\<rparr>"

definition example_p1 :: Policy where
  "example_p1 = Policy_default\<lparr>m_acl := Some [(True, any_hop)], m_ordering := Some [HopsAsc]\<rparr>"

definition example_p2 :: Policy where
  "example_p2 = Policy_default\<lparr>m_acl := Some [], m_ordering := Some [HopsAsc]\<rparr>"

lemma example_load:
  "loadJsonFile (\<lambda>_. None) (\<lambda>_. Some example_policies) (Some []) PolicySet_default =
     (Ok, \<lparr>m_matchers = [(TrafficMatcher_default\<lparr>tm_proto := ScionProto_UDP\<rparr>, 1),
                         (TrafficMatcher_default\<lparr>tm_trafficClass := 1\<rparr>, POLICY_INDEX_NONE)],
           m_policies = [(example_p1, POLICY_INDEX_NONE), (example_p2, 0)],
           m_defaultPolicy = Policy_default\<rparr>)"
  by (simp add: loadJsonFile_def example_policies_def PolicySet_parse_def parse_policy_def lookup_policy_def
      Policy_make_def base_policy_def inherit_def HopPredicate_Parse_def ltrim_def TrafficMatcher_json_def
      example_p1_def example_p2_def any_hop_def Policy_default_def POLICY_INDEX_NONE_def POLICY_INDEX_DEFAULT_def
      PolicySet_default_def Let_def)

text \<open>C38: Loading a file leaves a policy set without dangling references, whatever the file holds and also
  when loading fails: the failover policy of every policy was defined before it, so failover chains end,
  and every matcher names a policy of the set or none.
\<close>

theorem policy_set_invariant:
  assumes "loadJsonFile external json_parse content ps = (e, ps')" and "length (m_policies ps') < 2 ^ 64"
  shows "PolicySet_valid ps'"
  using assms by (rule loadJsonFile_valid)

theorem policy_set_invariant_witness:
  "PolicySet_valid (snd (loadJsonFile (\<lambda>_. None) (\<lambda>_. Some example_policies) (Some []) PolicySet_default))"
  using policy_set_invariant [OF example_load] by (simp add: example_load)

text \<open>C37: A set of policies loaded from any file can be applied to any array of paths: the call returns,
  never follows a pointer that was moved away and leaves the paths of the first policy in the chain of
  the selected policy and its failover policies that allows one of them, sorted by the orderings of
  that policy, at the start of the array; the array is unchanged if there is none.
\<close>

theorem policy_set_apply:
  assumes "\<And>k i xs. mset (shuffle k i xs) = mset xs"
    and "loadJsonFile external json_parse content ps0 = (e, ps)" "length (m_policies ps) < 2 ^ 64"
    and "getPolicyIndex ps src dst proto tc = (pol, nxt)"
  shows "\<exists>res. PolicySet_apply shuffle ps src dst proto tc (map Some paths) = Some res
           \<and> first_result shuffle (pol # policy_chain (length (m_policies ps)) ps nxt) paths res"
  using PolicySet_apply_first [of shuffle, OF assms(1) loadJsonFile_valid [OF assms(2,3)] assms(4)] .

lemma example_select:
  "getPolicyIndex (snd (loadJsonFile (\<lambda>_. None) (\<lambda>_. Some example_policies) (Some []) PolicySet_default))
     src dst ScionProto_UDP 0 = (example_p2, 0)"
  by (simp add: example_load getPolicyIndex_def TrafficMatcher_match_def matchEp_def TrafficMatcher_default_def
      ScIPEndpoint_default_def Isd_isUnspecified_def IsdAsn_isd_def ScionProto_UDP_def)

definition one_hop_path :: Path where
  "one_hop_path =
     \<lparr>pth_source = 1, pth_destination = 1, pth_type = 1, pth_expires_by = 0, pth_mtu = 1400, pth_hopCount = 1,
      pth_nextHop = IPEndpoint_default, pth_path = [],
      pth_attrib = [(PATH_ATTRIBUTE_INTERFACES, AttrInterfaces [PathHop 1 2 3])], pth_broken = 0,
      pth_digest = (0, 0)\<rparr>"

theorem policy_set_apply_witness:
  "\<exists>res. PolicySet_apply (\<lambda>k i xs. rev xs) example_set ScIPEndpoint_default ScIPEndpoint_default ScionProto_UDP 0
           [Some one_hop_path] = Some res
     \<and> first_result (\<lambda>k i xs. rev xs) (example_p2 # policy_chain 2 example_set 0) [one_hop_path] res"
proof -
  have load: "loadJsonFile (\<lambda>_. None) (\<lambda>_. Some example_policies) (Some []) PolicySet_default = (Ok, example_set)"
    by (simp add: example_set_def example_load)
  have two: "length (m_policies example_set) = 2" by (simp add: example_set_def example_load)
  have "getPolicyIndex example_set ScIPEndpoint_default ScIPEndpoint_default ScionProto_UDP 0 = (example_p2, 0)"
    using example_select by (simp add: example_set_def)
  from policy_set_apply [where shuffle = "\<lambda>(k::nat) (i::nat) xs. rev xs", OF mset_rev load _ this, of "[one_hop_path]"]
  show ?thesis by (simp add: two del: policy_chain.simps)
qed

text \<open>The policy for a packet is the one of the first matcher in document order that matches the packet
  and names a policy; matchers without a policy are passed over, and the default policy without a
  failover policy is used when no matcher is left.
\<close>

theorem select_policy:
  assumes "PolicySet_valid ps"
  shows "(\<exists>i < length (m_matchers ps).
            TrafficMatcher_match (fst (m_matchers ps ! i)) src dst proto tc
            \<and> unat (snd (m_matchers ps ! i)) < length (m_policies ps)
            \<and> getPolicyIndex ps src dst proto tc = m_policies ps ! unat (snd (m_matchers ps ! i))
            \<and> (\<forall>j < i. TrafficMatcher_match (fst (m_matchers ps ! j)) src dst proto tc
                       \<longrightarrow> snd (m_matchers ps ! j) = POLICY_INDEX_NONE))
         \<or> getPolicyIndex ps src dst proto tc = (m_defaultPolicy ps, POLICY_INDEX_NONE)
           \<and> (\<forall>m \<in> set (m_matchers ps). TrafficMatcher_match (fst m) src dst proto tc
                       \<longrightarrow> snd m = POLICY_INDEX_NONE)"
proof -
  have "(\<exists>i < length ms. TrafficMatcher_match (fst (ms ! i)) src dst proto tc
            \<and> unat (snd (ms ! i)) < length (m_policies ps)
            \<and> find_policy ps ms src dst proto tc = m_policies ps ! unat (snd (ms ! i))
            \<and> (\<forall>j < i. TrafficMatcher_match (fst (ms ! j)) src dst proto tc \<longrightarrow> snd (ms ! j) = POLICY_INDEX_NONE))
         \<or> find_policy ps ms src dst proto tc = (m_defaultPolicy ps, POLICY_INDEX_NONE)
           \<and> (\<forall>m \<in> set ms. TrafficMatcher_match (fst m) src dst proto tc \<longrightarrow> snd m = POLICY_INDEX_NONE)"
    if "\<forall>m \<in> set ms. snd m = POLICY_INDEX_NONE \<or> unat (snd m) < length (m_policies ps)" for ms
    using that
  proof (induction ms)
    case (Cons m ms)
    obtain t i where m: "m = (t, i)" by (cases m)
    show ?case
    proof (cases "TrafficMatcher_match t src dst proto tc \<and> unat i < length (m_policies ps)")
      case True
      then show ?thesis by (auto simp: m intro!: exI [of _ 0])
    next
      case False
      then have n: "TrafficMatcher_match t src dst proto tc \<longrightarrow> i = POLICY_INDEX_NONE"
        using Cons.prems m by auto
      have f: "find_policy ps (m # ms) src dst proto tc = find_policy ps ms src dst proto tc"
        using False m by auto
      show ?thesis
        unfolding f using Cons n m by (auto simp: Ex_less_Suc2 All_less_Suc2)
    qed
  qed simp
  then show ?thesis using assms by (simp add: PolicySet_valid_def valid_matchers_def getPolicyIndex_def)
qed

theorem select_policy_witness:
  "PolicySet_valid example_set \<and> getPolicyIndex example_set ScIPEndpoint_default ScIPEndpoint_default
     ScionProto_TCP 1 = (Policy_default, POLICY_INDEX_NONE)"
proof
  show v: "PolicySet_valid example_set"
    using loadJsonFile_valid [OF example_load] by (simp add: example_set_def example_load)
  show "getPolicyIndex example_set ScIPEndpoint_default ScIPEndpoint_default ScionProto_TCP 1
          = (Policy_default, POLICY_INDEX_NONE)"
  proof -
    let ?A = "TrafficMatcher_default\<lparr>tm_proto := ScionProto_UDP\<rparr>"
    let ?B = "TrafficMatcher_default\<lparr>tm_trafficClass := 1\<rparr>"
    have ms: "m_matchers example_set = [(?A, 1), (?B, POLICY_INDEX_NONE)]"
      and len: "length (m_policies example_set) = 2" and d: "m_defaultPolicy example_set = Policy_default"
      by (simp_all add: example_set_def example_load)
    have n: "unat POLICY_INDEX_NONE = 18446744073709551615" by (simp add: POLICY_INDEX_NONE_def unsigned_minus_1_eq_mask mask_eq_exp_minus_1)
    have no: "\<not> TrafficMatcher_match ?A ScIPEndpoint_default ScIPEndpoint_default ScionProto_TCP 1"
      by (simp add: TrafficMatcher_match_def TrafficMatcher_default_def ScionProto_TCP_def ScionProto_UDP_def)
    have "\<not> (\<exists>i < length (m_matchers example_set).
        TrafficMatcher_match (fst (m_matchers example_set ! i)) ScIPEndpoint_default ScIPEndpoint_default ScionProto_TCP 1
        \<and> unat (snd (m_matchers example_set ! i)) < length (m_policies example_set))"
      unfolding ms len by (simp add: Ex_less_Suc2 no n)
    then show ?thesis
      using select_policy [OF v, of ScIPEndpoint_default ScIPEndpoint_default ScionProto_TCP 1] d by auto
  qed
qed

theorem policy_sort_key_witness:
  "Policy_sort (\<lambda>_ xs. xs) example_p1 [one_hop_path, one_hop_path\<lparr>pth_hopCount := 0\<rparr>]
     = [one_hop_path\<lparr>pth_hopCount := 0\<rparr>, one_hop_path]"
proof -
  have "m_ordering example_p1 = Some [HopsAsc]" by (simp add: example_p1_def)
  from policy_sort_key [OF this, of "\<lambda>_ xs. xs" "[one_hop_path, one_hop_path\<lparr>pth_hopCount := 0\<rparr>]"]
  show ?thesis by (simp add: one_hop_path_def)
qed

theorem policy_test_iff_witness: "Policy_test example_p1 one_hop_path \<and> \<not> Policy_test example_p2 one_hop_path"
  by (simp add: policy_test_iff example_p1_def example_p2_def one_hop_path_def Path_empty_def PathType_Empty_def
      Path_interfaces_def Path_getAttribute_def matchSequence_def Policy_default_def any_hop_def
      HopPredicate_match_def Isd_isUnspecified_def Asn_isUnspecified_def IsdAsn_isd_def IsdAsn_asn_def)

end
