(* ===== verification/PolicySequence.thy ===== *)
theory PolicySequence
  imports PolicyProperties
begin

text \<open>
  What the regular expression of a hop sequence means. A hop expression combines hop predicates with
  sequence, alternative and repetition; it describes lists of hops. Its rendering as a regular
  expression over the text of the hops matches the text of a path exactly when the expression describes
  the hops of the path: the pieces of text a predicate can match other than one whole hop are dead ends.
\<close>

section \<open>Reading text with patterns that do not look at their context\<close>

primrec reads :: "regex \<Rightarrow> string \<Rightarrow> string \<Rightarrow> bool" where
  "reads REps = (\<lambda>s t. t = s)"
| "reads (RSet neg items) = (\<lambda>s t. \<exists>x. s = x # t \<and> in_class neg items x)"
| "reads (RSeq r s) = reads r OO reads s"
| "reads (RAlt r s) = (\<lambda>u t. reads r u t \<or> reads s u t)"
| "reads (RStar greedy r) = (reads r)\<^sup>*\<^sup>*"
| "reads RBol = (\<lambda>s t. False)"
| "reads REol = (\<lambda>s t. False)"
| "reads (RWord neg) = (\<lambda>s t. False)"
| "reads (RLook neg r) = (\<lambda>s t. False)"

primrec context_free :: "regex \<Rightarrow> bool" where
  "context_free REps = True"
| "context_free (RSet neg items) = True"
| "context_free (RSeq r s) = (context_free r \<and> context_free s)"
| "context_free (RAlt r s) = (context_free r \<and> context_free s)"
| "context_free (RStar greedy r) = context_free r"
| "context_free RBol = False"
| "context_free REol = False"
| "context_free (RWord neg) = False"
| "context_free (RLook neg r) = False"

lemma ends_reads: "context_free r \<Longrightarrow> ends r c d \<Longrightarrow> reads r (snd c) (snd d)"
proof (induction r arbitrary: c d)
  case (RStar g r)
  have "(ends r)\<^sup>*\<^sup>* c d" using RStar.prems by simp
  then have "(reads r)\<^sup>*\<^sup>* (snd c) (snd d)"
  proof (induction rule: rtranclp_induct)
    case (step d e)
    then show ?case using RStar.IH [of d e] RStar.prems(1) by (simp add: rtranclp.rtrancl_into_rtrancl)
  qed simp
  then show ?case by simp
next
  case (RSeq r1 r2)
  then obtain e where "ends r1 c e" "ends r2 e d" by (auto simp: relcompp_apply)
  then have "reads r1 (snd c) (snd e)" "reads r2 (snd e) (snd d)" using RSeq by simp_all
  then show ?case by (auto simp: relcompp_apply)
qed auto

lemma reads_ends: "context_free r \<Longrightarrow> reads r s t \<Longrightarrow> \<exists>q. ends r (p, s) (q, t)"
proof (induction r arbitrary: p s t)
  case (RSeq r1 r2)
  then obtain u where "reads r1 s u" "reads r2 u t" by (auto simp: relcompp_apply)
  moreover then obtain q where "ends r1 (p, s) (q, u)" using RSeq by fastforce
  ultimately show ?case using RSeq.IH(2) [of u t q] RSeq.prems(1) by (auto simp: relcompp_apply)
next
  case (RStar g r)
  have "(reads r)\<^sup>*\<^sup>* s t" using RStar.prems by simp
  then have "\<exists>q. (ends r)\<^sup>*\<^sup>* (p, s) (q, t)"
  proof (induction rule: rtranclp_induct)
    case (step u t)
    then obtain q where q: "(ends r)\<^sup>*\<^sup>* (p, s) (q, u)" by blast
    obtain q' where "ends r (q, u) (q', t)" using RStar.IH [of u t q] RStar.prems(1) step(2) by auto
    then show ?case using q by (blast intro: rtranclp.rtrancl_into_rtrancl)
  qed auto
  then show ?case by simp
next
  case (RAlt r1 r2)
  then show ?case by (metis context_free.simps(4) ends.simps(4) reads.simps(4))
qed auto

lemma ends_iff_reads: "context_free r \<Longrightarrow> (\<exists>q. ends r (p, s) (q, t)) \<longleftrightarrow> reads r s t"
  using ends_reads [of r "(p, s)"] reads_ends [of r s t p] by fastforce

lemma regex_match_reads: "context_free r \<Longrightarrow> regex_match r s \<longleftrightarrow> reads r s []"
  by (simp add: regex_match_ends ends_iff_reads)

text \<open>Reading literals and runs of characters.\<close>

definition re_text :: "string \<Rightarrow> regex list" where "re_text w = map re_char w"

lemma char_int_inj: "char_int c = char_int d \<longleftrightarrow> c = d"
proof
  assume "char_int c = char_int d"
  moreover have "(of_char c :: int) < 256" "(of_char d :: int) < 256" "(of_char c :: int) \<ge> 0" "(of_char d :: int) \<ge> 0"
    by (simp_all add: of_char_def)
  ultimately have "(of_char c :: int) = of_char d" by (auto simp: char_int_def Let_def split: if_splits)
  then show "c = d" by simp
qed simp

lemma reads_char [simp]: "reads (re_char c) s t \<longleftrightarrow> s = c # t"
  by (auto simp: re_char_def char_set_def in_class_def in_item_def char_int_inj simp flip: order_eq_iff)

lemma reads_seq_Nil [simp]: "reads (re_seq []) s t \<longleftrightarrow> t = s"
  by (simp add: re_seq_def)

lemma reads_seq_Cons: "reads (re_seq (r # rs)) s t \<longleftrightarrow> (\<exists>u. reads r s u \<and> reads (re_seq rs) u t)"
  by (simp add: re_seq_def relcompp_apply)

lemma reads_seq_append: "reads (re_seq (rs @ qs)) s t \<longleftrightarrow> (\<exists>u. reads (re_seq rs) s u \<and> reads (re_seq qs) u t)"
  by (induction rs arbitrary: s) (auto simp: reads_seq_Cons)

lemma reads_text: "reads (re_seq (re_text w)) s t \<longleftrightarrow> s = w @ t"
  by (induction w arbitrary: s) (auto simp: re_text_def reads_seq_Cons)

definition re_plus :: "regex \<Rightarrow> regex" where "re_plus r = RSeq r (RStar True r)"

lemma reads_star_set:
  "reads (RStar g (RSet neg items)) s t \<longleftrightarrow> (\<exists>w. s = w @ t \<and> (\<forall>c \<in> set w. in_class neg items c))"
proof
  assume "reads (RStar g (RSet neg items)) s t"
  then have "(reads (RSet neg items))\<^sup>*\<^sup>* s t" by simp
  then show "\<exists>w. s = w @ t \<and> (\<forall>c \<in> set w. in_class neg items c)"
  proof (induction rule: converse_rtranclp_induct)
    case (step s u)
    then obtain x w where "s = x # u" "in_class neg items x" "u = w @ t" "\<forall>c \<in> set w. in_class neg items c" by auto
    then show ?case by (intro exI [of _ "x # w"]) simp
  qed simp
next
  assume "\<exists>w. s = w @ t \<and> (\<forall>c \<in> set w. in_class neg items c)"
  then obtain w where "s = w @ t" "\<forall>c \<in> set w. in_class neg items c" by blast
  then have "(reads (RSet neg items))\<^sup>*\<^sup>* s t"
  proof (induction w arbitrary: s)
    case (Cons x w)
    then have "reads (RSet neg items) s (w @ t)" "(reads (RSet neg items))\<^sup>*\<^sup>* (w @ t) t" by auto
    then show ?case by (rule converse_rtranclp_into_rtranclp)
  qed simp
  then show "reads (RStar g (RSet neg items)) s t" by simp
qed

lemma reads_plus_set:
  "reads (re_plus (RSet neg items)) s t \<longleftrightarrow> (\<exists>w. w \<noteq> [] \<and> s = w @ t \<and> (\<forall>c \<in> set w. in_class neg items c))"
proof -
  have "reads (re_plus (RSet neg items)) s t \<longleftrightarrow>
      (\<exists>x w. s = x # w @ t \<and> in_class neg items x \<and> (\<forall>c \<in> set w. in_class neg items c))"
    unfolding re_plus_def by (auto simp del: reads.simps(5) simp: relcompp_apply reads_star_set)
  also have "\<dots> \<longleftrightarrow> (\<exists>w. w \<noteq> [] \<and> s = w @ t \<and> (\<forall>c \<in> set w. in_class neg items c))"
  proof
    assume "\<exists>x w. s = x # w @ t \<and> in_class neg items x \<and> (\<forall>c \<in> set w. in_class neg items c)"
    then obtain x w where "s = x # w @ t" "in_class neg items x" "\<forall>c \<in> set w. in_class neg items c" by blast
    then show "\<exists>w. w \<noteq> [] \<and> s = w @ t \<and> (\<forall>c \<in> set w. in_class neg items c)"
      by (intro exI [of _ "x # w"]) simp
  next
    assume "\<exists>w. w \<noteq> [] \<and> s = w @ t \<and> (\<forall>c \<in> set w. in_class neg items c)"
    then obtain x w where "s = (x # w) @ t" "\<forall>c \<in> set (x # w). in_class neg items c" by (metis neq_Nil_conv)
    then show "\<exists>x w. s = x # w @ t \<and> in_class neg items x \<and> (\<forall>c \<in> set w. in_class neg items c)"
      by (intro exI [of _ x] exI [of _ w]) simp
  qed
  finally show ?thesis .
qed

section \<open>Hop predicates\<close>

definition re_as :: regex where
  "re_as = RSet False [(False, [(48, 57)]), (False, [(97, 102)]), (False, [(58, 58)])]"

definition re_space :: regex where "re_space = RSet False [(False, space_ranges)]"

text \<open>The syntax tree of the expression a predicate is replaced by.\<close>

definition hop_regex :: "HopPredicate \<Rightarrow> regex" where
  "hop_regex hp =
     (let ia = hp_isdAsn hp; i = format_dec (unat (hp_ingress hp)); e = format_dec (unat (hp_egress hp)) in
      if IsdAsn_isd ia = 0 then
        re_seq [re_digits, re_char CHR ''-'', re_plus re_as, re_char CHR ''#'', re_digits, re_char CHR '','',
                re_digits, re_opt re_space]
      else if IsdAsn_asn ia = 0 then
        re_seq (re_text (Isd_format (IsdAsn_isd ia)) @ [re_char CHR ''-'', re_plus re_as, re_char CHR ''#'',
                re_digits, re_char CHR '','', re_digits, re_opt re_space])
      else if hp_ingress hp = 0 then
        re_seq (re_text (IsdAsn_format ia @ ''#'') @ [re_digits, re_char CHR '','', re_digits, re_opt re_space])
      else if hp_egress hp = 0 then
        re_seq (re_text (IsdAsn_format ia @ ''#'')
                @ [RAlt (re_seq (re_text (i @ '','') @ [re_digits])) (re_seq (re_digits # re_text ('','' @ i))),
                   re_opt re_space])
      else re_seq (re_text (IsdAsn_format ia @ ''#'' @ i @ '','' @ e) @ [re_opt re_space]))"

lemma hop_regex_cases:
  "IsdAsn_isd (hp_isdAsn hp) = 0 \<Longrightarrow>
     hop_regex hp = re_seq [re_digits, re_char CHR ''-'', re_plus re_as, re_char CHR ''#'', re_digits,
                            re_char CHR '','', re_digits, re_opt re_space]"
  "IsdAsn_isd (hp_isdAsn hp) \<noteq> 0 \<Longrightarrow> IsdAsn_asn (hp_isdAsn hp) = 0 \<Longrightarrow>
     hop_regex hp = re_seq (re_text (Isd_format (IsdAsn_isd (hp_isdAsn hp)))
                      @ [re_char CHR ''-'', re_plus re_as, re_char CHR ''#'', re_digits, re_char CHR '','',
                         re_digits, re_opt re_space])"
  "IsdAsn_isd (hp_isdAsn hp) \<noteq> 0 \<Longrightarrow> IsdAsn_asn (hp_isdAsn hp) \<noteq> 0 \<Longrightarrow> hp_ingress hp = 0 \<Longrightarrow>
     hop_regex hp = re_seq (re_text (IsdAsn_format (hp_isdAsn hp) @ ''#'')
                      @ [re_digits, re_char CHR '','', re_digits, re_opt re_space])"
  "IsdAsn_isd (hp_isdAsn hp) \<noteq> 0 \<Longrightarrow> IsdAsn_asn (hp_isdAsn hp) \<noteq> 0 \<Longrightarrow> hp_ingress hp \<noteq> 0 \<Longrightarrow> hp_egress hp = 0 \<Longrightarrow>
     hop_regex hp = re_seq (re_text (IsdAsn_format (hp_isdAsn hp) @ ''#'')
                      @ [RAlt (re_seq (re_text (format_dec (unat (hp_ingress hp)) @ '','') @ [re_digits]))
                              (re_seq (re_digits # re_text ('','' @ format_dec (unat (hp_ingress hp))))),
                         re_opt re_space])"
  "IsdAsn_isd (hp_isdAsn hp) \<noteq> 0 \<Longrightarrow> IsdAsn_asn (hp_isdAsn hp) \<noteq> 0 \<Longrightarrow> hp_ingress hp \<noteq> 0 \<Longrightarrow> hp_egress hp \<noteq> 0 \<Longrightarrow>
     hop_regex hp = re_seq (re_text (IsdAsn_format (hp_isdAsn hp) @ ''#'' @ format_dec (unat (hp_ingress hp)) @ '',''
                                       @ format_dec (unat (hp_egress hp)))
                      @ [re_opt re_space])"
  by (simp_all add: hop_regex_def Let_def)

text \<open>
  The hops a predicate in a sequence stands for. An ISD of zero and an ASN of zero make what follows
  irrelevant, unlike in \<open>HopPredicate::match\<close>.
\<close>

definition sequence_matches :: "HopPredicate \<Rightarrow> PathHop \<Rightarrow> bool" where
  "sequence_matches hp h \<longleftrightarrow>
     IsdAsn_isd (hp_isdAsn hp) = 0
     \<or> IsdAsn_isd (hp_isdAsn hp) = IsdAsn_isd (ph_isdAsn h)
       \<and> (IsdAsn_asn (hp_isdAsn hp) = 0
          \<or> IsdAsn_asn (hp_isdAsn hp) = IsdAsn_asn (ph_isdAsn h)
            \<and> (hp_ingress hp = 0
               \<or> (if hp_egress hp = 0 then ph_ingress h = hp_ingress hp \<or> ph_egress h = hp_ingress hp
                  else ph_ingress h = hp_ingress hp \<and> ph_egress h = hp_egress hp)))"

subsection \<open>Characters\<close>

abbreviation all_digits :: "string \<Rightarrow> bool" where
  "all_digits w \<equiv> \<forall>c \<in> set w. is_digit 10 c"

lemma char_int_cases: "char_int c = (if of_char c < (128::nat) then int (of_char c) else int (of_char c) - 256)"
proof -
  have "(of_char c :: int) = int (of_char c)" by (simp add: of_nat_of_char)
  then show ?thesis unfolding char_int_def Let_def by simp
qed

lemma of_char_less: "of_char c \<le> (255 :: nat)"
proof -
  have "of_char c mod 256 < (256 :: nat)" by (rule mod_less_divisor) simp
  then show ?thesis unfolding of_char_mod_256 by linarith
qed

lemma in_digit_class: "in_class False [(False, digit_ranges)] c \<longleftrightarrow> is_digit 10 c"
  using of_char_less [of c]
  by (auto simp: in_class_def in_item_def digit_ranges_def is_digit_def digit_value_def Let_def char_int_cases
      dest: order_trans)

lemma reads_digits: "reads re_digits s t \<longleftrightarrow> (\<exists>w. w \<noteq> [] \<and> s = w @ t \<and> all_digits w)"
  using reads_plus_set [of False "[(False, digit_ranges)]" s t]
  by (simp add: re_digits_def re_plus_def re_digit_def in_digit_class)

definition as_char :: "char \<Rightarrow> bool" where
  "as_char c \<longleftrightarrow> in_class False [(False, [(48, 57)]), (False, [(97, 102)]), (False, [(58, 58)])] c"

lemma reads_as: "reads (re_plus re_as) s t \<longleftrightarrow> (\<exists>w. w \<noteq> [] \<and> s = w @ t \<and> (\<forall>c \<in> set w. as_char c))"
  by (simp add: re_as_def reads_plus_set as_char_def)

lemma as_char_digit: "d < 16 \<Longrightarrow> as_char (digit_char False d)"
  by (simp add: as_char_def in_class_def in_item_def char_int_cases digit_char_def)

lemma as_char_Asn_format: "c \<in> set (Asn_format asn) \<Longrightarrow> as_char c"
proof -
  have f: "as_char d" if "d \<in> set (format_uint base False n)" "2 \<le> base" "base \<le> 16" for d base n
    using that to_digits_less [of base] by (fastforce simp: format_uint_def intro!: as_char_digit)
  have colon: "as_char CHR '':''" by (simp add: as_char_def in_class_def in_item_def char_int_cases)
  show "c \<in> set (Asn_format asn) \<Longrightarrow> as_char c"
    by (auto simp: Asn_format_def format_dec_def format_hex_def colon split: if_splits dest: f)
qed

lemma Asn_format_nonempty: "Asn_format asn \<noteq> []"
  by (simp add: Asn_format_def)

lemma reads_opt: "reads (re_opt r) s t \<longleftrightarrow> reads r s t \<or> t = s"
  by (simp add: re_opt_def relcompp_apply)

lemma reads_space: "reads re_space s t \<longleftrightarrow> (\<exists>c. s = c # t \<and> is_space c)"
  by (auto simp: re_space_def is_space_def in_class_def)

lemma digit_not_space: "is_digit 10 c \<Longrightarrow> \<not> is_space c"
  by (auto simp: is_digit_def is_space_def in_item_def space_ranges_def digit_value_def Let_def char_int_cases
      split: if_splits)

lemma is_space_blank: "is_space CHR '' ''"
  by (simp add: is_space_def in_item_def space_ranges_def char_int_cases)

lemma not_digit_more [simp]: "\<not> is_digit 10 CHR '' ''" "\<not> is_digit 10 CHR ''#''"
  by (simp_all add: is_digit_def digit_value_def)

lemma not_as_char [simp]: "\<not> as_char CHR ''#''" "\<not> as_char CHR ''-''"
  by (simp_all add: as_char_def in_class_def in_item_def char_int_cases)

text \<open>A run of characters ends at the first other one.\<close>

lemma run_unique:
  "a @ x # u = b @ y # v \<Longrightarrow> \<forall>c \<in> set a. P c \<Longrightarrow> \<forall>c \<in> set b. P c \<Longrightarrow> \<not> P x \<Longrightarrow> \<not> P y
     \<Longrightarrow> a = b \<and> x = y \<and> u = v"
proof (induction a arbitrary: b)
  case Nil
  then show ?case by (cases b) auto
next
  case (Cons c a)
  then show ?case by (cases b) auto
qed

lemma run_prefix:
  "a @ u = b @ v \<Longrightarrow> \<forall>c \<in> set a. P c \<Longrightarrow> v = [] \<or> \<not> P (hd v) \<Longrightarrow> \<exists>w. b = a @ w \<and> u = w @ v"
proof (induction a arbitrary: b)
  case (Cons c a)
  then show ?case by (cases b) auto
qed simp

lemma all_digits_dec: "all_digits (format_dec n)"
  using format_dec_digits by blast

lemma format_dec_inj: "format_dec m = format_dec n \<longleftrightarrow> m = n"
proof
  assume "format_dec m = format_dec n"
  then have "(Ok, m, []) = (Ok, n, [] :: string)"
    by (metis from_chars_dec max.cobounded1 max.cobounded2)
  then show "m = n" by simp
qed simp

lemma dec_unat_inj: "format_dec (unat (a :: u64)) = format_dec (unat b) \<longleftrightarrow> a = b"
  by (simp add: format_dec_inj word_unat_eq_iff del: of_nat_unat)

lemma IsdAsn_format_inj: "IsdAsn_format a = IsdAsn_format b \<longleftrightarrow> a = b"
  by (metis IsdAsn_Parse_format sum.inject(2))

lemma IsdAsn_parts_eq: "a = b \<longleftrightarrow> IsdAsn_isd a = IsdAsn_isd b \<and> IsdAsn_asn a = IsdAsn_asn b"
  by (metis IsdAsn_make_parts)

lemma hash_not_in_IsdAsn: "CHR ''#'' \<notin> set (IsdAsn_format ia)"
  using as_char_Asn_format [of "CHR ''#''" "IsdAsn_asn ia"] all_digits_dec
  by (force simp: IsdAsn_format_def Isd_format_def)

subsection \<open>A predicate reads one hop\<close>

text \<open>The text of the hops still to be read, and the positions inside a hop no predicate starts at.\<close>

fun tail_text :: "PathHop list \<Rightarrow> string" where
  "tail_text [] = []"
| "tail_text (h # hs) = CHR '' '' # interfacesToSeqExpr (h # hs)"

definition dead_end :: "string \<Rightarrow> bool" where
  "dead_end s \<longleftrightarrow> s \<noteq> [] \<and> (\<exists>ds r. s = ds @ r \<and> all_digits ds \<and> (r = [] \<or> hd r = CHR '' ''))"

lemma seq_text_Nil [simp]: "interfacesToSeqExpr [] = []"
  by (simp add: interfacesToSeqExpr_def)

lemma seq_text_Cons: "interfacesToSeqExpr (h # hs) = hop_text h @ tail_text hs"
  by (cases hs) (simp_all add: interfacesToSeqExpr_def)

lemma seq_text_nonempty: "interfacesToSeqExpr hs = [] \<longleftrightarrow> hs = []"
  by (cases hs) (auto simp: seq_text_Cons hop_text_def)

lemma not_dead_end_Nil [simp]: "\<not> dead_end []"
  by (simp add: dead_end_def)

lemma tail_text_hd: "tail_text hs = [] \<or> hd (tail_text hs) = CHR '' ''"
  by (cases hs) auto

text \<open>The end of a hop: its egress interface, read by digits or by a number, and an optional space.\<close>

lemma read_end:
  assumes "format_dec n @ tail_text ks = w @ u" "all_digits w" "w \<noteq> []"
    and "reads (re_opt re_space) u t"
  shows "w = format_dec n \<and> t = interfacesToSeqExpr ks \<or> dead_end t"
proof -
  obtain v where v: "format_dec n = w @ v" "u = v @ tail_text ks"
    using run_prefix [of w u "format_dec n" "tail_text ks" "is_digit 10"] assms(1,2) tail_text_hd [of ks] by auto
  have digits: "all_digits v" using all_digits_dec [of n] v(1) by simp
  show ?thesis
  proof (cases "v = []")
    case False
    then obtain c v' where c: "v = c # v'" "is_digit 10 c" using digits by (cases v) auto
    then have "t = u" using assms(4) v(2) digit_not_space [OF c(2)] by (auto simp: reads_opt reads_space)
    then have "dead_end t" using v(2) digits False tail_text_hd [of ks] by (auto simp: dead_end_def)
    then show ?thesis ..
  next
    case True
    then have w: "w = format_dec n" "u = tail_text ks" using v by simp_all
    show ?thesis
    proof (cases ks)
      case Nil
      then show ?thesis using w assms(4) by (auto simp: reads_opt reads_space)
    next
      case (Cons k ks')
      then have "t = interfacesToSeqExpr ks \<or> t = CHR '' '' # interfacesToSeqExpr ks"
        using w assms(4) by (auto simp: reads_opt reads_space)
      moreover have "dead_end (CHR '' '' # interfacesToSeqExpr ks)"
        unfolding dead_end_def by (rule conjI, simp, rule exI [of _ "[]"], simp)
      ultimately show ?thesis using w by auto
    qed
  qed
qed

lemma read_end_complete: "reads (re_opt re_space) (tail_text ks) (interfacesToSeqExpr ks)"
  by (cases ks) (auto simp: reads_opt reads_space is_space_blank)

text \<open>The parts of the text of a hop.\<close>

lemma seq_text_parts:
  "interfacesToSeqExpr (h # ks) =
     format_dec (unat (IsdAsn_isd (ph_isdAsn h))) @ CHR ''-'' # Asn_format (IsdAsn_asn (ph_isdAsn h))
     @ CHR ''#'' # format_dec (unat (ph_ingress h)) @ CHR '','' # format_dec (unat (ph_egress h)) @ tail_text ks"
  by (simp add: seq_text_Cons hop_text_def IsdAsn_format_def Isd_format_def)

lemma seq_text_as:
  "interfacesToSeqExpr (h # ks) =
     IsdAsn_format (ph_isdAsn h) @ CHR ''#'' # format_dec (unat (ph_ingress h)) @ CHR '',''
     # format_dec (unat (ph_egress h)) @ tail_text ks"
  by (simp add: seq_text_Cons hop_text_def)

lemma isd_part:
  assumes "w @ CHR ''-'' # u = format_dec n @ CHR ''-'' # v" "all_digits w"
  shows "w = format_dec n \<and> u = v"
  using run_unique [OF assms(1), of "is_digit 10"] assms(2) all_digits_dec [of n] by simp

lemma as_part:
  assumes "w @ CHR ''#'' # u = Asn_format a @ CHR ''#'' # v" "\<forall>c \<in> set w. as_char c"
  shows "w = Asn_format a \<and> u = v"
  using run_unique [OF assms(1), of as_char] assms(2) as_char_Asn_format [of _ a] by simp

lemma number_part:
  assumes "w @ CHR '','' # u = format_dec n @ CHR '','' # v" "all_digits w"
  shows "w = format_dec n \<and> u = v"
  using run_unique [OF assms(1), of "is_digit 10"] assms(2) all_digits_dec [of n] by simp

lemma isd_as_part:
  assumes "IsdAsn_format a @ CHR ''#'' # u = IsdAsn_format b @ CHR ''#'' # v"
  shows "a = b \<and> u = v"
  using run_unique [OF assms, of "\<lambda>c. c \<noteq> CHR ''#''"] hash_not_in_IsdAsn by (auto simp: IsdAsn_format_inj)

lemma reads_hash_text: "reads (re_seq (re_text w @ rs)) s t \<longleftrightarrow> (\<exists>u. s = w @ u \<and> reads (re_seq rs) u t)"
  by (simp add: reads_seq_append reads_text)

lemma reads_char_seq: "reads (re_seq (re_char c # rs)) s t \<longleftrightarrow> (\<exists>u. s = c # u \<and> reads (re_seq rs) u t)"
  by (auto simp: reads_seq_Cons)

lemma reads_one_seq: "reads (re_seq [r]) s t \<longleftrightarrow> reads r s t"
  by (simp add: reads_seq_Cons)

lemma reads_digits_seq:
  "reads (re_seq (re_digits # re_char c # rs)) s t \<longleftrightarrow>
     (\<exists>w u. s = w @ c # u \<and> w \<noteq> [] \<and> all_digits w \<and> reads (re_seq rs) u t)"
  unfolding reads_seq_Cons [of re_digits] reads_char_seq reads_digits by blast

lemma reads_as_seq:
  "reads (re_seq (re_plus re_as # re_char c # rs)) s t \<longleftrightarrow>
     (\<exists>w u. s = w @ c # u \<and> w \<noteq> [] \<and> (\<forall>x \<in> set w. as_char x) \<and> reads (re_seq rs) u t)"
  unfolding reads_seq_Cons [of "re_plus re_as"] reads_char_seq reads_as by blast

text \<open>Reading the interfaces, by digits or by numbers.\<close>

lemma read_any_ifs:
  assumes "reads (re_seq [re_digits, re_char CHR '','', re_digits, re_opt re_space])
             (format_dec i @ CHR '','' # format_dec e @ tail_text ks) t"
  shows "t = interfacesToSeqExpr ks \<or> dead_end t"
proof -
  obtain w u where w: "format_dec i @ CHR '','' # format_dec e @ tail_text ks = w @ CHR '','' # u" "all_digits w"
      "reads (re_seq [re_digits, re_opt re_space]) u t"
    using assms unfolding reads_digits_seq by blast
  have u: "u = format_dec e @ tail_text ks"
    using number_part [OF w(1) [symmetric] w(2)] by simp
  then obtain v r where "format_dec e @ tail_text ks = v @ r" "all_digits v" "v \<noteq> []" "reads (re_opt re_space) r t"
    using w(3) unfolding reads_seq_Cons [of re_digits] reads_one_seq reads_digits by blast
  then show ?thesis using read_end by blast
qed

lemma read_any_ifs_complete:
  "reads (re_seq [re_digits, re_char CHR '','', re_digits, re_opt re_space])
     (format_dec i @ CHR '','' # format_dec e @ tail_text ks) (interfacesToSeqExpr ks)"
proof -
  have d: "reads re_digits (format_dec n @ u) u" for n u
    unfolding reads_digits by (intro exI [of _ "format_dec n"]) (simp add: all_digits_dec)
  show ?thesis
    using d [of i] d [of e] read_end_complete [of ks] by (fastforce simp: reads_seq_Cons)
qed

lemma read_hop_sound:
  assumes "reads (hop_regex hp) (interfacesToSeqExpr hs) t"
  shows "dead_end t \<or> (\<exists>h ks. hs = h # ks \<and> sequence_matches hp h \<and> t = interfacesToSeqExpr ks)"
proof -
  let ?ia = "hp_isdAsn hp"
  let ?ifs = "[re_digits, re_char CHR '','', re_digits, re_opt re_space]"
  let ?rest = "re_plus re_as # re_char CHR ''#'' # ?ifs"
  let ?i = "format_dec (unat (hp_ingress hp))" and ?e = "format_dec (unat (hp_egress hp))"
  have "hs \<noteq> []"
  proof
    assume "hs = []"
    moreover have "Isd_format isd \<noteq> []" "IsdAsn_format ia \<noteq> []" for isd ia
      by (simp_all add: Isd_format_def IsdAsn_format_def)
    then have "\<not> reads (hop_regex hp) [] t"
      by (auto simp: hop_regex_def Let_def reads_digits_seq reads_hash_text split: if_splits)
    ultimately show False using assms by simp
  qed
  then obtain h ks where hs: "hs = h # ks" by (cases hs) auto
  let ?h = "ph_isdAsn h"
  have rest: "t = interfacesToSeqExpr ks \<or> dead_end t"
    if r: "reads (re_seq ?rest) (Asn_format (IsdAsn_asn ?h) @ CHR ''#'' # format_dec (unat (ph_ingress h)) @ CHR '',''
          # format_dec (unat (ph_egress h)) @ tail_text ks) t"
  proof -
    obtain w u where w: "Asn_format (IsdAsn_asn ?h) @ CHR ''#'' # format_dec (unat (ph_ingress h)) @ CHR '',''
          # format_dec (unat (ph_egress h)) @ tail_text ks = w @ CHR ''#'' # u" "\<forall>c \<in> set w. as_char c"
        "reads (re_seq ?ifs) u t"
      using r unfolding reads_as_seq by blast
    have "u = format_dec (unat (ph_ingress h)) @ CHR '','' # format_dec (unat (ph_egress h)) @ tail_text ks"
      using as_part [OF w(1) [symmetric] w(2)] by simp
    then show ?thesis using w(3) read_any_ifs by blast
  qed
  show ?thesis
  proof (cases "IsdAsn_isd ?ia = 0")
    case True
    then obtain w u where w: "interfacesToSeqExpr (h # ks) = w @ CHR ''-'' # u" "all_digits w"
        "reads (re_seq ?rest) u t"
      using assms [unfolded hop_regex_cases(1) [OF True] hs reads_digits_seq] by blast
    have "u = Asn_format (IsdAsn_asn ?h) @ CHR ''#'' # format_dec (unat (ph_ingress h)) @ CHR '',''
          # format_dec (unat (ph_egress h)) @ tail_text ks"
      using isd_part [of w u] w(1,2) unfolding seq_text_parts by metis
    then show ?thesis using w(3) rest True hs by (auto simp: sequence_matches_def)
  next
    case isd: False
    show ?thesis
    proof (cases "IsdAsn_asn ?ia = 0")
      case True
      then obtain u where u: "interfacesToSeqExpr (h # ks) = Isd_format (IsdAsn_isd ?ia) @ CHR ''-'' # u"
          "reads (re_seq ?rest) u t"
        using assms hs isd unfolding hop_regex_def Let_def
        by (auto simp: reads_hash_text reads_char_seq)
      have "Isd_format (IsdAsn_isd ?ia) = format_dec (unat (IsdAsn_isd ?h))
          \<and> u = Asn_format (IsdAsn_asn ?h) @ CHR ''#'' # format_dec (unat (ph_ingress h)) @ CHR '',''
              # format_dec (unat (ph_egress h)) @ tail_text ks"
        using isd_part [of "Isd_format (IsdAsn_isd ?ia)" u] u(1) all_digits_dec
        unfolding seq_text_parts by (metis Isd_format_def)
      then show ?thesis
        using u(2) rest True hs by (auto simp: sequence_matches_def Isd_format_def dec_unat_inj)
    next
      case as: False
      have split: "interfacesToSeqExpr (h # ks) = IsdAsn_format ?ia @ CHR ''#'' # u \<Longrightarrow>
          ?ia = ?h \<and> u = format_dec (unat (ph_ingress h)) @ CHR '','' # format_dec (unat (ph_egress h)) @ tail_text ks"
        for u
        using isd_as_part [of ?ia u ?h] unfolding seq_text_as by metis
      show ?thesis
      proof (cases "hp_ingress hp = 0")
        case True
        then obtain u where u: "interfacesToSeqExpr (h # ks) = IsdAsn_format ?ia @ CHR ''#'' # u" "reads (re_seq ?ifs) u t"
          using assms hs isd as unfolding hop_regex_def Let_def by (auto simp: reads_hash_text)
        then show ?thesis using split [OF u(1)] read_any_ifs True hs by (auto simp: sequence_matches_def)
      next
        case ing: False
        show ?thesis
        proof (cases "hp_egress hp = 0")
          case True
          obtain u v where u0: "interfacesToSeqExpr (h # ks) = (IsdAsn_format ?ia @ ''#'') @ u"
              "reads (RAlt (re_seq (re_text (?i @ '','') @ [re_digits])) (re_seq (re_digits # re_text ('','' @ ?i)))) u v"
              "reads (re_opt re_space) v t"
            using assms [unfolded hop_regex_cases(4) [OF isd as ing True] hs reads_hash_text
                reads_seq_Cons [of "RAlt p q" for p q] reads_one_seq] by blast
          then have u: "interfacesToSeqExpr (h # ks) = IsdAsn_format ?ia @ CHR ''#'' # u"
              "reads (RAlt (re_seq (re_text (?i @ '','') @ [re_digits])) (re_seq (re_digits # re_text ('','' @ ?i)))) u v"
              "reads (re_opt re_space) v t" by simp_all
          note ia = split [OF u(1)]
          show ?thesis
          proof (cases "reads (re_seq (re_text (?i @ '','') @ [re_digits])) u v")
            case True
            then obtain w where "u = ?i @ CHR '','' # w @ v" "w \<noteq> []" "all_digits w"
              by (auto simp: reads_hash_text reads_one_seq reads_digits)
            moreover then have "?i = format_dec (unat (ph_ingress h)) \<and> w @ v = format_dec (unat (ph_egress h)) @ tail_text ks"
              using number_part [of ?i "w @ v"] ia all_digits_dec by metis
            ultimately show ?thesis
              using read_end [of "unat (ph_egress h)" ks w v t] u(3) ia hs \<open>hp_egress hp = 0\<close>
              by (auto simp: sequence_matches_def dec_unat_inj)
          next
            case False
            then obtain w where w: "u = w @ CHR '','' # ?i @ v" "w \<noteq> []" "all_digits w"
              using u(2) by (auto simp: reads_seq_Cons [of re_digits] reads_digits reads_text)
            then have "?i @ v = format_dec (unat (ph_egress h)) @ tail_text ks"
              using number_part [of w "?i @ v"] ia by metis
            then show ?thesis
              using read_end [of "unat (ph_egress h)" ks ?i v t] u(3) ia hs \<open>hp_egress hp = 0\<close> all_digits_dec
              by (auto simp: sequence_matches_def dec_unat_inj)
          qed
        next
          case False
          then obtain u where u: "interfacesToSeqExpr (h # ks) = IsdAsn_format ?ia @ CHR ''#'' # ?i @ CHR '','' # ?e @ u"
              "reads (re_opt re_space) u t"
            using assms hs isd as ing unfolding hop_regex_def Let_def by (auto simp: reads_hash_text reads_one_seq)
          note ia = split [OF u(1)]
          then have e: "?i = format_dec (unat (ph_ingress h)) \<and> ?e @ u = format_dec (unat (ph_egress h)) @ tail_text ks"
            using number_part [of ?i "?e @ u"] all_digits_dec by metis
          then show ?thesis
            using read_end [of "unat (ph_egress h)" ks ?e u t] u(2) ia hs all_digits_dec
            by (auto simp: sequence_matches_def dec_unat_inj)
        qed
      qed
    qed
  qed
qed

lemma read_hop_complete:
  assumes "sequence_matches hp h"
  shows "reads (hop_regex hp) (interfacesToSeqExpr (h # ks)) (interfacesToSeqExpr ks)"
proof -
  let ?ia = "hp_isdAsn hp" and ?h = "ph_isdAsn h"
  let ?ifs = "[re_digits, re_char CHR '','', re_digits, re_opt re_space]"
  let ?rest = "re_plus re_as # re_char CHR ''#'' # ?ifs"
  let ?in = "format_dec (unat (ph_ingress h))" and ?eg = "format_dec (unat (ph_egress h))"
  let ?i = "format_dec (unat (hp_ingress hp))"
  have d: "reads re_digits (format_dec n @ u) u" for n u
    unfolding reads_digits by (intro exI [of _ "format_dec n"]) (simp add: all_digits_dec)
  have rest: "reads (re_seq ?rest) (Asn_format (IsdAsn_asn ?h) @ CHR ''#'' # ?in @ CHR '','' # ?eg @ tail_text ks)
      (interfacesToSeqExpr ks)"
    unfolding reads_as_seq
    by (rule exI [of _ "Asn_format (IsdAsn_asn ?h)"], rule exI, intro conjI, rule refl)
       (simp_all add: Asn_format_nonempty as_char_Asn_format read_any_ifs_complete)
  show ?thesis
  proof (cases "IsdAsn_isd ?ia = 0")
    case True
    then show ?thesis
      unfolding hop_regex_cases(1) [OF True] seq_text_parts reads_digits_seq using rest
      by (metis all_digits_dec format_dec_nonempty(1))
  next
    case isd: False
    then have i: "IsdAsn_isd ?ia = IsdAsn_isd ?h" using assms by (simp add: sequence_matches_def)
    show ?thesis
    proof (cases "IsdAsn_asn ?ia = 0")
      case True
      show ?thesis
      proof -
        have f: "reads (re_seq (re_char CHR ''-'' # ?rest)) (CHR ''-'' # Asn_format (IsdAsn_asn ?h) @ CHR ''#'' # ?in @ CHR '','' # ?eg @ tail_text ks)
          (interfacesToSeqExpr ks)"
          unfolding reads_char_seq using rest by blast
        show ?thesis
          unfolding hop_regex_cases(2) [OF isd True] seq_text_parts reads_hash_text Isd_format_def i [symmetric]
          by (rule exI, rule conjI, rule refl, rule f)
      qed
    next
      case as: False
      then have ia: "?ia = ?h"
        using assms i isd unfolding IsdAsn_parts_eq [of ?ia ?h] by (simp add: sequence_matches_def)
      show ?thesis
      proof (cases "hp_ingress hp = 0")
        case True
        then show ?thesis
          unfolding hop_regex_cases(3) [OF isd as True] seq_text_as reads_hash_text ia
          using read_any_ifs_complete by auto
      next
        case ing: False
        have m: "if hp_egress hp = 0 then ph_ingress h = hp_ingress hp \<or> ph_egress h = hp_ingress hp
                 else ph_ingress h = hp_ingress hp \<and> ph_egress h = hp_egress hp"
          using assms isd as ing by (simp add: sequence_matches_def)
        show ?thesis
        proof (cases "hp_egress hp = 0")
          case True
          have alt: "reads (RAlt (re_seq (re_text (?i @ '','') @ [re_digits])) (re_seq (re_digits # re_text ('','' @ ?i))))
              (?in @ CHR '','' # ?eg @ tail_text ks) (tail_text ks)"
          proof -
            consider "ph_ingress h = hp_ingress hp" | "ph_egress h = hp_ingress hp" using m True by auto
            then show ?thesis
            proof cases
              case 1
              have "reads (re_seq (re_text (?in @ '','') @ [re_digits])) (?in @ CHR '','' # ?eg @ tail_text ks) (tail_text ks)"
                unfolding reads_hash_text reads_one_seq using d by auto
              then show ?thesis using 1 by simp
            next
              case 2
              have "reads (re_seq (re_digits # re_text ('','' @ ?eg))) (?in @ CHR '','' # ?eg @ tail_text ks) (tail_text ks)"
                unfolding reads_seq_Cons [of re_digits] reads_text using d by auto
              then show ?thesis using 2 by simp
            qed
          qed
          show ?thesis
            unfolding hop_regex_cases(4) [OF isd as ing True] seq_text_as reads_hash_text
              reads_seq_Cons [of "RAlt p q" for p q] reads_one_seq
            by (rule exI [of _ "?in @ CHR '','' # ?eg @ tail_text ks"], rule conjI, simp add: ia,
                rule exI [of _ "tail_text ks"], rule conjI, rule alt, rule read_end_complete)
        next
          case False
          then have e: "hp_ingress hp = ph_ingress h" "hp_egress hp = ph_egress h" using m by simp_all
          show ?thesis
            unfolding hop_regex_cases(5) [OF isd as ing False] seq_text_as reads_hash_text reads_one_seq
            by (rule exI [of _ "tail_text ks"], rule conjI, simp add: ia e, rule read_end_complete)
        qed
      qed
    qed
  qed
qed

lemma dead_end_stuck: "dead_end s \<Longrightarrow> \<not> reads (hop_regex hp) s t"
proof
  assume s: "dead_end s" "reads (hop_regex hp) s t"
  have "\<exists>w u. s = w @ CHR ''-'' # u \<and> all_digits w"
  proof -
    have a: "\<exists>w u. IsdAsn_format ia @ v = w @ CHR ''-'' # u \<and> all_digits w" for ia v
      by (intro exI [of _ "Isd_format (IsdAsn_isd ia)"] exI [of _ "Asn_format (IsdAsn_asn ia) @ v"])
         (simp add: IsdAsn_format_def Isd_format_def all_digits_dec)
    consider "IsdAsn_isd (hp_isdAsn hp) = 0"
      | "IsdAsn_isd (hp_isdAsn hp) \<noteq> 0" "IsdAsn_asn (hp_isdAsn hp) = 0"
      | "\<exists>rs w. hop_regex hp = re_seq (re_text (IsdAsn_format (hp_isdAsn hp) @ w) @ rs)"
      using hop_regex_cases(3-5) [of hp] by metis
    then show ?thesis
    proof cases
      case 1
      then show ?thesis using s(2) by (simp only: hop_regex_cases(1) reads_digits_seq) blast
    next
      case 2
      then show ?thesis
        using s(2) all_digits_dec unfolding hop_regex_cases(2) [OF 2] reads_hash_text reads_char_seq Isd_format_def by blast
    next
      case 3
      then show ?thesis using s(2) a by (auto simp: reads_hash_text)
    qed
  qed
  then obtain w u where w: "s = w @ CHR ''-'' # u" "all_digits w" by blast
  obtain ds r where r: "s = ds @ r" "all_digits ds" "r = [] \<or> hd r = CHR '' ''"
    using s(1) by (auto simp: dead_end_def)
  show False
  proof (cases r)
    case Nil
    then have "CHR ''-'' \<in> set ds" using w r by simp
    then show False using r(2) by fastforce
  next
    case (Cons x r')
    then show False using run_unique [of w "CHR ''-''" u ds x r' "is_digit 10"] w r by simp
  qed
qed

section \<open>Hop expressions\<close>

datatype hop_expr =
    HHop HopPredicate
  | HSeq "hop_expr list"
  | HAlt hop_expr hop_expr
  | HStar hop_expr
  | HPlus hop_expr
  | HOpt hop_expr

text \<open>The hops an expression can consume at the front of a list, and the hops it leaves.\<close>

primrec takes :: "hop_expr \<Rightarrow> PathHop list \<Rightarrow> PathHop list \<Rightarrow> bool" where
  "takes (HHop hp) = (\<lambda>hs ks. \<exists>h. hs = h # ks \<and> sequence_matches hp h)"
| "takes (HSeq es) = foldr (\<lambda>R S. R OO S) (map takes es) (=)"
| "takes (HAlt a b) = (\<lambda>hs ks. takes a hs ks \<or> takes b hs ks)"
| "takes (HStar e) = (takes e)\<^sup>*\<^sup>*"
| "takes (HPlus e) = (takes e)\<^sup>+\<^sup>+"
| "takes (HOpt e) = (\<lambda>hs ks. takes e hs ks \<or> ks = hs)"

text \<open>The syntax tree of the text of an expression: a group holds one alternative of one term.\<close>

fun is_hop :: "hop_expr \<Rightarrow> bool" where
  "is_hop (HHop hp) = True"
| "is_hop _ = False"

fun is_group :: "hop_expr \<Rightarrow> bool" where
  "is_group (HSeq es) = True"
| "is_group (HAlt a b) = True"
| "is_group _ = False"

text \<open>An operand of a repetition is a predicate or a group; what needs no group is put into one.\<close>

definition operand :: "hop_expr \<Rightarrow> regex \<Rightarrow> regex" where
  "operand e r = (if is_hop e \<or> is_group e then r else re_seq [r])"

primrec expr_regex :: "hop_expr \<Rightarrow> regex" where
  "expr_regex (HHop hp) = hop_regex hp"
| "expr_regex (HSeq es) = re_seq (map expr_regex es)"
| "expr_regex (HAlt a b) = RAlt (re_seq [expr_regex a]) (re_seq [expr_regex b])"
| "expr_regex (HStar e) = RStar True (operand e (expr_regex e))"
| "expr_regex (HPlus e) = RSeq (operand e (expr_regex e)) (RStar True (operand e (expr_regex e)))"
| "expr_regex (HOpt e) = RAlt (RSeq (operand e (expr_regex e)) REps) REps"

lemma reads_operand [simp]: "reads (operand e r) = reads r"
  by (intro ext) (simp add: operand_def reads_one_seq)

text \<open>
  From the text of a list of hops an expression reads on to the text of the hops it leaves, or into a
  dead end; from a dead end it only reads nothing.
\<close>

definition simulates :: "(string \<Rightarrow> string \<Rightarrow> bool) \<Rightarrow> (PathHop list \<Rightarrow> PathHop list \<Rightarrow> bool) \<Rightarrow> bool" where
  "simulates R T \<longleftrightarrow>
     (\<forall>hs t. R (interfacesToSeqExpr hs) t \<longrightarrow> dead_end t \<or> (\<exists>ks. T hs ks \<and> t = interfacesToSeqExpr ks))
     \<and> (\<forall>s t. dead_end s \<longrightarrow> R s t \<longrightarrow> t = s)
     \<and> (\<forall>hs ks. T hs ks \<longrightarrow> R (interfacesToSeqExpr hs) (interfacesToSeqExpr ks))"

lemma simulates_hop: "simulates (reads (hop_regex hp)) (takes (HHop hp))"
  using read_hop_sound [of hp] read_hop_complete [of hp] dead_end_stuck [of _ hp]
  by (fastforce simp: simulates_def)

lemma simulatesD:
  assumes "simulates R T"
  shows "R (interfacesToSeqExpr hs) t \<Longrightarrow> dead_end t \<or> (\<exists>ks. T hs ks \<and> t = interfacesToSeqExpr ks)"
    and "dead_end s \<Longrightarrow> R s t \<Longrightarrow> t = s"
    and "T hs ks \<Longrightarrow> R (interfacesToSeqExpr hs) (interfacesToSeqExpr ks)"
  using assms unfolding simulates_def by blast+

lemma simulates_eq: "simulates (=) (=)"
  by (auto simp: simulates_def)

lemma simulates_comp:
  assumes R: "simulates R T" and S: "simulates S U"
  shows "simulates (R OO S) (T OO U)"
  unfolding simulates_def
proof (intro conjI allI impI)
  fix hs t
  assume "(R OO S) (interfacesToSeqExpr hs) t"
  then obtain u where u: "R (interfacesToSeqExpr hs) u" "S u t" by auto
  then consider "dead_end u" | ks where "T hs ks" "u = interfacesToSeqExpr ks"
    using simulatesD(1) [OF R] by blast
  then show "dead_end t \<or> (\<exists>ks. (T OO U) hs ks \<and> t = interfacesToSeqExpr ks)"
  proof cases
    case 1
    then show ?thesis using simulatesD(2) [OF S _ u(2)] by simp
  next
    case (2 ks)
    then show ?thesis using simulatesD(1) [OF S, of ks t] u(2) by blast
  qed
next
  show "t = s" if "dead_end s" "(R OO S) s t" for s t
    using that simulatesD(2) [OF R] simulatesD(2) [OF S] by blast
next
  show "(R OO S) (interfacesToSeqExpr hs) (interfacesToSeqExpr ks)" if "(T OO U) hs ks" for hs ks
    using that simulatesD(3) [OF R] simulatesD(3) [OF S] by blast
qed

lemma simulates_or:
  assumes "simulates R T" "simulates S U"
  shows "simulates (\<lambda>s t. R s t \<or> S s t) (\<lambda>hs ks. T hs ks \<or> U hs ks)"
  using assms unfolding simulates_def by blast

lemma simulates_star:
  assumes R: "simulates R T"
  shows "simulates R\<^sup>*\<^sup>* T\<^sup>*\<^sup>*"
  unfolding simulates_def
proof (intro conjI allI impI)
  fix hs t
  assume "R\<^sup>*\<^sup>* (interfacesToSeqExpr hs) t"
  then show "dead_end t \<or> (\<exists>ks. T\<^sup>*\<^sup>* hs ks \<and> t = interfacesToSeqExpr ks)"
  proof (induction rule: rtranclp_induct)
    case (step u t)
    then show ?case
      using simulatesD(1,2) [OF R] by (metis rtranclp.rtrancl_into_rtrancl)
  qed auto
next
  show "t = s" if "dead_end s" "R\<^sup>*\<^sup>* s t" for s t
    using that(2,1) by (induction rule: rtranclp_induct) (auto dest: simulatesD(2) [OF R])
next
  show "R\<^sup>*\<^sup>* (interfacesToSeqExpr hs) (interfacesToSeqExpr ks)" if "T\<^sup>*\<^sup>* hs ks" for hs ks
    using that by (induction rule: rtranclp_induct) (auto dest: simulatesD(3) [OF R] rtranclp.rtrancl_into_rtrancl)
qed

lemma simulates_seq:
  "(\<And>e. e \<in> set es \<Longrightarrow> simulates (reads (expr_regex e)) (takes e))
     \<Longrightarrow> simulates (reads (re_seq (map expr_regex es))) (foldr (\<lambda>R S. R OO S) (map takes es) (=))"
proof (induction es)
  case Nil
  show ?case using simulates_eq by (simp add: re_seq_def simulates_def)
next
  case (Cons e es)
  have "reads (re_seq (map expr_regex (e # es))) = reads (expr_regex e) OO reads (re_seq (map expr_regex es))"
    by (simp add: re_seq_def)
  then show ?case using Cons by (simp add: simulates_comp)
qed

lemma simulates_expr: "simulates (reads (expr_regex e)) (takes e)"
proof (induction e)
  case (HHop hp)
  then show ?case by (simp only: expr_regex.simps simulates_hop)
next
  case (HSeq es)
  then show ?case by (simp add: simulates_seq)
next
  case (HAlt a b)
  have "reads (expr_regex (HAlt a b)) = (\<lambda>s t. reads (expr_regex a) s t \<or> reads (expr_regex b) s t)"
    by (intro ext) (simp add: reads_one_seq)
  then show ?case using HAlt by (simp add: simulates_or)
next
  case (HStar e)
  then show ?case by (simp add: simulates_star)
next
  case (HPlus e)
  have "(takes e)\<^sup>+\<^sup>+ = takes e OO (takes e)\<^sup>*\<^sup>*" by (rule tranclp_unfold_left)
  then show ?case using HPlus by (simp add: simulates_star simulates_comp)
next
  case (HOpt e)
  have "reads (expr_regex (HOpt e)) = (\<lambda>s t. reads (expr_regex e) s t \<or> s = t)"
    by (intro ext) (auto simp: relcompp_apply)
  moreover have "takes (HOpt e) = (\<lambda>hs ks. takes e hs ks \<or> hs = ks)" by (intro ext) auto
  ultimately show ?case using simulates_or [OF HOpt simulates_eq] by simp
qed

lemma expr_regex_match:
  assumes "context_free (expr_regex e)"
  shows "regex_match (expr_regex e) (interfacesToSeqExpr hops) \<longleftrightarrow> takes e hops []"
proof -
  have "reads (expr_regex e) (interfacesToSeqExpr hops) [] \<longleftrightarrow> takes e hops []"
  proof
    assume "reads (expr_regex e) (interfacesToSeqExpr hops) []"
    then obtain ks where "takes e hops ks" "interfacesToSeqExpr ks = []"
      using simulatesD(1) [OF simulates_expr] not_dead_end_Nil by metis
    then show "takes e hops []" using seq_text_nonempty by simp
  next
    assume "takes e hops []"
    from simulatesD(3) [OF simulates_expr this]
    show "reads (expr_regex e) (interfacesToSeqExpr hops) []" by simp
  qed
  then show ?thesis using assms by (simp add: regex_match_reads)
qed

end
