(* ===== verification/PolicyText.thy ===== *)
theory PolicyText
  imports PolicySequence
begin

text \<open>
  The text of a hop sequence: the search for hop predicates finds each of them in the text of a hop
  expression, the predicates are parsed back, and the text of the regular expression that results has
  the expression of each predicate in its place.
\<close>

section \<open>Hop predicates as text\<close>

definition interfaces_text :: "HopPredicate \<Rightarrow> string" where
  "interfaces_text hp =
     (if hp_ingress hp = 0 \<and> hp_egress hp = 0 then []
      else CHR ''#'' # format_dec (unat (hp_ingress hp))
        @ (if hp_egress hp = 0 then [] else CHR '','' # format_dec (unat (hp_egress hp))))"

definition predicate_text :: "HopPredicate \<Rightarrow> string" where
  "predicate_text hp =
     (if IsdAsn_asn (hp_isdAsn hp) = 0 \<and> interfaces_text hp = [] then Isd_format (IsdAsn_isd (hp_isdAsn hp))
      else IsdAsn_format (hp_isdAsn hp) @ interfaces_text hp)"

lemma from_chars_all_dec: "n \<le> limit \<Longrightarrow> from_chars_all limit (format_dec n) = Inr n"
  by (simp add: from_chars_all_def from_chars_dec)

lemma dec_no_char: "\<not> is_digit 10 c \<Longrightarrow> c \<notin> set (format_dec n)"
  using format_dec_digits by blast

lemma u16_isd: "unat (IsdAsn_isd ia) \<le> 2 ^ 16 - 1"
proof -
  have "IsdAsn_isd ia \<le> Isd_MAX_VALUE" unfolding Isd_MAX_VALUE_mask fits_le_mask by (rule fits_IsdAsn_isd)
  then have "unat (IsdAsn_isd ia) \<le> unat Isd_MAX_VALUE" by (simp add: word_le_nat_alt)
  moreover have "unat Isd_MAX_VALUE = 2 ^ 16 - 1" by (simp add: Isd_MAX_VALUE_mask mask_eq_exp_minus_1)
  ultimately show ?thesis by metis
qed

lemma HopPredicate_Parse_text: "HopPredicate_Parse (predicate_text hp) = Inr hp"
proof -
  let ?ia = "hp_isdAsn hp"
  have comma: "CHR '','' \<notin> set (format_dec n)" and hash: "CHR ''#'' \<notin> set (format_dec n)"
    and minus: "CHR ''-'' \<notin> set (format_dec n)" for n
    by (simp_all add: dec_no_char)
  show ?thesis
  proof (cases "IsdAsn_asn ?ia = 0 \<and> interfaces_text hp = []")
    case True
    then have i: "hp_ingress hp = 0" "hp_egress hp = 0" by (simp_all add: interfaces_text_def split: if_splits)
    have "IsdAsn_make (IsdAsn_isd ?ia) 0 = ?ia" using True IsdAsn_make_parts [of ?ia] by simp
    then show ?thesis
      using True i hash minus from_chars_all_dec [OF u16_isd [of ?ia]]
      by (simp add: predicate_text_def HopPredicate_Parse_def Isd_format_def Let_def find_char_None [THEN iffD2])
  next
    case False
    have t: "predicate_text hp = IsdAsn_format ?ia @ interfaces_text hp"
      unfolding predicate_text_def using False by (simp only: if_False)
    have m: "find_char CHR ''-'' (predicate_text hp) \<noteq> None" "predicate_text hp \<noteq> []"
      by (simp_all add: t find_char_None IsdAsn_format_def)
    show ?thesis
    proof (cases "interfaces_text hp = []")
      case True
      then have i: "hp_ingress hp = 0" "hp_egress hp = 0" by (simp_all add: interfaces_text_def split: if_splits)
      have "find_char CHR ''#'' (predicate_text hp) = None"
        using hash_not_in_IsdAsn by (simp add: t True find_char_None)
      then show ?thesis using m i by (auto simp: HopPredicate_Parse_def t True IsdAsn_Parse_format Let_def)
    next
      case ifs: False
      then obtain r where r: "interfaces_text hp = CHR ''#'' # r"
          "r = format_dec (unat (hp_ingress hp)) @ (if hp_egress hp = 0 then [] else CHR '','' # format_dec (unat (hp_egress hp)))"
        by (auto simp: interfaces_text_def split: if_splits)
      have h: "find_char CHR ''#'' (predicate_text hp) = Some (length (IsdAsn_format ?ia))"
        using hash_not_in_IsdAsn by (simp add: t r(1) find_char_append)
      have n: "from_chars_all (2 ^ 64 - 1) (format_dec (unat (x :: u64))) = Inr (unat x)" for x
        by (rule from_chars_all_dec) (rule unat_u64_le)
      show ?thesis
      proof (cases "hp_egress hp = 0")
        case True
        have "find_char CHR '','' r = None" using comma True by (simp add: r(2) find_char_None)
        then show ?thesis
          using m h n [of "hp_ingress hp"] True
          by (simp add: HopPredicate_Parse_def t r(1) Let_def IsdAsn_Parse_format) (auto simp: r(2))
      next
        case False
        have "find_char CHR '','' r = Some (length (format_dec (unat (hp_ingress hp))))"
          using comma False by (simp add: r(2) find_char_append)
        then show ?thesis
          using m h n [of "hp_ingress hp"] n [of "hp_egress hp"] False
          by (simp add: HopPredicate_Parse_def t r(1) Let_def IsdAsn_Parse_format) (auto simp: r(2))
      qed
    qed
  qed
qed

section \<open>What the search finds\<close>

text \<open>The match a pattern prefers, and texts it does not match at their start.\<close>

definition prefers :: "regex \<Rightarrow> string \<Rightarrow> string \<Rightarrow> bool" where
  "prefers r s t \<longleftrightarrow> (\<forall>p. \<exists>q ds. matches_at r (p, s) = (q, t) # ds)"

definition refuses :: "regex \<Rightarrow> string \<Rightarrow> bool" where
  "refuses r s \<longleftrightarrow> (\<forall>p. matches_at r (p, s) = [])"

lemma refuses_reads: "context_free r \<Longrightarrow> (\<And>t. \<not> reads r s t) \<Longrightarrow> refuses r s"
  using ends_reads [of r] unfolding refuses_def
  by (metis all_not_in_conv matches_at_ends set_empty snd_conv)

lemma prefers_REps: "prefers REps s s"
  by (simp add: prefers_def)

lemma prefers_char: "prefers (re_char c) (c # s) s"
  by (simp add: prefers_def re_char_def char_set_def in_class_def in_item_def)

lemma refuses_char: "s = [] \<or> hd s \<noteq> c \<Longrightarrow> refuses (re_char c) s"
  by (rule refuses_reads) (auto simp: re_char_def [THEN arg_cong [of _ _ context_free]])

lemma prefers_RSeq:
  assumes "prefers a s u" "prefers b u t"
  shows "prefers (RSeq a b) s t"
  unfolding prefers_def
proof
  fix p
  obtain q ds where a: "matches_at a (p, s) = (q, u) # ds" using assms(1) unfolding prefers_def by blast
  obtain q' es where b: "matches_at b (q, u) = (q', t) # es" using assms(2) unfolding prefers_def by blast
  show "\<exists>q ds. matches_at (RSeq a b) (p, s) = (q, t) # ds" by (simp add: a b)
qed

lemma refuses_RSeq: "refuses a s \<Longrightarrow> refuses (RSeq a b) s"
  by (simp add: refuses_def)

lemma prefers_RAlt1:
  assumes "prefers a s t"
  shows "prefers (RAlt a b) s t"
  unfolding prefers_def
proof
  fix p
  obtain q ds where a: "matches_at a (p, s) = (q, t) # ds" using assms unfolding prefers_def by blast
  show "\<exists>q ds. matches_at (RAlt a b) (p, s) = (q, t) # ds" by (simp add: a)
qed

lemma prefers_RAlt2: "refuses a s \<Longrightarrow> prefers b s t \<Longrightarrow> prefers (RAlt a b) s t"
  unfolding prefers_def refuses_def by simp

lemma refuses_RAlt: "refuses a s \<Longrightarrow> refuses b s \<Longrightarrow> refuses (RAlt a b) s"
  by (simp add: refuses_def)

lemma prefers_seq_Nil: "prefers (re_seq []) s s"
  by (simp add: re_seq_def prefers_REps)

lemma prefers_seq_Cons: "prefers r s u \<Longrightarrow> prefers (re_seq rs) u t \<Longrightarrow> prefers (re_seq (r # rs)) s t"
  by (simp add: re_seq_def prefers_RSeq)

lemma refuses_seq: "refuses r s \<Longrightarrow> refuses (re_seq (r # rs)) s"
  by (simp add: re_seq_def refuses_RSeq)

lemma prefers_opt_some: "prefers r s t \<Longrightarrow> prefers (re_opt r) s t"
  unfolding re_opt_def by (rule prefers_RAlt1, erule prefers_RSeq, rule prefers_REps)

lemma prefers_opt_none: "refuses r s \<Longrightarrow> prefers (re_opt r) s s"
  unfolding re_opt_def by (intro prefers_RAlt2 refuses_RSeq prefers_REps)

text \<open>Greedy runs take all characters of a set.\<close>

lemma prefers_star_set:
  assumes "\<forall>c \<in> set w. in_class neg items c" "s = [] \<or> \<not> in_class neg items (hd s)"
  shows "prefers (RStar True (RSet neg items)) (w @ s) s"
proof -
  have "\<exists>q ds. iterations n True (matches_at (RSet neg items)) (p, w @ s) = (q, s) # ds" if "length (w @ s) \<le> n" for n p
    using assms(1) that
  proof (induction w arbitrary: n p)
    case Nil
    have m: "matches_at (RSet neg items) (p, s) = []" using assms(2) by (cases s) auto
    show ?case by (cases n) (simp_all add: m del: matches_at.simps)
  next
    case (Cons c w)
    then obtain k where n: "n = Suc k" by (cases n) auto
    have m: "matches_at (RSet neg items) (p, (c # w) @ s) = [(Some c, w @ s)]" using Cons.prems by simp
    obtain q ds where "iterations k True (matches_at (RSet neg items)) (Some c, w @ s) = (q, s) # ds"
      using Cons.IH [of k "Some c"] Cons.prems n by (auto simp del: matches_at.simps)
    then show ?case unfolding n iterations.simps m by simp
  qed
  then show ?thesis by (simp add: prefers_def del: iterations.simps)
qed

lemma prefers_up_to:
  assumes "\<forall>c \<in> set w. in_class neg items c" "length w \<le> k" "s = [] \<or> \<not> in_class neg items (hd s)"
  shows "prefers (up_to k True (RSet neg items)) (w @ s) s"
  using assms
proof (induction k arbitrary: w)
  case 0
  then show ?case by (simp add: prefers_REps)
next
  case (Suc k)
  show ?case
  proof (cases w)
    case Nil
    have "refuses (RSet neg items) s" using assms(3) by (cases s) (auto simp: refuses_def)
    then show ?thesis using Nil by (simp add: prefers_RAlt2 refuses_RSeq prefers_REps)
  next
    case (Cons c v)
    have "prefers (RSet neg items) (w @ s) (v @ s)" using Cons Suc.prems(1) by (simp add: prefers_def)
    moreover have "prefers (up_to k True (RSet neg items)) (v @ s) s" using Suc Cons by simp
    ultimately show ?thesis by (simp add: prefers_RAlt1 prefers_RSeq)
  qed
qed

lemma prefers_digits:
  assumes "all_digits w" "w \<noteq> []" "s = [] \<or> \<not> is_digit 10 (hd s)"
  shows "prefers re_digits (w @ s) s"
proof -
  obtain c v where w: "w = c # v" using assms(2) by (cases w) auto
  have "prefers re_digit (w @ s) (v @ s)"
    using assms(1) w by (simp add: prefers_def re_digit_def in_digit_class)
  moreover have "prefers (RStar True re_digit) (v @ s) s"
    unfolding re_digit_def by (rule prefers_star_set) (use assms w in \<open>simp_all add: in_digit_class\<close>)
  ultimately show ?thesis unfolding re_digits_def by (rule prefers_RSeq)
qed

definition hex_char :: "char \<Rightarrow> bool" where
  "hex_char c \<longleftrightarrow>
     in_class False [(False, [(48, 57)]), (False, [(97, 102)]), (False, [(45, 45)]), (False, [(65, 70)])] c"

lemma prefers_group:
  assumes "\<forall>c \<in> set w. hex_char c" "w \<noteq> []" "length w \<le> 4" "s = [] \<or> \<not> hex_char (hd s)"
  shows "prefers re_group (w @ s) s"
proof -
  obtain c v where w: "w = c # v" using assms(2) by (cases w) auto
  have "prefers re_hex (w @ s) (v @ s)" using assms(1) w by (simp add: prefers_def re_hex_def hex_char_def)
  moreover have "prefers (up_to 3 True re_hex) (v @ s) s"
    unfolding re_hex_def by (rule prefers_up_to) (use assms w in \<open>simp_all add: hex_char_def\<close>)
  ultimately show ?thesis unfolding re_group_def by (rule prefers_RSeq)
qed

lemma reads_up_to: "reads (up_to k g (RSet neg items)) s t \<Longrightarrow> \<exists>w. s = w @ t \<and> (\<forall>c \<in> set w. in_class neg items c)"
proof (induction k arbitrary: s)
  case 0
  then show ?case by simp
next
  case (Suc k)
  then consider "t = s" | x u where "s = x # u" "in_class neg items x" "reads (up_to k g (RSet neg items)) u t"
    by (auto simp: relcompp_apply split: if_splits)
  then show ?case
  proof cases
    case (2 x u)
    then obtain w where "u = w @ t" "\<forall>c \<in> set w. in_class neg items c" using Suc.IH by blast
    then show ?thesis using 2 by (intro exI [of _ "x # w"]) simp
  qed simp
qed

lemma reads_group: "reads re_group s t \<Longrightarrow> \<exists>w. s = w @ t \<and> (\<forall>c \<in> set w. hex_char c)"
proof -
  assume "reads re_group s t"
  then obtain u where u: "reads re_hex s u" "reads (up_to 3 True re_hex) u t"
    unfolding re_group_def by (auto simp: relcompp_apply)
  obtain w where w: "u = w @ t" "\<forall>c \<in> set w. hex_char c"
    using reads_up_to u(2) unfolding re_hex_def hex_char_def by blast
  obtain x where "s = x # u" "hex_char x" using u(1) by (auto simp: re_hex_def hex_char_def)
  then show ?thesis using w by (intro exI [of _ "x # w"]) simp
qed

text \<open>The characters between the predicates of an expression.\<close>

definition gap_char :: "char \<Rightarrow> bool" where
  "gap_char c \<longleftrightarrow> c \<in> set ''()|*+? ''"

definition stops :: "string \<Rightarrow> bool" where
  "stops s \<longleftrightarrow> s = [] \<or> gap_char (hd s)"

lemma gap_char_digit: "gap_char c \<Longrightarrow> \<not> is_digit 10 c"
  by (auto simp: gap_char_def is_digit_def digit_value_def)

lemma gap_char_hex: "gap_char c \<Longrightarrow> \<not> hex_char c"
  by (auto simp: gap_char_def hex_char_def in_class_def in_item_def char_int_cases)

lemma hex_char_simps [simp]: "\<not> hex_char CHR '':''" "\<not> hex_char CHR ''#''" "\<not> hex_char CHR '',''"
  by (simp_all add: hex_char_def in_class_def in_item_def char_int_cases)

lemma stopsD:
  assumes "stops s"
  shows "s = [] \<or> \<not> is_digit 10 (hd s)" "s = [] \<or> \<not> hex_char (hd s)" "s = [] \<or> hd s \<noteq> CHR ''-''"
    "s = [] \<or> hd s \<noteq> CHR ''#''" "s = [] \<or> hd s \<noteq> CHR '',''" "s = [] \<or> hd s \<noteq> CHR '':''"
proof -
  have g: "gap_char c \<Longrightarrow> c \<notin> {CHR ''-'', CHR ''#'', CHR '','', CHR '':''}" for c
    by (auto simp: gap_char_def)
  show "s = [] \<or> \<not> is_digit 10 (hd s)" "s = [] \<or> \<not> hex_char (hd s)" "s = [] \<or> hd s \<noteq> CHR ''-''"
    "s = [] \<or> hd s \<noteq> CHR ''#''" "s = [] \<or> hd s \<noteq> CHR '',''" "s = [] \<or> hd s \<noteq> CHR '':''"
    using assms g [of "hd s"] gap_char_digit [of "hd s"] gap_char_hex [of "hd s"] unfolding stops_def by blast+
qed

lemma char_int_digit:
  assumes "d < 16"
  shows "char_int (digit_char False d) = (if d < 10 then 48 + int d else 87 + int d)"
proof -
  have "of_char (digit_char False d) = (if d < 10 then 48 + d else 87 + d)"
    unfolding digit_char_def by (rule trans [OF of_char_of_small]) (use assms in auto)
  then show ?thesis unfolding char_int_cases using assms by auto
qed

lemma hex_char_digit: "d < 16 \<Longrightarrow> hex_char (digit_char False d)"
  by (simp add: hex_char_def in_class_def in_item_def char_int_digit)

lemma hex_char_format: "c \<in> set (format_hex n) \<Longrightarrow> hex_char c"
proof -
  assume "c \<in> set (format_hex n)"
  then obtain d where "d \<in> set (to_digits 16 n)" "c = digit_char False d"
    unfolding format_hex_def format_uint_def by auto
  moreover then have "d < 16" using to_digits_less [of 16 d n] by simp
  ultimately show "hex_char c" using hex_char_digit by simp
qed

lemma hex_char_dec: "is_digit 10 c \<Longrightarrow> hex_char c"
  using in_digit_class [of c] by (simp add: hex_char_def in_class_def in_item_def digit_ranges_def)

lemma length_format_hex: "n < 2 ^ 16 \<Longrightarrow> length (format_hex n) \<le> 4"
  using length_to_digits [of 16 4 n] by (simp add: format_hex_def format_uint_def)

lemma context_free_up_to [simp]: "context_free r \<Longrightarrow> context_free (up_to k g r)"
  by (induction k arbitrary: g) simp_all

lemma context_free_pattern [simp]:
  "context_free re_hex_as" "context_free re_dec_as" "context_free (re_char c)" "context_free re_digits"
  by (simp_all add: pattern_defs)

lemma prefers_ifs:
  assumes "stops rest"
  shows "prefers re_ifs (interfaces_text hp @ rest) rest"
proof -
  let ?i = "format_dec (unat (hp_ingress hp))" and ?e = "format_dec (unat (hp_egress hp))"
  let ?opt = "re_opt (re_seq [re_char CHR '','', re_digits])"
  have opt: "prefers re_ifs (CHR ''#'' # ?i @ u) rest"
    if "prefers ?opt u rest" "u = [] \<or> \<not> is_digit 10 (hd u)" for u
    unfolding re_ifs_def
    by (rule prefers_opt_some, rule prefers_seq_Cons, rule prefers_char, rule prefers_seq_Cons,
        rule prefers_digits, rule all_digits_dec, rule format_dec_nonempty, rule that(2),
        rule prefers_seq_Cons, rule that(1), rule prefers_seq_Nil)
  show ?thesis
  proof (cases "interfaces_text hp = []")
    case True
    have "refuses (re_seq [re_char CHR ''#'', re_digits, ?opt]) rest"
      by (intro refuses_seq refuses_char stopsD(4) assms)
    then show ?thesis unfolding True re_ifs_def by (simp add: prefers_opt_none)
  next
    case ifs: False
    show ?thesis
    proof (cases "hp_egress hp = 0")
      case True
      have "prefers ?opt rest rest" by (intro prefers_opt_none refuses_seq refuses_char stopsD(5) assms)
      then show ?thesis
        using opt [of rest] ifs True stopsD(1) [OF assms] by (auto simp: interfaces_text_def)
    next
      case False
      have "prefers (re_seq [re_char CHR '','', re_digits]) (CHR '','' # ?e @ rest) rest"
        by (rule prefers_seq_Cons, rule prefers_char, rule prefers_seq_Cons, rule prefers_digits,
            rule all_digits_dec, rule format_dec_nonempty, rule stopsD(1), rule assms, rule prefers_seq_Nil)
      then have "prefers ?opt (CHR '','' # ?e @ rest) rest" by (rule prefers_opt_some)
      then show ?thesis using opt [of "CHR '','' # ?e @ rest"] False by (auto simp: interfaces_text_def)
    qed
  qed
qed

lemma interfaces_text_stop:
  assumes "stops rest"
  shows "interfaces_text hp @ rest = [] \<or> \<not> is_digit 10 (hd (interfaces_text hp @ rest)) \<and> \<not> hex_char (hd (interfaces_text hp @ rest))
           \<and> hd (interfaces_text hp @ rest) \<noteq> CHR '':''"
  using stopsD(1,2,6) [OF assms] by (auto simp: interfaces_text_def)

text \<open>The two forms of an ISD-ASN, with the hexadecimal groups tried first.\<close>

lemma prefers_as:
  assumes s: "s = [] \<or> \<not> is_digit 10 (hd s) \<and> \<not> hex_char (hd s) \<and> hd s \<noteq> CHR '':''"
  shows "prefers (RAlt (re_seq [re_hex_as]) (re_seq [re_dec_as])) (IsdAsn_format ia @ s) s"
proof -
  have d: "prefers re_digits (format_dec n @ u) u" if "u = [] \<or> \<not> is_digit 10 (hd u)" for n u
    by (rule prefers_digits) (use that all_digits_dec in auto)
  show ?thesis
proof (cases "IsdAsn_asn ia \<le> Asn_MAX_BGP_VALUE")
  case True
  let ?n = "format_dec (unat (IsdAsn_isd ia))" and ?a = "format_dec (unat (IsdAsn_asn ia))"
  have f: "IsdAsn_format ia @ s = ?n @ CHR ''-'' # ?a @ s"
    using True by (simp add: IsdAsn_format_def Isd_format_def Asn_format_def)
  have "refuses re_hex_as (?n @ CHR ''-'' # ?a @ s)"
  proof (rule refuses_reads, simp, rule notI)
    fix t
    assume "reads re_hex_as (?n @ CHR ''-'' # ?a @ s) t"
    then obtain w u where w: "?n @ CHR ''-'' # ?a @ s = w @ CHR ''-'' # u" "all_digits w"
        "reads (re_seq [re_group, re_char CHR '':'', re_group, re_char CHR '':'', re_group]) u t"
      unfolding re_hex_as_def reads_digits_seq by blast
    have u: "u = ?a @ s" using isd_part [OF w(1) [symmetric] w(2)] by simp
    obtain v x where "reads re_group u (CHR '':'' # x)"
      using w(3) unfolding reads_seq_Cons [of re_group] reads_char_seq by blast
    then obtain g where g: "?a @ s = g @ CHR '':'' # x" "\<forall>c \<in> set g. hex_char c"
      using reads_group u by blast
    have a: "\<forall>c \<in> set ?a. hex_char c" using all_digits_dec hex_char_dec by blast
    show False
    proof (cases s)
      case Nil
      then have "CHR '':'' \<in> set ?a" using g(1) by simp
      then show False using a by fastforce
    next
      case (Cons y z)
      then show False using run_unique [of g "CHR '':''" x ?a y z hex_char] g a s by simp
    qed
  qed
  moreover have "prefers re_dec_as (?n @ CHR ''-'' # ?a @ s) s"
    unfolding re_dec_as_def
    by (rule prefers_seq_Cons, rule d, simp, rule prefers_seq_Cons, rule prefers_char,
        rule prefers_seq_Cons, rule d) (use s in \<open>auto intro: prefers_seq_Nil\<close>)
  ultimately show ?thesis
    unfolding f by (intro prefers_RAlt2 [OF refuses_seq prefers_seq_Cons [OF _ prefers_seq_Nil]])
next
  case False
  let ?n = "format_dec (unat (IsdAsn_isd ia))" and ?asn = "IsdAsn_asn ia"
  let ?a = "unat (drop_bit 32 ?asn AND 0xffff)" and ?b = "unat (drop_bit 16 ?asn AND 0xffff)"
  let ?c = "unat (?asn AND 0xffff)"
  have f: "IsdAsn_format ia @ s = ?n @ CHR ''-'' # format_hex ?a @ CHR '':'' # format_hex ?b @ CHR '':'' # format_hex ?c @ s"
    using False by (simp add: IsdAsn_format_def Isd_format_def Asn_format_def)
  have len: "length (format_hex (unat (v AND 0xffff :: u64))) \<le> 4" for v
    using unat_and_ffff [of v] by (intro length_format_hex) simp
  have g: "prefers re_group (format_hex (unat (v AND 0xffff :: u64)) @ u) u" if "u = [] \<or> \<not> hex_char (hd u)" for u v
    by (rule prefers_group) (use len that hex_char_format in auto)
  have "prefers re_hex_as (IsdAsn_format ia @ s) s"
    unfolding f re_hex_as_def
    by (rule prefers_seq_Cons, rule d, simp, rule prefers_seq_Cons, rule prefers_char,
        rule prefers_seq_Cons, rule g, simp, rule prefers_seq_Cons, rule prefers_char,
        rule prefers_seq_Cons, rule g, simp, rule prefers_seq_Cons, rule prefers_char,
        rule prefers_seq_Cons, rule g) (use s in \<open>auto intro: prefers_seq_Nil\<close>)
  then show ?thesis by (rule prefers_RAlt1 [OF prefers_seq_Cons [OF _ prefers_seq_Nil]])
qed
qed

lemma predicate_text_digit: "predicate_text hp \<noteq> []" "is_digit 10 (hd (predicate_text hp))"
  using all_digits_dec [of "unat (IsdAsn_isd (hp_isdAsn hp))"] format_dec_nonempty(1) [of "unat (IsdAsn_isd (hp_isdAsn hp))"]
  by (auto simp: predicate_text_def IsdAsn_format_def Isd_format_def hd_append)

text \<open>The pattern takes the text of a predicate as a whole, and matches nothing in a gap.\<close>

lemma prefers_pattern:
  assumes "stops rest"
  shows "prefers hop_pattern (predicate_text hp @ rest) rest"
proof (cases "IsdAsn_asn (hp_isdAsn hp) = 0 \<and> interfaces_text hp = []")
  case False
  then have t: "predicate_text hp @ rest = IsdAsn_format (hp_isdAsn hp) @ interfaces_text hp @ rest"
    unfolding predicate_text_def by (simp only: if_False append_assoc)
  show ?thesis
    unfolding hop_pattern t
    by (rule prefers_RAlt1, rule prefers_seq_Cons, rule prefers_as, rule interfaces_text_stop, rule assms,
        rule prefers_seq_Cons, rule prefers_ifs, rule assms, rule prefers_seq_Nil)
next
  case True
  let ?n = "format_dec (unat (IsdAsn_isd (hp_isdAsn hp)))"
  have t: "predicate_text hp @ rest = ?n @ rest" using True by (simp add: predicate_text_def Isd_format_def)
  have no: "\<not> reads (re_seq (re_digits # re_char CHR ''-'' # rs)) (?n @ rest) x" for rs x
  proof
    assume "reads (re_seq (re_digits # re_char CHR ''-'' # rs)) (?n @ rest) x"
    then obtain w u where w: "?n @ rest = w @ CHR ''-'' # u" "all_digits w"
      unfolding reads_digits_seq by blast
    show False
    proof (cases rest)
      case Nil
      then have "CHR ''-'' \<in> set ?n" using w by simp
      then show False using all_digits_dec by fastforce
    next
      case (Cons y z)
      then show False
        using run_unique [of w "CHR ''-''" u ?n y z "is_digit 10"] w all_digits_dec stopsD(1,3) [OF assms] by auto
    qed
  qed
  have "refuses re_hex_as (?n @ rest)" "refuses re_dec_as (?n @ rest)"
    by (rule refuses_reads, simp, simp only: re_hex_as_def re_dec_as_def no not_False_eq_True)+
  then have "refuses (RAlt (re_seq [re_hex_as]) (re_seq [re_dec_as])) (?n @ rest)"
    by (intro refuses_RAlt refuses_seq)
  then show ?thesis
    unfolding hop_pattern t
    by (rule prefers_RAlt2 [OF refuses_seq prefers_seq_Cons [OF prefers_seq_Cons [OF prefers_digits prefers_seq_Nil] prefers_seq_Nil]])
       (use all_digits_dec stopsD(1) [OF assms] in auto)
qed

lemma refuses_pattern:
  assumes "s = [] \<or> \<not> is_digit 10 (hd s)"
  shows "refuses hop_pattern s"
proof -
  have d: "refuses re_digits s" using assms by (intro refuses_reads) (auto simp: reads_digits)
  have "refuses (RAlt (re_seq [re_hex_as]) (re_seq [re_dec_as])) s"
    unfolding re_hex_as_def re_dec_as_def by (intro refuses_RAlt refuses_seq d)
  then show ?thesis
    unfolding hop_pattern by (intro refuses_RAlt [OF refuses_seq refuses_seq [OF refuses_seq [OF d]]])
qed

lemma search_gap:
  assumes "\<forall>c \<in> set g. gap_char c"
  shows "\<exists>q. regex_search_from hop_pattern pre (p, g @ s) = regex_search_from hop_pattern (pre @ g) (q, s)"
  using assms
proof (induction g arbitrary: pre p)
  case (Cons c g)
  have "matches_at hop_pattern (p, c # g @ s) = []"
    using refuses_pattern [of "c # g @ s"] Cons.prems gap_char_digit by (simp add: refuses_def)
  then have "regex_search_from hop_pattern pre (p, (c # g) @ s) = regex_search_from hop_pattern (pre @ [c]) (Some c, g @ s)"
    by simp
  then show ?case using Cons.IH [of "pre @ [c]" "Some c"] Cons.prems by simp
qed auto

lemma search_predicate:
  assumes "\<forall>c \<in> set g. gap_char c" "stops rest"
  shows "regex_search hop_pattern (g @ predicate_text hp @ rest) = Some (g, predicate_text hp, rest)"
proof -
  obtain q where q: "regex_search_from hop_pattern [] (None, g @ predicate_text hp @ rest)
      = regex_search_from hop_pattern g (q, predicate_text hp @ rest)"
    using search_gap [OF assms(1), of "[]" None "predicate_text hp @ rest"] by auto
  obtain x xs where x: "predicate_text hp = x # xs" using predicate_text_digit(1) by (cases "predicate_text hp") auto
  obtain q' ds where "matches_at hop_pattern (q, predicate_text hp @ rest) = (q', rest) # ds"
    using prefers_pattern [OF assms(2)] unfolding prefers_def by blast
  then show ?thesis unfolding regex_search_def q by (simp add: x)
qed

lemma search_no_predicate: "\<forall>c \<in> set g. gap_char c \<Longrightarrow> regex_search hop_pattern g = None"
  using search_gap [of g "[]" None "[]"] refuses_pattern [of "[]"]
  by (auto simp: regex_search_def refuses_def)

lemma translate_step:
  assumes "\<forall>c \<in> set g. gap_char c" "stops rest"
  shows "translateHops (g @ predicate_text hp @ rest) =
           map_sum id (\<lambda>s. rtrim g @ HopPredicate_regex hp @ s) (translateHops (ltrim rest))"
  by (subst translateHops.simps)
     (simp add: search_predicate [OF assms] HopPredicate_Parse_text map_sum_def split: sum.split)

lemma translate_end: "\<forall>c \<in> set g. gap_char c \<Longrightarrow> translateHops g = Inr g"
  by (subst translateHops.simps) (simp add: search_no_predicate)

section \<open>Hop expressions as text\<close>

text \<open>
  The text of an expression is a list of symbols, predicates and the characters between them. A space
  may stand next to a predicate only: elsewhere it stays a part of the regular expression.
\<close>

datatype sym = SC char | SH HopPredicate

fun sym_text :: "sym \<Rightarrow> string" where
  "sym_text (SC c) = [c]"
| "sym_text (SH hp) = predicate_text hp"

definition syms_text :: "sym list \<Rightarrow> string" where
  "syms_text s = concat (map sym_text s)"

fun sym_regex :: "sym \<Rightarrow> string" where
  "sym_regex (SC c) = (if c = CHR '' '' then [] else [c])"
| "sym_regex (SH hp) = HopPredicate_regex hp"

definition syms_regex :: "sym list \<Rightarrow> string" where
  "syms_regex s = concat (map sym_regex s)"

fun is_SH :: "sym \<Rightarrow> bool" where
  "is_SH (SH hp) = True"
| "is_SH (SC c) = False"

fun spaced :: "bool \<Rightarrow> sym list \<Rightarrow> bool" where
  "spaced h [] = True"
| "spaced h (SC c # s) = (gap_char c \<and> (c = CHR '' '' \<longrightarrow> h \<or> (s \<noteq> [] \<and> is_SH (hd s))) \<and> spaced False s)"
| "spaced h (SH hp # s) = (\<not> h \<and> spaced True s)"

lemma syms_text_simps [simp]:
  "syms_text [] = []" "syms_text (x # s) = sym_text x @ syms_text s" "syms_text (s @ t) = syms_text s @ syms_text t"
  by (simp_all add: syms_text_def)

lemma syms_regex_simps [simp]:
  "syms_regex [] = []" "syms_regex (x # s) = sym_regex x @ syms_regex s" "syms_regex (s @ t) = syms_regex s @ syms_regex t"
  by (simp_all add: syms_regex_def)

lemma syms_text_SC [simp]: "syms_text (map SC g) = g"
  by (induction g) simp_all

lemma syms_regex_SC: "syms_regex (map SC g) = filter (\<lambda>c. c \<noteq> CHR '' '') g"
  by (induction g) simp_all

lemma gap_char_space: "gap_char c \<Longrightarrow> is_space c \<longleftrightarrow> c = CHR '' ''"
  by (auto simp: gap_char_def is_space_def in_item_def space_ranges_def char_int_cases)

lemma spaced_gap_only:
  "spaced False (map SC g) \<Longrightarrow> (\<forall>c \<in> set g. gap_char c) \<and> filter (\<lambda>c. c \<noteq> CHR '' '') g = g"
proof (induction g)
  case (Cons c g)
  then show ?case by (cases g) auto
qed simp

lemma rtrim_snoc: "rtrim (g @ [c]) = (if is_space c then rtrim g else g @ [c])"
  by (simp add: rtrim_def)

lemma rtrim_no_space: "g = [] \<or> \<not> is_space (last g) \<Longrightarrow> rtrim g = g"
  by (cases g rule: rev_cases) (auto simp: rtrim_snoc rtrim_def)

lemma spaced_gap:
  "spaced False (map SC g @ SH hp # s) \<Longrightarrow>
     (\<forall>c \<in> set g. gap_char c) \<and> rtrim g = filter (\<lambda>c. c \<noteq> CHR '' '') g \<and> spaced True s"
proof (induction g)
  case Nil
  then show ?case by (simp add: rtrim_def)
next
  case (Cons c g)
  then have IH: "\<forall>c \<in> set g. gap_char c" "rtrim g = filter (\<lambda>c. c \<noteq> CHR '' '') g" "spaced True s" by auto
  have c: "gap_char c" "c = CHR '' '' \<longrightarrow> g = []" using Cons.prems by (cases g; simp)+
  have "rtrim (c # g) = filter (\<lambda>c. c \<noteq> CHR '' '') (c # g)"
  proof (cases "c = CHR '' ''")
    case True
    then show ?thesis using c by (simp add: rtrim_def is_space_blank)
  next
    case False
    then have "\<not> is_space c" using c gap_char_space by simp
    then have "rtrim (c # g) = c # rtrim g"
    proof (induction g rule: rev_induct)
      case Nil
      then show ?case by (simp add: rtrim_def)
    next
      case (snoc x g)
      then show ?case using rtrim_snoc [of "c # g" x] by (simp add: rtrim_snoc)
    qed
    then show ?thesis using IH False by simp
  qed
  then show ?case using IH c by simp
qed

lemma split_syms: "(\<exists>g. s = map SC g) \<or> (\<exists>g hp r. s = map SC g @ SH hp # r)"
proof (induction s)
  case (Cons x s)
  show ?case
  proof (cases x)
    case (SC c)
    then show ?thesis using Cons.IH by (metis append_Cons list.simps(9))
  next
    case (SH hp)
    then show ?thesis by (metis append_Nil list.simps(8))
  qed
qed simp

lemma spaced_stops: "spaced True s \<Longrightarrow> stops (syms_text s)"
  by (cases "(True, s)" rule: spaced.cases) (auto simp: stops_def)

lemma text_no_space:
  assumes "spaced False s" "s = [] \<or> hd s \<noteq> SC CHR '' ''"
  shows "ltrim (syms_text s) = syms_text s"
proof (cases s)
  case (Cons x r)
  show ?thesis
  proof (cases x)
    case (SC c)
    then show ?thesis using assms Cons gap_char_space by (simp add: ltrim_def)
  next
    case (SH hp)
    obtain d ds where d: "predicate_text hp = d # ds" "is_digit 10 d"
      using predicate_text_digit [of hp] by (cases "predicate_text hp") auto
    then show ?thesis using SH Cons digit_not_space [of d] by (simp add: ltrim_def)
  qed
qed (simp add: ltrim_def)

lemma spaced_ltrim:
  assumes "spaced True s"
  shows "\<exists>s'. ltrim (syms_text s) = syms_text s' \<and> spaced False s' \<and> syms_regex s' = syms_regex s \<and> length s' \<le> length s"
proof -
  have drop: "ltrim (syms_text (SC CHR '' '' # r)) = ltrim (syms_text r)" for r
    by (simp add: ltrim_def is_space_blank)
  show ?thesis
  proof (cases "s \<noteq> [] \<and> hd s = SC CHR '' ''")
    case False
    then have f: "spaced False s" using assms by (cases "(True, s)" rule: spaced.cases) auto
    then show ?thesis using text_no_space [OF f] False by blast
  next
    case True
    then obtain r where r: "s = SC CHR '' '' # r" by (cases s) auto
    then have sr: "spaced False r" using assms by simp
    show ?thesis
    proof (cases "r \<noteq> [] \<and> hd r = SC CHR '' ''")
      case False
      then have "ltrim (syms_text r) = syms_text r" using text_no_space [OF sr] by blast
      then show ?thesis using r sr drop [of r] by (intro exI [of _ r]) simp
    next
      case True
      then obtain q where q: "r = SC CHR '' '' # q" by (cases r) auto
      then have "q \<noteq> []" "is_SH (hd q)" "spaced False q" using sr by simp_all
      then have "ltrim (syms_text q) = syms_text q" by (intro text_no_space) auto
      then show ?thesis
        using r q \<open>spaced False q\<close> drop [of r] drop [of q] by (intro exI [of _ q]) simp
    qed
  qed
qed

lemma translate_syms: "spaced False s \<Longrightarrow> translateHops (syms_text s) = Inr (syms_regex s)"
proof (induction "length s" arbitrary: s rule: less_induct)
  case less
  consider g where "s = map SC g" | g hp r where "s = map SC g @ SH hp # r" using split_syms by blast
  then show ?case
  proof cases
    case (1 g)
    then show ?thesis using spaced_gap_only [of g] less.prems by (simp add: translate_end syms_regex_SC)
  next
    case (2 g hp r)
    have g: "\<forall>c \<in> set g. gap_char c" "rtrim g = filter (\<lambda>c. c \<noteq> CHR '' '') g" "spaced True r"
      using spaced_gap [of g hp r] less.prems 2 by blast+
    obtain r' where r': "ltrim (syms_text r) = syms_text r'" "spaced False r'" "syms_regex r' = syms_regex r"
        "length r' \<le> length r"
      using spaced_ltrim [OF g(3)] by blast
    have "translateHops (syms_text r') = Inr (syms_regex r')" using less.hyps [of r'] r' 2 by simp
    then show ?thesis
      using translate_step [OF g(1) spaced_stops [OF g(3)], of hp] 2 r' g(2) by (simp add: syms_regex_SC)
  qed
qed

end
