(* ===== verification/PolicyCompile.thy ===== *)
theory PolicyCompile
  imports PolicyText
begin

text \<open>
  The regular expression of a hop expression compiles to the rendering of the expression. Tokens and
  terms are followed through the scanner and the parser piece by piece; a question mark behind a piece
  is excluded, since it would make a quantifier lazy.
\<close>

section \<open>Scanning\<close>

definition no_lazy :: "string \<Rightarrow> bool" where
  "no_lazy s \<longleftrightarrow> s = [] \<or> hd s \<noteq> CHR ''?''"

definition emit :: "token list \<Rightarrow> regex_issue + token list \<Rightarrow> regex_issue + token list" where
  "emit ts r = map_sum id (\<lambda>us. ts @ us) r"

lemma emit_simps [simp]: "emit [] r = r" "emit a (emit b r) = emit (a @ b) r"
  by (cases r; simp add: emit_def)+

definition scans :: "string \<Rightarrow> token list \<Rightarrow> bool" where
  "scans s ts \<longleftrightarrow> (\<forall>rest. no_lazy rest \<longrightarrow> scan (s @ rest) = emit ts (scan rest))"

lemma scans_Nil: "scans [] []"
  by (simp add: scans_def)

lemma scans_append: "scans a ts \<Longrightarrow> scans b us \<Longrightarrow> (\<And>rest. no_lazy rest \<Longrightarrow> no_lazy (b @ rest)) \<Longrightarrow> scans (a @ b) (ts @ us)"
  by (simp add: scans_def)

definition plain :: "char \<Rightarrow> bool" where
  "plain c \<longleftrightarrow> c \<notin> {backslash, CHR ''('', CHR '')'', CHR ''['', CHR ''{'', CHR ''*'', CHR ''+'', CHR ''?'', CHR ''|'',
                  CHR ''^'', CHR ''$'', CHR ''.''}"

lemma scan_one: "scan_token c s = Inr (t, rest) \<Longrightarrow> scan (c # s) = emit [t] (scan rest)"
  by (simp add: emit_def)

definition text_tokens :: "string \<Rightarrow> token list" where
  "text_tokens w = map (\<lambda>c. TSet False (char_set c)) w"

lemma scans_text: "\<forall>c \<in> set w. plain c \<Longrightarrow> scans w (text_tokens w)"
proof (induction w)
  case Nil
  then show ?case by (simp add: scans_Nil text_tokens_def)
next
  case (Cons c w)
  have "scan_token c s = Inr (TSet False (char_set c), s)" for s
    using Cons.prems by (auto simp: scan_token_def plain_def)
  then show ?case
    using Cons scan_one [of c] by (simp add: scans_def text_tokens_def del: scan.simps)
qed

lemma scans_open: "scans ''('' [TOpen]"
  by (auto simp: scans_def no_lazy_def scan_token_def scan_open_def emit_def split: list.split)

lemma scans_close: "scan ('')'' @ rest) = emit [TClose] (scan rest)"
  by (simp add: scan_token_def emit_def)

lemma scans_or: "scans ''|'' [TOr]"
  by (simp add: scans_def scan_token_def emit_def)

lemma quantifier_greedy: "no_lazy rest \<Longrightarrow> quantifier lo hi rest = (TQuant True lo hi, rest)"
  by (cases rest) (auto simp: quantifier_def no_lazy_def)

lemma scans_quantifiers:
  "scans ''*'' [TQuant True 0 None]" "scans ''+'' [TQuant True 1 None]" "scans ''?'' [TQuant True 0 (Some 1)]"
  by (simp_all add: scans_def scan_token_def emit_def quantifier_greedy)

definition digits_tokens :: "token list" where
  "digits_tokens = [TSet False [(False, digit_ranges)], TQuant True 1 None]"

definition as_tokens :: "token list" where
  "as_tokens = [TSet False [(False, [(48, 57)]), (False, [(97, 102)]), (False, [(58, 58)])], TQuant True 1 None]"

definition space_tokens :: "token list" where
  "space_tokens = [TSet False [(False, space_ranges)], TQuant True 0 (Some 1)]"

lemma scans_digits: "scans [backslash, CHR ''d'', CHR ''+''] digits_tokens"
  by (simp add: scans_def scan_token_def emit_def quantifier_greedy escape_token_def escape_char_def
      escape_class_def digits_tokens_def map_sum_def split: sum.split)

lemma scans_space: "scans [backslash, CHR ''s'', CHR ''?''] space_tokens"
  by (simp add: scans_def scan_token_def emit_def quantifier_greedy escape_token_def escape_char_def
      escape_class_def space_tokens_def map_sum_def split: sum.split)

lemma scans_as: "scans ''[0-9a-f:]+'' as_tokens"
  by (simp add: scans_def scan_token_def emit_def quantifier_greedy bracket_def as_tokens_def char_int_def
      char_set_def Let_def map_sum_def split: sum.split)

text \<open>The tokens of the expression a predicate is replaced by.\<close>

definition hop_tokens :: "HopPredicate \<Rightarrow> token list" where
  "hop_tokens hp =
     (let ia = hp_isdAsn hp; i = format_dec (unat (hp_ingress hp)); e = format_dec (unat (hp_egress hp));
          ifs = digits_tokens @ text_tokens '','' @ digits_tokens in
      [TOpen]
      @ (if IsdAsn_isd ia = 0 then
           digits_tokens @ text_tokens ''-'' @ as_tokens @ text_tokens ''#'' @ ifs
         else if IsdAsn_asn ia = 0 then
           text_tokens (Isd_format (IsdAsn_isd ia) @ ''-'') @ as_tokens @ text_tokens ''#'' @ ifs
         else if hp_ingress hp = 0 then text_tokens (IsdAsn_format ia @ ''#'') @ ifs
         else if hp_egress hp = 0 then
           text_tokens (IsdAsn_format ia @ ''#'')
           @ [TOpen] @ text_tokens (i @ '','') @ digits_tokens @ [TOr] @ digits_tokens @ text_tokens ('','' @ i) @ [TClose]
         else text_tokens (IsdAsn_format ia @ ''#'' @ i @ '','' @ e))
      @ space_tokens @ [TClose])"

lemma plain_digit: "is_digit 10 c \<Longrightarrow> plain c"
  by (auto simp: plain_def is_digit_def digit_value_def)

lemma plain_as: "as_char c \<Longrightarrow> plain c"
  by (auto simp: plain_def as_char_def in_class_def in_item_def char_int_cases)

lemma plain_formats:
  "\<forall>c \<in> set (format_dec n). plain c" "\<forall>c \<in> set (Isd_format isd). plain c" "\<forall>c \<in> set (IsdAsn_format ia). plain c"
  using plain_digit format_dec_digits plain_as as_char_Asn_format
  by (fastforce simp: Isd_format_def IsdAsn_format_def plain_def)+

lemma plain_chars [simp]: "plain CHR ''-''" "plain CHR ''#''" "plain CHR '',''"
  by (simp_all add: plain_def)

lemma scans_app: "scans a ts \<Longrightarrow> scans b us \<Longrightarrow> b \<noteq> [] \<Longrightarrow> hd b \<noteq> CHR ''?'' \<Longrightarrow> scans (a @ b) (ts @ us)"
  by (rule scans_append) (auto simp: no_lazy_def)

lemmas scans_parts = scans_digits scans_as scans_space scans_text

lemma scans_ifs:
  "scans ([backslash, CHR ''d'', CHR ''+''] @ '','' @ [backslash, CHR ''d'', CHR ''+''] @ [backslash, CHR ''s'', CHR ''?''])
     (digits_tokens @ text_tokens '','' @ digits_tokens @ space_tokens)"
  by (intro scans_app scans_parts) simp_all

lemma scans_body:
  "\<exists>body. HopPredicate_regex hp = ''('' @ body @ '')''
     \<and> body \<noteq> [] \<and> hd body \<noteq> CHR ''?''
     \<and> hop_tokens hp = [TOpen] @ butlast (List.tl (hop_tokens hp)) @ [TClose]
     \<and> scans body (butlast (List.tl (hop_tokens hp)))"
proof -
  let ?ia = "hp_isdAsn hp" and ?i = "format_dec (unat (hp_ingress hp))" and ?e = "format_dec (unat (hp_egress hp))"
  let ?d = "[backslash, CHR ''d'', CHR ''+'']" and ?s = "[backslash, CHR ''s'', CHR ''?'']"
  let ?dt = "digits_tokens" and ?tt = "text_tokens" and ?st = "space_tokens"
  have q: "hd (w @ u) \<noteq> CHR ''?''" if "w \<noteq> []" "\<forall>c \<in> set w. plain c" for w u
    using that by (cases w) (auto simp: plain_def)
  have ne: "IsdAsn_format ia \<noteq> []" "Isd_format isd \<noteq> []" for ia isd
    by (simp_all add: IsdAsn_format_def Isd_format_def)
  have q1: "hd w \<noteq> CHR ''?''" if "w \<noteq> []" "\<forall>c \<in> set w. plain c" for w
    using that by (cases w) (auto simp: plain_def)
  have tokens: "hop_tokens hp = [TOpen] @ butlast (List.tl (hop_tokens hp)) @ [TClose]" if "hop_tokens hp = [TOpen] @ ts @ [TClose]" for ts
    by (simp add: that butlast_append)
  consider (any) "IsdAsn_isd ?ia = 0" | (isd) "IsdAsn_isd ?ia \<noteq> 0" "IsdAsn_asn ?ia = 0"
    | (as) "IsdAsn_isd ?ia \<noteq> 0" "IsdAsn_asn ?ia \<noteq> 0" "hp_ingress hp = 0"
    | (ing) "IsdAsn_isd ?ia \<noteq> 0" "IsdAsn_asn ?ia \<noteq> 0" "hp_ingress hp \<noteq> 0" "hp_egress hp = 0"
    | (both) "IsdAsn_isd ?ia \<noteq> 0" "IsdAsn_asn ?ia \<noteq> 0" "hp_ingress hp \<noteq> 0" "hp_egress hp \<noteq> 0"
    by blast
  then obtain body ts where b: "HopPredicate_regex hp = ''('' @ body @ '')''" "body \<noteq> []" "hd body \<noteq> CHR ''?''"
      "hop_tokens hp = [TOpen] @ ts @ [TClose]" "scans body ts"
  proof cases
    case any
    show thesis
    proof (rule that)
      show "scans (?d @ ''-'' @ ''[0-9a-f:]+'' @ ''#'' @ ?d @ '','' @ ?d @ ?s)
          (?dt @ ?tt ''-'' @ as_tokens @ ?tt ''#'' @ ?dt @ ?tt '','' @ ?dt @ ?st)"
        by (intro scans_app scans_parts) simp_all
    qed (use any in \<open>simp_all add: HopPredicate_regex_def hop_tokens_def Let_def Isd_isUnspecified_def\<close>)
  next
    case isd
    show thesis
    proof (rule that)
      show "scans ((Isd_format (IsdAsn_isd ?ia) @ ''-'') @ ''[0-9a-f:]+'' @ ''#'' @ ?d @ '','' @ ?d @ ?s)
          (?tt (Isd_format (IsdAsn_isd ?ia) @ ''-'') @ as_tokens @ ?tt ''#'' @ ?dt @ ?tt '','' @ ?dt @ ?st)"
        by (intro scans_app scans_parts) (simp_all add: plain_formats)
    qed (use isd in \<open>simp_all add: HopPredicate_regex_def hop_tokens_def Let_def Isd_isUnspecified_def
          Asn_isUnspecified_def q q1 ne plain_formats\<close>)
  next
    case as
    show thesis
    proof (rule that)
      show "scans ((IsdAsn_format ?ia @ ''#'') @ ?d @ '','' @ ?d @ ?s)
          (?tt (IsdAsn_format ?ia @ ''#'') @ ?dt @ ?tt '','' @ ?dt @ ?st)"
        by (intro scans_app scans_parts) (simp_all add: plain_formats)
    qed (use as in \<open>simp_all add: HopPredicate_regex_def hop_tokens_def Let_def Isd_isUnspecified_def
          Asn_isUnspecified_def q q1 ne plain_formats\<close>)
  next
    case ing
    show thesis
    proof (rule that)
      have close: "scans '')'' [TClose]" using scans_close by (simp add: scans_def)
      show "scans ((IsdAsn_format ?ia @ ''#'') @ ''('' @ (?i @ '','') @ ?d @ ''|'' @ ?d @ ('','' @ ?i) @ '')'' @ ?s)
          (?tt (IsdAsn_format ?ia @ ''#'') @ [TOpen] @ ?tt (?i @ '','') @ ?dt @ [TOr] @ ?dt @ ?tt ('','' @ ?i) @ [TClose] @ ?st)"
        by (intro scans_app scans_parts scans_open scans_or close) (simp_all add: plain_formats q q1 format_dec_nonempty)
    qed (use ing in \<open>simp_all add: HopPredicate_regex_def hop_tokens_def Let_def Isd_isUnspecified_def
          Asn_isUnspecified_def q q1 ne plain_formats\<close>)
  next
    case both
    show thesis
    proof (rule that)
      show "scans ((IsdAsn_format ?ia @ ''#'' @ ?i @ '','' @ ?e) @ ?s) (?tt (IsdAsn_format ?ia @ ''#'' @ ?i @ '','' @ ?e) @ ?st)"
        by (intro scans_app scans_parts) (auto simp: plain_formats)
    qed (use both in \<open>simp_all add: HopPredicate_regex_def hop_tokens_def Let_def Isd_isUnspecified_def
          Asn_isUnspecified_def q q1 ne plain_formats\<close>)
  qed
  show ?thesis
    by (rule exI [of _ body]) (use b tokens [OF b(4)] in \<open>simp add: butlast_append\<close>)
qed

lemma scan_hop: "scan (HopPredicate_regex hp @ rest) = emit (hop_tokens hp) (scan rest)"
proof -
  obtain body where b: "HopPredicate_regex hp = ''('' @ body @ '')''" "body \<noteq> []" "hd body \<noteq> CHR ''?''"
      "hop_tokens hp = [TOpen] @ butlast (List.tl (hop_tokens hp)) @ [TClose]"
      "scans body (butlast (List.tl (hop_tokens hp)))"
    using scans_body [of hp] by blast
  have "scan (HopPredicate_regex hp @ rest) = scan (''('' @ body @ '')'' @ rest)" by (simp add: b(1))
  also have "\<dots> = emit [TOpen] (scan (body @ '')'' @ rest))"
    using scans_open b(2,3) by (simp only: scans_def) (simp add: no_lazy_def)
  also have "scan (body @ '')'' @ rest) = emit (butlast (List.tl (hop_tokens hp))) (scan ('')'' @ rest))"
    using b(5) by (simp add: scans_def no_lazy_def)
  also have "scan ('')'' @ rest) = emit [TClose] (scan rest)" by (rule scans_close)
  finally show ?thesis using b(4) by simp
qed

section \<open>Parsing\<close>

definition fills :: "token list \<Rightarrow> regex list \<Rightarrow> bool" where
  "fills ts rs \<longleftrightarrow> (\<forall>l gs us. parse_tokens l gs (ts @ us) =
     parse_tokens (fst l, rev (map (\<lambda>r. (r, True)) rs) @ snd l) gs us)"

lemma fills_Nil: "fills [] []"
  by (simp add: fills_def)

lemma fills_app: "fills ts rs \<Longrightarrow> fills us qs \<Longrightarrow> fills (ts @ us) (rs @ qs)"
  by (simp add: fills_def)

lemma fills_set: "fills [TSet neg items] [RSet neg items]"
  by (simp add: fills_def)

lemma fills_text: "fills (text_tokens w) (re_text w)"
proof (induction w)
  case (Cons c w)
  have "fills ([TSet False (char_set c)] @ text_tokens w) ([RSet False (char_set c)] @ re_text w)"
    by (rule fills_app [OF fills_set Cons])
  then show ?case by (simp add: text_tokens_def re_text_def re_char_def)
qed (simp add: fills_Nil text_tokens_def re_text_def)

lemma fills_quant: "fills ts [r] \<Longrightarrow> fills (ts @ [TQuant g lo hi]) [quantified g lo hi r]"
  by (simp add: fills_def)

lemma quantified_simps:
  "quantified g 0 None r = RStar g r" "quantified g 1 None r = RSeq r (RStar g r)"
  "quantified True 0 (Some 1) r = re_opt r"
  by (simp_all add: quantified_def re_opt_def)

lemma fills_digits: "fills digits_tokens [re_digits]"
  using fills_quant [OF fills_set [of False "[(False, digit_ranges)]"], of True 1 None]
  by (simp add: digits_tokens_def quantified_simps re_digits_def re_digit_def del: One_nat_def)

lemma fills_as: "fills as_tokens [re_plus re_as]"
  using fills_quant [OF fills_set [of False "[(False, [(48, 57)]), (False, [(97, 102)]), (False, [(58, 58)])]"], of True 1 None]
  by (simp add: as_tokens_def quantified_simps re_plus_def re_as_def del: One_nat_def)

lemma fills_space: "fills space_tokens [re_opt re_space]"
  using fills_quant [OF fills_set [of False "[(False, space_ranges)]"], of True 0 "Some 1"]
  by (simp add: space_tokens_def quantified_simps re_space_def del: One_nat_def)

lemma sequence_of_terms: "sequence_of (rev (map (\<lambda>r. (r, True)) rs)) = re_seq rs"
  by (induction rs) (simp_all add: sequence_of_def re_seq_def)

lemma fills_group: "fills ts rs \<Longrightarrow> fills (TOpen # ts @ [TClose]) [re_seq rs]"
  by (simp add: fills_def close_level_def sequence_of_terms)

lemma fills_choice: "fills ts rs \<Longrightarrow> fills us qs \<Longrightarrow> fills (TOpen # ts @ TOr # us @ [TClose]) [RAlt (re_seq rs) (re_seq qs)]"
  by (simp add: fills_def close_level_def sequence_of_terms)

lemmas fills_parts = fills_digits fills_as fills_space fills_text

lemma fills_hop: "fills (hop_tokens hp) [hop_regex hp]"
proof -
  let ?ia = "hp_isdAsn hp" and ?i = "format_dec (unat (hp_ingress hp))" and ?e = "format_dec (unat (hp_egress hp))"
  have comma: "re_text '','' = [re_char CHR '','']" "re_text ''#'' = [re_char CHR ''#'']" "re_text ''-'' = [re_char CHR ''-'']"
    by (simp_all add: re_text_def)
  have ifs: "fills (digits_tokens @ text_tokens '','' @ digits_tokens) ([re_digits] @ [re_char CHR '',''] @ [re_digits])"
    unfolding comma(1) [symmetric] by (intro fills_app fills_parts)
  have any: "fills (as_tokens @ text_tokens ''#'' @ (digits_tokens @ text_tokens '','' @ digits_tokens) @ space_tokens)
      ([re_plus re_as] @ [re_char CHR ''#''] @ ([re_digits] @ [re_char CHR '',''] @ [re_digits]) @ [re_opt re_space])"
    unfolding comma(2) [symmetric] by (intro fills_app fills_parts ifs)
  have minus: "fills (text_tokens (w @ ''-'')) (re_text w @ [re_char CHR ''-''])" for w
    using fills_text [of "w @ ''-''"] by (simp add: re_text_def)
  consider (any) "IsdAsn_isd ?ia = 0" | (isd) "IsdAsn_isd ?ia \<noteq> 0" "IsdAsn_asn ?ia = 0"
    | (as) "IsdAsn_isd ?ia \<noteq> 0" "IsdAsn_asn ?ia \<noteq> 0" "hp_ingress hp = 0"
    | (ing) "IsdAsn_isd ?ia \<noteq> 0" "IsdAsn_asn ?ia \<noteq> 0" "hp_ingress hp \<noteq> 0" "hp_egress hp = 0"
    | (both) "IsdAsn_isd ?ia \<noteq> 0" "IsdAsn_asn ?ia \<noteq> 0" "hp_ingress hp \<noteq> 0" "hp_egress hp \<noteq> 0"
    by blast
  then show ?thesis
  proof cases
    case any
    have "fills (digits_tokens @ text_tokens ''-'' @ as_tokens @ text_tokens ''#''
        @ (digits_tokens @ text_tokens '','' @ digits_tokens) @ space_tokens)
      ([re_digits] @ [re_char CHR ''-''] @ [re_plus re_as] @ [re_char CHR ''#'']
        @ ([re_digits] @ [re_char CHR '',''] @ [re_digits]) @ [re_opt re_space])"
      unfolding comma(3) [symmetric] by (intro fills_app fills_parts \<open>fills (as_tokens @ _) _\<close>)
    from fills_group [OF this] show ?thesis using any by (simp add: hop_tokens_def hop_regex_cases Let_def)
  next
    case isd
    from fills_group [OF fills_app [OF minus [of "Isd_format (IsdAsn_isd ?ia)"] \<open>fills (as_tokens @ _) _\<close>]] isd show ?thesis
      by (simp add: hop_tokens_def hop_regex_cases Let_def)
  next
    case as
    from fills_group [OF fills_app [OF fills_text [of "IsdAsn_format ?ia @ ''#''"] fills_app [OF ifs fills_space]]] as
    show ?thesis by (simp add: hop_tokens_def hop_regex_cases Let_def)
  next
    case ing
    have "fills (TOpen # (text_tokens (?i @ '','') @ digits_tokens) @ TOr # (digits_tokens @ text_tokens ('','' @ ?i)) @ [TClose])
        [RAlt (re_seq (re_text (?i @ '','') @ [re_digits])) (re_seq ([re_digits] @ re_text ('','' @ ?i)))]"
      by (intro fills_choice fills_app fills_parts)
    from fills_group [OF fills_app [OF fills_text [of "IsdAsn_format ?ia @ ''#''"] fills_app [OF this fills_space]]] ing
    show ?thesis by (simp add: hop_tokens_def hop_regex_cases Let_def)
  next
    case both
    from fills_group [OF fills_app [OF fills_text [of "IsdAsn_format ?ia @ ''#'' @ ?i @ '','' @ ?e"] fills_space]] both
    show ?thesis by (simp add: hop_tokens_def hop_regex_cases Let_def)
  qed
qed

end
