(* ===== verification/PolicyMeaning.thy ===== *)
theory PolicyMeaning
  imports PolicyCompile
begin

text \<open>
  The text of a hop expression: the code translates it to a regular expression that matches the text of
  a path exactly when the expression describes the hops of the path.
\<close>

section \<open>The symbols of an expression\<close>

text \<open>Sequences and alternatives stand in parentheses, and so does what is repeated.\<close>

definition grouped :: "hop_expr \<Rightarrow> sym list \<Rightarrow> sym list" where
  "grouped e s = (if is_hop e \<or> is_group e then s else SC CHR ''('' # s @ [SC CHR '')''])"

primrec core :: "hop_expr \<Rightarrow> sym list" where
  "core (HHop hp) = [SH hp]"
| "core (HSeq es) = SC CHR ''('' # concat (map core es) @ [SC CHR '')'']"
| "core (HAlt a b) = SC CHR ''('' # core a @ SC CHR ''|'' # core b @ [SC CHR '')'']"
| "core (HStar e) = grouped e (core e) @ [SC CHR ''*'']"
| "core (HPlus e) = grouped e (core e) @ [SC CHR ''+'']"
| "core (HOpt e) = grouped e (core e) @ [SC CHR ''?'']"

text \<open>The outermost parentheses are left out.\<close>

fun content :: "hop_expr \<Rightarrow> sym list" where
  "content (HSeq es) = concat (map core es)"
| "content (HAlt a b) = core a @ SC CHR ''|'' # core b"
| "content e = core e"

definition grouped_tokens :: "hop_expr \<Rightarrow> token list \<Rightarrow> token list" where
  "grouped_tokens e ts = (if is_hop e \<or> is_group e then ts else TOpen # ts @ [TClose])"

primrec expr_tokens :: "hop_expr \<Rightarrow> token list" where
  "expr_tokens (HHop hp) = hop_tokens hp"
| "expr_tokens (HSeq es) = TOpen # concat (map expr_tokens es) @ [TClose]"
| "expr_tokens (HAlt a b) = TOpen # expr_tokens a @ TOr # expr_tokens b @ [TClose]"
| "expr_tokens (HStar e) = grouped_tokens e (expr_tokens e) @ [TQuant True 0 None]"
| "expr_tokens (HPlus e) = grouped_tokens e (expr_tokens e) @ [TQuant True 1 None]"
| "expr_tokens (HOpt e) = grouped_tokens e (expr_tokens e) @ [TQuant True 0 (Some 1)]"

fun content_tokens :: "hop_expr \<Rightarrow> token list" where
  "content_tokens (HSeq es) = concat (map expr_tokens es)"
| "content_tokens (HAlt a b) = expr_tokens a @ TOr # expr_tokens b"
| "content_tokens e = expr_tokens e"

section \<open>Scanning an expression\<close>

definition scans_before :: "string \<Rightarrow> token list \<Rightarrow> bool" where
  "scans_before s ts \<longleftrightarrow> (\<forall>rest. scan (s @ rest) = emit ts (scan rest))"

lemma scans_before: "scans_before s ts \<Longrightarrow> scans s ts"
  by (simp add: scans_before_def scans_def)

lemma scans_before_append: "scans_before a ts \<Longrightarrow> scans b us \<Longrightarrow> scans (a @ b) (ts @ us)"
  by (simp add: scans_before_def scans_def)

lemma scans_group:
  assumes "scans s ts" "no_lazy s"
  shows "scans_before (''('' @ s @ '')'') (TOpen # ts @ [TClose])"
  unfolding scans_before_def
proof
  fix rest
  have "no_lazy (s @ '')'' @ rest)" using assms(2) by (cases s) (simp_all add: no_lazy_def)
  then have "scan (''('' @ s @ '')'' @ rest) = emit [TOpen] (scan (s @ '')'' @ rest))"
    using scans_open by (simp only: scans_def)
  also have "scan (s @ '')'' @ rest) = emit ts (scan ('')'' @ rest))"
    using assms(1) by (simp add: scans_def no_lazy_def)
  also have "scan ('')'' @ rest) = emit [TClose] (scan rest)" by (rule scans_close)
  finally show "scan ((''('' @ s @ '')'') @ rest) = emit (TOpen # ts @ [TClose]) (scan rest)" by simp
qed

lemma core_open: "\<exists>w. syms_regex (core e) = CHR ''('' # w"
proof (induction e)
  case (HHop hp)
  show ?case using scans_body [of hp] by auto
qed (auto simp: grouped_def)

lemma scans_cores:
  assumes "\<And>e. e \<in> set es \<Longrightarrow> scans (syms_regex (core e)) (expr_tokens e)"
  shows "no_lazy (syms_regex (concat (map core es)))
         \<and> scans (syms_regex (concat (map core es))) (concat (map expr_tokens es))"
  using assms
proof (induction es)
  case (Cons e es)
  then have IH: "no_lazy (syms_regex (concat (map core es)))"
      "scans (syms_regex (concat (map core es))) (concat (map expr_tokens es))" by simp_all
  have "no_lazy (syms_regex (concat (map core es)) @ rest)" if "no_lazy rest" for rest
    using IH(1) that by (cases "syms_regex (concat (map core es))") (simp_all add: no_lazy_def)
  then have "scans (syms_regex (core e) @ syms_regex (concat (map core es))) (expr_tokens e @ concat (map expr_tokens es))"
    using Cons.prems IH(2) by (intro scans_append) simp_all
  then show ?case using core_open [of e] by (auto simp: no_lazy_def)
qed (simp add: scans_Nil no_lazy_def)

lemma scans_alternative:
  assumes "scans (syms_regex (core a)) ts" "scans (syms_regex (core b)) us"
  shows "scans (syms_regex (core a @ SC CHR ''|'' # core b)) (ts @ TOr # us)"
proof -
  have "scans (''|'' @ syms_regex (core b)) ([TOr] @ us)"
    using core_open [of b] by (intro scans_app scans_or assms(2)) auto
  from scans_app [OF assms(1) this] show ?thesis by simp
qed

lemma scans_operand:
  assumes "scans (syms_regex (core e)) (expr_tokens e)"
    and "is_hop e \<or> is_group e \<Longrightarrow> scans_before (syms_regex (core e)) (expr_tokens e)"
  shows "scans_before (syms_regex (grouped e (core e))) (grouped_tokens e (expr_tokens e))"
proof (cases "is_hop e \<or> is_group e")
  case False
  have "no_lazy (syms_regex (core e))" using core_open [of e] by (auto simp: no_lazy_def)
  from scans_group [OF assms(1) this] False show ?thesis by (simp add: grouped_def grouped_tokens_def)
qed (use assms(2) in \<open>simp add: grouped_def grouped_tokens_def\<close>)

lemma scans_core:
  "scans (syms_regex (core e)) (expr_tokens e)
   \<and> (is_hop e \<or> is_group e \<longrightarrow> scans_before (syms_regex (core e)) (expr_tokens e))"
proof (induction e)
  case (HHop hp)
  then show ?case using scan_hop [of hp] by (simp add: scans_before_def scans_def)
next
  case (HSeq es)
  have "no_lazy (syms_regex (concat (map core es)))"
      "scans (syms_regex (concat (map core es))) (concat (map expr_tokens es))"
    using scans_cores [of es] HSeq by blast+
  from scans_group [OF this(2,1)] have "scans_before (syms_regex (core (HSeq es))) (expr_tokens (HSeq es))" by simp
  then show ?case by (simp only: scans_before simp_thms)
next
  case (HAlt a b)
  have "no_lazy (syms_regex (core a @ SC CHR ''|'' # core b))" using core_open [of a] by (auto simp: no_lazy_def)
  from scans_group [OF scans_alternative this, of "expr_tokens a" "expr_tokens b"] HAlt
  have "scans_before (syms_regex (core (HAlt a b))) (expr_tokens (HAlt a b))" by simp
  then show ?case by (simp only: scans_before simp_thms)
next
  case (HStar e)
  have "scans_before (syms_regex (grouped e (core e))) (grouped_tokens e (expr_tokens e))"
    using HStar by (intro scans_operand) blast+
  from scans_before_append [OF this scans_quantifiers(1)] show ?case by simp
next
  case (HPlus e)
  have "scans_before (syms_regex (grouped e (core e))) (grouped_tokens e (expr_tokens e))"
    using HPlus by (intro scans_operand) blast+
  from scans_before_append [OF this scans_quantifiers(2)] show ?case by simp
next
  case (HOpt e)
  have "scans_before (syms_regex (grouped e (core e))) (grouped_tokens e (expr_tokens e))"
    using HOpt by (intro scans_operand) blast+
  from scans_before_append [OF this scans_quantifiers(3)] show ?case by simp
qed

lemma scan_content: "scan (syms_regex (content e)) = Inr (content_tokens e)"
proof -
  have "scans (syms_regex (content e)) (content_tokens e)"
  proof (cases e)
    case (HSeq es)
    then show ?thesis using scans_cores [of es] scans_core by simp
  next
    case (HAlt a b)
    have "scans (syms_regex (core a @ SC CHR ''|'' # core b)) (expr_tokens a @ TOr # expr_tokens b)"
      using scans_core by (intro scans_alternative) blast+
    then show ?thesis using HAlt by simp
  qed (use scans_core [of e] in simp_all)
  then have "scan (syms_regex (content e) @ []) = emit (content_tokens e) (scan [])"
    unfolding scans_def by (simp only: no_lazy_def simp_thms)
  then show ?thesis by (simp add: emit_def)
qed

section \<open>Parsing an expression\<close>

lemma fills_list: "(\<And>e. e \<in> set es \<Longrightarrow> fills (f e) [g e]) \<Longrightarrow> fills (concat (map f es)) (map g es)"
proof (induction es)
  case (Cons e es)
  then have "fills (f e @ concat (map f es)) ([g e] @ map g es)" by (intro fills_app) simp_all
  then show ?case by simp
qed (simp add: fills_Nil)

lemma fills_operand:
  "fills (expr_tokens e) [expr_regex e] \<Longrightarrow> fills (grouped_tokens e (expr_tokens e)) [operand e (expr_regex e)]"
  using fills_group [of "expr_tokens e" "[expr_regex e]"] by (simp add: grouped_tokens_def operand_def)

lemma fills_expr: "fills (expr_tokens e) [expr_regex e]"
proof (induction e)
  case (HHop hp)
  then show ?case by (simp add: fills_hop)
next
  case (HSeq es)
  show ?case using fills_group [OF fills_list [of es expr_tokens expr_regex, OF HSeq]] by simp
next
  case (HAlt a b)
  then show ?case using fills_choice [OF HAlt] by simp
next
  case (HStar e)
  from fills_quant [OF fills_operand [OF HStar], of True 0 None] show ?case by (simp add: quantified_simps)
next
  case (HPlus e)
  from fills_quant [OF fills_operand [OF HPlus], of True 1 None] show ?case
    by (simp add: quantified_simps del: One_nat_def)
next
  case (HOpt e)
  from fills_quant [OF fills_operand [OF HOpt], of True 0 "Some 1"] show ?case
    by (simp add: quantified_simps re_opt_def del: One_nat_def)
qed

definition content_regex :: "hop_expr \<Rightarrow> regex" where
  "content_regex e = (if is_group e then expr_regex e else re_seq [expr_regex e])"

lemma fills_top: "fills ts rs \<Longrightarrow> parse_tokens ([], []) [] ts = Some (re_seq rs)"
  unfolding fills_def
  by (drule spec [of _ "([], [])"], drule spec [of _ "[]"], drule spec [of _ "[]"])
     (simp add: close_level_def sequence_of_terms)

lemma parse_content: "parse_tokens ([], []) [] (content_tokens e) = Some (content_regex e)"
proof (cases e)
  case (HSeq es)
  from fills_top [OF fills_list [of es expr_tokens expr_regex, OF fills_expr]] HSeq
  show ?thesis by (simp add: content_regex_def)
next
  case (HAlt a b)
  have "parse_tokens ([], []) [] (expr_tokens a @ TOr # expr_tokens b)
      = parse_tokens ([re_seq [expr_regex a]], []) [] (expr_tokens b @ [])"
    using fills_expr [of a] sequence_of_terms [of "[expr_regex a]"] by (simp add: fills_def)
  also have "\<dots> = Some (RAlt (re_seq [expr_regex a]) (re_seq [expr_regex b]))"
    using fills_expr [of b] sequence_of_terms [of "[expr_regex b]"]
    by (simp only: fills_def) (simp add: close_level_def)
  finally show ?thesis using HAlt by (simp add: content_regex_def)
qed (use fills_top [OF fills_expr [of e]] in \<open>simp_all add: content_regex_def\<close>)

lemma compile_content: "regex_compile (syms_regex (content e)) = Inr (content_regex e)"
  by (simp add: regex_compile_def scan_content parse_content)

section \<open>What a sequence means\<close>

lemma context_free_seq [simp]: "context_free (re_seq rs) \<longleftrightarrow> (\<forall>r \<in> set rs. context_free r)"
  by (induction rs) (simp_all add: re_seq_def)

lemma context_free_text: "r \<in> set (re_text w) \<Longrightarrow> context_free r"
  by (auto simp: re_text_def re_char_def)

lemma context_free_hop: "context_free (hop_regex hp)"
  by (auto simp: hop_regex_def Let_def re_char_def re_digits_def re_digit_def re_plus_def re_as_def re_opt_def
      re_space_def dest: context_free_text)

lemma context_free_expr: "context_free (expr_regex e)"
  by (induction e) (simp_all add: context_free_hop operand_def)

lemma content_regex_match: "regex_match (content_regex e) (interfacesToSeqExpr hops) \<longleftrightarrow> takes e hops []"
proof -
  have "regex_match (content_regex e) s \<longleftrightarrow> regex_match (expr_regex e) s" for s
    using context_free_expr [of e] by (simp add: content_regex_def regex_match_reads reads_one_seq)
  then show ?thesis by (simp add: expr_regex_match [OF context_free_expr])
qed

lemma syms_regex_spaces: "syms_regex (filter (\<lambda>x. x \<noteq> SC CHR '' '') s) = syms_regex s"
proof (induction s)
  case (Cons x s)
  then show ?case by (cases x) simp_all
qed simp

text \<open>C36: The text of a hop expression, predicates combined with sequence, \<open>|\<close>, \<open>*\<close>, \<open>+\<close>, \<open>?\<close> and
  parentheses, with spaces only next to predicates, is accepted as the sequence of a policy, and a
  policy with it lets a list of hops through exactly when the expression describes the list, whatever
  else the policy's regular expressions could match in the text of the hops. A predicate whose ISD is 0
  describes every hop, one whose ASN is 0 every hop of its ISD, and one whose ingress interface is 0
  every hop of its AS (\<open>sequence_matches\<close>).
\<close>

theorem sequence_meaning:
  assumes "spaced False s" and "filter (\<lambda>x. x \<noteq> SC CHR '' '') s = content e"
  shows "\<exists>r. translateHopSeqExprToRegex external (syms_text s) = Inr r
           \<and> (\<forall>pol hops. m_sequence pol = Some r \<longrightarrow> matchSequence pol hops = takes e hops [])"
proof -
  have "translateHops (syms_text s) = Inr (syms_regex (content e))"
    using translate_syms [OF assms(1)] syms_regex_spaces [of s] assms(2) by simp
  then have "translateHopSeqExprToRegex external (syms_text s) = Inr (Compiled (content_regex e))"
    by (simp add: translateHopSeqExprToRegex_def std_regex_make_def compile_content)
  then show ?thesis by (simp add: matchSequence_def content_regex_match)
qed

text \<open>The sequence of every path that ends in the AS 2-1.\<close>

definition any_hop :: HopPredicate where
  "any_hop = \<lparr>hp_isdAsn = 0, hp_ingress = 0, hp_egress = 0\<rparr>"

definition last_hop :: HopPredicate where
  "last_hop = \<lparr>hp_isdAsn = 0x2000000000001, hp_ingress = 0, hp_egress = 0\<rparr>"

definition example_expr :: hop_expr where
  "example_expr = HSeq [HStar (HHop any_hop), HHop last_hop]"

definition example_syms :: "sym list" where
  "example_syms = [SH any_hop, SC CHR ''*'', SC CHR '' '', SH last_hop]"

lemma parts_2_1: "IsdAsn_isd 0x2000000000001 = 2" "IsdAsn_asn 0x2000000000001 = 1"
  by (simp_all add: IsdAsn_isd_def IsdAsn_asn_def Asn_BITS_def)

lemma example_text: "syms_text example_syms = ''0* 2-1''"
  by (simp add: example_syms_def predicate_text_def any_hop_def last_hop_def interfaces_text_def Isd_format_def
      IsdAsn_format_def Asn_format_def parts_2_1 Asn_MAX_BGP_VALUE_def format_dec_def format_uint_def digit_char_def
      IsdAsn_isd_def [of 0] IsdAsn_asn_def [of 0] to_digits.simps char_of_def bit_0)

lemma example_spaced: "spaced False example_syms" "filter (\<lambda>x. x \<noteq> SC CHR '' '') example_syms = content example_expr"
  by (simp_all add: example_syms_def example_expr_def grouped_def gap_char_def)

lemma takes_any: "takes (HStar (HHop any_hop)) hs ks \<longleftrightarrow> (\<exists>pre. hs = pre @ ks)"
proof
  assume "takes (HStar (HHop any_hop)) hs ks"
  then have "(takes (HHop any_hop))\<^sup>*\<^sup>* hs ks" by simp
  then show "\<exists>pre. hs = pre @ ks"
  proof (induction rule: converse_rtranclp_induct)
    case (step hs js)
    then show ?case by (metis append_Cons takes.simps(1))
  qed simp
next
  have hop: "takes (HHop any_hop) (h # hs) hs" for h hs
    by (simp add: sequence_matches_def any_hop_def IsdAsn_isd_def)
  assume "\<exists>pre. hs = pre @ ks"
  then obtain pre where "hs = pre @ ks" by blast
  then have "(takes (HHop any_hop))\<^sup>*\<^sup>* hs ks"
  proof (induction pre arbitrary: hs)
    case (Cons h pre)
    then show ?case by (metis append_Cons converse_rtranclp_into_rtranclp hop)
  qed simp
  then show "takes (HStar (HHop any_hop)) hs ks" by simp
qed

lemma takes_example: "takes example_expr hops [] \<longleftrightarrow> hops \<noteq> [] \<and> ph_isdAsn (last hops) = 0x2000000000001"
proof -
  have "sequence_matches last_hop h \<longleftrightarrow> ph_isdAsn h = 0x2000000000001" for h
    using IsdAsn_make_parts [of "ph_isdAsn h"] IsdAsn_make_parts [of "0x2000000000001"]
    by (auto simp: sequence_matches_def last_hop_def parts_2_1 simp del: IsdAsn_make_parts)
  then have "takes example_expr hops [] \<longleftrightarrow> (\<exists>pre h. hops = pre @ [h] \<and> ph_isdAsn h = 0x2000000000001)"
    by (auto simp: example_expr_def relcompp_apply takes_any simp del: takes.simps(4))
  then show ?thesis by (cases hops rule: rev_cases) auto
qed

theorem sequence_meaning_witness:
  "\<exists>r. translateHopSeqExprToRegex (\<lambda>_. None) ''0* 2-1'' = Inr r
     \<and> matchSequence (Policy_default\<lparr>m_sequence := Some r\<rparr>)
         [PathHop 1 0 7, PathHop 0x2000000000001 3 0]
     \<and> \<not> matchSequence (Policy_default\<lparr>m_sequence := Some r\<rparr>)
         [PathHop 0x2000000000001 0 3, PathHop 1 7 0]"
proof -
  obtain r where "translateHopSeqExprToRegex (\<lambda>_. None) ''0* 2-1'' = Inr r"
      "\<And>pol hops. m_sequence pol = Some r \<Longrightarrow> matchSequence pol hops = takes example_expr hops []"
    using sequence_meaning [OF example_spaced, of "\<lambda>_. None"] by (auto simp: example_text)
  then show ?thesis by (auto simp: takes_example)
qed

end
