(* ===== verification/Spec2Isabelle.thy ===== *)
theory Spec2Isabelle
  imports AddressProperties HeaderProperties HdrIp HdrScmp PathProperties PathMtuSpec PathCacheProperties StunSpec PackagerSpec TcpSpec TranslatorWire PolicyMeaning
begin

text \<open>
  A model of the core of scion-cpp, a library for hosts in a SCION network, and of scitra, its
  translator between IPv6 and SCION, with the theorems that make them correct.

  \<^bold>\<open>The program.\<close> A socket packs a payload into a SCION packet and unpacks received ones. The packet logic
  is in \<open>ScionPackager\<close> (\<open>include/scion/socket/packager.hpp\<close>), which builds headers in a \<open>HeaderCache\<close>
  (\<open>header_cache.hpp\<close>) and takes packets apart with \<open>ParsedPacket\<close> (\<open>parsed_packet.hpp\<close>). These rest on the
  header classes (\<open>include/scion/hdr\<close>), which read and write bit streams (\<open>include/scion/bit_stream.hpp\<close>)
  with one template for both directions, on addresses (\<open>include/scion/addr\<close>) and on paths
  (\<open>include/scion/path\<close>). Paths come from a path provider, are kept in a \<open>PathCache\<close> and chosen by a
  \<open>PolicySet\<close>; SCMP messages from routers go through handlers that mark paths as broken and lower path MTUs
  (\<open>include/scion/scmp\<close>). The translator parses IPv6 and SCION packets into a \<open>PacketBuffer\<close>, rewrites one
  into the other in place and emits the result (\<open>scitra/include/scitra\<close>, \<open>scitra/src\<close>).

  \<^bold>\<open>The theories\<close>, with the files they model:

  \<^item> \<open>Prelude\<close>: bytes, words, bit strings and generic lemmas. \<open>Strings\<close>: \<open>error_codes.hpp\<close> and what the code
    uses of the string functions of the C++ library and of Boost.
  \<^item> \<open>BitStream\<close>: \<open>bit_stream.hpp\<close>, every operation of both stream classes as a function from a stream to an
    error or a value and a stream. \<open>StreamSpec\<close> specifies them on bit strings, \<open>StreamBounds\<close> shows that none leaves
    its buffer. \<open>Codec\<close> holds the contracts of a \<open>serialize\<close> template: \<open>codec\<close> (what is written is read back),
    \<open>checked_codec\<close> (and only valid values are read) and \<open>strict_codec\<close> (and only encodings are read).
  \<^item> \<open>IsdAsn\<close>, \<open>IPAddress\<close>, \<open>IPAddressSpec\<close>, \<open>IPAddressText\<close>, \<open>Address\<close>, \<open>AddressProperties\<close>: \<open>isd_asn.hpp\<close>,
    \<open>generic_ip.hpp\<close>, \<open>address.hpp\<close>, \<open>endpoint.hpp\<close>, \<open>mapping.hpp\<close> and their sources under \<open>src/addr\<close>.
  \<^item> \<open>Checksum\<close>, \<open>MurmurHash3\<close>: \<open>hdr/details.hpp\<close>, \<open>src/hdr/details.cpp\<close>, \<open>src/murmur_hash3.cpp\<close>.
  \<^item> \<open>HdrScion\<close>, \<open>HdrScionSpec\<close>, \<open>HeaderProperties\<close>: \<open>hdr/scion.hpp\<close>, \<open>hdr/udp.hpp\<close>, \<open>hdr/ethernet.hpp\<close>.
    \<open>HdrIp\<close>: \<open>hdr/ip.hpp\<close>. \<open>HdrScmp\<close>: \<open>hdr/scmp.hpp\<close>. \<open>Stun\<close>, \<open>StunSpec\<close>: \<open>hdr/stun.hpp\<close>. \<open>Tcp\<close>, \<open>TcpOptSpec\<close>,
    \<open>TcpSpec\<close>: \<open>hdr/tcp.hpp\<close>. A header class is a record, its \<open>serialize\<close> template a function over either
    stream; each header interprets the contract that fits it. \<open>Extension\<close>: \<open>extensions/extension.hpp\<close>.
  \<^item> \<open>ScionPath\<close>, \<open>ScionPathSpec\<close>: \<open>src/path/path.cpp\<close> and \<open>path/decoded_scion.hpp\<close>. \<open>RawPath\<close>, \<open>RawPathSpec\<close>,
    \<open>PathProperties\<close>: \<open>path/raw_hop_range.hpp\<close>, \<open>path/raw.hpp\<close>, \<open>path/digest.hpp\<close>. \<open>Path\<close>: \<open>path/path.hpp\<close>,
    \<open>path/path_meta.hpp\<close>, \<open>path/attributes.hpp\<close>, \<open>details/protobuf_time.hpp\<close>.
  \<^item> \<open>PathMtu\<close>, \<open>PathMtuSpec\<close>: \<open>scmp/path_mtu.hpp\<close>, \<open>scmp/handler.hpp\<close>. \<open>PathCache\<close>, \<open>PathCacheSpec\<close>,
    \<open>PathCacheProperties\<close>: \<open>path/cache.hpp\<close> and its two users, \<open>src/scion_c/scion.cpp\<close> and
    \<open>scitra/src/scitra-tun/scitra_tun.cpp\<close>.
  \<^item> \<open>Regex\<close>, \<open>RegexSpec\<close>: the part of \<open>std::regex\<close> that is used. \<open>Policy\<close>, \<open>PolicyProperties\<close>, \<open>PolicySequence\<close>,
    \<open>PolicyText\<close>, \<open>PolicyCompile\<close>, \<open>PolicyMeaning\<close>: \<open>path/policy.hpp\<close>, \<open>src/path/policy.cpp\<close>,
    \<open>details/from_chars.hpp\<close>.
  \<^item> \<open>HeaderCache\<close>, \<open>Packager\<close>: the three classes under \<open>include/scion/socket\<close>. \<open>PacketSpec\<close>, \<open>PacketProperties\<close>,
    \<open>PacketExt\<close>, \<open>PacketUpdate\<close>, \<open>PackagerSpec\<close> are their lemmas and properties.
  \<^item> \<open>PacketBuffer\<close>: \<open>scitra/packet.hpp\<close>, \<open>scitra/src/packet.cpp\<close>, with \<open>PacketBufferSpec\<close>, \<open>PacketEmit\<close>, \<open>PacketParse\<close>
    and \<open>PacketBufferProperties\<close>. \<open>Translator\<close>: \<open>scitra/translator.hpp\<close>, \<open>scitra/src/translator.cpp\<close>, with
    \<open>TranslatorSpec\<close>, \<open>TranslatorProperties\<close>, \<open>TranslatorErrors\<close> and \<open>TranslatorWire\<close>.
\<close>

text \<open>
  \<^bold>\<open>How the code is modelled.\<close> Names are those of the code; where they clash the class comes first
  (\<open>PathMeta_serialize\<close>). Classes are records, enumerations datatypes or bytes, and integers words of their
  width. The development assumes a little-endian 64-bit platform, where \<open>uint_fast16_t\<close> has 64 bits. A method
  that changes its object returns the changed object. A function that returns \<open>Maybe\<close> or an error code returns
  a value of \<open>error_code + 'a\<close> or an error code, a stream operation an error message or a value; \<open>None\<close> is an
  exception, undefined behaviour or a loop that does not end, as each theory says. An \<open>assert\<close> is a
  condition of the theorems about its function. Shared objects the code mutates (the paths of the path
  cache) live in a heap, pointers are indices.

  Loops are structural recursions, or functions with a termination proof. Five loops whose end depends on
  the data are \<open>partial_function (option)\<close>, and that they end is proved: the option parsers
  (\<open>tcp_options_end\<close> in \<open>TcpSpec\<close>, \<open>parseAttributes_ends\<close> in \<open>StunSpec\<close>, \<open>parseExtensions_ends\<close> in
  \<open>PacketExt\<close>), the walk over raw hops
  (\<open>raw_hops_terminate\<close>) and the failover chain of a policy (\<open>policy_set_apply\<close>). There is no fuel, except
  that \<open>policy_chain\<close>, the list of the policies a chain runs through, is cut off at the number of policies of the
  set; a chain names smaller and smaller indices, so it is never longer. Matching a regular expression
  bounds the iterations of a loop by the length of the text, as an iteration that consumes nothing ends it;
  \<open>RegexSpec\<close> shows that no match is lost.

  \<^bold>\<open>What is outside\<close> is a parameter: clock readings, random numbers and hash seeds are arguments, and so are the
  callbacks of the translator (\<open>getPath\<close>, \<open>getMTU\<close>), the path provider (locale \<open>path_provider\<close>, interpreted on the
  providers of the C interface and of the translator), extension classes (records of their virtual functions;
  \<open>exts_write\<close> says that an object writes as many bytes as it announces, \<open>ext_parses\<close> that its parser
  consumes what it accepts), the JSON parser, the random
  shuffle (\<open>shuffle\<close>, of which only that it permutes is used) and regular expressions outside of the
  modelled part (\<open>external\<close>).

  \<^bold>\<open>What the lemmas show.\<close>

  \<^item> Streams and headers: each header is a codec, so what is written is read back and readers accept what
    the formats allow; the exact conditions where the code falls short of that (the checksum of IPv4 headers, the
    size and the padding of TCP options). Readers and writers stay inside of their buffers.
  \<^item> Addresses: text forms are read back, with the exception of certain runs of zeros in IPv6 addresses; the
    mapping to IPv6 is inverted.
  \<^item> Paths: reversal is an involution, and reversing the bytes in place implements the reversal of the
    decoded path; raw and decoded hops agree under exact conditions; cached digests are current.
  \<^item> Path management: the MTU store is a bounded map that never raises an MTU; the path cache returns valid,
    unexpired paths and asks its provider no more often than intended; SCMP messages mark the affected paths.
  \<^item> Policies: a set that was loaded has no dangling references or cycles, applying it returns the sorted paths of
    the first policy in the chain that leaves one; the regular expression of a hop sequence means what the
    sequence says.
  \<^item> Packets: a packed payload is unpacked by its receiver, and only what passes every check is delivered; the state
    of a packager only changes by its own operations and by the reply to a pending STUN request; what an update of
    the payload gives, compared with a new header.
  \<^item> Translation: what passes in either direction and what becomes of it, which ICMP errors are returned, that the
    buffer stays consistent, and that a packet translated twice arrives as it was sent.

  \<^bold>\<open>Not modelled\<close>: system calls and asynchronous I/O (\<open>include/scion/posix\<close>, \<open>include/scion/asio\<close>), the gRPC
  client of the daemon and generated code, name resolution, the interposer, in-band telemetry and DRKey, the text
  user interface, netlink and start-up of the translator, the rest of the C interface, examples and tests, because
  they are glue around system calls or other libraries; \<open>print\<close> and \<open>format\<close> functions other than those of
  addresses, because only debug output uses them; locks, because every operation under one is modelled as one step.
\<close>

end
